(* ===== verification/Prelude.thy ===== *)
theory Prelude
  imports Main "HOL-Library.Word" "HOL-Library.Monad_Syntax"
begin

text \<open>
  Shared vocabulary of the development.

  The C program works on byte buffers, NUL-terminated strings and fixed-width integers.
  A byte is a \<^typ>\<open>char\<close> (HOL characters are exactly the 256 byte values), a buffer is a
  \<^typ>\<open>string\<close> of bytes, and the value of a C string is the buffer up to its first NUL.
  Operations that C leaves undefined, and \<open>assert\<close>s that fail, are the value \<^const>\<open>None\<close>
  of the option monad ("fault"); the \<open>do\<close> notation of the library threads it.

  This theory holds the machine integer types, C strings, \<open>strcmp\<close>, block copies, little-endian
  memory images and the option-monad and list lemmas the components share.
\<close>

named_theorems mem_simps \<open>reading and writing byte buffers\<close>
named_theorems wire_simps \<open>sending and receiving encoded values\<close>
named_theorems wlp_simps \<open>weakest preconditions of operations that can fault\<close>
named_theorems fault_simps \<open>when an operation has a defined result\<close>

type_synonym u16 = "16 word"
type_synonym u32 = "32 word"
type_synonym u64 = "64 word"
type_synonym bytes = string

section \<open>C strings\<close>

abbreviation nul :: char where
  "nul \<equiv> CHR 0x00"

text \<open>The value of a buffer read as a C string; a buffer without NUL has none.\<close>

definition cstr :: "bytes \<Rightarrow> string option" where
  "cstr buf = (if nul \<in> set buf then Some (takeWhile (\<lambda>c. c \<noteq> nul) buf) else None)"

definition c_string :: "string \<Rightarrow> bool" where
  "c_string s \<longleftrightarrow> nul \<notin> set s"

text \<open>The bytes of a C string with its terminator: \<open>PSTRLEN\<close> of them.\<close>

definition c_bytes :: "string \<Rightarrow> bytes" where
  "c_bytes s = s @ [nul]"

lemma length_c_bytes [simp]: "length (c_bytes s) = Suc (length s)"
  by (simp add: c_bytes_def)

lemma c_bytes_not_Nil [simp]: "c_bytes s \<noteq> []"
  by (simp add: c_bytes_def)

lemma cstr_c_bytes [mem_simps]: "c_string s \<Longrightarrow> cstr (c_bytes s @ rest) = Some s"
  by (auto simp: cstr_def c_bytes_def c_string_def takeWhile_append)

lemma cstr_c_bytes0 [mem_simps]: "c_string s \<Longrightarrow> cstr (c_bytes s) = Some s"
  using cstr_c_bytes [of s "[]"] by simp

lemma cstr_c_string: "cstr buf = Some s \<Longrightarrow> c_string s"
  by (auto simp: cstr_def c_string_def split: if_splits dest: set_takeWhileD)

lemma cstr_length: "cstr buf = Some s \<Longrightarrow> length s < length buf"
proof -
  assume "cstr buf = Some s"
  then have nul: "nul \<in> set buf" and s: "s = takeWhile (\<lambda>c. c \<noteq> nul) buf"
    by (auto simp: cstr_def split: if_splits)
  have "s \<noteq> buf"
  proof
    assume "s = buf"
    then have "\<forall>c \<in> set buf. c \<noteq> nul"
      using s takeWhile_eq_all_conv [of "\<lambda>c. c \<noteq> nul" buf] by simp
    with nul show False by blast
  qed
  then show ?thesis
    using s by (metis length_takeWhile_le le_neq_implies_less takeWhile_eq_take take_all_iff)
qed

lemma cstr_padded [mem_simps]:
  "c_string s \<Longrightarrow> cstr (s @ replicate (Suc n) nul) = Some s"
  using cstr_c_bytes [of s "replicate n nul"] by (simp add: c_bytes_def)

text \<open>First byte of a C string: the terminator for the empty string.\<close>

fun first_char :: "string \<Rightarrow> char" where
  "first_char [] = nul"
| "first_char (c # cs) = c"

fun strcmp :: "string \<Rightarrow> string \<Rightarrow> int" where
  "strcmp [] [] = 0"
| "strcmp [] (d # ds) = -1"
| "strcmp (c # cs) [] = 1"
| "strcmp (c # cs) (d # ds) =
     (if c = d then strcmp cs ds else if (of_char c :: nat) < of_char d then -1 else 1)"

lemma strcmp_eq_0_iff [simp]: "strcmp s t = 0 \<longleftrightarrow> s = t"
  by (induction s t rule: strcmp.induct) auto

section \<open>Memory blocks\<close>

text \<open>
  \<open>overwrite off src buf\<close> stores \<open>src\<close> at offset \<open>off\<close> of the block \<open>buf\<close>
  (\<open>memcpy\<close>, \<open>memset\<close>); a store past the end of the block is a fault.
\<close>

definition overwrite :: "nat \<Rightarrow> bytes \<Rightarrow> bytes \<Rightarrow> bytes" where
  "overwrite off src buf = take off buf @ src @ drop (off + length src) buf"

definition store :: "nat \<Rightarrow> bytes \<Rightarrow> bytes \<Rightarrow> bytes option" where
  "store off src buf = (if off + length src \<le> length buf then Some (overwrite off src buf) else None)"

text \<open>
  \<open>load junk n buf\<close> reads \<open>n\<close> bytes from the start of a block; bytes past its end are whatever
  the heap holds there (\<open>junk\<close>).
\<close>

definition load :: "(nat \<Rightarrow> char) \<Rightarrow> nat \<Rightarrow> bytes \<Rightarrow> bytes" where
  "load junk n buf = take n buf @ map junk [length buf..<n]"

lemma length_overwrite [mem_simps]:
  "off + length src \<le> length buf \<Longrightarrow> length (overwrite off src buf) = length buf"
  by (simp add: overwrite_def)

lemma length_load [simp]: "length (load junk n buf) = n"
  by (simp add: load_def min_def)

lemma load_exact [mem_simps]: "length buf = n \<Longrightarrow> load junk n buf = buf"
  by (simp add: load_def)

lemma load_short: "length buf \<le> n \<Longrightarrow> load junk n buf = buf @ map junk [length buf..<n]"
  by (simp add: load_def)

lemma cstr_load [mem_simps]:
  assumes "c_string s" and "length s < n"
  shows "cstr (load junk n (c_bytes s)) = Some s"
proof -
  have "load junk n (c_bytes s) = c_bytes s @ map junk [Suc (length s)..<n]"
    using assms by (simp add: load_short)
  then show ?thesis using assms(1) by (simp add: cstr_c_bytes)
qed

lemma store_SomeD: "store off src buf = Some buf' \<Longrightarrow> length buf' = length buf"
  by (auto simp: store_def length_overwrite split: if_splits)

lemma store_Some [mem_simps]:
  "off + length src \<le> length buf \<Longrightarrow> store off src buf = Some (overwrite off src buf)"
  by (simp add: store_def)

lemma cstr_overwrite0 [mem_simps]:
  "c_string s \<Longrightarrow> cstr (overwrite 0 (c_bytes s) buf) = Some s"
  by (simp add: overwrite_def cstr_c_bytes)

section \<open>Little-endian memory images\<close>

fun nat_le :: "nat \<Rightarrow> nat \<Rightarrow> bytes" where
  "nat_le 0 x = []"
| "nat_le (Suc n) x = char_of (x mod 256) # nat_le n (x div 256)"

fun le_nat :: "bytes \<Rightarrow> nat" where
  "le_nat [] = 0"
| "le_nat (c # cs) = of_char c + 256 * le_nat cs"

lemma length_nat_le [simp]: "length (nat_le n x) = n"
  by (induction n arbitrary: x) auto

lemma nat_le_numeral [mem_simps]:
  "nat_le (numeral k) x = char_of (x mod 256) # nat_le (pred_numeral k) (x div 256)"
  by (simp only: numeral_eq_Suc [of k] nat_le.simps)

lemmas byte_eval = nat_le_numeral char_of_def bit_Suc_0_iff

lemma le_nat_nat_le [simp]: "le_nat (nat_le n x) = x mod 256 ^ n"
proof (induction n arbitrary: x)
  case 0
  then show ?case by simp
next
  case (Suc n)
  have "x mod 256 + 256 * (x div 256 mod 256 ^ n) = x mod (256 * 256 ^ n)"
    by (simp add: mod_mult2_eq)
  then show ?case using Suc by simp
qed

lemma le_nat_less: "le_nat cs < 256 ^ length cs"
proof (induction cs)
  case Nil
  then show ?case by simp
next
  case (Cons c cs)
  have c: "of_char c < (256 :: nat)" by simp
  have "256 * Suc (le_nat cs) \<le> 256 * 256 ^ length cs"
    using Cons by (intro mult_le_mono) auto
  then have "256 + 256 * le_nat cs \<le> 256 ^ length (c # cs)" by simp
  with c have "of_char c + 256 * le_nat cs < 256 ^ length (c # cs)" by linarith
  then show ?case by (simp only: le_nat.simps)
qed

lemma nat_le_le_nat [simp]: "nat_le (length cs) (le_nat cs) = cs"
proof (induction cs)
  case Nil
  then show ?case by simp
next
  case (Cons c cs)
  show ?case using Cons by simp
qed

lemma nat_le_inject:
  "x < 256 ^ n \<Longrightarrow> y < 256 ^ n \<Longrightarrow> nat_le n x = nat_le n y \<longleftrightarrow> x = y"
  by (metis le_nat_nat_le mod_less)

section \<open>The option monad\<close>

text \<open>\<open>check b\<close> is \<open>assert(b)\<close>: a fault when the condition fails.\<close>

definition check :: "bool \<Rightarrow> unit option" where
  "check b = (if b then Some () else None)"

lemma check_True [simp]: "check True = Some ()"
  by (simp add: check_def)

lemma check_False [simp]: "check False = None"
  by (simp add: check_def)

lemma check_eq_Some [fault_simps]: "check b = Some u \<longleftrightarrow> b"
  by (simp add: check_def)

lemma bind_Some_iff [fault_simps]:
  "Option.bind m f = Some y \<longleftrightarrow> (\<exists>x. m = Some x \<and> f x = Some y)"
  by (cases m) auto

text \<open>\<open>wlp m P\<close>: what the operation returns, if it has a defined result, satisfies \<open>P\<close>.\<close>

definition wlp :: "'a option \<Rightarrow> ('a \<Rightarrow> bool) \<Rightarrow> bool" where
  "wlp m P \<longleftrightarrow> (\<forall>x. m = Some x \<longrightarrow> P x)"

lemma wlpD: "wlp m P \<Longrightarrow> m = Some x \<Longrightarrow> P x"
  by (simp add: wlp_def)

lemma wlp_mono: "wlp m P \<Longrightarrow> (\<And>x. P x \<Longrightarrow> Q x) \<Longrightarrow> wlp m Q"
  by (simp add: wlp_def)

lemma wlp_None [wlp_simps]: "wlp None P"
  by (simp add: wlp_def)

lemma wlp_Some [wlp_simps]: "wlp (Some x) P = P x"
  by (simp add: wlp_def)

lemma wlp_bind [wlp_simps]: "wlp (Option.bind m f) P = wlp m (\<lambda>x. wlp (f x) P)"
  by (cases m) (simp_all add: wlp_def)

lemma wlp_if [wlp_simps]: "wlp (if b then m else n) P = ((b \<longrightarrow> wlp m P) \<and> (\<not> b \<longrightarrow> wlp n P))"
  by simp

lemma wlp_check [wlp_simps]: "wlp (check b) P = (b \<longrightarrow> P ())"
  by (auto simp: wlp_def check_def)

lemma wlp_store [wlp_simps]:
  "wlp (store off src buf) P = (off + length src \<le> length buf \<longrightarrow> P (overwrite off src buf))"
  by (auto simp: wlp_def store_def)

section \<open>Lists\<close>

lemma list_slots_nth:
  assumes "length xs = n * m" and "i < n" and "j < m"
  shows "i * m + j < length xs"
proof -
  have "Suc i * m \<le> n * m" using assms(2) by (intro mult_le_mono) auto
  then show ?thesis using assms by simp
qed

end
