(* ===== verification/Net.thy ===== *)
theory Net
  imports Prelude
begin

text \<open>
  The network as one process sees it. ZeroMQ, POSIX shared memory and the clock are not part of
  the repository: what they deliver is input of the model. \<open>rx\<close> holds, for each socket, the
  results of the next receive calls (a frame with its \<open>ZMQ_RCVMORE\<close> flag, or an error; an
  exhausted script is an error, as an expired \<open>ZMQ_RCVTIMEO\<close> or a terminated context is),
  \<open>shm\<close> the chunks that the next reads of a shared segment find, \<open>send_ok\<close> and
  \<open>conn_ok\<close> whether the next sends and connects succeed (they do when the script is
  exhausted), \<open>clk\<close> the values of the next clock readings, and \<open>junk\<close> the bytes found in
  uninitialised memory. What the process does to the outside is appended to the trace \<open>tx\<close>.
\<close>

datatype sock = LocalSocket | ServerSocket | PeerSocket | ActorPipe
  | SuccessorSocket | PredecessorSocket | ClientSocket | ClientSocket2

datatype rframe = RErr | RMsg bytes bool

text \<open>A heap pointer: null, a live block with its contents, or a block already freed.\<close>

datatype cptr = Null | Live bytes | Freed

text \<open>One message of the shared memory segment: \<open>id\<close>, \<open>len\<close>, \<open>total\<close> and the data.\<close>

record chunk =
  ck_id :: u32
  ck_len :: nat
  ck_total :: nat
  ck_data :: bytes

text \<open>\<open>generic_token_t\<close> of \<open>p2pmd.h\<close>.\<close>

record generic_token =
  tk_id :: u32
  tk_ttl :: int
  tk_buf1 :: cptr
  tk_buf2 :: cptr
  tk_len1 :: nat
  tk_len2 :: nat

datatype event =
    Tx sock bytes bool
  | TxToken sock generic_token
  | ShmTx string chunk
  | Conn sock string
  | Disc sock string
  | CloseSock sock
  | OpenSock sock

record net =
  rx :: "sock \<Rightarrow> rframe list"
  rcvmore :: "sock \<Rightarrow> bool"
  shm :: "string \<Rightarrow> chunk list"
  tx :: "event list"
  send_ok :: "bool list"
  conn_ok :: "bool list"
  clk :: "int list"
  clk_last :: int
  junk :: "nat \<Rightarrow> char"

section \<open>The calls into ZeroMQ\<close>

text \<open>
  \<open>zmq_recv\<close> stores at most the size of the buffer and returns the size of the whole frame;
  \<open>-1\<close> and an untouched buffer on an error.
\<close>

definition zmq_recv :: "sock \<Rightarrow> bytes \<Rightarrow> net \<Rightarrow> int \<times> bytes \<times> net" where
  "zmq_recv s buf w = (case rx w s of
     [] \<Rightarrow> (-1, buf, w)
   | RErr # fs \<Rightarrow> (-1, buf, w\<lparr>rx := (rx w)(s := fs)\<rparr>)
   | RMsg m mo # fs \<Rightarrow>
       (int (length m), take (length buf) m @ drop (length m) buf,
        w\<lparr>rx := (rx w)(s := fs), rcvmore := (rcvmore w)(s := mo)\<rparr>))"

definition emit :: "event \<Rightarrow> net \<Rightarrow> net" where
  "emit e w = w\<lparr>tx := tx w @ [e]\<rparr>"

text \<open>\<open>zmq_send\<close>: the number of bytes sent, or \<open>-1\<close>.\<close>

definition zmq_send :: "sock \<Rightarrow> bytes \<Rightarrow> bool \<Rightarrow> net \<Rightarrow> int \<times> net" where
  "zmq_send s m mo w = (case send_ok w of
     [] \<Rightarrow> (int (length m), emit (Tx s m mo) w)
   | ok # oks \<Rightarrow>
       (if ok then (int (length m), emit (Tx s m mo) (w\<lparr>send_ok := oks\<rparr>))
        else (-1, w\<lparr>send_ok := oks\<rparr>)))"

text \<open>The token is sent by address within the process.\<close>

definition zmq_send_token :: "sock \<Rightarrow> generic_token \<Rightarrow> net \<Rightarrow> net" where
  "zmq_send_token s tk w = (case send_ok w of
     [] \<Rightarrow> emit (TxToken s tk) w
   | ok # oks \<Rightarrow> if ok then emit (TxToken s tk) (w\<lparr>send_ok := oks\<rparr>) else w\<lparr>send_ok := oks\<rparr>)"

definition zmq_connect :: "sock \<Rightarrow> string \<Rightarrow> net \<Rightarrow> int \<times> net" where
  "zmq_connect s addr w = (case conn_ok w of
     [] \<Rightarrow> (0, emit (Conn s addr) w)
   | ok # oks \<Rightarrow>
       (if ok then (0, emit (Conn s addr) (w\<lparr>conn_ok := oks\<rparr>))
        else (-1, w\<lparr>conn_ok := oks\<rparr>)))"

definition zclock_mono :: "net \<Rightarrow> int \<times> net" where
  "zclock_mono w = (case clk w of
     [] \<Rightarrow> (clk_last w, w)
   | t # ts \<Rightarrow> (t, w\<lparr>clk := ts, clk_last := t\<rparr>))"

definition uninit :: "net \<Rightarrow> nat \<Rightarrow> bytes" where
  "uninit w n = map (junk w) [0..<n]"

lemma length_uninit [simp]: "length (uninit w n) = n"
  by (simp add: uninit_def)

section \<open>Receiving and sending on a reliable network\<close>

text \<open>
  Facts about one call: what it consumes of the scripts and what it leaves alone.
\<close>

lemma emit_simps [simp]:
  "rx (emit e w) = rx w" "rcvmore (emit e w) = rcvmore w" "shm (emit e w) = shm w"
  "tx (emit e w) = tx w @ [e]" "send_ok (emit e w) = send_ok w" "conn_ok (emit e w) = conn_ok w"
  "junk (emit e w) = junk w" "clk (emit e w) = clk w" "clk_last (emit e w) = clk_last w"
  by (simp_all add: emit_def)

lemma zmq_send_ok [wire_simps]:
  "send_ok w = [] \<Longrightarrow> zmq_send s m mo w = (int (length m), emit (Tx s m mo) w)"
  by (simp add: zmq_send_def)

lemma zmq_connect_ok [wire_simps]:
  "conn_ok w = [] \<Longrightarrow> zmq_connect s a w = (0, emit (Conn s a) w)"
  by (simp add: zmq_connect_def)

lemma zmq_send_rx [simp]:
  "rx (snd (zmq_send s m mo w)) = rx w"
  "rcvmore (snd (zmq_send s m mo w)) = rcvmore w"
  "shm (snd (zmq_send s m mo w)) = shm w"
  "junk (snd (zmq_send s m mo w)) = junk w"
  "conn_ok (snd (zmq_send s m mo w)) = conn_ok w"
  by (simp_all add: zmq_send_def split: list.splits)

lemma zmq_recv_Msg [wire_simps]:
  "rx w s = RMsg m mo # fs \<Longrightarrow>
   zmq_recv s buf w =
     (int (length m), take (length buf) m @ drop (length m) buf,
      w\<lparr>rx := (rx w)(s := fs), rcvmore := (rcvmore w)(s := mo)\<rparr>)"
  by (simp add: zmq_recv_def)

lemma zmq_recv_Nil [wire_simps]: "rx w s = [] \<Longrightarrow> zmq_recv s buf w = (-1, buf, w)"
  by (simp add: zmq_recv_def)

lemma zmq_recv_RErr [wire_simps]:
  "rx w s = RErr # fs \<Longrightarrow> zmq_recv s buf w = (-1, buf, w\<lparr>rx := (rx w)(s := fs)\<rparr>)"
  by (simp add: zmq_recv_def)

lemma zmq_recv_length: "zmq_recv s buf w = (n, buf', w') \<Longrightarrow> length buf' = length buf"
  by (auto simp: zmq_recv_def split: list.splits rframe.splits)

text \<open>The trace only grows, and a receive does not touch it.\<close>

lemma zmq_recv_tx: "zmq_recv s buf w = (n, buf', w') \<Longrightarrow> tx w' = tx w \<and> send_ok w' = send_ok w"
  by (auto simp: zmq_recv_def split: list.splits rframe.splits)

end
