(* ===== verification/Wire.thy ===== *)
theory Wire
  imports Net
begin

unbundle bit_operations_syntax

text \<open>
  \<^verbatim>\<open>src/p2pm_utilities.c\<close>: integers and strings on a socket, and the configuration record.
  The host is little-endian (the build uses \<^verbatim>\<open>-march=native\<close> on x86-64), so the memory image
  of an integer is its little-endian bytes and \<open>htonl\<close> reverses them; the macros \<open>HTONLL\<close> and
  \<open>NTOHLL\<close> are translated with their test of the host order. The locale \<open>uint_codec\<close> is the
  contract of one sender/receiver pair, interpreted for the 16, 32 and 64 bit functions.
\<close>

datatype p2pm_opcodes =
    P2PM_OP_FAILURE | P2PM_OP_SUCCESS | P2PM_OP_TRYAGAIN | P2PM_OP_TIMEOUT | P2PM_OP_LIVE
  | P2PM_OP_DEAD | P2PM_OP_TODO | P2PM_OP_INVALID | P2PM_OP_FINDING_HEAD | P2PM_OP_FINDING_TAIL
  | P2PM_OP_FORMED_ONE_RING | P2PM_OP_LIST_UNSYNCED | P2PM_OP_NEED_ONE_RING

section \<open>Byte order\<close>

definition htons :: "u16 \<Rightarrow> u16" where
  "htons x = word_of_nat (le_nat (rev (nat_le 2 (unat x))))"

definition htonl :: "u32 \<Rightarrow> u32" where
  "htonl x = word_of_nat (le_nat (rev (nat_le 4 (unat x))))"

definition HTONLL :: "u64 \<Rightarrow> u64" where
  "HTONLL x = (if 1 = htonl 1 then x
     else push_bit 32 (ucast (htonl (ucast (x AND 0xFFFFFFFF)))) OR ucast (htonl (ucast (drop_bit 32 x))))"

definition NTOHLL :: "u64 \<Rightarrow> u64" where
  "NTOHLL x = (if 1 = htonl 1 then x
     else push_bit 32 (ucast (htonl (ucast (x AND 0xFFFFFFFF)))) OR ucast (htonl (ucast (drop_bit 32 x))))"

text \<open>The wire format: the bytes most significant first.\<close>

definition be_bytes :: "nat \<Rightarrow> nat \<Rightarrow> bytes" where
  "be_bytes n x = rev (nat_le n x)"

lemma length_be_bytes [simp]: "length (be_bytes n x) = n"
  by (simp add: be_bytes_def)

lemma le_nat_append: "le_nat (xs @ ys) = le_nat xs + 256 ^ length xs * le_nat ys"
  by (induction xs) (auto simp: algebra_simps)

lemma nat_le_add: "nat_le (m + n) x = nat_le m x @ nat_le n (x div 256 ^ m)"
  by (induction m arbitrary: x) (auto simp: div_mult2_eq)

lemma nat_le_mod: "nat_le n (x mod 256 ^ n) = nat_le n x"
proof -
  have "nat_le n (le_nat (nat_le n x)) = nat_le n x"
    using nat_le_le_nat [of "nat_le n x"] by simp
  then show ?thesis by simp
qed

lemma le_nat_rev_less: "le_nat (rev (nat_le n x)) < 256 ^ n"
  using le_nat_less [of "rev (nat_le n x)"] by simp

lemma unat_htons: "unat (htons x) = le_nat (rev (nat_le 2 (unat x)))"
  using le_nat_rev_less [of 2 "unat x"] by (simp add: htons_def unat_of_nat)

lemma unat_htonl: "unat (htonl x) = le_nat (rev (nat_le 4 (unat x)))"
  using le_nat_rev_less [of 4 "unat x"] by (simp add: htonl_def unat_of_nat)

lemma nat_le_le_nat_rev: "nat_le n (le_nat (rev (nat_le n x))) = be_bytes n x"
  using nat_le_le_nat [of "rev (nat_le n x)"] by (simp add: be_bytes_def)

lemma image_htons: "nat_le 2 (unat (htons x)) = be_bytes 2 (unat x)"
  by (simp only: unat_htons nat_le_le_nat_rev)

lemma image_htonl: "nat_le 4 (unat (htonl x)) = be_bytes 4 (unat x)"
  by (simp only: unat_htonl nat_le_le_nat_rev)

lemma htonl_1: "htonl 1 \<noteq> 1"
proof
  assume "htonl 1 = 1"
  then have "unat (htonl 1) = 1" by simp
  then show False by (simp add: unat_htonl byte_eval)
qed

lemma unat_join:
  fixes a b :: u32
  shows "unat (push_bit 32 (ucast a :: u64) OR ucast b) = 2 ^ 32 * unat a + unat b"
proof -
  have "push_bit 32 (ucast a :: u64) AND ucast b = 0"
    by (rule bit_word_eqI) (auto simp: bit_simps dest: bit_imp_le_length)
  then have eq: "push_bit 32 (ucast a :: u64) OR ucast b = push_bit 32 (ucast a) + ucast b"
    by (rule disjunctive_add_eq_or [symmetric])
  have a: "unat a < 2 ^ 32" and b: "unat b < 2 ^ 32"
    using unsigned_less [of a, where ?'a = nat] unsigned_less [of b, where ?'a = nat] by simp_all
  have ua: "unat (push_bit 32 (ucast a :: u64)) = 2 ^ 32 * unat a"
    using a by (simp add: push_bit_eq_mult unat_word_ariths unsigned_ucast_eq take_bit_nat_eq_self mult.commute)
  have ub: "unat (ucast b :: u64) = unat b"
    using b by (simp add: unsigned_ucast_eq take_bit_nat_eq_self)
  show ?thesis
    unfolding eq using a b by (simp add: unat_word_ariths ua ub)
qed

lemma unat_HTONLL: "unat (HTONLL x) = le_nat (rev (nat_le 8 (unat x)))"
proof -
  define lo hi :: u32 where "lo = ucast (x AND 0xFFFFFFFF)" and "hi = ucast (drop_bit 32 x)"
  have "unat (HTONLL x) = 2 ^ 32 * unat (htonl lo) + unat (htonl hi)"
    by (simp add: HTONLL_def htonl_1 [symmetric] unat_join lo_def hi_def)
  moreover have lo: "unat lo = unat x mod 2 ^ 32"
  proof -
    have "x AND 0xFFFFFFFF = take_bit 32 x"
      using take_bit_eq_mask [of 32 x] by (simp add: mask_eq_exp_minus_1)
    then have "unat lo = take_bit 32 (unat (take_bit 32 x))"
      by (simp only: lo_def unsigned_ucast_eq) simp
    also have "\<dots> = take_bit 32 (unat x)"
      by (simp add: unsigned_take_bit_eq)
    finally show ?thesis by (simp only: take_bit_eq_mod)
  qed
  moreover have hi: "unat hi = unat x div 2 ^ 32"
  proof -
    have "unat x div 2 ^ 32 < 2 ^ 32"
      using unsigned_less [of x, where ?'a = nat] by (simp add: less_mult_imp_div_less)
    then have "take_bit 32 (unat x div 2 ^ 32) = unat x div 2 ^ 32"
      by (simp add: take_bit_nat_eq_self)
    moreover have "unat (drop_bit 32 x) = unat x div 2 ^ 32"
      by (simp only: unat_drop_bit_eq) (simp only: drop_bit_eq_div)
    ultimately show ?thesis
      by (simp only: hi_def unsigned_ucast_eq) simp
  qed
  moreover have "nat_le 8 (unat x) = nat_le 4 (unat lo) @ nat_le 4 (unat hi)"
    using nat_le_add [of 4 4 "unat x"] nat_le_mod [of 4 "unat x"] by (simp add: lo hi)
  ultimately show ?thesis
    by (simp add: le_nat_append unat_htonl)
qed

lemma NTOHLL_HTONLL: "NTOHLL = HTONLL"
  by (rule ext) (simp only: NTOHLL_def HTONLL_def)

lemma image_HTONLL: "nat_le 8 (unat (HTONLL x)) = be_bytes 8 (unat x)"
  by (simp only: unat_HTONLL nat_le_le_nat_rev)

section \<open>Integers on a socket\<close>

definition p2pm_send_uint16 :: "sock \<Rightarrow> u16 \<Rightarrow> bool \<Rightarrow> net \<Rightarrow> int \<times> net" where
  "p2pm_send_uint16 s x mo w = zmq_send s (nat_le 2 (unat (htons x))) mo w"

definition p2pm_send_uint32 :: "sock \<Rightarrow> u32 \<Rightarrow> bool \<Rightarrow> net \<Rightarrow> int \<times> net" where
  "p2pm_send_uint32 s x mo w = zmq_send s (nat_le 4 (unat (htonl x))) mo w"

definition p2pm_send_uint64 :: "sock \<Rightarrow> u64 \<Rightarrow> bool \<Rightarrow> net \<Rightarrow> int \<times> net" where
  "p2pm_send_uint64 s x mo w = zmq_send s (nat_le 8 (unat (HTONLL x))) mo w"

text \<open>The receivers overwrite the caller's variable, of which a short frame keeps the rest.\<close>

definition p2pm_recv_uint16 :: "sock \<Rightarrow> u16 \<Rightarrow> net \<Rightarrow> p2pm_opcodes \<times> u16 \<times> net" where
  "p2pm_recv_uint16 s old w =
     (let (n, buf, w) = zmq_recv s (nat_le 2 (unat old)) w
      in if n < 0 then (P2PM_OP_FAILURE, old, w)
         else (P2PM_OP_SUCCESS, htons (word_of_nat (le_nat buf)), w))"

definition p2pm_recv_uint32 :: "sock \<Rightarrow> u32 \<Rightarrow> net \<Rightarrow> p2pm_opcodes \<times> u32 \<times> net" where
  "p2pm_recv_uint32 s old w =
     (let (n, buf, w) = zmq_recv s (nat_le 4 (unat old)) w
      in if n < 0 then (P2PM_OP_FAILURE, old, w)
         else (P2PM_OP_SUCCESS, htonl (word_of_nat (le_nat buf)), w))"

definition p2pm_recv_uint64 :: "sock \<Rightarrow> u64 \<Rightarrow> net \<Rightarrow> p2pm_opcodes \<times> u64 \<times> net" where
  "p2pm_recv_uint64 s old w =
     (let (n, buf, w) = zmq_recv s (nat_le 8 (unat old)) w
      in if n < 0 then (P2PM_OP_FAILURE, old, w)
         else (P2PM_OP_SUCCESS, NTOHLL (word_of_nat (le_nat buf)), w))"

text \<open>The value of an uninitialised 32 bit variable.\<close>

definition uninit32 :: "net \<Rightarrow> u32" where
  "uninit32 w = word_of_nat (le_nat (uninit w 4))"

section \<open>The contract of an integer codec\<close>

text \<open>The net after one frame was taken from a socket.\<close>

definition took :: "sock \<Rightarrow> rframe list \<Rightarrow> bool \<Rightarrow> net \<Rightarrow> net" where
  "took s fs mo w = w\<lparr>rx := (rx w)(s := fs), rcvmore := (rcvmore w)(s := mo)\<rparr>"

lemma took_simps [simp]:
  "rx (took s fs mo w) = (rx w)(s := fs)" "rcvmore (took s fs mo w) = (rcvmore w)(s := mo)"
  "tx (took s fs mo w) = tx w" "send_ok (took s fs mo w) = send_ok w"
  "conn_ok (took s fs mo w) = conn_ok w" "shm (took s fs mo w) = shm w"
  "junk (took s fs mo w) = junk w" "clk (took s fs mo w) = clk w"
  "clk_last (took s fs mo w) = clk_last w"
  by (simp_all add: took_def)

locale uint_codec =
  fixes send_v :: "sock \<Rightarrow> 'v \<Rightarrow> bool \<Rightarrow> net \<Rightarrow> int \<times> net"
    and recv_v :: "sock \<Rightarrow> 'v \<Rightarrow> net \<Rightarrow> p2pm_opcodes \<times> 'v \<times> net"
    and enc :: "'v \<Rightarrow> bytes"
  assumes send_v: "send_v s x mo w = zmq_send s (enc x) mo w"
    and recv_v_ok: "rx w s = RMsg (enc x) mo # fs \<Longrightarrow>
      recv_v s old w = (P2PM_OP_SUCCESS, x, took s fs mo w)"
    and recv_v_err: "rx w s = [] \<or> (\<exists>fs. rx w s = RErr # fs) \<Longrightarrow>
      \<exists>w'. recv_v s old w = (P2PM_OP_FAILURE, old, w') \<and> tx w' = tx w"
begin

lemma send_emits: "send_ok w = [] \<Longrightarrow> send_v s x mo w = (int (length (enc x)), emit (Tx s (enc x) mo) w)"
  by (simp add: send_v zmq_send_ok)

lemma enc_inj: "enc x = enc y \<Longrightarrow> x = y"
proof -
  assume eq: "enc x = enc y"
  fix w :: net
  let ?w = "w\<lparr>rx := \<lambda>_. [RMsg (enc x) False]\<rparr>"
  have "recv_v LocalSocket x ?w = (P2PM_OP_SUCCESS, x, took LocalSocket [] False ?w)"
    by (rule recv_v_ok) simp
  moreover have "recv_v LocalSocket x ?w = (P2PM_OP_SUCCESS, y, took LocalSocket [] False ?w)"
    by (rule recv_v_ok) (simp add: eq)
  ultimately show "x = y" by simp
qed

lemma delivered_value:
  assumes "send_ok w = []" and "send_v s x mo w = (n, w1)"
    and "tx w1 = tx w @ [Tx s f mo']" and "rx w2 r = RMsg f mo' # fs"
  shows "recv_v r old w2 = (P2PM_OP_SUCCESS, x, took r fs mo' w2)"
  using assms by (auto simp: send_emits intro: recv_v_ok)

end

lemma le_nat_be: "le_nat (be_bytes n x) = le_nat (rev (nat_le n x))"
  by (simp add: be_bytes_def)

lemma le_nat_rev_rev:
  "x < 256 ^ n \<Longrightarrow> le_nat (rev (nat_le n (le_nat (rev (nat_le n x))))) = x"
  using nat_le_le_nat_rev [of n x] by (simp add: be_bytes_def)

lemma htons_be [simp]: "htons (word_of_nat (le_nat (be_bytes 2 (unat x)))) = x"
proof -
  have "unat x < 256 ^ 2" using unsigned_less [of x, where ?'a = nat] by simp
  then have "unat (htons (word_of_nat (le_nat (be_bytes 2 (unat x))))) = unat x"
    using le_nat_rev_less [of 2 "unat x"] le_nat_rev_rev [of "unat x" 2]
    by (simp add: unat_htons le_nat_be unat_of_nat)
  then show ?thesis by (rule word_unat_eq_iff [THEN iffD2])
qed

lemma htonl_be [simp]: "htonl (word_of_nat (le_nat (be_bytes 4 (unat x)))) = x"
proof -
  have "unat x < 256 ^ 4" using unsigned_less [of x, where ?'a = nat] by simp
  then have "unat (htonl (word_of_nat (le_nat (be_bytes 4 (unat x))))) = unat x"
    using le_nat_rev_less [of 4 "unat x"] le_nat_rev_rev [of "unat x" 4]
    by (simp add: unat_htonl le_nat_be unat_of_nat)
  then show ?thesis by (rule word_unat_eq_iff [THEN iffD2])
qed

lemma NTOHLL_be [simp]: "NTOHLL (word_of_nat (le_nat (be_bytes 8 (unat x)))) = x"
proof -
  have "unat x < 256 ^ 8" using unsigned_less [of x, where ?'a = nat] by simp
  then have "unat (NTOHLL (word_of_nat (le_nat (be_bytes 8 (unat x))))) = unat x"
    using le_nat_rev_less [of 8 "unat x"] le_nat_rev_rev [of "unat x" 8]
    by (simp add: NTOHLL_HTONLL unat_HTONLL le_nat_be unat_of_nat)
  then show ?thesis by (rule word_unat_eq_iff [THEN iffD2])
qed

abbreviation be16 :: "u16 \<Rightarrow> bytes" where "be16 x \<equiv> be_bytes 2 (unat x)"
abbreviation be32 :: "u32 \<Rightarrow> bytes" where "be32 x \<equiv> be_bytes 4 (unat x)"
abbreviation be64 :: "u64 \<Rightarrow> bytes" where "be64 x \<equiv> be_bytes 8 (unat x)"

interpretation u16: uint_codec p2pm_send_uint16 p2pm_recv_uint16 be16
  by unfold_locales
    (auto simp: p2pm_send_uint16_def image_htons p2pm_recv_uint16_def zmq_recv_def took_def
      split: list.splits)

interpretation u32: uint_codec p2pm_send_uint32 p2pm_recv_uint32 be32
  by unfold_locales
    (auto simp: p2pm_send_uint32_def image_htonl p2pm_recv_uint32_def zmq_recv_def took_def
      split: list.splits)

interpretation u64: uint_codec p2pm_send_uint64 p2pm_recv_uint64 be64
  by unfold_locales
    (auto simp: p2pm_send_uint64_def image_HTONLL p2pm_recv_uint64_def zmq_recv_def took_def
      split: list.splits)

section \<open>Strings on a socket\<close>

text \<open>A string travels as its length with the terminator, then its bytes.\<close>

definition p2pm_send_str :: "sock \<Rightarrow> string \<Rightarrow> bool \<Rightarrow> net \<Rightarrow> int \<times> net" where
  "p2pm_send_str s str mo w =
     (let (_, w) = p2pm_send_uint32 s (word_of_nat (length (c_bytes str))) True w
      in zmq_send s (c_bytes str) mo w)"

text \<open>
  The result pointer: \<open>None\<close> when the caller's variable was not assigned. The length is a signed
  \<open>int\<close>: a negative one makes \<open>malloc\<close> fail and \<open>bzero\<close> fault. After an error of the second
  receive the variable keeps the freed block. \<open>realloc(p, 0)\<close> frees \<open>p\<close> and returns null, so an
  empty second frame frees it twice: a fault.
\<close>

definition p2pm_recv_str :: "sock \<Rightarrow> net \<Rightarrow> (p2pm_opcodes \<times> cptr option \<times> net) option" where
  "p2pm_recv_str s w =
     (let (ret, stralen, w) = p2pm_recv_uint32 s (uninit32 w) w
      in if ret \<noteq> P2PM_OP_SUCCESS then Some (P2PM_OP_FAILURE, None, w)
         else if sint stralen < 0 then None
         else let (n, buf, w) = zmq_recv s (replicate (unat stralen) nul) w
              in if n < 0 then Some (P2PM_OP_FAILURE, Some Freed, w)
                 else if n = 0 then None
                 else Some (P2PM_OP_SUCCESS, Some (Live (load (junk w) (nat n) buf)), w))"

text \<open>Reading a pointer as a C string: null, a freed block or a block without NUL is a fault.\<close>

definition deref :: "cptr \<Rightarrow> string option" where
  "deref p = (case p of Live buf \<Rightarrow> cstr buf | _ \<Rightarrow> None)"

lemma deref_simps [simp]:
  "deref Null = None" "deref Freed = None" "deref (Live b) = cstr b"
  by (simp_all add: deref_def)

text \<open>\<open>p2pm_recv_str\<close> on a variable that holds \<open>old\<close>.\<close>

definition recv_strp :: "sock \<Rightarrow> cptr \<Rightarrow> net \<Rightarrow> (p2pm_opcodes \<times> cptr \<times> net) option" where
  "recv_strp s old w = do {
     (rt, p, w) \<leftarrow> p2pm_recv_str s w;
     Some (rt, (case p of None \<Rightarrow> old | Some q \<Rightarrow> q), w) }"

text \<open>A string fits the length field when its size is a positive \<open>int\<close>.\<close>

definition fits_int :: "string \<Rightarrow> bool" where
  "fits_int str \<longleftrightarrow> length str + 1 < 2 ^ 31"

definition str_len :: "string \<Rightarrow> u32" where
  "str_len str = word_of_nat (Suc (length str))"

lemma unat_len: "fits_int str \<Longrightarrow> unat (str_len str) = Suc (length str)"
  by (simp add: fits_int_def str_len_def unat_of_nat del: of_nat_Suc)

lemma sint_len: "fits_int str \<Longrightarrow> \<not> sint (str_len str) < 0"
  by (simp add: fits_int_def str_len_def signed_of_nat signed_take_bit_int_eq_self del: of_nat_Suc)

definition str_frames :: "string \<Rightarrow> bool \<Rightarrow> rframe list" where
  "str_frames str mo = [RMsg (be32 (str_len str)) True, RMsg (c_bytes str) mo]"

lemma p2pm_send_str_ok [wire_simps]:
  "send_ok w = [] \<Longrightarrow> p2pm_send_str s str mo w =
     (int (Suc (length str)),
      emit (Tx s (c_bytes str) mo) (emit (Tx s (be32 (str_len str)) True) w))"
  by (simp add: p2pm_send_str_def u32.send_emits zmq_send_ok str_len_def)

lemma p2pm_recv_str_ok [wire_simps]:
  assumes "fits_int str" and "rx w s = RMsg (be32 (str_len str)) True # RMsg (c_bytes str) mo # fs"
  shows "p2pm_recv_str s w = Some (P2PM_OP_SUCCESS, Some (Live (c_bytes str)), took s fs mo w)"
proof -
  have "p2pm_recv_uint32 s (uninit32 w) w
      = (P2PM_OP_SUCCESS, str_len str, took s (RMsg (c_bytes str) mo # fs) True w)"
    using assms(2) by (rule u32.recv_v_ok)
  then show ?thesis
    using assms(1)
    by (simp add: p2pm_recv_str_def unat_len sint_len zmq_recv_def load_exact took_def)
qed

lemma p2pm_recv_str_no_len:
  assumes "rx w s = [] \<or> (\<exists>fs. rx w s = RErr # fs)"
  shows "\<exists>w'. p2pm_recv_str s w = Some (P2PM_OP_FAILURE, None, w') \<and> tx w' = tx w"
proof -
  obtain w' where "p2pm_recv_uint32 s (uninit32 w) w = (P2PM_OP_FAILURE, uninit32 w, w')" "tx w' = tx w"
    using u32.recv_v_err [OF assms] by blast
  then show ?thesis by (simp add: p2pm_recv_str_def)
qed

lemma recv_uint32_tx: "p2pm_recv_uint32 s old w = (r, v, w') \<Longrightarrow> tx w' = tx w \<and> send_ok w' = send_ok w"
  by (auto simp: p2pm_recv_uint32_def split: prod.splits if_splits dest: zmq_recv_tx)

lemma recv_uint64_tx: "p2pm_recv_uint64 s old w = (r, v, w') \<Longrightarrow> tx w' = tx w \<and> send_ok w' = send_ok w"
  by (auto simp: p2pm_recv_uint64_def split: prod.splits if_splits dest: zmq_recv_tx)

lemma recv_str_tx: "p2pm_recv_str s w = Some (r, p, w') \<Longrightarrow> tx w' = tx w \<and> send_ok w' = send_ok w"
  by (auto simp: p2pm_recv_str_def Let_def split: prod.splits if_splits
      dest!: zmq_recv_tx recv_uint32_tx)

section \<open>Normal forms\<close>

text \<open>What an operation sends on a network on which sends work, as a list of events.\<close>

definition send_u32 :: "sock \<Rightarrow> u32 \<Rightarrow> bool \<Rightarrow> net \<Rightarrow> net" where
  "send_u32 s v mo w = snd (p2pm_send_uint32 s v mo w)"

definition send_u64 :: "sock \<Rightarrow> u64 \<Rightarrow> bool \<Rightarrow> net \<Rightarrow> net" where
  "send_u64 s v mo w = snd (p2pm_send_uint64 s v mo w)"

definition out :: "event list \<Rightarrow> net \<Rightarrow> net" where
  "out evs w = w\<lparr>tx := tx w @ evs\<rparr>"

lemma out_simps [simp]:
  "rx (out evs w) = rx w" "rcvmore (out evs w) = rcvmore w" "shm (out evs w) = shm w"
  "tx (out evs w) = tx w @ evs" "send_ok (out evs w) = send_ok w" "conn_ok (out evs w) = conn_ok w"
  "junk (out evs w) = junk w" "clk (out evs w) = clk w" "clk_last (out evs w) = clk_last w"
  "out xs (out ys w) = out (ys @ xs) w" "out [] w = w"
  "took s fs mo (out evs w) = out evs (took s fs mo w)"
  "took s fs mo (took s gs mo' w) = took s fs mo w"
  by (simp_all add: out_def took_def)

lemma emit_out: "emit e w = out [e] w"
  by (simp add: emit_def out_def)

abbreviation str_ev :: "sock \<Rightarrow> string \<Rightarrow> bool \<Rightarrow> event list" where
  "str_ev s n mo \<equiv> [Tx s (be32 (str_len n)) True, Tx s (c_bytes n) mo]"

lemma send_u32_ok [simp]: "send_ok w = [] \<Longrightarrow> send_u32 s v mo w = out [Tx s (be32 v) mo] w"
  by (simp add: send_u32_def u32.send_emits emit_out)

lemma send_u64_ok [simp]: "send_ok w = [] \<Longrightarrow> send_u64 s v mo w = out [Tx s (be64 v) mo] w"
  by (simp add: send_u64_def u64.send_emits emit_out)

lemma send_str_ok [simp]: "send_ok w = [] \<Longrightarrow> snd (p2pm_send_str s n mo w) = out (str_ev s n mo) w"
  by (simp add: p2pm_send_str_ok emit_out)

lemma zmq_send_out [simp]: "send_ok w = [] \<Longrightarrow> snd (zmq_send s m mo w) = out [Tx s m mo] w"
  by (simp add: zmq_send_ok emit_out)

text \<open>
  The receive script of the peer that reads what was sent to it: the frames of the trace that
  went to socket \<open>s\<close>, in order.
\<close>

fun delivered :: "sock \<Rightarrow> event list \<Rightarrow> rframe list" where
  "delivered s [] = []"
| "delivered s (Tx s' m mo # es) =
     (if s' = s then RMsg m mo # delivered s es else delivered s es)"
| "delivered s (e # es) = delivered s es"

lemma delivered_append [simp]: "delivered s (xs @ ys) = delivered s xs @ delivered s ys"
  by (induction s xs rule: delivered.induct) auto

text \<open>The command by which the tuple space daemon hands a token to p2pmd.\<close>

definition TSD_P2PMD_SEND_TOKEN :: nat where
  "TSD_P2PMD_SEND_TOKEN = 0x88"

section \<open>The configuration of p2pmd\<close>

record p2pm_config =
  join_address :: cptr
  stabilize_interval :: int
  context_thread_count :: u32
  recv_wait :: u32

definition p2pm_config_create ::
  "p2pm_config \<Rightarrow> string \<Rightarrow> u32 \<Rightarrow> int \<Rightarrow> u32 \<Rightarrow> p2pm_opcodes \<times> p2pm_config" where
  "p2pm_config_create config joinaddr threads stabilize wait =
     (if length (c_bytes joinaddr) > 256 then (P2PM_OP_FAILURE, config)
      else (P2PM_OP_SUCCESS,
        \<lparr>join_address = Live (c_bytes joinaddr), stabilize_interval = stabilize,
         context_thread_count = threads, recv_wait = wait\<rparr>))"

definition p2pm_get_config_str :: "p2pm_config \<Rightarrow> bytes option" where
  "p2pm_get_config_str config = do {
     a \<leftarrow> deref (join_address config);
     Some (c_bytes a) }"

definition p2pm_get_config_ctx_thread :: "p2pm_config \<Rightarrow> u32" where
  "p2pm_get_config_ctx_thread config = context_thread_count config"

definition p2pm_get_config_recv_wait :: "p2pm_config \<Rightarrow> u32" where
  "p2pm_get_config_recv_wait config = recv_wait config"

definition p2pm_config_destroy :: "p2pm_config \<Rightarrow> p2pm_config" where
  "p2pm_config_destroy config =
     config\<lparr>join_address := Freed, context_thread_count := 0, recv_wait := 0\<rparr>"

definition p2pm_is_valid_request :: "u32 \<Rightarrow> bool" where
  "p2pm_is_valid_request request_id \<longleftrightarrow> request_id < 69 \<and> request_id > 54"

end
