(* ===== verification/TupleUtils.thy ===== *)
theory TupleUtils
  imports Wire
begin

text \<open>
  \<^verbatim>\<open>src/tuple_utils.h\<close> and the data it compares (\<^verbatim>\<open>src/sng_common.h\<close>): tuples, blocking requests,
  the wildcard matcher \<open>_match\<close> (\<open>match_expr\<close> here), the comparators the queues are searched with,
  and the copy and free functions. POSIX regular expressions are not part of the repository: the
  parameter \<open>rgx p s\<close> is \<open>None\<close> when \<open>regcomp\<close> rejects \<open>p\<close>, otherwise whether \<open>regexec\<close> finds a match.
\<close>

datatype ts_mode_t = TsModeMaster | TsModeWorker | TsModeP2P
datatype tsd_mode_t = TsdModeDirect | TsdModeToken

datatype tuple_command =
    TsNone | TsGet | TsPut | TsAdd | TsRead | TsPop | TsPeek | TsConnect | TsTerm | TsEnf | TsAck
  | TsAnon | TsBCast_Write | TsBCast_Read | TsGet_Blocking | TsRead_Blocking
  | TsBCast_Read_Blocking | TsPop_Blocking | TsPeek_Blocking | TsExpect | TsDeposit | TsTransmit
  | TsRequest | TsTake | TsMigrate | TsReplicate

definition all_commands :: "tuple_command list" where
  "all_commands = [TsNone, TsGet, TsPut, TsAdd, TsRead, TsPop, TsPeek, TsConnect, TsTerm, TsEnf,
     TsAck, TsAnon, TsBCast_Write, TsBCast_Read, TsGet_Blocking, TsRead_Blocking,
     TsBCast_Read_Blocking, TsPop_Blocking, TsPeek_Blocking, TsExpect, TsDeposit, TsTransmit,
     TsRequest, TsTake, TsMigrate, TsReplicate]"

fun position :: "'a \<Rightarrow> 'a list \<Rightarrow> nat" where
  "position x [] = 0"
| "position x (y # ys) = (if x = y then 0 else Suc (position x ys))"

text \<open>The enumeration value of a command, and the command of a received value, if it is one.\<close>

definition cmd_code :: "tuple_command \<Rightarrow> u32" where
  "cmd_code c = word_of_nat (position c all_commands)"

definition cmd_of :: "u32 \<Rightarrow> tuple_command option" where
  "cmd_of n = (if unat n < length all_commands then Some (all_commands ! unat n) else None)"

lemma cmd_of_code [simp]: "cmd_of (cmd_code c) = Some c"
  by (cases c) (simp_all add: cmd_of_def cmd_code_def all_commands_def)

lemma cmd_code_inject [simp]: "cmd_code c = cmd_code d \<longleftrightarrow> c = d"
  by (metis cmd_of_code option.inject)

record sng_tuple =
  tname :: cptr
  anon_id :: u32
  tlen :: u64
  tdata :: cptr

record blocking_request =
  bname :: cptr
  bclient :: cptr
  bcommand :: tuple_command
  bextra :: u64
  blocal :: bool

section \<open>The wildcard matcher\<close>

text \<open>
  \<open>_match(expr, name)\<close>: 0 for a match. The loop skips equal bytes and ends with 0 when both
  strings end together; otherwise the byte of \<open>expr\<close> decides. \<open>match_tails\<close> is the loop that tries
  a star against every suffix of the name.
\<close>

function (sequential) match_expr :: "string \<Rightarrow> string \<Rightarrow> int"
  and match_tails :: "string \<Rightarrow> string \<Rightarrow> int" where
  "match_expr [] [] = 0"
| "match_expr [] (n # ns) = 1"
| "match_expr (e # es) [] = (if e = CHR ''*'' then match_tails es [] else 1)"
| "match_expr (e # es) (n # ns) =
     (if e = n then match_expr es ns
      else if e = CHR ''?'' then match_expr es ns
      else if e = CHR ''*'' then match_tails es (n # ns)
      else 1)"
| "match_tails es [] = (if match_expr es [] = 0 then 0 else 1)"
| "match_tails es (n # ns) = (if match_expr es (n # ns) = 0 then 0 else match_tails es ns)"
  by pat_completeness auto
termination
  by (relation "measures [\<lambda>x. case x of Inl (es, ns) \<Rightarrow> length es | Inr (es, ns) \<Rightarrow> length es,
      \<lambda>x. case x of Inl (es, ns) \<Rightarrow> length ns | Inr (es, ns) \<Rightarrow> length ns,
      \<lambda>x. case x of Inl _ \<Rightarrow> 0 | Inr _ \<Rightarrow> 1]") auto

text \<open>What the pattern means: \<open>?\<close> is any one byte, \<open>*\<close> any sequence of bytes.\<close>

fun glob :: "string \<Rightarrow> string \<Rightarrow> bool" where
  "glob [] ns = (ns = [])"
| "glob (e # es) [] = (e = CHR ''*'' \<and> glob es [])"
| "glob (e # es) (n # ns) =
     (if e = CHR ''*'' then glob es (n # ns) \<or> glob (e # es) ns
      else (e = CHR ''?'' \<or> e = n) \<and> glob es ns)"

lemma glob_star: "glob (CHR ''*'' # es) ns \<longleftrightarrow> (\<exists>us vs. ns = us @ vs \<and> glob es vs)"
proof (induction ns)
  case Nil
  then show ?case by simp
next
  case (Cons n ns)
  show ?case
  proof
    assume "glob (CHR ''*'' # es) (n # ns)"
    then consider "glob es (n # ns)" | "glob (CHR ''*'' # es) ns" by auto
    then show "\<exists>us vs. n # ns = us @ vs \<and> glob es vs"
    proof cases
      case 1
      then have "n # ns = [] @ (n # ns) \<and> glob es (n # ns)" by simp
      then show ?thesis by blast
    next
      case 2
      with Cons obtain us vs where "ns = us @ vs" "glob es vs" by auto
      then have "n # ns = (n # us) @ vs \<and> glob es vs" by simp
      then show ?thesis by blast
    qed
  next
    assume "\<exists>us vs. n # ns = us @ vs \<and> glob es vs"
    then obtain us vs where split: "n # ns = us @ vs" and "glob es vs" by auto
    show "glob (CHR ''*'' # es) (n # ns)"
    proof (cases us)
      case Nil
      with split \<open>glob es vs\<close> have "glob es (n # ns)" by simp
      then show ?thesis by simp
    next
      case (Cons u us')
      with split \<open>glob es vs\<close> have "\<exists>us vs. ns = us @ vs \<and> glob es vs" by auto
      with Cons.IH show ?thesis by simp
    qed
  qed
qed

lemma glob_star_skip: "glob es ns \<Longrightarrow> glob (CHR ''*'' # es) (n # ns)"
  unfolding glob_star by (rule exI [of _ "[n]"]) auto

lemma glob_intros:
  "glob es ns \<Longrightarrow> glob (n # es) (n # ns)"
  "glob es ns \<Longrightarrow> glob (CHR ''?'' # es) (n # ns)"
  "glob es (n # ns) \<Longrightarrow> glob (CHR ''*'' # es) (n # ns)"
  "glob (CHR ''*'' # es) ns \<Longrightarrow> glob (CHR ''*'' # es) (n # ns)"
  by (cases "n = CHR ''*''") (auto simp: glob_star_skip simp del: glob.simps(3) simp: glob.simps(3) [of "CHR ''?''"], auto)

lemma match_range:
  "match_expr es ns = 0 \<or> match_expr es ns = 1"
  "match_tails es ns = 0 \<or> match_tails es ns = 1"
  by (induction es ns and es ns rule: match_expr_match_tails.induct) auto

lemma match_sound_aux:
  "match_expr es ns = 0 \<Longrightarrow> glob es ns"
  "match_tails es ns = 0 \<Longrightarrow> glob (CHR ''*'' # es) ns"
  by (induction es ns and es ns rule: match_expr_match_tails.induct)
    (auto simp: glob_intros simp del: glob.simps(3) split: if_splits)

lemma match_complete_aux:
  "CHR ''*'' \<notin> set ns \<Longrightarrow> glob es ns \<Longrightarrow> match_expr es ns = 0"
  "CHR ''*'' \<notin> set ns \<Longrightarrow> glob (CHR ''*'' # es) ns \<Longrightarrow> match_tails es ns = 0"
  by (induction es ns and es ns rule: match_expr_match_tails.induct) (auto split: if_splits)

section \<open>Comparators\<close>

definition tplicmp :: "sng_tuple \<Rightarrow> sng_tuple \<Rightarrow> int" where
  "tplicmp t1 t2 = (if anon_id t1 < anon_id t2 then -1 else if anon_id t1 > anon_id t2 then 1 else 0)"

definition tplregex ::
  "(string \<Rightarrow> string \<Rightarrow> bool option) \<Rightarrow> string \<Rightarrow> string \<Rightarrow> int" where
  "tplregex rgx n1 n2 = (case rgx (tl n1) n2 of
     None \<Rightarrow> 1
   | Some found \<Rightarrow> if found then 0 else 1)"

text \<open>\<open>None\<close>: a name is read through a null or dangling pointer.\<close>

definition tplcmp ::
  "(string \<Rightarrow> string \<Rightarrow> bool option) \<Rightarrow> sng_tuple \<Rightarrow> sng_tuple \<Rightarrow> int option" where
  "tplcmp rgx t1 t2 =
     (if (tname t1 = Null \<and> anon_id t1 \<noteq> 0) \<or> (tname t2 = Null \<and> anon_id t2 \<noteq> 0)
      then Some (tplicmp t1 t2)
      else do {
        n1 \<leftarrow> deref (tname t1);
        if strcmp n1 ''*'' = 0 then Some 0
        else do {
          n2 \<leftarrow> deref (tname t2);
          if strcmp n2 ''*'' = 0 then Some 0
          else if first_char n1 = CHR '':'' \<and> first_char n2 \<noteq> CHR '':'' then Some (tplregex rgx n1 n2)
          else if first_char n1 \<noteq> CHR '':'' \<and> first_char n2 = CHR '':'' then Some (tplregex rgx n2 n1)
          else if first_char n2 = CHR ''!'' \<and> first_char n1 \<noteq> CHR ''!'' then Some (match_expr (tl n2) n1)
          else if first_char n1 = CHR ''!'' \<and> first_char n2 \<noteq> CHR ''!'' then Some (match_expr (tl n1) n2)
          else Some (strcmp n1 n2) } })"

definition kcmp :: "(string \<Rightarrow> string \<Rightarrow> bool option) \<Rightarrow> cptr \<Rightarrow> cptr \<Rightarrow> int option" where
  "kcmp rgx c1 c2 = tplcmp rgx \<lparr>tname = c1, anon_id = 0, tlen = 0, tdata = Null\<rparr>
                               \<lparr>tname = c2, anon_id = 0, tlen = 0, tdata = Null\<rparr>"

definition icmp :: "int \<Rightarrow> int \<Rightarrow> int" where
  "icmp i1 i2 = (if i1 = i2 then 0 else if i1 < i2 then -1 else 1)"

text \<open>The id of the wanted tuple is taken from the list element, as the source has it.\<close>

definition blckcmp_str ::
  "(string \<Rightarrow> string \<Rightarrow> bool option) \<Rightarrow> blocking_request \<Rightarrow> blocking_request \<Rightarrow> int option" where
  "blckcmp_str rgx b1 b2 =
     (let t1 = \<lparr>tname = bname b1, anon_id = ucast (bextra b1), tlen = 0, tdata = Null\<rparr>;
          t2 = \<lparr>tname = bname b2, anon_id = ucast (bextra b1), tlen = 0, tdata = Null\<rparr>
      in if bcommand b1 = TsPop_Blocking \<or> bcommand b1 = TsPeek_Blocking then Some 0
         else tplcmp rgx t1 t2)"

definition blckcmp_ext :: "blocking_request \<Rightarrow> blocking_request \<Rightarrow> bool" where
  "blckcmp_ext b1 b2 \<longleftrightarrow> bextra b1 \<noteq> bextra b2"

section \<open>Copies and frees\<close>

text \<open>The results of the next calls of \<open>malloc\<close>; an exhausted list means that they succeed.\<close>

fun malloc_ok :: "bool list \<Rightarrow> bool \<times> bool list" where
  "malloc_ok [] = (True, [])"
| "malloc_ok (b # bs) = (b, bs)"

text \<open>\<open>free\<close>: nothing for null, a fault for a block freed before.\<close>

definition cfree :: "cptr \<Rightarrow> cptr option" where
  "cfree p = (case p of Null \<Rightarrow> Some Null | Live _ \<Rightarrow> Some Freed | Freed \<Rightarrow> None)"

definition read_block :: "cptr \<Rightarrow> nat \<Rightarrow> bytes option" where
  "read_block p n = (if n = 0 then Some [] else
     case p of Live b \<Rightarrow> if n \<le> length b then Some (take n b) else None | _ \<Rightarrow> None)"

text \<open>The deep copy: \<open>Some (None, _)\<close> is a null result after a failed allocation.\<close>

definition tpldup :: "sng_tuple \<Rightarrow> bool list \<Rightarrow> (sng_tuple option \<times> bool list) option" where
  "tpldup tpl al =
     (let (ok, al) = malloc_ok al in
      if \<not> ok then Some (None, al)
      else do {
        n \<leftarrow> deref (tname tpl);
        let (ok, al) = malloc_ok al;
        if \<not> ok then Some (None, al)
        else do {
          let (ok, al) = malloc_ok al;
          if \<not> ok then Some (None, al)
          else do {
            d \<leftarrow> read_block (tdata tpl) (unat (tlen tpl));
            Some (Some \<lparr>tname = Live (c_bytes n), anon_id = anon_id tpl, tlen = tlen tpl,
                        tdata = Live d\<rparr>, al) } } })"

text \<open>The shallow copies: the fields, pointers included, are those of the original.\<close>

definition tplcpy :: "sng_tuple \<Rightarrow> sng_tuple" where
  "tplcpy tpl = tpl"

definition blckcpy :: "blocking_request \<Rightarrow> blocking_request" where
  "blckcpy b = b"

text \<open>
  \<open>blckdup\<close> leaves \<open>clientid\<close> and \<open>local\<close> of the copy unset; an indeterminate pointer is as
  unusable as a freed one.
\<close>

definition blckdup :: "bool \<Rightarrow> blocking_request \<Rightarrow> blocking_request option" where
  "blckdup indet b = do {
     n \<leftarrow> deref (bname b);
     Some \<lparr>bname = Live (c_bytes n), bclient = Freed, bcommand = bcommand b, bextra = bextra b,
           blocal = indet\<rparr> }"

definition tplfree_g :: "sng_tuple option \<Rightarrow> unit option" where
  "tplfree_g tpl = (case tpl of
     None \<Rightarrow> Some ()
   | Some t \<Rightarrow> do { _ \<leftarrow> cfree (tname t); _ \<leftarrow> cfree (tdata t); Some () })"

definition blckfree_g :: "blocking_request option \<Rightarrow> unit option" where
  "blckfree_g r = (case r of
     None \<Rightarrow> Some ()
   | Some b \<Rightarrow> do { _ \<leftarrow> cfree (bname b); _ \<leftarrow> cfree (bclient b); Some () })"

section \<open>The comparators are comparisons\<close>

locale three_way =
  fixes cmp :: "'a \<Rightarrow> 'a \<Rightarrow> int" and key :: "'a \<Rightarrow> 'k::linorder"
  assumes cmp: "cmp x y = (if key x < key y then -1 else if key x > key y then 1 else 0)"
begin

lemma zero_iff: "cmp x y = 0 \<longleftrightarrow> key x = key y"
  by (auto simp: cmp)

lemma flip: "cmp y x = - cmp x y"
  by (auto simp: cmp)

lemma le_trans: "cmp x y \<le> 0 \<Longrightarrow> cmp y z \<le> 0 \<Longrightarrow> cmp x z \<le> 0"
  by (auto simp: cmp split: if_splits)

lemma total: "cmp x y \<le> 0 \<or> cmp y x \<le> 0"
  by (auto simp: cmp)

end

interpretation anon: three_way tplicmp anon_id
  by unfold_locales (simp add: tplicmp_def)

interpretation int_cmp: three_way icmp "\<lambda>i. i"
  by unfold_locales (auto simp: icmp_def)

text \<open>
  The tuples the daemon handles are named (id 0) or anonymous (no name, id not 0).
\<close>

definition named :: "string \<Rightarrow> sng_tuple \<Rightarrow> bool" where
  "named n t \<longleftrightarrow> deref (tname t) = Some n \<and> anon_id t = 0"

definition anonymous :: "sng_tuple \<Rightarrow> bool" where
  "anonymous t \<longleftrightarrow> tname t = Null \<and> anon_id t \<noteq> 0"

definition wf_tuple :: "sng_tuple \<Rightarrow> bool" where
  "wf_tuple t \<longleftrightarrow> anonymous t \<or> (\<exists>n. named n t)"

text \<open>Names without a special first byte and other than the match-all name.\<close>

definition plain_name :: "string \<Rightarrow> bool" where
  "plain_name n \<longleftrightarrow> n \<noteq> ''*'' \<and> first_char n \<noteq> CHR '':'' \<and> first_char n \<noteq> CHR ''!''"

lemma named_not_Null: "named n t \<Longrightarrow> tname t \<noteq> Null"
  by (auto simp: named_def)

lemma tplcmp_named:
  assumes "named m s" and "named n t"
  shows "tplcmp rgx s t = Some
    (if m = ''*'' \<or> n = ''*'' then 0
     else if first_char m = CHR '':'' \<and> first_char n \<noteq> CHR '':'' then tplregex rgx m n
     else if first_char m \<noteq> CHR '':'' \<and> first_char n = CHR '':'' then tplregex rgx n m
     else if first_char n = CHR ''!'' \<and> first_char m \<noteq> CHR ''!'' then match_expr (tl n) m
     else if first_char m = CHR ''!'' \<and> first_char n \<noteq> CHR ''!'' then match_expr (tl m) n
     else strcmp m n)"
proof -
  have "tname s \<noteq> Null" "tname t \<noteq> Null" "deref (tname s) = Some m" "deref (tname t) = Some n"
    using assms by (auto simp: named_not_Null named_def)
  then show ?thesis by (simp add: tplcmp_def)
qed

lemma tplcmp_plain:
  "named m s \<Longrightarrow> named n t \<Longrightarrow> plain_name m \<Longrightarrow> plain_name n \<Longrightarrow>
   tplcmp rgx s t = Some (strcmp m n)"
  by (simp add: tplcmp_named plain_name_def)

lemma tplcmp_anonymous:
  "anonymous s \<or> anonymous t \<Longrightarrow> tplcmp rgx s t = Some (tplicmp s t)"
  by (auto simp: tplcmp_def anonymous_def)

lemma tplcmp_anonymous_named:
  "anonymous s \<Longrightarrow> named n t \<Longrightarrow> \<exists>r. tplcmp rgx s t = Some r \<and> r \<noteq> 0"
  "anonymous s \<Longrightarrow> named n t \<Longrightarrow> \<exists>r. tplcmp rgx t s = Some r \<and> r \<noteq> 0"
  by (auto simp: tplcmp_anonymous anon.zero_iff named_def anonymous_def)

lemma tplcmp_total: "wf_tuple s \<Longrightarrow> wf_tuple t \<Longrightarrow> tplcmp rgx s t \<noteq> None"
  by (auto simp: wf_tuple_def tplcmp_named tplcmp_anonymous)

lemma tplcmp_sym_named:
  "named m s \<Longrightarrow> named n t \<Longrightarrow> tplcmp rgx s t = Some 0 \<longleftrightarrow> tplcmp rgx t s = Some 0"
  by (auto simp: tplcmp_named)

lemma tplcmp_sym:
  assumes "wf_tuple s" and "wf_tuple t"
  shows "tplcmp rgx s t = Some 0 \<longleftrightarrow> tplcmp rgx t s = Some 0"
proof (cases "anonymous s \<or> anonymous t")
  case True
  then show ?thesis by (auto simp: tplcmp_anonymous anon.zero_iff)
next
  case False
  with assms show ?thesis by (auto simp: wf_tuple_def tplcmp_sym_named)
qed

end
