(* ===== verification/Zlistx.thy ===== *)
theory Zlistx
  imports Net
begin

text \<open>
  The list container \<open>zlistx\<close> of CZMQ, which is not part of the repository. The daemon uses it
  through the record of operations \<open>zlistx_ops\<close>, an argument of every definition that touches a
  queue; the locale \<open>zlistx\<close> states what the CZMQ manual promises of them, over the function
  \<open>items\<close> that gives the contents in order. Handles are addresses (numbers). A search calls the
  comparator as \<open>cmp(list_item, wanted)\<close> from the first item on and stops at the first zero; a
  comparator may fault (it is code of the repository), and then the search does.
\<close>

record ('q, 'a) zlistx_ops =
  zl_new :: 'q
  zl_add_end :: "'q \<Rightarrow> 'a \<Rightarrow> 'q"
  zl_size :: "'q \<Rightarrow> nat"
  zl_first :: "'q \<Rightarrow> 'a option"
  zl_find :: "('a \<Rightarrow> 'a \<Rightarrow> int option) \<Rightarrow> 'q \<Rightarrow> 'a \<Rightarrow> nat option option"
  zl_item :: "'q \<Rightarrow> nat \<Rightarrow> 'a option"
  zl_detach :: "'q \<Rightarrow> nat option \<Rightarrow> 'a option \<times> 'q"

text \<open>
  The search of the manual on the contents: the items before the hit, the hit and the items
  after it.
\<close>

fun scan :: "('a \<Rightarrow> 'a \<Rightarrow> int option) \<Rightarrow> 'a list \<Rightarrow> 'a \<Rightarrow> ('a list \<times> 'a \<times> 'a list) option option" where
  "scan cmp [] x = Some None"
| "scan cmp (y # ys) x = (case cmp y x of
     None \<Rightarrow> None
   | Some r \<Rightarrow>
       if r = 0 then Some (Some ([], y, ys))
       else map_option (map_option (\<lambda>(us, v, vs). (y # us, v, vs))) (scan cmp ys x))"

lemma scan_split:
  "scan cmp xs x = Some (Some (us, v, vs)) \<Longrightarrow>
   xs = us @ v # vs \<and> cmp v x = Some 0 \<and> (\<forall>u \<in> set us. \<exists>r. cmp u x = Some r \<and> r \<noteq> 0)"
  by (induction xs arbitrary: us) (auto split: option.splits if_splits prod.splits)

lemma scan_none_iff:
  "scan cmp xs x = Some None \<longleftrightarrow> (\<forall>u \<in> set xs. \<exists>r. cmp u x = Some r \<and> r \<noteq> 0)"
  by (induction xs) (auto split: option.splits)

lemma scan_skip:
  "\<forall>u \<in> set us. \<exists>r. cmp u x = Some r \<and> r \<noteq> 0 \<Longrightarrow>
   scan cmp (us @ xs) x = map_option (map_option (\<lambda>(vs, v, ws). (us @ vs, v, ws))) (scan cmp xs x)"
proof (induction us)
  case Nil
  then show ?case by (cases "scan cmp xs x") (auto simp: option.map_ident)
next
  case (Cons u us)
  then show ?case by (auto simp: option.map_comp comp_def case_prod_unfold)
qed

lemma scan_hit:
  "\<forall>u \<in> set us. \<exists>r. cmp u x = Some r \<and> r \<noteq> 0 \<Longrightarrow> cmp v x = Some 0 \<Longrightarrow>
   scan cmp (us @ v # vs) x = Some (Some (us, v, vs))"
  by (simp add: scan_skip)

lemma scan_cases:
  assumes "\<forall>y \<in> set xs. cmp y x \<noteq> None"
  obtains "scan cmp xs x = Some None" | us v vs where "scan cmp xs x = Some (Some (us, v, vs))"
proof -
  have "scan cmp xs x \<noteq> None"
    using assms by (induction xs) auto
  then show thesis using that by (cases "scan cmp xs x") (auto, metis option.exhaust prod_cases3)
qed

locale zlistx =
  fixes Z :: "('q, 'a) zlistx_ops"
    and items :: "'q \<Rightarrow> 'a list"
  assumes new: "items (zl_new Z) = []"
    and add_end: "items (zl_add_end Z q x) = items q @ [x]"
    and size: "zl_size Z q = length (items q)"
    and first: "zl_first Z q = (case items q of [] \<Rightarrow> None | x # _ \<Rightarrow> Some x)"
    and find_fault: "scan cmp (items q) x = None \<Longrightarrow> zl_find Z cmp q x = None"
    and find_none: "scan cmp (items q) x = Some None \<Longrightarrow> zl_find Z cmp q x = Some None"
    and find_some: "scan cmp (items q) x = Some (Some (us, v, vs)) \<Longrightarrow>
      \<exists>h q'. zl_find Z cmp q x = Some (Some h) \<and> zl_item Z q h = Some v \<and>
        zl_detach Z q (Some h) = (Some v, q') \<and> items q' = us @ vs"
    and detach_empty: "items q = [] \<Longrightarrow> \<exists>q'. zl_detach Z q None = (None, q') \<and> items q' = []"
    and detach_first: "items q = x # xs \<Longrightarrow> \<exists>q'. zl_detach Z q None = (Some x, q') \<and> items q' = xs"
begin

lemma size_add_end: "zl_size Z (zl_add_end Z q x) = Suc (zl_size Z q)"
  by (simp add: size add_end)

lemma find_none_iff:
  "zl_find Z cmp q x = Some None \<longleftrightarrow> scan cmp (items q) x = Some None"
proof
  assume found: "zl_find Z cmp q x = Some None"
  show "scan cmp (items q) x = Some None"
  proof (cases "scan cmp (items q) x")
    case None
    with found find_fault show ?thesis by simp
  next
    case (Some r)
    with found find_some [of cmp q x] show ?thesis by (cases r) auto
  qed
qed (rule find_none)

lemma find_detach:
  assumes "zl_find Z cmp q x = Some (Some h)"
  obtains us v vs q' where "items q = us @ v # vs" and "cmp v x = Some 0"
    and "\<forall>u \<in> set us. \<exists>r. cmp u x = Some r \<and> r \<noteq> 0"
    and "zl_item Z q h = Some v" and "zl_detach Z q (Some h) = (Some v, q')" and "items q' = us @ vs"
proof (cases "scan cmp (items q) x")
  case None
  with assms find_fault show thesis by simp
next
  case (Some r)
  show thesis
  proof (cases r)
    case None
    with assms Some find_none show thesis by simp
  next
    case (Some t)
    obtain us v vs where t: "t = (us, v, vs)" by (cases t)
    with Some \<open>scan cmp (items q) x = Some r\<close> have sc: "scan cmp (items q) x = Some (Some (us, v, vs))"
      by simp
    from find_some [OF this] assms that [of us v vs] scan_split [OF sc] show thesis by auto
  qed
qed

text \<open>Detaching the first item as many times as there are items empties the list.\<close>

lemma detach_first_size:
  "zl_detach Z q None = (Some x, q') \<Longrightarrow> zl_size Z q = Suc (zl_size Z q')"
  using detach_empty [of q] detach_first [of q] by (cases "items q") (auto simp: size)

lemma detach_None_iff:
  "fst (zl_detach Z q None) = None \<longleftrightarrow> items q = []"
  using detach_empty [of q] detach_first [of q] by (cases "items q") auto

end

section \<open>The lists of HOL as a zlistx\<close>

text \<open>
  An implementation by lists, a handle being the position: the instance on which witnesses run.
\<close>

fun list_find :: "('a \<Rightarrow> 'a \<Rightarrow> int option) \<Rightarrow> 'a list \<Rightarrow> 'a \<Rightarrow> nat option option" where
  "list_find cmp [] x = Some None"
| "list_find cmp (y # ys) x = (case cmp y x of
     None \<Rightarrow> None
   | Some r \<Rightarrow> if r = 0 then Some (Some 0) else map_option (map_option Suc) (list_find cmp ys x))"

fun list_item :: "'a list \<Rightarrow> nat \<Rightarrow> 'a option" where
  "list_item [] h = None"
| "list_item (y # ys) 0 = Some y"
| "list_item (y # ys) (Suc h) = list_item ys h"

fun list_detach :: "'a list \<Rightarrow> nat \<Rightarrow> 'a option \<times> 'a list" where
  "list_detach [] h = (None, [])"
| "list_detach (y # ys) 0 = (Some y, ys)"
| "list_detach (y # ys) (Suc h) = map_prod id (Cons y) (list_detach ys h)"

fun list_first :: "'a list \<Rightarrow> 'a option" where
  "list_first [] = None"
| "list_first (x # xs) = Some x"

fun list_detach_handle :: "'a list \<Rightarrow> nat option \<Rightarrow> 'a option \<times> 'a list" where
  "list_detach_handle xs None = list_detach xs 0"
| "list_detach_handle xs (Some h) = list_detach xs h"

definition list_zlistx :: "('a list, 'a) zlistx_ops" where
  "list_zlistx = \<lparr>zl_new = [], zl_add_end = (\<lambda>q x. q @ [x]), zl_size = length,
     zl_first = list_first, zl_find = list_find, zl_item = list_item, zl_detach = list_detach_handle\<rparr>"

lemma list_zlistx_simps [simp]:
  "zl_new list_zlistx = []" "zl_add_end list_zlistx q x = q @ [x]" "zl_size list_zlistx q = length q"
  "zl_first list_zlistx q = list_first q" "zl_find list_zlistx = list_find"
  "zl_item list_zlistx = list_item" "zl_detach list_zlistx = list_detach_handle"
  by (simp_all add: list_zlistx_def)

lemma list_find_scan:
  "scan cmp xs x = None \<Longrightarrow> list_find cmp xs x = None"
  "scan cmp xs x = Some None \<Longrightarrow> list_find cmp xs x = Some None"
  "scan cmp xs x = Some (Some (us, v, vs)) \<Longrightarrow>
     list_find cmp xs x = Some (Some (length us)) \<and> list_item xs (length us) = Some v \<and>
     list_detach xs (length us) = (Some v, us @ vs)"
proof -
  show "scan cmp xs x = None \<Longrightarrow> list_find cmp xs x = None"
    by (induction xs) (auto split: option.splits if_splits)
  show "scan cmp xs x = Some None \<Longrightarrow> list_find cmp xs x = Some None"
    by (induction xs) (auto split: option.splits if_splits)
  show "scan cmp xs x = Some (Some (us, v, vs)) \<Longrightarrow>
     list_find cmp xs x = Some (Some (length us)) \<and> list_item xs (length us) = Some v \<and>
     list_detach xs (length us) = (Some v, us @ vs)"
    by (induction xs arbitrary: us) (auto split: option.splits if_splits)
qed

interpretation lz: zlistx list_zlistx "\<lambda>xs. xs"
proof
  fix q :: "'a list" and x xs us v vs cmp
  show "zl_first list_zlistx q = (case q of [] \<Rightarrow> None | x # _ \<Rightarrow> Some x)"
    by (cases q) simp_all
  show "scan cmp q x = Some (Some (us, v, vs)) \<Longrightarrow>
      \<exists>h q'. zl_find list_zlistx cmp q x = Some (Some h) \<and> zl_item list_zlistx q h = Some v \<and>
        zl_detach list_zlistx q (Some h) = (Some v, q') \<and> q' = us @ vs"
    by (drule list_find_scan(3)) auto
qed (auto simp: list_find_scan)

end
