(* ===== verification/SharedMemory.thy ===== *)
theory SharedMemory
  imports Wire
begin

text \<open>
  \<^verbatim>\<open>src/shared_memory/shared_memory.h\<close>: a shared segment guarded by two binary semaphores, and
  the chunked transfer of an item over it. The first part is one process: \<open>write_shared_memory\<close> and
  \<open>read_shared_memory\<close> on the scripts and the trace of the net, \<open>send_item\<close> and \<open>recv_item\<close> as the
  loops over them, and the contract \<open>item_pipe\<close> that clients and daemon rely on. The second part is
  the two processes together: the step relation \<open>pipe_step\<close> cuts the writer and the reader at their
  semaphore operations. Sizes are natural numbers; a \<open>size_t\<close> holds every size below \<open>2 ^ 64\<close>.
\<close>

definition MAX_BYTES :: nat where "MAX_BYTES = 4000000"

definition maxlen :: nat where
  "maxlen = MAX_BYTES - 4 - 8 * 2 - 8"

section \<open>Creating and opening a segment\<close>

text \<open>The results of the system calls, in the order of the code.\<close>

datatype truncate_result = TruncOk | TruncEinval | TruncErr

record shm_calls =
  sc_wsem :: bool
  sc_rsem :: bool
  sc_shm :: bool
  sc_trunc :: truncate_result
  sc_mmap :: bool

datatype unlink = SemUnlink string | ShmUnlink string

definition create_shared_memory ::
  "shm_calls \<Rightarrow> string \<Rightarrow> string \<Rightarrow> string \<Rightarrow> int \<times> unlink list" where
  "create_shared_memory os name wname rname =
     (if \<not> sc_wsem os then (1, [SemUnlink wname])
      else if \<not> sc_rsem os then (1, [SemUnlink rname, SemUnlink wname])
      else if \<not> sc_shm os then (1, [SemUnlink wname, SemUnlink rname, ShmUnlink name])
      else if sc_trunc os = TruncErr then (1, [ShmUnlink name, SemUnlink wname, SemUnlink rname])
      else if \<not> sc_mmap os then (1, [SemUnlink wname, SemUnlink rname, ShmUnlink name])
      else (0, []))"

definition open_shared_memory ::
  "shm_calls \<Rightarrow> string \<Rightarrow> string \<Rightarrow> string \<Rightarrow> int \<times> unlink list" where
  "open_shared_memory os name wname rname =
     (if \<not> sc_wsem os then (1, [SemUnlink wname])
      else if \<not> sc_rsem os then (1, [SemUnlink wname, SemUnlink rname])
      else if \<not> sc_shm os then (1, [SemUnlink wname, SemUnlink rname, ShmUnlink name])
      else if sc_trunc os = TruncErr then (1, [ShmUnlink name, SemUnlink wname, SemUnlink rname])
      else if \<not> sc_mmap os then (1, [ShmUnlink name, SemUnlink wname, SemUnlink rname])
      else (0, []))"

definition close_shared_memory :: "string \<Rightarrow> string \<Rightarrow> string \<Rightarrow> unlink list" where
  "close_shared_memory name wname rname = [ShmUnlink name, SemUnlink wname, SemUnlink rname]"

section \<open>One chunk\<close>

definition write_shared_memory ::
  "string \<Rightarrow> bytes \<Rightarrow> nat \<Rightarrow> u32 \<Rightarrow> nat \<Rightarrow> net \<Rightarrow> (int \<times> net) option" where
  "write_shared_memory p data len i ntot w = do {
     check (len > 0 \<and> len \<le> MAX_BYTES - 8 * 2 - 4);
     Some (0, emit (ShmTx p \<lparr>ck_id = i, ck_len = len, ck_total = ntot, ck_data = data\<rparr>) w) }"

text \<open>
  The bytes of a segment behind the data written are 0: the reader clears it. The test of the length
  lets through lengths for which the copy runs past the mapping: a fault. An empty script is a
  \<open>sem_wait\<close> that never returns.
\<close>

definition read_shared_memory ::
  "string \<Rightarrow> net \<Rightarrow> (int \<times> bytes option \<times> nat \<times> nat \<times> u32 \<times> net) option" where
  "read_shared_memory p w = (case shm w p of
     [] \<Rightarrow> None
   | c # cs \<Rightarrow>
       (let w = w\<lparr>shm := (shm w)(p := cs)\<rparr>
        in if ck_len c = 0 \<or> ck_len c > MAX_BYTES
           then Some (1, None, ck_len c, ck_total c, ck_id c, w)
           else if 4 + 8 * 2 + ck_len c > MAX_BYTES then None
           else Some (0, Some (load (\<lambda>_. nul) (ck_len c) (ck_data c)), ck_len c, ck_total c, ck_id c, w)))"

section \<open>Items\<close>

text \<open>\<open>m\<close> is the largest chunk, \<open>maxlen\<close> in the code.\<close>

definition num_chunks :: "nat \<Rightarrow> nat \<Rightarrow> nat" where
  "num_chunks m len =
     (let chunks = (if len > m then len div m else 1)
      in if chunks * m < len then chunks + 1 else chunks)"

definition chunk_len :: "nat \<Rightarrow> nat \<Rightarrow> nat \<Rightarrow> nat \<Rightarrow> nat" where
  "chunk_len m len chunks i =
     (if chunks = 1 then len else if i = chunks - 1 then len - m * i else m)"

fun send_loop :: "nat \<Rightarrow> string \<Rightarrow> bytes \<Rightarrow> nat \<Rightarrow> nat \<Rightarrow> nat \<Rightarrow> nat \<Rightarrow> net \<Rightarrow> (int \<times> net) option" where
  "send_loop 0 p data len m chunks i w = Some (0, w)"
| "send_loop (Suc k) p data len m chunks i w = do {
     let ulen = chunk_len m len chunks i;
     (r, w) \<leftarrow> write_shared_memory p (take ulen (drop (i * m) data)) ulen (word_of_nat i) chunks w;
     if r \<noteq> 0 then Some (1, w) else send_loop k p data len m chunks (i + 1) w }"

text \<open>The item is read through its pointer: \<open>len\<close> bytes of a live block, a fault otherwise.\<close>

definition send_item_m :: "nat \<Rightarrow> string \<Rightarrow> cptr \<Rightarrow> nat \<Rightarrow> net \<Rightarrow> (int \<times> net) option" where
  "send_item_m m p data len w = (case data of
     Live b \<Rightarrow> if length b < len then None
       else let chunks = num_chunks m len
            in send_loop chunks p b len m chunks 0 w
   | _ \<Rightarrow> None)"

definition send_item :: "string \<Rightarrow> cptr \<Rightarrow> nat \<Rightarrow> net \<Rightarrow> (int \<times> net) option" where
  "send_item = send_item_m maxlen"

text \<open>
  \<open>recv_item\<close>: an error of the first read frees an uninitialised pointer, an error of a later one
  copies from it, and a chunk larger than the first does not fit the block: faults.
\<close>

fun recv_loop :: "nat \<Rightarrow> nat \<Rightarrow> nat \<Rightarrow> string \<Rightarrow> bytes \<Rightarrow> net \<Rightarrow> (bytes \<times> nat \<times> net) option" where
  "recv_loop 0 i sz p buf w = Some (buf, i, w)"
| "recv_loop (Suc k) i sz p buf w = do {
     (rt, d, per, tot, ident, w) \<leftarrow> read_shared_memory p w;
     temp \<leftarrow> d;
     buf \<leftarrow> store (i * sz) temp buf;
     recv_loop k (i + 1) sz p buf w }"

definition recv_item :: "string \<Rightarrow> net \<Rightarrow> (int \<times> cptr \<times> nat \<times> net) option" where
  "recv_item p w = do {
     (rt, d, sz, ntot, ident, w) \<leftarrow> read_shared_memory p w;
     temp \<leftarrow> d;
     buf \<leftarrow> store 0 temp (uninit w (ntot * sz));
     (buf, i, w) \<leftarrow> recv_loop (ntot - 2) 1 sz p buf w;
     if ntot > 1 then do {
       (rt, d, per, tot, ident, w) \<leftarrow> read_shared_memory p w;
       temp \<leftarrow> d;
       buf \<leftarrow> store (i * sz) temp buf;
       Some (0, Live (take ((ntot - 1) * sz + per) buf), (ntot - 1) * sz + per, w) }
     else Some (0, Live buf, ntot * sz, w) }"

section \<open>The contract of a pipe\<close>

text \<open>
  What was written to a pipe is what its other end finds, chunk for chunk.
\<close>

fun written :: "string \<Rightarrow> event list \<Rightarrow> chunk list" where
  "written p [] = []"
| "written p (ShmTx q c # es) = (if q = p then c # written p es else written p es)"
| "written p (e # es) = written p es"

lemma written_append [simp]: "written p (xs @ ys) = written p xs @ written p ys"
  by (induction p xs rule: written.induct) auto

lemma written_map [simp]: "written p (map (ShmTx p) cs) = cs"
  by (induction cs) auto

definition after_read :: "string \<Rightarrow> chunk list \<Rightarrow> net \<Rightarrow> net" where
  "after_read p cs w = w\<lparr>shm := (shm w)(p := cs)\<rparr>"

lemma after_read_simps [simp]:
  "shm (after_read p cs w) = (shm w)(p := cs)" "tx (after_read p cs w) = tx w"
  "rx (after_read p cs w) = rx w" "junk (after_read p cs w) = junk w"
  "send_ok (after_read p cs w) = send_ok w" "rcvmore (after_read p cs w) = rcvmore w"
  "conn_ok (after_read p cs w) = conn_ok w"
  "after_read p ds (after_read p cs w) = after_read p ds w"
  by (simp_all add: after_read_def)

locale item_pipe =
  fixes put :: "string \<Rightarrow> cptr \<Rightarrow> nat \<Rightarrow> net \<Rightarrow> (int \<times> net) option"
    and get :: "string \<Rightarrow> net \<Rightarrow> (int \<times> cptr \<times> nat \<times> net) option"
    and item_chunks :: "bytes \<Rightarrow> chunk list"
  assumes put: "data \<noteq> [] \<Longrightarrow>
      put p (Live data) (length data) w = Some (0, w\<lparr>tx := tx w @ map (ShmTx p) (item_chunks data)\<rparr>)"
    and put_empty: "put p q 0 w = None"
    and get: "data \<noteq> [] \<Longrightarrow> shm w p = item_chunks data @ rest \<Longrightarrow>
      get p w = Some (0, Live data, length data, after_read p rest w)"
begin

lemma put_trace:
  "data \<noteq> [] \<Longrightarrow> put p (Live data) (length data) w = Some (r, w') \<Longrightarrow>
   tx w' = tx w @ map (ShmTx p) (item_chunks data)"
  by (simp add: put) auto

text \<open>Items arrive in order, whole, whatever their sizes are.\<close>

lemma fifo:
  assumes "data1 \<noteq> []" and "data2 \<noteq> []"
    and "put p (Live data1) (length data1) w = Some (r1, w1)"
    and "put p (Live data2) (length data2) w1 = Some (r2, w2)"
    and "tx w = []" and "shm v p = written p (tx w2) @ rest"
  shows "\<exists>v1 v2. get p v = Some (0, Live data1, length data1, v1) \<and>
    get p v1 = Some (0, Live data2, length data2, v2) \<and> shm v2 p = rest"
proof -
  have "tx w2 = map (ShmTx p) (item_chunks data1) @ map (ShmTx p) (item_chunks data2)"
    using put_trace [OF assms(1,3)] put_trace [OF assms(2,4)] assms(5) by simp
  then have v: "shm v p = item_chunks data1 @ (item_chunks data2 @ rest)"
    using assms(6) by simp
  show ?thesis
    using get [OF assms(1) v] get [OF assms(2), of "after_read p (item_chunks data2 @ rest) v" p rest]
    by simp
qed

end

definition item_chunks_m :: "nat \<Rightarrow> bytes \<Rightarrow> chunk list" where
  "item_chunks_m m data =
     (let n = num_chunks m (length data)
      in map (\<lambda>i. \<lparr>ck_id = word_of_nat i, ck_len = chunk_len m (length data) n i, ck_total = n,
           ck_data = take (chunk_len m (length data) n i) (drop (i * m) data)\<rparr>) [0..<n])"

text \<open>The number of chunks is the length divided by the largest chunk, rounded up.\<close>

lemma num_chunks_bounds:
  assumes "0 < m" and "0 < len"
  shows "0 < num_chunks m len" and "len \<le> num_chunks m len * m" and "(num_chunks m len - 1) * m < len"
proof -
  define q r where "q = len div m" and "r = len mod m"
  have d: "len = q * m + r" and r: "r < m" using assms by (simp_all add: q_def r_def)
  have pos: "0 < q" if "m < len" using d r that by (cases q) auto
  have c: "num_chunks m len = (if len \<le> m then 1 else if r = 0 then q else Suc q)"
    unfolding num_chunks_def q_def [symmetric] using d by (simp add: Let_def)
  show "0 < num_chunks m len" using pos by (simp add: c)
  show "len \<le> num_chunks m len * m" unfolding c using d r by auto
  show "(num_chunks m len - 1) * m < len"
  proof (cases "len \<le> m \<or> r \<noteq> 0")
    case True
    then show ?thesis unfolding c using d assms by auto
  next
    case False
    then have "num_chunks m len = q" and "0 < q" using pos by (simp_all add: c)
    then show ?thesis using d False assms by (cases q) auto
  qed
qed

lemma chunk_len_eq:
  assumes "0 < m" and "0 < len" and "i < num_chunks m len"
  shows "chunk_len m len (num_chunks m len) i = min m (len - m * i)"
proof -
  let ?n = "num_chunks m len"
  note b = num_chunks_bounds [OF assms(1,2)]
  consider "?n = 1" | "?n \<noteq> 1" "i = ?n - 1" | "?n \<noteq> 1" "i < ?n - 1" using assms(3) by linarith
  then show ?thesis
  proof cases
    case 1
    then show ?thesis using b assms(3) by (simp add: chunk_len_def)
  next
    case 2
    obtain k where k: "?n = Suc k" using b(1) gr0_implies_Suc by blast
    then have "len - m * i \<le> m" using b(2) 2 by (simp add: algebra_simps)
    then show ?thesis using 2 by (simp add: chunk_len_def)
  next
    case 3
    then have "Suc i * m \<le> (?n - 1) * m" by (intro mult_le_mono) auto
    then have "Suc i * m < len" using b(3) by linarith
    then show ?thesis using 3 by (simp add: chunk_len_def algebra_simps)
  qed
qed

definition nth_chunk :: "nat \<Rightarrow> bytes \<Rightarrow> nat \<Rightarrow> chunk" where
  "nth_chunk m data i =
     (let l = min m (length data - m * i)
      in \<lparr>ck_id = word_of_nat i, ck_len = l, ck_total = num_chunks m (length data),
          ck_data = take l (drop (i * m) data)\<rparr>)"

lemma item_chunks_m_eq:
  assumes "0 < m" and "data \<noteq> []"
  shows "item_chunks_m m data = map (nth_chunk m data) [0..<num_chunks m (length data)]"
  using assms by (auto simp: item_chunks_m_def nth_chunk_def Let_def chunk_len_eq)

lemma num_chunks_slice:
  assumes "0 < m" and "0 < len" and "i < num_chunks m len"
  shows "m * i < len"
proof -
  have "i * m \<le> (num_chunks m len - 1) * m" using assms(3) by (intro mult_le_mono) auto
  then have "i * m < len" using num_chunks_bounds(3) [OF assms(1,2)] by (rule le_less_trans)
  then show ?thesis by (simp only: mult.commute)
qed

lemma num_chunks_full:
  assumes "0 < m" and "0 < len" and "Suc i < num_chunks m len"
  shows "m * i + m < len"
  using num_chunks_slice [OF assms] by simp

lemma send_loop_run:
  assumes "0 < m" and "m \<le> MAX_BYTES - 20" and "data \<noteq> []"
    and "i + k \<le> num_chunks m (length data)"
  shows "send_loop k p data (length data) m (num_chunks m (length data)) i w =
    Some (0, w\<lparr>tx := tx w @ map (ShmTx p) (map (nth_chunk m data) [i..<i + k])\<rparr>)"
  using assms(4)
proof (induction k arbitrary: i w)
  case 0
  then show ?case by simp
next
  case (Suc k)
  let ?n = "num_chunks m (length data)"
  have i: "i < ?n" and pos: "0 < length data" using Suc.prems assms(3) by auto
  have "m * i < length data" by (rule num_chunks_slice [OF assms(1) pos i])
  then have w: "write_shared_memory p (take (chunk_len m (length data) ?n i) (drop (i * m) data))
      (chunk_len m (length data) ?n i) (word_of_nat i) ?n w = Some (0, emit (ShmTx p (nth_chunk m data i)) w)"
    using assms(1,2) by (simp add: write_shared_memory_def chunk_len_eq [OF assms(1) pos i]
        nth_chunk_def check_def Let_def)
  have up: "[i..<i + Suc k] = i # [Suc i..<Suc i + k]" by (simp add: upt_rec)
  show ?case
    using Suc.IH [of "Suc i" "emit (ShmTx p (nth_chunk m data i)) w"] Suc.prems
    by (simp only: send_loop.simps Let_def w bind.bind_lunit split up) (simp add: emit_def)
qed

lemma send_item_m_run:
  assumes "0 < m" and "m \<le> MAX_BYTES - 20" and "data \<noteq> []"
  shows "send_item_m m p (Live data) (length data) w =
    Some (0, w\<lparr>tx := tx w @ map (ShmTx p) (item_chunks_m m data)\<rparr>)"
  using send_loop_run [OF assms, of 0 "num_chunks m (length data)"]
  by (simp add: send_item_m_def item_chunks_m_eq assms)

lemma read_nth_chunk:
  assumes "0 < m" and "m \<le> MAX_BYTES - 20" and "m * i < length data"
    and "shm w p = nth_chunk m data i # cs"
  shows "read_shared_memory p w =
    (let l = min m (length data - m * i)
     in Some (0, Some (take l (drop (m * i) data)), l, num_chunks m (length data), word_of_nat i,
              after_read p cs w))"
  using assms by (auto simp: read_shared_memory_def nth_chunk_def Let_def after_read_def MAX_BYTES_def
      load_exact mult.commute)

lemma store_prefix:
  assumes "take k buf = take k data" and "k + c \<le> length buf" and "k + c \<le> length data"
  obtains buf' where "store k (take c (drop k data)) buf = Some buf'"
    and "take (k + c) buf' = take (k + c) data" and "length buf' = length buf"
proof
  have len: "length (take c (drop k data)) = c" using assms(3) by simp
  show "store k (take c (drop k data)) buf = Some (overwrite k (take c (drop k data)) buf)"
    using assms(2) len by (simp add: store_def)
  show "take (k + c) (overwrite k (take c (drop k data)) buf) = take (k + c) data"
    using assms len by (simp add: overwrite_def take_add)
  show "length (overwrite k (take c (drop k data)) buf) = length buf"
    using assms(2) len by (simp add: length_overwrite)
qed

lemma recv_loop_run:
  assumes "0 < m" and "m \<le> MAX_BYTES - 20" and "m * (i + k) \<le> length data"
    and "shm w p = map (nth_chunk m data) [i..<i + k] @ cs"
    and "take (m * i) buf = take (m * i) data" and "m * (i + k) \<le> length buf"
  shows "\<exists>buf'. recv_loop k i m p buf w = Some (buf', i + k, after_read p cs w) \<and>
    take (m * (i + k)) buf' = take (m * (i + k)) data \<and> length buf' = length buf"
  using assms(3-6)
proof (induction k arbitrary: i buf w)
  case 0
  then show ?case by (simp add: after_read_def fun_upd_idem)
next
  case (Suc k)
  have le: "m * i + m \<le> m * (i + Suc k)" by (simp add: algebra_simps)
  have up: "[i..<i + Suc k] = i # [Suc i..<Suc i + k]" by (simp add: upt_rec)
  have slice: "m * i < length data" "min m (length data - m * i) = m"
    using le Suc.prems(1) assms(1) by linarith+
  let ?cs = "map (nth_chunk m data) [Suc i..<Suc i + k] @ cs"
  have q: "shm w p = nth_chunk m data i # ?cs"
    using Suc.prems(2) by (simp only: up list.map append_Cons)
  have rd: "read_shared_memory p w = Some (0, Some (take m (drop (m * i) data)), m,
      num_chunks m (length data), word_of_nat i, after_read p ?cs w)"
    using read_nth_chunk [OF assms(1,2) slice(1) q] by (simp only: Let_def slice(2))
  obtain buf1 where st: "store (m * i) (take m (drop (m * i) data)) buf = Some buf1"
    and pre: "take (m * i + m) buf1 = take (m * i + m) data" and len: "length buf1 = length buf"
    using store_prefix [of "m * i" buf data m] Suc.prems le by (metis order_trans)
  obtain buf2 where "recv_loop k (Suc i) m p buf1 (after_read p ?cs w)
      = Some (buf2, Suc i + k, after_read p cs (after_read p ?cs w))"
    and "take (m * (Suc i + k)) buf2 = take (m * (Suc i + k)) data" and "length buf2 = length buf1"
    using Suc.IH [of "Suc i" "after_read p ?cs w" buf1] Suc.prems pre len by (auto simp: add.commute)
  then show ?case
    using rd st len by (auto simp: mult.commute [of i m])
qed

lemma recv_item_run:
  assumes "0 < m" and "m \<le> MAX_BYTES - 20" and "data \<noteq> []" and "shm w p = item_chunks_m m data @ rest"
  shows "recv_item p w = Some (0, Live data, length data, after_read p rest w)"
proof -
  let ?n = "num_chunks m (length data)" and ?len = "length data"
  have pos: "0 < ?len" using assms(3) by simp
  note b = num_chunks_bounds [OF assms(1) pos]
  let ?cs = "map (nth_chunk m data) [1..<?n] @ rest"
  have "[0..<?n] = 0 # [1..<?n]" using b(1) by (simp add: upt_rec)
  then have q: "shm w p = nth_chunk m data 0 # ?cs"
    using assms by (simp add: item_chunks_m_eq)
  have rd: "read_shared_memory p w =
      Some (0, Some (take (min m ?len) data), min m ?len, ?n, 0, after_read p ?cs w)"
    using read_nth_chunk [OF assms(1,2) _ q] pos by (simp add: Let_def)
  show ?thesis
  proof (cases "?n = 1")
    case True
    then have len: "min m ?len = ?len" using b(2) by simp
    have "store 0 data (uninit (after_read p ?cs w) ?len) = Some data"
      by (simp add: store_def overwrite_def)
    then show ?thesis using True rd len by (simp add: recv_item_def)
  next
    case False
    then obtain k where k: "?n = Suc (Suc k)"
      using b(1) by (metis One_nat_def Suc_pred not0_implies_Suc less_numeral_extra(3))
    have full: "m * Suc k < ?len" and last: "?len \<le> m * Suc k + m" using b k by (simp_all add: algebra_simps)
    have m: "min m ?len = m" using full by simp
    let ?buf = "uninit (after_read p ?cs w) (?n * m)"
    have cap: "length ?buf = m * Suc k + m" by (simp add: k algebra_simps)
    obtain buf1 where st: "store 0 (take m data) ?buf = Some buf1"
      and pre: "take m buf1 = take m data" and len1: "length buf1 = length ?buf"
      using store_prefix [of 0 ?buf data m] cap full b(1) by auto
    let ?ds = "nth_chunk m data (Suc k) # rest"
    have cs: "?cs = map (nth_chunk m data) [1..<1 + k] @ ?ds" by (simp add: k)
    obtain buf2 where lp: "recv_loop k 1 m p buf1 (after_read p ?cs w)
        = Some (buf2, Suc k, after_read p ?ds (after_read p ?cs w))"
      and pre2: "take (m * Suc k) buf2 = take (m * Suc k) data" and len2: "length buf2 = length buf1"
      using recv_loop_run [OF assms(1,2), of 1 k data "after_read p ?cs w" p ?ds buf1] full pre len1 cap cs
      by auto
    let ?per = "?len - m * Suc k"
    have per: "min m ?per = ?per" using last by simp
    have rd2: "read_shared_memory p (after_read p ?ds w) =
        Some (0, Some (take ?per (drop (m * Suc k) data)), ?per, ?n, word_of_nat (Suc k), after_read p rest w)"
      using read_nth_chunk [OF assms(1,2) full, of "after_read p ?ds w" p rest] per
      by (simp add: Let_def del: of_nat_Suc)
    obtain buf3 where st2: "store (m * Suc k) (take ?per (drop (m * Suc k) data)) buf2 = Some buf3"
      and pre3: "take (m * Suc k + ?per) buf3 = take (m * Suc k + ?per) data"
      using store_prefix [of "m * Suc k" buf2 data ?per] pre2 len2 len1 cap full last by auto
    have "take ?len buf3 = data" using pre3 full by simp
    then show ?thesis
      using rd st lp rd2 st2 m k full
      by (simp add: recv_item_def mult.commute [of m] del: of_nat_Suc mult_Suc mult_Suc_right)
  qed
qed

definition item_chunks :: "bytes \<Rightarrow> chunk list" where
  "item_chunks = item_chunks_m maxlen"

lemma maxlen_bounds: "0 < maxlen" "maxlen \<le> MAX_BYTES - 20"
  by (simp_all add: maxlen_def MAX_BYTES_def)

lemma send_item_empty: "send_item p q 0 w = None"
  by (cases q) (simp_all add: send_item_def send_item_m_def num_chunks_def write_shared_memory_def
      chunk_len_def)

interpretation pipe: item_pipe send_item recv_item item_chunks
proof
  fix p w q data rest
  show "send_item p q 0 w = None" by (rule send_item_empty)
  show "data \<noteq> [] \<Longrightarrow> shm w p = item_chunks data @ rest \<Longrightarrow>
      recv_item p w = Some (0, Live data, length data, after_read p rest w)"
    using recv_item_run [OF maxlen_bounds, of data w p rest] by (simp add: item_chunks_def)
qed (simp add: send_item_def item_chunks_def send_item_m_run maxlen_bounds)

section \<open>The two processes of a pipe\<close>

text \<open>
  The writer repeats \<open>sem_wait(w_sem)\<close>, copy in, \<open>sem_post(r_sem)\<close> for the chunks in \<open>todo\<close>; the reader
  repeats \<open>sem_wait(r_sem)\<close>, copy out and clear, \<open>sem_post(w_sem)\<close>, collecting \<open>got\<close>; it stops inside
  its critical section, without the post, when the length in the segment is invalid. \<open>seg\<close> is the
  contents of the segment, \<open>None\<close> after \<open>memset\<close>.
\<close>

datatype prod_pc = PStart | PInside | PCopied
datatype cons_pc = CStart | CInside | CCopied | CFailed

record pipe_state =
  rsem :: nat
  wsem :: nat
  seg :: "chunk option"
  todo :: "chunk list"
  got :: "chunk list"
  prod_at :: prod_pc
  cons_at :: cons_pc

definition valid_chunk :: "chunk \<Rightarrow> bool" where
  "valid_chunk c \<longleftrightarrow> 0 < ck_len c \<and> 4 + 8 * 2 + ck_len c \<le> MAX_BYTES"

definition pipe_init :: "chunk list \<Rightarrow> pipe_state" where
  "pipe_init cs = \<lparr>rsem = 0, wsem = 1, seg = None, todo = cs, got = [], prod_at = PStart, cons_at = CStart\<rparr>"

inductive pipe_step :: "pipe_state \<Rightarrow> pipe_state \<Rightarrow> bool" where
  write_wait: "prod_at s = PStart \<Longrightarrow> todo s \<noteq> [] \<Longrightarrow> 0 < wsem s \<Longrightarrow>
    pipe_step s (s\<lparr>wsem := wsem s - 1, prod_at := PInside\<rparr>)"
| write_copy: "prod_at s = PInside \<Longrightarrow> todo s = c # cs \<Longrightarrow>
    pipe_step s (s\<lparr>seg := Some c, todo := cs, prod_at := PCopied\<rparr>)"
| write_post: "prod_at s = PCopied \<Longrightarrow>
    pipe_step s (s\<lparr>rsem := rsem s + 1, prod_at := PStart\<rparr>)"
| read_wait: "cons_at s = CStart \<Longrightarrow> 0 < rsem s \<Longrightarrow>
    pipe_step s (s\<lparr>rsem := rsem s - 1, cons_at := CInside\<rparr>)"
| read_copy: "cons_at s = CInside \<Longrightarrow> seg s = Some c \<Longrightarrow> valid_chunk c \<Longrightarrow>
    pipe_step s (s\<lparr>seg := None, got := got s @ [c], cons_at := CCopied\<rparr>)"
| read_fail: "cons_at s = CInside \<Longrightarrow> seg s = None \<or> (\<exists>c. seg s = Some c \<and> \<not> valid_chunk c) \<Longrightarrow>
    pipe_step s (s\<lparr>cons_at := CFailed\<rparr>)"
| read_post: "cons_at s = CCopied \<Longrightarrow>
    pipe_step s (s\<lparr>wsem := wsem s + 1, cons_at := CStart\<rparr>)"

inductive_cases pipe_stepE: "pipe_step s t"

text \<open>
  One token travels through the two semaphores and the two critical sections, and the segment is full
  exactly from the writer's copy to the reader's.
\<close>

definition pipe_inv :: "chunk list \<Rightarrow> pipe_state \<Rightarrow> bool" where
  "pipe_inv cs s \<longleftrightarrow>
     rsem s + wsem s + (if prod_at s = PStart then 0 else 1) + (if cons_at s = CStart then 0 else 1) = 1 \<and>
     got s @ (case seg s of None \<Rightarrow> [] | Some c \<Rightarrow> [c]) @ todo s = cs \<and>
     (seg s \<noteq> None \<longleftrightarrow> prod_at s = PCopied \<or> rsem s = 1 \<or> cons_at s = CInside \<or> cons_at s = CFailed) \<and>
     (prod_at s = PInside \<longrightarrow> todo s \<noteq> []) \<and>
     (cons_at s = CFailed \<longrightarrow> (\<exists>c. seg s = Some c \<and> \<not> valid_chunk c))"

lemma pipe_inv_init: "pipe_inv cs (pipe_init cs)"
  by (simp add: pipe_inv_def pipe_init_def)

lemma pipe_inv_step: "pipe_step s t \<Longrightarrow> pipe_inv cs s \<Longrightarrow> pipe_inv cs t"
  by (erule pipe_stepE) (auto simp: pipe_inv_def split: option.splits if_splits)

lemma pipe_inv_reach: "pipe_step\<^sup>*\<^sup>* (pipe_init cs) s \<Longrightarrow> pipe_inv cs s"
  by (induction rule: rtranclp_induct) (auto simp: pipe_inv_init elim: pipe_inv_step)

text \<open>Every step makes progress, so a run is finite; a stuck run has delivered everything or failed.\<close>

fun prod_rank :: "prod_pc \<Rightarrow> nat" where
  "prod_rank PStart = 1" | "prod_rank PInside = 0" | "prod_rank PCopied = 5"

fun cons_rank :: "cons_pc \<Rightarrow> nat" where
  "cons_rank CStart = 0" | "cons_rank CInside = 2" | "cons_rank CCopied = 1" | "cons_rank CFailed = 0"

definition pipe_measure :: "pipe_state \<Rightarrow> nat" where
  "pipe_measure s = 6 * length (todo s) + prod_rank (prod_at s) + 3 * rsem s + cons_rank (cons_at s)"

lemma pipe_step_measure: "pipe_step s t \<Longrightarrow> pipe_measure t < pipe_measure s"
  by (erule pipe_stepE) (auto simp: pipe_measure_def)

lemma pipe_stuck:
  assumes "pipe_inv cs s" and "\<nexists>t. pipe_step s t"
  shows "got s = cs \<or> (\<exists>c. seg s = Some c \<and> \<not> valid_chunk c \<and> cons_at s = CFailed)"
proof (cases "cons_at s")
  case CStart
  then have "rsem s = 0" using assms(2) read_wait by (metis neq0_conv)
  moreover have "prod_at s \<noteq> PCopied" using assms(2) write_post by metis
  moreover have "prod_at s \<noteq> PInside"
    using assms write_copy by (cases "todo s") (auto simp: pipe_inv_def)
  ultimately have "prod_at s = PStart" and "wsem s = 1" and "seg s = None"
    using assms(1) CStart by (cases "prod_at s"; auto simp: pipe_inv_def)+
  moreover from this have "todo s = []" using assms(2) write_wait by (metis zero_less_one)
  ultimately show ?thesis using assms(1) by (simp add: pipe_inv_def)
next
  case CInside
  then show ?thesis using assms(2) read_copy read_fail by (metis option.exhaust)
next
  case CCopied
  then show ?thesis using assms(2) read_post by metis
next
  case CFailed
  then show ?thesis using assms(1) by (auto simp: pipe_inv_def)
qed

lemma pipe_run_ends: "wfP (\<lambda>t s. pipe_step s t)"
  by (rule wfp_if_convertible_to_nat [of _ pipe_measure]) (rule pipe_step_measure)

text \<open>Chunks of items are valid.\<close>

lemma item_chunks_valid: "c \<in> set (item_chunks data) \<Longrightarrow> data \<noteq> [] \<Longrightarrow> valid_chunk c"
  using maxlen_bounds num_chunks_slice [OF maxlen_bounds(1), of "length data"]
  by (auto simp: item_chunks_def item_chunks_m_eq valid_chunk_def nth_chunk_def Let_def MAX_BYTES_def)

end
