(* ===== verification/NodeInfo.thy ===== *)
theory NodeInfo
  imports Wire
begin

text \<open>
  \<^verbatim>\<open>src/p2pm_node_info.c\<close>: the neighbours of a ring node. The successor list is one block of
  \<open>r_max\<close> slots of 256 bytes, a slot being a C string and free when its first byte is NUL; \<open>r\<close> is the
  number of slots in use. Indices are 32 bit, as in the source, so \<open>r << 8\<close> wraps. A freed block is the
  empty block, on which every access is a fault. Reading past the end of a received block yields
  arbitrary bytes, writing past the end of a block is a fault.
\<close>

definition P2PM_MAX_ID_LEN :: nat where
  "P2PM_MAX_ID_LEN = 256"

record p2pm_node_info =
  successor_list :: bytes
  predecessor :: bytes
  successor :: bytes
  temp_predecessor :: bytes
  temp_successor :: bytes
  ni_r :: u32
  r_max :: u32

abbreviation PSTRLEN :: "string \<Rightarrow> nat" where
  "PSTRLEN s \<equiv> Suc (length s)"

abbreviation zeros :: "nat \<Rightarrow> bytes" where
  "zeros n \<equiv> replicate n nul"

text \<open>The loop bound \<open>n << P2PM_MAX_ID_LEN_SHFT\<close> on \<open>unsigned\<close>.\<close>

definition shl8 :: "u32 \<Rightarrow> nat" where
  "shl8 n = unat (push_bit 8 n)"

definition p2pm_ni_create :: "u32 \<Rightarrow> string \<Rightarrow> net \<Rightarrow> p2pm_node_info option" where
  "p2pm_ni_create rmax join_addr w = do {
     pred \<leftarrow> store 0 (c_bytes join_addr) (uninit w P2PM_MAX_ID_LEN);
     Some \<lparr>successor_list = zeros (unat rmax * 256), predecessor = pred,
           successor = uninit w P2PM_MAX_ID_LEN, temp_predecessor = uninit w P2PM_MAX_ID_LEN,
           temp_successor = uninit w P2PM_MAX_ID_LEN, ni_r = 0, r_max = rmax\<rparr> }"

text \<open>The loop of \<open>_p2pm_ni_condense_successor_list\<close>; \<open>k\<close> counts the iterations left.\<close>

fun condense_loop :: "nat \<Rightarrow> nat \<Rightarrow> nat \<Rightarrow> bool \<Rightarrow> bytes \<Rightarrow> bytes option" where
  "condense_loop 0 p e ok l = Some l"
| "condense_loop (Suc k) p e ok l =
     (if p = 0 then condense_loop k (p + 256) p True l
      else if ok then do {
        l \<leftarrow> store p (take 256 (drop e l)) l;
        l \<leftarrow> store p (zeros 256) l;
        condense_loop k (p + 256) e False l }
      else condense_loop k (p + 256) e ok l)"

definition condense_successor_list :: "p2pm_node_info \<Rightarrow> p2pm_node_info option" where
  "condense_successor_list self =
     (if ni_r self \<ge> r_max self then Some self
      else do {
        l \<leftarrow> condense_loop (shl8 (r_max self) div 256) 0 0 False (successor_list self);
        Some (self\<lparr>successor_list := l\<rparr>) })"

text \<open>The first \<open>i\<close>, in steps of 256 and below \<open>bound\<close>, whose byte is NUL; \<open>bound\<close> if there is none.\<close>

fun free_slot :: "nat \<Rightarrow> nat \<Rightarrow> bytes \<Rightarrow> nat option" where
  "free_slot 0 i l = Some i"
| "free_slot (Suc k) i l =
     (if i \<ge> length l then None else if l ! i = nul then Some i else free_slot k (i + 256) l)"

definition p2pm_ni_add_successor ::
  "p2pm_node_info \<Rightarrow> string \<Rightarrow> (p2pm_opcodes \<times> p2pm_node_info) option" where
  "p2pm_ni_add_successor self s =
     (if PSTRLEN s > P2PM_MAX_ID_LEN then Some (P2PM_OP_INVALID, self)
      else do {
        self \<leftarrow> condense_successor_list self;
        i \<leftarrow> free_slot (shl8 (r_max self) div 256) 0 (successor_list self);
        if i = shl8 (r_max self) then Some (P2PM_OP_FAILURE, self)
        else if i = 0 then do {
          succ \<leftarrow> store 0 (c_bytes s) (successor self);
          l \<leftarrow> store 0 (c_bytes s) (successor_list self);
          Some (P2PM_OP_SUCCESS, self\<lparr>successor := succ, successor_list := l\<rparr>) }
        else do {
          l \<leftarrow> store i (c_bytes s) (successor_list self);
          Some (P2PM_OP_SUCCESS, self\<lparr>successor_list := l\<rparr>) } })"

text \<open>\<open>grown\<close>: what \<open>realloc\<close> returns, null or a block of the new size.\<close>

definition p2pm_ni_reset_r_max ::
  "p2pm_node_info \<Rightarrow> u32 \<Rightarrow> bool \<Rightarrow> net \<Rightarrow> p2pm_opcodes \<times> p2pm_node_info" where
  "p2pm_ni_reset_r_max self rmax grown w =
     (if rmax < r_max self then (P2PM_OP_INVALID, self)
      else if \<not> grown then (P2PM_OP_FAILURE, self)
      else (P2PM_OP_SUCCESS,
        self\<lparr>successor_list := load (junk w) (unat rmax * 256) (successor_list self), r_max := rmax\<rparr>))"

definition p2pm_ni_remove_successor ::
  "p2pm_node_info \<Rightarrow> u32 \<Rightarrow> (p2pm_opcodes \<times> p2pm_node_info) option" where
  "p2pm_ni_remove_successor self i =
     (if i \<ge> r_max self then Some (P2PM_OP_INVALID, self)
      else do {
        l \<leftarrow> store (shl8 i) [nul] (successor_list self);
        self \<leftarrow> condense_successor_list (self\<lparr>successor_list := l\<rparr>);
        Some (P2PM_OP_SUCCESS, self) })"

definition p2pm_ni_set_successor ::
  "p2pm_node_info \<Rightarrow> string \<Rightarrow> (p2pm_opcodes \<times> p2pm_node_info) option" where
  "p2pm_ni_set_successor self s =
     (if PSTRLEN s > P2PM_MAX_ID_LEN then Some (P2PM_OP_INVALID, self)
      else do {
        succ \<leftarrow> store 0 (c_bytes s) (successor self);
        l \<leftarrow> store 0 (c_bytes s) (successor_list self);
        Some (P2PM_OP_SUCCESS, self\<lparr>successor := succ, successor_list := l\<rparr>) })"

definition p2pm_ni_set_predecessor ::
  "p2pm_node_info \<Rightarrow> string \<Rightarrow> (p2pm_opcodes \<times> p2pm_node_info) option" where
  "p2pm_ni_set_predecessor self s =
     (if PSTRLEN s > P2PM_MAX_ID_LEN then Some (P2PM_OP_FAILURE, self)
      else do {
        pred \<leftarrow> store 0 (c_bytes s) (predecessor self);
        Some (P2PM_OP_SUCCESS, self\<lparr>predecessor := pred\<rparr>) })"

definition p2pm_node_info_destroy :: "p2pm_node_info \<Rightarrow> p2pm_node_info" where
  "p2pm_node_info_destroy self =
     \<lparr>successor_list = [], predecessor = [], successor = [], temp_predecessor = [],
      temp_successor = [], ni_r = 0, r_max = 0\<rparr>"

text \<open>The copy loops: slot \<open>i\<close> of the source to slot \<open>i + d\<close> of the list.\<close>

fun copy_slots :: "nat \<Rightarrow> nat \<Rightarrow> nat \<Rightarrow> (nat \<Rightarrow> char) \<Rightarrow> bytes \<Rightarrow> bytes \<Rightarrow> bytes option" where
  "copy_slots 0 i d jk src l = Some l"
| "copy_slots (Suc k) i d jk src l = do {
     l \<leftarrow> store ((i + d) * 256) (load (\<lambda>j. jk (i * 256 + j)) 256 (drop (i * 256) src)) l;
     copy_slots k (i + 1) d jk src l }"

definition p2pm_ni_copy_successor_list ::
  "p2pm_node_info \<Rightarrow> bytes \<Rightarrow> u32 \<Rightarrow> net \<Rightarrow> (p2pm_opcodes \<times> p2pm_node_info) option" where
  "p2pm_ni_copy_successor_list self src nr w = do {
     s \<leftarrow> cstr src;
     if PSTRLEN s > P2PM_MAX_ID_LEN then Some (P2PM_OP_INVALID, self)
     else do {
       let over = nr + 1 > r_max self;
       let self = (if over then self\<lparr>ni_r := r_max self\<rparr> else self\<lparr>ni_r := nr + 1\<rparr>);
       let nr = (if over then r_max self - 1 else nr);
       l \<leftarrow> copy_slots (shl8 (nr + 1) div 256 - 1) 0 1 (junk w) src (successor_list self);
       Some (P2PM_OP_SUCCESS, self\<lparr>successor_list := l\<rparr>) } }"

definition p2pm_ni_move_successor_list ::
  "p2pm_node_info \<Rightarrow> bytes \<Rightarrow> u32 \<Rightarrow> net \<Rightarrow> (p2pm_opcodes \<times> p2pm_node_info) option" where
  "p2pm_ni_move_successor_list self src nr w = do {
     l \<leftarrow> store 0 (zeros (shl8 (r_max self))) (successor_list self);
     let self = self\<lparr>successor_list := l\<rparr>;
     s \<leftarrow> cstr src;
     if PSTRLEN s > P2PM_MAX_ID_LEN then Some (P2PM_OP_INVALID, self)
     else do {
       let over = nr + 1 > r_max self;
       let self = (if over then self\<lparr>ni_r := r_max self\<rparr> else self\<lparr>ni_r := nr\<rparr>);
       let nr = (if over then r_max self - 1 else nr);
       l \<leftarrow> copy_slots (shl8 nr div 256) 0 0 (junk w) src (successor_list self);
       self \<leftarrow> condense_successor_list (self\<lparr>successor_list := l\<rparr>);
       Some (P2PM_OP_SUCCESS, self) } }"

definition p2pm_ni_successor_list_next :: "p2pm_node_info \<Rightarrow> u32 \<Rightarrow> u32" where
  "p2pm_ni_successor_list_next self previous =
     (if previous + 256 \<ge> push_bit 8 (ni_r self) then 0 else previous + 256)"

definition p2pm_ni_fix_successor_list :: "p2pm_node_info \<Rightarrow> p2pm_node_info option" where
  "p2pm_ni_fix_successor_list self = condense_successor_list self"

section \<open>The list of slots\<close>

definition slot :: "bytes \<Rightarrow> nat \<Rightarrow> bytes" where
  "slot l i = take 256 (drop (i * 256) l)"

text \<open>The blocks have their sizes, and the list is small enough for the 32 bit indices.\<close>

definition ni_wf :: "p2pm_node_info \<Rightarrow> bool" where
  "ni_wf n \<longleftrightarrow> 0 < unat (r_max n) \<and> unat (r_max n) < 2 ^ 24 \<and>
     length (successor_list n) = unat (r_max n) * 256 \<and> length (predecessor n) = 256 \<and>
     length (successor n) = 256 \<and> length (temp_predecessor n) = 256 \<and> length (temp_successor n) = 256"

lemma shl8_small: "unat n < 2 ^ 24 \<Longrightarrow> shl8 n = unat n * 256"
  by (simp add: shl8_def push_bit_eq_mult unat_word_ariths mult.commute)

lemma length_slot: "length l = n * 256 \<Longrightarrow> i < n \<Longrightarrow> length (slot l i) = 256"
proof -
  assume l: "length l = n * 256" and "i < n"
  then have "Suc i * 256 \<le> n * 256" by (intro mult_le_mono) auto
  then show ?thesis using l by (simp add: slot_def)
qed

lemma slot_overwrite:
  assumes "length l = n * 256" and "i < n" and "length s = 256" and "j < n"
  shows "slot (overwrite (i * 256) s l) j = (if j = i then s else slot l j)"
proof -
  have i: "Suc i * 256 \<le> n * 256" and j: "Suc j * 256 \<le> n * 256"
    using assms by (intro mult_le_mono; simp)+
  consider "j = i" | "j < i" | "i < j" by linarith
  then show ?thesis
  proof cases
    case 1
    then show ?thesis using assms(1,3) i by (simp add: slot_def overwrite_def)
  next
    case 2
    then have "Suc j * 256 \<le> i * 256" by (intro mult_le_mono) auto
    then have "256 \<le> i * 256 - j * 256" by simp
    then show ?thesis using 2 assms(1) i by (simp add: slot_def overwrite_def drop_take min_absorb1)
  next
    case 3
    then have "Suc i * 256 \<le> j * 256" by (intro mult_le_mono) auto
    then show ?thesis using 3 assms(1,3) i by (simp add: slot_def overwrite_def)
  qed
qed

lemma store_slot:
  assumes "length l = n * 256" and "i < n" and "length s \<le> 256"
  shows "store (i * 256) s l = Some (overwrite (i * 256) s l)"
    and "length (overwrite (i * 256) s l) = n * 256"
proof -
  have i: "Suc i * 256 \<le> n * 256" using assms(2) by (intro mult_le_mono) auto
  then show "store (i * 256) s l = Some (overwrite (i * 256) s l)"
    using assms by (simp add: store_def)
  show "length (overwrite (i * 256) s l) = n * 256"
    using assms i by (simp add: length_overwrite)
qed

lemma slots_eqI:
  assumes "length l = n * 256" and "length l' = n * 256" and "\<And>i. i < n \<Longrightarrow> slot l i = slot l' i"
  shows "l = l'"
proof (rule nth_equalityI)
  fix j assume "j < length l"
  then have i: "j div 256 < n" using assms(1) by (simp add: less_mult_imp_div_less)
  have "slot l (j div 256) ! (j mod 256) = l ! j" "slot l' (j div 256) ! (j mod 256) = l' ! j"
    using i length_slot [OF assms(1) i] length_slot [OF assms(2) i] assms(1,2)
    by (simp_all add: slot_def nth_drop)
  then show "l ! j = l' ! j" using assms(3) [OF i] by simp
qed (simp add: assms)

text \<open>
  The test \<open>ptr == '\0'\<close> of the condensing loop reads the index, not the byte, so what the loop does
  is to clear the second slot.
\<close>

lemma condense_loop_idle: "0 < p \<Longrightarrow> condense_loop k p e False l = Some l"
  by (induction k arbitrary: p) auto

lemma condense_loop_clears:
  assumes "length l = Suc (Suc n) * 256"
  shows "condense_loop (Suc (Suc n)) 0 0 False l = Some (overwrite 256 (zeros 256) l)"
proof -
  have "store 256 (take 256 l) l = Some (overwrite 256 (take 256 l) l)"
    using assms by (simp add: store_def)
  moreover have "store 256 (zeros 256) (overwrite 256 (take 256 l) l) = Some (overwrite 256 (zeros 256) l)"
    using assms by (simp add: store_def overwrite_def)
  ultimately show ?thesis by (simp add: condense_loop_idle)
qed

lemma shl8_slots: "ni_wf n \<Longrightarrow> shl8 (r_max n) div 256 = unat (r_max n)"
  by (simp add: ni_wf_def shl8_small)

definition condensed :: "p2pm_node_info \<Rightarrow> p2pm_node_info" where
  "condensed n =
     (if ni_r n < r_max n \<and> 2 \<le> unat (r_max n)
      then n\<lparr>successor_list := overwrite 256 (zeros 256) (successor_list n)\<rparr> else n)"

lemma condense_eq:
  assumes "ni_wf n"
  shows "condense_successor_list n = Some (condensed n)"
proof -
  obtain m where m: "unat (r_max n) = Suc m" using assms by (auto simp: ni_wf_def dest: gr0_implies_Suc)
  show ?thesis
  proof (cases m)
    case 0
    then show ?thesis using m
      by (simp add: condense_successor_list_def condensed_def shl8_slots [OF assms])
  next
    case (Suc k)
    have "length (successor_list n) = Suc (Suc k) * 256" using assms m Suc by (simp add: ni_wf_def)
    then show ?thesis using m Suc condense_loop_clears [of "successor_list n" k]
      by (simp add: condense_successor_list_def condensed_def shl8_slots [OF assms] not_less
          del: condense_loop.simps)
  qed
qed

lemma ni_wf_condensed: "ni_wf n \<Longrightarrow> ni_wf (condensed n)"
  by (auto simp: ni_wf_def condensed_def length_overwrite)

lemma condensed_fields [simp]:
  "r_max (condensed n) = r_max n" "ni_r (condensed n) = ni_r n" "successor (condensed n) = successor n"
  "predecessor (condensed n) = predecessor n" "temp_successor (condensed n) = temp_successor n"
  "temp_predecessor (condensed n) = temp_predecessor n"
  by (simp_all add: condensed_def)

section \<open>Searching, adding and copying\<close>

lemma slot_first: "length l = n * 256 \<Longrightarrow> i < n \<Longrightarrow> slot l i ! 0 = l ! (i * 256)"
proof -
  assume l: "length l = n * 256" and "i < n"
  then have "Suc i * 256 \<le> n * 256" by (intro mult_le_mono) auto
  then show ?thesis using l by (simp add: slot_def)
qed

lemma free_slot_run:
  assumes "length l = n * 256" and "i + k = n"
  shows "\<exists>j. free_slot k (i * 256) l = Some (j * 256) \<and> i \<le> j \<and> j \<le> n \<and>
    (j < n \<longrightarrow> slot l j ! 0 = nul) \<and> (\<forall>m. i \<le> m \<and> m < j \<longrightarrow> slot l m ! 0 \<noteq> nul)"
  using assms(2)
proof (induction k arbitrary: i)
  case 0
  then show ?case by auto
next
  case (Suc k)
  then have i: "i < n" by simp
  have off: "i * 256 < length l" using i assms(1) by simp
  show ?case
  proof (cases "l ! (i * 256) = nul")
    case True
    then show ?thesis using off i slot_first [OF assms(1) i] by auto
  next
    case False
    obtain j where j: "free_slot k (Suc i * 256) l = Some (j * 256)" "Suc i \<le> j" "j \<le> n"
      "j < n \<longrightarrow> slot l j ! 0 = nul" "\<forall>m. Suc i \<le> m \<and> m < j \<longrightarrow> slot l m ! 0 \<noteq> nul"
      using Suc.IH [of "Suc i"] Suc.prems by auto
    have "\<forall>m. i \<le> m \<and> m < j \<longrightarrow> slot l m ! 0 \<noteq> nul"
      using j(5) False slot_first [OF assms(1) i] by (metis le_antisym not_less_eq_eq)
    then show ?thesis using j False off by (intro exI [of _ j]) (simp add: add.commute)
  qed
qed

lemma copy_slots_run:
  assumes "length l = n * 256" and "i + d + k \<le> n"
  shows "\<exists>l'. copy_slots k i d jk src l = Some l' \<and> length l' = n * 256 \<and>
    (\<forall>j < n. slot l' j = (if i + d \<le> j \<and> j < i + d + k
       then load (\<lambda>m. jk ((j - d) * 256 + m)) 256 (drop ((j - d) * 256) src) else slot l j))"
  using assms
proof (induction k arbitrary: i l)
  case 0
  then show ?case by auto
next
  case (Suc k)
  let ?s = "load (\<lambda>m. jk (i * 256 + m)) 256 (drop (i * 256) src)"
  let ?l = "overwrite ((i + d) * 256) ?s l"
  have i: "i + d < n" using Suc.prems by simp
  have st: "store ((i + d) * 256) ?s l = Some ?l" and len: "length ?l = n * 256"
    using store_slot [OF Suc.prems(1) i, of ?s] by simp_all
  obtain l' where l': "copy_slots k (Suc i) d jk src ?l = Some l'" "length l' = n * 256"
    "\<forall>j < n. slot l' j = (if Suc i + d \<le> j \<and> j < Suc i + d + k
       then load (\<lambda>m. jk ((j - d) * 256 + m)) 256 (drop ((j - d) * 256) src) else slot ?l j)"
    using Suc.IH [of ?l "Suc i"] Suc.prems len by auto
  have "slot l' j = (if i + d \<le> j \<and> j < i + d + Suc k
       then load (\<lambda>m. jk ((j - d) * 256 + m)) 256 (drop ((j - d) * 256) src) else slot l j)" if "j < n" for j
    using l'(3) slot_overwrite [OF Suc.prems(1) i _ that, of ?s] that by auto
  then show ?case using l' st by (simp del: add_mult_distrib distrib_right)
qed

section \<open>The operations on well-formed lists\<close>

lemma store_block:
  "length b = 256 \<Longrightarrow> length s < 256 \<Longrightarrow> store 0 (c_bytes s) b = Some (overwrite 0 (c_bytes s) b)"
  "length b = 256 \<Longrightarrow> length s < 256 \<Longrightarrow> length (overwrite 0 (c_bytes s) b) = 256"
  by (simp_all add: store_def length_overwrite)

lemma list_pos: "ni_wf n \<Longrightarrow> 256 \<le> length (successor_list n)"
  by (cases "unat (r_max n)") (auto simp: ni_wf_def)

lemma add_successor_cases:
  assumes "ni_wf n" and "length s < 256"
  shows "\<exists>j. j \<le> unat (r_max n) \<and> (\<forall>m < j. slot (successor_list (condensed n)) m ! 0 \<noteq> nul) \<and>
    (j < unat (r_max n) \<longrightarrow> slot (successor_list (condensed n)) j ! 0 = nul) \<and>
    p2pm_ni_add_successor n s = Some (if j = unat (r_max n) then (P2PM_OP_FAILURE, condensed n)
      else (P2PM_OP_SUCCESS, (condensed n)\<lparr>
        successor := (if j = 0 then overwrite 0 (c_bytes s) (successor n) else successor n),
        successor_list := overwrite (j * 256) (c_bytes s) (successor_list (condensed n))\<rparr>))"
proof -
  let ?c = "condensed n" and ?n = "unat (r_max n)"
  have wf: "ni_wf ?c" by (rule ni_wf_condensed [OF assms(1)])
  then have len: "length (successor_list ?c) = ?n * 256" by (simp add: ni_wf_def)
  obtain j where j: "free_slot ?n 0 (successor_list ?c) = Some (j * 256)" "j \<le> ?n"
    "j < ?n \<longrightarrow> slot (successor_list ?c) j ! 0 = nul" "\<forall>m < j. slot (successor_list ?c) m ! 0 \<noteq> nul"
    using free_slot_run [OF len, of 0 ?n] by auto
  have bound: "shl8 (r_max n) = ?n * 256" using assms(1) by (simp add: ni_wf_def shl8_small)
  have st: "j < ?n \<Longrightarrow> store (j * 256) (c_bytes s) (successor_list ?c)
      = Some (overwrite (j * 256) (c_bytes s) (successor_list ?c))"
    using store_slot(1) [OF len] assms(2) by simp
  have succ: "store 0 (c_bytes s) (successor n) = Some (overwrite 0 (c_bytes s) (successor n))"
    using assms by (simp add: store_block ni_wf_def)
  show ?thesis
    using j st succ assms
    by (intro exI [of _ j]) (auto simp: p2pm_ni_add_successor_def condense_eq bound P2PM_MAX_ID_LEN_def)
qed

lemma overwrite_slot:
  assumes "length l = n * 256" and "i < n" and "length s \<le> 256"
  shows "overwrite (i * 256) s l = overwrite (i * 256) (s @ drop (length s) (slot l i)) l"
proof -
  have "drop (i * 256 + length s) l = drop (length s) (drop (i * 256) l)" by (simp add: add.commute)
  also have "\<dots> = drop (length s) (slot l i @ drop 256 (drop (i * 256) l))"
    by (simp only: slot_def append_take_drop_id)
  also have "\<dots> = drop (length s) (slot l i) @ drop 256 (drop (i * 256) l)"
    using assms(3) length_slot [OF assms(1,2)] by simp
  finally have d: "drop (i * 256 + length s) l = drop (length s) (slot l i) @ drop 256 (drop (i * 256) l)" .
  have len: "length (s @ drop (length s) (slot l i)) = 256"
    using assms(3) length_slot [OF assms(1,2)] by simp
  have e: "drop 256 (drop (i * 256) l) = drop (i * 256 + 256) l" by (simp add: add.commute)
  show ?thesis by (simp only: overwrite_def len d e append_assoc)
qed

lemma slot_store_name:
  assumes "length l = n * 256" and "i < n" and "j < n" and "length s < 256" and "c_string s"
  shows "cstr (slot (overwrite (i * 256) (c_bytes s) l) i) = Some s"
    and "j \<noteq> i \<Longrightarrow> slot (overwrite (i * 256) (c_bytes s) l) j = slot l j"
proof -
  let ?s = "c_bytes s @ drop (Suc (length s)) (slot l i)"
  have ls: "length ?s = 256" using assms(4) length_slot [OF assms(1,2)] by simp
  have eq: "overwrite (i * 256) (c_bytes s) l = overwrite (i * 256) ?s l"
    using overwrite_slot [OF assms(1,2), of "c_bytes s"] assms(4) by simp
  show "cstr (slot (overwrite (i * 256) (c_bytes s) l) i) = Some s"
    using slot_overwrite [OF assms(1,2) ls assms(2)] assms(5) by (simp add: eq cstr_c_bytes)
  show "j \<noteq> i \<Longrightarrow> slot (overwrite (i * 256) (c_bytes s) l) j = slot l j"
    using slot_overwrite [OF assms(1,2) ls assms(3)] by (simp add: eq)
qed

lemma condensed_slots:
  assumes "ni_wf n" and "ni_r n < r_max n" and "2 \<le> unat (r_max n)" and "j < unat (r_max n)"
  shows "slot (successor_list (condensed n)) j = (if j = 1 then zeros 256 else slot (successor_list n) j)"
  using slot_overwrite [of "successor_list n" "unat (r_max n)" 1 "zeros 256" j] assms
  by (auto simp: condensed_def ni_wf_def)

text \<open>
  What the condensing loop makes of an addition: when slots are left (\<open>r < r_max\<close>) and the first is in
  use, the new successor goes to the second slot, whatever was there.
\<close>

lemma add_successor_second:
  assumes "ni_wf n" and "ni_r n < r_max n" and "2 \<le> unat (r_max n)" and "slot (successor_list n) 0 ! 0 \<noteq> nul"
    and "length s < 256" and "c_string s"
  shows "\<exists>n'. p2pm_ni_add_successor n s = Some (P2PM_OP_SUCCESS, n') \<and> ni_wf n' \<and> ni_r n' = ni_r n \<and>
    r_max n' = r_max n \<and> cstr (slot (successor_list n') 1) = Some s \<and>
    (\<forall>j < unat (r_max n). j \<noteq> 1 \<longrightarrow> slot (successor_list n') j = slot (successor_list n) j)"
proof -
  let ?c = "condensed n" and ?n = "unat (r_max n)"
  note wf = ni_wf_condensed [OF assms(1)]
  note cs = condensed_slots [OF assms(1-3)]
  obtain j where j: "j \<le> ?n" "\<forall>m < j. slot (successor_list ?c) m ! 0 \<noteq> nul"
    "j < ?n \<longrightarrow> slot (successor_list ?c) j ! 0 = nul"
    "p2pm_ni_add_successor n s = Some (if j = ?n then (P2PM_OP_FAILURE, ?c)
      else (P2PM_OP_SUCCESS, ?c\<lparr>
        successor := (if j = 0 then overwrite 0 (c_bytes s) (successor n) else successor n),
        successor_list := overwrite (j * 256) (c_bytes s) (successor_list ?c)\<rparr>))"
    using add_successor_cases [OF assms(1,5)] by auto
  have "j \<noteq> 0"
  proof
    assume "j = 0"
    then show False using j(3) assms(3,4) cs [of 0] by simp
  qed
  moreover have "\<not> 1 < j" using j(2) assms(3) cs [of 1] by auto
  ultimately have "j = 1" by simp
  let ?n' = "?c\<lparr>successor_list := overwrite 256 (c_bytes s) (successor_list ?c)\<rparr>"
  have len: "length (successor_list ?c) = ?n * 256" using wf by (simp add: ni_wf_def)
  have "256 + Suc (length s) \<le> length (successor_list ?c)" using len assms(3,5) by simp
  then have "ni_wf ?n'" using wf by (simp add: ni_wf_def length_overwrite)
  moreover have "p2pm_ni_add_successor n s = Some (P2PM_OP_SUCCESS, ?n')"
    using j(4) \<open>j = 1\<close> assms(3) by simp
  moreover have "slot (overwrite 256 (c_bytes s) (successor_list ?c)) k = slot (successor_list n) k"
    if "k < ?n" "k \<noteq> 1" for k
    using slot_store_name(2) [OF len _ that(1) assms(5,6), of 1] that cs [of k] assms(3) by simp
  moreover have "cstr (slot (overwrite 256 (c_bytes s) (successor_list ?c)) 1) = Some s"
    using slot_store_name(1) [OF len _ _ assms(5,6), of 1 1] assms(3) by simp
  ultimately show ?thesis by (intro exI [of _ ?n']) simp
qed

lemma copy_count:
  assumes "0 < unat rm" and "unat rm < 2 ^ 24" and "unat nr < 2 ^ 32 - 1"
  shows "shl8 ((if nr + 1 > rm then rm - 1 else nr) + 1) div 256 - 1 = min (Suc (unat nr)) (unat rm) - 1"
proof -
  have nr: "unat (nr + 1) = Suc (unat nr)" using assms(3) by (simp add: unat_word_ariths)
  have r1: "unat (rm - 1) = unat rm - 1" using assms(1) by (metis unat_minus_one unat_gt_0)
  have gt: "rm < nr + 1 \<longleftrightarrow> unat rm < Suc (unat nr)" by (simp only: word_less_nat_alt nr)
  have "unat ((if nr + 1 > rm then rm - 1 else nr) + 1) = min (Suc (unat nr)) (unat rm)"
    using gt nr assms(1) r1 by auto
  then show ?thesis using assms(2) by (simp add: shl8_small)
qed

lemma copy_successor_list_run:
  assumes "ni_wf n" and "cstr src = Some s" and "length s < 256" and "unat nr < 2 ^ 32 - 1"
  shows "\<exists>n'. p2pm_ni_copy_successor_list n src nr w = Some (P2PM_OP_SUCCESS, n') \<and> ni_wf n' \<and>
    unat (ni_r n') = min (Suc (unat nr)) (unat (r_max n)) \<and>
    n' = n\<lparr>ni_r := ni_r n', successor_list := successor_list n'\<rparr> \<and>
    (\<forall>j < unat (r_max n). slot (successor_list n') j =
       (if 1 \<le> j \<and> j < unat (ni_r n')
        then load (\<lambda>m. junk w ((j - 1) * 256 + m)) 256 (drop ((j - 1) * 256) src)
        else slot (successor_list n) j))"
proof -
  let ?n = "unat (r_max n)"
  have nr: "unat (nr + 1) = Suc (unat nr)" using assms(4) by (simp add: unat_word_ariths)
  have rm: "0 < ?n" "?n < 2 ^ 24" "length (successor_list n) = ?n * 256" using assms(1) by (auto simp: ni_wf_def)
  have gt: "r_max n < nr + 1 \<longleftrightarrow> ?n < Suc (unat nr)" by (simp only: word_less_nat_alt nr)
  define nr' where "nr' = (if nr + 1 > r_max n then r_max n - 1 else nr)"
  have iters: "shl8 (nr' + 1) div 256 - 1 = min (Suc (unat nr)) ?n - 1"
    unfolding nr'_def by (rule copy_count [OF rm(1,2) assms(4)])
  obtain l where l: "copy_slots (min (Suc (unat nr)) ?n - 1) 0 1 (junk w) src (successor_list n) = Some l"
    "length l = ?n * 256"
    "\<forall>j < ?n. slot l j = (if 1 \<le> j \<and> j < 1 + (min (Suc (unat nr)) ?n - 1)
       then load (\<lambda>m. junk w ((j - 1) * 256 + m)) 256 (drop ((j - 1) * 256) src) else slot (successor_list n) j)"
    using copy_slots_run [OF rm(3), of 0 1 "min (Suc (unat nr)) ?n - 1" "junk w" src] rm(1) by auto
  define r' where "r' = (if nr + 1 > r_max n then r_max n else nr + 1)"
  have r': "unat r' = min (Suc (unat nr)) ?n" using gt nr by (auto simp: r'_def)
  let ?n' = "n\<lparr>ni_r := r', successor_list := l\<rparr>"
  have "p2pm_ni_copy_successor_list n src nr w = Some (P2PM_OP_SUCCESS, ?n')"
    using assms(2,3) iters l(1)
    by (simp add: p2pm_ni_copy_successor_list_def P2PM_MAX_ID_LEN_def Let_def nr'_def r'_def split: if_splits)
  moreover have "1 + (min (Suc (unat nr)) ?n - 1) = unat r'" using r' rm(1) by simp
  ultimately show ?thesis using l(2,3) r' assms(1) by (intro exI [of _ ?n']) (simp add: ni_wf_def)
qed

lemma copy_successor_list_wf:
  assumes "ni_wf n" and "p2pm_ni_copy_successor_list n src nr w = Some (r, n')"
  shows "ni_wf n' \<and> r_max n' = r_max n \<and> successor n' = successor n \<and> predecessor n' = predecessor n \<and>
    temp_successor n' = temp_successor n \<and> temp_predecessor n' = temp_predecessor n"
proof -
  have len: "copy_slots k i d jk src l = Some l' \<Longrightarrow> length l' = length l" for k i d jk l l'
    by (induction k i d jk src l rule: copy_slots.induct) (auto simp: fault_simps dest: store_SomeD)
  show ?thesis
    using assms
    by (auto simp: p2pm_ni_copy_successor_list_def fault_simps Let_def ni_wf_def split: if_splits dest!: len)
qed

lemma set_neighbours_wf:
  "ni_wf n \<Longrightarrow> p2pm_ni_set_successor n s = Some (r, n') \<Longrightarrow> ni_wf n'"
  "ni_wf n \<Longrightarrow> p2pm_ni_set_predecessor n s = Some (r, n') \<Longrightarrow> ni_wf n'"
  by (auto simp: p2pm_ni_set_successor_def p2pm_ni_set_predecessor_def fault_simps ni_wf_def
      split: if_splits dest!: store_SomeD)

text \<open>The next index cycles through the slots in use.\<close>

lemma successor_list_next_run:
  assumes "0 < unat (ni_r n)" and "unat (ni_r n) < 2 ^ 24" and "i < unat (ni_r n)"
  shows "unat (p2pm_ni_successor_list_next n (word_of_nat (i * 256))) = (Suc i mod unat (ni_r n)) * 256"
proof -
  have bound: "Suc i * 256 \<le> unat (ni_r n) * 256" using assms(3) by (intro mult_le_mono) auto
  have "i * 256 + 256 < 2 ^ 32" using bound assms(2) by simp
  then have nxt: "unat (word_of_nat (i * 256) + 256 :: u32) = Suc i * 256"
    by (simp add: unat_word_ariths unat_of_nat)
  have r: "unat (push_bit 8 (ni_r n)) = unat (ni_r n) * 256"
    using shl8_small [OF assms(2)] by (simp add: shl8_def)
  have cmp: "push_bit 8 (ni_r n) \<le> word_of_nat (i * 256) + 256 \<longleftrightarrow> unat (ni_r n) \<le> Suc i"
    by (simp only: word_le_nat_alt nxt r mult_le_cancel2) simp
  show ?thesis
  proof (cases "Suc i = unat (ni_r n)")
    case True
    then show ?thesis using cmp by (simp add: p2pm_ni_successor_list_next_def)
  next
    case False
    then show ?thesis using cmp nxt assms(3) by (simp add: p2pm_ni_successor_list_next_def)
  qed
qed

end
