(* ===== verification/TsdState.thy ===== *)
theory TsdState
  imports TupleUtils Zlistx SharedMemory NodeInfo
begin

text \<open>
  The tuple space daemon (\<^verbatim>\<open>src/tsd/tsd.c\<close>, data of \<^verbatim>\<open>src/sng_common.h\<close>): its state, the macro
  \<open>_SAFE_RETURN\<close>, the tokens it sends to the ring and the functions that answer a client.

  A space is a \<open>tsd_element\<close>; its queues are values of the list container, whose operations are the
  argument \<open>L\<close> of every definition (with the regular expression matcher, and the bytes of the C
  library function \<open>recv\<close>, which one handler copies by mistake). A handler takes the space and the
  arguments by value and returns them updated. Its return value is \<open>None\<close> where the C function ends
  without \<open>return\<close>. Logging is not modelled; \<open>malloc\<close> succeeds.
\<close>

record ('t, 'r, 's) tsd_lib =
  TQ :: "('t, sng_tuple) zlistx_ops"
  RQ :: "('r, blocking_request) zlistx_ops"
  SQ :: "('s, cptr) zlistx_ops"
  rgx :: "string \<Rightarrow> string \<Rightarrow> bool option"
  recv_code :: sng_tuple

record ('t, 'r, 's) tsd_element =
  ename :: string
  direct_endpoint :: bytes
  named_queue :: 't
  bcast_queue :: 't
  named_queue_requests :: 'r
  bcast_queue_requests :: 'r
  connect_requests :: 'r
  expect_queue :: 's
  ts_mode :: ts_mode_t
  tsd_mode :: tsd_mode_t
  ts_tsd_pipe :: string
  tsd_ts_pipe :: string
  is_activated :: bool
  is_requested :: bool

record handler_arg =
  this_space_name :: string
  clientid_buffer :: cptr
  namespace_buffer :: cptr
  act :: tuple_command
  is_local :: bool

record tsd_cfg =
  endpoint :: string
  replication_factor :: u32

type_synonym ('t, 'r, 's) handled =
  "(int option \<times> handler_arg \<times> ('t, 'r, 's) tsd_element \<times> net) option"

definition using_socket :: "bool \<Rightarrow> sock" where
  "using_socket local = (if local then LocalSocket else ServerSocket)"

lemma using_socket_simps [simp]:
  "using_socket True = LocalSocket" "using_socket False = ServerSocket"
  by (simp_all add: using_socket_def)

section \<open>Draining a socket\<close>

text \<open>
  The loop of \<open>_ts_fail\<close> on the frames to come: it ends when the last one read was the last of its
  message. On a script that is exhausted before, it does not end.
\<close>

fun drain :: "rframe list \<Rightarrow> bool \<Rightarrow> (rframe list \<times> bool) option" where
  "drain fs False = Some (fs, False)"
| "drain [] True = None"
| "drain (RErr # fs) True = drain fs True"
| "drain (RMsg m mo # fs) True = drain fs mo"

definition ts_fail :: "sock \<Rightarrow> net \<Rightarrow> net option" where
  "ts_fail s w = do {
     (fs, mo) \<leftarrow> drain (rx w s) (rcvmore w s);
     Some (w\<lparr>rx := (rx w)(s := fs), rcvmore := (rcvmore w)(s := mo)\<rparr>) }"

definition clear_args :: "handler_arg \<Rightarrow> handler_arg option" where
  "clear_args args = do {
     _ \<leftarrow> cfree (clientid_buffer args);
     _ \<leftarrow> cfree (namespace_buffer args);
     Some (args\<lparr>clientid_buffer := Null, namespace_buffer := Null\<rparr>) }"

definition safe_return ::
  "int \<Rightarrow> handler_arg \<Rightarrow> ('t, 'r, 's) tsd_element \<Rightarrow> sock \<Rightarrow> net \<Rightarrow> ('t, 'r, 's) handled" where
  "safe_return x args e s w = do {
     args \<leftarrow> clear_args args;
     w \<leftarrow> (if x = 1 then ts_fail s w else Some w);
     Some (Some x, args, e, w) }"

section \<open>Sending\<close>

definition send_cmd :: "sock \<Rightarrow> tuple_command \<Rightarrow> bool \<Rightarrow> net \<Rightarrow> net" where
  "send_cmd s c mo w = send_u32 s (cmd_code c) mo w"

text \<open>\<open>p2pm_send_str\<close> and \<open>zmq_send(s, p, strlen(p))\<close> on a pointer, \<open>zmq_send(s, p, n)\<close> on a block.\<close>

definition send_strp :: "sock \<Rightarrow> cptr \<Rightarrow> bool \<Rightarrow> net \<Rightarrow> net option" where
  "send_strp s p mo w = do { n \<leftarrow> deref p; Some (snd (p2pm_send_str s n mo w)) }"

definition send_id :: "sock \<Rightarrow> cptr \<Rightarrow> net \<Rightarrow> net option" where
  "send_id s p w = do { n \<leftarrow> deref p; Some (snd (zmq_send s n True w)) }"

definition send_block :: "sock \<Rightarrow> cptr \<Rightarrow> nat \<Rightarrow> bool \<Rightarrow> net \<Rightarrow> net option" where
  "send_block s p n mo w = do { d \<leftarrow> read_block p n; Some (snd (zmq_send s d mo w)) }"

section \<open>Tokens\<close>

definition send_generic_token :: "generic_token \<Rightarrow> net \<Rightarrow> net" where
  "send_generic_token tk w =
     zmq_send_token ActorPipe tk (snd (zmq_send ActorPipe (nat_le 4 TSD_P2PMD_SEND_TOKEN) True w))"

definition space_token :: "u32 \<Rightarrow> tsd_cfg \<Rightarrow> string \<Rightarrow> generic_token" where
  "space_token i self name =
     \<lparr>tk_id = i, tk_ttl = -1, tk_buf1 = Live (c_bytes name), tk_buf2 = Live (c_bytes (endpoint self)),
      tk_len1 = Suc (length name), tk_len2 = Suc (length (endpoint self))\<rparr>"

definition ts_connect_send_activate_signal ::
  "tsd_cfg \<Rightarrow> handler_arg \<Rightarrow> ('t, 'r, 's) tsd_element \<Rightarrow> net \<Rightarrow> ('t, 'r, 's) tsd_element \<times> net" where
  "ts_connect_send_activate_signal self args e w =
     (if \<not> is_activated e
      then (e\<lparr>is_activated := True\<rparr>, send_generic_token (space_token 0 self (this_space_name args)) w)
      else (e, w))"

definition ts_term_send_decomission_signal ::
  "tsd_cfg \<Rightarrow> handler_arg \<Rightarrow> ('t, 'r, 's) tsd_element \<Rightarrow> net \<Rightarrow> ('t, 'r, 's) tsd_element \<times> net" where
  "ts_term_send_decomission_signal self args e w =
     (if is_activated e
      then (e\<lparr>is_activated := False\<rparr>, send_generic_token (space_token 1 self (this_space_name args)) w)
      else (e, w))"

text \<open>
  The prefix naming of a tuple in a token. The tag is stored at \<open>dest[++len1]\<close>, past the terminator
  and one byte further, and the copy of the name that follows begins at the same place.
\<close>

definition generate_named_tuple_token_str :: "string \<Rightarrow> string \<Rightarrow> net \<Rightarrow> (bytes \<times> nat) option" where
  "generate_named_tuple_token_str ns name w = do {
     let len1 = Suc (length ns);
     let len2 = Suc (length name);
     let tot = len1 + len2 + 1;
     d \<leftarrow> store 0 (c_bytes ns) (uninit w tot);
     let len1 = len1 + 1;
     d \<leftarrow> store len1 ''N'' d;
     d \<leftarrow> store len1 (c_bytes name) d;
     Some (d, tot) }"

definition generate_anon_tuple_token_str :: "string \<Rightarrow> nat \<Rightarrow> net \<Rightarrow> (bytes \<times> nat) option" where
  "generate_anon_tuple_token_str ns anon w = do {
     check (anon \<noteq> 0);
     let len = Suc (length ns);
     let tot = len + 8 + 1;
     d \<leftarrow> store 0 (c_bytes ns) (uninit w tot);
     let len = len + 1;
     d \<leftarrow> store len ''A'' d;
     d \<leftarrow> store len (nat_le 8 anon) d;
     Some (d, tot) }"

section \<open>Answers\<close>

definition handle_named_queue_read_response ::
  "sock \<Rightarrow> sng_tuple \<Rightarrow> ('t, 'r, 's) tsd_element \<Rightarrow> bool \<Rightarrow> net \<Rightarrow> (int \<times> net) option" where
  "handle_named_queue_read_response s tpl space local w = do {
     let w = send_cmd s TsAck True w;
     w \<leftarrow> send_strp s (tname tpl) (\<not> local) w;
     if local then do {
       (_, w) \<leftarrow> send_item (tsd_ts_pipe space) (tdata tpl) (unat (tlen tpl)) w;
       Some (0, w) }
     else do {
       let w = send_u64 ServerSocket (tlen tpl) True w;
       w \<leftarrow> send_block ServerSocket (tdata tpl) (unat (tlen tpl)) False w;
       Some (0, w) } }"

definition handle_named_queue_fetch_response ::
  "sock \<Rightarrow> sng_tuple \<Rightarrow> ('t, 'r, 's) tsd_element \<Rightarrow> bool \<Rightarrow> net \<Rightarrow> (int \<times> net) option" where
  "handle_named_queue_fetch_response s tpl space local w =
     (if tname tpl = Null \<and> anon_id tpl \<noteq> 0 then do {
        let w = send_cmd s TsAnon True w;
        if local then do {
          let w = send_u32 s (anon_id tpl) False w;
          (_, w) \<leftarrow> send_item (tsd_ts_pipe space) (tdata tpl) (unat (tlen tpl)) w;
          Some (0, w) }
        else do {
          let w = send_u32 s (anon_id tpl) True w;
          let w = send_u64 s (tlen tpl) True w;
          w \<leftarrow> send_block ServerSocket (tdata tpl) (unat (tlen tpl)) False w;
          Some (0, w) } }
      else do {
        let w = send_cmd s TsAck True w;
        if local then do {
          w \<leftarrow> send_strp s (tname tpl) True w;
          (_, w) \<leftarrow> send_item (tsd_ts_pipe space) (tdata tpl) (unat (tlen tpl)) w;
          Some (0, w) }
        else do {
          w \<leftarrow> send_strp s (tname tpl) True w;
          let w = send_u64 s (tlen tpl) True w;
          w \<leftarrow> send_block s (tdata tpl) (unat (tlen tpl)) False w;
          Some (0, w) } })"

definition handle_bcast_queue_read_response ::
  "sock \<Rightarrow> sng_tuple \<Rightarrow> ('t, 'r, 's) tsd_element \<Rightarrow> bool \<Rightarrow> net \<Rightarrow> (int \<times> net) option" where
  "handle_bcast_queue_read_response s tpl space local w = do {
     let w = send_cmd s TsAck True w;
     if local then do {
       w \<leftarrow> send_strp s (tname tpl) False w;
       (_, w) \<leftarrow> send_item (tsd_ts_pipe space) (tdata tpl) (unat (tlen tpl)) w;
       Some (0, w) }
     else do {
       w \<leftarrow> send_strp s (tname tpl) True w;
       let w = send_u64 s (tlen tpl) True w;
       w \<leftarrow> send_block s (tdata tpl) (unat (tlen tpl)) False w;
       Some (0, w) } }"

section \<open>Requests that wait for a tuple\<close>

text \<open>Detaching the item of a handle; \<open>None\<close> when the container gives no item.\<close>

definition detach_at :: "('q, 'a) zlistx_ops \<Rightarrow> 'q \<Rightarrow> nat \<Rightarrow> ('a \<times> 'q) option" where
  "detach_at Z q h = (case zl_detach Z q (Some h) of
     (None, q') \<Rightarrow> None
   | (Some x, q') \<Rightarrow> Some (x, q'))"

definition answer_match ::
  "blocking_request \<Rightarrow> sng_tuple \<Rightarrow> ('t, 'r, 's) tsd_element \<Rightarrow> net \<Rightarrow> (int \<times> net) option option" where
  "answer_match m tpl e w =
     (let s = using_socket (blocal m) in
      case bcommand m of
        TsGet_Blocking \<Rightarrow> Some (handle_named_queue_read_response s tpl e (blocal m) w)
      | TsRead_Blocking \<Rightarrow> Some (handle_named_queue_read_response s tpl e (blocal m) w)
      | TsPop_Blocking \<Rightarrow> Some (handle_named_queue_read_response s tpl e (blocal m) w)
      | TsPeek_Blocking \<Rightarrow> Some (handle_named_queue_read_response s tpl e (blocal m) w)
      | TsBCast_Read_Blocking \<Rightarrow> Some (handle_bcast_queue_read_response s tpl e (blocal m) w)
      | _ \<Rightarrow> None)"

text \<open>
  The loop over the request queue \<open>q\<close>. The result: the return value, whether the tuple is still to be
  appended, the queue and the net. Each round but the last detaches a request, so \<open>Suc\<close> of the size of
  the queue rounds are enough.
\<close>

fun match_loop ::
  "('t, 'r, 's) tsd_lib \<Rightarrow> nat \<Rightarrow> sng_tuple \<Rightarrow> ('t, 'r, 's) tsd_element \<Rightarrow> bool \<Rightarrow> 'r \<Rightarrow> net \<Rightarrow>
   (int \<times> bool \<times> 'r \<times> net) option" where
  "match_loop L 0 tpl e need q w = None"
| "match_loop L (Suc k) tpl e need q w = do {
     let search = \<lparr>bname = tname tpl, bclient = Null, bcommand = TsNone,
                   bextra = ucast (anon_id tpl), blocal = False\<rparr>;
     h \<leftarrow> zl_find (RQ L) (blckcmp_str (rgx L)) q search;
     case h of
       None \<Rightarrow> Some (0, need, q, w)
     | Some h \<Rightarrow> do {
         (m, q) \<leftarrow> detach_at (RQ L) q h;
         if \<not> need then do {
           _ \<leftarrow> blckfree_g (Some m);
           Some (0, need, q, w) }
         else do {
           let need = (\<not> (bcommand m = TsPop_Blocking \<or> bcommand m = TsGet_Blocking));
           w \<leftarrow> send_id (using_socket (blocal m)) (bclient m) w;
           case answer_match m tpl e w of
             None \<Rightarrow> Some (-1, False, q, w)
           | Some r \<Rightarrow> do {
               (_, w) \<leftarrow> r;
               _ \<leftarrow> blckfree_g (Some m);
               match_loop L k tpl e need q w } } } }"

definition replication_token ::
  "tsd_cfg \<Rightarrow> ('t, 'r, 's) tsd_element \<Rightarrow> sng_tuple \<Rightarrow> tuple_command \<Rightarrow> net \<Rightarrow> generic_token option" where
  "replication_token self e tpl a w = do {
     (name, len) \<leftarrow> (if a = TsAdd then generate_anon_tuple_token_str (ename e) (unat (anon_id tpl)) w
                    else do { n \<leftarrow> deref (tname tpl); generate_named_tuple_token_str (ename e) n w });
     Some \<lparr>tk_id = 3, tk_ttl = sint (replication_factor self), tk_buf1 = Live name,
           tk_buf2 = Live (c_bytes (endpoint self)), tk_len1 = 0,
           tk_len2 = Suc (length (endpoint self))\<rparr> }"

definition match_blocking_requests ::
  "('t, 'r, 's) tsd_lib \<Rightarrow> tsd_cfg \<Rightarrow> ('t, 'r, 's) tsd_element \<Rightarrow> sng_tuple \<Rightarrow> tuple_command \<Rightarrow> net \<Rightarrow>
   (int \<times> ('t, 'r, 's) tsd_element \<times> net) option" where
  "match_blocking_requests L self e tpl a w =
     (if a = TsPut \<or> a = TsAdd \<or> a = TsBCast_Write then do {
        let q = (if a = TsBCast_Write then bcast_queue_requests e else named_queue_requests e);
        (r, need, q, w) \<leftarrow> match_loop L (Suc (zl_size (RQ L) q)) tpl e True q w;
        let e = (if a = TsBCast_Write then e\<lparr>bcast_queue_requests := q\<rparr> else e\<lparr>named_queue_requests := q\<rparr>);
        if need then do {
          let e = (if a = TsBCast_Write
                   then e\<lparr>bcast_queue := zl_add_end (TQ L) (bcast_queue e) (tplcpy tpl)\<rparr>
                   else e\<lparr>named_queue := zl_add_end (TQ L) (named_queue e) (tplcpy tpl)\<rparr>);
          if ts_mode e = TsModeP2P then do {
            tk \<leftarrow> replication_token self e tpl a w;
            Some (r, e, send_generic_token tk w) }
          else Some (r, e, w) }
        else Some (r, e, w) }
      else Some (1, e, w))"

end
