(* ===== verification/TsdHandlers.thy ===== *)
theory TsdHandlers
  imports TsdState
begin

text \<open>
  The handlers of client requests of \<^verbatim>\<open>src/tsd/tsd.c\<close>, one definition each, with the guards, returns
  and sends in the order of the source. \<open>self\<close> is the configuration, \<open>args\<close> the session, \<open>e\<close> the space.
\<close>

section \<open>Writing to the named queue\<close>

text \<open>The data of a remote tuple: a block of the announced length that the frame fills.\<close>

definition recv_data :: "sock \<Rightarrow> u64 \<Rightarrow> net \<Rightarrow> int \<times> cptr \<times> net" where
  "recv_data s len w =
     (let (n, buf, w) = zmq_recv s (uninit w (unat len)) w in (n, Live buf, w))"

definition named_queue_put ::
  "('t, 'r, 's) tsd_lib \<Rightarrow> tsd_cfg \<Rightarrow> handler_arg \<Rightarrow> ('t, 'r, 's) tsd_element \<Rightarrow> net \<Rightarrow> ('t, 'r, 's) handled" where
  "named_queue_put L self args e w = do {
     let s = using_socket (is_local args);
     (rt, name, w) \<leftarrow> recv_strp s Null w;
     if rt \<noteq> P2PM_OP_SUCCESS \<or> name = Null then do {
       _ \<leftarrow> cfree name;
       safe_return 1 args e s w }
     else do {
       (ok, len, data, w) \<leftarrow> (if is_local args then do {
           (_, data, n, w) \<leftarrow> recv_item (ts_tsd_pipe e) w;
           Some (True, word_of_nat n, data, w) }
         else
           (let (rt, len, w) = p2pm_recv_uint64 s 0 w
            in if rt \<noteq> P2PM_OP_SUCCESS \<or> len = 0 then Some (False, 0, Null, w)
               else (let (_, data, w) = recv_data s len w in Some (True, len, data, w))));
       if \<not> ok then do {
         _ \<leftarrow> cfree name;
         safe_return 1 args e s w }
       else do {
         let tpl = \<lparr>tname = name, anon_id = 0, tlen = len, tdata = data\<rparr>;
         if ts_mode e = TsModeP2P then do {
           let e = e\<lparr>named_queue := zl_add_end (TQ L) (named_queue e) (tplcpy tpl)\<rparr>;
           n \<leftarrow> deref name;
           (tk, tklen) \<leftarrow> generate_named_tuple_token_str (this_space_name args) n w;
           let w = send_generic_token
             \<lparr>tk_id = 2, tk_ttl = -1, tk_buf1 = Live tk, tk_buf2 = Live (c_bytes (endpoint self)),
              tk_len1 = tklen, tk_len2 = Suc (length (endpoint self))\<rparr> w;
           safe_return 0 args e s w }
         else do {
           (_, e, w) \<leftarrow> match_blocking_requests L self e tpl (act args) w;
           safe_return 0 args e s w } } } }"

text \<open>
  \<open>strlen(self->endpoint + 1)\<close> in the token of an anonymous tuple: the length without the first byte.
\<close>

definition named_queue_add ::
  "('t, 'r, 's) tsd_lib \<Rightarrow> tsd_cfg \<Rightarrow> handler_arg \<Rightarrow> ('t, 'r, 's) tsd_element \<Rightarrow> net \<Rightarrow> ('t, 'r, 's) handled" where
  "named_queue_add L self args e w = do {
     let s = using_socket (is_local args);
     let (rt, anon, w) = p2pm_recv_uint32 s 0 w;
     if rt \<noteq> P2PM_OP_SUCCESS \<or> anon = 0 then safe_return 1 args e s w
     else if is_local args then do {
       (rt, data, n, w) \<leftarrow> recv_item (ts_tsd_pipe e) w;
       if rt \<noteq> 0 \<or> data = Null then do {
         _ \<leftarrow> cfree data;
         safe_return 1 args e s w }
       else do {
         (rt, e, w) \<leftarrow> match_blocking_requests L self e
           \<lparr>tname = Null, anon_id = anon, tlen = word_of_nat n, tdata = data\<rparr> (act args) w;
         Some (Some rt, args, e, w) } }
     else do {
       let (_, len, w) = p2pm_recv_uint64 s 0 w;
       let (rt, data, w) = recv_data s len w;
       if rt < 0 then do {
         _ \<leftarrow> cfree data;
         safe_return 1 args e s w }
       else do {
         let tpl = \<lparr>tname = Null, anon_id = anon, tlen = len, tdata = data\<rparr>;
         if ts_mode e = TsModeP2P then do {
           (tk, tklen) \<leftarrow> generate_anon_tuple_token_str (this_space_name args) (unat anon) w;
           ep \<leftarrow> cstr (drop 1 (c_bytes (endpoint self)));
           let w = send_generic_token
             \<lparr>tk_id = 2, tk_ttl = -1, tk_buf1 = Live tk, tk_buf2 = Live (c_bytes (endpoint self)),
              tk_len1 = tklen, tk_len2 = length ep\<rparr> w;
           safe_return rt args e s w }
         else do {
           (rt, e, w) \<leftarrow> match_blocking_requests L self e tpl (act args) w;
           safe_return rt args e s w } } } }"

definition named_queue_write_handler ::
  "('t, 'r, 's) tsd_lib \<Rightarrow> tsd_cfg \<Rightarrow> handler_arg \<Rightarrow> ('t, 'r, 's) tsd_element \<Rightarrow> net \<Rightarrow> ('t, 'r, 's) handled" where
  "named_queue_write_handler L self args e w = do {
     check (clientid_buffer args \<noteq> Null \<and> namespace_buffer args \<noteq> Null);
     check (act args = TsPut \<or> act args = TsAdd);
     if act args = TsPut then named_queue_put L self args e w
     else named_queue_add L self args e w }"

section \<open>Popping and peeking\<close>

text \<open>
  A request record shares its client id with the session: where the session frees it afterwards, the
  record in the queue is left with a freed pointer.
\<close>

definition named_queue_fetch_handler ::
  "('t, 'r, 's) tsd_lib \<Rightarrow> handler_arg \<Rightarrow> ('t, 'r, 's) tsd_element \<Rightarrow> net \<Rightarrow> ('t, 'r, 's) handled" where
  "named_queue_fetch_handler L args e w = do {
     check (clientid_buffer args \<noteq> Null \<and> namespace_buffer args \<noteq> Null);
     check (act args \<in> {TsPop, TsPeek, TsPop_Blocking, TsPeek_Blocking});
     let s = using_socket (is_local args);
     let is_blocking = (act args = TsPop_Blocking \<or> act args = TsPeek_Blocking);
     let is_pop = (act args = TsPop \<or> act args = TsPop_Blocking);
     w \<leftarrow> send_id s (clientid_buffer args) w;
     if zl_size (TQ L) (named_queue e) = 0 then do {
       let blck = \<lparr>bname = Null, bclient = clientid_buffer args, bcommand = act args, bextra = 0,
                   blocal = is_local args\<rparr>;
       let e = (if is_blocking
         then e\<lparr>named_queue_requests := zl_add_end (RQ L) (named_queue_requests e) (blckcpy blck)\<rparr> else e);
       let args = (if is_blocking then args\<lparr>clientid_buffer := Null\<rparr> else args);
       safe_return 2 args e s (send_cmd s TsEnf False w) }
     else do {
       let (reply, q) = (if is_pop then zl_detach (TQ L) (named_queue e) None
                         else (zl_first (TQ L) (named_queue e), named_queue e));
       let e = e\<lparr>named_queue := q\<rparr>;
       case reply of
         None \<Rightarrow> do {
           let blck = \<lparr>bname = Null, bclient = Freed, bcommand = act args, bextra = 0,
                       blocal = is_local args\<rparr>;
           let e = (if is_blocking
             then e\<lparr>named_queue_requests := zl_add_end (RQ L) (named_queue_requests e) (blckcpy blck)\<rparr> else e);
           safe_return 2 args e s (send_cmd LocalSocket TsEnf False w) }
       | Some tpl \<Rightarrow> do {
           (_, w) \<leftarrow> handle_named_queue_fetch_response s tpl e (is_local args) w;
           _ \<leftarrow> (if act args = TsPop then tplfree_g (Some tpl) else Some ());
           safe_return 0 args e s w } } }"

section \<open>Reading and getting\<close>

definition named_queue_read_handler ::
  "('t, 'r, 's) tsd_lib \<Rightarrow> handler_arg \<Rightarrow> ('t, 'r, 's) tsd_element \<Rightarrow> net \<Rightarrow> ('t, 'r, 's) handled" where
  "named_queue_read_handler L args e w = do {
     check (clientid_buffer args \<noteq> Null \<and> namespace_buffer args \<noteq> Null);
     check (act args \<in> {TsRead, TsRead_Blocking, TsGet, TsGet_Blocking});
     let s = using_socket (is_local args);
     let is_get = (act args = TsGet \<or> act args = TsGet_Blocking);
     (rt, name, w) \<leftarrow> recv_strp s Null w;
     if rt \<noteq> P2PM_OP_SUCCESS \<or> name = Null then safe_return 1 args e s w
     else do {
       w \<leftarrow> send_id s (clientid_buffer args) w;
       if \<not> is_local args \<and> \<not> is_activated e then do {
         _ \<leftarrow> cfree name;
         safe_return 1 args e s (send_cmd ServerSocket TsEnf False w) }
       else do {
         let search = \<lparr>tname = name, anon_id = 0, tlen = 0, tdata = Null\<rparr>;
         h \<leftarrow> zl_find (TQ L) (tplcmp (rgx L)) (named_queue e) search;
         case h of
           None \<Rightarrow> do {
             let blocking = (act args = TsRead_Blocking \<or> act args = TsGet_Blocking);
             let blck = \<lparr>bname = name, bclient = clientid_buffer args, bcommand = act args, bextra = 0,
                         blocal = is_local args\<rparr>;
             let e = (if blocking
               then e\<lparr>named_queue_requests := zl_add_end (RQ L) (named_queue_requests e) (blckcpy blck)\<rparr> else e);
             let args = (if blocking then args\<lparr>clientid_buffer := Null\<rparr> else args);
             safe_return 2 args e s (send_cmd s TsEnf False w) }
         | Some h \<Rightarrow> do {
             (tpl, q) \<leftarrow> (if is_get then detach_at (TQ L) (named_queue e) h
                         else do { t \<leftarrow> zl_item (TQ L) (named_queue e) h; Some (t, named_queue e) });
             let e = e\<lparr>named_queue := q\<rparr>;
             _ \<leftarrow> tplcmp (rgx L) tpl search;
             r \<leftarrow> tplcmp (rgx L) search tpl;
             check (r = 0);
             (_, w) \<leftarrow> handle_named_queue_read_response s tpl e (is_local args) w;
             _ \<leftarrow> (if is_get then tplfree_g (Some tpl) else Some ());
             _ \<leftarrow> cfree name;
             safe_return 0 args e s w } } } }"

section \<open>The broadcast queue\<close>

text \<open>
  A remote tuple is received into \<open>&write_tuple.data\<close>, the eight bytes of the pointer itself, and the
  tuple stored is a copy of the code of \<open>recv\<close>.
\<close>

definition bcast_queue_write_handler ::
  "('t, 'r, 's) tsd_lib \<Rightarrow> handler_arg \<Rightarrow> ('t, 'r, 's) tsd_element \<Rightarrow> net \<Rightarrow> ('t, 'r, 's) handled" where
  "bcast_queue_write_handler L args e w = do {
     check (clientid_buffer args \<noteq> Null \<and> namespace_buffer args \<noteq> Null);
     check (act args = TsBCast_Write);
     let s = using_socket (is_local args);
     (rt, name, w) \<leftarrow> recv_strp s Null w;
     if name = Null \<or> rt \<noteq> P2PM_OP_SUCCESS then do {
       _ \<leftarrow> cfree name;
       safe_return 1 args e s w }
     else do {
       let stored = e\<lparr>bcast_queue := zl_add_end (TQ L) (bcast_queue e) (tplcpy (recv_code L))\<rparr>;
       if is_local args then do {
         (rt, data, n, w) \<leftarrow> recv_item (ts_tsd_pipe e) w;
         if rt \<noteq> 0 \<or> data = Null \<or> n = 0 then do {
           _ \<leftarrow> cfree name;
           _ \<leftarrow> cfree data;
           safe_return (-1) args e s w }
         else safe_return 0 args stored s w }
       else do {
         let (rt, len, w) = p2pm_recv_uint64 s 0 w;
         if rt \<noteq> P2PM_OP_SUCCESS \<or> len = 0 then do {
           _ \<leftarrow> cfree name;
           safe_return 2 args e s w }
         else do {
           let (n, buf, w) = zmq_recv s (zeros (unat len)) w;
           if n < 0 then do {
             _ \<leftarrow> cfree name;
             safe_return (-1) args e s w }
           else do {
             check (min (nat n) (unat len) \<le> 8);
             safe_return 0 args stored s w } } } } }"

text \<open>
  \<open>zlistx_handle_item(NULL)\<close> is null. A blocking request keeps the name and the client id that are
  freed below it.
\<close>

definition bcast_queue_read_handler ::
  "('t, 'r, 's) tsd_lib \<Rightarrow> handler_arg \<Rightarrow> ('t, 'r, 's) tsd_element \<Rightarrow> net \<Rightarrow> ('t, 'r, 's) handled" where
  "bcast_queue_read_handler L args e w = do {
     check (clientid_buffer args \<noteq> Null \<and> namespace_buffer args \<noteq> Null);
     check (act args = TsBCast_Read \<or> act args = TsBCast_Read_Blocking);
     let s = using_socket (is_local args);
     w \<leftarrow> send_id s (clientid_buffer args) w;
     (rt, name, w) \<leftarrow> recv_strp s Null w;
     if rt \<noteq> P2PM_OP_SUCCESS \<or> name = Null then do {
       _ \<leftarrow> cfree name;
       safe_return 1 args e s (send_cmd s TsEnf False w) }
     else if \<not> is_activated e then do {
       _ \<leftarrow> cfree name;
       safe_return 1 args e s (send_cmd s TsEnf False w) }
     else do {
       h \<leftarrow> zl_find (TQ L) (tplcmp (rgx L)) (bcast_queue e) \<lparr>tname = name, anon_id = 0, tlen = 0, tdata = Null\<rparr>;
       case (case h of None \<Rightarrow> None | Some h \<Rightarrow> zl_item (TQ L) (bcast_queue e) h) of
         None \<Rightarrow> do {
           let blck = \<lparr>bname = Freed, bclient = Freed, bcommand = act args, bextra = 0,
                       blocal = is_local args\<rparr>;
           let e = (if act args = TsBCast_Read_Blocking
             then e\<lparr>bcast_queue_requests := zl_add_end (RQ L) (bcast_queue_requests e) (blckcpy blck)\<rparr> else e);
           _ \<leftarrow> cfree name;
           w \<leftarrow> ts_fail s w;
           safe_return 1 args e s (send_cmd s TsEnf False w) }
       | Some tpl \<Rightarrow> do {
           (rt, w) \<leftarrow> handle_bcast_queue_read_response s tpl e (is_local args) w;
           _ \<leftarrow> cfree name;
           check (rt \<noteq> 1);
           safe_return rt args e s w } } }"

section \<open>Connecting\<close>

definition TS_MODE_MASTER :: u32 where "TS_MODE_MASTER = 0"
definition TS_MODE_CLIENT :: u32 where "TS_MODE_CLIENT = 1"
definition TS_MODE_BLOCK :: u32 where "TS_MODE_BLOCK = 2"
definition TS_MODE_P2P :: u32 where "TS_MODE_P2P = 3"
definition TS_MODE_ERR :: u32 where "TS_MODE_ERR = 4"

lemmas ts_modes = TS_MODE_MASTER_def TS_MODE_CLIENT_def TS_MODE_BLOCK_def TS_MODE_P2P_def TS_MODE_ERR_def

definition ts_connect_handler ::
  "('t, 'r, 's) tsd_lib \<Rightarrow> tsd_cfg \<Rightarrow> handler_arg \<Rightarrow> ('t, 'r, 's) tsd_element \<Rightarrow> net \<Rightarrow> ('t, 'r, 's) handled" where
  "ts_connect_handler L self args e w = do {
     check (clientid_buffer args \<noteq> Null \<and> namespace_buffer args \<noteq> Null);
     check (act args = TsConnect);
     let e = e\<lparr>is_requested := True\<rparr>;
     let s = using_socket (is_local args);
     let (_, mode, w) = p2pm_recv_uint32 s (uninit32 w) w;
     w \<leftarrow> send_id s (clientid_buffer args) w;
     if ts_mode e = TsModeMaster then
       (if mode = TS_MODE_MASTER then do {
          let (e, w) = ts_connect_send_activate_signal self args e w;
          let w = send_u32 s TS_MODE_MASTER False w;
          d \<leftarrow> store 0 (c_bytes (endpoint self)) (direct_endpoint e);
          Some (None, args, e\<lparr>direct_endpoint := d, is_activated := True\<rparr>, w) }
        else if mode = TS_MODE_CLIENT then do {
          let (e, w) = ts_connect_send_activate_signal self args e w;
          let w = send_u32 s TS_MODE_MASTER False w;
          Some (None, args, e\<lparr>is_activated := True\<rparr>, w) }
        else Some (None, args, e, send_u32 s TS_MODE_ERR False w))
     else if ts_mode e = TsModeWorker then
       (if mode \<noteq> TS_MODE_MASTER \<and> mode \<noteq> TS_MODE_CLIENT then
          safe_return 1 args e s (send_u32 s TS_MODE_ERR False w)
        else if is_activated e then do {
          let w = send_u32 s TS_MODE_CLIENT True w;
          w \<leftarrow> send_strp s (Live (direct_endpoint e)) False w;
          safe_return 0 args e s w }
        else do {
          let blck = \<lparr>bname = Null, bclient = clientid_buffer args, bcommand = act args,
                      bextra = ucast mode, blocal = is_local args\<rparr>;
          let e = e\<lparr>connect_requests := zl_add_end (RQ L) (connect_requests e) (blckcpy blck)\<rparr>;
          safe_return 0 (args\<lparr>clientid_buffer := Null\<rparr>) e s (send_u32 s TS_MODE_BLOCK False w) })
     else
       (if mode \<noteq> TS_MODE_P2P then safe_return 1 args e s (send_u32 s TS_MODE_ERR False w)
        else safe_return 0 args e s (send_u32 s TS_MODE_P2P False w)) }"

section \<open>Moving tuples between daemons\<close>

text \<open>\<open>strtoul(s, NULL, 10)\<close>: blanks, a sign, digits; it saturates.\<close>

definition is_space :: "char \<Rightarrow> bool" where
  "is_space c \<longleftrightarrow> c \<in> set [CHR '' '', CHR 0x09, CHR 0x0A, CHR 0x0B, CHR 0x0C, CHR 0x0D]"

definition is_digit :: "char \<Rightarrow> bool" where
  "is_digit c \<longleftrightarrow> (48 :: nat) \<le> of_char c \<and> of_char c \<le> (57 :: nat)"

definition strtoul10 :: "string \<Rightarrow> nat" where
  "strtoul10 str =
     (let t = dropWhile is_space str;
          neg = (first_char t = CHR ''-'');
          t = (if neg \<or> first_char t = CHR ''+'' then tl t else t);
          n = foldl (\<lambda>a c. 10 * a + (of_char c - 48)) 0 (takeWhile is_digit t)
      in if n \<ge> 2 ^ 64 then 2 ^ 64 - 1 else if neg then (2 ^ 64 - n) mod 2 ^ 64 else n)"

text \<open>\<open>p + k\<close> and \<open>*(p + k)\<close> on a pointer into a block.\<close>

definition ptr_add :: "cptr \<Rightarrow> nat \<Rightarrow> cptr" where
  "ptr_add p k = (case p of Live b \<Rightarrow> Live (drop k b) | _ \<Rightarrow> Freed)"

definition byte_at :: "net \<Rightarrow> cptr \<Rightarrow> nat \<Rightarrow> char option" where
  "byte_at w p k = (case p of Live b \<Rightarrow> Some (load (junk w) (Suc k) b ! k) | _ \<Rightarrow> None)"

definition tsd_as_client ::
  "('t, 'r, 's) tsd_lib \<Rightarrow> handler_arg \<Rightarrow> ('t, 'r, 's) tsd_element \<Rightarrow> net \<Rightarrow> ('t, 'r, 's) handled" where
  "tsd_as_client L args e w = do {
     check (act args = TsRequest \<or> act args = TsTake);
     let s = using_socket (is_local args);
     let remove = (act args = TsTake);
     let w = emit (OpenSock PeerSocket) (emit (CloseSock PeerSocket) w);
     (r, connect_endpoint, w) \<leftarrow> recv_strp s Null w;
     if r \<noteq> P2PM_OP_SUCCESS \<or> connect_endpoint = Null then safe_return 1 args e s w
     else do {
       (r, ident, w) \<leftarrow> recv_strp s Null w;
       if r \<noteq> P2PM_OP_SUCCESS \<or> connect_endpoint = Null then safe_return 1 args e s w
       else do {
         addr \<leftarrow> deref connect_endpoint;
         let (r, w) = zmq_connect PeerSocket addr w;
         if r < 0 then safe_return 0 args e s w
         else do {
           c0 \<leftarrow> byte_at w ident 0;
           anon \<leftarrow> (if c0 = CHR ''A'' then do {
               t \<leftarrow> deref (ptr_add ident 1);
               Some (word_of_nat (strtoul10 t)) } else Some 0);
           let search = \<lparr>tname = (if c0 = CHR ''A'' then Null else ptr_add ident 1), anon_id = anon,
                         tlen = 0, tdata = Null\<rparr>;
           c1 \<leftarrow> byte_at w ident 1;
           let bcast = (c1 = CHR ''B'');
           let q = (if bcast then bcast_queue e else named_queue e);
           h \<leftarrow> zl_find (TQ L) (tplcmp (rgx L)) q search;
           case h of
             None \<Rightarrow> safe_return 0 args e s w
           | Some h \<Rightarrow> do {
               (tpl, q) \<leftarrow> (if remove then detach_at (TQ L) q h
                           else do { t \<leftarrow> zl_item (TQ L) q h; Some (t, q) });
               let e = (if bcast then e\<lparr>bcast_queue := q\<rparr> else e\<lparr>named_queue := q\<rparr>);
               let name = this_space_name args;
               let w = send_u32 PeerSocket (str_len name) True w;
               let w = snd (zmq_send PeerSocket (c_bytes name) True w);
               let w = send_cmd PeerSocket TsTransmit True w;
               w \<leftarrow> send_strp PeerSocket ident True w;
               let w = send_u64 PeerSocket (tlen tpl) True w;
               w \<leftarrow> send_block PeerSocket (tdata tpl) (unat (tlen tpl)) False w;
               _ \<leftarrow> (if remove then tplfree_g (Some tpl) else Some ());
               safe_return 0 args e s w } } } } }"

text \<open>
  In the branch of a named tuple the source reads the identity after freeing it: a fault.
\<close>

definition tsd_accept_transmit ::
  "('t, 'r, 's) tsd_lib \<Rightarrow> tsd_cfg \<Rightarrow> handler_arg \<Rightarrow> ('t, 'r, 's) tsd_element \<Rightarrow> net \<Rightarrow> ('t, 'r, 's) handled" where
  "tsd_accept_transmit L self args e w = do {
     check (\<not> is_local args);
     let s = ServerSocket;
     (r, ident, w) \<leftarrow> recv_strp s Null w;
     if r \<noteq> P2PM_OP_SUCCESS \<or> ident = Null then safe_return 1 args e s w
     else do {
       let (r, len, w) = p2pm_recv_uint64 s (word_of_nat (le_nat (uninit w 8))) w;
       if r \<noteq> P2PM_OP_SUCCESS \<or> len = 0 then do {
         _ \<leftarrow> cfree ident;
         safe_return 1 args e s w }
       else do {
         let (n, data, w) = recv_data s len w;
         if n < 0 then do {
           _ \<leftarrow> cfree data;
           _ \<leftarrow> cfree ident;
           safe_return 1 args e s w }
         else do {
           c0 \<leftarrow> byte_at w ident 0;
           if c0 = CHR ''N'' then do {
             t \<leftarrow> deref ident;
             ident \<leftarrow> cfree ident;
             c0 \<leftarrow> byte_at w ident 0;
             let tpl = \<lparr>tname = Live (c_bytes (tl t)), anon_id = 0, tlen = len, tdata = data\<rparr>;
             (_, e, w) \<leftarrow> match_blocking_requests L self e tpl
                (if c0 = CHR ''B'' then TsBCast_Write else TsPut) w;
             safe_return 0 args e s w }
           else if c0 = CHR ''A'' then do {
             t \<leftarrow> deref (ptr_add ident 1);
             let tpl = \<lparr>tname = Null, anon_id = word_of_nat (strtoul10 t), tlen = len, tdata = data\<rparr>;
             _ \<leftarrow> cfree ident;
             (_, e, w) \<leftarrow> match_blocking_requests L self e tpl TsAdd w;
             safe_return 0 args e s w }
           else do {
             _ \<leftarrow> cfree data;
             _ \<leftarrow> cfree ident;
             safe_return 1 args e s w } } } } }"

definition tsd_add_expect ::
  "('t, 'r, 's) tsd_lib \<Rightarrow> handler_arg \<Rightarrow> ('t, 'r, 's) tsd_element \<Rightarrow> net \<Rightarrow> ('t, 'r, 's) handled" where
  "tsd_add_expect L args e w = do {
     let s = using_socket (is_local args);
     (_, pattern, w) \<leftarrow> recv_strp s Freed w;
     Some (None, args, e\<lparr>expect_queue := zl_add_end (SQ L) (expect_queue e) pattern\<rparr>, w) }"

section \<open>Terminating a space\<close>

text \<open>One loop over a request queue: every request is answered \<open>TsTerm\<close>, in order.\<close>

fun term_requests ::
  "('t, 'r, 's) tsd_lib \<Rightarrow> nat \<Rightarrow> 'r \<Rightarrow> net \<Rightarrow> ('r \<times> net) option" where
  "term_requests L 0 q w = None"
| "term_requests L (Suc k) q w =
     (if zl_size (RQ L) q = 0 then Some (q, w)
      else case zl_detach (RQ L) q None of
        (None, q') \<Rightarrow> None
      | (Some blck, q') \<Rightarrow> do {
          let s = using_socket (blocal blck);
          w \<leftarrow> send_id s (bclient blck) w;
          let w = send_cmd s TsTerm False w;
          _ \<leftarrow> blckfree_g (Some blck);
          term_requests L k q' w })"

text \<open>\<open>while (zlistx_size(p)) tplfree_g(zlistx_detach(q, NULL))\<close>, with \<open>p\<close> the queue itself \<dots>\<close>

fun clear_tuples :: "('t, 'r, 's) tsd_lib \<Rightarrow> nat \<Rightarrow> 't \<Rightarrow> 't option" where
  "clear_tuples L 0 q = None"
| "clear_tuples L (Suc k) q =
     (if zl_size (TQ L) q = 0 then Some q
      else (let (t, q') = zl_detach (TQ L) q None in do {
        _ \<leftarrow> tplfree_g t;
        clear_tuples L k q' }))"

text \<open>\<dots> and with another queue \<open>p\<close>, which detaching from \<open>q\<close> does not change.\<close>

partial_function (option) clear_tuples_other ::
  "('t, 'r, 's) tsd_lib \<Rightarrow> 't \<Rightarrow> 't \<Rightarrow> 't option" where
  "clear_tuples_other L p q =
     (if zl_size (TQ L) p = 0 then Some q
      else Option.bind (tplfree_g (fst (zl_detach (TQ L) q None)))
        (\<lambda>_. clear_tuples_other L p (snd (zl_detach (TQ L) q None))))"

definition ts_term_clear_requests ::
  "('t, 'r, 's) tsd_lib \<Rightarrow> ('t, 'r, 's) tsd_element \<Rightarrow> net \<Rightarrow> (('t, 'r, 's) tsd_element \<times> net) option" where
  "ts_term_clear_requests L e w = do {
     (q, w) \<leftarrow> term_requests L (Suc (zl_size (RQ L) (named_queue_requests e))) (named_queue_requests e) w;
     let e = e\<lparr>named_queue_requests := q\<rparr>;
     (q, w) \<leftarrow> term_requests L (Suc (zl_size (RQ L) (bcast_queue_requests e))) (bcast_queue_requests e) w;
     let e = e\<lparr>bcast_queue_requests := q\<rparr>;
     t \<leftarrow> clear_tuples L (Suc (zl_size (TQ L) (named_queue e))) (named_queue e);
     let e = e\<lparr>named_queue := t\<rparr>;
     t \<leftarrow> clear_tuples_other L (bcast_queue e) (named_queue e);
     Some (e\<lparr>named_queue := t\<rparr>, w) }"

end
