(* ===== verification/TsdTokens.thy ===== *)
theory TsdTokens
  imports TsdHandlers
begin

text \<open>
  What \<^verbatim>\<open>src/tsd/tsd.c\<close> does with the tokens of the ring. The space table (\<open>libchash\<close>) is a map from
  names to spaces. A token function returns the table and the net; the token itself is either sent on
  or freed.
\<close>

type_synonym ('t, 'r, 's) spaces = "string \<rightharpoonup> ('t, 'r, 's) tsd_element"
type_synonym ('t, 'r, 's) passed = "(('t, 'r, 's) spaces \<times> net) option"

definition free_token :: "generic_token \<Rightarrow> unit option" where
  "free_token tk = do { _ \<leftarrow> cfree (tk_buf1 tk); _ \<leftarrow> cfree (tk_buf2 tk); Some () }"

definition relay :: "bool \<Rightarrow> generic_token \<Rightarrow> net \<Rightarrow> net option" where
  "relay on tk w = (if on then Some (send_generic_token tk w) else do { _ \<leftarrow> free_token tk; Some w })"

text \<open>The clients that wait for the space get the endpoint of its master, in order.\<close>

fun answer_connects ::
  "('t, 'r, 's) tsd_lib \<Rightarrow> nat \<Rightarrow> cptr \<Rightarrow> 'r \<Rightarrow> net \<Rightarrow> ('r \<times> net) option" where
  "answer_connects L 0 ep q w = None"
| "answer_connects L (Suc k) ep q w =
     (if zl_size (RQ L) q = 0 then Some (q, w)
      else case zl_detach (RQ L) q None of
        (None, q') \<Rightarrow> None
      | (Some req, q') \<Rightarrow> do {
          let s = using_socket (blocal req);
          w \<leftarrow> send_id s (bclient req) w;
          w \<leftarrow> send_strp s ep False w;
          _ \<leftarrow> blckfree_g (Some req);
          answer_connects L k ep q' w })"

definition connect_token_next ::
  "('t, 'r, 's) tsd_lib \<Rightarrow> ('t, 'r, 's) spaces \<Rightarrow> generic_token \<Rightarrow> net \<Rightarrow> ('t, 'r, 's) passed" where
  "connect_token_next L tab tk w = do {
     name \<leftarrow> deref (tk_buf1 tk);
     let on = (tk_ttl tk > 0 \<or> tk_ttl tk = -1);
     case tab name of
       None \<Rightarrow> do { w \<leftarrow> relay on tk w; Some (tab, w) }
     | Some e \<Rightarrow>
         if is_activated e then Some (tab, w)
         else do {
           let e = e\<lparr>is_activated := True\<rparr>;
           d \<leftarrow> read_block (tk_buf2 tk) (tk_len2 tk);
           d \<leftarrow> store 0 d (direct_endpoint e);
           let e = e\<lparr>direct_endpoint := d\<rparr>;
           (q, w) \<leftarrow> (if is_requested e
             then answer_connects L (Suc (zl_size (RQ L) (connect_requests e))) (Live d) (connect_requests e) w
             else Some (connect_requests e, w));
           w \<leftarrow> relay on tk w;
           Some (tab(name \<mapsto> e\<lparr>connect_requests := q\<rparr>), w) } }"

definition term_token_next ::
  "('t, 'r, 's) spaces \<Rightarrow> generic_token \<Rightarrow> net \<Rightarrow> ('t, 'r, 's) passed" where
  "term_token_next tab tk w = do {
     check (tk_buf1 tk \<noteq> Null \<and> tk_buf2 tk \<noteq> Null);
     name \<leftarrow> deref (tk_buf1 tk);
     case tab name of
       None \<Rightarrow> Some (tab, w)
     | Some e \<Rightarrow> do {
         w \<leftarrow> relay (tk_ttl tk > 0 \<or> tk_ttl tk = -1 \<and> is_activated e) tk w;
         Some (tab(name \<mapsto> e\<lparr>is_activated := False\<rparr>), w) } }"

text \<open>
  The parts of a tuple identity \<open>namespace NUL tag name NUL\<close>: the namespace, the tag, and the pointers
  to the tag and to the name.
\<close>

definition split_identity :: "cptr \<Rightarrow> (string \<times> char \<times> cptr \<times> cptr) option" where
  "split_identity p = (case p of
     Live b \<Rightarrow> do {
       ns \<leftarrow> cstr b;
       _ \<leftarrow> cstr (drop (length ns + 2) b);
       Some (ns, b ! (length ns + 1), Live (drop (length ns + 1) b), Live (drop (length ns + 2) b)) }
   | _ \<Rightarrow> None)"

definition match_token_next ::
  "('t, 'r, 's) tsd_lib \<Rightarrow> tsd_cfg \<Rightarrow> ('t, 'r, 's) spaces \<Rightarrow> generic_token \<Rightarrow> net \<Rightarrow> ('t, 'r, 's) passed" where
  "match_token_next L self tab tk w = do {
     check (tk_buf1 tk \<noteq> Null \<and> tk_buf2 tk \<noteq> Null \<and> tk_id tk = 2);
     (ns, who, tagged, name) \<leftarrow> split_identity (tk_buf1 tk);
     let on = (tk_ttl tk > 0 \<or> tk_ttl tk = -1);
     if who \<noteq> CHR ''N'' \<and> who \<noteq> CHR ''A'' then do { w \<leftarrow> relay on tk w; Some (tab, w) }
     else case tab ns of
       None \<Rightarrow> do { w \<leftarrow> relay on tk w; Some (tab, w) }
     | Some e \<Rightarrow> do {
         h \<leftarrow> zl_find (SQ L) (kcmp (rgx L)) (expect_queue e) name;
         if h = None then do { w \<leftarrow> relay on tk w; Some (tab, w) }
         else do {
           let w = emit (OpenSock PeerSocket) (emit (CloseSock PeerSocket) w);
           addr \<leftarrow> deref (tk_buf2 tk);
           let (r, w) = zmq_connect PeerSocket addr w;
           if r < 0 then do { w \<leftarrow> relay on tk w; Some (tab, w) }
           else do {
             let w = send_u32 PeerSocket (word_of_nat (length ns)) True w;
             let w = snd (zmq_send PeerSocket ns True w);
             let w = send_cmd PeerSocket TsRequest True w;
             let w = snd (p2pm_send_str PeerSocket (endpoint self) False w);
             w \<leftarrow> send_strp PeerSocket tagged False w;
             w \<leftarrow> relay on tk w;
             Some (tab, w) } } } }"

text \<open>
  \<open>deposit_token_next\<close> asks the originator for the tuple. Fields of \<open>recv_tuple\<close> that a branch does not
  receive are indeterminate.
\<close>

definition deposit_fetch ::
  "string \<Rightarrow> char \<Rightarrow> cptr \<Rightarrow> net \<Rightarrow> (sng_tuple option \<times> net) option" where
  "deposit_fetch ns who name w = do {
     let w = send_u32 PeerSocket (word_of_nat (length ns)) True w;
     let w = snd (zmq_send PeerSocket ns True w);
     let anon = uninit32 w;
     let len = word_of_nat (le_nat (uninit w 8));
     if who = CHR ''A'' then do {
       let w = send_cmd PeerSocket TsPeek False w;
       let (_, c, w) = p2pm_recv_uint32 PeerSocket (cmd_code TsPeek) w;
       if c \<noteq> cmd_code TsAck then Some (None, w)
       else do {
         let (_, anon, w) = p2pm_recv_uint32 PeerSocket anon w;
         let (_, len, w) = p2pm_recv_uint64 PeerSocket len w;
         Some (Some \<lparr>tname = Freed, anon_id = anon, tlen = len, tdata = Freed\<rparr>, w) } }
     else do {
       let cmd = (if who = CHR ''N'' then TsRead else TsPeek);
       let w = send_cmd PeerSocket cmd True w;
       let (_, c, w) = p2pm_recv_uint32 PeerSocket (cmd_code cmd) w;
       if c \<noteq> cmd_code TsAck then Some (None, w)
       else do {
         w \<leftarrow> send_strp PeerSocket name False w;
         (_, n, w) \<leftarrow> recv_strp PeerSocket Freed w;
         Some (Some \<lparr>tname = n, anon_id = anon, tlen = len, tdata = Freed\<rparr>, w) } } }"

definition deposit_token_next ::
  "('t, 'r, 's) tsd_lib \<Rightarrow> ('t, 'r, 's) spaces \<Rightarrow> generic_token \<Rightarrow> net \<Rightarrow> ('t, 'r, 's) passed" where
  "deposit_token_next L tab tk w = do {
     check (tk_buf1 tk \<noteq> Null \<and> tk_buf2 tk \<noteq> Null \<and> tk_id tk = 2);
     (ns, who, tagged, name) \<leftarrow> split_identity (tk_buf1 tk);
     let on = (tk_ttl tk > 0 \<or> tk_ttl tk = -1);
     if who \<noteq> CHR ''N'' \<and> who \<noteq> CHR ''A'' then do { w \<leftarrow> relay on tk w; Some (tab, w) }
     else case tab ns of
       None \<Rightarrow> do { w \<leftarrow> relay on tk w; Some (tab, w) }
     | Some e \<Rightarrow> do {
         let w = emit (OpenSock PeerSocket) (emit (CloseSock PeerSocket) w);
         addr \<leftarrow> deref (tk_buf2 tk);
         let (r, w) = zmq_connect PeerSocket addr w;
         if r < 0 then do { w \<leftarrow> relay on tk w; Some (tab, w) }
         else do {
           (got, w) \<leftarrow> deposit_fetch ns who name w;
           case got of
             None \<Rightarrow> do { w \<leftarrow> relay on tk w; Some (tab, w) }
           | Some tpl \<Rightarrow>
               if tlen tpl = 0 then do { w \<leftarrow> relay on tk w; Some (tab, w) }
               else do {
                 let (_, data, w) = recv_data PeerSocket (tlen tpl) w;
                 let q = zl_add_end (TQ L) (named_queue e) (tplcpy (tpl\<lparr>tdata := data\<rparr>));
                 w \<leftarrow> relay on tk w;
                 Some (tab(ns \<mapsto> e\<lparr>named_queue := q\<rparr>), w) } } } }"

text \<open>\<open>token_handler\<close> on the token read from the actor; \<open>search_token_next\<close> (id 4) is empty.\<close>

definition token_handler ::
  "('t, 'r, 's) tsd_lib \<Rightarrow> tsd_cfg \<Rightarrow> ('t, 'r, 's) spaces \<Rightarrow> generic_token \<Rightarrow> net \<Rightarrow> ('t, 'r, 's) passed" where
  "token_handler L self tab tk w =
     (if tk_id tk = 0 then connect_token_next L tab tk w
      else if tk_id tk = 1 then term_token_next tab tk w
      else if tk_id tk = 2 then match_token_next L self tab tk w
      else if tk_id tk = 3 then deposit_token_next L tab tk w
      else Some (tab, w))"

end
