(* ===== verification/Tsd.thy ===== *)
theory Tsd
  imports TsdTokens
begin

text \<open>
  The daemon of \<^verbatim>\<open>src/tsd/tsd.c\<close> as a whole: the session head and dispatch (\<open>handler\<close>), the creation of
  the spaces from the parsed configuration and the polling loop.
\<close>

section \<open>A session\<close>

text \<open>The label \<open>handle_second_error\<close>: the client gets \<open>TsEnf\<close>, the socket is drained.\<close>

definition session_error :: "sock \<Rightarrow> bytes \<Rightarrow> net \<Rightarrow> (int option \<times> net) option" where
  "session_error s client w = do {
     w \<leftarrow> send_id s (Live client) w;
     let w = send_cmd s TsEnf False w;
     w \<leftarrow> ts_fail s w;
     Some (Some 1, w) }"

definition dispatch ::
  "('t, 'r, 's) tsd_lib \<Rightarrow> tsd_cfg \<Rightarrow> handler_arg \<Rightarrow> ('t, 'r, 's) tsd_element \<Rightarrow> net \<Rightarrow>
   (int option \<times> ('t, 'r, 's) tsd_element \<times> net) option" where
  "dispatch L self args e w =
     (let run = (\<lambda>h. do { (r, args, e, w) \<leftarrow> h; Some (r, e, w) }) in
      case act args of
        TsExpect \<Rightarrow> run (tsd_add_expect L args e w)
      | TsGet_Blocking \<Rightarrow> run (named_queue_read_handler L args e w)
      | TsRead_Blocking \<Rightarrow> run (named_queue_read_handler L args e w)
      | TsRead \<Rightarrow> run (named_queue_read_handler L args e w)
      | TsGet \<Rightarrow> run (named_queue_read_handler L args e w)
      | TsPeek \<Rightarrow> run (named_queue_fetch_handler L args e w)
      | TsPop \<Rightarrow> run (named_queue_fetch_handler L args e w)
      | TsPop_Blocking \<Rightarrow> run (named_queue_fetch_handler L args e w)
      | TsPeek_Blocking \<Rightarrow> run (named_queue_fetch_handler L args e w)
      | TsPut \<Rightarrow> run (named_queue_write_handler L self args e w)
      | TsAdd \<Rightarrow> run (named_queue_write_handler L self args e w)
      | TsConnect \<Rightarrow> run (ts_connect_handler L self args e w)
      | TsBCast_Write \<Rightarrow> run (bcast_queue_write_handler L args e w)
      | TsBCast_Read \<Rightarrow> run (bcast_queue_read_handler L args e w)
      | TsBCast_Read_Blocking \<Rightarrow> run (bcast_queue_read_handler L args e w)
      | TsTerm \<Rightarrow> do {
          let (e, w) = ts_term_send_decomission_signal self args e w;
          (e, w) \<leftarrow> ts_term_clear_requests L e w;
          Some (None, e\<lparr>is_activated := False\<rparr>, w) }
      | TsDeposit \<Rightarrow> Some (None, e, w)
      | TsTransmit \<Rightarrow> run (tsd_accept_transmit L self args e w)
      | TsRequest \<Rightarrow> run (tsd_as_client L args e w)
      | TsTake \<Rightarrow> run (tsd_as_client L args e w)
      | TsMigrate \<Rightarrow> Some (None, e, w)
      | TsReplicate \<Rightarrow> Some (None, e, w)
      | _ \<Rightarrow> Some (Some (-1), e, w))"

definition handler ::
  "('t, 'r, 's) tsd_lib \<Rightarrow> tsd_cfg \<Rightarrow> ('t, 'r, 's) spaces \<Rightarrow> bool \<Rightarrow> net \<Rightarrow>
   (int option \<times> ('t, 'r, 's) spaces \<times> net) option" where
  "handler L self tab local w = do {
     let s = using_socket local;
     let (n, client, w) = zmq_recv s (zeros 50) w;
     if n < 0 then Some (Some 1, tab, w)
     else do {
       let fail = (\<lambda>w. do { (r, w) \<leftarrow> session_error s client w; Some (r, tab, w) });
       let (rt, buf_len, w) = p2pm_recv_uint32 s (uninit32 w) w;
       if rt \<noteq> P2PM_OP_SUCCESS \<or> buf_len = 0 \<or> buf_len > 50 then fail w
       else do {
         let (n, ns, w) = zmq_recv s (zeros 50) w;
         let ns = overwrite (unat buf_len - 1) [nul] ns;
         if n < 0 then fail w
         else do {
           name \<leftarrow> cstr ns;
           case tab name of
             None \<Rightarrow> fail w
           | Some e \<Rightarrow> do {
               let (rt, action, w) = p2pm_recv_uint32 s (uninit32 w) w;
               if rt \<noteq> P2PM_OP_SUCCESS then fail w
               else if cmd_of action \<noteq> Some TsConnect \<and> \<not> is_activated e then fail w
               else case cmd_of action of
                 None \<Rightarrow> Some (Some (-1), tab, w)
               | Some a \<Rightarrow> do {
                   (r, e, w) \<leftarrow> dispatch L self
                     \<lparr>this_space_name = name, clientid_buffer = Live client, namespace_buffer = Live ns,
                      act = a, is_local = local\<rparr> e w;
                   Some (r, tab(name \<mapsto> e), w) } } } } } }"

section \<open>The polling loop\<close>

text \<open>
  What one round of polls reports: an error, or which sockets are readable and the token that waits.
  \<open>tsd_listen\<close> returns after \<open>tsd_shutdown\<close> when a poll fails; it does not return while polls succeed.
\<close>

record poll_round =
  poll_err :: bool
  local_in :: bool
  server_in :: bool
  token_in :: "generic_token option"

definition listen_round ::
  "('t, 'r, 's) tsd_lib \<Rightarrow> tsd_cfg \<Rightarrow> poll_round \<Rightarrow> ('t, 'r, 's) spaces \<times> net \<Rightarrow> ('t, 'r, 's) passed" where
  "listen_round L self p = (\<lambda>(tab, w). do {
     (tab, w) \<leftarrow> (if local_in p then do { (_, tab, w) \<leftarrow> handler L self tab True w; Some (tab, w) }
                 else Some (tab, w));
     (tab, w) \<leftarrow> (if server_in p then do { (_, tab, w) \<leftarrow> handler L self tab False w; Some (tab, w) }
                 else Some (tab, w));
     case token_in p of
       None \<Rightarrow> Some (tab, w)
     | Some tk \<Rightarrow> token_handler L self tab tk w })"

definition tsd_shutdown :: "net \<Rightarrow> int \<times> net" where
  "tsd_shutdown w = (0, emit (CloseSock ServerSocket) (emit (CloseSock LocalSocket) w))"

fun tsd_listen ::
  "('t, 'r, 's) tsd_lib \<Rightarrow> tsd_cfg \<Rightarrow> poll_round list \<Rightarrow> ('t, 'r, 's) spaces \<times> net \<Rightarrow>
   (int \<times> ('t, 'r, 's) spaces \<times> net) option" where
  "tsd_listen L self [] st = None"
| "tsd_listen L self (p # ps) st =
     (if poll_err p then (let (r, w) = tsd_shutdown (snd st) in Some (r, fst st, w))
      else do { st \<leftarrow> listen_round L self p st; tsd_listen L self ps st })"

section \<open>Creation\<close>

text \<open>\<open>sng_namespace_t\<close>: the configuration of a space, with its two fixed size buffers.\<close>

record sng_namespace =
  cname :: bytes
  cdirect_endpoint :: bytes
  cid :: int
  cts_mode :: ts_mode_t
  ctsd_mode :: tsd_mode_t

text \<open>The results of the calls of \<open>tsd_create\<close> into the system.\<close>

record create_calls =
  cc_log :: bool
  cc_bind_local :: bool
  cc_bind_server :: bool
  cc_shm :: "string \<Rightarrow> shm_calls"

definition sprintf50 :: "string \<Rightarrow> string option" where
  "sprintf50 str = (if length str < 50 then Some str else None)"

definition create_element ::
  "('t, 'r, 's) tsd_lib \<Rightarrow> sng_namespace \<Rightarrow> string \<Rightarrow> ('t, 'r, 's) tsd_element" where
  "create_element L sp name =
     \<lparr>ename = name, direct_endpoint = cdirect_endpoint sp,
      named_queue = zl_new (TQ L), bcast_queue = zl_new (TQ L),
      named_queue_requests = zl_new (RQ L), bcast_queue_requests = zl_new (RQ L),
      connect_requests = zl_new (RQ L), expect_queue = zl_new (SQ L),
      ts_mode = cts_mode sp, tsd_mode = ctsd_mode sp,
      ts_tsd_pipe = name @ ''-push'', tsd_ts_pipe = name @ ''-pull'',
      is_activated = (ctsd_mode sp = TsdModeDirect \<or> cts_mode sp = TsModeP2P), is_requested = False\<rparr>"

fun create_spaces ::
  "('t, 'r, 's) tsd_lib \<Rightarrow> create_calls \<Rightarrow> sng_namespace list \<Rightarrow> ('t, 'r, 's) spaces \<Rightarrow>
   (int \<times> ('t, 'r, 's) spaces) option" where
  "create_spaces L os [] tab = Some (0, tab)"
| "create_spaces L os (sp # sps) tab = do {
     name \<leftarrow> cstr (cname sp);
     pull \<leftarrow> sprintf50 (name @ ''-pull'');
     pull_r \<leftarrow> sprintf50 (pull @ ''-rsem'');
     pull_w \<leftarrow> sprintf50 (pull @ ''-wsem'');
     push \<leftarrow> sprintf50 (name @ ''-push'');
     push_r \<leftarrow> sprintf50 (push @ ''-rsem'');
     push_w \<leftarrow> sprintf50 (push @ ''-wsem'');
     if fst (create_shared_memory (cc_shm os pull) pull pull_w pull_r) \<noteq> 0 then Some (1, tab)
     else if fst (open_shared_memory (cc_shm os push) push push_w push_r) \<noteq> 0 then Some (1, tab)
     else create_spaces L os sps (tab(name \<mapsto> create_element L sp name)) }"

definition tsd_create ::
  "('t, 'r, 's) tsd_lib \<Rightarrow> create_calls \<Rightarrow> sng_namespace list \<Rightarrow> (int \<times> ('t, 'r, 's) spaces) option" where
  "tsd_create L os sps =
     (if \<not> cc_log os \<or> \<not> cc_bind_local os \<or> \<not> cc_bind_server os then Some (1, Map.empty)
      else create_spaces L os sps Map.empty)"

end
