(* ===== verification/TsdLemmas.thy ===== *)
theory TsdLemmas
  imports Tsd
begin

text \<open>
  Facts about the building blocks of the daemon on a network that delivers: what each send appends to
  the trace and what each receive takes from its script. \<open>out\<close> and \<open>took\<close> are the normal forms.
\<close>

section \<open>Normal forms\<close>

lemma after_read_out [simp]:
  "after_read p cs (out evs w) = out evs (after_read p cs w)"
  "after_read p cs (took s fs mo w) = took s fs mo (after_read p cs w)"
  by (simp_all add: out_def took_def after_read_def)

abbreviation cmd_ev :: "sock \<Rightarrow> tuple_command \<Rightarrow> bool \<Rightarrow> event" where
  "cmd_ev s c mo \<equiv> Tx s (be32 (cmd_code c)) mo"

lemma send_cmd_ok [simp]: "send_ok w = [] \<Longrightarrow> send_cmd s c mo w = out [cmd_ev s c mo] w"
  by (simp add: send_cmd_def)

lemma send_strp_ok [simp]:
  "send_ok w = [] \<Longrightarrow> deref p = Some n \<Longrightarrow> send_strp s p mo w = Some (out (str_ev s n mo) w)"
  by (simp add: send_strp_def)

lemma send_id_ok [simp]:
  "send_ok w = [] \<Longrightarrow> deref p = Some n \<Longrightarrow> send_id s p w = Some (out [Tx s n True] w)"
  by (simp add: send_id_def)

lemma send_block_ok [simp]:
  "send_ok w = [] \<Longrightarrow> length d = n \<Longrightarrow> send_block s (Live d) n mo w = Some (out [Tx s d mo] w)"
  by (cases "n = 0") (auto simp: send_block_def read_block_def)

definition token_ev :: "generic_token \<Rightarrow> event list" where
  "token_ev tk = [Tx ActorPipe (nat_le 4 TSD_P2PMD_SEND_TOKEN) True, TxToken ActorPipe tk]"

lemma send_generic_token_ok [simp]: "send_ok w = [] \<Longrightarrow> send_generic_token tk w = out (token_ev tk) w"
  by (simp add: send_generic_token_def zmq_send_token_def emit_out token_ev_def)

lemma send_item_ok [simp]:
  "data \<noteq> [] \<Longrightarrow> length data = n \<Longrightarrow>
   send_item p (Live data) n w = Some (0, out (map (ShmTx p) (item_chunks data)) w)"
  using pipe.put [of data p w] by (simp add: out_def)

lemma recv_item_ok:
  "data \<noteq> [] \<Longrightarrow> shm w p = item_chunks data @ rest \<Longrightarrow>
   recv_item p w = Some (0, Live data, length data, after_read p rest w)"
  by (rule pipe.get)

lemma recv_u32_ok:
  "rx w s = RMsg (be32 v) mo # fs \<Longrightarrow> p2pm_recv_uint32 s old w = (P2PM_OP_SUCCESS, v, took s fs mo w)"
  by (rule u32.recv_v_ok)

lemma recv_u64_ok:
  "rx w s = RMsg (be64 v) mo # fs \<Longrightarrow> p2pm_recv_uint64 s old w = (P2PM_OP_SUCCESS, v, took s fs mo w)"
  by (rule u64.recv_v_ok)

lemma recv_strp_ok:
  "fits_int n \<Longrightarrow> rx w s = str_frames n mo @ fs \<Longrightarrow>
   recv_strp s old w = Some (P2PM_OP_SUCCESS, Live (c_bytes n), took s fs mo w)"
  by (simp add: recv_strp_def p2pm_recv_str_ok str_frames_def)

lemma recv_data_ok:
  "rx w s = RMsg d mo # fs \<Longrightarrow> length d = unat len \<Longrightarrow>
   recv_data s len w = (int (length d), Live d, took s fs mo w)"
  by (simp add: recv_data_def zmq_recv_Msg took_def)

text \<open>A receive script that is exhausted leaves nothing to drain when the last frame was final.\<close>

lemma ts_fail_done [simp]: "\<not> rcvmore w s \<Longrightarrow> ts_fail s w = Some w"
  by (simp add: ts_fail_def fun_upd_idem)

lemma safe_return_ok [simp]:
  "clientid_buffer args = Live c \<or> clientid_buffer args = Null \<Longrightarrow> namespace_buffer args = Live n \<Longrightarrow>
   x \<noteq> 1 \<or> \<not> rcvmore w s \<Longrightarrow>
   safe_return x args e s w =
     Some (Some x, args\<lparr>clientid_buffer := Null, namespace_buffer := Null\<rparr>, e, w)"
  by (auto simp: safe_return_def clear_args_def cfree_def)

section \<open>Answers\<close>

text \<open>A named tuple with its data in memory, as the daemon stores it.\<close>

definition stored :: "string \<Rightarrow> bytes \<Rightarrow> sng_tuple \<Rightarrow> bool" where
  "stored n d t \<longleftrightarrow> named n t \<and> tdata t = Live d \<and> unat (tlen t) = length d \<and> d \<noteq> []"

definition data_ev :: "bool \<Rightarrow> string \<Rightarrow> bytes \<Rightarrow> event list" where
  "data_ev local pipe d =
     (if local then map (ShmTx pipe) (item_chunks d)
      else [Tx ServerSocket (be64 (word_of_nat (length d))) True, Tx ServerSocket d False])"

definition ack_ev :: "bool \<Rightarrow> string \<Rightarrow> string \<Rightarrow> bytes \<Rightarrow> event list" where
  "ack_ev local pipe n d =
     cmd_ev (using_socket local) TsAck True # str_ev (using_socket local) n (\<not> local) @ data_ev local pipe d"

lemma stored_len: "stored n d t \<Longrightarrow> word_of_nat (length d) = tlen t"
proof -
  assume "stored n d t"
  then have "length d = unat (tlen t)" by (simp add: stored_def)
  then show ?thesis by simp
qed

lemma read_response_ok [simp]:
  "send_ok w = [] \<Longrightarrow> stored n d t \<Longrightarrow>
   handle_named_queue_read_response (using_socket local) t e local w
     = Some (0, out (ack_ev local (tsd_ts_pipe e) n d) w)"
  by (auto simp: handle_named_queue_read_response_def ack_ev_def data_ev_def stored_len)
    (auto simp: stored_def named_def)

definition stored_anon :: "u32 \<Rightarrow> bytes \<Rightarrow> sng_tuple \<Rightarrow> bool" where
  "stored_anon i d t \<longleftrightarrow> tname t = Null \<and> anon_id t = i \<and> i \<noteq> 0 \<and> tdata t = Live d \<and>
     unat (tlen t) = length d \<and> d \<noteq> []"

lemma stored_anon_len: "stored_anon i d t \<Longrightarrow> word_of_nat (length d) = tlen t"
proof -
  assume "stored_anon i d t"
  then have "length d = unat (tlen t)" by (simp add: stored_anon_def)
  then show ?thesis by simp
qed

text \<open>What \<open>TsPop\<close> and \<open>TsPeek\<close> answer. A named tuple to a local client ends with an open message.\<close>

definition fetch_ev :: "bool \<Rightarrow> string \<Rightarrow> string \<Rightarrow> bytes \<Rightarrow> event list" where
  "fetch_ev local pipe n d =
     cmd_ev (using_socket local) TsAck True # str_ev (using_socket local) n True @ data_ev local pipe d"

definition anon_ev :: "bool \<Rightarrow> string \<Rightarrow> u32 \<Rightarrow> bytes \<Rightarrow> event list" where
  "anon_ev local pipe i d =
     [cmd_ev (using_socket local) TsAnon True, Tx (using_socket local) (be32 i) (\<not> local)] @ data_ev local pipe d"

lemma fetch_response_named [simp]:
  "send_ok w = [] \<Longrightarrow> stored n d t \<Longrightarrow>
   handle_named_queue_fetch_response (using_socket local) t e local w
     = Some (0, out (fetch_ev local (tsd_ts_pipe e) n d) w)"
  by (auto simp: handle_named_queue_fetch_response_def fetch_ev_def data_ev_def stored_len)
    (auto simp: stored_def named_def)

lemma fetch_response_anon [simp]:
  "send_ok w = [] \<Longrightarrow> stored_anon i d t \<Longrightarrow>
   handle_named_queue_fetch_response (using_socket local) t e local w
     = Some (0, out (anon_ev local (tsd_ts_pipe e) i d) w)"
  by (auto simp: handle_named_queue_fetch_response_def anon_ev_def data_ev_def stored_anon_len)
    (auto simp: stored_anon_def)

lemma bcast_response_ok [simp]:
  "send_ok w = [] \<Longrightarrow> stored n d t \<Longrightarrow>
   handle_bcast_queue_read_response (using_socket local) t e local w
     = Some (0, out (ack_ev local (tsd_ts_pipe e) n d) w)"
  by (auto simp: handle_bcast_queue_read_response_def ack_ev_def data_ev_def stored_len)
    (auto simp: stored_def named_def)

section \<open>Well-formed queues\<close>

definition tuple_ok :: "sng_tuple \<Rightarrow> bool" where
  "tuple_ok t \<longleftrightarrow> (\<exists>n d. stored n d t) \<or> (\<exists>i d. stored_anon i d t)"

lemma stored_named: "stored n d t \<Longrightarrow> named n t"
  by (simp add: stored_def)

lemma stored_anonymous: "stored_anon i d t \<Longrightarrow> anonymous t"
  by (simp add: stored_anon_def anonymous_def)

lemma tuple_ok_wf: "tuple_ok t \<Longrightarrow> wf_tuple t"
  by (auto simp: tuple_ok_def wf_tuple_def dest: stored_named stored_anonymous)

lemma tuple_ok_free [simp]: "tuple_ok t \<Longrightarrow> tplfree_g (Some t) = Some ()"
  by (auto simp: tuple_ok_def stored_def stored_anon_def named_def tplfree_g_def cfree_def
      split: cptr.splits)

text \<open>The tuple a search for a name is made with, and the tuples it finds.\<close>

definition name_key :: "string \<Rightarrow> sng_tuple" where
  "name_key n = \<lparr>tname = Live (c_bytes n), anon_id = 0, tlen = 0, tdata = Null\<rparr>"

definition matches :: "(string \<Rightarrow> string \<Rightarrow> bool option) \<Rightarrow> string \<Rightarrow> sng_tuple \<Rightarrow> bool" where
  "matches re n t \<longleftrightarrow> tplcmp re t (name_key n) = Some 0"

lemma named_name_key: "c_string n \<Longrightarrow> named n (name_key n)"
  by (simp add: named_def name_key_def cstr_c_bytes0)

lemma matches_stored:
  assumes "matches re n t" and "tuple_ok t" and "c_string n"
  obtains m d where "stored m d t"
proof -
  have "\<not> anonymous t"
  proof
    assume "anonymous t"
    then show False
      using tplcmp_anonymous_named(1) [OF _ named_name_key [OF assms(3)], of t re] assms(1)
      by (auto simp: matches_def)
  qed
  then show thesis
    using assms(2) that by (auto simp: tuple_ok_def dest: stored_anonymous)
qed

lemma matches_rev:
  "matches re n t \<Longrightarrow> tuple_ok t \<Longrightarrow> c_string n \<Longrightarrow> tplcmp re (name_key n) t = Some 0"
  using tplcmp_sym [of t "name_key n" re] tuple_ok_wf [of t] named_name_key [of n]
  by (auto simp: matches_def wf_tuple_def)

text \<open>The search of the container in terms of the matching predicate.\<close>

lemma scan_extract:
  "\<forall>u \<in> set xs. cmp u x \<noteq> None \<Longrightarrow> scan cmp xs x = Some (List.extract (\<lambda>u. cmp u x = Some 0) xs)"
proof (induction xs)
  case Nil
  then show ?case by (simp add: extract_Nil_code)
next
  case (Cons y ys)
  then show ?case by (auto simp: extract_Cons_code split: option.splits)
qed

lemma scan_name:
  "\<forall>t \<in> set ts. tuple_ok t \<Longrightarrow> c_string n \<Longrightarrow>
   scan (tplcmp re) ts (name_key n) = Some (List.extract (matches re n) ts)"
proof -
  assume ts: "\<forall>t \<in> set ts. tuple_ok t" and "c_string n"
  then have "wf_tuple (name_key n)" by (auto simp: wf_tuple_def dest: named_name_key)
  then have "\<forall>t \<in> set ts. tplcmp re t (name_key n) \<noteq> None"
    using ts tplcmp_total tuple_ok_wf by blast
  then show ?thesis by (simp add: scan_extract matches_def [abs_def])
qed

section \<open>The queues of a space\<close>

locale tsd_space =
  T: zlistx "TQ L" titems + R: zlistx "RQ L" ritems + S: zlistx "SQ L" sitems
  for L :: "('t, 'r, 's) tsd_lib" and titems ritems sitems
begin

lemma find_none:
  assumes "\<forall>t \<in> set (titems q). tuple_ok t" and "c_string n"
    and "List.extract (matches (rgx L) n) (titems q) = None"
  shows "zl_find (TQ L) (tplcmp (rgx L)) q (name_key n) = Some None"
  using scan_name [OF assms(1,2)] assms(3) by (simp add: T.find_none)

lemma find_some:
  assumes "\<forall>t \<in> set (titems q). tuple_ok t" and "c_string n"
    and "List.extract (matches (rgx L) n) (titems q) = Some (us, t, vs)"
  obtains h q' where "zl_find (TQ L) (tplcmp (rgx L)) q (name_key n) = Some (Some h)"
    and "zl_item (TQ L) q h = Some t" and "detach_at (TQ L) q h = Some (t, q')" and "titems q' = us @ vs"
  using scan_name [OF assms(1,2), of "rgx L"] assms(3)
    T.find_some [of "tplcmp (rgx L)" q "name_key n" us t vs] that
  by (auto simp: detach_at_def)

end

definition list_lib :: "(string \<Rightarrow> string \<Rightarrow> bool option) \<Rightarrow> sng_tuple \<Rightarrow>
    (sng_tuple list, blocking_request list, cptr list) tsd_lib" where
  "list_lib re code = \<lparr>TQ = list_zlistx, RQ = list_zlistx, SQ = list_zlistx, rgx = re, recv_code = code\<rparr>"

lemma list_lib_simps [simp]:
  "TQ (list_lib re code) = list_zlistx" "RQ (list_lib re code) = list_zlistx"
  "SQ (list_lib re code) = list_zlistx" "rgx (list_lib re code) = re" "recv_code (list_lib re code) = code"
  by (simp_all add: list_lib_def)

interpretation ll: tsd_space "list_lib re code" "\<lambda>xs. xs" "\<lambda>xs. xs" "\<lambda>xs. xs" for re code
  by (simp add: tsd_space_def lz.zlistx_axioms)

end
