(* ===== verification/TsdRead.thy ===== *)
theory TsdRead
  imports TsdLemmas
begin

text \<open>
  What the read, get, pop and peek handlers do on a network that delivers, and how a new tuple serves
  the requests that wait: the facts the properties of the daemon rest on.
\<close>

definition session :: "string \<Rightarrow> handler_arg \<Rightarrow> bool" where
  "session c args \<longleftrightarrow>
     (\<exists>b nb. clientid_buffer args = Live b \<and> cstr b = Some c \<and> namespace_buffer args = Live nb)"

definition closed :: "handler_arg \<Rightarrow> handler_arg" where
  "closed args = args\<lparr>clientid_buffer := Null, namespace_buffer := Null\<rparr>"

lemma session_simps:
  assumes "session c args"
  shows "deref (clientid_buffer args) = Some c" "clientid_buffer args \<noteq> Null" "namespace_buffer args \<noteq> Null"
  using assms by (auto simp: session_def)

lemma session_return [simp]:
  "session c args \<Longrightarrow> x \<noteq> 1 \<or> \<not> rcvmore w s \<Longrightarrow> safe_return x args e s w = Some (Some x, closed args, e, w)"
  "session c args \<Longrightarrow> x \<noteq> 1 \<or> \<not> rcvmore w s \<Longrightarrow>
   safe_return x (args\<lparr>clientid_buffer := Null\<rparr>) e s w = Some (Some x, closed args, e, w)"
  by (auto simp: session_def closed_def)

text \<open>The requests that wait for a named tuple, as the read handler queues them.\<close>

definition waiting :: "string \<Rightarrow> string \<Rightarrow> tuple_command \<Rightarrow> bool \<Rightarrow> blocking_request \<Rightarrow> bool" where
  "waiting n c a local b \<longleftrightarrow> deref (bname b) = Some n \<and> deref (bclient b) = Some c \<and> bcommand b = a \<and>
     bextra b = 0 \<and> blocal b = local"

context tsd_space
begin

text \<open>
  What the read, get, pop and peek handlers do on a network that delivers, and how a new tuple serves
  the requests that wait: the facts the properties of the daemon rest on.
\<close>

lemma read_miss:
  assumes "session c args" and "act args \<in> {TsRead, TsRead_Blocking, TsGet, TsGet_Blocking}"
    and "is_local args \<or> is_activated e" and "send_ok w = []"
    and "c_string n" and "fits_int n"
    and "rx w (using_socket (is_local args)) = str_frames n False @ fs"
    and "\<forall>t \<in> set (titems (named_queue e)). tuple_ok t"
    and "List.extract (matches (rgx L) n) (titems (named_queue e)) = None"
  shows "\<exists>q. named_queue_read_handler L args e w = Some (Some 2, closed args, e\<lparr>named_queue_requests := q\<rparr>,
      out [Tx (using_socket (is_local args)) c True, cmd_ev (using_socket (is_local args)) TsEnf False]
        (took (using_socket (is_local args)) fs False w)) \<and>
    (if act args \<in> {TsRead_Blocking, TsGet_Blocking}
     then \<exists>b. ritems q = ritems (named_queue_requests e) @ [b] \<and> waiting n c (act args) (is_local args) b
     else q = named_queue_requests e)"
proof -
  let ?s = "using_socket (is_local args)"
  let ?b = "\<lparr>bname = Live (c_bytes n), bclient = clientid_buffer args, bcommand = act args, bextra = 0,
             blocal = is_local args\<rparr>"
  have r: "recv_strp ?s Null w = Some (P2PM_OP_SUCCESS, Live (c_bytes n), took ?s fs False w)"
    using assms by (simp add: recv_strp_ok)
  have f: "zl_find (TQ L) (tplcmp (rgx L)) (named_queue e)
      \<lparr>tname = Live (c_bytes n), anon_id = 0, tlen = 0, tdata = Null\<rparr> = Some None"
    using find_none [OF assms(8,5,9)] by (simp add: name_key_def)
  have blocking: "act args \<in> {TsRead_Blocking, TsGet_Blocking} \<Longrightarrow> ?thesis"
    using assms(1-5) session_simps [OF assms(1)] r f
    by (intro exI [of _ "zl_add_end (RQ L) (named_queue_requests e) ?b"])
      (auto simp: named_queue_read_handler_def Let_def R.add_end waiting_def blckcpy_def cstr_c_bytes0)
  have plain: "act args \<notin> {TsRead_Blocking, TsGet_Blocking} \<Longrightarrow> ?thesis"
    using assms(1-5) session_simps [OF assms(1)] r f
    by (intro exI [of _ "named_queue_requests e"]) (auto simp: named_queue_read_handler_def Let_def)
  show ?thesis using blocking plain by blast
qed

lemma read_hit:
  assumes "session c args" and "act args \<in> {TsRead, TsRead_Blocking, TsGet, TsGet_Blocking}"
    and "is_local args \<or> is_activated e" and "send_ok w = []"
    and "c_string n" and "fits_int n"
    and "rx w (using_socket (is_local args)) = str_frames n False @ fs"
    and "\<forall>t \<in> set (titems (named_queue e)). tuple_ok t"
    and "List.extract (matches (rgx L) n) (titems (named_queue e)) = Some (us, t, vs)"
  shows "\<exists>q m d. named_queue_read_handler L args e w = Some (Some 0, closed args, e\<lparr>named_queue := q\<rparr>,
      out (Tx (using_socket (is_local args)) c True # ack_ev (is_local args) (tsd_ts_pipe e) m d)
        (took (using_socket (is_local args)) fs False w)) \<and> stored m d t \<and>
    titems q = (if act args \<in> {TsGet, TsGet_Blocking} then us @ vs else titems (named_queue e))"
proof -
  let ?s = "using_socket (is_local args)"
  have r: "recv_strp ?s Null w = Some (P2PM_OP_SUCCESS, Live (c_bytes n), took ?s fs False w)"
    using assms by (simp add: recv_strp_ok)
  have t: "matches (rgx L) n t" "tuple_ok t"
    using assms(8,9) by (auto simp: extract_Some_iff)
  obtain m d where md: "stored m d t" by (rule matches_stored [OF t assms(5)])
  have c1: "tplcmp (rgx L) t \<lparr>tname = Live (c_bytes n), anon_id = 0, tlen = 0, tdata = Null\<rparr> = Some 0"
    using t(1) by (simp add: matches_def name_key_def)
  have c2: "tplcmp (rgx L) \<lparr>tname = Live (c_bytes n), anon_id = 0, tlen = 0, tdata = Null\<rparr> t = Some 0"
    using matches_rev [OF t assms(5)] by (simp add: name_key_def)
  obtain h q' where h: "zl_find (TQ L) (tplcmp (rgx L)) (named_queue e)
      \<lparr>tname = Live (c_bytes n), anon_id = 0, tlen = 0, tdata = Null\<rparr> = Some (Some h)"
    and it: "zl_item (TQ L) (named_queue e) h = Some t"
    and dt: "detach_at (TQ L) (named_queue e) h = Some (t, q')" and q': "titems q' = us @ vs"
    using find_some [OF assms(8,5,9)] by (auto simp: name_key_def)
  have free: "cfree (Live (c_bytes n)) = Some Freed" by (simp add: cfree_def)
  have get: "act args \<in> {TsGet, TsGet_Blocking} \<Longrightarrow> ?thesis"
    using assms(1-5) session_simps [OF assms(1)] r h dt q' c1 c2 md t free
    by (intro exI [of _ q'] exI [of _ m] exI [of _ d]) (auto simp: named_queue_read_handler_def Let_def)
  have read: "act args \<notin> {TsGet, TsGet_Blocking} \<Longrightarrow> ?thesis"
    using assms(1-5) session_simps [OF assms(1)] r h it c1 c2 md free
    by (intro exI [of _ "named_queue e"] exI [of _ m] exI [of _ d]) (auto simp: named_queue_read_handler_def Let_def)
  show ?thesis using get read by blast
qed

end

section \<open>Popping and peeking\<close>

text \<open>The events that answer a fetch with the tuple \<open>t\<close>.\<close>

definition fetch_reply :: "bool \<Rightarrow> string \<Rightarrow> sng_tuple \<Rightarrow> event list \<Rightarrow> bool" where
  "fetch_reply local pipe t evs \<longleftrightarrow>
     (\<exists>n d. stored n d t \<and> evs = fetch_ev local pipe n d) \<or>
     (\<exists>i d. stored_anon i d t \<and> evs = anon_ev local pipe i d)"

lemma fetch_response_reply:
  assumes "tuple_ok t" and "send_ok w = []"
  shows "\<exists>evs. handle_named_queue_fetch_response (using_socket local) t e local w = Some (0, out evs w) \<and>
    fetch_reply local (tsd_ts_pipe e) t evs"
proof -
  consider n d where "stored n d t" | i d where "stored_anon i d t"
    using assms(1) by (auto simp: tuple_ok_def)
  then show ?thesis
  proof cases
    case 1
    then show ?thesis using assms(2)
      by (intro exI [of _ "fetch_ev local (tsd_ts_pipe e) n d"]) (auto simp: fetch_reply_def)
  next
    case 2
    then show ?thesis using assms(2)
      by (intro exI [of _ "anon_ev local (tsd_ts_pipe e) i d"]) (auto simp: fetch_reply_def)
  qed
qed

context tsd_space
begin

text \<open>
  What the read, get, pop and peek handlers do on a network that delivers, and how a new tuple serves
  the requests that wait: the facts the properties of the daemon rest on.
\<close>

lemma fetch_empty:
  assumes "session c args" and "act args \<in> {TsPop, TsPeek, TsPop_Blocking, TsPeek_Blocking}"
    and "send_ok w = []" and "titems (named_queue e) = []"
  shows "\<exists>q. named_queue_fetch_handler L args e w = Some (Some 2, closed args, e\<lparr>named_queue_requests := q\<rparr>,
      out [Tx (using_socket (is_local args)) c True, cmd_ev (using_socket (is_local args)) TsEnf False] w) \<and>
    (if act args \<in> {TsPop_Blocking, TsPeek_Blocking}
     then ritems q = ritems (named_queue_requests e) @
       [\<lparr>bname = Null, bclient = clientid_buffer args, bcommand = act args, bextra = 0, blocal = is_local args\<rparr>]
     else q = named_queue_requests e)"
proof -
  let ?b = "\<lparr>bname = Null, bclient = clientid_buffer args, bcommand = act args, bextra = 0,
             blocal = is_local args\<rparr>"
  have z: "zl_size (TQ L) (named_queue e) = 0" using assms(4) by (simp add: T.size)
  have blocking: "act args \<in> {TsPop_Blocking, TsPeek_Blocking} \<Longrightarrow> ?thesis"
    using assms(1-3) session_simps [OF assms(1)] z
    by (intro exI [of _ "zl_add_end (RQ L) (named_queue_requests e) ?b"])
      (auto simp: named_queue_fetch_handler_def Let_def R.add_end blckcpy_def)
  have plain: "act args \<notin> {TsPop_Blocking, TsPeek_Blocking} \<Longrightarrow> ?thesis"
    using assms(1-3) session_simps [OF assms(1)] z
    by (intro exI [of _ "named_queue_requests e"]) (auto simp: named_queue_fetch_handler_def Let_def)
  show ?thesis using blocking plain by blast
qed

lemma fetch_hit:
  assumes "session c args" and "act args \<in> {TsPop, TsPeek, TsPop_Blocking, TsPeek_Blocking}"
    and "send_ok w = []" and "titems (named_queue e) = t # ts" and "tuple_ok t"
  shows "\<exists>q evs. named_queue_fetch_handler L args e w = Some (Some 0, closed args, e\<lparr>named_queue := q\<rparr>,
      out (Tx (using_socket (is_local args)) c True # evs) w) \<and>
    fetch_reply (is_local args) (tsd_ts_pipe e) t evs \<and>
    titems q = (if act args \<in> {TsPop, TsPop_Blocking} then ts else t # ts)"
proof -
  let ?s = "using_socket (is_local args)"
  have z: "zl_size (TQ L) (named_queue e) \<noteq> 0" using assms(4) by (simp add: T.size)
  obtain q' where d: "zl_detach (TQ L) (named_queue e) None = (Some t, q')" and q': "titems q' = ts"
    using T.detach_first [OF assms(4)] by blast
  have f: "zl_first (TQ L) (named_queue e) = Some t" using assms(4) by (simp add: T.first)
  have pop: "act args \<in> {TsPop, TsPop_Blocking} \<Longrightarrow> ?thesis"
  proof -
    assume a: "act args \<in> {TsPop, TsPop_Blocking}"
    obtain evs where ev: "handle_named_queue_fetch_response ?s t (e\<lparr>named_queue := q'\<rparr>) (is_local args)
        (out [Tx ?s c True] w) = Some (0, out evs (out [Tx ?s c True] w))"
      and rep: "fetch_reply (is_local args) (tsd_ts_pipe (e\<lparr>named_queue := q'\<rparr>)) t evs"
      using fetch_response_reply [OF assms(5), of "out [Tx ?s c True] w" "is_local args" "e\<lparr>named_queue := q'\<rparr>"]
        assms(3) by auto
    show ?thesis
      using a assms(1,3,5) session_simps [OF assms(1)] z d q' ev rep
      by (intro exI [of _ q'] exI [of _ evs]) (auto simp: named_queue_fetch_handler_def Let_def)
  qed
  have peek: "act args \<notin> {TsPop, TsPop_Blocking} \<Longrightarrow> ?thesis"
  proof -
    assume a: "act args \<notin> {TsPop, TsPop_Blocking}"
    obtain evs where ev: "handle_named_queue_fetch_response ?s t e (is_local args)
        (out [Tx ?s c True] w) = Some (0, out evs (out [Tx ?s c True] w))"
      and rep: "fetch_reply (is_local args) (tsd_ts_pipe e) t evs"
      using fetch_response_reply [OF assms(5), of "out [Tx ?s c True] w" "is_local args" e] assms(3) by auto
    show ?thesis
      using a assms(1-4) session_simps [OF assms(1)] z f ev rep
      by (intro exI [of _ "named_queue e"] exI [of _ evs]) (auto simp: named_queue_fetch_handler_def Let_def)
  qed
  show ?thesis using pop peek by blast
qed

end

section \<open>Serving the requests that wait\<close>

text \<open>A request of the named queue: for a name (get, read) or for anything (pop, peek).\<close>

definition waiter_ok :: "blocking_request \<Rightarrow> bool" where
  "waiter_ok b \<longleftrightarrow> (\<exists>c. deref (bclient b) = Some c) \<and>
     (if bcommand b = TsPop_Blocking \<or> bcommand b = TsPeek_Blocking then bname b = Null
      else (bcommand b = TsGet_Blocking \<or> bcommand b = TsRead_Blocking) \<and>
        (\<exists>n. deref (bname b) = Some n) \<and> bextra b = 0)"

definition request_key :: "sng_tuple \<Rightarrow> blocking_request" where
  "request_key t = \<lparr>bname = tname t, bclient = Null, bcommand = TsNone, bextra = ucast (anon_id t),
                    blocal = False\<rparr>"

definition wants :: "(string \<Rightarrow> string \<Rightarrow> bool option) \<Rightarrow> sng_tuple \<Rightarrow> blocking_request \<Rightarrow> bool" where
  "wants re t b \<longleftrightarrow> blckcmp_str re b (request_key t) = Some 0"

definition consumes :: "blocking_request \<Rightarrow> bool" where
  "consumes b \<longleftrightarrow> bcommand b = TsPop_Blocking \<or> bcommand b = TsGet_Blocking"

fun drop_first :: "('a \<Rightarrow> bool) \<Rightarrow> 'a list \<Rightarrow> 'a list" where
  "drop_first P [] = []"
| "drop_first P (x # xs) = (if P x then xs else x # drop_first P xs)"

text \<open>
  What a new tuple does to the queue, in one pass: the requests answered, the requests left, and whether
  the tuple was taken. Requests that match are answered until one takes the tuple; then one more
  request that matches is dropped without an answer.
\<close>

fun serve :: "('a \<Rightarrow> bool) \<Rightarrow> ('a \<Rightarrow> bool) \<Rightarrow> 'a list \<Rightarrow> 'a list \<times> 'a list \<times> bool" where
  "serve P C [] = ([], [], False)"
| "serve P C (x # xs) =
     (if P x then
        if C x then ([x], drop_first P xs, True)
        else (let (a, r, c) = serve P C xs in (x # a, r, c))
      else (let (a, r, c) = serve P C xs in (a, x # r, c)))"

lemma serve_skip:
  "\<forall>u \<in> set us. \<not> P u \<Longrightarrow> serve P C (us @ xs) = (let (a, r, c) = serve P C xs in (a, us @ r, c))"
  by (induction us) (auto split: prod.splits)

lemma drop_first_skip: "\<forall>u \<in> set us. \<not> P u \<Longrightarrow> drop_first P (us @ xs) = us @ drop_first P xs"
  by (induction us) auto

lemma serve_none: "\<forall>u \<in> set us. \<not> P u \<Longrightarrow> serve P C us = ([], us, False)"
  using serve_skip [of us P C "[]"] by simp

lemma drop_first_none: "\<forall>u \<in> set us. \<not> P u \<Longrightarrow> drop_first P us = us"
  using drop_first_skip [of us P "[]"] by simp

lemma waiter_cmp_total: "waiter_ok b \<Longrightarrow> stored n d t \<Longrightarrow> blckcmp_str re b (request_key t) \<noteq> None"
proof -
  assume b: "waiter_ok b" and t: "stored n d t"
  show ?thesis
  proof (cases "bcommand b = TsPop_Blocking \<or> bcommand b = TsPeek_Blocking")
    case True
    then show ?thesis by (simp add: blckcmp_str_def Let_def)
  next
    case False
    then obtain m where m: "deref (bname b) = Some m" "bextra b = 0" using b by (auto simp: waiter_ok_def)
    have "named m \<lparr>tname = bname b, anon_id = 0, tlen = 0, tdata = Null\<rparr>"
      and "named n \<lparr>tname = tname t, anon_id = 0, tlen = 0, tdata = Null\<rparr>"
      using m t by (simp_all add: stored_def named_def)
    then show ?thesis using False m
      by (simp add: blckcmp_str_def request_key_def Let_def tplcmp_named)
  qed
qed

definition answer_ev :: "string \<Rightarrow> string \<Rightarrow> bytes \<Rightarrow> blocking_request \<Rightarrow> event list" where
  "answer_ev pipe n d b = (case deref (bclient b) of
     None \<Rightarrow> []
   | Some c \<Rightarrow> Tx (using_socket (blocal b)) c True # ack_ev (blocal b) pipe n d)"

lemma waiter_answer:
  assumes "waiter_ok b" and "stored n d t" and "send_ok w = []" and "deref (bclient b) = Some c"
  shows "answer_match b t e (out [Tx (using_socket (blocal b)) c True] w)
    = Some (Some (0, out (answer_ev (tsd_ts_pipe e) n d b) w))"
  using assms by (auto simp: waiter_ok_def answer_match_def answer_ev_def split: if_splits)

lemma waiter_free: "waiter_ok b \<Longrightarrow> blckfree_g (Some b) = Some ()"
  by (auto simp: waiter_ok_def blckfree_g_def cfree_def split: if_splits cptr.splits)

context tsd_space
begin

text \<open>
  What the read, get, pop and peek handlers do on a network that delivers, and how a new tuple serves
  the requests that wait: the facts the properties of the daemon rest on.
\<close>

lemma find_waiter:
  assumes "\<forall>b \<in> set (ritems q). waiter_ok b" and "stored n d t"
  obtains "zl_find (RQ L) (blckcmp_str (rgx L)) q (request_key t) = Some None"
      and "\<forall>b \<in> set (ritems q). \<not> wants (rgx L) t b"
  | us b vs h q' where "zl_find (RQ L) (blckcmp_str (rgx L)) q (request_key t) = Some (Some h)"
      and "detach_at (RQ L) q h = Some (b, q')" and "ritems q = us @ b # vs" and "ritems q' = us @ vs"
      and "wants (rgx L) t b" and "\<forall>u \<in> set us. \<not> wants (rgx L) t u"
proof -
  have "\<forall>b \<in> set (ritems q). blckcmp_str (rgx L) b (request_key t) \<noteq> None"
    using assms waiter_cmp_total by blast
  then show thesis
  proof (cases rule: scan_cases)
    case 1
    then have "\<forall>b \<in> set (ritems q). \<not> wants (rgx L) t b"
      by (fastforce simp: scan_none_iff wants_def)
    then show thesis using that(1) R.find_none [OF 1] by blast
  next
    case (2 us b vs)
    obtain h q' where h: "zl_find (RQ L) (blckcmp_str (rgx L)) q (request_key t) = Some (Some h)"
      "zl_detach (RQ L) q (Some h) = (Some b, q')" "ritems q' = us @ vs"
      using R.find_some [OF 2] by blast
    note sp = scan_split [OF 2]
    have "\<forall>u \<in> set us. \<not> wants (rgx L) t u" using sp by (auto simp: wants_def)
    moreover have "detach_at (RQ L) q h = Some (b, q')" using h(2) by (simp add: detach_at_def)
    moreover have "wants (rgx L) t b" using sp by (simp add: wants_def)
    ultimately show thesis using that(2) [OF h(1)] sp h(3) by metis
  qed
qed

lemma match_loop_taken:
  assumes "\<forall>b \<in> set (ritems q). waiter_ok b" and "stored n d t"
  shows "\<exists>q'. match_loop L (Suc k) t e False q w = Some (0, False, q', w) \<and>
    ritems q' = drop_first (wants (rgx L) t) (ritems q)"
proof (rule find_waiter [OF assms])
  assume "zl_find (RQ L) (blckcmp_str (rgx L)) q (request_key t) = Some None"
    and "\<forall>b \<in> set (ritems q). \<not> wants (rgx L) t b"
  then show ?thesis by (simp add: request_key_def drop_first_none)
next
  fix us b vs h q'
  assume h: "zl_find (RQ L) (blckcmp_str (rgx L)) q (request_key t) = Some (Some h)"
    "detach_at (RQ L) q h = Some (b, q')" "ritems q = us @ b # vs" "ritems q' = us @ vs"
    "wants (rgx L) t b" "\<forall>u \<in> set us. \<not> wants (rgx L) t u"
  have "waiter_ok b" using h(3) assms(1) by simp
  then show ?thesis using h by (simp add: request_key_def drop_first_skip waiter_free)
qed

lemma match_loop_serves:
  assumes "\<forall>b \<in> set (ritems q). waiter_ok b" and "stored n d t" and "send_ok w = []"
    and "length (ritems q) < k" and "serve (wants (rgx L) t) consumes (ritems q) = (ans, rest, taken)"
  shows "\<exists>q'. match_loop L k t e True q w =
      Some (0, \<not> taken, q', out (concat (map (answer_ev (tsd_ts_pipe e) n d) ans)) w) \<and> ritems q' = rest"
  using assms
proof (induction k arbitrary: q w ans rest)
  case 0
  then show ?case by simp
next
  case (Suc k)
  show ?case
  proof (rule find_waiter [OF Suc.prems(1,2)])
    assume f: "zl_find (RQ L) (blckcmp_str (rgx L)) q (request_key t) = Some None"
      and n: "\<forall>b \<in> set (ritems q). \<not> wants (rgx L) t b"
    then show ?thesis using Suc.prems(5) serve_none [OF n, of consumes] by (simp add: request_key_def)
  next
    fix us b vs h q'
    assume h: "zl_find (RQ L) (blckcmp_str (rgx L)) q (request_key t) = Some (Some h)"
      "detach_at (RQ L) q h = Some (b, q')" "ritems q = us @ b # vs" "ritems q' = us @ vs"
      "wants (rgx L) t b" "\<forall>u \<in> set us. \<not> wants (rgx L) t u"
    have b: "waiter_ok b" and q': "\<forall>b \<in> set (ritems q'). waiter_ok b"
      using h(3,4) Suc.prems(1) by auto
    obtain c where c: "deref (bclient b) = Some c" using b by (auto simp: waiter_ok_def)
    have step: "match_loop L (Suc k) t e True q w =
        match_loop L k t e (\<not> consumes b) q' (out (answer_ev (tsd_ts_pipe e) n d b) w)"
      using h(1,2) c waiter_answer [OF b Suc.prems(2,3) c, where e = e] waiter_free [OF b] Suc.prems(3)
      by (simp add: request_key_def consumes_def)
    show ?thesis
    proof (cases "consumes b")
      case True
      obtain j where "k = Suc j" using Suc.prems(4) h(3) by (cases k) auto
      then show ?thesis
        using step True match_loop_taken [OF q' Suc.prems(2)] Suc.prems(5) h(3-6)
        by (auto simp add: serve_skip drop_first_skip simp del: match_loop.simps)
    next
      case False
      obtain a r tk where sv: "serve (wants (rgx L) t) consumes (us @ vs) = (a, r, tk)" by (metis prod_cases3)
      have eq: "ans = b # a" "rest = r" "taken = tk"
        using Suc.prems(5) sv h(3,5,6) False by (auto simp: serve_skip split: prod.splits)
      have "length (ritems q') < k" using Suc.prems(4) h(3,4) by simp
      then show ?thesis
        using Suc.IH [OF q' Suc.prems(2), of "out (answer_ev (tsd_ts_pipe e) n d b) w" a r] sv eq step h(4)
          Suc.prems(3) False by (simp del: match_loop.simps)
    qed
  qed
qed

end

end
