(* ===== verification/TsdWrite.thy ===== *)
theory TsdWrite
  imports TsdRead
begin

text \<open>
  What the daemon does with a tuple that arrives, with the end of a space and with the tokens of the
  ring, on a network that delivers.
\<close>

section \<open>Putting a tuple\<close>

context tsd_space
begin

lemma match_put:
  assumes "\<forall>b \<in> set (ritems (named_queue_requests e)). waiter_ok b" and "stored n d t" and "send_ok w = []"
    and "ts_mode e \<noteq> TsModeP2P"
    and "serve (wants (rgx L) t) consumes (ritems (named_queue_requests e)) = (ans, rest, taken)"
  shows "\<exists>rq tq. match_blocking_requests L self e t TsPut w =
      Some (0, e\<lparr>named_queue_requests := rq, named_queue := tq\<rparr>,
        out (concat (map (answer_ev (tsd_ts_pipe e) n d) ans)) w) \<and>
    ritems rq = rest \<and> titems tq = titems (named_queue e) @ (if taken then [] else [t])"
proof -
  obtain rq where rq: "match_loop L (Suc (zl_size (RQ L) (named_queue_requests e))) t e True
      (named_queue_requests e) w
      = Some (0, \<not> taken, rq, out (concat (map (answer_ev (tsd_ts_pipe e) n d) ans)) w)" "ritems rq = rest"
    using match_loop_serves [OF assms(1-3) _ assms(5), of "Suc (zl_size (RQ L) (named_queue_requests e))" e]
    by (auto simp: R.size simp del: match_loop.simps)
  show ?thesis
  proof (cases taken)
    case True
    then show ?thesis using rq
      by (intro exI [of _ rq] exI [of _ "named_queue e"])
        (simp add: match_blocking_requests_def del: match_loop.simps)
  next
    case False
    then show ?thesis using rq assms(4)
      by (intro exI [of _ rq] exI [of _ "zl_add_end (TQ L) (named_queue e) t"])
        (simp add: match_blocking_requests_def tplcpy_def T.add_end del: match_loop.simps)
  qed
qed

text \<open>An anonymous tuple finds no request that could take it: with requests pending it faults.\<close>

lemma match_add_idle:
  assumes "ritems (named_queue_requests e) = []" and "ts_mode e \<noteq> TsModeP2P"
  shows "\<exists>tq. match_blocking_requests L self e t TsAdd w = Some (0, e\<lparr>named_queue := tq\<rparr>, w) \<and>
    titems tq = titems (named_queue e) @ [t]"
proof -
  have "zl_find (RQ L) (blckcmp_str (rgx L)) (named_queue_requests e) (request_key t) = Some None"
    by (rule R.find_none) (simp add: assms(1))
  then have "match_loop L (Suc (zl_size (RQ L) (named_queue_requests e))) t e True (named_queue_requests e) w
      = Some (0, True, named_queue_requests e, w)"
    by (simp add: request_key_def)
  then show ?thesis using assms(2)
    by (intro exI [of _ "zl_add_end (TQ L) (named_queue e) t"])
      (simp add: match_blocking_requests_def tplcpy_def T.add_end del: match_loop.simps)
qed

lemma match_add_pending:
  assumes "ritems (named_queue_requests e) = b # bs" and "waiter_ok b" and "anonymous t"
  shows "match_blocking_requests L self e t TsAdd w = None"
proof -
  let ?q = "named_queue_requests e"
  have t: "tname t = Null" using assms(3) by (simp add: anonymous_def)
  have "match_loop L (Suc (zl_size (RQ L) ?q)) t e True ?q w = None"
  proof (cases "blckcmp_str (rgx L) b (request_key t)")
    case None
    then have "scan (blckcmp_str (rgx L)) (ritems ?q) (request_key t) = None" by (simp add: assms(1))
    then show ?thesis using R.find_fault by (simp add: request_key_def)
  next
    case (Some r)
    have cmd: "bcommand b = TsGet_Blocking \<or> bcommand b = TsRead_Blocking \<or> bcommand b = TsPop_Blocking \<or>
        bcommand b = TsPeek_Blocking"
      using assms(2) by (auto simp: waiter_ok_def split: if_splits)
    have "r = 0"
    proof (cases "bcommand b = TsPop_Blocking \<or> bcommand b = TsPeek_Blocking")
      case True
      then show ?thesis using Some by (simp add: blckcmp_str_def Let_def)
    next
      case False
      then obtain m where m: "deref (bname b) = Some m" "bextra b = 0"
        using assms(2) by (auto simp: waiter_ok_def)
      show ?thesis using Some False m t
        by (auto simp: blckcmp_str_def Let_def tplcmp_def request_key_def fault_simps split: if_splits)
    qed
    then have sc: "scan (blckcmp_str (rgx L)) (ritems ?q) (request_key t) = Some (Some ([], b, bs))"
      using Some by (simp add: assms(1))
    obtain h q' where "zl_find (RQ L) (blckcmp_str (rgx L)) ?q (request_key t) = Some (Some h)"
      "zl_detach (RQ L) ?q (Some h) = (Some b, q')"
      using R.find_some [OF sc] by blast
    then have "match_loop L (Suc (zl_size (RQ L) ?q)) t e True ?q w = Option.bind
        (send_id (using_socket (blocal b)) (bclient b) w) (\<lambda>w. None)"
      using cmd t by (auto simp: request_key_def detach_at_def answer_match_def fault_simps
          handle_named_queue_read_response_def send_strp_def intro!: bind_option_cong)
    then show ?thesis by (cases "send_id (using_socket (blocal b)) (bclient b) w") auto
  qed
  then show ?thesis by (simp add: match_blocking_requests_def del: match_loop.simps)
qed

end

text \<open>The frames a client sends for a remote put, after the head of the session.\<close>

definition put_frames :: "string \<Rightarrow> bytes \<Rightarrow> rframe list" where
  "put_frames n d = str_frames n True @ [RMsg (be64 (word_of_nat (length d))) True, RMsg d False]"

definition put_tuple :: "string \<Rightarrow> bytes \<Rightarrow> sng_tuple" where
  "put_tuple n d = \<lparr>tname = Live (c_bytes n), anon_id = 0, tlen = word_of_nat (length d), tdata = Live d\<rparr>"

lemma put_tuple_stored:
  "c_string n \<Longrightarrow> d \<noteq> [] \<Longrightarrow> length d < 2 ^ 64 \<Longrightarrow> stored n d (put_tuple n d)"
  by (simp add: stored_def put_tuple_def named_def cstr_c_bytes0 unat_of_nat)

context tsd_space
begin

lemma put_remote:
  assumes "session c args" and "act args = TsPut" and "\<not> is_local args"
    and "c_string n" and "fits_int n" and "d \<noteq> []" and "length d < 2 ^ 64"
    and "rx w ServerSocket = put_frames n d @ fs" and "send_ok w = []" and "ts_mode e \<noteq> TsModeP2P"
    and "\<forall>b \<in> set (ritems (named_queue_requests e)). waiter_ok b"
    and "serve (wants (rgx L) (put_tuple n d)) consumes (ritems (named_queue_requests e)) = (ans, rest, taken)"
  shows "\<exists>rq tq. named_queue_write_handler L self args e w =
      Some (Some 0, closed args, e\<lparr>named_queue_requests := rq, named_queue := tq\<rparr>,
        out (concat (map (answer_ev (tsd_ts_pipe e) n d) ans)) (took ServerSocket fs False w)) \<and>
    ritems rq = rest \<and> titems tq = titems (named_queue e) @ (if taken then [] else [put_tuple n d])"
proof -
  let ?w1 = "took ServerSocket (RMsg (be64 (word_of_nat (length d))) True # RMsg d False # fs) True w"
  let ?w2 = "took ServerSocket (RMsg d False # fs) True w" and ?w3 = "took ServerSocket fs False w"
  have r1: "recv_strp ServerSocket Null w = Some (P2PM_OP_SUCCESS, Live (c_bytes n), ?w1)"
    using assms(5,8) by (simp add: recv_strp_ok put_frames_def)
  have r2: "p2pm_recv_uint64 ServerSocket 0 ?w1 = (P2PM_OP_SUCCESS, word_of_nat (length d), ?w2)"
    by (simp add: recv_u64_ok)
  have r3: "recv_data ServerSocket (word_of_nat (length d)) ?w2 = (int (length d), Live d, ?w3)"
    using recv_data_ok [of ?w2 ServerSocket d False fs "word_of_nat (length d)"] assms(7)
    by (simp add: unat_of_nat)
  have nz: "(word_of_nat (length d) :: u64) \<noteq> 0"
    using assms(6,7) by (auto simp: word_unat_eq_iff unat_of_nat)
  obtain rq tq where m: "match_blocking_requests L self e (put_tuple n d) TsPut ?w3 =
      Some (0, e\<lparr>named_queue_requests := rq, named_queue := tq\<rparr>,
        out (concat (map (answer_ev (tsd_ts_pipe e) n d) ans)) ?w3)" "ritems rq = rest"
      "titems tq = titems (named_queue e) @ (if taken then [] else [put_tuple n d])"
    using match_put [OF assms(11) put_tuple_stored [OF assms(4,6,7)] _ assms(10,12), of ?w3 self] assms(9)
    by auto
  then show ?thesis
    using assms(1,2,3,10) session_simps [OF assms(1)] r1 r2 r3 nz
    by (intro exI [of _ rq] exI [of _ tq])
      (simp add: named_queue_write_handler_def named_queue_put_def Let_def put_tuple_def)
qed

lemma put_local:
  assumes "session c args" and "act args = TsPut" and "is_local args"
    and "c_string n" and "fits_int n" and "d \<noteq> []" and "length d < 2 ^ 64"
    and "rx w LocalSocket = str_frames n False @ fs" and "shm w (ts_tsd_pipe e) = item_chunks d @ cs"
    and "send_ok w = []" and "ts_mode e \<noteq> TsModeP2P"
    and "\<forall>b \<in> set (ritems (named_queue_requests e)). waiter_ok b"
    and "serve (wants (rgx L) (put_tuple n d)) consumes (ritems (named_queue_requests e)) = (ans, rest, taken)"
  shows "\<exists>rq tq. named_queue_write_handler L self args e w =
      Some (Some 0, closed args, e\<lparr>named_queue_requests := rq, named_queue := tq\<rparr>,
        out (concat (map (answer_ev (tsd_ts_pipe e) n d) ans))
          (took LocalSocket fs False (after_read (ts_tsd_pipe e) cs w))) \<and>
    ritems rq = rest \<and> titems tq = titems (named_queue e) @ (if taken then [] else [put_tuple n d])"
proof -
  let ?w1 = "took LocalSocket fs False w" and ?w3 = "took LocalSocket fs False (after_read (ts_tsd_pipe e) cs w)"
  have r1: "recv_strp LocalSocket Null w = Some (P2PM_OP_SUCCESS, Live (c_bytes n), ?w1)"
    using assms(5,8) by (simp add: recv_strp_ok)
  have r2: "recv_item (ts_tsd_pipe e) ?w1 = Some (0, Live d, length d, ?w3)"
    using recv_item_ok [OF assms(6), of ?w1 "ts_tsd_pipe e" cs] assms(9) by simp
  obtain rq tq where m: "match_blocking_requests L self e (put_tuple n d) TsPut ?w3 =
      Some (0, e\<lparr>named_queue_requests := rq, named_queue := tq\<rparr>,
        out (concat (map (answer_ev (tsd_ts_pipe e) n d) ans)) ?w3)" "ritems rq = rest"
      "titems tq = titems (named_queue e) @ (if taken then [] else [put_tuple n d])"
    using match_put [OF assms(12) put_tuple_stored [OF assms(4,6,7)] _ assms(11,13), of ?w3 self] assms(10)
    by auto
  then show ?thesis
    using assms(1,2,3,11) session_simps [OF assms(1)] r1 r2
    by (intro exI [of _ rq] exI [of _ tq])
      (simp add: named_queue_write_handler_def named_queue_put_def Let_def put_tuple_def)
qed

end

end
