(* ===== verification/TsdSession.thy ===== *)
theory TsdSession
  imports TsdWrite
begin

text \<open>
  The end of a space, the clients that wait for its activation, the tokens and the head of a session.
\<close>

section \<open>Terminating a space\<close>

text \<open>A request that can be answered: its client id is a string and its pointers can be freed once.\<close>

definition answerable :: "blocking_request \<Rightarrow> bool" where
  "answerable b \<longleftrightarrow> (\<exists>c. deref (bclient b) = Some c) \<and> bname b \<noteq> Freed"

lemma waiter_answerable: "waiter_ok b \<Longrightarrow> answerable b"
  by (auto simp: waiter_ok_def answerable_def split: if_splits)

lemma answerable_free: "answerable b \<Longrightarrow> blckfree_g (Some b) = Some ()"
  by (auto simp: answerable_def blckfree_g_def cfree_def split: cptr.splits)

definition to_client :: "blocking_request \<Rightarrow> event list \<Rightarrow> event list" where
  "to_client b evs = (case deref (bclient b) of
     None \<Rightarrow> []
   | Some c \<Rightarrow> Tx (using_socket (blocal b)) c True # evs)"

definition term_ev :: "blocking_request \<Rightarrow> event list" where
  "term_ev b = to_client b [cmd_ev (using_socket (blocal b)) TsTerm False]"

definition endpoint_ev :: "string \<Rightarrow> blocking_request \<Rightarrow> event list" where
  "endpoint_ev ep b = to_client b (str_ev (using_socket (blocal b)) ep False)"

context tsd_space
begin

lemma term_requests_run:
  assumes "\<forall>b \<in> set (ritems q). answerable b" and "send_ok w = []" and "length (ritems q) < k"
  shows "\<exists>q'. term_requests L k q w = Some (q', out (concat (map term_ev (ritems q))) w) \<and> ritems q' = []"
  using assms
proof (induction k arbitrary: q w)
  case 0
  then show ?case by simp
next
  case (Suc k)
  show ?case
  proof (cases "ritems q")
    case Nil
    then show ?thesis by (simp add: R.size)
  next
    case (Cons b bs)
    obtain q' where q': "zl_detach (RQ L) q None = (Some b, q')" "ritems q' = bs"
      using R.detach_first [OF Cons] by blast
    have b: "answerable b" using Suc.prems(1) Cons by simp
    then obtain c where c: "deref (bclient b) = Some c" by (auto simp: answerable_def)
    have "term_requests L (Suc k) q w = term_requests L k q' (out (term_ev b) w)"
      using q'(1) Cons c Suc.prems(2) answerable_free [OF b]
      by (simp add: R.size term_ev_def to_client_def Let_def)
    then show ?thesis
      using Suc.IH [of q' "out (term_ev b) w"] Suc.prems q'(2) Cons by auto
  qed
qed

lemma clear_tuples_run:
  assumes "\<forall>t \<in> set (titems q). tuple_ok t" and "length (titems q) < k"
  shows "\<exists>q'. clear_tuples L k q = Some q' \<and> titems q' = []"
  using assms
proof (induction k arbitrary: q)
  case 0
  then show ?case by simp
next
  case (Suc k)
  show ?case
  proof (cases "titems q")
    case Nil
    then show ?thesis by (simp add: T.size)
  next
    case (Cons t ts)
    obtain q' where q': "zl_detach (TQ L) q None = (Some t, q')" "titems q' = ts"
      using T.detach_first [OF Cons] by blast
    then show ?thesis using Suc.IH [of q'] Suc.prems Cons by (simp add: T.size)
  qed
qed

lemma clear_other_empty: "titems p = [] \<Longrightarrow> clear_tuples_other L p q = Some q"
  by (subst clear_tuples_other.simps) (simp add: T.size)

text \<open>The loop whose condition looks at the other queue never ends when that queue holds a tuple.\<close>

lemma clear_other_diverges:
  assumes "titems p \<noteq> []"
  shows "clear_tuples_other L p q = None"
proof -
  have "titems p = []" if "clear_tuples_other L p q = Some y" for q y
  proof -
    have "L = L \<longrightarrow> titems p = []"
      by (rule clear_tuples_other.raw_induct [OF _ that, of "\<lambda>M p q y. M = L \<longrightarrow> titems p = []"])
        (auto simp: T.size fault_simps split: if_splits)
    then show ?thesis by simp
  qed
  then show ?thesis using assms by (cases "clear_tuples_other L p q") auto
qed

lemma term_clear_run:
  assumes "\<forall>b \<in> set (ritems (named_queue_requests e)). answerable b"
    and "\<forall>b \<in> set (ritems (bcast_queue_requests e)). answerable b"
    and "\<forall>t \<in> set (titems (named_queue e)). tuple_ok t" and "titems (bcast_queue e) = []" and "send_ok w = []"
  shows "\<exists>rq bq tq. ts_term_clear_requests L e w =
      Some (e\<lparr>named_queue_requests := rq, bcast_queue_requests := bq, named_queue := tq\<rparr>,
        out (concat (map term_ev (ritems (named_queue_requests e) @ ritems (bcast_queue_requests e)))) w) \<and>
    ritems rq = [] \<and> ritems bq = [] \<and> titems tq = []"
proof -
  obtain rq where rq: "term_requests L (Suc (zl_size (RQ L) (named_queue_requests e))) (named_queue_requests e) w
      = Some (rq, out (concat (map term_ev (ritems (named_queue_requests e)))) w)" "ritems rq = []"
    using term_requests_run [OF assms(1,5), of "Suc (zl_size (RQ L) (named_queue_requests e))"]
    by (auto simp: R.size simp del: term_requests.simps)
  let ?w = "out (concat (map term_ev (ritems (named_queue_requests e)))) w"
  obtain bq where bq: "term_requests L (Suc (zl_size (RQ L) (bcast_queue_requests e))) (bcast_queue_requests e) ?w
      = Some (bq, out (concat (map term_ev (ritems (bcast_queue_requests e)))) ?w)" "ritems bq = []"
    using term_requests_run [OF assms(2), of ?w "Suc (zl_size (RQ L) (bcast_queue_requests e))"] assms(5)
    by (auto simp: R.size simp del: term_requests.simps)
  obtain tq where tq: "clear_tuples L (Suc (zl_size (TQ L) (named_queue e))) (named_queue e) = Some tq"
      "titems tq = []"
    using clear_tuples_run [OF assms(3), of "Suc (zl_size (TQ L) (named_queue e))"]
    by (auto simp: T.size simp del: clear_tuples.simps)
  show ?thesis
    using rq bq tq clear_other_empty [OF assms(4)]
    by (intro exI [of _ rq] exI [of _ bq] exI [of _ tq])
      (simp add: ts_term_clear_requests_def del: term_requests.simps clear_tuples.simps)
qed

text \<open>A request whose client id has been freed is read when its turn comes.\<close>

lemma term_requests_dangling:
  assumes "b \<in> set (ritems q)" and "bclient b = Freed"
  shows "term_requests L k q w = None"
  using assms(1)
proof (induction k arbitrary: q w)
  case 0
  then show ?case by simp
next
  case (Suc k)
  then obtain x xs where x: "ritems q = x # xs" by (cases "ritems q") auto
  obtain q' where q': "zl_detach (RQ L) q None = (Some x, q')" "ritems q' = xs"
    using R.detach_first [OF x] by blast
  have "x = b \<or> b \<in> set (ritems q')" using Suc.prems x q'(2) by auto
  then show ?case
  proof
    assume "x = b"
    then show ?thesis using q'(1) x assms(2) by (simp add: R.size send_id_def)
  next
    assume "b \<in> set (ritems q')"
    then show ?thesis using Suc.IH [of q'] q'(1) x by (simp add: R.size bind_eq_None_conv Let_def)
  qed
qed

lemma term_clear_dangling:
  "b \<in> set (ritems (bcast_queue_requests e)) \<Longrightarrow> bclient b = Freed \<Longrightarrow> ts_term_clear_requests L e w = None"
  by (auto simp: ts_term_clear_requests_def term_requests_dangling bind_eq_None_conv
      simp del: term_requests.simps split: prod.splits)

lemma term_clear_hangs:
  assumes "titems (bcast_queue e) \<noteq> []"
  shows "ts_term_clear_requests L e w = None"
  using clear_other_diverges [OF assms]
  by (auto simp: ts_term_clear_requests_def bind_eq_None_conv split: prod.splits
      simp del: term_requests.simps clear_tuples.simps)

section \<open>Clients that wait for the activation of a space\<close>

lemma answer_connects_run:
  assumes "\<forall>b \<in> set (ritems q). answerable b" and "send_ok w = []" and "length (ritems q) < k"
    and "deref ep = Some p"
  shows "\<exists>q'. answer_connects L k ep q w = Some (q', out (concat (map (endpoint_ev p) (ritems q))) w) \<and>
    ritems q' = []"
  using assms(1-3)
proof (induction k arbitrary: q w)
  case 0
  then show ?case by simp
next
  case (Suc k)
  show ?case
  proof (cases "ritems q")
    case Nil
    then show ?thesis by (simp add: R.size)
  next
    case (Cons b bs)
    obtain q' where q': "zl_detach (RQ L) q None = (Some b, q')" "ritems q' = bs"
      using R.detach_first [OF Cons] by blast
    have b: "answerable b" using Suc.prems(1) Cons by simp
    then obtain c where c: "deref (bclient b) = Some c" by (auto simp: answerable_def)
    have "answer_connects L (Suc k) ep q w = answer_connects L k ep q' (out (endpoint_ev p b) w)"
      using q'(1) Cons c Suc.prems(2) answerable_free [OF b] assms(4)
      by (simp add: R.size endpoint_ev_def to_client_def Let_def)
    then show ?thesis
      using Suc.IH [of q' "out (endpoint_ev p b) w"] Suc.prems q'(2) Cons by auto
  qed
qed

lemma connect_token_run:
  assumes "tk_buf1 tk = Live (c_bytes n)" and "tk_buf2 tk = Live (c_bytes ep)" and "tk_len2 tk = Suc (length ep)"
    and "c_string n" and "c_string ep" and "length ep < length (direct_endpoint e)"
    and "tab n = Some e" and "\<not> is_activated e" and "is_requested e"
    and "\<forall>b \<in> set (ritems (connect_requests e)). answerable b" and "send_ok w = []" and "tk_ttl tk = -1"
  shows "\<exists>q d. connect_token_next L tab tk w =
      Some (tab(n \<mapsto> e\<lparr>is_activated := True, direct_endpoint := d, connect_requests := q\<rparr>),
        out (concat (map (endpoint_ev ep) (ritems (connect_requests e))) @ token_ev tk) w) \<and>
    ritems q = [] \<and> cstr d = Some ep"
proof -
  let ?d = "overwrite 0 (c_bytes ep) (direct_endpoint e)"
  have ep: "cstr ?d = Some ep" using assms(5) by (rule cstr_overwrite0)
  have d: "read_block (tk_buf2 tk) (tk_len2 tk) = Some (c_bytes ep)"
    using assms(2,3) by (simp add: read_block_def)
  have st: "store 0 (c_bytes ep) (direct_endpoint e) = Some ?d" using assms(6) by (simp add: store_def)
  obtain q where "answer_connects L (Suc (zl_size (RQ L) (connect_requests e))) (Live ?d) (connect_requests e) w
      = Some (q, out (concat (map (endpoint_ev ep) (ritems (connect_requests e)))) w)" "ritems q = []"
    using answer_connects_run [OF assms(10,11), of "Suc (zl_size (RQ L) (connect_requests e))" "Live ?d" ep] ep
    by (auto simp: R.size simp del: answer_connects.simps)
  then show ?thesis
    using assms(1,4,7,8,9,11,12) d st ep
    by (intro exI [of _ q] exI [of _ ?d])
      (simp add: connect_token_next_def relay_def cstr_c_bytes0 del: answer_connects.simps)
qed

lemma connect_queues:
  assumes "session c args" and "act args = TsConnect" and "ts_mode e = TsModeWorker" and "\<not> is_activated e"
    and "send_ok w = []" and "rx w (using_socket (is_local args)) = RMsg (be32 mode) False # fs"
    and "mode = TS_MODE_MASTER \<or> mode = TS_MODE_CLIENT"
  shows "\<exists>q b. ts_connect_handler L self args e w =
      Some (Some 0, closed args, e\<lparr>is_requested := True, connect_requests := q\<rparr>,
        out [Tx (using_socket (is_local args)) c True, Tx (using_socket (is_local args)) (be32 TS_MODE_BLOCK) False]
          (took (using_socket (is_local args)) fs False w)) \<and>
    ritems q = ritems (connect_requests e) @ [b] \<and> deref (bclient b) = Some c \<and> blocal b = is_local args \<and>
    answerable b"
proof -
  let ?b = "\<lparr>bname = Null, bclient = clientid_buffer args, bcommand = act args, bextra = ucast mode,
             blocal = is_local args\<rparr>"
  have r: "p2pm_recv_uint32 (using_socket (is_local args)) (uninit32 w) w
      = (P2PM_OP_SUCCESS, mode, took (using_socket (is_local args)) fs False w)"
    using assms(6) by (rule recv_u32_ok)
  show ?thesis
    using assms session_simps [OF assms(1)] r
    by (intro exI [of _ "zl_add_end (RQ L) (connect_requests e) ?b"] exI [of _ ?b])
      (auto simp: ts_connect_handler_def Let_def R.add_end blckcpy_def answerable_def)
qed

end

section \<open>The head of a session\<close>

definition head_frames :: "string \<Rightarrow> bytes \<Rightarrow> string \<Rightarrow> tuple_command \<Rightarrow> bool \<Rightarrow> rframe list" where
  "head_frames c nsf ns a mo =
     [RMsg c True, RMsg (be32 (str_len ns)) True, RMsg nsf True, RMsg (be32 (cmd_code a)) mo]"

text \<open>Clients send the name with its terminator (\<open>ts_open\<close>) or without (\<open>init_request\<close>).\<close>

definition head_ok :: "string \<Rightarrow> bytes \<Rightarrow> string \<Rightarrow> bool" where
  "head_ok c nsf ns \<longleftrightarrow> c_string c \<and> length c < 50 \<and> c_string ns \<and> length ns < 50 \<and>
     (nsf = ns \<or> nsf = c_bytes ns)"

definition head_args :: "string \<Rightarrow> string \<Rightarrow> tuple_command \<Rightarrow> bool \<Rightarrow> handler_arg" where
  "head_args c ns a local =
     \<lparr>this_space_name = ns, clientid_buffer = Live (c @ zeros (50 - length c)),
      namespace_buffer = Live (ns @ zeros (50 - length ns)), act = a, is_local = local\<rparr>"

lemma cstr_zeros: "c_string s \<Longrightarrow> 0 < n \<Longrightarrow> cstr (s @ zeros n) = Some s"
  by (metis cstr_padded gr0_implies_Suc)

lemma head_args_simps [simp]:
  "act (head_args c ns a local) = a" "is_local (head_args c ns a local) = local"
  "this_space_name (head_args c ns a local) = ns"
  by (simp_all add: head_args_def)

lemma head_args_session: "head_ok c nsf ns \<Longrightarrow> session c (head_args c ns a local)"
  by (simp add: session_def head_args_def head_ok_def cstr_zeros)

lemma namespace_buffer_value:
  assumes "head_ok c nsf ns"
  shows "overwrite (length ns) [nul] (nsf @ zeros (50 - length nsf)) = ns @ zeros (50 - length ns)"
proof -
  obtain k where k: "50 - length ns = Suc k" "50 - Suc (length ns) = k"
    using assms by (cases "50 - length ns") (auto simp: head_ok_def)
  show ?thesis using assms k by (auto simp: head_ok_def overwrite_def c_bytes_def)
qed

lemma head_received:
  assumes "rx w (using_socket local) = head_frames c nsf ns a mo @ fs" and "head_ok c nsf ns"
    and "tab ns = Some e"
  shows "handler L self tab local w =
    (if a \<noteq> TsConnect \<and> \<not> is_activated e
     then do { (r, w) \<leftarrow> session_error (using_socket local) (c @ zeros (50 - length c))
                 (took (using_socket local) fs mo w); Some (r, tab, w) }
     else do { (r, e, w) \<leftarrow> dispatch L self (head_args c ns a local) e (took (using_socket local) fs mo w);
               Some (r, tab(ns \<mapsto> e), w) })"
proof -
  let ?s = "using_socket local"
  let ?f1 = "[RMsg (be32 (str_len ns)) True, RMsg nsf True, RMsg (be32 (cmd_code a)) mo] @ fs"
  let ?f2 = "[RMsg nsf True, RMsg (be32 (cmd_code a)) mo] @ fs"
  let ?f3 = "RMsg (be32 (cmd_code a)) mo # fs"
  have c: "length c < 50" "length ns < 50" "length nsf \<le> 50" "c_string ns"
    using assms(2) by (auto simp: head_ok_def)
  have r1: "zmq_recv ?s (zeros 50) w = (int (length c), c @ zeros (50 - length c), took ?s ?f1 True w)"
    using assms(1) c by (simp add: zmq_recv_def head_frames_def took_def)
  have r2: "p2pm_recv_uint32 ?s old (took ?s ?f1 True w) = (P2PM_OP_SUCCESS, str_len ns, took ?s ?f2 True w)" for old
    using recv_u32_ok [of "took ?s ?f1 True w" ?s "str_len ns" True ?f2] by simp
  have r3: "zmq_recv ?s (zeros 50) (took ?s ?f2 True w) =
      (int (length nsf), nsf @ zeros (50 - length nsf), took ?s ?f3 True w)"
    using c zmq_recv_Msg [of "took ?s ?f2 True w" ?s nsf True ?f3 "zeros 50"] by (simp add: took_def)
  have r4: "p2pm_recv_uint32 ?s old (took ?s ?f3 True w) = (P2PM_OP_SUCCESS, cmd_code a, took ?s fs mo w)" for old
    using recv_u32_ok [of "took ?s ?f3 True w" ?s "cmd_code a" mo fs] by simp
  have "fits_int ns" using c by (simp add: fits_int_def)
  then have len: "unat (str_len ns) = Suc (length ns)" by (rule unat_len)
  then have lens: "str_len ns \<noteq> 0" "\<not> str_len ns > 50"
    using c by (auto simp: word_unat_eq_iff word_less_nat_alt)
  show ?thesis
    using r1 r2 r3 r4 len lens namespace_buffer_value [OF assms(2)] c assms(3)
    by (simp add: handler_def Let_def head_args_def cstr_zeros)
qed

lemma session_refused:
  assumes "rx w (using_socket local) = head_frames c nsf ns a mo @ fs" and "head_ok c nsf ns"
    and "tab ns = Some e" and "a \<noteq> TsConnect" and "\<not> is_activated e"
    and "drain fs mo = Some (fs', mo')" and "send_ok w = []"
  shows "handler L self tab local w =
    Some (Some 1, tab, out [Tx (using_socket local) c True, cmd_ev (using_socket local) TsEnf False]
      (took (using_socket local) fs' mo' w))"
proof -
  have "cstr (c @ zeros (50 - length c)) = Some c" using assms(2) by (simp add: cstr_zeros head_ok_def)
  then show ?thesis
    using assms(4-7)
    by (simp add: head_received [of w local c nsf ns a mo fs tab e, OF assms(1-3)] session_error_def ts_fail_def)
qed

end
