(* ===== verification/Ts.thy ===== *)
theory Ts
  imports TupleUtils SharedMemory NodeInfo
begin

text \<open>
  The client library \<^verbatim>\<open>src/ts/ts.c\<close>. A handle talks to the local daemon (\<open>ClientSocket\<close>, with the data
  in shared memory) or to a remote master (\<open>ClientSocket2\<close>, with the data in frames). The sockets of a
  client have no timeout: a receive on an exhausted script does not return, which is \<open>None\<close>. The random
  identity that \<open>s_set_id\<close> gives a socket is the client id that the daemon's router socket reports.
\<close>

record ts =
  tsname :: bytes
  tsnamelen :: u32
  mode :: u32
  remote :: cptr
  ts_is_local :: bool
  is_term :: bool
  push_pipe :: string
  pull_pipe :: string

definition client_socket :: "ts \<Rightarrow> sock" where
  "client_socket self = (if ts_is_local self then ClientSocket else ClientSocket2)"

text \<open>Receives that wait.\<close>

definition wait_u32 :: "sock \<Rightarrow> u32 \<Rightarrow> net \<Rightarrow> (p2pm_opcodes \<times> u32 \<times> net) option" where
  "wait_u32 s old w = (if rx w s = [] then None else Some (p2pm_recv_uint32 s old w))"

definition wait_u64 :: "sock \<Rightarrow> u64 \<Rightarrow> net \<Rightarrow> (p2pm_opcodes \<times> u64 \<times> net) option" where
  "wait_u64 s old w = (if rx w s = [] then None else Some (p2pm_recv_uint64 s old w))"

definition wait_str :: "sock \<Rightarrow> cptr \<Rightarrow> net \<Rightarrow> (cptr \<times> net) option" where
  "wait_str s old w =
     (if length (rx w s) < 2 then None
      else do { (_, p, w) \<leftarrow> p2pm_recv_str s w; Some ((case p of None \<Rightarrow> old | Some q \<Rightarrow> q), w) })"

definition wait_data :: "sock \<Rightarrow> u64 \<Rightarrow> net \<Rightarrow> (int \<times> cptr \<times> net) option" where
  "wait_data s len w =
     (if rx w s = [] then None
      else (let (n, buf, w) = zmq_recv s (uninit w (unat len)) w in Some (n, Live buf, w)))"

section \<open>Opening\<close>

definition init_request :: "ts \<Rightarrow> net \<Rightarrow> net option" where
  "init_request self w = do {
     name \<leftarrow> cstr (tsname self);
     let (_, w) = p2pm_send_uint32 (client_socket self) (tsnamelen self) True w;
     let (_, w) = zmq_send (client_socket self) name True w;
     Some w }"

text \<open>The results of the calls into the system that \<open>ts_open\<close> makes.\<close>

record open_calls =
  oc_ctx :: bool
  oc_socket2 :: bool
  oc_shm :: "string \<Rightarrow> shm_calls"

definition sprintf_name :: "string \<Rightarrow> string option" where
  "sprintf_name str = (if length str < 50 then Some str else None)"

definition ts_abort :: "ts \<Rightarrow> net \<Rightarrow> (int \<times> ts \<times> net) option" where
  "ts_abort self w = Some (1, self, emit (CloseSock ClientSocket2) (emit (CloseSock ClientSocket) w))"

definition open_worker ::
  "open_calls \<Rightarrow> ts \<Rightarrow> string \<Rightarrow> u32 \<Rightarrow> u32 \<Rightarrow> net \<Rightarrow> (int \<times> ts \<times> net) option" where
  "open_worker os self name want answered w = do {
     let self = self\<lparr>mode := answered, ts_is_local := False\<rparr>;
     (r, w) \<leftarrow> wait_str ClientSocket (remote self) w;
     let self = self\<lparr>remote := r\<rparr>;
     let w = emit (OpenSock ClientSocket2) w;
     if \<not> oc_socket2 os then ts_abort self w
     else do {
       addr \<leftarrow> deref r;
       let (c, w) = zmq_connect ClientSocket2 addr w;
       if c < 0 then ts_abort self w
       else do {
         let (_, w) = p2pm_send_uint32 ClientSocket2 (tsnamelen self) True w;
         let (_, w) = zmq_send ClientSocket2 (c_bytes name) True w;
         let (_, w) = p2pm_send_uint32 ClientSocket2 (cmd_code TsConnect) True w;
         let (_, w) = p2pm_send_uint32 ClientSocket2 want False w;
         (_, _, w) \<leftarrow> wait_u32 ClientSocket2 want w;
         Some (0, self, w) } } }"

definition open_master ::
  "open_calls \<Rightarrow> ts \<Rightarrow> string \<Rightarrow> u32 \<Rightarrow> net \<Rightarrow> (int \<times> ts \<times> net) option" where
  "open_master os self name answered w = do {
     push \<leftarrow> sprintf_name (name @ ''-push'');
     push_w \<leftarrow> sprintf_name (push @ ''-wsem'');
     push_r \<leftarrow> sprintf_name (push @ ''-rsem'');
     pull \<leftarrow> sprintf_name (name @ ''-pull'');
     pull_w \<leftarrow> sprintf_name (pull @ ''-wsem'');
     pull_r \<leftarrow> sprintf_name (pull @ ''-rsem'');
     let self = self\<lparr>ts_is_local := True, mode := answered, push_pipe := push, pull_pipe := pull\<rparr>;
     if fst (create_shared_memory (oc_shm os push) push push_w push_r) \<noteq> 0 then ts_abort self w
     else if fst (open_shared_memory (oc_shm os pull) pull pull_w pull_r) \<noteq> 0 then ts_abort self w
     else Some (0, self, w) }"

text \<open>The name is copied into \<open>tsname[50]\<close> before its length is checked.\<close>

definition ts_open ::
  "open_calls \<Rightarrow> ts \<Rightarrow> string \<Rightarrow> string \<Rightarrow> u32 \<Rightarrow> net \<Rightarrow> (int \<times> ts \<times> net) option" where
  "ts_open os self name ipc_name want w = do {
     let len = PSTRLEN name;
     buf \<leftarrow> store 0 (c_bytes name) (tsname self);
     let self = self\<lparr>tsnamelen := word_of_nat len, tsname := buf\<rparr>;
     if len > 50 then Some (1, self, w)
     else do {
       _ \<leftarrow> sprintf_name (name @ ''-push-wsem'');
       _ \<leftarrow> sprintf_name (name @ ''-pull-wsem'');
       if \<not> oc_ctx os then Some (1, self, w)
       else do {
         let w = emit (OpenSock ClientSocket) w;
         let (c, w) = zmq_connect ClientSocket ipc_name w;
         if c \<noteq> 0 then Some (1, self, emit (CloseSock ClientSocket) w)
         else do {
           let (_, w) = p2pm_send_uint32 ClientSocket (word_of_nat len) True w;
           let (_, w) = zmq_send ClientSocket (c_bytes name) True w;
           let (n, w) = p2pm_send_uint32 ClientSocket (cmd_code TsConnect) True w;
           if n < 0 then Some (1, self, emit (CloseSock ClientSocket) w)
           else do {
             let (_, w) = p2pm_send_uint32 ClientSocket want False w;
             (rt, answered, w) \<leftarrow> wait_u32 ClientSocket (uninit32 w) w;
             if rt \<noteq> P2PM_OP_SUCCESS then Some (1, self, w)
             else if answered = 2 \<or> answered = 1 then open_worker os self name want answered w
             else if answered = 0 then open_master os self name answered w
             else if answered = 3 then do {
               (_, _, w) \<leftarrow> wait_u32 ClientSocket (uninit32 w) w;
               Some (0, self, w) }
             else Some (1, self, emit (CloseSock ClientSocket) w) } } } } }"

definition ts_expect :: "ts \<Rightarrow> string \<Rightarrow> net \<Rightarrow> (int \<times> net) option" where
  "ts_expect self pattern w =
     (if mode self \<noteq> 3 then Some (1, w)
      else do {
        w \<leftarrow> init_request self w;
        let (_, w) = p2pm_send_uint32 (client_socket self) (cmd_code TsExpect) True w;
        let (_, w) = p2pm_send_str (client_socket self) pattern False w;
        Some (0, w) })"

section \<open>Reading a tuple\<close>

definition out_block :: "tuple_command \<Rightarrow> bool" where
  "out_block c \<longleftrightarrow> c = TsGet_Blocking \<or> c = TsRead_Blocking \<or> c = TsPop_Blocking \<or> c = TsPeek_Blocking"

definition is_out_cmd :: "tuple_command \<Rightarrow> bool" where
  "is_out_cmd c \<longleftrightarrow> c = TsGet \<or> c = TsRead \<or> c = TsPop \<or> c = TsPeek \<or> out_block c"

definition is_fetch :: "tuple_command \<Rightarrow> bool" where
  "is_fetch c \<longleftrightarrow> c \<noteq> TsGet_Blocking \<and> c \<noteq> TsGet \<and> c \<noteq> TsRead_Blocking \<and> c \<noteq> TsRead"

definition ts_out_request :: "ts \<Rightarrow> sng_tuple \<Rightarrow> tuple_command \<Rightarrow> net \<Rightarrow> net option" where
  "ts_out_request self tpl cmd w = do {
     check (is_out_cmd cmd);
     check (if is_fetch cmd then tname tpl = Null else tname tpl \<noteq> Null);
     w \<leftarrow> init_request self w;
     if is_fetch cmd then Some (snd (p2pm_send_uint32 (client_socket self) (cmd_code cmd) False w))
     else do {
       let (_, w) = p2pm_send_uint32 (client_socket self) (cmd_code cmd) True w;
       n \<leftarrow> deref (tname tpl);
       Some (snd (p2pm_send_str (client_socket self) n False w)) } }"

text \<open>The data of a reply: shared memory, or a length and a frame.\<close>

definition reply_data :: "ts \<Rightarrow> sng_tuple \<Rightarrow> net \<Rightarrow> (int \<times> sng_tuple \<times> net) option" where
  "reply_data self tpl w =
     (if ts_is_local self then do {
        (r, d, n, w) \<leftarrow> recv_item (pull_pipe self) w;
        Some (r, tpl\<lparr>tdata := d, tlen := word_of_nat n\<rparr>, w) }
      else do {
        (_, len, w) \<leftarrow> wait_u64 (client_socket self) (tlen tpl) w;
        if len = 0 then Some (1, tpl\<lparr>tlen := len\<rparr>, w)
        else do {
          (n, d, w) \<leftarrow> wait_data (client_socket self) len w;
          if n < 0 then Some (1, tpl\<lparr>tdata := Freed, tlen := 0\<rparr>, w)
          else Some (0, tpl\<lparr>tdata := d, tlen := len\<rparr>, w) } })"

text \<open>The code from the label \<open>_handle_reply\<close>; \<open>k\<close> bounds the replies read.\<close>

fun handle_reply ::
  "nat \<Rightarrow> ts \<Rightarrow> bool \<Rightarrow> u32 \<Rightarrow> sng_tuple \<Rightarrow> net \<Rightarrow> (int \<times> sng_tuple \<times> net) option" where
  "handle_reply 0 self block response tpl w = None"
| "handle_reply (Suc k) self block response tpl w = do {
     let s = client_socket self;
     (_, response, w) \<leftarrow> wait_u32 s response w;
     case cmd_of response of
       Some TsAck \<Rightarrow> do {
         (n, w) \<leftarrow> wait_str s (tname tpl) w;
         reply_data self (tpl\<lparr>tname := n\<rparr>) w }
     | Some TsAnon \<Rightarrow> do {
         (_, i, w) \<leftarrow> wait_u32 s (anon_id tpl) w;
         reply_data self (tpl\<lparr>anon_id := i\<rparr>) w }
     | Some TsEnf \<Rightarrow> if block then handle_reply k self block response tpl w else Some (1, tpl, w)
     | Some TsTerm \<Rightarrow> Some (-1, tpl, w)
     | _ \<Rightarrow> Some (1, tpl, w) }"

definition ts_out_reply ::
  "ts \<Rightarrow> sng_tuple \<Rightarrow> tuple_command \<Rightarrow> net \<Rightarrow> (int \<times> sng_tuple \<times> net) option" where
  "ts_out_reply self tpl cmd w =
     handle_reply (Suc (length (rx w (client_socket self)))) self (out_block cmd) (cmd_code TsEnf) tpl w"

definition ts_out ::
  "ts \<Rightarrow> sng_tuple \<Rightarrow> tuple_command \<Rightarrow> net \<Rightarrow> (int \<times> sng_tuple \<times> net) option" where
  "ts_out self tpl cmd w = do {
     w \<leftarrow> ts_out_request self tpl cmd w;
     ts_out_reply self tpl cmd w }"

section \<open>Writing a tuple\<close>

definition send_data :: "ts \<Rightarrow> sng_tuple \<Rightarrow> net \<Rightarrow> (int \<times> net) option" where
  "send_data self tpl w =
     (if ts_is_local self then send_item (push_pipe self) (tdata tpl) (unat (tlen tpl)) w
      else do {
        let (_, w) = p2pm_send_uint64 (client_socket self) (tlen tpl) True w;
        d \<leftarrow> read_block (tdata tpl) (unat (tlen tpl));
        Some (zmq_send (client_socket self) d False w) })"

definition ts_in :: "ts \<Rightarrow> sng_tuple \<Rightarrow> tuple_command \<Rightarrow> net \<Rightarrow> (int \<times> net) option" where
  "ts_in self tpl cmd w = do {
     check (cmd = TsPut \<or> cmd = TsAdd);
     check (if cmd = TsPut then tname tpl \<noteq> Null \<and> anon_id tpl = 0 else tname tpl = Null \<and> anon_id tpl \<noteq> 0);
     check (tlen tpl > 0 \<and> tdata tpl \<noteq> Null);
     let s = client_socket self;
     w \<leftarrow> init_request self w;
     let (_, w) = p2pm_send_uint32 s (cmd_code cmd) True w;
     w \<leftarrow> (if cmd = TsPut then do {
             n \<leftarrow> deref (tname tpl);
             Some (snd (p2pm_send_str s n (\<not> ts_is_local self) w)) }
           else Some (snd (p2pm_send_uint32 s (anon_id tpl) (\<not> ts_is_local self) w)));
     (r, w) \<leftarrow> send_data self tpl w;
     Some (if ts_is_local self then r else if r < 0 then 1 else 0, w) }"

definition ts_bcast_write :: "ts \<Rightarrow> sng_tuple \<Rightarrow> net \<Rightarrow> (int \<times> net) option" where
  "ts_bcast_write self tpl w = do {
     check (tname tpl \<noteq> Null \<and> tlen tpl > 0 \<and> tdata tpl \<noteq> Null);
     let s = client_socket self;
     w \<leftarrow> init_request self w;
     let (_, w) = p2pm_send_uint32 s (cmd_code TsBCast_Write) True w;
     n \<leftarrow> deref (tname tpl);
     send_data self tpl (snd (p2pm_send_str s n (\<not> ts_is_local self) w)) }"

section \<open>Reading a broadcast\<close>

text \<open>
  The command is the blocking one exactly when the call is not, and the name that the daemon sends
  with the acknowledgement is not read.
\<close>

fun bcast_reply ::
  "nat \<Rightarrow> ts \<Rightarrow> bool \<Rightarrow> u32 \<Rightarrow> sng_tuple \<Rightarrow> net \<Rightarrow> (int \<times> sng_tuple \<times> net) option" where
  "bcast_reply 0 self blocking cmd tpl w = None"
| "bcast_reply (Suc k) self blocking cmd tpl w = do {
     let s = client_socket self;
     (_, cmd, w) \<leftarrow> wait_u32 s cmd w;
     case cmd_of cmd of
       Some TsTerm \<Rightarrow> Some (-1, tpl, w)
     | Some TsEnf \<Rightarrow> if blocking then bcast_reply k self blocking cmd tpl w else Some (1, tpl, w)
     | Some TsAck \<Rightarrow>
         if ts_is_local self then do {
           (r, d, n, w) \<leftarrow> recv_item (pull_pipe self) w;
           Some (r, tpl\<lparr>tdata := d, tlen := word_of_nat n\<rparr>, w) }
         else do {
           (_, len, w) \<leftarrow> wait_u64 s (tlen tpl) w;
           if len = 0 then Some (1, tpl\<lparr>tlen := len\<rparr>, w)
           else do {
             (n, d, w) \<leftarrow> wait_data s len w;
             Some (if n < 0 then 1 else 0, tpl\<lparr>tlen := len, tdata := d\<rparr>, w) } }
     | _ \<Rightarrow> Some (1, tpl, w) }"

definition ts_bcast_read :: "ts \<Rightarrow> sng_tuple \<Rightarrow> bool \<Rightarrow> net \<Rightarrow> (int \<times> sng_tuple \<times> net) option" where
  "ts_bcast_read self tpl blocking w = do {
     let cmd = (if blocking then TsBCast_Read else TsBCast_Read_Blocking);
     check (tname tpl \<noteq> Null);
     let s = client_socket self;
     w \<leftarrow> init_request self w;
     let (_, w) = p2pm_send_uint32 s (cmd_code cmd) True w;
     n \<leftarrow> deref (tname tpl);
     let (_, w) = p2pm_send_str s n False w;
     bcast_reply (Suc (length (rx w s))) self blocking (cmd_code cmd) tpl w }"

definition ts_close :: "ts \<Rightarrow> net \<Rightarrow> (int \<times> ts \<times> net) option" where
  "ts_close self w = do {
     w \<leftarrow> init_request self w;
     let (_, w) = p2pm_send_uint32 (client_socket self) (cmd_code TsTerm) False w;
     let w = emit (CloseSock ClientSocket) w;
     let w = (if ts_is_local self then w else emit (CloseSock ClientSocket2) w);
     Some (0, self\<lparr>is_term := True\<rparr>, w) }"

end
