(* ===== verification/System.thy ===== *)
theory System
  imports TsdSession Ts
begin

text \<open>
  Clients and a daemon together. A client's frames reach the router socket of the daemon behind the
  client id, an answer reaches the client without it, and what one side writes to a shared segment is
  what the other side reads. \<open>daemon_call\<close> is one session of the daemon on the frames of one request.
\<close>

definition idle_net :: net where
  "idle_net = \<lparr>rx = (\<lambda>_. []), rcvmore = (\<lambda>_. False), shm = (\<lambda>_. []), tx = [], send_ok = [], conn_ok = [],
     clk = [], clk_last = 0, junk = (\<lambda>_. nul)\<rparr>"

definition client_side :: "bool \<Rightarrow> sock" where
  "client_side local = (if local then ClientSocket else ClientSocket2)"

definition request_net :: "bool \<Rightarrow> string \<Rightarrow> event list \<Rightarrow> net" where
  "request_net local c evs = idle_net\<lparr>
     rx := (\<lambda>_. [])(using_socket local := RMsg c True # delivered (client_side local) evs),
     shm := (\<lambda>p. written p evs)\<rparr>"

text \<open>The messages of several sessions to one client, in order.\<close>

definition reply_net :: "bool \<Rightarrow> event list list \<Rightarrow> net" where
  "reply_net local evss = idle_net\<lparr>
     rx := (\<lambda>_. [])(client_side local := concat (map (\<lambda>evs. tl (delivered (using_socket local) evs)) evss)),
     shm := (\<lambda>p. written p (concat evss))\<rparr>"

definition daemon_call ::
  "('t, 'r, 's) tsd_lib \<Rightarrow> tsd_cfg \<Rightarrow> ('t, 'r, 's) spaces \<Rightarrow> bool \<Rightarrow> string \<Rightarrow> event list \<Rightarrow>
   (('t, 'r, 's) spaces \<times> event list) option" where
  "daemon_call L self tab local c evs = do {
     (r, tab, w) \<leftarrow> handler L self tab local (request_net local c evs);
     Some (tab, tx w) }"

lemma net_simps [simp]:
  "send_ok idle_net = []" "tx idle_net = []" "rcvmore idle_net s = False" "rx idle_net s = []"
  "send_ok (request_net local c evs) = []" "tx (request_net local c evs) = []"
  "shm (request_net local c evs) p = written p evs"
  "rx (request_net local c evs) (using_socket local) = RMsg c True # delivered (client_side local) evs"
  "send_ok (reply_net local evss) = []" "tx (reply_net local evss) = []"
  "shm (reply_net local evss) p = written p (concat evss)"
  "rx (reply_net local evss) (client_side local) =
     concat (map (\<lambda>evs. tl (delivered (using_socket local) evs)) evss)"
  by (simp_all add: idle_net_def request_net_def reply_net_def)

lemma client_side_simps [simp]: "client_side True = ClientSocket" "client_side False = ClientSocket2"
  by (simp_all add: client_side_def)

lemma request_rx [simp]:
  "rx (request_net True c evs) LocalSocket = RMsg c True # delivered ClientSocket evs"
  "rx (request_net False c evs) ServerSocket = RMsg c True # delivered ClientSocket2 evs"
  by (simp_all add: request_net_def)

lemma written_Tx [simp]: "written p (map (ShmTx q) cs) = (if p = q then cs else [])"
  by (induction cs) auto

lemma delivered_Shm [simp]: "delivered s (map (ShmTx q) cs) = []"
  by (induction cs) auto

section \<open>The client's half\<close>

definition handle_ok :: "bool \<Rightarrow> string \<Rightarrow> ts \<Rightarrow> bool" where
  "handle_ok local ns self \<longleftrightarrow> cstr (tsname self) = Some ns \<and> tsnamelen self = str_len ns \<and>
     ts_is_local self = local"

lemma handle_socket: "handle_ok local ns self \<Longrightarrow> client_socket self = client_side local"
  by (simp add: handle_ok_def client_socket_def client_side_def)

definition init_ev :: "bool \<Rightarrow> string \<Rightarrow> event list" where
  "init_ev local ns = [Tx (client_side local) (be32 (str_len ns)) True, Tx (client_side local) ns True]"

lemma init_request_ok:
  "handle_ok local ns self \<Longrightarrow> send_ok w = [] \<Longrightarrow> init_request self w = Some (out (init_ev local ns) w)"
  by (simp add: init_request_def handle_socket init_ev_def u32.send_emits zmq_send_ok emit_out)
    (simp add: handle_ok_def)

definition put_ev :: "bool \<Rightarrow> string \<Rightarrow> string \<Rightarrow> string \<Rightarrow> bytes \<Rightarrow> event list" where
  "put_ev local pipe ns n d =
     init_ev local ns @ cmd_ev (client_side local) TsPut True # str_ev (client_side local) n (\<not> local) @
     (if local then map (ShmTx pipe) (item_chunks d)
      else [Tx (client_side local) (be64 (word_of_nat (length d))) True, Tx (client_side local) d False])"

lemma ts_in_put:
  assumes "handle_ok local ns self" and "c_string n" and "d \<noteq> []" and "length d < 2 ^ 64" and "send_ok w = []"
  shows "ts_in self (put_tuple n d) TsPut w = Some (0, out (put_ev local (push_pipe self) ns n d) w)"
proof -
  note st = put_tuple_stored [OF assms(2-4)]
  have l: "unat (tlen (put_tuple n d)) = length d" "tdata (put_tuple n d) = Live d"
    using st by (simp_all add: stored_def)
  have "tlen (put_tuple n d) > 0" using assms(3) l(1) by (simp add: word_less_nat_alt)
  moreover have "deref (tname (put_tuple n d)) = Some n" using st by (simp add: stored_def named_def)
  moreover have "tlen (put_tuple n d) = word_of_nat (length d)" by (simp add: put_tuple_def)
  moreover have "tname (put_tuple n d) \<noteq> Null" "anon_id (put_tuple n d) = 0" by (simp_all add: put_tuple_def)
  moreover have "ts_is_local self = local" using assms(1) by (simp add: handle_ok_def)
  ultimately show ?thesis
    using assms(3,5) l
    by (simp add: ts_in_def init_request_ok [OF assms(1)] handle_socket [OF assms(1)] put_ev_def send_data_def
        u32.send_emits u64.send_emits p2pm_send_str_ok zmq_send_ok emit_out read_block_def)
qed

definition out_ev :: "bool \<Rightarrow> string \<Rightarrow> string \<Rightarrow> tuple_command \<Rightarrow> event list" where
  "out_ev local ns n a =
     init_ev local ns @ cmd_ev (client_side local) a True # str_ev (client_side local) n False"

definition ask :: "string \<Rightarrow> sng_tuple" where
  "ask n = \<lparr>tname = Live (c_bytes n), anon_id = 0, tlen = 0, tdata = Null\<rparr>"

lemma ts_out_request_ok:
  assumes "handle_ok local ns self" and "c_string n" and "send_ok w = []"
    and "a \<in> {TsRead, TsRead_Blocking, TsGet, TsGet_Blocking}"
  shows "ts_out_request self (ask n) a w = Some (out (out_ev local ns n a) w)"
  using assms
  by (auto simp: ts_out_request_def is_out_cmd_def out_block_def is_fetch_def init_request_ok handle_socket
      out_ev_def ask_def u32.send_emits p2pm_send_str_ok emit_out cstr_c_bytes0)

text \<open>Any number of \<open>TsEnf\<close> may precede the acknowledgement of a blocking request.\<close>

lemma reply_ack:
  assumes "handle_ok local ns self" and "fits_int m" and "d \<noteq> []" and "length d < 2 ^ 64"
    and "concat (map (\<lambda>evs. tl (delivered (using_socket local) evs)) evss) =
      replicate k (RMsg (be32 (cmd_code TsEnf)) False) @ tl (delivered (using_socket local) (Tx (using_socket local) c True # ack_ev local (pull_pipe self) m d))"
    and "written (pull_pipe self) (concat evss) = (if local then item_chunks d else [])"
    and "k = 0 \<or> out_block a"
  shows "\<exists>w. ts_out_reply self (ask n) a (reply_net local evss) =
    Some (0, \<lparr>tname = Live (c_bytes m), anon_id = 0, tlen = word_of_nat (length d), tdata = Live d\<rparr>, w)"
proof -
  let ?s = "client_side local"
  let ?F = "tl (delivered (using_socket local) (Tx (using_socket local) c True # ack_ev local (pull_pipe self) m d))"
  have F: "?F = RMsg (be32 (cmd_code TsAck)) True # str_frames m (\<not> local) @
      (if local then [] else [RMsg (be64 (word_of_nat (length d))) True, RMsg d False])"
    by (cases local) (simp_all add: ack_ev_def data_ev_def str_frames_def)
  have loc: "ts_is_local self = local" using assms(1) by (simp add: handle_ok_def)
  have nz: "(word_of_nat (length d) :: u64) \<noteq> 0"
    using assms(3,4) by (auto simp: word_unat_eq_iff unat_of_nat)
  have main: "\<exists>w'. handle_reply (Suc j) self (out_block a) old (ask n) w =
      Some (0, \<lparr>tname = Live (c_bytes m), anon_id = 0, tlen = word_of_nat (length d), tdata = Live d\<rparr>, w')"
    if "rx w ?s = ?F" "shm w (pull_pipe self) = (if local then item_chunks d else [])" for j old w
  proof -
    let ?w1 = "took ?s (tl ?F) True w"
    have r1: "p2pm_recv_uint32 ?s old w = (P2PM_OP_SUCCESS, cmd_code TsAck, ?w1)"
      using that(1) F by (simp add: recv_u32_ok)
    let ?w2 = "took ?s (drop 3 ?F) (\<not> local) w"
    have r2: "p2pm_recv_str ?s ?w1 = Some (P2PM_OP_SUCCESS, Some (Live (c_bytes m)), ?w2)"
      using p2pm_recv_str_ok [OF assms(2), of ?w1 ?s "\<not> local" "drop 3 ?F"] F by (simp add: str_frames_def)
    have s2: "wait_str ?s (tname (ask n)) ?w1 = Some (Live (c_bytes m), ?w2)"
      using r2 F by (simp add: wait_str_def str_frames_def)
    show ?thesis
    proof (cases local)
      case True
      have "recv_item (pull_pipe self) ?w2 = Some (0, Live d, length d, after_read (pull_pipe self) [] ?w2)"
        using that(2) True by (intro recv_item_ok [OF assms(3)]) simp
      then show ?thesis
        using that(1) F r1 s2 True loc
        by (simp add: wait_u32_def handle_socket [OF assms(1)] reply_data_def ask_def)
    next
      case False
      let ?w3 = "took ?s [RMsg d False] True w" and ?w4 = "took ?s [] False w"
      have r3: "p2pm_recv_uint64 ?s 0 ?w2 = (P2PM_OP_SUCCESS, word_of_nat (length d), ?w3)"
        using False F recv_u64_ok [of ?w2 ?s "word_of_nat (length d)" True "[RMsg d False]"]
        by (simp add: str_frames_def)
      have r4: "wait_data ?s (word_of_nat (length d)) ?w3 = Some (int (length d), Live d, ?w4)"
        using assms(4) by (simp add: wait_data_def zmq_recv_def unat_of_nat took_def)
      have r3': "wait_u64 ?s 0 ?w2 = Some (P2PM_OP_SUCCESS, word_of_nat (length d), ?w3)"
        using r3 False F by (simp add: wait_u64_def str_frames_def)
      show ?thesis
        using that(1) F r1 s2 r3' r4 False loc nz
        by (simp add: wait_u32_def handle_socket [OF assms(1)] reply_data_def ask_def)
    qed
  qed
  have skip: "\<exists>w'. handle_reply (Suc (j + k)) self (out_block a) old (ask n) w =
      Some (0, \<lparr>tname = Live (c_bytes m), anon_id = 0, tlen = word_of_nat (length d), tdata = Live d\<rparr>, w')"
    if "rx w ?s = replicate k (RMsg (be32 (cmd_code TsEnf)) False) @ ?F"
      "shm w (pull_pipe self) = (if local then item_chunks d else [])" "k = 0 \<or> out_block a" for j k old w
    using that
  proof (induction k arbitrary: old w)
    case 0
    then show ?case using main by (simp del: handle_reply.simps)
  next
    case (Suc k)
    let ?R = "replicate k (RMsg (be32 (cmd_code TsEnf)) False) @ ?F"
    have r: "p2pm_recv_uint32 ?s old w = (P2PM_OP_SUCCESS, cmd_code TsEnf, took ?s ?R False w)"
      using Suc.prems(1) by (simp add: recv_u32_ok)
    have "handle_reply (Suc (j + Suc k)) self (out_block a) old (ask n) w =
        handle_reply (Suc (j + k)) self (out_block a) (cmd_code TsEnf) (ask n) (took ?s ?R False w)"
      using r Suc.prems(1,3) by (simp add: wait_u32_def handle_socket [OF assms(1)] del: handle_reply.simps(2) add: handle_reply.simps(2) [of "Suc (j + k)"])
    then show ?case
      using Suc.IH [of "took ?s ?R False w" "cmd_code TsEnf"] Suc.prems(2,3) by (simp del: handle_reply.simps)
  qed
  have "length (replicate k (RMsg (be32 (cmd_code TsEnf)) False) @ ?F) = length ?F + k" by simp
  then show ?thesis
    using skip [of "reply_net local evss" k "length ?F" "cmd_code TsEnf"] assms(5-7)
    by (simp add: ts_out_reply_def handle_socket [OF assms(1)] add.commute del: handle_reply.simps)
qed

section \<open>The daemon's half\<close>

text \<open>A space that can serve: active, and with well-formed tuples and requests in its named queue.\<close>

definition space_ok ::
  "('t \<Rightarrow> sng_tuple list) \<Rightarrow> ('r \<Rightarrow> blocking_request list) \<Rightarrow> ('t, 'r, 's) tsd_element \<Rightarrow> bool" where
  "space_ok ti ri e \<longleftrightarrow> is_activated e \<and> ts_mode e \<noteq> TsModeP2P \<and>
     (\<forall>t \<in> set (ti (named_queue e)). tuple_ok t) \<and> (\<forall>b \<in> set (ri (named_queue_requests e)). waiter_ok b)"

lemma serve_sets:
  "serve P C xs = (a, r, c) \<Longrightarrow> set a \<subseteq> set xs \<and> set r \<subseteq> set xs"
proof (induction xs arbitrary: a r c)
  case Nil
  then show ?case by simp
next
  case (Cons x xs)
  have "set (drop_first P xs) \<subseteq> set xs" by (induction xs) auto
  then show ?case using Cons by (fastforce split: if_splits prod.splits)
qed

context tsd_space
begin

lemma put_call:
  assumes "tab ns = Some e" and "space_ok titems ritems e" and "head_ok c ns ns"
    and "c_string n" and "fits_int n" and "d \<noteq> []" and "length d < 2 ^ 64" and "ts_tsd_pipe e = pipe"
    and "serve (wants (rgx L) (put_tuple n d)) consumes (ritems (named_queue_requests e)) = (ans, rest, taken)"
  shows "\<exists>e'. daemon_call L self tab local c (put_ev local pipe ns n d)
      = Some (tab(ns \<mapsto> e'), concat (map (answer_ev (tsd_ts_pipe e) n d) ans)) \<and>
    space_ok titems ritems e' \<and> ritems (named_queue_requests e') = rest \<and>
    titems (named_queue e') = titems (named_queue e) @ (if taken then [] else [put_tuple n d]) \<and>
    ts_tsd_pipe e' = ts_tsd_pipe e \<and> tsd_ts_pipe e' = tsd_ts_pipe e"
proof -
  let ?w = "request_net local c (put_ev local pipe ns n d)"
  let ?F = "if local then str_frames n False else put_frames n d"
  have ok: "ts_mode e \<noteq> TsModeP2P" "\<forall>b \<in> set (ritems (named_queue_requests e)). waiter_ok b" "is_activated e"
    using assms(2) by (auto simp: space_ok_def)
  have rxw: "rx ?w (using_socket local) = head_frames c ns ns TsPut True @ ?F"
    by (cases local) (simp_all add: put_ev_def init_ev_def head_frames_def put_frames_def str_frames_def)
  have shmw: "shm ?w pipe = (if local then item_chunks d else [])"
    by (simp add: put_ev_def init_ev_def)
  note se = head_args_session [OF assms(3)]
  let ?v = "took (using_socket local) ?F True ?w"
  have h: "handler L self tab local ?w = do { (r, e, w) \<leftarrow> dispatch L self (head_args c ns TsPut local) e ?v;
      Some (r, tab(ns \<mapsto> e), w) }"
    using head_received [of ?w local c ns ns TsPut True ?F tab e, OF rxw assms(3,1)] ok(3) by simp
  have "\<exists>rq tq u. named_queue_write_handler L self (head_args c ns TsPut local) e ?v =
      Some (Some 0, closed (head_args c ns TsPut local), e\<lparr>named_queue_requests := rq, named_queue := tq\<rparr>,
        out (concat (map (answer_ev (tsd_ts_pipe e) n d) ans)) u) \<and> tx u = [] \<and>
    ritems rq = rest \<and> titems tq = titems (named_queue e) @ (if taken then [] else [put_tuple n d])"
  proof (cases local)
    case True
    let ?u = "took LocalSocket [] False (after_read (ts_tsd_pipe e) [] ?v)"
    obtain rq tq where "named_queue_write_handler L self (head_args c ns TsPut local) e ?v =
        Some (Some 0, closed (head_args c ns TsPut local), e\<lparr>named_queue_requests := rq, named_queue := tq\<rparr>,
          out (concat (map (answer_ev (tsd_ts_pipe e) n d) ans)) ?u)"
      "ritems rq = rest" "titems tq = titems (named_queue e) @ (if taken then [] else [put_tuple n d])"
      using put_local [OF se, of TsPut True n d ?v "[]" e "[]" ans rest taken self] assms(4-9) ok shmw True
      by auto
    then show ?thesis by (intro exI [of _ rq] exI [of _ tq] exI [of _ ?u]) simp
  next
    case False
    let ?u = "took ServerSocket [] False ?v"
    obtain rq tq where "named_queue_write_handler L self (head_args c ns TsPut local) e ?v =
        Some (Some 0, closed (head_args c ns TsPut local), e\<lparr>named_queue_requests := rq, named_queue := tq\<rparr>,
          out (concat (map (answer_ev (tsd_ts_pipe e) n d) ans)) ?u)"
      "ritems rq = rest" "titems tq = titems (named_queue e) @ (if taken then [] else [put_tuple n d])"
      using put_remote [OF se, of TsPut False n d ?v "[]" e ans rest taken self] assms(4-9) ok False
      by auto
    then show ?thesis by (intro exI [of _ rq] exI [of _ tq] exI [of _ ?u]) simp
  qed
  then obtain rq tq u where w: "named_queue_write_handler L self (head_args c ns TsPut local) e ?v =
      Some (Some 0, closed (head_args c ns TsPut local), e\<lparr>named_queue_requests := rq, named_queue := tq\<rparr>,
        out (concat (map (answer_ev (tsd_ts_pipe e) n d) ans)) u)" "tx u = []"
    "ritems rq = rest" "titems tq = titems (named_queue e) @ (if taken then [] else [put_tuple n d])"
    by blast
  let ?e = "e\<lparr>named_queue_requests := rq, named_queue := tq\<rparr>"
  have "tuple_ok (put_tuple n d)"
    using put_tuple_stored [OF assms(4,6,7)] by (auto simp: tuple_ok_def)
  then have "space_ok titems ritems ?e"
    using assms(2) w(3,4) serve_sets [OF assms(9)] by (auto simp: space_ok_def)
  then show ?thesis
    using h w by (intro exI [of _ ?e]) (simp add: daemon_call_def dispatch_def)
qed

lemma out_call_hit:
  assumes "tab ns = Some e" and "space_ok titems ritems e" and "head_ok c ns ns"
    and "c_string n" and "fits_int n" and "a \<in> {TsRead, TsRead_Blocking, TsGet, TsGet_Blocking}"
    and "List.extract (matches (rgx L) n) (titems (named_queue e)) = Some (us, t, vs)"
  shows "\<exists>e' m d. daemon_call L self tab local c (out_ev local ns n a)
      = Some (tab(ns \<mapsto> e'), Tx (using_socket local) c True # ack_ev local (tsd_ts_pipe e) m d) \<and>
    stored m d t \<and> space_ok titems ritems e' \<and> named_queue_requests e' = named_queue_requests e \<and>
    titems (named_queue e') = (if a \<in> {TsGet, TsGet_Blocking} then us @ vs else titems (named_queue e)) \<and>
    tsd_ts_pipe e' = tsd_ts_pipe e"
proof -
  let ?w = "request_net local c (out_ev local ns n a)" and ?F = "str_frames n False"
  have ok: "\<forall>t \<in> set (titems (named_queue e)). tuple_ok t" "is_activated e"
    using assms(2) by (auto simp: space_ok_def)
  have rxw: "rx ?w (using_socket local) = head_frames c ns ns a True @ ?F"
    by (cases local) (simp_all add: out_ev_def init_ev_def head_frames_def str_frames_def)
  note se = head_args_session [OF assms(3)]
  let ?v = "took (using_socket local) ?F True ?w"
  have h: "handler L self tab local ?w = do { (r, e, w) \<leftarrow> dispatch L self (head_args c ns a local) e ?v;
      Some (r, tab(ns \<mapsto> e), w) }"
    using head_received [of ?w local c ns ns a True ?F tab e, OF rxw assms(3,1)] ok(2) by simp
  have d: "dispatch L self (head_args c ns a local) e ?v = do { (r, args, e, w) \<leftarrow>
      named_queue_read_handler L (head_args c ns a local) e ?v; Some (r, e, w) }"
    using assms(6) by (auto simp: dispatch_def)
  obtain q m d where r: "named_queue_read_handler L (head_args c ns a local) e ?v =
      Some (Some 0, closed (head_args c ns a local), e\<lparr>named_queue := q\<rparr>,
        out (Tx (using_socket local) c True # ack_ev local (tsd_ts_pipe e) m d) (took (using_socket local) [] False ?v))"
    "stored m d t" "titems q = (if a \<in> {TsGet, TsGet_Blocking} then us @ vs else titems (named_queue e))"
    using read_hit [OF se, of a local e ?v n "[]" us t vs] assms(4-7) ok by auto
  have "set (us @ vs) \<subseteq> set (titems (named_queue e))"
    using assms(7) by (auto simp: extract_Some_iff)
  then have "space_ok titems ritems (e\<lparr>named_queue := q\<rparr>)"
    using assms(2) r(3) by (auto simp: space_ok_def split: if_splits)
  then show ?thesis
    using h d r by (intro exI [of _ "e\<lparr>named_queue := q\<rparr>"] exI [of _ m] exI [of _ d]) (simp add: daemon_call_def)
qed

lemma out_call_miss:
  assumes "tab ns = Some e" and "space_ok titems ritems e" and "head_ok c ns ns"
    and "c_string n" and "fits_int n" and "a \<in> {TsRead, TsRead_Blocking, TsGet, TsGet_Blocking}"
    and "List.extract (matches (rgx L) n) (titems (named_queue e)) = None"
  shows "\<exists>e'. daemon_call L self tab local c (out_ev local ns n a)
      = Some (tab(ns \<mapsto> e'), [Tx (using_socket local) c True, cmd_ev (using_socket local) TsEnf False]) \<and>
    space_ok titems ritems e' \<and> named_queue e' = named_queue e \<and> ts_tsd_pipe e' = ts_tsd_pipe e \<and>
    tsd_ts_pipe e' = tsd_ts_pipe e \<and>
    (if a \<in> {TsRead_Blocking, TsGet_Blocking}
     then \<exists>b. ritems (named_queue_requests e') = ritems (named_queue_requests e) @ [b] \<and> waiting n c a local b
     else named_queue_requests e' = named_queue_requests e)"
proof -
  let ?w = "request_net local c (out_ev local ns n a)" and ?F = "str_frames n False"
  have ok: "\<forall>t \<in> set (titems (named_queue e)). tuple_ok t" "is_activated e"
    using assms(2) by (auto simp: space_ok_def)
  have rxw: "rx ?w (using_socket local) = head_frames c ns ns a True @ ?F"
    by (cases local) (simp_all add: out_ev_def init_ev_def head_frames_def str_frames_def)
  note se = head_args_session [OF assms(3)]
  let ?v = "took (using_socket local) ?F True ?w"
  have h: "handler L self tab local ?w = do { (r, e, w) \<leftarrow> dispatch L self (head_args c ns a local) e ?v;
      Some (r, tab(ns \<mapsto> e), w) }"
    using head_received [of ?w local c ns ns a True ?F tab e, OF rxw assms(3,1)] ok(2) by simp
  have d: "dispatch L self (head_args c ns a local) e ?v = do { (r, args, e, w) \<leftarrow>
      named_queue_read_handler L (head_args c ns a local) e ?v; Some (r, e, w) }"
    using assms(6) by (auto simp: dispatch_def)
  obtain q where r: "named_queue_read_handler L (head_args c ns a local) e ?v =
      Some (Some 2, closed (head_args c ns a local), e\<lparr>named_queue_requests := q\<rparr>,
        out [Tx (using_socket local) c True, cmd_ev (using_socket local) TsEnf False]
          (took (using_socket local) [] False ?v))"
    "if a \<in> {TsRead_Blocking, TsGet_Blocking}
     then \<exists>b. ritems q = ritems (named_queue_requests e) @ [b] \<and> waiting n c a local b
     else q = named_queue_requests e"
    using read_miss [OF se, of a local e ?v n "[]"] assms(4-7) ok by auto
  have "waiting n c a local b \<Longrightarrow> a \<in> {TsRead_Blocking, TsGet_Blocking} \<Longrightarrow> waiter_ok b" for b
    by (auto simp: waiting_def waiter_ok_def)
  then have "space_ok titems ritems (e\<lparr>named_queue_requests := q\<rparr>)"
    using assms(2) r(2) by (auto simp: space_ok_def split: if_splits)
  then show ?thesis
    using h d r by (intro exI [of _ "e\<lparr>named_queue_requests := q\<rparr>"]) (simp add: daemon_call_def)
qed

end

section \<open>Requests that meet\<close>

lemma ask_reply: "\<lparr>tname = Live (c_bytes m), anon_id = 0, tlen = word_of_nat (length d), tdata = Live d\<rparr> = put_tuple m d"
  by (simp add: put_tuple_def)

lemma written_ack [simp]:
  "written p (ack_ev local p m d) = (if local then item_chunks d else [])"
  by (simp add: ack_ev_def data_ev_def)

lemma matches_self: "c_string n \<Longrightarrow> d \<noteq> [] \<Longrightarrow> length d < 2 ^ 64 \<Longrightarrow> matches re n (put_tuple n d)"
  using tplcmp_named [OF stored_named [OF put_tuple_stored] named_name_key, of n d n re]
  by (simp add: matches_def)

lemma wants_waiting:
  assumes "waiting n c a local b" and "a \<in> {TsRead_Blocking, TsGet_Blocking}"
    and "c_string n" and "d \<noteq> []" and "length d < 2 ^ 64"
  shows "wants re (put_tuple n d) b" and "consumes b \<longleftrightarrow> a = TsGet_Blocking"
proof -
  let ?x = "\<lparr>tname = bname b, anon_id = ucast (bextra b), tlen = 0, tdata = Null\<rparr>"
  let ?y = "\<lparr>tname = tname (put_tuple n d), anon_id = ucast (bextra b), tlen = 0, tdata = Null\<rparr>"
  have "named n ?x" "named n ?y"
    using assms put_tuple_stored [of n d] by (auto simp: waiting_def named_def stored_def)
  then have "tplcmp re ?x ?y = Some 0" by (simp add: tplcmp_named)
  then show "wants re (put_tuple n d) b"
    using assms(1,2) by (auto simp: wants_def blckcmp_str_def request_key_def waiting_def Let_def)
  show "consumes b \<longleftrightarrow> a = TsGet_Blocking"
    using assms(1,2) by (auto simp: consumes_def waiting_def)
qed

context tsd_space
begin

lemma put_then_out:
  assumes "tab ns = Some e" and "space_ok titems ritems e" and "ritems (named_queue_requests e) = []"
    and "List.extract (matches (rgx L) n) (titems (named_queue e)) = None"
    and "handle_ok la ns A" and "handle_ok lb ns B" and "push_pipe A = ts_tsd_pipe e" and "pull_pipe B = tsd_ts_pipe e"
    and "head_ok c1 ns ns" and "head_ok c2 ns ns" and "c_string n" and "fits_int n" and "d \<noteq> []" and "length d < 2 ^ 64"
    and "a \<in> {TsRead, TsRead_Blocking, TsGet, TsGet_Blocking}"
  shows "\<exists>w1 tab1 w2 tab2 evs w3 e2.
    ts_in A (put_tuple n d) TsPut idle_net = Some (0, w1) \<and>
    daemon_call L self tab la c1 (tx w1) = Some (tab1, []) \<and>
    ts_out_request B (ask n) a idle_net = Some w2 \<and>
    daemon_call L self tab1 lb c2 (tx w2) = Some (tab2, evs) \<and>
    ts_out_reply B (ask n) a (reply_net lb [evs]) = Some (0, put_tuple n d, w3) \<and>
    tab2 ns = Some e2 \<and> space_ok titems ritems e2 \<and>
    titems (named_queue e2) = titems (named_queue e) @ (if a \<in> {TsGet, TsGet_Blocking} then [] else [put_tuple n d])"
proof -
  let ?W1 = "out (put_ev la (push_pipe A) ns n d) idle_net" and ?W2 = "out (out_ev lb ns n a) idle_net"
  have w1: "ts_in A (put_tuple n d) TsPut idle_net = Some (0, ?W1)"
    by (rule ts_in_put [OF assms(5,11,13,14)]) simp
  obtain e1 where e1: "daemon_call L self tab la c1 (put_ev la (push_pipe A) ns n d) = Some (tab(ns \<mapsto> e1), [])"
    "space_ok titems ritems e1" "titems (named_queue e1) = titems (named_queue e) @ [put_tuple n d]"
    "tsd_ts_pipe e1 = tsd_ts_pipe e"
    using put_call [where tab = tab and ns = ns and e = e, OF assms(1,2,9,11,12,13,14), of "push_pipe A" "[]" "[]" False self la] assms(3,7) by auto
  have w2: "ts_out_request B (ask n) a idle_net = Some ?W2"
    by (rule ts_out_request_ok [OF assms(6,11) _ assms(15)]) simp
  have "\<not> (\<exists>x \<in> set (titems (named_queue e)). matches (rgx L) n x)"
    using assms(4) by (simp add: extract_None_iff)
  then have ex: "List.extract (matches (rgx L) n) (titems (named_queue e1))
      = Some (titems (named_queue e), put_tuple n d, [])"
    using matches_self [OF assms(11,13,14), of "rgx L"] e1(3) by (auto simp: extract_Some_iff)
  obtain e2 m d' where e2: "daemon_call L self (tab(ns \<mapsto> e1)) lb c2 (out_ev lb ns n a) =
      Some (tab(ns \<mapsto> e1, ns \<mapsto> e2), Tx (using_socket lb) c2 True # ack_ev lb (tsd_ts_pipe e1) m d')"
    "stored m d' (put_tuple n d)" "space_ok titems ritems e2"
    "titems (named_queue e2) = (if a \<in> {TsGet, TsGet_Blocking} then titems (named_queue e) @ [] else titems (named_queue e1))"
    using out_call_hit [where tab = "tab(ns \<mapsto> e1)" and ns = ns and e = e1, OF _ e1(2) assms(10,11,12,15) ex, of self lb] by auto
  have md: "m = n" "d' = d"
    using e2(2) put_tuple_stored [OF assms(11,13,14)] by (auto simp: stored_def named_def)
  let ?evs = "Tx (using_socket lb) c2 True # ack_ev lb (tsd_ts_pipe e1) m d'"
  obtain w3 where "ts_out_reply B (ask n) a (reply_net lb [?evs]) = Some (0, put_tuple n d, w3)"
    using reply_ack [OF assms(6,12,13,14), of "[?evs]" 0 c2 a n] md e1(4) assms(8) by (auto simp: ask_reply)
  then show ?thesis
    using w1 e1 w2 e2 by (intro exI [of _ ?W1] exI [of _ "tab(ns \<mapsto> e1)"] exI [of _ ?W2]
        exI [of _ "tab(ns \<mapsto> e1, ns \<mapsto> e2)"] exI [of _ ?evs] exI [of _ w3] exI [of _ e2]) simp
qed

text \<open>A blocked client gets the tuple that is put later.\<close>

lemma out_then_put:
  assumes "tab ns = Some e" and "space_ok titems ritems e" and "\<forall>b \<in> set (ritems (named_queue_requests e)). \<not> wants (rgx L) (put_tuple n d) b"
    and "List.extract (matches (rgx L) n) (titems (named_queue e)) = None"
    and "handle_ok la ns A" and "handle_ok lb ns B" and "push_pipe A = ts_tsd_pipe e" and "pull_pipe B = tsd_ts_pipe e"
    and "head_ok c1 ns ns" and "head_ok c2 ns ns" and "c_string n" and "fits_int n" and "d \<noteq> []" and "length d < 2 ^ 64"
    and "a \<in> {TsRead_Blocking, TsGet_Blocking}"
  shows "\<exists>w1 tab1 w2 tab2 evs1 evs2 w3 e2.
    ts_out_request B (ask n) a idle_net = Some w1 \<and>
    daemon_call L self tab lb c2 (tx w1) = Some (tab1, evs1) \<and>
    ts_out_reply B (ask n) a (reply_net lb [evs1]) = None \<and>
    ts_in A (put_tuple n d) TsPut idle_net = Some (0, w2) \<and>
    daemon_call L self tab1 la c1 (tx w2) = Some (tab2, evs2) \<and>
    ts_out_reply B (ask n) a (reply_net lb [evs1, evs2]) = Some (0, put_tuple n d, w3) \<and>
    tab2 ns = Some e2 \<and> space_ok titems ritems e2 \<and>
    ritems (named_queue_requests e2) = ritems (named_queue_requests e) \<and>
    titems (named_queue e2) = titems (named_queue e) @ (if a = TsGet_Blocking then [] else [put_tuple n d])"
proof -
  let ?W1 = "out (out_ev lb ns n a) idle_net" and ?W2 = "out (put_ev la (push_pipe A) ns n d) idle_net"
  let ?evs1 = "[Tx (using_socket lb) c2 True, cmd_ev (using_socket lb) TsEnf False]"
  have a: "a \<in> {TsRead, TsRead_Blocking, TsGet, TsGet_Blocking}" "out_block a"
    using assms(15) by (auto simp: out_block_def)
  have w1: "ts_out_request B (ask n) a idle_net = Some ?W1"
    by (rule ts_out_request_ok [OF assms(6,11) _ a(1)]) simp
  obtain e1 b where e1: "daemon_call L self tab lb c2 (out_ev lb ns n a) = Some (tab(ns \<mapsto> e1), ?evs1)"
    "space_ok titems ritems e1" "named_queue e1 = named_queue e" "ts_tsd_pipe e1 = ts_tsd_pipe e"
    "tsd_ts_pipe e1 = tsd_ts_pipe e" "ritems (named_queue_requests e1) = ritems (named_queue_requests e) @ [b]" "waiting n c2 a lb b"
    using out_call_miss [where tab = tab and ns = ns and e = e, OF assms(1,2,10,11,12) a(1) assms(4), of self lb] assms(15) by auto
  have blocked: "ts_out_reply B (ask n) a (reply_net lb [?evs1]) = None"
    using a(2) recv_u32_ok [of "reply_net lb [?evs1]" "client_side lb" "cmd_code TsEnf" False "[]" "cmd_code TsEnf"]
    by (simp add: ts_out_reply_def handle_socket [OF assms(6)] wait_u32_def)
  have w2: "ts_in A (put_tuple n d) TsPut idle_net = Some (0, ?W2)"
    by (rule ts_in_put [OF assms(5,11,13,14)]) simp
  have sv: "serve (wants (rgx L) (put_tuple n d)) consumes (ritems (named_queue_requests e1))
      = ([b], ritems (named_queue_requests e), a = TsGet_Blocking)"
    using wants_waiting(1) [OF e1(7) assms(15,11,13,14), of "rgx L"]
      wants_waiting(2) [OF e1(7) assms(15,11,13,14)] by (simp add: e1(6) serve_skip [OF assms(3)])
  obtain e2 where e2: "daemon_call L self (tab(ns \<mapsto> e1)) la c1 (put_ev la (push_pipe A) ns n d) =
      Some (tab(ns \<mapsto> e1, ns \<mapsto> e2), answer_ev (tsd_ts_pipe e1) n d b)"
    "space_ok titems ritems e2" "ritems (named_queue_requests e2) = ritems (named_queue_requests e)"
    "titems (named_queue e2) = titems (named_queue e) @ (if a = TsGet_Blocking then [] else [put_tuple n d])"
    using put_call [where tab = "tab(ns \<mapsto> e1)" and ns = ns and e = e1, OF _ e1(2) assms(9,11,12,13,14) _ sv, of "push_pipe A" self la]
      e1(3,4) assms(7) by auto
  let ?evs2 = "answer_ev (tsd_ts_pipe e1) n d b"
  have ev2: "?evs2 = Tx (using_socket lb) c2 True # ack_ev lb (pull_pipe B) n d"
    using e1(5,7) assms(8) by (simp add: answer_ev_def waiting_def)
  obtain w3 where "ts_out_reply B (ask n) a (reply_net lb [?evs1, ?evs2]) = Some (0, put_tuple n d, w3)"
    using reply_ack [OF assms(6,12,13,14), of "[?evs1, ?evs2]" 1 c2 a n] a(2) ev2 by (auto simp: ask_reply)
  then show ?thesis
    using w1 e1(1) blocked w2 e2
    by (intro exI [of _ ?W1] exI [of _ "tab(ns \<mapsto> e1)"] exI [of _ ?W2] exI [of _ "tab(ns \<mapsto> e1, ns \<mapsto> e2)"]
        exI [of _ ?evs1] exI [of _ ?evs2] exI [of _ w3] exI [of _ e2]) simp
qed

end

end
