(* ===== verification/P2pTypes.thy ===== *)
theory P2pTypes
  imports NodeInfo TupleUtils
begin

text \<open>
  \<^verbatim>\<open>src/p2pm_types.h\<close>: the requests, replies, expected actions and states of a ring node and its
  record, and what the protocol handlers share: the sends of codes, client id and successor list, and
  \<^verbatim>\<open>src/p2pmd/p2pmd_helpers.c\<close>, \<^verbatim>\<open>src/p2pmd/p2pmd_onering.c\<close>. Logging and socket options have no
  effect on the state and are left out.
\<close>

section \<open>Codes\<close>

datatype p2pm_reqtypes =
    P2PM_GET_REQ | P2PM_JOIN_REQ | P2PM_JOIN_ABRT | P2PM_JOIN_CMT | P2PM_PRED_JOIN_CMT
  | P2PM_PRED_JOIN_ABRT | P2PM_CUSTOM_PAYLOAD_REQ | P2PM_PING_REQ | P2PM_STABILIZE_REQ
  | P2PM_STABILIZE_SYN_REQ | P2PM_STABILIZE_NSYN_REQ | P2PM_SYNC_SLIST | P2PM_ONE_RING_JOIN_REQ
  | P2PM_FIND_HEAD | P2PM_FIND_TAIL | P2PM_TOKEN

fun req_code :: "p2pm_reqtypes \<Rightarrow> u32" where
  "req_code P2PM_GET_REQ = 55"
| "req_code P2PM_JOIN_REQ = 56"
| "req_code P2PM_JOIN_ABRT = 57"
| "req_code P2PM_JOIN_CMT = 58"
| "req_code P2PM_PRED_JOIN_CMT = 59"
| "req_code P2PM_PRED_JOIN_ABRT = 60"
| "req_code P2PM_CUSTOM_PAYLOAD_REQ = 61"
| "req_code P2PM_PING_REQ = 62"
| "req_code P2PM_STABILIZE_REQ = 63"
| "req_code P2PM_STABILIZE_SYN_REQ = 64"
| "req_code P2PM_STABILIZE_NSYN_REQ = 65"
| "req_code P2PM_SYNC_SLIST = 66"
| "req_code P2PM_ONE_RING_JOIN_REQ = 68"
| "req_code P2PM_FIND_HEAD = 69"
| "req_code P2PM_FIND_TAIL = 70"
| "req_code P2PM_TOKEN = 71"

datatype p2pm_reptypes =
    P2PM_PONG_REP | P2PM_CUSTOM_PAYLOAD_REP | P2PM_INVALID_REP | P2PM_JOIN_ACK1 | P2PM_JOIN_ACK2
  | P2PM_STABILIZE_ACK | P2PM_STABILIZE_NACK | P2PM_GET_ACK | P2PM_GET_NACK
  | P2PM_GET_CONTACTED_ONE_RING | P2PM_SYNC_SLIST_ACK | P2PM_HEAD_FOUND | P2PM_TAIL_FOUND

fun rep_code :: "p2pm_reptypes \<Rightarrow> u32" where
  "rep_code P2PM_PONG_REP = 7"
| "rep_code P2PM_CUSTOM_PAYLOAD_REP = 63"
| "rep_code P2PM_INVALID_REP = 64"
| "rep_code P2PM_JOIN_ACK1 = 65"
| "rep_code P2PM_JOIN_ACK2 = 66"
| "rep_code P2PM_STABILIZE_ACK = 67"
| "rep_code P2PM_STABILIZE_NACK = 68"
| "rep_code P2PM_GET_ACK = 69"
| "rep_code P2PM_GET_NACK = 70"
| "rep_code P2PM_GET_CONTACTED_ONE_RING = 71"
| "rep_code P2PM_SYNC_SLIST_ACK = 72"
| "rep_code P2PM_HEAD_FOUND = 73"
| "rep_code P2PM_TAIL_FOUND = 74"

datatype p2pm_expected_actions =
    P2PM_NO_XPV | P2PM_XPV_JOIN_CMT | P2PM_XPV_JOIN_ONERING | P2PM_XPV_TRIGGER_JOIN
  | P2PM_XPV_TRIGGER_STABILIZE | P2PM_XPV_PING_AND_STABILIZE_REQ | P2PM_XPV_PING_AND_STABILIZE_REQ1
  | P2PM_XPV_PING_AND_STABILIZE_REQ2 | P2PM_XPV_STABILIZE_FAILURE | P2PM_XPV_STABILIZE_ACK
  | P2PM_XPV_NXT_SUCCESSOR | P2PM_XPV_PERFORM_JOIN | P2PM_XPV_REPLICATE_BACKWARDS
  | P2PM_XPV_REPLICATE_BACKWARDS_PINGED | P2PM_XPV_RELAY_BACKWARDS | P2PM_XPV_RELAY_BACKWARDS_PINGED
  | P2PM_XPV_PRED_REP_PING1 | P2PM_XPV_PRED_REP_PING2 | P2PM_XPV_PRED_REP_PING3 | P2PM_XPV_PRED_FAILURE
  | P2PM_XPV_STABILIZE_FIND_TAIL | P2PM_XPV_STABILIZE_RELAY_FIND_HEAD | P2PM_XPV_STABILIZE_RELAY_FIND_TAIL
  | P2PM_XPV_STABILIZE_FIND_HEAD | P2PM_XPV_STABILIZE_FIND_HEAD_PINGED

datatype p2pm_status =
    P2PM_NODE_ALONE | P2PM_NODE_ONE_RING | P2PM_NODE_JOINING | P2PM_NODE_MEMBER | P2PM_NODE_APPENDAGE
  | P2PM_SOCKET_LIVE | P2PM_SOCKET_DEAD | P2PM_SOCKET_BOUNDED_WAIT | P2PM_FINDING_HEAD
  | P2PM_FINDING_TAIL | P2PM_NODE_HANDLING_JOIN | P2PM_NODE_HANDLING_STABILIZE | P2PM_NODE_BUSY

section \<open>The node\<close>

text \<open>
  \<open>struct _p2pm_s\<close> without the sockets, which are the constants of \<^typ>\<open>sock\<close>; the six \<open>send_token_*\<close>
  and the six \<open>recv_token_*\<close> fields are one token each. \<open>endpoint\<close> is only used as a C string.
\<close>

record p2pm =
  p2p_endpoint :: string
  node_list :: p2pm_node_info
  config :: p2pm_config
  clientid :: bytes
  predecessor_lastpoll_time :: int
  successor_lastpoll_time :: int
  last_stabilize_time :: int
  current_status :: p2pm_status
  predecessor_socket_expected_actions :: p2pm_expected_actions
  successor_socket_expected_actions :: p2pm_expected_actions
  server_triggered_actions :: p2pm_expected_actions
  predecessor_triggered_actions :: p2pm_expected_actions
  last_ttl :: u32
  send_has_token :: bool
  recv_has_token :: bool
  send_token :: generic_token
  recv_token :: generic_token

type_synonym handled_req = "(p2pm_opcodes \<times> p2pm \<times> net) option"

definition send_req :: "sock \<Rightarrow> p2pm_reqtypes \<Rightarrow> bool \<Rightarrow> net \<Rightarrow> net" where
  "send_req s r mo w = snd (p2pm_send_uint32 s (req_code r) mo w)"

definition send_rep :: "p2pm_reptypes \<Rightarrow> bool \<Rightarrow> net \<Rightarrow> net" where
  "send_rep r mo w = snd (p2pm_send_uint32 ServerSocket (rep_code r) mo w)"

text \<open>\<open>zmq_send(server_socket, clientid, strlen(clientid), flags)\<close>\<close>

definition send_client :: "p2pm \<Rightarrow> bool \<Rightarrow> net \<Rightarrow> net option" where
  "send_client p mo w = do { c \<leftarrow> cstr (clientid p); Some (snd (zmq_send ServerSocket c mo w)) }"

text \<open>\<open>r << 8\<close> bytes of the successor list; past its end whatever the heap holds.\<close>

definition send_slist :: "sock \<Rightarrow> p2pm \<Rightarrow> net \<Rightarrow> net" where
  "send_slist s p w = snd (zmq_send s
     (load (junk w) (shl8 (ni_r (node_list p))) (successor_list (node_list p))) False w)"

text \<open>The contents of a live block; null and freed blocks fault.\<close>

fun block :: "cptr \<Rightarrow> bytes option" where
  "block (Live b) = Some b"
| "block Null = None"
| "block Freed = None"

definition zmq_disconnect :: "sock \<Rightarrow> bytes \<Rightarrow> net \<Rightarrow> net option" where
  "zmq_disconnect s addr w = do { a \<leftarrow> cstr addr; Some (emit (Disc s a) w) }"

definition connect_to :: "sock \<Rightarrow> bytes \<Rightarrow> net \<Rightarrow> (int \<times> net) option" where
  "connect_to s addr w = do { a \<leftarrow> cstr addr; Some (zmq_connect s a w) }"

section \<open>Helpers and the ring of one node\<close>

text \<open>The loop of \<open>p2pm_try_live\<close>: four receives, none of them preceded by a ping.\<close>

fun try_live_loop :: "nat \<Rightarrow> sock \<Rightarrow> u32 \<Rightarrow> net \<Rightarrow> p2pm_opcodes \<times> net" where
  "try_live_loop 0 s rt w = (P2PM_OP_DEAD, w)"
| "try_live_loop (Suc k) s rt w =
     (let (_, rt, w) = p2pm_recv_uint32 s rt w
      in if rt = rep_code P2PM_PONG_REP then (P2PM_OP_LIVE, w) else try_live_loop k s rt w)"

definition p2pm_try_live :: "sock \<Rightarrow> net \<Rightarrow> p2pm_opcodes \<times> net" where
  "p2pm_try_live s w = try_live_loop 4 s (uninit32 w) w"

definition p2pm_change_status :: "p2pm \<Rightarrow> p2pm_status \<Rightarrow> p2pm" where
  "p2pm_change_status p st = p\<lparr>current_status := st\<rparr>"

definition p2pm_form_one_ring :: "p2pm \<Rightarrow> net \<Rightarrow> handled_req" where
  "p2pm_form_one_ring p w = do {
     let n = node_list p;
     let w = emit (OpenSock SuccessorSocket) (emit (OpenSock PredecessorSocket)
       (emit (CloseSock SuccessorSocket) (emit (CloseSock PredecessorSocket) w)));
     succ \<leftarrow> store 0 (c_bytes (p2p_endpoint p)) (successor n);
     pred \<leftarrow> store 0 (c_bytes (p2p_endpoint p)) (predecessor n);
     l \<leftarrow> store 0 (c_bytes (p2p_endpoint p)) (successor_list n);
     Some (P2PM_OP_SUCCESS,
       p\<lparr>node_list := n\<lparr>successor := succ, predecessor := pred, successor_list := l\<rparr>,
         current_status := P2PM_NODE_ONE_RING\<rparr>, w) }"

text \<open>The send returns the number of bytes sent, so the first test is true whenever it works.\<close>

definition p2pm_join_one_ring :: "p2pm \<Rightarrow> net \<Rightarrow> handled_req" where
  "p2pm_join_one_ring p w = do {
     let (rt, w) = p2pm_send_uint32 PredecessorSocket (req_code P2PM_ONE_RING_JOIN_REQ) False w;
     if rt \<noteq> 0 then Some (P2PM_OP_FAILURE, p, w)
     else do {
       let n = node_list p;
       pr \<leftarrow> cstr (predecessor n);
       succ \<leftarrow> store 0 (c_bytes pr) (successor n);
       l \<leftarrow> store 0 (load (junk w) P2PM_MAX_ID_LEN succ) (successor_list n);
       let p = p\<lparr>node_list := n\<lparr>successor := succ, successor_list := l\<rparr>\<rparr>;
       let (rt, code, w) = p2pm_recv_uint32 PredecessorSocket (uninit32 w) w;
       if rt \<noteq> P2PM_OP_SUCCESS then Some (P2PM_OP_FAILURE, p, w)
       else if code \<noteq> req_code P2PM_JOIN_CMT then Some (P2PM_OP_FAILURE, p, w)
       else do {
         (r, w) \<leftarrow> connect_to SuccessorSocket (successor (node_list p)) w;
         if r \<noteq> 0 then Some (P2PM_OP_FAILURE, p, w)
         else Some (P2PM_OP_SUCCESS, p\<lparr>current_status := P2PM_NODE_MEMBER\<rparr>, w) } } }"

end
