(* ===== verification/Parser.thy ===== *)
theory Parser
  imports Tsd P2pTypes
begin

text \<open>
  \<^verbatim>\<open>src/parser/sng_parser.c\<close>: the validation of the configuration of a daemon. The reader of JSON and
  the iterators are libbson's. Its input of the model is the tree that iteration delivers; the two
  functions that search are the parameter \<open>bson_lib\<close>.

  The configuration is allocated by the caller, so every field may start with any value. A pointer that
  is uninitialised or freed is \<^const>\<open>Freed\<close>: to use it or to free it is a fault.
\<close>

section \<open>Documents\<close>

text \<open>\<open>BUtf8\<close> holds the bytes without the terminator that libbson adds.\<close>

datatype bson =
    BUtf8 string
  | BInt32 u32
  | BDoc "(string \<times> bson) list"
  | BArray "(string \<times> bson) list"
  | BOther

type_synonym elements = "(string \<times> bson) list"

datatype json_file = NoFile | Malformed | Document elements

text \<open>
  \<open>bson_iter_init_find\<close> on a document, and \<open>bson_iter_find\<close> on an iterator, which returns where it
  stopped. The documented behaviour: the first element of the name, and the first one from the current
  position on.
\<close>

record bson_lib =
  init_find :: "string \<Rightarrow> elements \<Rightarrow> bson option"
  iter_find :: "string \<Rightarrow> elements \<Rightarrow> bson option \<times> elements"

definition bson_lib_ok :: "bson_lib \<Rightarrow> bool" where
  "bson_lib_ok B \<longleftrightarrow> (\<forall>k es. init_find B k es = map_of es k) \<and>
     (\<forall>k pre v es. k \<notin> set (map fst pre) \<longrightarrow> iter_find B k (pre @ (k, v) # es) = (Some v, es)) \<and>
     (\<forall>k es. k \<notin> set (map fst es) \<longrightarrow> iter_find B k es = (None, []))"

text \<open>What the accessors return for an element of another type: null and the length 0, and 0.\<close>

fun dup_utf8 :: "bson \<Rightarrow> cptr" where
  "dup_utf8 (BUtf8 s) = Live (c_bytes s)"
| "dup_utf8 _ = Null"

fun utf8_bytes :: "bson \<Rightarrow> bytes" where
  "utf8_bytes (BUtf8 s) = s"
| "utf8_bytes _ = []"

fun int32_value :: "bson \<Rightarrow> u32" where
  "int32_value (BInt32 i) = i"
| "int32_value _ = 0"

fun holds_utf8 :: "bson \<Rightarrow> bool" where
  "holds_utf8 (BUtf8 s) = True"
| "holds_utf8 _ = False"

text \<open>\<open>streq\<close> of a string of a document and a literal.\<close>

definition str_is :: "string \<Rightarrow> string \<Rightarrow> bool" where
  "str_is s lit \<longleftrightarrow> strcmp (takeWhile (\<lambda>c. c \<noteq> nul) s) lit = 0"

definition digit :: "char \<Rightarrow> nat option" where
  "digit c = (let n = of_char c in if 48 \<le> n \<and> n \<le> 57 then Some (n - 48) else None)"

fun digits :: "string \<Rightarrow> int \<Rightarrow> int" where
  "digits [] n = n"
| "digits (c # cs) n = (case digit c of None \<Rightarrow> n | Some d \<Rightarrow> digits cs (10 * n + int d))"

definition atoi :: "string \<Rightarrow> int" where
  "atoi s = (let s = dropWhile (\<lambda>c. (of_char c :: nat) \<in> {9, 10, 11, 12, 13, 32}) s in
     case s of [] \<Rightarrow> 0
     | c # cs \<Rightarrow> if c = CHR ''-'' then - digits cs 0 else if c = CHR ''+'' then digits cs 0 else digits s 0)"

section \<open>The bit vector\<close>

definition bvset :: "u32 \<Rightarrow> nat \<Rightarrow> u32" where
  "bvset b x = or b (push_bit x 1)"

definition bvunset :: "u32 \<Rightarrow> nat \<Rightarrow> u32" where
  "bvunset b x = and b (not (push_bit x 1))"

definition bvtoggle :: "u32 \<Rightarrow> nat \<Rightarrow> u32" where
  "bvtoggle b x = xor b (push_bit x 1)"

definition bvget :: "u32 \<Rightarrow> nat \<Rightarrow> bool" where
  "bvget b x \<longleftrightarrow> and (signed_drop_bit x b) 1 \<noteq> 0"

definition BVMODE :: nat where "BVMODE = 0"
definition BVENDPT :: nat where "BVENDPT = 1"
definition BVR :: nat where "BVR = 2"
definition BVRMAX :: nat where "BVRMAX = 3"
definition BVSUCCLIST :: nat where "BVSUCCLIST = 4"
definition BVPRED :: nat where "BVPRED = 5"
definition BVSN :: nat where "BVSN = 0"
definition BVSI :: nat where "BVSI = 1"
definition BVSM :: nat where "BVSM = 2"
definition BVST :: nat where "BVST = 3"

definition magic0 :: u32 where "magic0 = 0x3F"
definition magic1 :: u32 where "magic1 = 0x0F"

section \<open>The configuration\<close>

text \<open>The array of spaces: a live block, or a pointer that is not (uninitialised, freed).\<close>

datatype space_array = Spaces "sng_namespace list" | NoSpaces

text \<open>\<open>struct _sng_cfg_all_s\<close>, the fields of its \<open>node_info\<close> with the prefix \<open>cfg\<close>.\<close>

record sng_cfg =
  cfg_successor_list :: cptr
  cfg_predecessor :: cptr
  cfg_successor :: cptr
  cfg_temp_predecessor :: cptr
  cfg_temp_successor :: cptr
  cfg_r :: u32
  cfg_r_max :: u32
  p2pmd_endpoint :: cptr
  spaces :: space_array
  tsd_endpoint :: cptr
  tsd_ipc_endpoint :: cptr
  p2pmd_mode :: p2pm_status
  num_spaces :: u32
  bv :: u32
  r_list :: u32
  tsd_rep_factor :: u32

text \<open>The parser goes on with a configuration, or has returned, or has ended the process.\<close>

datatype ended = Returned p2pm_opcodes | Exited

type_synonym parse = "((ended \<times> sng_cfg) + sng_cfg) option"

definition go_on :: "parse \<Rightarrow> (sng_cfg \<Rightarrow> parse) \<Rightarrow> parse" where
  "go_on m f = do { r \<leftarrow> m; case r of Inl e \<Rightarrow> Some (Inl e) | Inr c \<Rightarrow> f c }"

definition free_if_set :: "nat \<Rightarrow> (sng_cfg \<Rightarrow> cptr) \<Rightarrow> ((cptr \<Rightarrow> cptr) \<Rightarrow> sng_cfg \<Rightarrow> sng_cfg) \<Rightarrow>
   sng_cfg \<Rightarrow> sng_cfg option" where
  "free_if_set x get upd c =
     (if bvget (bv c) x then do { q \<leftarrow> cfree (get c); Some (upd (\<lambda>_. q) c) } else Some c)"

definition handle_parse_failure :: "nat \<Rightarrow> sng_cfg \<Rightarrow> sng_cfg option" where
  "handle_parse_failure sec c = do {
     c \<leftarrow> (if sec = 1 then (case spaces c of Spaces _ \<Rightarrow> Some (c\<lparr>spaces := NoSpaces\<rparr>) | NoSpaces \<Rightarrow> None)
          else Some c);
     c \<leftarrow> free_if_set BVENDPT p2pmd_endpoint p2pmd_endpoint_update c;
     c \<leftarrow> free_if_set BVPRED cfg_predecessor cfg_predecessor_update c;
     free_if_set BVSUCCLIST cfg_successor_list cfg_successor_list_update c }"

text \<open>\<open>_handle_parse_failure(sng_config, sec); PERROR(...)\<close>, and the same with \<open>exit(1)\<close>\<close>

definition failure :: "nat \<Rightarrow> sng_cfg \<Rightarrow> parse" where
  "failure sec c = do { c \<leftarrow> handle_parse_failure sec c; Some (Inl (Returned P2PM_OP_FAILURE, c)) }"

definition give_up :: "nat \<Rightarrow> sng_cfg \<Rightarrow> parse" where
  "give_up sec c = do { c \<leftarrow> handle_parse_failure sec c; Some (Inl (Exited, c)) }"

text \<open>The test that a field was not set before, and its bit.\<close>

definition set_once :: "nat \<Rightarrow> nat \<Rightarrow> sng_cfg \<Rightarrow> parse" where
  "set_once x sec c = (if bvget (bv c) x then failure sec c else Some (Inr (c\<lparr>bv := bvset (bv c) x\<rparr>)))"

section \<open>The section of the ring daemon\<close>

definition parse_mode :: "bson \<Rightarrow> sng_cfg \<Rightarrow> parse" where
  "parse_mode v c = (case v of
       BUtf8 s \<Rightarrow>
         if str_is s ''member'' then set_once BVMODE 0 (c\<lparr>p2pmd_mode := P2PM_NODE_MEMBER\<rparr>)
         else if str_is s ''standalone'' then set_once BVMODE 0 (c\<lparr>p2pmd_mode := P2PM_NODE_JOINING\<rparr>)
         else failure 0 c
     | _ \<Rightarrow> failure 0 c)"

definition parse_endpoint :: "bson \<Rightarrow> sng_cfg \<Rightarrow> parse" where
  "parse_endpoint v c = (case v of
       BUtf8 s \<Rightarrow> set_once BVENDPT 0 (c\<lparr>p2pmd_endpoint := dup_utf8 v\<rparr>)
     | _ \<Rightarrow> failure 0 c)"

text \<open>The first operand of the \<open>&&\<close> is \<open>_bvset\<close>: it sets the bit of the successor list and is not 0.\<close>

definition parse_r :: "bson \<Rightarrow> sng_cfg \<Rightarrow> parse" where
  "parse_r v c = (case v of
       BInt32 r \<Rightarrow>
         (let c = c\<lparr>cfg_r := r\<rparr>; b = bvset (bv c) BVSUCCLIST; c = c\<lparr>bv := b\<rparr>
          in if b \<noteq> 0 \<and> r_list c \<noteq> cfg_r c then failure 0 c else set_once BVR 0 c)
     | _ \<Rightarrow> failure 0 c)"

definition parse_r_max :: "bson \<Rightarrow> sng_cfg \<Rightarrow> parse" where
  "parse_r_max v c = (case v of
       BInt32 r \<Rightarrow> set_once BVRMAX 0 (c\<lparr>cfg_r_max := r\<rparr>)
     | _ \<Rightarrow> failure 0 c)"

text \<open>The loop over the elements of the array; \<open>off\<close> is \<open>ptr\<close> as an offset.\<close>

fun copy_successors :: "nat \<Rightarrow> elements \<Rightarrow> sng_cfg \<Rightarrow> parse" where
  "copy_successors off [] c = Some (Inr c)"
| "copy_successors off ((k, v) # es) c = (case v of
       BUtf8 s \<Rightarrow>
         if length s > P2PM_MAX_ID_LEN then do {
           q \<leftarrow> cfree (cfg_successor_list c);
           failure 0 (c\<lparr>cfg_successor_list := q\<rparr>) }
         else do {
           b \<leftarrow> block (cfg_successor_list c);
           b \<leftarrow> store off s b;
           copy_successors (off + P2PM_MAX_ID_LEN) es (c\<lparr>cfg_successor_list := Live b\<rparr>) }
     | _ \<Rightarrow> failure 0 c)"

definition parse_successor_list :: "bson \<Rightarrow> sng_cfg \<Rightarrow> parse" where
  "parse_successor_list v c = (case v of
       BArray es \<Rightarrow>
         (let c = c\<lparr>r_list := word_of_nat (length es)\<rparr>
          in if bvget (bv c) BVR \<and> r_list c \<noteq> cfg_r c then failure 0 c
             else go_on (copy_successors 0 es
                    (c\<lparr>cfg_successor_list := Live (zeros (unat (word_of_nat P2PM_MAX_ID_LEN * r_list c)))\<rparr>))
                  (set_once BVSUCCLIST 0))
     | _ \<Rightarrow> failure 0 c)"

definition parse_predecessor :: "bson \<Rightarrow> sng_cfg \<Rightarrow> parse" where
  "parse_predecessor v c = (case v of
       BUtf8 s \<Rightarrow>
         if length s > P2PM_MAX_ID_LEN then failure 0 c
         else do {
           b \<leftarrow> store 0 s (zeros P2PM_MAX_ID_LEN);
           set_once BVPRED 0 (c\<lparr>cfg_predecessor := Live b\<rparr>) }
     | _ \<Rightarrow> failure 0 c)"

definition p2pmd_field :: "string \<Rightarrow> bson \<Rightarrow> sng_cfg \<Rightarrow> parse" where
  "p2pmd_field k v c =
     (if k = ''mode'' then parse_mode v c
      else if k = ''endpoint'' then parse_endpoint v c
      else if k = ''r'' then parse_r v c
      else if k = ''r_max'' then parse_r_max v c
      else if k = ''successor_list'' then parse_successor_list v c
      else if k = ''predecessor'' then parse_predecessor v c
      else give_up 0 c)"

fun p2pmd_fields :: "elements \<Rightarrow> sng_cfg \<Rightarrow> parse" where
  "p2pmd_fields [] c = Some (Inr c)"
| "p2pmd_fields ((k, v) # es) c = go_on (p2pmd_field k v c) (p2pmd_fields es)"

text \<open>The check that every field has been read; a document with a field missing ends the program.\<close>

definition finish_p2pmd :: "sng_cfg \<Rightarrow> parse" where
  "finish_p2pmd c = (if bv c \<noteq> magic0 then Some (Inl (Exited, c)) else Some (Inr (c\<lparr>bv := 0\<rparr>)))"

definition parse_p2pmd :: "bson_lib \<Rightarrow> elements \<Rightarrow> sng_cfg \<Rightarrow> parse" where
  "parse_p2pmd B doc c = (case init_find B ''p2pmd'' doc of
       Some (BDoc es) \<Rightarrow> go_on (p2pmd_fields es c) finish_p2pmd
     | _ \<Rightarrow> failure 0 c)"

section \<open>The section of the tuple space daemon\<close>

definition parse_tsd :: "bson_lib \<Rightarrow> elements \<Rightarrow> sng_cfg \<Rightarrow> parse" where
  "parse_tsd B doc c = (case init_find B ''tsd'' doc of
       Some (BDoc es) \<Rightarrow>
         (case iter_find B ''endpoint'' es of (None, _) \<Rightarrow> failure 0 c
          | (Some v, es) \<Rightarrow>
              (let c = c\<lparr>tsd_endpoint := dup_utf8 v\<rparr>
               in case iter_find B ''ipc'' es of (None, _) \<Rightarrow> failure 0 c
                  | (Some v, es) \<Rightarrow>
                      (let c = c\<lparr>tsd_ipc_endpoint := dup_utf8 v\<rparr>
                       in case iter_find B ''replication_factor'' es of (None, _) \<Rightarrow> failure 0 c
                          | (Some v, _) \<Rightarrow> Some (Inr (c\<lparr>tsd_rep_factor := int32_value v\<rparr>)))))
     | _ \<Rightarrow> failure 0 c)"

section \<open>The spaces\<close>

text \<open>A store to \<open>sng_config->spaces[_cnt]\<close>.\<close>

definition with_space :: "nat \<Rightarrow> (sng_namespace \<Rightarrow> sng_namespace option) \<Rightarrow> sng_cfg \<Rightarrow> sng_cfg option" where
  "with_space i f c = (case spaces c of
       NoSpaces \<Rightarrow> None
     | Spaces l \<Rightarrow>
         if i < length l then do { sp \<leftarrow> f (l ! i); Some (c\<lparr>spaces := Spaces (l[i := sp])\<rparr>) } else None)"

definition space_name :: "nat \<Rightarrow> string \<Rightarrow> sng_cfg \<Rightarrow> parse" where
  "space_name i s c =
     (if length s > 25 then failure 1 c
      else go_on (set_once BVSN 1 c) (\<lambda>c. do {
        c \<leftarrow> with_space i (\<lambda>sp. do {
            n \<leftarrow> store 0 (zeros 30) (cname sp);
            n \<leftarrow> store 0 s n;
            Some (sp\<lparr>cname := n\<rparr>) }) c;
        Some (Inr c) }))"

definition space_id :: "nat \<Rightarrow> u32 \<Rightarrow> sng_cfg \<Rightarrow> parse" where
  "space_id i v c = go_on (set_once BVSI 1 c) (\<lambda>c. do {
     c \<leftarrow> with_space i (\<lambda>sp. Some (sp\<lparr>cid := sint v\<rparr>)) c;
     Some (Inr c) })"

definition space_mode :: "nat \<Rightarrow> string \<Rightarrow> sng_cfg \<Rightarrow> parse" where
  "space_mode i s c =
     (let set = (\<lambda>m. do { c \<leftarrow> with_space i (\<lambda>sp. Some (sp\<lparr>cts_mode := m\<rparr>)) c; set_once BVSM 1 c })
      in if str_is s ''master'' then set TsModeMaster
         else if str_is s ''worker'' then set TsModeWorker
         else if str_is s ''p2p'' then set TsModeP2P
         else failure 1 c)"

text \<open>
  The loop over the array \<open>tsd_mode\<close>, with its counter and \<open>expect\<close>; the outcome of the whole array is
  judged after the loop. \<open>f\<close> takes the two values there.
\<close>

fun tsd_mode_items :: "nat \<Rightarrow> elements \<Rightarrow> char \<Rightarrow> nat \<Rightarrow> (char \<Rightarrow> nat \<Rightarrow> sng_cfg \<Rightarrow> parse) \<Rightarrow>
   sng_cfg \<Rightarrow> parse" where
  "tsd_mode_items i [] expect cnt f c = f expect cnt c"
| "tsd_mode_items i ((k, v) # es) expect cnt f c =
     (if atoi k = 0 \<and> holds_utf8 v then
        (if str_is (utf8_bytes v) ''token'' then do {
           c \<leftarrow> with_space i (\<lambda>sp. Some (sp\<lparr>ctsd_mode := TsdModeToken\<rparr>)) c;
           tsd_mode_items i es CHR ''a'' (Suc cnt) f c }
         else if str_is (utf8_bytes v) ''direct'' then do {
           c \<leftarrow> with_space i (\<lambda>sp. Some (sp\<lparr>ctsd_mode := TsdModeDirect\<rparr>)) c;
           tsd_mode_items i es CHR ''d'' (Suc cnt) f c }
         else failure 1 c)
      else if atoi k = 1 \<and> expect = CHR ''d'' then
        (if length (utf8_bytes v) > P2PM_MAX_ID_LEN then failure 1 c
         else do {
           c \<leftarrow> with_space i (\<lambda>sp. do {
               d \<leftarrow> store 0 (zeros P2PM_MAX_ID_LEN) (cdirect_endpoint sp);
               d \<leftarrow> store 0 (utf8_bytes v) d;
               Some (sp\<lparr>cdirect_endpoint := d\<rparr>) }) c;
           tsd_mode_items i es expect (Suc cnt) f c })
      else failure 1 c)"

definition space_tsd_mode :: "nat \<Rightarrow> elements \<Rightarrow> sng_cfg \<Rightarrow> parse" where
  "space_tsd_mode i es c =
     tsd_mode_items i es CHR ''x'' 0
       (\<lambda>expect cnt c.
          if (\<not> (expect = CHR ''a'' \<and> cnt = 1) \<and> \<not> (expect = CHR ''d'' \<and> cnt = 2)) \<or> expect = CHR ''x''
          then failure 1 c else set_once BVST 1 c) c"

text \<open>The matcher of a field tests its name and its type together.\<close>

definition space_field :: "nat \<Rightarrow> string \<Rightarrow> bson \<Rightarrow> sng_cfg \<Rightarrow> parse" where
  "space_field i k v c = (case v of
       BUtf8 s \<Rightarrow> if k = ''name'' then space_name i s c else if k = ''mode'' then space_mode i s c else failure 1 c
     | BInt32 n \<Rightarrow> if k = ''id'' then space_id i n c else failure 1 c
     | BArray es \<Rightarrow> if k = ''tsd_mode'' then space_tsd_mode i es c else failure 1 c
     | _ \<Rightarrow> failure 1 c)"

fun space_fields :: "nat \<Rightarrow> elements \<Rightarrow> sng_cfg \<Rightarrow> parse" where
  "space_fields i [] c = Some (Inr c)"
| "space_fields i ((k, v) # es) c = go_on (space_field i k v c) (space_fields i es)"

fun space_list :: "nat \<Rightarrow> elements \<Rightarrow> sng_cfg \<Rightarrow> parse" where
  "space_list i [] c = Some (Inr c)"
| "space_list i ((k, v) # es) c = (case v of
       BDoc fs \<Rightarrow>
         go_on (space_fields i fs (c\<lparr>bv := 0\<rparr>))
           (\<lambda>c. if bv c \<noteq> magic1 then give_up 1 c else space_list (Suc i) es c)
     | _ \<Rightarrow> failure 1 c)"

text \<open>\<open>heap\<close> is what the fresh array holds. A document without spaces is only logged.\<close>

definition parse_spaces :: "bson_lib \<Rightarrow> (nat \<Rightarrow> sng_namespace) \<Rightarrow> elements \<Rightarrow> sng_cfg \<Rightarrow> parse" where
  "parse_spaces B heap doc c = (case init_find B ''spaces'' doc of
       Some (BArray es) \<Rightarrow>
         space_list 0 es (c\<lparr>num_spaces := word_of_nat (length es), spaces := Spaces (map heap [0..<length es])\<rparr>)
     | _ \<Rightarrow> do { c \<leftarrow> handle_parse_failure 0 c; Some (Inr c) })"

section \<open>The parser\<close>

text \<open>Reading \<open>spaces[0]\<close> up to \<open>spaces[num_spaces - 1]\<close>.\<close>

definition namespaces_of :: "sng_cfg \<Rightarrow> sng_namespace list option" where
  "namespaces_of c = (case spaces c of
       NoSpaces \<Rightarrow> if num_spaces c = 0 then Some [] else None
     | Spaces l \<Rightarrow> if unat (num_spaces c) \<le> length l then Some (take (unat (num_spaces c)) l) else None)"

text \<open>The end: the loop that prints the spaces, and the blocks of the node list that were missing.\<close>

definition finish :: "sng_cfg \<Rightarrow> sng_cfg option" where
  "finish c = do {
     _ \<leftarrow> namespaces_of c;
     b \<leftarrow> block (cfg_successor_list c);
     s \<leftarrow> cstr b;
     succ \<leftarrow> store 0 (c_bytes s) (zeros P2PM_MAX_ID_LEN);
     Some (c\<lparr>cfg_successor := Live succ, cfg_temp_predecessor := Live (zeros P2PM_MAX_ID_LEN),
             cfg_temp_successor := Live (zeros P2PM_MAX_ID_LEN), bv := 0\<rparr>) }"

definition sng_parse_config ::
  "bson_lib \<Rightarrow> (nat \<Rightarrow> sng_namespace) \<Rightarrow> json_file \<Rightarrow> sng_cfg \<Rightarrow> (ended \<times> sng_cfg) option" where
  "sng_parse_config B heap file c = (case file of
       NoFile \<Rightarrow> None
     | Malformed \<Rightarrow> Some (Exited, c\<lparr>bv := 0\<rparr>)
     | Document doc \<Rightarrow> do {
         r \<leftarrow> go_on (parse_p2pmd B doc (c\<lparr>bv := 0\<rparr>)) (\<lambda>c.
              go_on (parse_tsd B doc c) (parse_spaces B heap doc));
         case r of Inl e \<Rightarrow> Some e
         | Inr c \<Rightarrow> do { c \<leftarrow> finish c; Some (Returned P2PM_OP_SUCCESS, c) } })"

definition sng_destroy_config :: "sng_cfg \<Rightarrow> (p2pm_opcodes \<times> sng_cfg) option" where
  "sng_destroy_config c = do {
     e \<leftarrow> cfree (p2pmd_endpoint c);
     t \<leftarrow> cfree (tsd_endpoint c);
     sp \<leftarrow> (case spaces c of Spaces _ \<Rightarrow> Some NoSpaces | NoSpaces \<Rightarrow> None);
     p \<leftarrow> cfree (cfg_predecessor c);
     l \<leftarrow> cfree (cfg_successor_list c);
     Some (P2PM_OP_SUCCESS, c\<lparr>p2pmd_endpoint := e, tsd_endpoint := t, spaces := sp, cfg_predecessor := p,
       cfg_successor_list := l\<rparr>) }"

end
