(* ===== verification/ParserInv.thy ===== *)
theory ParserInv
  imports Parser
begin

text \<open>
  What the parser guarantees. A configuration that it accepts has each field of the ring daemon exactly
  once with the successor list before its length, blocks of the right sizes, and complete spaces.
\<close>

section \<open>The bit vector is a set of bits\<close>

lemma bvget_bit [simp]: "x < 32 \<Longrightarrow> bvget b x = bit b x"
proof -
  assume x: "x < 32"
  have "bvget b x \<longleftrightarrow> odd (signed_drop_bit x b)"
    by (simp add: bvget_def and_one_eq odd_iff_mod_2_eq_one)
  also have "\<dots> \<longleftrightarrow> bit (signed_drop_bit x b) 0"
    by (simp only: bit_0)
  also have "\<dots> \<longleftrightarrow> bit b x"
    using x by (simp add: bit_signed_drop_bit_iff)
  finally show ?thesis .
qed

lemma bit_bvset [simp]: "x < 32 \<Longrightarrow> bit (bvset b x) i \<longleftrightarrow> bit b i \<or> i = x"
  by (auto simp: bvset_def bit_or_iff bit_exp_iff)

lemma bvset_not_0 [simp]: "x < 32 \<Longrightarrow> bvset b x \<noteq> 0"
proof
  assume x: "x < 32" and z: "bvset b x = 0"
  have "bit (bvset b x) x" using x by simp
  with z show False by simp
qed

lemma bit_bvunset: "x < 32 \<Longrightarrow> bit (bvunset b x) i \<longleftrightarrow> bit b i \<and> i \<noteq> x"
  by (auto simp: bvunset_def bit_and_iff bit_not_iff bit_exp_iff dest: bit_imp_le_length)

lemma bit_bvtoggle: "x < 32 \<Longrightarrow> bit (bvtoggle b x) i \<longleftrightarrow> bit b i \<noteq> (i = x)"
  by (auto simp: bvtoggle_def bit_xor_iff bit_exp_iff)

text \<open>A vector of flags, each set, read, unset and toggled alone.\<close>

locale bit_set =
  fixes set_bit :: "'b \<Rightarrow> nat \<Rightarrow> 'b" and unset_bit :: "'b \<Rightarrow> nat \<Rightarrow> 'b" and toggle_bit :: "'b \<Rightarrow> nat \<Rightarrow> 'b"
    and get_bit :: "'b \<Rightarrow> nat \<Rightarrow> bool" and size_bits :: nat
  assumes get_set: "x < size_bits \<Longrightarrow> i < size_bits \<Longrightarrow> get_bit (set_bit b x) i \<longleftrightarrow> get_bit b i \<or> i = x"
    and get_unset: "x < size_bits \<Longrightarrow> i < size_bits \<Longrightarrow> get_bit (unset_bit b x) i \<longleftrightarrow> get_bit b i \<and> i \<noteq> x"
    and get_toggle: "x < size_bits \<Longrightarrow> i < size_bits \<Longrightarrow> get_bit (toggle_bit b x) i \<longleftrightarrow> get_bit b i \<noteq> (i = x)"
begin

definition elems :: "'b \<Rightarrow> nat set" where
  "elems b = {i. i < size_bits \<and> get_bit b i}"

lemma elems_set: "x < size_bits \<Longrightarrow> elems (set_bit b x) = insert x (elems b)"
  by (auto simp: elems_def get_set)

lemma elems_unset: "x < size_bits \<Longrightarrow> elems (unset_bit b x) = elems b - {x}"
  by (auto simp: elems_def get_unset)

lemma elems_toggle: "x < size_bits \<Longrightarrow> elems (toggle_bit b x) = (if x \<in> elems b then elems b - {x} else insert x (elems b))"
  by (auto simp: elems_def get_toggle)

end

interpretation bv: bit_set bvset bvunset bvtoggle bvget 32
  by unfold_locales (auto simp: bit_bvunset bit_bvtoggle)

section \<open>Fields are accepted once\<close>

lemma go_on_Inr [fault_simps]:
  "go_on m f = Some (Inr c') \<longleftrightarrow> (\<exists>c. m = Some (Inr c) \<and> f c = Some (Inr c'))"
  by (cases m) (auto simp: go_on_def split: sum.splits)

lemma go_on_Some [simp]: "go_on (Some (Inr c)) f = f c" "go_on (Some (Inl e)) f = Some (Inl e)" "go_on None f = None"
  by (simp_all add: go_on_def)

lemma stops [simp]: "failure sec c \<noteq> Some (Inr c')" "give_up sec c \<noteq> Some (Inr c')"
  by (auto simp: failure_def give_up_def fault_simps)

lemma set_once_Inr [fault_simps]:
  "set_once x sec c = Some (Inr c') \<longleftrightarrow> \<not> bvget (bv c) x \<and> c' = c\<lparr>bv := bvset (bv c) x\<rparr>"
  by (auto simp: set_once_def)

lemmas bit_numbers = BVMODE_def BVENDPT_def BVR_def BVRMAX_def BVSUCCLIST_def BVPRED_def
lemmas space_bits = BVSN_def BVSI_def BVSM_def BVST_def

definition p2pmd_keys :: "string list" where
  "p2pmd_keys = [''mode'', ''endpoint'', ''r'', ''r_max'', ''successor_list'', ''predecessor'']"

definition key_bit :: "string \<Rightarrow> nat" where
  "key_bit k = (if k = ''mode'' then BVMODE else if k = ''endpoint'' then BVENDPT else if k = ''r'' then BVR
     else if k = ''r_max'' then BVRMAX else if k = ''successor_list'' then BVSUCCLIST else BVPRED)"

text \<open>
  A pointer whose bit is set is live, and the list is as long as its counter says. Once the length of
  the list is accepted, so counts as the list.
\<close>

definition p2pmd_inv :: "sng_cfg \<Rightarrow> bool" where
  "p2pmd_inv c \<longleftrightarrow>
     (bit (bv c) BVMODE \<longrightarrow> p2pmd_mode c \<in> {P2PM_NODE_MEMBER, P2PM_NODE_JOINING}) \<and>
     (bit (bv c) BVENDPT \<longrightarrow> (\<exists>s. p2pmd_endpoint c = Live (c_bytes s))) \<and>
     (bit (bv c) BVPRED \<longrightarrow> (\<exists>b. cfg_predecessor c = Live b \<and> length b = 256)) \<and>
     (cfg_successor_list c = Freed \<or>
       (\<exists>b. cfg_successor_list c = Live b \<and> length b = unat (256 * r_list c))) \<and>
     (bit (bv c) BVR \<longrightarrow> cfg_r c = r_list c \<and> bit (bv c) BVSUCCLIST)"

lemma copy_successors_Cons:
  "copy_successors off ((k, v) # es) c = Some (Inr c') \<Longrightarrow> cfg_successor_list c = Live b \<Longrightarrow>
   \<exists>s b2. v = BUtf8 s \<and> \<not> length s > P2PM_MAX_ID_LEN \<and> store off s b = Some b2 \<and>
     copy_successors (off + P2PM_MAX_ID_LEN) es (c\<lparr>cfg_successor_list := Live b2\<rparr>) = Some (Inr c')"
  by (cases v) (auto simp: fault_simps split: if_splits)

lemma copy_successors_frame:
  assumes "copy_successors off es c = Some (Inr c')" and "cfg_successor_list c = Live b"
  shows "\<exists>b'. c' = c\<lparr>cfg_successor_list := Live b'\<rparr> \<and> length b' = length b"
  using assms
proof (induction off es c arbitrary: b rule: copy_successors.induct)
  case (2 off k v es c)
  from copy_successors_Cons [OF "2.prems"] obtain s b2 where v: "v = BUtf8 s" and short: "\<not> length s > P2PM_MAX_ID_LEN"
    and st: "store off s b = Some b2"
    and go: "copy_successors (off + P2PM_MAX_ID_LEN) es (c\<lparr>cfg_successor_list := Live b2\<rparr>) = Some (Inr c')"
    by blast
  show ?case
    using "2.IH" [OF v short _ st go, of b2] "2.prems"(2) store_SomeD [OF st] by auto
next
  case (1 off c)
  then show ?case by (cases c) auto
qed

definition field_ok :: "string \<Rightarrow> sng_cfg \<Rightarrow> sng_cfg \<Rightarrow> bool" where
  "field_ok k c c' \<longleftrightarrow> k \<in> set p2pmd_keys \<and> \<not> bit (bv c) (key_bit k) \<and>
     (\<forall>i. bit (bv c') i \<longleftrightarrow> bit (bv c) i \<or> i = key_bit k \<or> (k = ''r'' \<and> i = BVSUCCLIST)) \<and>
     (k \<noteq> ''successor_list'' \<longrightarrow> cfg_successor_list c' = cfg_successor_list c \<and> r_list c' = r_list c) \<and>
     spaces c' = spaces c \<and> (p2pmd_inv c \<longrightarrow> p2pmd_inv c')"

lemma parse_successor_list_Inr:
  assumes "parse_successor_list v c = Some (Inr c')"
  shows "\<exists>es b'. v = BArray es \<and> \<not> bit (bv c) 4 \<and> \<not> (bit (bv c) 2 \<and> word_of_nat (length es) \<noteq> cfg_r c) \<and>
    c' = c\<lparr>r_list := word_of_nat (length es), cfg_successor_list := Live b', bv := bvset (bv c) 4\<rparr> \<and>
    length b' = unat (256 * word_of_nat (length es) :: u32)"
proof -
  obtain es where v: "v = BArray es" using assms by (cases v) (auto simp: parse_successor_list_def)
  define c1 where "c1 = c\<lparr>r_list := word_of_nat (length es),
    cfg_successor_list := Live (zeros (unat (256 * word_of_nat (length es) :: u32)))\<rparr>"
  obtain c2 where r: "\<not> (bit (bv c) 2 \<and> word_of_nat (length es) \<noteq> cfg_r c)"
    and copy: "copy_successors 0 es c1 = Some (Inr c2)" and "set_once BVSUCCLIST 0 c2 = Some (Inr c')"
    using assms v by (auto simp: parse_successor_list_def Let_def bit_numbers P2PM_MAX_ID_LEN_def c1_def fault_simps
        split: if_splits)
  then have c': "\<not> bit (bv c2) 4" "c' = c2\<lparr>bv := bvset (bv c2) 4\<rparr>"
    by (simp_all add: set_once_Inr bit_numbers)
  obtain b' where "c2 = c1\<lparr>cfg_successor_list := Live b'\<rparr>"
    and "length b' = unat (256 * word_of_nat (length es) :: u32)"
    using copy_successors_frame [OF copy] by (auto simp: c1_def)
  with c' r v show ?thesis by (auto simp: c1_def)
qed

lemma key_simps:
  "key_bit ''mode'' = 0" "key_bit ''endpoint'' = 1" "key_bit ''r'' = 2" "key_bit ''r_max'' = 3"
  "key_bit ''successor_list'' = 4" "key_bit ''predecessor'' = 5"
  by (simp_all add: key_bit_def bit_numbers)

lemma key_differs:
  "''mode'' \<noteq> ''r''" "''endpoint'' \<noteq> ''r''" "''r_max'' \<noteq> ''r''" "''successor_list'' \<noteq> ''r''" "''predecessor'' \<noteq> ''r''"
  by simp_all

lemma field_okI:
  assumes "k \<in> set p2pmd_keys" and "\<not> bit (bv c) (key_bit k)"
    and "\<And>i. bit (bv c') i \<longleftrightarrow> bit (bv c) i \<or> i = key_bit k \<or> (k = ''r'' \<and> i = BVSUCCLIST)"
    and "k \<noteq> ''successor_list'' \<Longrightarrow> cfg_successor_list c' = cfg_successor_list c \<and> r_list c' = r_list c"
    and "spaces c' = spaces c" and "p2pmd_inv c \<Longrightarrow> p2pmd_inv c'"
  shows "field_ok k c c'"
  using assms by (simp add: field_ok_def)

lemma parse_mode_Inr:
  assumes "parse_mode v c = Some (Inr c')"
  shows "\<exists>m. (m = P2PM_NODE_MEMBER \<or> m = P2PM_NODE_JOINING) \<and> \<not> bit (bv c) 0 \<and>
    c' = c\<lparr>p2pmd_mode := m, bv := bvset (bv c) 0\<rparr>"
proof -
  obtain m where "m = P2PM_NODE_MEMBER \<or> m = P2PM_NODE_JOINING" and "set_once BVMODE 0 (c\<lparr>p2pmd_mode := m\<rparr>) = Some (Inr c')"
    using assms unfolding parse_mode_def by (cases v) (simp_all only: bson.case stops split: if_splits, blast+)
  then show ?thesis by (simp add: set_once_Inr bit_numbers) blast
qed

lemma p2pmd_field_ok:
  assumes "p2pmd_field k v c = Some (Inr c')"
  shows "field_ok k c c'"
proof -
  note names = p2pmd_keys_def key_simps key_differs bit_numbers P2PM_MAX_ID_LEN_def
  consider (mode) "k = ''mode''" "parse_mode v c = Some (Inr c')"
    | (endpoint) "k = ''endpoint''" "parse_endpoint v c = Some (Inr c')"
    | (r) "k = ''r''" "parse_r v c = Some (Inr c')"
    | (r_max) "k = ''r_max''" "parse_r_max v c = Some (Inr c')"
    | (list) "k = ''successor_list''" "parse_successor_list v c = Some (Inr c')"
    | (pred) "k = ''predecessor''" "parse_predecessor v c = Some (Inr c')"
    using assms unfolding p2pmd_field_def by (simp only: stops split: if_splits)
  then show ?thesis
  proof cases
    case mode
    obtain m where m: "m = P2PM_NODE_MEMBER \<or> m = P2PM_NODE_JOINING" and no: "\<not> bit (bv c) 0"
      and c': "c' = c\<lparr>p2pmd_mode := m, bv := bvset (bv c) 0\<rparr>"
      using parse_mode_Inr [OF mode(2)] by blast
    show ?thesis
      by (rule field_okI) (use m no in \<open>simp_all add: c' mode(1) names p2pmd_inv_def\<close>)
  next
    case endpoint
    obtain s where no: "\<not> bit (bv c) 1" and c': "c' = c\<lparr>p2pmd_endpoint := Live (c_bytes s), bv := bvset (bv c) 1\<rparr>"
      using endpoint(2) by (cases v) (auto simp: parse_endpoint_def bit_numbers set_once_Inr)
    show ?thesis
      by (rule field_okI) (use no in \<open>simp_all add: c' endpoint(1) names p2pmd_inv_def, blast?\<close>)
  next
    case r
    obtain x where x: "r_list c = x" and no: "\<not> bit (bv c) 2"
      and c': "c' = c\<lparr>cfg_r := x, bv := bvset (bvset (bv c) 4) 2\<rparr>"
      using r(2) by (cases v) (auto simp: parse_r_def bit_numbers set_once_Inr Let_def split: if_splits)
    show ?thesis
      by (rule field_okI) (use x no in \<open>simp_all add: c' r(1) names p2pmd_inv_def disj_ac\<close>)
  next
    case r_max
    obtain x where no: "\<not> bit (bv c) 3" and c': "c' = c\<lparr>cfg_r_max := x, bv := bvset (bv c) 3\<rparr>"
      using r_max(2) by (cases v) (auto simp: parse_r_max_def bit_numbers set_once_Inr)
    show ?thesis
      by (rule field_okI) (use no in \<open>simp_all add: c' r_max(1) names p2pmd_inv_def\<close>)
  next
    case list
    obtain es :: elements and b' where no: "\<not> bit (bv c) 4"
      and c': "c' = c\<lparr>r_list := word_of_nat (length es), cfg_successor_list := Live b', bv := bvset (bv c) 4\<rparr>"
      and b': "length b' = unat (256 * word_of_nat (length es) :: u32)"
      using parse_successor_list_Inr [OF list(2)] by blast
    show ?thesis
      by (rule field_okI) (use no b' in \<open>simp_all add: c' list(1) names p2pmd_inv_def\<close>)
  next
    case pred
    obtain s b where no: "\<not> bit (bv c) 5" and b: "store 0 s (zeros 256) = Some b"
      and c': "c' = c\<lparr>cfg_predecessor := Live b, bv := bvset (bv c) 5\<rparr>"
      using pred(2) by (cases v) (auto simp: parse_predecessor_def names set_once_Inr bind_Some_iff split: if_splits)
    show ?thesis
      by (rule field_okI) (use no store_SomeD [OF b] in \<open>simp_all add: c' pred(1) names p2pmd_inv_def\<close>)
  qed
qed

text \<open>The loop over the fields.\<close>

definition fields_ok :: "elements \<Rightarrow> sng_cfg \<Rightarrow> sng_cfg \<Rightarrow> bool" where
  "fields_ok es c c' \<longleftrightarrow> distinct (map fst es) \<and> set (map fst es) \<subseteq> set p2pmd_keys \<and>
     (\<forall>k \<in> set (map fst es). \<not> bit (bv c) (key_bit k)) \<and>
     (\<forall>i. bit (bv c') i \<longleftrightarrow> bit (bv c) i \<or> i \<in> key_bit ` set (map fst es) \<or>
        (''r'' \<in> set (map fst es) \<and> i = BVSUCCLIST)) \<and>
     (''successor_list'' \<notin> set (map fst es) \<longrightarrow> cfg_successor_list c' = cfg_successor_list c) \<and>
     spaces c' = spaces c \<and> (p2pmd_inv c \<longrightarrow> p2pmd_inv c')"

lemma key_bit_inject:
  "j \<in> set p2pmd_keys \<Longrightarrow> k \<in> set p2pmd_keys \<Longrightarrow> key_bit j = key_bit k \<longleftrightarrow> j = k"
  by (auto simp: p2pmd_keys_def key_bit_def bit_numbers)

lemma p2pmd_fields_ok:
  "p2pmd_fields es c = Some (Inr c') \<Longrightarrow> fields_ok es c c'"
proof (induction es c rule: p2pmd_fields.induct)
  case (1 c)
  then show ?case by (simp add: fields_ok_def)
next
  case (2 k v es c)
  obtain c1 where k: "p2pmd_field k v c = Some (Inr c1)" and es: "p2pmd_fields es c1 = Some (Inr c')"
    using "2.prems" by (auto simp: fault_simps)
  have f: "field_ok k c c1" by (rule p2pmd_field_ok [OF k])
  have r: "fields_ok es c1 c'" by (rule "2.IH" [OF es])
  have new: "k \<notin> set (map fst es)" using f r by (auto simp: fields_ok_def field_ok_def)
  have "bit (bv c') i \<longleftrightarrow> bit (bv c) i \<or> i \<in> key_bit ` set (map fst ((k, v) # es)) \<or>
      (''r'' \<in> set (map fst ((k, v) # es)) \<and> i = BVSUCCLIST)" for i
    using f r unfolding fields_ok_def field_ok_def by (simp del: set_map) blast
  moreover have "\<forall>j \<in> set (map fst ((k, v) # es)). \<not> bit (bv c) (key_bit j)"
    using f r unfolding fields_ok_def field_ok_def by (simp del: set_map)
  ultimately show ?case
    using f r new unfolding fields_ok_def field_ok_def by simp blast
qed

text \<open>After the length, the bit of the list is set, so the list is refused.\<close>

lemma p2pmd_fields_append: "p2pmd_fields (xs @ ys) c = go_on (p2pmd_fields xs c) (p2pmd_fields ys)"
proof (induction xs c rule: p2pmd_fields.induct)
  case (2 k v es c)
  show ?case by (cases "p2pmd_field k v c") (auto simp: go_on_def "2.IH" split: sum.splits)
qed simp

lemma length_after_list:
  assumes "p2pmd_fields (pre @ (''r'', v) # post) c = Some (Inr c')"
  shows "''successor_list'' \<notin> set (map fst post)"
proof -
  obtain c1 c2 where r: "p2pmd_field ''r'' v c1 = Some (Inr c2)" and post: "p2pmd_fields post c2 = Some (Inr c')"
    using assms by (auto simp: p2pmd_fields_append fault_simps)
  have "bit (bv c2) (key_bit ''successor_list'')"
    using p2pmd_field_ok [OF r] by (simp add: field_ok_def key_bit_def)
  then show ?thesis using p2pmd_fields_ok [OF post] by (auto simp: fields_ok_def)
qed

lemma bits_magic0: "bit magic0 i \<longleftrightarrow> i \<in> key_bit ` set p2pmd_keys"
proof -
  have m: "magic0 = mask 6" by (simp add: magic0_def mask_eq_exp_minus_1)
  have "bit magic0 i \<longleftrightarrow> i < 32 \<and> i < 6"
    unfolding m by (simp only: bit_mask_iff possible_bit_word) simp
  then have "bit magic0 i \<longleftrightarrow> i < 6" by linarith
  also have "\<dots> \<longleftrightarrow> i \<in> key_bit ` set p2pmd_keys"
    by (auto simp: p2pmd_keys_def key_bit_def bit_numbers)
  finally show ?thesis .
qed

definition listed_first :: "elements \<Rightarrow> bool" where
  "listed_first es \<longleftrightarrow> distinct (map fst es) \<and> set (map fst es) = set p2pmd_keys \<and>
     (\<exists>pre v mid u post. es = pre @ (''successor_list'', v) # mid @ (''r'', u) # post)"

lemma two_in_order:
  assumes "j \<in> set (map fst es)" and "k \<in> set (map fst es)" and "j \<noteq> k"
    and "\<And>pre v post. es = pre @ (j, v) # post \<Longrightarrow> k \<notin> set (map fst post)"
  shows "\<exists>pre v mid u post. es = pre @ (k, v) # mid @ (j, u) # post"
proof -
  obtain u pre post where es: "es = pre @ (j, u) # post"
    using assms(1) by (auto dest!: split_list)
  with assms(2-4) have "k \<in> set (map fst pre)" by fastforce
  then obtain v a b where "pre = a @ (k, v) # b" by (auto dest!: split_list)
  with es have "es = a @ (k, v) # b @ (j, u) # post" by simp
  then show ?thesis by blast
qed

lemma parse_p2pmd_ok:
  assumes "parse_p2pmd B doc c = Some (Inr c')" and "bv c = 0" and "cfg_successor_list c = Freed"
    and "cfg_successor_list c' \<noteq> Freed"
  shows "\<exists>es c1. init_find B ''p2pmd'' doc = Some (BDoc es) \<and> p2pmd_fields es c = Some (Inr c1) \<and>
    listed_first es \<and> p2pmd_inv c1 \<and> bv c1 = magic0 \<and> c' = c1\<lparr>bv := 0\<rparr>"
proof -
  obtain es c1 where doc: "init_find B ''p2pmd'' doc = Some (BDoc es)" and run: "p2pmd_fields es c = Some (Inr c1)"
    and bits: "bv c1 = magic0" and c': "c' = c1\<lparr>bv := 0\<rparr>"
    using assms(1) by (auto simp: parse_p2pmd_def finish_p2pmd_def fault_simps split: option.splits bson.splits if_splits)
  note ok = p2pmd_fields_ok [OF run]
  have "p2pmd_inv c" using assms(2,3) by (simp add: p2pmd_inv_def)
  then have inv: "p2pmd_inv c1" using ok by (simp add: fields_ok_def)
  have list: "''successor_list'' \<in> set (map fst es)"
    using ok assms(3,4) c' by (auto simp: fields_ok_def)
  have all: "bit (bv c1) i \<longleftrightarrow> i \<in> key_bit ` set (map fst es) \<or> (''r'' \<in> set (map fst es) \<and> i = key_bit ''successor_list'')"
    for i using ok assms(2) by (simp add: fields_ok_def key_bit_def)
  have "set p2pmd_keys \<subseteq> set (map fst es)"
  proof
    fix k assume k: "k \<in> set p2pmd_keys"
    then have "bit (bv c1) (key_bit k)" by (auto simp: bits bits_magic0)
    then obtain j where "j \<in> set (map fst es)" and "key_bit k = key_bit j"
      using all [of "key_bit k"] list by auto
    moreover have "j \<in> set p2pmd_keys" using ok calculation(1) by (auto simp: fields_ok_def)
    ultimately show "k \<in> set (map fst es)" using key_bit_inject [OF k] by auto
  qed
  then have keys: "set (map fst es) = set p2pmd_keys" and dist: "distinct (map fst es)"
    using ok by (auto simp: fields_ok_def)
  have "\<exists>pre v mid u post. es = pre @ (''successor_list'', v) # mid @ (''r'', u) # post"
    by (rule two_in_order) (use keys list run length_after_list in \<open>auto simp: p2pmd_keys_def\<close>)
  then show ?thesis using doc run bits c' inv keys dist by (auto simp: listed_first_def)
qed

end
