(* ===== verification/ParserSpaces.thy ===== *)
theory ParserSpaces
  imports ParserInv
begin

text \<open>
  The sections of the tuple space daemon and of the spaces, and the whole parser: what an accepted
  configuration looks like.
\<close>

section \<open>The spaces\<close>

text \<open>The buffers of a space have their sizes; a complete space has a terminated name.\<close>

definition space_sized :: "sng_namespace \<Rightarrow> bool" where
  "space_sized sp \<longleftrightarrow> length (cname sp) = 30 \<and> length (cdirect_endpoint sp) = 256"

definition space_named :: "sng_namespace \<Rightarrow> bool" where
  "space_named sp \<longleftrightarrow> (\<exists>n. cstr (cname sp) = Some n \<and> length n \<le> 25)"

text \<open>Only the space at index \<open>i\<close> and the bits change.\<close>

definition space_change :: "u32 \<Rightarrow> sng_namespace \<Rightarrow> u32 \<Rightarrow> sng_namespace \<Rightarrow> bool" where
  "space_change b sp b' sp' \<longleftrightarrow> (space_sized sp \<longrightarrow> space_sized sp') \<and>
     ((bit b BVSN \<longrightarrow> space_named sp) \<longrightarrow> space_sized sp \<longrightarrow> bit b' BVSN \<longrightarrow> space_named sp')"

definition space_step :: "nat \<Rightarrow> sng_cfg \<Rightarrow> sng_cfg \<Rightarrow> bool" where
  "space_step i c c' \<longleftrightarrow> (\<forall>l. spaces c = Spaces l \<and> i < length l \<longrightarrow>
     (\<exists>sp b. c' = c\<lparr>spaces := Spaces (l[i := sp]), bv := b\<rparr> \<and> space_change (bv c) (l ! i) b sp))"

lemma space_change_trans:
  "space_change b1 x1 b2 x2 \<Longrightarrow> space_change b2 x2 b3 x3 \<Longrightarrow> space_change b1 x1 b3 x3"
  unfolding space_change_def by blast

lemma space_step_trans:
  assumes "space_step i c1 c2" and "space_step i c2 c3"
  shows "space_step i c1 c3"
  unfolding space_step_def
proof (intro allI impI)
  fix l assume l: "spaces c1 = Spaces l \<and> i < length l"
  obtain sp b where c2: "c2 = c1\<lparr>spaces := Spaces (l[i := sp]), bv := b\<rparr>"
    and sp: "space_change (bv c1) (l ! i) b sp"
    using assms(1) l unfolding space_step_def by blast
  obtain sp2 b2 where c3: "c3 = c2\<lparr>spaces := Spaces (l[i := sp2]), bv := b2\<rparr>"
    and sp2: "space_change b sp b2 sp2"
    using assms(2) l unfolding space_step_def c2 by auto
  show "\<exists>sp b. c3 = c1\<lparr>spaces := Spaces (l[i := sp]), bv := b\<rparr> \<and> space_change (bv c1) (l ! i) b sp"
    using space_change_trans [OF sp sp2] by (auto simp: c3 c2)
qed

lemma with_space_Some [fault_simps]:
  "with_space i f c = Some c' \<longleftrightarrow>
     (\<exists>l sp. spaces c = Spaces l \<and> i < length l \<and> f (l ! i) = Some sp \<and> c' = c\<lparr>spaces := Spaces (l[i := sp])\<rparr>)"
  by (auto simp: with_space_def fault_simps split: space_array.splits)

lemma with_space_step:
  assumes "with_space i f c = Some c1"
    and "\<And>sp sp'. f sp = Some sp' \<Longrightarrow> space_change (bv c) sp b sp'"
  shows "space_step i c (c1\<lparr>bv := b\<rparr>)"
proof -
  obtain l sp where l: "spaces c = Spaces l" "i < length l" and f: "f (l ! i) = Some sp"
    and c1: "c1 = c\<lparr>spaces := Spaces (l[i := sp])\<rparr>"
    using assms(1) by (auto simp: fault_simps)
  show ?thesis using l assms(2) [OF f] by (auto simp: space_step_def c1)
qed

text \<open>A store to the space commutes with a store to the bits.\<close>

lemma with_space_bv:
  "with_space i f (c\<lparr>bv := b\<rparr>) = map_option (\<lambda>c. c\<lparr>bv := b\<rparr>) (with_space i f c)"
  by (auto simp: with_space_def split: space_array.splits option.splits bind_splits)

lemma cstr_short: "\<exists>x. cstr (s @ nul # r) = Some x \<and> length x \<le> length s"
proof -
  have "length (takeWhile (\<lambda>c. c \<noteq> nul) (s @ nul # r)) \<le> length s"
    by (induction s) auto
  then show ?thesis by (simp add: cstr_def)
qed

lemma name_stored:
  assumes "store 0 (zeros 30) b = Some n" and "store 0 s n = Some n'" and "length s \<le> 25" and "length b = 30"
  shows "length n' = 30 \<and> (\<exists>x. cstr n' = Some x \<and> length x \<le> 25)"
proof -
  have n: "n = zeros 30" using assms(1,4) by (auto simp: store_def overwrite_def)
  then have n': "n' = s @ zeros (30 - length s)" using assms(2,3) by (auto simp: store_def overwrite_def)
  moreover have "zeros (30 - length s) = nul # zeros (29 - length s)"
    using assms(3) by (cases "30 - length s") auto
  ultimately show ?thesis using assms(3) cstr_short [of s "zeros (29 - length s)"] by auto
qed

lemma space_name_step:
  assumes "space_name i s c = Some (Inr c')"
  shows "space_step i c c'"
proof -
  let ?f = "\<lambda>sp. do { n \<leftarrow> store 0 (zeros 30) (cname sp); n \<leftarrow> store 0 s n; Some (sp\<lparr>cname := n\<rparr>) }"
  have s: "length s \<le> 25" and w: "with_space i ?f (c\<lparr>bv := bvset (bv c) BVSN\<rparr>) = Some c'"
    using assms by (auto simp: space_name_def fault_simps simp del: bvget_bit split: if_splits)
  obtain c1 where w1: "with_space i ?f c = Some c1" and c': "c' = c1\<lparr>bv := bvset (bv c) BVSN\<rparr>"
    using w by (auto simp: with_space_bv)
  show ?thesis unfolding c'
    by (rule with_space_step [OF w1])
       (use s in \<open>auto simp: space_change_def space_sized_def space_named_def fault_simps dest!: name_stored\<close>)
qed

lemma space_step_bv: "(bit b BVSN \<longrightarrow> bit (bv c) BVSN) \<Longrightarrow> space_step i c (c\<lparr>bv := b\<rparr>)"
  unfolding space_step_def
proof (intro allI impI)
  fix l assume b: "bit b BVSN \<longrightarrow> bit (bv c) BVSN" and l: "spaces c = Spaces l \<and> i < length l"
  have "c\<lparr>bv := b\<rparr> = c\<lparr>spaces := Spaces (l[i := l ! i]), bv := b\<rparr>" using l by (cases c) simp
  moreover have "space_change (bv c) (l ! i) b (l ! i)" using b by (simp add: space_change_def)
  ultimately show "\<exists>sp b'. c\<lparr>bv := b\<rparr> = c\<lparr>spaces := Spaces (l[i := sp]), bv := b'\<rparr> \<and> space_change (bv c) (l ! i) b' sp"
    by blast
qed

lemma set_once_step: "set_once x sec c = Some (Inr c') \<Longrightarrow> x < 32 \<Longrightarrow> x \<noteq> BVSN \<Longrightarrow> space_step i c c'"
  by (auto simp: fault_simps intro!: space_step_bv)

lemma with_space_kept:
  assumes "with_space i f c = Some c'"
    and "\<And>sp sp'. f sp = Some sp' \<Longrightarrow> space_sized sp \<Longrightarrow> space_sized sp' \<and> cname sp' = cname sp"
    and "\<And>sp sp'. f sp = Some sp' \<Longrightarrow> cname sp' = cname sp"
  shows "space_step i c c'"
proof -
  have "bv c' = bv c" using assms(1) by (auto simp: fault_simps)
  then have "c' = c'\<lparr>bv := bv c\<rparr>" by (cases c') simp
  then show ?thesis
    using with_space_step [OF assms(1), where b = "bv c"] assms(2,3)
    by (auto simp: space_change_def space_named_def)
qed

lemma space_id_step:
  assumes "space_id i v c = Some (Inr c')"
  shows "space_step i c c'"
proof -
  obtain c1 where o1: "set_once BVSI 1 c = Some (Inr c1)"
    and w: "with_space i (\<lambda>sp. Some (sp\<lparr>cid := sint v\<rparr>)) c1 = Some c'"
    using assms by (auto simp: space_id_def fault_simps simp del: set_once_Inr)
  show ?thesis
    by (rule space_step_trans [OF set_once_step [OF o1] with_space_kept [OF w]])
       (auto simp: space_bits space_sized_def)
qed

lemma space_mode_step:
  assumes "space_mode i s c = Some (Inr c')"
  shows "space_step i c c'"
proof -
  obtain m c1 where w: "with_space i (\<lambda>sp. Some (sp\<lparr>cts_mode := m\<rparr>)) c = Some c1"
    and o1: "set_once BVSM 1 c1 = Some (Inr c')"
    using assms by (auto simp: space_mode_def bind_Some_iff simp del: set_once_Inr split: if_splits)
  show ?thesis
    by (rule space_step_trans [OF with_space_kept [OF w] set_once_step [OF o1]])
       (auto simp: space_bits space_sized_def)
qed

lemma tsd_mode_items_step:
  assumes f: "\<And>e n c. f e n c = Some (Inr c') \<Longrightarrow> space_step i c c'"
  shows "tsd_mode_items i es e n f c = Some (Inr c') \<Longrightarrow> space_step i c c'"
proof (induction es arbitrary: e n c)
  case Nil
  then show ?case using f by simp
next
  case (Cons kv es)
  obtain k v where kv: "kv = (k, v)" by (cases kv)
  define setmode where "setmode m = (\<lambda>sp :: sng_namespace. Some (sp\<lparr>ctsd_mode := m\<rparr>))" for m
  define setend where "setend = (\<lambda>sp :: sng_namespace. do {
    d \<leftarrow> store 0 (zeros P2PM_MAX_ID_LEN) (cdirect_endpoint sp);
    d \<leftarrow> store 0 (utf8_bytes v) d;
    Some (sp\<lparr>cdirect_endpoint := d\<rparr>) })"
  obtain g c1 e' where w: "with_space i g c = Some c1" and g: "g \<in> insert setend (range setmode)"
    and go: "tsd_mode_items i es e' (Suc n) f c1 = Some (Inr c')"
    using Cons.prems kv by (auto simp: setmode_def setend_def bind_Some_iff split: if_splits)
  have "g sp = Some sp' \<Longrightarrow> cname sp' = cname sp \<and> (space_sized sp \<longrightarrow> space_sized sp')" for sp sp'
    using g by (auto simp: setmode_def setend_def fault_simps space_sized_def dest!: store_SomeD)
  then show ?case
    by (intro space_step_trans [OF with_space_kept [OF w] Cons.IH [OF go]]) auto
qed

lemma space_tsd_mode_step:
  assumes "space_tsd_mode i es c = Some (Inr c')"
  shows "space_step i c c'"
  using assms unfolding space_tsd_mode_def
  by (rule tsd_mode_items_step [rotated])
     (auto simp: space_bits simp del: set_once_Inr split: if_splits intro: set_once_step)

lemma space_fields_step:
  "space_fields i es c = Some (Inr c') \<Longrightarrow> space_step i c c'"
proof (induction es arbitrary: c)
  case Nil
  then show ?case using space_step_bv [of "bv c" c i] by simp
next
  case (Cons kv es)
  obtain k v where kv: "kv = (k, v)" by (cases kv)
  obtain c1 where k: "space_field i k v c = Some (Inr c1)" and es: "space_fields i es c1 = Some (Inr c')"
    using Cons.prems kv by (auto simp: fault_simps)
  have "space_step i c c1"
    using k by (cases v) (auto simp: space_field_def split: if_splits
      intro: space_name_step space_mode_step space_id_step space_tsd_mode_step)
  then show ?case by (rule space_step_trans) (rule Cons.IH [OF es])
qed

text \<open>The loop over the array: every space from \<open>i\<close> on is complete, and only spaces and bits change.\<close>

lemma bit_magic1: "bit magic1 BVSN"
  by (simp add: magic1_def space_bits bit_0)

lemma space_list_ok:
  assumes "space_list i es c = Some (Inr c')" and "spaces c = Spaces l" and "length l = i + length es"
    and "\<forall>sp \<in> set l. space_sized sp"
  shows "\<exists>l' b. c' = c\<lparr>spaces := Spaces l', bv := b\<rparr> \<and> length l' = length l \<and> (\<forall>sp \<in> set l'. space_sized sp) \<and>
    take i l' = take i l \<and> (\<forall>sp \<in> set (drop i l'). space_named sp)"
  using assms
proof (induction es arbitrary: i c l)
  case Nil
  then show ?case by (intro exI [of _ l] exI [of _ "bv c"]) auto
next
  case (Cons kv es)
  obtain k v where kv: "kv = (k, v)" by (cases kv)
  obtain fs c1 where v: "v = BDoc fs" and fs: "space_fields i fs (c\<lparr>bv := 0\<rparr>) = Some (Inr c1)"
    and bits: "bv c1 = magic1" and go: "space_list (Suc i) es c1 = Some (Inr c')"
    using Cons.prems(1) kv by (cases v) (auto simp: fault_simps split: if_splits)
  have i: "i < length l" using Cons.prems(3) by simp
  obtain sp where c1: "c1 = c\<lparr>spaces := Spaces (l[i := sp]), bv := magic1\<rparr>" and sp: "space_change 0 (l ! i) magic1 sp"
    using space_fields_step [OF fs] Cons.prems(2) i bits by (auto simp: space_step_def)
  have sized: "space_sized sp" using sp i Cons.prems(4) by (auto simp: space_change_def)
  have named: "space_named sp" using sp i Cons.prems(4) bit_magic1 by (auto simp: space_change_def)
  obtain l' b where c': "c' = c1\<lparr>spaces := Spaces l', bv := b\<rparr>" and len: "length l' = length l"
    and all: "\<forall>sp \<in> set l'. space_sized sp" and tk: "take (Suc i) l' = take (Suc i) (l[i := sp])"
    and dr: "\<forall>sp \<in> set (drop (Suc i) l'). space_named sp"
    using Cons.IH [OF go, of "l[i := sp]"] Cons.prems(3,4) i sized
    by (auto simp: c1 dest: set_update_subset_insert [THEN subsetD])
  have "l' ! i = sp" using tk i len by (metis lessI nth_list_update_eq nth_take)
  then have "drop i l' = sp # drop (Suc i) l'" using i len by (metis Cons_nth_drop_Suc)
  moreover have "take i l' = take i l"
    using arg_cong [OF tk, of "take i"] by (simp add: min_def)
  ultimately show ?case using all dr named len by (intro exI [of _ l'] exI [of _ b]) (auto simp: c' c1)
qed

section \<open>The whole parser\<close>

text \<open>Nothing but the end of the parser returns success.\<close>

definition no_success :: "parse \<Rightarrow> bool" where
  "no_success m \<longleftrightarrow> (\<forall>e. m = Some (Inl e) \<longrightarrow> fst e \<noteq> Returned P2PM_OP_SUCCESS)"

lemma no_success_intros [simp]:
  "no_success None" "no_success (Some (Inr c))" "no_success (Some (Inl (Exited, c)))"
  "no_success (failure sec c)" "no_success (give_up sec c)" "no_success (set_once x sec c)"
  by (auto simp: no_success_def failure_def give_up_def set_once_def fault_simps)

lemma no_success_go_on [intro!]: "no_success m \<Longrightarrow> (\<And>c. no_success (f c)) \<Longrightarrow> no_success (go_on m f)"
  by (cases m) (auto simp: go_on_def no_success_def split: sum.splits)

lemma no_success_bind [intro!]: "(\<And>x. m = Some x \<Longrightarrow> no_success (f x)) \<Longrightarrow> no_success (Option.bind m f)"
  by (cases m) auto

lemma no_success_copy: "no_success (copy_successors off es c)"
  by (induction off es c rule: copy_successors.induct) (auto split: bson.split)

lemma no_success_field: "no_success (p2pmd_field k v c)"
  by (auto simp: p2pmd_field_def parse_mode_def parse_endpoint_def parse_r_def parse_r_max_def
    parse_successor_list_def parse_predecessor_def Let_def no_success_copy split: bson.split)

lemma no_success_fields: "no_success (p2pmd_fields es c)"
  by (induction es arbitrary: c) (auto simp: no_success_field)

lemma no_success_items: "(\<And>e n c. no_success (f e n c)) \<Longrightarrow> no_success (tsd_mode_items i es e n f c)"
  by (induction es arbitrary: e n c) auto

lemma no_success_space: "no_success (space_field i k v c)"
  by (auto simp: space_field_def space_name_def space_id_def space_mode_def space_tsd_mode_def Let_def
    intro!: no_success_items split: bson.split)

lemma no_success_space_fields: "no_success (space_fields i es c)"
  by (induction es arbitrary: c) (auto simp: no_success_space)

lemma no_success_list: "no_success (space_list i es c)"
  by (induction es arbitrary: i c) (auto simp: no_success_space_fields split: bson.split)

lemma no_success_sections: "no_success (parse_p2pmd B doc c)" "no_success (parse_tsd B doc c)"
  "no_success (parse_spaces B heap doc c)"
  by (auto simp: parse_p2pmd_def finish_p2pmd_def parse_tsd_def parse_spaces_def no_success_fields no_success_list Let_def
    split: option.split bson.split prod.split)

text \<open>An accepted configuration.\<close>

definition cfg_ok :: "sng_cfg \<Rightarrow> bool" where
  "cfg_ok c \<longleftrightarrow> p2pmd_mode c \<in> {P2PM_NODE_MEMBER, P2PM_NODE_JOINING} \<and>
     (\<exists>e. p2pmd_endpoint c = Live (c_bytes e)) \<and> (\<exists>p. cfg_predecessor c = Live p \<and> length p = 256) \<and>
     (\<exists>l s. cfg_successor_list c = Live l \<and> length l = unat (256 * cfg_r c) \<and> cstr l = Some s \<and> length s < 256 \<and>
        cfg_successor c = Live (c_bytes s @ zeros (255 - length s))) \<and>
     cfg_temp_predecessor c = Live (zeros 256) \<and> cfg_temp_successor c = Live (zeros 256) \<and> bv c = 0"

lemma parse_tsd_frame:
  "parse_tsd B doc c = Some (Inr c') \<Longrightarrow>
   \<exists>t i n. c' = c\<lparr>tsd_endpoint := t, tsd_ipc_endpoint := i, tsd_rep_factor := n\<rparr>"
  by (auto simp: parse_tsd_def Let_def split: option.splits bson.splits prod.splits)

lemma parse_spaces_ok:
  assumes "parse_spaces B heap doc c = Some (Inr c')" and "bv c = 0" and "spaces c = NoSpaces"
    and "\<forall>i. space_sized (heap i)"
  shows "\<exists>l n b. c' = c\<lparr>spaces := l, num_spaces := n, bv := b\<rparr> \<and>
    (\<forall>sps. l = Spaces sps \<longrightarrow> (\<forall>sp \<in> set sps. space_sized sp \<and> space_named sp))"
proof (cases "\<exists>es. init_find B ''spaces'' doc = Some (BArray es)")
  case True
  then obtain es where es: "init_find B ''spaces'' doc = Some (BArray es)" by blast
  let ?c = "c\<lparr>num_spaces := word_of_nat (length es), spaces := Spaces (map heap [0..<length es])\<rparr>"
  obtain l' b where "c' = ?c\<lparr>spaces := Spaces l', bv := b\<rparr>"
    and "\<forall>sp \<in> set l'. space_sized sp" and "\<forall>sp \<in> set (drop 0 l'). space_named sp"
    using space_list_ok [of 0 es ?c c' "map heap [0..<length es]"] assms(1,4) es by (auto simp: parse_spaces_def)
  then show ?thesis
    by (intro exI [of _ "Spaces l'"] exI [of _ "word_of_nat (length es)"] exI [of _ b]) simp
next
  case False
  then have "handle_parse_failure 0 c = Some c'"
    using assms(1) by (auto simp: parse_spaces_def fault_simps split: option.splits bson.splits)
  then have "c' = c"
    using assms(2) by (simp add: handle_parse_failure_def free_if_set_def bit_numbers)
  then show ?thesis
    using assms(3) by (intro exI [of _ "spaces c"] exI [of _ "num_spaces c"] exI [of _ "bv c"]) simp
qed

lemma parse_config_stages:
  assumes "sng_parse_config B heap (Document doc) c = Some (Returned P2PM_OP_SUCCESS, c')"
  shows "\<exists>c1 c2 c3. parse_p2pmd B doc (c\<lparr>bv := 0\<rparr>) = Some (Inr c1) \<and> parse_tsd B doc c1 = Some (Inr c2) \<and>
    parse_spaces B heap doc c2 = Some (Inr c3) \<and> finish c3 = Some c'"
proof -
  let ?m = "go_on (parse_p2pmd B doc (c\<lparr>bv := 0\<rparr>)) (\<lambda>c. go_on (parse_tsd B doc c) (parse_spaces B heap doc))"
  have "no_success ?m" by (intro no_success_go_on no_success_sections)
  moreover obtain r where "?m = Some r" using assms by (auto simp: sng_parse_config_def bind_Some_iff)
  ultimately have "\<exists>c3. ?m = Some (Inr c3) \<and> finish c3 = Some c'"
    using assms by (cases r) (auto simp: sng_parse_config_def no_success_def bind_Some_iff simp del: go_on_Inr)
  then show ?thesis by (auto simp: fault_simps)
qed

lemma parse_config_ok:
  assumes "sng_parse_config B heap (Document doc) c = Some (Returned P2PM_OP_SUCCESS, c')"
    and "cfg_successor_list c = Freed" and "spaces c = NoSpaces" and "\<forall>i. space_sized (heap i)"
  shows "\<exists>es sps. init_find B ''p2pmd'' doc = Some (BDoc es) \<and> listed_first es \<and> cfg_ok c' \<and>
    namespaces_of c' = Some sps \<and> (\<forall>sp \<in> set sps. space_sized sp \<and> space_named sp)"
proof -
  obtain c1 c2 c3 where p: "parse_p2pmd B doc (c\<lparr>bv := 0\<rparr>) = Some (Inr c1)" and t: "parse_tsd B doc c1 = Some (Inr c2)"
    and sp: "parse_spaces B heap doc c2 = Some (Inr c3)" and fin: "finish c3 = Some c'"
    using parse_config_stages [OF assms(1)] by auto
  obtain b s succ sps where sps: "namespaces_of c3 = Some sps" and b: "cfg_successor_list c3 = Live b" and s: "cstr b = Some s"
    and succ: "store 0 (c_bytes s) (zeros 256) = Some succ"
    and c': "c' = c3\<lparr>cfg_successor := Live succ, cfg_temp_predecessor := Live (zeros 256),
      cfg_temp_successor := Live (zeros 256), bv := 0\<rparr>"
    using fin by (auto simp: finish_def fault_simps P2PM_MAX_ID_LEN_def elim: block.elims)
  obtain te ti tn where c2: "c2 = c1\<lparr>tsd_endpoint := te, tsd_ipc_endpoint := ti, tsd_rep_factor := tn\<rparr>"
    using parse_tsd_frame [OF t] by auto
  have start: "cfg_successor_list (c\<lparr>bv := 0\<rparr>) = Freed" "bv (c\<lparr>bv := 0\<rparr>) = 0"
    "spaces (c\<lparr>bv := 0\<rparr>) = NoSpaces" using assms(2,3) by simp_all
  obtain es c0 where es: "init_find B ''p2pmd'' doc = Some (BDoc es)" and run: "p2pmd_fields es (c\<lparr>bv := 0\<rparr>) = Some (Inr c0)"
    and c1: "c1 = c0\<lparr>bv := 0\<rparr>" and bits: "bv c0 = magic0" using p by (auto simp: parse_p2pmd_def finish_p2pmd_def fault_simps split: option.splits bson.splits if_splits)
  have nosp: "spaces c0 = NoSpaces" using p2pmd_fields_ok [OF run] start by (simp add: fields_ok_def)
  obtain l n b' where c3: "c3 = c2\<lparr>spaces := l, num_spaces := n, bv := b'\<rparr>"
    and ok: "\<forall>sps. l = Spaces sps \<longrightarrow> (\<forall>sp \<in> set sps. space_sized sp \<and> space_named sp)"
    using parse_spaces_ok [OF sp _ _ assms(4)] c1 c2 nosp by auto
  have "cfg_successor_list c1 \<noteq> Freed" using b by (simp add: c3 c2)
  then have listed: "listed_first es" and inv: "p2pmd_inv c0"
    using parse_p2pmd_ok [OF p start(2,1)] es run by auto
  have "set sps \<subseteq> (case l of Spaces xs \<Rightarrow> set xs | NoSpaces \<Rightarrow> {})"
    using sps by (auto simp: c3 namespaces_of_def split: space_array.splits if_splits dest: in_set_takeD)
  then have "\<forall>sp \<in> set sps. space_sized sp \<and> space_named sp" using ok by (auto split: space_array.splits)
  moreover have "namespaces_of c' = Some sps" using sps by (cases "spaces c3") (auto simp: c' namespaces_of_def split: if_splits)
  moreover have "length s < 256" "succ = c_bytes s @ zeros (255 - length s)"
    using succ by (auto simp: store_def overwrite_def split: if_splits)
  moreover have "cfg_r c0 = r_list c0" and "length b = unat (256 * r_list c0)"
    and "\<exists>e. p2pmd_endpoint c0 = Live (c_bytes e)" and "\<exists>p. cfg_predecessor c0 = Live p \<and> length p = 256"
    and "p2pmd_mode c0 \<in> {P2PM_NODE_MEMBER, P2PM_NODE_JOINING}"
    using inv b unfolding p2pmd_inv_def bits bits_magic0
    by (auto simp: c3 c2 c1 p2pmd_keys_def key_bit_def)
  ultimately show ?thesis
    using es listed b s by (intro exI [of _ es] exI [of _ sps]) (auto simp: cfg_ok_def c' c3 c2 c1)
qed

end
