(* ===== verification/P2pServer.thy ===== *)
theory P2pServer
  imports P2pTypes
begin

text \<open>
  \<^verbatim>\<open>src/p2pmd/p2pmd_server.c\<close>, first part: the handlers of the requests that arrive on the server
  socket of a ring node, one definition each. A handler takes the node and the net and returns its
  opcode, the node and the net; a fault is \<open>None\<close>. \<open>goto\<close> targets that answer an error are the local
  functions \<open>nack\<close> and \<open>invalid\<close>.
\<close>

section \<open>Joining the ring: the predecessor's side\<close>

definition GET_REQ_handler :: "p2pm \<Rightarrow> net \<Rightarrow> handled_req" where
  "GET_REQ_handler p w = do {
     w \<leftarrow> send_client p True w;
     (ret, buf, w) \<leftarrow> recv_strp ServerSocket (Live (zeros P2PM_MAX_ID_LEN)) w;
     if ret \<noteq> P2PM_OP_SUCCESS then do {
       _ \<leftarrow> cfree buf;
       Some (P2PM_OP_FAILURE, p, send_rep P2PM_GET_NACK False w) }
     else do {
       b \<leftarrow> block buf;
       t \<leftarrow> store 0 (load (junk w) P2PM_MAX_ID_LEN b) (temp_successor (node_list p));
       let p = p\<lparr>node_list := (node_list p)\<lparr>temp_successor := t\<rparr>\<rparr>;
       if current_status p = P2PM_NODE_ONE_RING
       then Some (P2PM_OP_NEED_ONE_RING, p, send_rep P2PM_GET_CONTACTED_ONE_RING False w)
       else if current_status p = P2PM_NODE_MEMBER then do {
         let w = send_rep P2PM_GET_ACK True w;
         s \<leftarrow> cstr (successor (node_list p));
         let (_, w) = p2pm_send_str ServerSocket s False w;
         Some (P2PM_OP_SUCCESS, p\<lparr>current_status := P2PM_NODE_HANDLING_JOIN\<rparr>, w) }
       else Some (P2PM_OP_FAILURE, p, send_rep P2PM_GET_NACK False w) } }"

text \<open>The clock is read only in state \<open>P2PM_NODE_MEMBER\<close>.\<close>

definition join_cmt_trigger :: "p2pm \<Rightarrow> net \<Rightarrow> p2pm \<times> net" where
  "join_cmt_trigger p w =
     (if current_status p = P2PM_NODE_MEMBER
      then (let (t, w) = zclock_mono w
            in if t - last_stabilize_time p \<le> stabilize_interval (config p)
               then (p\<lparr>server_triggered_actions := P2PM_XPV_REPLICATE_BACKWARDS\<rparr>, w) else (p, w))
      else (p, w))"

definition JOIN_CMT_handler :: "p2pm \<Rightarrow> net \<Rightarrow> handled_req" where
  "JOIN_CMT_handler p w = do {
     w \<leftarrow> send_client p True w;
     let invalid = (\<lambda>p w. Some (P2PM_OP_FAILURE, p, send_rep P2PM_INVALID_REP False w));
     let (ret, r, w) = p2pm_recv_uint32 ServerSocket (uninit32 w) w;
     if ret \<noteq> P2PM_OP_SUCCESS then invalid p w
     else if r = 0 then invalid p w
     else do {
       let n = (node_list p)\<lparr>ni_r := r\<rparr>;
       let (len, buf, w) = zmq_recv ServerSocket (uninit w (shl8 (r_max n))) w;
       if len < 0 then invalid (p\<lparr>node_list := n\<rparr>) w
       else do {
         let w = send_rep P2PM_JOIN_ACK2 False w;
         w \<leftarrow> zmq_disconnect SuccessorSocket (successor n) w;
         succ \<leftarrow> store 0 (load (junk w) P2PM_MAX_ID_LEN (temp_successor n)) (successor n);
         l \<leftarrow> store 0 (load (junk w) P2PM_MAX_ID_LEN succ) (successor_list n);
         t \<leftarrow> store 0 (zeros P2PM_MAX_ID_LEN) (temp_successor n);
         (_, n) \<leftarrow> p2pm_ni_copy_successor_list
           (n\<lparr>successor := succ, successor_list := l, temp_successor := t\<rparr>) buf r w;
         (_, w) \<leftarrow> connect_to SuccessorSocket (successor n) w;
         let (p, w) = join_cmt_trigger (p\<lparr>node_list := n\<rparr>) w;
         Some (P2PM_OP_SUCCESS,
           (if current_status p = P2PM_NODE_HANDLING_JOIN then p\<lparr>current_status := P2PM_NODE_MEMBER\<rparr>
            else p), w) } } }"

definition JOIN_ABRT_handler :: "p2pm \<Rightarrow> net \<Rightarrow> handled_req" where
  "JOIN_ABRT_handler p w = do {
     let p = (if current_status p = P2PM_NODE_HANDLING_JOIN then p\<lparr>current_status := P2PM_NODE_MEMBER\<rparr> else p);
     t \<leftarrow> store 0 (zeros P2PM_MAX_ID_LEN) (temp_successor (node_list p));
     Some (P2PM_OP_SUCCESS, p\<lparr>node_list := (node_list p)\<lparr>temp_successor := t\<rparr>\<rparr>, w) }"

section \<open>Joining the ring: the successor's side\<close>

definition JOIN_REQ_handler :: "p2pm \<Rightarrow> net \<Rightarrow> handled_req" where
  "JOIN_REQ_handler p w = do {
     w \<leftarrow> send_client p True w;
     (ret, buf, w) \<leftarrow> recv_strp ServerSocket Freed w;
     if ret \<noteq> P2PM_OP_SUCCESS then do {
       _ \<leftarrow> cfree buf;
       Some (P2PM_OP_FAILURE, p, send_rep P2PM_INVALID_REP False w) }
     else do {
       s \<leftarrow> deref buf;
       t \<leftarrow> store 0 (c_bytes s) (temp_predecessor (node_list p));
       let p = p\<lparr>node_list := (node_list p)\<lparr>temp_predecessor := t\<rparr>\<rparr>;
       if current_status p = P2PM_NODE_ONE_RING
       then Some (P2PM_OP_NEED_ONE_RING, p, send_rep P2PM_GET_CONTACTED_ONE_RING False w)
       else if current_status p = P2PM_NODE_MEMBER then do {
         let w = send_rep P2PM_JOIN_ACK1 True w;
         let w = send_u32 ServerSocket (ni_r (node_list p)) True w;
         Some (P2PM_OP_SUCCESS, p, send_slist ServerSocket p w) }
       else Some (P2PM_OP_FAILURE, p, send_rep P2PM_INVALID_REP False w) } }"

definition PRED_JOIN_CMT_handler :: "p2pm \<Rightarrow> net \<Rightarrow> handled_req" where
  "PRED_JOIN_CMT_handler p w = do {
     let n = node_list p;
     w \<leftarrow> zmq_disconnect PredecessorSocket (predecessor n) w;
     pred \<leftarrow> store 0 (load (junk w) P2PM_MAX_ID_LEN (temp_predecessor n)) (predecessor n);
     t \<leftarrow> store 0 (zeros P2PM_MAX_ID_LEN) (temp_predecessor n);
     let p = p\<lparr>node_list := n\<lparr>predecessor := pred, temp_predecessor := t\<rparr>\<rparr>;
     (_, w) \<leftarrow> connect_to PredecessorSocket pred w;
     Some (P2PM_OP_SUCCESS,
       (if current_status p = P2PM_NODE_HANDLING_JOIN then p\<lparr>current_status := P2PM_NODE_MEMBER\<rparr> else p), w) }"

definition PRED_JOIN_ABRT_handler :: "p2pm \<Rightarrow> net \<Rightarrow> handled_req" where
  "PRED_JOIN_ABRT_handler p w = do {
     t \<leftarrow> store 0 (zeros P2PM_MAX_ID_LEN) (temp_predecessor (node_list p));
     let p = p\<lparr>node_list := (node_list p)\<lparr>temp_predecessor := t\<rparr>\<rparr>;
     Some (P2PM_OP_SUCCESS,
       (if current_status p = P2PM_NODE_HANDLING_JOIN then p\<lparr>current_status := P2PM_NODE_MEMBER\<rparr> else p), w) }"

section \<open>Stabilisation\<close>

definition PING_REQ_handler :: "p2pm \<Rightarrow> net \<Rightarrow> handled_req" where
  "PING_REQ_handler p w = do {
     w \<leftarrow> send_client p True w;
     Some (P2PM_OP_SUCCESS, p, send_rep P2PM_PONG_REP False w) }"

text \<open>The refusal in the wrong state goes out without the client id.\<close>

definition STABILIZE_REQ_handler :: "p2pm \<Rightarrow> net \<Rightarrow> handled_req" where
  "STABILIZE_REQ_handler p w = (let nack = (\<lambda>p w. Some (P2PM_OP_FAILURE, p, send_rep P2PM_STABILIZE_NACK False w))
     in if current_status p \<noteq> P2PM_NODE_MEMBER \<and> current_status p \<noteq> P2PM_NODE_HANDLING_STABILIZE then nack p w
     else do {
       let p = p\<lparr>current_status := P2PM_NODE_HANDLING_STABILIZE\<rparr>;
       w \<leftarrow> send_client p True w;
       (ret, addr, w) \<leftarrow> recv_strp ServerSocket Null w;
       if ret \<noteq> P2PM_OP_SUCCESS then nack (p\<lparr>current_status := P2PM_NODE_MEMBER\<rparr>) w
       else do {
         s \<leftarrow> deref addr;
         t \<leftarrow> store 0 (c_bytes s) (temp_predecessor (node_list p));
         let p = p\<lparr>node_list := (node_list p)\<lparr>temp_predecessor := t\<rparr>\<rparr>;
         let w = send_rep P2PM_STABILIZE_ACK True w;
         let w = send_u32 ServerSocket (ni_r (node_list p)) True w;
         Some (P2PM_OP_SUCCESS, p, send_slist ServerSocket p w) } })"

definition STABILIZE_SYN_REQ_handler :: "p2pm \<Rightarrow> net \<Rightarrow> handled_req" where
  "STABILIZE_SYN_REQ_handler p w = do {
     let n = node_list p;
     t0 \<leftarrow> store 0 (zeros P2PM_MAX_ID_LEN) (temp_predecessor n);
     if current_status p \<noteq> P2PM_NODE_HANDLING_STABILIZE
     then Some (P2PM_OP_FAILURE, p\<lparr>node_list := n\<lparr>temp_predecessor := t0\<rparr>\<rparr>, w)
     else do {
       pr \<leftarrow> cstr (predecessor n);
       t \<leftarrow> cstr (temp_predecessor n);
       (pred, w) \<leftarrow> (if strcmp pr t \<noteq> 0 then do {
           w \<leftarrow> zmq_disconnect PredecessorSocket (predecessor n) w;
           pred \<leftarrow> store 0 (c_bytes t) (predecessor n);
           (_, w) \<leftarrow> connect_to PredecessorSocket pred w;
           Some (pred, w) }
         else Some (predecessor n, w));
       Some (P2PM_OP_SUCCESS, p\<lparr>node_list := n\<lparr>predecessor := pred, temp_predecessor := t0\<rparr>,
         server_triggered_actions := P2PM_NO_XPV, current_status := P2PM_NODE_MEMBER\<rparr>, w) } }"

definition STABILIZE_NSYN_REQ_handler :: "p2pm \<Rightarrow> net \<Rightarrow> handled_req" where
  "STABILIZE_NSYN_REQ_handler p w = do {
     t \<leftarrow> store 0 (zeros P2PM_MAX_ID_LEN) (temp_predecessor (node_list p));
     let p = p\<lparr>node_list := (node_list p)\<lparr>temp_predecessor := t\<rparr>\<rparr>;
     let p = (if current_status p = P2PM_NODE_HANDLING_STABILIZE
              then p\<lparr>current_status := P2PM_NODE_MEMBER\<rparr> else p);
     w \<leftarrow> send_client p False w;
     Some (P2PM_OP_SUCCESS, p, w) }"

text \<open>\<open>--ttl > 0\<close> on \<open>unsigned\<close>: a time to live of 0 wraps.\<close>

definition SYNC_SLIST_handler :: "p2pm \<Rightarrow> net \<Rightarrow> handled_req" where
  "SYNC_SLIST_handler p w = do {
     w \<leftarrow> send_client p True w;
     let (ret, ttl, w) = p2pm_recv_uint32 ServerSocket (uninit32 w) w;
     if ret \<noteq> P2PM_OP_SUCCESS then Some (P2PM_OP_FAILURE, p, w)
     else do {
       let (ret, nr, w) = p2pm_recv_uint32 ServerSocket (uninit32 w) w;
       if ret \<noteq> P2PM_OP_SUCCESS \<or> nr = 0 \<or> nr > r_max (node_list p) then Some (P2PM_OP_FAILURE, p, w)
       else do {
         let (len, buf, w) = zmq_recv ServerSocket (uninit w (shl8 nr)) w;
         if len < 0 then Some (P2PM_OP_FAILURE, p, w)
         else do {
           let ttl = ttl - 1;
           p \<leftarrow> (if ttl > 0 then do {
               (_, n) \<leftarrow> p2pm_ni_copy_successor_list (node_list p) buf nr w;
               Some (p\<lparr>node_list := n, last_ttl := ttl, server_triggered_actions := P2PM_XPV_RELAY_BACKWARDS\<rparr>) }
             else Some p);
           Some (P2PM_OP_SUCCESS, p, send_rep P2PM_SYNC_SLIST_ACK False w) } } } }"

section \<open>Rings of one node, lost neighbours\<close>

definition ONE_RING_JOIN_REQ_handler :: "p2pm \<Rightarrow> net \<Rightarrow> handled_req" where
  "ONE_RING_JOIN_REQ_handler p w = do {
     w \<leftarrow> send_client p True w;
     let invalid = (\<lambda>p w. Some (P2PM_OP_FAILURE, p, send_rep P2PM_INVALID_REP False w));
     if current_status p \<noteq> P2PM_NODE_ONE_RING then invalid p w
     else do {
       let p = p\<lparr>current_status := P2PM_NODE_HANDLING_JOIN\<rparr>;
       (ret, buf, w) \<leftarrow> recv_strp ServerSocket Freed w;
       if ret \<noteq> P2PM_OP_SUCCESS then do { _ \<leftarrow> cfree buf; invalid p w }
       else do {
         s \<leftarrow> deref buf;
         (_, n) \<leftarrow> p2pm_ni_set_predecessor (node_list p) s;
         (_, n) \<leftarrow> p2pm_ni_set_successor n s;
         l \<leftarrow> store 0 (zeros (shl8 (r_max n))) (successor_list n);
         l \<leftarrow> store 0 (load (junk w) P2PM_MAX_ID_LEN (successor n)) l;
         let p = p\<lparr>node_list := n\<lparr>successor_list := l\<rparr>\<rparr>;
         (rs, w) \<leftarrow> connect_to SuccessorSocket (successor n) w;
         if rs \<noteq> 0 then invalid p w
         else do {
           (rp, w) \<leftarrow> connect_to PredecessorSocket (predecessor n) w;
           if rp \<noteq> 0 then invalid p w
           else Some (P2PM_OP_SUCCESS, p\<lparr>current_status := P2PM_NODE_MEMBER\<rparr>,
             snd (p2pm_send_uint32 ServerSocket (req_code P2PM_JOIN_CMT) False w)) } } } }"

definition one_ring_failure :: "p2pm \<Rightarrow> net \<Rightarrow> handled_req" where
  "one_ring_failure p w = do {
     (_, p, w) \<leftarrow> p2pm_form_one_ring p w;
     Some (P2PM_OP_FAILURE, p, w) }"

definition TAIL_FOUND_handler :: "p2pm \<Rightarrow> net \<Rightarrow> handled_req" where
  "TAIL_FOUND_handler p w = do {
     (ret, buf, w) \<leftarrow> recv_strp ServerSocket Null w;
     if ret \<noteq> P2PM_OP_SUCCESS then one_ring_failure p w
     else do {
       let w = emit (OpenSock SuccessorSocket) (emit (CloseSock PredecessorSocket) w);
       if current_status p \<noteq> P2PM_FINDING_TAIL then one_ring_failure p w
       else do {
         s \<leftarrow> deref buf;
         let (r, w) = zmq_connect PredecessorSocket s w;
         if r \<noteq> 0 then one_ring_failure p w
         else do {
           pred \<leftarrow> store 0 (c_bytes s) (predecessor (node_list p));
           Some (P2PM_OP_SUCCESS, p\<lparr>node_list := (node_list p)\<lparr>predecessor := pred\<rparr>\<rparr>, w) } } } }"

definition HEAD_FOUND_handler :: "p2pm \<Rightarrow> net \<Rightarrow> handled_req" where
  "HEAD_FOUND_handler p w = do {
     (ret, buf, w) \<leftarrow> recv_strp ServerSocket Null w;
     if ret \<noteq> P2PM_OP_SUCCESS then one_ring_failure p w
     else do {
       let w = emit (OpenSock SuccessorSocket) (emit (CloseSock SuccessorSocket) w);
       if current_status p \<noteq> P2PM_FINDING_TAIL then one_ring_failure p w
       else do {
         s \<leftarrow> deref buf;
         let (r, w) = zmq_connect PredecessorSocket s w;
         if r \<noteq> 0 then one_ring_failure p w
         else do {
           let n = node_list p;
           l \<leftarrow> store 0 (zeros (shl8 (r_max n))) (successor_list n);
           succ \<leftarrow> store 0 (zeros P2PM_MAX_ID_LEN) (successor n);
           succ \<leftarrow> store 0 (c_bytes s) succ;
           l \<leftarrow> store 0 (c_bytes s) l;
           Some (P2PM_OP_SUCCESS, p\<lparr>node_list := n\<lparr>successor_list := l, successor := succ\<rparr>\<rparr>, w) } } } }"

section \<open>Tokens\<close>

text \<open>A failed receive leaves its field, and a short frame the rest of its buffer.\<close>

definition TOKEN_handler :: "p2pm \<Rightarrow> net \<Rightarrow> handled_req" where
  "TOKEN_handler p w =
     (let t = recv_token p;
          (_, i, w) = p2pm_recv_uint32 ServerSocket (tk_id t) w;
          (_, ttl, w) = p2pm_recv_uint32 ServerSocket (word_of_int (tk_ttl t)) w;
          (_, l1, w) = p2pm_recv_uint64 ServerSocket (word_of_nat (tk_len1 t)) w;
          (_, l2, w) = p2pm_recv_uint64 ServerSocket (word_of_nat (tk_len2 t)) w;
          (_, b1, w) = zmq_recv ServerSocket (uninit w (unat l1)) w;
          (_, b2, w) = zmq_recv ServerSocket (uninit w (unat l2)) w
      in Some (P2PM_OP_SUCCESS,
           p\<lparr>recv_token := \<lparr>tk_id = i, tk_ttl = sint ttl, tk_buf1 = Live b1, tk_buf2 = Live b2,
              tk_len1 = unat l1, tk_len2 = unat l2\<rparr>, recv_has_token := True\<rparr>, w))"

end
