(* ===== verification/P2pLoop.thy ===== *)
theory P2pLoop
  imports P2pServer
begin

text \<open>
  \<^verbatim>\<open>src/p2pmd/p2pmd_server.c\<close>, second part: the two state machines on the successor and the
  predecessor socket, the dispatcher of the server socket and the server loop. What \<open>zmq_poll\<close> reported
  is the record \<open>polled\<close>; the handlers are called with the same one until the next poll.
\<close>

record polled =
  pl_server :: bool
  pl_successor :: bool
  pl_predecessor :: bool

section \<open>The successor socket\<close>

text \<open>
  The two receive loops. On an exhausted script every further receive fails, so both do not return:
  \<open>None\<close>. \<open>k\<close> bounds the receives; each but the last consumes a frame or an error.
\<close>

fun recv_retry :: "nat \<Rightarrow> sock \<Rightarrow> u32 \<Rightarrow> net \<Rightarrow> (u32 \<times> net) option" where
  "recv_retry 0 s v w = None"
| "recv_retry (Suc k) s v w =
     (let (ret, v, w) = p2pm_recv_uint32 s v w
      in if ret \<noteq> P2PM_OP_SUCCESS then recv_retry k s v w else Some (v, w))"

fun skip_pongs :: "nat \<Rightarrow> sock \<Rightarrow> u32 \<Rightarrow> net \<Rightarrow> (u32 \<times> net) option" where
  "skip_pongs 0 s v w = (if v = rep_code P2PM_PONG_REP then None else Some (v, w))"
| "skip_pongs (Suc k) s v w =
     (if v = rep_code P2PM_PONG_REP
      then (let (_, v, w) = p2pm_recv_uint32 s v w in skip_pongs k s v w)
      else Some (v, w))"

definition succ_ack_failure :: "p2pm \<Rightarrow> net \<Rightarrow> p2pm \<times> net" where
  "succ_ack_failure p w =
     (p\<lparr>successor_socket_expected_actions := P2PM_XPV_STABILIZE_FAILURE\<rparr>,
      send_req SuccessorSocket P2PM_STABILIZE_NSYN_REQ False w)"

text \<open>\<open>case P2PM_XPV_STABILIZE_ACK\<close>\<close>

definition succ_stabilize_ack :: "u32 \<Rightarrow> p2pm \<Rightarrow> net \<Rightarrow> (p2pm \<times> net) option" where
  "succ_stabilize_ack v p w = do {
     (v, w) \<leftarrow> skip_pongs (length (rx w SuccessorSocket)) SuccessorSocket v w;
     if v \<noteq> rep_code P2PM_STABILIZE_ACK then Some (succ_ack_failure p w)
     else do {
       let (ret, r, w) = p2pm_recv_uint32 SuccessorSocket v w;
       if ret \<noteq> P2PM_OP_SUCCESS then Some (succ_ack_failure p w)
       else if r < 1 \<or> r > r_max (node_list p) then Some (succ_ack_failure p w)
       else do {
         let p = p\<lparr>node_list := (node_list p)\<lparr>ni_r := r\<rparr>\<rparr>;
         let (len, temp, w) = zmq_recv SuccessorSocket (uninit w (shl8 r)) w;
         if len < 0 then Some (succ_ack_failure p w)
         else do {
           (_, n) \<leftarrow> p2pm_ni_copy_successor_list (node_list p) temp r w;
           Some (p\<lparr>node_list := n, server_triggered_actions := P2PM_XPV_REPLICATE_BACKWARDS,
                   successor_socket_expected_actions := P2PM_NO_XPV, current_status := P2PM_NODE_MEMBER\<rparr>,
                 send_req SuccessorSocket P2PM_STABILIZE_SYN_REQ False w) } } } }"

definition succ_reply :: "u32 \<Rightarrow> p2pm \<Rightarrow> net \<Rightarrow> (p2pm \<times> net) option" where
  "succ_reply v p w = (case successor_socket_expected_actions p of
       P2PM_XPV_STABILIZE_ACK \<Rightarrow> succ_stabilize_ack v p w
     | x \<Rightarrow>
         if x \<in> {P2PM_XPV_PING_AND_STABILIZE_REQ, P2PM_XPV_PING_AND_STABILIZE_REQ1, P2PM_XPV_PING_AND_STABILIZE_REQ2}
         then if v = rep_code P2PM_PONG_REP
           then (let w = send_req SuccessorSocket P2PM_STABILIZE_REQ True w;
                     (_, w) = p2pm_send_str SuccessorSocket (p2p_endpoint p) False w
                 in Some (p\<lparr>successor_socket_expected_actions := P2PM_XPV_STABILIZE_ACK\<rparr>, w))
           else Some (p\<lparr>successor_socket_expected_actions := P2PM_XPV_STABILIZE_FAILURE\<rparr>,
                      send_req SuccessorSocket P2PM_PING_REQ False w)
         else Some (p, w))"

text \<open>The next successor of the list becomes the successor, or there is none.\<close>

definition succ_switch :: "p2pm \<Rightarrow> net \<Rightarrow> (p2pm \<times> net) option" where
  "succ_switch p w = do {
     let n = node_list p;
     if length (successor_list n) \<le> P2PM_MAX_ID_LEN then None
     else if successor_list n ! P2PM_MAX_ID_LEN \<noteq> nul then do {
       w \<leftarrow> zmq_disconnect SuccessorSocket (successor n) w;
       l \<leftarrow> store 0 (load (junk w) P2PM_MAX_ID_LEN (drop P2PM_MAX_ID_LEN (successor_list n))) (successor_list n);
       n \<leftarrow> p2pm_ni_fix_successor_list (n\<lparr>successor_list := l\<rparr>);
       succ \<leftarrow> store 0 (load (junk w) P2PM_MAX_ID_LEN (successor_list n)) (successor n);
       (_, w) \<leftarrow> connect_to SuccessorSocket succ w;
       Some (p\<lparr>node_list := n\<lparr>successor := succ\<rparr>,
               successor_socket_expected_actions := P2PM_XPV_PING_AND_STABILIZE_REQ\<rparr>, w) }
     else Some (p\<lparr>server_triggered_actions := P2PM_XPV_STABILIZE_FIND_HEAD,
                  current_status := P2PM_FINDING_HEAD,
                  successor_socket_expected_actions := P2PM_NO_XPV\<rparr>, w) }"

text \<open>The switch after a timeout; its first case falls through into the second.\<close>

definition succ_timeout :: "p2pm \<Rightarrow> net \<Rightarrow> (p2pm \<times> net) option" where
  "succ_timeout p w =
     (let ping = (\<lambda>p w. let w = send_req SuccessorSocket P2PM_PING_REQ False w; (t, w) = zclock_mono w
                        in (p\<lparr>successor_lastpoll_time := t\<rparr>, w));
          ping2 = (\<lambda>(p, w). let (p, w) = ping p w
                            in (p\<lparr>successor_socket_expected_actions := P2PM_XPV_PING_AND_STABILIZE_REQ2\<rparr>, w))
      in case successor_socket_expected_actions p of
           P2PM_XPV_PING_AND_STABILIZE_REQ \<Rightarrow> Some (ping2 (ping p w))
         | P2PM_XPV_PING_AND_STABILIZE_REQ1 \<Rightarrow> Some (ping2 (p, w))
         | P2PM_XPV_PING_AND_STABILIZE_REQ2 \<Rightarrow> succ_switch p w
         | P2PM_XPV_STABILIZE_FAILURE \<Rightarrow> succ_switch p w
         | _ \<Rightarrow> Some (p, w))"

definition succ_start :: "p2pm \<Rightarrow> net \<Rightarrow> p2pm \<times> net" where
  "succ_start p w =
     (let (t1, w) = zclock_mono w; (t2, w) = zclock_mono w
      in (p\<lparr>last_stabilize_time := t1, successor_lastpoll_time := t2,
            successor_socket_expected_actions := P2PM_XPV_PING_AND_STABILIZE_REQ,
            server_triggered_actions := P2PM_NO_XPV\<rparr>,
          send_req SuccessorSocket P2PM_PING_REQ False w))"

text \<open>A buffer of a token is sent with the length of the token; past the end of the block is junk.\<close>

definition send_buf :: "sock \<Rightarrow> cptr \<Rightarrow> nat \<Rightarrow> bool \<Rightarrow> net \<Rightarrow> net option" where
  "send_buf s b len mo w = do {
     d \<leftarrow> block b;
     Some (snd (zmq_send s (load (junk w) len d) mo w)) }"

definition forward_token :: "p2pm \<Rightarrow> net \<Rightarrow> (p2pm \<times> net) option" where
  "forward_token p w = do {
     let (t, w) = zclock_mono w;
     let tk = send_token p;
     let w = send_req SuccessorSocket P2PM_TOKEN True w;
     let w = send_u32 SuccessorSocket (tk_id tk) True w;
     let w = send_u32 SuccessorSocket (word_of_int (tk_ttl tk)) True w;
     let w = snd (p2pm_send_uint64 SuccessorSocket (word_of_nat (tk_len1 tk)) True w);
     let w = snd (p2pm_send_uint64 SuccessorSocket (word_of_nat (tk_len2 tk)) True w);
     w \<leftarrow> send_buf SuccessorSocket (tk_buf1 tk) (tk_len1 tk) True w;
     w \<leftarrow> send_buf SuccessorSocket (tk_buf2 tk) (tk_len2 tk) False w;
     b1 \<leftarrow> cfree (tk_buf1 tk);
     b2 \<leftarrow> cfree (tk_buf2 tk);
     Some (p\<lparr>successor_lastpoll_time := t, send_has_token := False,
             send_token := tk\<lparr>tk_id := 0, tk_ttl := 0, tk_buf1 := b1, tk_buf2 := b2\<rparr>\<rparr>, w) }"

definition succ_machine :: "polled \<Rightarrow> p2pm \<Rightarrow> net \<Rightarrow> (p2pm \<times> net) option" where
  "succ_machine ev p w =
     (if pl_successor ev then do {
        let (t, w) = zclock_mono w;
        let p = p\<lparr>successor_lastpoll_time := t\<rparr>;
        (v, w) \<leftarrow> recv_retry (Suc (length (rx w SuccessorSocket))) SuccessorSocket (uninit32 w) w;
        succ_reply v p w }
      else
        (let (t, w) = zclock_mono w
         in if (t - successor_lastpoll_time p \<ge> uint (recv_wait (config p)) \<and>
                successor_socket_expected_actions p \<noteq> P2PM_NO_XPV) \<or>
               successor_socket_expected_actions p = P2PM_XPV_STABILIZE_FAILURE
            then (let (t, w) = zclock_mono w in succ_timeout (p\<lparr>successor_lastpoll_time := t\<rparr>) w)
            else if server_triggered_actions p = P2PM_XPV_TRIGGER_STABILIZE then Some (succ_start p w)
            else (let (t, w) = zclock_mono w
                  in if t - successor_lastpoll_time p \<ge> uint (recv_wait (config p))
                     then (let (t, w) = zclock_mono w in Some (p\<lparr>successor_lastpoll_time := t\<rparr>, w))
                     else Some (p, w))))"

definition successor_socket_handler :: "polled \<Rightarrow> p2pm \<Rightarrow> net \<Rightarrow> handled_req" where
  "successor_socket_handler ev p w = do {
     (p, w) \<leftarrow> succ_machine ev p w;
     (p, w) \<leftarrow> (if send_has_token p then forward_token p w else Some (p, w));
     Some (P2PM_OP_SUCCESS, p, w) }"

section \<open>The predecessor socket\<close>

text \<open>\<open>SYNC_SLIST\<close> with its time to live, to the predecessor.\<close>

definition send_sync :: "u32 \<Rightarrow> p2pm \<Rightarrow> net \<Rightarrow> net" where
  "send_sync ttl p w =
     (let w = send_req PredecessorSocket P2PM_SYNC_SLIST True w;
          w = send_u32 PredecessorSocket ttl True w;
          w = send_u32 PredecessorSocket (ni_r (node_list p)) True w
      in send_slist PredecessorSocket p w)"

definition pred_pong :: "p2pm \<Rightarrow> net \<Rightarrow> p2pm \<times> net" where
  "pred_pong p w = (case predecessor_triggered_actions p of
       P2PM_XPV_STABILIZE_FIND_HEAD_PINGED \<Rightarrow>
         (p\<lparr>predecessor_triggered_actions := P2PM_NO_XPV,
            predecessor_socket_expected_actions := P2PM_XPV_STABILIZE_FIND_HEAD,
            current_status := P2PM_FINDING_HEAD\<rparr>,
          send_req PredecessorSocket P2PM_FIND_HEAD False w)
     | P2PM_XPV_REPLICATE_BACKWARDS_PINGED \<Rightarrow>
         (p\<lparr>predecessor_triggered_actions := P2PM_NO_XPV,
            predecessor_socket_expected_actions := P2PM_XPV_REPLICATE_BACKWARDS\<rparr>,
          send_sync (r_max (node_list p)) p w)
     | P2PM_XPV_RELAY_BACKWARDS_PINGED \<Rightarrow>
         (p\<lparr>predecessor_triggered_actions := P2PM_NO_XPV, server_triggered_actions := P2PM_NO_XPV,
            predecessor_socket_expected_actions := P2PM_XPV_RELAY_BACKWARDS\<rparr>,
          send_sync (last_ttl p) p w)
     | _ \<Rightarrow>
         (p\<lparr>predecessor_socket_expected_actions := P2PM_NO_XPV, predecessor_triggered_actions := P2PM_NO_XPV\<rparr>, w))"

text \<open>A reply other than a pong to a ping falls through into the case of a finished replication.\<close>

definition pred_reply :: "u32 \<Rightarrow> p2pm \<Rightarrow> net \<Rightarrow> p2pm \<times> net" where
  "pred_reply v p w =
     (let x = predecessor_socket_expected_actions p;
          pinged = (x \<in> {P2PM_XPV_PRED_REP_PING1, P2PM_XPV_PRED_REP_PING2, P2PM_XPV_PRED_REP_PING3})
      in if pinged \<and> v = rep_code P2PM_PONG_REP then pred_pong p w
         else if pinged \<or> x = P2PM_XPV_RELAY_BACKWARDS \<or> x = P2PM_XPV_REPLICATE_BACKWARDS
         then (p\<lparr>predecessor_socket_expected_actions := P2PM_NO_XPV, server_triggered_actions := P2PM_NO_XPV\<rparr>, w)
         else (p, w))"

definition pred_trigger :: "p2pm \<Rightarrow> net \<Rightarrow> p2pm \<times> net" where
  "pred_trigger p w =
     (let p = (case server_triggered_actions p of
            P2PM_XPV_STABILIZE_FIND_HEAD \<Rightarrow> p\<lparr>predecessor_triggered_actions := P2PM_XPV_STABILIZE_FIND_HEAD_PINGED\<rparr>
          | P2PM_XPV_REPLICATE_BACKWARDS \<Rightarrow> p\<lparr>predecessor_triggered_actions := P2PM_XPV_REPLICATE_BACKWARDS_PINGED\<rparr>
          | P2PM_XPV_RELAY_BACKWARDS \<Rightarrow> p\<lparr>predecessor_triggered_actions := P2PM_XPV_RELAY_BACKWARDS_PINGED\<rparr>
          | _ \<Rightarrow> p);
          w = send_req PredecessorSocket P2PM_PING_REQ False w;
          (t, w) = zclock_mono w
      in (p\<lparr>server_triggered_actions := P2PM_NO_XPV,
            predecessor_socket_expected_actions := P2PM_XPV_PRED_REP_PING1,
            predecessor_lastpoll_time := t\<rparr>, w))"

definition pred_lost :: "p2pm \<Rightarrow> net \<Rightarrow> handled_req" where
  "pred_lost p w =
     (if current_status p = P2PM_NODE_MEMBER
      then Some (P2PM_OP_SUCCESS, p\<lparr>server_triggered_actions := P2PM_XPV_STABILIZE_FIND_HEAD,
             predecessor_socket_expected_actions := P2PM_NO_XPV\<rparr>, w)
      else one_ring_failure (p\<lparr>predecessor_socket_expected_actions := P2PM_NO_XPV,
             server_triggered_actions := P2PM_NO_XPV, successor_socket_expected_actions := P2PM_NO_XPV,
             predecessor_triggered_actions := P2PM_NO_XPV\<rparr>) w)"

text \<open>
  The handler calls itself after a timeout of a replication. Its opcode is that of the call itself; the
  opcode of the inner call is dropped.
\<close>

partial_function (option) predecessor_socket_handler :: "polled \<Rightarrow> p2pm \<Rightarrow> net \<Rightarrow> handled_req" where
  "predecessor_socket_handler ev p w =
     (if pl_predecessor ev then
        (let (_, v, w) = p2pm_recv_uint32 PredecessorSocket (uninit32 w) w;
             (t, w) = zclock_mono w;
             (p, w) = pred_reply v (p\<lparr>predecessor_lastpoll_time := t\<rparr>) w
         in Some (P2PM_OP_SUCCESS, p, w))
      else
        (let wait = uint (recv_wait (config p)); (t, w) = zclock_mono w
         in if t - predecessor_lastpoll_time p > wait \<and> predecessor_socket_expected_actions p \<noteq> P2PM_NO_XPV
            then
              (let (t, w) = zclock_mono w; p = p\<lparr>predecessor_lastpoll_time := t\<rparr>;
                   x = predecessor_socket_expected_actions p
               in if x = P2PM_XPV_PRED_REP_PING1 then
                    (let (t, w) = zclock_mono w
                     in Some (P2PM_OP_SUCCESS, p\<lparr>predecessor_lastpoll_time := t,
                          predecessor_socket_expected_actions := P2PM_XPV_PRED_REP_PING2\<rparr>,
                        send_req PredecessorSocket P2PM_PING_REQ False w))
                  else if x = P2PM_XPV_PRED_REP_PING2 then
                    (let w = send_req PredecessorSocket P2PM_PING_REQ False w; (t, w) = zclock_mono w
                     in Some (P2PM_OP_SUCCESS, p\<lparr>predecessor_lastpoll_time := t,
                          predecessor_socket_expected_actions := P2PM_XPV_PRED_REP_PING3\<rparr>, w))
                  else if x = P2PM_XPV_PRED_REP_PING3 \<or> x = P2PM_XPV_PRED_FAILURE then pred_lost p w
                  else if x = P2PM_XPV_RELAY_BACKWARDS \<or> x = P2PM_XPV_REPLICATE_BACKWARDS then do {
                    (_, p, w) \<leftarrow> predecessor_socket_handler ev (p\<lparr>server_triggered_actions := x\<rparr>) w;
                    Some (P2PM_OP_SUCCESS, p, w) }
                  else Some (P2PM_OP_SUCCESS, p, w))
            else
              (let (t, w) = zclock_mono w
               in if t - predecessor_lastpoll_time p > wait \<and> predecessor_socket_expected_actions p = P2PM_NO_XPV
                  then (let (t, w) = zclock_mono w in Some (P2PM_OP_SUCCESS, p\<lparr>predecessor_lastpoll_time := t\<rparr>, w))
                  else if server_triggered_actions p \<in>
                    {P2PM_XPV_STABILIZE_FIND_HEAD, P2PM_XPV_REPLICATE_BACKWARDS, P2PM_XPV_RELAY_BACKWARDS}
                  then (let (p, w) = pred_trigger p w in Some (P2PM_OP_SUCCESS, p, w))
                  else Some (P2PM_OP_SUCCESS, p, w))))"

section \<open>The server loop\<close>

definition handle_request :: "u32 \<Rightarrow> p2pm \<Rightarrow> net \<Rightarrow> (p2pm \<times> net) option" where
  "handle_request code p w = do {
     (_, p, w) \<leftarrow>
       (if code = req_code P2PM_GET_REQ then GET_REQ_handler p w
        else if code = req_code P2PM_JOIN_REQ then JOIN_REQ_handler p w
        else if code = req_code P2PM_JOIN_CMT then JOIN_CMT_handler p w
        else if code = req_code P2PM_STABILIZE_NSYN_REQ then STABILIZE_NSYN_REQ_handler p w
        else if code = req_code P2PM_JOIN_ABRT then JOIN_ABRT_handler p w
        else if code = req_code P2PM_PRED_JOIN_CMT then PRED_JOIN_CMT_handler p w
        else if code = req_code P2PM_PRED_JOIN_ABRT then PRED_JOIN_ABRT_handler p w
        else if code = req_code P2PM_PING_REQ then PING_REQ_handler p w
        else if code = req_code P2PM_STABILIZE_REQ then STABILIZE_REQ_handler p w
        else if code = req_code P2PM_STABILIZE_SYN_REQ then STABILIZE_SYN_REQ_handler p w
        else if code = req_code P2PM_SYNC_SLIST then SYNC_SLIST_handler p w
        else if code = req_code P2PM_ONE_RING_JOIN_REQ then ONE_RING_JOIN_REQ_handler p w
        else if code = rep_code P2PM_TAIL_FOUND then TAIL_FOUND_handler p w
        else if code = rep_code P2PM_HEAD_FOUND then HEAD_FOUND_handler p w
        else if code = req_code P2PM_TOKEN then TOKEN_handler p w
        else Some (P2PM_OP_SUCCESS, p, w));
     Some (p, w) }"

definition serve_request :: "p2pm \<Rightarrow> net \<Rightarrow> (bool \<times> p2pm \<times> net) option" where
  "serve_request p w =
     (let (len, cid, w) = zmq_recv ServerSocket (clientid p) w
      in if len < 0 then Some (False, p, w)
         else (let p = p\<lparr>clientid := cid\<rparr>;
                   (_, code, w) = p2pm_recv_uint32 ServerSocket (uninit32 w) w
               in do { (p, w) \<leftarrow> handle_request code p w; Some (True, p, w) }))"

definition stabilize_timer :: "p2pm \<Rightarrow> net \<Rightarrow> p2pm \<times> net" where
  "stabilize_timer p w =
     (if current_status p = P2PM_NODE_MEMBER
      then (let (t, w) = zclock_mono w
            in if t - last_stabilize_time p > stabilize_interval (config p)
               then (p\<lparr>server_triggered_actions := P2PM_XPV_TRIGGER_STABILIZE,
                       current_status := P2PM_NODE_HANDLING_STABILIZE\<rparr>, w)
               else (p, w))
      else (p, w))"

definition p2pm_loop_server :: "polled \<Rightarrow> p2pm \<Rightarrow> net \<Rightarrow> handled_req" where
  "p2pm_loop_server ev p w = do {
     (ok, p, w) \<leftarrow> (if pl_server ev then serve_request p w else Some (True, p, w));
     if \<not> ok then Some (P2PM_OP_TRYAGAIN, p, w)
     else do {
       let (p, w) = stabilize_timer p w;
       (_, p, w) \<leftarrow> successor_socket_handler ev p w;
       (_, p, w) \<leftarrow> predecessor_socket_handler ev p w;
       Some (P2PM_OP_SUCCESS, p\<lparr>server_triggered_actions := P2PM_NO_XPV\<rparr>, w) } }"

end
