(* ===== verification/P2pActor.thy ===== *)
theory P2pActor
  imports P2pLoop
begin

text \<open>
  \<^verbatim>\<open>src/p2pmd/p2pmd_class.c\<close>, \<^verbatim>\<open>src/p2pmd/p2pmd_join_actor.c\<close> and \<^verbatim>\<open>src/p2pmd/p2pmd.c\<close>: creation of a
  node, the join protocol from the joining node's side, and the event loop of the actor that runs the
  node beside the tuple space daemon. Socket options, identities and sleeps have no effect on the state.
\<close>

section \<open>Creation and destruction\<close>

definition empty_token :: "net \<Rightarrow> generic_token" where
  "empty_token w = \<lparr>tk_id = 0, tk_ttl = 0, tk_buf1 = Null, tk_buf2 = Null,
     tk_len1 = le_nat (uninit w 8), tk_len2 = le_nat (uninit w 8)\<rparr>"

definition p2pm_create ::
  "string \<Rightarrow> p2pm_config \<Rightarrow> p2pm_node_info \<Rightarrow> p2pm_status \<Rightarrow> net \<Rightarrow> (p2pm \<times> net) option" where
  "p2pm_create ep cfg n st w = do {
     check (PSTRLEN ep \<le> P2PM_MAX_ID_LEN);
     let (t1, w) = zclock_mono w;
     let (t2, w) = zclock_mono w;
     let (t3, w) = zclock_mono w;
     Some (\<lparr>p2p_endpoint = ep, node_list = n, config = cfg, clientid = zeros P2PM_MAX_ID_LEN,
            predecessor_lastpoll_time = t3, successor_lastpoll_time = t2, last_stabilize_time = t1,
            current_status = st, predecessor_socket_expected_actions = P2PM_NO_XPV,
            successor_socket_expected_actions = P2PM_NO_XPV, server_triggered_actions = P2PM_NO_XPV,
            predecessor_triggered_actions = P2PM_NO_XPV, last_ttl = uninit32 w, send_has_token = False,
            recv_has_token = False, send_token = empty_token w, recv_token = empty_token w\<rparr>, w) }"

definition p2pm_destroy :: "net \<Rightarrow> net" where
  "p2pm_destroy w = emit (CloseSock SuccessorSocket) (emit (CloseSock PredecessorSocket) w)"

section \<open>Joining\<close>

text \<open>The targets \<open>predecessor_connected\<close> and \<open>successor_connected\<close>.\<close>

definition predecessor_connected :: "p2pm \<Rightarrow> net \<Rightarrow> handled_req" where
  "predecessor_connected p w = do {
     w \<leftarrow> zmq_disconnect PredecessorSocket (predecessor (node_list p)) w;
     Some (P2PM_OP_FAILURE, p, w) }"

definition successor_connected :: "p2pm \<Rightarrow> net \<Rightarrow> handled_req" where
  "successor_connected p w = do {
     let w = send_req PredecessorSocket P2PM_JOIN_ABRT False w;
     let w = send_req SuccessorSocket P2PM_PRED_JOIN_ABRT False w;
     w \<leftarrow> zmq_disconnect SuccessorSocket (successor (node_list p)) w;
     predecessor_connected p w }"

definition join_commit :: "p2pm \<Rightarrow> net \<Rightarrow> handled_req" where
  "join_commit p w =
     (let (live, w) = p2pm_try_live PredecessorSocket w
      in if live \<noteq> P2PM_OP_LIVE then successor_connected p w
         else
           (let w = send_req PredecessorSocket P2PM_JOIN_CMT True w;
                w = send_u32 PredecessorSocket (ni_r (node_list p)) True w;
                w = send_slist PredecessorSocket p w;
                (rt, st, w) = p2pm_recv_uint32 PredecessorSocket (uninit32 w) w
            in if rt \<noteq> P2PM_OP_SUCCESS then successor_connected p w
               else if st \<noteq> rep_code P2PM_JOIN_ACK2 then successor_connected p w
               else
                 (let (n, w) = p2pm_send_uint32 SuccessorSocket (req_code P2PM_PRED_JOIN_CMT) False w
                  in if n < 0 then successor_connected p w
                     else Some (P2PM_OP_SUCCESS, p\<lparr>current_status := P2PM_NODE_MEMBER\<rparr>, w))))"

definition join_successor :: "p2pm \<Rightarrow> net \<Rightarrow> handled_req" where
  "join_successor p w =
     (let (live, w) = p2pm_try_live SuccessorSocket w
      in if live \<noteq> P2PM_OP_LIVE then successor_connected p w
         else
           (let w = send_req SuccessorSocket P2PM_JOIN_REQ True w;
                (_, w) = p2pm_send_str SuccessorSocket (p2p_endpoint p) False w;
                (rt, st, w) = p2pm_recv_uint32 SuccessorSocket (uninit32 w) w
            in if rt \<noteq> P2PM_OP_SUCCESS then successor_connected p w
               else
                 (let p = p\<lparr>current_status := P2PM_NODE_APPENDAGE\<rparr>;
                      (rt, r, w) = p2pm_recv_uint32 SuccessorSocket (ni_r (node_list p)) w;
                      p = p\<lparr>node_list := (node_list p)\<lparr>ni_r := r\<rparr>\<rparr>
                  in if rt \<noteq> P2PM_OP_SUCCESS then successor_connected p w
                     else if r = 0 \<or> r > r_max (node_list p) then successor_connected p w
                     else
                       (let (len, buf, w) = zmq_recv SuccessorSocket (uninit w (shl8 (r_max (node_list p)))) w
                        in if len = -1 then successor_connected p w
                           else do {
                             (_, n) \<leftarrow> p2pm_ni_copy_successor_list (node_list p) buf r w;
                             join_commit (p\<lparr>node_list := n\<rparr>) w }))))"

definition p2pm_join :: "p2pm \<Rightarrow> net \<Rightarrow> handled_req" where
  "p2pm_join p w = do {
     check (current_status p = P2PM_NODE_JOINING);
     (_, w) \<leftarrow> connect_to PredecessorSocket (predecessor (node_list p)) w;
     let (live, w) = p2pm_try_live PredecessorSocket w;
     if live \<noteq> P2PM_OP_LIVE then predecessor_connected p w
     else do {
       let w = send_req PredecessorSocket P2PM_GET_REQ True w;
       let (_, w) = p2pm_send_str PredecessorSocket (p2p_endpoint p) False w;
       let (rt, st, w) = p2pm_recv_uint32 PredecessorSocket (uninit32 w) w;
       if rt \<noteq> P2PM_OP_SUCCESS then predecessor_connected p w
       else if st = rep_code P2PM_GET_CONTACTED_ONE_RING then p2pm_join_one_ring p w
       else if st = rep_code P2PM_GET_NACK then Some (P2PM_OP_NEED_ONE_RING, p, w)
       else if st \<noteq> rep_code P2PM_GET_ACK then predecessor_connected p w
       else do {
         (rt, buf, w) \<leftarrow> recv_strp PredecessorSocket Null w;
         if rt \<noteq> P2PM_OP_SUCCESS then do { _ \<leftarrow> cfree buf; predecessor_connected p w }
         else do {
           b \<leftarrow> block buf;
           let n = node_list p;
           succ \<leftarrow> store 0 (load (junk w) P2PM_MAX_ID_LEN b) (successor n);
           l \<leftarrow> store 0 (load (junk w) P2PM_MAX_ID_LEN b) (successor_list n);
           let p = p\<lparr>node_list := n\<lparr>successor := succ, successor_list := l\<rparr>\<rparr>;
           (r, w) \<leftarrow> connect_to SuccessorSocket succ w;
           if r = -1 then predecessor_connected p w else join_successor p w } } } }"

section \<open>The event loop\<close>

definition TSD_P2PMD_GET_SUCCESSOR_ENDPT :: nat where
  "TSD_P2PMD_GET_SUCCESSOR_ENDPT = 0x89"

definition TSD_P2PMD_GET_PREDECESSOR_ENDPT :: nat where
  "TSD_P2PMD_GET_PREDECESSOR_ENDPT = 0x90"

text \<open>What the tuple space daemon wrote on the pipe, and the result of one poll.\<close>

record pipe_msg =
  pm_type :: nat
  pm_token :: generic_token

record actor_poll =
  ap_failed :: bool
  ap_polled :: polled
  ap_pipe :: "pipe_msg option"

text \<open>A token received from the ring goes up the pipe and is forgotten.\<close>

definition deliver_token :: "p2pm \<Rightarrow> net \<Rightarrow> p2pm \<times> net" where
  "deliver_token p w =
     (if recv_has_token p
      then (p\<lparr>recv_token := \<lparr>tk_id = 0, tk_ttl = 0, tk_buf1 = Null, tk_buf2 = Null, tk_len1 = 0, tk_len2 = 0\<rparr>,
              recv_has_token := False\<rparr>, zmq_send_token ActorPipe (recv_token p) w)
      else (p, w))"

text \<open>
  The label \<open>_process_timeo\<close>: the server loop is run again, without a poll, while a timer is overdue.
\<close>

partial_function (option) process_timeo :: "polled \<Rightarrow> p2pm \<Rightarrow> net \<Rightarrow> (int \<times> p2pm \<times> net) option" where
  "process_timeo ev p w = do {
     (_, p, w) \<leftarrow> p2pm_loop_server ev p w;
     let (p, w) = deliver_token p w;
     let (at, w) = zclock_mono w;
     let a = stabilize_interval (config p) - (at - last_stabilize_time p);
     let b = uint (recv_wait (config p)) - (at - successor_lastpoll_time p);
     let c = uint (recv_wait (config p)) - (at - predecessor_lastpoll_time p);
     if a < 0 \<or> b < 0 \<or> c < 0 then process_timeo ev p w
     else Some ((if a \<le> b \<and> a \<le> c then a else if b \<le> a \<and> b \<le> c then b else c), p, w) }"

text \<open>One iteration: the timeout of the next poll, or \<open>None\<close> when the actor has ended.\<close>

definition actor_round :: "actor_poll \<Rightarrow> p2pm \<Rightarrow> net \<Rightarrow> (int option \<times> p2pm \<times> net) option" where
  "actor_round ap p w =
     (let done = Some (None, p, p2pm_destroy w);
          loop = (\<lambda>p w. do { (t, p, w) \<leftarrow> process_timeo (ap_polled ap) p w; Some (Some t, p, w) })
      in if ap_failed ap then done
         else case ap_pipe ap of
           None \<Rightarrow> loop p w
         | Some m \<Rightarrow>
             if pm_type m = TSD_P2PMD_GET_PREDECESSOR_ENDPT then do {
               a \<leftarrow> cstr (predecessor (node_list p));
               loop p (snd (zmq_send ActorPipe (c_bytes a) False w)) }
             else if pm_type m = TSD_P2PMD_GET_SUCCESSOR_ENDPT then do {
               a \<leftarrow> cstr (successor (node_list p));
               loop p (snd (zmq_send ActorPipe (c_bytes a) False w)) }
             else if pm_type m = TSD_P2PMD_SEND_TOKEN
             then loop (p\<lparr>send_has_token := True, send_token := pm_token m\<rparr>) w
             else done)"

fun actor_rounds :: "actor_poll list \<Rightarrow> p2pm \<Rightarrow> net \<Rightarrow> (bool \<times> p2pm \<times> net) option" where
  "actor_rounds [] p w = Some (True, p, w)"
| "actor_rounds (ap # aps) p w = do {
     (t, p, w) \<leftarrow> actor_round ap p w;
     if t = None then Some (False, p, w) else actor_rounds aps p w }"

definition p2pmd_actor ::
  "string \<Rightarrow> p2pm_config \<Rightarrow> p2pm_node_info \<Rightarrow> p2pm_status \<Rightarrow> actor_poll list \<Rightarrow> net \<Rightarrow>
   (bool \<times> p2pm \<times> net) option" where
  "p2pmd_actor ep cfg n st aps w = do {
     (p, w) \<leftarrow> p2pm_create ep cfg n st w;
     (ok, p, w) \<leftarrow> (if st = P2PM_NODE_MEMBER then do {
         (_, w) \<leftarrow> connect_to PredecessorSocket (predecessor (node_list p)) w;
         (_, w) \<leftarrow> connect_to SuccessorSocket (successor (node_list p)) w;
         Some (True, p, w) }
       else do {
         (jr, p, w) \<leftarrow> p2pm_join p w;
         Some (jr = P2PM_OP_SUCCESS, p, w) });
     if \<not> ok then Some (False, p, p2pm_destroy w)
     else do {
       let (t1, w) = zclock_mono w;
       let (t2, w) = zclock_mono w;
       let (t3, w) = zclock_mono w;
       actor_rounds aps (p\<lparr>successor_lastpoll_time := t1, predecessor_lastpoll_time := t2,
         last_stabilize_time := t3\<rparr>) w } }"

end
