(* ===== verification/P2pInv.thy ===== *)
theory P2pInv
  imports P2pActor
begin

text \<open>
  The invariant of a ring node: its blocks keep their sizes through every request, both socket state
  machines, the server loop, the join and the event loop, and capacity, endpoint and configuration do
  not change.
\<close>

definition p2p_ok :: "p2pm \<Rightarrow> bool" where
  "p2p_ok p \<longleftrightarrow> ni_wf (node_list p) \<and> length (clientid p) = P2PM_MAX_ID_LEN \<and> PSTRLEN (p2p_endpoint p) \<le> P2PM_MAX_ID_LEN"

definition kept :: "p2pm \<Rightarrow> p2pm \<Rightarrow> bool" where
  "kept p p' \<longleftrightarrow> (p2p_ok p \<longrightarrow> p2p_ok p' \<and> r_max (node_list p') = r_max (node_list p) \<and>
     p2p_endpoint p' = p2p_endpoint p \<and> config p' = config p)"

lemma kept_refl [simp]: "kept p p"
  by (simp add: kept_def)

lemma kept_trans: "kept p q \<Longrightarrow> kept q r \<Longrightarrow> kept p r"
  by (auto simp: kept_def)

lemma keptI:
  "(ni_wf (node_list p) \<Longrightarrow> ni_wf (node_list p') \<and> r_max (node_list p') = r_max (node_list p)) \<Longrightarrow>
   (length (clientid p) = P2PM_MAX_ID_LEN \<Longrightarrow> length (clientid p') = P2PM_MAX_ID_LEN) \<Longrightarrow>
   p2p_endpoint p' = p2p_endpoint p \<Longrightarrow> config p' = config p \<Longrightarrow> kept p p'"
  by (auto simp: kept_def p2p_ok_def)

lemma kept_frame [simp]:
  "kept p (q\<lparr>current_status := st\<rparr>) = kept p q"
  "kept p (q\<lparr>predecessor_lastpoll_time := t\<rparr>) = kept p q"
  "kept p (q\<lparr>successor_lastpoll_time := t\<rparr>) = kept p q"
  "kept p (q\<lparr>last_stabilize_time := t\<rparr>) = kept p q"
  "kept p (q\<lparr>predecessor_socket_expected_actions := x\<rparr>) = kept p q"
  "kept p (q\<lparr>successor_socket_expected_actions := x\<rparr>) = kept p q"
  "kept p (q\<lparr>server_triggered_actions := x\<rparr>) = kept p q"
  "kept p (q\<lparr>predecessor_triggered_actions := x\<rparr>) = kept p q"
  "kept p (q\<lparr>last_ttl := u\<rparr>) = kept p q"
  "kept p (q\<lparr>send_has_token := b\<rparr>) = kept p q" "kept p (q\<lparr>recv_has_token := b\<rparr>) = kept p q"
  "kept p (q\<lparr>send_token := tk\<rparr>) = kept p q" "kept p (q\<lparr>recv_token := tk\<rparr>) = kept p q"
  by (simp_all add: kept_def p2p_ok_def)

lemma kept_node:
  "clientid q = clientid p \<Longrightarrow> p2p_endpoint q = p2p_endpoint p \<Longrightarrow> config q = config p \<Longrightarrow>
   (ni_wf (node_list p) \<Longrightarrow> ni_wf n \<and> r_max n = r_max (node_list p)) \<Longrightarrow> kept p (q\<lparr>node_list := n\<rparr>)"
  by (auto simp: kept_def p2p_ok_def)

lemma kept_if [simp]: "kept p (if b then q else r) \<longleftrightarrow> (if b then kept p q else kept p r)"
  by simp

section \<open>The request handlers\<close>

lemma ni_wf_update:
  "ni_wf n \<Longrightarrow> length s = length (successor n) \<Longrightarrow> ni_wf (n\<lparr>successor := s\<rparr>)"
  "ni_wf n \<Longrightarrow> length s = length (predecessor n) \<Longrightarrow> ni_wf (n\<lparr>predecessor := s\<rparr>)"
  "ni_wf n \<Longrightarrow> length s = length (temp_successor n) \<Longrightarrow> ni_wf (n\<lparr>temp_successor := s\<rparr>)"
  "ni_wf n \<Longrightarrow> length s = length (temp_predecessor n) \<Longrightarrow> ni_wf (n\<lparr>temp_predecessor := s\<rparr>)"
  "ni_wf n \<Longrightarrow> length s = length (successor_list n) \<Longrightarrow> ni_wf (n\<lparr>successor_list := s\<rparr>)"
  "ni_wf n \<Longrightarrow> ni_wf (n\<lparr>ni_r := r\<rparr>)"
  by (auto simp: ni_wf_def)


lemmas wlp_calls = wlp_def [of "cstr b" for b] wlp_def [of "deref b" for b] wlp_def [of "block b" for b]
  wlp_def [of "recv_strp s old w" for s old w] wlp_def [of "send_client p mo w" for p mo w]
  wlp_def [of "zmq_disconnect s a w" for s a w] wlp_def [of "connect_to s a w" for s a w]
  wlp_def [of "cfree b" for b]

text \<open>What the calls on the successor list and the calls between handlers guarantee.\<close>

lemma wlp_copy_list:
  "ni_wf n \<Longrightarrow> wlp (p2pm_ni_copy_successor_list n src nr w) (\<lambda>(r, n'). ni_wf n' \<and> r_max n' = r_max n)"
  using copy_successor_list_wf by (auto simp: wlp_def)

lemma wlp_set_neighbours:
  "ni_wf n \<Longrightarrow> wlp (p2pm_ni_set_successor n s) (\<lambda>(r, n'). ni_wf n' \<and> r_max n' = r_max n)"
  "ni_wf n \<Longrightarrow> wlp (p2pm_ni_set_predecessor n s) (\<lambda>(r, n'). ni_wf n' \<and> r_max n' = r_max n)"
  by (auto simp: p2pm_ni_set_successor_def p2pm_ni_set_predecessor_def wlp_simps ni_wf_update length_overwrite)

lemmas handler_simps = wlp_simps wlp_calls Let_def split_beta ni_wf_update length_overwrite

abbreviation keeps :: "p2pm \<Rightarrow> ('a \<times> p2pm \<times> net) option \<Rightarrow> bool" where
  "keeps p m \<equiv> wlp m (\<lambda>x. kept p (fst (snd x)))"

lemma keepsI: "(p2p_ok p \<Longrightarrow> keeps p m) \<Longrightarrow> keeps p m"
  by (cases "p2p_ok p") (simp, simp add: wlp_def kept_def)

lemma keeps_trans: "kept p q \<Longrightarrow> keeps q m \<Longrightarrow> keeps p m"
  by (auto simp: wlp_def intro: kept_trans)

lemma p2p_ok_ni: "p2p_ok p \<Longrightarrow> ni_wf (node_list p)"
  by (simp add: p2p_ok_def)

lemma one_ring_kept:
  "keeps p (p2pm_form_one_ring p w)" "keeps p (one_ring_failure p w)"
  by ((auto simp: one_ring_failure_def p2pm_form_one_ring_def handler_simps intro!: kept_node)[1])+

lemma simple_handlers_kept:
  "keeps p (GET_REQ_handler p w)"
  "keeps p (JOIN_REQ_handler p w)"
  "keeps p (JOIN_ABRT_handler p w)"
  "keeps p (PRED_JOIN_CMT_handler p w)"
  "keeps p (PRED_JOIN_ABRT_handler p w)"
  "keeps p (PING_REQ_handler p w)"
  "keeps p (STABILIZE_REQ_handler p w)"
  "keeps p (STABILIZE_SYN_REQ_handler p w)"
  "keeps p (STABILIZE_NSYN_REQ_handler p w)"
  "keeps p (TOKEN_handler p w)"
  by ((auto simp: GET_REQ_handler_def JOIN_REQ_handler_def JOIN_ABRT_handler_def PRED_JOIN_CMT_handler_def PRED_JOIN_ABRT_handler_def
      PING_REQ_handler_def STABILIZE_REQ_handler_def STABILIZE_SYN_REQ_handler_def STABILIZE_NSYN_REQ_handler_def TOKEN_handler_def
      handler_simps intro!: kept_node)[1])+

lemma list_handlers_kept:
  "keeps p (SYNC_SLIST_handler p w)" "keeps p (JOIN_CMT_handler p w)"
  by ((rule keepsI, auto simp: SYNC_SLIST_handler_def JOIN_CMT_handler_def join_cmt_trigger_def handler_simps dest!: p2p_ok_ni
      intro!: kept_node wlp_mono [OF wlp_copy_list])[1])+

lemma ring_handlers_kept:
  "keeps p (ONE_RING_JOIN_REQ_handler p w)" "keeps p (TAIL_FOUND_handler p w)" "keeps p (HEAD_FOUND_handler p w)"
  by ((rule keepsI, auto simp: ONE_RING_JOIN_REQ_handler_def TAIL_FOUND_handler_def HEAD_FOUND_handler_def
      handler_simps one_ring_kept dest!: p2p_ok_ni intro!: kept_node wlp_mono [OF wlp_set_neighbours(1)]
      wlp_mono [OF wlp_set_neighbours(2)])[1])+

lemma handle_request_kept: "wlp (handle_request code p w) (\<lambda>x. kept p (fst x))"
  using simple_handlers_kept list_handlers_kept ring_handlers_kept
  by (auto simp: handle_request_def wlp_simps split_beta)

section \<open>The state machines\<close>

lemma wlp_fix_list:
  "ni_wf n \<Longrightarrow> wlp (p2pm_ni_fix_successor_list n) (\<lambda>n'. ni_wf n' \<and> r_max n' = r_max n)"
  by (simp add: p2pm_ni_fix_successor_list_def condense_eq wlp_simps ni_wf_condensed)

lemma succ_switch_kept: "wlp (succ_switch p w) (\<lambda>x. kept p (fst x))"
proof (cases "p2p_ok p")
  case True
  then show ?thesis
    by (auto simp: succ_switch_def handler_simps dest!: p2p_ok_ni intro!: kept_node wlp_mono [OF wlp_fix_list])
qed (simp add: wlp_def kept_def)

lemma succ_ack_kept: "wlp (succ_stabilize_ack v p w) (\<lambda>x. kept p (fst x))"
proof (cases "p2p_ok p")
  case True
  then show ?thesis
    by (auto simp: succ_stabilize_ack_def succ_ack_failure_def handler_simps wlp_def [of "skip_pongs k s v w" for k s v w]
        dest!: p2p_ok_ni intro!: kept_node wlp_mono [OF wlp_copy_list])
qed (simp add: wlp_def kept_def)

lemma succ_reply_kept: "wlp (succ_reply v p w) (\<lambda>x. kept p (fst x))"
  by (auto simp: succ_reply_def wlp_simps succ_ack_kept Let_def split_beta split: p2pm_expected_actions.split)

lemma succ_timeout_kept: "wlp (succ_timeout p w) (\<lambda>x. kept p (fst x))"
  by (auto simp: succ_timeout_def wlp_simps succ_switch_kept Let_def split_beta split: p2pm_expected_actions.split)

lemma keeps2_trans: "kept p q \<Longrightarrow> wlp m (\<lambda>x. kept q (fst x)) \<Longrightarrow> wlp m (\<lambda>x. kept p (fst x))"
  by (erule wlp_mono) (rule kept_trans)

lemma succ_machine_kept: "wlp (succ_machine ev p w) (\<lambda>x. kept p (fst x))"
  by (auto simp: succ_machine_def succ_start_def wlp_simps Let_def split_beta wlp_def [of "recv_retry k s v w" for k s v w]
      intro: keeps2_trans [OF _ succ_reply_kept] keeps2_trans [OF _ succ_timeout_kept])

lemma forward_token_kept: "wlp (forward_token p w) (\<lambda>x. kept p (fst x))"
  by (auto simp: forward_token_def send_buf_def handler_simps)

lemma successor_socket_kept: "keeps p (successor_socket_handler ev p w)"
  by (auto simp: successor_socket_handler_def wlp_simps split_beta intro!: wlp_mono [OF succ_machine_kept]
      intro: keeps2_trans [OF _ forward_token_kept])

lemma pred_pong_kept: "kept p (fst (pred_pong p w))" "kept p (fst (pred_reply v p w))" "kept p (fst (pred_trigger p w))"
  by (auto simp: pred_pong_def pred_reply_def pred_trigger_def Let_def split_beta split: p2pm_expected_actions.split)

lemma pred_lost_kept: "keeps p (pred_lost p w)"
  by (auto simp: pred_lost_def wlp_simps intro: keeps_trans [OF _ one_ring_kept(2)])

text \<open>The recursive call is on a node that differs in fields the invariant does not read.\<close>

lemma predecessor_socket_kept: "keeps p (predecessor_socket_handler ev p w)"
proof -
  have "kept p (fst (snd y))" if "predecessor_socket_handler ev p w = Some y" for y
  proof (rule predecessor_socket_handler.raw_induct [where P = "\<lambda>ev p w y. kept p (fst (snd y))", OF _ that],
      goal_cases)
    case (1 rec ev p w y)
    have rec: "keeps p (rec ev q w')" if "kept p q" for q w'
      using that by (rule keeps_trans) (simp add: wlp_def 1(1))
    show ?case
      by (rule wlpD [OF _ 1(2), where P = "\<lambda>x. kept p (fst (snd x))"])
        (auto simp: wlp_simps Let_def split_beta pred_pong_kept intro: keeps_trans [OF _ pred_lost_kept] rec
          kept_trans [OF _ pred_pong_kept(2)])
  qed
  then show ?thesis by (simp add: wlp_def)
qed

section \<open>The loops\<close>

lemma wlp_after: "keeps q m \<Longrightarrow> kept p q \<Longrightarrow> (\<And>r q' w'. kept p q' \<Longrightarrow> Q (r, q', w')) \<Longrightarrow> wlp m Q"
  by (auto simp: wlp_def dest: kept_trans)

lemma serve_request_kept: "keeps p (serve_request p w)"
proof -
  have c: "kept p (p\<lparr>clientid := buf'\<rparr>)" if "zmq_recv s (clientid p) w = (n, buf', w')" for s n buf' w'
    using that zmq_recv_length [of s "clientid p" w n buf' w'] by (auto simp: kept_def p2p_ok_def)
  show ?thesis
    by (auto simp: serve_request_def wlp_simps Let_def split: prod.split
        intro!: wlp_mono [OF handle_request_kept] elim!: kept_trans [OF c])
qed

lemma stabilize_timer_kept: "kept p q \<Longrightarrow> kept p (fst (stabilize_timer q w))"
  by (auto simp: stabilize_timer_def Let_def split_beta)

lemma loop_server_kept: "keeps p (p2pm_loop_server ev p w)"
  by (auto simp: p2pm_loop_server_def wlp_simps Let_def split_beta stabilize_timer_kept
      intro!: wlp_mono [OF serve_request_kept] wlp_after [OF successor_socket_kept]
        wlp_after [OF predecessor_socket_kept])

lemma deliver_token_kept: "kept p (fst (deliver_token p w))"
  by (simp add: deliver_token_def)

lemma process_timeo_kept: "keeps p (process_timeo ev p w)"
proof -
  have "kept p (fst (snd y))" if "process_timeo ev p w = Some y" for y
  proof (rule process_timeo.raw_induct [where P = "\<lambda>ev p w y. kept p (fst (snd y))", OF _ that], goal_cases)
    case (1 rec ev p w y)
    have rec: "wlp (rec ev q w') (\<lambda>x. kept p (fst (snd x)))" if "kept p q" for q w'
      using that 1(1) by (auto simp: wlp_def intro: kept_trans)
    show ?case
      by (rule wlpD [OF _ 1(2), where P = "\<lambda>x. kept p (fst (snd x))"])
        (auto simp: wlp_simps Let_def split_beta intro!: wlp_after [OF loop_server_kept] rec
          intro: kept_trans [OF _ deliver_token_kept])
  qed
  then show ?thesis by (simp add: wlp_def)
qed

lemma actor_round_kept: "keeps p (actor_round ap p w)"
proof -
  have t: "wlp (process_timeo ev q w) (\<lambda>x. kept p (fst (snd x)))" if "kept p q" for ev q w
    using that process_timeo_kept [of ev q w] by (auto simp: wlp_def intro: kept_trans)
  show ?thesis
    by (auto simp: actor_round_def Let_def wlp_simps split_beta wlp_calls t split: option.split)
qed

lemma actor_rounds_kept: "keeps p (actor_rounds aps p w)"
proof (induction aps arbitrary: p w)
  case Nil
  then show ?case by (simp add: wlp_simps)
next
  case (Cons ap aps)
  have "wlp (actor_rounds aps q w) (\<lambda>x. kept p (fst (snd x)))" if "kept p q" for q w
    using Cons.IH [of q w] by (rule wlp_mono) (rule kept_trans [OF that])
  then show ?case by (auto simp: wlp_simps split_beta intro!: wlp_mono [OF actor_round_kept])
qed

section \<open>Joining, and the whole actor\<close>

lemma join_ends_kept: "keeps p (predecessor_connected p w)" "keeps p (successor_connected p w)"
  by (simp_all add: predecessor_connected_def successor_connected_def wlp_simps wlp_calls Let_def)

lemma join_one_ring_kept: "keeps p (p2pm_join_one_ring p w)"
  by (auto simp: p2pm_join_one_ring_def handler_simps intro!: kept_node)

lemma join_commit_kept: "keeps p (join_commit p w)"
  by (auto simp: join_commit_def wlp_simps Let_def split_beta join_ends_kept)

lemma join_successor_kept: "keeps p (join_successor p w)"
proof (rule keepsI)
  assume "p2p_ok p"
  then have n: "ni_wf (node_list p)" by (rule p2p_ok_ni)
  let ?q = "\<lambda>r. p\<lparr>current_status := P2PM_NODE_APPENDAGE, node_list := (node_list p)\<lparr>ni_r := r\<rparr>\<rparr>"
  have q: "kept p (?q r)" for r using n by (auto intro!: kept_node simp: ni_wf_update)
  have c: "kept p (p\<lparr>current_status := P2PM_NODE_APPENDAGE, node_list := n'\<rparr>)"
    if "ni_wf n' \<and> r_max n' = r_max (node_list p)" for n'
    using that by (auto intro!: kept_node)
  show "keeps p (join_successor p w)"
    using n by (auto simp: join_successor_def wlp_simps Let_def split_beta join_ends_kept ni_wf_update
        intro!: wlp_mono [OF wlp_copy_list] keeps_trans [OF q join_ends_kept(2)]
          keeps_trans [OF c join_commit_kept])
qed

lemma join_kept: "keeps p (p2pm_join p w)"
proof (rule keepsI)
  assume "p2p_ok p"
  then have n: "ni_wf (node_list p)" by (rule p2p_ok_ni)
  have c: "kept p (p\<lparr>node_list := n'\<rparr>)" if "ni_wf n' \<and> r_max n' = r_max (node_list p)" for n'
    using that by (auto intro!: kept_node)
  show "keeps p (p2pm_join p w)"
    using n by (auto simp: p2pm_join_def handler_simps join_ends_kept join_one_ring_kept
        intro!: keeps_trans [OF c join_ends_kept(1)] keeps_trans [OF c join_successor_kept])
qed

definition node_of :: "string \<Rightarrow> p2pm_config \<Rightarrow> u32 \<Rightarrow> p2pm \<Rightarrow> bool" where
  "node_of ep cfg k p \<longleftrightarrow> p2p_ok p \<and> r_max (node_list p) = k \<and> p2p_endpoint p = ep \<and> config p = cfg"

lemma node_of_kept: "keeps q m \<Longrightarrow> node_of ep cfg k q \<Longrightarrow> wlp m (\<lambda>x. node_of ep cfg k (fst (snd x)))"
  by (erule wlp_mono) (simp add: node_of_def kept_def)

lemma actor_ok:
  assumes "ni_wf n" and "p2pmd_actor ep cfg n st aps w = Some (alive, p, w')"
  shows "node_of ep cfg (r_max n) p"
proof -
  have cr: "wlp (p2pm_create ep cfg n st w) (\<lambda>x. node_of ep cfg (r_max n) (fst x))"
    using assms(1) by (auto simp: p2pm_create_def wlp_simps Let_def split_beta p2p_ok_def node_of_def)
  have upd: "node_of ep cfg (r_max n)
      (q\<lparr>successor_lastpoll_time := t1, predecessor_lastpoll_time := t2, last_stabilize_time := t3\<rparr>)"
    if "node_of ep cfg (r_max n) q" for q t1 t2 t3 using that by (auto simp: p2p_ok_def node_of_def)
  have "wlp (p2pmd_actor ep cfg n st aps w) (\<lambda>x. node_of ep cfg (r_max n) (fst (snd x)))"
    unfolding p2pmd_actor_def wlp_simps
    by (rule wlp_mono [OF cr]) (auto simp: wlp_simps Let_def split_beta wlp_calls
        intro!: node_of_kept [OF actor_rounds_kept] upd wlp_mono [OF node_of_kept [OF join_kept]])
  from wlpD [OF this assms(2)] show ?thesis by simp
qed

end
