(* ===== verification/P2pRing.thy ===== *)
theory P2pRing
  imports P2pInv
begin

text \<open>
  What the protocol of the ring does on a network that delivers: the two sides of a join, the race of
  two joins, stabilisation, replication of the successor list and its time to live.
\<close>

section \<open>Sends and receives of a node\<close>

lemma send_client_ok: "send_ok w = [] \<Longrightarrow> cstr (clientid p) = Some c \<Longrightarrow>
    send_client p mo w = Some (out [Tx ServerSocket c mo] w)"
  by (simp add: send_client_def)

lemma send_code_ok [simp]:
  "send_ok w = [] \<Longrightarrow> send_rep r mo w = out [Tx ServerSocket (be32 (rep_code r)) mo] w"
  "send_ok w = [] \<Longrightarrow> send_req s q mo w = out [Tx s (be32 (req_code q)) mo] w"
  by (simp_all add: send_rep_def send_req_def u32.send_emits emit_out)

definition slist_bytes :: "p2pm_node_info \<Rightarrow> net \<Rightarrow> bytes" where
  "slist_bytes n w = load (junk w) (shl8 (ni_r n)) (successor_list n)"

lemma send_slist_ok [simp]:
  "send_ok w = [] \<Longrightarrow> send_slist s p w = out [Tx s (slist_bytes (node_list p) w) False] w"
  by (simp add: send_slist_def slist_bytes_def)

lemma disconnect_ok: "cstr addr = Some a \<Longrightarrow> zmq_disconnect s addr w = Some (out [Disc s a] w)"
  by (simp add: zmq_disconnect_def emit_out)

lemma connect_ok: "conn_ok w = [] \<Longrightarrow> cstr addr = Some a \<Longrightarrow> connect_to s addr w = Some (0, out [Conn s a] w)"
  by (simp add: connect_to_def zmq_connect_ok emit_out)

lemma recv_str_frames:
  "fits_int str \<Longrightarrow> rx w s = str_frames str mo @ fs \<Longrightarrow>
   recv_strp s old w = Some (P2PM_OP_SUCCESS, Live (c_bytes str), took s fs mo w)"
  using p2pm_recv_str_ok [of str w s mo fs] by (simp add: recv_strp_def str_frames_def)

text \<open>An address as the program stores it: a C string that fits a block.\<close>

definition address :: "string \<Rightarrow> bool" where
  "address a \<longleftrightarrow> c_string a \<and> PSTRLEN a \<le> P2PM_MAX_ID_LEN"

lemma address_fits: "address a \<Longrightarrow> fits_int a" "address a \<Longrightarrow> c_string a"
  by (simp_all add: address_def P2PM_MAX_ID_LEN_def fits_int_def)

definition padded :: "net \<Rightarrow> string \<Rightarrow> bytes" where
  "padded w a = load (junk w) P2PM_MAX_ID_LEN (c_bytes a)"

lemma length_padded [simp]: "length (padded w a) = P2PM_MAX_ID_LEN"
  by (simp add: padded_def)

lemma cstr_padded_address [simp]: "address a \<Longrightarrow> cstr (padded w a) = Some a"
  by (simp add: padded_def address_def cstr_load)

lemma padded_out [simp]: "padded (out evs w) a = padded w a" "padded (took s fs mo w) a = padded w a"
  by (simp_all add: padded_def)

lemma overwrite_whole: "length buf = n \<Longrightarrow> length s = n \<Longrightarrow> overwrite 0 s buf = s"
  by (simp add: overwrite_def)

lemma ni_blocks:
  "ni_wf n \<Longrightarrow> length (successor n) = P2PM_MAX_ID_LEN" "ni_wf n \<Longrightarrow> length (predecessor n) = P2PM_MAX_ID_LEN"
  "ni_wf n \<Longrightarrow> length (temp_successor n) = P2PM_MAX_ID_LEN" "ni_wf n \<Longrightarrow> length (temp_predecessor n) = P2PM_MAX_ID_LEN"
  "ni_wf n \<Longrightarrow> P2PM_MAX_ID_LEN \<le> length (successor_list n)"
  using list_pos [of n] by (simp_all add: ni_wf_def P2PM_MAX_ID_LEN_def)

section \<open>A join, at the predecessor\<close>

text \<open>What a node answers to \<open>GET_REQ\<close>, by its state.\<close>

definition get_reply :: "p2pm \<Rightarrow> string \<Rightarrow> event list" where
  "get_reply p s =
     (if current_status p = P2PM_NODE_ONE_RING
      then [Tx ServerSocket (be32 (rep_code P2PM_GET_CONTACTED_ONE_RING)) False]
      else if current_status p = P2PM_NODE_MEMBER
      then Tx ServerSocket (be32 (rep_code P2PM_GET_ACK)) True # str_ev ServerSocket s False
      else [Tx ServerSocket (be32 (rep_code P2PM_GET_NACK)) False])"

lemma get_req_run:
  assumes "p2p_ok p" and "cstr (clientid p) = Some c" and "send_ok w = []" and "address a"
    and "rx w ServerSocket = str_frames a mo @ fs" and "cstr (successor (node_list p)) = Some s"
  shows "\<exists>r. GET_REQ_handler p w = Some (r,
      p\<lparr>node_list := (node_list p)\<lparr>temp_successor := padded w a\<rparr>,
        current_status := (if current_status p = P2PM_NODE_MEMBER then P2PM_NODE_HANDLING_JOIN else current_status p)\<rparr>,
      out (Tx ServerSocket c True # get_reply p s) (took ServerSocket fs mo w))"
proof -
  have n: "ni_wf (node_list p)" using assms(1) by (rule p2p_ok_ni)
  have st: "store 0 (padded w a) (temp_successor (node_list p)) = Some (padded w a)"
    using ni_blocks(3) [OF n] by (simp add: store_def overwrite_whole)
  have rs: "recv_strp ServerSocket (Live (zeros P2PM_MAX_ID_LEN)) (out [Tx ServerSocket c True] w) =
      Some (P2PM_OP_SUCCESS, Live (c_bytes a), out [Tx ServerSocket c True] (took ServerSocket fs mo w))"
    using recv_str_frames [OF address_fits(1) [OF assms(4)], of "out [Tx ServerSocket c True] w" ServerSocket mo fs] assms(5)
    by simp
  show ?thesis
    using assms(2,3,6) st
    by (simp add: GET_REQ_handler_def send_client_ok rs get_reply_def Let_def split_beta padded_def [symmetric])
qed

lemma zclock_simps [simp]:
  "tx (snd (zclock_mono w)) = tx w" "rx (snd (zclock_mono w)) = rx w" "send_ok (snd (zclock_mono w)) = send_ok w"
  "conn_ok (snd (zclock_mono w)) = conn_ok w" "junk (snd (zclock_mono w)) = junk w"
  by (simp_all add: zclock_mono_def split: list.split)

lemma zclock_frame [simp]: "fst (zclock_mono (out evs w)) = fst (zclock_mono w)" "fst (zclock_mono (took s fs mo w)) = fst (zclock_mono w)"
  by (simp_all add: zclock_mono_def split: list.split)

lemma cstr_prefix: "cstr l = Some f \<Longrightarrow> cstr (l @ rest) = Some f"
  by (auto simp: cstr_def takeWhile_append1 split: if_splits)

text \<open>A list as it arrives in a buffer that is large enough for it.\<close>

definition arrived :: "net \<Rightarrow> nat \<Rightarrow> bytes \<Rightarrow> bytes" where
  "arrived w k l = l @ drop (length l) (uninit w k)"

lemma recv_list:
  assumes "rx w s = RMsg l mo # fs" and "length l \<le> k"
  shows "zmq_recv s (uninit w k) w = (int (length l), arrived w k l, took s fs mo w)"
  using assms by (simp add: zmq_recv_Msg arrived_def took_def)

text \<open>A longer list is cut.\<close>

lemma recv_list_cut:
  assumes "rx w s = RMsg l mo # fs"
  shows "zmq_recv s (uninit w k) w = (int (length l), arrived w k (take k l), took s fs mo w)"
  using assms by (cases "length l \<le> k") (simp_all add: zmq_recv_Msg arrived_def took_def)

lemma arrived_out [simp]: "arrived (out evs w) k l = arrived w k l" "arrived (took s fs mo w) k l = arrived w k l"
  by (simp_all add: arrived_def uninit_def)

lemma slot_0: "length t = 256 \<Longrightarrow> slot (overwrite 0 t l) 0 = t"
  by (simp add: slot_def overwrite_def)

text \<open>What the commit of a join makes of the node list.\<close>

definition joined :: "net \<Rightarrow> bytes \<Rightarrow> u32 \<Rightarrow> p2pm_node_info \<Rightarrow> p2pm_node_info \<Rightarrow> bool" where
  "joined w l r n n' \<longleftrightarrow> ni_wf n' \<and> r_max n' = r_max n \<and> unat (ni_r n') = min (Suc (unat r)) (unat (r_max n)) \<and>
     successor n' = temp_successor n \<and> temp_successor n' = zeros P2PM_MAX_ID_LEN \<and>
     predecessor n' = predecessor n \<and> temp_predecessor n' = temp_predecessor n \<and>
     slot (successor_list n') 0 = temp_successor n \<and>
     (\<forall>j. 1 \<le> j \<and> j < unat (ni_r n') \<longrightarrow> slot (successor_list n') j =
        load (\<lambda>m. junk w ((j - 1) * 256 + m)) 256 (drop ((j - 1) * 256) (arrived w (unat (r_max n) * 256) l))) \<and>
     (\<forall>j < unat (r_max n). unat (ni_r n') \<le> j \<longrightarrow> slot (successor_list n') j = slot (successor_list n) j)"

lemma joined_exists:
  assumes "ni_wf n" and "cstr l = Some f" and "address f" and "unat r < 2 ^ 32 - 1"
  shows "\<exists>n'. p2pm_ni_copy_successor_list
      (n\<lparr>ni_r := r, successor := temp_successor n, successor_list := overwrite 0 (temp_successor n) (successor_list n),
         temp_successor := zeros P2PM_MAX_ID_LEN\<rparr>) (arrived w (unat (r_max n) * 256) l) r w
      = Some (P2PM_OP_SUCCESS, n') \<and> joined w l r n n'"
proof -
  let ?n = "n\<lparr>ni_r := r, successor := temp_successor n, successor_list := overwrite 0 (temp_successor n) (successor_list n),
         temp_successor := zeros P2PM_MAX_ID_LEN\<rparr>"
  note b = ni_blocks [OF assms(1)]
  have t: "length (temp_successor n) = 256" using b by (simp add: P2PM_MAX_ID_LEN_def)
  have wf: "ni_wf ?n" using assms(1) b by (simp add: ni_wf_def length_overwrite P2PM_MAX_ID_LEN_def)
  have f: "cstr (arrived w (unat (r_max n) * 256) l) = Some f" unfolding arrived_def by (rule cstr_prefix [OF assms(2)])
  have lf: "length f < 256" using assms(3) by (simp add: address_def P2PM_MAX_ID_LEN_def)
  have pos: "0 < unat (r_max n)" using assms(1) by (simp add: ni_wf_def)
  obtain n' where n': "p2pm_ni_copy_successor_list ?n (arrived w (unat (r_max n) * 256) l) r w = Some (P2PM_OP_SUCCESS, n')"
    "ni_wf n'" "unat (ni_r n') = min (Suc (unat r)) (unat (r_max n))"
    "n' = ?n\<lparr>ni_r := ni_r n', successor_list := successor_list n'\<rparr>"
    "\<forall>j < unat (r_max n). slot (successor_list n') j = (if 1 \<le> j \<and> j < unat (ni_r n')
        then load (\<lambda>m. junk w ((j - 1) * 256 + m)) 256 (drop ((j - 1) * 256) (arrived w (unat (r_max n) * 256) l))
        else slot (successor_list ?n) j)"
    using copy_successor_list_run [OF wf f lf assms(4), of w] by auto
  have f4: "successor n' = temp_successor n" "temp_successor n' = zeros P2PM_MAX_ID_LEN" "predecessor n' = predecessor n"
    "temp_predecessor n' = temp_predecessor n" "r_max n' = r_max n"
    by (subst n'(4), simp)+
  have "slot (successor_list n') 0 = temp_successor n"
    using n'(5) pos slot_0 [OF t, of "successor_list n"] by simp
  moreover have "slot (successor_list n') j = slot (successor_list n) j" if "j < unat (r_max n)" "unat (ni_r n') \<le> j" for j
  proof -
    have "j \<noteq> 0" using that n'(3) by auto
    moreover have "length (successor_list n) = unat (r_max n) * 256" using assms(1) by (simp add: ni_wf_def)
    from slot_overwrite [OF this pos t that(1)] calculation have "slot (successor_list ?n) j = slot (successor_list n) j" by simp
    ultimately show ?thesis using n'(5) that by simp
  qed
  ultimately show ?thesis using n' f4 by (intro exI [of _ n']) (auto simp: joined_def)
qed

lemma join_cmt_trigger_simps [simp]:
  "current_status (fst (join_cmt_trigger p w)) = current_status p"
  "node_list (fst (join_cmt_trigger p w)) = node_list p" "clientid (fst (join_cmt_trigger p w)) = clientid p"
  "tx (snd (join_cmt_trigger p w)) = tx w"
  by (simp_all add: join_cmt_trigger_def Let_def split_beta)

text \<open>The node has stabilised no longer ago than the interval.\<close>

definition stabilised :: "p2pm \<Rightarrow> net \<Rightarrow> bool" where
  "stabilised p w \<longleftrightarrow> fst (zclock_mono w) - last_stabilize_time p \<le> stabilize_interval (config p)"

lemma stabilised_frame [simp]:
  "stabilised p (out evs w) = stabilised p w" "stabilised p (took s fs mo w) = stabilised p w"
  "stabilised (p\<lparr>node_list := n\<rparr>) w = stabilised p w"
  by (simp_all add: stabilised_def)

lemma join_cmt_trigger_eq:
  "join_cmt_trigger p w = (p\<lparr>server_triggered_actions := (if current_status p = P2PM_NODE_MEMBER \<and> stabilised p w
      then P2PM_XPV_REPLICATE_BACKWARDS else server_triggered_actions p)\<rparr>,
    if current_status p = P2PM_NODE_MEMBER then snd (zclock_mono w) else w)"
  by (simp add: join_cmt_trigger_def stabilised_def Let_def split_beta)

lemma join_cmt_full:
  assumes "p2p_ok p" and "cstr (clientid p) = Some c" and "send_ok w = []" and "conn_ok w = []"
    and "rx w ServerSocket = RMsg (be32 r) True # RMsg l mo # fs" and "r \<noteq> 0" and "unat r < 2 ^ 32 - 1"
    and "cstr (take (unat (r_max (node_list p)) * 256) l) = Some f" and "address f"
    and "cstr (successor (node_list p)) = Some s" and "cstr (temp_successor (node_list p)) = Some a"
  shows "\<exists>n' w'. JOIN_CMT_handler p w = Some (P2PM_OP_SUCCESS, p\<lparr>node_list := n',
      server_triggered_actions := (if current_status p = P2PM_NODE_MEMBER \<and> stabilised p w then P2PM_XPV_REPLICATE_BACKWARDS
        else server_triggered_actions p),
      current_status := (if current_status p = P2PM_NODE_HANDLING_JOIN then P2PM_NODE_MEMBER else current_status p)\<rparr>, w') \<and>
    joined w (take (unat (r_max (node_list p)) * 256) l) r (node_list p) n' \<and> rx w' ServerSocket = fs \<and>
    tx w' = tx w @ [Tx ServerSocket c True, Tx ServerSocket (be32 (rep_code P2PM_JOIN_ACK2)) False,
      Disc SuccessorSocket s, Conn SuccessorSocket a]"
proof -
  let ?n = "node_list p" and ?k = "unat (r_max (node_list p)) * 256"
  have n: "ni_wf ?n" using assms(1) by (rule p2p_ok_ni)
  note b = ni_blocks [OF n]
  have sh: "shl8 (r_max ?n) = ?k" using n by (simp add: ni_wf_def shl8_small)
  let ?e = "[Tx ServerSocket c True]"
  have r: "p2pm_recv_uint32 ServerSocket (uninit32 (out ?e w)) (out ?e w) =
      (P2PM_OP_SUCCESS, r, out ?e (took ServerSocket (RMsg l mo # fs) True w))"
    using u32.recv_v_ok [of "out ?e w" ServerSocket r True "RMsg l mo # fs" "uninit32 (out ?e w)"] assms(5) by simp
  let ?w = "out ?e (took ServerSocket (RMsg l mo # fs) True w)"
  have l: "zmq_recv ServerSocket (uninit ?w ?k) ?w =
      (int (length l), arrived w ?k (take ?k l), out ?e (took ServerSocket fs mo w))"
    using recv_list_cut [of ?w ServerSocket l mo fs ?k] by simp
  have st: "store 0 (temp_successor ?n) (successor ?n) = Some (temp_successor ?n)"
    "store 0 (temp_successor ?n) (successor_list ?n) = Some (overwrite 0 (temp_successor ?n) (successor_list ?n))"
    "store 0 (zeros P2PM_MAX_ID_LEN) (temp_successor ?n) = Some (zeros P2PM_MAX_ID_LEN)"
    using b by (simp_all add: store_def overwrite_whole)
  let ?x = "out [Tx ServerSocket c True, Tx ServerSocket (be32 (rep_code P2PM_JOIN_ACK2)) False,
      Disc SuccessorSocket s] (took ServerSocket fs mo w)"
  obtain n' where n': "p2pm_ni_copy_successor_list
      (?n\<lparr>ni_r := r, successor := temp_successor ?n, successor_list := overwrite 0 (temp_successor ?n) (successor_list ?n),
         temp_successor := zeros P2PM_MAX_ID_LEN\<rparr>) (arrived w ?k (take ?k l)) r ?x
      = Some (P2PM_OP_SUCCESS, n')" "joined ?x (take ?k l) r ?n n'"
    using joined_exists [OF n assms(8,9,7), of ?x] by auto
  have su: "successor n' = temp_successor ?n" using n'(2) by (simp add: joined_def)
  have j: "joined w (take ?k l) r ?n n'" using n'(2) by (simp add: joined_def)
  let ?y = "out [Conn SuccessorSocket a] ?x"
  let ?z = "if current_status p = P2PM_NODE_MEMBER then snd (zclock_mono ?y) else ?y"
  have "JOIN_CMT_handler p w = Some (P2PM_OP_SUCCESS, p\<lparr>node_list := n',
      server_triggered_actions := (if current_status p = P2PM_NODE_MEMBER \<and> stabilised p w then P2PM_XPV_REPLICATE_BACKWARDS
        else server_triggered_actions p),
      current_status := (if current_status p = P2PM_NODE_HANDLING_JOIN then P2PM_NODE_MEMBER else current_status p)\<rparr>, ?z)"
    using assms(2,3,4,6,10,11) r l n'(1) su b(3) by (simp add: JOIN_CMT_handler_def join_cmt_trigger_eq
        send_client_ok Let_def split_beta sh st load_exact disconnect_ok connect_ok)
  moreover have "rx ?z ServerSocket = fs" "tx ?z = tx w @ [Tx ServerSocket c True,
      Tx ServerSocket (be32 (rep_code P2PM_JOIN_ACK2)) False, Disc SuccessorSocket s, Conn SuccessorSocket a]"
    by simp_all
  ultimately show ?thesis using j by blast
qed

lemma join_cmt_run:
  assumes "p2p_ok p" and "cstr (clientid p) = Some c" and "send_ok w = []" and "conn_ok w = []"
    and "rx w ServerSocket = RMsg (be32 r) True # RMsg l mo # fs" and "r \<noteq> 0" and "unat r < 2 ^ 32 - 1"
    and "length l \<le> unat (r_max (node_list p)) * 256" and "cstr l = Some f" and "address f"
    and "cstr (successor (node_list p)) = Some s" and "cstr (temp_successor (node_list p)) = Some a"
  shows "\<exists>p' w'. JOIN_CMT_handler p w = Some (P2PM_OP_SUCCESS, p', w') \<and> joined w l r (node_list p) (node_list p') \<and>
    current_status p' = (if current_status p = P2PM_NODE_HANDLING_JOIN then P2PM_NODE_MEMBER else current_status p) \<and>
    tx w' = tx w @ [Tx ServerSocket c True, Tx ServerSocket (be32 (rep_code P2PM_JOIN_ACK2)) False,
      Disc SuccessorSocket s, Conn SuccessorSocket a]"
proof -
  have "take (unat (r_max (node_list p)) * 256) l = l" using assms(8) by simp
  then show ?thesis using join_cmt_full [OF assms(1-7) _ assms(10-12)] assms(9) by fastforce
qed

text \<open>The next message of a client: the request reaches the handler with its id.\<close>

abbreviation from_client :: "bytes \<Rightarrow> p2pm \<Rightarrow> p2pm" where
  "from_client cid p \<equiv> p\<lparr>clientid := cid\<rparr>"

definition client_id :: "bytes \<Rightarrow> string \<Rightarrow> bool" where
  "client_id cid c \<longleftrightarrow> length cid = P2PM_MAX_ID_LEN \<and> cstr cid = Some c"

lemma from_client_ok: "p2p_ok p \<Longrightarrow> client_id cid c \<Longrightarrow> p2p_ok (from_client cid p) \<and> cstr (clientid (from_client cid p)) = Some c"
  by (simp add: p2p_ok_def client_id_def)

lemma get_req_ok:
  assumes "p2p_ok p" and "address a"
  shows "p2p_ok (p\<lparr>node_list := (node_list p)\<lparr>temp_successor := padded w a\<rparr>, current_status := st\<rparr>)"
  using assms by (simp add: p2p_ok_def ni_wf_def P2PM_MAX_ID_LEN_def)

text \<open>Two nodes ask to join before the first of them commits.\<close>

lemma join_race:
  assumes "p2p_ok p" and "current_status p = P2PM_NODE_MEMBER" and "cstr (successor (node_list p)) = Some s"
    and "client_id i1 c1" and "client_id i2 c2" and "client_id i3 c3" and "address a" and "address b"
    and "send_ok w1 = []" and "rx w1 ServerSocket = str_frames a mo1 @ fs1"
    and "send_ok w2 = []" and "rx w2 ServerSocket = str_frames b mo2 @ fs2"
    and "send_ok w3 = []" and "conn_ok w3 = []" and "rx w3 ServerSocket = RMsg (be32 r) True # RMsg l mo3 # fs3"
    and "r \<noteq> 0" and "unat r < 2 ^ 32 - 1" and "length l \<le> unat (r_max (node_list p)) * 256"
    and "cstr l = Some f" and "address f"
  shows "\<exists>r1 r2 p1 p2 p3 w1' w2' w3'.
    GET_REQ_handler (from_client i1 p) w1 = Some (r1, p1, w1') \<and>
      tx w1' = tx w1 @ Tx ServerSocket c1 True # Tx ServerSocket (be32 (rep_code P2PM_GET_ACK)) True # str_ev ServerSocket s False \<and>
    GET_REQ_handler (from_client i2 p1) w2 = Some (r2, p2, w2') \<and>
      tx w2' = tx w2 @ [Tx ServerSocket c2 True, Tx ServerSocket (be32 (rep_code P2PM_GET_NACK)) False] \<and>
    JOIN_CMT_handler (from_client i3 p2) w3 = Some (P2PM_OP_SUCCESS, p3, w3') \<and>
      cstr (successor (node_list p3)) = Some b \<and> current_status p3 = P2PM_NODE_MEMBER \<and>
      cstr (slot (successor_list (node_list p3)) 0) = Some b"
proof -
  note c1 = from_client_ok [OF assms(1,4)]
  let ?p1 = "(from_client i1 p)\<lparr>node_list := (node_list p)\<lparr>temp_successor := padded w1 a\<rparr>, current_status := P2PM_NODE_HANDLING_JOIN\<rparr>"
  obtain r1 where g1: "GET_REQ_handler (from_client i1 p) w1 = Some (r1, ?p1,
      out (Tx ServerSocket c1 True # get_reply (from_client i1 p) s) (took ServerSocket fs1 mo1 w1))"
    using get_req_run [OF conjunct1 [OF c1] conjunct2 [OF c1] assms(9,7,10)] assms(2,3) by auto
  have ok1: "p2p_ok ?p1" using get_req_ok [OF conjunct1 [OF c1] assms(7), where w = w1] by simp
  note c2 = from_client_ok [OF ok1 assms(5)]
  let ?p2 = "(from_client i2 ?p1)\<lparr>node_list := (node_list ?p1)\<lparr>temp_successor := padded w2 b\<rparr>, current_status := P2PM_NODE_HANDLING_JOIN\<rparr>"
  obtain r2 where g2: "GET_REQ_handler (from_client i2 ?p1) w2 = Some (r2, ?p2,
      out (Tx ServerSocket c2 True # get_reply (from_client i2 ?p1) s) (took ServerSocket fs2 mo2 w2))"
    using get_req_run [OF conjunct1 [OF c2] conjunct2 [OF c2] assms(11,8,12)] assms(3) by auto
  have ok2: "p2p_ok ?p2" using get_req_ok [OF conjunct1 [OF c2] assms(8), where w = w2] by simp
  note c3 = from_client_ok [OF ok2 assms(6)]
  obtain p3 w3' where g3: "JOIN_CMT_handler (from_client i3 ?p2) w3 = Some (P2PM_OP_SUCCESS, p3, w3')"
    "joined w3 l r (node_list ?p2) (node_list p3)" "current_status p3 = P2PM_NODE_MEMBER"
    using join_cmt_run [OF conjunct1 [OF c3] conjunct2 [OF c3] assms(13-17) _ assms(19,20), of s b] assms(3,8,18) by auto
  have "successor (node_list p3) = padded w2 b" "slot (successor_list (node_list p3)) 0 = padded w2 b"
    using g3(2) by (simp_all add: joined_def)
  then show ?thesis
    using g1 g2 g3(1,3) assms(2,8) by (simp add: get_reply_def)
qed

lemma join_in_order:
  assumes "p2p_ok p" and "current_status p = P2PM_NODE_MEMBER" and "cstr (successor (node_list p)) = Some s"
    and "client_id i1 c1" and "client_id i2 c2" and "address a"
    and "send_ok w1 = []" and "rx w1 ServerSocket = str_frames a mo1 @ fs1"
    and "send_ok w2 = []" and "conn_ok w2 = []" and "rx w2 ServerSocket = RMsg (be32 r) True # RMsg l mo2 # fs2"
    and "r \<noteq> 0" and "unat r < 2 ^ 32 - 1" and "length l \<le> unat (r_max (node_list p)) * 256"
    and "cstr l = Some f" and "address f"
  shows "\<exists>r1 p1 p2 w1' w2'.
    GET_REQ_handler (from_client i1 p) w1 = Some (r1, p1, w1') \<and> current_status p1 = P2PM_NODE_HANDLING_JOIN \<and>
      tx w1' = tx w1 @ Tx ServerSocket c1 True # Tx ServerSocket (be32 (rep_code P2PM_GET_ACK)) True # str_ev ServerSocket s False \<and>
    JOIN_CMT_handler (from_client i2 p1) w2 = Some (P2PM_OP_SUCCESS, p2, w2') \<and> current_status p2 = P2PM_NODE_MEMBER \<and>
      tx w2' = tx w2 @ [Tx ServerSocket c2 True, Tx ServerSocket (be32 (rep_code P2PM_JOIN_ACK2)) False,
        Disc SuccessorSocket s, Conn SuccessorSocket a] \<and>
    p2p_ok p2 \<and> cstr (successor (node_list p2)) = Some a \<and> cstr (slot (successor_list (node_list p2)) 0) = Some a \<and>
    unat (ni_r (node_list p2)) = min (Suc (unat r)) (unat (r_max (node_list p))) \<and>
    (\<forall>j. 1 \<le> j \<and> j < unat (ni_r (node_list p2)) \<longrightarrow> slot (successor_list (node_list p2)) j =
       load (\<lambda>m. junk w2 ((j - 1) * 256 + m)) 256 (drop ((j - 1) * 256) (arrived w2 (unat (r_max (node_list p)) * 256) l)))"
proof -
  note c1 = from_client_ok [OF assms(1,4)]
  let ?p1 = "(from_client i1 p)\<lparr>node_list := (node_list p)\<lparr>temp_successor := padded w1 a\<rparr>, current_status := P2PM_NODE_HANDLING_JOIN\<rparr>"
  obtain r1 where g1: "GET_REQ_handler (from_client i1 p) w1 = Some (r1, ?p1,
      out (Tx ServerSocket c1 True # get_reply (from_client i1 p) s) (took ServerSocket fs1 mo1 w1))"
    using get_req_run [OF conjunct1 [OF c1] conjunct2 [OF c1] assms(7,6,8)] assms(2,3) by auto
  have ok1: "p2p_ok ?p1" using get_req_ok [OF conjunct1 [OF c1] assms(6), where w = w1] by simp
  note c2 = from_client_ok [OF ok1 assms(5)]
  obtain p2 w2' where g2: "JOIN_CMT_handler (from_client i2 ?p1) w2 = Some (P2PM_OP_SUCCESS, p2, w2')"
    "joined w2 l r (node_list ?p1) (node_list p2)" "current_status p2 = P2PM_NODE_MEMBER"
    "tx w2' = tx w2 @ [Tx ServerSocket c2 True, Tx ServerSocket (be32 (rep_code P2PM_JOIN_ACK2)) False,
        Disc SuccessorSocket s, Conn SuccessorSocket a]"
    using join_cmt_run [OF conjunct1 [OF c2] conjunct2 [OF c2] assms(9-13) _ assms(15,16), of s a] assms(3,6,14) by auto
  have "p2p_ok p2"
    using wlpD [OF list_handlers_kept(2) [of "from_client i2 ?p1" w2] g2(1)] conjunct1 [OF c2] by (simp add: kept_def)
  then show ?thesis
    using g1 g2 assms(2,6) by (simp add: get_reply_def joined_def)
qed

section \<open>A join, at the successor\<close>

lemma join_req_run:
  assumes "p2p_ok p" and "cstr (clientid p) = Some c" and "send_ok w = []" and "address a"
    and "rx w ServerSocket = str_frames a mo @ fs" and "current_status p = P2PM_NODE_MEMBER"
  shows "JOIN_REQ_handler p w = Some (P2PM_OP_SUCCESS,
      p\<lparr>node_list := (node_list p)\<lparr>temp_predecessor := overwrite 0 (c_bytes a) (temp_predecessor (node_list p))\<rparr>\<rparr>,
      out [Tx ServerSocket c True, Tx ServerSocket (be32 (rep_code P2PM_JOIN_ACK1)) True,
           Tx ServerSocket (be32 (ni_r (node_list p))) True, Tx ServerSocket (slist_bytes (node_list p) w) False]
        (took ServerSocket fs mo w))"
proof -
  have n: "ni_wf (node_list p)" using assms(1) by (rule p2p_ok_ni)
  have st: "store 0 (c_bytes a) (temp_predecessor (node_list p)) = Some (overwrite 0 (c_bytes a) (temp_predecessor (node_list p)))"
    using ni_blocks(4) [OF n] assms(4) by (simp add: store_def address_def)
  have rs: "recv_strp ServerSocket Freed (out [Tx ServerSocket c True] w) =
      Some (P2PM_OP_SUCCESS, Live (c_bytes a), out [Tx ServerSocket c True] (took ServerSocket fs mo w))"
    using recv_str_frames [OF address_fits(1) [OF assms(4)], of "out [Tx ServerSocket c True] w" ServerSocket mo fs] assms(5)
    by simp
  show ?thesis
    using assms(2,3,6) st cstr_c_bytes0 [OF address_fits(2) [OF assms(4)]]
    by (simp add: JOIN_REQ_handler_def send_client_ok rs Let_def slist_bytes_def)
qed

lemma pred_join_cmt_run:
  assumes "p2p_ok p" and "send_ok w = []" and "conn_ok w = []"
    and "cstr (predecessor (node_list p)) = Some q" and "cstr (temp_predecessor (node_list p)) = Some a"
  shows "PRED_JOIN_CMT_handler p w = Some (P2PM_OP_SUCCESS,
      p\<lparr>node_list := (node_list p)\<lparr>predecessor := temp_predecessor (node_list p), temp_predecessor := zeros P2PM_MAX_ID_LEN\<rparr>,
        current_status := (if current_status p = P2PM_NODE_HANDLING_JOIN then P2PM_NODE_MEMBER else current_status p)\<rparr>,
      out [Disc PredecessorSocket q, Conn PredecessorSocket a] w)"
proof -
  note b = ni_blocks [OF p2p_ok_ni [OF assms(1)]]
  have st: "store 0 (temp_predecessor (node_list p)) (predecessor (node_list p)) = Some (temp_predecessor (node_list p))"
    "store 0 (zeros P2PM_MAX_ID_LEN) (temp_predecessor (node_list p)) = Some (zeros P2PM_MAX_ID_LEN)"
    using b by (simp_all add: store_def overwrite_whole)
  show ?thesis
    using assms b(4) by (simp add: PRED_JOIN_CMT_handler_def Let_def disconnect_ok connect_ok load_exact st)
qed

lemma join_successor_side:
  assumes "p2p_ok p" and "current_status p = P2PM_NODE_MEMBER" and "cstr (predecessor (node_list p)) = Some q"
    and "client_id i1 c1" and "client_id i2 c2" and "address a"
    and "send_ok w1 = []" and "rx w1 ServerSocket = str_frames a mo @ fs" and "send_ok w2 = []" and "conn_ok w2 = []"
  shows "\<exists>p1 w1' p2 w2'.
    JOIN_REQ_handler (from_client i1 p) w1 = Some (P2PM_OP_SUCCESS, p1, w1') \<and>
      tx w1' = tx w1 @ [Tx ServerSocket c1 True, Tx ServerSocket (be32 (rep_code P2PM_JOIN_ACK1)) True,
        Tx ServerSocket (be32 (ni_r (node_list p))) True, Tx ServerSocket (slist_bytes (node_list p) w1) False] \<and>
    PRED_JOIN_CMT_handler (from_client i2 p1) w2 = Some (P2PM_OP_SUCCESS, p2, w2') \<and>
      tx w2' = tx w2 @ [Disc PredecessorSocket q, Conn PredecessorSocket a] \<and>
    current_status p2 = P2PM_NODE_MEMBER \<and> cstr (predecessor (node_list p2)) = Some a \<and>
    temp_predecessor (node_list p2) = zeros P2PM_MAX_ID_LEN \<and> successor_list (node_list p2) = successor_list (node_list p) \<and>
    p2p_ok p2"
proof -
  note c1 = from_client_ok [OF assms(1,4)]
  let ?t = "overwrite 0 (c_bytes a) (temp_predecessor (node_list p))"
  let ?p1 = "(from_client i1 p)\<lparr>node_list := (node_list p)\<lparr>temp_predecessor := ?t\<rparr>\<rparr>"
  have g1: "JOIN_REQ_handler (from_client i1 p) w1 = Some (P2PM_OP_SUCCESS, ?p1,
      out [Tx ServerSocket c1 True, Tx ServerSocket (be32 (rep_code P2PM_JOIN_ACK1)) True,
        Tx ServerSocket (be32 (ni_r (node_list p))) True, Tx ServerSocket (slist_bytes (node_list p) w1) False]
        (took ServerSocket fs mo w1))"
    using join_req_run [OF conjunct1 [OF c1] conjunct2 [OF c1] assms(7,6,8)] assms(2) by simp
  have ok1: "p2p_ok ?p1" using wlpD [OF simple_handlers_kept(2) [of "from_client i1 p" w1] g1] conjunct1 [OF c1] by (simp add: kept_def)
  have ta: "cstr ?t = Some a" using address_fits(2) [OF assms(6)] by (rule cstr_overwrite0)
  note c2 = from_client_ok [OF ok1 assms(5)]
  obtain p2 where g2: "PRED_JOIN_CMT_handler (from_client i2 ?p1) w2 =
      Some (P2PM_OP_SUCCESS, p2, out [Disc PredecessorSocket q, Conn PredecessorSocket a] w2)"
    "current_status p2 = P2PM_NODE_MEMBER" "predecessor (node_list p2) = ?t"
    "temp_predecessor (node_list p2) = zeros P2PM_MAX_ID_LEN" "successor_list (node_list p2) = successor_list (node_list p)"
    using pred_join_cmt_run [OF conjunct1 [OF c2] assms(9,10), of q a] assms(2,3) ta by simp
  have "p2p_ok p2"
    using wlpD [OF simple_handlers_kept(4) [of "from_client i2 ?p1" w2] g2(1)] conjunct1 [OF c2] by (simp add: kept_def)
  then show ?thesis using g1 g2 ta by simp
qed

end
