(* ===== verification/P2pRun.thy ===== *)
theory P2pRun
  imports P2pRing
begin

text \<open>
  Tokens from node to node, the replication of the successor list, what the server loop leaves of the
  triggers, the join that nobody answers, and the termination of the loops.
\<close>

section \<open>Tokens\<close>

text \<open>A token whose fields have their C types and whose lengths are those of its blocks.\<close>

definition token_ok :: "generic_token \<Rightarrow> string \<Rightarrow> string \<Rightarrow> bool" where
  "token_ok tk b1 b2 \<longleftrightarrow> tk_buf1 tk = Live b1 \<and> tk_buf2 tk = Live b2 \<and> tk_len1 tk = length b1 \<and>
     tk_len2 tk = length b2 \<and> length b1 < 2 ^ 64 \<and> length b2 < 2 ^ 64 \<and> - (2 ^ 31) \<le> tk_ttl tk \<and> tk_ttl tk < 2 ^ 31"

definition token_frames :: "generic_token \<Rightarrow> bytes \<Rightarrow> bytes \<Rightarrow> (bytes \<times> bool) list" where
  "token_frames tk b1 b2 =
     [(be32 (req_code P2PM_TOKEN), True), (be32 (tk_id tk), True), (be32 (word_of_int (tk_ttl tk)), True),
      (be64 (word_of_nat (length b1)), True), (be64 (word_of_nat (length b2)), True), (b1, True), (b2, False)]"

lemma send_buf_ok: "send_ok w = [] \<Longrightarrow> length b = n \<Longrightarrow>
    send_buf s (Live b) n mo w = Some (out [Tx s b mo] w)"
  by (simp add: send_buf_def load_exact)

lemma forward_token_run:
  assumes "token_ok (send_token p) b1 b2" and "send_ok w = []"
  shows "\<exists>p' w'. forward_token p w = Some (p', w') \<and> \<not> send_has_token p' \<and>
    tx w' = tx w @ map (\<lambda>(m, mo). Tx SuccessorSocket m mo) (token_frames (send_token p) b1 b2)"
  using assms
  by (simp add: forward_token_def token_ok_def Let_def split_beta send_buf_ok cfree_def token_frames_def
      u64.send_emits emit_out)

lemma sint_word_of_int32: "- (2 ^ 31) \<le> k \<Longrightarrow> k < 2 ^ 31 \<Longrightarrow> sint (word_of_int k :: u32) = k"
  by (simp add: signed_of_int signed_take_bit_int_eq_self)

lemma unat_len64: "n < 2 ^ 64 \<Longrightarrow> unat (word_of_nat n :: u64) = n"
  by (simp add: unat_of_nat)

lemma recv_whole:
  "rx w s = RMsg b mo # fs \<Longrightarrow> length b = n \<Longrightarrow> zmq_recv s (uninit v n) w = (int (length b), b, took s fs mo w)"
  by (simp add: zmq_recv_Msg took_def)

lemma token_received:
  assumes "token_ok tk b1 b2" and "rx w ServerSocket = map (\<lambda>(m, mo). RMsg m mo) (tl (token_frames tk b1 b2)) @ fs"
  shows "TOKEN_handler p w = Some (P2PM_OP_SUCCESS, p\<lparr>recv_token := tk, recv_has_token := True\<rparr>, took ServerSocket fs False w)"
proof -
  let ?t = "took ServerSocket"
  note k = assms(1) [unfolded token_ok_def]
  let ?f1 = "RMsg (be32 (word_of_int (tk_ttl tk))) True # RMsg (be64 (word_of_nat (length b1))) True #
    RMsg (be64 (word_of_nat (length b2))) True # RMsg b1 True # RMsg b2 False # fs"
  have r1: "p2pm_recv_uint32 ServerSocket old w = (P2PM_OP_SUCCESS, tk_id tk, ?t ?f1 True w)" for old
    by (rule u32.recv_v_ok) (simp add: assms(2) token_frames_def)
  have r2: "p2pm_recv_uint32 ServerSocket old (?t ?f1 True w) = (P2PM_OP_SUCCESS, word_of_int (tk_ttl tk), ?t (tl ?f1) True w)" for old
    using u32.recv_v_ok [of "?t ?f1 True w" ServerSocket "word_of_int (tk_ttl tk)" True "tl ?f1" old] by simp
  have r3: "p2pm_recv_uint64 ServerSocket old (?t (tl ?f1) True w)
      = (P2PM_OP_SUCCESS, word_of_nat (length b1), ?t (tl (tl ?f1)) True w)" for old
    using u64.recv_v_ok [of "?t (tl ?f1) True w" ServerSocket "word_of_nat (length b1)" True "tl (tl ?f1)" old] by simp
  have r4: "p2pm_recv_uint64 ServerSocket old (?t (tl (tl ?f1)) True w)
      = (P2PM_OP_SUCCESS, word_of_nat (length b2), ?t (RMsg b1 True # RMsg b2 False # fs) True w)" for old
    using u64.recv_v_ok [of "?t (tl (tl ?f1)) True w" ServerSocket "word_of_nat (length b2)" True "RMsg b1 True # RMsg b2 False # fs" old]
    by simp
  have r5: "zmq_recv ServerSocket (uninit v (length b1)) (?t (RMsg b1 True # RMsg b2 False # fs) True w)
      = (int (length b1), b1, ?t (RMsg b2 False # fs) True w)" for v
    using recv_whole [of "?t (RMsg b1 True # RMsg b2 False # fs) True w" ServerSocket b1 True "RMsg b2 False # fs"] by simp
  have r6: "zmq_recv ServerSocket (uninit v (length b2)) (?t (RMsg b2 False # fs) True w)
      = (int (length b2), b2, ?t fs False w)" for v
    using recv_whole [of "?t (RMsg b2 False # fs) True w" ServerSocket b2 False fs] by simp
  have "\<lparr>tk_id = tk_id tk, tk_ttl = tk_ttl tk, tk_buf1 = Live b1, tk_buf2 = Live b2, tk_len1 = length b1,
      tk_len2 = length b2\<rparr> = tk" using k by simp
  then show ?thesis
    using k r1 r2 r3 r4 r5 r6
    by (simp add: TOKEN_handler_def Let_def split_beta sint_word_of_int32 unat_len64)
qed

section \<open>Replication of the successor list\<close>

lemma word_minus_1_pos: "(0 :: u32) < ttl - 1 \<longleftrightarrow> ttl \<noteq> 1"
  by (metis diff_self eq_iff_diff_eq_0 word_gt_0)

lemma sync_slist_full:
  assumes "p2p_ok p" and "cstr (clientid p) = Some c" and "send_ok w = []"
    and "rx w ServerSocket = RMsg (be32 ttl) True # RMsg (be32 nr) True # RMsg l mo # fs"
    and "nr \<noteq> 0" and "nr \<le> r_max (node_list p)" and "length l \<le> unat nr * 256" and "cstr l = Some f" and "address f"
  shows "\<exists>p'. SYNC_SLIST_handler p w = Some (P2PM_OP_SUCCESS, p', out [Tx ServerSocket c True,
      Tx ServerSocket (be32 (rep_code P2PM_SYNC_SLIST_ACK)) False] (took ServerSocket fs mo w)) \<and> p2p_ok p' \<and>
    (if ttl = 1 then p' = p
     else p' = p\<lparr>node_list := node_list p', last_ttl := ttl - 1, server_triggered_actions := P2PM_XPV_RELAY_BACKWARDS\<rparr> \<and>
       node_list p' = (node_list p)\<lparr>ni_r := ni_r (node_list p'), successor_list := successor_list (node_list p')\<rparr> \<and>
       unat (ni_r (node_list p')) = min (Suc (unat nr)) (unat (r_max (node_list p))) \<and>
       (\<forall>j < unat (r_max (node_list p)). slot (successor_list (node_list p')) j =
         (if 1 \<le> j \<and> j < unat (ni_r (node_list p'))
          then load (\<lambda>m. junk w ((j - 1) * 256 + m)) 256 (drop ((j - 1) * 256) (arrived w (unat nr * 256) l))
          else slot (successor_list (node_list p)) j)))"
proof -
  let ?n = "node_list p" and ?e = "[Tx ServerSocket c True]"
  have n: "ni_wf ?n" using assms(1) by (rule p2p_ok_ni)
  have nr: "unat nr \<le> unat (r_max ?n)" "unat (r_max ?n) < 2 ^ 24"
    using assms(6) n by (simp_all add: word_le_nat_alt ni_wf_def)
  have sh: "shl8 nr = unat nr * 256" using nr by (simp add: shl8_small)
  have r1: "p2pm_recv_uint32 ServerSocket (uninit32 (out ?e w)) (out ?e w) = (P2PM_OP_SUCCESS, ttl,
      out ?e (took ServerSocket (RMsg (be32 nr) True # RMsg l mo # fs) True w))"
    using u32.recv_v_ok [of "out ?e w" ServerSocket ttl True "RMsg (be32 nr) True # RMsg l mo # fs"] assms(4) by simp
  let ?w1 = "out ?e (took ServerSocket (RMsg (be32 nr) True # RMsg l mo # fs) True w)"
  have r2: "p2pm_recv_uint32 ServerSocket (uninit32 ?w1) ?w1 = (P2PM_OP_SUCCESS, nr,
      out ?e (took ServerSocket (RMsg l mo # fs) True w))"
    using u32.recv_v_ok [of ?w1 ServerSocket nr True "RMsg l mo # fs"] by simp
  let ?w2 = "out ?e (took ServerSocket (RMsg l mo # fs) True w)"
  have r3: "zmq_recv ServerSocket (uninit ?w2 (unat nr * 256)) ?w2 =
      (int (length l), arrived w (unat nr * 256) l, out ?e (took ServerSocket fs mo w))"
    using recv_list [of ?w2 ServerSocket l mo fs "unat nr * 256"] assms(7) by simp
  have f: "cstr (arrived w (unat nr * 256) l) = Some f" unfolding arrived_def by (rule cstr_prefix [OF assms(8)])
  have lf: "length f < 256" using assms(9) by (simp add: address_def P2PM_MAX_ID_LEN_def)
  have n1: "unat nr < 2 ^ 32 - 1" using nr by simp
  obtain n' where n': "p2pm_ni_copy_successor_list ?n (arrived w (unat nr * 256) l) nr (out ?e (took ServerSocket fs mo w))
      = Some (P2PM_OP_SUCCESS, n')" "ni_wf n'" "unat (ni_r n') = min (Suc (unat nr)) (unat (r_max ?n))"
    "n' = ?n\<lparr>ni_r := ni_r n', successor_list := successor_list n'\<rparr>"
    "\<forall>j < unat (r_max ?n). slot (successor_list n') j = (if 1 \<le> j \<and> j < unat (ni_r n')
        then load (\<lambda>m. junk w ((j - 1) * 256 + m)) 256 (drop ((j - 1) * 256) (arrived w (unat nr * 256) l))
        else slot (successor_list ?n) j)"
    using copy_successor_list_run [OF n f lf n1, of "out ?e (took ServerSocket fs mo w)"] by auto
  note ok = wlpD [OF list_handlers_kept(1) [of p w]]
  have notgt: "\<not> nr > r_max ?n" using assms(6) by simp
  show ?thesis
  proof (cases "ttl = 1")
    case True
    then show ?thesis
      using assms(1,2,3,5) notgt r1 r2 r3 by (simp add: SYNC_SLIST_handler_def send_client_ok Let_def sh)
  next
    case False
    then have "SYNC_SLIST_handler p w = Some (P2PM_OP_SUCCESS,
        p\<lparr>node_list := n', last_ttl := ttl - 1, server_triggered_actions := P2PM_XPV_RELAY_BACKWARDS\<rparr>,
        out [Tx ServerSocket c True, Tx ServerSocket (be32 (rep_code P2PM_SYNC_SLIST_ACK)) False] (took ServerSocket fs mo w))"
      using assms(2,3,5) notgt r1 r2 r3 n'(1) by (simp add: SYNC_SLIST_handler_def send_client_ok Let_def sh word_minus_1_pos)
    moreover from ok [OF this] have "p2p_ok (p\<lparr>node_list := n', last_ttl := ttl - 1, server_triggered_actions := P2PM_XPV_RELAY_BACKWARDS\<rparr>)"
      using assms(1) by (simp add: kept_def)
    moreover have "node_list (p\<lparr>node_list := n', last_ttl := ttl - 1, server_triggered_actions := P2PM_XPV_RELAY_BACKWARDS\<rparr>) = n'" by simp
    ultimately show ?thesis using False n'(3,4,5) by metis
  qed
qed

lemma sync_slist_run:
  assumes "p2p_ok p" and "cstr (clientid p) = Some c" and "send_ok w = []"
    and "rx w ServerSocket = RMsg (be32 ttl) True # RMsg (be32 nr) True # RMsg l mo # fs"
    and "nr \<noteq> 0" and "nr \<le> r_max (node_list p)" and "length l \<le> unat nr * 256" and "cstr l = Some f" and "address f"
  shows "\<exists>p'. SYNC_SLIST_handler p w = Some (P2PM_OP_SUCCESS, p', out [Tx ServerSocket c True,
      Tx ServerSocket (be32 (rep_code P2PM_SYNC_SLIST_ACK)) False] (took ServerSocket fs mo w)) \<and> p2p_ok p' \<and>
    (if ttl = 1 then p' = p
     else p' = p\<lparr>node_list := node_list p', last_ttl := ttl - 1, server_triggered_actions := P2PM_XPV_RELAY_BACKWARDS\<rparr> \<and>
       unat (ni_r (node_list p')) = min (Suc (unat nr)) (unat (r_max (node_list p))) \<and>
       (\<forall>j < unat (r_max (node_list p)). slot (successor_list (node_list p')) j =
         (if 1 \<le> j \<and> j < unat (ni_r (node_list p'))
          then load (\<lambda>m. junk w ((j - 1) * 256 + m)) 256 (drop ((j - 1) * 256) (arrived w (unat nr * 256) l))
          else slot (successor_list (node_list p)) j)))"
  using sync_slist_full [OF assms] by meson

section \<open>The triggers\<close>

lemma loop_clears_trigger:
  "p2pm_loop_server ev p w = Some (P2PM_OP_SUCCESS, p', w') \<Longrightarrow> server_triggered_actions p' = P2PM_NO_XPV"
  by (auto simp: p2pm_loop_server_def fault_simps Let_def split_beta split: if_splits)

text \<open>A clock that stands still.\<close>

lemma zclock_still: "clk w = [] \<Longrightarrow> zclock_mono w = (clk_last w, w)"
  by (simp add: zclock_mono_def)

lemma pred_failure_lost:
  assumes "clk w = []" and "current_status p = P2PM_NODE_MEMBER"
    and "clk_last w - last_stabilize_time p \<le> stabilize_interval (config p)"
    and "clk_last w - predecessor_lastpoll_time p > uint (recv_wait (config p))"
    and "predecessor_socket_expected_actions p \<in> {P2PM_XPV_PRED_REP_PING3, P2PM_XPV_PRED_FAILURE}"
    and "successor_socket_expected_actions p = P2PM_NO_XPV" and "server_triggered_actions p = P2PM_NO_XPV"
    and "\<not> send_has_token p"
  shows "\<exists>t. p2pm_loop_server \<lparr>pl_server = False, pl_successor = False, pl_predecessor = False\<rparr> p w =
    Some (P2PM_OP_SUCCESS, p\<lparr>successor_lastpoll_time := t, predecessor_lastpoll_time := clk_last w,
      predecessor_socket_expected_actions := P2PM_NO_XPV\<rparr>, w)"
proof -
  let ?ev = "\<lparr>pl_server = False, pl_successor = False, pl_predecessor = False\<rparr>"
  obtain t where s: "successor_socket_handler ?ev p w = Some (P2PM_OP_SUCCESS, p\<lparr>successor_lastpoll_time := t\<rparr>, w)"
  proof (cases "clk_last w - successor_lastpoll_time p \<ge> uint (recv_wait (config p))")
    case True
    then show ?thesis using assms that [of "clk_last w"]
      by (simp add: successor_socket_handler_def succ_machine_def Let_def zclock_still)
  next
    case False
    then show ?thesis using assms that [of "successor_lastpoll_time p"]
      by (simp add: successor_socket_handler_def succ_machine_def Let_def zclock_still)
  qed
  have "predecessor_socket_handler ?ev (p\<lparr>successor_lastpoll_time := t\<rparr>) w = Some (P2PM_OP_SUCCESS,
      p\<lparr>successor_lastpoll_time := t, predecessor_lastpoll_time := clk_last w,
        server_triggered_actions := P2PM_XPV_STABILIZE_FIND_HEAD, predecessor_socket_expected_actions := P2PM_NO_XPV\<rparr>, w)"
    using assms by (subst predecessor_socket_handler.simps) (auto simp: Let_def zclock_still pred_lost_def)
  moreover have "stabilize_timer p w = (p, w)" using assms by (simp add: stabilize_timer_def Let_def zclock_still)
  ultimately show ?thesis using s assms(7) by (intro exI [of _ t]) (simp add: p2pm_loop_server_def)
qed

section \<open>A join that nobody answers unasked\<close>

lemma recv_silent:
  "set (rx w s) \<subseteq> {RErr} \<Longrightarrow> \<exists>w'. p2pm_recv_uint32 s old w = (P2PM_OP_FAILURE, old, w') \<and> set (rx w' s) \<subseteq> {RErr} \<and>
     tx w' = tx w \<and> junk w' = junk w \<and> conn_ok w' = conn_ok w"
  by (cases "rx w s") (auto simp: p2pm_recv_uint32_def zmq_recv_Nil zmq_recv_RErr)

lemma try_live_silent:
  assumes "set (rx w s) \<subseteq> {RErr}" and "rt \<noteq> rep_code P2PM_PONG_REP"
  shows "\<exists>w'. try_live_loop k s rt w = (P2PM_OP_DEAD, w') \<and> tx w' = tx w \<and> junk w' = junk w \<and> conn_ok w' = conn_ok w"
  using assms(1)
proof (induction k arbitrary: w)
  case 0
  then show ?case by simp
next
  case (Suc k)
  obtain w1 where w1: "p2pm_recv_uint32 s rt w = (P2PM_OP_FAILURE, rt, w1)" "set (rx w1 s) \<subseteq> {RErr}"
    "tx w1 = tx w" "junk w1 = junk w" "conn_ok w1 = conn_ok w" using recv_silent [OF Suc.prems] by blast
  then show ?case using Suc.IH [OF w1(2)] assms(2) by auto
qed

lemma join_silent:
  assumes "current_status p = P2PM_NODE_JOINING" and "cstr (predecessor (node_list p)) = Some a" and "conn_ok w = []"
    and "set (rx w PredecessorSocket) \<subseteq> {RErr}" and "uninit32 w \<noteq> rep_code P2PM_PONG_REP"
  shows "\<exists>w'. p2pm_join p w = Some (P2PM_OP_FAILURE, p, w') \<and>
    tx w' = tx w @ [Conn PredecessorSocket a, Disc PredecessorSocket a]"
proof -
  let ?w = "out [Conn PredecessorSocket a] w"
  have "uninit32 ?w = uninit32 w" by (simp add: uninit32_def uninit_def)
  then obtain w' where "p2pm_try_live PredecessorSocket ?w = (P2PM_OP_DEAD, w')" "tx w' = tx ?w"
    using try_live_silent [of ?w PredecessorSocket "uninit32 ?w" 4] assms(4,5) by (auto simp: p2pm_try_live_def)
  then show ?thesis
    using assms(1,2,3) by (simp add: p2pm_join_def connect_ok predecessor_connected_def disconnect_ok)
qed

section \<open>Termination\<close>

lemma one_ring_runs: "p2p_ok p \<Longrightarrow> \<exists>p' w'. p2pm_form_one_ring p w = Some (P2PM_OP_SUCCESS, p', w')"
  using ni_blocks [of "node_list p"]
  by (simp add: p2pm_form_one_ring_def Let_def p2p_ok_def store_def)

lemma pred_lost_runs: "p2p_ok p \<Longrightarrow> \<exists>y. pred_lost p w = Some y"
  using one_ring_runs [of "p\<lparr>predecessor_socket_expected_actions := P2PM_NO_XPV,
             server_triggered_actions := P2PM_NO_XPV, successor_socket_expected_actions := P2PM_NO_XPV,
             predecessor_triggered_actions := P2PM_NO_XPV\<rparr>" w]
  by (auto simp: pred_lost_def one_ring_failure_def p2p_ok_def)

lemma zclock_consumes: "clk w \<noteq> [] \<Longrightarrow> length (clk (snd (zclock_mono w))) < length (clk w)"
  "length (clk (snd (zclock_mono w))) \<le> length (clk w)"
  by (simp_all add: zclock_mono_def split: list.split)

text \<open>
  The recursion of the handler ends: the inner call sees the clock reading of the outer one, so it recurs
  again only when the clock has moved, and a script of readings is finite.
\<close>

lemma predecessor_handler_runs:
  "p2p_ok p \<Longrightarrow> \<exists>y. predecessor_socket_handler ev p w = Some y"
proof (induction "length (clk w)" arbitrary: p w rule: less_induct)
  case less
  define w2 where "w2 = snd (zclock_mono (snd (zclock_mono w)))"
  define t where "t = fst (zclock_mono (snd (zclock_mono w)))"
  let ?x = "predecessor_socket_expected_actions p"
  let ?q = "p\<lparr>predecessor_lastpoll_time := t, server_triggered_actions := ?x\<rparr>"
  have q: "p2p_ok ?q" "p2p_ok (p\<lparr>predecessor_lastpoll_time := t\<rparr>)" using less.prems by (simp_all add: p2p_ok_def)
  have inner: "\<exists>y. predecessor_socket_handler ev ?q w2 = Some y" if "\<not> pl_predecessor ev"
  proof (cases "clk w = []")
    case True
    then have still: "w2 = w" "t = clk_last w" by (simp_all add: w2_def t_def zclock_still)
    show ?thesis using True that
      by (subst predecessor_socket_handler.simps) (simp add: still zclock_still Let_def split_beta)
  next
    case False
    then have "length (clk w2) < length (clk w)"
      using zclock_consumes(1) [OF False] zclock_consumes(2) [of "snd (zclock_mono w)"] by (simp add: w2_def)
    then show ?thesis using less.hyps q(1) by blast
  qed
  have lost: "\<exists>y. pred_lost (p\<lparr>predecessor_lastpoll_time := t\<rparr>) w2 = Some y" by (rule pred_lost_runs [OF q(2)])
  show ?case
    using inner lost
    by (subst predecessor_socket_handler.simps) (auto simp: Let_def split_beta t_def w2_def)
qed

section \<open>The loop that polls no more\<close>

definition readings :: "net \<Rightarrow> int set" where
  "readings w = insert (clk_last w) (set (clk w))"

lemma readings_clock: "fst (zclock_mono w) \<in> readings w" "readings (snd (zclock_mono w)) \<subseteq> readings w"
  by (auto simp: zclock_mono_def readings_def split: list.split)

text \<open>
  A node that is not a member, with nothing to do on its sockets, whose stabilisation timer is overdue.
\<close>

definition overdue :: "p2pm \<Rightarrow> net \<Rightarrow> bool" where
  "overdue p w \<longleftrightarrow> current_status p \<noteq> P2PM_NODE_MEMBER \<and> successor_socket_expected_actions p = P2PM_NO_XPV \<and>
     predecessor_socket_expected_actions p = P2PM_NO_XPV \<and> server_triggered_actions p = P2PM_NO_XPV \<and>
     \<not> send_has_token p \<and> \<not> recv_has_token p \<and>
     (\<forall>t \<in> readings w. t - last_stabilize_time p > stabilize_interval (config p))"

abbreviation nothing_polled :: polled where
  "nothing_polled \<equiv> \<lparr>pl_server = False, pl_successor = False, pl_predecessor = False\<rparr>"

lemma overdue_later: "overdue p w \<Longrightarrow> readings w' \<subseteq> readings w \<Longrightarrow>
    overdue (p\<lparr>successor_lastpoll_time := a, predecessor_lastpoll_time := b\<rparr>) w'"
  by (auto simp: overdue_def)

lemma overdue_loop:
  assumes "overdue p w"
  shows "\<exists>r a b w'. p2pm_loop_server nothing_polled p w =
      Some (r, p\<lparr>successor_lastpoll_time := a, predecessor_lastpoll_time := b\<rparr>, w') \<and> readings w' \<subseteq> readings w"
proof -
  have sub: "readings (snd (zclock_mono v)) \<subseteq> readings w" if "readings v \<subseteq> readings w" for v
    using readings_clock(2) [of v] that by blast
  have s: "\<exists>a w1. successor_socket_handler nothing_polled p w = Some (P2PM_OP_SUCCESS, p\<lparr>successor_lastpoll_time := a\<rparr>, w1) \<and>
      readings w1 \<subseteq> readings w"
    using assms exI [of "\<lambda>a. p = p\<lparr>successor_lastpoll_time := a\<rparr>" "successor_lastpoll_time p"]
    by (simp add: successor_socket_handler_def succ_machine_def overdue_def Let_def split_beta sub) blast
  then obtain a w1 where s: "successor_socket_handler nothing_polled p w = Some (P2PM_OP_SUCCESS, p\<lparr>successor_lastpoll_time := a\<rparr>, w1)"
    "readings w1 \<subseteq> readings w" by blast
  let ?p = "p\<lparr>successor_lastpoll_time := a\<rparr>"
  have "\<exists>r b w2. predecessor_socket_handler nothing_polled ?p w1 = Some (r, ?p\<lparr>predecessor_lastpoll_time := b\<rparr>, w2) \<and>
      readings w2 \<subseteq> readings w"
    using assms s(2) exI [of "\<lambda>b. ?p = ?p\<lparr>predecessor_lastpoll_time := b\<rparr>" "predecessor_lastpoll_time ?p"]
    by (subst predecessor_socket_handler.simps) (simp add: overdue_def Let_def split_beta sub, blast?)
  then obtain r b w2 where "predecessor_socket_handler nothing_polled ?p w1 = Some (r, ?p\<lparr>predecessor_lastpoll_time := b\<rparr>, w2)"
    "readings w2 \<subseteq> readings w" by blast
  moreover have "stabilize_timer p w = (p, w)" using assms by (simp add: stabilize_timer_def overdue_def)
  moreover have "p\<lparr>server_triggered_actions := P2PM_NO_XPV\<rparr> = p" using assms by (simp add: overdue_def)
  ultimately show ?thesis
    using s(1) assms by (intro exI [of _ P2PM_OP_SUCCESS] exI [of _ a] exI [of _ b] exI [of _ w2])
      (simp add: p2pm_loop_server_def overdue_def)
qed

lemma timeo_spins: "overdue p w \<Longrightarrow> process_timeo nothing_polled p w = None"
proof (rule ccontr)
  assume o: "overdue p w" and "process_timeo nothing_polled p w \<noteq> None"
  then obtain y where y: "process_timeo nothing_polled p w = Some y" by auto
  have "\<not> (ev = nothing_polled \<and> overdue p w)" if "process_timeo ev p w = Some y" for ev p w y
  proof (rule process_timeo.raw_induct [where P = "\<lambda>ev p w y. \<not> (ev = nothing_polled \<and> overdue p w)", OF _ that],
      goal_cases)
    case (1 rec ev p w y)
    show ?case
    proof
      assume a: "ev = nothing_polled \<and> overdue p w"
      obtain r t1 t2 w1 where l: "p2pm_loop_server nothing_polled p w =
          Some (r, p\<lparr>successor_lastpoll_time := t1, predecessor_lastpoll_time := t2\<rparr>, w1)" "readings w1 \<subseteq> readings w"
        using overdue_loop a by blast
      let ?p = "p\<lparr>successor_lastpoll_time := t1, predecessor_lastpoll_time := t2\<rparr>"
      have "deliver_token ?p w1 = (?p, w1)" using a by (simp add: deliver_token_def overdue_def)
      moreover have "stabilize_interval (config ?p) - (fst (zclock_mono w1) - last_stabilize_time ?p) < 0"
        using a l(2) readings_clock(1) [of w1] by (auto simp: overdue_def)
      ultimately have "rec nothing_polled ?p (snd (zclock_mono w1)) = Some y"
        using 1(2) a l(1) by (simp add: Let_def split_beta)
      moreover have "overdue ?p (snd (zclock_mono w1))"
        by (rule overdue_later [OF conjunct2 [OF a]]) (use l(2) readings_clock(2) [of w1] in blast)
      ultimately show False using 1(1) by blast
    qed
  qed
  with y o show False by blast
qed

section \<open>Client ids\<close>

text \<open>
  \<open>zmq_recv\<close> writes the id over the start of the buffer and nothing ends it, so an id shorter than the one
  before is completed with the end of that one.
\<close>

lemma ping_reply:
  assumes "clientid p = old" and "cstr (m @ drop (length m) old) = Some c" and "length m \<le> length old"
    and "send_ok w = []" and "rx w ServerSocket = RMsg m True # RMsg (be32 (req_code P2PM_PING_REQ)) mo # fs"
  shows "serve_request p w = Some (True, p\<lparr>clientid := m @ drop (length m) old\<rparr>,
    out [Tx ServerSocket c True, Tx ServerSocket (be32 (rep_code P2PM_PONG_REP)) False] (took ServerSocket fs mo w))"
proof -
  let ?w = "took ServerSocket (RMsg (be32 62) mo # fs) True w"
  have r1: "zmq_recv ServerSocket old w = (int (length m), m @ drop (length m) old, ?w)"
    using assms(3,5) by (simp add: zmq_recv_Msg took_def)
  have r2: "p2pm_recv_uint32 ServerSocket (uninit32 ?w) ?w = (P2PM_OP_SUCCESS, 62, took ServerSocket fs mo w)"
    using u32.recv_v_ok [of ?w ServerSocket 62 mo fs] by (simp add: took_def)
  show ?thesis
    using assms(1,2,4) r1 r2
    by (simp add: serve_request_def handle_request_def PING_REQ_handler_def send_client_ok)
qed

lemma stale_client_id:
  assumes "c_string x" and "c_string y" and "length y < length x" and "length x < P2PM_MAX_ID_LEN"
  shows "cstr (y @ drop (length y) (x @ zeros (P2PM_MAX_ID_LEN - length x))) = Some (y @ drop (length y) x)"
proof -
  have "c_string (y @ drop (length y) x)" using assms(1,2) by (auto simp: c_string_def dest: in_set_dropD)
  moreover obtain k where "P2PM_MAX_ID_LEN - length x = Suc k" using assms(4) by (metis Suc_diff_Suc)
  ultimately show ?thesis using cstr_padded [of "y @ drop (length y) x" k] assms(3) by simp
qed

section \<open>Stabilisation, at the successor\<close>

lemma stabilize_in_order:
  assumes "p2p_ok p" and "current_status p = P2PM_NODE_MEMBER \<or> current_status p = P2PM_NODE_HANDLING_STABILIZE"
    and "cstr (predecessor (node_list p)) = Some q" and "client_id i1 c1" and "client_id i2 c2" and "address a"
    and "send_ok w1 = []" and "rx w1 ServerSocket = str_frames a mo @ fs" and "conn_ok w2 = []"
  shows "\<exists>p1 w1' p2 w2'.
    STABILIZE_REQ_handler (from_client i1 p) w1 = Some (P2PM_OP_SUCCESS, p1, w1') \<and>
      tx w1' = tx w1 @ [Tx ServerSocket c1 True, Tx ServerSocket (be32 (rep_code P2PM_STABILIZE_ACK)) True,
        Tx ServerSocket (be32 (ni_r (node_list p))) True, Tx ServerSocket (slist_bytes (node_list p) w1) False] \<and>
    STABILIZE_SYN_REQ_handler (from_client i2 p1) w2 = Some (P2PM_OP_SUCCESS, p2, w2') \<and>
      tx w2' = tx w2 @ (if q = a then [] else [Disc PredecessorSocket q, Conn PredecessorSocket a]) \<and>
    current_status p2 = P2PM_NODE_MEMBER \<and> cstr (predecessor (node_list p2)) = Some a \<and> p2p_ok p2"
proof -
  note c1 = from_client_ok [OF assms(1,4)]
  let ?n = "node_list p"
  let ?t = "overwrite 0 (c_bytes a) (temp_predecessor ?n)"
  have n: "ni_wf ?n" using assms(1) by (rule p2p_ok_ni)
  note b = ni_blocks [OF n]
  have la: "PSTRLEN a \<le> P2PM_MAX_ID_LEN" using assms(6) by (simp add: address_def)
  have st: "store 0 (c_bytes a) (temp_predecessor ?n) = Some ?t" "length ?t = P2PM_MAX_ID_LEN"
    using b(4) la by (simp_all add: store_def length_overwrite)
  let ?p1 = "(from_client i1 p)\<lparr>current_status := P2PM_NODE_HANDLING_STABILIZE, node_list := ?n\<lparr>temp_predecessor := ?t\<rparr>\<rparr>"
  have rs: "recv_strp ServerSocket Null (out [Tx ServerSocket c1 True] w1) =
      Some (P2PM_OP_SUCCESS, Live (c_bytes a), out [Tx ServerSocket c1 True] (took ServerSocket fs mo w1))"
    using recv_str_frames [OF address_fits(1) [OF assms(6)], of "out [Tx ServerSocket c1 True] w1" ServerSocket mo fs] assms(8)
    by simp
  have g1: "STABILIZE_REQ_handler (from_client i1 p) w1 = Some (P2PM_OP_SUCCESS, ?p1,
      out [Tx ServerSocket c1 True, Tx ServerSocket (be32 (rep_code P2PM_STABILIZE_ACK)) True,
        Tx ServerSocket (be32 (ni_r ?n)) True, Tx ServerSocket (slist_bytes ?n w1) False] (took ServerSocket fs mo w1))"
    using assms(2,7) conjunct2 [OF c1] st(1) cstr_c_bytes0 [OF address_fits(2) [OF assms(6)]]
    by (auto simp: STABILIZE_REQ_handler_def send_client_ok rs Let_def slist_bytes_def)
  have ta: "cstr ?t = Some a" using address_fits(2) [OF assms(6)] by (rule cstr_overwrite0)
  have st2: "store 0 (zeros P2PM_MAX_ID_LEN) ?t = Some (zeros P2PM_MAX_ID_LEN)"
    "store 0 (c_bytes a) (predecessor ?n) = Some (overwrite 0 (c_bytes a) (predecessor ?n))"
    using st(2) b(2) la by (simp_all add: store_def overwrite_whole)
  have pa: "cstr (overwrite 0 (c_bytes a) (predecessor ?n)) = Some a" using address_fits(2) [OF assms(6)] by (rule cstr_overwrite0)
  obtain p2 w2' where g2: "STABILIZE_SYN_REQ_handler (from_client i2 ?p1) w2 = Some (P2PM_OP_SUCCESS, p2, w2')"
    "tx w2' = tx w2 @ (if q = a then [] else [Disc PredecessorSocket q, Conn PredecessorSocket a])"
    "current_status p2 = P2PM_NODE_MEMBER" "cstr (predecessor (node_list p2)) = Some a"
    using assms(3,9) ta st2 pa
    by (cases "q = a") (simp_all add: STABILIZE_SYN_REQ_handler_def Let_def disconnect_ok connect_ok)
  have ok1: "p2p_ok ?p1" using wlpD [OF simple_handlers_kept(7) [of "from_client i1 p" w1] g1] conjunct1 [OF c1] by (simp add: kept_def)
  have "p2p_ok p2"
    using wlpD [OF simple_handlers_kept(8) [of "from_client i2 ?p1" w2] g2(1)] conjunct1 [OF from_client_ok [OF ok1 assms(5)]]
    by (simp add: kept_def)
  with g1 g2 show ?thesis by auto
qed

end
