(* ===== verification/Daemon.thy ===== *)
theory Daemon
  imports ParserSpaces P2pRun
begin

text \<open>
  \<^verbatim>\<open>src/synergy4/synergy4_tsd.c\<close>: the start of a daemon from its configuration, and what the parser,
  the ring daemon and the tuple space daemon make of one configuration together. \<open>main\<close> is modelled
  until both daemons run; the system calls are input.
\<close>

definition THREAD_COUNT :: u32 where "THREAD_COUNT = 8"
definition STABILIZE_INTERVAL_MS :: int where "STABILIZE_INTERVAL_MS = 600000"
definition RECV_WAIT :: u32 where "RECV_WAIT = 5000"

record p2pm_init_args =
  ia_endpoint :: cptr
  ia_config :: p2pm_config
  ia_node_list :: p2pm_node_info
  ia_status :: p2pm_status

record main_calls =
  mc_zlog_init :: bool
  mc_categories :: bool
  mc_create :: create_calls

text \<open>The node list in the configuration, which the ring daemon works on in place.\<close>

definition node_info_of :: "sng_cfg \<Rightarrow> p2pm_node_info option" where
  "node_info_of c = do {
     l \<leftarrow> block (cfg_successor_list c);
     p \<leftarrow> block (cfg_predecessor c);
     s \<leftarrow> block (cfg_successor c);
     tp \<leftarrow> block (cfg_temp_predecessor c);
     ts \<leftarrow> block (cfg_temp_successor c);
     Some \<lparr>successor_list = l, predecessor = p, successor = s, temp_predecessor = tp, temp_successor = ts,
           ni_r = cfg_r c, r_max = cfg_r_max c\<rparr> }"

text \<open>\<open>Inl\<close> is an exit code, \<open>Inr\<close> what both daemons are started with.\<close>

definition main ::
  "('t, 'r, 's) tsd_lib \<Rightarrow> bson_lib \<Rightarrow> main_calls \<Rightarrow> (nat \<Rightarrow> sng_namespace) \<Rightarrow> sng_cfg \<Rightarrow> p2pm_config \<Rightarrow>
   nat \<Rightarrow> json_file \<Rightarrow> (int + p2pm_init_args \<times> ('t, 'r, 's) spaces) option" where
  "main L B os heap c pc argc file =
     (if argc \<noteq> 3 \<or> \<not> mc_zlog_init os \<or> \<not> mc_categories os then Some (Inl 1)
      else do {
        (e, c) \<leftarrow> sng_parse_config B heap file c;
        if e \<noteq> Returned P2PM_OP_SUCCESS then Some (Inl 1)
        else do {
          addr \<leftarrow> deref (cfg_predecessor c);
          let (_, pc) = p2pm_config_create pc addr THREAD_COUNT STABILIZE_INTERVAL_MS RECV_WAIT;
          n \<leftarrow> node_info_of c;
          sps \<leftarrow> namespaces_of c;
          (i, tab) \<leftarrow> tsd_create L (mc_create os) sps;
          if i \<noteq> 0 then do {
            let pc = p2pm_config_destroy pc;
            (_, c) \<leftarrow> sng_destroy_config c;
            Some (Inl 1) }
          else Some (Inr (\<lparr>ia_endpoint = p2pmd_endpoint c, ia_config = pc, ia_node_list = n,
            ia_status = p2pmd_mode c\<rparr>, tab)) } })"

section \<open>The node list of a configuration\<close>

lemma cfg_node:
  assumes "cfg_ok c"
  shows "\<exists>l p s. node_info_of c = Some \<lparr>successor_list = l, predecessor = p, successor = c_bytes s @ zeros (255 - length s),
      temp_predecessor = zeros 256, temp_successor = zeros 256, ni_r = cfg_r c, r_max = cfg_r_max c\<rparr> \<and>
    length l = unat (256 * cfg_r c) \<and> cstr l = Some s \<and> length s < 256 \<and> length p = 256"
  using assms by (auto simp: cfg_ok_def node_info_of_def)

text \<open>The list has as many slots as it has entries, so it is the list of a node only if that is the capacity.\<close>

lemma cfg_node_wf:
  assumes "cfg_ok c" and "unat (cfg_r c) < 2 ^ 24"
  shows "\<exists>n. node_info_of c = Some n \<and> length (successor_list n) = unat (cfg_r c) * 256 \<and>
    (ni_wf n \<longleftrightarrow> cfg_r_max c = cfg_r c)"
proof -
  obtain l p s where n: "node_info_of c = Some \<lparr>successor_list = l, predecessor = p, successor = c_bytes s @ zeros (255 - length s),
      temp_predecessor = zeros 256, temp_successor = zeros 256, ni_r = cfg_r c, r_max = cfg_r_max c\<rparr>"
    and l: "length l = unat (256 * cfg_r c)" and s: "cstr l = Some s" "length s < 256" and p: "length p = 256"
    using cfg_node [OF assms(1)] by auto
  have "unat (256 * cfg_r c) = unat (cfg_r c) * 256"
    using assms(2) by (simp add: unat_word_ariths mult.commute)
  moreover have "0 < length l" using s(1) by (cases l) (auto simp: cstr_def)
  ultimately show ?thesis
    using n l s p assms(2) by (auto simp: ni_wf_def word_unat_eq_iff)
qed

lemma copy_slots_overflow:
  "0 < k \<Longrightarrow> length l < (i + d + k) * 256 \<Longrightarrow> copy_slots k i d jk src l = None"
proof (induction k arbitrary: i l)
  case (Suc k)
  show ?case
  proof (cases "k = 0")
    case True
    then show ?thesis using Suc.prems by (simp add: store_def)
  next
    case False
    then show ?thesis
      using Suc.IH [of _ "i + 1"] Suc.prems by (auto simp: store_def length_overwrite split: bind_split)
  qed
qed simp

lemma copy_list_overflow:
  assumes "length (successor_list n) = k * 256" and "k < unat (r_max n)" and "unat (r_max n) < 2 ^ 24"
    and "k \<le> unat nr" and "unat nr < 2 ^ 32 - 1" and "cstr src = Some f" and "length f < 256" and "0 < k"
  shows "p2pm_ni_copy_successor_list n src nr w = None"
proof -
  define nr' where "nr' = (if nr + 1 > r_max n then r_max n - 1 else nr)"
  have "shl8 (nr' + 1) div 256 - 1 = min (Suc (unat nr)) (unat (r_max n)) - 1"
    unfolding nr'_def by (rule copy_count) (use assms in auto)
  moreover have "copy_slots (min (Suc (unat nr)) (unat (r_max n)) - 1) 0 1 (junk w) src (successor_list n) = None"
    by (rule copy_slots_overflow) (use assms in auto)
  ultimately show ?thesis
    using assms(6,7) by (simp add: p2pm_ni_copy_successor_list_def P2PM_MAX_ID_LEN_def Let_def nr'_def split: if_splits)
qed

lemma join_cmt_overflow:
  assumes "cstr (clientid p) = Some c" and "send_ok w = []"
    and "rx w ServerSocket = RMsg (be32 r) True # RMsg l mo # fs" and "r \<noteq> 0" and "unat r < 2 ^ 32 - 1"
    and "unat (r_max (node_list p)) < 2 ^ 24" and "length l \<le> unat (r_max (node_list p)) * 256"
    and "cstr l = Some f" and "length f < 256"
    and "length (successor_list (node_list p)) = k * 256" and "0 < k" and "k < unat (r_max (node_list p))" and "k \<le> unat r"
  shows "JOIN_CMT_handler p w = None"
proof (rule ccontr)
  assume not_none: "JOIN_CMT_handler p w \<noteq> None"
  let ?n = "node_list p" and ?e = "[Tx ServerSocket c True]"
  have sh: "shl8 (r_max ?n) = unat (r_max ?n) * 256" using assms(6) by (simp add: shl8_small)
  have rr: "p2pm_recv_uint32 ServerSocket (uninit32 (out ?e w)) (out ?e w) =
      (P2PM_OP_SUCCESS, r, out ?e (took ServerSocket (RMsg l mo # fs) True w))"
    using u32.recv_v_ok [of "out ?e w" ServerSocket r True "RMsg l mo # fs" "uninit32 (out ?e w)"] assms(3) by simp
  let ?w = "out ?e (took ServerSocket (RMsg l mo # fs) True w)"
  have lr: "zmq_recv ServerSocket (uninit ?w (unat (r_max ?n) * 256)) ?w =
      (int (length l), arrived w (unat (r_max ?n) * 256) l, out ?e (took ServerSocket fs mo w))"
    using recv_list [of ?w ServerSocket l mo fs "unat (r_max ?n) * 256"] assms(7) by simp
  have over: "p2pm_ni_copy_successor_list (?n\<lparr>ni_r := r, successor := su, successor_list := li, temp_successor := te\<rparr>)
      (arrived w (unat (r_max ?n) * 256) l) r v = None" if "length li = length (successor_list ?n)" for su li te v
    by (rule copy_list_overflow [where k = k and f = f])
       (use assms that in \<open>auto simp: arrived_def intro: cstr_prefix\<close>)
  show False
    using not_none assms(1,2,4) rr lr over
    by (auto simp: JOIN_CMT_handler_def send_client_ok Let_def split_beta sh fault_simps dest!: store_SomeD)
qed

end
