(* ===== verification/ParserRun.thy ===== *)
theory ParserRun
  imports Daemon
begin

text \<open>
  The parser on the documents it is meant for: a configuration printed in the order of the files of
  \<^verbatim>\<open>etc/\<close> is accepted with the values that were printed; and the start of the daemon from it.
\<close>

section \<open>Printing a configuration\<close>

record space_conf =
  sp_name :: string
  sp_id :: u32
  sp_mode :: ts_mode_t
  sp_master :: "string option"

record conf =
  co_member :: bool
  co_endpoint :: string
  co_list :: "string list"
  co_predecessor :: string
  co_r_max :: u32
  co_tsd :: string
  co_ipc :: string
  co_rf :: u32
  co_spaces :: "space_conf list"

fun decimal :: "nat \<Rightarrow> string" where
  "decimal n = (if n < 10 then [char_of (48 + n)] else decimal (n div 10) @ [char_of (48 + n mod 10)])"

declare decimal.simps [simp del]

definition json_array :: "bson list \<Rightarrow> bson" where
  "json_array vs = BArray (zip (map decimal [0..<length vs]) vs)"

fun mode_name :: "ts_mode_t \<Rightarrow> string" where
  "mode_name TsModeMaster = ''master''"
| "mode_name TsModeWorker = ''worker''"
| "mode_name TsModeP2P = ''p2p''"

definition space_doc :: "space_conf \<Rightarrow> bson" where
  "space_doc s = BDoc [(''id'', BInt32 (sp_id s)), (''name'', BUtf8 (sp_name s)), (''mode'', BUtf8 (mode_name (sp_mode s))),
     (''tsd_mode'', json_array (case sp_master s of None \<Rightarrow> [BUtf8 ''token''] | Some a \<Rightarrow> [BUtf8 ''direct'', BUtf8 a]))]"

definition config_doc :: "conf \<Rightarrow> elements" where
  "config_doc k =
     [(''p2pmd'', BDoc [(''mode'', BUtf8 (if co_member k then ''member'' else ''standalone'')),
        (''endpoint'', BUtf8 (co_endpoint k)), (''successor_list'', json_array (map BUtf8 (co_list k))),
        (''predecessor'', BUtf8 (co_predecessor k)), (''r'', BInt32 (word_of_nat (length (co_list k)))),
        (''r_max'', BInt32 (co_r_max k))]),
      (''tsd'', BDoc [(''endpoint'', BUtf8 (co_tsd k)), (''ipc'', BUtf8 (co_ipc k)), (''replication_factor'', BInt32 (co_rf k))]),
      (''spaces'', json_array (map space_doc (co_spaces k)))]"

text \<open>The strings fit their buffers with a terminator, and there is at least one successor.\<close>

definition space_conf_ok :: "space_conf \<Rightarrow> bool" where
  "space_conf_ok s \<longleftrightarrow> c_string (sp_name s) \<and> length (sp_name s) \<le> 25 \<and>
     (\<forall>a. sp_master s = Some a \<longrightarrow> c_string a \<and> length a < 256)"

definition conf_ok :: "conf \<Rightarrow> bool" where
  "conf_ok k \<longleftrightarrow> co_list k \<noteq> [] \<and> length (co_list k) < 2 ^ 24 \<and> (\<forall>s \<in> set (co_list k). c_string s \<and> length s < 256) \<and>
     c_string (co_predecessor k) \<and> length (co_predecessor k) < 256 \<and>
     length (co_spaces k) < 2 ^ 32 \<and> (\<forall>s \<in> set (co_spaces k). space_conf_ok s)"

section \<open>The section of the ring daemon\<close>

definition pad :: "string \<Rightarrow> bytes" where
  "pad s = s @ zeros (256 - length s)"

lemma length_pad [simp]: "length s \<le> 256 \<Longrightarrow> length (pad s) = 256"
  by (simp add: pad_def)

lemma cstr_pad [simp]: "c_string s \<Longrightarrow> length s < 256 \<Longrightarrow> cstr (pad s @ r) = Some s"
proof -
  assume "c_string s" and "length s < 256"
  then obtain n where "256 - length s = Suc n" by (cases "256 - length s") auto
  then have "pad s @ r = c_bytes s @ zeros n @ r" by (simp add: pad_def c_bytes_def)
  then show ?thesis using cstr_c_bytes [OF \<open>c_string s\<close>, of "zeros n @ r"] by simp
qed

lemma c_bytes_pad: "length s < 256 \<Longrightarrow> c_bytes s @ zeros (255 - length s) = pad s"
  by (simp add: c_bytes_def pad_def Suc_diff_Suc flip: replicate_Suc)

lemma length_pads: "\<forall>s \<in> set ss. length s < 256 \<Longrightarrow> length (concat (map pad ss)) = length ss * 256"
  by (induction ss) auto

lemma slot_pads:
  "\<forall>s \<in> set ss. length s < 256 \<Longrightarrow> i < length ss \<Longrightarrow> slot (concat (map pad ss)) i = pad (ss ! i)"
proof (induction ss arbitrary: i)
  case (Cons s ss)
  then show ?case by (cases i) (auto simp: slot_def)
qed simp

lemma copy_successors_run:
  assumes "map snd es = map BUtf8 ss" and "\<forall>s \<in> set ss. length s < 256"
    and "cfg_successor_list c = Live (pre @ zeros (length ss * 256))"
  shows "copy_successors (length pre) es c = Some (Inr (c\<lparr>cfg_successor_list := Live (pre @ concat (map pad ss))\<rparr>))"
  using assms
proof (induction ss arbitrary: es c pre)
  case Nil
  then show ?case by (cases c) simp
next
  case (Cons s ss)
  obtain k es' where es: "es = (k, BUtf8 s) # es'" and es': "map snd es' = map BUtf8 ss"
    using Cons.prems(1) by (cases es) auto
  have "store (length pre) s (pre @ zeros (length (s # ss) * 256)) = Some (pre @ pad s @ zeros (length ss * 256))"
    using Cons.prems(2) by (simp add: store_def overwrite_def pad_def flip: replicate_add)
  moreover have "copy_successors (length (pre @ pad s)) es' (c\<lparr>cfg_successor_list := Live ((pre @ pad s) @ zeros (length ss * 256))\<rparr>) =
      Some (Inr (c\<lparr>cfg_successor_list := Live (pre @ pad s @ concat (map pad ss))\<rparr>))"
    using Cons.IH [OF es', of "c\<lparr>cfg_successor_list := Live ((pre @ pad s) @ zeros (length ss * 256))\<rparr>" "pre @ pad s"] Cons.prems(2)
    by simp
  ultimately show ?case
    using Cons.prems(2,3) by (simp add: es P2PM_MAX_ID_LEN_def)
qed

lemma snd_json_array: "map snd (zip (map decimal [0..<length vs]) vs) = vs"
  by simp

lemma list_run:
  assumes "ss \<noteq> []" and "length ss < 2 ^ 24" and "\<forall>s \<in> set ss. length s < 256" and "\<not> bit (bv c) 4" and "\<not> bit (bv c) 2"
  shows "parse_successor_list (json_array (map BUtf8 ss)) c = Some (Inr (c\<lparr>r_list := word_of_nat (length ss),
    cfg_successor_list := Live (concat (map pad ss)), bv := bvset (bv c) 4\<rparr>))"
proof -
  let ?es = "zip (map decimal [0..<length ss]) (map BUtf8 ss)"
  have n: "unat (256 * word_of_nat (length ss) :: u32) = length ss * 256"
    using assms(2) by (simp add: unat_word_ariths unsigned_of_nat take_bit_nat_eq_self mult.commute)
  have "copy_successors 0 ?es (c\<lparr>r_list := word_of_nat (length ss), cfg_successor_list := Live (zeros (length ss * 256))\<rparr>)
      = Some (Inr (c\<lparr>r_list := word_of_nat (length ss), cfg_successor_list := Live (concat (map pad ss))\<rparr>))"
    using copy_successors_run [of ?es ss _ "[]"] assms(3) by simp
  then show ?thesis
    using assms(4,5) n by (simp add: parse_successor_list_def json_array_def Let_def bit_numbers P2PM_MAX_ID_LEN_def set_once_def)
qed

lemma str_is_literals [simp]:
  "str_is ''member'' ''member''" "\<not> str_is ''standalone'' ''member''" "str_is ''standalone'' ''standalone''"
  "str_is ''token'' ''token''" "\<not> str_is ''direct'' ''token''" "str_is ''direct'' ''direct''"
  "str_is (mode_name m) ''master'' \<longleftrightarrow> m = TsModeMaster" "str_is (mode_name m) ''worker'' \<longleftrightarrow> m = TsModeWorker"
  "str_is (mode_name m) ''p2p'' \<longleftrightarrow> m = TsModeP2P"
  by (cases m; simp add: str_is_def)+

lemma all_bits0: "bvset (bvset (bvset (bvset (bvset (bvset (bvset 0 0) 1) 4) 5) 4) 2) 3 = magic0"
  by (simp add: bvset_def magic0_def push_bit_numeral)

lemma p2pmd_field_simps:
  "p2pmd_field ''mode'' = parse_mode" "p2pmd_field ''endpoint'' = parse_endpoint" "p2pmd_field ''r'' = parse_r"
  "p2pmd_field ''r_max'' = parse_r_max" "p2pmd_field ''successor_list'' = parse_successor_list"
  "p2pmd_field ''predecessor'' = parse_predecessor"
  by (simp_all add: p2pmd_field_def fun_eq_iff)

lemma store_pad: "length s < 256 \<Longrightarrow> store 0 s (zeros 256) = Some (pad s)"
  by (simp add: store_def overwrite_def pad_def)

lemma p2pmd_run:
  assumes "conf_ok k" and "bv c = 0" and "init_find B ''p2pmd'' (config_doc k) = map_of (config_doc k) ''p2pmd''"
  shows "parse_p2pmd B (config_doc k) c = Some (Inr (c\<lparr>p2pmd_mode := if co_member k then P2PM_NODE_MEMBER else P2PM_NODE_JOINING,
    p2pmd_endpoint := Live (c_bytes (co_endpoint k)), r_list := word_of_nat (length (co_list k)),
    cfg_successor_list := Live (concat (map pad (co_list k))), cfg_predecessor := Live (pad (co_predecessor k)),
    cfg_r := word_of_nat (length (co_list k)), cfg_r_max := co_r_max k, bv := 0\<rparr>))"
proof -
  let ?c1 = "c\<lparr>p2pmd_mode := if co_member k then P2PM_NODE_MEMBER else P2PM_NODE_JOINING, bv := bvset 0 0\<rparr>"
  let ?c2 = "?c1\<lparr>p2pmd_endpoint := Live (c_bytes (co_endpoint k)), bv := bvset (bv ?c1) 1\<rparr>"
  let ?c3 = "?c2\<lparr>r_list := word_of_nat (length (co_list k)), cfg_successor_list := Live (concat (map pad (co_list k))),
    bv := bvset (bv ?c2) 4\<rparr>"
  let ?c4 = "?c3\<lparr>cfg_predecessor := Live (pad (co_predecessor k)), bv := bvset (bv ?c3) 5\<rparr>"
  let ?c5 = "?c4\<lparr>cfg_r := word_of_nat (length (co_list k)), bv := bvset (bvset (bv ?c4) 4) 2\<rparr>"
  let ?c6 = "?c5\<lparr>cfg_r_max := co_r_max k, bv := bvset (bv ?c5) 3\<rparr>"
  have 1: "parse_mode (BUtf8 (if co_member k then ''member'' else ''standalone'')) c = Some (Inr ?c1)"
    using assms(2) by (simp add: parse_mode_def set_once_def bit_numbers)
  have 2: "parse_endpoint (BUtf8 (co_endpoint k)) ?c1 = Some (Inr ?c2)"
    by (simp add: parse_endpoint_def set_once_def bit_numbers)
  have 3: "parse_successor_list (json_array (map BUtf8 (co_list k))) ?c2 = Some (Inr ?c3)"
    by (rule list_run) (use assms(1) in \<open>auto simp: conf_ok_def\<close>)
  have 4: "parse_predecessor (BUtf8 (co_predecessor k)) ?c3 = Some (Inr ?c4)"
    using assms(1) by (simp add: parse_predecessor_def set_once_def bit_numbers conf_ok_def P2PM_MAX_ID_LEN_def store_pad)
  have 5: "parse_r (BInt32 (word_of_nat (length (co_list k)))) ?c4 = Some (Inr ?c5)"
    by (simp add: parse_r_def set_once_def bit_numbers Let_def)
  have 6: "parse_r_max (BInt32 (co_r_max k)) ?c5 = Some (Inr ?c6)"
    by (simp add: parse_r_max_def set_once_def bit_numbers)
  have bits: "bv ?c6 = magic0" using all_bits0 by simp
  have find: "init_find B ''p2pmd'' (config_doc k) =
      Some (BDoc [(''mode'', BUtf8 (if co_member k then ''member'' else ''standalone'')),
        (''endpoint'', BUtf8 (co_endpoint k)), (''successor_list'', json_array (map BUtf8 (co_list k))),
        (''predecessor'', BUtf8 (co_predecessor k)), (''r'', BInt32 (word_of_nat (length (co_list k)))),
        (''r_max'', BInt32 (co_r_max k))])"
    unfolding assms(3) by (simp add: config_doc_def)
  have "parse_p2pmd B (config_doc k) c = Some (Inr (?c6\<lparr>bv := 0\<rparr>))"
    by (simp only: parse_p2pmd_def finish_p2pmd_def find option.case bson.case p2pmd_fields.simps p2pmd_field_simps 1 2 3 4 5 6 go_on_Some bits)
       simp
  then show ?thesis by simp
qed

section \<open>The tuple space daemon and its spaces\<close>

lemma iter_find_next: "bson_lib_ok B \<Longrightarrow> iter_find B k ((k, v) # es) = (Some v, es)"
  unfolding bson_lib_ok_def by (metis append_Nil list.simps(8) list.set(1) empty_iff)

lemma tsd_run:
  assumes "bson_lib_ok B"
  shows "parse_tsd B (config_doc k) c = Some (Inr (c\<lparr>tsd_endpoint := Live (c_bytes (co_tsd k)),
    tsd_ipc_endpoint := Live (c_bytes (co_ipc k)), tsd_rep_factor := co_rf k\<rparr>))"
  using assms
  by (simp add: parse_tsd_def iter_find_next Let_def) (simp add: bson_lib_ok_def config_doc_def iter_find_next Let_def assms)

text \<open>What the parser makes of a space in a block of the array.\<close>

definition parsed_space :: "space_conf \<Rightarrow> sng_namespace \<Rightarrow> sng_namespace" where
  "parsed_space s sp = sp\<lparr>cid := sint (sp_id s), cname := sp_name s @ zeros (30 - length (sp_name s)),
     cts_mode := sp_mode s, ctsd_mode := (if sp_master s = None then TsdModeToken else TsdModeDirect),
     cdirect_endpoint := (case sp_master s of None \<Rightarrow> cdirect_endpoint sp | Some a \<Rightarrow> pad a)\<rparr>"

lemma with_space_run:
  "spaces c = Spaces l \<Longrightarrow> i < length l \<Longrightarrow> f (l ! i) = Some sp \<Longrightarrow>
   with_space i f c = Some (c\<lparr>spaces := Spaces (l[i := sp])\<rparr>)"
  by (simp add: with_space_def)

lemma store_zeros: "length b = n \<Longrightarrow> store 0 (zeros n) b = Some (zeros n)"
  by (simp add: store_def overwrite_def)

lemma store_name: "length s \<le> 25 \<Longrightarrow> store 0 s (zeros 30) = Some (s @ zeros (30 - length s))"
  by (simp add: store_def overwrite_def)

lemma decimal_small: "decimal 0 = ''0''" "decimal (Suc 0) = ''1''"
  by (simp_all add: decimal.simps char_of_def bit_Suc_0_iff)

lemma atoi_small [simp]: "atoi ''0'' = 0" "atoi ''1'' = 1"
  by (simp_all add: atoi_def digit_def Let_def)

lemma all_bits1: "bvset (bvset (bvset (bvset 0 1) 0) 2) 3 = magic1"
  by (simp add: bvset_def magic1_def push_bit_numeral)

lemma space_run:
  assumes "space_conf_ok s" and "spaces c = Spaces l" and "i < length l" and "space_sized (l ! i)"
  shows "\<exists>fs. space_doc s = BDoc fs \<and> space_fields i fs (c\<lparr>bv := 0\<rparr>) =
    Some (Inr (c\<lparr>spaces := Spaces (l[i := parsed_space s (l ! i)]), bv := magic1\<rparr>))"
proof -
  let ?x = "l ! i"
  let ?x1 = "?x\<lparr>cid := sint (sp_id s)\<rparr>"
  let ?x2 = "?x1\<lparr>cname := sp_name s @ zeros (30 - length (sp_name s))\<rparr>"
  let ?x3 = "?x2\<lparr>cts_mode := sp_mode s\<rparr>"
  let ?c = "\<lambda>x b. c\<lparr>spaces := Spaces (l[i := x]), bv := b\<rparr>"
  have len: "length (cname ?x) = 30" "length (cdirect_endpoint ?x) = 256" using assms(4) by (simp_all add: space_sized_def)
  have ok: "length (sp_name s) \<le> 25" "\<And>a. sp_master s = Some a \<Longrightarrow> length a < 256"
    using assms(1) by (simp_all add: space_conf_ok_def)
  have 1: "space_field i ''id'' (BInt32 (sp_id s)) (c\<lparr>bv := 0\<rparr>) = Some (Inr (?c ?x1 (bvset 0 1)))"
    using assms(2,3) by (simp add: space_field_def space_id_def set_once_def space_bits with_space_run)
  have 2: "space_field i ''name'' (BUtf8 (sp_name s)) (?c ?x1 (bvset 0 1)) = Some (Inr (?c ?x2 (bvset (bvset 0 1) 0)))"
    using assms(3) ok(1) len
    by (simp add: space_field_def space_name_def set_once_def space_bits with_space_run store_zeros store_name)
  have 3: "space_field i ''mode'' (BUtf8 (mode_name (sp_mode s))) (?c ?x2 (bvset (bvset 0 1) 0)) =
      Some (Inr (?c ?x3 (bvset (bvset (bvset 0 1) 0) 2)))"
    using assms(3) by (cases "sp_mode s")
      (simp_all add: space_field_def space_mode_def set_once_def space_bits with_space_run Let_def str_is_def)
  have 4: "space_field i ''tsd_mode'' (json_array (case sp_master s of None \<Rightarrow> [BUtf8 ''token''] | Some a \<Rightarrow> [BUtf8 ''direct'', BUtf8 a]))
      (?c ?x3 (bvset (bvset (bvset 0 1) 0) 2)) = Some (Inr (?c (parsed_space s ?x) magic1))"
  proof (cases "sp_master s")
    case None
    then show ?thesis
      using assms(3) all_bits1
      by (simp add: json_array_def space_field_def space_tsd_mode_def set_once_def space_bits with_space_run decimal_small
          parsed_space_def)
  next
    case (Some a)
    have two: "[0..<Suc (Suc 0)] = [0, 1]" by simp
    show ?thesis
      using assms(3) all_bits1 ok(2) [OF Some] len Some
      by (simp add: json_array_def two space_field_def space_tsd_mode_def set_once_def space_bits with_space_run decimal_small
          parsed_space_def store_zeros store_pad P2PM_MAX_ID_LEN_def)
  qed
  show ?thesis
    unfolding space_doc_def bson.inject
    by (intro exI conjI, rule refl) (simp only: space_fields.simps 1 2 3 4 go_on_Some)
qed

text \<open>The whole array: the spaces before \<open>i\<close> are done, those from \<open>i\<close> on become the parsed ones.\<close>

lemma space_list_run:
  assumes "map snd es = map space_doc ss" and "\<forall>s \<in> set ss. space_conf_ok s"
    and "spaces c = Spaces l" and "length l = i + length ss" and "\<forall>sp \<in> set l. space_sized sp"
  shows "\<exists>b. space_list i es c =
    Some (Inr (c\<lparr>spaces := Spaces (take i l @ map2 parsed_space ss (drop i l)), bv := b\<rparr>))"
  using assms
proof (induction ss arbitrary: es c l i)
  case Nil
  then show ?case by (intro exI [of _ "bv c"]) (cases c, simp)
next
  case (Cons s ss)
  obtain k es' where es: "es = (k, space_doc s) # es'" and es': "map snd es' = map space_doc ss"
    using Cons.prems(1) by (cases es) auto
  have i: "i < length l" using Cons.prems(4) by simp
  have "l ! i \<in> set l" using i by simp
  then have sz: "space_sized (l ! i)" using Cons.prems(5) by blast
  let ?l = "l[i := parsed_space s (l ! i)]"
  let ?c = "c\<lparr>spaces := Spaces ?l, bv := magic1\<rparr>"
  obtain fs where fs: "space_doc s = BDoc fs" and run: "space_fields i fs (c\<lparr>bv := 0\<rparr>) = Some (Inr ?c)"
    using space_run [OF _ Cons.prems(3) i sz] Cons.prems(2) by auto
  have ps: "space_sized (parsed_space s (l ! i))"
    using sz Cons.prems(2) by (auto simp: parsed_space_def space_sized_def space_conf_ok_def split: option.split)
  have all: "\<forall>sp \<in> set ?l. space_sized sp"
    using Cons.prems(5) ps by (auto dest: set_update_subset_insert [THEN subsetD])
  obtain b where rest: "space_list (Suc i) es' ?c =
      Some (Inr (?c\<lparr>spaces := Spaces (take (Suc i) ?l @ map2 parsed_space ss (drop (Suc i) ?l)), bv := b\<rparr>))"
    using Cons.IH [OF es' _ _ _ all, of ?c "Suc i"] Cons.prems(2,4) by auto
  have "take (Suc i) ?l @ map2 parsed_space ss (drop (Suc i) ?l) = take i l @ map2 parsed_space (s # ss) (drop i l)"
    using i by (simp add: take_Suc_conv_app_nth flip: Cons_nth_drop_Suc)
  then show ?case using rest run by (intro exI [of _ b]) (simp add: es fs)
qed

definition parsed_config :: "conf \<Rightarrow> (nat \<Rightarrow> sng_namespace) \<Rightarrow> sng_cfg \<Rightarrow> bool" where
  "parsed_config k heap c \<longleftrightarrow>
     p2pmd_mode c = (if co_member k then P2PM_NODE_MEMBER else P2PM_NODE_JOINING) \<and>
     p2pmd_endpoint c = Live (c_bytes (co_endpoint k)) \<and>
     cfg_successor_list c = Live (concat (map pad (co_list k))) \<and> cfg_r c = word_of_nat (length (co_list k)) \<and>
     cfg_predecessor c = Live (pad (co_predecessor k)) \<and> cfg_successor c = Live (pad (hd (co_list k))) \<and>
     cfg_temp_predecessor c = Live (zeros 256) \<and> cfg_temp_successor c = Live (zeros 256) \<and>
     cfg_r_max c = co_r_max k \<and> tsd_endpoint c = Live (c_bytes (co_tsd k)) \<and>
     tsd_ipc_endpoint c = Live (c_bytes (co_ipc k)) \<and> tsd_rep_factor c = co_rf k \<and>
     namespaces_of c = Some (map2 parsed_space (co_spaces k) (map heap [0..<length (co_spaces k)]))"

lemma parse_run:
  assumes "conf_ok k" and "bson_lib_ok B" and heap: "\<forall>i. space_sized (heap i)"
  shows "\<exists>c'. sng_parse_config B heap (Document (config_doc k)) c = Some (Returned P2PM_OP_SUCCESS, c') \<and>
    parsed_config k heap c'"
proof -
  have find: "init_find B n (config_doc k) = map_of (config_doc k) n" for n
    using assms(2) by (simp add: bson_lib_ok_def)
  obtain c1 where c1: "parse_p2pmd B (config_doc k) (c\<lparr>bv := 0\<rparr>) = Some (Inr c1)"
    and c1_def: "c1 = c\<lparr>p2pmd_mode := if co_member k then P2PM_NODE_MEMBER else P2PM_NODE_JOINING,
    p2pmd_endpoint := Live (c_bytes (co_endpoint k)), r_list := word_of_nat (length (co_list k)),
    cfg_successor_list := Live (concat (map pad (co_list k))), cfg_predecessor := Live (pad (co_predecessor k)),
    cfg_r := word_of_nat (length (co_list k)), cfg_r_max := co_r_max k, bv := 0\<rparr>"
    using p2pmd_run [OF assms(1), of "c\<lparr>bv := 0\<rparr>" B] find by auto
  define c2 where "c2 = c1\<lparr>tsd_endpoint := Live (c_bytes (co_tsd k)), tsd_ipc_endpoint := Live (c_bytes (co_ipc k)),
    tsd_rep_factor := co_rf k\<rparr>"
  have c2: "parse_tsd B (config_doc k) c1 = Some (Inr c2)" unfolding c2_def by (rule tsd_run [OF assms(2)])
  let ?ss = "co_spaces k" and ?h = "map heap [0..<length (co_spaces k)]"
  let ?es = "zip (map decimal [0..<length ?ss]) (map space_doc ?ss)"
  let ?c = "c2\<lparr>num_spaces := word_of_nat (length ?ss), spaces := Spaces ?h\<rparr>"
  have ss: "\<forall>s \<in> set ?ss. space_conf_ok s" "length ?ss < 2 ^ 32" using assms(1) by (simp_all add: conf_ok_def)
  obtain b where "space_list 0 ?es ?c = Some (Inr (?c\<lparr>spaces := Spaces (map2 parsed_space ?ss ?h), bv := b\<rparr>))"
    using space_list_run [of ?es ?ss ?c ?h 0] ss heap by auto
  then have c3: "parse_spaces B heap (config_doc k) c2 =
      Some (Inr (?c\<lparr>spaces := Spaces (map2 parsed_space ?ss ?h), bv := b\<rparr>))"
    by (simp add: parse_spaces_def find) (simp add: config_doc_def json_array_def)
  obtain s rest where list: "co_list k = s # rest" and s: "c_string s" "length s < 256"
    using assms(1) by (cases "co_list k") (auto simp: conf_ok_def)
  have "unat (word_of_nat (length ?ss) :: u32) = length ?ss"
    using ss(2) by (simp add: unsigned_of_nat take_bit_nat_eq_self)
  then have "\<exists>c'. finish (?c\<lparr>spaces := Spaces (map2 parsed_space ?ss ?h), bv := b\<rparr>) = Some c' \<and> parsed_config k heap c'"
    using s by (simp add: finish_def namespaces_of_def c2_def c1_def list P2PM_MAX_ID_LEN_def parsed_config_def
        store_def overwrite_def c_bytes_pad)
  then show ?thesis
    using c1 c2 c3 by (auto simp: sng_parse_config_def)
qed

section \<open>The start of the daemon\<close>

definition shm_works :: "shm_calls \<Rightarrow> bool" where
  "shm_works os \<longleftrightarrow> sc_wsem os \<and> sc_rsem os \<and> sc_shm os \<and> sc_trunc os \<noteq> TruncErr \<and> sc_mmap os"

definition calls_work :: "main_calls \<Rightarrow> bool" where
  "calls_work os \<longleftrightarrow> mc_zlog_init os \<and> mc_categories os \<and> cc_log (mc_create os) \<and> cc_bind_local (mc_create os) \<and>
     cc_bind_server (mc_create os) \<and> (\<forall>n. shm_works (cc_shm (mc_create os) n))"

definition table_of :: "('t, 'r, 's) tsd_lib \<Rightarrow> sng_namespace list \<Rightarrow> ('t, 'r, 's) spaces \<Rightarrow> bool" where
  "table_of L sps tab \<longleftrightarrow> dom tab = {n. \<exists>sp \<in> set sps. cstr (cname sp) = Some n} \<and>
     (\<forall>n e. tab n = Some e \<longrightarrow> (\<exists>sp \<in> set sps. cstr (cname sp) = Some n \<and> e = create_element L sp n))"

lemma create_spaces_run:
  assumes "\<forall>n. shm_works (cc_shm os n)" and "\<forall>sp \<in> set sps. space_named sp" and "table_of L done tab"
  shows "\<exists>tab'. create_spaces L os sps tab = Some (0, tab') \<and> table_of L (done @ sps) tab'"
  using assms(2,3)
proof (induction sps arbitrary: "done" tab)
  case Nil
  then show ?case by simp
next
  case (Cons sp sps)
  obtain n where n: "cstr (cname sp) = Some n" and len: "length n \<le> 25"
    using Cons.prems(1) by (auto simp: space_named_def)
  have "table_of L (done @ [sp]) (tab(n \<mapsto> create_element L sp n))"
    using Cons.prems(2) n unfolding table_of_def by (auto split: if_splits)
  with Cons.IH Cons.prems(1) have "\<exists>tab'. create_spaces L os sps (tab(n \<mapsto> create_element L sp n)) = Some (0, tab') \<and>
      table_of L ((done @ [sp]) @ sps) tab'" by fastforce
  then obtain tab' where
    "create_spaces L os sps (tab(n \<mapsto> create_element L sp n)) = Some (0, tab')" and "table_of L (done @ sp # sps) tab'"
    unfolding append_assoc append.simps by blast
  then show ?case
    using n len assms(1)
    by (simp add: sprintf50_def create_shared_memory_def open_shared_memory_def shm_works_def)
qed

lemma main_run:
  assumes "sng_parse_config B heap (Document doc) c = Some (Returned P2PM_OP_SUCCESS, c')"
    and "cfg_successor_list c = Freed" and "spaces c = NoSpaces" and "\<forall>i. space_sized (heap i)"
    and "deref (cfg_predecessor c') = Some a" and "calls_work os"
  shows "\<exists>args tab n sps. main L B os heap c pc 3 (Document doc) = Some (Inr (args, tab)) \<and>
    node_info_of c' = Some n \<and> namespaces_of c' = Some sps \<and> table_of L sps tab \<and>
    args = \<lparr>ia_endpoint = p2pmd_endpoint c', ia_config = \<lparr>join_address = Live (c_bytes a), stabilize_interval = 600000,
      context_thread_count = 8, recv_wait = 5000\<rparr>, ia_node_list = n, ia_status = p2pmd_mode c'\<rparr>"
proof -
  obtain sps where ok: "cfg_ok c'" and sps: "namespaces_of c' = Some sps" and named: "\<forall>sp \<in> set sps. space_named sp"
    using parse_config_ok [OF assms(1-4)] by auto
  obtain n where n: "node_info_of c' = Some n" using cfg_node [OF ok] by auto
  have "length a < 256" using ok assms(5) cstr_length [of _ a] by (fastforce simp: cfg_ok_def)
  moreover have "table_of L [] Map.empty" by (simp add: table_of_def)
  then obtain tab where "create_spaces L (mc_create os) sps Map.empty = Some (0, tab)" and "table_of L sps tab"
    using create_spaces_run [OF _ named, of "mc_create os" L "[]" Map.empty] assms(6) by (auto simp: calls_work_def)
  ultimately show ?thesis
    using assms(1,5,6) n sps
    by (simp add: main_def calls_work_def p2pm_config_create_def Let_def tsd_create_def THREAD_COUNT_def
        STABILIZE_INTERVAL_MS_def RECV_WAIT_def)
qed

text \<open>A node whose capacity is larger than its list: the commit of a join writes past the list.\<close>

lemma parsed_list_overflow:
  assumes "cfg_ok c'" and "node_info_of c' = Some (node_list p)" and "cfg_r c' < cfg_r_max c'"
    and "unat (cfg_r_max c') < 2 ^ 24" and "client_id i cl" and "send_ok w = []"
    and "rx w ServerSocket = RMsg (be32 r) True # RMsg l mo # fs" and "cfg_r c' \<le> r" and "unat r < 2 ^ 32 - 1"
    and "length l \<le> unat (cfg_r_max c') * 256" and "cstr l = Some f" and "length f < 256"
  shows "JOIN_CMT_handler (from_client i p) w = None"
proof -
  have lt: "unat (cfg_r c') < unat (cfg_r_max c')" using assms(3) by (simp add: word_less_nat_alt)
  obtain s where len: "length (successor_list (node_list p)) = unat (cfg_r c') * 256"
    and rm: "r_max (node_list p) = cfg_r_max c'" and s: "cstr (successor_list (node_list p)) = Some s"
    using cfg_node [OF assms(1)] cfg_node_wf [OF assms(1)] lt assms(2,4) by auto
  have pos: "0 < unat (cfg_r c')" using len s by (cases "successor_list (node_list p)") (auto simp: cstr_def)
  have "unat (cfg_r c') \<le> unat r" using assms(8) by (simp add: word_le_nat_alt)
  moreover have "r \<noteq> 0" using calculation pos by auto
  moreover have "cstr (clientid (from_client i p)) = Some cl" using assms(5) by (simp add: client_id_def)
  ultimately show ?thesis
    using join_cmt_overflow [of "from_client i p" cl w r l mo fs f "unat (cfg_r c')"] assms rm len pos lt by simp
qed

end
