(* ===== verification/P2pRefine.thy ===== *)
theory P2pRefine
  imports P2pRun
begin

text \<open>
  A ring node as its protocol sees it: the names of the neighbours and of the slots of the successor list,
  a state and a trigger. \<open>ring_step\<close> is the protocol on names, one request at a time, refusals included;
  the requests of join, stabilisation and replication that \<^verbatim>\<open>src/p2pmd/p2pmd_server.c\<close> serves are shown
  to implement it, from the frames of the request to the frames of the answer.
\<close>

section \<open>The protocol on names\<close>

record ring_node =
  rn_status :: p2pm_status
  rn_pred :: string
  rn_succ :: string
  rn_tpred :: string
  rn_tsucc :: string
  rn_list :: "string list"
  rn_used :: nat
  rn_trigger :: p2pm_expected_actions
  rn_ttl :: u32

datatype ring_req =
    GetReq string | JoinReq string | JoinAbrt | JoinCmt "string list" | PredJoinCmt | PredJoinAbrt | Ping
  | StabReq string | StabSyn | StabNsyn | SyncSlist u32 "string list" | OneRingJoin string

text \<open>What a node sends to its client, the list of names as one frame, and what it does to its connections.\<close>

datatype ring_act = Frame bytes bool | Names "string list" | Unlink sock string | Link sock string

definition reply :: "p2pm_reptypes \<Rightarrow> bool \<Rightarrow> ring_act" where
  "reply r mo = Frame (be32 (rep_code r)) mo"

definition own_list :: "ring_node \<Rightarrow> ring_act list" where
  "own_list x = [Frame (be32 (word_of_nat (rn_used x))) True, Names (take (rn_used x) (rn_list x))]"

definition after_join :: "ring_node \<Rightarrow> ring_node" where
  "after_join x = (if rn_status x = P2PM_NODE_HANDLING_JOIN then x\<lparr>rn_status := P2PM_NODE_MEMBER\<rparr> else x)"

text \<open>The names are put behind the first, as far as there are slots; what is behind them stays.\<close>

definition adopt :: "string \<Rightarrow> string list \<Rightarrow> ring_node \<Rightarrow> ring_node" where
  "adopt s ns x = (let k = length (rn_list x) in
     x\<lparr>rn_list := take k (s # ns @ drop (Suc (length ns)) (rn_list x)), rn_used := min (Suc (length ns)) k\<rparr>)"

text \<open>\<open>c\<close> is the id of the client, and \<open>due\<close> says that the last stabilisation is not older than its interval.\<close>

fun ring_step :: "bool \<Rightarrow> string \<Rightarrow> ring_req \<Rightarrow> ring_node \<Rightarrow> ring_node \<times> ring_act list" where
  "ring_step due c (GetReq a) x = (let y = x\<lparr>rn_tsucc := a\<rparr> in
     if rn_status x = P2PM_NODE_ONE_RING then (y, [Frame c True, reply P2PM_GET_CONTACTED_ONE_RING False])
     else if rn_status x = P2PM_NODE_MEMBER
     then (y\<lparr>rn_status := P2PM_NODE_HANDLING_JOIN\<rparr>,
       [Frame c True, reply P2PM_GET_ACK True, Frame (be32 (str_len (rn_succ x))) True, Frame (c_bytes (rn_succ x)) False])
     else (y, [Frame c True, reply P2PM_GET_NACK False]))"
| "ring_step due c (JoinReq a) x = (let y = x\<lparr>rn_tpred := a\<rparr> in
     if rn_status x = P2PM_NODE_ONE_RING then (y, [Frame c True, reply P2PM_GET_CONTACTED_ONE_RING False])
     else if rn_status x = P2PM_NODE_MEMBER then (y, Frame c True # reply P2PM_JOIN_ACK1 True # own_list x)
     else (y, [Frame c True, reply P2PM_INVALID_REP False]))"
| "ring_step due c JoinAbrt x = ((after_join x)\<lparr>rn_tsucc := []\<rparr>, [])"
| "ring_step due c (JoinCmt ns) x =
     (if ns = [] then (x, [Frame c True, reply P2PM_INVALID_REP False])
      else (after_join ((adopt (rn_tsucc x) ns x)\<lparr>rn_succ := rn_tsucc x, rn_tsucc := [],
          rn_trigger := (if rn_status x = P2PM_NODE_MEMBER \<and> due then P2PM_XPV_REPLICATE_BACKWARDS else rn_trigger x)\<rparr>),
        [Frame c True, reply P2PM_JOIN_ACK2 False, Unlink SuccessorSocket (rn_succ x), Link SuccessorSocket (rn_tsucc x)]))"
| "ring_step due c PredJoinCmt x = (after_join (x\<lparr>rn_pred := rn_tpred x, rn_tpred := []\<rparr>),
     [Unlink PredecessorSocket (rn_pred x), Link PredecessorSocket (rn_tpred x)])"
| "ring_step due c PredJoinAbrt x = (after_join (x\<lparr>rn_tpred := []\<rparr>), [])"
| "ring_step due c Ping x = (x, [Frame c True, reply P2PM_PONG_REP False])"
| "ring_step due c (StabReq a) x =
     (if rn_status x \<noteq> P2PM_NODE_MEMBER \<and> rn_status x \<noteq> P2PM_NODE_HANDLING_STABILIZE
      then (x, [reply P2PM_STABILIZE_NACK False])
      else (x\<lparr>rn_status := P2PM_NODE_HANDLING_STABILIZE, rn_tpred := a\<rparr>,
        Frame c True # reply P2PM_STABILIZE_ACK True # own_list x))"
| "ring_step due c StabSyn x =
     (if rn_status x \<noteq> P2PM_NODE_HANDLING_STABILIZE then (x\<lparr>rn_tpred := []\<rparr>, [])
      else (x\<lparr>rn_pred := rn_tpred x, rn_tpred := [], rn_trigger := P2PM_NO_XPV, rn_status := P2PM_NODE_MEMBER\<rparr>,
        if rn_pred x = rn_tpred x then []
        else [Unlink PredecessorSocket (rn_pred x), Link PredecessorSocket (rn_tpred x)]))"
| "ring_step due c StabNsyn x =
     ((if rn_status x = P2PM_NODE_HANDLING_STABILIZE then x\<lparr>rn_status := P2PM_NODE_MEMBER\<rparr> else x)\<lparr>rn_tpred := []\<rparr>,
      [Frame c False])"
| "ring_step due c (SyncSlist ttl ns) x =
     (if ns = [] \<or> length (rn_list x) < length ns then (x, [Frame c True])
      else (if ttl = 1 then x
          else (adopt (hd (rn_list x)) ns x)\<lparr>rn_ttl := ttl - 1, rn_trigger := P2PM_XPV_RELAY_BACKWARDS\<rparr>,
        [Frame c True, reply P2PM_SYNC_SLIST_ACK False]))"
| "ring_step due c (OneRingJoin a) x =
     (if rn_status x \<noteq> P2PM_NODE_ONE_RING then (x, [Frame c True, reply P2PM_INVALID_REP False])
      else (let y = (if length a < P2PM_MAX_ID_LEN then x\<lparr>rn_pred := a, rn_succ := a\<rparr> else x) in
        (y\<lparr>rn_list := rn_succ y # replicate (length (rn_list x) - 1) [], rn_status := P2PM_NODE_MEMBER\<rparr>,
         [Frame c True, Link SuccessorSocket (rn_succ y), Link PredecessorSocket (rn_pred y),
          Frame (be32 (req_code P2PM_JOIN_CMT)) False])))"

section \<open>Requests and answers as frames\<close>

text \<open>A block of 256 bytes for each name.\<close>

definition names_in :: "bytes \<Rightarrow> string list \<Rightarrow> bool" where
  "names_in l ns \<longleftrightarrow> length l = length ns * 256 \<and> (\<forall>j < length ns. cstr (slot l j) = Some (ns ! j))"

fun performs :: "ring_act \<Rightarrow> event \<Rightarrow> bool" where
  "performs (Frame m mo) ev \<longleftrightarrow> ev = Tx ServerSocket m mo"
| "performs (Names ns) ev \<longleftrightarrow> (\<exists>l. ev = Tx ServerSocket l False \<and> names_in l ns)"
| "performs (Unlink s a) ev \<longleftrightarrow> ev = Disc s a"
| "performs (Link s a) ev \<longleftrightarrow> ev = Conn s a"

fun ring_code :: "ring_req \<Rightarrow> p2pm_reqtypes" where
  "ring_code (GetReq a) = P2PM_GET_REQ"
| "ring_code (JoinReq a) = P2PM_JOIN_REQ"
| "ring_code JoinAbrt = P2PM_JOIN_ABRT"
| "ring_code (JoinCmt ns) = P2PM_JOIN_CMT"
| "ring_code PredJoinCmt = P2PM_PRED_JOIN_CMT"
| "ring_code PredJoinAbrt = P2PM_PRED_JOIN_ABRT"
| "ring_code Ping = P2PM_PING_REQ"
| "ring_code (StabReq a) = P2PM_STABILIZE_REQ"
| "ring_code StabSyn = P2PM_STABILIZE_SYN_REQ"
| "ring_code StabNsyn = P2PM_STABILIZE_NSYN_REQ"
| "ring_code (SyncSlist ttl ns) = P2PM_SYNC_SLIST"
| "ring_code (OneRingJoin a) = P2PM_ONE_RING_JOIN_REQ"

text \<open>The frames behind the code; \<open>l\<close> is the list of names as bytes.\<close>

fun ring_args :: "bytes \<Rightarrow> ring_req \<Rightarrow> rframe list" where
  "ring_args l (GetReq a) = str_frames a False"
| "ring_args l (JoinReq a) = str_frames a False"
| "ring_args l (JoinCmt ns) = [RMsg (be32 (word_of_nat (length ns))) True, RMsg l False]"
| "ring_args l (StabReq a) = str_frames a False"
| "ring_args l (SyncSlist ttl ns) = [RMsg (be32 ttl) True, RMsg (be32 (word_of_nat (length ns))) True, RMsg l False]"
| "ring_args l (OneRingJoin a) = str_frames a False"
| "ring_args l _ = []"

definition ring_frames :: "bytes \<Rightarrow> bytes \<Rightarrow> ring_req \<Rightarrow> rframe list" where
  "ring_frames cid l q = RMsg cid True # RMsg (be32 (req_code (ring_code q))) (ring_args l q \<noteq> []) # ring_args l q"

text \<open>The frames that a refusal leaves on the socket.\<close>

fun ring_left :: "bytes \<Rightarrow> ring_req \<Rightarrow> ring_node \<Rightarrow> rframe list" where
  "ring_left l (JoinCmt ns) x = (if ns = [] then [RMsg l False] else [])"
| "ring_left l (StabReq a) x = (if rn_status x \<noteq> P2PM_NODE_MEMBER \<and> rn_status x \<noteq> P2PM_NODE_HANDLING_STABILIZE
     then str_frames a False else [])"
| "ring_left l (SyncSlist ttl ns) x = (if ns = [] \<or> length (rn_list x) < length ns then [RMsg l False] else [])"
| "ring_left l (OneRingJoin a) x = (if rn_status x \<noteq> P2PM_NODE_ONE_RING then str_frames a False else [])"
| "ring_left l _ x = []"

text \<open>
  The requests that are served safely: the address of a newcomer and of a stabilising node fits its block,
  which nothing tests, and the number of names fits 32 bits. The address of \<open>OneRingJoin\<close> may be of any
  length, and so may be the list of a commit.
\<close>

fun ring_req_ok :: "bytes \<Rightarrow> ring_req \<Rightarrow> bool" where
  "ring_req_ok l (GetReq a) \<longleftrightarrow> address a"
| "ring_req_ok l (JoinReq a) \<longleftrightarrow> address a"
| "ring_req_ok l (StabReq a) \<longleftrightarrow> address a"
| "ring_req_ok l (OneRingJoin a) \<longleftrightarrow> c_string a \<and> fits_int a"
| "ring_req_ok l (JoinCmt ns) \<longleftrightarrow> names_in l ns \<and> length ns < 2 ^ 32 - 1"
| "ring_req_ok l (SyncSlist ttl ns) \<longleftrightarrow> names_in l ns \<and> length ns < 2 ^ 32 - 1"
| "ring_req_ok l _ \<longleftrightarrow> True"

section \<open>The node as the protocol sees it\<close>

definition name_of :: "bytes \<Rightarrow> string" where
  "name_of b = (case cstr b of Some s \<Rightarrow> s | None \<Rightarrow> [])"

definition ring_view :: "p2pm \<Rightarrow> ring_node" where
  "ring_view p = (let n = node_list p in
     \<lparr>rn_status = current_status p, rn_pred = name_of (predecessor n), rn_succ = name_of (successor n),
      rn_tpred = name_of (temp_predecessor n), rn_tsucc = name_of (temp_successor n),
      rn_list = map (\<lambda>j. name_of (slot (successor_list n) j)) [0..<unat (r_max n)], rn_used = unat (ni_r n),
      rn_trigger = server_triggered_actions p, rn_ttl = last_ttl p\<rparr>)"

text \<open>All blocks and slots hold C strings, and no more slots are in use than there are.\<close>

definition ring_ok :: "p2pm \<Rightarrow> bool" where
  "ring_ok p \<longleftrightarrow> p2p_ok p \<and> (let n = node_list p in unat (ni_r n) \<le> unat (r_max n) \<and>
     (\<forall>b \<in> {predecessor n, successor n, temp_predecessor n, temp_successor n}. cstr b \<noteq> None) \<and>
     (\<forall>j < unat (r_max n). cstr (slot (successor_list n) j) \<noteq> None))"

text \<open>A request is done: the node, what was sent, what is left on the socket.\<close>

definition ring_done :: "bool \<Rightarrow> string \<Rightarrow> bytes \<Rightarrow> ring_req \<Rightarrow> rframe list \<Rightarrow> p2pm \<Rightarrow> net \<Rightarrow> p2pm \<Rightarrow> net \<Rightarrow> bool" where
  "ring_done due c l q fs p w p' w' \<longleftrightarrow> ring_ok p' \<and> ring_view p' = fst (ring_step due c q (ring_view p)) \<and>
     (\<exists>evs. tx w' = tx w @ evs \<and> list_all2 performs (snd (ring_step due c q (ring_view p))) evs) \<and>
     rx w' ServerSocket = ring_left l q (ring_view p) @ fs"

lemma ring_doneI:
  "ring_ok p' \<Longrightarrow> ring_view p' = fst (ring_step due c q (ring_view p)) \<Longrightarrow> tx w' = tx w @ evs \<Longrightarrow>
   list_all2 performs (snd (ring_step due c q (ring_view p))) evs \<Longrightarrow>
   rx w' ServerSocket = ring_left l q (ring_view p) @ fs \<Longrightarrow> ring_done due c l q fs p w p' w'"
  by (auto simp: ring_done_def)

lemma cstr_empty_block [simp]: "0 < n \<Longrightarrow> cstr (zeros n) = Some []"
  by (cases n) (simp_all add: cstr_def)

lemma name_of_simps [simp]:
  "0 < n \<Longrightarrow> name_of (zeros n) = []" "address a \<Longrightarrow> name_of (padded w a) = a"
  "c_string a \<Longrightarrow> name_of (overwrite 0 (c_bytes a) b) = a"
  by (simp_all add: name_of_def cstr_overwrite0)

lemma name_ofI: "cstr b = Some a \<Longrightarrow> name_of b = a"
  by (simp add: name_of_def)

lemma id_len_pos [simp]: "0 < P2PM_MAX_ID_LEN"
  by (simp add: P2PM_MAX_ID_LEN_def)

lemma cstr_name_of: "cstr b \<noteq> None \<Longrightarrow> cstr b = Some (name_of b)"
  by (auto simp: name_of_def)

lemma ring_okD:
  assumes "ring_ok p"
  shows "p2p_ok p" "unat (ni_r (node_list p)) \<le> unat (r_max (node_list p))"
    "cstr (predecessor (node_list p)) = Some (name_of (predecessor (node_list p)))"
    "cstr (successor (node_list p)) = Some (name_of (successor (node_list p)))"
    "cstr (temp_predecessor (node_list p)) = Some (name_of (temp_predecessor (node_list p)))"
    "cstr (temp_successor (node_list p)) = Some (name_of (temp_successor (node_list p)))"
    "j < unat (r_max (node_list p)) \<Longrightarrow> cstr (slot (successor_list (node_list p)) j) = Some (name_of (slot (successor_list (node_list p)) j))"
  using assms unfolding ring_ok_def Let_def by (blast intro: cstr_name_of)+

lemma ring_view_simps [simp]:
  "rn_status (ring_view p) = current_status p" "rn_pred (ring_view p) = name_of (predecessor (node_list p))"
  "rn_succ (ring_view p) = name_of (successor (node_list p))" "rn_tpred (ring_view p) = name_of (temp_predecessor (node_list p))"
  "rn_tsucc (ring_view p) = name_of (temp_successor (node_list p))" "rn_used (ring_view p) = unat (ni_r (node_list p))"
  "rn_list (ring_view p) = map (\<lambda>j. name_of (slot (successor_list (node_list p)) j)) [0..<unat (r_max (node_list p))]"
  "rn_trigger (ring_view p) = server_triggered_actions p" "rn_ttl (ring_view p) = last_ttl p"
  by (simp_all add: ring_view_def Let_def)

lemma ring_node_eqI:
  fixes x y :: ring_node
  assumes "rn_status x = rn_status y" "rn_pred x = rn_pred y" "rn_succ x = rn_succ y" "rn_tpred x = rn_tpred y"
    "rn_tsucc x = rn_tsucc y" "rn_list x = rn_list y" "rn_used x = rn_used y" "rn_trigger x = rn_trigger y" "rn_ttl x = rn_ttl y"
  shows "x = y"
  using assms by simp

lemma after_join_simps [simp]:
  "rn_pred (after_join x) = rn_pred x" "rn_succ (after_join x) = rn_succ x" "rn_tpred (after_join x) = rn_tpred x"
  "rn_tsucc (after_join x) = rn_tsucc x" "rn_list (after_join x) = rn_list x" "rn_used (after_join x) = rn_used x"
  "rn_trigger (after_join x) = rn_trigger x" "rn_ttl (after_join x) = rn_ttl x"
  "rn_status (after_join x) = (if rn_status x = P2PM_NODE_HANDLING_JOIN then P2PM_NODE_MEMBER else rn_status x)"
  by (simp_all add: after_join_def)

text \<open>Updates of the blocks that hold names.\<close>

lemma ring_ok_blocks:
  assumes "ring_ok p"
  shows "length b = 256 \<Longrightarrow> cstr b = Some a \<Longrightarrow> ring_ok (p\<lparr>node_list := (node_list p)\<lparr>temp_successor := b\<rparr>\<rparr>)"
    "length b = 256 \<Longrightarrow> cstr b = Some a \<Longrightarrow> ring_ok (p\<lparr>node_list := (node_list p)\<lparr>temp_predecessor := b\<rparr>\<rparr>)"
    "length b = 256 \<Longrightarrow> cstr b = Some a \<Longrightarrow> length d = 256 \<Longrightarrow> cstr d = Some e \<Longrightarrow>
      ring_ok (p\<lparr>node_list := (node_list p)\<lparr>predecessor := b, temp_predecessor := d\<rparr>\<rparr>)"
  using assms by (auto simp: ring_ok_def Let_def p2p_ok_def ni_wf_def)

lemma ring_ok_frame [simp]:
  "ring_ok (p\<lparr>current_status := st\<rparr>) = ring_ok p" "ring_ok (p\<lparr>server_triggered_actions := x\<rparr>) = ring_ok p"
  "ring_ok (p\<lparr>last_ttl := t\<rparr>) = ring_ok p"
  by (simp_all add: ring_ok_def p2p_ok_def)

lemma list_names_in:
  assumes "ring_ok p"
  shows "names_in (slist_bytes (node_list p) w) (take (unat (ni_r (node_list p)))
    (map (\<lambda>j. name_of (slot (successor_list (node_list p)) j)) [0..<unat (r_max (node_list p))]))"
proof -
  let ?n = "node_list p"
  have n: "ni_wf ?n" by (rule p2p_ok_ni [OF ring_okD(1) [OF assms]])
  note r = ring_okD(2) [OF assms]
  have le: "unat (ni_r ?n) * 256 \<le> length (successor_list ?n)" using n r by (simp add: ni_wf_def)
  have b: "slist_bytes ?n w = take (unat (ni_r ?n) * 256) (successor_list ?n)"
    using le n r by (simp add: slist_bytes_def ni_wf_def shl8_small load_def)
  have "slot (take (unat (ni_r ?n) * 256) l) j = slot l j" if "j < unat (ni_r ?n)" for l j
  proof -
    have "256 \<le> unat (ni_r ?n) * 256 - j * 256" using that by (simp add: Suc_le_eq flip: diff_mult_distrib)
    then show ?thesis by (simp add: slot_def drop_take min_def)
  qed
  moreover have "length (take (unat (ni_r ?n)) (map (\<lambda>j. name_of (slot (successor_list ?n) j)) [0..<unat (r_max ?n)])) = unat (ni_r ?n)"
    using r by simp
  moreover have "j < unat (r_max ?n)" if "j < unat (ni_r ?n)" for j using r that by simp
  moreover have "length (take (unat (ni_r ?n) * 256) (successor_list ?n)) = unat (ni_r ?n) * 256" using le by simp
  ultimately show ?thesis using ring_okD(7) [OF assms] unfolding names_in_def b by (simp only:) simp
qed

section \<open>The requests, one by one\<close>

lemma handled_get_req:
  assumes "ring_ok p" and "cstr (clientid p) = Some c" and "send_ok w = []" and "address a"
    and "rx w ServerSocket = str_frames a False @ fs"
  shows "\<exists>r p' w'. GET_REQ_handler p w = Some (r, p', w') \<and> ring_done due c l (GetReq a) fs p w p' w'"
proof -
  let ?p = "p\<lparr>node_list := (node_list p)\<lparr>temp_successor := padded w a\<rparr>\<rparr>"
  let ?q = "?p\<lparr>current_status := (if current_status p = P2PM_NODE_MEMBER then P2PM_NODE_HANDLING_JOIN else current_status p)\<rparr>"
  let ?w = "out (Tx ServerSocket c True # get_reply p (name_of (successor (node_list p)))) (took ServerSocket fs False w)"
  obtain r where r: "GET_REQ_handler p w = Some (r, ?q, ?w)"
    using get_req_run [OF ring_okD(1) [OF assms(1)] assms(2-5) ring_okD(4) [OF assms(1)]] by blast
  have "ring_ok ?p" using ring_ok_blocks(1) [OF assms(1), of "padded w a" a] assms(4) by (simp add: P2PM_MAX_ID_LEN_def)
  then have "ring_done due c l (GetReq a) fs p w ?q ?w"
    using assms(4) by (intro ring_doneI [where evs = "Tx ServerSocket c True # get_reply p (name_of (successor (node_list p)))"])
      (auto simp: Let_def get_reply_def reply_def intro!: ring_node_eqI)
  then show ?thesis using r by blast
qed

lemma own_list_performed:
  assumes "ring_ok p"
  shows "list_all2 performs (own_list (ring_view p))
    [Tx ServerSocket (be32 (ni_r (node_list p))) True, Tx ServerSocket (slist_bytes (node_list p) w) False]"
  using list_names_in [OF assms, of w] by (simp add: own_list_def)

lemma handled_join_req:
  assumes "ring_ok p" and "cstr (clientid p) = Some c" and "send_ok w = []" and "address a"
    and "rx w ServerSocket = str_frames a False @ fs"
  shows "\<exists>r p' w'. JOIN_REQ_handler p w = Some (r, p', w') \<and> ring_done due c l (JoinReq a) fs p w p' w'"
proof -
  note n = p2p_ok_ni [OF ring_okD(1) [OF assms(1)]]
  let ?t = "overwrite 0 (c_bytes a) (temp_predecessor (node_list p))"
  let ?p = "p\<lparr>node_list := (node_list p)\<lparr>temp_predecessor := ?t\<rparr>\<rparr>"
  let ?e = "Tx ServerSocket c True # (if current_status p = P2PM_NODE_ONE_RING
      then [Tx ServerSocket (be32 (rep_code P2PM_GET_CONTACTED_ONE_RING)) False]
    else if current_status p = P2PM_NODE_MEMBER then [Tx ServerSocket (be32 (rep_code P2PM_JOIN_ACK1)) True,
      Tx ServerSocket (be32 (ni_r (node_list p))) True, Tx ServerSocket (slist_bytes (node_list p) w) False]
    else [Tx ServerSocket (be32 (rep_code P2PM_INVALID_REP)) False])"
  let ?w = "out ?e (took ServerSocket fs False w)"
  have st: "store 0 (c_bytes a) (temp_predecessor (node_list p)) = Some ?t"
    using ni_blocks(4) [OF n] assms(4) by (simp add: store_def address_def)
  have rs: "recv_strp ServerSocket Freed (out [Tx ServerSocket c True] w) =
      Some (P2PM_OP_SUCCESS, Live (c_bytes a), out [Tx ServerSocket c True] (took ServerSocket fs False w))"
    using recv_str_frames [OF address_fits(1) [OF assms(4)], of "out [Tx ServerSocket c True] w" ServerSocket False fs] assms(5)
    by simp
  have "\<exists>r. JOIN_REQ_handler p w = Some (r, ?p, ?w)"
    using assms(2,3) st cstr_c_bytes0 [OF address_fits(2) [OF assms(4)]]
    by (cases "current_status p = P2PM_NODE_ONE_RING"; cases "current_status p = P2PM_NODE_MEMBER")
      (simp_all add: JOIN_REQ_handler_def send_client_ok rs Let_def slist_bytes_def)
  then obtain r where r: "JOIN_REQ_handler p w = Some (r, ?p, ?w)" by blast
  have "length ?t = 256" using n assms(4) by (simp add: ni_wf_def length_overwrite address_def P2PM_MAX_ID_LEN_def)
  then have "ring_ok ?p" using ring_ok_blocks(2) [OF assms(1), of ?t a] cstr_overwrite0 [OF address_fits(2) [OF assms(4)]] by simp
  then have "ring_done due c l (JoinReq a) fs p w ?p ?w"
    using address_fits(2) [OF assms(4)] own_list_performed [OF assms(1), of w] by (intro ring_doneI [where evs = ?e])
      (auto simp: Let_def reply_def intro!: ring_node_eqI)
  then show ?thesis using r by blast
qed

lemma ring_view_status: "ring_view (p\<lparr>current_status := st\<rparr>) = (ring_view p)\<lparr>rn_status := st\<rparr>"
  by (simp add: ring_view_def Let_def)

lemma zeros_256: "length (zeros P2PM_MAX_ID_LEN) = 256" "cstr (zeros P2PM_MAX_ID_LEN) = Some []"
  by (simp_all add: P2PM_MAX_ID_LEN_def)

lemma handled_short:
  assumes "ring_ok p" and "cstr (clientid p) = Some c" and "send_ok w = []" and "conn_ok w = []" and "rx w ServerSocket = fs"
  shows "\<exists>r p' w'. JOIN_ABRT_handler p w = Some (r, p', w') \<and> ring_done due c l JoinAbrt fs p w p' w'"
    and "\<exists>r p' w'. PRED_JOIN_ABRT_handler p w = Some (r, p', w') \<and> ring_done due c l PredJoinAbrt fs p w p' w'"
    and "\<exists>r p' w'. PING_REQ_handler p w = Some (r, p', w') \<and> ring_done due c l Ping fs p w p' w'"
    and "\<exists>r p' w'. STABILIZE_NSYN_REQ_handler p w = Some (r, p', w') \<and> ring_done due c l StabNsyn fs p w p' w'"
proof -
  note b = ni_blocks [OF p2p_ok_ni [OF ring_okD(1) [OF assms(1)]]]
  note z = ring_ok_blocks(1,2) [OF assms(1) zeros_256]
  have st: "store 0 (zeros P2PM_MAX_ID_LEN) (temp_successor (node_list p)) = Some (zeros P2PM_MAX_ID_LEN)"
    "store 0 (zeros P2PM_MAX_ID_LEN) (temp_predecessor (node_list p)) = Some (zeros P2PM_MAX_ID_LEN)"
    using b by (simp_all add: store_def overwrite_whole)
  let ?j = "if current_status p = P2PM_NODE_HANDLING_JOIN then P2PM_NODE_MEMBER else current_status p"
  let ?s = "if current_status p = P2PM_NODE_HANDLING_STABILIZE then P2PM_NODE_MEMBER else current_status p"
  let ?a = "p\<lparr>node_list := (node_list p)\<lparr>temp_successor := zeros P2PM_MAX_ID_LEN\<rparr>\<rparr>"
  let ?b = "p\<lparr>node_list := (node_list p)\<lparr>temp_predecessor := zeros P2PM_MAX_ID_LEN\<rparr>\<rparr>"
  have "JOIN_ABRT_handler p w = Some (P2PM_OP_SUCCESS, ?a\<lparr>current_status := ?j\<rparr>, w)"
    using st by (simp add: JOIN_ABRT_handler_def Let_def)
  moreover have "ring_done due c l JoinAbrt fs p w (?a\<lparr>current_status := ?j\<rparr>) w"
    using z assms(5) by (intro ring_doneI [where evs = "[]"]) (auto intro!: ring_node_eqI)
  ultimately show "\<exists>r p' w'. JOIN_ABRT_handler p w = Some (r, p', w') \<and> ring_done due c l JoinAbrt fs p w p' w'" by blast
  have "PRED_JOIN_ABRT_handler p w = Some (P2PM_OP_SUCCESS, ?b\<lparr>current_status := ?j\<rparr>, w)"
    using st by (simp add: PRED_JOIN_ABRT_handler_def Let_def)
  moreover have "ring_done due c l PredJoinAbrt fs p w (?b\<lparr>current_status := ?j\<rparr>) w"
    using z assms(5) by (intro ring_doneI [where evs = "[]"]) (auto intro!: ring_node_eqI)
  ultimately show "\<exists>r p' w'. PRED_JOIN_ABRT_handler p w = Some (r, p', w') \<and> ring_done due c l PredJoinAbrt fs p w p' w'" by blast
  let ?e = "[Tx ServerSocket c True, Tx ServerSocket (be32 (rep_code P2PM_PONG_REP)) False]"
  have "PING_REQ_handler p w = Some (P2PM_OP_SUCCESS, p, out ?e w)"
    using assms(2,3) by (simp add: PING_REQ_handler_def send_client_ok)
  moreover have "ring_done due c l Ping fs p w p (out ?e w)"
    using assms(1,5) by (intro ring_doneI [where evs = ?e]) (auto simp: reply_def)
  ultimately show "\<exists>r p' w'. PING_REQ_handler p w = Some (r, p', w') \<and> ring_done due c l Ping fs p w p' w'" by blast
  let ?d = "?b\<lparr>current_status := ?s\<rparr>" and ?f = "[Tx ServerSocket c False]"
  have "STABILIZE_NSYN_REQ_handler p w = Some (P2PM_OP_SUCCESS, ?d, out ?f w)"
    using st assms(2,3) by (simp add: STABILIZE_NSYN_REQ_handler_def Let_def send_client_ok)
  moreover have "ring_done due c l StabNsyn fs p w ?d (out ?f w)"
    using z assms(5) by (intro ring_doneI [where evs = ?f]) (auto intro!: ring_node_eqI)
  ultimately show "\<exists>r p' w'. STABILIZE_NSYN_REQ_handler p w = Some (r, p', w') \<and> ring_done due c l StabNsyn fs p w p' w'" by blast
qed

lemma handled_pred_join_cmt:
  assumes "ring_ok p" and "send_ok w = []" and "conn_ok w = []" and "rx w ServerSocket = fs"
  shows "\<exists>r p' w'. PRED_JOIN_CMT_handler p w = Some (r, p', w') \<and> ring_done due c l PredJoinCmt fs p w p' w'"
proof -
  note n = p2p_ok_ni [OF ring_okD(1) [OF assms(1)]]
  let ?q = "name_of (predecessor (node_list p))" and ?a = "name_of (temp_predecessor (node_list p))"
  let ?p = "p\<lparr>node_list := (node_list p)\<lparr>predecessor := temp_predecessor (node_list p), temp_predecessor := zeros P2PM_MAX_ID_LEN\<rparr>\<rparr>"
  let ?d = "?p\<lparr>current_status := (if current_status p = P2PM_NODE_HANDLING_JOIN then P2PM_NODE_MEMBER else current_status p)\<rparr>"
  let ?e = "[Disc PredecessorSocket ?q, Conn PredecessorSocket ?a]"
  have "PRED_JOIN_CMT_handler p w = Some (P2PM_OP_SUCCESS, ?d, out ?e w)"
    using pred_join_cmt_run [OF ring_okD(1) [OF assms(1)] assms(2,3) ring_okD(3,5) [OF assms(1)]] by simp
  moreover have "ring_ok ?p"
    using n ring_okD(5) [OF assms(1)] by (intro ring_ok_blocks(3) [OF assms(1) _ _ zeros_256]) (simp_all add: ni_wf_def)
  then have "ring_done due c l PredJoinCmt fs p w ?d (out ?e w)"
    using assms(4) by (intro ring_doneI [where evs = ?e]) (auto intro!: ring_node_eqI)
  ultimately show ?thesis by blast
qed

lemma handled_stab_req:
  assumes "ring_ok p" and "cstr (clientid p) = Some c" and "send_ok w = []" and "address a"
    and "rx w ServerSocket = str_frames a False @ fs"
  shows "\<exists>r p' w'. STABILIZE_REQ_handler p w = Some (r, p', w') \<and> ring_done due c l (StabReq a) fs p w p' w'"
proof (cases "current_status p \<noteq> P2PM_NODE_MEMBER \<and> current_status p \<noteq> P2PM_NODE_HANDLING_STABILIZE")
  case True
  let ?e = "[Tx ServerSocket (be32 (rep_code P2PM_STABILIZE_NACK)) False]"
  have "STABILIZE_REQ_handler p w = Some (P2PM_OP_FAILURE, p, out ?e w)"
    using True assms(3) by (simp add: STABILIZE_REQ_handler_def Let_def)
  moreover have "ring_done due c l (StabReq a) fs p w p (out ?e w)"
    using True assms(1,5) by (intro ring_doneI [where evs = ?e]) (auto simp: reply_def)
  ultimately show ?thesis by blast
next
  case False
  note n = p2p_ok_ni [OF ring_okD(1) [OF assms(1)]]
  let ?t = "overwrite 0 (c_bytes a) (temp_predecessor (node_list p))"
  let ?p = "p\<lparr>node_list := (node_list p)\<lparr>temp_predecessor := ?t\<rparr>\<rparr>"
  let ?d = "?p\<lparr>current_status := P2PM_NODE_HANDLING_STABILIZE\<rparr>"
  let ?e = "[Tx ServerSocket c True, Tx ServerSocket (be32 (rep_code P2PM_STABILIZE_ACK)) True,
    Tx ServerSocket (be32 (ni_r (node_list p))) True, Tx ServerSocket (slist_bytes (node_list p) w) False]"
  let ?w = "out ?e (took ServerSocket fs False w)"
  have st: "store 0 (c_bytes a) (temp_predecessor (node_list p)) = Some ?t"
    using ni_blocks(4) [OF n] assms(4) by (simp add: store_def address_def)
  have rs: "recv_strp ServerSocket Null (out [Tx ServerSocket c True] w) =
      Some (P2PM_OP_SUCCESS, Live (c_bytes a), out [Tx ServerSocket c True] (took ServerSocket fs False w))"
    using recv_str_frames [OF address_fits(1) [OF assms(4)], of "out [Tx ServerSocket c True] w" ServerSocket False fs] assms(5)
    by simp
  have "STABILIZE_REQ_handler p w = Some (P2PM_OP_SUCCESS, ?d, ?w)"
    using False assms(2,3) st cstr_c_bytes0 [OF address_fits(2) [OF assms(4)]]
    by (simp add: STABILIZE_REQ_handler_def send_client_ok rs Let_def slist_bytes_def)
  moreover have "length ?t = 256" using n assms(4) by (simp add: ni_wf_def length_overwrite address_def P2PM_MAX_ID_LEN_def)
  then have "ring_ok ?p" using ring_ok_blocks(2) [OF assms(1), of ?t a] cstr_overwrite0 [OF address_fits(2) [OF assms(4)]] by simp
  then have "ring_done due c l (StabReq a) fs p w ?d ?w"
    using False address_fits(2) [OF assms(4)] own_list_performed [OF assms(1), of w] by (intro ring_doneI [where evs = ?e])
      (auto simp: Let_def reply_def intro!: ring_node_eqI)
  ultimately show ?thesis by blast
qed

lemma handled_stab_syn:
  assumes "ring_ok p" and "conn_ok w = []" and "rx w ServerSocket = fs"
  shows "\<exists>r p' w'. STABILIZE_SYN_REQ_handler p w = Some (r, p', w') \<and> ring_done due c l StabSyn fs p w p' w'"
proof -
  note n = p2p_ok_ni [OF ring_okD(1) [OF assms(1)]]
  note pr = ring_okD(3) [OF assms(1)] and tp = ring_okD(5) [OF assms(1)]
  let ?q = "name_of (predecessor (node_list p))" and ?a = "name_of (temp_predecessor (node_list p))"
  let ?b = "overwrite 0 (c_bytes ?a) (predecessor (node_list p))"
  have l: "length ?a < 256" using cstr_length [OF tp] n by (simp add: ni_wf_def)
  have st: "store 0 (zeros P2PM_MAX_ID_LEN) (temp_predecessor (node_list p)) = Some (zeros P2PM_MAX_ID_LEN)"
    "store 0 (c_bytes ?a) (predecessor (node_list p)) = Some ?b" "length ?b = 256"
    using ni_blocks [OF n] l n by (simp_all add: store_def overwrite_whole P2PM_MAX_ID_LEN_def ni_wf_def length_overwrite)
  have cb: "cstr ?b = Some ?a" by (rule cstr_overwrite0 [OF cstr_c_string [OF tp]])
  let ?p0 = "p\<lparr>node_list := (node_list p)\<lparr>temp_predecessor := zeros P2PM_MAX_ID_LEN\<rparr>\<rparr>"
  let ?p1 = "p\<lparr>node_list := (node_list p)\<lparr>predecessor := ?b, temp_predecessor := zeros P2PM_MAX_ID_LEN\<rparr>\<rparr>"
  have ok: "ring_ok ?p0" "ring_ok ?p1"
    using ring_ok_blocks(2) [OF assms(1) zeros_256] ring_ok_blocks(3) [OF assms(1) st(3) cb zeros_256] by simp_all
  let ?m = "\<lambda>p. p\<lparr>server_triggered_actions := P2PM_NO_XPV, current_status := P2PM_NODE_MEMBER\<rparr>"
  consider (wrong) "current_status p \<noteq> P2PM_NODE_HANDLING_STABILIZE"
    | (same) "current_status p = P2PM_NODE_HANDLING_STABILIZE" "?q = ?a"
    | (new) "current_status p = P2PM_NODE_HANDLING_STABILIZE" "?q \<noteq> ?a" by blast
  then show ?thesis
  proof cases
    case wrong
    then have "STABILIZE_SYN_REQ_handler p w = Some (P2PM_OP_FAILURE, ?p0, w)"
      using st by (simp add: STABILIZE_SYN_REQ_handler_def Let_def)
    moreover have "ring_done due c l StabSyn fs p w ?p0 w"
      using wrong ok assms(3) by (intro ring_doneI [where evs = "[]"]) (auto intro!: ring_node_eqI)
    ultimately show ?thesis by blast
  next
    case same
    then have "STABILIZE_SYN_REQ_handler p w = Some (P2PM_OP_SUCCESS, ?m ?p0, w)"
      using st pr tp by (simp add: STABILIZE_SYN_REQ_handler_def Let_def)
    moreover have "ring_done due c l StabSyn fs p w (?m ?p0) w"
      using same ok assms(3) by (intro ring_doneI [where evs = "[]"]) (auto intro!: ring_node_eqI)
    ultimately show ?thesis by blast
  next
    case new
    let ?e = "[Disc PredecessorSocket ?q, Conn PredecessorSocket ?a]"
    have "STABILIZE_SYN_REQ_handler p w = Some (P2PM_OP_SUCCESS, ?m ?p1, out ?e w)"
      using new st pr tp cb assms(2) by (simp add: STABILIZE_SYN_REQ_handler_def Let_def disconnect_ok connect_ok)
    moreover have "ring_done due c l StabSyn fs p w (?m ?p1) (out ?e w)"
      using new ok assms(3) name_ofI [OF cb] by (intro ring_doneI [where evs = ?e]) (auto intro!: ring_node_eqI)
    ultimately show ?thesis by blast
  qed
qed

text \<open>A list that holds a successor and nothing else.\<close>

lemma fresh_list:
  assumes "length b = 256" and "0 < k"
  shows "j < k \<Longrightarrow> slot (overwrite 0 b (zeros (k * 256))) j = (if j = 0 then b else zeros 256)"
    and "map (\<lambda>j. name_of (slot (overwrite 0 b (zeros (k * 256))) j)) [0..<k] = name_of b # replicate (k - 1) []"
    and "length (overwrite 0 b (zeros (k * 256))) = k * 256"
proof -
  have z: "slot (zeros (k * 256)) j = zeros 256" if "j < k" for j
  proof -
    have "256 \<le> k * 256 - j * 256" using that by (simp add: Suc_le_eq flip: diff_mult_distrib)
    then show ?thesis by (simp add: slot_def min_def)
  qed
  have s: "slot (overwrite 0 b (zeros (k * 256))) j = (if j = 0 then b else zeros 256)" if "j < k" for j
    using slot_overwrite [of "zeros (k * 256)" k 0 b j] assms that z by simp
  then show "j < k \<Longrightarrow> slot (overwrite 0 b (zeros (k * 256))) j = (if j = 0 then b else zeros 256)" .
  show "map (\<lambda>j. name_of (slot (overwrite 0 b (zeros (k * 256))) j)) [0..<k] = name_of b # replicate (k - 1) []"
    by (rule nth_equalityI) (use assms s in \<open>auto simp: nth_Cons'\<close>)
  show "length (overwrite 0 b (zeros (k * 256))) = k * 256"
    using assms by (cases k) (simp_all add: length_overwrite)
qed

lemma set_neighbours_run:
  assumes "ni_wf n" and "c_string a" and "cstr (predecessor n) = Some q" and "cstr (successor n) = Some s"
  shows "\<exists>r1 r2 m n'. p2pm_ni_set_predecessor n a = Some (r1, m) \<and> p2pm_ni_set_successor m a = Some (r2, n') \<and> ni_wf n' \<and>
    cstr (predecessor n') = Some (if length a < P2PM_MAX_ID_LEN then a else q) \<and>
    cstr (successor n') = Some (if length a < P2PM_MAX_ID_LEN then a else s) \<and>
    n' = n\<lparr>predecessor := predecessor n', successor := successor n', successor_list := successor_list n'\<rparr>"
proof (cases "length a < P2PM_MAX_ID_LEN")
  case True
  let ?m = "n\<lparr>predecessor := overwrite 0 (c_bytes a) (predecessor n)\<rparr>"
  let ?n = "?m\<lparr>successor := overwrite 0 (c_bytes a) (successor n), successor_list := overwrite 0 (c_bytes a) (successor_list n)\<rparr>"
  have l: "256 \<le> length (successor_list n)" by (rule list_pos [OF assms(1)])
  have "p2pm_ni_set_predecessor n a = Some (P2PM_OP_SUCCESS, ?m)" "p2pm_ni_set_successor ?m a = Some (P2PM_OP_SUCCESS, ?n)"
    using True assms(1) l
    by (simp_all add: p2pm_ni_set_predecessor_def p2pm_ni_set_successor_def P2PM_MAX_ID_LEN_def store_def ni_wf_def)
  moreover have "ni_wf ?n" using True assms(1) l by (simp add: ni_wf_def length_overwrite P2PM_MAX_ID_LEN_def)
  ultimately show ?thesis using True assms(2)
    by (intro exI [of _ P2PM_OP_SUCCESS] exI [of _ ?m] exI [of _ ?n]) (simp add: cstr_overwrite0)
next
  case False
  then have "p2pm_ni_set_predecessor n a = Some (P2PM_OP_FAILURE, n)" "p2pm_ni_set_successor n a = Some (P2PM_OP_INVALID, n)"
    by (simp_all add: p2pm_ni_set_predecessor_def p2pm_ni_set_successor_def)
  then show ?thesis using False assms by (intro exI [of _ n] exI) auto
qed

lemma handled_one_ring_join:
  assumes "ring_ok p" and "cstr (clientid p) = Some c" and "send_ok w = []" and "conn_ok w = []"
    and "c_string a" and "fits_int a" and "rx w ServerSocket = str_frames a False @ fs"
  shows "\<exists>r p' w'. ONE_RING_JOIN_REQ_handler p w = Some (r, p', w') \<and> ring_done due c l (OneRingJoin a) fs p w p' w'"
proof (cases "current_status p = P2PM_NODE_ONE_RING")
  case False
  let ?e = "[Tx ServerSocket c True, Tx ServerSocket (be32 (rep_code P2PM_INVALID_REP)) False]"
  have "ONE_RING_JOIN_REQ_handler p w = Some (P2PM_OP_FAILURE, p, out ?e w)"
    using False assms(2,3) by (simp add: ONE_RING_JOIN_REQ_handler_def Let_def send_client_ok)
  moreover have "ring_done due c l (OneRingJoin a) fs p w p (out ?e w)"
    using False assms(1,7) by (intro ring_doneI [where evs = ?e]) (auto simp: reply_def)
  ultimately show ?thesis by blast
next
  case True
  let ?n = "node_list p" and ?k = "unat (r_max (node_list p))"
  note n = p2p_ok_ni [OF ring_okD(1) [OF assms(1)]]
  have rs: "recv_strp ServerSocket Freed (out [Tx ServerSocket c True] w) =
      Some (P2PM_OP_SUCCESS, Live (c_bytes a), out [Tx ServerSocket c True] (took ServerSocket fs False w))"
    using recv_str_frames [OF assms(6), of "out [Tx ServerSocket c True] w" ServerSocket False fs] assms(7) by simp
  obtain r1 r2 m n' where set: "p2pm_ni_set_predecessor ?n a = Some (r1, m)" "p2pm_ni_set_successor m a = Some (r2, n')"
    and wf: "ni_wf n'"
    and names: "cstr (predecessor n') = Some (if length a < P2PM_MAX_ID_LEN then a else name_of (predecessor ?n))"
      "cstr (successor n') = Some (if length a < P2PM_MAX_ID_LEN then a else name_of (successor ?n))"
    and eq: "n' = ?n\<lparr>predecessor := predecessor n', successor := successor n', successor_list := successor_list n'\<rparr>"
    using set_neighbours_run [OF n assms(5) ring_okD(3,4) [OF assms(1)]] by blast
  have same: "r_max n' = r_max ?n" "ni_r n' = ni_r ?n" "temp_predecessor n' = temp_predecessor ?n" "temp_successor n' = temp_successor ?n"
    by (subst eq, simp)+
  have k: "0 < ?k" "?k < 2 ^ 24" using n by (simp_all add: ni_wf_def)
  let ?l = "overwrite 0 (successor n') (zeros (?k * 256))"
  have ls: "length (successor n') = 256" using wf by (simp add: ni_wf_def)
  note fl = fresh_list [OF ls k(1)]
  have st: "store 0 (zeros (shl8 (r_max n'))) (successor_list n') = Some (zeros (?k * 256))"
    "store 0 (load (junk v) P2PM_MAX_ID_LEN (successor n')) (zeros (?k * 256)) = Some ?l" for v :: net
    using wf k same(1) ls by (simp_all add: store_def overwrite_whole shl8_small ni_wf_def load_exact P2PM_MAX_ID_LEN_def Suc_le_eq)
  let ?p = "p\<lparr>node_list := n'\<lparr>successor_list := ?l\<rparr>\<rparr>"
  let ?d = "?p\<lparr>current_status := P2PM_NODE_MEMBER\<rparr>"
  let ?e = "[Tx ServerSocket c True, Conn SuccessorSocket (name_of (successor n')), Conn PredecessorSocket (name_of (predecessor n')),
    Tx ServerSocket (be32 (req_code P2PM_JOIN_CMT)) False]"
  let ?w = "out ?e (took ServerSocket fs False w)"
  have "ONE_RING_JOIN_REQ_handler p w = Some (P2PM_OP_SUCCESS, ?d, ?w)"
    using True assms(2-4) cstr_c_bytes0 [OF assms(5)] set st names
    by (simp add: ONE_RING_JOIN_REQ_handler_def Let_def send_client_ok rs connect_ok name_of_def u32.send_emits emit_out)
  moreover have "ring_ok ?p"
    using assms(1) wf same names fl(1,3) by (auto simp: ring_ok_def Let_def p2p_ok_def ni_wf_def)
  then have "ring_done due c l (OneRingJoin a) fs p w ?d ?w"
    using True names same fl(2) name_ofI [OF names(1)] name_ofI [OF names(2)] by (intro ring_doneI [where evs = ?e])
      (auto simp: Let_def reply_def intro!: ring_node_eqI)
  ultimately show ?thesis by blast
qed

section \<open>The requests that bring a list\<close>

lemma slot_take: "Suc j * 256 \<le> k \<Longrightarrow> slot (take k l) j = slot l j"
  by (simp add: slot_def drop_take min_def)

lemma load_slot:
  assumes "Suc j * 256 \<le> length l"
  shows "load jk 256 (drop (j * 256) (arrived w k l)) = slot l j"
proof -
  have "256 \<le> length l - j * 256" using assms by simp
  then show ?thesis by (simp add: load_def arrived_def slot_def)
qed

lemma names_head:
  assumes "names_in l ns" and "ns \<noteq> []" and "0 < k"
  shows "cstr (take (k * 256) l) = Some (hd ns)" and "address (hd ns)"
proof -
  have l: "256 \<le> length l" "cstr (slot l 0) = Some (hd ns)"
    using assms(1,2) by (auto simp: names_in_def hd_conv_nth Suc_le_eq)
  have "take (k * 256) l = slot l 0 @ drop 256 (take (k * 256) l)"
  proof -
    have "take 256 (take (k * 256) l) = slot l 0" using assms(3) by (simp add: slot_def min_def)
    then show ?thesis using append_take_drop_id [of 256 "take (k * 256) l"] by simp
  qed
  then show "cstr (take (k * 256) l) = Some (hd ns)" using cstr_prefix [OF l(2)] by metis
  have "length (slot l 0) = 256" using l(1) by (simp add: slot_def)
  then show "address (hd ns)" using cstr_length [OF l(2)] cstr_c_string [OF l(2)] by (simp add: address_def P2PM_MAX_ID_LEN_def)
qed

text \<open>The slots of a list behind whose first slot the names were put, as far as they fit.\<close>

definition took_names :: "(nat \<Rightarrow> bytes) \<Rightarrow> nat \<Rightarrow> bytes \<Rightarrow> string list \<Rightarrow> (nat \<Rightarrow> bytes) \<Rightarrow> bool" where
  "took_names old k b ns new \<longleftrightarrow> new 0 = b \<and> (\<forall>j. 1 \<le> j \<and> j < min (Suc (length ns)) k \<longrightarrow> cstr (new j) = Some (ns ! (j - 1))) \<and>
     (\<forall>j < k. min (Suc (length ns)) k \<le> j \<longrightarrow> new j = old j)"

lemma took_names_list:
  assumes "took_names old k b ns new" and "0 < k"
  shows "map (\<lambda>j. name_of (new j)) [0..<k] = take k (name_of b # ns @ drop (Suc (length ns)) (map (\<lambda>j. name_of (old j)) [0..<k]))"
proof (rule nth_equalityI)
  fix j assume "j < length (map (\<lambda>j. name_of (new j)) [0..<k])"
  then have j: "j < k" by simp
  consider (first) "j = 0" | (name) "1 \<le> j" "j < Suc (length ns)" | (old) "Suc (length ns) \<le> j" by linarith
  then show "map (\<lambda>j. name_of (new j)) [0..<k] ! j =
      take k (name_of b # ns @ drop (Suc (length ns)) (map (\<lambda>j. name_of (old j)) [0..<k])) ! j"
  proof cases
    case name
    then have "cstr (new j) = Some (ns ! (j - 1))" using assms(1) j by (simp add: took_names_def)
    then show ?thesis using name j by (simp add: name_ofI nth_Cons' nth_append less_diff_conv2)
  next
    case old
    then have "new j = old j" using assms(1) j by (simp add: took_names_def)
    then show ?thesis using old j by (auto simp: nth_Cons' nth_append)
  qed (use assms j in \<open>simp add: took_names_def\<close>)
qed auto

lemma took_names_cstr:
  assumes "took_names old k b ns new" and "cstr b \<noteq> None" and "\<forall>j < k. cstr (old j) \<noteq> None" and "j < k"
  shows "cstr (new j) \<noteq> None"
proof -
  consider "j = 0" | "1 \<le> j" "j < min (Suc (length ns)) k" | "min (Suc (length ns)) k \<le> j" by linarith
  then show ?thesis using assms by cases (auto simp: took_names_def)
qed

lemma count_ok:
  assumes "length ns < 2 ^ 32 - 1"
  shows "unat (word_of_nat (length ns) :: u32) = length ns" "(word_of_nat (length ns) :: u32) = 0 \<longleftrightarrow> ns = []"
proof -
  show u: "unat (word_of_nat (length ns) :: u32) = length ns" using assms by (simp add: unat_of_nat)
  then show "(word_of_nat (length ns) :: u32) = 0 \<longleftrightarrow> ns = []" by (metis length_0_conv unat_eq_zero)
qed

lemma joined_took_names:
  assumes "joined w (take (unat (r_max n) * 256) l) (word_of_nat (length ns)) n n'" and "names_in l ns" and "length ns < 2 ^ 32 - 1"
  shows "took_names (slot (successor_list n)) (unat (r_max n)) (temp_successor n) ns (slot (successor_list n'))"
proof -
  let ?k = "unat (r_max n)" and ?m = "take (unat (r_max n) * 256) l"
  have r: "unat (ni_r n') = min (Suc (length ns)) ?k" using assms(1) count_ok [OF assms(3)] by (simp add: joined_def)
  have "cstr (slot (successor_list n') j) = Some (ns ! (j - 1))" if "1 \<le> j" "j < min (Suc (length ns)) ?k" for j
  proof -
    have j: "j \<le> length ns" "j \<le> ?k" using that by simp_all
    have a: "j * 256 \<le> length l" using j(1) assms(2) by (simp add: names_in_def)
    have b: "j * 256 \<le> ?k * 256" using j(2) by simp
    have sj: "Suc (j - 1) * 256 = j * 256" using that(1) by simp
    have "j * 256 \<le> length ?m" using a b by simp
    then have "load jk 256 (drop ((j - 1) * 256) (arrived w (?k * 256) ?m)) = slot ?m (j - 1)" for jk
      using load_slot [of "j - 1" ?m jk w "?k * 256"] unfolding sj by simp
    moreover have "\<forall>j. 1 \<le> j \<and> j < unat (ni_r n') \<longrightarrow> slot (successor_list n') j =
        load (\<lambda>m. junk w ((j - 1) * 256 + m)) 256 (drop ((j - 1) * 256) (arrived w (?k * 256) ?m))"
      using assms(1) unfolding joined_def by blast
    ultimately have "slot (successor_list n') j = slot ?m (j - 1)" using that r by simp
    also have "\<dots> = slot l (j - 1)" using slot_take [of "j - 1" "?k * 256" l] b unfolding sj by simp
    finally show ?thesis using assms(2) j(1) that(1) by (simp add: names_in_def)
  qed
  moreover have "slot (successor_list n') 0 = temp_successor n"
    "\<forall>j < ?k. unat (ni_r n') \<le> j \<longrightarrow> slot (successor_list n') j = slot (successor_list n) j"
    using assms(1) unfolding joined_def by blast+
  ultimately show ?thesis unfolding took_names_def r by blast
qed

lemma handled_join_cmt:
  assumes "ring_ok p" and "cstr (clientid p) = Some c" and "send_ok w = []" and "conn_ok w = []"
    and "names_in l ns" and "length ns < 2 ^ 32 - 1" and "rx w ServerSocket = ring_args l (JoinCmt ns) @ fs"
    and "due = stabilised p w"
  shows "\<exists>r p' w'. JOIN_CMT_handler p w = Some (r, p', w') \<and> ring_done due c l (JoinCmt ns) fs p w p' w'"
proof -
  let ?n = "node_list p" and ?k = "unat (r_max (node_list p))" and ?r = "word_of_nat (length ns) :: u32"
  note n = p2p_ok_ni [OF ring_okD(1) [OF assms(1)]]
  have k: "0 < ?k" using n by (simp add: ni_wf_def)
  have rx: "rx w ServerSocket = RMsg (be32 ?r) True # RMsg l False # fs" using assms(7) by simp
  show ?thesis
  proof (cases "ns = []")
    case True
    let ?e = "[Tx ServerSocket c True, Tx ServerSocket (be32 (rep_code P2PM_INVALID_REP)) False]"
    let ?w = "out ?e (took ServerSocket (RMsg l False # fs) True w)"
    have "p2pm_recv_uint32 ServerSocket (uninit32 (out [Tx ServerSocket c True] w)) (out [Tx ServerSocket c True] w) =
        (P2PM_OP_SUCCESS, ?r, out [Tx ServerSocket c True] (took ServerSocket (RMsg l False # fs) True w))"
      using u32.recv_v_ok [of "out [Tx ServerSocket c True] w" ServerSocket ?r True "RMsg l False # fs"] rx by simp
    then have "JOIN_CMT_handler p w = Some (P2PM_OP_FAILURE, p, ?w)"
      using True assms(2,3) by (simp add: JOIN_CMT_handler_def Let_def send_client_ok)
    moreover have "ring_done due c l (JoinCmt ns) fs p w p ?w"
      using True assms(1) by (intro ring_doneI [where evs = ?e]) (auto simp: reply_def)
    ultimately show ?thesis by blast
  next
    case False
    note ct = count_ok [OF assms(6)] and hd = names_head [OF assms(5) False k]
    have r: "?r \<noteq> 0" "unat ?r < 2 ^ 32 - 1" using ct False assms(6) by simp_all
    obtain n' w' where run: "JOIN_CMT_handler p w = Some (P2PM_OP_SUCCESS, p\<lparr>node_list := n',
        server_triggered_actions := (if current_status p = P2PM_NODE_MEMBER \<and> stabilised p w then P2PM_XPV_REPLICATE_BACKWARDS
          else server_triggered_actions p),
        current_status := (if current_status p = P2PM_NODE_HANDLING_JOIN then P2PM_NODE_MEMBER else current_status p)\<rparr>, w')"
      and j: "joined w (take (?k * 256) l) ?r ?n n'" and rx': "rx w' ServerSocket = fs"
      and tx': "tx w' = tx w @ [Tx ServerSocket c True, Tx ServerSocket (be32 (rep_code P2PM_JOIN_ACK2)) False,
        Disc SuccessorSocket (name_of (successor ?n)), Conn SuccessorSocket (name_of (temp_successor ?n))]"
      using join_cmt_full [OF ring_okD(1) [OF assms(1)] assms(2-4) rx r hd ring_okD(4,6) [OF assms(1)]] by blast
    let ?p = "p\<lparr>node_list := n'\<rparr>"
    let ?d = "?p\<lparr>server_triggered_actions := (if current_status p = P2PM_NODE_MEMBER \<and> stabilised p w then P2PM_XPV_REPLICATE_BACKWARDS
          else server_triggered_actions p),
        current_status := (if current_status p = P2PM_NODE_HANDLING_JOIN then P2PM_NODE_MEMBER else current_status p)\<rparr>"
    note tn = joined_took_names [OF j assms(5,6)]
    have f: "r_max n' = r_max ?n" "successor n' = temp_successor ?n" "predecessor n' = predecessor ?n"
      "temp_predecessor n' = temp_predecessor ?n" "temp_successor n' = zeros P2PM_MAX_ID_LEN" "ni_wf n'"
      "unat (ni_r n') = min (Suc (length ns)) ?k"
      using j ct(1) by (simp_all add: joined_def)
    have "cstr (slot (successor_list n') i) \<noteq> None" if "i < ?k" for i
      by (rule took_names_cstr [OF tn _ _ that]) (use ring_okD(6,7) [OF assms(1)] in simp_all)
    then have "ring_ok ?p" using assms(1) f ring_okD(6) [OF assms(1)] by (simp add: ring_ok_def Let_def p2p_ok_def)
    then have "ring_done due c l (JoinCmt ns) fs p w ?d w'"
      using False f rx' tx' assms(8) took_names_list [OF tn k]
      by (intro ring_doneI) (auto simp: reply_def adopt_def Let_def intro!: ring_node_eqI)
    then show ?thesis using run by auto
  qed
qed

lemma handled_sync_slist:
  assumes "ring_ok p" and "cstr (clientid p) = Some c" and "send_ok w = []"
    and "names_in l ns" and "length ns < 2 ^ 32 - 1" and "rx w ServerSocket = ring_args l (SyncSlist ttl ns) @ fs"
  shows "\<exists>r p' w'. SYNC_SLIST_handler p w = Some (r, p', w') \<and> ring_done due c l (SyncSlist ttl ns) fs p w p' w'"
proof -
  let ?n = "node_list p" and ?k = "unat (r_max (node_list p))" and ?r = "word_of_nat (length ns) :: u32"
  note n = p2p_ok_ni [OF ring_okD(1) [OF assms(1)]] and ct = count_ok [OF assms(5)]
  have k: "0 < ?k" using n by (simp add: ni_wf_def)
  have rx: "rx w ServerSocket = RMsg (be32 ttl) True # RMsg (be32 ?r) True # RMsg l False # fs" using assms(6) by simp
  have gt: "?r > r_max ?n \<longleftrightarrow> ?k < length ns" by (simp only: word_less_nat_alt ct)
  show ?thesis
  proof (cases "ns = [] \<or> ?k < length ns")
    case True
    let ?e = "[Tx ServerSocket c True]"
    let ?w = "out ?e (took ServerSocket (RMsg l False # fs) True w)"
    have r1: "p2pm_recv_uint32 ServerSocket (uninit32 (out ?e w)) (out ?e w) = (P2PM_OP_SUCCESS, ttl,
        out ?e (took ServerSocket (RMsg (be32 ?r) True # RMsg l False # fs) True w))"
      using u32.recv_v_ok [of "out ?e w" ServerSocket ttl True "RMsg (be32 ?r) True # RMsg l False # fs"] rx by simp
    let ?w1 = "out ?e (took ServerSocket (RMsg (be32 ?r) True # RMsg l False # fs) True w)"
    have r2: "p2pm_recv_uint32 ServerSocket (uninit32 ?w1) ?w1 = (P2PM_OP_SUCCESS, ?r, ?w)"
      using u32.recv_v_ok [of ?w1 ServerSocket ?r True "RMsg l False # fs"] by simp
    have "SYNC_SLIST_handler p w = Some (P2PM_OP_FAILURE, p, ?w)"
      using True assms(2,3) ct(2) gt r1 r2 by (simp add: SYNC_SLIST_handler_def Let_def send_client_ok)
    moreover have "ring_done due c l (SyncSlist ttl ns) fs p w p ?w"
      using True assms(1) by (intro ring_doneI [where evs = ?e]) (auto simp: reply_def)
    ultimately show ?thesis by blast
  next
    case False
    then have ns: "ns \<noteq> []" "length ns \<le> ?k" by simp_all
    have l: "length l = length ns * 256" using assms(4) by (simp add: names_in_def)
    have lk: "take (?k * 256) l = l" using ns(2) l by simp
    note hd = names_head [OF assms(4) ns(1) k, unfolded lk]
    have r: "?r \<noteq> 0" "?r \<le> r_max ?n" "length l \<le> unat ?r * 256" using ct ns gt l by (simp_all add: linorder_not_less [symmetric])
    let ?e = "[Tx ServerSocket c True, Tx ServerSocket (be32 (rep_code P2PM_SYNC_SLIST_ACK)) False]"
    let ?w = "out ?e (took ServerSocket fs False w)"
    obtain p' where run: "SYNC_SLIST_handler p w = Some (P2PM_OP_SUCCESS, p', ?w)" "p2p_ok p'"
      and p': "if ttl = 1 then p' = p
        else p' = p\<lparr>node_list := node_list p', last_ttl := ttl - 1, server_triggered_actions := P2PM_XPV_RELAY_BACKWARDS\<rparr> \<and>
          node_list p' = ?n\<lparr>ni_r := ni_r (node_list p'), successor_list := successor_list (node_list p')\<rparr> \<and>
          unat (ni_r (node_list p')) = min (Suc (unat ?r)) ?k \<and>
          (\<forall>j < ?k. slot (successor_list (node_list p')) j =
            (if 1 \<le> j \<and> j < unat (ni_r (node_list p'))
             then load (\<lambda>m. junk w ((j - 1) * 256 + m)) 256 (drop ((j - 1) * 256) (arrived w (unat ?r * 256) l))
             else slot (successor_list ?n) j))"
      using sync_slist_full [OF ring_okD(1) [OF assms(1)] assms(2,3) rx r hd] by blast
    have "ring_done due c l (SyncSlist ttl ns) fs p w p' ?w"
    proof (cases "ttl = 1")
      case True
      then show ?thesis using False p' assms(1) by (intro ring_doneI [where evs = ?e]) (auto simp: reply_def)
    next
      case nonlast: False
      let ?n' = "node_list p'"
      have q: "p' = p\<lparr>node_list := ?n', last_ttl := ttl - 1, server_triggered_actions := P2PM_XPV_RELAY_BACKWARDS\<rparr>"
        and eq: "?n' = ?n\<lparr>ni_r := ni_r ?n', successor_list := successor_list ?n'\<rparr>"
        and r': "unat (ni_r ?n') = min (Suc (length ns)) ?k"
        and sl: "\<forall>j < ?k. slot (successor_list ?n') j = (if 1 \<le> j \<and> j < unat (ni_r ?n')
          then load (\<lambda>m. junk w ((j - 1) * 256 + m)) 256 (drop ((j - 1) * 256) (arrived w (length ns * 256) l))
          else slot (successor_list ?n) j)"
        using p' [unfolded if_not_P [OF nonlast] ct(1)] by blast+
      have f: "r_max ?n' = r_max ?n" "successor ?n' = successor ?n" "predecessor ?n' = predecessor ?n"
        "temp_predecessor ?n' = temp_predecessor ?n" "temp_successor ?n' = temp_successor ?n"
        by (subst eq, simp)+
      have tn: "took_names (slot (successor_list ?n)) ?k (slot (successor_list ?n) 0) ns (slot (successor_list ?n'))"
      proof -
        have "cstr (slot (successor_list ?n') j) = Some (ns ! (j - 1))" if j: "1 \<le> j" "j < min (Suc (length ns)) ?k" for j
        proof -
          have sj: "Suc (j - 1) * 256 = j * 256" using j(1) by simp
          have "j * 256 \<le> length l" using j(2) l by simp
          then have "load jk 256 (drop ((j - 1) * 256) (arrived w (length ns * 256) l)) = slot l (j - 1)" for jk
            using load_slot [of "j - 1" l jk w "length ns * 256"] unfolding sj by simp
          moreover have "j - 1 < length ns" using j by auto
          ultimately show ?thesis using sl r' j assms(4) by (simp add: names_in_def)
        qed
        moreover have "slot (successor_list ?n') j = slot (successor_list ?n) j" if j: "j < ?k" "min (Suc (length ns)) ?k \<le> j" for j
        proof -
          have "\<not> (1 \<le> j \<and> j < unat (ni_r ?n'))" using j(2) unfolding r' by linarith
          then show ?thesis using sl j(1) by (simp only: if_False)
        qed
        moreover have "slot (successor_list ?n') 0 = slot (successor_list ?n) 0" using sl k by simp
        ultimately show ?thesis unfolding took_names_def by blast
      qed
      have "cstr (slot (successor_list ?n') i) \<noteq> None" if "i < ?k" for i
        by (rule took_names_cstr [OF tn _ _ that]) (use ring_okD(7) [OF assms(1)] k in simp_all)
      then have "ring_ok p'" using assms(1) f r' run(2) by (simp add: ring_ok_def Let_def)
      moreover have "current_status p' = current_status p" "last_ttl p' = ttl - 1"
        "server_triggered_actions p' = P2PM_XPV_RELAY_BACKWARDS" by (subst q, simp)+
      ultimately show ?thesis
        using False nonlast f r' k took_names_list [OF tn k]
        by (intro ring_doneI [where evs = ?e]) (auto simp: reply_def adopt_def Let_def hd_map upt_conv_Cons intro!: ring_node_eqI)
    qed
    then show ?thesis using run(1) by blast
  qed
qed

section \<open>Every request\<close>

lemma ring_view_client [simp]: "ring_view (p\<lparr>clientid := cid\<rparr>) = ring_view p"
  by (simp add: ring_view_def Let_def)

lemma ring_ok_client: "ring_ok p \<Longrightarrow> length cid = P2PM_MAX_ID_LEN \<Longrightarrow> ring_ok (p\<lparr>clientid := cid\<rparr>)"
  by (simp add: ring_ok_def p2p_ok_def)

lemma handled_request:
  assumes "ring_ok p" and "cstr (clientid p) = Some c" and "send_ok w = []" and "conn_ok w = []"
    and "ring_req_ok l q" and "rx w ServerSocket = ring_args l q @ fs" and "due = stabilised p w"
  shows "\<exists>p' w'. handle_request (req_code (ring_code q)) p w = Some (p', w') \<and> ring_done due c l q fs p w p' w'"
proof (cases q)
  case (GetReq a)
  then show ?thesis using handled_get_req [OF assms(1-3), of a fs due l] assms(5,6) by (auto simp: handle_request_def)
next
  case (JoinReq a)
  then show ?thesis using handled_join_req [OF assms(1-3), of a fs due l] assms(5,6) by (auto simp: handle_request_def)
next
  case JoinAbrt
  then show ?thesis using handled_short(1) [OF assms(1-4), of fs due l] assms(6) by (auto simp: handle_request_def)
next
  case (JoinCmt ns)
  then show ?thesis using handled_join_cmt [OF assms(1-4) _ _ _ assms(7), of l ns fs] assms(5,6) by (auto simp: handle_request_def)
next
  case PredJoinCmt
  then show ?thesis using handled_pred_join_cmt [OF assms(1,3,4), of fs due c l] assms(6) by (auto simp: handle_request_def)
next
  case PredJoinAbrt
  then show ?thesis using handled_short(2) [OF assms(1-4), of fs due l] assms(6) by (auto simp: handle_request_def)
next
  case Ping
  then show ?thesis using handled_short(3) [OF assms(1-4), of fs due l] assms(6) by (auto simp: handle_request_def)
next
  case (StabReq a)
  then show ?thesis using handled_stab_req [OF assms(1-3), of a fs due l] assms(5,6) by (auto simp: handle_request_def)
next
  case StabSyn
  then show ?thesis using handled_stab_syn [OF assms(1,4), of fs due c l] assms(6) by (auto simp: handle_request_def)
next
  case StabNsyn
  then show ?thesis using handled_short(4) [OF assms(1-4), of fs due l] assms(6) by (auto simp: handle_request_def)
next
  case (SyncSlist ttl ns)
  then show ?thesis using handled_sync_slist [OF assms(1-3), of l ns ttl fs due] assms(5,6) by (auto simp: handle_request_def)
next
  case (OneRingJoin a)
  then show ?thesis using handled_one_ring_join [OF assms(1-4), of a fs due l] assms(5,6) by (auto simp: handle_request_def)
qed

text \<open>A message of a client, from its id to the last frame.\<close>

lemma ring_request_served:
  assumes "ring_ok p" and "length cid \<le> P2PM_MAX_ID_LEN" and "cstr (cid @ drop (length cid) (clientid p)) = Some c"
    and "ring_req_ok l q" and "send_ok w = []" and "conn_ok w = []" and "rx w ServerSocket = ring_frames cid l q @ fs"
    and "ring_step (stabilised p w) c q (ring_view p) = (x', acts)"
  shows "\<exists>p' w' evs. serve_request p w = Some (True, p', w') \<and> ring_ok p' \<and> ring_view p' = x' \<and>
    tx w' = tx w @ evs \<and> list_all2 performs acts evs \<and> rx w' ServerSocket = ring_left l q (ring_view p) @ fs \<and>
    r_max (node_list p') = r_max (node_list p) \<and> p2p_endpoint p' = p2p_endpoint p \<and> config p' = config p"
proof -
  let ?cid = "cid @ drop (length cid) (clientid p)" and ?mo = "ring_args l q \<noteq> []"
  let ?p = "p\<lparr>clientid := ?cid\<rparr>"
  have len: "length (clientid p) = P2PM_MAX_ID_LEN" using ring_okD(1) [OF assms(1)] by (simp add: p2p_ok_def)
  let ?w1 = "took ServerSocket (RMsg (be32 (req_code (ring_code q))) ?mo # ring_args l q @ fs) True w"
  let ?w2 = "took ServerSocket (ring_args l q @ fs) ?mo w"
  have r1: "zmq_recv ServerSocket (clientid p) w = (int (length cid), ?cid, ?w1)"
    using assms(2,7) len by (simp add: zmq_recv_Msg ring_frames_def took_def)
  have r2: "p2pm_recv_uint32 ServerSocket (uninit32 ?w1) ?w1 = (P2PM_OP_SUCCESS, req_code (ring_code q), ?w2)"
    using u32.recv_v_ok [of ?w1 ServerSocket "req_code (ring_code q)" ?mo "ring_args l q @ fs"] by simp
  have ok: "ring_ok ?p" using assms(1,2) len by (intro ring_ok_client) simp_all
  have st: "stabilised ?p ?w2 = stabilised p w" by (simp add: stabilised_def)
  obtain p' w' where h: "handle_request (req_code (ring_code q)) ?p ?w2 = Some (p', w')"
    "ring_done (stabilised p w) c l q fs ?p ?w2 p' w'"
    using handled_request [OF ok _ _ _ assms(4), of c ?w2 fs "stabilised p w"] assms(3,5,6) st by auto
  have "serve_request p w = Some (True, p', w')" using r1 r2 h(1) by (simp add: serve_request_def Let_def)
  moreover have "kept ?p p'" using wlpD [OF handle_request_kept h(1)] by simp
  ultimately show ?thesis
    using h(2) ring_okD(1) [OF ok] assms(8) by (auto simp: ring_done_def kept_def)
qed

end
