(* ===== verification/P2pJoin.thy ===== *)
theory P2pJoin
  imports P2pRun
begin

text \<open>
  A join as a whole: the joining node on a network that answers it, and the three nodes together, each
  reading what the others sent.
\<close>

section \<open>The joining node\<close>

lemma try_live_pong:
  "rx w s = RMsg (be32 (rep_code P2PM_PONG_REP)) m # fs \<Longrightarrow> p2pm_try_live s w = (P2PM_OP_LIVE, took s fs m w)"
proof -
  assume rx: "rx w s = RMsg (be32 (rep_code P2PM_PONG_REP)) m # fs"
  have r: "p2pm_recv_uint32 s (uninit32 w) w = (P2PM_OP_SUCCESS, rep_code P2PM_PONG_REP, took s fs m w)"
    by (rule u32.recv_v_ok [OF rx])
  have four: "(4 :: nat) = Suc 3" by simp
  show ?thesis unfolding p2pm_try_live_def four try_live_loop.simps using r by simp
qed

text \<open>What it sends, in order: to the predecessor and the successor.\<close>

definition join_events :: "string \<Rightarrow> string \<Rightarrow> string \<Rightarrow> u32 \<Rightarrow> bytes \<Rightarrow> event list" where
  "join_events pa e s r l =
     [Conn PredecessorSocket pa, Tx PredecessorSocket (be32 (req_code P2PM_GET_REQ)) True] @
     str_ev PredecessorSocket e False @
     [Conn SuccessorSocket s, Tx SuccessorSocket (be32 (req_code P2PM_JOIN_REQ)) True] @
     str_ev SuccessorSocket e False @
     [Tx PredecessorSocket (be32 (req_code P2PM_JOIN_CMT)) True, Tx PredecessorSocket (be32 r) True,
      Tx PredecessorSocket l False, Tx SuccessorSocket (be32 (req_code P2PM_PRED_JOIN_CMT)) False]"

lemma slist_bytes_net [simp]:
  "slist_bytes n (out evs w) = slist_bytes n w" "slist_bytes n (took s fs mo w) = slist_bytes n w"
  by (simp_all add: slist_bytes_def)

lemma join_commit_run:
  assumes "send_ok w = []" and "rx w PredecessorSocket = RMsg (be32 (rep_code P2PM_PONG_REP)) m4 #
      RMsg (be32 (rep_code P2PM_JOIN_ACK2)) m5 # fp"
  shows "\<exists>w'. join_commit p w = Some (P2PM_OP_SUCCESS, p\<lparr>current_status := P2PM_NODE_MEMBER\<rparr>, w') \<and>
    tx w' = tx w @ [Tx PredecessorSocket (be32 (req_code P2PM_JOIN_CMT)) True, Tx PredecessorSocket (be32 (ni_r (node_list p))) True,
      Tx PredecessorSocket (slist_bytes (node_list p) w) False, Tx SuccessorSocket (be32 (req_code P2PM_PRED_JOIN_CMT)) False]"
proof -
  let ?e = "[Tx PredecessorSocket (be32 (req_code P2PM_JOIN_CMT)) True, Tx PredecessorSocket (be32 (ni_r (node_list p))) True,
      Tx PredecessorSocket (slist_bytes (node_list p) w) False]"
  let ?w1 = "took PredecessorSocket (RMsg (be32 (rep_code P2PM_JOIN_ACK2)) m5 # fp) m4 w"
  have live: "p2pm_try_live PredecessorSocket w = (P2PM_OP_LIVE, ?w1)" by (rule try_live_pong [OF assms(2)])
  have ack: "p2pm_recv_uint32 PredecessorSocket x (out ?e ?w1) =
      (P2PM_OP_SUCCESS, rep_code P2PM_JOIN_ACK2, took PredecessorSocket fp m5 (out ?e ?w1))" for x
    by (rule u32.recv_v_ok) simp
  show ?thesis
    using assms(1) by (simp add: join_commit_def live ack Let_def send_u32_ok u32.send_emits emit_out del: req_code.simps rep_code.simps)
qed

text \<open>The list of the successor, copied behind the own first slot.\<close>

definition list_taken :: "net \<Rightarrow> bytes \<Rightarrow> u32 \<Rightarrow> p2pm_node_info \<Rightarrow> p2pm_node_info \<Rightarrow> bool" where
  "list_taken w l r n n' \<longleftrightarrow> ni_wf n' \<and> unat (ni_r n') = min (Suc (unat r)) (unat (r_max n)) \<and>
     n' = n\<lparr>ni_r := ni_r n', successor_list := successor_list n'\<rparr> \<and>
     (\<forall>j < unat (r_max n). slot (successor_list n') j = (if 1 \<le> j \<and> j < unat (ni_r n')
        then load (\<lambda>m. junk w ((j - 1) * 256 + m)) 256 (drop ((j - 1) * 256) (arrived w (unat (r_max n) * 256) l))
        else slot (successor_list n) j))"

lemma join_successor_run:
  assumes "ni_wf (node_list p)" and "send_ok w = []"
    and "rx w SuccessorSocket = RMsg (be32 (rep_code P2PM_PONG_REP)) m6 # RMsg (be32 x) m7 # RMsg (be32 r) m8 # RMsg l m9 # fs"
    and "rx w PredecessorSocket = RMsg (be32 (rep_code P2PM_PONG_REP)) m4 # RMsg (be32 (rep_code P2PM_JOIN_ACK2)) m5 # fp"
    and "r \<noteq> 0" and "r \<le> r_max (node_list p)" and "length l \<le> unat (r_max (node_list p)) * 256"
    and "cstr l = Some f" and "length f < 256"
  shows "\<exists>n' w'. join_successor p w = Some (P2PM_OP_SUCCESS, p\<lparr>node_list := n', current_status := P2PM_NODE_MEMBER\<rparr>, w') \<and>
    list_taken w l r (node_list p) n' \<and>
    tx w' = tx w @ [Tx SuccessorSocket (be32 (req_code P2PM_JOIN_REQ)) True] @ str_ev SuccessorSocket (p2p_endpoint p) False @
     [Tx PredecessorSocket (be32 (req_code P2PM_JOIN_CMT)) True, Tx PredecessorSocket (be32 (ni_r n')) True,
      Tx PredecessorSocket (slist_bytes n' w) False, Tx SuccessorSocket (be32 (req_code P2PM_PRED_JOIN_CMT)) False]"
proof -
  let ?e = "[Tx SuccessorSocket (be32 (req_code P2PM_JOIN_REQ)) True] @ str_ev SuccessorSocket (p2p_endpoint p) False"
  let ?n = "node_list p"
  let ?f1 = "RMsg l m9 # fs" let ?f2 = "RMsg (be32 r) m8 # ?f1" let ?f3 = "RMsg (be32 x) m7 # ?f2"
  let ?w1 = "took SuccessorSocket ?f3 m6 w"
  let ?w2 = "took SuccessorSocket ?f2 m7 (out ?e ?w1)"
  let ?w3 = "took SuccessorSocket ?f1 m8 ?w2"
  let ?w4 = "took SuccessorSocket fs m9 ?w3"
  have live: "p2pm_try_live SuccessorSocket w = (P2PM_OP_LIVE, ?w1)" by (rule try_live_pong [OF assms(3)])
  have ack: "p2pm_recv_uint32 SuccessorSocket y (out ?e ?w1) = (P2PM_OP_SUCCESS, x, ?w2)" for y
    by (rule u32.recv_v_ok) simp
  have rr: "p2pm_recv_uint32 SuccessorSocket y ?w2 = (P2PM_OP_SUCCESS, r, ?w3)" for y
    by (rule u32.recv_v_ok) simp
  have sh: "shl8 (r_max ?n) = unat (r_max ?n) * 256" using assms(1) by (simp add: ni_wf_def shl8_small)
  have lr: "zmq_recv SuccessorSocket (uninit ?w3 (unat (r_max ?n) * 256)) ?w3 =
      (int (length l), arrived w (unat (r_max ?n) * 256) l, ?w4)"
    using recv_list [of ?w3 SuccessorSocket l m9 fs "unat (r_max ?n) * 256"] assms(7) by simp
  have small: "unat r < 2 ^ 32 - 1"
    using assms(1,6) by (auto simp: ni_wf_def word_le_nat_alt)
  have wf: "ni_wf (?n\<lparr>ni_r := r\<rparr>)" using assms(1) by (simp add: ni_wf_def)
  have carr: "cstr (arrived w (unat (r_max ?n) * 256) l) = Some f"
    unfolding arrived_def by (rule cstr_prefix [OF assms(8)])
  obtain n' where n': "p2pm_ni_copy_successor_list (?n\<lparr>ni_r := r\<rparr>) (arrived w (unat (r_max ?n) * 256) l) r ?w4 =
      Some (P2PM_OP_SUCCESS, n')" and tk: "list_taken w l r ?n n'"
    using copy_successor_list_run [OF wf carr assms(9) small, of ?w4] by (auto simp: list_taken_def)
  let ?p = "p\<lparr>current_status := P2PM_NODE_APPENDAGE, node_list := n'\<rparr>"
  have "rx ?w4 PredecessorSocket = RMsg (be32 (rep_code P2PM_PONG_REP)) m4 # RMsg (be32 (rep_code P2PM_JOIN_ACK2)) m5 # fp"
    using assms(4) by (simp del: rep_code.simps)
  from join_commit_run [OF _ this, of ?p] obtain w' where
    jc: "join_commit ?p ?w4 = Some (P2PM_OP_SUCCESS, ?p\<lparr>current_status := P2PM_NODE_MEMBER\<rparr>, w')"
    and txw: "tx w' = tx ?w4 @ [Tx PredecessorSocket (be32 (req_code P2PM_JOIN_CMT)) True, Tx PredecessorSocket (be32 (ni_r n')) True,
      Tx PredecessorSocket (slist_bytes n' w) False, Tx SuccessorSocket (be32 (req_code P2PM_PRED_JOIN_CMT)) False]"
    using assms(2) by (auto simp del: rep_code.simps req_code.simps)
  have st: "p2pm_send_str SuccessorSocket (p2p_endpoint p) False v = (fst (p2pm_send_str SuccessorSocket (p2p_endpoint p) False v),
      out (str_ev SuccessorSocket (p2p_endpoint p) False) v)" if "send_ok v = []" for v
    using send_str_ok [OF that] by (metis prod.collapse)
  have "join_successor p w = join_commit ?p ?w4"
    using assms(2,5) leD [OF assms(6)] ack rr lr n' live
    by (simp add: join_successor_def Let_def split_beta sh del: rep_code.simps req_code.simps)
  then show ?thesis
    using jc tk txw by (intro exI [of _ n'] exI [of _ w']) (simp del: rep_code.simps req_code.simps)
qed

lemma joiner_run:
  assumes "p2p_ok p" and "current_status p = P2PM_NODE_JOINING" and "cstr (predecessor (node_list p)) = Some pa"
    and "address s" and "send_ok w = []" and "conn_ok w = []"
    and "rx w PredecessorSocket = RMsg (be32 (rep_code P2PM_PONG_REP)) m1 # RMsg (be32 (rep_code P2PM_GET_ACK)) m2 #
      str_frames s m3 @ RMsg (be32 (rep_code P2PM_PONG_REP)) m4 # RMsg (be32 (rep_code P2PM_JOIN_ACK2)) m5 # fp"
    and "rx w SuccessorSocket = RMsg (be32 (rep_code P2PM_PONG_REP)) m6 # RMsg (be32 x) m7 # RMsg (be32 r) m8 # RMsg l m9 # fs"
    and "r \<noteq> 0" and "r \<le> r_max (node_list p)" and "length l \<le> unat (r_max (node_list p)) * 256"
    and "cstr l = Some f" and "length f < 256"
  shows "\<exists>n n' w'. p2pm_join p w = Some (P2PM_OP_SUCCESS, p\<lparr>node_list := n', current_status := P2PM_NODE_MEMBER\<rparr>, w') \<and>
    n = (node_list p)\<lparr>successor := padded w s, successor_list := overwrite 0 (padded w s) (successor_list (node_list p))\<rparr> \<and>
    list_taken w l r n n' \<and>
    tx w' = tx w @ join_events pa (p2p_endpoint p) s (ni_r n') (slist_bytes n' w)"
proof -
  let ?nl = "node_list p"
  let ?n = "?nl\<lparr>successor := padded w s, successor_list := overwrite 0 (padded w s) (successor_list ?nl)\<rparr>"
  note b = ni_blocks
  let ?g4 = "RMsg (be32 (rep_code P2PM_PONG_REP)) m4 # RMsg (be32 (rep_code P2PM_JOIN_ACK2)) m5 # fp"
  let ?g3 = "str_frames s m3 @ ?g4" let ?g2 = "RMsg (be32 (rep_code P2PM_GET_ACK)) m2 # ?g3"
  let ?c = "[Conn PredecessorSocket pa]"
  let ?e = "[Tx PredecessorSocket (be32 (req_code P2PM_GET_REQ)) True] @ str_ev PredecessorSocket (p2p_endpoint p) False"
  let ?w1 = "took PredecessorSocket ?g2 m1 (out ?c w)"
  let ?w2 = "took PredecessorSocket ?g3 m2 (out ?e ?w1)"
  let ?w3 = "took PredecessorSocket ?g4 m3 ?w2"
  let ?w4 = "out [Conn SuccessorSocket s] ?w3"
  have live: "p2pm_try_live PredecessorSocket (out ?c w) = (P2PM_OP_LIVE, ?w1)"
    by (rule try_live_pong) (use assms(7) in \<open>simp del: rep_code.simps\<close>)
  have ack: "p2pm_recv_uint32 PredecessorSocket y (out ?e ?w1) = (P2PM_OP_SUCCESS, rep_code P2PM_GET_ACK, ?w2)" for y
    by (rule u32.recv_v_ok) simp
  have str: "recv_strp PredecessorSocket Null ?w2 = Some (P2PM_OP_SUCCESS, Live (c_bytes s), ?w3)"
    by (rule recv_str_frames [OF address_fits(1) [OF assms(4)]]) simp
  have st: "store 0 (padded w s) (successor ?nl) = Some (padded w s)"
    using b(1) [OF p2p_ok_ni [OF assms(1)]] by (simp add: store_def overwrite_whole)
  have st2: "store 0 (padded w s) (successor_list ?nl) = Some (overwrite 0 (padded w s) (successor_list ?nl))"
    using b(5) [OF p2p_ok_ni [OF assms(1)]] by (simp add: store_def)
  have wf: "ni_wf ?n"
    using assms(1) b(5) by (simp add: p2p_ok_def ni_wf_def length_overwrite P2PM_MAX_ID_LEN_def)
  have codes: "rep_code P2PM_GET_ACK \<noteq> rep_code P2PM_GET_CONTACTED_ONE_RING" "rep_code P2PM_GET_ACK \<noteq> rep_code P2PM_GET_NACK"
    by simp_all
  have rs: "rx ?w4 SuccessorSocket = RMsg (be32 (rep_code P2PM_PONG_REP)) m6 # RMsg (be32 x) m7 # RMsg (be32 r) m8 # RMsg l m9 # fs"
    using assms(8) by (simp del: rep_code.simps)
  have rp: "rx ?w4 PredecessorSocket = ?g4" by simp
  obtain n' w' where js: "join_successor (p\<lparr>node_list := ?n\<rparr>) ?w4 =
      Some (P2PM_OP_SUCCESS, p\<lparr>node_list := n', current_status := P2PM_NODE_MEMBER\<rparr>, w')"
    and tk: "list_taken ?w4 l r ?n n'"
    and txw: "tx w' = tx ?w4 @ [Tx SuccessorSocket (be32 (req_code P2PM_JOIN_REQ)) True] @ str_ev SuccessorSocket (p2p_endpoint p) False @
     [Tx PredecessorSocket (be32 (req_code P2PM_JOIN_CMT)) True, Tx PredecessorSocket (be32 (ni_r n')) True,
      Tx PredecessorSocket (slist_bytes n' ?w4) False, Tx SuccessorSocket (be32 (req_code P2PM_PRED_JOIN_CMT)) False]"
    using join_successor_run [OF _ _ rs rp assms(9), of "p\<lparr>node_list := ?n\<rparr>" f] wf assms(5,10-13)
    by (auto simp del: rep_code.simps req_code.simps)
  have "p2pm_join p w = join_successor (p\<lparr>node_list := ?n\<rparr>) ?w4"
    using assms(2,3,4,5,6) live ack str st st2 codes b
    by (simp add: p2pm_join_def connect_ok Let_def split_beta padded_def [symmetric] del: rep_code.simps req_code.simps)
  then show ?thesis
    using js tk txw
    by (intro exI [of _ ?n] exI [of _ n'] exI [of _ w'])
       (simp add: join_events_def list_taken_def del: rep_code.simps req_code.simps)
qed

section \<open>The three nodes\<close>

text \<open>The frames that a call sent on a socket, and a network on which a socket delivers given frames.\<close>

definition sent :: "sock \<Rightarrow> net \<Rightarrow> net \<Rightarrow> rframe list" where
  "sent s w w' = delivered s (drop (length (tx w)) (tx w'))"

definition reads :: "sock \<Rightarrow> rframe list \<Rightarrow> net \<Rightarrow> net" where
  "reads s fs w = w\<lparr>rx := (rx w)(s := fs)\<rparr>"

lemma reads_simps [simp]:
  "rx (reads s fs w) = (rx w)(s := fs)" "tx (reads s fs w) = tx w" "send_ok (reads s fs w) = send_ok w"
  "conn_ok (reads s fs w) = conn_ok w" "junk (reads s fs w) = junk w" "slist_bytes n (reads s fs w) = slist_bytes n w"
  "padded (reads s fs w) a = padded w a" "arrived (reads s fs w) k l = arrived w k l"
  by (simp_all add: reads_def slist_bytes_def padded_def arrived_def uninit_def)

lemma sent_events: "tx w' = tx w @ evs \<Longrightarrow> sent s w w' = delivered s evs"
  by (simp add: sent_def)

text \<open>A list sent by one node is read slot by slot by another.\<close>

definition list_fits :: "p2pm_node_info \<Rightarrow> string \<Rightarrow> bool" where
  "list_fits n f \<longleftrightarrow> ni_wf n \<and> ni_r n \<noteq> 0 \<and> ni_r n \<le> r_max n \<and> cstr (slot (successor_list n) 0) = Some f"

lemma list_fits_bytes:
  assumes "list_fits n f"
  shows "slist_bytes n w = take (unat (ni_r n) * 256) (successor_list n)" "length (slist_bytes n w) = unat (ni_r n) * 256"
proof -
  have r: "unat (ni_r n) \<le> unat (r_max n)" using assms by (simp add: list_fits_def word_le_nat_alt)
  then have le: "unat (ni_r n) * 256 \<le> length (successor_list n)" using assms by (simp add: list_fits_def ni_wf_def)
  have sh: "shl8 (ni_r n) = unat (ni_r n) * 256" using assms r by (intro shl8_small) (simp add: list_fits_def ni_wf_def)
  show "slist_bytes n w = take (unat (ni_r n) * 256) (successor_list n)"
    using le by (simp add: slist_bytes_def sh load_def)
  then show "length (slist_bytes n w) = unat (ni_r n) * 256" using le by simp
qed

lemma list_fits_slot:
  assumes "list_fits n f" and "i < unat (ni_r n)"
  shows "load jk 256 (drop (i * 256) (arrived v k (slist_bytes n w))) = slot (successor_list n) i"
proof -
  have "Suc i * 256 \<le> unat (ni_r n) * 256" using assms(2) by (intro mult_le_mono) auto
  then have i: "i * 256 + 256 \<le> length (slist_bytes n w)" using list_fits_bytes(2) [OF assms(1)] by simp
  then have "load jk 256 (drop (i * 256) (arrived v k (slist_bytes n w))) = take 256 (drop (i * 256) (slist_bytes n w))"
    by (simp add: load_def arrived_def)
  also have "\<dots> = slot (successor_list n) i"
    using i list_fits_bytes [OF assms(1)] by (simp add: slot_def drop_take min_def)
  finally show ?thesis .
qed

lemma list_fits_head:
  assumes "list_fits n f"
  shows "cstr (slist_bytes n w) = Some f" "length f < 256"
proof -
  have l: "0 < unat (ni_r n)" using assms by (simp add: list_fits_def unat_gt_0)
  have "slot (successor_list n) 0 = take 256 (slist_bytes n w)"
    using l list_fits_bytes(1) [OF assms] by (simp add: slot_def min_def)
  then have "slist_bytes n w = slot (successor_list n) 0 @ drop 256 (slist_bytes n w)" by simp
  then show "cstr (slist_bytes n w) = Some f" using assms by (metis cstr_prefix list_fits_def)
  show "length f < 256"
    using assms cstr_length [of "slot (successor_list n) 0" f] length_slot [of "successor_list n" "unat (r_max n)" 0]
    by (simp add: list_fits_def ni_wf_def)
qed

text \<open>The answers that a joining node and the two members give each other, until all three are members.\<close>

definition quiet :: "net \<Rightarrow> bool" where
  "quiet w \<longleftrightarrow> send_ok w = [] \<and> conn_ok w = []"

abbreviation pong :: rframe where
  "pong \<equiv> RMsg (be32 (rep_code P2PM_PONG_REP)) False"

abbreviation request_frame :: "p2pm_reqtypes \<Rightarrow> bool \<Rightarrow> rframe" where
  "request_frame q mo \<equiv> RMsg (be32 (req_code q)) mo"

lemma list_taken_fits:
  assumes "list_taken w l r n n'" and "ni_wf n" and "r \<noteq> 0" and "cstr (slot (successor_list n) 0) = Some s"
  shows "list_fits n' s"
proof -
  have k: "ni_wf n'" "unat (ni_r n') = min (Suc (unat r)) (unat (r_max n))" "r_max n' = r_max n"
    "\<forall>j < unat (r_max n). slot (successor_list n') j = (if 1 \<le> j \<and> j < unat (ni_r n')
        then load (\<lambda>m. junk w ((j - 1) * 256 + m)) 256 (drop ((j - 1) * 256) (arrived w (unat (r_max n) * 256) l))
        else slot (successor_list n) j)"
    using assms(1) by (auto simp: list_taken_def) (metis p2pm_node_info.ext_inject p2pm_node_info.surjective p2pm_node_info.update_convs)
  have pos: "0 < unat (r_max n)" using assms(2) by (simp add: ni_wf_def)
  have "unat (ni_r n') \<noteq> 0" using k(2) pos by simp
  then have "ni_r n' \<noteq> 0" by auto
  moreover have "ni_r n' \<le> r_max n'" using k(2,3) by (simp add: word_le_nat_alt)
  moreover have "cstr (slot (successor_list n') 0) = Some s" using k(4) pos assms(4) by simp
  ultimately show ?thesis using k(1) by (simp add: list_fits_def)
qed

lemma list_taken_kept:
  assumes "list_taken w l r n n'"
  shows "predecessor n' = predecessor n" "successor n' = successor n" "r_max n' = r_max n"
  using assms by (auto simp: list_taken_def) (metis p2pm_node_info.ext_inject p2pm_node_info.surjective p2pm_node_info.update_convs)+

lemma ring_join:
  assumes J: "p2p_ok j" "current_status j = P2PM_NODE_JOINING" "cstr (predecessor (node_list j)) = Some pa" "address (p2p_endpoint j)"
    and P: "p2p_ok p" "current_status p = P2PM_NODE_MEMBER" "cstr (successor (node_list p)) = Some sa" "address sa"
    and S: "p2p_ok s" "current_status s = P2PM_NODE_MEMBER" "cstr (predecessor (node_list s)) = Some q" "list_fits (node_list s) f"
    and sizes: "r_max (node_list p) = r_max (node_list j)" "ni_r (node_list s) \<le> r_max (node_list j)"
    and ids: "client_id i1 c1" "client_id i2 c2" "client_id i3 c3" "client_id i4 c4"
    and nets: "quiet w1" "quiet w2" "quiet w3" "quiet w4" "quiet w5"
  shows "\<exists>r1 p1 v1 s1 v2 j' v3 p2 v4 s2 v5 cmt.
    GET_REQ_handler (from_client i1 p) (reads ServerSocket (str_frames (p2p_endpoint j) False) w1) = Some (r1, p1, v1) \<and>
    JOIN_REQ_handler (from_client i2 s) (reads ServerSocket (str_frames (p2p_endpoint j) False) w2) = Some (P2PM_OP_SUCCESS, s1, v2) \<and>
    p2pm_join j (reads PredecessorSocket (pong # tl (sent ServerSocket w1 v1) @ pong # tl (sent ServerSocket w4 v4))
      (reads SuccessorSocket (pong # tl (sent ServerSocket w2 v2)) w3)) = Some (P2PM_OP_SUCCESS, j', v3) \<and>
    JOIN_CMT_handler (from_client i3 p1) (reads ServerSocket cmt w4) = Some (P2PM_OP_SUCCESS, p2, v4) \<and>
    PRED_JOIN_CMT_handler (from_client i4 s1) w5 = Some (P2PM_OP_SUCCESS, s2, v5) \<and>
    sent PredecessorSocket w3 v3 = request_frame P2PM_GET_REQ True # str_frames (p2p_endpoint j) False @
      request_frame P2PM_JOIN_CMT True # cmt \<and>
    sent SuccessorSocket w3 v3 = request_frame P2PM_JOIN_REQ True # str_frames (p2p_endpoint j) False @
      [request_frame P2PM_PRED_JOIN_CMT False] \<and>
    current_status j' = P2PM_NODE_MEMBER \<and> current_status p2 = P2PM_NODE_MEMBER \<and> current_status s2 = P2PM_NODE_MEMBER \<and>
    cstr (successor (node_list p2)) = Some (p2p_endpoint j) \<and> cstr (predecessor (node_list j')) = Some pa \<and>
    cstr (successor (node_list j')) = Some sa \<and> cstr (predecessor (node_list s2)) = Some (p2p_endpoint j) \<and>
    cstr (slot (successor_list (node_list p2)) 0) = Some (p2p_endpoint j) \<and> cstr (slot (successor_list (node_list j')) 0) = Some sa \<and>
    unat (ni_r (node_list j')) = min (Suc (unat (ni_r (node_list s)))) (unat (r_max (node_list j))) \<and>
    unat (ni_r (node_list p2)) = min (Suc (unat (ni_r (node_list j')))) (unat (r_max (node_list j))) \<and>
    (\<forall>i. Suc i < unat (ni_r (node_list j')) \<longrightarrow>
       slot (successor_list (node_list j')) (Suc i) = slot (successor_list (node_list s)) i) \<and>
    (\<forall>i. Suc i < unat (ni_r (node_list p2)) \<longrightarrow>
       slot (successor_list (node_list p2)) (Suc i) = slot (successor_list (node_list j')) i)"
proof -
  let ?a = "p2p_endpoint j"
  let ?rw1 = "reads ServerSocket (str_frames ?a False) w1" and ?rw2 = "reads ServerSocket (str_frames ?a False) w2"
  let ?l = "slist_bytes (node_list s) w2" and ?r = "ni_r (node_list s)"
  let ?get = "Tx ServerSocket (be32 (rep_code P2PM_GET_ACK)) True # str_ev ServerSocket sa False"
  let ?req = "[Tx ServerSocket (be32 (rep_code P2PM_JOIN_ACK1)) True, Tx ServerSocket (be32 ?r) True, Tx ServerSocket ?l False]"
  let ?ack = "RMsg (be32 (rep_code P2PM_JOIN_ACK2)) False"
  note sf = S(4)
  have r: "?r \<noteq> 0" using sf by (simp add: list_fits_def)
  have len: "length ?l \<le> unat (r_max (node_list j)) * 256"
    using sizes(2) by (simp add: list_fits_bytes(2) [OF sf] word_le_nat_alt)
  have nj: "ni_wf (node_list j)" using J(1) by (rule p2p_ok_ni)
  \<comment> \<open>the successor\<close>
  obtain s1 v2 s2 v5 where s1: "JOIN_REQ_handler (from_client i2 s) ?rw2 = Some (P2PM_OP_SUCCESS, s1, v2)"
    and v2: "tx v2 = tx w2 @ Tx ServerSocket c2 True # ?req"
    and s2: "PRED_JOIN_CMT_handler (from_client i4 s1) w5 = Some (P2PM_OP_SUCCESS, s2, v5)"
      "current_status s2 = P2PM_NODE_MEMBER" "cstr (predecessor (node_list s2)) = Some ?a"
    using join_successor_side [OF S(1-3) ids(2,4) J(4), of ?rw2 False "[]" w5] nets(2,5)
    by (auto simp: quiet_def simp del: rep_code.simps)
  have sent2: "sent ServerSocket w2 v2 = RMsg c2 True # RMsg (be32 (rep_code P2PM_JOIN_ACK1)) True # RMsg (be32 ?r) True # [RMsg ?l False]"
    by (simp add: sent_events [OF v2] del: rep_code.simps)
  \<comment> \<open>the joining node\<close>
  let ?fp = "pong # RMsg (be32 (rep_code P2PM_GET_ACK)) True # str_frames sa False @ pong # [?ack]"
  let ?fs = "pong # RMsg (be32 (rep_code P2PM_JOIN_ACK1)) True # RMsg (be32 ?r) True # [RMsg ?l False]"
  define u where "u = reads PredecessorSocket ?fp (reads SuccessorSocket ?fs w3)"
  have u: "send_ok u = []" "conn_ok u = []" "tx u = tx w3" "rx u PredecessorSocket = ?fp" "rx u SuccessorSocket = ?fs"
    using nets(3) by (simp_all add: u_def quiet_def)
  define n where "n = (node_list j)\<lparr>successor := padded u sa, successor_list := overwrite 0 (padded u sa) (successor_list (node_list j))\<rparr>"
  obtain n' v3 where jn: "p2pm_join j u = Some (P2PM_OP_SUCCESS, j\<lparr>node_list := n', current_status := P2PM_NODE_MEMBER\<rparr>, v3)"
    and tk: "list_taken u ?l ?r n n'"
    and v3: "tx v3 = tx u @ join_events pa ?a sa (ni_r n') (slist_bytes n' u)"
    using joiner_run [OF J(1-3) P(4) u(1,2,4,5) r sizes(2) len list_fits_head [OF sf]] by (auto simp: n_def)
  have nn: "ni_wf n" using nj by (simp add: n_def ni_wf_def length_overwrite P2PM_MAX_ID_LEN_def)
  have n0: "cstr (slot (successor_list n) 0) = Some sa"
    using slot_0 [of "padded u sa"] P(4) by (simp add: n_def P2PM_MAX_ID_LEN_def [symmetric])
  have fits: "list_fits n' sa" by (rule list_taken_fits [OF tk nn r n0])
  have nf: "predecessor n' = predecessor (node_list j)" "successor n' = padded u sa" "r_max n' = r_max (node_list j)"
    using list_taken_kept [OF tk] by (simp_all add: n_def)
  have tj: "unat (ni_r n') = min (Suc (unat ?r)) (unat (r_max (node_list j)))"
    "\<forall>i < unat (r_max (node_list j)). 1 \<le> i \<and> i < unat (ni_r n') \<longrightarrow> slot (successor_list n') i =
       load (\<lambda>m. junk u ((i - 1) * 256 + m)) 256 (drop ((i - 1) * 256) (arrived u (unat (r_max n) * 256) ?l))"
    using tk by (simp_all add: list_taken_def n_def)
  have lj: "slot (successor_list n') (Suc i) = slot (successor_list (node_list s)) i" if "Suc i < unat (ni_r n')" for i
  proof -
    have "Suc i < unat (r_max (node_list j))" and i: "i < unat ?r" using that tj(1) by simp_all
    then show ?thesis using tj(2) that list_fits_slot [OF sf i] by simp
  qed
  \<comment> \<open>the predecessor\<close>
  let ?cmt = "[RMsg (be32 (ni_r n')) True, RMsg (slist_bytes n' u) False]"
  let ?w4 = "reads ServerSocket ?cmt w4"
  have c: "ni_r n' \<noteq> 0" "unat (ni_r n') < 2 ^ 32 - 1" "length (slist_bytes n' u) \<le> unat (r_max (node_list p)) * 256"
    using fits tj(1) nf(3) sizes(1) list_fits_bytes(2) [OF fits] by (auto simp: list_fits_def ni_wf_def)
  obtain r1 p1 p2 v1 v4 where p1: "GET_REQ_handler (from_client i1 p) ?rw1 = Some (r1, p1, v1)"
    and v1: "tx v1 = tx w1 @ Tx ServerSocket c1 True # ?get"
    and p2: "JOIN_CMT_handler (from_client i3 p1) ?w4 = Some (P2PM_OP_SUCCESS, p2, v4)" "current_status p2 = P2PM_NODE_MEMBER"
    and v4: "tx v4 = tx w4 @ [Tx ServerSocket c3 True, Tx ServerSocket (be32 (rep_code P2PM_JOIN_ACK2)) False,
        Disc SuccessorSocket sa, Conn SuccessorSocket ?a]"
    and fp: "cstr (successor (node_list p2)) = Some ?a" "cstr (slot (successor_list (node_list p2)) 0) = Some ?a"
      "unat (ni_r (node_list p2)) = min (Suc (unat (ni_r n'))) (unat (r_max (node_list p)))"
      "\<forall>i. 1 \<le> i \<and> i < unat (ni_r (node_list p2)) \<longrightarrow> slot (successor_list (node_list p2)) i =
         load (\<lambda>m. junk w4 ((i - 1) * 256 + m)) 256 (drop ((i - 1) * 256) (arrived w4 (unat (r_max (node_list p)) * 256) (slist_bytes n' u)))"
    using join_in_order [OF P(1-3) ids(1,3) J(4), of ?rw1 False "[]" ?w4 "ni_r n'" "slist_bytes n' u" False "[]" sa]
      nets(1,4) c list_fits_head(1) [OF fits] P(4)
    by (auto simp: quiet_def simp del: rep_code.simps)
  have sent1: "sent ServerSocket w1 v1 = RMsg c1 True # RMsg (be32 (rep_code P2PM_GET_ACK)) True # str_frames sa False"
    by (simp add: sent_events [OF v1] str_frames_def del: rep_code.simps)
  have sent4: "sent ServerSocket w4 v4 = [RMsg c3 True, ?ack]"
    by (simp add: sent_events [OF v4] del: rep_code.simps)
  have lp: "slot (successor_list (node_list p2)) (Suc i) = slot (successor_list n') i" if "Suc i < unat (ni_r (node_list p2))" for i
  proof -
    have i: "i < unat (ni_r n')" using that fp(3) by simp
    then show ?thesis using fp(4) that list_fits_slot [OF fits i] by simp
  qed
  have jn': "p2pm_join j (reads PredecessorSocket (pong # tl (sent ServerSocket w1 v1) @ pong # tl (sent ServerSocket w4 v4))
      (reads SuccessorSocket (pong # tl (sent ServerSocket w2 v2)) w3)) =
      Some (P2PM_OP_SUCCESS, j\<lparr>node_list := n', current_status := P2PM_NODE_MEMBER\<rparr>, v3)"
    using jn by (simp add: u_def sent1 sent2 sent4 del: rep_code.simps)
  have sent3: "sent PredecessorSocket w3 v3 = request_frame P2PM_GET_REQ True # str_frames ?a False @
      request_frame P2PM_JOIN_CMT True # ?cmt"
    "sent SuccessorSocket w3 v3 = request_frame P2PM_JOIN_REQ True # str_frames ?a False @
      [request_frame P2PM_PRED_JOIN_CMT False]"
    by (simp_all add: sent_events [OF v3 [unfolded u(3)]] join_events_def str_frames_def del: req_code.simps)
  define j' where "j' = j\<lparr>node_list := n', current_status := P2PM_NODE_MEMBER\<rparr>"
  have jl: "node_list j' = n'" and j4: "current_status j' = P2PM_NODE_MEMBER" by (simp_all add: j'_def)
  have fj: "cstr (predecessor (node_list j')) = Some pa" "cstr (successor (node_list j')) = Some sa"
    "cstr (slot (successor_list (node_list j')) 0) = Some sa"
    using nf J(3) P(4) fits by (simp_all add: jl list_fits_def)
  have lists: "\<forall>i. Suc i < unat (ni_r (node_list j')) \<longrightarrow> slot (successor_list (node_list j')) (Suc i) = slot (successor_list (node_list s)) i"
    "\<forall>i. Suc i < unat (ni_r (node_list p2)) \<longrightarrow> slot (successor_list (node_list p2)) (Suc i) = slot (successor_list (node_list j')) i"
    "unat (ni_r (node_list j')) = min (Suc (unat ?r)) (unat (r_max (node_list j)))"
    "unat (ni_r (node_list p2)) = min (Suc (unat (ni_r (node_list j')))) (unat (r_max (node_list j)))"
    using lj lp tj(1) fp(3) sizes(1) by (simp_all add: jl)
  note jn'' = jn' [folded j'_def]
  show ?thesis
    by (rule exI [of _ r1], rule exI [of _ p1], rule exI [of _ v1], rule exI [of _ s1], rule exI [of _ v2], rule exI [of _ j'], rule exI [of _ v3], rule exI [of _ p2], rule exI [of _ v4], rule exI [of _ s2], rule exI [of _ v5], rule exI [of _ ?cmt],
        intro conjI) (rule p1 s1 jn'' p2 s2 sent3 j4 fp(1-3) fj lists)+
qed

end
