(* ===== verification/P2pFail.thy ===== *)
theory P2pFail
  imports P2pRun
begin

text \<open>
  What a node does when its successor stops answering: the timeouts of the successor socket and the
  change to the next successor of the list.
\<close>

lemma slot_1_load: "length l = n * 256 \<Longrightarrow> 2 \<le> n \<Longrightarrow> load jk 256 (drop 256 l) = slot l 1"
  by (simp add: load_def slot_def)

lemma condensed_slot:
  assumes "ni_wf n" and "2 \<le> unat (r_max n)" and "i < unat (r_max n)"
  shows "slot (successor_list (condensed n)) i =
    (if i = 1 \<and> ni_r n < r_max n then zeros 256 else slot (successor_list n) i)"
  using condensed_slots [OF assms(1) _ assms(2,3)] by (cases "ni_r n < r_max n") (auto simp: condensed_def)

text \<open>The node list after the change.\<close>

definition switched :: "p2pm_node_info \<Rightarrow> p2pm_node_info" where
  "switched n = (condensed (n\<lparr>successor_list := overwrite 0 (slot (successor_list n) 1) (successor_list n)\<rparr>))
     \<lparr>successor := slot (successor_list n) 1\<rparr>"

lemma switched_slots:
  assumes "ni_wf n" and "2 \<le> unat (r_max n)" and "i < unat (r_max n)"
  shows "slot (successor_list (switched n)) i =
    (if i = 0 then slot (successor_list n) 1
     else if i = 1 \<and> ni_r n < r_max n then zeros 256 else slot (successor_list n) i)"
proof -
  have l: "length (successor_list n) = unat (r_max n) * 256" using assms(1) by (simp add: ni_wf_def)
  have s1: "length (slot (successor_list n) 1) = 256" using length_slot [OF l, of 1] assms(2) by simp
  let ?n = "n\<lparr>successor_list := overwrite 0 (slot (successor_list n) 1) (successor_list n)\<rparr>"
  have wf: "ni_wf ?n" using assms(1,2) s1 by (simp add: ni_wf_def length_overwrite)
  have "slot (successor_list ?n) i = (if i = 0 then slot (successor_list n) 1 else slot (successor_list n) i)"
    using slot_overwrite [OF l _ s1 assms(3), of 0] assms(2) by simp
  then show ?thesis using condensed_slot [OF wf, of i] assms(2,3) by (auto simp: switched_def)
qed

lemma switched_wf:
  assumes "ni_wf n" and "2 \<le> unat (r_max n)"
  shows "ni_wf (switched n)"
proof -
  have l: "length (successor_list n) = unat (r_max n) * 256" using assms(1) by (simp add: ni_wf_def)
  have s1: "length (slot (successor_list n) 1) = 256" using length_slot [OF l, of 1] assms(2) by simp
  have "ni_wf (n\<lparr>successor_list := overwrite 0 (slot (successor_list n) 1) (successor_list n)\<rparr>)"
    using assms s1 by (simp add: ni_wf_def length_overwrite)
  from ni_wf_condensed [OF this] show ?thesis using s1 by (simp add: switched_def ni_wf_def)
qed

lemma switched_fields [simp]: "r_max (switched n) = r_max n" "ni_r (switched n) = ni_r n"
  "successor (switched n) = slot (successor_list n) 1"
  by (simp_all add: switched_def)

lemma second_slot_byte:
  assumes "ni_wf n" and "2 \<le> unat (r_max n)"
  shows "successor_list n ! P2PM_MAX_ID_LEN = slot (successor_list n) 1 ! 0" "P2PM_MAX_ID_LEN < length (successor_list n)"
  using slot_first [of "successor_list n" "unat (r_max n)" 1] assms by (simp_all add: ni_wf_def P2PM_MAX_ID_LEN_def)

lemma cstr_first: "cstr b = Some s \<Longrightarrow> s \<noteq> [] \<Longrightarrow> b ! 0 \<noteq> nul"
  by (cases b) (auto simp: cstr_def split: if_splits)

lemma succ_switch_next:
  assumes "p2p_ok p" and "2 \<le> unat (r_max (node_list p))" and "cstr (successor (node_list p)) = Some s"
    and "cstr (slot (successor_list (node_list p)) 1) = Some b" and "b \<noteq> []" and "conn_ok w = []"
  shows "succ_switch p w = Some (p\<lparr>node_list := switched (node_list p),
      successor_socket_expected_actions := P2PM_XPV_PING_AND_STABILIZE_REQ\<rparr>, out [Disc SuccessorSocket s, Conn SuccessorSocket b] w)"
proof -
  let ?n = "node_list p"
  have n: "ni_wf ?n" using assms(1) by (rule p2p_ok_ni)
  then have l: "length (successor_list ?n) = unat (r_max ?n) * 256" by (simp add: ni_wf_def)
  have s1: "length (slot (successor_list ?n) 1) = 256" using length_slot [OF l, of 1] assms(2) by simp
  let ?l = "overwrite 0 (slot (successor_list ?n) 1) (successor_list ?n)"
  let ?m = "?n\<lparr>successor_list := ?l\<rparr>"
  have wf: "ni_wf ?m" using n s1 assms(2) by (simp add: ni_wf_def length_overwrite)
  have ld: "load jk P2PM_MAX_ID_LEN (drop P2PM_MAX_ID_LEN (successor_list ?n)) = slot (successor_list ?n) 1" for jk
    using slot_1_load [OF l assms(2)] by (simp add: P2PM_MAX_ID_LEN_def)
  have st: "store 0 (slot (successor_list ?n) 1) (successor_list ?n) = Some ?l"
    using s1 l assms(2) by (simp add: store_def)
  have fix': "p2pm_ni_fix_successor_list ?m = Some (condensed ?m)"
    unfolding p2pm_ni_fix_successor_list_def by (rule condense_eq [OF wf])
  have "slot (successor_list (condensed ?m)) 0 = slot (successor_list ?n) 1"
    using switched_slots [OF n assms(2), of 0] assms(2) by (simp add: switched_def)
  then have ld0: "load jk P2PM_MAX_ID_LEN (successor_list (condensed ?m)) = slot (successor_list ?n) 1" for jk
    using ni_wf_condensed [OF wf] assms(2) by (simp add: load_def slot_def P2PM_MAX_ID_LEN_def ni_wf_def)
  have st2: "store 0 (slot (successor_list ?n) 1) (successor ?n) = Some (slot (successor_list ?n) 1)"
    using s1 n by (simp add: store_def overwrite_whole ni_wf_def)
  show ?thesis
    using assms(3,4,6) second_slot_byte [OF n assms(2)] cstr_first [OF assms(4,5)] st fix' ld st2
    by (simp add: succ_switch_def Let_def disconnect_ok connect_ok ld0 switched_def del: One_nat_def)
qed

lemma succ_switch_none:
  assumes "p2p_ok p" and "2 \<le> unat (r_max (node_list p))" and "slot (successor_list (node_list p)) 1 ! 0 = nul"
  shows "succ_switch p w = Some (p\<lparr>server_triggered_actions := P2PM_XPV_STABILIZE_FIND_HEAD,
      current_status := P2PM_FINDING_HEAD, successor_socket_expected_actions := P2PM_NO_XPV\<rparr>, w)"
  using second_slot_byte [OF p2p_ok_ni [OF assms(1)] assms(2)] assms(3) by (simp add: succ_switch_def Let_def)

lemma succ_timeout_pings:
  assumes "successor_socket_expected_actions p = P2PM_XPV_PING_AND_STABILIZE_REQ" and "send_ok w = []"
  shows "\<exists>t w'. succ_timeout p w = Some (p\<lparr>successor_lastpoll_time := t,
      successor_socket_expected_actions := P2PM_XPV_PING_AND_STABILIZE_REQ2\<rparr>, w') \<and>
    tx w' = tx w @ replicate 2 (Tx SuccessorSocket (be32 (req_code P2PM_PING_REQ)) False)"
  using assms
  by (simp add: succ_timeout_def Let_def split_beta numeral_2_eq_2 del: req_code.simps) blast

text \<open>Three timeouts: to the second successor, two pings to it, and then?\<close>

lemma failover:
  assumes "p2p_ok p" and "2 \<le> unat (r_max (node_list p))" and "cstr (successor (node_list p)) = Some s"
    and "cstr (slot (successor_list (node_list p)) 1) = Some b" and "b \<noteq> []"
    and "successor_socket_expected_actions p = P2PM_XPV_PING_AND_STABILIZE_REQ2"
    and "conn_ok w1 = []" and "send_ok w2 = []" and "conn_ok w3 = []"
  shows "\<exists>p1 v1 p2 v2 p3 v3. succ_timeout p w1 = Some (p1, v1) \<and> succ_timeout p1 w2 = Some (p2, v2) \<and>
    succ_timeout p2 w3 = Some (p3, v3) \<and>
    tx v1 = tx w1 @ [Disc SuccessorSocket s, Conn SuccessorSocket b] \<and> cstr (successor (node_list p1)) = Some b \<and>
    tx v2 = tx w2 @ replicate 2 (Tx SuccessorSocket (be32 (req_code P2PM_PING_REQ)) False) \<and> node_list p2 = node_list p1 \<and>
    (\<forall>i. 2 \<le> i \<and> i < unat (r_max (node_list p)) \<longrightarrow>
       slot (successor_list (node_list p3)) i = slot (successor_list (node_list p)) i) \<and>
    (if ni_r (node_list p) < r_max (node_list p)
     then current_status p3 = P2PM_FINDING_HEAD \<and> successor_socket_expected_actions p3 = P2PM_NO_XPV \<and>
       node_list p3 = node_list p1 \<and> tx v3 = tx w3
     else current_status p3 = current_status p \<and> cstr (successor (node_list p3)) = Some b \<and>
       tx v3 = tx w3 @ [Disc SuccessorSocket b, Conn SuccessorSocket b])"
proof -
  let ?n = "node_list p"
  have n: "ni_wf ?n" using assms(1) by (rule p2p_ok_ni)
  have pos: "1 < unat (r_max ?n)" using assms(2) by simp
  let ?p1 = "p\<lparr>node_list := switched ?n, successor_socket_expected_actions := P2PM_XPV_PING_AND_STABILIZE_REQ\<rparr>"
  have s1: "succ_timeout p w1 = Some (?p1, out [Disc SuccessorSocket s, Conn SuccessorSocket b] w1)"
    using succ_switch_next [OF assms(1-5,7)] assms(6) by (simp add: succ_timeout_def Let_def)
  obtain t v2 where s2: "succ_timeout ?p1 w2 = Some (?p1\<lparr>successor_lastpoll_time := t,
      successor_socket_expected_actions := P2PM_XPV_PING_AND_STABILIZE_REQ2\<rparr>, v2)"
    "tx v2 = tx w2 @ replicate 2 (Tx SuccessorSocket (be32 (req_code P2PM_PING_REQ)) False)"
    using succ_timeout_pings [of ?p1 w2] assms(8) by auto
  define p2 where "p2 = ?p1\<lparr>successor_lastpoll_time := t, successor_socket_expected_actions := P2PM_XPV_PING_AND_STABILIZE_REQ2\<rparr>"
  have p2: "node_list p2 = switched ?n" "successor_socket_expected_actions p2 = P2PM_XPV_PING_AND_STABILIZE_REQ2"
    "p2p_ok p2" "current_status p2 = current_status p"
    using assms(1) switched_wf [OF n assms(2)] by (simp_all add: p2_def p2p_ok_def)
  have t3: "succ_timeout p2 w3 = succ_switch p2 w3" by (simp add: succ_timeout_def Let_def p2(2))
  have sl: "slot (successor_list (node_list p2)) i = slot (successor_list ?n) i" if "2 \<le> i" "i < unat (r_max ?n)" for i
    using switched_slots [OF n assms(2) that(2)] that(1) by (simp add: p2(1))
  have sc: "cstr (successor (node_list p2)) = Some b" using assms(4) by (simp add: p2(1))
  show ?thesis
  proof (cases "ni_r ?n < r_max ?n")
    case True
    then have "slot (successor_list (node_list p2)) 1 ! 0 = nul"
      using switched_slots [OF n assms(2) pos] by (simp add: p2(1))
    from succ_switch_none [OF p2(3) _ this, of w3] show ?thesis
      using s1 s2 [folded p2_def] t3 assms(2,4) sl True p2(1) by (simp del: req_code.simps)
  next
    case False
    then have one: "slot (successor_list (node_list p2)) 1 = slot (successor_list ?n) 1"
      using switched_slots [OF n assms(2) pos] by (simp add: p2(1))
    have "slot (successor_list (switched (node_list p2))) i = slot (successor_list ?n) i" if "2 \<le> i" "i < unat (r_max ?n)" for i
      using switched_slots [OF p2p_ok_ni [OF p2(3)], of i] that sl assms(2) by (simp add: p2(1))
    with succ_switch_next [OF p2(3) _ sc _ assms(5,9)] one show ?thesis
      using s1 s2 [folded p2_def] t3 assms(2,4) False p2(1,4) by (simp del: req_code.simps)
  qed
qed

end
