(* ===== verification/TsOpen.thy ===== *)
theory TsOpen
  imports System ParserRun
begin

text \<open>
  Opening a space: the client library's \<open>ts_open\<close> against the daemons that answer it. It gives the
  handles and the active spaces from which reads and writes start.
\<close>

section \<open>The client's half\<close>

definition connect_ev :: "sock \<Rightarrow> string \<Rightarrow> u32 \<Rightarrow> event list" where
  "connect_ev s ns m = [Tx s (be32 (str_len ns)) True, Tx s (c_bytes ns) True, cmd_ev s TsConnect True, Tx s (be32 m) False]"

text \<open>A handle whose name buffer has its size, and system calls that succeed.\<close>

definition can_open :: "open_calls \<Rightarrow> ts \<Rightarrow> string \<Rightarrow> bool" where
  "can_open os self ns \<longleftrightarrow> length (tsname self) = 50 \<and> c_string ns \<and> length ns \<le> 39 \<and>
     oc_ctx os \<and> oc_socket2 os \<and> (\<forall>p. shm_works (oc_shm os p))"

lemma can_open_name:
  assumes "can_open os self ns"
  shows "store 0 (c_bytes ns) (tsname self) = Some (overwrite 0 (c_bytes ns) (tsname self))"
    and "cstr (overwrite 0 (c_bytes ns) (tsname self)) = Some ns"
    and "sprintf_name (ns @ ''-push-wsem'') = Some (ns @ ''-push-wsem'')" "sprintf_name (ns @ ''-pull-wsem'') = Some (ns @ ''-pull-wsem'')"
  using assms by (simp_all add: can_open_def store_def cstr_overwrite0 sprintf_name_def)

definition named_handle :: "ts \<Rightarrow> string \<Rightarrow> ts" where
  "named_handle self ns = self\<lparr>tsnamelen := str_len ns, tsname := overwrite 0 (c_bytes ns) (tsname self)\<rparr>"

text \<open>\<open>ts_open\<close> up to the answer of the local daemon.\<close>

lemma open_asks:
  assumes "can_open os self ns" and "send_ok w = []" and "conn_ok w = []"
    and "rx w ClientSocket = RMsg (be32 a) mo # fs"
  shows "ts_open os self ns ipc m w =
    (let w = took ClientSocket fs mo (out ([OpenSock ClientSocket, Conn ClientSocket ipc] @ connect_ev ClientSocket ns m) w);
         self = named_handle self ns
     in if a = 2 \<or> a = 1 then open_worker os self ns m a w
        else if a = 0 then open_master os self ns a w
        else if a = 3 then do { (_, _, w) \<leftarrow> wait_u32 ClientSocket (uninit32 w) w; Some (0, self, w) }
        else Some (1, self, emit (CloseSock ClientSocket) w))"
proof -
  let ?w = "out ([OpenSock ClientSocket, Conn ClientSocket ipc] @ connect_ev ClientSocket ns m) w"
  have "wait_u32 ClientSocket x ?w = Some (P2PM_OP_SUCCESS, a, took ClientSocket fs mo ?w)" for x
    using recv_u32_ok [of ?w ClientSocket a mo fs x] assms(4) by (simp add: wait_u32_def)
  moreover have "\<not> Suc (length ns) > 50" "oc_ctx os" using assms(1) by (simp_all add: can_open_def)
  ultimately show ?thesis
    using assms(2,3) can_open_name [OF assms(1)]
    by (simp add: ts_open_def connect_ev_def u32.send_emits zmq_send_ok zmq_connect_ok emit_out named_handle_def str_len_def Let_def
        cong: if_cong)
qed

lemma named_handle_ok: "can_open os self ns \<Longrightarrow> handle_ok local ns ((named_handle self ns)\<lparr>ts_is_local := local\<rparr>)"
  by (simp add: handle_ok_def named_handle_def can_open_name)

lemma open_master_run:
  assumes "can_open os self ns" and "send_ok w = []" and "conn_ok w = []"
    and "rx w ClientSocket = RMsg (be32 TS_MODE_MASTER) mo # fs"
  shows "\<exists>h w'. ts_open os self ns ipc m w = Some (0, h, w') \<and>
    tx w' = tx w @ [OpenSock ClientSocket, Conn ClientSocket ipc] @ connect_ev ClientSocket ns m \<and>
    handle_ok True ns h \<and> push_pipe h = ns @ ''-push'' \<and> pull_pipe h = ns @ ''-pull''"
  using assms(1) can_open_name [OF assms(1)]
  by (simp add: open_asks [OF assms] TS_MODE_MASTER_def open_master_def sprintf_name_def can_open_def Let_def
      create_shared_memory_def open_shared_memory_def shm_works_def handle_ok_def named_handle_def)

lemma open_worker_run:
  assumes "can_open os self ns" and "send_ok w = []" and "conn_ok w = []"
    and "rx w ClientSocket = RMsg (be32 a) mo # str_frames ep mo2 @ fs" and "a = TS_MODE_CLIENT \<or> a = TS_MODE_BLOCK"
    and "c_string ep" and "fits_int ep" and "rx w ClientSocket2 = RMsg (be32 x) mo3 # fs2"
  shows "\<exists>h w'. ts_open os self ns ipc m w = Some (0, h, w') \<and>
    tx w' = tx w @ [OpenSock ClientSocket, Conn ClientSocket ipc] @ connect_ev ClientSocket ns m @
      [OpenSock ClientSocket2, Conn ClientSocket2 ep] @ connect_ev ClientSocket2 ns m \<and>
    handle_ok False ns h \<and> deref (remote h) = Some ep"
proof -
  let ?w = "took ClientSocket (str_frames ep mo2 @ fs) mo (out ([OpenSock ClientSocket, Conn ClientSocket ipc] @ connect_ev ClientSocket ns m) w)"
  let ?v = "took ClientSocket fs mo2 ?w"
  let ?u = "out ([OpenSock ClientSocket2, Conn ClientSocket2 ep] @ connect_ev ClientSocket2 ns m) ?v"
  have a: "a = 2 \<or> a = 1" using assms(5) by (auto simp: ts_modes)
  have s: "wait_str ClientSocket r ?w = Some (Live (c_bytes ep), ?v)" for r
    using p2pm_recv_str_ok [OF assms(7), of ?w ClientSocket mo2 fs] by (simp add: wait_str_def str_frames_def)
  have u: "wait_u32 ClientSocket2 y ?u = Some (P2PM_OP_SUCCESS, x, took ClientSocket2 fs2 mo3 ?u)" for y
    using recv_u32_ok [of ?u ClientSocket2 x mo3 fs2 y] assms(8) by (simp add: wait_u32_def)
  show ?thesis
    using assms(1,2,3,6) a s u can_open_name [OF assms(1)]
    by (simp add: open_asks [OF assms(1-4)] open_worker_def can_open_def Let_def u32.send_emits zmq_send_ok zmq_connect_ok emit_out
        connect_ev_def cstr_c_bytes0 handle_ok_def named_handle_def)
qed

section \<open>The daemon's half\<close>

definition opened :: "tsd_cfg \<Rightarrow> u32 \<Rightarrow> ('t, 'r, 's) tsd_element \<Rightarrow> ('t, 'r, 's) tsd_element" where
  "opened self m e = e\<lparr>is_requested := True, is_activated := True,
     direct_endpoint := (if m = TS_MODE_MASTER then overwrite 0 (c_bytes (endpoint self)) (direct_endpoint e) else direct_endpoint e)\<rparr>"

text \<open>The token that tells the other daemons, when the space was not active before.\<close>

definition activation :: "tsd_cfg \<Rightarrow> string \<Rightarrow> ('t, 'r, 's) tsd_element \<Rightarrow> event list" where
  "activation self ns e = (if is_activated e then [] else token_ev (space_token 0 self ns))"

lemma delivered_token [simp]: "s \<noteq> ActorPipe \<Longrightarrow> delivered s (token_ev tk) = []"
  by (simp add: token_ev_def)

lemma delivered_activation [simp]: "s \<noteq> ActorPipe \<Longrightarrow> delivered s (activation self ns e) = []"
  by (simp add: activation_def)

lemma using_not_actor [simp]: "using_socket local \<noteq> ActorPipe"
  by (simp add: using_socket_def)

lemma connect_master:
  assumes "session c args" and "act args = TsConnect" and "ts_mode e = TsModeMaster" and "send_ok w = []"
    and "rx w (using_socket (is_local args)) = RMsg (be32 m) False # fs" and "m = TS_MODE_MASTER \<or> m = TS_MODE_CLIENT"
    and "length (endpoint self) < length (direct_endpoint e)"
  shows "ts_connect_handler L self args e w = Some (None, args, opened self m e,
      out (Tx (using_socket (is_local args)) c True # activation self (this_space_name args) e @
           [Tx (using_socket (is_local args)) (be32 TS_MODE_MASTER) False])
        (took (using_socket (is_local args)) fs False w))"
proof -
  have r: "p2pm_recv_uint32 (using_socket (is_local args)) (uninit32 w) w
      = (P2PM_OP_SUCCESS, m, took (using_socket (is_local args)) fs False w)"
    using assms(5) by (rule recv_u32_ok)
  have st: "store 0 (c_bytes (endpoint self)) (direct_endpoint e) = Some (overwrite 0 (c_bytes (endpoint self)) (direct_endpoint e))"
    using assms(7) by (simp add: store_def)
  have ne: "TS_MODE_CLIENT \<noteq> TS_MODE_MASTER" by (simp add: ts_modes)
  show ?thesis
    using assms(2,3,4,6) session_simps [OF assms(1)] r st ne
    by (auto simp: ts_connect_handler_def Let_def ts_connect_send_activate_signal_def opened_def activation_def)
qed

lemma connect_rx:
  assumes "delivered (client_side local) evs = delivered (client_side local) (connect_ev (client_side local) ns m)"
  shows "rx (request_net local c evs) (using_socket local) = head_frames c (c_bytes ns) ns TsConnect True @ [RMsg (be32 m) False]"
  using assms by (simp add: head_frames_def connect_ev_def)

lemma connect_head: "head_ok c ns ns \<Longrightarrow> head_ok c (c_bytes ns) ns"
  by (simp add: head_ok_def)

lemma open_call_master:
  assumes "tab ns = Some e" and "ts_mode e = TsModeMaster" and "head_ok c ns ns"
    and "m = TS_MODE_MASTER \<or> m = TS_MODE_CLIENT" and "length (endpoint self) < length (direct_endpoint e)"
    and "delivered (client_side local) evs = delivered (client_side local) (connect_ev (client_side local) ns m)"
  shows "daemon_call L self tab local c evs = Some (tab(ns \<mapsto> opened self m e),
      Tx (using_socket local) c True # activation self ns e @ [Tx (using_socket local) (be32 TS_MODE_MASTER) False])"
proof -
  let ?w = "request_net local c evs" and ?args = "head_args c ns TsConnect local"
  note h = head_received [of ?w local c "c_bytes ns" ns TsConnect True "[RMsg (be32 m) False]" tab e L self,
      OF connect_rx [OF assms(6)] connect_head [OF assms(3)] assms(1)]
  have "ts_connect_handler L self ?args e (took (using_socket local) [RMsg (be32 m) False] True ?w) =
      Some (None, ?args, opened self m e, out (Tx (using_socket local) c True # activation self ns e @
           [Tx (using_socket local) (be32 TS_MODE_MASTER) False])
        (took (using_socket local) [] False (took (using_socket local) [RMsg (be32 m) False] True ?w)))"
    using connect_master [OF head_args_session [OF assms(3)], of TsConnect local e _ m "[]" self] assms(2,4,5) by simp
  then show ?thesis by (simp add: daemon_call_def h dispatch_def)
qed

section \<open>Clients and daemons\<close>

lemma conn_idle [simp]: "conn_ok idle_net = []" "conn_ok (reply_net local evss) = []" "conn_ok (request_net local c evs) = []"
  by (simp_all add: idle_net_def reply_net_def request_net_def)

lemma delivered_connect [simp]: "delivered s (connect_ev t ns m) =
    (if s = t then [RMsg (be32 (str_len ns)) True, RMsg (c_bytes ns) True, RMsg (be32 (cmd_code TsConnect)) True, RMsg (be32 m) False] else [])"
  by (simp add: connect_ev_def)

text \<open>A client opens a space at the daemon that is its master.\<close>

lemma open_at_master:
  assumes "can_open os self ns" and "tab ns = Some e" and "ts_mode e = TsModeMaster" and "head_ok c ns ns"
    and "m = TS_MODE_MASTER \<or> m = TS_MODE_CLIENT" and "length (endpoint cfg) < length (direct_endpoint e)"
  shows "\<exists>h w evs. ts_open os self ns ipc m (reply_net True [evs]) = Some (0, h, w) \<and>
    daemon_call L cfg tab True c (tx w) = Some (tab(ns \<mapsto> opened cfg m e), evs) \<and>
    handle_ok True ns h \<and> push_pipe h = ns @ ''-push'' \<and> pull_pipe h = ns @ ''-pull'' \<and>
    delivered LocalSocket evs = [RMsg c True, RMsg (be32 TS_MODE_MASTER) False] \<and>
    (is_activated e \<longleftrightarrow> TxToken ActorPipe (space_token 0 cfg ns) \<notin> set evs)"
proof -
  let ?evs = "Tx LocalSocket c True # activation cfg ns e @ [Tx LocalSocket (be32 TS_MODE_MASTER) False]"
  have rx: "rx (reply_net True [?evs]) ClientSocket = RMsg (be32 TS_MODE_MASTER) False # []"
    by (simp add: reply_net_def)
  from open_master_run [OF assms(1) _ _ rx, of ipc m] obtain h w where
    h: "ts_open os self ns ipc m (reply_net True [?evs]) = Some (0, h, w)"
    "tx w = [OpenSock ClientSocket, Conn ClientSocket ipc] @ connect_ev ClientSocket ns m"
    "handle_ok True ns h" "push_pipe h = ns @ ''-push''" "pull_pipe h = ns @ ''-pull''"
    by auto
  have "daemon_call L cfg tab True c (tx w) = Some (tab(ns \<mapsto> opened cfg m e), ?evs)"
    using open_call_master [where tab = tab and ns = ns and e = e, OF assms(2-6), of True "tx w" L] h(2) by simp
  then show ?thesis
    using h by (intro exI [of _ h] exI [of _ w] exI [of _ ?evs]) (simp add: activation_def token_ev_def)
qed

context tsd_space
begin

text \<open>A client that opens a space at a worker before the master is there is left to wait.\<close>

lemma open_call_queues:
  assumes "tab ns = Some e" and "ts_mode e = TsModeWorker" and "\<not> is_activated e" and "head_ok c ns ns"
    and "m = TS_MODE_MASTER \<or> m = TS_MODE_CLIENT"
    and "delivered (client_side local) evs = delivered (client_side local) (connect_ev (client_side local) ns m)"
  shows "\<exists>q b. daemon_call L self tab local c evs = Some (tab(ns \<mapsto> e\<lparr>is_requested := True, connect_requests := q\<rparr>),
      [Tx (using_socket local) c True, Tx (using_socket local) (be32 TS_MODE_BLOCK) False]) \<and>
    ritems q = ritems (connect_requests e) @ [b] \<and> deref (bclient b) = Some c \<and> blocal b = local \<and> answerable b"
proof -
  let ?w = "request_net local c evs" and ?args = "head_args c ns TsConnect local"
  let ?v = "took (using_socket local) [RMsg (be32 m) False] True ?w"
  note h = head_received [of ?w local c "c_bytes ns" ns TsConnect True "[RMsg (be32 m) False]" tab e L self,
      OF connect_rx [OF assms(6)] connect_head [OF assms(4)] assms(1)]
  obtain q b where "ts_connect_handler L self ?args e ?v =
      Some (Some 0, closed ?args, e\<lparr>is_requested := True, connect_requests := q\<rparr>,
        out [Tx (using_socket local) c True, Tx (using_socket local) (be32 TS_MODE_BLOCK) False]
          (took (using_socket local) [] False ?v))"
    and "ritems q = ritems (connect_requests e) @ [b]" "deref (bclient b) = Some c" "blocal b = local" "answerable b"
    using connect_queues [OF head_args_session [OF assms(4)] _ assms(2,3), of TsConnect local ?v m "[]" self] assms(5) by auto
  then show ?thesis by (intro exI [of _ q] exI [of _ b]) (simp add: daemon_call_def h dispatch_def)
qed

text \<open>
  The token of the master reaches the worker's daemon: the waiting client gets the endpoint, connects
  to the master and has a handle there.
\<close>

lemma open_waits:
  assumes "can_open o1 self1 ns" and "can_open o2 self2 ns"
    and "tabA ns = Some a" and "ts_mode a = TsModeWorker" and "\<not> is_activated a" and "ritems (connect_requests a) = []"
    and "tabB ns = Some b" and "ts_mode b = TsModeMaster" and "\<not> is_activated b"
    and "head_ok c1 ns ns" and "head_ok c2 ns ns" and "head_ok c3 ns ns"
    and "m1 = TS_MODE_MASTER \<or> m1 = TS_MODE_CLIENT" and "m2 = TS_MODE_MASTER \<or> m2 = TS_MODE_CLIENT"
    and "c_string (endpoint cfgB)" and "fits_int (endpoint cfgB)"
    and "length (endpoint cfgB) < length (direct_endpoint a)" and "length (endpoint cfgB) < length (direct_endpoint b)"
  shows "\<exists>h1 w1 h2 w2 v tabA1 tabA2 tabB1 tabB2 evs1 evs2 evs3 a2 b2.
    ts_open o2 self2 ns ipc2 m2 (reply_net True [evs2]) = Some (0, h2, w2) \<and>
    daemon_call L cfgB tabB True c2 (tx w2) = Some (tabB1, evs2) \<and>
    TxToken ActorPipe (space_token 0 cfgB ns) \<in> set evs2 \<and>
    daemon_call L cfgA tabA True c1 (tx w1) = Some (tabA1, evs1) \<and>
    delivered LocalSocket evs1 = [RMsg c1 True, RMsg (be32 TS_MODE_BLOCK) False] \<and>
    connect_token_next L tabA1 (space_token 0 cfgB ns) idle_net = Some (tabA2, v) \<and>
    daemon_call L cfgB tabB1 False c3 (tx w1) = Some (tabB2, evs3) \<and>
    ts_open o1 self1 ns ipc1 m1 (idle_net\<lparr>rx := (\<lambda>_. [])
      (ClientSocket := tl (delivered LocalSocket evs1) @ tl (delivered LocalSocket (tx v)),
       ClientSocket2 := tl (delivered ServerSocket evs3))\<rparr>) = Some (0, h1, w1) \<and>
    handle_ok True ns h2 \<and> handle_ok False ns h1 \<and> deref (remote h1) = Some (endpoint cfgB) \<and>
    tabA2 ns = Some a2 \<and> is_activated a2 \<and> cstr (direct_endpoint a2) = Some (endpoint cfgB) \<and> ritems (connect_requests a2) = [] \<and>
    tabB2 ns = Some b2 \<and> is_activated b2 \<and> named_queue b2 = named_queue b"
proof -
  let ?ep = "endpoint cfgB" and ?tk = "space_token 0 cfgB ns"
  \<comment> \<open>the client of the master\<close>
  obtain h2 w2 evs2 where m: "ts_open o2 self2 ns ipc2 m2 (reply_net True [evs2]) = Some (0, h2, w2)"
    "daemon_call L cfgB tabB True c2 (tx w2) = Some (tabB(ns \<mapsto> opened cfgB m2 b), evs2)"
    "handle_ok True ns h2" "TxToken ActorPipe ?tk \<in> set evs2"
    using open_at_master [where tab = tabB and ns = ns and e = b and L = L and ipc = ipc2, OF assms(2,7,8,11,14,18)] assms(9) by blast
  \<comment> \<open>the worker's daemon\<close>
  let ?asked = "[OpenSock ClientSocket, Conn ClientSocket ipc1] @ connect_ev ClientSocket ns m1 @
      [OpenSock ClientSocket2, Conn ClientSocket2 ?ep] @ connect_ev ClientSocket2 ns m1"
  let ?evs1 = "[Tx LocalSocket c1 True, Tx LocalSocket (be32 TS_MODE_BLOCK) False]"
  obtain q r where q: "daemon_call L cfgA tabA True c1 ?asked = Some (tabA(ns \<mapsto> a\<lparr>is_requested := True, connect_requests := q\<rparr>), ?evs1)"
    "ritems q = [r]" "deref (bclient r) = Some c1" "blocal r" "answerable r"
    using open_call_queues [where tab = tabA and ns = ns and e = a, OF assms(3,4,5,10,13), of True ?asked cfgA] assms(6) by auto
  let ?a = "a\<lparr>is_requested := True, connect_requests := q\<rparr>"
  have cs: "c_string ns" using assms(1) by (simp add: can_open_def)
  obtain q' d where t: "connect_token_next L (tabA(ns \<mapsto> ?a)) ?tk idle_net =
      Some (tabA(ns \<mapsto> ?a\<lparr>is_activated := True, direct_endpoint := d, connect_requests := q'\<rparr>),
        out (concat (map (endpoint_ev ?ep) [r]) @ token_ev ?tk) idle_net)" "ritems q' = []" "cstr d = Some ?ep"
    using connect_token_run [of ?tk ns ?ep ?a "tabA(ns \<mapsto> ?a)" idle_net] assms(5,15,17) cs q(2,5)
    by (auto simp: space_token_def)
  let ?v = "out (concat (map (endpoint_ev ?ep) [r]) @ token_ev ?tk) idle_net"
  have dv: "delivered LocalSocket (tx ?v) = RMsg c1 True # str_frames ?ep False"
    using q(3,4) by (simp add: endpoint_ev_def to_client_def using_socket_def str_frames_def)
  \<comment> \<open>the master, asked by the waiting client\<close>
  let ?b = "opened cfgB m2 b"
  let ?evs3 = "[Tx ServerSocket c3 True, Tx ServerSocket (be32 TS_MODE_MASTER) False]"
  have b: "ts_mode ?b = TsModeMaster" "length ?ep < length (direct_endpoint ?b)" "is_activated ?b" "named_queue ?b = named_queue b"
    using assms(8,18) by (simp_all add: opened_def length_overwrite)
  have w: "daemon_call L cfgB (tabB(ns \<mapsto> ?b)) False c3 ?asked = Some (tabB(ns \<mapsto> ?b, ns \<mapsto> opened cfgB m1 ?b), ?evs3)"
    using open_call_master [where tab = "tabB(ns \<mapsto> ?b)" and ns = ns and e = ?b, OF _ b(1) assms(12,13) b(2), of False ?asked L] b(3)
    by (simp add: activation_def using_socket_def)
  let ?u = "idle_net\<lparr>rx := (\<lambda>_. [])(ClientSocket := tl (delivered LocalSocket ?evs1) @ tl (delivered LocalSocket (tx ?v)),
       ClientSocket2 := tl (delivered ServerSocket ?evs3))\<rparr>"
  have rx: "rx ?u ClientSocket = RMsg (be32 TS_MODE_BLOCK) False # str_frames ?ep False @ []"
    "rx ?u ClientSocket2 = RMsg (be32 TS_MODE_MASTER) False # []"
    unfolding dv by simp_all
  obtain h1 w1 where h1: "ts_open o1 self1 ns ipc1 m1 ?u = Some (0, h1, w1)" "tx w1 = ?asked" "handle_ok False ns h1"
    "deref (remote h1) = Some ?ep"
    using open_worker_run [OF assms(1) _ _ rx(1) _ assms(15,16) rx(2), of ipc1 m1] by auto
  show ?thesis
    by (rule exI [of _ h1], rule exI [of _ w1], rule exI [of _ h2], rule exI [of _ w2], rule exI [of _ ?v],
        rule exI [of _ "tabA(ns \<mapsto> ?a)"],
        rule exI [of _ "tabA(ns \<mapsto> ?a\<lparr>is_activated := True, direct_endpoint := d, connect_requests := q'\<rparr>)"],
        rule exI [of _ "tabB(ns \<mapsto> ?b)"], rule exI [of _ "tabB(ns \<mapsto> ?b, ns \<mapsto> opened cfgB m1 ?b)"],
        rule exI [of _ ?evs1], rule exI [of _ evs2], rule exI [of _ ?evs3],
        rule exI [of _ "?a\<lparr>is_activated := True, direct_endpoint := d, connect_requests := q'\<rparr>"],
        rule exI [of _ "opened cfgB m1 ?b"], intro conjI)
       (use m q(1) t w h1 b(4) in \<open>simp_all add: opened_def\<close>)
qed

end

end
