(* ===== verification/TsdBcast.thy ===== *)
theory TsdBcast
  imports TsdSession
begin

text \<open>
  The broadcast queue of a space. The write handler appends a copy of \<open>recv\<close>, which in that function
  is the address of the system call, where the tuple it has received was meant; a remote tuple is received
  over the pointer to its data. The read handler queues a request whose strings it frees.
\<close>

context tsd_space
begin

lemma bcast_stored:
  "titems (zl_add_end (TQ L) q (tplcpy (recv_code L))) = titems q @ [recv_code L]"
  by (simp add: T.add_end tplcpy_def)

lemma bcast_write_local:
  assumes "session c args" and "act args = TsBCast_Write" and "is_local args" and "fits_int n" and "d \<noteq> []"
    and "rx w LocalSocket = str_frames n False @ fs" and "shm w (ts_tsd_pipe e) = item_chunks d @ cs"
  shows "\<exists>q w'. bcast_queue_write_handler L args e w = Some (Some 0, closed args, e\<lparr>bcast_queue := q\<rparr>, w') \<and>
    titems q = titems (bcast_queue e) @ [recv_code L] \<and> tx w' = tx w"
proof -
  let ?w = "took LocalSocket fs False w"
  have r: "recv_strp LocalSocket Null w = Some (P2PM_OP_SUCCESS, Live (c_bytes n), ?w)"
    by (rule recv_strp_ok [OF assms(4,6)])
  have i: "recv_item (ts_tsd_pipe e) ?w = Some (0, Live d, length d, after_read (ts_tsd_pipe e) cs ?w)"
    by (rule recv_item_ok [OF assms(5)]) (simp add: assms(7))
  have ret: "safe_return 0 args e' s v = Some (Some 0, closed args, e', v)" for e' :: "('t, 'r, 's) tsd_element" and s v
    by (rule session_return(1) [OF assms(1)]) simp
  have "bcast_queue_write_handler L args e w = Some (Some 0, closed args,
      e\<lparr>bcast_queue := zl_add_end (TQ L) (bcast_queue e) (tplcpy (recv_code L))\<rparr>, after_read (ts_tsd_pipe e) cs ?w)"
    using assms(2,3,5) session_simps [OF assms(1)] ret r i
    by (simp add: bcast_queue_write_handler_def using_socket_def)
  then show ?thesis by - (intro exI conjI, assumption, rule bcast_stored, simp)
qed

lemma bcast_write_remote:
  assumes "session c args" and "act args = TsBCast_Write" and "\<not> is_local args" and "fits_int n" and "d \<noteq> []"
    and "length d < 2 ^ 64"
    and "rx w ServerSocket = str_frames n True @ RMsg (be64 (word_of_nat (length d))) True # RMsg d False # fs"
  shows "if length d \<le> 8
    then \<exists>q w'. bcast_queue_write_handler L args e w = Some (Some 0, closed args, e\<lparr>bcast_queue := q\<rparr>, w') \<and>
      titems q = titems (bcast_queue e) @ [recv_code L] \<and> tx w' = tx w
    else bcast_queue_write_handler L args e w = None"
proof -
  let ?w = "took ServerSocket (RMsg (be64 (word_of_nat (length d))) True # RMsg d False # fs) True w"
  have r: "recv_strp ServerSocket Null w = Some (P2PM_OP_SUCCESS, Live (c_bytes n), ?w)"
    by (rule recv_strp_ok [OF assms(4,7)])
  have l: "p2pm_recv_uint64 ServerSocket 0 ?w = (P2PM_OP_SUCCESS, word_of_nat (length d), took ServerSocket (RMsg d False # fs) True ?w)"
    by (rule recv_u64_ok) simp
  have n: "unat (word_of_nat (length d) :: u64) = length d" using assms(6) by (simp add: unat_of_nat)
  then have nz: "(word_of_nat (length d) :: u64) \<noteq> 0" using assms(5) by (auto simp: word_unat_eq_iff)
  have z: "zmq_recv ServerSocket (zeros (length d)) (took ServerSocket (RMsg d False # fs) True ?w) =
      (int (length d), d, took ServerSocket fs False w)"
    by (simp add: zmq_recv_def took_def)
  have ret: "safe_return 0 args e' s v = Some (Some 0, closed args, e', v)" for e' :: "('t, 'r, 's) tsd_element" and s v
    by (rule session_return(1) [OF assms(1)]) simp
  have "bcast_queue_write_handler L args e w = (if length d \<le> 8 then Some (Some 0, closed args,
      e\<lparr>bcast_queue := zl_add_end (TQ L) (bcast_queue e) (tplcpy (recv_code L))\<rparr>, took ServerSocket fs False w) else None)"
    using assms(2,3) session_simps [OF assms(1)] ret r l n nz z
    by (simp add: bcast_queue_write_handler_def using_socket_def)
  moreover have "\<exists>q w'. Some (Some 0, closed args, e\<lparr>bcast_queue := zl_add_end (TQ L) (bcast_queue e) (tplcpy (recv_code L))\<rparr>,
      took ServerSocket fs False w) = Some (Some 0, closed args, e\<lparr>bcast_queue := q\<rparr>, w') \<and>
      titems q = titems (bcast_queue e) @ [recv_code L] \<and> tx w' = tx w"
    by (intro exI conjI, rule refl, rule bcast_stored) simp
  ultimately show ?thesis by simp
qed

text \<open>
  A blocking broadcast read that finds no tuple queues a request. The request holds the tuple name and the
  client id that the handler frees before it returns.
\<close>

lemma bcast_read_queued:
  assumes "session c args" and "act args = TsBCast_Read_Blocking" and "is_activated e" and "fits_int n"
    and "rx w (using_socket (is_local args)) = str_frames n False @ fs" and "send_ok w = []"
    and "titems (bcast_queue e) = []"
  shows "\<exists>q b. bcast_queue_read_handler L args e w = Some (Some 1, closed args, e\<lparr>bcast_queue_requests := q\<rparr>,
      out [Tx (using_socket (is_local args)) c True, cmd_ev (using_socket (is_local args)) TsEnf False]
        (took (using_socket (is_local args)) fs False w)) \<and>
    ritems q = ritems (bcast_queue_requests e) @ [b] \<and> bclient b = Freed"
proof -
  let ?s = "using_socket (is_local args)"
  let ?b = "\<lparr>bname = Freed, bclient = Freed, bcommand = TsBCast_Read_Blocking, bextra = 0, blocal = is_local args\<rparr>"
  let ?t = "\<lparr>tname = Live (c_bytes n), anon_id = 0, tlen = 0, tdata = Null\<rparr>"
  have r: "recv_strp ?s Null (out [Tx ?s c True] w) =
      Some (P2PM_OP_SUCCESS, Live (c_bytes n), took ?s fs False (out [Tx ?s c True] w))"
    using assms(5) by (intro recv_strp_ok [OF assms(4)]) simp
  have "scan (tplcmp (rgx L)) (titems (bcast_queue e)) ?t = Some None" by (simp add: assms(7))
  then have f: "zl_find (TQ L) (tplcmp (rgx L)) (bcast_queue e) ?t = Some None" by (rule T.find_none)
  show ?thesis
    using assms(1-3,6) session_simps [OF assms(1)] r f
    by (intro exI [of _ "zl_add_end (RQ L) (bcast_queue_requests e) ?b"] exI [of _ ?b])
      (simp add: bcast_queue_read_handler_def Let_def R.add_end blckcpy_def cfree_def)
qed

end

end
