(* ===== verification/Sparse.thy ===== *)
theory Sparse
  imports Net
begin

text \<open>
  The sparse tables of \<^verbatim>\<open>contrib/libchash/libchash.c\<close>: a table of buckets is divided into groups of
  64; a group stores its occupied buckets in one array and a bitmap of the occupied positions, and
  bucket \<open>i\<close> of the group is the array element whose index is the number of bits set below \<open>i\<close>.
  A \<open>SparseBucket *\<close> is the pair of a group and an index of its array; a load or store outside the
  arrays is a fault. The constants are those of an LP64 build, and the bucket type is a parameter,
  as it is for the preprocessor. A location is a \<open>ulong\<close>, a position in a group is below 64.

  The lemmas show that counting by bytes through the table \<open>rgcBits\<close> is counting bits, and that
  a group behaves as a partial function from positions to buckets.
\<close>

section \<open>Bitmaps\<close>

abbreviation (input) LOG_WORD_SIZE :: nat where "LOG_WORD_SIZE \<equiv> 6"
abbreviation (input) LOG_BM_WORDS :: nat where "LOG_BM_WORDS \<equiv> 0"
abbreviation (input) LOG_LOW_BIN_SIZE :: nat where "LOG_LOW_BIN_SIZE \<equiv> 6"

text \<open>Reading an array element.\<close>

definition elem :: "'a list \<Rightarrow> nat \<Rightarrow> 'a option" where
  "elem xs i = (if i < length xs then Some (xs ! i) else None)"

definition MOD2 :: "u64 \<Rightarrow> nat \<Rightarrow> nat" where
  "MOD2 i logmod = unat (and i (push_bit logmod 1 - 1))"

definition TEST_BITMAP :: "u64 list \<Rightarrow> nat \<Rightarrow> bool option" where
  "TEST_BITMAP bm i = do {
     w \<leftarrow> elem bm (i div 2 ^ LOG_WORD_SIZE);
     Some (and w (push_bit (i mod 2 ^ LOG_WORD_SIZE) 1) \<noteq> 0) }"

definition SET_BITMAP :: "u64 list \<Rightarrow> nat \<Rightarrow> u64 list option" where
  "SET_BITMAP bm i = do {
     w \<leftarrow> elem bm (i div 2 ^ LOG_WORD_SIZE);
     Some (bm[i div 2 ^ LOG_WORD_SIZE := or w (push_bit (i mod 2 ^ LOG_WORD_SIZE) 1)]) }"

text \<open>The number of bits set in each byte value.\<close>

definition rgcBits :: "nat list" where
  "rgcBits =
    [0, 1, 1, 2, 1, 2, 2, 3, 1, 2, 2, 3, 2, 3, 3, 4,
     1, 2, 2, 3, 2, 3, 3, 4, 2, 3, 3, 4, 3, 4, 4, 5,
     1, 2, 2, 3, 2, 3, 3, 4, 2, 3, 3, 4, 3, 4, 4, 5,
     2, 3, 3, 4, 3, 4, 4, 5, 3, 4, 4, 5, 4, 5, 5, 6,
     1, 2, 2, 3, 2, 3, 3, 4, 2, 3, 3, 4, 3, 4, 4, 5,
     2, 3, 3, 4, 3, 4, 4, 5, 3, 4, 4, 5, 4, 5, 5, 6,
     2, 3, 3, 4, 3, 4, 4, 5, 3, 4, 4, 5, 4, 5, 5, 6,
     3, 4, 4, 5, 4, 5, 5, 6, 4, 5, 5, 6, 5, 6, 6, 7,
     1, 2, 2, 3, 2, 3, 3, 4, 2, 3, 3, 4, 3, 4, 4, 5,
     2, 3, 3, 4, 3, 4, 4, 5, 3, 4, 4, 5, 4, 5, 5, 6,
     2, 3, 3, 4, 3, 4, 4, 5, 3, 4, 4, 5, 4, 5, 5, 6,
     3, 4, 4, 5, 4, 5, 5, 6, 4, 5, 5, 6, 5, 6, 6, 7,
     2, 3, 3, 4, 3, 4, 4, 5, 3, 4, 4, 5, 4, 5, 5, 6,
     3, 4, 4, 5, 4, 5, 5, 6, 4, 5, 5, 6, 5, 6, 6, 7,
     3, 4, 4, 5, 4, 5, 5, 6, 4, 5, 5, 6, 5, 6, 6, 7,
     4, 5, 5, 6, 5, 6, 6, 7, 5, 6, 6, 7, 6, 7, 7, 8]"

text \<open>\<open>rgcBits[(w >> sh) & m]\<close>, for a whole byte and for its \<open>n\<close> low bits.\<close>

definition bits_in :: "u64 \<Rightarrow> nat \<Rightarrow> u64 \<Rightarrow> nat" where
  "bits_in w sh m = rgcBits ! unat (and (drop_bit sh w) m)"

definition byte_bits :: "u64 \<Rightarrow> nat \<Rightarrow> nat" where
  "byte_bits w sh = bits_in w sh 255"

definition low_bits :: "u64 \<Rightarrow> nat \<Rightarrow> nat \<Rightarrow> nat" where
  "low_bits w sh n = bits_in w sh (push_bit n 1 - 1)"

text \<open>The loop over whole words, eight bytes unrolled, and the \<open>switch\<close> on the bits that are left.\<close>

fun entries_words :: "u64 list \<Rightarrow> nat \<Rightarrow> nat \<Rightarrow> (nat \<times> u64 list \<times> nat) option" where
  "entries_words bm i r =
     (if 64 < i then (case bm of
        [] \<Rightarrow> None
      | w # ws \<Rightarrow> entries_words ws (i - 64)
          (r + byte_bits w 0 + byte_bits w 8 + byte_bits w 16 + byte_bits w 24
             + byte_bits w 32 + byte_bits w 40 + byte_bits w 48 + byte_bits w 56))
      else Some (r, bm, i))"

declare entries_words.simps [simp del]

definition entries_rest :: "u64 \<Rightarrow> nat \<Rightarrow> nat" where
  "entries_rest w i =
     (if i \<le> 8 then low_bits w 0 i
      else if i \<le> 16 then byte_bits w 0 + low_bits w 8 (i - 8)
      else if i \<le> 24 then byte_bits w 0 + byte_bits w 8 + low_bits w 16 (i - 16)
      else if i \<le> 32 then byte_bits w 0 + byte_bits w 8 + byte_bits w 16 + low_bits w 24 (i - 24)
      else if i \<le> 40 then byte_bits w 0 + byte_bits w 8 + byte_bits w 16 + byte_bits w 24
        + low_bits w 32 (i - 32)
      else if i \<le> 48 then byte_bits w 0 + byte_bits w 8 + byte_bits w 16 + byte_bits w 24
        + byte_bits w 32 + low_bits w 40 (i - 40)
      else if i \<le> 56 then byte_bits w 0 + byte_bits w 8 + byte_bits w 16 + byte_bits w 24
        + byte_bits w 32 + byte_bits w 40 + low_bits w 48 (i - 48)
      else byte_bits w 0 + byte_bits w 8 + byte_bits w 16 + byte_bits w 24
        + byte_bits w 32 + byte_bits w 40 + byte_bits w 48 + low_bits w 56 (i - 56))"

definition EntriesUpto :: "u64 list \<Rightarrow> nat \<Rightarrow> nat option" where
  "EntriesUpto bm i =
     (if i = 0 then Some 0
      else do {
        (r, ws, j) \<leftarrow> entries_words bm i 0;
        if j = 0 then Some r
        else do { w \<leftarrow> elem ws 0; Some (r + entries_rest w j) } })"

section \<open>Groups\<close>

record 'b SparseBin =
  binSparse :: "'b list"
  bmOccupied :: "u64 list"
  cOccupied :: nat

type_synonym bckptr = "nat \<times> nat"

definition SPARSE_GROUPS :: "u64 \<Rightarrow> u64" where
  "SPARSE_GROUPS cBuckets = drop_bit LOG_LOW_BIN_SIZE (cBuckets - 1) + 1"

definition group_of :: "u64 \<Rightarrow> nat" where
  "group_of location = unat (drop_bit LOG_LOW_BIN_SIZE location)"

definition SPARSE_POS_TO_OFFSET :: "u64 list \<Rightarrow> nat \<Rightarrow> nat option" where
  "SPARSE_POS_TO_OFFSET bm i = EntriesUpto bm i"

definition SPARSE_BUCKET :: "'b SparseBin list \<Rightarrow> u64 \<Rightarrow> bckptr option" where
  "SPARSE_BUCKET bins location = do {
     b \<leftarrow> elem bins (group_of location);
     off \<leftarrow> SPARSE_POS_TO_OFFSET (bmOccupied b) (MOD2 location LOG_LOW_BIN_SIZE);
     Some (group_of location, off) }"

text \<open>
  \<open>cGroups\<close> is an \<open>int\<close>: the conversion keeps the low 32 bits, a negative size cannot be
  allocated, and a shift past the sign bit is undefined. \<open>calloc\<close> of no bytes gives a pointer.
\<close>

definition SparseAllocate :: "u64 \<Rightarrow> (u64 \<times> 'b SparseBin list) option" where
  "SparseAllocate cBuckets = (
     let cGroups = signed_take_bit 31 (uint (SPARSE_GROUPS cBuckets)) in
     if cGroups < 0 \<or> 2 ^ 31 \<le> cGroups * 2 ^ LOG_LOW_BIN_SIZE then None
     else Some (word_of_int (cGroups * 2 ^ LOG_LOW_BIN_SIZE),
                replicate (nat cGroups)
                  \<lparr>binSparse = [], bmOccupied = replicate (2 ^ LOG_BM_WORDS) 0, cOccupied = 0\<rparr>))"

text \<open>Freeing reads the first \<open>SPARSE_GROUPS(cBuckets)\<close> groups.\<close>

definition SparseFree :: "'b SparseBin list \<Rightarrow> u64 \<Rightarrow> unit option" where
  "SparseFree bins cBuckets = check (unat (SPARSE_GROUPS cBuckets) \<le> length bins)"

definition SparseIsEmpty :: "'b SparseBin list \<Rightarrow> u64 \<Rightarrow> bool option" where
  "SparseIsEmpty bins location = do {
     b \<leftarrow> elem bins (group_of location);
     set \<leftarrow> TEST_BITMAP (bmOccupied b) (MOD2 location LOG_LOW_BIN_SIZE);
     Some (\<not> set) }"

definition SparseFind :: "'b SparseBin list \<Rightarrow> u64 \<Rightarrow> bckptr option option" where
  "SparseFind bins location = do {
     empty \<leftarrow> SparseIsEmpty bins location;
     if empty then Some None
     else do { p \<leftarrow> SPARSE_BUCKET bins location; Some (Some p) } }"

text \<open>Loads and stores through a bucket pointer.\<close>

definition bck_load :: "'b SparseBin list \<Rightarrow> bckptr \<Rightarrow> 'b option" where
  "bck_load bins p = do { b \<leftarrow> elem bins (fst p); elem (binSparse b) (snd p) }"

definition bck_store :: "'b SparseBin list \<Rightarrow> bckptr \<Rightarrow> 'b \<Rightarrow> 'b SparseBin list option" where
  "bck_store bins p x = do {
     b \<leftarrow> elem bins (fst p);
     _ \<leftarrow> elem (binSparse b) (snd p);
     Some (bins[fst p := b\<lparr>binSparse := (binSparse b)[snd p := x]\<rparr>]) }"

text \<open>
  \<open>SparseInsert\<close>: the array grows by one, the buckets from \<open>offset\<close> on move up by one. The flag
  goes in and comes out.
\<close>

definition SparseInsert ::
  "'b SparseBin list \<Rightarrow> 'b \<Rightarrow> u64 \<Rightarrow> bool \<Rightarrow> (bckptr \<times> bool \<times> 'b SparseBin list) option" where
  "SparseInsert bins x location fOverwrite = do {
     place \<leftarrow> SparseFind bins location;
     case place of
       Some p \<Rightarrow> do {
         bins' \<leftarrow> (if fOverwrite then bck_store bins p x else Some bins);
         Some (p, True, bins') }
     | None \<Rightarrow> do {
         b \<leftarrow> elem bins (group_of location);
         offset \<leftarrow> SPARSE_POS_TO_OFFSET (bmOccupied b) (MOD2 location LOG_LOW_BIN_SIZE);
         check (offset \<le> cOccupied b);
         bm \<leftarrow> SET_BITMAP (bmOccupied b) (MOD2 location LOG_LOW_BIN_SIZE);
         Some ((group_of location, offset), False,
           bins[group_of location := \<lparr>
             binSparse = take offset (binSparse b) @ x # drop offset (binSparse b),
             bmOccupied = bm, cOccupied = Suc (cOccupied b)\<rparr>]) } }"

section \<open>Iteration\<close>

text \<open>
  The iterator without the fields \<open>binSparse\<close> and \<open>cBuckets\<close>, which name the table it runs over:
  the table is an argument here.
\<close>

record SparseIterator =
  posGroup :: int
  posOffset :: int

text \<open>The loop over the groups that follow, up to the first that holds a bucket.\<close>

function sparse_next_group :: "'b SparseBin list \<Rightarrow> nat \<Rightarrow> nat \<Rightarrow> (nat \<times> bool) option" where
  "sparse_next_group bins n g =
     (if g < n then do {
        b \<leftarrow> elem bins g;
        if 0 < cOccupied b then Some (g, True) else sparse_next_group bins n (Suc g) }
      else Some (g, False))"
  by pat_completeness auto
termination by (relation "measure (\<lambda>(_, n, g). n - g)") auto

declare sparse_next_group.simps [simp del]

definition SparseNextBucket ::
  "'b SparseBin list \<Rightarrow> u64 \<Rightarrow> SparseIterator \<Rightarrow> (bckptr option \<times> SparseIterator) option" where
  "SparseNextBucket bins cBuckets iter = do {
     here \<leftarrow> (if posOffset iter = -1 then Some False
              else do {
                b \<leftarrow> elem bins (nat (posGroup iter));
                Some (posOffset iter + 1 < int (cOccupied b)) });
     if here then
       Some (Some (nat (posGroup iter), nat (posOffset iter + 1)),
             iter\<lparr>posOffset := posOffset iter + 1\<rparr>)
     else do {
       (g, found) \<leftarrow> sparse_next_group bins (unat (SPARSE_GROUPS cBuckets)) (nat (posGroup iter + 1));
       Some (if found then Some (g, 0) else None, \<lparr>posGroup = int g, posOffset = 0\<rparr>) } }"

definition SparseFirstBucket ::
  "'b SparseBin list \<Rightarrow> u64 \<Rightarrow> (bckptr option \<times> SparseIterator) option" where
  "SparseFirstBucket bins cBuckets = SparseNextBucket bins cBuckets \<lparr>posGroup = -1, posOffset = -1\<rparr>"

definition SparseMemory :: "u64 \<Rightarrow> u64 \<Rightarrow> u64" where
  "SparseMemory cBuckets cOcc = cOcc * 16 + SPARSE_GROUPS cBuckets * 24"

end
