(* ===== verification/HashKey.thy ===== *)
theory HashKey
  imports Sparse
begin

text \<open>
  Keys of the hash table of \<^verbatim>\<open>contrib/libchash\<close>, and its hash function. A key argument is a \<open>ulong\<close>:
  the key itself when keys of at most eight bytes are stored directly (\<open>KImm\<close>), a pointer to its
  bytes otherwise (\<open>KPtr\<close>); which one is decided by \<open>cchKey\<close>, the key length, 0 for NUL-terminated
  strings. Reading an address as a number is not modelled (a fault). Two pointers to equal blocks are
  not told apart, so the test of the addresses that precedes \<open>strcmp\<close> is left to \<open>strcmp\<close>.
  The structures \<open>HTItem\<close> and \<open>HashTable\<close> are those of \<^verbatim>\<open>libchash.h\<close>, without the fields for tables that
  stay on disk (\<open>fpData\<close> is never set outside \<open>HashLoadKeys\<close>). Characters are signed, as on x86.
\<close>

section \<open>Data\<close>

datatype hkey = KImm u64 | KPtr cptr

record HTItem =
  bck_data :: u64
  bck_key :: hkey

text \<open>\<open>posLastFind\<close>: not yet set, null, or a bucket.\<close>

datatype last_find = Unset | NoItem | Item bckptr

record HashTable =
  cchKey :: nat
  cItems :: u64
  cDeletedItems :: u64
  cBuckets :: u64
  ht_table :: "HTItem SparseBin list option"
  fSaveKeys :: int
  cDeltaGoalSize :: int
  posLastFind :: last_find
  ht_iter :: "SparseIterator option"

definition DELETED :: u64 where
  "DELETED = - 2"

definition IS_BCK_DELETED :: "HTItem \<Rightarrow> bool" where
  "IS_BCK_DELETED bck = (bck_data bck = DELETED)"

section \<open>Keys\<close>

definition STORES_PTR :: "HashTable \<Rightarrow> bool" where
  "STORES_PTR ht \<longleftrightarrow> cchKey ht = 0 \<or> cchKey ht > 8"

text \<open>\<open>HTSetupKeyTrunc\<close> fills the masks that cut a small key to its length.\<close>

definition HTSetupKeyTrunc :: "bytes list" where
  "HTSetupKeyTrunc = map (\<lambda>i. map (\<lambda>j. if j < i then CHR 0xFF else CHR 0x00) [0..<8]) [0..<8]"

definition KEY_TRUNC :: "HashTable \<Rightarrow> hkey \<Rightarrow> hkey option" where
  "KEY_TRUNC ht key =
     (if STORES_PTR ht \<or> cchKey ht = 8 then Some key
      else (case key of
        KImm w \<Rightarrow> do { m \<leftarrow> elem HTSetupKeyTrunc (cchKey ht); Some (KImm (and w (of_nat (le_nat m)))) }
      | KPtr _ \<Rightarrow> None))"

text \<open>The block that \<open>KEY_PTR\<close> points to.\<close>

definition KEY_PTR :: "HashTable \<Rightarrow> hkey \<Rightarrow> bytes option" where
  "KEY_PTR ht key =
     (if STORES_PTR ht then (case key of KPtr (Live b) \<Rightarrow> Some b | _ \<Rightarrow> None)
      else (case key of KImm w \<Rightarrow> Some (nat_le 8 (unat w)) | KPtr _ \<Rightarrow> None))"

text \<open>\<open>PTR_KEY\<close>, with \<open>HTcopy\<close>: the key argument for a block.\<close>

definition HTcopy :: "bytes \<Rightarrow> u64 option" where
  "HTcopy b = (if 8 \<le> length b then Some (of_nat (le_nat (take 8 b))) else None)"

definition PTR_KEY :: "HashTable \<Rightarrow> bytes \<Rightarrow> hkey option" where
  "PTR_KEY ht b = (if STORES_PTR ht then Some (KPtr (Live b)) else map_option KImm (HTcopy b))"

text \<open>The bytes of the key at the start of a block: \<open>strlen\<close> or \<open>cchKey\<close> of them.\<close>

definition key_bytes :: "HashTable \<Rightarrow> bytes \<Rightarrow> bytes option" where
  "key_bytes ht b =
     (if cchKey ht = 0 then cstr b
      else if cchKey ht \<le> length b then Some (take (cchKey ht) b) else None)"

definition KEY_CMP :: "HashTable \<Rightarrow> hkey \<Rightarrow> hkey \<Rightarrow> u64 option" where
  "KEY_CMP ht key1 key2 =
     (if \<not> STORES_PTR ht then (case (key1, key2) of
        (KImm a, KImm b) \<Rightarrow> Some (a - b) | _ \<Rightarrow> None)
      else do {
        b1 \<leftarrow> KEY_PTR ht key1;
        b2 \<leftarrow> KEY_PTR ht key2;
        s1 \<leftarrow> key_bytes ht b1;
        s2 \<leftarrow> key_bytes ht b2;
        Some (word_of_int (strcmp s1 s2)) })"

text \<open>
  A copied key is padded to whole words; the bytes of the padding are never read, here they are
  zero.
\<close>

definition WORD_ROUND :: "nat \<Rightarrow> nat" where
  "WORD_ROUND num = or (num - 1) 7 + 1"

definition COPY_KEY :: "HashTable \<Rightarrow> hkey \<Rightarrow> hkey option" where
  "COPY_KEY ht keyFrom =
     (if \<not> STORES_PTR ht \<or> fSaveKeys ht = 0 then Some keyFrom
      else do {
        b \<leftarrow> KEY_PTR ht keyFrom;
        s \<leftarrow> key_bytes ht b;
        let src = (if cchKey ht = 0 then c_bytes s else s) in
        Some (KPtr (Live (src @ replicate (WORD_ROUND (length src) - length src) nul))) })"

text \<open>\<open>FREE_KEY\<close> leaves the pointer in place; it is dangling from then on.\<close>

definition FREE_KEY :: "HashTable \<Rightarrow> hkey \<Rightarrow> hkey option" where
  "FREE_KEY ht key =
     (if STORES_PTR ht \<and> fSaveKeys ht \<noteq> 0 then do {
        b \<leftarrow> KEY_PTR ht key;
        _ \<leftarrow> key_bytes ht b;
        Some (KPtr Freed) }
      else Some key)"

definition SET_BCK_DELETED :: "HashTable \<Rightarrow> HTItem \<Rightarrow> HTItem option" where
  "SET_BCK_DELETED ht bck = do {
     k \<leftarrow> FREE_KEY ht (bck_key bck);
     Some (bck\<lparr>bck_data := DELETED, bck_key := k\<rparr>) }"

section \<open>The hash function\<close>

definition mix :: "u64 \<times> u64 \<times> u64 \<Rightarrow> u64 \<times> u64 \<times> u64" where
  "mix = (\<lambda>(a, b, c).
     let a = a - b; a = a - c; a = xor a (drop_bit 43 c);
         b = b - c; b = b - a; b = xor b (push_bit 9 a);
         c = c - a; c = c - b; c = xor c (drop_bit 8 b);
         a = a - b; a = a - c; a = xor a (drop_bit 38 c);
         b = b - c; b = b - a; b = xor b (push_bit 23 a);
         c = c - a; c = c - b; c = xor c (drop_bit 5 b);
         a = a - b; a = a - c; a = xor a (drop_bit 35 c);
         b = b - c; b = b - a; b = xor b (push_bit 49 a);
         c = c - a; c = c - b; c = xor c (drop_bit 11 b);
         a = a - b; a = a - c; a = xor a (drop_bit 12 c);
         b = b - c; b = b - a; b = xor b (push_bit 18 a);
         c = c - a; c = c - b; c = xor c (drop_bit 22 b)
     in (a, b, c))"

text \<open>A signed \<open>char\<close> widened to \<open>ulong\<close>.\<close>

definition char_ulong :: "char \<Rightarrow> u64" where
  "char_ulong c = word_of_int (signed_take_bit 7 (of_char c :: int))"

definition WORD_AT :: "bytes \<Rightarrow> nat \<Rightarrow> u64" where
  "WORD_AT key off =
     (char_ulong (key ! off) + push_bit 8 (char_ulong (key ! (off + 1))) +
      push_bit 16 (char_ulong (key ! (off + 2))) + push_bit 24 (char_ulong (key ! (off + 3))) +
      push_bit 32 (char_ulong (key ! (off + 4))) + push_bit 40 (char_ulong (key ! (off + 5))) +
      push_bit 48 (char_ulong (key ! (off + 6))) + push_bit 56 (char_ulong (key ! (off + 7))))"

text \<open>The loop over blocks of three words.\<close>

fun hash_blocks :: "bytes \<Rightarrow> u64 \<times> u64 \<times> u64 \<Rightarrow> bytes \<times> (u64 \<times> u64 \<times> u64)" where
  "hash_blocks key (a, b, c) =
     (if 24 \<le> length key
      then hash_blocks (drop 24 key) (mix (a + WORD_AT key 0, b + WORD_AT key 8, c + WORD_AT key 16))
      else (key, (a, b, c)))"

declare hash_blocks.simps [simp del]

text \<open>
  The \<open>switch\<close> on the bytes that are left: the cases \<open>hi\<close> down to \<open>lo + 1\<close> fall through, case
  \<open>i + 1\<close> adds byte \<open>i\<close> at the place \<open>8 * (i - lo)\<close> bits up, from \<open>sh\<close> on.
\<close>

definition add_cases :: "bytes \<Rightarrow> nat \<Rightarrow> nat \<Rightarrow> nat \<Rightarrow> u64 \<Rightarrow> u64" where
  "add_cases key lo hi sh acc =
     foldl (\<lambda>acc i. acc + push_bit (8 * (i - lo) + sh) (char_ulong (key ! i))) acc (rev [lo..<hi])"

definition hash_rest :: "bytes \<Rightarrow> u64 \<times> u64 \<times> u64 \<Rightarrow> u64 \<times> u64 \<times> u64" where
  "hash_rest key = (\<lambda>(a, b, c).
     let n = length key in
     if 16 \<le> n then (a + WORD_AT key 0, b + WORD_AT key 8, add_cases key 16 n 8 c)
     else if 8 \<le> n then (a + WORD_AT key 0, add_cases key 8 n 0 b, c)
     else (add_cases key 0 n 0 a, b, c))"

definition hash_bytes :: "bytes \<Rightarrow> u64" where
  "hash_bytes key = (
     let (rest, (a, b, c)) = hash_blocks key (0x9e3779b9, 0x9e3779b9, 0x9e3779b9);
         (a, b, c) = mix (hash_rest rest (a, b, c + of_nat (length key)))
     in c)"

definition Hash :: "HashTable \<Rightarrow> bytes \<Rightarrow> u64 \<Rightarrow> u64 option" where
  "Hash ht block n = do {
     key \<leftarrow> key_bytes ht block;
     Some (and (hash_bytes key) (n - 1)) }"

end
