(* ===== verification/HashTable.thy ===== *)
theory HashTable
  imports HashKey
begin

text \<open>
  The hash table of \<^verbatim>\<open>contrib/libchash/libchash.c\<close> as the daemon compiles it: sparse buckets,
  \<open>JUMP\<close> by \<open>++offset\<close>, deletion by marking, growth at half occupancy, shrinking below a fifth.
  An item pointer is a bucket pointer of the table; \<open>NULL\<close> is \<open>None\<close>. The probing loops end only when
  they meet an empty bucket or the key; they are partial functions, and looping for ever is
  the same value as a fault. The tests on \<open>double\<close> values are written over the integers (sizes are
  powers of two, so that the products and quotients are exact).
\<close>

section \<open>Iteration over the live buckets\<close>

partial_function (option) next_live ::
  "HTItem SparseBin list \<Rightarrow> u64 \<Rightarrow> SparseIterator \<Rightarrow> (bckptr option \<times> SparseIterator) option" where
  "next_live t n it = do {
     (p, it') \<leftarrow> SparseNextBucket t n it;
     case p of
       None \<Rightarrow> Some (None, it')
     | Some q \<Rightarrow> do {
         b \<leftarrow> bck_load t q;
         if IS_BCK_DELETED b then next_live t n it' else Some (Some q, it') } }"

definition HashFirstBucket :: "HashTable \<Rightarrow> (bckptr option \<times> HashTable) option" where
  "HashFirstBucket ht = do {
     t \<leftarrow> ht_table ht;
     (p, it) \<leftarrow> SparseFirstBucket t (cBuckets ht);
     (q, it') \<leftarrow> (case p of
        None \<Rightarrow> Some (None, it)
      | Some q \<Rightarrow> do {
          b \<leftarrow> bck_load t q;
          if IS_BCK_DELETED b then next_live t (cBuckets ht) it else Some (Some q, it) });
     Some (q, ht\<lparr>ht_iter := Some it'\<rparr>) }"

definition HashNextBucket :: "HashTable \<Rightarrow> (bckptr option \<times> HashTable) option" where
  "HashNextBucket ht = do {
     t \<leftarrow> ht_table ht;
     it \<leftarrow> ht_iter ht;
     (q, it') \<leftarrow> next_live t (cBuckets ht) it;
     Some (q, ht\<lparr>ht_iter := Some it'\<rparr>) }"

section \<open>Rehashing\<close>

text \<open>The next bucket to probe: \<open>(iBucketFirst + ++offset) & (cBuckets - 1)\<close>.\<close>

definition jump :: "u64 \<Rightarrow> u64 \<Rightarrow> u64 \<Rightarrow> u64" where
  "jump n i offset = and (i + (offset + 1)) (n - 1)"

partial_function (option) probe_empty :: "HTItem SparseBin list \<Rightarrow> u64 \<Rightarrow> u64 \<Rightarrow> u64 \<Rightarrow> u64 option" where
  "probe_empty t n i offset = do {
     empty \<leftarrow> SparseIsEmpty t i;
     if empty then Some i else probe_empty t n (jump n i offset) (offset + 1) }"

text \<open>The body of the loop of \<open>Rehash\<close>: one bucket of the old table goes into the new one.\<close>

definition rehash_item ::
  "HashTable \<Rightarrow> HTItem SparseBin list \<Rightarrow> u64 \<Rightarrow> bckptr \<Rightarrow> HTItem SparseBin list \<Rightarrow> bool \<Rightarrow>
   (bckptr \<times> bool \<times> HTItem SparseBin list) option" where
  "rehash_item ht told n bck tnew fOverwrite = do {
     b \<leftarrow> bck_load told bck;
     block \<leftarrow> KEY_PTR ht (bck_key b);
     h \<leftarrow> Hash ht block n;
     i \<leftarrow> probe_empty tnew n h 0;
     SparseInsert tnew b i fOverwrite }"

partial_function (option) rehash_loop ::
  "HashTable \<Rightarrow> HTItem SparseBin list \<Rightarrow> u64 \<Rightarrow> bckptr option \<Rightarrow> bckptr option \<Rightarrow>
   HTItem SparseBin list \<Rightarrow> bckptr option \<Rightarrow> bool \<Rightarrow>
   (bckptr option \<times> HTItem SparseBin list \<times> HashTable) option" where
  "rehash_loop ht told n bckWatch bck tnew bckNew fOverwrite = (case bck of
     None \<Rightarrow> (case bckWatch of
         None \<Rightarrow> Some (bckNew, tnew, ht)
       | Some w \<Rightarrow> do {
           (q, _, tnew') \<leftarrow> rehash_item ht told n w tnew fOverwrite;
           Some (Some q, tnew', ht) })
   | Some p \<Rightarrow>
       if Some p = bckWatch then do {
         (bck', ht') \<leftarrow> HashNextBucket ht;
         rehash_loop ht' told n bckWatch bck' tnew bckNew fOverwrite }
       else do {
         (q, f, tnew') \<leftarrow> rehash_item ht told n p tnew fOverwrite;
         (bck', ht') \<leftarrow> HashNextBucket ht;
         rehash_loop ht' told n bckWatch bck' tnew' (Some q) f })"

definition Rehash :: "HashTable \<Rightarrow> u64 \<Rightarrow> bckptr option \<Rightarrow> (bckptr option \<times> HashTable) option" where
  "Rehash ht cNewBuckets bckWatch = do {
     told \<leftarrow> ht_table ht;
     (n, tnew) \<leftarrow> SparseAllocate cNewBuckets;
     (bck, ht1) \<leftarrow> HashFirstBucket ht;
     (bckNew, tnew', ht2) \<leftarrow> rehash_loop ht1 told n bckWatch bck tnew None False;
     _ \<leftarrow> SparseFree told (cBuckets ht2);
     Some (bckNew, ht2\<lparr>ht_table := Some tnew', cBuckets := n, cDeletedItems := 0\<rparr>) }"

section \<open>Searching\<close>

text \<open>
  The loop of \<open>Find\<close>: the bucket of the key, and what \<open>*piEmpty\<close> is set to (\<open>wanted\<close> when
  \<open>piEmpty\<close> is not null).
\<close>

partial_function (option) find_loop ::
  "HashTable \<Rightarrow> HTItem SparseBin list \<Rightarrow> hkey \<Rightarrow> bool \<Rightarrow> u64 \<Rightarrow> u64 \<Rightarrow> u64 option \<Rightarrow>
   (bckptr option \<times> u64 option) option" where
  "find_loop ht t key wanted i offset iEmpty = do {
     item \<leftarrow> SparseFind t i;
     case item of
       None \<Rightarrow> Some (None, if wanted \<and> iEmpty = None then Some i else iEmpty)
     | Some p \<Rightarrow> do {
         b \<leftarrow> bck_load t p;
         if IS_BCK_DELETED b then
           find_loop ht t key wanted (jump (cBuckets ht) i offset) (offset + 1)
             (if wanted \<and> iEmpty = None then Some i else iEmpty)
         else do {
           c \<leftarrow> KEY_CMP ht key (bck_key b);
           if c = 0 then Some (Some p, iEmpty)
           else find_loop ht t key wanted (jump (cBuckets ht) i offset) (offset + 1) iEmpty } } }"

definition Find :: "HashTable \<Rightarrow> hkey \<Rightarrow> bool \<Rightarrow> (bckptr option \<times> u64 option \<times> HashTable) option" where
  "Find ht key wanted = (case ht_table ht of
     None \<Rightarrow> Some (None, None, ht\<lparr>posLastFind := NoItem\<rparr>)
   | Some t \<Rightarrow> do {
       block \<leftarrow> KEY_PTR ht key;
       h \<leftarrow> Hash ht block (cBuckets ht);
       (item, iEmpty) \<leftarrow> find_loop ht t key wanted h 0 None;
       Some (item, iEmpty,
         ht\<lparr>posLastFind := (case item of None \<Rightarrow> NoItem | Some p \<Rightarrow> Item p)\<rparr>) })"

section \<open>Insertion and deletion\<close>

text \<open>\<open>NextPow2\<close>: clearing the lowest set bit until one is left.\<close>

partial_function (option) top_bit :: "u64 \<Rightarrow> u64 option" where
  "top_bit x = (if and x (x - 1) \<noteq> 0 then top_bit (and x (x - 1)) else Some x)"

definition NextPow2 :: "u64 \<Rightarrow> u64 option" where
  "NextPow2 x = do {
     y \<leftarrow> top_bit (if drop_bit 1 (push_bit 1 x) \<noteq> x then drop_bit 1 x else x);
     Some (push_bit 1 y) }"

text \<open>\<open>cItems + cDeletedItems >= cBuckets * OCCUPANCY_PCT\<close>.\<close>

definition too_full :: "HashTable \<Rightarrow> bool" where
  "too_full ht \<longleftrightarrow> unat (cBuckets ht) \<le> 2 * unat (cItems ht + cDeletedItems ht)"

text \<open>The end of \<open>Insert\<close>: the table grows when it is too full.\<close>

definition insert_grow :: "HashTable \<Rightarrow> bckptr \<Rightarrow> (bckptr option \<times> HashTable) option" where
  "insert_grow ht item =
     (if too_full ht \<or> cDeltaGoalSize ht < 0 then do {
        n \<leftarrow> NextPow2 (2 * (word_of_int (max 0 (cDeltaGoalSize ht)) + cItems ht));
        Rehash ht n (Some item) }
      else Some (Some item, ht))"

definition Insert ::
  "HashTable \<Rightarrow> hkey \<Rightarrow> u64 \<Rightarrow> bool \<Rightarrow> (bckptr option \<times> HashTable) option" where
  "Insert ht key data fOverwrite = (case ht_table ht of
     None \<Rightarrow> Some (None, ht)
   | Some t \<Rightarrow> do {
       (item, iEmpty, ht1) \<leftarrow> Find ht key True;
       let ht1 = ht1\<lparr>posLastFind := NoItem\<rparr>;
       case item of
         Some p \<Rightarrow>
           if fOverwrite then do {
             b \<leftarrow> bck_load t p;
             t' \<leftarrow> bck_store t p (b\<lparr>bck_data := data\<rparr>);
             Some (Some p, ht1\<lparr>ht_table := Some t'\<rparr>) }
           else Some (Some p, ht1)
       | None \<Rightarrow> do {
           k \<leftarrow> COPY_KEY ht1 key;
           i \<leftarrow> iEmpty;
           (p, overwrote, t') \<leftarrow> SparseInsert t \<lparr>bck_data = data, bck_key = k\<rparr> i fOverwrite;
           let ht2 = ht1\<lparr>ht_table := Some t',
             cDeletedItems := (if overwrote then cDeletedItems ht1 - 1 else cDeletedItems ht1),
             cItems := cItems ht1 + 1,
             cDeltaGoalSize := (if 0 < cDeltaGoalSize ht1 then cDeltaGoalSize ht1 - 1 else cDeltaGoalSize ht1)\<rparr>;
           insert_grow ht2 p } })"

text \<open>
  \<open>cItems < cBuckets * OCCUPANCY_PCT * 0.4 && cDeltaGoalSize >= 0 && (cBuckets >> 1) >= MIN_HASH_SIZE\<close>.
\<close>

definition MIN_HASH_SIZE :: u64 where
  "MIN_HASH_SIZE = 512"

definition too_big :: "HashTable \<Rightarrow> bool" where
  "too_big ht \<longleftrightarrow> 5 * unat (cItems ht) < unat (cBuckets ht) \<and> 0 \<le> cDeltaGoalSize ht \<and>
     MIN_HASH_SIZE \<le> drop_bit 1 (cBuckets ht)"

text \<open>The end of \<open>Delete\<close>: the table shrinks when it is too big.\<close>

definition delete_shrink :: "HashTable \<Rightarrow> bool \<Rightarrow> HashTable option" where
  "delete_shrink ht fShrink =
     (if fShrink \<and> too_big ht then do {
        n \<leftarrow> NextPow2 (2 * (cItems ht + word_of_int (cDeltaGoalSize ht)));
        (_, ht') \<leftarrow> Rehash ht n None;
        Some ht' }
      else Some ht)"

text \<open>The item of the last \<open>Find\<close> is deleted.\<close>

definition delete_last :: "HashTable \<Rightarrow> bool \<Rightarrow> (int \<times> HashTable) option" where
  "delete_last ht fShrink = do {
     p \<leftarrow> (case posLastFind ht of Item p \<Rightarrow> Some p | _ \<Rightarrow> None);
     t \<leftarrow> ht_table ht;
     b \<leftarrow> bck_load t p;
     b' \<leftarrow> SET_BCK_DELETED ht b;
     t' \<leftarrow> bck_store t p b';
     ht' \<leftarrow> delete_shrink (ht\<lparr>ht_table := Some t', cItems := cItems ht - 1,
       cDeletedItems := cDeletedItems ht + 1,
       cDeltaGoalSize := (if cDeltaGoalSize ht < 0 then cDeltaGoalSize ht + 1 else cDeltaGoalSize ht)\<rparr>) fShrink;
     Some (1, ht'\<lparr>posLastFind := NoItem\<rparr>) }"

definition Delete :: "HashTable \<Rightarrow> hkey \<Rightarrow> bool \<Rightarrow> bool \<Rightarrow> (int \<times> HashTable) option" where
  "Delete ht key fShrink fLastFindSet = do {
     (found, ht1) \<leftarrow> (if fLastFindSet then Some (True, ht)
       else do { (item, _, ht1) \<leftarrow> Find ht key False; Some (item \<noteq> None, ht1) });
     if \<not> found then Some (0, ht1) else delete_last ht1 fShrink }"

section \<open>The interface\<close>

definition AllocateHashTable :: "int \<Rightarrow> int \<Rightarrow> HashTable option" where
  "AllocateHashTable cch save = do {
     (n, t) \<leftarrow> SparseAllocate MIN_HASH_SIZE;
     Some \<lparr>cchKey = (if cch \<le> 0 then 0 else nat cch), cItems = 0, cDeletedItems = 0, cBuckets = n,
       ht_table = Some t, fSaveKeys = save, cDeltaGoalSize = 0, posLastFind = Unset,
       ht_iter = None\<rparr> }"

partial_function (option) clear_keys :: "HashTable \<Rightarrow> bckptr option \<Rightarrow> HashTable option" where
  "clear_keys ht bck = (case bck of
     None \<Rightarrow> Some ht
   | Some p \<Rightarrow> do {
       t \<leftarrow> ht_table ht;
       b \<leftarrow> bck_load t p;
       _ \<leftarrow> FREE_KEY ht (bck_key b);
       if fSaveKeys ht = 2 then Some ht
       else do { (bck', ht') \<leftarrow> HashNextBucket ht; clear_keys ht' bck' } })"

definition ClearHashTable :: "HashTable \<Rightarrow> HashTable option" where
  "ClearHashTable ht = do {
     ht1 \<leftarrow> (if STORES_PTR ht \<and> fSaveKeys ht \<noteq> 0 then do {
         (bck, ht1) \<leftarrow> HashFirstBucket ht;
         clear_keys ht1 bck }
       else Some ht);
     t \<leftarrow> ht_table ht1;
     _ \<leftarrow> SparseFree t (cBuckets ht1);
     (n, t') \<leftarrow> SparseAllocate MIN_HASH_SIZE;
     Some (ht1\<lparr>ht_table := Some t', cBuckets := n, cItems := 0, cDeletedItems := 0,
       cDeltaGoalSize := 0, posLastFind := NoItem\<rparr>) }"

definition FreeHashTable :: "HashTable \<Rightarrow> unit option" where
  "FreeHashTable ht = do {
     ht1 \<leftarrow> ClearHashTable ht;
     case ht_table ht1 of None \<Rightarrow> Some () | Some t \<Rightarrow> SparseFree t (cBuckets ht1) }"

definition HashFind :: "HashTable \<Rightarrow> hkey \<Rightarrow> (bckptr option \<times> HashTable) option" where
  "HashFind ht key = do {
     k \<leftarrow> KEY_TRUNC ht key;
     (item, _, ht1) \<leftarrow> Find ht k False;
     Some (item, ht1) }"

definition HashFindLast :: "HashTable \<Rightarrow> bckptr option option" where
  "HashFindLast ht = (case posLastFind ht of
     Unset \<Rightarrow> None | NoItem \<Rightarrow> Some None | Item p \<Rightarrow> Some (Some p))"

definition HashFindOrInsert :: "HashTable \<Rightarrow> hkey \<Rightarrow> u64 \<Rightarrow> (bckptr option \<times> HashTable) option" where
  "HashFindOrInsert ht key dataInsert = do {
     k \<leftarrow> KEY_TRUNC ht key;
     Insert ht k dataInsert False }"

definition HashFindOrInsertItem :: "HashTable \<Rightarrow> HTItem \<Rightarrow> (bckptr option \<times> HashTable) option" where
  "HashFindOrInsertItem ht item = HashFindOrInsert ht (bck_key item) (bck_data item)"

definition HashInsert :: "HashTable \<Rightarrow> hkey \<Rightarrow> u64 \<Rightarrow> (bckptr option \<times> HashTable) option" where
  "HashInsert ht key data = do {
     k \<leftarrow> KEY_TRUNC ht key;
     Insert ht k data True }"

definition HashInsertItem :: "HashTable \<Rightarrow> HTItem \<Rightarrow> (bckptr option \<times> HashTable) option" where
  "HashInsertItem ht item = HashInsert ht (bck_key item) (bck_data item)"

definition HashDelete :: "HashTable \<Rightarrow> hkey \<Rightarrow> (int \<times> HashTable) option" where
  "HashDelete ht key = do {
     k \<leftarrow> KEY_TRUNC ht key;
     Delete ht k True False }"

definition HashDeleteLast :: "HashTable \<Rightarrow> (int \<times> HashTable) option" where
  "HashDeleteLast ht = (case posLastFind ht of
     Unset \<Rightarrow> None
   | NoItem \<Rightarrow> Some (0, ht)
   | Item _ \<Rightarrow> Delete ht (KImm 0) True True)"

definition HashSetDeltaGoalSize :: "HashTable \<Rightarrow> int \<Rightarrow> int \<times> HashTable" where
  "HashSetDeltaGoalSize ht delta = (delta, ht\<lparr>cDeltaGoalSize := delta\<rparr>)"

end
