(* ===== verification/HashProbe.thy ===== *)
theory HashProbe
  imports Main
begin

text \<open>
  Open addressing with triangular probing in a table of a power of two buckets, over an abstract
  table \<open>m\<close> from locations to items. \<open>kf\<close> gives the key of a live item and \<open>None\<close> for a deleted one,
  \<open>home\<close> the hash of a key. The probes cover every bucket, so that a search ends as long as
  one bucket is empty; a live item is always reached from its home before an empty bucket.
\<close>

section \<open>Triangular probing\<close>

definition tri :: "nat \<Rightarrow> nat" where
  "tri i = i * (i + 1) div 2"

lemma tri_0 [simp]: "tri 0 = 0"
  by (simp add: tri_def)

lemma two_tri: "2 * tri i = i * (i + 1)"
  by (simp add: tri_def)

lemma tri_Suc: "tri (Suc i) = tri i + Suc i"
proof -
  have "2 * tri (Suc i) = 2 * (tri i + Suc i)"
    unfolding two_tri distrib_left by (simp add: algebra_simps)
  then show ?thesis by simp
qed

definition chain :: "nat \<Rightarrow> nat \<Rightarrow> nat \<Rightarrow> nat" where
  "chain k h i = (h + tri i) mod 2 ^ k"

lemma chain_less [simp]: "chain k h i < 2 ^ k"
  by (simp add: chain_def)

lemma chain_Suc: "chain k h (Suc i) = (chain k h i + Suc i) mod 2 ^ k"
  by (simp only: chain_def tri_Suc mod_add_left_eq add.assoc)

lemma tri_diff:
  assumes "i \<le> j"
  shows "2 * (tri j - tri i) = (j - i) * (j + i + 1)"
proof -
  have "2 * (tri j - tri i) = j * (j + 1) - i * (i + 1)"
    by (simp only: right_diff_distrib' two_tri)
  also have "\<dots> = (j - i) * (j + i + 1)"
  proof -
    obtain d where "j = i + d" using assms le_Suc_ex by blast
    then show ?thesis by (simp add: algebra_simps)
  qed
  finally show ?thesis .
qed

lemma chain_neq:
  assumes "i < j" and "j < 2 ^ k"
  shows "chain k h i \<noteq> chain k h j"
proof
  assume eq: "chain k h i = chain k h j"
  have le: "tri i \<le> tri j"
  proof -
    have "2 * tri i \<le> 2 * tri j" unfolding two_tri using assms(1) by (intro mult_le_mono) auto
    then show ?thesis by simp
  qed
  have "2 ^ k dvd (h + tri j) - (h + tri i)"
    using eq le by (intro mod_eq_dvd_iff_nat [THEN iffD1]) (auto simp: chain_def)
  then have "2 * 2 ^ k dvd 2 * (tri j - tri i)" by simp
  then have dvd: "2 ^ Suc k dvd (j - i) * (j + i + 1)"
    using assms(1) tri_diff [of i j] by simp
  have "odd ((j - i) + (j + i + 1))"
  proof -
    have "(j - i) + (j + i + 1) = 2 * j + 1" using assms(1) by simp
    then show ?thesis by simp
  qed
  then consider "odd (j - i)" | "odd (j + i + 1)" by fastforce
  then show False
  proof cases
    case 1
    then have "coprime (2 ^ Suc k) (j - i)" by simp
    then have "2 ^ Suc k dvd j + i + 1" using dvd coprime_dvd_mult_right_iff by blast
    then have "2 ^ Suc k \<le> j + i + 1" by (rule dvd_imp_le) simp
    then show False using assms by simp
  next
    case 2
    then have "coprime (2 ^ Suc k) (j + i + 1)" by simp
    then have "2 ^ Suc k dvd j - i" using dvd coprime_dvd_mult_left_iff by blast
    then have "2 ^ Suc k \<le> j - i" using assms(1) by (intro dvd_imp_le) auto
    then show False using assms by simp
  qed
qed

text \<open>The first \<open>2 ^ k\<close> probes visit every bucket once.\<close>

theorem chain_covers: "bij_betw (chain k h) {..<2 ^ k} {..<2 ^ k}"
proof -
  have inj: "inj_on (chain k h) {..<2 ^ k}"
  proof (rule inj_onI)
    fix i j
    assume "i \<in> {..<2 ^ k}" "j \<in> {..<2 ^ k}" "chain k h i = chain k h j"
    then show "i = j" using chain_neq [of i j k h] chain_neq [of j i k h]
      by (cases i j rule: linorder_cases) auto
  qed
  moreover have "chain k h ` {..<2 ^ k} = {..<2 ^ k}"
    using inj by (intro endo_inj_surj) auto
  ultimately show ?thesis by (simp add: bij_betw_def)
qed

lemma chain_reaches: "l < 2 ^ k \<Longrightarrow> \<exists>i < 2 ^ k. chain k h i = l"
proof -
  assume "l < 2 ^ k"
  then have "l \<in> chain k h ` {..<2 ^ k}" using chain_covers [of k h] by (simp add: bij_betw_def)
  then show ?thesis by auto
qed

section \<open>The invariant of open addressing\<close>

definition found :: "('it \<Rightarrow> 'k option) \<Rightarrow> (nat \<rightharpoonup> 'it) \<Rightarrow> 'k \<Rightarrow> nat \<Rightarrow> bool" where
  "found kf m s l \<longleftrightarrow> (\<exists>it. m l = Some it \<and> kf it = Some s)"

definition reach :: "nat \<Rightarrow> (nat \<rightharpoonup> 'it) \<Rightarrow> nat \<Rightarrow> nat \<Rightarrow> bool" where
  "reach k m h l \<longleftrightarrow> (\<exists>i. l = chain k h i \<and> (\<forall>j < i. m (chain k h j) \<noteq> None))"

definition oa_inv :: "('it \<Rightarrow> 'k option) \<Rightarrow> ('k \<Rightarrow> nat) \<Rightarrow> nat \<Rightarrow> (nat \<rightharpoonup> 'it) \<Rightarrow> bool" where
  "oa_inv kf home k m \<longleftrightarrow> dom m \<subseteq> {..<2 ^ k} \<and>
     (\<forall>s l. found kf m s l \<longrightarrow> reach k m (home s) l) \<and>
     (\<forall>s l l'. found kf m s l \<longrightarrow> found kf m s l' \<longrightarrow> l = l')"

definition live_items :: "('it \<Rightarrow> 'k option) \<Rightarrow> (nat \<rightharpoonup> 'it) \<Rightarrow> 'it set" where
  "live_items kf m = {it. kf it \<noteq> None \<and> it \<in> ran m}"

definition live_at :: "('it \<Rightarrow> 'k option) \<Rightarrow> (nat \<rightharpoonup> 'it) \<Rightarrow> nat set" where
  "live_at kf m = {l. \<exists>s. found kf m s l}"

lemma oa_inv_empty: "oa_inv kf home k Map.empty"
  by (simp add: oa_inv_def found_def)

lemma empty_on_chain:
  assumes "dom m \<subseteq> {..<2 ^ k}" and "card (dom m) < 2 ^ k"
  shows "\<exists>i < 2 ^ k. m (chain k h i) = None"
proof -
  have "dom m \<noteq> {..<2 ^ k}" using assms(2) by auto
  then obtain l where "l < 2 ^ k" "m l = None" using assms(1) by blast
  then show ?thesis using chain_reaches [of l k h] by auto
qed

text \<open>Where a search for a key stops: at its item, or at an empty bucket when there is none.\<close>

definition stop_at :: "('it \<Rightarrow> 'k option) \<Rightarrow> (nat \<rightharpoonup> 'it) \<Rightarrow> nat \<Rightarrow> nat \<Rightarrow> 'k \<Rightarrow> nat \<Rightarrow> bool" where
  "stop_at kf m k h s n \<longleftrightarrow> (m (chain k h n) = None \<or> found kf m s (chain k h n)) \<and>
     (\<forall>j < n. m (chain k h j) \<noteq> None \<and> \<not> found kf m s (chain k h j))"

lemma stop_exists:
  assumes "dom m \<subseteq> {..<2 ^ k}" and "card (dom m) < 2 ^ k"
  shows "\<exists>n < 2 ^ k. stop_at kf m k h s n"
proof -
  define P where "P i \<longleftrightarrow> m (chain k h i) = None \<or> found kf m s (chain k h i)" for i
  define n where "n = (LEAST i. P i)"
  obtain i where i: "i < 2 ^ k" "P i" using empty_on_chain [OF assms] by (auto simp: P_def)
  have "P n" unfolding n_def by (rule LeastI [of P i]) (rule i)
  moreover have "n \<le> i" unfolding n_def by (rule Least_le) (rule i)
  moreover have "\<not> P j" if "j < n" for j using that unfolding n_def by (rule not_less_Least)
  ultimately show ?thesis using i(1) unfolding stop_at_def P_def
    by (intro exI [of _ n]) auto
qed

lemma stop_found:
  assumes "oa_inv kf home k m" and "stop_at kf m k (home s) s n" and "found kf m s l"
  shows "l = chain k (home s) n"
proof -
  have "reach k m (home s) l" using assms by (simp add: oa_inv_def)
  then obtain i where i: "l = chain k (home s) i" "\<forall>j < i. m (chain k (home s) j) \<noteq> None"
    by (auto simp: reach_def)
  have "\<not> i < n" using assms(2,3) i(1) by (auto simp: stop_at_def)
  moreover have "found kf m s (chain k (home s) n) \<or> i \<le> n"
    using assms(2) i(2) by (auto simp: stop_at_def not_less [symmetric])
  ultimately show ?thesis using assms i(1) unfolding oa_inv_def by (metis le_antisym not_less)
qed

section \<open>Updates\<close>

text \<open>A reachable bucket, empty or deleted, takes a new key.\<close>

lemma oa_put:
  assumes inv: "oa_inv kf home k m" and new: "\<not> (\<exists>l. found kf m s l)" and it: "kf it = Some s"
    and l: "reach k m (home s) l" "\<And>s'. \<not> found kf m s' l"
  shows "oa_inv kf home k (m(l \<mapsto> it))" and "live_items kf (m(l \<mapsto> it)) = insert it (live_items kf m)"
proof -
  have f: "found kf (m(l \<mapsto> it)) s' l' \<longleftrightarrow> (if l' = l then s' = s else found kf m s' l')" for s' l'
    using it by (auto simp: found_def)
  have r: "reach k m h l' \<Longrightarrow> reach k (m(l \<mapsto> it)) h l'" for h l'
    by (auto simp: reach_def)
  have "l < 2 ^ k" using l(1) by (auto simp: reach_def)
  then show "oa_inv kf home k (m(l \<mapsto> it))"
    using inv new l by (auto simp: oa_inv_def f r split: if_splits)
  have "x \<in> live_items kf (m(l \<mapsto> it)) \<longleftrightarrow> x = it \<or> x \<in> live_items kf m" for x
    using it l(2) by (auto simp: live_items_def ran_def found_def split: if_splits) metis+
  then show "live_items kf (m(l \<mapsto> it)) = insert it (live_items kf m)" by blast
qed

text \<open>A bucket that stays occupied, with its key or marked deleted.\<close>

lemma oa_keep:
  assumes inv: "oa_inv kf home k m" and l: "m l \<noteq> None"
    and it: "kf it = None \<or> (\<exists>it'. m l = Some it' \<and> kf it = kf it')"
  shows "oa_inv kf home k (m(l \<mapsto> it))"
proof -
  have f: "found kf (m(l \<mapsto> it)) s' l' \<Longrightarrow> found kf m s' l'" for s' l'
    using it by (auto simp: found_def split: if_splits)
  have r: "reach k m h l' \<Longrightarrow> reach k (m(l \<mapsto> it)) h l'" for h l'
    by (auto simp: reach_def)
  have "l < 2 ^ k" using inv l by (auto simp: oa_inv_def)
  then show ?thesis using inv f r unfolding oa_inv_def dom_fun_upd by auto (metis)+
qed

lemma live_items_replace:
  assumes "oa_inv kf home k m" and "m l = Some it'" and "kf it' = Some s"
  shows "live_items kf (m(l \<mapsto> it)) =
    (if kf it = None then live_items kf m - {it'} else insert it (live_items kf m - {it'}))"
proof -
  have u: "l' = l" if "m l' = Some it'" for l'
    using assms that unfolding oa_inv_def found_def by blast
  have "x \<in> ran (m(l \<mapsto> it)) \<longleftrightarrow> x = it \<or> (x \<in> ran m \<and> x \<noteq> it')" for x
  proof
    assume "x \<in> ran (m(l \<mapsto> it))"
    then obtain l' where "(m(l \<mapsto> it)) l' = Some x" by (auto simp: ran_def)
    then show "x = it \<or> (x \<in> ran m \<and> x \<noteq> it')"
      using u [of l'] by (cases "l' = l") (auto intro: ranI)
  next
    assume "x = it \<or> (x \<in> ran m \<and> x \<noteq> it')"
    then show "x \<in> ran (m(l \<mapsto> it))"
    proof
      assume "x \<in> ran m \<and> x \<noteq> it'"
      then obtain l' where l': "m l' = Some x" by (auto simp: ran_def)
      then have "l' \<noteq> l" using assms(2) \<open>x \<in> ran m \<and> x \<noteq> it'\<close> by auto
      with l' have "(m(l \<mapsto> it)) l' = Some x" by simp
      then show ?thesis by (rule ranI)
    qed (auto intro!: ranI [of _ l])
  qed
  then show ?thesis by (auto simp: live_items_def)
qed

lemma live_items_card:
  assumes "oa_inv kf home k m"
  shows "card (live_items kf m) = card (live_at kf m)" and "finite (live_at kf m)"
proof -
  have sub: "live_at kf m \<subseteq> {..<2 ^ k}"
    using assms by (auto simp: live_at_def oa_inv_def found_def dom_def)
  then show "finite (live_at kf m)" using finite_subset by blast
  have "inj_on (the \<circ> m) (live_at kf m)"
  proof (rule inj_onI)
    fix l l'
    assume "l \<in> live_at kf m" "l' \<in> live_at kf m" "(the \<circ> m) l = (the \<circ> m) l'"
    then obtain it s where "m l = Some it" "m l' = Some it" "kf it = Some s"
      by (auto simp: live_at_def found_def)
    then show "l = l'" using assms by (auto simp: oa_inv_def found_def)
  qed
  moreover have "(the \<circ> m) ` live_at kf m = live_items kf m"
    by (force simp: live_at_def live_items_def found_def ran_def image_iff)
  ultimately show "card (live_items kf m) = card (live_at kf m)"
    using card_image by metis
qed

end
