(* ===== verification/SparseFacts.thy ===== *)
theory SparseFacts
  imports Sparse
begin

text \<open>
  Counting bits, and a group as a partial function from positions to buckets.
\<close>

section \<open>Counting by bytes is counting bits\<close>

definition cnt_bits :: "u64 \<Rightarrow> nat \<Rightarrow> nat \<Rightarrow> nat" where
  "cnt_bits w a b = length (filter (bit w) [a..<b])"

definition rank_bits :: "u64 list \<Rightarrow> nat \<Rightarrow> nat" where
  "rank_bits bm i = length (filter (\<lambda>j. bit (bm ! (j div 64)) (j mod 64)) [0..<i])"

primrec bit_counts :: "nat \<Rightarrow> nat list" where
  "bit_counts 0 = [0]"
| "bit_counts (Suc n) = bit_counts n @ map Suc (bit_counts n)"

lemma bit_add_power:
  assumes "v < 2 ^ n"
  shows "j < n \<Longrightarrow> bit (2 ^ n + v :: nat) j = bit v j" and "bit (2 ^ n + v :: nat) n"
proof -
  assume j: "j < n"
  have "(2 :: nat) ^ n = 2 ^ j * 2 ^ (n - j)" using j by (simp flip: power_add)
  then have "(2 ^ n + v) div 2 ^ j = 2 ^ (n - j) + v div 2 ^ j" by simp
  then show "bit (2 ^ n + v) j = bit v j" using j by (simp add: bit_iff_odd)
next
  have "(2 ^ n + v) div 2 ^ n = 1" using assms by (simp add: div_add_self1)
  then show "bit (2 ^ n + v) n" by (simp add: bit_iff_odd)
qed

lemma bit_counts_eq: "bit_counts n = map (\<lambda>v. length (filter (bit v) [0..<n])) [0..<2 ^ n]"
proof (induction n)
  case 0
  then show ?case by simp
next
  case (Suc n)
  have upt: "[0..<2 ^ Suc n] = [0..<2 ^ n] @ map (\<lambda>v. 2 ^ n + v) [0..<2 ^ n]"
    using upt_add_eq_append [of 0 "2 ^ n" "2 ^ n"] map_add_upt [of "2 ^ n" "2 ^ n"]
    by (simp add: add.commute mult_2)
  have lo: "\<not> bit v n" if "v < 2 ^ n" for v :: nat
    using that by (simp add: bit_iff_odd)
  have hi: "filter (bit (2 ^ n + v)) [0..<n] = filter (bit v) [0..<n]" if "v < 2 ^ n" for v :: nat
    using bit_add_power(1) [OF that] by (intro filter_cong) auto
  show ?case
    unfolding upt using Suc lo hi bit_add_power(2) by (simp add: o_def)
qed

lemma rgcBits_eq: "rgcBits = bit_counts 8"
  by (simp add: rgcBits_def numeral_eq_Suc)

lemma rgcBits_nth: "v < 256 \<Longrightarrow> rgcBits ! v = length (filter (bit v) [0..<8])"
  by (simp add: rgcBits_eq bit_counts_eq)

lemma filter_upt_shift:
  "length (filter (\<lambda>j. P (s + j)) [0..<n]) = length (filter P [s..<s + n])"
proof -
  have "[s..<s + n] = map (\<lambda>j. s + j) [0..<n]"
    by (induction n) auto
  then show ?thesis by (simp add: filter_map o_def)
qed

lemma low_bits_eq:
  assumes "n \<le> 8"
  shows "low_bits w sh n = cnt_bits w sh (sh + n)"
proof -
  let ?y = "and (drop_bit sh w) (push_bit n 1 - 1)"
  have y: "?y = take_bit n (drop_bit sh w)"
    by (simp add: take_bit_eq_mask mask_eq_decr_exp push_bit_eq_mult and.commute)
  have "unat ?y < 2 ^ n" unfolding y by (simp add: unsigned_take_bit_eq)
  also have "(2 :: nat) ^ n \<le> 2 ^ 8" using assms by (intro power_increasing) auto
  finally have "rgcBits ! unat ?y = length (filter (bit (unat ?y)) [0..<8])"
    by (simp add: rgcBits_nth)
  also have "[0..<8] = [0..<n] @ [n..<8]"
    using assms upt_add_eq_append [of 0 n "8 - n"] by simp
  also have "filter (bit (unat ?y)) ([0..<n] @ [n..<8]) = filter (\<lambda>j. bit w (sh + j)) [0..<n]"
    unfolding y using assms
    by (auto simp: unsigned_take_bit_eq bit_take_bit_iff bit_drop_bit_eq filter_empty_conv
      bit_unsigned_iff intro!: filter_cong dest: bit_imp_le_length)
  finally show ?thesis
    by (simp add: low_bits_def bits_in_def cnt_bits_def filter_upt_shift)
qed

lemma byte_bits_eq: "byte_bits w sh = cnt_bits w sh (sh + 8)"
  using low_bits_eq [of 8 w sh] by (simp add: low_bits_def byte_bits_def)

lemma cnt_bits_add: "a \<le> b \<Longrightarrow> b \<le> c \<Longrightarrow> cnt_bits w a b + cnt_bits w b c = cnt_bits w a c"
proof -
  assume "a \<le> b" "b \<le> c"
  then have "[a..<c] = [a..<b] @ [b..<c]"
    using upt_add_eq_append [of a b "c - b"] by simp
  then show ?thesis by (simp add: cnt_bits_def)
qed

lemma entries_rest_eq: "i \<le> 64 \<Longrightarrow> entries_rest w i = cnt_bits w 0 i"
  by (simp add: entries_rest_def byte_bits_eq low_bits_eq cnt_bits_add)

lemma rank_bits_Cons:
  "64 \<le> i \<Longrightarrow> rank_bits (w # ws) i = cnt_bits w 0 64 + rank_bits ws (i - 64)"
proof -
  assume i: "64 \<le> i"
  let ?P = "\<lambda>j. bit ((w # ws) ! (j div 64)) (j mod 64)"
  have "[0..<i] = [0..<64] @ [64..<64 + (i - 64)]"
    using i upt_add_eq_append [of 0 64 "i - 64"] by simp
  then have "rank_bits (w # ws) i = length (filter ?P [0..<64]) + length (filter ?P [64..<64 + (i - 64)])"
    by (simp add: rank_bits_def)
  also have "filter ?P [0..<64] = filter (bit w) [0..<64]"
    by (rule filter_cong) auto
  also have "length (filter ?P [64..<64 + (i - 64)]) = rank_bits ws (i - 64)"
    unfolding rank_bits_def filter_upt_shift [symmetric] by (simp add: div_add1_eq)
  finally show ?thesis by (simp add: cnt_bits_def)
qed

lemma entries_words_eq:
  "i \<le> 64 * length bm \<Longrightarrow>
   \<exists>ws j. entries_words bm i r = Some (r + (rank_bits bm i - rank_bits ws j), ws, j) \<and>
     j \<le> 64 \<and> j \<le> 64 * length ws \<and> rank_bits ws j \<le> rank_bits bm i"
proof (induction bm i r rule: entries_words.induct)
  case (1 bm i r)
  show ?case
  proof (cases "64 < i")
    case False
    then show ?thesis using 1(2) by (simp add: entries_words.simps [of bm])
  next
    case True
    with 1(2) obtain w ws where bm: "bm = w # ws" by (cases bm) auto
    have all: "byte_bits w 0 + byte_bits w 8 + byte_bits w 16 + byte_bits w 24
        + byte_bits w 32 + byte_bits w 40 + byte_bits w 48 + byte_bits w 56 = cnt_bits w 0 64"
      by (simp add: byte_bits_eq cnt_bits_add)
    have rec: "entries_words bm i r = entries_words ws (i - 64) (r + cnt_bits w 0 64)"
      using True all by (simp add: bm entries_words.simps [of "w # ws"] add.assoc)
    have le: "i - 64 \<le> 64 * length ws" using 1(2) bm by simp
    obtain vs j where "entries_words ws (i - 64) (r + cnt_bits w 0 64) =
        Some (r + cnt_bits w 0 64 + (rank_bits ws (i - 64) - rank_bits vs j), vs, j)"
      "j \<le> 64" "j \<le> 64 * length vs" "rank_bits vs j \<le> rank_bits ws (i - 64)"
      using 1(1) [OF True bm] le all by (auto simp: add.assoc)
    then show ?thesis using True rec by (auto simp: bm rank_bits_Cons)
  qed
qed

text \<open>\<open>EntriesUpto\<close> gives the number of set bits among the first \<open>i\<close>.\<close>

theorem EntriesUpto_rank:
  assumes "i \<le> 64 * length bm"
  shows "EntriesUpto bm i = Some (rank_bits bm i)"
proof (cases "i = 0")
  case True
  then show ?thesis by (simp add: EntriesUpto_def rank_bits_def)
next
  case False
  obtain ws j where e: "entries_words bm i 0 = Some (0 + (rank_bits bm i - rank_bits ws j), ws, j)"
    and j: "j \<le> 64" "j \<le> 64 * length ws" "rank_bits ws j \<le> rank_bits bm i"
    using entries_words_eq [OF assms, of 0] by auto
  show ?thesis
  proof (cases "j = 0")
    case True
    then show ?thesis using False e by (simp add: EntriesUpto_def rank_bits_def)
  next
    case j0: False
    then obtain w vs where ws: "ws = w # vs" using j(2) by (cases ws) auto
    have "rank_bits ws j = cnt_bits w 0 j"
      unfolding rank_bits_def cnt_bits_def ws using j(1)
      by (intro arg_cong [of _ _ length] filter_cong) (auto simp: nth_Cons')
    then show ?thesis
      using False e j j0 by (simp add: EntriesUpto_def ws elem_def entries_rest_eq)
  qed
qed

section \<open>A group as a partial function\<close>

text \<open>The bucket at a position of a group, and at a location of a table.\<close>

definition bin_at :: "'b SparseBin \<Rightarrow> nat \<rightharpoonup> 'b" where
  "bin_at b p = (if bit (hd (bmOccupied b)) p then Some (binSparse b ! rank_bits (bmOccupied b) p) else None)"

definition bin_ok :: "'b SparseBin \<Rightarrow> bool" where
  "bin_ok b \<longleftrightarrow> length (bmOccupied b) = 1 \<and> cOccupied b = rank_bits (bmOccupied b) 64 \<and>
     length (binSparse b) = cOccupied b"

lemma rank_bits_single: "i \<le> 64 \<Longrightarrow> rank_bits [w] i = cnt_bits w 0 i"
  unfolding rank_bits_def cnt_bits_def
  by (intro arg_cong [of _ _ length] filter_cong) (auto simp: nth_Cons')

lemma bin_ok_word: "bin_ok b \<Longrightarrow> \<exists>w. bmOccupied b = [w]"
  by (cases "bmOccupied b") (auto simp: bin_ok_def)

lemma cnt_bits_mono: "a \<le> b \<Longrightarrow> cnt_bits w 0 a \<le> cnt_bits w 0 b"
  using cnt_bits_add [of 0 a b w] by simp

lemma cnt_bits_less: "bit w p \<Longrightarrow> p < q \<Longrightarrow> cnt_bits w 0 p < cnt_bits w 0 q"
proof -
  assume p: "bit w p" "p < q"
  have "cnt_bits w 0 p < cnt_bits w 0 (Suc p)" using p by (simp add: cnt_bits_def)
  also have "\<dots> \<le> cnt_bits w 0 q" using p by (intro cnt_bits_mono) simp
  finally show ?thesis .
qed

lemma map_cnt_bits: "map (cnt_bits w 0) (filter (bit w) [0..<n]) = [0..<cnt_bits w 0 n]"
  by (induction n) (auto simp: cnt_bits_def)

text \<open>The array of a group lists its buckets in the order of their positions.\<close>

lemma bin_list:
  assumes "bin_ok b"
  shows "binSparse b = map (\<lambda>p. the (bin_at b p)) (filter (\<lambda>p. bin_at b p \<noteq> None) [0..<64])"
proof -
  obtain w where w: "bmOccupied b = [w]" using bin_ok_word [OF assms] by blast
  have "map (\<lambda>p. the (bin_at b p)) (filter (\<lambda>p. bin_at b p \<noteq> None) [0..<64])
      = map ((!) (binSparse b) \<circ> cnt_bits w 0) (filter (bit w) [0..<64])"
    using w by (intro map_cong filter_cong) (auto simp: bin_at_def rank_bits_single)
  also have "\<dots> = map ((!) (binSparse b)) [0..<cnt_bits w 0 64]"
    by (simp only: map_map [symmetric] map_cnt_bits)
  also have "cnt_bits w 0 64 = length (binSparse b)"
    using assms w by (simp add: bin_ok_def rank_bits_single)
  finally show ?thesis by (simp add: map_nth)
qed

lemma cnt_bits_set:
  assumes "\<not> bit w p" and "q \<le> 64" and "p < 64"
  shows "cnt_bits (or w (push_bit p 1)) 0 q = cnt_bits w 0 q + (if p < q then 1 else 0)"
  using assms(2)
proof (induction q)
  case 0
  then show ?case by (simp add: cnt_bits_def)
next
  case (Suc q)
  then show ?case
    using assms by (auto simp: cnt_bits_def bit_or_iff bit_exp_iff less_Suc_eq)
qed

lemma insert_nth:
  "off \<le> length xs \<Longrightarrow> m \<le> length xs \<Longrightarrow>
   (take off xs @ x # drop off xs) ! m =
     (if m < off then xs ! m else if m = off then x else xs ! (m - 1))"
  by (auto simp: nth_append min_def not_less_eq nth_Cons')

lemma bin_insert:
  fixes x :: 'b
  assumes ok: "bin_ok b" and w: "bmOccupied b = [w]" and p: "p < 64" "\<not> bit w p"
  defines "b' \<equiv> \<lparr>binSparse = take (cnt_bits w 0 p) (binSparse b) @ x # drop (cnt_bits w 0 p) (binSparse b),
    bmOccupied = [or w (push_bit p 1)], cOccupied = Suc (cOccupied b)\<rparr>"
  shows "bin_ok b'" and "bin_at b' = (bin_at b)(p \<mapsto> x)"
proof -
  have len: "length (binSparse b) = cnt_bits w 0 64"
    using ok w by (simp add: bin_ok_def rank_bits_single)
  have le: "cnt_bits w 0 p \<le> cnt_bits w 0 64" using p by (intro cnt_bits_mono) simp
  show "bin_ok b'"
  proof -
    have "cOccupied b = cnt_bits w 0 64" using ok w by (simp add: bin_ok_def rank_bits_single)
    moreover have "rank_bits [or w (push_bit p 1)] 64 = Suc (cnt_bits w 0 64)"
      using cnt_bits_set [of w p 64] p by (simp only: rank_bits_single) simp
    ultimately show ?thesis using len le unfolding bin_ok_def b'_def by simp
  qed
  show "bin_at b' = (bin_at b)(p \<mapsto> x)"
  proof
    fix q
    have bit: "bit (or w (push_bit p 1)) q \<longleftrightarrow> q = p \<or> bit w q"
      using p by (auto simp: bit_or_iff bit_exp_iff)
    consider "q = p" | "q \<noteq> p" "\<not> bit w q" | "q < p" "bit w q" | "p < q" "bit w q"
      by (cases "bit w q"; cases p q rule: linorder_cases) blast+
    then show "bin_at b' q = ((bin_at b)(p \<mapsto> x)) q"
    proof cases
      case 1
      then show ?thesis using p w len le
        by (simp add: bin_at_def b'_def bit_or_iff bit_exp_iff rank_bits_single cnt_bits_set [simplified] nth_append)
    next
      case 2
      then show ?thesis using w by (simp add: bin_at_def b'_def bit [simplified])
    next
      case 3
      then show ?thesis using p w len le cnt_bits_less [of w q p]
        by (simp add: bin_at_def b'_def bit [simplified] rank_bits_single cnt_bits_set [simplified] nth_append)
    next
      case 4
      have q: "q < 64" using 4(2) bit_imp_le_length [of w q] by simp
      have lt: "cnt_bits w 0 q < cnt_bits w 0 64" using cnt_bits_less [OF 4(2) q] .
      have ge: "cnt_bits w 0 p \<le> cnt_bits w 0 q" using 4(1) by (intro cnt_bits_mono) simp
      show ?thesis using p w len le 4 q lt ge
        by (simp add: bin_at_def b'_def bit [simplified] rank_bits_single cnt_bits_set [simplified] insert_nth)
    qed
  qed
qed

section \<open>A table as a partial function\<close>

definition tab_ok :: "'b SparseBin list \<Rightarrow> bool" where
  "tab_ok bins \<longleftrightarrow> (\<forall>b \<in> set bins. bin_ok b)"

definition tab_at :: "'b SparseBin list \<Rightarrow> nat \<rightharpoonup> 'b" where
  "tab_at bins l = (if l < 64 * length bins then bin_at (bins ! (l div 64)) (l mod 64) else None)"

text \<open>The bucket pointer of an occupied location.\<close>

definition ptr_of :: "'b SparseBin list \<Rightarrow> nat \<Rightarrow> bckptr" where
  "ptr_of bins l = (l div 64, rank_bits (bmOccupied (bins ! (l div 64))) (l mod 64))"

lemma group_of_div [simp]: "group_of l = unat l div 64"
  by (simp add: group_of_def drop_bit_eq_div unat_div)

lemma MOD2_mod [simp]: "MOD2 l 6 = unat l mod 64"
proof -
  have "MOD2 l 6 = unat (take_bit 6 l)"
    by (simp add: MOD2_def take_bit_eq_mask mask_eq_decr_exp)
  then show ?thesis by (simp add: take_bit_eq_mod unat_mod)
qed

lemma and_push_bit_1: "and w (push_bit i (1 :: u64)) \<noteq> 0 \<longleftrightarrow> bit w i"
proof
  assume "bit w i"
  then have "bit (and w (push_bit i 1)) i"
    by (auto simp: bit_and_iff bit_exp_iff dest: bit_imp_le_length)
  then show "and w (push_bit i 1) \<noteq> 0" by auto
next
  assume "and w (push_bit i 1) \<noteq> 0"
  then obtain j where "bit (and w (push_bit i 1)) j" by (auto simp: bit_eq_iff)
  then show "bit w i" by (auto simp: bit_and_iff bit_exp_iff)
qed

lemma tab_group:
  assumes "tab_ok bins" and "l < 64 * length bins"
  shows "l div 64 < length bins" and "bin_ok (bins ! (l div 64))"
proof -
  show "l div 64 < length bins" using assms(2) by (simp add: less_mult_imp_div_less mult.commute)
  then show "bin_ok (bins ! (l div 64))" using assms(1) by (simp add: tab_ok_def)
qed

lemma SparseIsEmpty_at:
  assumes "tab_ok bins" and "unat l < 64 * length bins"
  shows "SparseIsEmpty bins l = Some (tab_at bins (unat l) = None)"
proof -
  note g = tab_group [OF assms]
  obtain w where w: "bmOccupied (bins ! (unat l div 64)) = [w]" using bin_ok_word [OF g(2)] by blast
  show ?thesis
    using assms(2) g w
    by (simp add: SparseIsEmpty_def elem_def TEST_BITMAP_def and_push_bit_1 [simplified] tab_at_def bin_at_def)
qed

lemma SparseFind_at:
  assumes "tab_ok bins" and "unat l < 64 * length bins"
  shows "SparseFind bins l =
    Some (if tab_at bins (unat l) = None then None else Some (ptr_of bins (unat l)))"
proof -
  note g = tab_group [OF assms]
  have "unat l mod 64 \<le> 64 * length (bmOccupied (bins ! (unat l div 64)))"
    using g(2) by (simp add: bin_ok_def)
  then show ?thesis
    using assms(2) g SparseIsEmpty_at [OF assms]
    by (simp add: SparseFind_def SPARSE_BUCKET_def SPARSE_POS_TO_OFFSET_def elem_def
      EntriesUpto_rank ptr_of_def)
qed

lemma ptr_of_bound:
  assumes "tab_ok bins" and "tab_at bins l = Some x"
  shows "l div 64 < length bins" and "snd (ptr_of bins l) < length (binSparse (bins ! (l div 64)))"
    and "binSparse (bins ! (l div 64)) ! snd (ptr_of bins l) = x"
proof -
  have l: "l < 64 * length bins" using assms(2) by (simp add: tab_at_def split: if_splits)
  note g = tab_group [OF assms(1) l]
  obtain w where w: "bmOccupied (bins ! (l div 64)) = [w]" using bin_ok_word [OF g(2)] by blast
  have at: "bit w (l mod 64)" "binSparse (bins ! (l div 64)) ! rank_bits [w] (l mod 64) = x"
    using assms(2) l w by (auto simp: tab_at_def bin_at_def split: if_splits)
  have "cnt_bits w 0 (l mod 64) < cnt_bits w 0 64" by (rule cnt_bits_less [OF at(1)]) simp
  then show "snd (ptr_of bins l) < length (binSparse (bins ! (l div 64)))"
    using g(2) w by (simp add: ptr_of_def bin_ok_def rank_bits_single)
  show "l div 64 < length bins" by (rule g)
  show "binSparse (bins ! (l div 64)) ! snd (ptr_of bins l) = x"
    using at w by (simp add: ptr_of_def)
qed

lemma bck_load_at: "tab_ok bins \<Longrightarrow> tab_at bins l = Some x \<Longrightarrow> bck_load bins (ptr_of bins l) = Some x"
  using ptr_of_bound [of bins l x] by (simp add: bck_load_def elem_def ptr_of_def)

lemma rank_bits_inj:
  assumes "bit w p" and "bit w q" and "p < 64" and "q < 64" and "rank_bits [w] p = rank_bits [w] q"
  shows "p = q"
  using assms cnt_bits_less [of w p q] cnt_bits_less [of w q p]
  by (cases p q rule: linorder_cases) (auto simp: rank_bits_single)

lemma same_location: "l div 64 = m div 64 \<Longrightarrow> l mod 64 = m mod 64 \<Longrightarrow> l = (m :: nat)"
  using div_mult_mod_eq [of l 64] div_mult_mod_eq [of m 64] by argo

lemma ptr_of_inj:
  assumes "tab_ok bins" and "tab_at bins l \<noteq> None" and "tab_at bins m \<noteq> None"
    and "ptr_of bins l = ptr_of bins m"
  shows "l = m"
proof -
  have d: "l div 64 = m div 64" using assms(4) by (simp add: ptr_of_def)
  have l: "l < 64 * length bins" and m: "m < 64 * length bins"
    using assms(2,3) by (auto simp: tab_at_def split: if_splits)
  obtain w where w: "bmOccupied (bins ! (l div 64)) = [w]"
    using bin_ok_word [OF tab_group(2) [OF assms(1) l]] by blast
  have "bit w (l mod 64)" using assms(2) l w by (simp add: tab_at_def bin_at_def split: if_splits)
  moreover have "bit w (m mod 64)" using assms(3) m w d by (simp add: tab_at_def bin_at_def split: if_splits)
  moreover have "rank_bits [w] (l mod 64) = rank_bits [w] (m mod 64)"
    using assms(4) w d by (simp add: ptr_of_def)
  ultimately have "l mod 64 = m mod 64" using rank_bits_inj [of w "l mod 64" "m mod 64"] by simp
  with d show ?thesis by (rule same_location)
qed

text \<open>A store replaces the bucket in place.\<close>

lemma nth_update_group: "g < length bins \<Longrightarrow> bins[g := b] ! h = (if h = g then b else bins ! h)"
  by (simp add: nth_list_update)

lemma bck_store_at:
  assumes "tab_ok bins" and "tab_at bins l = Some y"
  obtains bins' where "bck_store bins (ptr_of bins l) x = Some bins'" and "tab_ok bins'"
    and "tab_at bins' = (tab_at bins)(l \<mapsto> x)" and "length bins' = length bins"
    and "ptr_of bins' = ptr_of bins"
proof -
  let ?g = "l div 64" and ?o = "snd (ptr_of bins l)"
  let ?b = "bins ! ?g"
  let ?b' = "?b\<lparr>binSparse := (binSparse ?b)[?o := x]\<rparr>"
  let ?bins = "bins[?g := ?b']"
  note p = ptr_of_bound [OF assms]
  have l: "l < 64 * length bins" using assms(2) by (simp add: tab_at_def split: if_splits)
  note g = tab_group [OF assms(1) l]
  obtain w where w: "bmOccupied ?b = [w]" using bin_ok_word [OF g(2)] by blast
  have o: "?o = rank_bits [w] (l mod 64)" by (simp add: ptr_of_def w)
  have bit_l: "bit w (l mod 64)" using assms(2) l w by (auto simp: tab_at_def bin_at_def split: if_splits)
  have "bck_store bins (ptr_of bins l) x = Some ?bins"
    using p by (simp add: bck_store_def elem_def ptr_of_def)
  moreover have "tab_ok ?bins"
    using assms(1) g unfolding tab_ok_def
    by (auto dest!: set_update_subset_insert [THEN subsetD] simp: bin_ok_def)
  moreover have "tab_at ?bins = (tab_at bins)(l \<mapsto> x)"
  proof
    fix m
    show "tab_at ?bins m = ((tab_at bins)(l \<mapsto> x)) m"
    proof (cases "m div 64 = ?g \<and> m < 64 * length bins")
      case True
      have eq: "bin_at ?b' (m mod 64) = (if m mod 64 = l mod 64 then Some x else bin_at ?b (m mod 64))"
        using w o bit_l p(2) rank_bits_inj [of w "m mod 64" "l mod 64"]
        by (auto simp: bin_at_def nth_list_update)
      have "m mod 64 = l mod 64 \<longleftrightarrow> m = l"
        using True same_location [of m l] by blast
      with eq True p(1) l show ?thesis by (simp add: tab_at_def)
    next
      case False
      then have "m \<noteq> l" using l by blast
      moreover have "tab_at ?bins m = tab_at bins m"
        using False by (cases "m < 64 * length bins") (simp_all add: tab_at_def)
      ultimately show ?thesis by simp
    qed
  qed
  moreover have "ptr_of ?bins = ptr_of bins"
    using p(1) by (intro ext) (auto simp: ptr_of_def nth_list_update)
  ultimately show thesis using that [of ?bins] by simp
qed

text \<open>An insertion into an empty location, an overwriting and a refused one.\<close>

lemma SparseInsert_empty:
  fixes x :: 'b
  assumes "tab_ok bins" and "unat loc < 64 * length bins" and "tab_at bins (unat loc) = None"
  obtains bins' where "SparseInsert bins x loc f = Some (ptr_of bins' (unat loc), False, bins')"
    and "tab_ok bins'" and "tab_at bins' = (tab_at bins)(unat loc \<mapsto> x)" and "length bins' = length bins"
proof -
  define g where "g = unat loc div 64"
  define p where "p = unat loc mod 64"
  let ?b = "bins ! g"
  note gr = tab_group [OF assms(1,2), folded g_def]
  obtain w where w: "bmOccupied ?b = [w]" using bin_ok_word [OF gr(2)] by blast
  have p: "p < 64" "\<not> bit w p"
    using assms(2,3) w by (auto simp: p_def g_def tab_at_def bin_at_def split: if_splits)
  define b' where "b' = \<lparr>binSparse = take (cnt_bits w 0 p) (binSparse ?b) @ x # drop (cnt_bits w 0 p) (binSparse ?b),
    bmOccupied = [or w (push_bit p 1)], cOccupied = Suc (cOccupied ?b)\<rparr>"
  note ins = bin_insert [OF gr(2) w p, of x, folded b'_def]
  have "cOccupied ?b = cnt_bits w 0 64" using gr(2) w by (simp add: bin_ok_def rank_bits_single)
  then have le: "cnt_bits w 0 p \<le> cOccupied ?b" using p cnt_bits_mono [of p 64 w] by simp
  have ptr: "ptr_of (bins[g := b']) (unat loc) = (g, cnt_bits w 0 p)"
  proof -
    have "rank_bits [or w (push_bit p 1)] p = cnt_bits w 0 p"
      using cnt_bits_set [of w p p] p by (simp only: rank_bits_single) simp
    then show ?thesis using gr(1) by (simp add: ptr_of_def g_def [symmetric] p_def [symmetric] b'_def)
  qed
  have "SparseInsert bins x loc f = Some (ptr_of (bins[g := b']) (unat loc), False, bins[g := b'])"
    unfolding ptr using assms(3) SparseFind_at [OF assms(1,2)] gr(1) w p le
    by (simp add: SparseInsert_def elem_def SPARSE_POS_TO_OFFSET_def EntriesUpto_rank rank_bits_single
      SET_BITMAP_def b'_def g_def [symmetric] p_def [symmetric])
  moreover have "tab_ok (bins[g := b'])"
    using assms(1) ins(1) by (auto simp: tab_ok_def dest!: set_update_subset_insert [THEN subsetD])
  moreover have "tab_at (bins[g := b']) = (tab_at bins)(unat loc \<mapsto> x)"
  proof
    fix m
    show "tab_at (bins[g := b']) m = ((tab_at bins)(unat loc \<mapsto> x)) m"
    proof (cases "m div 64 = g \<and> m < 64 * length bins")
      case True
      have "m mod 64 = p \<longleftrightarrow> m = unat loc"
        using True same_location [of m "unat loc"] by (auto simp: g_def p_def)
      with True gr(1) assms(2) ins(2) show ?thesis by (simp add: tab_at_def)
    next
      case False
      then have "m \<noteq> unat loc" using assms(2) by (auto simp: g_def)
      moreover have "tab_at (bins[g := b']) m = tab_at bins m"
        using False by (cases "m < 64 * length bins") (simp_all add: tab_at_def)
      ultimately show ?thesis by simp
    qed
  qed
  ultimately show thesis using that [of "bins[g := b']"] by simp
qed

lemma SparseInsert_over:
  assumes "tab_ok bins" and "tab_at bins (unat loc) = Some y"
  obtains bins' where "SparseInsert bins x loc True = Some (ptr_of bins' (unat loc), True, bins')"
    and "tab_ok bins'" and "tab_at bins' = (tab_at bins)(unat loc \<mapsto> x)" and "length bins' = length bins"
    and "ptr_of bins' = ptr_of bins"
proof -
  have l: "unat loc < 64 * length bins" using assms(2) by (simp add: tab_at_def split: if_splits)
  obtain bins' where b: "bck_store bins (ptr_of bins (unat loc)) x = Some bins'" "tab_ok bins'"
    "tab_at bins' = (tab_at bins)(unat loc \<mapsto> x)" "length bins' = length bins" "ptr_of bins' = ptr_of bins"
    by (rule bck_store_at [OF assms])
  then show thesis
    using that [of bins'] SparseFind_at [OF assms(1) l] assms(2) by (simp add: SparseInsert_def)
qed

lemma SparseInsert_keep:
  assumes "tab_ok bins" and "tab_at bins (unat loc) = Some y"
  shows "SparseInsert bins x loc False = Some (ptr_of bins (unat loc), True, bins)"
proof -
  have l: "unat loc < 64 * length bins" using assms(2) by (simp add: tab_at_def split: if_splits)
  then show ?thesis using SparseFind_at [OF assms(1) l] assms(2) by (simp add: SparseInsert_def)
qed

text \<open>A fresh table has no occupied bucket.\<close>

lemma unat_SPARSE_GROUPS:
  assumes "0 < unat c" and "unat c < 2 ^ 64"
  shows "unat (SPARSE_GROUPS c) = (unat c - 1) div 64 + 1"
proof -
  have "unat (c - 1) = unat c - 1" using assms by (simp add: unat_sub word_le_nat_alt)
  then have d: "unat (drop_bit 6 (c - 1)) = (unat c - 1) div 64"
    by (simp add: drop_bit_eq_div unat_div)
  have "(unat c - 1) div 64 + 1 < 2 ^ 64"
    using assms(2) by simp
  then show ?thesis using d by (simp add: SPARSE_GROUPS_def unat_word_ariths)
qed

lemma SparseAllocate_ok:
  assumes "0 < unat c" and "unat c \<le> 2 ^ 30"
  obtains bins :: "'b SparseBin list" where "SparseAllocate c = Some (of_nat (64 * length bins), bins)"
    and "length bins = (unat c - 1) div 64 + 1" and "tab_ok bins" and "tab_at bins = Map.empty"
proof -
  define n where "n = (unat c - 1) div 64 + 1"
  let ?e = "\<lparr>binSparse = [] :: 'b list, bmOccupied = [0], cOccupied = 0\<rparr>"
  have le: "n \<le> 2 ^ 24" using assms by (simp add: n_def)
  have n: "unat (SPARSE_GROUPS c) = n" unfolding n_def using assms by (intro unat_SPARSE_GROUPS) auto
  have ui: "uint (SPARSE_GROUPS c) = int n" by (simp only: n [symmetric] uint_nat)
  have st: "signed_take_bit 31 (int n) = int n"
    using le by (intro signed_take_bit_int_eq_self) auto
  have "SparseAllocate c = Some (of_nat (64 * n), replicate n ?e)"
    using le by (simp add: SparseAllocate_def ui st Let_def mult.commute)
  moreover have "tab_ok (replicate n ?e)"
    by (simp add: tab_ok_def bin_ok_def rank_bits_single cnt_bits_def)
  moreover have "tab_at (replicate n ?e) = Map.empty"
    by (rule ext) (simp add: tab_at_def bin_at_def less_mult_imp_div_less mult.commute)
  ultimately show thesis using that [of "replicate n ?e"] by (simp add: n_def)
qed

end
