(* ===== verification/SparseIter.thy ===== *)
theory SparseIter
  imports SparseFacts
begin

text \<open>
  Iterating over a table visits its occupied buckets once each, in the order of their locations.
\<close>

section \<open>The buckets that are still to come\<close>

definition ptrs_from :: "'b SparseBin list \<Rightarrow> nat \<Rightarrow> bckptr list" where
  "ptrs_from bins g = concat (map (\<lambda>h. map (Pair h) [0..<cOccupied (bins ! h)]) [g..<length bins])"

definition iter_valid :: "'b SparseBin list \<Rightarrow> SparseIterator \<Rightarrow> bool" where
  "iter_valid bins it \<longleftrightarrow> (posOffset it = -1 \<and> posGroup it = -1) \<or>
     (0 \<le> posOffset it \<and> 0 \<le> posGroup it \<and> posGroup it < int (length bins))"

definition iter_rest :: "'b SparseBin list \<Rightarrow> SparseIterator \<Rightarrow> bckptr list" where
  "iter_rest bins it =
     (if posOffset it = -1 then []
      else map (Pair (nat (posGroup it))) [Suc (nat (posOffset it))..<cOccupied (bins ! nat (posGroup it))])
     @ ptrs_from bins (nat (posGroup it + 1))"

lemma ptrs_from_step:
  "g < length bins \<Longrightarrow>
   ptrs_from bins g = map (Pair g) [0..<cOccupied (bins ! g)] @ ptrs_from bins (Suc g)"
  by (simp add: ptrs_from_def upt_conv_Cons)

lemma ptrs_from_end [simp]: "length bins \<le> g \<Longrightarrow> ptrs_from bins g = []"
  by (simp add: ptrs_from_def)

lemma sparse_next_group_rest:
  "g \<le> length bins \<Longrightarrow>
   (case ptrs_from bins g of
      [] \<Rightarrow> sparse_next_group bins (length bins) g = Some (length bins, False)
    | p # ps \<Rightarrow> \<exists>h. sparse_next_group bins (length bins) g = Some (h, True) \<and> h < length bins \<and>
        p = (h, 0) \<and> ps = map (Pair h) [1..<cOccupied (bins ! h)] @ ptrs_from bins (Suc h))"
proof (induction "length bins - g" arbitrary: g)
  case 0
  then have "g = length bins" by simp
  then show ?case by (subst sparse_next_group.simps) simp
next
  case (Suc n)
  then have g: "g < length bins" by simp
  show ?case
  proof (cases "cOccupied (bins ! g)")
    case 0
    have "sparse_next_group bins (length bins) g = sparse_next_group bins (length bins) (Suc g)"
      using g 0 by (simp add: sparse_next_group.simps [of bins "length bins" g] elem_def)
    then show ?thesis using Suc(1) [of "Suc g"] Suc(2) g 0
      by (cases "ptrs_from bins (Suc g)") (simp_all add: ptrs_from_step)
  next
    case (Suc k)
    then show ?thesis using g
      by (simp add: ptrs_from_step sparse_next_group.simps [of bins "length bins" g] elem_def
        upt_conv_Cons del: upt_Suc)
  qed
qed

lemma SparseNextBucket_rest:
  assumes "unat (SPARSE_GROUPS c) = length bins" and "iter_valid bins it"
  shows "(case iter_rest bins it of
      [] \<Rightarrow> \<exists>it'. SparseNextBucket bins c it = Some (None, it')
    | p # ps \<Rightarrow> \<exists>it'. SparseNextBucket bins c it = Some (Some p, it') \<and> iter_valid bins it' \<and>
        iter_rest bins it' = ps)"
proof (cases "posOffset it \<noteq> -1 \<and> posOffset it + 1 < int (cOccupied (bins ! nat (posGroup it)))")
  case True
  let ?it = "it\<lparr>posOffset := posOffset it + 1\<rparr>"
  have v: "0 \<le> posOffset it" "0 \<le> posGroup it" "posGroup it < int (length bins)"
    using assms(2) True by (auto simp: iter_valid_def)
  have "SparseNextBucket bins c it = Some (Some (nat (posGroup it), nat (posOffset it + 1)), ?it)"
    using True v by (simp add: SparseNextBucket_def elem_def nat_less_iff)
  moreover have "iter_valid bins ?it" using v by (simp add: iter_valid_def)
  moreover have "iter_rest bins it = (nat (posGroup it), nat (posOffset it + 1)) # iter_rest bins ?it"
  proof -
    have "Suc (nat (posOffset it)) < cOccupied (bins ! nat (posGroup it))" using True v by linarith
    then show ?thesis using True v
      by (simp add: iter_rest_def upt_conv_Cons nat_add_distrib del: upt_Suc)
  qed
  ultimately show ?thesis by simp
next
  case False
  define g where "g = nat (posGroup it + 1)"
  have g: "g \<le> length bins" using assms(2) by (auto simp: iter_valid_def g_def)
  have next_eq: "SparseNextBucket bins c it = do {
       (h, found) \<leftarrow> sparse_next_group bins (length bins) g;
       Some (if found then Some (h, 0) else None, \<lparr>posGroup = int h, posOffset = 0\<rparr>) }"
    using False assms by (auto simp: SparseNextBucket_def elem_def iter_valid_def g_def nat_less_iff)
  have "iter_rest bins it = ptrs_from bins g"
    using False assms(2) by (auto simp: iter_rest_def iter_valid_def g_def)
  then show ?thesis
    using sparse_next_group_rest [OF g]
    by (auto simp: next_eq iter_valid_def iter_rest_def nat_add_distrib split: list.splits)
qed

lemma SparseFirstBucket_rest:
  assumes "unat (SPARSE_GROUPS c) = length bins"
  shows "(case ptrs_from bins 0 of
      [] \<Rightarrow> \<exists>it'. SparseFirstBucket bins c = Some (None, it')
    | p # ps \<Rightarrow> \<exists>it'. SparseFirstBucket bins c = Some (Some p, it') \<and> iter_valid bins it' \<and>
        iter_rest bins it' = ps)"
  using SparseNextBucket_rest [OF assms, of "\<lparr>posGroup = -1, posOffset = -1\<rparr>"]
  by (cases "ptrs_from bins 0") (auto simp: SparseFirstBucket_def iter_valid_def iter_rest_def)

section \<open>Their locations\<close>

definition occ :: "'b SparseBin list \<Rightarrow> nat list" where
  "occ bins = filter (\<lambda>l. tab_at bins l \<noteq> None) [0..<64 * length bins]"

lemma upt_groups: "[0..<64 * n] = concat (map (\<lambda>g. map (\<lambda>p. 64 * g + p) [0..<64]) [0..<n])"
proof (induction n)
  case 0
  then show ?case by simp
next
  case (Suc n)
  have "[0..<64 * Suc n] = [0..<64 * n] @ [64 * n..<64 * n + 64]"
    using upt_add_eq_append [of 0 "64 * n" 64] by (simp add: add.commute)
  also have "[64 * n..<64 * n + 64] = map (\<lambda>p. 64 * n + p) [0..<64]"
    using map_add_upt [of "64 * n" 64] by (simp add: add.commute)
  finally show ?case using Suc by simp
qed

lemma filter_concat_map: "filter P (concat (map f xs)) = concat (map (\<lambda>x. filter P (f x)) xs)"
  by (induction xs) auto

lemma occ_ptrs:
  assumes "tab_ok bins"
  shows "map (ptr_of bins) (occ bins) = ptrs_from bins 0"
proof -
  have group: "map (ptr_of bins) (filter (\<lambda>l. tab_at bins l \<noteq> None) (map (\<lambda>p. 64 * g + p) [0..<64]))
      = map (Pair g) [0..<cOccupied (bins ! g)]" if g: "g < length bins" for g
  proof -
    have ok: "bin_ok (bins ! g)" using assms g by (simp add: tab_ok_def)
    obtain w where w: "bmOccupied (bins ! g) = [w]" using bin_ok_word [OF ok] by blast
    have at: "tab_at bins (64 * g + p) \<noteq> None \<longleftrightarrow> bit w p" if "p < 64" for p
    proof -
      have "64 * g + p < 64 * length bins" using g that by linarith
      then show ?thesis using that w by (simp add: tab_at_def bin_at_def)
    qed
    have "map (ptr_of bins) (filter (\<lambda>l. tab_at bins l \<noteq> None) (map (\<lambda>p. 64 * g + p) [0..<64]))
        = map (ptr_of bins \<circ> (\<lambda>p. 64 * g + p)) (filter (\<lambda>p. tab_at bins (64 * g + p) \<noteq> None) [0..<64])"
      by (simp add: filter_map o_def)
    also have "filter (\<lambda>p. tab_at bins (64 * g + p) \<noteq> None) [0..<64] = filter (bit w) [0..<64]"
      using at by (intro filter_cong) auto
    also have "map (ptr_of bins \<circ> (\<lambda>p. 64 * g + p)) (filter (bit w) [0..<64])
        = map (Pair g \<circ> cnt_bits w 0) (filter (bit w) [0..<64])"
      using w by (intro map_cong) (auto simp: ptr_of_def rank_bits_single)
    also have "\<dots> = map (Pair g) [0..<cnt_bits w 0 64]"
      by (simp only: map_map [symmetric] map_cnt_bits)
    also have "cnt_bits w 0 64 = cOccupied (bins ! g)"
      using ok w by (simp add: bin_ok_def rank_bits_single)
    finally show ?thesis .
  qed
  have "map (ptr_of bins) (occ bins)
      = concat (map (\<lambda>g. map (ptr_of bins) (filter (\<lambda>l. tab_at bins l \<noteq> None) (map (\<lambda>p. 64 * g + p) [0..<64])))
          [0..<length bins])"
    by (simp add: occ_def upt_groups filter_concat_map map_concat o_def)
  also have "\<dots> = ptrs_from bins 0"
    unfolding ptrs_from_def
    by (rule arg_cong [of _ _ concat], rule map_cong [OF refl], rule group) simp
  finally show ?thesis .
qed

lemma distinct_occ [simp]: "distinct (occ bins)"
  by (simp add: occ_def)

lemma set_occ: "set (occ bins) = dom (tab_at bins)"
  by (auto simp: occ_def tab_at_def split: if_splits)

lemma finite_tab_at [simp]: "finite (dom (tab_at bins))"
  by (simp flip: set_occ)

end
