(* ===== verification/HashSearch.thy ===== *)
theory HashSearch
  imports HashTable HashProbe SparseIter Wire
begin

text \<open>
  Keys as byte strings, and what the probing loops of the hash table return: the search stops at
  the item of the key or at the first empty bucket, and reports the first free bucket it passed.
\<close>

section \<open>Keys and their comparison\<close>

definition kval :: "HashTable \<Rightarrow> hkey \<Rightarrow> bytes option" where
  "kval ht k = do { b \<leftarrow> KEY_PTR ht k; key_bytes ht b }"

text \<open>A key stored directly uses no more than \<open>cchKey\<close> bytes of its word.\<close>

definition key_fit :: "HashTable \<Rightarrow> hkey \<Rightarrow> bool" where
  "key_fit ht k \<longleftrightarrow> STORES_PTR ht \<or> (\<exists>w. k = KImm w \<and> unat w < 256 ^ cchKey ht)"

text \<open>The key of a live item.\<close>

definition kof :: "HashTable \<Rightarrow> HTItem \<Rightarrow> bytes option" where
  "kof ht it = (if IS_BCK_DELETED it \<or> \<not> key_fit ht (bck_key it) then None else kval ht (bck_key it))"

lemma strcmp_cases: "strcmp s t = 0 \<or> strcmp s t = 1 \<or> strcmp s t = -1"
  by (induction s t rule: strcmp.induct) auto

lemma kval_imm:
  assumes "\<not> STORES_PTR ht"
  shows "kval ht (KImm w) = Some (nat_le (cchKey ht) (unat w))"
proof -
  have c: "cchKey ht \<noteq> 0" "cchKey ht \<le> 8" using assms by (auto simp: STORES_PTR_def)
  have "take (cchKey ht) (nat_le 8 (unat w)) = nat_le (cchKey ht) (unat w)"
    using nat_le_add [of "cchKey ht" "8 - cchKey ht" "unat w"] c by simp
  then show ?thesis using assms c by (simp add: kval_def KEY_PTR_def key_bytes_def)
qed

lemma KEY_CMP_val:
  assumes "kval ht k1 = Some s1" and "kval ht k2 = Some s2" and "key_fit ht k1" and "key_fit ht k2"
  shows "\<exists>c. KEY_CMP ht k1 k2 = Some c \<and> (c = 0 \<longleftrightarrow> s1 = s2)"
proof (cases "STORES_PTR ht")
  case True
  have "(word_of_int r :: u64) = 0 \<longleftrightarrow> r = 0" if "r = 0 \<or> r = 1 \<or> r = -1" for r
    using that by (elim disjE) simp_all
  then have "(word_of_int (strcmp s1 s2) :: u64) = 0 \<longleftrightarrow> s1 = s2"
    using strcmp_cases [of s1 s2] strcmp_eq_0_iff [of s1 s2] by metis
  then show ?thesis using True assms(1,2) by (auto simp: KEY_CMP_def kval_def bind_Some_iff)
next
  case False
  then obtain a b where k: "k1 = KImm a" "k2 = KImm b" "unat a < 256 ^ cchKey ht" "unat b < 256 ^ cchKey ht"
    using assms(3,4) by (auto simp: key_fit_def)
  have "a - b = 0 \<longleftrightarrow> unat a = unat b" unfolding right_minus_eq by (simp add: word_unat_eq_iff)
  moreover have "s1 = s2 \<longleftrightarrow> unat a = unat b"
    using assms(1,2) False k(3,4) by (auto simp: k kval_imm nat_le_inject)
  ultimately show ?thesis using False by (simp add: KEY_CMP_def k)
qed

section \<open>The probe sequence\<close>

definition home :: "bytes \<Rightarrow> nat" where
  "home s = unat (hash_bytes s)"

lemma unat_and_mask: "unat (and x (2 ^ k - 1 :: u64)) = unat x mod 2 ^ k"
proof -
  have "and x (2 ^ k - 1) = take_bit k x"
    by (simp add: take_bit_eq_mask mask_eq_decr_exp)
  then show ?thesis by (simp only: unsigned_take_bit_eq) (simp only: take_bit_eq_mod)
qed

lemma Hash_home:
  assumes "kval ht key = Some s"
  obtains b h where "KEY_PTR ht key = Some b" and "Hash ht b (2 ^ k) = Some h" and "unat h = chain k (home s) 0"
proof -
  obtain b where b: "KEY_PTR ht key = Some b" "key_bytes ht b = Some s"
    using assms(1) by (auto simp: kval_def bind_Some_iff)
  show thesis
    using that [OF b(1), of "and (hash_bytes s) (2 ^ k - 1)"] b(2)
    by (simp add: Hash_def unat_and_mask chain_def home_def)
qed

lemma jump_chain:
  assumes "unat i = chain k h j" and "k < 64"
  shows "unat (jump (2 ^ k) i (of_nat j)) = chain k h (Suc j)"
proof -
  have "i + (of_nat j + 1) = of_nat (unat i + Suc j)" by simp
  then have "unat (i + (of_nat j + 1)) = (unat i + Suc j) mod 2 ^ 64"
    by (simp only: unsigned_of_nat take_bit_eq_mod) simp
  then have "unat (jump (2 ^ k) i (of_nat j)) = (unat i + Suc j) mod 2 ^ 64 mod 2 ^ k"
    using assms(2) by (simp add: jump_def unat_and_mask)
  also have "\<dots> = (unat i + Suc j) mod 2 ^ k"
    using assms(2) by (intro mod_mod_cancel le_imp_power_dvd) simp
  finally show ?thesis using assms(1) by (simp add: chain_Suc)
qed

text \<open>The buckets that \<open>Find\<close> and \<open>Rehash\<close> look at, from the home bucket \<open>h\<close> on.\<close>

primrec probe :: "u64 \<Rightarrow> u64 \<Rightarrow> nat \<Rightarrow> u64" where
  "probe n h 0 = h"
| "probe n h (Suc j) = jump n (probe n h j) (of_nat j)"

lemma probe_chain: "k < 64 \<Longrightarrow> unat h < 2 ^ k \<Longrightarrow> unat (probe (2 ^ k) h j) = chain k (unat h) j"
proof (induction j)
  case 0
  then show ?case by (simp add: chain_def)
next
  case (Suc j)
  then show ?case using jump_chain [of "probe (2 ^ k) h j" k "unat h" j] by simp
qed

lemma probe_bij:
  assumes "k < 64" and "unat h < 2 ^ k"
  shows "bij_betw (\<lambda>j. unat (probe (2 ^ k) h j)) {..<2 ^ k} {..<2 ^ k}"
  using chain_covers [of k "unat h"] by (simp add: probe_chain [OF assms])

definition dead_at :: "(nat \<rightharpoonup> HTItem) \<Rightarrow> nat \<Rightarrow> bool" where
  "dead_at m l \<longleftrightarrow> (\<exists>it. m l = Some it \<and> IS_BCK_DELETED it)"

text \<open>The first free bucket on the way to the stop.\<close>

definition first_free :: "(nat \<rightharpoonup> HTItem) \<Rightarrow> nat \<Rightarrow> nat \<Rightarrow> nat \<Rightarrow> nat \<Rightarrow> nat \<Rightarrow> bool" where
  "first_free m k h j n q \<longleftrightarrow> j \<le> q \<and> q \<le> n \<and> (q = n \<or> dead_at m (chain k h q)) \<and>
     (\<forall>p. j \<le> p \<and> p < q \<longrightarrow> \<not> dead_at m (chain k h p))"

lemma first_free_step:
  assumes "j < n" and "\<not> dead_at m (chain k h j)"
  shows "first_free m k h j n q \<longleftrightarrow> first_free m k h (Suc j) n q"
proof -
  have "(\<forall>p. j \<le> p \<and> p < q \<longrightarrow> \<not> dead_at m (chain k h p)) \<longleftrightarrow>
      (\<forall>p. Suc j \<le> p \<and> p < q \<longrightarrow> \<not> dead_at m (chain k h p))"
    using assms(2) by (metis Suc_leD Suc_leI le_neq_implies_less)
  moreover have "j \<le> q \<and> (q = n \<or> dead_at m (chain k h q)) \<longleftrightarrow>
      Suc j \<le> q \<and> (q = n \<or> dead_at m (chain k h q))"
    using assms by (metis Suc_leD Suc_leI le_neq_implies_less)
  ultimately show ?thesis unfolding first_free_def by blast
qed

lemma first_free_here:
  "j < n \<Longrightarrow> dead_at m (chain k h j) \<Longrightarrow> first_free m k h j n q \<longleftrightarrow> q = j"
  unfolding first_free_def by (metis le_neq_implies_less less_imp_le_nat not_less order_refl)

lemma first_free_exists: "j \<le> n \<Longrightarrow> \<exists>q. first_free m k h j n q"
proof (induction "n - j" arbitrary: j)
  case 0
  then show ?case by (intro exI [of _ n]) (auto simp: first_free_def)
next
  case (Suc d)
  then have j: "j < n" and d: "d = n - Suc j" by auto
  show ?case
  proof (cases "dead_at m (chain k h j)")
    case True
    then have "first_free m k h j n j" using first_free_here [OF j] by blast
    then show ?thesis by blast
  next
    case False
    obtain q where "first_free m k h (Suc j) n q" using Suc(1) [OF d] j by auto
    then show ?thesis using first_free_step [OF j False] by blast
  qed
qed

section \<open>The loop of \<open>Find\<close>\<close>

definition keys_ok :: "HashTable \<Rightarrow> (nat \<rightharpoonup> HTItem) \<Rightarrow> bool" where
  "keys_ok ht m \<longleftrightarrow> (\<forall>l it. m l = Some it \<longrightarrow> IS_BCK_DELETED it \<or> kof ht it \<noteq> None)"

lemma find_loop_eq:
  assumes t: "tab_ok t" "64 * length t = 2 ^ k" "cBuckets ht = 2 ^ k" "k < 64" "keys_ok ht (tab_at t)"
    and key: "kval ht key = Some s" "key_fit ht key"
    and stop: "stop_at (kof ht) (tab_at t) k h s n"
  shows "j \<le> n \<Longrightarrow> unat i = chain k h j \<Longrightarrow> first_free (tab_at t) k h j n q \<Longrightarrow>
    find_loop ht t key wanted i (of_nat j) iEmpty =
      Some (if tab_at t (chain k h n) = None then None else Some (ptr_of t (chain k h n)),
            if wanted \<and> iEmpty = None \<and> (tab_at t (chain k h n) = None \<or> q < n)
            then Some (of_nat (chain k h q)) else iEmpty)"
proof (induction "n - j" arbitrary: j i iEmpty q)
  case 0
  then have j: "j = n" and q: "q = n" by (auto simp: first_free_def)
  let ?l = "chain k h n"
  have l: "unat i < 64 * length t" using 0 t(2) by simp
  have i: "of_nat ?l = i" unfolding j [symmetric] by (simp flip: 0(3))
  show ?case
  proof (cases "tab_at t ?l")
    case None
    then show ?thesis
      using SparseFind_at [OF t(1) l] 0(3) j q i by (subst find_loop.simps) simp
  next
    case (Some it)
    then have k: "kof ht it = Some s" using stop by (auto simp: stop_at_def found_def)
    then have live: "\<not> IS_BCK_DELETED it" and kv: "kval ht (bck_key it) = Some s" "key_fit ht (bck_key it)"
      by (auto simp: kof_def split: if_splits)
    obtain c where "KEY_CMP ht key (bck_key it) = Some c" "c = 0"
      using KEY_CMP_val [OF key(1) kv(1) key(2) kv(2)] by auto
    then show ?thesis
      using SparseFind_at [OF t(1) l] 0(3) j q Some live bck_load_at [OF t(1) Some]
      by (subst find_loop.simps) simp
  qed
next
  case (Suc d)
  then have j: "j < n" by simp
  let ?l = "chain k h j"
  have l: "unat i < 64 * length t" using Suc(4) t(2) by simp
  obtain it where it: "tab_at t ?l = Some it" and nf: "kof ht it \<noteq> Some s"
    using stop j by (auto simp: stop_at_def found_def)
  have i: "of_nat ?l = i" by (simp flip: Suc(4))
  have fnd: "SparseFind t i = Some (Some (ptr_of t ?l))" using SparseFind_at [OF t(1) l] it Suc(4) by simp
  note ld = bck_load_at [OF t(1) it]
  have jump: "unat (jump (cBuckets ht) i (of_nat j)) = chain k h (Suc j)"
    unfolding t(3) by (rule jump_chain [OF Suc(4) t(4)])
  show ?case
  proof (cases "IS_BCK_DELETED it")
    case True
    have q: "q = j" using Suc(5) True it j first_free_here [of j n] by (auto simp: dead_at_def)
    obtain q' where q': "first_free (tab_at t) k h (Suc j) n q'" using first_free_exists j by (metis Suc_leI)
    have "d = n - Suc j" "Suc j \<le> n" using Suc(2) j by auto
    note IH = Suc(1) [OF this jump q']
    show ?thesis
      using fnd ld True IH [of "if wanted \<and> iEmpty = None then Some i else iEmpty"] q j i
      by (subst find_loop.simps) (simp add: add.commute)
  next
    case False
    have q': "first_free (tab_at t) k h (Suc j) n q"
      using Suc(5) False it j first_free_step [of j n] by (auto simp: dead_at_def)
    obtain s' where s': "kof ht it = Some s'" using t(5) it False by (auto simp: keys_ok_def)
    then have kv: "kval ht (bck_key it) = Some s'" "key_fit ht (bck_key it)"
      by (auto simp: kof_def split: if_splits)
    obtain c where "KEY_CMP ht key (bck_key it) = Some c" "c \<noteq> 0"
      using KEY_CMP_val [OF key(1) kv(1) key(2) kv(2)] nf s' by auto
    moreover have "d = n - Suc j" "Suc j \<le> n" using Suc(2) j by auto
    ultimately show ?thesis
      using fnd ld False Suc(1) [OF _ _ jump q'] by (subst find_loop.simps) (simp add: add.commute)
  qed
qed

end
