(* ===== verification/HashInv.thy ===== *)
theory HashInv
  imports HashSearch
begin

text \<open>
  The invariant of a hash table and its contents as a map from keys to data.
\<close>

section \<open>The next power of two\<close>

lemma bit_top: "2 ^ j \<le> n \<Longrightarrow> n < 2 ^ Suc j \<Longrightarrow> bit (n :: nat) j"
proof -
  assume a: "2 ^ j \<le> n" "n < 2 ^ Suc j"
  have "n div 2 ^ j = 1"
    using a by (intro div_nat_eqI) auto
  then show ?thesis by (simp add: bit_iff_odd)
qed

lemma bit_le: "bit (n :: nat) j \<Longrightarrow> 2 ^ j \<le> n"
proof -
  assume "bit n j"
  then have "odd (n div 2 ^ j)" by (simp add: bit_iff_odd)
  then have "n div 2 ^ j \<noteq> 0" by (metis even_zero)
  then show ?thesis by (meson div_less not_le)
qed

lemma unat_and_le: "unat (and a b) \<le> unat (b :: u64)"
proof -
  have "int (and (unat a) (unat b)) \<le> int (unat b)"
    by (simp only: of_nat_and_eq) (rule AND_upper2, simp)
  then have "and (unat a) (unat b) \<le> unat b" by (simp only: of_nat_le_iff)
  then show ?thesis by (simp only: unsigned_and_eq)
qed

lemma unat_2p: "j < 64 \<Longrightarrow> unat (2 ^ j :: u64) = 2 ^ j"
proof -
  assume j: "j < 64"
  have "unat (of_nat (2 ^ j) :: u64) = 2 ^ j"
    using j by (simp only: unsigned_of_nat) (simp add: take_bit_nat_eq_self)
  then show ?thesis by simp
qed

lemma top_bit_eq:
  "2 ^ j \<le> unat x \<Longrightarrow> unat x < 2 ^ Suc j \<Longrightarrow> j < 64 \<Longrightarrow> top_bit x = Some (2 ^ j)"
proof (induction "unat x" arbitrary: x rule: less_induct)
  case less
  have x0: "x \<noteq> 0" using less(2) by auto
  have pred: "unat (x - 1) = unat x - 1" using x0 by (simp add: unat_sub word_le_nat_alt unat_gt_0 Suc_leI)
  note u2 = unat_2p [OF less(4)]
  show ?case
  proof (cases "unat x = 2 ^ j")
    case True
    then have x: "x = 2 ^ j" using u2 by (simp add: word_unat_eq_iff)
    have "and x (x - 1) = 0" unfolding x
      by (rule bit_word_eqI) (auto simp: bit_and_iff bit_exp_iff bit_mask_iff simp flip: mask_eq_decr_exp)
    then show ?thesis by (subst top_bit.simps) (simp add: x)
  next
    case False
    let ?y = "and x (x - 1)"
    have "bit x j" using bit_top [OF less(2,3)] by (simp add: bit_unsigned_iff)
    moreover have "bit (x - 1) j"
    proof -
      have "bit (unat (x - 1)) j"
        unfolding pred using False less(2,3) by (intro bit_top) auto
      then show ?thesis by (simp only: bit_unsigned_iff)
    qed
    ultimately have "bit (unat ?y) j" using less(4) by (simp add: bit_unsigned_iff bit_and_iff)
    then have lo: "2 ^ j \<le> unat ?y" by (rule bit_le)
    have hi: "unat ?y < unat x"
      using unat_and_le [of x "x - 1"] False less(2) unfolding pred by linarith
    have "?y \<noteq> 0" using lo by auto
    then show ?thesis using less(1) [OF hi lo _ less(4)] hi less(3) by (subst top_bit.simps) simp
  qed
qed

lemma NextPow2_eq:
  assumes "0 < unat x" and "unat x < 2 ^ 62"
  obtains j where "NextPow2 x = Some (2 ^ j)" and "unat x < 2 ^ j" and "2 ^ j \<le> 2 * unat x"
proof -
  obtain j where j: "2 ^ j \<le> unat x" "unat x < 2 ^ Suc j"
    using ex_power_ivl1 [of 2 "unat x"] assms(1) by auto
  have "(2 :: nat) ^ j < 2 ^ 62" using j(1) assms(2) by linarith
  then have j62: "j < 62" by (rule power_less_imp_less_exp [rotated]) simp
  have "drop_bit 1 (push_bit 1 x) = x"
  proof (rule bit_word_eqI)
    fix n
    assume n: "n < LENGTH(64)"
    have "\<not> bit x 63"
    proof
      assume "bit x 63"
      then have "bit (unat x) 63" by (simp add: bit_unsigned_iff)
      then have "2 ^ 63 \<le> unat x" by (rule bit_le)
      then show False using assms(2) by simp
    qed
    then show "bit (drop_bit 1 (push_bit 1 x)) n \<longleftrightarrow> bit x n"
      using n by (cases "n = 63") (auto simp: bit_drop_bit_eq bit_double_iff mult.commute [of x 2])
  qed
  then have "NextPow2 x = Some (2 ^ Suc j)"
    using top_bit_eq [OF j] j62 by (simp add: NextPow2_def push_bit_eq_mult)
  then show thesis using that [of "Suc j"] j by simp
qed

section \<open>Invariant and contents\<close>

definition shape :: "HashTable \<Rightarrow> nat \<Rightarrow> HTItem SparseBin list \<Rightarrow> bool" where
  "shape ht k t \<longleftrightarrow> ht_table ht = Some t \<and> tab_ok t \<and> 64 * length t = 2 ^ k \<and> 6 \<le> k \<and> k \<le> 30 \<and>
     cBuckets ht = 2 ^ k \<and> keys_ok ht (tab_at t) \<and> oa_inv (kof ht) home k (tab_at t)"

definition counts :: "HashTable \<Rightarrow> HTItem SparseBin list \<Rightarrow> bool" where
  "counts ht t \<longleftrightarrow> unat (cItems ht) = card (live_items (kof ht) (tab_at t)) \<and>
     unat (cDeletedItems ht) = card {l. dead_at (tab_at t) l}"

definition last_ok :: "HashTable \<Rightarrow> HTItem SparseBin list \<Rightarrow> bool" where
  "last_ok ht t \<longleftrightarrow> (\<forall>p. posLastFind ht = Item p \<longrightarrow>
     (\<exists>l s. p = ptr_of t l \<and> found (kof ht) (tab_at t) s l))"

definition ht_ok :: "HashTable \<Rightarrow> bool" where
  "ht_ok ht \<longleftrightarrow> (\<exists>k t. shape ht k t \<and> counts ht t \<and> last_ok ht t \<and>
     2 * (unat (cItems ht) + unat (cDeletedItems ht)) < 2 ^ k)"

text \<open>The contents: what a walk over the buckets of all groups finds.\<close>

definition ht_items :: "HashTable \<Rightarrow> HTItem list" where
  "ht_items ht = (case ht_table ht of None \<Rightarrow> [] | Some t \<Rightarrow> concat (map binSparse t))"

definition ht_map :: "HashTable \<Rightarrow> bytes \<rightharpoonup> u64" where
  "ht_map ht = map_of (map (\<lambda>it. (the (kof ht it), bck_data it)) (filter (\<lambda>it. kof ht it \<noteq> None) (ht_items ht)))"

lemma set_items:
  assumes "tab_ok t"
  shows "set (concat (map binSparse t)) = ran (tab_at t)"
proof -
  have "set (binSparse (t ! g)) = ran (bin_at (t ! g))" if "g < length t" for g
  proof -
    have ok: "bin_ok (t ! g)" using assms that by (simp add: tab_ok_def)
    obtain w where w: "bmOccupied (t ! g) = [w]" using bin_ok_word [OF ok] by blast
    have "set (binSparse (t ! g)) = (\<lambda>p. the (bin_at (t ! g) p)) ` {p. p < 64 \<and> bin_at (t ! g) p \<noteq> None}"
      by (subst bin_list [OF ok]) auto
    also have "{p. p < 64 \<and> bin_at (t ! g) p \<noteq> None} = dom (bin_at (t ! g))"
      using w by (auto simp: bin_at_def dest: bit_imp_le_length split: if_splits)
    finally show ?thesis by (force simp: ran_def image_iff)
  qed
  then have "set (concat (map binSparse t)) = (\<Union>g < length t. ran (bin_at (t ! g)))"
  proof -
    have "set t = (\<lambda>g. t ! g) ` {..<length t}" by (auto simp: set_conv_nth)
    then have "set (concat (map binSparse t)) = (\<Union>g < length t. set (binSparse (t ! g)))" by simp
    then show ?thesis using \<open>\<And>g. g < length t \<Longrightarrow> set (binSparse (t ! g)) = ran (bin_at (t ! g))\<close> by simp
  qed
  also have "\<dots> = ran (tab_at t)"
  proof
    show "(\<Union>g < length t. ran (bin_at (t ! g))) \<subseteq> ran (tab_at t)"
    proof
      fix x
      assume "x \<in> (\<Union>g < length t. ran (bin_at (t ! g)))"
      then obtain g p where g: "g < length t" "bin_at (t ! g) p = Some x" by (auto simp: ran_def)
      obtain w where "bmOccupied (t ! g) = [w]"
        using bin_ok_word [of "t ! g"] g(1) assms by (auto simp: tab_ok_def)
      then have p: "p < 64" using g(2) by (auto simp: bin_at_def dest: bit_imp_le_length split: if_splits)
      then have "tab_at t (64 * g + p) = Some x" using g by (simp add: tab_at_def)
      then show "x \<in> ran (tab_at t)" by (rule ranI)
    qed
    show "ran (tab_at t) \<subseteq> (\<Union>g < length t. ran (bin_at (t ! g)))"
      by (force simp: ran_def tab_at_def less_mult_imp_div_less mult.commute split: if_splits)
  qed
  finally show ?thesis .
qed

lemma ht_map_iff:
  assumes "shape ht k t"
  shows "ht_map ht s = Some d \<longleftrightarrow> (\<exists>it \<in> live_items (kof ht) (tab_at t). kof ht it = Some s \<and> bck_data it = d)"
proof -
  have t: "ht_table ht = Some t" "tab_ok t" "oa_inv (kof ht) home k (tab_at t)"
    using assms by (auto simp: shape_def)
  have u: "it = it'" if its: "it \<in> ran (tab_at t)" "it' \<in> ran (tab_at t)" "kof ht it = Some s" "kof ht it' = Some s" for it it' s
  proof -
    obtain l l' where l: "tab_at t l = Some it" "tab_at t l' = Some it'" using its(1,2) by (auto simp: ran_def)
    then have "l = l'" using t(3) its(3,4) by (auto simp: oa_inv_def found_def)
    then show ?thesis using l by simp
  qed
  let ?xs = "filter (\<lambda>it. kof ht it \<noteq> None) (ht_items ht)"
  have set: "set ?xs = live_items (kof ht) (tab_at t)"
    using set_items [OF t(2)] t(1) by (auto simp: live_items_def ht_items_def)
  have "map_of (map (\<lambda>it. (the (kof ht it), bck_data it)) xs) s = Some d \<longleftrightarrow>
      (\<exists>it \<in> set xs. kof ht it = Some s \<and> bck_data it = d)"
    if "\<forall>it \<in> set xs. kof ht it \<noteq> None \<and> it \<in> ran (tab_at t)" for xs
    using that
  proof (induction xs)
    case (Cons x xs)
    then obtain s' where s': "kof ht x = Some s'" "x \<in> ran (tab_at t)" by auto
    show ?case
    proof (cases "s' = s")
      case True
      then have "it = x" if "it \<in> set xs" "kof ht it = Some s" for it
        using u [OF _ s'(2) that(2)] that(1) s' Cons(2) by simp
      then show ?thesis using True s' by auto
    next
      case False
      then show ?thesis using s' Cons by simp
    qed
  qed simp
  from this [of ?xs] show ?thesis
    unfolding ht_map_def set [symmetric] using set by (auto simp: live_items_def)
qed

lemma map_eqI: "(\<And>s d. f s = Some d \<longleftrightarrow> g s = Some d) \<Longrightarrow> f = g"
  by (rule ext) (metis option.exhaust)

text \<open>The contents depend on the set of live items only.\<close>

lemma ht_map_same:
  assumes "shape ht k t" and "shape ht' k' t'" and "kof ht' = kof ht"
    and "live_items (kof ht) (tab_at t') = live_items (kof ht) (tab_at t)"
  shows "ht_map ht' = ht_map ht"
  using ht_map_iff [OF assms(1)] ht_map_iff [OF assms(2)] assms(3,4) by (intro map_eqI) simp

lemma key_cong:
  assumes "cchKey ht' = cchKey ht"
  shows "KEY_PTR ht' = KEY_PTR ht" and "key_bytes ht' = key_bytes ht" and "STORES_PTR ht' = STORES_PTR ht"
    and "kval ht' = kval ht" and "key_fit ht' = key_fit ht" and "kof ht' = kof ht"
proof -
  show st: "STORES_PTR ht' = STORES_PTR ht" using assms by (simp add: STORES_PTR_def)
  show kp: "KEY_PTR ht' = KEY_PTR ht" by (simp add: KEY_PTR_def st fun_eq_iff)
  show kb: "key_bytes ht' = key_bytes ht" using assms by (simp add: key_bytes_def fun_eq_iff)
  show kv: "kval ht' = kval ht" by (simp add: kval_def kp kb fun_eq_iff)
  show kf: "key_fit ht' = key_fit ht" using assms by (simp add: key_fit_def st fun_eq_iff)
  show "kof ht' = kof ht" by (simp add: kof_def kv kf fun_eq_iff)
qed

lemma dom_split:
  assumes "keys_ok ht m"
  shows "dom m = live_at (kof ht) m \<union> {l. dead_at m l}" and "live_at (kof ht) m \<inter> {l. dead_at m l} = {}"
  using assms by (auto simp: keys_ok_def live_at_def found_def dead_at_def dom_def kof_def split: if_splits) blast+

lemma card_dom:
  assumes "shape ht k t" and "counts ht t"
  shows "card (dom (tab_at t)) = unat (cItems ht) + unat (cDeletedItems ht)"
proof -
  have s: "keys_ok ht (tab_at t)" "oa_inv (kof ht) home k (tab_at t)" using assms(1) by (auto simp: shape_def)
  have "finite (live_at (kof ht) (tab_at t))" "finite {l. dead_at (tab_at t) l}"
    using dom_split(1) [OF s(1)] finite_tab_at [of t] by auto
  then show ?thesis
    using dom_split [OF s(1)] live_items_card(1) [OF s(2)] assms(2)
    by (simp add: counts_def card_Un_disjoint)
qed

end
