(* ===== verification/HashRehash.thy ===== *)
theory HashRehash
  imports HashInv
begin

text \<open>
  Searching a table that has an empty bucket, walking over its live buckets, and rehashing: the
  new table holds the same live items and no deleted bucket, and the bucket that was watched is
  found where its item went.
\<close>

section \<open>Find\<close>

definition room :: "nat \<Rightarrow> HTItem SparseBin list \<Rightarrow> bool" where
  "room k t \<longleftrightarrow> card (dom (tab_at t)) < 2 ^ k"

lemma Find_eq:
  assumes sh: "shape ht k t" and "room k t" and key: "kval ht key = Some s" "key_fit ht key"
  obtains n q where "stop_at (kof ht) (tab_at t) k (home s) s n"
    and "first_free (tab_at t) k (home s) 0 n q"
    and "Find ht key wanted = Some
      (if tab_at t (chain k (home s) n) = None then None else Some (ptr_of t (chain k (home s) n)),
       if wanted \<and> (tab_at t (chain k (home s) n) = None \<or> q < n) then Some (of_nat (chain k (home s) q)) else None,
       ht\<lparr>posLastFind := (if tab_at t (chain k (home s) n) = None then NoItem
                           else Item (ptr_of t (chain k (home s) n)))\<rparr>)"
proof -
  note sd = sh [unfolded shape_def]
  have k64: "k < 64" using sd by simp
  obtain n where n: "stop_at (kof ht) (tab_at t) k (home s) s n"
    using stop_exists [of "tab_at t" k "kof ht" "home s" s] sd assms(2) by (auto simp: oa_inv_def room_def)
  obtain q where q: "first_free (tab_at t) k (home s) 0 n q" using first_free_exists by blast
  obtain b h where b: "KEY_PTR ht key = Some b" "Hash ht b (2 ^ k) = Some h" "unat h = chain k (home s) 0"
    by (rule Hash_home [OF key(1)])
  have "find_loop ht t key wanted h (of_nat 0) None = Some
      (if tab_at t (chain k (home s) n) = None then None else Some (ptr_of t (chain k (home s) n)),
       if wanted \<and> None = (None :: u64 option) \<and> (tab_at t (chain k (home s) n) = None \<or> q < n)
       then Some (of_nat (chain k (home s) q)) else None)"
    using sd k64 by (intro find_loop_eq [OF _ _ _ _ _ key n _ b(3) q]) auto
  then show thesis
    using b sd by (intro that [OF n q]) (simp add: Find_def)
qed

lemma probe_empty_eq:
  assumes t: "tab_ok t" "64 * length t = 2 ^ k" "k < 64"
    and n: "tab_at t (chain k h n) = None" "\<forall>p < n. tab_at t (chain k h p) \<noteq> None"
  shows "j \<le> n \<Longrightarrow> unat i = chain k h j \<Longrightarrow>
    probe_empty t (2 ^ k) i (of_nat j) = Some (of_nat (chain k h n))"
proof (induction "n - j" arbitrary: j i)
  case 0
  then have j: "j = n" by simp
  have i: "of_nat (chain k h n) = i" unfolding j [symmetric] by (simp flip: 0(3))
  have "unat i < 64 * length t" using 0 t(2) by simp
  then show ?case using SparseIsEmpty_at [OF t(1)] 0(3) n(1) j i by (subst probe_empty.simps) simp
next
  case (Suc d)
  then have j: "j < n" "d = n - Suc j" by auto
  have "unat i < 64 * length t" using Suc t(2) by simp
  moreover obtain y where "tab_at t (unat i) = Some y" using n(2) j(1) Suc(4) by auto
  ultimately show ?case
    using SparseIsEmpty_at [OF t(1)] Suc(1) [OF j(2) _ jump_chain [OF Suc(4) t(3)]] j(1)
    by (subst probe_empty.simps) (simp add: add.commute)
qed

section \<open>The live buckets\<close>

definition live_rest :: "HTItem SparseBin list \<Rightarrow> SparseIterator \<Rightarrow> bckptr list" where
  "live_rest t it = filter (\<lambda>p. \<not> IS_BCK_DELETED (the (bck_load t p))) (iter_rest t it)"

definition live_ptrs :: "HTItem SparseBin list \<Rightarrow> bckptr list" where
  "live_ptrs t = filter (\<lambda>p. \<not> IS_BCK_DELETED (the (bck_load t p))) (ptrs_from t 0)"

lemma ptrs_load: "tab_ok t \<Longrightarrow> p \<in> set (ptrs_from t g) \<Longrightarrow> bck_load t p \<noteq> None"
  by (auto simp: ptrs_from_def bck_load_def elem_def tab_ok_def bin_ok_def bind_eq_None_conv)

lemma iter_load:
  assumes "tab_ok t" and "iter_valid t it" and "p \<in> set (iter_rest t it)"
  shows "bck_load t p \<noteq> None"
proof (cases "p \<in> set (ptrs_from t (nat (posGroup it + 1)))")
  case True
  then show ?thesis using ptrs_load [OF assms(1)] by blast
next
  case False
  then show ?thesis
    using assms by (auto simp: iter_rest_def iter_valid_def bck_load_def elem_def tab_ok_def bin_ok_def
      nat_less_iff split: if_splits)
qed

lemma next_live_rest:
  assumes "tab_ok t" and "unat (SPARSE_GROUPS c) = length t" and "iter_valid t it"
  shows "(case live_rest t it of
      [] \<Rightarrow> \<exists>it'. next_live t c it = Some (None, it')
    | p # ps \<Rightarrow> \<exists>it'. next_live t c it = Some (Some p, it') \<and> iter_valid t it' \<and> live_rest t it' = ps)"
  using assms(3)
proof (induction "iter_rest t it" arbitrary: it)
  case Nil
  then show ?case using SparseNextBucket_rest [OF assms(2), of it]
    by (subst next_live.simps) (auto simp: live_rest_def)
next
  case (Cons p ps)
  obtain it' where it': "SparseNextBucket t c it = Some (Some p, it')" "iter_valid t it'" "iter_rest t it' = ps"
    using SparseNextBucket_rest [OF assms(2) Cons(3)] Cons(2) [symmetric] by auto
  obtain b where b: "bck_load t p = Some b"
    using iter_load [OF assms(1) Cons(3), of p] Cons(2) [symmetric] by auto
  show ?case
  proof (cases "IS_BCK_DELETED b")
    case True
    then have "next_live t c it = next_live t c it'" using it' b by (subst next_live.simps) simp
    moreover have "live_rest t it = live_rest t it'"
      using it' b True Cons(2) [symmetric] by (simp add: live_rest_def)
    ultimately show ?thesis using Cons(1) [OF it'(3) [symmetric] it'(2)] by (cases "live_rest t it'") simp_all
  next
    case False
    then have "next_live t c it = Some (Some p, it')" using it' b by (subst next_live.simps) simp
    moreover have "live_rest t it = p # live_rest t it'"
      using it' b False Cons(2) [symmetric] by (simp add: live_rest_def)
    ultimately show ?thesis using it' by simp
  qed
qed

lemma groups_shape:
  assumes "shape ht k t"
  shows "unat (SPARSE_GROUPS (cBuckets ht)) = length t"
proof -
  have s: "cBuckets ht = 2 ^ k" "6 \<le> k" "k \<le> 30" "64 * length t = 2 ^ k" using assms by (auto simp: shape_def)
  have u: "unat (cBuckets ht) = 64 * length t" using s unat_2p [of k] by simp
  have "0 < length t" using s(4) by (cases "length t") auto
  moreover have "(2 :: nat) ^ k \<le> 2 ^ 30" using s(3) by (intro power_increasing) auto
  ultimately have "unat (SPARSE_GROUPS (cBuckets ht)) = (64 * length t - 1) div 64 + 1"
    using unat_SPARSE_GROUPS [of "cBuckets ht"] u s(4) by simp
  also have "\<dots> = length t" using s(4) by (cases "length t") auto
  finally show ?thesis .
qed

lemma HashFirst_eq:
  assumes "shape ht k t"
  obtains p it where "HashFirstBucket ht = Some (p, ht\<lparr>ht_iter := Some it\<rparr>)"
    and "(case live_ptrs t of [] \<Rightarrow> p = None | q # qs \<Rightarrow> p = Some q \<and> iter_valid t it \<and> live_rest t it = qs)"
proof -
  have t: "ht_table ht = Some t" "tab_ok t" using assms by (auto simp: shape_def)
  note g = groups_shape [OF assms]
  show thesis
  proof (cases "ptrs_from t 0")
    case Nil
    then obtain it where "SparseFirstBucket t (cBuckets ht) = Some (None, it)"
      using SparseFirstBucket_rest [OF g] by auto
    then show thesis using t Nil by (intro that [of None it]) (simp_all add: HashFirstBucket_def live_ptrs_def)
  next
    case (Cons p ps)
    then obtain it where it: "SparseFirstBucket t (cBuckets ht) = Some (Some p, it)" "iter_valid t it" "iter_rest t it = ps"
      using SparseFirstBucket_rest [OF g] by auto
    obtain b where b: "bck_load t p = Some b" using ptrs_load [OF t(2), of p 0] Cons by auto
    show thesis
    proof (cases "IS_BCK_DELETED b")
      case False
      then show thesis using t it b Cons
        by (intro that [of "Some p" it]) (simp_all add: HashFirstBucket_def live_ptrs_def live_rest_def)
    next
      case True
      then have "live_ptrs t = live_rest t it" using Cons it b by (simp add: live_ptrs_def live_rest_def)
      then show thesis using next_live_rest [OF t(2) g it(2)] t it b True
        by (cases "live_rest t it") (auto simp: HashFirstBucket_def intro!: that)
    qed
  qed
qed

lemma HashNext_eq:
  assumes "ht_table ht = Some t" and "tab_ok t" and "unat (SPARSE_GROUPS (cBuckets ht)) = length t"
    and "ht_iter ht = Some it" and "iter_valid t it"
  obtains p it' where "HashNextBucket ht = Some (p, ht\<lparr>ht_iter := Some it'\<rparr>)"
    and "(case live_rest t it of [] \<Rightarrow> p = None | q # qs \<Rightarrow> p = Some q \<and> iter_valid t it' \<and> live_rest t it' = qs)"
  using next_live_rest [OF assms(2,3,5)] assms(1,4)
  by (cases "live_rest t it") (auto simp: HashNextBucket_def intro!: that)

section \<open>Rehashing\<close>

text \<open>The loop without the iteration: the buckets of a list go into the new table in turn.\<close>

fun rehash_list ::
  "HashTable \<Rightarrow> HTItem SparseBin list \<Rightarrow> u64 \<Rightarrow> HTItem SparseBin list \<Rightarrow> bckptr option \<Rightarrow> bool \<Rightarrow>
   bckptr list \<Rightarrow> (bckptr option \<times> HTItem SparseBin list) option" where
  "rehash_list ht told n tnew new f [] = Some (new, tnew)"
| "rehash_list ht told n tnew new f (p # ps) = do {
     (q, f', tnew') \<leftarrow> rehash_item ht told n p tnew f;
     rehash_list ht told n tnew' (Some q) f' ps }"

lemma rehash_item_cong: "cchKey ht' = cchKey ht \<Longrightarrow> rehash_item ht' = rehash_item ht"
  by (intro ext) (simp add: rehash_item_def key_cong [of ht' ht] Hash_def)

lemma rehash_list_cong: "cchKey ht' = cchKey ht \<Longrightarrow> rehash_list ht' told n tnew new f ps = rehash_list ht told n tnew new f ps"
  by (induction ps arbitrary: tnew new f) (simp_all add: rehash_item_cong [of ht' ht])

definition watch_last :: "bckptr option \<Rightarrow> bckptr list \<Rightarrow> bckptr list" where
  "watch_last w ps = filter (\<lambda>p. Some p \<noteq> w) ps @ (case w of None \<Rightarrow> [] | Some q \<Rightarrow> [q])"

lemma rehash_loop_list:
  assumes "ht_table ht = Some told" and "tab_ok told"
    and "unat (SPARSE_GROUPS (cBuckets ht)) = length told"
    and "case ps of [] \<Rightarrow> bck = None
      | p # qs \<Rightarrow> bck = Some p \<and> (\<exists>it. ht_iter ht = Some it \<and> iter_valid told it \<and> live_rest told it = qs)"
    and "rehash_list ht told n tnew new f (watch_last w ps) = Some (r, t')"
  shows "\<exists>it. rehash_loop ht told n w bck tnew new f = Some (r, t', ht\<lparr>ht_iter := it\<rparr>)"
  using assms
proof (induction ps arbitrary: ht bck tnew new f)
  case Nil
  have "\<exists>it. ht = ht\<lparr>ht_iter := it\<rparr>" by (rule exI [of _ "ht_iter ht"]) simp
  then show ?case using Nil
    by (subst rehash_loop.simps) (cases w; auto simp: watch_last_def bind_Some_iff split: prod.splits)
next
  case (Cons p ps)
  then obtain it where bck: "bck = Some p" and it: "ht_iter ht = Some it" "iter_valid told it" "live_rest told it = ps"
    by auto
  obtain bck' it' where nx: "HashNextBucket ht = Some (bck', ht\<lparr>ht_iter := Some it'\<rparr>)"
    "case ps of [] \<Rightarrow> bck' = None | q # qs \<Rightarrow> bck' = Some q \<and> iter_valid told it' \<and> live_rest told it' = qs"
    using HashNext_eq [OF Cons(2,3,4) it(1,2)] it(3) by metis
  let ?ht = "ht\<lparr>ht_iter := Some it'\<rparr>"
  have IH: "\<exists>it. rehash_loop ?ht told n w bck' tnew new f = Some (r, t', ?ht\<lparr>ht_iter := it\<rparr>)"
    if "rehash_list ht told n tnew new f (watch_last w ps) = Some (r, t')" for tnew new f
  proof (rule Cons(1))
    show "rehash_list ?ht told n tnew new f (watch_last w ps) = Some (r, t')"
      using that rehash_list_cong [of ?ht ht] by simp
  qed (use Cons(2-4) nx(2) in \<open>auto split: list.splits\<close>)
  show ?case
  proof (cases "Some p = w")
    case True
    then have "watch_last w (p # ps) = watch_last w ps" by (simp add: watch_last_def)
    then show ?thesis using IH [of tnew new f] Cons(6) True nx(1) bck
      by (subst rehash_loop.simps) auto
  next
    case False
    then have "watch_last w (p # ps) = p # watch_last w ps" by (simp add: watch_last_def)
    then obtain q f' tn where item: "rehash_item ht told n p tnew f = Some (q, f', tn)"
      and rest: "rehash_list ht told n tn (Some q) f' (watch_last w ps) = Some (r, t')"
      using Cons(6) by (auto simp: bind_Some_iff split: prod.splits)
    show ?thesis using IH [OF rest] item nx(1) bck False
      by (subst rehash_loop.simps) auto
  qed
qed

text \<open>What a table under construction satisfies.\<close>

definition fresh :: "HashTable \<Rightarrow> nat \<Rightarrow> HTItem SparseBin list \<Rightarrow> bool" where
  "fresh ht k t \<longleftrightarrow> tab_ok t \<and> 64 * length t = 2 ^ k \<and> k < 64 \<and>
     oa_inv (kof ht) home k (tab_at t) \<and> keys_ok ht (tab_at t) \<and> {l. dead_at (tab_at t) l} = {}"

lemma fresh_card: "fresh ht k t \<Longrightarrow> card (dom (tab_at t)) = card (live_items (kof ht) (tab_at t))"
  using dom_split(1) [of ht "tab_at t"] live_items_card(1) [of "kof ht" home k "tab_at t"]
  by (simp add: fresh_def)

lemma rehash_item_at:
  assumes told: "tab_ok told" "tab_at told l = Some it" "kof ht it = Some s"
    and fr: "fresh ht k t" "card (dom (tab_at t)) < 2 ^ k" "\<not> (\<exists>l. found (kof ht) (tab_at t) s l)"
  obtains t' l' where "rehash_item ht told (2 ^ k) (ptr_of told l) t f = Some (ptr_of t' l', False, t')"
    and "fresh ht k t'" and "length t' = length t" and "tab_at t' l' = Some it"
    and "live_items (kof ht) (tab_at t') = insert it (live_items (kof ht) (tab_at t))"
proof -
  note fd = fr(1) [unfolded fresh_def]
  have kv: "kval ht (bck_key it) = Some s" "\<not> IS_BCK_DELETED it" using told(3) by (auto simp: kof_def split: if_splits)
  obtain b h where b: "KEY_PTR ht (bck_key it) = Some b" "Hash ht b (2 ^ k) = Some h" "unat h = chain k (home s) 0"
    by (rule Hash_home [OF kv(1)])
  obtain n where stop: "stop_at (kof ht) (tab_at t) k (home s) s n"
    using stop_exists [of "tab_at t" k "kof ht" "home s" s] fd fr(2) by (auto simp: oa_inv_def)
  then have n: "tab_at t (chain k (home s) n) = None" "\<forall>p < n. tab_at t (chain k (home s) p) \<noteq> None"
    using fr(3) by (auto simp: stop_at_def)
  let ?l = "chain k (home s) n"
  have pe: "probe_empty t (2 ^ k) h (of_nat 0) = Some (of_nat ?l)"
    using fd n b(3) by (intro probe_empty_eq) auto
  have "?l < 2 ^ 64"
  proof -
    have "?l < 2 ^ k" by simp
    also have "(2 :: nat) ^ k \<le> 2 ^ 64" using fd by (intro power_increasing) auto
    finally show ?thesis .
  qed
  then have u: "unat (of_nat ?l :: u64) = ?l" by (simp add: unsigned_of_nat take_bit_nat_eq_self)
  obtain t' where t': "SparseInsert t it (of_nat ?l) f = Some (ptr_of t' ?l, False, t')" "tab_ok t'"
    "tab_at t' = (tab_at t)(?l \<mapsto> it)" "length t' = length t"
    using SparseInsert_empty [of t "of_nat ?l :: u64" it f] fd n(1) unfolding u by auto
  have rc: "reach k (tab_at t) (home s) ?l" using n by (auto simp: reach_def)
  have nf: "\<not> found (kof ht) (tab_at t) s' ?l" for s' using n(1) by (simp add: found_def)
  have oa: "oa_inv (kof ht) home k (tab_at t)" using fd by simp
  note put = oa_put [OF oa fr(3) told(3) rc nf, folded t'(3)]
  show thesis
  proof (rule that)
    show "rehash_item ht told (2 ^ k) (ptr_of told l) t f = Some (ptr_of t' ?l, False, t')"
      using bck_load_at [OF told(1,2)] b pe t'(1) by (simp add: rehash_item_def)
    show "fresh ht k t'"
      using fd t' put kv told(3) by (auto simp: fresh_def keys_ok_def dead_at_def split: if_splits)
  qed (use t' put in auto)
qed

lemma rehash_list_at:
  assumes told: "tab_ok told" "oa_inv (kof ht) home k0 (tab_at told)"
  shows "distinct ls \<Longrightarrow> \<forall>l \<in> set ls. \<exists>s. found (kof ht) (tab_at told) s l \<and>
      \<not> (\<exists>l'. found (kof ht) (tab_at t) s l') \<Longrightarrow> fresh ht k t \<Longrightarrow>
    card (dom (tab_at t)) + length ls < 2 ^ k \<Longrightarrow>
    \<exists>r t'. rehash_list ht told (2 ^ k) t new f (map (ptr_of told) ls) = Some (r, t') \<and> fresh ht k t' \<and>
      length t' = length t \<and>
      live_items (kof ht) (tab_at t') = live_items (kof ht) (tab_at t) \<union> (\<lambda>l. the (tab_at told l)) ` set ls \<and>
      (ls \<noteq> [] \<longrightarrow> (\<exists>l'. r = Some (ptr_of t' l') \<and> tab_at t' l' = tab_at told (last ls)))"
proof (induction ls arbitrary: t new f)
  case Nil
  then show ?case by simp
next
  case (Cons l ls)
  then obtain s it where it: "tab_at told l = Some it" "kof ht it = Some s"
    and nf: "\<not> (\<exists>l'. found (kof ht) (tab_at t) s l')" by (auto simp: found_def)
  have room: "card (dom (tab_at t)) < 2 ^ k" using Cons(5) by simp
  obtain t1 l1 where item: "rehash_item ht told (2 ^ k) (ptr_of told l) t f = Some (ptr_of t1 l1, False, t1)"
    and t1: "fresh ht k t1" "length t1 = length t" "tab_at t1 l1 = Some it"
      "live_items (kof ht) (tab_at t1) = insert it (live_items (kof ht) (tab_at t))"
    by (rule rehash_item_at [OF told(1) it Cons(4) room nf])
  have keys: "\<forall>m \<in> set ls. \<exists>s. found (kof ht) (tab_at told) s m \<and> \<not> (\<exists>l'. found (kof ht) (tab_at t1) s l')"
  proof
    fix m
    assume m: "m \<in> set ls"
    then obtain s' where s': "found (kof ht) (tab_at told) s' m" "\<not> (\<exists>l'. found (kof ht) (tab_at t) s' l')"
      using Cons(3) by auto
    have "s' \<noteq> s"
    proof
      assume "s' = s"
      moreover have "found (kof ht) (tab_at told) s l" using it by (simp add: found_def)
      ultimately have "m = l" using told(2) s'(1) by (auto simp: oa_inv_def)
      then show False using Cons(2) m by simp
    qed
    have "\<not> found (kof ht) (tab_at t1) s' l'" for l'
    proof
      assume "found (kof ht) (tab_at t1) s' l'"
      then obtain x where x: "x \<in> live_items (kof ht) (tab_at t1)" "kof ht x = Some s'"
        by (auto simp: found_def live_items_def ran_def)
      then have "x \<in> live_items (kof ht) (tab_at t)" using t1(4) it(2) \<open>s' \<noteq> s\<close> by auto
      then show False using s'(2) x(2) by (auto simp: live_items_def ran_def found_def)
    qed
    with s'(1) show "\<exists>s. found (kof ht) (tab_at told) s m \<and> \<not> (\<exists>l'. found (kof ht) (tab_at t1) s l')" by blast
  qed
  have card: "card (dom (tab_at t1)) + length ls < 2 ^ k"
  proof -
    have "card (dom (tab_at t1)) \<le> Suc (card (dom (tab_at t)))"
      unfolding fresh_card [OF t1(1)] fresh_card [OF Cons(4)] t1(4) by (rule card_insert_le_m1) auto
    then show ?thesis using Cons(5) by simp
  qed
  obtain r t' where rec: "rehash_list ht told (2 ^ k) t1 (Some (ptr_of t1 l1)) False (map (ptr_of told) ls) = Some (r, t')"
    "fresh ht k t'" "length t' = length t1"
    "live_items (kof ht) (tab_at t') = live_items (kof ht) (tab_at t1) \<union> (\<lambda>l. the (tab_at told l)) ` set ls"
    "ls \<noteq> [] \<longrightarrow> (\<exists>l'. r = Some (ptr_of t' l') \<and> tab_at t' l' = tab_at told (last ls))"
    using Cons(1) [OF _ keys t1(1) card, of "Some (ptr_of t1 l1)" False] Cons(2) by auto
  have "ls = [] \<Longrightarrow> r = Some (ptr_of t' l1) \<and> tab_at t' l1 = tab_at told l"
    using rec(1) t1(3) it(1) by auto
  then show ?case using rec item it(1) t1 by auto
qed

text \<open>The locations of the live buckets, the watched one moved to the end.\<close>

definition live_locs :: "HTItem SparseBin list \<Rightarrow> nat list" where
  "live_locs t = filter (\<lambda>l. \<not> dead_at (tab_at t) l) (occ t)"

lemma live_ptrs_locs:
  assumes "tab_ok t"
  shows "live_ptrs t = map (ptr_of t) (live_locs t)"
proof -
  have "live_ptrs t = map (ptr_of t) (filter (\<lambda>l. \<not> IS_BCK_DELETED (the (bck_load t (ptr_of t l)))) (occ t))"
    unfolding live_ptrs_def occ_ptrs [OF assms, symmetric] filter_map o_def ..
  also have "filter (\<lambda>l. \<not> IS_BCK_DELETED (the (bck_load t (ptr_of t l)))) (occ t) = live_locs t"
    unfolding live_locs_def
  proof (rule filter_cong [OF refl])
    fix l
    assume "l \<in> set (occ t)"
    then obtain it where "tab_at t l = Some it" by (auto simp: set_occ)
    then show "(\<not> IS_BCK_DELETED (the (bck_load t (ptr_of t l)))) = (\<not> dead_at (tab_at t) l)"
      using bck_load_at [OF assms] by (auto simp: dead_at_def)
  qed
  finally show ?thesis .
qed

lemma distinct_live_locs [simp]: "distinct (live_locs t)"
  by (simp add: live_locs_def)

lemma set_live_locs:
  assumes "keys_ok ht (tab_at t)"
  shows "set (live_locs t) = live_at (kof ht) (tab_at t)"
  using dom_split [OF assms] by (auto simp: live_locs_def set_occ)

lemma live_image: "(\<lambda>l. the (m l)) ` live_at kf m = live_items kf m"
  by (force simp: live_at_def live_items_def found_def ran_def image_iff)

definition watch_locs :: "nat option \<Rightarrow> nat list \<Rightarrow> nat list" where
  "watch_locs w ls = filter (\<lambda>l. Some l \<noteq> w) ls @ (case w of None \<Rightarrow> [] | Some l \<Rightarrow> [l])"

lemma watch_locs_ptrs:
  assumes "tab_ok t" and "\<forall>l \<in> set ls. tab_at t l \<noteq> None" and "w = None \<or> (\<exists>l. w = Some l \<and> tab_at t l \<noteq> None)"
  shows "watch_last (map_option (ptr_of t) w) (map (ptr_of t) ls) = map (ptr_of t) (watch_locs w ls)"
proof (cases w)
  case None
  then show ?thesis by (simp add: watch_last_def watch_locs_def)
next
  case (Some m)
  have "filter (\<lambda>l. ptr_of t l \<noteq> ptr_of t m) ls = filter (\<lambda>l. l \<noteq> m) ls"
    using assms ptr_of_inj [OF assms(1)] Some by (intro filter_cong [OF refl]) auto
  then show ?thesis using Some by (simp add: watch_last_def watch_locs_def filter_map o_def)
qed

lemma SparseAllocate_pow:
  assumes "j \<le> 30"
  obtains t :: "'b SparseBin list" where "SparseAllocate (2 ^ j) = Some (2 ^ max 6 j, t)" and "tab_ok t"
    and "64 * length t = 2 ^ max 6 j" and "tab_at t = Map.empty"
proof -
  have u: "unat (2 ^ j :: u64) = 2 ^ j" using assms by (intro unat_2p) simp
  have le: "(2 :: nat) ^ j \<le> 2 ^ 30" using assms by (intro power_increasing) auto
  have pos: "0 < unat (2 ^ j :: u64)" and bound: "unat (2 ^ j :: u64) \<le> 2 ^ 30"
    using u le by auto
  obtain t :: "'b SparseBin list" where t': "SparseAllocate (2 ^ j) = Some (of_nat (64 * length t), t)"
    "length t = (unat (2 ^ j :: u64) - 1) div 64 + 1" "tab_ok t" "tab_at t = Map.empty"
    by (rule SparseAllocate_ok [OF pos bound])
  note t = t'(1) t'(2) [unfolded u] t'(3,4)
  have len: "64 * length t = 2 ^ max 6 j"
  proof (cases "j \<le> 6")
    case True
    then have "(2 :: nat) ^ j \<le> 2 ^ 6" by (intro power_increasing) auto
    then have "(2 ^ j - 1) div 64 = (0 :: nat)" by simp
    then show ?thesis using True t(2) by (simp add: max_def)
  next
    case False
    then obtain d where d: "j = 6 + d" using le_Suc_ex [of 6 j] by auto
    have "(2 :: nat) ^ j = 64 * 2 ^ d" by (simp add: d power_add)
    moreover have "(64 * 2 ^ d - 1) div 64 + 1 = (2 :: nat) ^ d"
      by (cases "(2 :: nat) ^ d") auto
    ultimately show ?thesis using False t(2) by (simp add: max_def)
  qed
  have "(of_nat (64 * length t) :: u64) = 2 ^ max 6 j" unfolding len by simp
  then show thesis using that [OF _ t(3) len t(4)] t(1) by simp
qed

text \<open>\<open>Rehash\<close> keeps the live items and drops the deleted buckets.\<close>

lemma Rehash_eq:
  assumes sh: "shape ht k t" and j: "j \<le> 30"
    and small: "card (live_items (kof ht) (tab_at t)) < 2 ^ max 6 j"
    and w: "w = None \<or> (\<exists>l s. w = Some l \<and> found (kof ht) (tab_at t) s l)"
  obtains r ht' t' where "Rehash ht (2 ^ j) (map_option (ptr_of t) w) = Some (r, ht')"
    and "shape ht' (max 6 j) t'" and "kof ht' = kof ht"
    and "live_items (kof ht) (tab_at t') = live_items (kof ht) (tab_at t)"
    and "{l. dead_at (tab_at t') l} = {}"
    and "cDeletedItems ht' = 0" and "cItems ht' = cItems ht" and "cchKey ht' = cchKey ht"
    and "fSaveKeys ht' = fSaveKeys ht" and "cDeltaGoalSize ht' = cDeltaGoalSize ht"
    and "posLastFind ht' = posLastFind ht"
    and "\<forall>l. w = Some l \<longrightarrow> (\<exists>l'. r = Some (ptr_of t' l') \<and> tab_at t' l' = tab_at t l)"
proof -
  note sd = sh [unfolded shape_def]
  have tok: "tab_ok t" and oa: "oa_inv (kof ht) home k (tab_at t)" and ko: "keys_ok ht (tab_at t)"
    and tab: "ht_table ht = Some t" using sd by auto
  obtain tnew :: "HTItem SparseBin list" where new: "SparseAllocate (2 ^ j) = Some (2 ^ max 6 j, tnew)"
    "tab_ok tnew" "64 * length tnew = 2 ^ max 6 j" "tab_at tnew = Map.empty"
    by (rule SparseAllocate_pow [OF j])
  obtain p it where first: "HashFirstBucket ht = Some (p, ht\<lparr>ht_iter := Some it\<rparr>)"
    "case live_ptrs t of [] \<Rightarrow> p = None | q # qs \<Rightarrow> p = Some q \<and> iter_valid t it \<and> live_rest t it = qs"
    by (rule HashFirst_eq [OF sh])
  let ?ht1 = "ht\<lparr>ht_iter := Some it\<rparr>" and ?ls = "watch_locs w (live_locs t)"
  have set: "set ?ls = live_at (kof ht) (tab_at t)"
    using w set_live_locs [OF ko] by (auto simp: watch_locs_def live_at_def split: option.splits)
  have dist: "distinct ?ls" by (auto simp: watch_locs_def split: option.splits)
  have fresh: "fresh ht (max 6 j) tnew"
    using new j by (simp add: fresh_def oa_inv_empty keys_ok_def dead_at_def)
  have len: "length ?ls = card (live_items (kof ht) (tab_at t))"
    using distinct_card [OF dist] set live_items_card(1) [OF oa] by simp
  have keys: "\<forall>l \<in> set ?ls. \<exists>s. found (kof ht) (tab_at t) s l \<and> \<not> (\<exists>l'. found (kof ht) (tab_at tnew) s l')"
    unfolding set by (simp add: new(4) found_def live_at_def)
  obtain r t' where rl: "rehash_list ht t (2 ^ max 6 j) tnew None False (map (ptr_of t) ?ls) = Some (r, t')"
    and t': "fresh ht (max 6 j) t'" "length t' = length tnew"
      "live_items (kof ht) (tab_at t') = live_items (kof ht) (tab_at tnew) \<union> (\<lambda>l. the (tab_at t l)) ` set ?ls"
      "?ls \<noteq> [] \<longrightarrow> (\<exists>l'. r = Some (ptr_of t' l') \<and> tab_at t' l' = tab_at t (last ?ls))"
    using rehash_list_at [OF tok oa dist keys fresh, of None False] small len new(4) by auto
  have occ: "\<forall>l \<in> set (live_locs t). tab_at t l \<noteq> None"
    unfolding set_live_locs [OF ko] by (auto simp: live_at_def found_def)
  have wp: "watch_last (map_option (ptr_of t) w) (live_ptrs t) = map (ptr_of t) ?ls"
    unfolding live_ptrs_locs [OF tok] using w by (intro watch_locs_ptrs [OF tok occ]) (auto simp: found_def)
  have "\<exists>i. rehash_loop ?ht1 t (2 ^ max 6 j) (map_option (ptr_of t) w) p tnew None False =
      Some (r, t', ?ht1\<lparr>ht_iter := i\<rparr>)"
  proof (rule rehash_loop_list [where ps = "live_ptrs t"])
    show "rehash_list ?ht1 t (2 ^ max 6 j) tnew None False
        (watch_last (map_option (ptr_of t) w) (live_ptrs t)) = Some (r, t')"
      using rl rehash_list_cong [of ?ht1 ht] by (simp add: wp)
  qed (use tab tok groups_shape [OF sh] first(2) in \<open>auto split: list.splits\<close>)
  then obtain i where loop: "rehash_loop ?ht1 t (2 ^ max 6 j) (map_option (ptr_of t) w) p tnew None False =
      Some (r, t', ht\<lparr>ht_iter := i\<rparr>)" by auto
  let ?ht = "ht\<lparr>ht_iter := i, ht_table := Some t', cBuckets := 2 ^ max 6 j, cDeletedItems := 0\<rparr>"
  have kof: "kof ?ht = kof ht" by (rule key_cong) simp
  show thesis
  proof (rule that [of r ?ht t'])
    show "Rehash ht (2 ^ j) (map_option (ptr_of t) w) = Some (r, ?ht)"
      using tab new(1) first(1) loop groups_shape [OF sh]
      by (simp add: Rehash_def SparseFree_def)
    show "shape ?ht (max 6 j) t'"
      using t'(1,2) new(3) j by (simp add: shape_def fresh_def kof keys_ok_def)
    show "live_items (kof ht) (tab_at t') = live_items (kof ht) (tab_at t)"
      using t'(3) unfolding set live_image by (simp add: new(4) live_items_def)
    show "\<forall>l. w = Some l \<longrightarrow> (\<exists>l'. r = Some (ptr_of t' l') \<and> tab_at t' l' = tab_at t l)"
    proof (intro allI impI)
      fix l
      assume "w = Some l"
      then have "?ls \<noteq> []" "last ?ls = l" by (auto simp: watch_locs_def)
      then show "\<exists>l'. r = Some (ptr_of t' l') \<and> tab_at t' l' = tab_at t l" using t'(4) by simp
    qed
  qed (use t'(1) kof in \<open>auto simp: fresh_def\<close>)
qed

end
