(* ===== verification/HashRefine.thy ===== *)
theory HashRefine
  imports HashRehash
begin

text \<open>
  The operations of the hash table against a map from keys (byte strings) to data.
\<close>

section \<open>Key arguments\<close>

text \<open>The key argument \<open>key\<close> stands for the byte string \<open>s\<close>.\<close>

definition is_key :: "HashTable \<Rightarrow> hkey \<Rightarrow> bytes \<Rightarrow> bool" where
  "is_key ht key s \<longleftrightarrow> (\<exists>k. KEY_TRUNC ht key = Some k \<and> kval ht k = Some s \<and> key_fit ht k)"

lemma is_key_string: "cchKey ht = 0 \<Longrightarrow> c_string s \<Longrightarrow> is_key ht (KPtr (Live (c_bytes s @ rest))) s"
  by (simp add: is_key_def KEY_TRUNC_def STORES_PTR_def kval_def KEY_PTR_def key_bytes_def key_fit_def cstr_c_bytes)

lemma is_key_cong:
  assumes "cchKey ht' = cchKey ht"
  shows "KEY_TRUNC ht' = KEY_TRUNC ht" and "is_key ht' = is_key ht"
proof -
  show t: "KEY_TRUNC ht' = KEY_TRUNC ht"
    unfolding KEY_TRUNC_def key_cong(3) [OF assms] assms ..
  show "is_key ht' = is_key ht" by (simp add: is_key_def t key_cong [OF assms] fun_eq_iff)
qed

lemma kval_length: "kval ht k = Some s \<Longrightarrow> cchKey ht \<noteq> 0 \<Longrightarrow> length s = cchKey ht"
  by (auto simp: kval_def key_bytes_def bind_Some_iff split: if_splits)

lemma kval_c_string: "kval ht k = Some s \<Longrightarrow> cchKey ht = 0 \<Longrightarrow> c_string s"
  by (auto simp: kval_def key_bytes_def bind_Some_iff cstr_c_string)

lemma COPY_KEY_val:
  assumes "kval ht k = Some s" and "key_fit ht k"
  obtains k' where "COPY_KEY ht k = Some k'" and "kval ht k' = Some s" and "key_fit ht k'"
proof (cases "\<not> STORES_PTR ht \<or> fSaveKeys ht = 0")
  case True
  then show thesis using that [of k] assms by (simp add: COPY_KEY_def)
next
  case False
  obtain b where b: "KEY_PTR ht k = Some b" "key_bytes ht b = Some s"
    using assms(1) by (auto simp: kval_def bind_Some_iff)
  let ?src = "if cchKey ht = 0 then c_bytes s else s"
  let ?k = "KPtr (Live (?src @ replicate (WORD_ROUND (length ?src) - length ?src) nul))"
  have "kval ht ?k = Some s"
    using False kval_length [OF assms(1)] kval_c_string [OF assms(1)]
    by (simp add: kval_def KEY_PTR_def key_bytes_def cstr_c_bytes)
  then show thesis using that [of ?k] False b
    by (simp add: COPY_KEY_def key_fit_def Let_def)
qed

lemma FREE_KEY_val: "kval ht k = Some s \<Longrightarrow> \<exists>k'. FREE_KEY ht k = Some k'"
  by (auto simp: FREE_KEY_def kval_def bind_Some_iff)

section \<open>Lookup\<close>

text \<open>What a client reads through an item pointer.\<close>

definition item_at :: "HashTable \<Rightarrow> bckptr \<Rightarrow> HTItem option" where
  "item_at ht p = do { t \<leftarrow> ht_table ht; bck_load t p }"

lemma ok_room:
  assumes "shape ht k t" and "counts ht t" and "2 * (unat (cItems ht) + unat (cDeletedItems ht)) < 2 ^ k"
  shows "room k t"
  using card_dom [OF assms(1,2)] assms(3) by (simp add: room_def)

lemma ht_map_found:
  assumes "shape ht k t"
  shows "ht_map ht s = None \<longleftrightarrow> (\<forall>l. \<not> found (kof ht) (tab_at t) s l)"
    and "tab_at t l = Some it \<Longrightarrow> kof ht it = Some s \<Longrightarrow> ht_map ht s = Some (bck_data it)"
proof -
  have "(\<exists>d. ht_map ht s = Some d) \<longleftrightarrow> (\<exists>l. found (kof ht) (tab_at t) s l)"
    unfolding ht_map_iff [OF assms] by (auto simp: live_items_def ran_def found_def)
  then show "ht_map ht s = None \<longleftrightarrow> (\<forall>l. \<not> found (kof ht) (tab_at t) s l)" by auto
  show "tab_at t l = Some it \<Longrightarrow> kof ht it = Some s \<Longrightarrow> ht_map ht s = Some (bck_data it)"
    unfolding ht_map_iff [OF assms] by (auto simp: live_items_def ran_def)
qed

text \<open>A search in terms of locations.\<close>

lemma Find_found:
  assumes "shape ht k t" and "room k t" and "kval ht key = Some s" and "key_fit ht key"
    and "found (kof ht) (tab_at t) s l"
  shows "\<exists>e. Find ht key wanted = Some (Some (ptr_of t l), e, ht\<lparr>posLastFind := Item (ptr_of t l)\<rparr>)"
proof -
  obtain n q where n: "stop_at (kof ht) (tab_at t) k (home s) s n"
    and eq: "Find ht key wanted = Some
      (if tab_at t (chain k (home s) n) = None then None else Some (ptr_of t (chain k (home s) n)),
       if wanted \<and> (tab_at t (chain k (home s) n) = None \<or> q < n) then Some (of_nat (chain k (home s) q)) else None,
       ht\<lparr>posLastFind := (if tab_at t (chain k (home s) n) = None then NoItem
                           else Item (ptr_of t (chain k (home s) n)))\<rparr>)"
    by (rule Find_eq [OF assms(1-4)])
  have oa: "oa_inv (kof ht) home k (tab_at t)" using assms(1) by (simp add: shape_def)
  have "chain k (home s) n = l" using stop_found [OF oa n assms(5)] by simp
  then show ?thesis using assms(5) eq by (auto simp: found_def)
qed

lemma Find_missing:
  assumes "shape ht k t" and "room k t" and "kval ht key = Some s" and "key_fit ht key"
    and "\<And>l. \<not> found (kof ht) (tab_at t) s l"
  obtains l where "Find ht key wanted = Some (None, if wanted then Some (of_nat l) else None, ht\<lparr>posLastFind := NoItem\<rparr>)"
    and "l < 2 ^ k" and "reach k (tab_at t) (home s) l" and "tab_at t l = None \<or> dead_at (tab_at t) l"
    and "\<And>l'. dead_at (tab_at t) l' \<Longrightarrow> reach k (tab_at t) (home s) l' \<Longrightarrow> dead_at (tab_at t) l"
proof -
  obtain n q where n: "stop_at (kof ht) (tab_at t) k (home s) s n"
    and q: "first_free (tab_at t) k (home s) 0 n q"
    and eq: "Find ht key wanted = Some
      (if tab_at t (chain k (home s) n) = None then None else Some (ptr_of t (chain k (home s) n)),
       if wanted \<and> (tab_at t (chain k (home s) n) = None \<or> q < n) then Some (of_nat (chain k (home s) q)) else None,
       ht\<lparr>posLastFind := (if tab_at t (chain k (home s) n) = None then NoItem
                           else Item (ptr_of t (chain k (home s) n)))\<rparr>)"
    by (rule Find_eq [OF assms(1-4)])
  have empty: "tab_at t (chain k (home s) n) = None" using n assms(5) by (auto simp: stop_at_def)
  show thesis
  proof (rule that [of "chain k (home s) q"])
    show "reach k (tab_at t) (home s) (chain k (home s) q)"
      using n q by (auto simp: reach_def stop_at_def first_free_def intro!: exI [of _ q])
    show "tab_at t (chain k (home s) q) = None \<or> dead_at (tab_at t) (chain k (home s) q)"
      using q empty by (auto simp: first_free_def)
    show "dead_at (tab_at t) (chain k (home s) q)"
      if dead: "dead_at (tab_at t) l'" and r: "reach k (tab_at t) (home s) l'" for l'
    proof -
      obtain i where i: "l' = chain k (home s) i" "\<forall>j < i. tab_at t (chain k (home s) j) \<noteq> None"
        using r by (auto simp: reach_def)
      have "i \<noteq> n" using dead empty i(1) by (auto simp: dead_at_def)
      moreover have "\<not> n < i" using i(2) empty by blast
      ultimately have "i < n" by simp
      then have "q \<noteq> n" using q dead i(1) by (auto simp: first_free_def)
      then show ?thesis using q by (simp add: first_free_def)
    qed
  qed (simp_all add: eq empty)
qed

definition same_content :: "HashTable \<Rightarrow> HashTable \<Rightarrow> bool" where
  "same_content ht ht' \<longleftrightarrow> ht_table ht' = ht_table ht \<and> cchKey ht' = cchKey ht \<and> cBuckets ht' = cBuckets ht \<and>
     cItems ht' = cItems ht \<and> cDeletedItems ht' = cDeletedItems ht"

lemma same_content_parts:
  assumes "same_content ht ht'"
  shows "shape ht' k t = shape ht k t" and "counts ht' t = counts ht t" and "kof ht' = kof ht"
    and "ht_map ht' = ht_map ht" and "room k t = room k t"
proof -
  have c: "cchKey ht' = cchKey ht" and t: "ht_table ht' = ht_table ht" using assms by (auto simp: same_content_def)
  show k: "kof ht' = kof ht" by (rule key_cong [OF c])
  show "shape ht' k t = shape ht k t" using assms k by (simp add: shape_def keys_ok_def same_content_def)
  show "counts ht' t = counts ht t" using assms k by (simp add: counts_def same_content_def)
  show "ht_map ht' = ht_map ht" by (simp add: ht_map_def ht_items_def k t)
qed simp

theorem HashFind_map:
  assumes "ht_ok ht" and "is_key ht key s"
  shows "\<exists>r ht'. HashFind ht key = Some (r, ht') \<and> ht_ok ht' \<and> same_content ht ht' \<and>
    (case r of
       None \<Rightarrow> ht_map ht s = None \<and> posLastFind ht' = NoItem
     | Some p \<Rightarrow> posLastFind ht' = Item p \<and>
         (\<exists>it. item_at ht p = Some it \<and> kof ht it = Some s \<and> ht_map ht s = Some (bck_data it)))"
proof -
  obtain k t where sh: "shape ht k t" "counts ht t" "last_ok ht t"
    and half: "2 * (unat (cItems ht) + unat (cDeletedItems ht)) < 2 ^ k"
    using assms(1) by (auto simp: ht_ok_def)
  obtain key' where key: "KEY_TRUNC ht key = Some key'" "kval ht key' = Some s" "key_fit ht key'"
    using assms(2) by (auto simp: is_key_def)
  note room = ok_room [OF sh(1,2) half]
  have same: "same_content ht (ht\<lparr>posLastFind := x\<rparr>)" for x by (simp add: same_content_def)
  have ok: "ht_ok (ht\<lparr>posLastFind := x\<rparr>)" if "last_ok (ht\<lparr>posLastFind := x\<rparr>) t" for x
    unfolding ht_ok_def using sh half that same_content_parts [OF same [of x]] by auto
  have kof: "kof (ht\<lparr>posLastFind := x\<rparr>) = kof ht" for x by (rule key_cong) simp
  show ?thesis
  proof (cases "\<exists>l. found (kof ht) (tab_at t) s l")
    case True
    then obtain l where l: "found (kof ht) (tab_at t) s l" by blast
    then obtain it where it: "tab_at t l = Some it" "kof ht it = Some s" by (auto simp: found_def)
    have lk: "last_ok (ht\<lparr>posLastFind := Item (ptr_of t l)\<rparr>) t" using l by (auto simp: last_ok_def kof)
    have "item_at ht (ptr_of t l) = Some it"
      using bck_load_at [of t l it] it sh(1) by (simp add: item_at_def shape_def)
    then show ?thesis
      using Find_found [OF sh(1) room key(2,3) l, of False] ok [OF lk] same it key(1)
        ht_map_found(2) [OF sh(1) it]
      by (auto simp: HashFind_def)
  next
    case False
    then obtain e where "Find ht key' False = Some (None, e, ht\<lparr>posLastFind := NoItem\<rparr>)"
      by (auto intro: Find_missing [OF sh(1) room key(2,3), of False])
    moreover have "ht_map ht s = None" using False ht_map_found(1) [OF sh(1)] by simp
    moreover have "last_ok (ht\<lparr>posLastFind := NoItem\<rparr>) t" by (simp add: last_ok_def)
    ultimately show ?thesis using ok same key(1) by (auto simp: HashFind_def)
  qed
qed

section \<open>Insertion\<close>

text \<open>Counting, for the updates of one bucket.\<close>

lemma dead_update:
  assumes "tab_at t' = (tab_at t)(l \<mapsto> it)"
  shows "{x. dead_at (tab_at t') x} =
    (if IS_BCK_DELETED it then insert l {x. dead_at (tab_at t) x} else {x. dead_at (tab_at t) x} - {l})"
  using assms by (auto simp: dead_at_def)

lemma finite_dead [simp]: "finite {x. dead_at (tab_at t) x}"
  by (rule finite_subset [OF _ finite_tab_at [of t]]) (auto simp: dead_at_def)

lemma finite_live [simp]: "finite (live_items kf (tab_at t))"
proof -
  have "finite (ran (tab_at t))" by (rule finite_ran) simp
  then show ?thesis by (rule finite_subset [rotated]) (auto simp: live_items_def)
qed

lemma unat_Suc: "unat (x :: u64) < 2 ^ 62 \<Longrightarrow> unat (x + 1) = Suc (unat x)"
  by (simp add: unat_word_ariths)

lemma unat_pred: "0 < unat (x :: u64) \<Longrightarrow> unat (x - 1) = unat x - 1"
  by (metis unat_minus_one unat_0 less_irrefl)

text \<open>A new size is a power of two above twice the number of items and of the expected ones.\<close>

lemma new_size:
  assumes "unat c + nat (max 0 d) < 2 ^ 28" and "0 < unat c + nat (max 0 d)"
  obtains j where "NextPow2 (2 * (word_of_int (max 0 d) + c)) = Some (2 ^ j)" and "j \<le> 30"
    and "2 * (unat c + nat (max 0 d)) < 2 ^ j" and "2 ^ j \<le> 4 * (unat c + nat (max 0 d))"
proof -
  let ?m = "unat c + nat (max 0 d)"
  have "2 * (word_of_int (max 0 d) + c) = (of_nat (2 * ?m) :: u64)"
  proof -
    have "word_of_int (int (nat (max 0 d))) = (of_nat (nat (max 0 d)) :: u64)" by (rule of_int_of_nat_eq)
    then have "word_of_int (max 0 d) = (of_nat (nat (max 0 d)) :: u64)" by (simp only: int_nat_eq) simp
    then show ?thesis by (simp add: add.commute del: of_nat_nat)
  qed
  moreover have "unat (of_nat (2 * ?m) :: u64) = 2 * ?m"
    using assms(1) by (simp only: unsigned_of_nat) (simp add: take_bit_nat_eq_self)
  ultimately have u: "unat (2 * (word_of_int (max 0 d) + c)) = 2 * ?m" by (simp only:)
  obtain j where j: "NextPow2 (2 * (word_of_int (max 0 d) + c)) = Some (2 ^ j)"
    "unat (2 * (word_of_int (max 0 d) + c)) < 2 ^ j" "2 ^ j \<le> 2 * unat (2 * (word_of_int (max 0 d) + c))"
    by (rule NextPow2_eq [of "2 * (word_of_int (max 0 d) + c)"]) (use u assms in auto)
  have "(2 :: nat) ^ j < 2 ^ 31" using j(3) u assms(1) by simp
  then have "j < 31" by (rule power_less_imp_less_exp [rotated]) simp
  then show thesis using that [OF j(1)] j(2,3) u by simp
qed

text \<open>How large a table is after an operation, for its items and the expected ones.\<close>

definition sized_from :: "HashTable \<Rightarrow> HashTable \<Rightarrow> bool" where
  "sized_from ht ht' \<longleftrightarrow> (unat (cBuckets ht') < 1024 \<or> cBuckets ht' = cBuckets ht \<or>
     unat (cBuckets ht') \<le> 5 * (unat (cItems ht') + nat (max 0 (cDeltaGoalSize ht')))) \<and>
     (cDeletedItems ht = 0 \<longrightarrow> cDeletedItems ht' = 0)"

lemma sized_pow:
  assumes "shape ht' (max 6 j) t" and "2 ^ j \<le> 4 * (unat (cItems ht') + nat (max 0 (cDeltaGoalSize ht')))"
  shows "unat (cBuckets ht') < 1024 \<or>
    unat (cBuckets ht') \<le> 5 * (unat (cItems ht') + nat (max 0 (cDeltaGoalSize ht')))"
proof -
  have b: "unat (cBuckets ht') = 2 ^ max 6 j" using assms(1) unat_2p [of "max 6 j"] by (simp add: shape_def)
  show ?thesis
  proof (cases "j \<le> 6")
    case True
    then show ?thesis using b by (simp add: max_def)
  next
    case False
    then show ?thesis using b assms(2) by (simp add: max_def)
  qed
qed

text \<open>
  The common end of the insertions: the new item is in the table, which is rehashed when it
  has become too full.
\<close>

lemma grow:
  assumes sh: "shape ht k t" and c: "counts ht t" and last: "posLastFind ht = NoItem"
    and l: "tab_at t l = Some it" "kof ht it = Some s"
    and bound: "unat (cItems ht) + nat (max 0 (cDeltaGoalSize ht)) < 2 ^ 28"
    and del: "unat (cDeletedItems ht) < 2 ^ 30"
  obtains p ht' where "insert_grow ht (ptr_of t l) = Some (Some p, ht')" and "ht_ok ht'" and "ht_map ht' = ht_map ht"
    and "item_at ht' p = Some it" and "kof ht' = kof ht" and "cchKey ht' = cchKey ht"
    and "fSaveKeys ht' = fSaveKeys ht" and "cItems ht' = cItems ht" and "cDeltaGoalSize ht' = cDeltaGoalSize ht"
    and "sized_from ht ht'"
proof (cases "too_full ht \<or> cDeltaGoalSize ht < 0")
  case False
  have "\<not> too_full ht" using False by simp
  moreover have "unat (cBuckets ht) = 2 ^ k" using sh unat_2p [of k] by (simp add: shape_def)
  moreover have "unat (cItems ht + cDeletedItems ht) = unat (cItems ht) + unat (cDeletedItems ht)"
    using bound del by (simp add: unat_word_ariths)
  ultimately have "2 * (unat (cItems ht) + unat (cDeletedItems ht)) < 2 ^ k" by (simp add: too_full_def)
  then have "ht_ok ht" using sh c last unfolding ht_ok_def by (auto simp: last_ok_def)
  moreover have "item_at ht (ptr_of t l) = Some it"
    using bck_load_at [of t l it] l(1) sh by (simp add: item_at_def shape_def)
  ultimately show thesis using that [of "ptr_of t l" ht] False by (simp add: insert_grow_def sized_from_def)
next
  case True
  have oa: "oa_inv (kof ht) home k (tab_at t)" using sh by (simp add: shape_def)
  have "it \<in> live_items (kof ht) (tab_at t)" using l by (auto simp: live_items_def ran_def)
  then have pos: "0 < unat (cItems ht)"
    using c by (auto simp: counts_def card_gt_0_iff)
  obtain j where j: "NextPow2 (2 * (word_of_int (max 0 (cDeltaGoalSize ht)) + cItems ht)) = Some (2 ^ j)"
    "j \<le> 30" "2 * (unat (cItems ht) + nat (max 0 (cDeltaGoalSize ht))) < 2 ^ j"
    "2 ^ j \<le> 4 * (unat (cItems ht) + nat (max 0 (cDeltaGoalSize ht)))"
    by (rule new_size [of "cItems ht" "cDeltaGoalSize ht"]) (use bound pos in auto)
  have le: "(2 :: nat) ^ j \<le> 2 ^ max 6 j" by (intro power_increasing) auto
  have small: "card (live_items (kof ht) (tab_at t)) < 2 ^ max 6 j"
  proof -
    have "card (live_items (kof ht) (tab_at t)) = unat (cItems ht)" using c by (simp add: counts_def)
    moreover have "unat (cItems ht) < 2 ^ j" using j(3) by simp
    ultimately show ?thesis using less_le_trans [OF _ le] by simp
  qed
  have w: "Some l = None \<or> (\<exists>m s. Some l = Some m \<and> found (kof ht) (tab_at t) s m)"
    using l by (auto simp: found_def)
  obtain r ht' t' where re: "Rehash ht (2 ^ j) (map_option (ptr_of t) (Some l)) = Some (r, ht')"
    "shape ht' (max 6 j) t'" "kof ht' = kof ht"
    "live_items (kof ht) (tab_at t') = live_items (kof ht) (tab_at t)"
    "{l. dead_at (tab_at t') l} = {}"
    "cDeletedItems ht' = 0" "cItems ht' = cItems ht" "cchKey ht' = cchKey ht"
    "fSaveKeys ht' = fSaveKeys ht" "cDeltaGoalSize ht' = cDeltaGoalSize ht"
    "posLastFind ht' = posLastFind ht"
    "\<forall>m. Some l = Some m \<longrightarrow> (\<exists>l'. r = Some (ptr_of t' l') \<and> tab_at t' l' = tab_at t m)"
    by (rule Rehash_eq [OF sh j(2) small w])
  obtain l' where l': "r = Some (ptr_of t' l')" "tab_at t' l' = Some it" using re(12) l(1) by auto
  have "counts ht' t'" using c re(3-7) by (simp add: counts_def)
  moreover have "2 * (unat (cItems ht') + unat (cDeletedItems ht')) < 2 ^ max 6 j"
  proof -
    have "cDeletedItems ht' = 0" "cItems ht' = cItems ht" by (fact re(6), fact re(7))
    moreover have "2 * unat (cItems ht) < 2 ^ j" using j(3) by simp
    ultimately show ?thesis using less_le_trans [OF _ le] by simp
  qed
  ultimately have "ht_ok ht'"
    using re(2,11) last unfolding ht_ok_def by (auto simp: last_ok_def)
  moreover have "item_at ht' (ptr_of t' l') = Some it"
    using bck_load_at [of t' l' it] l'(2) re(2) by (simp add: item_at_def shape_def)
  moreover have "ht_map ht' = ht_map ht" by (rule ht_map_same [OF sh re(2,3,4)])
  moreover have "sized_from ht ht'"
    using sized_pow [OF re(2)] j(4) re(6,7,10) by (auto simp: sized_from_def)
  ultimately show thesis
    using that [of "ptr_of t' l'" ht'] re True j(1) l'(1) by (simp add: insert_grow_def)
qed

text \<open>Marking, reusing and filling a bucket, with the counts.\<close>

lemma counts_fill:
  assumes sh: "shape ht k t" and c: "counts ht t" and it: "kof ht it = Some s"
    and new: "\<And>x. \<not> found (kof ht) (tab_at t) s x" and r: "reach k (tab_at t) (home s) l"
    and l: "tab_at t l = None \<or> dead_at (tab_at t) l"
    and t': "tab_ok t'" "length t' = length t" "tab_at t' = (tab_at t)(l \<mapsto> it)"
    and small: "unat (cItems ht) < 2 ^ 62"
    and ht': "ht' = ht\<lparr>ht_table := Some t', posLastFind := NoItem, cItems := cItems ht + 1,
      cDeletedItems := (if dead_at (tab_at t) l then cDeletedItems ht - 1 else cDeletedItems ht),
      cDeltaGoalSize := d\<rparr>"
  shows "shape ht' k t'" and "counts ht' t'" and "kof ht' = kof ht"
    and "live_items (kof ht) (tab_at t') = insert it (live_items (kof ht) (tab_at t))"
    and "unat (cItems ht') = Suc (unat (cItems ht))"
proof -
  note sd = sh [unfolded shape_def]
  show k: "kof ht' = kof ht" unfolding ht' by (rule key_cong) simp
  have nf: "\<not> found (kof ht) (tab_at t) s' l" for s'
    using l by (auto simp: found_def dead_at_def kof_def)
  have nl: "\<not> IS_BCK_DELETED it" using it by (auto simp: kof_def split: if_splits)
  have oa: "oa_inv (kof ht) home k (tab_at t)" using sd by simp
  note put = oa_put [OF oa _ it r nf, folded t'(3)]
  have n': "\<not> (\<exists>l. found (kof ht) (tab_at t) s l)" using new by blast
  show live: "live_items (kof ht) (tab_at t') = insert it (live_items (kof ht) (tab_at t))"
    by (rule put(2) [OF n'])
  show "shape ht' k t'"
    unfolding shape_def k using sd t' put(1) [OF n'] it
    by (auto simp: ht' keys_ok_def k [unfolded ht'] split: if_splits)
  show u: "unat (cItems ht') = Suc (unat (cItems ht))" using small by (simp add: ht' unat_Suc)
  have notin: "it \<notin> live_items (kof ht) (tab_at t)"
    using new it by (auto simp: live_items_def ran_def found_def)
  have dead: "{x. dead_at (tab_at t') x} = {x. dead_at (tab_at t) x} - {l}"
    using dead_update [OF t'(3)] nl by simp
  have "unat (cDeletedItems ht') = card {x. dead_at (tab_at t') x}"
  proof (cases "dead_at (tab_at t) l")
    case True
    then have "0 < card {x. dead_at (tab_at t) x}" by (auto simp: card_gt_0_iff)
    then show ?thesis using c True unat_pred [of "cDeletedItems ht"] unfolding dead
      by (simp add: ht' counts_def)
  next
    case False
    then show ?thesis using c unfolding dead by (simp add: ht' counts_def)
  qed
  then show "counts ht' t'" using c u notin unfolding counts_def k live by simp
qed

lemma fill_dead:
  assumes c: "counts ht t" "counts ht' t'" and t': "tab_at t' = (tab_at t)(l \<mapsto> it)" and it: "kof ht it = Some s"
  shows "unat (cDeletedItems ht') \<le> unat (cDeletedItems ht)"
proof -
  have "unat (cDeletedItems ht') = card {x. dead_at (tab_at t') x}" using c(2) by (simp add: counts_def)
  also have "\<dots> \<le> card {x. dead_at (tab_at t) x}"
    unfolding dead_update [OF t'] using it by (auto simp: kof_def intro!: card_mono split: if_splits)
  also have "\<dots> = unat (cDeletedItems ht)" using c(1) by (simp add: counts_def)
  finally show ?thesis .
qed

lemma live_unique:
  assumes "oa_inv kf home k m" and "m l = Some it" and "kf it = Some s"
    and "x \<in> live_items kf m" and "kf x = Some s"
  shows "x = it"
proof -
  obtain l' where l': "m l' = Some x" using assms(4) by (auto simp: live_items_def ran_def)
  then have "l' = l" using assms(1-3,5) unfolding oa_inv_def found_def by blast
  then show ?thesis using l' assms(2) by simp
qed

lemma counts_replace:
  assumes sh: "shape ht k t" and c: "counts ht t" and l: "tab_at t l = Some it" "kof ht it = Some s"
    and kit: "kof ht it' = Some s"
    and t': "tab_ok t'" "length t' = length t" "tab_at t' = (tab_at t)(l \<mapsto> it')"
    and ht': "ht' = ht\<lparr>posLastFind := NoItem, ht_table := Some t'\<rparr>"
  shows "shape ht' k t'" and "counts ht' t'" and "kof ht' = kof ht"
    and "ht_map ht' = (ht_map ht)(s \<mapsto> bck_data it')"
proof -
  note sd = sh [unfolded shape_def]
  have oa: "oa_inv (kof ht) home k (tab_at t)" using sd by simp
  have f: "found (kof ht) (tab_at t) s l" using l by (simp add: found_def)
  show k: "kof ht' = kof ht" unfolding ht' by (rule key_cong) simp
  let ?L = "live_items (kof ht) (tab_at t)"
  have live: "live_items (kof ht) (tab_at t') = insert it' (?L - {it})"
    using live_items_replace [OF oa l, of it'] kit unfolding t'(3) by simp
  have "oa_inv (kof ht) home k (tab_at t')"
    unfolding t'(3) by (rule oa_keep [OF oa]) (use l kit in auto)
  then show sh': "shape ht' k t'"
    using sd t' kit by (auto simp: ht' shape_def k [unfolded ht'] keys_ok_def split: if_splits)
  have uq: "x = it" if "x \<in> ?L" "kof ht x = Some s" for x
    using live_unique [OF oa l] that by blast
  have inl: "it \<in> ?L" using l by (auto simp: live_items_def ran_def)
  have "it' \<notin> ?L - {it}" using uq [of it'] kit by auto
  then have "card (live_items (kof ht) (tab_at t')) = card ?L"
    unfolding live using card_Suc_Diff1 [OF finite_live inl] by simp
  moreover have "{x. dead_at (tab_at t') x} = {x. dead_at (tab_at t) x}"
    using dead_update [OF t'(3)] kit l by (auto simp: kof_def dead_at_def split: if_splits)
  ultimately show "counts ht' t'" using c by (simp add: counts_def k) (simp add: ht')
  show "ht_map ht' = (ht_map ht)(s \<mapsto> bck_data it')"
  proof (rule map_eqI)
    fix s' d'
    show "ht_map ht' s' = Some d' \<longleftrightarrow> ((ht_map ht)(s \<mapsto> bck_data it')) s' = Some d'"
    proof (cases "s' = s")
      case True
      then show ?thesis unfolding ht_map_iff [OF sh'] k live using kit by (auto dest: uq)
    next
      case False
      then show ?thesis
        unfolding ht_map_iff [OF sh'] k live using ht_map_iff [OF sh, of s' d'] kit l(2) by auto
    qed
  qed
qed

text \<open>
  \<open>HashInsert\<close> of a key that is there replaces its data. The data value \<open>DELETED\<close> is reserved.
\<close>

lemma HashInsert_old:
  assumes sh: "shape ht k t" "counts ht t" and half: "2 * (unat (cItems ht) + unat (cDeletedItems ht)) < 2 ^ k"
    and key': "KEY_TRUNC ht key = Some key'" "kval ht key' = Some s" "key_fit ht key'" and d: "d \<noteq> DELETED"
    and l: "found (kof ht) (tab_at t) s l"
  shows "\<exists>p ht' it. HashInsert ht key d = Some (Some p, ht') \<and> ht_ok ht' \<and>
    ht_map ht' = (ht_map ht)(s \<mapsto> d) \<and> item_at ht' p = Some it \<and> kof ht' it = Some s \<and> bck_data it = d \<and>
    cchKey ht' = cchKey ht \<and> fSaveKeys ht' = fSaveKeys ht \<and> cItems ht' = cItems ht \<and>
    cDeltaGoalSize ht' = cDeltaGoalSize ht \<and> sized_from ht ht'"
proof -
  have tok: "tab_ok t" and tab: "ht_table ht = Some t" using sh(1) by (auto simp: shape_def)
  note room = ok_room [OF sh half]
  obtain it where it: "tab_at t l = Some it" "kof ht it = Some s" using l by (auto simp: found_def)
  let ?it = "it\<lparr>bck_data := d\<rparr>"
  have kit: "kof ht ?it = Some s" using it d by (auto simp: kof_def IS_BCK_DELETED_def split: if_splits)
  obtain t' where t': "bck_store t (ptr_of t l) ?it = Some t'" "tab_ok t'"
    "tab_at t' = (tab_at t)(l \<mapsto> ?it)" "length t' = length t" "ptr_of t' = ptr_of t"
    by (rule bck_store_at [OF tok it(1)])
  let ?ht = "ht\<lparr>posLastFind := NoItem, ht_table := Some t'\<rparr>"
  note rep = counts_replace [OF sh it kit t'(2,4,3) refl]
  have "ht_ok ?ht" unfolding ht_ok_def using rep(1,2) half by (auto simp: last_ok_def)
  moreover obtain e where "Find ht key' True = Some (Some (ptr_of t l), e, ht\<lparr>posLastFind := Item (ptr_of t l)\<rparr>)"
    using Find_found [OF sh(1) room key'(2,3) l] by blast
  then have "HashInsert ht key d = Some (Some (ptr_of t l), ?ht)"
    using tab key'(1) bck_load_at [OF tok it(1)] t'(1) by (simp add: HashInsert_def Insert_def)
  moreover have "item_at ?ht (ptr_of t l) = Some ?it"
    using bck_load_at [OF t'(2), of l ?it] t'(3,5) by (simp add: item_at_def)
  ultimately show ?thesis using rep(4) kit rep(3)
    by (intro exI [of _ "ptr_of t l"] exI [of _ ?ht] exI [of _ ?it]) (simp add: sized_from_def)
qed

text \<open>A new key takes an empty or a deleted bucket; the table may grow.\<close>

lemma HashInsert_new:
  assumes sh: "shape ht k t" "counts ht t" and half: "2 * (unat (cItems ht) + unat (cDeletedItems ht)) < 2 ^ k"
    and key': "KEY_TRUNC ht key = Some key'" "kval ht key' = Some s" "key_fit ht key'" and d: "d \<noteq> DELETED"
    and bound: "unat (cItems ht) + nat (max 0 (cDeltaGoalSize ht)) < 2 ^ 28 - 1"
    and miss: "\<And>l. \<not> found (kof ht) (tab_at t) s l"
  shows "\<exists>p ht' it. HashInsert ht key d = Some (Some p, ht') \<and> ht_ok ht' \<and>
    ht_map ht' = (ht_map ht)(s \<mapsto> d) \<and> item_at ht' p = Some it \<and> kof ht' it = Some s \<and> bck_data it = d \<and>
    cchKey ht' = cchKey ht \<and> fSaveKeys ht' = fSaveKeys ht \<and> unat (cItems ht') = Suc (unat (cItems ht)) \<and>
    cDeltaGoalSize ht' = (if 0 < cDeltaGoalSize ht then cDeltaGoalSize ht - 1 else cDeltaGoalSize ht) \<and>
    sized_from ht ht'"
proof -
  note sd = sh(1) [unfolded shape_def]
  have tok: "tab_ok t" and tab: "ht_table ht = Some t" using sd by auto
  note room = ok_room [OF sh half]
  have k30: "(2 :: nat) ^ k \<le> 1073741824" using sd power_increasing [of k 30 "2 :: nat"] by simp
  obtain l where F: "Find ht key' True = Some (None, Some (of_nat l), ht\<lparr>posLastFind := NoItem\<rparr>)"
    and l: "l < 2 ^ k" "reach k (tab_at t) (home s) l" "tab_at t l = None \<or> dead_at (tab_at t) l"
    using Find_missing [OF sh(1) room key'(2,3) miss, of True] by auto
  have ul: "unat (of_nat l :: u64) = l"
    using l(1) k30 by (simp add: unsigned_of_nat take_bit_nat_eq_self)
  let ?h1 = "ht\<lparr>posLastFind := NoItem\<rparr>"
  have k1: "kval ?h1 = kval ht" "key_fit ?h1 = key_fit ht" by (rule key_cong, simp)+
  obtain ck where ck: "COPY_KEY ?h1 key' = Some ck" "kval ht ck = Some s" "key_fit ht ck"
    using COPY_KEY_val [of ?h1 key' s] key'(2,3) unfolding k1 by blast
  let ?it = "\<lparr>bck_data = d, bck_key = ck\<rparr>"
  have kit: "kof ht ?it = Some s" using ck d by (simp add: kof_def IS_BCK_DELETED_def)
  obtain t' where t': "SparseInsert t ?it (of_nat l) True = Some (ptr_of t' l, dead_at (tab_at t) l, t')"
    "tab_ok t'" "tab_at t' = (tab_at t)(l \<mapsto> ?it)" "length t' = length t"
  proof (cases "tab_at t l")
    case None
    then have "\<not> dead_at (tab_at t) l" by (simp add: dead_at_def)
    have "unat (of_nat l :: u64) < 64 * length t" "tab_at t (unat (of_nat l :: u64)) = None"
      using None l(1) sd by (simp_all add: ul)
    then obtain t' where "SparseInsert t ?it (of_nat l) True = Some (ptr_of t' (unat (of_nat l :: u64)), False, t')"
      "tab_ok t'" "tab_at t' = (tab_at t)(unat (of_nat l :: u64) \<mapsto> ?it)" "length t' = length t"
      by (rule SparseInsert_empty [OF tok])
    then show thesis using \<open>\<not> dead_at (tab_at t) l\<close> by (intro that [of t']) (simp_all add: ul)
  next
    case (Some y)
    then have "dead_at (tab_at t) l" using l(3) by simp
    have "tab_at t (unat (of_nat l :: u64)) = Some y" using Some by (simp add: ul)
    then obtain t' where "SparseInsert t ?it (of_nat l) True = Some (ptr_of t' (unat (of_nat l :: u64)), True, t')"
      "tab_ok t'" "tab_at t' = (tab_at t)(unat (of_nat l :: u64) \<mapsto> ?it)" "length t' = length t"
      by (rule SparseInsert_over [OF tok])
    then show thesis using \<open>dead_at (tab_at t) l\<close> by (intro that [of t']) (simp_all add: ul)
  qed
  let ?d = "if 0 < cDeltaGoalSize ht then cDeltaGoalSize ht - 1 else cDeltaGoalSize ht"
  define h2 where "h2 = ht\<lparr>ht_table := Some t', posLastFind := NoItem, cItems := cItems ht + 1,
    cDeletedItems := (if dead_at (tab_at t) l then cDeletedItems ht - 1 else cDeletedItems ht),
    cDeltaGoalSize := ?d\<rparr>"
  have small: "unat (cItems ht) < 2 ^ 62" using bound by simp
  note fill = counts_fill [OF sh kit miss l(2,3) t'(2,4,3) small h2_def]
  have at: "tab_at t' l = Some ?it" by (simp add: t'(3))
  have b2: "unat (cItems h2) + nat (max 0 (cDeltaGoalSize h2)) < 2 ^ 28"
  proof -
    have "nat (max 0 (cDeltaGoalSize h2)) \<le> nat (max 0 (cDeltaGoalSize ht))"
      by (intro nat_mono) (simp add: h2_def)
    then show ?thesis using fill(5) bound by linarith
  qed
  have del_le: "unat (cDeletedItems h2) \<le> unat (cDeletedItems ht)" by (rule fill_dead [OF sh(2) fill(2) t'(3) kit])
  have del: "unat (cDeletedItems h2) < 2 ^ 30"
  proof -
    note del_le
    also have "\<dots> < 2 ^ k" using half by simp
    also have "\<dots> \<le> 2 ^ 30" using k30 by simp
    finally show ?thesis .
  qed
  have kit2: "kof h2 ?it = Some s" using kit fill(3) by simp
  have last2: "posLastFind h2 = NoItem" by (simp add: h2_def)
  obtain p h3 where g: "insert_grow h2 (ptr_of t' l) = Some (Some p, h3)"
    and h3: "ht_ok h3" "ht_map h3 = ht_map h2" "item_at h3 p = Some ?it" "kof h3 = kof h2"
      "cchKey h3 = cchKey h2" "fSaveKeys h3 = fSaveKeys h2" "cItems h3 = cItems h2"
      "cDeltaGoalSize h3 = cDeltaGoalSize h2" "sized_from h2 h3"
    by (rule grow [OF fill(1,2) last2 at kit2 b2 del])
  have "HashInsert ht key d = Some (Some p, h3)"
  proof -
    have "h2 = ?h1\<lparr>ht_table := Some t',
      cDeletedItems := (if dead_at (tab_at t) l then cDeletedItems ?h1 - 1 else cDeletedItems ?h1),
      cItems := cItems ?h1 + 1,
      cDeltaGoalSize := (if 0 < cDeltaGoalSize ?h1 then cDeltaGoalSize ?h1 - 1 else cDeltaGoalSize ?h1)\<rparr>"
      by (simp add: h2_def)
    note g [unfolded this]
    moreover have "?h1\<lparr>posLastFind := NoItem\<rparr> = ?h1" by simp
    ultimately show ?thesis unfolding HashInsert_def Insert_def tab
      by (simp only: bind.bind_lunit prod.case option.case key'(1) F ck(1) t'(1) Let_def)
  qed
  moreover have "ht_map h2 = (ht_map ht)(s \<mapsto> d)"
  proof (rule map_eqI)
    fix s' d'
    show "ht_map h2 s' = Some d' \<longleftrightarrow> ((ht_map ht)(s \<mapsto> d)) s' = Some d'"
      unfolding ht_map_iff [OF fill(1)] fill(3,4)
      using ht_map_iff [OF sh(1), of s' d'] kit miss by (auto simp: live_items_def ran_def found_def)
  qed
  moreover have "sized_from ht h3"
  proof -
    have "cDeletedItems ht = 0 \<longrightarrow> cDeletedItems h2 = 0"
      using del_le by (metis le_zero_eq unat_0 unsigned_eq_0_iff)
    moreover have "cBuckets h2 = cBuckets ht" by (simp add: h2_def)
    ultimately show ?thesis using h3(9) by (auto simp: sized_from_def)
  qed
  ultimately show ?thesis using h3(1-8) fill(3,5) kit
    by (intro exI [of _ p] exI [of _ h3] exI [of _ ?it]) (simp add: h2_def)
qed

text \<open>\<open>HashInsert\<close> is the update of the map.\<close>

theorem HashInsert_map:
  assumes "ht_ok ht" and key: "is_key ht key s" and d: "d \<noteq> DELETED"
    and bound: "unat (cItems ht) + nat (max 0 (cDeltaGoalSize ht)) < 2 ^ 28 - 1"
  shows "\<exists>p ht' it. HashInsert ht key d = Some (Some p, ht') \<and> ht_ok ht' \<and>
    ht_map ht' = (ht_map ht)(s \<mapsto> d) \<and> item_at ht' p = Some it \<and> kof ht' it = Some s \<and> bck_data it = d \<and>
    cchKey ht' = cchKey ht \<and> fSaveKeys ht' = fSaveKeys ht \<and>
    unat (cItems ht') = unat (cItems ht) + (if ht_map ht s = None then 1 else 0) \<and>
    cDeltaGoalSize ht' = (if ht_map ht s = None \<and> 0 < cDeltaGoalSize ht then cDeltaGoalSize ht - 1 else cDeltaGoalSize ht) \<and>
    sized_from ht ht'"
proof -
  obtain k t where sh: "shape ht k t" "counts ht t"
    and half: "2 * (unat (cItems ht) + unat (cDeletedItems ht)) < 2 ^ k"
    using assms(1) by (auto simp: ht_ok_def)
  obtain key' where key': "KEY_TRUNC ht key = Some key'" "kval ht key' = Some s" "key_fit ht key'"
    using key by (auto simp: is_key_def)
  show ?thesis
  proof (cases "\<exists>l. found (kof ht) (tab_at t) s l")
    case True
    then obtain l where l: "found (kof ht) (tab_at t) s l" by blast
    moreover have "ht_map ht s \<noteq> None" using ht_map_found(1) [OF sh(1)] l by blast
    ultimately show ?thesis using HashInsert_old [OF sh half key' d l] by auto
  next
    case False
    then have miss: "\<not> found (kof ht) (tab_at t) s l" for l by blast
    moreover have "ht_map ht s = None" using ht_map_found(1) [OF sh(1)] miss by simp
    ultimately show ?thesis using HashInsert_new [OF sh half key' d bound miss] by auto
  qed
qed

end
