(* ===== verification/HashDelete.thy ===== *)
theory HashDelete
  imports HashRefine
begin

text \<open>
  Deletion, and the operations that set a table up, empty it or size it.
\<close>

section \<open>Deletion\<close>

lemma counts_mark:
  assumes sh: "shape ht k t" and c: "counts ht t" and l: "tab_at t l = Some it" "kof ht it = Some s"
    and dead: "IS_BCK_DELETED it'"
    and t': "tab_ok t'" "length t' = length t" "tab_at t' = (tab_at t)(l \<mapsto> it')"
    and small: "unat (cDeletedItems ht) < 2 ^ 62"
    and ht': "ht' = ht\<lparr>ht_table := Some t', cItems := cItems ht - 1,
      cDeletedItems := cDeletedItems ht + 1, cDeltaGoalSize := d\<rparr>"
  shows "shape ht' k t'" and "counts ht' t'" and "kof ht' = kof ht"
    and "ht_map ht' = (ht_map ht)(s := None)"
    and "Suc (unat (cItems ht')) = unat (cItems ht)" and "unat (cDeletedItems ht') = Suc (unat (cDeletedItems ht))"
proof -
  note sd = sh [unfolded shape_def]
  have oa: "oa_inv (kof ht) home k (tab_at t)" using sd by simp
  show k: "kof ht' = kof ht" unfolding ht' by (rule key_cong) simp
  have kit: "kof ht it' = None" using dead by (simp add: kof_def)
  let ?L = "live_items (kof ht) (tab_at t)"
  have live: "live_items (kof ht) (tab_at t') = ?L - {it}"
    using live_items_replace [OF oa l, of it'] kit unfolding t'(3) by simp
  have "oa_inv (kof ht) home k (tab_at t')"
    unfolding t'(3) by (rule oa_keep [OF oa]) (use l kit in auto)
  then show sh': "shape ht' k t'"
    using sd t' dead by (auto simp: ht' shape_def k [unfolded ht'] keys_ok_def split: if_splits)
  have inl: "it \<in> ?L" using l by (auto simp: live_items_def ran_def)
  have pos: "0 < card ?L" using inl by (auto simp: card_gt_0_iff)
  have ci: "unat (cItems ht) = card ?L" "unat (cDeletedItems ht) = card {x. dead_at (tab_at t) x}"
    using c by (auto simp: counts_def)
  show u: "Suc (unat (cItems ht')) = unat (cItems ht)"
    using pos ci(1) unat_pred [of "cItems ht"] by (simp add: ht')
  show v: "unat (cDeletedItems ht') = Suc (unat (cDeletedItems ht))"
    using small unat_Suc [of "cDeletedItems ht"] by (simp add: ht')
  have nd: "l \<notin> {x. dead_at (tab_at t) x}" using l by (auto simp: dead_at_def kof_def)
  have "unat (cItems ht') = card (?L - {it})" using u ci(1) card_Suc_Diff1 [OF finite_live inl] by simp
  moreover have "unat (cDeletedItems ht') = card {x. dead_at (tab_at t') x}"
    unfolding v ci(2) using dead_update [OF t'(3)] dead nd by simp
  ultimately show "counts ht' t'" by (simp add: counts_def k live)
  show "ht_map ht' = (ht_map ht)(s := None)"
  proof (rule map_eqI)
    fix s' d'
    show "ht_map ht' s' = Some d' \<longleftrightarrow> ((ht_map ht)(s := None)) s' = Some d'"
    proof (cases "s' = s")
      case True
      then show ?thesis unfolding ht_map_iff [OF sh'] k live by (auto dest: live_unique [OF oa l])
    next
      case False
      then show ?thesis unfolding ht_map_iff [OF sh'] k live using ht_map_iff [OF sh, of s' d'] l(2) by auto
    qed
  qed
qed

text \<open>\<open>delete_last\<close> up to its end.\<close>

definition marked :: "HashTable \<Rightarrow> HTItem SparseBin list \<Rightarrow> HashTable" where
  "marked ht t = ht\<lparr>ht_table := Some t, cItems := cItems ht - 1, cDeletedItems := cDeletedItems ht + 1,
     cDeltaGoalSize := (if cDeltaGoalSize ht < 0 then cDeltaGoalSize ht + 1 else cDeltaGoalSize ht)\<rparr>"

lemma marked_simps [simp]:
  "ht_table (marked ht t) = Some t" "cBuckets (marked ht t) = cBuckets ht" "cchKey (marked ht t) = cchKey ht"
  "fSaveKeys (marked ht t) = fSaveKeys ht" "posLastFind (marked ht t) = posLastFind ht"
  "cDeltaGoalSize (marked ht t) = (if cDeltaGoalSize ht < 0 then cDeltaGoalSize ht + 1 else cDeltaGoalSize ht)"
  "cItems (marked ht t) = cItems ht - 1"
  by (simp_all add: marked_def)

lemma delete_last_marks:
  assumes sh: "shape ht k t" "counts ht t" and half: "2 * (unat (cItems ht) + unat (cDeletedItems ht)) < 2 ^ k"
    and last: "posLastFind ht = Item (ptr_of t l)" and l: "tab_at t l = Some it" "kof ht it = Some s"
  obtains t' it' where "\<And>f. delete_last ht f = do {
        h \<leftarrow> delete_shrink (marked ht t') f;
        Some (1, h\<lparr>posLastFind := NoItem\<rparr>) }"
    and "shape (marked ht t') k t'" and "counts (marked ht t') t'"
    and "ht_map (marked ht t') = (ht_map ht)(s := None)"
    and "Suc (unat (cItems ht - 1)) = unat (cItems ht)"
    and "2 * (unat (cItems (marked ht t')) + unat (cDeletedItems (marked ht t'))) < 2 ^ k"
    and "tab_at t' = (tab_at t)(l \<mapsto> it')" and "IS_BCK_DELETED it'"
proof -
  have tok: "tab_ok t" and tab: "ht_table ht = Some t" and k: "k \<le> 30" using sh(1) by (auto simp: shape_def)
  have kv: "kval ht (bck_key it) = Some s" using l(2) by (auto simp: kof_def split: if_splits)
  obtain k' where fk: "FREE_KEY ht (bck_key it) = Some k'" using FREE_KEY_val [OF kv] by blast
  let ?it = "it\<lparr>bck_data := DELETED, bck_key := k'\<rparr>"
  have dead: "IS_BCK_DELETED ?it" by (simp add: IS_BCK_DELETED_def)
  obtain t' where t': "bck_store t (ptr_of t l) ?it = Some t'" "tab_ok t'"
    "tab_at t' = (tab_at t)(l \<mapsto> ?it)" "length t' = length t"
    using bck_store_at [OF tok l(1), of ?it] by metis
  have small: "unat (cDeletedItems ht) < 2 ^ 62"
  proof -
    have "unat (cDeletedItems ht) < 2 ^ k" using half by simp
    also have "(2 :: nat) ^ k \<le> 2 ^ 62" using k by (intro power_increasing) auto
    finally show ?thesis .
  qed
  note mk = counts_mark [OF sh l dead t'(2,4,3) small marked_def]
  have "2 * (unat (cItems (marked ht t')) + unat (cDeletedItems (marked ht t'))) < 2 ^ k"
    unfolding mk(6) add_Suc_right add_Suc [symmetric] mk(5) by (rule half)
  moreover have "delete_last ht f = do {
        h \<leftarrow> delete_shrink (marked ht t') f;
        Some (1, h\<lparr>posLastFind := NoItem\<rparr>) }" for f
    using last tab bck_load_at [OF tok l(1)] fk t'(1)
    by (simp add: delete_last_def SET_BCK_DELETED_def marked_def)
  ultimately show thesis using that [of t' ?it] mk(1,2,4,5) t'(3) dead by simp
qed

text \<open>The end of \<open>Delete\<close>. A table of no expected items must not shrink: it would have no bucket.\<close>

lemma delete_shrink_ok:
  assumes sh: "shape ht k t" "counts ht t" and half: "2 * (unat (cItems ht) + unat (cDeletedItems ht)) < 2 ^ k"
    and bound: "unat (cItems ht) + nat (max 0 (cDeltaGoalSize ht)) < 2 ^ 28"
    and some: "too_big ht \<Longrightarrow> 0 < unat (cItems ht) + nat (max 0 (cDeltaGoalSize ht))"
  obtains ht' where "delete_shrink ht True = Some ht'" and "ht_ok (ht'\<lparr>posLastFind := NoItem\<rparr>)"
    and "ht_map ht' = ht_map ht" and "cchKey ht' = cchKey ht" and "fSaveKeys ht' = fSaveKeys ht"
    and "cItems ht' = cItems ht" and "cDeltaGoalSize ht' = cDeltaGoalSize ht"
    and "unat (cBuckets ht') < 1024 \<or> unat (cBuckets ht') \<le> 5 * (unat (cItems ht) + nat (max 0 (cDeltaGoalSize ht)))
      \<or> cDeltaGoalSize ht < 0"
    and "cDeltaGoalSize ht < 0 \<longrightarrow> cBuckets ht' = cBuckets ht"
proof (cases "too_big ht")
  case False
  have "ht_ok (ht\<lparr>posLastFind := NoItem\<rparr>)"
  proof -
    have "same_content ht (ht\<lparr>posLastFind := NoItem\<rparr>)" by (simp add: same_content_def)
    note same_content_parts [OF this]
    then show ?thesis unfolding ht_ok_def using sh half by (auto simp: last_ok_def)
  qed
  moreover have "unat (cBuckets ht) < 1024 \<or> unat (cBuckets ht) \<le> 5 * unat (cItems ht) \<or> cDeltaGoalSize ht < 0"
  proof -
    have "unat (drop_bit 1 (cBuckets ht)) = unat (cBuckets ht) div 2"
      by (simp add: drop_bit_eq_div unat_div)
    then show ?thesis using False by (auto simp: too_big_def MIN_HASH_SIZE_def word_le_nat_alt)
  qed
  ultimately show thesis using that [of ht] False by (auto simp: delete_shrink_def)
next
  case True
  have d0: "0 \<le> cDeltaGoalSize ht" using True by (simp add: too_big_def)
  obtain j where j: "NextPow2 (2 * (word_of_int (max 0 (cDeltaGoalSize ht)) + cItems ht)) = Some (2 ^ j)"
    "j \<le> 30" "2 * (unat (cItems ht) + nat (max 0 (cDeltaGoalSize ht))) < 2 ^ j"
    "2 ^ j \<le> 4 * (unat (cItems ht) + nat (max 0 (cDeltaGoalSize ht)))"
    by (rule new_size [OF bound some [OF True]])
  have np: "NextPow2 (2 * (cItems ht + word_of_int (cDeltaGoalSize ht))) = Some (2 ^ j)"
    using j(1) d0 by (simp add: max_absorb2 add.commute)
  have le: "(2 :: nat) ^ j \<le> 2 ^ max 6 j" by (intro power_increasing) auto
  have c2: "2 * unat (cItems ht) < 2 ^ max 6 j"
    using j(3) by (intro less_le_trans [OF _ le]) simp
  have small: "card (live_items (kof ht) (tab_at t)) < 2 ^ max 6 j" using c2 sh(2) by (simp add: counts_def)
  have w: "None = None \<or> (\<exists>l s. None = Some l \<and> found (kof ht) (tab_at t) s l)" by simp
  obtain r ht' t' where re: "Rehash ht (2 ^ j) (map_option (ptr_of t) None) = Some (r, ht')"
    "shape ht' (max 6 j) t'" "kof ht' = kof ht"
    "live_items (kof ht) (tab_at t') = live_items (kof ht) (tab_at t)"
    "{l. dead_at (tab_at t') l} = {}"
    "cDeletedItems ht' = 0" "cItems ht' = cItems ht" "cchKey ht' = cchKey ht"
    "fSaveKeys ht' = fSaveKeys ht" "cDeltaGoalSize ht' = cDeltaGoalSize ht"
    "posLastFind ht' = posLastFind ht"
    by (rule Rehash_eq [OF sh(1) j(2) small w]) blast
  have c': "counts ht' t'" using sh(2) re(3-7) by (simp add: counts_def)
  have "same_content ht' (ht'\<lparr>posLastFind := NoItem\<rparr>)" by (simp add: same_content_def)
  note sc = same_content_parts [OF this]
  have "ht_ok (ht'\<lparr>posLastFind := NoItem\<rparr>)"
    unfolding ht_ok_def using sc(1,2) re(2,6,7) c' c2 by (auto simp: last_ok_def)
  moreover note sized_pow [OF re(2)]
  ultimately show thesis
    using that [of ht'] re True np j(4) d0 ht_map_same [OF sh(1) re(2,3,4)] by (auto simp: delete_shrink_def)
qed

text \<open>A last item whose deletion would leave a large table with no expected item.\<close>

definition shrinks_away :: "HashTable \<Rightarrow> bool" where
  "shrinks_away ht \<longleftrightarrow> unat (cItems ht) = 1 \<and> (cDeltaGoalSize ht = 0 \<or> cDeltaGoalSize ht = -1) \<and>
     1024 \<le> unat (cBuckets ht)"

lemma half_less: "512 \<le> drop_bit 1 (x :: u64) \<Longrightarrow> 1024 \<le> unat x"
proof -
  assume "512 \<le> drop_bit 1 x"
  moreover have "unat (drop_bit 1 x) = unat x div 2" by (simp add: drop_bit_eq_div unat_div)
  ultimately show ?thesis by (simp add: word_le_nat_alt)
qed

lemma delete_last_ok:
  assumes sh: "shape ht k t" "counts ht t" and half: "2 * (unat (cItems ht) + unat (cDeletedItems ht)) < 2 ^ k"
    and last: "posLastFind ht = Item (ptr_of t l)" and l: "tab_at t l = Some it" "kof ht it = Some s"
    and bound: "unat (cItems ht) + nat (max 0 (cDeltaGoalSize ht)) < 2 ^ 28" and keep: "\<not> shrinks_away ht"
  obtains ht' where "delete_last ht True = Some (1, ht')" and "ht_ok ht'"
    and "ht_map ht' = (ht_map ht)(s := None)" and "cchKey ht' = cchKey ht" and "fSaveKeys ht' = fSaveKeys ht"
    and "Suc (unat (cItems ht')) = unat (cItems ht)" and "posLastFind ht' = NoItem"
    and "cDeltaGoalSize ht' = (if cDeltaGoalSize ht < 0 then cDeltaGoalSize ht + 1 else cDeltaGoalSize ht)"
    and "cDeltaGoalSize ht = 0 \<longrightarrow> unat (cBuckets ht') < 1024 \<or> unat (cBuckets ht') \<le> 5 * unat (cItems ht')"
    and "cDeltaGoalSize ht < -1 \<longrightarrow> cBuckets ht' = cBuckets ht"
proof -
  obtain t' it' where dl: "\<And>f. delete_last ht f = do {
        h \<leftarrow> delete_shrink (marked ht t') f;
        Some (1, h\<lparr>posLastFind := NoItem\<rparr>) }"
    and mk: "shape (marked ht t') k t'" "counts (marked ht t') t'"
      "ht_map (marked ht t') = (ht_map ht)(s := None)" "Suc (unat (cItems ht - 1)) = unat (cItems ht)"
      "2 * (unat (cItems (marked ht t')) + unat (cDeletedItems (marked ht t'))) < 2 ^ k"
    by (rule delete_last_marks [OF sh half last l]) blast
  let ?h2 = "marked ht t'"
  have nat_eq: "nat (max 0 (cDeltaGoalSize ?h2)) = nat (max 0 (cDeltaGoalSize ht))" by simp
  have b2: "unat (cItems ?h2) + nat (max 0 (cDeltaGoalSize ?h2)) < 2 ^ 28"
    unfolding nat_eq using mk(4) bound by simp
  have some2: "0 < unat (cItems ?h2) + nat (max 0 (cDeltaGoalSize ?h2))" if big: "too_big ?h2"
  proof (rule ccontr)
    assume z: "\<not> 0 < unat (cItems ?h2) + nat (max 0 (cDeltaGoalSize ?h2))"
    have "1024 \<le> unat (cBuckets ht)"
      using big half_less [of "cBuckets ht"] by (simp add: too_big_def MIN_HASH_SIZE_def)
    moreover have "unat (cItems ht) = 1" using z mk(4) by simp
    moreover have "cDeltaGoalSize ht = 0 \<or> cDeltaGoalSize ht = -1"
      using z big by (auto simp: too_big_def split: if_splits)
    ultimately show False using keep by (simp add: shrinks_away_def)
  qed
  obtain h3 where h3: "delete_shrink ?h2 True = Some h3" "ht_ok (h3\<lparr>posLastFind := NoItem\<rparr>)"
    "ht_map h3 = ht_map ?h2" "cchKey h3 = cchKey ?h2" "fSaveKeys h3 = fSaveKeys ?h2"
    "cItems h3 = cItems ?h2" "cDeltaGoalSize h3 = cDeltaGoalSize ?h2"
    "unat (cBuckets h3) < 1024 \<or> unat (cBuckets h3) \<le> 5 * (unat (cItems ?h2) + nat (max 0 (cDeltaGoalSize ?h2)))
      \<or> cDeltaGoalSize ?h2 < 0" "cDeltaGoalSize ?h2 < 0 \<longrightarrow> cBuckets h3 = cBuckets ?h2"
    by (rule delete_shrink_ok [OF mk(1,2,5) b2 some2])
  have "same_content h3 (h3\<lparr>posLastFind := NoItem\<rparr>)" by (simp add: same_content_def)
  note sc = same_content_parts [OF this]
  have "delete_last ht True = Some (1, h3\<lparr>posLastFind := NoItem\<rparr>)"
    using h3(1) by (simp add: dl)
  moreover have "cDeltaGoalSize ht = 0 \<longrightarrow>
      unat (cBuckets h3) < 1024 \<or> unat (cBuckets h3) \<le> 5 * unat (cItems h3)"
    using h3(6,8) by auto
  moreover have "cDeltaGoalSize ht < -1 \<longrightarrow> cBuckets h3 = cBuckets ht"
    using h3(9) by simp
  ultimately show thesis
    by (intro that [of "h3\<lparr>posLastFind := NoItem\<rparr>"]) (use h3(2-7) sc mk in simp_all)
qed

text \<open>\<open>HashDelete\<close> removes the key from the map and says whether it was there.\<close>

theorem HashDelete_map:
  assumes "ht_ok ht" and key: "is_key ht key s"
    and bound: "unat (cItems ht) + nat (max 0 (cDeltaGoalSize ht)) < 2 ^ 28" and keep: "\<not> shrinks_away ht"
  shows "\<exists>ht'. HashDelete ht key = Some (if ht_map ht s = None then 0 else 1, ht') \<and> ht_ok ht' \<and>
    ht_map ht' = (ht_map ht)(s := None) \<and> cchKey ht' = cchKey ht \<and> fSaveKeys ht' = fSaveKeys ht \<and>
    unat (cItems ht') = unat (cItems ht) - (if ht_map ht s = None then 0 else 1) \<and>
    (cDeltaGoalSize ht = 0 \<longrightarrow> cDeltaGoalSize ht' = 0 \<and>
      (unat (cBuckets ht') < 1024 \<or> cBuckets ht' = cBuckets ht \<and> cItems ht' = cItems ht \<or>
       unat (cBuckets ht') \<le> 5 * unat (cItems ht'))) \<and>
    (ht_map ht s \<noteq> None \<longrightarrow> cDeltaGoalSize ht < -1 \<longrightarrow>
      cBuckets ht' = cBuckets ht \<and> cDeltaGoalSize ht' = cDeltaGoalSize ht + 1)"
proof -
  obtain k t where sh: "shape ht k t" "counts ht t"
    and half: "2 * (unat (cItems ht) + unat (cDeletedItems ht)) < 2 ^ k"
    using assms(1) by (auto simp: ht_ok_def)
  obtain key' where key': "KEY_TRUNC ht key = Some key'" "kval ht key' = Some s" "key_fit ht key'"
    using key by (auto simp: is_key_def)
  note room = ok_room [OF sh half]
  have same: "same_content ht (ht\<lparr>posLastFind := x\<rparr>)" for x by (simp add: same_content_def)
  note sc = same_content_parts [OF same]
  show ?thesis
  proof (cases "\<exists>l. found (kof ht) (tab_at t) s l")
    case True
    then obtain l it where l: "found (kof ht) (tab_at t) s l" "tab_at t l = Some it" "kof ht it = Some s"
      by (auto simp: found_def)
    let ?h1 = "ht\<lparr>posLastFind := Item (ptr_of t l)\<rparr>"
    obtain e where F: "Find ht key' False = Some (Some (ptr_of t l), e, ?h1)"
      using Find_found [OF sh(1) room key'(2,3) l(1)] by blast
    have sh1: "shape ?h1 k t" "counts ?h1 t" "kof ?h1 it = Some s" using sh l(3) sc(1-3) by simp_all
    have keep1: "\<not> shrinks_away ?h1" using keep by (simp add: shrinks_away_def)
    have half1: "2 * (unat (cItems ?h1) + unat (cDeletedItems ?h1)) < 2 ^ k"
      and bound1: "unat (cItems ?h1) + nat (max 0 (cDeltaGoalSize ?h1)) < 2 ^ 28"
      and pos1: "posLastFind ?h1 = Item (ptr_of t l)"
      using half bound by simp_all
    obtain h2 where h2: "delete_last ?h1 True = Some (1, h2)" "ht_ok h2" "ht_map h2 = (ht_map ?h1)(s := None)"
      "cchKey h2 = cchKey ?h1" "fSaveKeys h2 = fSaveKeys ?h1" "Suc (unat (cItems h2)) = unat (cItems ?h1)"
      "posLastFind h2 = NoItem"
      "cDeltaGoalSize h2 = (if cDeltaGoalSize ?h1 < 0 then cDeltaGoalSize ?h1 + 1 else cDeltaGoalSize ?h1)"
      "cDeltaGoalSize ?h1 = 0 \<longrightarrow> unat (cBuckets h2) < 1024 \<or> unat (cBuckets h2) \<le> 5 * unat (cItems h2)"
      "cDeltaGoalSize ?h1 < -1 \<longrightarrow> cBuckets h2 = cBuckets ?h1"
      by (rule delete_last_ok [OF sh1(1,2) half1 pos1 l(2) sh1(3) bound1 keep1])
    have "ht_map ht s \<noteq> None" using ht_map_found(1) [OF sh(1)] l(1) by blast
    moreover have "HashDelete ht key = Some (1, h2)"
      using key'(1) F h2(1) by (simp add: HashDelete_def Delete_def)
    ultimately show ?thesis using h2(2-10) sc(4) by auto
  next
    case False
    then have miss: "\<not> found (kof ht) (tab_at t) s l" for l by blast
    obtain e where "Find ht key' False = Some (None, e, ht\<lparr>posLastFind := NoItem\<rparr>)"
      by (rule Find_missing [OF sh(1) room key'(2,3) miss, of False]) auto
    then have "HashDelete ht key = Some (0, ht\<lparr>posLastFind := NoItem\<rparr>)"
      using key'(1) by (simp add: HashDelete_def Delete_def)
    moreover have none: "ht_map ht s = None" using ht_map_found(1) [OF sh(1)] miss by simp
    moreover have "ht_ok (ht\<lparr>posLastFind := NoItem\<rparr>)"
      unfolding ht_ok_def using sh half sc(1,2) by (auto simp: last_ok_def)
    moreover have "(ht_map ht)(s := None) = ht_map ht" using none by auto
    ultimately show ?thesis using sc(4) by simp
  qed
qed

text \<open>\<open>HashDeleteLast\<close> after a successful \<open>HashFind\<close> is \<open>HashDelete\<close> of its key.\<close>

theorem HashDeleteLast_map:
  assumes "ht_ok ht" and key: "is_key ht key s" and "HashFind ht key = Some (r, h1)"
    and bound: "unat (cItems ht) + nat (max 0 (cDeltaGoalSize ht)) < 2 ^ 28" and keep: "\<not> shrinks_away ht"
  shows "HashDeleteLast h1 = HashDelete ht key"
proof -
  obtain k t where sh: "shape ht k t" "counts ht t"
    and half: "2 * (unat (cItems ht) + unat (cDeletedItems ht)) < 2 ^ k"
    using assms(1) by (auto simp: ht_ok_def)
  obtain key' where key': "KEY_TRUNC ht key = Some key'" "kval ht key' = Some s" "key_fit ht key'"
    using key by (auto simp: is_key_def)
  note room = ok_room [OF sh half]
  show ?thesis
  proof (cases "\<exists>l. found (kof ht) (tab_at t) s l")
    case True
    then obtain l e where "Find ht key' False = Some (Some (ptr_of t l), e, ht\<lparr>posLastFind := Item (ptr_of t l)\<rparr>)"
      using Find_found [OF sh(1) room key'(2,3)] by blast
    moreover from this have "h1 = ht\<lparr>posLastFind := Item (ptr_of t l)\<rparr>"
      using assms(3) key'(1) by (simp add: HashFind_def)
    ultimately show ?thesis using key'(1)
      by (simp add: HashDelete_def Delete_def HashDeleteLast_def)
  next
    case False
    then have miss: "\<not> found (kof ht) (tab_at t) s l" for l by blast
    obtain e where "Find ht key' False = Some (None, e, ht\<lparr>posLastFind := NoItem\<rparr>)"
      by (rule Find_missing [OF sh(1) room key'(2,3) miss, of False]) auto
    moreover from this have "h1 = ht\<lparr>posLastFind := NoItem\<rparr>"
      using assms(3) key'(1) by (simp add: HashFind_def)
    ultimately show ?thesis using key'(1)
      by (simp add: HashDelete_def Delete_def HashDeleteLast_def)
  qed
qed

section \<open>Setting up, emptying, sizing\<close>

lemma alloc_min:
  obtains t :: "HTItem SparseBin list" where "SparseAllocate MIN_HASH_SIZE = Some (512, t)" and "tab_ok t"
    and "64 * length t = 2 ^ 9" and "tab_at t = Map.empty"
proof -
  have "(9 :: nat) \<le> 30" by simp
  then obtain t :: "HTItem SparseBin list" where t: "SparseAllocate (2 ^ 9) = Some (2 ^ max 6 9, t)" "tab_ok t"
    "64 * length t = 2 ^ max 6 9" "tab_at t = Map.empty"
    by (rule SparseAllocate_pow)
  then show thesis by (intro that [of t]) (simp_all add: MIN_HASH_SIZE_def)
qed

lemma fresh_table_ok:
  assumes "SparseAllocate MIN_HASH_SIZE = Some (n, t)" and "ht_table ht = Some t" and "cBuckets ht = n"
    and "cItems ht = 0" and "cDeletedItems ht = 0" and "\<And>p. posLastFind ht \<noteq> Item p"
  shows "ht_ok ht" and "ht_map ht = Map.empty" and "n = 512"
proof -
  have t: "n = 512" "tab_ok t" "64 * length t = 2 ^ 9" "tab_at t = Map.empty"
    using alloc_min assms(1) by auto
  have sh: "shape ht 9 t"
    using assms(2,3) t by (simp add: shape_def keys_ok_def oa_inv_empty)
  have "counts ht t" using assms(4,5) t(4) by (simp add: counts_def live_items_def dead_at_def)
  then show "ht_ok ht" unfolding ht_ok_def
    using sh assms(4-6) by (intro exI [of _ 9] exI [of _ t]) (auto simp: last_ok_def)
  show "ht_map ht = Map.empty"
    by (rule map_eqI) (simp add: ht_map_iff [OF sh] t(4) live_items_def)
  show "n = 512" by (rule t)
qed

theorem AllocateHashTable_map:
  "\<exists>ht. AllocateHashTable cch save = Some ht \<and> ht_ok ht \<and> ht_map ht = Map.empty \<and> cItems ht = 0 \<and>
    cDeltaGoalSize ht = 0 \<and> cBuckets ht = 512 \<and> cchKey ht = nat (max 0 cch) \<and> fSaveKeys ht = save \<and>
    cDeletedItems ht = 0"
proof -
  obtain t :: "HTItem SparseBin list" where a: "SparseAllocate MIN_HASH_SIZE = Some (512, t)"
    using alloc_min by blast
  show ?thesis
    using fresh_table_ok(1,2) [OF a] by (auto simp: AllocateHashTable_def a max_def)
qed

lemma SetDeltaGoalSize_map:
  assumes "ht_ok ht" and "HashSetDeltaGoalSize ht delta = (r, ht')"
  shows "r = delta" and "ht_ok ht'" and "ht_map ht' = ht_map ht" and "cDeltaGoalSize ht' = delta"
proof -
  have ht': "ht' = ht\<lparr>cDeltaGoalSize := delta\<rparr>" and r: "r = delta"
    using assms(2) by (auto simp: HashSetDeltaGoalSize_def)
  have "same_content ht ht'" by (simp add: ht' same_content_def)
  note sc = same_content_parts [OF this]
  show "r = delta" by (rule r)
  show "ht_map ht' = ht_map ht" by (rule sc)
  show "cDeltaGoalSize ht' = delta" by (simp add: ht')
  show "ht_ok ht'"
    using assms(1) sc unfolding ht_ok_def by (auto simp: last_ok_def) (auto simp: ht')
qed

end
