(* ===== verification/HashWalk.thy ===== *)
theory HashWalk
  imports HashDelete
begin

text \<open>
  Walking over the items of a table, and \<open>ClearHashTable\<close>, which walks over them to free their keys.
\<close>

section \<open>The walk of a client\<close>

text \<open>\<open>for (bck = HashFirstBucket(ht); bck; bck = HashNextBucket(ht))\<close>: the items it sees.\<close>

partial_function (option) walk_from :: "HashTable \<Rightarrow> bckptr option \<Rightarrow> (HTItem list \<times> HashTable) option" where
  "walk_from ht bck = (case bck of
     None \<Rightarrow> Some ([], ht)
   | Some p \<Rightarrow> do {
       it \<leftarrow> item_at ht p;
       (bck', ht') \<leftarrow> HashNextBucket ht;
       (its, ht'') \<leftarrow> walk_from ht' bck';
       Some (it # its, ht'') })"

definition hash_walk :: "HashTable \<Rightarrow> (HTItem list \<times> HashTable) option" where
  "hash_walk ht = do { (bck, ht') \<leftarrow> HashFirstBucket ht; walk_from ht' bck }"

lemma walk_from_list:
  assumes "ht_table ht = Some t" and "tab_ok t" and "unat (SPARSE_GROUPS (cBuckets ht)) = length t"
    and "case ps of [] \<Rightarrow> bck = None
      | p # qs \<Rightarrow> bck = Some p \<and> (\<exists>it. ht_iter ht = Some it \<and> iter_valid t it \<and> live_rest t it = qs)"
    and "\<forall>p \<in> set ps. bck_load t p \<noteq> None"
  shows "\<exists>it. walk_from ht bck = Some (map (\<lambda>p. the (bck_load t p)) ps, ht\<lparr>ht_iter := it\<rparr>)"
  using assms
proof (induction ps arbitrary: ht bck)
  case Nil
  have "\<exists>it. ht = ht\<lparr>ht_iter := it\<rparr>" by (rule exI [of _ "ht_iter ht"]) simp
  then show ?case using Nil(4) by (subst walk_from.simps) simp
next
  case (Cons p ps)
  then obtain it where bck: "bck = Some p" and it: "ht_iter ht = Some it" "iter_valid t it" "live_rest t it = ps"
    by auto
  obtain bck' it' where nx: "HashNextBucket ht = Some (bck', ht\<lparr>ht_iter := Some it'\<rparr>)"
    "case ps of [] \<Rightarrow> bck' = None | q # qs \<Rightarrow> bck' = Some q \<and> iter_valid t it' \<and> live_rest t it' = qs"
    using HashNext_eq [OF Cons(2,3,4) it(1,2)] it(3) by metis
  have "\<exists>i. walk_from (ht\<lparr>ht_iter := Some it'\<rparr>) bck' =
      Some (map (\<lambda>p. the (bck_load t p)) ps, ht\<lparr>ht_iter := Some it', ht_iter := i\<rparr>)"
    by (rule Cons(1)) (use Cons(2-4,6) nx(2) in \<open>auto split: list.splits\<close>)
  moreover obtain x where "bck_load t p = Some x" using Cons(6) by auto
  ultimately show ?case using nx(1) bck Cons(2) by (subst walk_from.simps) (auto simp: item_at_def)
qed

text \<open>The walk sees every live item once.\<close>

theorem hash_walk_items:
  assumes "ht_ok ht"
  shows "\<exists>its ht'. hash_walk ht = Some (its, ht') \<and> same_content ht ht' \<and>
    length its = unat (cItems ht) \<and> distinct (map (\<lambda>it. the (kof ht it)) its) \<and>
    ht_map ht = map_of (map (\<lambda>it. (the (kof ht it), bck_data it)) its)"
proof -
  obtain k t where sh: "shape ht k t" "counts ht t" using assms by (auto simp: ht_ok_def)
  have t: "ht_table ht = Some t" "tab_ok t" and oa: "oa_inv (kof ht) home k (tab_at t)"
    and ko: "keys_ok ht (tab_at t)" using sh(1) by (auto simp: shape_def)
  obtain p it where first: "HashFirstBucket ht = Some (p, ht\<lparr>ht_iter := Some it\<rparr>)"
    "case live_ptrs t of [] \<Rightarrow> p = None | q # qs \<Rightarrow> p = Some q \<and> iter_valid t it \<and> live_rest t it = qs"
    by (rule HashFirst_eq [OF sh(1)])
  have ld: "\<forall>p \<in> set (live_ptrs t). bck_load t p \<noteq> None"
    using ptrs_load [OF t(2)] by (auto simp: live_ptrs_def)
  obtain i where walk: "walk_from (ht\<lparr>ht_iter := Some it\<rparr>) p =
      Some (map (\<lambda>p. the (bck_load t p)) (live_ptrs t), ht\<lparr>ht_iter := Some it, ht_iter := i\<rparr>)"
    using walk_from_list [where ht = "ht\<lparr>ht_iter := Some it\<rparr>" and t = t and ps = "live_ptrs t" and bck = p] t ld first(2) groups_shape [OF sh(1)]
    by (auto split: list.splits)
  let ?its = "map (\<lambda>l. the (tab_at t l)) (live_locs t)"
  have locs: "set (live_locs t) = live_at (kof ht) (tab_at t)" by (rule set_live_locs [OF ko])
  have its: "map (\<lambda>p. the (bck_load t p)) (live_ptrs t) = ?its"
    unfolding live_ptrs_locs [OF t(2)] map_map
  proof (rule map_cong [OF refl])
    fix l
    assume "l \<in> set (live_locs t)"
    then obtain x where "tab_at t l = Some x" unfolding locs by (auto simp: live_at_def found_def)
    then show "((\<lambda>p. the (bck_load t p)) \<circ> ptr_of t) l = the (tab_at t l)"
      using bck_load_at [OF t(2)] by simp
  qed
  have key: "found (kof ht) (tab_at t) (the (kof ht (the (tab_at t l)))) l" if "l \<in> set (live_locs t)" for l
    using that unfolding locs by (auto simp: live_at_def found_def)
  have "inj_on (\<lambda>l. the (kof ht (the (tab_at t l)))) (set (live_locs t))"
    using key oa by (intro inj_onI) (metis oa_inv_def)
  then have dist: "distinct (map (\<lambda>it. the (kof ht it)) ?its)"
    by (simp add: distinct_map o_def)
  have len: "length ?its = unat (cItems ht)"
    using distinct_card [OF distinct_live_locs [of t]] sh(2) live_items_card(1) [OF oa]
    by (simp add: locs counts_def)
  have live: "set ?its = live_items (kof ht) (tab_at t)"
    using live_image [of "tab_at t" "kof ht"] by (simp add: locs)
  have "ht_map ht = map_of (map (\<lambda>it. (the (kof ht it), bck_data it)) ?its)"
  proof (rule map_eqI)
    fix s d
    have "map_of (map (\<lambda>it. (the (kof ht it), bck_data it)) ?its) s = Some d \<longleftrightarrow>
        (s, d) \<in> (\<lambda>it. (the (kof ht it), bck_data it)) ` set ?its"
      using dist by (subst map_of_eq_Some_iff) (simp_all add: o_def image_image)
    also have "\<dots> \<longleftrightarrow> (\<exists>it \<in> live_items (kof ht) (tab_at t). kof ht it = Some s \<and> bck_data it = d)"
      unfolding live by (force simp: live_items_def)
    finally show "ht_map ht s = Some d \<longleftrightarrow> map_of (map (\<lambda>it. (the (kof ht it), bck_data it)) ?its) s = Some d"
      using ht_map_iff [OF sh(1)] by simp
  qed
  then show ?thesis
    using first(1) walk its dist len by (auto simp: hash_walk_def same_content_def)
qed

section \<open>Clearing and freeing\<close>

lemma clear_keys_list:
  assumes "ht_table ht = Some t" and "tab_ok t" and "unat (SPARSE_GROUPS (cBuckets ht)) = length t"
    and "case ps of [] \<Rightarrow> bck = None
      | p # qs \<Rightarrow> bck = Some p \<and> (\<exists>it. ht_iter ht = Some it \<and> iter_valid t it \<and> live_rest t it = qs)"
    and "\<forall>p \<in> set ps. \<exists>b s. bck_load t p = Some b \<and> kval ht (bck_key b) = Some s"
  shows "\<exists>it. clear_keys ht bck = Some (ht\<lparr>ht_iter := it\<rparr>)"
  using assms
proof (induction ps arbitrary: ht bck)
  case Nil
  have "\<exists>it. ht = ht\<lparr>ht_iter := it\<rparr>" by (rule exI [of _ "ht_iter ht"]) simp
  then show ?case using Nil(4) by (subst clear_keys.simps) simp
next
  case (Cons p ps)
  then obtain it where bck: "bck = Some p" and it: "ht_iter ht = Some it" "iter_valid t it" "live_rest t it = ps"
    by auto
  obtain b s where b: "bck_load t p = Some b" "kval ht (bck_key b) = Some s" using Cons(6) by auto
  obtain k' where fk: "FREE_KEY ht (bck_key b) = Some k'" using FREE_KEY_val [OF b(2)] by blast
  have self: "\<exists>it. ht = ht\<lparr>ht_iter := it\<rparr>" by (rule exI [of _ "ht_iter ht"]) simp
  show ?case
  proof (cases "fSaveKeys ht = 2")
    case True
    then show ?thesis using b(1) fk bck Cons(2) self by (subst clear_keys.simps) simp
  next
    case False
    obtain bck' it' where nx: "HashNextBucket ht = Some (bck', ht\<lparr>ht_iter := Some it'\<rparr>)"
      "case ps of [] \<Rightarrow> bck' = None | q # qs \<Rightarrow> bck' = Some q \<and> iter_valid t it' \<and> live_rest t it' = qs"
      using HashNext_eq [OF Cons(2,3,4) it(1,2)] it(3) by metis
    have kv: "kval (ht\<lparr>ht_iter := Some it'\<rparr>) = kval ht" by (rule key_cong) simp
    have "\<exists>i. clear_keys (ht\<lparr>ht_iter := Some it'\<rparr>) bck' = Some (ht\<lparr>ht_iter := Some it', ht_iter := i\<rparr>)"
      by (rule Cons(1)) (use Cons(2-4,6) nx(2) kv in \<open>auto split: list.splits\<close>)
    then show ?thesis using b(1) fk nx(1) bck Cons(2) False by (subst clear_keys.simps) auto
  qed
qed

theorem ClearHashTable_map:
  assumes "ht_ok ht"
  shows "\<exists>ht'. ClearHashTable ht = Some ht' \<and> ht_ok ht' \<and> ht_map ht' = Map.empty \<and> cItems ht' = 0 \<and>
    cBuckets ht' = 512 \<and> cchKey ht' = cchKey ht \<and> fSaveKeys ht' = fSaveKeys ht"
proof -
  obtain k t where sh: "shape ht k t" using assms by (auto simp: ht_ok_def)
  have t: "ht_table ht = Some t" "tab_ok t" and ko: "keys_ok ht (tab_at t)" using sh by (auto simp: shape_def)
  note g = groups_shape [OF sh]
  have "\<exists>i. (if STORES_PTR ht \<and> fSaveKeys ht \<noteq> 0 then do {
         (bck, ht1) \<leftarrow> HashFirstBucket ht;
         clear_keys ht1 bck }
       else Some ht) = Some (ht\<lparr>ht_iter := i\<rparr>)"
  proof (cases "STORES_PTR ht \<and> fSaveKeys ht \<noteq> 0")
    case False
    have "\<exists>it. ht = ht\<lparr>ht_iter := it\<rparr>" by (rule exI [of _ "ht_iter ht"]) simp
    then show ?thesis using False by auto
  next
    case True
    obtain p it where first: "HashFirstBucket ht = Some (p, ht\<lparr>ht_iter := Some it\<rparr>)"
      "case live_ptrs t of [] \<Rightarrow> p = None | q # qs \<Rightarrow> p = Some q \<and> iter_valid t it \<and> live_rest t it = qs"
      by (rule HashFirst_eq [OF sh])
    have kv: "kval (ht\<lparr>ht_iter := Some it\<rparr>) = kval ht" by (rule key_cong) simp
    have ld: "\<exists>b s. bck_load t p = Some b \<and> kval ht (bck_key b) = Some s" if "p \<in> set (live_ptrs t)" for p
    proof -
      obtain l where l: "l \<in> set (live_locs t)" "p = ptr_of t l"
        using \<open>p \<in> set (live_ptrs t)\<close> unfolding live_ptrs_locs [OF t(2)] by auto
      then obtain x s where "tab_at t l = Some x" "kof ht x = Some s"
        unfolding set_live_locs [OF ko] by (auto simp: live_at_def found_def)
      then show ?thesis using bck_load_at [OF t(2)] l(2) by (auto simp: kof_def split: if_splits)
    qed
    have "\<exists>i. clear_keys (ht\<lparr>ht_iter := Some it\<rparr>) p = Some (ht\<lparr>ht_iter := Some it, ht_iter := i\<rparr>)"
      by (rule clear_keys_list [where ps = "live_ptrs t" and t = t])
        (use t g first(2) ld kv in \<open>auto split: list.splits\<close>)
    then show ?thesis using first(1) True by auto
  qed
  then obtain i where i: "(if STORES_PTR ht \<and> fSaveKeys ht \<noteq> 0 then do {
         (bck, ht1) \<leftarrow> HashFirstBucket ht;
         clear_keys ht1 bck }
       else Some ht) = Some (ht\<lparr>ht_iter := i\<rparr>)" by blast
  obtain t' :: "HTItem SparseBin list" where a: "SparseAllocate MIN_HASH_SIZE = Some (512, t')"
    using alloc_min by blast
  let ?ht = "ht\<lparr>ht_iter := i, ht_table := Some t', cBuckets := 512, cItems := 0, cDeletedItems := 0,
    cDeltaGoalSize := 0, posLastFind := NoItem\<rparr>"
  have "ClearHashTable ht = Some ?ht"
    unfolding ClearHashTable_def i by (simp add: t SparseFree_def g a)
  then show ?thesis using fresh_table_ok(1,2) [OF a, of ?ht] by simp
qed

theorem FreeHashTable_returns:
  assumes "ht_ok ht"
  shows "FreeHashTable ht = Some ()"
proof -
  obtain ht' where c: "ClearHashTable ht = Some ht'" and "ht_ok ht'"
    using ClearHashTable_map [OF assms] by blast
  then obtain k t where sh: "shape ht' k t" by (auto simp: ht_ok_def)
  then have "ht_table ht' = Some t" by (simp add: shape_def)
  then show ?thesis using c groups_shape [OF sh] by (simp add: FreeHashTable_def SparseFree_def)
qed

end
