(* ===== verification/HashClient.thy ===== *)
theory HashClient
  imports HashWalk
begin

text \<open>
  A table of strings under a sequence of calls, against a map; and the two ways in which its
  operations fail a client: \<open>HashFindOrInsert\<close> after a deletion, and deleting the last of
  the items announced to \<open>HashSetDeltaGoalSize\<close>.
\<close>

section \<open>Sequences of calls\<close>

datatype hash_op = OpInsert string u64 | OpFind string | OpDelete string

abbreviation str_key :: "string \<Rightarrow> hkey" where
  "str_key s \<equiv> KPtr (Live (c_bytes s))"

text \<open>The data that a client reads through the item, for \<open>OpFind\<close>.\<close>

fun run_table :: "hash_op list \<Rightarrow> HashTable \<Rightarrow> (u64 option list \<times> HashTable) option" where
  "run_table [] ht = Some ([], ht)"
| "run_table (OpInsert s d # ops) ht = do {
     (_, ht') \<leftarrow> HashInsert ht (str_key s) d;
     run_table ops ht' }"
| "run_table (OpFind s # ops) ht = do {
     (item, ht') \<leftarrow> HashFind ht (str_key s);
     r \<leftarrow> (case item of None \<Rightarrow> Some None
          | Some p \<Rightarrow> do { it \<leftarrow> item_at ht' p; Some (Some (bck_data it)) });
     (rs, ht'') \<leftarrow> run_table ops ht';
     Some (r # rs, ht'') }"
| "run_table (OpDelete s # ops) ht = do {
     (_, ht') \<leftarrow> HashDelete ht (str_key s);
     run_table ops ht' }"

fun run_map :: "hash_op list \<Rightarrow> (string \<rightharpoonup> u64) \<Rightarrow> u64 option list \<times> (string \<rightharpoonup> u64)" where
  "run_map [] m = ([], m)"
| "run_map (OpInsert s d # ops) m = run_map ops (m(s \<mapsto> d))"
| "run_map (OpFind s # ops) m = (let (rs, m') = run_map ops m in (m s # rs, m'))"
| "run_map (OpDelete s # ops) m = run_map ops (m(s := None))"

fun op_ok :: "hash_op \<Rightarrow> bool" where
  "op_ok (OpInsert s d) \<longleftrightarrow> c_string s \<and> d \<noteq> DELETED"
| "op_ok (OpFind s) \<longleftrightarrow> c_string s"
| "op_ok (OpDelete s) \<longleftrightarrow> c_string s"

text \<open>A table of strings whose size has not been announced: it never outgrows its items.\<close>

definition plain :: "HashTable \<Rightarrow> bool" where
  "plain ht \<longleftrightarrow> ht_ok ht \<and> cchKey ht = 0 \<and> cDeltaGoalSize ht = 0 \<and>
     (unat (cBuckets ht) < 1024 \<or> unat (cBuckets ht) \<le> 5 * unat (cItems ht))"

lemma plain_key: "plain ht \<Longrightarrow> c_string s \<Longrightarrow> is_key ht (str_key s) s"
  using is_key_string [of ht s "[]"] by (simp add: plain_def)

lemma plain_insert:
  assumes "plain ht" and "c_string s" and "d \<noteq> DELETED" and "unat (cItems ht) < 2 ^ 27"
  obtains p ht' where "HashInsert ht (str_key s) d = Some (Some p, ht')" and "plain ht'"
    and "ht_map ht' = (ht_map ht)(s \<mapsto> d)"
    and "unat (cItems ht') = unat (cItems ht) + (if ht_map ht s = None then 1 else 0)"
    and "fSaveKeys ht' = fSaveKeys ht" and "cDeletedItems ht = 0 \<Longrightarrow> cDeletedItems ht' = 0"
proof -
  have ok: "ht_ok ht" and bound: "unat (cItems ht) + nat (max 0 (cDeltaGoalSize ht)) < 2 ^ 28 - 1"
    using assms(1,4) by (auto simp: plain_def)
  obtain p ht' where ins: "HashInsert ht (str_key s) d = Some (Some p, ht')" "ht_ok ht'"
    "ht_map ht' = (ht_map ht)(s \<mapsto> d)" "cchKey ht' = cchKey ht" "fSaveKeys ht' = fSaveKeys ht"
    "unat (cItems ht') = unat (cItems ht) + (if ht_map ht s = None then 1 else 0)"
    "cDeltaGoalSize ht' = (if ht_map ht s = None \<and> 0 < cDeltaGoalSize ht then cDeltaGoalSize ht - 1 else cDeltaGoalSize ht)"
    "sized_from ht ht'"
    using HashInsert_map [OF ok plain_key [OF assms(1,2)] assms(3) bound] by blast
  moreover have "plain ht'"
    using ins assms(1) by (auto simp: plain_def sized_from_def split: if_splits)
  moreover have "cDeletedItems ht = 0 \<Longrightarrow> cDeletedItems ht' = 0" using ins(8) by (simp add: sized_from_def)
  ultimately show thesis using that by blast
qed

lemma plain_delete:
  assumes "plain ht" and "c_string s" and "unat (cItems ht) < 2 ^ 27"
  obtains ht' where "HashDelete ht (str_key s) = Some (if ht_map ht s = None then 0 else 1, ht')" and "plain ht'"
    and "ht_map ht' = (ht_map ht)(s := None)" and "unat (cItems ht') \<le> unat (cItems ht)"
proof -
  have ok: "ht_ok ht" and bound: "unat (cItems ht) + nat (max 0 (cDeltaGoalSize ht)) < 2 ^ 28"
    and keep: "\<not> shrinks_away ht"
    using assms(1,3) by (auto simp: plain_def shrinks_away_def)
  obtain ht' where del: "HashDelete ht (str_key s) = Some (if ht_map ht s = None then 0 else 1, ht')" "ht_ok ht'"
    "ht_map ht' = (ht_map ht)(s := None)" "cchKey ht' = cchKey ht"
    "unat (cItems ht') = unat (cItems ht) - (if ht_map ht s = None then 0 else 1)"
    "cDeltaGoalSize ht = 0 \<longrightarrow> cDeltaGoalSize ht' = 0 \<and>
      (unat (cBuckets ht') < 1024 \<or> cBuckets ht' = cBuckets ht \<and> cItems ht' = cItems ht \<or>
       unat (cBuckets ht') \<le> 5 * unat (cItems ht'))"
    using HashDelete_map [OF ok plain_key [OF assms(1,2)] bound keep] by blast
  moreover have "plain ht'"
    using del assms(1) by (auto simp: plain_def)
  ultimately show thesis using that by (auto split: if_splits)
qed

lemma plain_find:
  assumes "plain ht" and "c_string s"
  obtains r ht' where "HashFind ht (str_key s) = Some (r, ht')" and "plain ht'"
    and "ht_map ht' = ht_map ht" and "cItems ht' = cItems ht"
    and "(case r of None \<Rightarrow> Some None
          | Some p \<Rightarrow> do { it \<leftarrow> item_at ht' p; Some (Some (bck_data it)) }) = Some (ht_map ht s)"
proof -
  have ok: "ht_ok ht" using assms(1) by (simp add: plain_def)
  obtain r ht' where fnd: "HashFind ht (str_key s) = Some (r, ht')" "ht_ok ht'" "same_content ht ht'"
    "case r of
       None \<Rightarrow> ht_map ht s = None \<and> posLastFind ht' = NoItem
     | Some p \<Rightarrow> posLastFind ht' = Item p \<and>
         (\<exists>it. item_at ht p = Some it \<and> kof ht it = Some s \<and> ht_map ht s = Some (bck_data it))"
    using HashFind_map [OF ok plain_key [OF assms]] by blast
  have d: "cDeltaGoalSize ht' = cDeltaGoalSize ht"
    using fnd(1) by (auto simp: HashFind_def Find_def bind_Some_iff split: option.splits)
  have i: "item_at ht' = item_at ht" using fnd(3) by (simp add: same_content_def item_at_def fun_eq_iff)
  have "plain ht'" using fnd(2,3) assms(1) d by (simp add: plain_def same_content_def)
  moreover have "cItems ht' = cItems ht" using fnd(3) by (simp add: same_content_def)
  moreover have "(case r of None \<Rightarrow> Some None
      | Some p \<Rightarrow> do { it \<leftarrow> item_at ht' p; Some (Some (bck_data it)) }) = Some (ht_map ht s)"
    using fnd(4) by (auto simp: i split: option.splits)
  ultimately show thesis using that fnd(1) same_content_parts(4) [OF fnd(3)] by blast
qed

text \<open>Every call returns, and the finds read what the map says.\<close>

lemma run_table_map:
  "plain ht \<Longrightarrow> \<forall>op \<in> set ops. op_ok op \<Longrightarrow> unat (cItems ht) + length ops < 2 ^ 27 \<Longrightarrow>
   \<exists>ht'. run_table ops ht = Some (fst (run_map ops (ht_map ht)), ht') \<and> plain ht' \<and>
     ht_map ht' = snd (run_map ops (ht_map ht)) \<and> unat (cItems ht') \<le> unat (cItems ht) + length ops"
proof (induction ops arbitrary: ht)
  case Nil
  then show ?case by simp
next
  case (Cons op ops)
  have small: "unat (cItems ht) < 2 ^ 27" using Cons(4) by simp
  show ?case
  proof (cases op)
    case (OpInsert s d)
    obtain p h where h: "HashInsert ht (str_key s) d = Some (Some p, h)" "plain h"
      "ht_map h = (ht_map ht)(s \<mapsto> d)"
      "unat (cItems h) = unat (cItems ht) + (if ht_map ht s = None then 1 else 0)"
      by (rule plain_insert [of ht s d]) (use Cons(2,3) small OpInsert in auto)
    have le: "unat (cItems h) \<le> Suc (unat (cItems ht))" using h(4) by simp
    then show ?thesis using Cons(1) [OF h(2)] Cons(3,4) h(1,3) OpInsert by fastforce
  next
    case (OpFind s)
    obtain r h where h: "HashFind ht (str_key s) = Some (r, h)" "plain h" "ht_map h = ht_map ht"
      "cItems h = cItems ht"
      "(case r of None \<Rightarrow> Some None
        | Some p \<Rightarrow> do { it \<leftarrow> item_at h p; Some (Some (bck_data it)) }) = Some (ht_map ht s)"
      by (rule plain_find [of ht s]) (use Cons(2,3) OpFind in auto)
    then obtain h' where "run_table ops h = Some (fst (run_map ops (ht_map ht)), h')" "plain h'"
      "ht_map h' = snd (run_map ops (ht_map ht))" "unat (cItems h') \<le> unat (cItems ht) + length ops"
      using Cons(1) [OF h(2)] Cons(3,4) by auto
    then show ?thesis using h(1,5) OpFind by (simp add: case_prod_beta Let_def)
  next
    case (OpDelete s)
    obtain h where h: "HashDelete ht (str_key s) = Some (if ht_map ht s = None then 0 else 1, h)" "plain h"
      "ht_map h = (ht_map ht)(s := None)" "unat (cItems h) \<le> unat (cItems ht)"
      by (rule plain_delete [of ht s]) (use Cons(2,3) small OpDelete in auto)
    then show ?thesis using Cons(1) [OF h(2)] Cons(3,4) OpDelete by fastforce
  qed
qed

lemma fresh_plain:
  obtains ht where "AllocateHashTable 0 save = Some ht" and "plain ht" and "ht_map ht = Map.empty" and "cItems ht = 0"
    and "fSaveKeys ht = save" and "cDeletedItems ht = 0"
  using AllocateHashTable_map [of 0 save] by (auto simp: plain_def)

end
