(* ===== verification/HashFlaws.thy ===== *)
theory HashFlaws
  imports HashClient
begin

text \<open>
  Two ways in which the operations of the hash table fail a client. After a deletion
  \<open>HashFindOrInsert\<close> may count an item that it has not stored; and when the last of the
  deletions announced to \<open>HashSetDeltaGoalSize\<close> empties a table that had grown, the table is
  left without buckets and the next search reads outside it.
\<close>

section \<open>\<open>HashFindOrInsert\<close>\<close>

text \<open>It returns the item that is there, unchanged.\<close>

lemma FindOrInsert_present:
  assumes "ht_ok ht" and key: "is_key ht key s" and "ht_map ht s = Some d0"
  shows "\<exists>p ht' it. HashFindOrInsert ht key d = Some (Some p, ht') \<and> same_content ht ht' \<and>
    item_at ht' p = Some it \<and> bck_data it = d0"
proof -
  obtain k t where sh: "shape ht k t" "counts ht t"
    and half: "2 * (unat (cItems ht) + unat (cDeletedItems ht)) < 2 ^ k"
    using assms(1) by (auto simp: ht_ok_def)
  obtain key' where key': "KEY_TRUNC ht key = Some key'" "kval ht key' = Some s" "key_fit ht key'"
    using key by (auto simp: is_key_def)
  note room = ok_room [OF sh half]
  have t: "ht_table ht = Some t" "tab_ok t" using sh(1) by (auto simp: shape_def)
  obtain it where "it \<in> live_items (kof ht) (tab_at t)" and it: "kof ht it = Some s" "bck_data it = d0"
    using assms(3) ht_map_iff [OF sh(1)] by auto
  then obtain l where l: "tab_at t l = Some it" by (auto simp: live_items_def ran_def)
  then have f: "found (kof ht) (tab_at t) s l" using it by (simp add: found_def)
  obtain e where "Find ht key' True = Some (Some (ptr_of t l), e, ht\<lparr>posLastFind := Item (ptr_of t l)\<rparr>)"
    using Find_found [OF sh(1) room key'(2,3) f] by blast
  then have "HashFindOrInsert ht key d = Some (Some (ptr_of t l), ht\<lparr>posLastFind := NoItem\<rparr>)"
    using key'(1) t(1) by (simp add: HashFindOrInsert_def Insert_def)
  moreover have "item_at (ht\<lparr>posLastFind := NoItem\<rparr>) (ptr_of t l) = Some it"
    using bck_load_at [OF t(2) l] t(1) by (simp add: item_at_def)
  ultimately show ?thesis using it(2)
    by (intro exI [of _ "ptr_of t l"] exI [of _ "ht\<lparr>posLastFind := NoItem\<rparr>"] exI [of _ it])
      (simp add: same_content_def)
qed

text \<open>A deletion that does not shrink the table leaves a marked bucket on the way of its key.\<close>

lemma delete_marks:
  assumes sh: "shape ht k t" "counts ht t" and half: "2 * (unat (cItems ht) + unat (cDeletedItems ht)) < 2 ^ k"
    and key': "KEY_TRUNC ht key = Some key'" "kval ht key' = Some s" "key_fit ht key'"
    and l: "found (kof ht) (tab_at t) s l" and small: "unat (cBuckets ht) < 1024"
  obtains ht' t' l' where "HashDelete ht key = Some (1, ht')" and "shape ht' k t'" and "counts ht' t'"
    and "ht_map ht' = (ht_map ht)(s := None)" and "cchKey ht' = cchKey ht"
    and "2 * (unat (cItems ht') + unat (cDeletedItems ht')) < 2 ^ k"
    and "dead_at (tab_at t') l'" and "reach k (tab_at t') (home s) l'"
    and "cItems ht' = cItems ht - 1" and "cDeltaGoalSize ht = 0 \<longrightarrow> cDeltaGoalSize ht' = 0"
proof -
  note room = ok_room [OF sh half]
  obtain it where it: "tab_at t l = Some it" "kof ht it = Some s" using l by (auto simp: found_def)
  let ?h1 = "ht\<lparr>posLastFind := Item (ptr_of t l)\<rparr>"
  obtain e where F: "Find ht key' False = Some (Some (ptr_of t l), e, ?h1)"
    using Find_found [OF sh(1) room key'(2,3) l] by blast
  have "same_content ht ?h1" by (simp add: same_content_def)
  note sc = same_content_parts [OF this]
  have sh1: "shape ?h1 k t" "counts ?h1 t" "kof ?h1 it = Some s" using sh it(2) sc(1-3) by simp_all
  have half1: "2 * (unat (cItems ?h1) + unat (cDeletedItems ?h1)) < 2 ^ k"
    and last1: "posLastFind ?h1 = Item (ptr_of t l)" using half by simp_all
  obtain t' it' where dl: "\<And>f. delete_last ?h1 f = do {
        h \<leftarrow> delete_shrink (marked ?h1 t') f;
        Some (1, h\<lparr>posLastFind := NoItem\<rparr>) }"
    and mk: "shape (marked ?h1 t') k t'" "counts (marked ?h1 t') t'"
      "ht_map (marked ?h1 t') = (ht_map ?h1)(s := None)"
      "2 * (unat (cItems (marked ?h1 t')) + unat (cDeletedItems (marked ?h1 t'))) < 2 ^ k"
    and t': "tab_at t' = (tab_at t)(l \<mapsto> it')" "IS_BCK_DELETED it'"
    by (rule delete_last_marks [OF sh1(1,2) half1 last1 it(1) sh1(3)]) blast
  let ?h3 = "(marked ?h1 t')\<lparr>posLastFind := NoItem\<rparr>"
  have "\<not> too_big (marked ?h1 t')"
    using small half_less [of "cBuckets ht"] by (auto simp: too_big_def MIN_HASH_SIZE_def)
  then have "HashDelete ht key = Some (1, ?h3)"
    using key'(1) F by (simp add: HashDelete_def Delete_def dl delete_shrink_def)
  moreover have "same_content (marked ?h1 t') ?h3" by (simp add: same_content_def)
  note sc3 = same_content_parts [OF this]
  moreover have "dead_at (tab_at t') l" using t' by (simp add: dead_at_def)
  moreover have "reach k (tab_at t') (home s) l"
  proof -
    have "reach k (tab_at t) (home s) l" using sh(1) l by (simp add: shape_def oa_inv_def)
    then show ?thesis by (auto simp: reach_def t'(1))
  qed
  ultimately show thesis
    by (intro that [of ?h3 t' l]) (use mk sc in simp_all)
qed

text \<open>The lost item.\<close>

lemma lost_item:
  assumes sh: "shape ht k t" "counts ht t" and half: "2 * (unat (cItems ht) + unat (cDeletedItems ht)) < 2 ^ k"
    and key': "KEY_TRUNC ht key = Some key'" "kval ht key' = Some s" "key_fit ht key'"
    and none: "ht_map ht s = None" and dead: "dead_at (tab_at t) l0" "reach k (tab_at t) (home s) l0"
    and goal: "cDeltaGoalSize ht = 0" and bound: "unat (cItems ht) < 2 ^ 28"
  obtains p ht' it where "HashFindOrInsert ht key d = Some (Some p, ht')" and "item_at ht' p = Some it"
    and "IS_BCK_DELETED it" and "ht_table ht' = ht_table ht" and "cItems ht' = cItems ht + 1"
    and "cchKey ht' = cchKey ht" and "HashFind ht' key = Some (None, ht'\<lparr>posLastFind := NoItem\<rparr>)"
proof -
  have t: "ht_table ht = Some t" "tab_ok t" "k \<le> 30" "cBuckets ht = 2 ^ k" using sh(1) by (auto simp: shape_def)
  note room = ok_room [OF sh half]
  have miss: "\<not> found (kof ht) (tab_at t) s l" for l using none ht_map_found(1) [OF sh(1)] by simp
  obtain l where F: "Find ht key' True = Some (None, if True then Some (of_nat l) else None, ht\<lparr>posLastFind := NoItem\<rparr>)"
    and l: "l < 2 ^ k" "dead_at (tab_at t) l"
    using Find_missing [OF sh(1) room key'(2,3) miss, of True] dead by metis
  have k30: "(2 :: nat) ^ k \<le> 1073741824" using t(3) power_increasing [of k 30 "2 :: nat"] by simp
  have ul: "unat (of_nat l :: u64) = l"
    using l(1) k30 by (simp add: unsigned_of_nat take_bit_nat_eq_self)
  obtain it where it: "tab_at t l = Some it" "IS_BCK_DELETED it" using l(2) by (auto simp: dead_at_def)
  let ?h1 = "ht\<lparr>posLastFind := NoItem\<rparr>"
  have k1: "kval ?h1 = kval ht" "key_fit ?h1 = key_fit ht" by (rule key_cong, simp)+
  obtain ck where ck: "COPY_KEY ?h1 key' = Some ck"
    using COPY_KEY_val [of ?h1 key' s] key'(2,3) unfolding k1 by blast
  have ins: "SparseInsert t x (of_nat l) False = Some (ptr_of t l, True, t)" for x
    using SparseInsert_keep [OF t(2), of "of_nat l" it x] it(1) by (simp add: ul)
  let ?h2 = "ht\<lparr>posLastFind := NoItem, ht_table := Some t, cDeletedItems := cDeletedItems ht - 1, cItems := cItems ht + 1\<rparr>"
  have "0 < card {x. dead_at (tab_at t) x}" using l(2) by (auto simp: card_gt_0_iff)
  then have pos: "0 < unat (cDeletedItems ht)" using sh(2) by (simp add: counts_def)
  have nf: "\<not> too_full ?h2"
  proof -
    have "unat (cItems ht + 1 + (cDeletedItems ht - 1)) = unat (cItems ht + cDeletedItems ht)" by simp
    also have "\<dots> = unat (cItems ht) + unat (cDeletedItems ht)"
    proof -
      have "unat (cDeletedItems ht) < 2 ^ k" using half by simp
      then have "unat (cDeletedItems ht) < 1073741824" using k30 by (rule less_le_trans)
      then show ?thesis using bound by (simp add: unat_word_ariths)
    qed
    finally show ?thesis using half t(4) unat_2p [of k] t(3) by (simp add: too_full_def)
  qed
  have foi: "HashFindOrInsert ht key d = Some (Some (ptr_of t l), ?h2)"
    using key'(1) t(1) F ck ins nf goal
    by (simp add: HashFindOrInsert_def Insert_def insert_grow_def)
  have kof: "kof ?h2 = kof ht" "kval ?h2 = kval ht" "key_fit ?h2 = key_fit ht" "KEY_TRUNC ?h2 = KEY_TRUNC ht"
    by (rule key_cong is_key_cong, simp)+
  have sh2: "shape ?h2 k t" using sh(1) t(1) by (simp add: shape_def kof keys_ok_def)
  have kv2: "kval ?h2 key' = Some s" "key_fit ?h2 key'" using key'(2,3) kof by simp_all
  have miss2: "\<not> found (kof ?h2) (tab_at t) s m" for m using miss by (simp add: kof)
  obtain m where "Find ?h2 key' False = Some (None, if False then Some (of_nat m) else None, ?h2\<lparr>posLastFind := NoItem\<rparr>)"
    by (rule Find_missing [OF sh2 room kv2 miss2, of False])
  then have "HashFind ?h2 key = Some (None, ?h2\<lparr>posLastFind := NoItem\<rparr>)"
    using key'(1) kof(4) by (simp add: HashFind_def)
  moreover have "item_at ?h2 (ptr_of t l) = Some it" using bck_load_at [OF t(2) it(1)] by (simp add: item_at_def)
  ultimately show thesis using that [OF foi] it(2) t(1) by simp
qed

text \<open>
  So the item that \<open>HashFindOrInsert\<close> returns for a key deleted before is the marked bucket, the
  key is still not found, and the count is wrong by one.
\<close>

theorem FindOrInsert_after_delete:
  assumes "ht_ok ht" and key: "is_key ht key s" and there: "ht_map ht s = Some d0"
    and small: "unat (cBuckets ht) < 1024" and goal: "cDeltaGoalSize ht = 0"
  shows "\<exists>h1 p h2 it h3. HashDelete ht key = Some (1, h1) \<and> ht_map h1 s = None \<and>
    HashFindOrInsert h1 key d = Some (Some p, h2) \<and> item_at h2 p = Some it \<and> IS_BCK_DELETED it \<and>
    HashFind h2 key = Some (None, h3) \<and> cItems h2 = cItems ht"
proof -
  obtain k t where sh: "shape ht k t" "counts ht t"
    and half: "2 * (unat (cItems ht) + unat (cDeletedItems ht)) < 2 ^ k"
    using assms(1) by (auto simp: ht_ok_def)
  obtain key' where key': "KEY_TRUNC ht key = Some key'" "kval ht key' = Some s" "key_fit ht key'"
    using key by (auto simp: is_key_def)
  obtain l where l: "found (kof ht) (tab_at t) s l" using ht_map_found(1) [OF sh(1), of s] there by auto
  obtain h1 t1 l1 where h1: "HashDelete ht key = Some (1, h1)" "shape h1 k t1" "counts h1 t1"
    "ht_map h1 = (ht_map ht)(s := None)" "cchKey h1 = cchKey ht"
    "2 * (unat (cItems h1) + unat (cDeletedItems h1)) < 2 ^ k"
    "dead_at (tab_at t1) l1" "reach k (tab_at t1) (home s) l1"
    "cItems h1 = cItems ht - 1" "cDeltaGoalSize ht = 0 \<longrightarrow> cDeltaGoalSize h1 = 0"
    by (rule delete_marks [OF sh half key' l small])
  have k1: "kval h1 = kval ht" "key_fit h1 = key_fit ht" "KEY_TRUNC h1 = KEY_TRUNC ht"
    using h1(5) by (auto intro: key_cong is_key_cong)
  have key1: "KEY_TRUNC h1 key = Some key'" "kval h1 key' = Some s" "key_fit h1 key'" using key' k1 by simp_all
  have none: "ht_map h1 s = None" and goal1: "cDeltaGoalSize h1 = 0" using h1(4,10) goal by simp_all
  have "2 * unat (cItems h1) < 2 ^ k" using h1(6) by simp
  also have "(2 :: nat) ^ k \<le> 2 ^ 28"
  proof -
    have "unat (cBuckets ht) = 2 ^ k" using sh(1) unat_2p [of k] by (simp add: shape_def)
    then show ?thesis using small by simp
  qed
  finally have bound: "unat (cItems h1) < 2 ^ 28" by simp
  obtain p h2 it where h2: "HashFindOrInsert h1 key d = Some (Some p, h2)" "item_at h2 p = Some it"
    "IS_BCK_DELETED it" "ht_table h2 = ht_table h1" "cItems h2 = cItems h1 + 1" "cchKey h2 = cchKey h1"
    "HashFind h2 key = Some (None, h2\<lparr>posLastFind := NoItem\<rparr>)"
    by (rule lost_item [OF h1(2,3,6) key1 none h1(7,8) goal1 bound])
  have "cItems h2 = cItems ht" using h2(5) h1(9) by simp
  then show ?thesis using h1(1) none h2(1,2,3,7) by blast
qed

section \<open>A table without buckets\<close>

lemma NextPow2_0: "NextPow2 0 = Some 0"
  by (simp add: NextPow2_def top_bit.simps [of 0])

lemma SparseAllocate_0: "SparseAllocate 0 = Some (0, [])"
proof -
  have "SPARSE_GROUPS 0 = 2 ^ 58"
    by (simp add: SPARSE_GROUPS_def drop_bit_eq_div)
  then have "uint (SPARSE_GROUPS 0) = 2 ^ 58" by simp
  then show ?thesis by (simp add: SparseAllocate_def Let_def signed_take_bit_eq_take_bit_shift)
qed

lemma find_in_nothing:
  assumes "ht_table ht = Some []"
  shows "HashFind ht key = None"
proof -
  have "SparseFind ([] :: HTItem SparseBin list) i = None" for i
    by (simp add: SparseFind_def SparseIsEmpty_def elem_def)
  then have "find_loop ht [] k w i off e = None" for k w i off e
    by (subst find_loop.simps) simp
  then have "Find ht k False = None" for k
    using assms by (auto simp: Find_def bind_eq_None_conv)
  then show ?thesis by (auto simp: HashFind_def bind_eq_None_conv)
qed

lemma half_ge: "1024 \<le> unat (x :: u64) \<Longrightarrow> 512 \<le> drop_bit 1 x"
proof -
  assume "1024 \<le> unat x"
  moreover have "unat (drop_bit 1 x) = unat x div 2" by (simp add: drop_bit_eq_div unat_div)
  ultimately show ?thesis unfolding word_le_nat_alt by simp
qed

text \<open>The deletion of the last expected item of a large table.\<close>

theorem shrink_to_nothing:
  assumes "ht_ok ht" and key: "is_key ht key s" and there: "ht_map ht s \<noteq> None" and away: "shrinks_away ht"
  shows "\<exists>h1. HashDelete ht key = Some (1, h1) \<and> cBuckets h1 = 0 \<and> (\<forall>key'. HashFind h1 key' = None)"
proof -
  obtain k t where sh: "shape ht k t" "counts ht t"
    and half: "2 * (unat (cItems ht) + unat (cDeletedItems ht)) < 2 ^ k"
    using assms(1) by (auto simp: ht_ok_def)
  obtain key' where key': "KEY_TRUNC ht key = Some key'" "kval ht key' = Some s" "key_fit ht key'"
    using key by (auto simp: is_key_def)
  note room = ok_room [OF sh half]
  obtain l where l: "found (kof ht) (tab_at t) s l" using ht_map_found(1) [OF sh(1), of s] there by auto
  obtain it where it: "tab_at t l = Some it" "kof ht it = Some s" using l by (auto simp: found_def)
  let ?h1 = "ht\<lparr>posLastFind := Item (ptr_of t l)\<rparr>"
  obtain e where F: "Find ht key' False = Some (Some (ptr_of t l), e, ?h1)"
    using Find_found [OF sh(1) room key'(2,3) l] by blast
  have "same_content ht ?h1" by (simp add: same_content_def)
  note sc = same_content_parts [OF this]
  have sh1: "shape ?h1 k t" "counts ?h1 t" "kof ?h1 it = Some s" using sh it(2) sc(1-3) by simp_all
  have half1: "2 * (unat (cItems ?h1) + unat (cDeletedItems ?h1)) < 2 ^ k"
    and last1: "posLastFind ?h1 = Item (ptr_of t l)" using half by simp_all
  obtain t' where dl: "\<And>f. delete_last ?h1 f = do {
        h \<leftarrow> delete_shrink (marked ?h1 t') f;
        Some (1, h\<lparr>posLastFind := NoItem\<rparr>) }"
    and mk: "shape (marked ?h1 t') k t'" "counts (marked ?h1 t') t'"
      "Suc (unat (cItems ?h1 - 1)) = unat (cItems ?h1)"
    by (rule delete_last_marks [OF sh1(1,2) half1 last1 it(1) sh1(3)]) blast
  define h2 where "h2 = marked ?h1 t'"
  note mk' = mk [folded h2_def]
  have zero: "cItems h2 = 0" "cDeltaGoalSize h2 = 0"
    using mk(3) away by (auto simp: shrinks_away_def h2_def unat_eq_zero)
  have big: "too_big h2"
    using away zero half_ge [of "cBuckets ht"] by (simp add: too_big_def MIN_HASH_SIZE_def shrinks_away_def h2_def)
  have tab2: "ht_table h2 = Some t'" and tok2: "tab_ok t'" using mk'(1) by (auto simp: shape_def)
  have live: "live_locs t' = []"
  proof -
    have "card (live_at (kof h2) (tab_at t')) = 0"
      using mk'(1,2) live_items_card(1) [of "kof h2" home k "tab_at t'"] zero(1)
      by (simp add: counts_def shape_def)
    then have "live_at (kof h2) (tab_at t') = {}"
      using live_items_card(2) [of "kof h2" home k "tab_at t'"] mk'(1) by (simp add: shape_def)
    then show ?thesis using set_live_locs [of h2 t'] mk'(1) by (simp add: shape_def)
  qed
  obtain p i where first: "HashFirstBucket h2 = Some (p, h2\<lparr>ht_iter := Some i\<rparr>)"
    "case live_ptrs t' of [] \<Rightarrow> p = None | q # qs \<Rightarrow> p = Some q \<and> iter_valid t' i \<and> live_rest t' i = qs"
    by (rule HashFirst_eq [OF mk'(1)])
  have "p = None" using first(2) by (simp add: live_ptrs_locs [OF tok2] live)
  then have re: "Rehash h2 0 None =
      Some (None, h2\<lparr>ht_iter := Some i, ht_table := Some [], cBuckets := 0, cDeletedItems := 0\<rparr>)"
    using first(1) groups_shape [OF mk'(1)] tab2
    by (simp add: Rehash_def SparseAllocate_0 rehash_loop.simps [of _ _ _ _ None] SparseFree_def)
  let ?h3 = "h2\<lparr>ht_iter := Some i, ht_table := Some [], cBuckets := 0, cDeletedItems := 0, posLastFind := NoItem\<rparr>"
  have "delete_last ?h1 True = Some (1, ?h3)"
    unfolding dl h2_def [symmetric] using big zero re by (simp add: delete_shrink_def NextPow2_0)
  then have "HashDelete ht key = Some (1, ?h3)"
    using key'(1) F by (simp add: HashDelete_def Delete_def)
  moreover have "HashFind ?h3 key' = None" for key' by (rule find_in_nothing) simp
  ultimately show ?thesis by (intro exI [of _ ?h3]) simp
qed

text \<open>
  The calls that lead there: many insertions, the announcement of as many deletions, the deletions.
\<close>

lemma insert_all:
  "plain ht \<Longrightarrow> distinct xs \<Longrightarrow> \<forall>s \<in> set xs. c_string s \<and> ht_map ht s = None \<Longrightarrow> d \<noteq> DELETED \<Longrightarrow>
   unat (cItems ht) + length xs < 2 ^ 27 \<Longrightarrow>
   \<exists>h. run_table (map (\<lambda>s. OpInsert s d) xs) ht = Some ([], h) \<and> plain h \<and>
     unat (cItems h) = unat (cItems ht) + length xs \<and>
     (\<forall>s. ht_map h s = (if s \<in> set xs then Some d else ht_map ht s))"
proof (induction xs arbitrary: ht)
  case Nil
  then show ?case by simp
next
  case (Cons x xs)
  obtain p h where h: "HashInsert ht (str_key x) d = Some (Some p, h)" "plain h"
    "ht_map h = (ht_map ht)(x \<mapsto> d)"
    "unat (cItems h) = unat (cItems ht) + (if ht_map ht x = None then 1 else 0)"
    by (rule plain_insert [of ht x d]) (use Cons(2-6) in auto)
  have "unat (cItems h) = Suc (unat (cItems ht))" using h(4) Cons(4) by simp
  then show ?case using Cons(1) [OF h(2)] Cons(3-6) h(1,3) by fastforce
qed

lemma delete_all:
  "xs \<noteq> [] \<Longrightarrow> ht_ok ht \<Longrightarrow> cchKey ht = 0 \<Longrightarrow> distinct xs \<Longrightarrow>
   \<forall>s \<in> set xs. c_string s \<and> ht_map ht s \<noteq> None \<Longrightarrow> unat (cItems ht) = length xs \<Longrightarrow>
   cDeltaGoalSize ht = - int (length xs) \<Longrightarrow> 1024 \<le> unat (cBuckets ht) \<Longrightarrow> length xs < 2 ^ 27 \<Longrightarrow>
   \<exists>h. run_table (map OpDelete xs) ht = Some ([], h) \<and> cBuckets h = 0 \<and> (\<forall>key. HashFind h key = None)"
proof (induction xs arbitrary: ht)
  case Nil
  then show ?case by simp
next
  case (Cons x xs)
  have key: "is_key ht (str_key x) x" using is_key_string [of ht x "[]"] Cons(4,6) by simp
  show ?case
  proof (cases xs)
    case Nil
    then have "shrinks_away ht" using Cons(7-9) by (simp add: shrinks_away_def)
    then show ?thesis using shrink_to_nothing [OF Cons(3) key] Cons(6) Nil by auto
  next
    case (Cons y ys)
    have bound: "unat (cItems ht) + nat (max 0 (cDeltaGoalSize ht)) < 2 ^ 28"
      using Cons.prems(6,7,9) by simp
    have keep: "\<not> shrinks_away ht" using Cons.prems(6) Cons by (simp add: shrinks_away_def)
    obtain h where h: "HashDelete ht (str_key x) = Some (if ht_map ht x = None then 0 else 1, h)" "ht_ok h"
      "ht_map h = (ht_map ht)(x := None)" "cchKey h = cchKey ht"
      "unat (cItems h) = unat (cItems ht) - (if ht_map ht x = None then 0 else 1)"
      "ht_map ht x \<noteq> None \<longrightarrow> cDeltaGoalSize ht < -1 \<longrightarrow>
        cBuckets h = cBuckets ht \<and> cDeltaGoalSize h = cDeltaGoalSize ht + 1"
      using HashDelete_map [OF Cons.prems(2) key bound keep] by blast
    have "\<exists>h'. run_table (map OpDelete xs) h = Some ([], h') \<and> cBuckets h' = 0 \<and> (\<forall>key. HashFind h' key = None)"
      by (rule Cons.IH) (use Cons Cons.prems h in \<open>auto split: if_splits\<close>)
    then show ?thesis using h(1) by auto
  qed
qed

theorem announced_deletions:
  assumes "distinct xs" and "\<forall>s \<in> set xs. c_string s" and "256 \<le> length xs" and "length xs < 2 ^ 27" and "d \<noteq> DELETED"
  shows "\<exists>h0 h1 h2 h3. AllocateHashTable 0 save = Some h0 \<and>
    run_table (map (\<lambda>s. OpInsert s d) xs) h0 = Some ([], h1) \<and>
    HashSetDeltaGoalSize h1 (- int (length xs)) = (- int (length xs), h2) \<and>
    run_table (map OpDelete xs) h2 = Some ([], h3) \<and> cBuckets h3 = 0 \<and> (\<forall>key. HashFind h3 key = None)"
proof -
  obtain h0 where h0: "AllocateHashTable 0 save = Some h0" "plain h0" "ht_map h0 = Map.empty" "cItems h0 = 0"
    by (rule fresh_plain)
  obtain h1 where h1: "run_table (map (\<lambda>s. OpInsert s d) xs) h0 = Some ([], h1)" "plain h1"
    "unat (cItems h1) = length xs" "\<forall>s. ht_map h1 s = (if s \<in> set xs then Some d else ht_map h0 s)"
    using insert_all [OF h0(2) assms(1) _ assms(5)] assms(2,4) h0(3,4) by auto
  obtain h2 where h2: "HashSetDeltaGoalSize h1 (- int (length xs)) = (- int (length xs), h2)"
    by (simp add: HashSetDeltaGoalSize_def)
  have ok1: "ht_ok h1" using h1(2) by (simp add: plain_def)
  note d = SetDeltaGoalSize_map [OF ok1 h2]
  have f: "cItems h2 = cItems h1" "cBuckets h2 = cBuckets h1" "cchKey h2 = cchKey h1"
    using h2 by (auto simp: HashSetDeltaGoalSize_def)
  have big: "1024 \<le> unat (cBuckets h1)"
  proof -
    obtain k t where "shape h1 k t" "2 * (unat (cItems h1) + unat (cDeletedItems h1)) < 2 ^ k"
      using ok1 by (auto simp: ht_ok_def)
    then have k: "unat (cBuckets h1) = 2 ^ k" "512 < (2 :: nat) ^ k"
      using h1(3) assms(3) unat_2p [of k] by (auto simp: shape_def)
    then have "(2 :: nat) ^ 9 < 2 ^ k" by simp
    then have "9 < k" by (rule power_less_imp_less_exp [rotated]) simp
    then have "(2 :: nat) ^ 10 \<le> 2 ^ k" by (intro power_increasing) auto
    then show ?thesis using k(1) by simp
  qed
  have c0: "cchKey h1 = 0" using h1(2) by (simp add: plain_def)
  have "xs \<noteq> []" using assms(3) by auto
  then obtain h3 where "run_table (map OpDelete xs) h2 = Some ([], h3)" "cBuckets h3 = 0" "\<forall>key. HashFind h3 key = None"
    using delete_all [OF _ d(2) _ assms(1)] assms h1(3,4) d(3,4) f big c0 by auto
  then show ?thesis using h0(1) h1(1) h2 by blast
qed

end
