(* ===== verification/SpaceTable.thy ===== *)
theory SpaceTable
  imports HashClient Tsd
begin

text \<open>
  The table of spaces of the daemon. \<open>tsd_create\<close> (\<^verbatim>\<open>tsd.c\<close>) makes it with \<open>AllocateHashTable(0, 1)\<close>
  and inserts, for each configured space, the address of its element under the name in the
  configuration; the handlers look names up with \<open>HashFind\<close>. The model of the daemon holds the
  table as a map from names to elements (\<open>spaces\<close>); here the hash table itself is filled by the same
  loop and shown to answer as the map does.
\<close>

text \<open>The insertions of the loop; \<open>a\<close> is the address \<open>malloc\<close> gave for the element.\<close>

fun insert_spaces :: "sng_namespace list \<Rightarrow> u64 list \<Rightarrow> HashTable \<Rightarrow> HashTable option" where
  "insert_spaces (sp # sps) (a # as) ht = do {
     (_, ht') \<leftarrow> HashInsert ht (KPtr (Live (cname sp))) a;
     insert_spaces sps as ht' }"
| "insert_spaces _ _ ht = Some ht"

definition space_table :: "sng_namespace list \<Rightarrow> u64 list \<Rightarrow> HashTable option" where
  "space_table sps as = do {
     ht \<leftarrow> AllocateHashTable 0 1;
     insert_spaces sps as ht }"

text \<open>\<open>HashFind\<close> and the reading of \<open>hash_entry->data\<close>, as the handlers do.\<close>

definition lookup_space :: "HashTable \<Rightarrow> string \<Rightarrow> u64 option option" where
  "lookup_space ht name = do {
     (item, ht') \<leftarrow> HashFind ht (str_key name);
     case item of
       None \<Rightarrow> Some None
     | Some p \<Rightarrow> do { it \<leftarrow> item_at ht' p; Some (Some (bck_data it)) } }"

text \<open>What the heap holds at the addresses of the elements.\<close>

definition element_at ::
  "('t, 'r, 's) tsd_lib \<Rightarrow> sng_namespace list \<Rightarrow> u64 list \<Rightarrow> u64 \<rightharpoonup> ('t, 'r, 's) tsd_element" where
  "element_at L sps as = map_of (zip as (map (\<lambda>sp. create_element L sp (the (cstr (cname sp)))) sps))"

lemma lookup_space_map:
  assumes "plain ht" and "c_string name"
  shows "lookup_space ht name = Some (ht_map ht name)"
proof -
  obtain r ht' where "HashFind ht (str_key name) = Some (r, ht')"
    "(case r of None \<Rightarrow> Some None
      | Some p \<Rightarrow> do { it \<leftarrow> item_at ht' p; Some (Some (bck_data it)) }) = Some (ht_map ht name)"
    by (rule plain_find [OF assms])
  then show ?thesis by (simp add: lookup_space_def)
qed

lemma insert_plain_block:
  assumes "plain ht" and "cstr b = Some s" and "a \<noteq> DELETED" and "unat (cItems ht) < 2 ^ 27"
  obtains p ht' where "HashInsert ht (KPtr (Live b)) a = Some (Some p, ht')" and "plain ht'"
    and "ht_map ht' = (ht_map ht)(s \<mapsto> a)" and "unat (cItems ht') \<le> Suc (unat (cItems ht))"
proof -
  have c: "cchKey ht = 0" and ok: "ht_ok ht" using assms(1) by (auto simp: plain_def)
  have key: "is_key ht (KPtr (Live b)) s"
    using c assms(2) by (simp add: is_key_def KEY_TRUNC_def STORES_PTR_def kval_def KEY_PTR_def key_bytes_def key_fit_def)
  have bound: "unat (cItems ht) + nat (max 0 (cDeltaGoalSize ht)) < 2 ^ 28 - 1"
    using assms(1,4) by (auto simp: plain_def)
  obtain p ht' where ins: "HashInsert ht (KPtr (Live b)) a = Some (Some p, ht')" "ht_ok ht'"
    "ht_map ht' = (ht_map ht)(s \<mapsto> a)" "cchKey ht' = cchKey ht"
    "unat (cItems ht') = unat (cItems ht) + (if ht_map ht s = None then 1 else 0)"
    "cDeltaGoalSize ht' = (if ht_map ht s = None \<and> 0 < cDeltaGoalSize ht then cDeltaGoalSize ht - 1 else cDeltaGoalSize ht)"
    "sized_from ht ht'"
    using HashInsert_map [OF ok key assms(3) bound] by blast
  moreover have "plain ht'"
    using ins assms(1) by (auto simp: plain_def sized_from_def split: if_splits)
  ultimately show thesis using that by (auto split: if_splits)
qed

text \<open>The loops of the model and of the table in step; every address in the table is that of an element.\<close>

definition tables_agree ::
  "(u64 \<rightharpoonup> ('t, 'r, 's) tsd_element) \<Rightarrow> ('t, 'r, 's) spaces \<Rightarrow> HashTable \<Rightarrow> bool" where
  "tables_agree el tab ht \<longleftrightarrow> plain ht \<and>
     (\<forall>name. (ht_map ht name = None \<longrightarrow> tab name = None) \<and>
       (\<forall>a. ht_map ht name = Some a \<longrightarrow> el a \<noteq> None \<and> tab name = el a))"

lemma insert_spaces_agree:
  "create_spaces L os sps tab = Some (0, tab') \<Longrightarrow> tables_agree el tab ht \<Longrightarrow> length as = length sps \<Longrightarrow>
   DELETED \<notin> set as \<Longrightarrow> unat (cItems ht) + length sps < 2 ^ 27 \<Longrightarrow>
   (\<forall>(sp, a) \<in> set (zip sps as). el a = Some (create_element L sp (the (cstr (cname sp))))) \<Longrightarrow>
   \<exists>ht'. insert_spaces sps as ht = Some ht' \<and> tables_agree el tab' ht'"
proof (induction sps arbitrary: tab as ht)
  case Nil
  then show ?case by (cases as) auto
next
  case (Cons sp sps)
  then obtain a as' where as: "as = a # as'" by (cases as) auto
  obtain name where name: "cstr (cname sp) = Some name"
    and rest: "create_spaces L os sps (tab(name \<mapsto> create_element L sp name)) = Some (0, tab')"
    using Cons(2) by (auto simp: bind_Some_iff split: if_splits)
  have "plain ht" using Cons(3) by (simp add: tables_agree_def)
  then obtain p h where h: "HashInsert ht (KPtr (Live (cname sp))) a = Some (Some p, h)" "plain h"
    "ht_map h = (ht_map ht)(name \<mapsto> a)" "unat (cItems h) \<le> Suc (unat (cItems ht))"
    by (rule insert_plain_block [OF _ name, of ht a]) (use Cons(5,6) as in auto)
  have "tables_agree el (tab(name \<mapsto> create_element L sp name)) h"
    using Cons(3,7) h(2,3) name as by (auto simp: tables_agree_def split: option.splits)
  then have "\<exists>ht'. insert_spaces sps as' h = Some ht' \<and> tables_agree el tab' ht'"
    by (rule Cons(1) [OF rest]) (use Cons(4-7) as h(4) in auto)
  then show ?case using h(1) as by simp
qed

end
