(* ===== verification/Dense.thy ===== *)
theory Dense
  imports HashKey
begin

text \<open>
  The dense tables of \<^verbatim>\<open>contrib/libchash/libchash.c\<close>, the alternative to sparse ones: a plain array of
  buckets in which the data value \<open>EMPTY\<close> marks a free bucket. A \<open>DenseBucket *\<close> is an index of the
  array. Fresh memory from \<open>malloc\<close> holds arbitrary items (\<open>fresh\<close>).
\<close>

section \<open>Data\<close>

definition EMPTY :: u64 where
  "EMPTY = - 3"

record DenseBin =
  rgBuckets :: "HTItem list"

text \<open>The iterator without the fields \<open>bin\<close> and \<open>cBuckets\<close>: the table is an argument.\<close>

type_synonym DenseIterator = int

definition DENSE_IS_EMPTY :: "HTItem list \<Rightarrow> nat \<Rightarrow> bool option" where
  "DENSE_IS_EMPTY bin i = map_option (\<lambda>b. bck_data b = EMPTY) (elem bin i)"

definition DENSE_SET_EMPTY :: "HTItem list \<Rightarrow> nat \<Rightarrow> HTItem list option" where
  "DENSE_SET_EMPTY bin i = map_option (\<lambda>b. bin[i := b\<lparr>bck_data := EMPTY\<rparr>]) (elem bin i)"

definition DENSE_SET_OCCUPIED :: "HTItem list \<Rightarrow> nat \<Rightarrow> HTItem list option" where
  "DENSE_SET_OCCUPIED bin i = map_option (\<lambda>b. bin[i := b\<lparr>bck_data := 1\<rparr>]) (elem bin i)"

section \<open>Operations\<close>

text \<open>\<open>while (cBuckets--)\<close>: from the last bucket down.\<close>

fun dense_clear :: "HTItem list \<Rightarrow> nat \<Rightarrow> HTItem list option" where
  "dense_clear bin 0 = Some bin"
| "dense_clear bin (Suc n) = do { bin' \<leftarrow> DENSE_SET_EMPTY bin n; dense_clear bin' n }"

definition DenseClear :: "DenseBin \<Rightarrow> u64 \<Rightarrow> DenseBin option" where
  "DenseClear bin n = map_option (\<lambda>b. bin\<lparr>rgBuckets := b\<rparr>) (dense_clear (rgBuckets bin) (unat n))"

text \<open>The size of the block is computed in 64 bits.\<close>

definition DenseAllocate :: "(nat \<Rightarrow> HTItem) \<Rightarrow> u64 \<Rightarrow> (u64 \<times> DenseBin) option" where
  "DenseAllocate fresh n = do {
     bin \<leftarrow> DenseClear \<lparr>rgBuckets = map fresh [0..<unat (16 * n) div 16]\<rparr> n;
     Some (n, bin) }"

definition DenseFree :: "DenseBin \<Rightarrow> u64 \<Rightarrow> unit" where
  "DenseFree bin n = ()"

definition DenseIsEmpty :: "DenseBin \<Rightarrow> u64 \<Rightarrow> bool option" where
  "DenseIsEmpty bin location = DENSE_IS_EMPTY (rgBuckets bin) (unat location)"

definition DenseFind :: "DenseBin \<Rightarrow> u64 \<Rightarrow> nat option option" where
  "DenseFind bin location = do {
     empty \<leftarrow> DenseIsEmpty bin location;
     Some (if empty then None else Some (unat location)) }"

definition dense_load :: "DenseBin \<Rightarrow> nat \<Rightarrow> HTItem option" where
  "dense_load bin p = elem (rgBuckets bin) p"

definition dense_store :: "DenseBin \<Rightarrow> nat \<Rightarrow> HTItem \<Rightarrow> DenseBin option" where
  "dense_store bin p x = do {
     _ \<leftarrow> elem (rgBuckets bin) p;
     Some (bin\<lparr>rgBuckets := (rgBuckets bin)[p := x]\<rparr>) }"

definition DenseInsert :: "DenseBin \<Rightarrow> HTItem \<Rightarrow> u64 \<Rightarrow> bool \<Rightarrow> (nat \<times> bool \<times> DenseBin) option" where
  "DenseInsert bin x location fOverwrite = do {
     place \<leftarrow> DenseFind bin location;
     case place of
       Some p \<Rightarrow> do {
         bin' \<leftarrow> (if fOverwrite then dense_store bin p x else Some bin);
         Some (p, True, bin') }
     | None \<Rightarrow> do {
         bin' \<leftarrow> dense_store bin (unat location) x;
         Some (unat location, False, bin') } }"

text \<open>The loop of \<open>DenseNextBucket\<close> from position \<open>pos\<close> on.\<close>

function dense_next :: "DenseBin \<Rightarrow> nat \<Rightarrow> nat \<Rightarrow> (nat option \<times> DenseIterator) option" where
  "dense_next bin n pos =
     (if pos < n then do {
        empty \<leftarrow> DenseIsEmpty bin (of_nat pos);
        if \<not> empty then Some (Some pos, int pos) else dense_next bin n (Suc pos) }
      else Some (None, int pos))"
  by pat_completeness auto
termination by (relation "measure (\<lambda>(_, n, pos). n - pos)") auto

declare dense_next.simps [simp del]

definition DenseNextBucket :: "DenseBin \<Rightarrow> u64 \<Rightarrow> DenseIterator \<Rightarrow> (nat option \<times> DenseIterator) option" where
  "DenseNextBucket bin n iter = dense_next bin (unat n) (nat (iter + 1))"

definition DenseFirstBucket :: "DenseBin \<Rightarrow> u64 \<Rightarrow> (nat option \<times> DenseIterator) option" where
  "DenseFirstBucket bin n = DenseNextBucket bin n (-1)"

definition DenseMemory :: "u64 \<Rightarrow> u64 \<Rightarrow> u64" where
  "DenseMemory n cOcc = n * 16"

section \<open>A dense table as a partial function\<close>

definition dense_at :: "DenseBin \<Rightarrow> nat \<rightharpoonup> HTItem" where
  "dense_at bin l = (case elem (rgBuckets bin) l of
     None \<Rightarrow> None | Some b \<Rightarrow> if bck_data b = EMPTY then None else Some b)"

lemma elem_update: "elem (xs[i := x]) j = (if j = i \<and> i < length xs then Some x else elem xs j)"
  by (simp add: elem_def)

lemma dense_at_update:
  "l < length (rgBuckets bin) \<Longrightarrow> bck_data x \<noteq> EMPTY \<Longrightarrow>
   dense_at (bin\<lparr>rgBuckets := (rgBuckets bin)[l := x]\<rparr>) = (dense_at bin)(l \<mapsto> x)"
  by (simp add: dense_at_def elem_update fun_eq_iff)

lemma dense_at_bound: "dense_at bin l = Some x \<Longrightarrow> l < length (rgBuckets bin) \<and> rgBuckets bin ! l = x"
  by (auto simp: dense_at_def elem_def split: if_splits)

lemma DenseIsEmpty_at:
  "unat l < length (rgBuckets bin) \<Longrightarrow> DenseIsEmpty bin l = Some (dense_at bin (unat l) = None)"
  by (simp add: DenseIsEmpty_def DENSE_IS_EMPTY_def dense_at_def elem_def)

lemma DenseFind_at:
  "unat l < length (rgBuckets bin) \<Longrightarrow>
   DenseFind bin l = Some (if dense_at bin (unat l) = None then None else Some (unat l))"
  by (simp add: DenseFind_def DenseIsEmpty_at)

lemma dense_load_at: "dense_at bin l = Some x \<Longrightarrow> dense_load bin l = Some x"
  by (auto simp: dense_load_def elem_def dest: dense_at_bound)

lemma DenseInsert_at:
  assumes "unat l < length (rgBuckets bin)" and "bck_data x \<noteq> EMPTY"
  shows "\<exists>bin'. DenseInsert bin x l f = Some (unat l, dense_at bin (unat l) \<noteq> None, bin') \<and>
    length (rgBuckets bin') = length (rgBuckets bin) \<and>
    dense_at bin' = (if dense_at bin (unat l) = None \<or> f then (dense_at bin)(unat l \<mapsto> x) else dense_at bin)"
  using assms by (auto simp: DenseInsert_def DenseFind_at dense_store_def dense_at_update elem_def)

lemma dense_clear_all:
  "n \<le> length bin \<Longrightarrow> \<exists>bin'. dense_clear bin n = Some bin' \<and> length bin' = length bin \<and>
     (\<forall>i < length bin. bck_data (bin' ! i) = (if i < n then EMPTY else bck_data (bin ! i)))"
proof (induction n arbitrary: bin)
  case 0
  then show ?case by simp
next
  case (Suc n)
  let ?b = "bin[n := (bin ! n)\<lparr>bck_data := EMPTY\<rparr>]"
  obtain bin' where b: "dense_clear ?b n = Some bin'" "length bin' = length bin"
    "\<forall>i < length bin. bck_data (bin' ! i) = (if i < n then EMPTY else bck_data (?b ! i))"
    using Suc(1) [of ?b] Suc(2) by auto
  have "DENSE_SET_EMPTY bin n = Some ?b" using Suc(2) by (simp add: DENSE_SET_EMPTY_def elem_def)
  then show ?case using b Suc(2) by (auto simp: nth_list_update less_Suc_eq)
qed

lemma DenseAllocate_ok:
  assumes "unat n < 2 ^ 60"
  obtains bin where "DenseAllocate fresh n = Some (n, bin)" and "length (rgBuckets bin) = unat n"
    and "dense_at bin = Map.empty"
proof -
  have "unat (16 * n) = 16 * unat n" using assms by (simp add: unat_mult_lem [THEN iffD1])
  then have len: "unat (16 * n) div 16 = unat n" by simp
  obtain b where b: "dense_clear (map fresh [0..<unat n]) (unat n) = Some b" "length b = unat n"
    "\<forall>i < unat n. bck_data (b ! i) = EMPTY"
    using dense_clear_all [of "unat n" "map fresh [0..<unat n]"] by auto
  have "DenseAllocate fresh n = Some (n, \<lparr>rgBuckets = b\<rparr>)"
    by (simp add: DenseAllocate_def DenseClear_def len b(1))
  moreover have "dense_at \<lparr>rgBuckets = b\<rparr> = Map.empty"
    using b by (auto simp: dense_at_def elem_def fun_eq_iff)
  ultimately show thesis using that b(2) by simp
qed

text \<open>The occupied locations from \<open>pos\<close> on, in the order of the iterator.\<close>

definition dense_rest :: "DenseBin \<Rightarrow> nat \<Rightarrow> nat list" where
  "dense_rest bin pos = filter (\<lambda>l. dense_at bin l \<noteq> None) [pos..<length (rgBuckets bin)]"

lemma dense_next_rest:
  assumes "length (rgBuckets bin) < 2 ^ 64"
  shows "case dense_rest bin pos of
      [] \<Rightarrow> \<exists>i. dense_next bin (length (rgBuckets bin)) pos = Some (None, i)
    | l # ls \<Rightarrow> dense_next bin (length (rgBuckets bin)) pos = Some (Some l, int l) \<and> ls = dense_rest bin (Suc l)"
proof (induction "length (rgBuckets bin) - pos" arbitrary: pos)
  case 0
  then show ?case by (simp add: dense_rest_def dense_next.simps [of _ _ pos])
next
  case (Suc d)
  then have pos: "pos < length (rgBuckets bin)" by simp
  have u: "unat (of_nat pos :: u64) = pos" using pos assms by (simp add: unsigned_of_nat take_bit_nat_eq_self)
  have e: "DenseIsEmpty bin (of_nat pos) = Some (dense_at bin pos = None)"
    using DenseIsEmpty_at [of "of_nat pos" bin] pos u by simp
  have r: "dense_rest bin pos = (if dense_at bin pos = None then [] else [pos]) @ dense_rest bin (Suc pos)"
    using pos by (simp add: dense_rest_def upt_conv_Cons)
  show ?case
  proof (cases "dense_at bin pos")
    case None
    then have "dense_next bin (length (rgBuckets bin)) pos = dense_next bin (length (rgBuckets bin)) (Suc pos)"
      using e pos by (simp add: dense_next.simps [of _ _ pos])
    moreover have "dense_rest bin pos = dense_rest bin (Suc pos)" using r None by simp
    moreover have "d = length (rgBuckets bin) - Suc pos" using Suc(2) by simp
    ultimately show ?thesis using Suc(1) [of "Suc pos"] by (simp only:)
  next
    case (Some x)
    then show ?thesis using r e pos by (simp add: dense_next.simps [of _ _ pos])
  qed
qed

end
