(* ===== verification/HashFile.thy ===== *)
theory HashFile
  imports HashTable Dense Wire
begin

text \<open>
  Saving tables to a file and loading them (\<^verbatim>\<open>contrib/libchash/libchash.c\<close>), and the debugging print.
  A \<open>FILE\<close> is its bytes and a position; a read past the end, which leaves the destination
  uninitialised, is a fault. Blocks from \<open>malloc\<close> hold arbitrary items (\<open>fresh\<close>). A pointer into a
  block is the rest of the block from there on. \<open>long\<close> has 64 bits and is stored lowest byte first.
\<close>

section \<open>Files\<close>

record cfile =
  fl_bytes :: bytes
  fl_pos :: nat

definition fwrite :: "bytes \<Rightarrow> cfile \<Rightarrow> cfile" where
  "fwrite b f = (let old = fl_bytes f @ replicate (fl_pos f - length (fl_bytes f)) nul in
     \<lparr>fl_bytes = take (fl_pos f) old @ b @ drop (fl_pos f + length b) old, fl_pos = fl_pos f + length b\<rparr>)"

definition fread :: "nat \<Rightarrow> cfile \<Rightarrow> (bytes \<times> cfile) option" where
  "fread n f =
     (if fl_pos f + n \<le> length (fl_bytes f)
      then Some (take n (drop (fl_pos f) (fl_bytes f)), f\<lparr>fl_pos := fl_pos f + n\<rparr>) else None)"

definition fseek_set :: "nat \<Rightarrow> cfile \<Rightarrow> cfile" where
  "fseek_set p f = f\<lparr>fl_pos := p\<rparr>"

definition fseek_end :: "cfile \<Rightarrow> cfile" where
  "fseek_end f = f\<lparr>fl_pos := length (fl_bytes f)\<rparr>"

text \<open>
  \<open>WRITE_UL\<close> and \<open>READ_UL\<close> go through \<open>htonl\<close> and \<open>ntohl\<close>, which have 32 bits, and a \<open>long\<close>, which
  has 64: four bytes in network order and four zero bytes.
\<close>

definition WRITE_UL :: "u64 \<Rightarrow> cfile \<Rightarrow> cfile" where
  "WRITE_UL d f = fwrite (be32 (ucast d) @ replicate 4 nul) f"

definition READ_UL :: "cfile \<Rightarrow> (u64 \<times> cfile) option" where
  "READ_UL f = do {
     (b, f') \<leftarrow> fread 8 f;
     Some (of_nat (le_nat (rev (take 4 b))), f') }"

section \<open>Tables of buckets\<close>

definition SparseWrite :: "'b SparseBin list \<Rightarrow> u64 \<Rightarrow> cfile \<Rightarrow> cfile option" where
  "SparseWrite bins n f = do {
     check (unat (SPARSE_GROUPS n) \<le> length bins);
     Some (fold (\<lambda>b f. fold WRITE_UL (take (2 ^ LOG_BM_WORDS) (bmOccupied b)) f)
       (take (unat (SPARSE_GROUPS n)) bins) (WRITE_UL n f)) }"

text \<open>The loop of \<open>SparseRead\<close> over the groups.\<close>

fun sparse_read_groups ::
  "(nat \<Rightarrow> nat \<Rightarrow> 'b) \<Rightarrow> nat \<Rightarrow> nat \<Rightarrow> 'b SparseBin list \<Rightarrow> cfile \<Rightarrow> ('b SparseBin list \<times> cfile) option" where
  "sparse_read_groups fresh i 0 bins f = Some (bins, f)"
| "sparse_read_groups fresh i (Suc n) bins f = do {
     b \<leftarrow> elem bins i;
     (bm, f1) \<leftarrow> READ_UL f;
     cnt \<leftarrow> SPARSE_POS_TO_OFFSET [bm] (2 ^ LOG_LOW_BIN_SIZE);
     sparse_read_groups fresh (Suc i) n
       (bins[i := \<lparr>binSparse = map (fresh i) [0..<cnt], bmOccupied = [bm], cOccupied = cnt\<rparr>]) f1 }"

definition SparseRead ::
  "(nat \<Rightarrow> nat \<Rightarrow> 'b) \<Rightarrow> cfile \<Rightarrow> (u64 \<times> 'b SparseBin list \<times> cfile) option" where
  "SparseRead fresh f = do {
     (n, f1) \<leftarrow> READ_UL f;
     (n', bins) \<leftarrow> SparseAllocate n;
     (bins', f2) \<leftarrow> sparse_read_groups fresh 0 (unat (SPARSE_GROUPS n')) bins f1;
     Some (n', bins', f2) }"

text \<open>
  Dense tables: the inner loop over the bits of a word, from \<open>bit\<close> on, which also ends at the last
  bucket, and the outer loop over the words.
\<close>

function dense_word :: "DenseBin \<Rightarrow> nat \<Rightarrow> nat \<Rightarrow> nat \<Rightarrow> u64 list \<Rightarrow> (nat \<times> u64 list) option" where
  "dense_word bin n b pos bm =
     (if b < 64 then do {
        empty \<leftarrow> DenseIsEmpty bin (of_nat pos);
        bm' \<leftarrow> (if \<not> empty then SET_BITMAP bm b else Some bm);
        if Suc pos = n then Some (Suc pos, bm') else dense_word bin n (Suc b) (Suc pos) bm' }
      else Some (pos, bm))"
  by pat_completeness auto
termination by (relation "measure (\<lambda>(_, _, b, _, _). 64 - b)") auto

partial_function (option) dense_write_words :: "DenseBin \<Rightarrow> nat \<Rightarrow> nat \<Rightarrow> cfile \<Rightarrow> cfile option" where
  "dense_write_words bin n pos f =
     (if pos < n then do {
        (pos', bm) \<leftarrow> dense_word bin n 0 pos [0];
        w \<leftarrow> elem bm 0;
        dense_write_words bin n pos' (WRITE_UL w f) }
      else Some f)"

definition DenseWrite :: "DenseBin \<Rightarrow> u64 \<Rightarrow> cfile \<Rightarrow> cfile option" where
  "DenseWrite bin n f = dense_write_words bin (unat n) 0 (WRITE_UL n f)"

function dense_unword :: "HTItem list \<Rightarrow> nat \<Rightarrow> nat \<Rightarrow> nat \<Rightarrow> u64 list \<Rightarrow> (nat \<times> HTItem list) option" where
  "dense_unword bs n b pos bm =
     (if b < 64 then do {
        set \<leftarrow> TEST_BITMAP bm b;
        bs' \<leftarrow> (if set then DENSE_SET_OCCUPIED bs pos else DENSE_SET_EMPTY bs pos);
        if Suc pos = n then Some (Suc pos, bs') else dense_unword bs' n (Suc b) (Suc pos) bm }
      else Some (pos, bs))"
  by pat_completeness auto
termination by (relation "measure (\<lambda>(_, _, b, _, _). 64 - b)") auto

declare dense_word.simps [simp del] dense_unword.simps [simp del]

partial_function (option) dense_read_words ::
  "HTItem list \<Rightarrow> nat \<Rightarrow> nat \<Rightarrow> cfile \<Rightarrow> (HTItem list \<times> cfile) option" where
  "dense_read_words bs n pos f =
     (if pos < n then do {
        (bm, f1) \<leftarrow> READ_UL f;
        (pos', bs') \<leftarrow> dense_unword bs n 0 pos [bm];
        dense_read_words bs' n pos' f1 }
      else Some (bs, f))"

definition DenseRead :: "(nat \<Rightarrow> HTItem) \<Rightarrow> cfile \<Rightarrow> (u64 \<times> DenseBin \<times> cfile) option" where
  "DenseRead fresh f = do {
     (n, f1) \<leftarrow> READ_UL f;
     (n', bin) \<leftarrow> DenseAllocate fresh n;
     (bs, f2) \<leftarrow> dense_read_words (rgBuckets bin) (unat n') 0 f1;
     Some (n', bin\<lparr>rgBuckets := bs\<rparr>, f2) }"

section \<open>Saving\<close>

text \<open>
  \<open>dataWrite\<close>: with no file it gives the number of bytes, with a file it writes them.
\<close>

type_synonym data_writer = "cfile option \<Rightarrow> u64 \<Rightarrow> int \<times> cfile"

text \<open>The bytes of a key: \<open>strlen + 1\<close> or \<open>cchKey\<close> of them.\<close>

definition key_image :: "HashTable \<Rightarrow> hkey \<Rightarrow> bytes option" where
  "key_image ht key = do {
     b \<leftarrow> KEY_PTR ht key;
     s \<leftarrow> key_bytes ht b;
     Some (if cchKey ht = 0 then c_bytes s else s) }"

partial_function (option) save_keys :: "HashTable \<Rightarrow> bckptr option \<Rightarrow> cfile \<Rightarrow> (HashTable \<times> cfile) option" where
  "save_keys ht bck f = (case bck of
     None \<Rightarrow> Some (ht, f)
   | Some p \<Rightarrow> do {
       t \<leftarrow> ht_table ht;
       b \<leftarrow> bck_load t p;
       k \<leftarrow> key_image ht (bck_key b);
       (bck', ht') \<leftarrow> HashNextBucket ht;
       save_keys ht' bck' (fwrite k f) })"

definition save_datum :: "data_writer option \<Rightarrow> HTItem \<Rightarrow> cfile \<Rightarrow> cfile" where
  "save_datum dataWrite b f = (case dataWrite of
     None \<Rightarrow> WRITE_UL (bck_data b) f
   | Some dw \<Rightarrow>
       if IS_BCK_DELETED b then WRITE_UL (bck_data b) f
       else snd (dw (Some (WRITE_UL (word_of_int (fst (dw None (bck_data b)))) f)) (bck_data b)))"

partial_function (option) save_data ::
  "data_writer option \<Rightarrow> HTItem SparseBin list \<Rightarrow> u64 \<Rightarrow> bckptr option \<Rightarrow> SparseIterator \<Rightarrow> cfile \<Rightarrow>
   (SparseIterator \<times> cfile) option" where
  "save_data dataWrite t n bck it f = (case bck of
     None \<Rightarrow> Some (it, f)
   | Some p \<Rightarrow> do {
       b \<leftarrow> bck_load t p;
       (bck', it') \<leftarrow> SparseNextBucket t n it;
       save_data dataWrite t n bck' it' (save_datum dataWrite b f) })"

definition MAGIC_KEY :: bytes where
  "MAGIC_KEY = ''CHsh''"

definition HashSave :: "cfile \<Rightarrow> HashTable \<Rightarrow> data_writer option \<Rightarrow> (HashTable \<times> cfile) option" where
  "HashSave fp ht dataWrite = do {
     t \<leftarrow> ht_table ht;
     let f = WRITE_UL (cDeletedItems ht) (WRITE_UL (cItems ht) (WRITE_UL (of_nat (cchKey ht)) (fwrite MAGIC_KEY fp)));
     f \<leftarrow> SparseWrite t (cBuckets ht) f;
     let f = WRITE_UL 0 f;
     let posStart = fl_pos f;
     (bck, ht1) \<leftarrow> HashFirstBucket ht;
     (ht2, f) \<leftarrow> save_keys ht1 bck f;
     let cchData = fl_pos f - posStart;
     let f = fseek_end (WRITE_UL (of_nat cchData) (fseek_set (posStart - 8) f));
     (bck, it) \<leftarrow> SparseFirstBucket t (cBuckets ht2);
     (it', f) \<leftarrow> save_data dataWrite t (cBuckets ht2) bck it f;
     Some (ht2\<lparr>ht_iter := Some it'\<rparr>, f) }"

section \<open>Loading\<close>

type_synonym data_reader = "cfile \<Rightarrow> int \<Rightarrow> u64 \<times> cfile"

text \<open>The key of a bucket is set to the place in the block of keys, or copied from there.\<close>

definition load_key :: "HashTable \<Rightarrow> bytes \<Rightarrow> nat \<Rightarrow> hkey \<Rightarrow> (hkey \<times> nat) option" where
  "load_key ht keys off old =
     (if cchKey ht = 0 then do {
        s \<leftarrow> cstr (drop off keys);
        Some (KPtr (Live (drop off keys)), off + length s + 1) }
      else if STORES_PTR ht then Some (KPtr (Live (drop off keys)), off + cchKey ht)
      else do {
        check (off + cchKey ht \<le> length keys);
        w \<leftarrow> (case old of KImm w \<Rightarrow> Some w | KPtr _ \<Rightarrow> None);
        Some (KImm (of_nat (le_nat (take (cchKey ht) (drop off keys) @ drop (cchKey ht) (nat_le 8 (unat w))))),
          off + cchKey ht) })"

text \<open>The data of a live bucket: read, or left in the file and its place noted (\<open>disk\<close>).\<close>

definition load_datum :: "data_reader option \<Rightarrow> bool \<Rightarrow> HTItem \<Rightarrow> cfile \<Rightarrow> HTItem \<times> cfile" where
  "load_datum dataRead disk b f = (case dataRead of
     None \<Rightarrow> (b, f)
   | Some dr \<Rightarrow>
       if \<not> disk then (let (d, f') = dr f (sint (ucast (bck_data b) :: u32)) in (b\<lparr>bck_data := d\<rparr>, f'))
       else (let f' = fseek_set (fl_pos f + unat (bck_data b)) f in
         (b\<lparr>bck_data := of_nat (fl_pos f') - bck_data b - 8\<rparr>, f')))"

partial_function (option) load_items ::
  "data_reader option \<Rightarrow> bool \<Rightarrow> bytes \<Rightarrow> HashTable \<Rightarrow> bckptr option \<Rightarrow> SparseIterator \<Rightarrow> nat \<Rightarrow> cfile \<Rightarrow>
   (HashTable \<times> nat \<times> cfile) option" where
  "load_items dataRead disk keys ht bck it off f = (case bck of
     None \<Rightarrow> Some (ht\<lparr>ht_iter := Some it\<rparr>, off, f)
   | Some p \<Rightarrow> do {
       (d, f1) \<leftarrow> READ_UL f;
       t \<leftarrow> ht_table ht;
       b \<leftarrow> bck_load t p;
       (b', off', f2) \<leftarrow> (let b = b\<lparr>bck_data := d\<rparr> in
         if IS_BCK_DELETED b then Some (b, off, f1)
         else do {
           let (b, f2) = load_datum dataRead disk b f1;
           (k, off') \<leftarrow> load_key ht keys off (bck_key b);
           Some (b\<lparr>bck_key := k\<rparr>, off', f2) });
       t' \<leftarrow> bck_store t p b';
       (bck', it') \<leftarrow> SparseNextBucket t' (cBuckets ht) it;
       load_items dataRead disk keys (ht\<lparr>ht_table := Some t'\<rparr>) bck' it' off' f2 })"

text \<open>\<open>Inl\<close> is the code given to \<open>exit\<close>.\<close>

definition HashDoLoad ::
  "(nat \<Rightarrow> nat \<Rightarrow> HTItem) \<Rightarrow> cfile \<Rightarrow> data_reader option \<Rightarrow> bool \<Rightarrow> HashTable \<Rightarrow> (int + HashTable \<times> cfile) option" where
  "HashDoLoad fresh fp dataRead disk ht = do {
     (szMagicKey, f) \<leftarrow> fread 4 fp;
     if szMagicKey \<noteq> MAGIC_KEY then Some (Inl 3)
     else do {
       t0 \<leftarrow> ht_table ht;
       _ \<leftarrow> SparseFree t0 (cBuckets ht);
       (k, f) \<leftarrow> READ_UL f;
       (i, f) \<leftarrow> READ_UL f;
       (d, f) \<leftarrow> READ_UL f;
       (n, t, f) \<leftarrow> SparseRead fresh f;
       (cch, f) \<leftarrow> READ_UL f;
       (rgchKeys, f) \<leftarrow> fread (unat cch) f;
       let ht1 = ht\<lparr>cchKey := unat k, cItems := i, cDeletedItems := d, cBuckets := n, ht_table := Some t\<rparr>;
       (bck, it) \<leftarrow> SparseFirstBucket t n;
       (ht2, off, f) \<leftarrow> load_items dataRead disk rgchKeys ht1 bck it 0 f;
       check (STORES_PTR ht2 \<or> cch = 0 \<or> off = unat cch);
       Some (Inr (ht2, f)) } }"

definition HashLoad ::
  "(nat \<Rightarrow> nat \<Rightarrow> HTItem) \<Rightarrow> cfile \<Rightarrow> data_reader option \<Rightarrow> (int + HashTable \<times> cfile) option" where
  "HashLoad fresh fp dataRead = do {
     ht \<leftarrow> AllocateHashTable 0 2;
     HashDoLoad fresh fp dataRead False ht }"

text \<open>
  A table whose data stay in the file: \<open>fpData\<close> and \<open>bckData\<close> of the structure. \<open>HashLoadKeys\<close> without
  a reader is \<open>HashLoad\<close>.
\<close>

record DiskTable =
  dk_table :: HashTable
  fpData :: "cfile option"
  dk_read :: "data_reader option"
  bckData :: "u64 \<times> hkey option"

definition HashLoadKeys ::
  "(nat \<Rightarrow> nat \<Rightarrow> HTItem) \<Rightarrow> cfile \<Rightarrow> data_reader option \<Rightarrow> (int + DiskTable) option" where
  "HashLoadKeys fresh fp dataRead = do {
     r \<leftarrow> (case dataRead of
        None \<Rightarrow> HashLoad fresh fp None
      | Some dr \<Rightarrow> do { ht \<leftarrow> AllocateHashTable 0 2; HashDoLoad fresh fp (Some dr) True ht });
     Some (case r of
       Inl e \<Rightarrow> Inl e
     | Inr (ht, f) \<Rightarrow> Inr \<lparr>dk_table = ht, fpData = (if dataRead = None then None else Some f),
         dk_read = dataRead, bckData = (0, None)\<rparr>) }"

text \<open>\<open>LOAD_AND_RETURN\<close>: the item, with its data read from the file when they are there.\<close>

definition LOAD_AND_RETURN ::
  "(HashTable \<Rightarrow> (bckptr option \<times> HashTable) option) \<Rightarrow> DiskTable \<Rightarrow> ((u64 \<times> hkey) option \<times> DiskTable) option" where
  "LOAD_AND_RETURN loadCommand dk = do {
     (bck, ht) \<leftarrow> loadCommand (dk_table dk);
     let dk = dk\<lparr>dk_table := ht\<rparr>;
     item \<leftarrow> (case bck of
        None \<Rightarrow> Some None
      | Some p \<Rightarrow> do { t \<leftarrow> ht_table ht; b \<leftarrow> bck_load t p; Some (Some b) });
     case fpData dk of
       None \<Rightarrow> Some (map_option (\<lambda>b. (bck_data b, bck_key b)) item, dk)
     | Some fp \<Rightarrow> (case item of
         None \<Rightarrow> Some (None, dk\<lparr>bckData := (0, snd (bckData dk))\<rparr>)
       | Some b \<Rightarrow> do {
           (cchData, f) \<leftarrow> READ_UL (fseek_set (unat (bck_data b)) fp);
           dr \<leftarrow> dk_read dk;
           let (d, f') = dr f (sint (ucast cchData :: u32));
           Some (Some (d, bck_key b), dk\<lparr>fpData := Some f', bckData := (d, Some (bck_key b))\<rparr>) }) }"

section \<open>Printing\<close>

text \<open>The lines that \<open>PrintHashTable\<close> prints for the items: the key as a string, or as a number.\<close>

datatype printed = PrintString bytes u64 | PrintNumber hkey u64

definition print_item :: "HashTable \<Rightarrow> int \<Rightarrow> HTItem \<Rightarrow> printed list option" where
  "print_item ht iForm item =
     (if iForm = 0 then Some []
      else if iForm = 2 \<and> (cchKey ht = 0 \<or> STORES_PTR ht) then do {
        b \<leftarrow> KEY_PTR ht (bck_key item);
        s \<leftarrow> key_bytes ht b;
        Some [PrintString (takeWhile (\<lambda>c. c \<noteq> nul) s) (bck_data item)] }
      else Some [PrintNumber (bck_key item) (bck_data item)])"

text \<open>The bytes of key and data of an item, as they are counted.\<close>

definition item_size :: "HashTable \<Rightarrow> HTItem \<Rightarrow> u64 option" where
  "item_size ht item =
     (if STORES_PTR ht then
        (if cchKey ht = 0 then do {
           b \<leftarrow> KEY_PTR ht (bck_key item);
           s \<leftarrow> cstr b;
           Some (of_nat (WORD_ROUND (length s + 1)) + 8) }
         else Some (of_nat (cchKey ht) + 8))
      else Some 16)"

partial_function (option) print_loop ::
  "HashTable \<Rightarrow> int \<Rightarrow> HTItem SparseBin list \<Rightarrow> bckptr option \<Rightarrow> SparseIterator \<Rightarrow>
   u64 \<times> u64 \<times> u64 \<times> printed list \<Rightarrow> (SparseIterator \<times> u64 \<times> u64 \<times> u64 \<times> printed list) option" where
  "print_loop ht iForm t bck it acc = (case bck of
     None \<Rightarrow> Some (it, acc)
   | Some p \<Rightarrow> do {
       item \<leftarrow> bck_load t p;
       acc' \<leftarrow> (case acc of (cOcc, cIt, cbData, ls) \<Rightarrow>
         if IS_BCK_DELETED item then Some (cOcc + 1, cIt, cbData, ls)
         else do {
           sz \<leftarrow> item_size ht item;
           l \<leftarrow> print_item ht iForm item;
           Some (cOcc + 1, cIt + 1, cbData + sz, ls @ l) });
       (bck', it') \<leftarrow> SparseNextBucket t (cBuckets ht) it;
       print_loop ht iForm t bck' it' acc' })"

text \<open>
  The statistics: buckets, bytes of the table, empty, deleted, items, bytes of the items. The values
  subtracted from \<open>cbBin\<close> in the loop are overwritten before they are used, so they are left ls.
\<close>

definition PrintHashTable ::
  "HashTable \<Rightarrow> int \<Rightarrow> (u64 \<times> printed list \<times> u64 list \<times> HashTable) option" where
  "PrintHashTable ht iForm = do {
     t \<leftarrow> ht_table ht;
     (bck, it) \<leftarrow> SparseFirstBucket t (cBuckets ht);
     (it', cOcc, cIt, cbData, ls) \<leftarrow> print_loop ht iForm t bck it (0, 0, 0, []);
     check (cIt = cItems ht);
     let cbBin = SparseMemory (cBuckets ht) cOcc;
     Some (cbData + cbBin, ls,
       [cBuckets ht, cbBin, cBuckets ht - cOcc, cOcc - cItems ht, cItems ht, cbData, cbData + cbBin, cbBin],
       ht\<lparr>ht_iter := Some it'\<rparr>) }"

end
