(* ===== verification/BucketTable.thy ===== *)
theory BucketTable
  imports SparseIter Dense
begin

text \<open>
  What the hash table asks of its table of buckets (\<open>Table(x)\<close> of \<^verbatim>\<open>libchash.h\<close>), as a locale: searching,
  inserting and iterating on a partial function from locations to buckets. Sparse and dense tables
  both meet it, so a sequence of insertions leaves the same buckets, found and visited alike.
\<close>

section \<open>Clients of a table\<close>

text \<open>A sequence of insertions (location, bucket, overwrite); the flags that come back.\<close>

primrec put_all ::
  "('t \<Rightarrow> 'b \<Rightarrow> u64 \<Rightarrow> bool \<Rightarrow> ('p \<times> bool \<times> 't) option) \<Rightarrow> (u64 \<times> 'b \<times> bool) list \<Rightarrow> 't \<Rightarrow> (bool list \<times> 't) option" where
  "put_all ins [] t = Some ([], t)"
| "put_all ins (op # ops) t = do {
     (_, f, t') \<leftarrow> ins t (fst (snd op)) (fst op) (snd (snd op));
     (fs, t'') \<leftarrow> put_all ins ops t';
     Some (f # fs, t'') }"

text \<open>Search and load.\<close>

definition fetch :: "('t \<Rightarrow> u64 \<Rightarrow> 'p option option) \<Rightarrow> ('t \<Rightarrow> 'p \<Rightarrow> 'b option) \<Rightarrow> 't \<Rightarrow> u64 \<Rightarrow> 'b option option" where
  "fetch look ld t l = do {
     p \<leftarrow> look t l;
     case p of None \<Rightarrow> Some None | Some q \<Rightarrow> do { b \<leftarrow> ld t q; Some (Some b) } }"

text \<open>A loop from the first to the last bucket.\<close>

partial_function (option) visit_from ::
  "('i \<Rightarrow> ('p option \<times> 'i) option) \<Rightarrow> ('p \<Rightarrow> 'b option) \<Rightarrow> 'p option \<Rightarrow> 'i \<Rightarrow> 'b list option" where
  "visit_from nxt ld p i = (case p of
     None \<Rightarrow> Some []
   | Some q \<Rightarrow> do {
       b \<leftarrow> ld q;
       (p', i') \<leftarrow> nxt i;
       bs \<leftarrow> visit_from nxt ld p' i';
       Some (b # bs) })"

definition visit_all ::
  "('t \<Rightarrow> ('p option \<times> 'i) option) \<Rightarrow> ('t \<Rightarrow> 'i \<Rightarrow> ('p option \<times> 'i) option) \<Rightarrow> ('t \<Rightarrow> 'p \<Rightarrow> 'b option) \<Rightarrow>
   't \<Rightarrow> 'b list option" where
  "visit_all fst_b nxt ld t = do { (p, i) \<leftarrow> fst_b t; visit_from (nxt t) (ld t) p i }"

text \<open>The same on partial functions.\<close>

fun put_map :: "(u64 \<times> 'b \<times> bool) list \<Rightarrow> (nat \<rightharpoonup> 'b) \<Rightarrow> bool list \<times> (nat \<rightharpoonup> 'b)" where
  "put_map [] m = ([], m)"
| "put_map ((l, x, f) # ops) m = (
     let (fs, m') = put_map ops (if m (unat l) = None \<or> f then m(unat l \<mapsto> x) else m)
     in ((m (unat l) \<noteq> None) # fs, m'))"

section \<open>The contract\<close>

locale bucket_table =
  fixes ok :: "'t \<Rightarrow> bool" and cells :: "'t \<Rightarrow> nat" and at :: "'t \<Rightarrow> nat \<rightharpoonup> 'b" and loc :: "'t \<Rightarrow> nat \<Rightarrow> 'p"
    and storable :: "'b \<Rightarrow> bool" and valid :: "'t \<Rightarrow> 'i \<Rightarrow> nat list \<Rightarrow> bool"
    and look :: "'t \<Rightarrow> u64 \<Rightarrow> 'p option option" and ins :: "'t \<Rightarrow> 'b \<Rightarrow> u64 \<Rightarrow> bool \<Rightarrow> ('p \<times> bool \<times> 't) option"
    and ld :: "'t \<Rightarrow> 'p \<Rightarrow> 'b option" and fst_b :: "'t \<Rightarrow> ('p option \<times> 'i) option"
    and nxt :: "'t \<Rightarrow> 'i \<Rightarrow> ('p option \<times> 'i) option"
  assumes look_at: "ok t \<Longrightarrow> unat l < cells t \<Longrightarrow>
      look t l = Some (if at t (unat l) = None then None else Some (loc t (unat l)))"
    and ld_at: "ok t \<Longrightarrow> at t j = Some x \<Longrightarrow> ld t (loc t j) = Some x"
    and ins_at: "ok t \<Longrightarrow> unat l < cells t \<Longrightarrow> storable x \<Longrightarrow>
      \<exists>p t'. ins t x l f = Some (p, at t (unat l) \<noteq> None, t') \<and> ok t' \<and> cells t' = cells t \<and>
        at t' = (if at t (unat l) = None \<or> f then (at t)(unat l \<mapsto> x) else at t)"
    and fst_at: "ok t \<Longrightarrow> (case filter (\<lambda>i. at t i \<noteq> None) [0..<cells t] of
        [] \<Rightarrow> \<exists>i. fst_b t = Some (None, i)
      | l # ls \<Rightarrow> \<exists>i. fst_b t = Some (Some (loc t l), i) \<and> valid t i ls)"
    and nxt_at: "ok t \<Longrightarrow> valid t i ls \<Longrightarrow> (case ls of
        [] \<Rightarrow> \<exists>i'. nxt t i = Some (None, i')
      | l # ls' \<Rightarrow> \<exists>i'. nxt t i = Some (Some (loc t l), i') \<and> valid t i' ls')"
begin

lemma put_all_map:
  "ok t \<Longrightarrow> \<forall>(l, x, f) \<in> set ops. unat l < cells t \<and> storable x \<Longrightarrow>
   \<exists>t'. put_all ins ops t = Some (fst (put_map ops (at t)), t') \<and> ok t' \<and> cells t' = cells t \<and>
     at t' = snd (put_map ops (at t))"
proof (induction ops arbitrary: t)
  case Nil
  then show ?case by simp
next
  case (Cons op ops)
  obtain l x f where op: "op = (l, x, f)" by (cases op)
  obtain p t1 where t1: "ins t x l f = Some (p, at t (unat l) \<noteq> None, t1)" "ok t1" "cells t1 = cells t"
    "at t1 = (if at t (unat l) = None \<or> f then (at t)(unat l \<mapsto> x) else at t)"
    using ins_at [OF Cons(2), of l x f] Cons(3) op by auto
  obtain t2 where "put_all ins ops t1 = Some (fst (put_map ops (at t1)), t2)" "ok t2" "cells t2 = cells t"
    "at t2 = snd (put_map ops (at t1))"
    using Cons(1) [OF t1(2)] Cons(3) t1(3) by auto
  then show ?case using t1(1,4) op by (simp add: case_prod_beta Let_def)
qed

lemma fetch_at: "ok t \<Longrightarrow> unat l < cells t \<Longrightarrow> fetch look ld t l = Some (at t (unat l))"
  by (auto simp: fetch_def look_at dest: ld_at)

lemma visit_from_at:
  "ok t \<Longrightarrow> \<forall>l \<in> set ls. at t l \<noteq> None \<Longrightarrow>
   (case ls of [] \<Rightarrow> p = None | l # ls' \<Rightarrow> p = Some (loc t l) \<and> valid t i ls') \<Longrightarrow>
   visit_from (nxt t) (ld t) p i = Some (map (\<lambda>l. the (at t l)) ls)"
proof (induction ls arbitrary: p i)
  case Nil
  then show ?case by (subst visit_from.simps) simp
next
  case (Cons l ls)
  obtain x where x: "at t l = Some x" using Cons(3) by auto
  have p: "p = Some (loc t l)" "valid t i ls" using Cons(4) by auto
  obtain p' i' where n: "nxt t i = Some (p', i')"
    "case ls of [] \<Rightarrow> p' = None | l # ls' \<Rightarrow> p' = Some (loc t l) \<and> valid t i' ls'"
    using nxt_at [OF Cons(2) p(2)] by (cases ls) auto
  then show ?case using Cons(1) [OF Cons(2) _ n(2)] Cons(3) ld_at [OF Cons(2) x] x p(1)
    by (subst visit_from.simps) simp
qed

lemma visit_all_at:
  assumes "ok t"
  shows "visit_all fst_b nxt ld t = Some (map (\<lambda>l. the (at t l)) (filter (\<lambda>i. at t i \<noteq> None) [0..<cells t]))"
proof -
  obtain p i where f: "fst_b t = Some (p, i)" "case filter (\<lambda>i. at t i \<noteq> None) [0..<cells t] of
      [] \<Rightarrow> p = None | l # ls \<Rightarrow> p = Some (loc t l) \<and> valid t i ls"
    using fst_at [OF assms] by (cases "filter (\<lambda>i. at t i \<noteq> None) [0..<cells t]") auto
  have "\<forall>l \<in> set (filter (\<lambda>i. at t i \<noteq> None) [0..<cells t]). at t l \<noteq> None" by simp
  then show ?thesis using visit_from_at [OF assms _ f(2)] f(1) by (simp add: visit_all_def)
qed

end

section \<open>Sparse tables\<close>

abbreviation sparse_ok :: "HTItem SparseBin list \<Rightarrow> bool" where
  "sparse_ok t \<equiv> tab_ok t \<and> 1 \<le> length t \<and> length t \<le> 2 ^ 24"

definition sparse_first :: "HTItem SparseBin list \<Rightarrow> (bckptr option \<times> SparseIterator) option" where
  "sparse_first t = SparseFirstBucket t (of_nat (64 * length t))"

definition sparse_next :: "HTItem SparseBin list \<Rightarrow> SparseIterator \<Rightarrow> (bckptr option \<times> SparseIterator) option" where
  "sparse_next t = SparseNextBucket t (of_nat (64 * length t))"

lemma unat_of_nat_64: "n < 2 ^ 64 \<Longrightarrow> unat (of_nat n :: u64) = n"
  by (simp add: unsigned_of_nat take_bit_nat_eq_self)

lemma groups_64:
  assumes "1 \<le> n" and "n \<le> 2 ^ 24"
  shows "unat (SPARSE_GROUPS (of_nat (64 * n))) = n"
proof -
  have "unat (of_nat (64 * n) :: u64) = 64 * n"
    using assms by (subst unat_of_nat_64) simp_all
  moreover have "(64 * n - 1) div 64 + 1 = n"
  proof -
    have "64 * n - 1 = 63 + 64 * (n - 1)" using assms(1) by simp
    then have "(64 * n - 1) div 64 = n - 1" by simp
    then show ?thesis using assms(1) by simp
  qed
  ultimately show ?thesis using unat_SPARSE_GROUPS [of "of_nat (64 * n)"] assms by simp
qed

interpretation sp: bucket_table sparse_ok "\<lambda>t. 64 * length t" tab_at ptr_of "\<lambda>_. True"
  "\<lambda>t i ls. iter_valid t i \<and> iter_rest t i = map (ptr_of t) ls"
  SparseFind SparseInsert bck_load sparse_first sparse_next
proof
  fix t :: "HTItem SparseBin list" and l :: u64 and x f
  assume ok: "sparse_ok t" and l: "unat l < 64 * length t"
  then show "SparseFind t l = Some (if tab_at t (unat l) = None then None else Some (ptr_of t (unat l)))"
    by (simp add: SparseFind_at)
  show "\<exists>p t'. SparseInsert t x l f = Some (p, tab_at t (unat l) \<noteq> None, t') \<and> sparse_ok t' \<and>
      64 * length t' = 64 * length t \<and>
      tab_at t' = (if tab_at t (unat l) = None \<or> f then (tab_at t)(unat l \<mapsto> x) else tab_at t)"
  proof (cases "tab_at t (unat l)")
    case None
    obtain t' where "SparseInsert t x l f = Some (ptr_of t' (unat l), False, t')" "tab_ok t'"
      "tab_at t' = (tab_at t)(unat l \<mapsto> x)" "length t' = length t"
      by (rule SparseInsert_empty [OF _ l None, of x f]) (use ok in auto)
    then show ?thesis using ok None by simp
  next
    case (Some y)
    show ?thesis
    proof (cases f)
      case True
      obtain t' where "SparseInsert t x l True = Some (ptr_of t' (unat l), True, t')" "tab_ok t'"
        "tab_at t' = (tab_at t)(unat l \<mapsto> x)" "length t' = length t"
        by (rule SparseInsert_over [OF _ Some, of x]) (use ok in auto)
      then show ?thesis using ok Some True by simp
    next
      case False
      then show ?thesis using SparseInsert_keep [OF _ Some, of x] ok Some by simp
    qed
  qed
next
  fix t :: "HTItem SparseBin list" and i x
  assume "sparse_ok t" "tab_at t i = Some x"
  then show "bck_load t (ptr_of t i) = Some x" by (simp add: bck_load_at)
next
  fix t :: "HTItem SparseBin list"
  assume ok: "sparse_ok t"
  then have g: "unat (SPARSE_GROUPS (of_nat (64 * length t))) = length t" using groups_64 [of "length t"] by simp
  show "case filter (\<lambda>i. tab_at t i \<noteq> None) [0..<64 * length t] of
      [] \<Rightarrow> \<exists>i. sparse_first t = Some (None, i)
    | l # ls \<Rightarrow> \<exists>i. sparse_first t = Some (Some (ptr_of t l), i) \<and>
        iter_valid t i \<and> iter_rest t i = map (ptr_of t) ls"
    using SparseFirstBucket_rest [OF g] occ_ptrs [of t, symmetric] ok
    unfolding occ_def [symmetric] sparse_first_def by (cases "occ t") auto
next
  fix t :: "HTItem SparseBin list" and i ls
  assume ok: "sparse_ok t" and v: "iter_valid t i \<and> iter_rest t i = map (ptr_of t) ls"
  then have g: "unat (SPARSE_GROUPS (of_nat (64 * length t))) = length t" using groups_64 [of "length t"] by simp
  show "case ls of [] \<Rightarrow> \<exists>i'. sparse_next t i = Some (None, i')
    | l # ls' \<Rightarrow> \<exists>i'. sparse_next t i = Some (Some (ptr_of t l), i') \<and>
        iter_valid t i' \<and> iter_rest t i' = map (ptr_of t) ls'"
    using SparseNextBucket_rest [OF g, of i] v by (cases ls) (simp_all add: sparse_next_def)
qed

section \<open>Dense tables\<close>

definition dense_first :: "DenseBin \<Rightarrow> (nat option \<times> DenseIterator) option" where
  "dense_first t = DenseFirstBucket t (of_nat (length (rgBuckets t)))"

definition dense_nxt :: "DenseBin \<Rightarrow> DenseIterator \<Rightarrow> (nat option \<times> DenseIterator) option" where
  "dense_nxt t = DenseNextBucket t (of_nat (length (rgBuckets t)))"

interpretation dn: bucket_table "\<lambda>t. length (rgBuckets t) < 2 ^ 64" "\<lambda>t. length (rgBuckets t)" dense_at "\<lambda>_ l. l"
  "\<lambda>x. bck_data x \<noteq> EMPTY" "\<lambda>t i ls. 0 \<le> i \<and> ls = dense_rest t (Suc (nat i))"
  DenseFind DenseInsert dense_load dense_first dense_nxt
proof
  fix t :: DenseBin and l :: u64 and x :: HTItem and f
  assume l: "unat l < length (rgBuckets t)"
  then show "DenseFind t l = Some (if dense_at t (unat l) = None then None else Some (unat l))"
    by (rule DenseFind_at)
  assume ok: "length (rgBuckets t) < 2 ^ 64" and x: "bck_data x \<noteq> EMPTY"
  show "\<exists>p t'. DenseInsert t x l f = Some (p, dense_at t (unat l) \<noteq> None, t') \<and> length (rgBuckets t') < 2 ^ 64 \<and>
      length (rgBuckets t') = length (rgBuckets t) \<and>
      dense_at t' = (if dense_at t (unat l) = None \<or> f then (dense_at t)(unat l \<mapsto> x) else dense_at t)"
    using DenseInsert_at [OF l x, of f] ok by auto
next
  fix t :: DenseBin and i x
  assume "dense_at t i = Some x"
  then show "dense_load t i = Some x" by (rule dense_load_at)
next
  fix t :: DenseBin
  assume ok: "length (rgBuckets t) < 2 ^ 64"
  then have u: "unat (of_nat (length (rgBuckets t)) :: u64) = length (rgBuckets t)" by (rule unat_of_nat_64)
  show "case filter (\<lambda>i. dense_at t i \<noteq> None) [0..<length (rgBuckets t)] of
      [] \<Rightarrow> \<exists>i. dense_first t = Some (None, i)
    | l # ls \<Rightarrow> \<exists>i. dense_first t = Some (Some l, i) \<and> 0 \<le> i \<and> ls = dense_rest t (Suc (nat i))"
    using dense_next_rest [OF ok, of 0]
    by (auto simp: dense_first_def DenseFirstBucket_def DenseNextBucket_def u dense_rest_def [of t 0] split: list.splits)
next
  fix t :: DenseBin and i ls
  assume ok: "length (rgBuckets t) < 2 ^ 64" and v: "0 \<le> i \<and> ls = dense_rest t (Suc (nat i))"
  note u = unat_of_nat_64 [OF ok]
  have n: "nat (i + 1) = Suc (nat i)" using v by (simp add: nat_add_distrib)
  show "case ls of [] \<Rightarrow> \<exists>i'. dense_nxt t i = Some (None, i')
    | l # ls' \<Rightarrow> \<exists>i'. dense_nxt t i = Some (Some l, i') \<and> 0 \<le> i' \<and> ls' = dense_rest t (Suc (nat i'))"
    using dense_next_rest [OF ok, of "Suc (nat i)"] v
    by (auto simp: dense_nxt_def DenseNextBucket_def u n split: list.splits)
qed

section \<open>Both alike\<close>

lemma filter_below:
  assumes "dom m \<subseteq> {..<n}" and "n \<le> k"
  shows "filter (\<lambda>i. m i \<noteq> None) [0..<k] = filter (\<lambda>i. m i \<noteq> None) [0..<n]"
proof -
  have "[0..<k] = [0..<n] @ [n..<k]" using assms(2) upt_add_eq_append [of 0 n "k - n"] by simp
  moreover have "filter (\<lambda>i. m i \<noteq> None) [n..<k] = []" using assms(1) by (fastforce simp: filter_empty_conv)
  ultimately show ?thesis by simp
qed

lemma put_map_below:
  "(\<And>l x f. (l, x, f) \<in> set ops \<Longrightarrow> unat l < n) \<Longrightarrow> dom m \<subseteq> {..<n} \<Longrightarrow> dom (snd (put_map ops m)) \<subseteq> {..<n}"
proof (induction ops arbitrary: m)
  case Nil
  then show ?case by simp
next
  case (Cons op ops)
  obtain l x f where op: "op = (l, x, f)" by (cases op)
  let ?m = "if m (unat l) = None \<or> f then m(unat l \<mapsto> x) else m"
  have "dom ?m \<subseteq> {..<n}" using Cons(2) [of l x f] Cons(3) op by auto
  then have "dom (snd (put_map ops ?m)) \<subseteq> {..<n}"
    by (rule Cons(1) [rotated]) (use Cons(2) in auto)
  then show ?case using op by (simp add: case_prod_beta Let_def del: fun_upd_apply)
qed

theorem sparse_dense_same:
  assumes "0 < unat n" and "unat n \<le> 2 ^ 30"
    and ops: "\<forall>(l, x, f) \<in> set ops. unat l < unat n \<and> bck_data x \<noteq> EMPTY"
  shows "\<exists>m s0 d0 fs s d. SparseAllocate n = Some (m, s0) \<and> DenseAllocate fresh n = Some (n, d0) \<and>
    put_all SparseInsert ops s0 = Some (fs, s) \<and> put_all DenseInsert ops d0 = Some (fs, d) \<and>
    (\<forall>l. unat l < unat n \<longrightarrow> fetch SparseFind bck_load s l = fetch DenseFind dense_load d l \<and>
      fetch SparseFind bck_load s l \<noteq> None) \<and>
    visit_all sparse_first sparse_next bck_load s = visit_all dense_first dense_nxt dense_load d \<and>
    visit_all sparse_first sparse_next bck_load s \<noteq> None"
proof -
  obtain s0 :: "HTItem SparseBin list" where s0: "SparseAllocate n = Some (of_nat (64 * length s0), s0)"
    "length s0 = (unat n - 1) div 64 + 1" "tab_ok s0" "tab_at s0 = Map.empty"
    using SparseAllocate_ok [OF assms(1,2)] by metis
  obtain d0 where d0: "DenseAllocate fresh n = Some (n, d0)" "length (rgBuckets d0) = unat n" "dense_at d0 = Map.empty"
    by (rule DenseAllocate_ok [of n fresh]) (use assms(2) in simp)
  have le: "unat n \<le> 64 * length s0" using assms(1) s0(2) by linarith
  have oks: "sparse_ok s0" using s0(2,3) assms(2) by auto
  have ops1: "\<forall>(l, x, f) \<in> set ops. unat l < 64 * length s0 \<and> True"
  proof (rule ballI)
    fix op
    assume "op \<in> set ops"
    then have "unat (fst op) < unat n" using ops by (cases op) auto
    then show "case op of (l, x, f) \<Rightarrow> unat l < 64 * length s0 \<and> True"
      using le by (simp add: case_prod_beta)
  qed
  have ops2: "\<forall>(l, x, f) \<in> set ops. unat l < length (rgBuckets d0) \<and> bck_data x \<noteq> EMPTY"
    using ops d0(2) by simp
  obtain s where s: "put_all SparseInsert ops s0 = Some (fst (put_map ops (tab_at s0)), s)" "sparse_ok s"
    "64 * length s = 64 * length s0" "tab_at s = snd (put_map ops (tab_at s0))"
    using sp.put_all_map [OF oks ops1] by blast
  have okd: "length (rgBuckets d0) < 2 ^ 64" using d0(2) assms(2) by simp
  obtain d where d: "put_all DenseInsert ops d0 = Some (fst (put_map ops (dense_at d0)), d)"
    "length (rgBuckets d) < 2 ^ 64" "length (rgBuckets d) = length (rgBuckets d0)"
    "dense_at d = snd (put_map ops (dense_at d0))"
    using dn.put_all_map [OF okd ops2] by blast
  have eq: "tab_at s = dense_at d" using s(4) d(4) s0(4) d0(3) by simp
  have below: "dom (tab_at s) \<subseteq> {..<unat n}"
    unfolding s(4) s0(4) by (rule put_map_below) (use ops in auto)
  have "fetch SparseFind bck_load s l = Some (tab_at s (unat l))" "fetch DenseFind dense_load d l = Some (tab_at s (unat l))"
    if "unat l < unat n" for l
    using sp.fetch_at [OF s(2), of l] dn.fetch_at [OF d(2), of l] that le s(3) d(3) d0(2) eq by simp_all
  moreover have "visit_all sparse_first sparse_next bck_load s =
      Some (map (\<lambda>l. the (tab_at s l)) (filter (\<lambda>i. tab_at s i \<noteq> None) [0..<unat n]))"
    using sp.visit_all_at [OF s(2)] filter_below [OF below le] s(3) by simp
  moreover have "visit_all dense_first dense_nxt dense_load d =
      Some (map (\<lambda>l. the (tab_at s l)) (filter (\<lambda>i. tab_at s i \<noteq> None) [0..<unat n]))"
    using dn.visit_all_at [OF d(2)] d(3) d0(2) eq by simp
  ultimately show ?thesis using s0(1,4) d0(1,3) s(1) d(1) by auto
qed

end
