(* ===== verification/HashFileFacts.thy ===== *)
theory HashFileFacts
  imports HashFile BucketTable
begin

text \<open>
  What is written by \<open>WRITE_UL\<close> and read back by \<open>READ_UL\<close>: the low 32 bits. For a sparse table this
  means that of each group only the first 32 buckets come back.
\<close>

section \<open>Words\<close>

text \<open>A file written to its end, and one that is read from the middle.\<close>

definition end_of :: "bytes \<Rightarrow> cfile" where
  "end_of b = \<lparr>fl_bytes = b, fl_pos = length b\<rparr>"

definition reading :: "bytes \<Rightarrow> bytes \<Rightarrow> cfile" where
  "reading a r = \<lparr>fl_bytes = a @ r, fl_pos = length a\<rparr>"

definition ul_image :: "u64 \<Rightarrow> bytes" where
  "ul_image d = be32 (ucast d) @ replicate 4 nul"

definition low32 :: "u64 \<Rightarrow> u64" where
  "low32 d = ucast (ucast d :: u32)"

lemma length_ul_image [simp]: "length (ul_image d) = 8"
  by (simp add: ul_image_def)

lemma fwrite_end [simp]: "fwrite x (end_of b) = end_of (b @ x)"
  by (simp add: fwrite_def end_of_def)

lemma fread_front [simp]: "length x = n \<Longrightarrow> fread n (reading a (x @ r)) = Some (x, reading (a @ x) r)"
  by (simp add: fread_def reading_def)

lemma WRITE_UL_end [simp]: "WRITE_UL d (end_of b) = end_of (b @ ul_image d)"
  by (simp add: WRITE_UL_def ul_image_def)

lemma READ_UL_front [simp]: "READ_UL (reading a (ul_image d @ r)) = Some (low32 d, reading (a @ ul_image d) r)"
proof -
  have "unat (ucast d :: u32) < 2 ^ 32" using unsigned_less [of "ucast d :: u32"] by simp
  then have "unat (ucast d :: u32) < 256 ^ 4" by simp
  then have "le_nat (rev (take 4 (ul_image d))) = unat (ucast d :: u32)"
    by (simp add: ul_image_def be_bytes_def)
  then show ?thesis by (simp add: READ_UL_def low32_def)
qed

lemma low32_take_bit: "low32 d = take_bit 32 d"
  by (rule bit_word_eqI) (auto simp: low32_def bit_take_bit_iff bit_ucast_iff bit_simps)

lemma unat_low32: "unat (low32 d) = unat d mod 2 ^ 32"
  by (simp only: low32_take_bit unsigned_take_bit_eq) (simp add: take_bit_eq_mod)

lemma low32_id: "unat d < 2 ^ 32 \<Longrightarrow> low32 d = d"
  by (simp add: word_unat_eq_iff unat_low32)

lemma low32_DELETED: "low32 DELETED = 0xFFFFFFFE"
  by (simp add: low32_take_bit DELETED_def take_bit_eq_mask mask_eq_decr_exp)

section \<open>Sparse tables\<close>

lemma SparseWrite_end:
  assumes "tab_ok t" and "unat (SPARSE_GROUPS n) = length t"
  shows "SparseWrite t n (end_of b) =
    Some (end_of (b @ ul_image n @ concat (map (\<lambda>g. ul_image (hd (bmOccupied g))) t)))"
proof -
  have "fold (\<lambda>b f. fold WRITE_UL (take 1 (bmOccupied b)) f) ts (end_of c) =
      end_of (c @ concat (map (\<lambda>g. ul_image (hd (bmOccupied g))) ts))" if "\<forall>g \<in> set ts. bin_ok g" for ts :: "'a SparseBin list" and c
    using that
  proof (induction ts arbitrary: c)
    case (Cons g ts)
    then obtain w where "bmOccupied g = [w]" using bin_ok_word [of g] by auto
    then show ?case using Cons by simp
  qed simp
  then show ?thesis using assms by (simp add: SparseWrite_def tab_ok_def)
qed

text \<open>A group that has been read: its bitmap, and as many buckets, with arbitrary contents.\<close>

definition read_bin :: "(nat \<Rightarrow> 'b) \<Rightarrow> u64 \<Rightarrow> 'b SparseBin" where
  "read_bin fresh w = \<lparr>binSparse = map fresh [0..<rank_bits [w] 64], bmOccupied = [w], cOccupied = rank_bits [w] 64\<rparr>"

lemma bin_ok_read [simp]: "bin_ok (read_bin fresh w)"
  by (simp add: bin_ok_def read_bin_def)

lemma sparse_read_groups_ok:
  "i + length ws = length bins \<Longrightarrow>
   sparse_read_groups fresh i (length ws) bins (reading a (concat (map ul_image ws) @ r)) =
     Some (take i bins @ map (\<lambda>j. read_bin (fresh (i + j)) (low32 (ws ! j))) [0..<length ws],
       reading (a @ concat (map ul_image ws)) r)"
proof (induction ws arbitrary: i bins a)
  case Nil
  then show ?case by simp
next
  case (Cons w ws)
  let ?b = "read_bin (fresh i) (low32 w)"
  have e: "EntriesUpto [low32 w] 64 = Some (rank_bits [low32 w] 64)" by (rule EntriesUpto_rank) simp
  have "sparse_read_groups fresh i (length (w # ws)) bins (reading a (concat (map ul_image (w # ws)) @ r)) =
      sparse_read_groups fresh (Suc i) (length ws) (bins[i := ?b]) (reading (a @ ul_image w) (concat (map ul_image ws) @ r))"
    using Cons(2) e by (simp add: elem_def SPARSE_POS_TO_OFFSET_def read_bin_def)
  also have "\<dots> = Some (take (Suc i) (bins[i := ?b]) @
      map (\<lambda>j. read_bin (fresh (Suc i + j)) (low32 (ws ! j))) [0..<length ws],
      reading ((a @ ul_image w) @ concat (map ul_image ws)) r)"
    by (rule Cons(1)) (use Cons(2) in simp)
  also have "take (Suc i) (bins[i := ?b]) = take i bins @ [?b]"
    using Cons(2) by (simp add: take_Suc_conv_app_nth)
  also have "map (\<lambda>j. read_bin (fresh (Suc i + j)) (low32 (ws ! j))) [0..<length ws] =
      map (\<lambda>j. read_bin (fresh (i + j)) (low32 ((w # ws) ! j))) [1..<length (w # ws)]"
    by (simp add: map_Suc_upt [symmetric] o_def del: upt_Suc)
  finally show ?case by (simp add: upt_conv_Cons del: upt_Suc)
qed

text \<open>Writing a table and reading it back.\<close>

lemma SparseRead_back:
  fixes t :: "'b SparseBin list" and fresh :: "nat \<Rightarrow> nat \<Rightarrow> 'b"
  assumes "tab_ok t" and "1 \<le> length t" and "length t \<le> 2 ^ 24"
  defines "n \<equiv> of_nat (64 * length t)"
  shows "\<exists>t' bs. SparseWrite t n (end_of b) = Some (end_of (b @ bs)) \<and>
    (\<forall>a r. SparseRead fresh (reading a (bs @ r)) = Some (n, t', reading (a @ bs) r)) \<and>
    tab_ok t' \<and> length t' = length t \<and>
    (\<forall>l. tab_at t' l \<noteq> None \<longleftrightarrow> tab_at t l \<noteq> None \<and> l mod 64 < 32) \<and>
    (\<forall>l x. tab_at t' l = Some x \<longrightarrow> (\<exists>g i. x = fresh g i))"
proof -
  let ?ws = "map (\<lambda>g. hd (bmOccupied g)) t"
  let ?bs = "ul_image n @ concat (map ul_image ?ws)"
  let ?t' = "map (\<lambda>j. read_bin (fresh j) (low32 (?ws ! j))) [0..<length t]"
  have un: "unat n = 64 * length t"
    unfolding n_def unsigned_of_nat using assms(3) by (simp add: take_bit_nat_eq_self)
  have g: "unat (SPARSE_GROUPS n) = length t" unfolding n_def by (rule groups_64 [OF assms(2,3)])
  have "64 * length t \<le> 64 * 2 ^ 24" by (rule mult_le_mono2 [OF assms(3)])
  then have n0: "0 < unat n" "unat n \<le> 2 ^ 30" unfolding un using assms(2) by auto
  obtain bins :: "'b SparseBin list" where bins: "SparseAllocate n = Some (of_nat (64 * length bins), bins)"
    "length bins = (unat n - 1) div 64 + 1"
    using SparseAllocate_ok [OF n0] by metis
  have "unat n < 2 ^ 64" using n0(2) by (rule le_less_trans) simp
  then have lb: "length bins = length t" using bins(2) g unat_SPARSE_GROUPS [OF n0(1)] by simp
  have "SparseRead fresh (reading a (?bs @ r)) = Some (n, ?t', reading (a @ ?bs) r)" for a r
  proof -
    have low: "low32 n = n" by (rule low32_id) (use un assms(3) in simp)
    have "sparse_read_groups fresh 0 (length ?ws) bins (reading (a @ ul_image n) (concat (map ul_image ?ws) @ r)) =
        Some (?t', reading ((a @ ul_image n) @ concat (map ul_image ?ws)) r)"
      using sparse_read_groups_ok [of 0 ?ws bins fresh "a @ ul_image n" r] lb by simp
    then show ?thesis using bins(1) low g lb by (simp add: SparseRead_def n_def)
  qed
  moreover have "SparseWrite t n (end_of b) = Some (end_of (b @ ?bs))"
    using SparseWrite_end [OF assms(1) g, of b] by (simp add: o_def)
  moreover have "tab_ok ?t'" by (auto simp: tab_ok_def)
  moreover have "tab_at ?t' l \<noteq> None \<longleftrightarrow> tab_at t l \<noteq> None \<and> l mod 64 < 32" for l
  proof (cases "l < 64 * length t")
    case True
    then have d: "l div 64 < length t" by (simp add: less_mult_imp_div_less mult.commute)
    then show ?thesis using True
      by (auto simp: tab_at_def bin_at_def read_bin_def low32_take_bit bit_take_bit_iff)
  qed (simp add: tab_at_def)
  moreover have "\<exists>g i. x = fresh g i" if "tab_at ?t' l = Some x" for l x
  proof -
    have l: "l < 64 * length t" using that by (simp add: tab_at_def split: if_splits)
    then have d: "l div 64 < length t" by (simp add: less_mult_imp_div_less mult.commute)
    have ok: "tab_ok ?t'" by (auto simp: tab_ok_def)
    have "snd (ptr_of ?t' l) < length (binSparse (?t' ! (l div 64)))" "binSparse (?t' ! (l div 64)) ! snd (ptr_of ?t' l) = x"
      using ptr_of_bound [OF ok that] by simp_all
    then show ?thesis using d by (auto simp: read_bin_def)
  qed
  ultimately show ?thesis by (intro exI [of _ ?t'] exI [of _ ?bs]) simp
qed

end
