(* ===== verification/HashSaveLoad.thy ===== *)
theory HashSaveLoad
  imports HashFileFacts HashWalk
begin

text \<open>
  A table that is saved and loaded again. When nothing was deleted from it and no item is in the
  upper half of its group, the loaded table has the same keys, with the low 32 bits of their data.
\<close>

section \<open>Keys in the file\<close>

definition key_file :: "HashTable \<Rightarrow> bytes \<Rightarrow> bytes" where
  "key_file ht s = (if cchKey ht = 0 then c_bytes s else s)"

definition proper_key :: "HashTable \<Rightarrow> bytes \<Rightarrow> bool" where
  "proper_key ht s \<longleftrightarrow> (if cchKey ht = 0 then c_string s else length s = cchKey ht)"

lemma key_image_kval: "kval ht key = Some s \<Longrightarrow> key_image ht key = Some (key_file ht s)"
  by (auto simp: kval_def key_image_def key_file_def bind_Some_iff)

lemma proper_kval: "STORES_PTR ht \<Longrightarrow> kval ht key = Some s \<Longrightarrow> proper_key ht s"
  by (auto simp: kval_def proper_key_def key_bytes_def bind_Some_iff dest: cstr_c_string split: if_splits)

lemma kval_image: "STORES_PTR ht \<Longrightarrow> proper_key ht s \<Longrightarrow> kval ht (KPtr (Live (key_file ht s @ rest))) = Some s"
  by (auto simp: kval_def KEY_PTR_def key_file_def proper_key_def key_bytes_def cstr_c_bytes)

lemma load_key_image:
  assumes "STORES_PTR ht" and "proper_key ht s" and "drop off keys = key_file ht s @ rest"
  shows "load_key ht keys off old = Some (KPtr (Live (key_file ht s @ rest)), off + length (key_file ht s))"
  using assms by (auto simp: load_key_def key_file_def proper_key_def cstr_c_bytes)

section \<open>Saving\<close>

lemma save_keys_list:
  assumes "ht_table ht = Some t" and "tab_ok t" and "unat (SPARSE_GROUPS (cBuckets ht)) = length t"
    and "case ps of [] \<Rightarrow> bck = None
      | p # qs \<Rightarrow> bck = Some p \<and> (\<exists>it. ht_iter ht = Some it \<and> iter_valid t it \<and> live_rest t it = qs)"
    and "\<forall>p \<in> set ps. \<exists>b. bck_load t p = Some b \<and> kval ht (bck_key b) = Some (key p)"
  shows "\<exists>it. save_keys ht bck (end_of a) = Some (ht\<lparr>ht_iter := it\<rparr>, end_of (a @ concat (map (\<lambda>p. key_file ht (key p)) ps)))"
  using assms
proof (induction ps arbitrary: ht bck a)
  case Nil
  have "\<exists>it. ht = ht\<lparr>ht_iter := it\<rparr>" by (rule exI [of _ "ht_iter ht"]) simp
  then show ?case using Nil(4) by (subst save_keys.simps) simp
next
  case (Cons p ps)
  then obtain it where bck: "bck = Some p" and it: "ht_iter ht = Some it" "iter_valid t it" "live_rest t it = ps"
    by auto
  obtain b where b: "bck_load t p = Some b" "kval ht (bck_key b) = Some (key p)" using Cons(6) by auto
  obtain bck' it' where nx: "HashNextBucket ht = Some (bck', ht\<lparr>ht_iter := Some it'\<rparr>)"
    "case ps of [] \<Rightarrow> bck' = None | q # qs \<Rightarrow> bck' = Some q \<and> iter_valid t it' \<and> live_rest t it' = qs"
    using HashNext_eq [OF Cons(2,3,4) it(1,2)] it(3) by metis
  have kv: "kval (ht\<lparr>ht_iter := Some it'\<rparr>) = kval ht" by (rule key_cong) simp
  have im: "key_file (ht\<lparr>ht_iter := Some it'\<rparr>) = key_file ht" by (simp add: key_file_def fun_eq_iff)
  have "\<exists>i. save_keys (ht\<lparr>ht_iter := Some it'\<rparr>) bck' (end_of (a @ key_file ht (key p))) =
      Some (ht\<lparr>ht_iter := Some it', ht_iter := i\<rparr>,
        end_of ((a @ key_file ht (key p)) @ concat (map (\<lambda>p. key_file (ht\<lparr>ht_iter := Some it'\<rparr>) (key p)) ps)))"
    by (rule Cons(1)) (use Cons(2-4,6) nx(2) kv in \<open>auto split: list.splits\<close>)
  then show ?case using b(1) key_image_kval [OF b(2)] nx(1) bck Cons(2) im by (subst save_keys.simps) auto
qed

lemma save_data_list:
  assumes "unat (SPARSE_GROUPS n) = length t"
    and "case ps of [] \<Rightarrow> bck = None | p # qs \<Rightarrow> bck = Some p \<and> iter_valid t it \<and> iter_rest t it = qs"
    and "\<forall>p \<in> set ps. \<exists>b. bck_load t p = Some b \<and> bck_data b = dat p"
  shows "\<exists>it'. save_data None t n bck it (end_of a) = Some (it', end_of (a @ concat (map (\<lambda>p. ul_image (dat p)) ps)))"
  using assms
proof (induction ps arbitrary: bck it a)
  case Nil
  then show ?case by (subst save_data.simps) simp
next
  case (Cons p ps)
  then have bck: "bck = Some p" and it: "iter_valid t it" "iter_rest t it = ps" by auto
  obtain b where b: "bck_load t p = Some b" "bck_data b = dat p" using Cons(4) by auto
  obtain bck' it' where nx: "SparseNextBucket t n it = Some (bck', it')"
    "case ps of [] \<Rightarrow> bck' = None | q # qs \<Rightarrow> bck' = Some q \<and> iter_valid t it' \<and> iter_rest t it' = qs"
    using SparseNextBucket_rest [OF Cons(2) it(1)] it(2) by (cases ps) auto
  have "\<exists>it''. save_data None t n bck' it' (end_of (a @ ul_image (dat p))) =
      Some (it'', end_of ((a @ ul_image (dat p)) @ concat (map (\<lambda>p. ul_image (dat p)) ps)))"
    by (rule Cons(1) [OF Cons(2) nx(2)]) (use Cons(4) in simp)
  then show ?case using b nx(1) bck by (subst save_data.simps) (simp add: save_datum_def)
qed

text \<open>The size of the block of keys is filled in afterwards.\<close>

lemma patch_size:
  "fseek_end (WRITE_UL c (fseek_set (length (a @ ul_image z) - 8) (end_of (a @ ul_image z @ k)))) = end_of (a @ ul_image c @ k)"
  by (simp add: WRITE_UL_def fwrite_def fseek_set_def fseek_end_def end_of_def ul_image_def [of c])

definition table_image :: "HashTable \<Rightarrow> (nat \<Rightarrow> bytes) \<Rightarrow> (nat \<Rightarrow> u64) \<Rightarrow> nat list \<Rightarrow> bytes \<Rightarrow> bytes" where
  "table_image ht key dat ls bs = MAGIC_KEY @ ul_image (of_nat (cchKey ht)) @ ul_image (cItems ht) @ ul_image (cDeletedItems ht) @ bs @
     (let ks = concat (map (\<lambda>l. key_file ht (key l)) ls) in ul_image (of_nat (length ks)) @ ks) @
     concat (map (\<lambda>l. ul_image (dat l)) ls)"

lemma length_MAGIC_KEY [simp]: "length MAGIC_KEY = 4"
  by (simp add: MAGIC_KEY_def)

text \<open>No item is marked deleted; every one has a key.\<close>

lemma no_dead_locs:
  assumes "shape ht k t" and "\<And>l. \<not> dead_at (tab_at t) l"
  shows "live_locs t = occ t" and "l \<in> set (occ t) \<Longrightarrow> \<exists>x s. tab_at t l = Some x \<and> kof ht x = Some s"
proof -
  show "live_locs t = occ t" using assms(2) by (simp add: live_locs_def)
  assume "l \<in> set (occ t)"
  then obtain x where x: "tab_at t l = Some x" by (auto simp: set_occ)
  then have "\<not> IS_BCK_DELETED x" using assms(2) [of l] by (auto simp: dead_at_def)
  then show "\<exists>x s. tab_at t l = Some x \<and> kof ht x = Some s"
    using assms(1) x by (auto simp: shape_def keys_ok_def)
qed

lemma kof_kval: "kof ht x = Some s \<Longrightarrow> kval ht (bck_key x) = Some s"
  by (simp add: kof_def split: if_splits)

lemma HashSave_eq:
  fixes ht :: HashTable
  assumes sh: "shape ht k t" and nd: "\<And>l. \<not> dead_at (tab_at t) l"
    and bs: "\<And>b. SparseWrite t (cBuckets ht) (end_of b) = Some (end_of (b @ bs))"
  defines "key \<equiv> \<lambda>l. the (kof ht (the (tab_at t l)))" and "dat \<equiv> \<lambda>l. bck_data (the (tab_at t l))"
  shows "\<exists>it. HashSave (end_of a) ht None = Some (ht\<lparr>ht_iter := it\<rparr>, end_of (a @ table_image ht key dat (occ t) bs))"
proof -
  have t: "ht_table ht = Some t" "tab_ok t" using sh by (auto simp: shape_def)
  note g = groups_shape [OF sh]
  note locs = no_dead_locs [OF sh nd]
  have ptrs: "live_ptrs t = map (ptr_of t) (occ t)" using live_ptrs_locs [OF t(2)] locs(1) by simp
  let ?p = "\<lambda>p. THE l. l \<in> set (occ t) \<and> ptr_of t l = p"
  have inv: "?p (ptr_of t l) = l" if "l \<in> set (occ t)" for l
    using that ptr_of_inj [OF t(2)] by (intro the_equality) (auto simp: set_occ)
  have ld: "bck_load t (ptr_of t l) = tab_at t l \<and> tab_at t l \<noteq> None" if "l \<in> set (occ t)" for l
    using that bck_load_at [OF t(2)] by (auto simp: set_occ)
  obtain p it where first: "HashFirstBucket ht = Some (p, ht\<lparr>ht_iter := Some it\<rparr>)"
    "case live_ptrs t of [] \<Rightarrow> p = None | q # qs \<Rightarrow> p = Some q \<and> iter_valid t it \<and> live_rest t it = qs"
    by (rule HashFirst_eq [OF sh])
  let ?h = "ht\<lparr>ht_iter := Some it\<rparr>" and ?im = "\<lambda>ls. concat (map (\<lambda>l. key_file ht (key l)) ls)"
  have kv: "kval ?h = kval ht" by (rule key_cong) simp
  have im: "key_file ?h = key_file ht" by (simp add: key_file_def fun_eq_iff)
  have k1: "\<forall>q \<in> set (live_ptrs t). \<exists>b. bck_load t q = Some b \<and> kval ?h (bck_key b) = Some (key (?p q))"
    unfolding ptrs kv
  proof
    fix q
    assume "q \<in> set (map (ptr_of t) (occ t))"
    then obtain l where l: "l \<in> set (occ t)" "q = ptr_of t l" by auto
    obtain x s where "tab_at t l = Some x" "kof ht x = Some s" using locs(2) [OF l(1)] by blast
    then show "\<exists>b. bck_load t q = Some b \<and> kval ht (bck_key b) = Some (key (?p q))"
      using ld [OF l(1)] inv [OF l(1)] l(2) kof_kval by (auto simp: key_def)
  qed
  have "\<exists>i. save_keys ?h p (end_of c) =
      Some (?h\<lparr>ht_iter := i\<rparr>, end_of (c @ concat (map (\<lambda>q. key_file ?h (key (?p q))) (live_ptrs t))))" for c
    by (rule save_keys_list [OF _ t(2) _ _ k1]) (use t(1) g first(2) in \<open>auto split: list.splits\<close>)
  moreover have "concat (map (\<lambda>q. key_file ?h (key (?p q))) (live_ptrs t)) = ?im (occ t)"
    unfolding ptrs im using inv by (simp add: o_def cong: map_cong)
  ultimately have keys: "\<exists>i. save_keys ?h p (end_of c) = Some (ht\<lparr>ht_iter := i\<rparr>, end_of (c @ ?im (occ t)))" for c
    by simp
  obtain q jt where sfirst: "SparseFirstBucket t (cBuckets ht) = Some (q, jt)"
    "case ptrs_from t 0 of [] \<Rightarrow> q = None | p # qs \<Rightarrow> q = Some p \<and> iter_valid t jt \<and> iter_rest t jt = qs"
    using SparseFirstBucket_rest [OF g] by (cases "ptrs_from t 0") auto
  have "\<exists>i. save_data None t (cBuckets ht) q jt (end_of c) =
      Some (i, end_of (c @ concat (map (\<lambda>p. ul_image (dat (?p p))) (ptrs_from t 0))))" for c
  proof (rule save_data_list [OF g sfirst(2)], rule ballI)
    fix p
    assume "p \<in> set (ptrs_from t 0)"
    then obtain l where l: "l \<in> set (occ t)" "p = ptr_of t l" unfolding occ_ptrs [OF t(2), symmetric] by auto
    then show "\<exists>b. bck_load t p = Some b \<and> bck_data b = dat (?p p)"
      using ld [OF l(1)] inv [OF l(1)] by (auto simp: dat_def)
  qed
  moreover have "concat (map (\<lambda>p. ul_image (dat (?p p))) (ptrs_from t 0)) = concat (map (\<lambda>l. ul_image (dat l)) (occ t))"
    unfolding occ_ptrs [OF t(2), symmetric] using inv by (simp add: o_def cong: map_cong)
  ultimately have data: "\<exists>i. save_data None t (cBuckets ht) q jt (end_of c) =
      Some (i, end_of (c @ concat (map (\<lambda>l. ul_image (dat l)) (occ t))))" for c
    by simp
  let ?b = "a @ MAGIC_KEY @ ul_image (of_nat (cchKey ht)) @ ul_image (cItems ht) @ ul_image (cDeletedItems ht) @ bs"
  obtain i where i: "save_keys ?h p (end_of (?b @ ul_image 0)) = Some (ht\<lparr>ht_iter := i\<rparr>, end_of ((?b @ ul_image 0) @ ?im (occ t)))"
    using keys by blast
  let ?c = "?b @ ul_image (of_nat (length (?im (occ t)))) @ ?im (occ t)"
  obtain j where j: "save_data None t (cBuckets ht) q jt (end_of ?c) = Some (j, end_of (?c @ concat (map (\<lambda>l. ul_image (dat l)) (occ t))))"
    using data by blast
  have pos: "fl_pos (end_of b) = length b" for b by (simp add: end_of_def)
  have patch: "fseek_end (WRITE_UL (of_nat (length (?im (occ t)))) (fseek_set (length (?b @ ul_image 0) - 8)
      (end_of ((?b @ ul_image 0) @ ?im (occ t))))) = end_of ?c"
    using patch_size [of "of_nat (length (?im (occ t)))" ?b 0 "?im (occ t)"] by simp
  have "HashSave (end_of a) ht None = Some (ht\<lparr>ht_iter := i, ht_iter := Some j\<rparr>,
      end_of (?c @ concat (map (\<lambda>l. ul_image (dat l)) (occ t))))"
    using t(1) bs first(1) i sfirst(1) j patch by (simp add: HashSave_def pos Let_def)
  then show ?thesis by (simp add: table_image_def Let_def) blast
qed

section \<open>Loading\<close>

lemma iter_store:
  assumes "bck_store bins p x = Some bins'"
  shows "iter_rest bins' = iter_rest bins" and "iter_valid bins' = iter_valid bins" and "length bins' = length bins"
proof -
  obtain b where b: "elem bins (fst p) = Some b" "bins' = bins[fst p := b\<lparr>binSparse := (binSparse b)[snd p := x]\<rparr>]"
    using assms by (auto simp: bck_store_def bind_Some_iff)
  then show len: "length bins' = length bins" by simp
  have c: "cOccupied (bins' ! g) = cOccupied (bins ! g)" for g
    using b by (cases "g < length bins") (auto simp: elem_def nth_list_update split: if_splits)
  show "iter_rest bins' = iter_rest bins" by (simp add: iter_rest_def ptrs_from_def c len fun_eq_iff)
  show "iter_valid bins' = iter_valid bins" by (simp add: iter_valid_def len fun_eq_iff)
qed

lemma low32_live: "low32 d \<noteq> DELETED"
proof
  assume "low32 d = DELETED"
  then have "bit (low32 d) 63 = bit DELETED 63" by simp
  then show False by (simp add: low32_take_bit bit_take_bit_iff DELETED_def bit_minus_2_iff)
qed

lemma load_items_list:
  assumes "ht_table ht = Some t" and "tab_ok t" and "unat (SPARSE_GROUPS (cBuckets ht)) = length t" and "STORES_PTR ht"
    and "case ls of [] \<Rightarrow> bck = None
      | l # ls' \<Rightarrow> bck = Some (ptr_of t l) \<and> iter_valid t it \<and> iter_rest t it = map (ptr_of t) ls'"
    and "\<forall>l \<in> set ls. tab_at t l \<noteq> None \<and> proper_key ht (key l)" and "distinct ls"
    and "off \<le> length keys" and "drop off keys = concat (map (\<lambda>l. key_file ht (key l)) ls)"
  shows "\<exists>t' it'. load_items None disk keys ht bck it off (reading a (concat (map (\<lambda>l. ul_image (dat l)) ls) @ r)) =
      Some (ht\<lparr>ht_table := Some t', ht_iter := Some it'\<rparr>, length keys, reading (a @ concat (map (\<lambda>l. ul_image (dat l)) ls)) r) \<and>
    tab_ok t' \<and> length t' = length t \<and> (\<forall>l. l \<notin> set ls \<longrightarrow> tab_at t' l = tab_at t l) \<and>
    (\<forall>l \<in> set ls. \<exists>x. tab_at t' l = Some x \<and> bck_data x = low32 (dat l) \<and> kval ht (bck_key x) = Some (key l))"
  using assms
proof (induction ls arbitrary: ht t bck it off a)
  case Nil
  have "ht = ht\<lparr>ht_table := Some t\<rparr>" using Nil(1) by simp
  then have e: "ht\<lparr>ht_iter := Some it\<rparr> = ht\<lparr>ht_table := Some t, ht_iter := Some it\<rparr>" by simp
  have "off = length keys" using Nil(8,9) by simp
  then have "load_items None disk keys ht bck it off (reading a r) =
      Some (ht\<lparr>ht_table := Some t, ht_iter := Some it\<rparr>, length keys, reading a r)"
    using Nil(5) e by (subst load_items.simps) simp
  then show ?case using Nil(2) by (intro exI [of _ t] exI [of _ it]) simp
next
  case (Cons l ls)
  have bck: "bck = Some (ptr_of t l)" and it: "iter_valid t it" "iter_rest t it = map (ptr_of t) ls" using Cons(6) by auto
  obtain x where x: "tab_at t l = Some x" using Cons(7) by auto
  have pk: "proper_key ht (key l)" using Cons(7) by simp
  let ?rest = "concat (map (\<lambda>l. key_file ht (key l)) ls)" and ?off = "off + length (key_file ht (key l))"
  have dr: "drop off keys = key_file ht (key l) @ ?rest" using Cons(10) by simp
  define y where "y = x\<lparr>bck_data := low32 (dat l), bck_key := KPtr (Live (key_file ht (key l) @ ?rest))\<rparr>"
  obtain t1 where t1: "bck_store t (ptr_of t l) y = Some t1" "tab_ok t1" "tab_at t1 = (tab_at t)(l \<mapsto> y)"
    "length t1 = length t" "ptr_of t1 = ptr_of t"
    by (rule bck_store_at [OF Cons(3) x, of y])
  note st = iter_store [OF t1(1)]
  have g1: "unat (SPARSE_GROUPS (cBuckets ht)) = length t1" using Cons(4) t1(4) by simp
  obtain bck' it' where nx: "SparseNextBucket t1 (cBuckets ht) it = Some (bck', it')"
    "case ls of [] \<Rightarrow> bck' = None
      | l # ls' \<Rightarrow> bck' = Some (ptr_of t1 l) \<and> iter_valid t1 it' \<and> iter_rest t1 it' = map (ptr_of t1) ls'"
    using SparseNextBucket_rest [OF g1, of it] it st t1(5) by (cases ls) auto
  let ?ht = "ht\<lparr>ht_table := Some t1\<rparr>"
  have cong: "kval ?ht = kval ht" "STORES_PTR ?ht = STORES_PTR ht" by (rule key_cong, simp)+
  have im: "key_file ?ht = key_file ht" "proper_key ?ht = proper_key ht" by (simp_all add: key_file_def proper_key_def fun_eq_iff)
  have off: "?off \<le> length keys" "drop ?off keys = ?rest"
  proof -
    have "length keys - off = length (key_file ht (key l)) + length ?rest" using arg_cong [OF dr, of length] by simp
    then show "?off \<le> length keys" using Cons(9) by linarith
    have "drop ?off keys = drop (length (key_file ht (key l))) (drop off keys)" by (simp add: add.commute)
    then show "drop ?off keys = ?rest" using dr by simp
  qed
  have step: "load_items None disk keys ht bck it off (reading a (concat (map (\<lambda>l. ul_image (dat l)) (l # ls)) @ r)) =
      load_items None disk keys ?ht bck' it' ?off (reading (a @ ul_image (dat l)) (concat (map (\<lambda>l. ul_image (dat l)) ls) @ r))"
    using bck bck_load_at [OF Cons(3) x] Cons(2) load_key_image [OF Cons(5) pk dr] t1(1) nx(1)
    by (subst load_items.simps) (simp add: IS_BCK_DELETED_def low32_live load_datum_def y_def)
  have "\<exists>t' it''. load_items None disk keys ?ht bck' it' ?off
      (reading (a @ ul_image (dat l)) (concat (map (\<lambda>l. ul_image (dat l)) ls) @ r)) =
      Some (?ht\<lparr>ht_table := Some t', ht_iter := Some it''\<rparr>, length keys,
        reading ((a @ ul_image (dat l)) @ concat (map (\<lambda>l. ul_image (dat l)) ls)) r) \<and>
    tab_ok t' \<and> length t' = length t1 \<and> (\<forall>l. l \<notin> set ls \<longrightarrow> tab_at t' l = tab_at t1 l) \<and>
    (\<forall>l \<in> set ls. \<exists>x. tab_at t' l = Some x \<and> bck_data x = low32 (dat l) \<and> kval ?ht (bck_key x) = Some (key l))"
    by (rule Cons(1) [OF _ t1(2) _ _ nx(2)]) (use t1 g1 Cons(5,7,8) off cong im in auto)
  then obtain t' it'' where rec: "load_items None disk keys ?ht bck' it' ?off
      (reading (a @ ul_image (dat l)) (concat (map (\<lambda>l. ul_image (dat l)) ls) @ r)) =
      Some (?ht\<lparr>ht_table := Some t', ht_iter := Some it''\<rparr>, length keys,
        reading ((a @ ul_image (dat l)) @ concat (map (\<lambda>l. ul_image (dat l)) ls)) r)"
    "tab_ok t'" "length t' = length t1" "\<forall>l. l \<notin> set ls \<longrightarrow> tab_at t' l = tab_at t1 l"
    "\<forall>l \<in> set ls. \<exists>x. tab_at t' l = Some x \<and> bck_data x = low32 (dat l) \<and> kval ?ht (bck_key x) = Some (key l)"
    by blast
  have "tab_at t' l = Some y" using rec(4) t1(3) Cons(8) by simp
  moreover have "kval ht (bck_key y) = Some (key l)" using kval_image [OF Cons(5) pk, of ?rest] by (simp add: y_def)
  ultimately have here: "\<exists>x. tab_at t' l = Some x \<and> bck_data x = low32 (dat l) \<and> kval ht (bck_key x) = Some (key l)"
    by (simp add: y_def)
  have other: "tab_at t' m = tab_at t m" if "m \<notin> set (l # ls)" for m using rec(4) t1(3) that by simp
  show ?case
    unfolding step by (intro exI [of _ t'] exI [of _ it'']) (use rec t1(4) here other cong in simp)
qed

section \<open>The loaded table\<close>

lemma same_shape:
  assumes sh: "shape ht k t" and ht': "ht_table ht' = Some t'" "cBuckets ht' = cBuckets ht" and t': "tab_ok t'" "length t' = length t"
    and none: "\<And>l. tab_at t' l = None \<longleftrightarrow> tab_at t l = None"
    and same: "\<And>l x. tab_at t l = Some x \<Longrightarrow>
      \<exists>x' s. tab_at t' l = Some x' \<and> kof ht x = Some s \<and> kof ht' x' = Some s \<and> bck_data x' = low32 (bck_data x)"
  shows "shape ht' k t'" and "\<not> dead_at (tab_at t') l"
    and "live_at (kof ht') (tab_at t') = live_at (kof ht) (tab_at t)"
    and "ht_map ht' = (\<lambda>s. map_option low32 (ht_map ht s))"
proof -
  have oa: "oa_inv (kof ht) home k (tab_at t)" using sh by (simp add: shape_def)
  have f: "found (kof ht') (tab_at t') s l \<longleftrightarrow> found (kof ht) (tab_at t) s l" for s l
  proof (cases "tab_at t l")
    case None
    then show ?thesis using none [of l] by (simp add: found_def)
  next
    case (Some x)
    then show ?thesis using same [OF Some] by (auto simp: found_def)
  qed
  have some: "\<exists>x. tab_at t l = Some x" if "tab_at t' l = Some x'" for l x' using none [of l] that by auto
  have dom: "dom (tab_at t') = dom (tab_at t)" using none by (auto simp: dom_def)
  have r: "reach k (tab_at t') = reach k (tab_at t)" by (simp add: reach_def none fun_eq_iff)
  have oa': "oa_inv (kof ht') home k (tab_at t')" using oa unfolding oa_inv_def f r dom .
  have ko: "keys_ok ht' (tab_at t')"
    unfolding keys_ok_def
  proof (intro allI impI)
    fix l x'
    assume x': "tab_at t' l = Some x'"
    then obtain x where x: "tab_at t l = Some x" using some by blast
    show "IS_BCK_DELETED x' \<or> kof ht' x' \<noteq> None" using same [OF x] x' by auto
  qed
  show sh': "shape ht' k t'" using sh ht' t' oa' ko by (simp add: shape_def)
  show "\<not> dead_at (tab_at t') l"
    using some [of l] same [of l] by (auto simp: dead_at_def kof_def split: if_splits)
  show "live_at (kof ht') (tab_at t') = live_at (kof ht) (tab_at t)" by (simp add: live_at_def f)
  have m: "ht_map h s = Some d \<longleftrightarrow> (\<exists>l x. tab_at u l = Some x \<and> kof h x = Some s \<and> bck_data x = d)"
    if "shape h k u" for h u s d
    using ht_map_iff [OF that] by (auto simp: live_items_def ran_def)
  show "ht_map ht' = (\<lambda>s. map_option low32 (ht_map ht s))"
  proof (rule map_eqI)
    fix s d
    have "(\<exists>l x'. tab_at t' l = Some x' \<and> kof ht' x' = Some s \<and> bck_data x' = d) \<longleftrightarrow>
        (\<exists>l x. tab_at t l = Some x \<and> kof ht x = Some s \<and> low32 (bck_data x) = d)"
    proof (intro iffI; elim exE)
      fix l x'
      assume x': "tab_at t' l = Some x' \<and> kof ht' x' = Some s \<and> bck_data x' = d"
      then obtain x where x: "tab_at t l = Some x" using some by blast
      show "\<exists>l x. tab_at t l = Some x \<and> kof ht x = Some s \<and> low32 (bck_data x) = d"
        by (rule exI [of _ l], rule exI [of _ x]) (use same [OF x] x x' in auto)
    next
      fix l x
      assume x: "tab_at t l = Some x \<and> kof ht x = Some s \<and> low32 (bck_data x) = d"
      then show "\<exists>l x'. tab_at t' l = Some x' \<and> kof ht' x' = Some s \<and> bck_data x' = d"
        using same [of l x] by (intro exI [of _ l]) auto
    qed
    then show "ht_map ht' s = Some d \<longleftrightarrow> map_option low32 (ht_map ht s) = Some d"
      using m [OF sh'] m [OF sh] by auto
  qed
qed

text \<open>No bucket is in the upper half of its group.\<close>

definition lower_half :: "HashTable \<Rightarrow> bool" where
  "lower_half ht \<longleftrightarrow> (\<forall>t l. ht_table ht = Some t \<longrightarrow> tab_at t l \<noteq> None \<longrightarrow> l mod 64 < 32)"

lemma keys_size:
  assumes sh: "shape ht k t" and nd: "\<And>l. \<not> dead_at (tab_at t) l"
  shows "length (concat (map (\<lambda>l. key_file ht (the (kof ht (the (tab_at t l))))) (occ t))) =
    (\<Sum>s \<in> dom (ht_map ht). length (key_file ht s))"
proof -
  let ?key = "\<lambda>l. the (kof ht (the (tab_at t l)))"
  have oa: "oa_inv (kof ht) home k (tab_at t)" using sh by (simp add: shape_def)
  have f: "found (kof ht) (tab_at t) (?key l) l" if "l \<in> set (occ t)" for l
    using no_dead_locs(2) [OF sh nd that] by (auto simp: found_def)
  have inj: "inj_on ?key (set (occ t))"
    using f oa by (intro inj_onI) (metis oa_inv_def)
  have "?key ` set (occ t) = dom (ht_map ht)"
  proof
    show "?key ` set (occ t) \<subseteq> dom (ht_map ht)"
      using f ht_map_iff [OF sh] by (fastforce simp: live_items_def found_def ran_def)
    show "dom (ht_map ht) \<subseteq> ?key ` set (occ t)"
    proof
      fix s
      assume "s \<in> dom (ht_map ht)"
      then obtain x where "x \<in> live_items (kof ht) (tab_at t)" "kof ht x = Some s" using ht_map_iff [OF sh] by auto
      then obtain l where "tab_at t l = Some x" "kof ht x = Some s" by (auto simp: live_items_def ran_def)
      then show "s \<in> ?key ` set (occ t)" by (force simp: set_occ image_iff)
    qed
  qed
  then show ?thesis using sum.reindex [OF inj, of "\<lambda>s. length (key_file ht s)"]
    by (simp add: length_concat o_def sum_list_distinct_conv_sum_set)
qed

theorem save_load:
  assumes "ht_ok ht" and st: "STORES_PTR ht" and "cchKey ht < 2 ^ 32" and "cDeletedItems ht = 0" and low: "lower_half ht"
    and size: "(\<Sum>s \<in> dom (ht_map ht). length (key_file ht s)) < 2 ^ 32"
  shows "\<exists>ht1 bs. HashSave (end_of a) ht None = Some (ht1, end_of (a @ bs)) \<and> same_content ht ht1 \<and>
    (\<forall>b r. \<exists>ht'. HashLoad mem (reading b (bs @ r)) None = Some (Inr (ht', reading (b @ bs) r)) \<and>
      ht_ok ht' \<and> cchKey ht' = cchKey ht \<and> cBuckets ht' = cBuckets ht \<and> cItems ht' = cItems ht \<and>
      ht_map ht' = (\<lambda>s. map_option low32 (ht_map ht s)))"
proof -
  obtain k t where sh: "shape ht k t" "counts ht t"
    and half: "2 * (unat (cItems ht) + unat (cDeletedItems ht)) < 2 ^ k"
    using assms(1) by (auto simp: ht_ok_def)
  have t: "ht_table ht = Some t" "tab_ok t" and k: "64 * length t = 2 ^ k" "k \<le> 30" "cBuckets ht = 2 ^ k"
    using sh(1) by (auto simp: shape_def)
  have len: "1 \<le> length t" "length t \<le> 2 ^ 24"
  proof -
    show "1 \<le> length t" using k(1) by (cases "length t") auto
    have "(2 :: nat) ^ k \<le> 2 ^ 30" using k(2) by (intro power_increasing) auto
    then have "64 * length t \<le> 64 * 2 ^ 24" using k(1) by simp
    then show "length t \<le> 2 ^ 24" by simp
  qed
  have nd: "\<not> dead_at (tab_at t) l" for l
  proof -
    have "card {l. dead_at (tab_at t) l} = 0" using sh(2) assms(4) by (simp add: counts_def)
    moreover have "{l. dead_at (tab_at t) l} \<subseteq> dom (tab_at t)" by (auto simp: dead_at_def)
    then have "finite {l. dead_at (tab_at t) l}" by (rule finite_subset) simp
    ultimately show ?thesis by simp
  qed
  let ?key = "\<lambda>l. the (kof ht (the (tab_at t l)))" and ?dat = "\<lambda>l. bck_data (the (tab_at t l))"
  define ks where "ks = concat (map (\<lambda>l. key_file ht (?key l)) (occ t))"
  define ds where "ds = concat (map (\<lambda>l. ul_image (?dat l)) (occ t))"
  have img: "table_image ht ?key ?dat (occ t) bs = MAGIC_KEY @ ul_image (of_nat (cchKey ht)) @ ul_image (cItems ht) @
      ul_image 0 @ bs @ ul_image (of_nat (length ks)) @ ks @ ds" for bs
    using assms(4) by (simp add: table_image_def ks_def ds_def Let_def)
  have n: "of_nat (64 * length t) = cBuckets ht" using k by simp
  obtain t1 bs where w: "\<And>b. SparseWrite t (cBuckets ht) (end_of b) = Some (end_of (b @ bs))"
    and r: "\<And>a r. SparseRead mem (reading a (bs @ r)) = Some (cBuckets ht, t1, reading (a @ bs) r)"
    and t1: "tab_ok t1" "length t1 = length t" "\<And>l. tab_at t1 l \<noteq> None \<longleftrightarrow> tab_at t l \<noteq> None \<and> l mod 64 < 32"
  proof -
    obtain t1 bs where o: "SparseWrite t (cBuckets ht) (end_of []) = Some (end_of bs)"
      "\<forall>a r. SparseRead mem (reading a (bs @ r)) = Some (cBuckets ht, t1, reading (a @ bs) r)" "tab_ok t1"
      "length t1 = length t" "\<forall>l. tab_at t1 l \<noteq> None \<longleftrightarrow> tab_at t l \<noteq> None \<and> l mod 64 < 32"
      using SparseRead_back [OF t(2) len, of "[]" mem] unfolding n append_Nil by blast
    note we = SparseWrite_end [OF t(2) groups_shape [OF sh(1)]]
    have "bs = ul_image (cBuckets ht) @ concat (map (\<lambda>g. ul_image (hd (bmOccupied g))) t)"
      using o(1) we [of "[]"] by (simp add: end_of_def)
    then have "SparseWrite t (cBuckets ht) (end_of b) = Some (end_of (b @ bs))" for b using we [of b] by simp
    then show thesis using that o(2-5) by blast
  qed
  obtain it where save: "HashSave (end_of a) ht None =
      Some (ht\<lparr>ht_iter := it\<rparr>, end_of (a @ table_image ht ?key ?dat (occ t) bs))"
    using HashSave_eq [OF sh(1) nd w] by blast
  have dom1: "tab_at t1 l = None \<longleftrightarrow> tab_at t l = None" for l
    using t1(3) [of l] low t(1) by (auto simp: lower_half_def)
  have occ1: "occ t1 = occ t" by (simp add: occ_def t1(2) dom1)
  have ksz: "length ks < 2 ^ 32" using keys_size [OF sh(1) nd] size by (simp add: ks_def)
  have pk: "\<forall>l \<in> set (occ t). proper_key ht (?key l)"
  proof
    fix l
    assume "l \<in> set (occ t)"
    then obtain x s where "tab_at t l = Some x" "kof ht x = Some s" using no_dead_locs(2) [OF sh(1) nd] by blast
    then show "proper_key ht (?key l)" using proper_kval [OF st kof_kval] by simp
  qed
  have l32: "low32 (of_nat (cchKey ht)) = of_nat (cchKey ht)" "low32 (cItems ht) = cItems ht" "low32 0 = 0"
    "low32 (of_nat (length ks)) = of_nat (length ks)"
    and un: "unat (of_nat (cchKey ht) :: u64) = cchKey ht" "unat (of_nat (length ks) :: u64) = length ks"
  proof -
    show un: "unat (of_nat (cchKey ht) :: u64) = cchKey ht" "unat (of_nat (length ks) :: u64) = length ks"
      using assms(3) ksz by (intro unat_of_nat_64, simp)+
    show "low32 (of_nat (cchKey ht)) = of_nat (cchKey ht)" "low32 (of_nat (length ks)) = of_nat (length ks)"
      using un assms(3) ksz by (intro low32_id, simp)+
    have "(2 :: nat) ^ k \<le> 2 ^ 30" using k(2) by (intro power_increasing) auto
    then have "unat (cItems ht) < 2 ^ 32" using half by simp
    then show "low32 (cItems ht) = cItems ht" by (rule low32_id)
    show "low32 0 = 0" by (rule low32_id) simp
  qed
  obtain ht0 where ht0: "AllocateHashTable 0 2 = Some ht0" "ht_ok ht0" "fSaveKeys ht0 = 2" "posLastFind ht0 = Unset" "cDeltaGoalSize ht0 = 0"
  proof -
    obtain h where h: "AllocateHashTable 0 2 = Some h" "ht_ok h" using AllocateHashTable_map [of 0 2] by blast
    then show thesis using that by (auto simp: AllocateHashTable_def bind_Some_iff)
  qed
  obtain k0 t0 where sh0: "shape ht0 k0 t0" using ht0(2) by (auto simp: ht_ok_def)
  have free: "ht_table ht0 = Some t0" "SparseFree t0 (cBuckets ht0) = Some ()"
    using sh0 groups_shape [OF sh0] by (simp_all add: shape_def SparseFree_def)
  let ?ht1 = "ht0\<lparr>cchKey := cchKey ht, cItems := cItems ht, cDeletedItems := 0, cBuckets := cBuckets ht, ht_table := Some t1\<rparr>"
  have g1: "unat (SPARSE_GROUPS (cBuckets ht)) = length t1" using groups_shape [OF sh(1)] t1(2) by simp
  obtain q jt where sfirst: "SparseFirstBucket t1 (cBuckets ht) = Some (q, jt)"
    "case occ t of [] \<Rightarrow> q = None
      | l # ls \<Rightarrow> q = Some (ptr_of t1 l) \<and> iter_valid t1 jt \<and> iter_rest t1 jt = map (ptr_of t1) ls"
    using SparseFirstBucket_rest [OF g1] unfolding occ_ptrs [OF t1(1), symmetric] occ1 by (cases "occ t") auto
  have st1: "STORES_PTR ?ht1" using st by (simp add: STORES_PTR_def)
  have cong: "kval ?ht1 = kval ht" by (rule key_cong) simp
  have kf: "key_file ?ht1 = key_file ht" "proper_key ?ht1 = proper_key ht"
    by (simp_all add: key_file_def proper_key_def fun_eq_iff)
  have load: "\<exists>ht'. HashLoad mem (reading b (table_image ht ?key ?dat (occ t) bs @ r)) None =
      Some (Inr (ht', reading (b @ table_image ht ?key ?dat (occ t) bs) r)) \<and>
    ht_ok ht' \<and> cchKey ht' = cchKey ht \<and> cBuckets ht' = cBuckets ht \<and> cItems ht' = cItems ht \<and>
    ht_map ht' = (\<lambda>s. map_option low32 (ht_map ht s))" for b r
  proof -
    let ?a = "b @ MAGIC_KEY @ ul_image (of_nat (cchKey ht)) @ ul_image (cItems ht) @ ul_image 0 @ bs @
      ul_image (of_nat (length ks)) @ ks"
    have "\<exists>t' it'. load_items None False ks ?ht1 q jt 0 (reading ?a (ds @ r)) =
        Some (?ht1\<lparr>ht_table := Some t', ht_iter := Some it'\<rparr>, length ks,
          reading (?a @ ds) r) \<and>
      tab_ok t' \<and> length t' = length t1 \<and> (\<forall>l. l \<notin> set (occ t) \<longrightarrow> tab_at t' l = tab_at t1 l) \<and>
      (\<forall>l \<in> set (occ t). \<exists>x. tab_at t' l = Some x \<and> bck_data x = low32 (?dat l) \<and> kval ?ht1 (bck_key x) = Some (?key l))"
      unfolding ds_def by (rule load_items_list [OF _ t1(1) _ st1 sfirst(2)])
        (use g1 pk kf in \<open>auto simp: set_occ [of t1, unfolded occ1] ks_def\<close>)
    then obtain t' it' where ld: "load_items None False ks ?ht1 q jt 0 (reading ?a (ds @ r)) =
        Some (?ht1\<lparr>ht_table := Some t', ht_iter := Some it'\<rparr>, length ks,
          reading (?a @ ds) r)"
      "tab_ok t'" "length t' = length t1" "\<forall>l. l \<notin> set (occ t) \<longrightarrow> tab_at t' l = tab_at t1 l"
      "\<forall>l \<in> set (occ t). \<exists>x. tab_at t' l = Some x \<and> bck_data x = low32 (?dat l) \<and> kval ht (bck_key x) = Some (?key l)"
      unfolding cong by blast
    let ?ht2 = "?ht1\<lparr>ht_table := Some t', ht_iter := Some it'\<rparr>"
    have "HashLoad mem (reading b (table_image ht ?key ?dat (occ t) bs @ r)) None =
        Some (Inr (?ht2, reading (b @ table_image ht ?key ?dat (occ t) bs) r))"
      using ht0(1) free r l32 un sfirst(1) ld(1) assms(4) st1
      by (simp add: HashLoad_def HashDoLoad_def img Let_def STORES_PTR_def)
    moreover have kv2: "kof ?ht2 = kof ht" by (rule key_cong) simp
    have none: "tab_at t' l = None \<longleftrightarrow> tab_at t l = None" for l
    proof (cases "l \<in> set (occ t)")
      case True
      then obtain x where "tab_at t' l = Some x" using ld(5) by blast
      then show ?thesis using True by (auto simp: set_occ)
    next
      case False
      then show ?thesis using ld(4) dom1 [of l] by simp
    qed
    have same: "\<exists>x' s. tab_at t' l = Some x' \<and> kof ht x = Some s \<and> kof ?ht2 x' = Some s \<and> bck_data x' = low32 (bck_data x)"
      if "tab_at t l = Some x" for l x
    proof -
      note x = that
      have l: "l \<in> set (occ t)" using x by (auto simp: set_occ)
      have "\<exists>s. kof ht x = Some s" using no_dead_locs(2) [OF sh(1) nd l] that by simp
      then obtain s where s: "kof ht x = Some s" by blast
      obtain x' where x': "tab_at t' l = Some x'" "bck_data x' = low32 (bck_data x)" "kval ht (bck_key x') = Some s"
        using bspec [OF ld(5) l] x s by auto
      then have "kof ht x' = Some s" using st by (simp add: kof_def IS_BCK_DELETED_def low32_live key_fit_def)
      then show ?thesis using x' s kv2 by simp
    qed
    note ss = same_shape [OF sh(1) _ _ ld(2) _ none same]
    have sh2: "shape ?ht2 k t'" by (rule ss(1)) (simp_all add: ld(3) t1(2))
    have la: "live_at (kof ?ht2) (tab_at t') = live_at (kof ht) (tab_at t)" by (rule ss(3)) (simp_all add: ld(3) t1(2))
    have nd2: "\<not> dead_at (tab_at t') l" for l by (rule ss(2)) (simp_all add: ld(3) t1(2))
    have map2: "ht_map ?ht2 = (\<lambda>s. map_option low32 (ht_map ht s))" by (rule ss(4)) (simp_all add: ld(3) t1(2))
    have oa: "oa_inv (kof ht) home k (tab_at t)" "oa_inv (kof ?ht2) home k (tab_at t')" using sh(1) sh2 by (auto simp: shape_def)
    have "counts ?ht2 t'" using sh(2) la nd2 live_items_card(1) [OF oa(1)] live_items_card(1) [OF oa(2)] by (simp add: counts_def)
    then have "ht_ok ?ht2" unfolding ht_ok_def
      by (intro exI [of _ k] exI [of _ t']) (use sh2 ht0(4) half in \<open>simp add: last_ok_def\<close>)
    ultimately show ?thesis using map2 by (intro exI [of _ ?ht2]) simp
  qed
  show ?thesis using save load by (auto simp: same_content_def)
qed

end
