(* ===== verification/HashVector.thy ===== *)
theory HashVector
  imports HashSaveLoad HashClient
begin

text \<open>
  One value of the hash function, computed step by step from the three words of \<open>mix\<close>, and what
  it says of a table with a single item: the bucket the item is in.
\<close>

section \<open>The hash of a short string\<close>

lemma mix_steps:
  "(2654435867 :: u64) - 2654435769 = 98"
  "(98 :: u64) - 2654435770 = 18446744071055115944"
  "xor (18446744071055115944 :: u64) (drop_bit 43 2654435770) = 18446744071055115944"
  "(2654435769 :: u64) - 2654435770 = 18446744073709551615"
  "(18446744073709551615 :: u64) - 18446744071055115944 = 2654435671"
  "xor (2654435671 :: u64) (push_bit 9 18446744071055115944) = 18446742712460388695"
  "(2654435770 :: u64) - 18446744071055115944 = 5308871442"
  "(5308871442 :: u64) - 18446742712460388695 = 1366558034363"
  "xor (1366558034363 :: u64) (drop_bit 8 18446742712460388695) = 72056223645299602"
  "(18446744071055115944 :: u64) - 18446742712460388695 = 1358594727249"
  "(1358594727249 :: u64) - 72056223645299602 = 18374689208658979263"
  "xor (18374689208658979263 :: u64) (drop_bit 38 72056223645299602) = 18374689208658925124"
  "(18446742712460388695 :: u64) - 72056223645299602 = 18374686488815089093"
  "(18374686488815089093 :: u64) - 18374689208658925124 = 18446741353865715585"
  "xor (18446741353865715585 :: u64) (push_bit 23 18374689208658925124) = 14001081345916051329"
  "(72056223645299602 :: u64) - 18374689208658925124 = 144111088695926094"
  "(144111088695926094 :: u64) - 14001081345916051329 = 4589773816489426381"
  "xor (4589773816489426381 :: u64) (drop_bit 5 14001081345916051329) = 4152398422982842673"
  "(18374689208658925124 :: u64) - 14001081345916051329 = 4373607862742873795"
  "(4373607862742873795 :: u64) - 4152398422982842673 = 221209439760031122"
  "xor (221209439760031122 :: u64) (drop_bit 35 4152398422982842673) = 221209439710483609"
  "(14001081345916051329 :: u64) - 4152398422982842673 = 9848682922933208656"
  "(9848682922933208656 :: u64) - 221209439710483609 = 9627473483222725047"
  "xor (9627473483222725047 :: u64) (push_bit 49 221209439710483609) = 12441660300375863735"
  "(4152398422982842673 :: u64) - 221209439710483609 = 3931188983272359064"
  "(3931188983272359064 :: u64) - 12441660300375863735 = 9936272756606046945"
  "xor (9936272756606046945 :: u64) (drop_bit 11 12441660300375863735) = 9939776810006769047"
  "(221209439710483609 :: u64) - 12441660300375863735 = 6226293213044171490"
  "(6226293213044171490 :: u64) - 9939776810006769047 = 14733260476746954059"
  "xor (14733260476746954059 :: u64) (drop_bit 12 9939776810006769047) = 14735656231558104237"
  "(12441660300375863735 :: u64) - 9939776810006769047 = 2501883490369094688"
  "(2501883490369094688 :: u64) - 14735656231558104237 = 6212971332520542067"
  "xor (6212971332520542067 :: u64) (push_bit 18 14735656231558104237) = 1381709710686060403"
  "(9939776810006769047 :: u64) - 14735656231558104237 = 13650864652158216426"
  "(13650864652158216426 :: u64) - 1381709710686060403 = 12269154941472156023"
  "xor (12269154941472156023 :: u64) (drop_bit 22 1381709710686060403) = 12269154651884719191"
  by simp_all

lemma mix_b: "mix (2654435867, 2654435769, 2654435770) = (14735656231558104237, 1381709710686060403, 12269154651884719191)"
  by (simp only: mix_def prod.case mix_steps Let_numeral cong: let_weak_cong)
lemma hash_b: "hash_bytes ''b'' = 12269154651884719191"
proof -
  have c: "char_ulong CHR ''b'' = 98" by (simp add: char_ulong_def)
  show ?thesis
    by (simp add: hash_bytes_def hash_blocks.simps hash_rest_def add_cases_def c mix_b)
qed

section \<open>A table with one item\<close>

text \<open>The item is in the first bucket that is probed for it.\<close>

lemma only_item_home:
  assumes "shape ht k t" and "counts ht t" and "cItems ht = 1" and "cDeletedItems ht = 0"
    and "found (kof ht) (tab_at t) s l0" and "tab_at t l \<noteq> None"
  shows "l = home s mod 2 ^ k"
proof -
  have one: "card (dom (tab_at t)) = 1" using card_dom [OF assms(1,2)] assms(3,4) by simp
  then obtain m where m: "dom (tab_at t) = {m}" by (auto simp: card_1_singleton_iff)
  have l0: "tab_at t l0 \<noteq> None" using assms(5) by (auto simp: found_def)
  have eq: "l = m" "l0 = m" using m assms(6) l0 by blast+
  have "reach k (tab_at t) (home s) l0" using assms(1,5) by (simp add: shape_def oa_inv_def)
  then obtain i where i: "l0 = chain k (home s) i" "\<forall>j < i. tab_at t (chain k (home s) j) \<noteq> None"
    by (auto simp: reach_def)
  show ?thesis
  proof (cases i)
    case 0
    then show ?thesis using i(1) eq by (simp add: chain_def tri_def)
  next
    case (Suc i')
    then have "tab_at t (chain k (home s) 0) \<noteq> None" using i(2) by simp
    then have "chain k (home s) 0 = m" using m by blast
    then show ?thesis using eq by (simp add: chain_def tri_def)
  qed
qed

lemma only_b_lower:
  assumes ok: "ht_ok ht" and "cItems ht = 1" and "cDeletedItems ht = 0" and b: "ht_map ht ''b'' \<noteq> None"
  shows "lower_half ht"
proof -
  obtain k t where sh: "shape ht k t" "counts ht t" using ok by (auto simp: ht_ok_def)
  obtain l0 where f: "found (kof ht) (tab_at t) ''b'' l0" using b ht_map_found(1) [OF sh(1), of "''b''"] by auto
  have "l mod 64 = 23" if "tab_at t l \<noteq> None" for l
  proof -
    have l: "l = home ''b'' mod 2 ^ k" by (rule only_item_home [OF sh assms(2,3) f that])
    have "6 \<le> k" using sh(1) by (simp add: shape_def)
    then have "(64 :: nat) dvd 2 ^ k" using le_imp_power_dvd [of 6 k "2 :: nat"] by simp
    then have "l mod 64 = home ''b'' mod 64" unfolding l by (rule mod_mod_cancel)
    also have "\<dots> = 23" by (simp add: home_def hash_b)
    finally show ?thesis .
  qed
  then show ?thesis using sh(1) by (auto simp: lower_half_def shape_def)
qed

lemma table_with_b:
  obtains ht0 p ht where "AllocateHashTable 0 1 = Some ht0" and "HashInsert ht0 (str_key ''b'') 7 = Some (Some p, ht)"
    and "plain ht" and "ht_map ht = [''b'' \<mapsto> 7]" and "cDeletedItems ht = 0" and "lower_half ht"
proof -
  obtain ht0 where ht0: "AllocateHashTable 0 1 = Some ht0" "plain ht0" "ht_map ht0 = Map.empty" "cItems ht0 = 0"
    "cDeletedItems ht0 = 0"
    by (rule fresh_plain)
  have "c_string ''b''" "(7 :: u64) \<noteq> DELETED" "unat (cItems ht0) < 2 ^ 27" using ht0(4) by (simp_all add: c_string_def DELETED_def)
  then obtain p ht where ht: "HashInsert ht0 (str_key ''b'') 7 = Some (Some p, ht)" "plain ht"
    "ht_map ht = (ht_map ht0)(''b'' \<mapsto> 7)"
    "unat (cItems ht) = unat (cItems ht0) + (if ht_map ht0 ''b'' = None then 1 else 0)"
    "cDeletedItems ht = 0"
    using plain_insert [OF ht0(2)] ht0(5) by metis
  have "unat (cItems ht) = unat (1 :: u64)" using ht(4) ht0(3,4) by simp
  then have "cItems ht = 1" by (simp only: word_unat_eq_iff)
  then have "lower_half ht" using ht(2,3,5) by (intro only_b_lower) (auto simp: plain_def)
  then show thesis using that [OF ht0(1) ht(1,2)] ht(3,5) ht0(3) by simp
qed

end
