(* ===== verification/BucketFile.thy ===== *)
theory BucketFile
  imports HashFileFacts
begin

text \<open>
  The file of a dense table is the file of the sparse table with the same occupied buckets, so one
  kind can be read where the other was written; either way 32 of 64 buckets are lost.
\<close>

section \<open>Writing\<close>

lemma last_bit:
  fixes b g n :: nat
  assumes "Suc (64 * g + b) = 64 * n" and "g < n" and "b < 64"
  shows "b = 63"
proof -
  have "64 * Suc g \<le> 64 * n" by (rule mult_le_mono2) (use assms(2) in simp)
  then show ?thesis using assms(1,3) by simp
qed

lemma dense_word_bits:
  assumes "b \<le> 64" and "length (rgBuckets bin) = 64 * n" and "64 * n < 2 ^ 64" and "g < n"
  shows "\<exists>w'. dense_word bin (64 * n) b (64 * g + b) [w] = Some (64 * g + 64, [w']) \<and>
    (\<forall>p < 64. bit w' p \<longleftrightarrow> bit w p \<or> b \<le> p \<and> dense_at bin (64 * g + p) \<noteq> None)"
  using assms(1)
proof (induction "64 - b" arbitrary: b w)
  case 0
  then show ?case by (intro exI [of _ w]) (subst dense_word.simps, simp)
next
  case (Suc d)
  then have b: "b < 64" and d: "d = 64 - Suc b" by simp_all
  have pos: "64 * g + b < 64 * n" using assms(4) b by linarith
  have u: "unat (of_nat (64 * g + b) :: u64) = 64 * g + b" by (rule unat_of_nat_64) (use pos assms(3) in linarith)
  have e: "DenseIsEmpty bin (of_nat (64 * g + b)) = Some (dense_at bin (64 * g + b) = None)"
    using DenseIsEmpty_at [of "of_nat (64 * g + b)" bin] pos assms(2) u by simp
  define w1 where "w1 = (if dense_at bin (64 * g + b) = None then w else or w (push_bit b 1))"
  have w1: "bit w1 p \<longleftrightarrow> bit w p \<or> p = b \<and> dense_at bin (64 * g + p) \<noteq> None" if "p < 64" for p
    using that b by (auto simp: w1_def bit_or_iff bit_exp_iff)
  have step: "dense_word bin (64 * n) b (64 * g + b) [w] =
      (if Suc (64 * g + b) = 64 * n then Some (Suc (64 * g + b), [w1])
       else dense_word bin (64 * n) (Suc b) (64 * g + Suc b) [w1])"
    using b e by (simp add: dense_word.simps [of _ _ b] SET_BITMAP_def elem_def w1_def del: of_nat_add of_nat_mult)
  show ?case
  proof (cases "Suc (64 * g + b) = 64 * n")
    case True
    then have "b = 63" by (rule last_bit [OF _ assms(4) b])
    moreover have "63 \<le> p \<longleftrightarrow> p = 63" if "p < 64" for p :: nat using that by linarith
    ultimately show ?thesis using step True w1 by (intro exI [of _ w1]) (simp cong: conj_cong)
  next
    case False
    obtain w' where w': "dense_word bin (64 * n) (Suc b) (64 * g + Suc b) [w1] = Some (64 * g + 64, [w'])"
      "\<forall>p < 64. bit w' p \<longleftrightarrow> bit w1 p \<or> Suc b \<le> p \<and> dense_at bin (64 * g + p) \<noteq> None"
      using Suc(1) [OF d, of w1] b by auto
    have le: "b \<le> p \<longleftrightarrow> p = b \<or> Suc b \<le> p" for p by linarith
    have "bit w' p \<longleftrightarrow> bit w p \<or> b \<le> p \<and> dense_at bin (64 * g + p) \<noteq> None" if "p < 64" for p
      using w'(2) w1 [OF that] that unfolding le by blast
    then show ?thesis using step False w'(1) by (intro exI [of _ w']) simp
  qed
qed

lemma dense_write_words_end:
  assumes "length (rgBuckets bin) = 64 * length t" and "64 * length t < 2 ^ 64" and "tab_ok t"
    and same: "\<And>l. dense_at bin l = None \<longleftrightarrow> tab_at t l = None" and "g \<le> length t"
  shows "dense_write_words bin (64 * length t) (64 * g) (end_of a) =
    Some (end_of (a @ concat (map (\<lambda>b. ul_image (hd (bmOccupied b))) (drop g t))))"
  using assms(5)
proof (induction "length t - g" arbitrary: g a)
  case 0
  then show ?case by (simp add: dense_write_words.simps [of _ _ "64 * g"])
next
  case (Suc d)
  then have g: "g < length t" by simp
  obtain w where w: "dense_word bin (64 * length t) 0 (64 * g) [0] = Some (64 * Suc g, [w])"
    "\<forall>p < 64. bit w p \<longleftrightarrow> dense_at bin (64 * g + p) \<noteq> None"
    using dense_word_bits [of 0 bin "length t" g 0] assms(1,2) g by auto
  obtain v where v: "bmOccupied (t ! g) = [v]" using bin_ok_word [of "t ! g"] assms(3) g by (auto simp: tab_ok_def)
  have "w = v"
  proof (rule bit_word_eqI)
    fix p
    assume "p < LENGTH(64)"
    moreover have "64 * g + p < 64 * length t" using calculation g by simp
    ultimately show "bit w p \<longleftrightarrow> bit v p" using w(2) same v by (simp add: tab_at_def bin_at_def)
  qed
  then have "dense_write_words bin (64 * length t) (64 * g) (end_of a) =
      dense_write_words bin (64 * length t) (64 * Suc g) (end_of (a @ ul_image v))"
    using w(1) g by (simp add: dense_write_words.simps [of _ _ "64 * g"] elem_def)
  also have "\<dots> = Some (end_of ((a @ ul_image v) @ concat (map (\<lambda>b. ul_image (hd (bmOccupied b))) (drop (Suc g) t))))"
    by (rule Suc(1)) (use Suc(2) in auto)
  finally show ?case using g v by (simp add: Cons_nth_drop_Suc [symmetric])
qed

theorem DenseWrite_sparse:
  assumes "length (rgBuckets bin) = 64 * length t" and "tab_ok t" and "1 \<le> length t" and "length t \<le> 2 ^ 24"
    and same: "\<And>l. dense_at bin l = None \<longleftrightarrow> tab_at t l = None"
  shows "DenseWrite bin (of_nat (64 * length t)) (end_of a) = SparseWrite t (of_nat (64 * length t)) (end_of a)"
proof -
  have "64 * length t \<le> 64 * 2 ^ 24" by (rule mult_le_mono2 [OF assms(4)])
  then have lt: "64 * length t < 2 ^ 64" by (rule le_less_trans) simp
  have u: "unat (of_nat (64 * length t) :: u64) = 64 * length t" by (rule unat_of_nat_64 [OF lt])
  have "DenseWrite bin (of_nat (64 * length t)) (end_of a) =
      dense_write_words bin (64 * length t) (64 * 0) (end_of (a @ ul_image (of_nat (64 * length t))))"
    by (simp only: DenseWrite_def u WRITE_UL_end) simp
  also have "\<dots> = Some (end_of ((a @ ul_image (of_nat (64 * length t))) @
      concat (map (\<lambda>b. ul_image (hd (bmOccupied b))) (drop 0 t))))"
    by (rule dense_write_words_end [OF assms(1) lt assms(2) same]) simp
  finally show ?thesis using SparseWrite_end [OF assms(2) groups_64 [OF assms(3,4)], of a] by simp
qed

section \<open>Reading\<close>

lemma dense_unword_bits:
  assumes "b \<le> 64" and "length bs = 64 * n" and "g < n"
  shows "\<exists>bs'. dense_unword bs (64 * n) b (64 * g + b) [w] = Some (64 * g + 64, bs') \<and> length bs' = length bs \<and>
    (\<forall>l. l < 64 * n \<longrightarrow> (bck_data (bs' ! l) = EMPTY \<longleftrightarrow>
      (if l div 64 = g \<and> b \<le> l mod 64 then \<not> bit w (l mod 64) else bck_data (bs ! l) = EMPTY)))"
  using assms(1,2)
proof (induction "64 - b" arbitrary: b bs)
  case 0
  have "\<not> 64 \<le> l mod 64" for l :: nat using mod_less_divisor [of 64 l] by linarith
  then show ?case using 0 by (intro exI [of _ bs]) (subst dense_unword.simps, simp)
next
  case (Suc d)
  then have b: "b < 64" and d: "d = 64 - Suc b" by simp_all
  have pos: "64 * g + b < 64 * n" using assms(3) b by linarith
  define bs1 where "bs1 = bs[64 * g + b := (bs ! (64 * g + b))\<lparr>bck_data := (if bit w b then 1 else EMPTY)\<rparr>]"
  have len: "length bs1 = 64 * n" using Suc(4) by (simp add: bs1_def)
  have set: "TEST_BITMAP [w] b = Some (bit w b)" using b and_push_bit_1 [of w b] by (simp add: TEST_BITMAP_def elem_def)
  have step: "dense_unword bs (64 * n) b (64 * g + b) [w] =
      (if Suc (64 * g + b) = 64 * n then Some (Suc (64 * g + b), bs1)
       else dense_unword bs1 (64 * n) (Suc b) (64 * g + Suc b) [w])"
    using b pos set Suc(4)
    by (simp add: dense_unword.simps [of _ _ b] DENSE_SET_OCCUPIED_def DENSE_SET_EMPTY_def elem_def bs1_def)
  have loc: "l = 64 * g + b \<longleftrightarrow> l div 64 = g \<and> l mod 64 = b" for l using b by auto
  have one: "(1 :: u64) \<noteq> EMPTY" by (simp add: EMPTY_def)
  have bs1: "bck_data (bs1 ! l) = EMPTY \<longleftrightarrow>
      (if l div 64 = g \<and> l mod 64 = b then \<not> bit w b else bck_data (bs ! l) = EMPTY)" if "l < 64 * n" for l
    using that Suc(4) one loc [of l] by (cases "l = 64 * g + b") (auto simp: bs1_def)
  show ?case
  proof (cases "Suc (64 * g + b) = 64 * n")
    case True
    then have "b = 63" by (rule last_bit [OF _ assms(3) b])
    moreover have "63 \<le> l mod 64 \<longleftrightarrow> l mod 64 = 63" for l :: nat using mod_less_divisor [of 64 l] by linarith
    ultimately show ?thesis using step True bs1 len Suc(4) by (intro exI [of _ bs1]) simp
  next
    case False
    obtain bs' where bs': "dense_unword bs1 (64 * n) (Suc b) (64 * g + Suc b) [w] = Some (64 * g + 64, bs')" "length bs' = length bs1"
      "\<forall>l. l < 64 * n \<longrightarrow> (bck_data (bs' ! l) = EMPTY \<longleftrightarrow>
        (if l div 64 = g \<and> Suc b \<le> l mod 64 then \<not> bit w (l mod 64) else bck_data (bs1 ! l) = EMPTY))"
      using Suc(1) [OF d _ len] b by auto
    have le: "b \<le> p \<longleftrightarrow> p = b \<or> Suc b \<le> p" for p by linarith
    have "bck_data (bs' ! l) = EMPTY \<longleftrightarrow>
        (if l div 64 = g \<and> b \<le> l mod 64 then \<not> bit w (l mod 64) else bck_data (bs ! l) = EMPTY)" if "l < 64 * n" for l
      using spec [OF bs'(3), of l] bs1 [OF that] that unfolding le by (cases "l div 64 = g"; cases "l mod 64 = b") simp_all
    then show ?thesis using step False bs'(1,2) len Suc(4) by (intro exI [of _ bs']) simp
  qed
qed

lemma dense_read_words_front:
  "length bs = 64 * n \<Longrightarrow> g + length ws = n \<Longrightarrow>
   \<exists>bs'. dense_read_words bs (64 * n) (64 * g) (reading a (concat (map ul_image ws) @ r)) =
       Some (bs', reading (a @ concat (map ul_image ws)) r) \<and> length bs' = 64 * n \<and>
     (\<forall>l. l < 64 * n \<longrightarrow> (bck_data (bs' ! l) = EMPTY \<longleftrightarrow>
       (if g \<le> l div 64 then \<not> bit (low32 (ws ! (l div 64 - g))) (l mod 64) else bck_data (bs ! l) = EMPTY)))"
proof (induction ws arbitrary: g bs a)
  case Nil
  have "l div 64 < n" if "l < 64 * n" for l using that by (simp add: less_mult_imp_div_less mult.commute)
  then show ?case using Nil
    by (intro exI [of _ bs]) (subst dense_read_words.simps, auto dest: leD)
next
  case (Cons w ws)
  have g: "g < n" using Cons(3) by simp
  obtain bs1 where bs1: "dense_unword bs (64 * n) 0 (64 * g) [low32 w] = Some (64 * Suc g, bs1)" "length bs1 = 64 * n"
    "\<forall>l. l < 64 * n \<longrightarrow> (bck_data (bs1 ! l) = EMPTY \<longleftrightarrow>
      (if l div 64 = g then \<not> bit (low32 w) (l mod 64) else bck_data (bs ! l) = EMPTY))"
    using dense_unword_bits [of 0 bs n g "low32 w"] Cons(2) g by auto
  obtain bs' where bs': "dense_read_words bs1 (64 * n) (64 * Suc g) (reading (a @ ul_image w) (concat (map ul_image ws) @ r)) =
       Some (bs', reading ((a @ ul_image w) @ concat (map ul_image ws)) r)" "length bs' = 64 * n"
     "\<forall>l. l < 64 * n \<longrightarrow> (bck_data (bs' ! l) = EMPTY \<longleftrightarrow>
       (if Suc g \<le> l div 64 then \<not> bit (low32 (ws ! (l div 64 - Suc g))) (l mod 64) else bck_data (bs1 ! l) = EMPTY))"
    using Cons(1) [OF bs1(2), of "Suc g" "a @ ul_image w"] Cons(3) by auto
  have "dense_read_words bs (64 * n) (64 * g) (reading a (concat (map ul_image (w # ws)) @ r)) =
      Some (bs', reading (a @ concat (map ul_image (w # ws))) r)"
    using bs1(1) bs'(1) g by (subst dense_read_words.simps) simp
  moreover have "bck_data (bs' ! l) = EMPTY \<longleftrightarrow>
      (if g \<le> l div 64 then \<not> bit (low32 ((w # ws) ! (l div 64 - g))) (l mod 64) else bck_data (bs ! l) = EMPTY)"
    if l: "l < 64 * n" for l
  proof (cases "l div 64" g rule: linorder_cases)
    case less
    then show ?thesis using bs'(3) bs1(3) l by simp
  next
    case equal
    then show ?thesis using bs'(3) bs1(3) l by simp
  next
    case greater
    then have "l div 64 - g = Suc (l div 64 - Suc g)" by simp
    then show ?thesis using bs'(3) l greater by simp
  qed
  ultimately show ?case using bs'(2) by blast
qed

text \<open>A dense table read from the file of a sparse one, or of a dense one.\<close>

end
