(* ===== verification/ZlogBuf.thy ===== *)
theory ZlogBuf
  imports Net
begin

text \<open>
  The buffer in which one log line is composed (\<^verbatim>\<open>contrib/zlog/src/buf.c\<close>): a block that grows up to a
  limit, after which the output is cut and its end replaced by a truncation string. The pointers
  \<open>tail\<close>, \<open>end\<close> and \<open>end_plus_1\<close> are offsets from \<open>start\<close> (all zero when \<open>start\<close> is null). Every operation
  reallocates at most once; its argument \<open>mem\<close> is what \<open>realloc\<close> does: fail, or return a block whose
  new bytes are arbitrary. Sizes are natural numbers: no object has \<open>2 ^ 63\<close> bytes, so sums of two of
  them do not wrap, and the one factor that is a \<open>double\<close> is exact.
\<close>

section \<open>The buffer\<close>

record zlog_buf =
  b_start :: cptr
  b_tail :: nat
  b_end :: nat
  end_plus_1 :: nat
  size_min :: nat
  size_max :: nat
  size_real :: nat
  truncate_str :: bytes
  truncate_str_len :: nat

definition MAXLEN_PATH :: nat where "MAXLEN_PATH = 1024"
definition ZLOG_INT32_LEN :: nat where "ZLOG_INT32_LEN = 11"
definition ZLOG_INT64_LEN :: nat where "ZLOG_INT64_LEN = 20"

text \<open>
  The result of \<open>zlog_buf_new\<close> is the pointer: \<open>None\<close> is null. \<open>c1\<close> and \<open>c2\<close> say whether the two
  calls of \<open>calloc\<close> succeed.
\<close>

definition zlog_buf_new :: "nat \<Rightarrow> nat \<Rightarrow> string option \<Rightarrow> bool \<Rightarrow> bool \<Rightarrow> zlog_buf option" where
  "zlog_buf_new buf_size_min buf_size_max trunc c1 c2 =
     (if buf_size_min = 0 then None
      else if buf_size_max \<noteq> 0 \<and> buf_size_max < buf_size_min then None
      else if \<not> c1 then None
      else if (case trunc of Some s \<Rightarrow> length s > MAXLEN_PATH | None \<Rightarrow> False) then None
      else if \<not> c2 then None
      else let s = (case trunc of Some s \<Rightarrow> s | None \<Rightarrow> []) in
        Some \<lparr>b_start = Live (replicate buf_size_min nul), b_tail = 0, b_end = buf_size_min - 1,
          end_plus_1 = buf_size_min, size_min = buf_size_min, size_max = buf_size_max, size_real = buf_size_min,
          truncate_str = s @ replicate (MAXLEN_PATH + 1 - length s) nul, truncate_str_len = length s\<rparr>)"

text \<open>The macros of \<^verbatim>\<open>buf.h\<close>, and stores through a pointer into the buffer.\<close>

definition buf_store :: "nat \<Rightarrow> bytes \<Rightarrow> zlog_buf \<Rightarrow> zlog_buf option" where
  "buf_store off src b = (case b_start b of
     Live blk \<Rightarrow> do { blk' \<leftarrow> store off src blk; Some (b\<lparr>b_start := Live blk'\<rparr>) }
   | Null \<Rightarrow> if src = [] then Some b else None
   | Freed \<Rightarrow> None)"

definition zlog_buf_restart :: "zlog_buf \<Rightarrow> zlog_buf" where
  "zlog_buf_restart b = b\<lparr>b_tail := 0\<rparr>"

definition zlog_buf_len :: "zlog_buf \<Rightarrow> nat" where
  "zlog_buf_len b = b_tail b"

definition zlog_buf_seal :: "zlog_buf \<Rightarrow> zlog_buf option" where
  "zlog_buf_seal b = buf_store (b_tail b) [nul] b"

section \<open>Growing and cutting\<close>

definition zlog_buf_truncate :: "zlog_buf \<Rightarrow> zlog_buf option" where
  "zlog_buf_truncate b =
     (if first_char (truncate_str b) = nul then Some b
      else do {
        let p = (if b_tail b < truncate_str_len b then 0 else b_tail b - truncate_str_len b);
        let len = b_tail b - p;
        check (b_start b \<noteq> Null);
        buf_store p (take len (truncate_str b)) b })"

text \<open>
  1 means that the limit was reached, -1 that there is no memory. An increment that takes the size
  past \<open>2 ^ 64\<close> is a fault: the conversion of the new size from \<open>double\<close> is undefined then, and under a
  limit the sum wraps around and the block is too small for what is written next.
\<close>

definition zlog_buf_resize :: "(nat \<Rightarrow> char) option \<Rightarrow> zlog_buf \<Rightarrow> nat \<Rightarrow> (int \<times> zlog_buf) option" where
  "zlog_buf_resize mem b increment =
     (if size_max b \<noteq> 0 \<and> size_max b \<le> size_real b then Some (1, b)
      else do {
        check (size_real b + 3 * increment div 2 < 2 ^ 64);
        let (new_size, rc) =
          (if size_max b = 0 then (size_real b + 3 * increment div 2, 0)
           else if size_real b + increment \<le> size_max b then (size_real b + increment, 0)
           else (size_max b, 1));
        old \<leftarrow> (case b_start b of Live blk \<Rightarrow> Some blk | Null \<Rightarrow> Some [] | Freed \<Rightarrow> None);
        case mem of
          None \<Rightarrow> Some (- 1, b\<lparr>b_start := Null, b_tail := 0, b_end := 0, end_plus_1 := 0\<rparr>)
        | Some g \<Rightarrow> Some (rc, b\<lparr>b_start := Live (load g new_size old), size_real := new_size,
            end_plus_1 := new_size, b_end := new_size - 1\<rparr>) })"

section \<open>Appending\<close>

text \<open>
  What \<open>vsnprintf\<close> does at offset \<open>off\<close>, when the format and the arguments give \<open>txt\<close> (\<open>None\<close>: an
  encoding error): the text is cut to \<open>n - 1\<close> bytes and terminated, and its whole length returned.
\<close>

definition vsnprintf :: "string option \<Rightarrow> nat \<Rightarrow> nat \<Rightarrow> zlog_buf \<Rightarrow> (int \<times> zlog_buf) option" where
  "vsnprintf txt off n b = (case txt of
     None \<Rightarrow> Some (- 1, b)
   | Some s \<Rightarrow>
       if 2 ^ 31 \<le> length s then Some (- 1, b)
       else if n = 0 then Some (int (length s), b)
       else do { b' \<leftarrow> buf_store off (take (n - 1) s @ [nul]) b; Some (int (length s), b') })"

definition zlog_buf_vprintf :: "(nat \<Rightarrow> char) option \<Rightarrow> string option \<Rightarrow> zlog_buf \<Rightarrow> (int \<times> zlog_buf) option" where
  "zlog_buf_vprintf mem txt b =
     (if b_start b = Null then Some (- 1, b)
      else do {
        let size_left = end_plus_1 b - b_tail b;
        (nwrite, b) \<leftarrow> vsnprintf txt (b_tail b) size_left b;
        if 0 \<le> nwrite \<and> nwrite < int size_left then Some (0, b\<lparr>b_tail := b_tail b + nat nwrite\<rparr>)
        else if nwrite < 0 then Some (- 1, b)
        else do {
          (rc, b) \<leftarrow> zlog_buf_resize mem b (nat nwrite - size_left + 1);
          if rc > 0 then do {
            let size_left = end_plus_1 b - b_tail b;
            (_, b) \<leftarrow> vsnprintf txt (b_tail b) size_left b;
            b \<leftarrow> zlog_buf_truncate (b\<lparr>b_tail := b_tail b + (size_left - 1)\<rparr>);
            Some (1, b) }
          else if rc < 0 then Some (- 1, b)
          else do {
            let size_left = end_plus_1 b - b_tail b;
            (nwrite, b) \<leftarrow> vsnprintf txt (b_tail b) size_left b;
            if nwrite < 0 then Some (- 1, b)
            else Some (0, b\<lparr>b_tail := b_tail b + nat nwrite\<rparr>) } } })"

text \<open>
  The digits of a number, written from the end of an array with room for \<open>room\<close> more.
\<close>

fun dec_digits :: "nat \<Rightarrow> 'a::len word \<Rightarrow> bytes \<Rightarrow> bytes option" where
  "dec_digits 0 x p = None"
| "dec_digits (Suc room) x p = (
     let p = char_of (unat (x mod 10) + 48) # p in
     if x div 10 = 0 then Some p else dec_digits room (x div 10) p)"

definition hex_digit :: "nat \<Rightarrow> char" where
  "hex_digit i = ''0123456789abcdef'' ! i"

fun hex_digits :: "nat \<Rightarrow> u32 \<Rightarrow> bytes \<Rightarrow> bytes option" where
  "hex_digits 0 x p = None"
| "hex_digits (Suc room) x p = (
     let p = hex_digit (unat (and x 0xf)) # p in
     if drop_bit 4 x = 0 then Some p else hex_digits room (drop_bit 4 x) p)"

text \<open>
  The end of the three functions for numbers, which is the same code: the digits \<open>p\<close>, filled up with
  zeros. \<open>width\<close> is compared as an unsigned number; a pointer past the address space is a fault.
\<close>

definition printf_digits :: "(nat \<Rightarrow> char) option \<Rightarrow> bytes \<Rightarrow> int \<Rightarrow> zlog_buf \<Rightarrow> (int \<times> zlog_buf) option" where
  "printf_digits mem p width b = do {
     let w = unat (word_of_int width :: u64);
     let (zero_len, out_len) = (if length p < w then (w - length p, w) else (0, length p));
     check (out_len < 2 ^ 63);
     (rc, b) \<leftarrow> (if b_end b < b_tail b + out_len
       then zlog_buf_resize mem b (out_len - (b_end b - b_tail b)) else Some (0, b));
     if rc > 0 then do {
       let len_left = b_end b - b_tail b;
       let (zero_len, num_len) = (if len_left \<le> zero_len then (len_left, 0) else (zero_len, len_left - zero_len));
       b \<leftarrow> buf_store (b_tail b) (replicate zero_len CHR ''0'') b;
       check (num_len \<le> length p);
       b \<leftarrow> buf_store (b_tail b + zero_len) (take num_len p) b;
       b \<leftarrow> zlog_buf_truncate (b\<lparr>b_tail := b_tail b + len_left\<rparr>);
       Some (1, b) }
     else if rc < 0 then Some (- 1, b)
     else do {
       b \<leftarrow> buf_store (b_tail b) (replicate zero_len CHR ''0'') b;
       b \<leftarrow> buf_store (b_tail b + zero_len) p b;
       Some (0, b\<lparr>b_tail := b_tail b + out_len\<rparr>) } }"

definition zlog_buf_printf_dec32 :: "(nat \<Rightarrow> char) option \<Rightarrow> u32 \<Rightarrow> int \<Rightarrow> zlog_buf \<Rightarrow> (int \<times> zlog_buf) option" where
  "zlog_buf_printf_dec32 mem ui32 width b =
     (if b_start b = Null then Some (- 1, b)
      else do { p \<leftarrow> dec_digits ZLOG_INT32_LEN ui32 []; printf_digits mem p width b })"

definition zlog_buf_printf_dec64 :: "(nat \<Rightarrow> char) option \<Rightarrow> u64 \<Rightarrow> int \<Rightarrow> zlog_buf \<Rightarrow> (int \<times> zlog_buf) option" where
  "zlog_buf_printf_dec64 mem ui64 width b =
     (if b_start b = Null then Some (- 1, b)
      else do {
        p \<leftarrow> (if ui64 \<le> 0xffffffff then dec_digits ZLOG_INT64_LEN (ucast ui64 :: u32) []
             else dec_digits ZLOG_INT64_LEN ui64 []);
        printf_digits mem p width b })"

definition zlog_buf_printf_hex :: "(nat \<Rightarrow> char) option \<Rightarrow> u32 \<Rightarrow> int \<Rightarrow> zlog_buf \<Rightarrow> (int \<times> zlog_buf) option" where
  "zlog_buf_printf_hex mem ui32 width b =
     (if b_start b = Null then Some (- 1, b)
      else do { p \<leftarrow> hex_digits ZLOG_INT32_LEN ui32 []; printf_digits mem p width b })"

text \<open>\<open>str\<close> is the block that is read from its start on.\<close>

definition zlog_buf_append :: "(nat \<Rightarrow> char) option \<Rightarrow> bytes \<Rightarrow> nat \<Rightarrow> zlog_buf \<Rightarrow> (int \<times> zlog_buf) option" where
  "zlog_buf_append mem str str_len b = do {
     (rc, b) \<leftarrow> (if b_end b < b_tail b + str_len
       then zlog_buf_resize mem b (str_len - (b_end b - b_tail b)) else Some (0, b));
     if rc > 0 then do {
       let len_left = b_end b - b_tail b;
       check (len_left \<le> length str);
       b \<leftarrow> buf_store (b_tail b) (take len_left str) b;
       b \<leftarrow> zlog_buf_truncate (b\<lparr>b_tail := b_tail b + len_left\<rparr>);
       Some (1, b) }
     else if rc < 0 then Some (- 1, b)
     else do {
       check (str_len \<le> length str);
       b \<leftarrow> buf_store (b_tail b) (take str_len str) b;
       Some (0, b\<lparr>b_tail := b_tail b + str_len\<rparr>) } }"

text \<open>The text and the spaces on its right or left; both copies of the code.\<close>

definition put_adjusted :: "bool \<Rightarrow> bytes \<Rightarrow> nat \<Rightarrow> nat \<Rightarrow> zlog_buf \<Rightarrow> zlog_buf option" where
  "put_adjusted left str source_len space_len b = do {
     check (source_len \<le> length str);
     if left then do {
       b \<leftarrow> buf_store (b_tail b + source_len) (replicate space_len CHR '' '') b;
       buf_store (b_tail b) (take source_len str) b }
     else do {
       b \<leftarrow> buf_store (b_tail b) (replicate space_len CHR '' '') b;
       buf_store (b_tail b + space_len) (take source_len str) b } }"

definition zlog_buf_adjust_append ::
  "(nat \<Rightarrow> char) option \<Rightarrow> bytes \<Rightarrow> nat \<Rightarrow> bool \<Rightarrow> nat \<Rightarrow> nat \<Rightarrow> zlog_buf \<Rightarrow> (int \<times> zlog_buf) option" where
  "zlog_buf_adjust_append mem str str_len left in_width out_width b =
     (if b_start b = Null then Some (- 1, b)
      else do {
        let source_len = (if out_width = 0 \<or> str_len < out_width then str_len else out_width);
        let (append_len, space_len) =
          (if in_width = 0 \<or> in_width \<le> source_len then (source_len, 0) else (in_width, in_width - source_len));
        (rc, b) \<leftarrow> (if b_end b - b_tail b < append_len
          then zlog_buf_resize mem b (append_len - (b_end b - b_tail b)) else Some (0, b));
        if rc > 0 then do {
          let append_len = b_end b - b_tail b;
          let (source_len, space_len) =
            (if left then (if source_len < append_len then (source_len, append_len - source_len) else (append_len, 0))
             else (if space_len < append_len then (append_len - space_len, space_len) else (0, append_len)));
          b \<leftarrow> put_adjusted left str source_len space_len b;
          b \<leftarrow> zlog_buf_truncate (b\<lparr>b_tail := b_tail b + append_len\<rparr>);
          Some (1, b) }
        else if rc < 0 then Some (- 1, b)
        else do {
          b \<leftarrow> put_adjusted left str source_len space_len b;
          Some (0, b\<lparr>b_tail := b_tail b + append_len\<rparr>) } })"

end
