(* ===== verification/ZlogBufFacts.thy ===== *)
theory ZlogBufFacts
  imports ZlogBuf
begin

text \<open>
  All operations that write to the buffer are one: they append the text they stand for, and when the
  limit is reached, cut it and put the truncation string at the end. The locale \<open>buf_writer\<close> is that
  contract; each operation is an interpretation of it, and so is a sequence of mixed operations.
\<close>

section \<open>Specification\<close>

definition cut_end :: "string \<Rightarrow> bytes \<Rightarrow> bytes" where
  "cut_end tr c = (if length tr \<le> length c then take (length c - length tr) c @ tr else take (length c) tr)"

definition put_bytes :: "nat \<Rightarrow> string \<Rightarrow> bytes \<Rightarrow> bytes \<Rightarrow> int \<times> bytes" where
  "put_bytes mx tr c x =
     (if mx = 0 \<or> length (c @ x) < mx then (0, c @ x) else (1, cut_end tr (take (mx - 1) (c @ x))))"

lemma length_cut_end [simp]: "length (cut_end tr c) = length c"
  by (simp add: cut_end_def)

lemma cut_end_Nil [simp]: "cut_end [] c = c"
  by (simp add: cut_end_def)

text \<open>The invariant of a buffer with block \<open>blk\<close> and truncation string \<open>tr\<close>.\<close>

definition is_buf :: "zlog_buf \<Rightarrow> bytes \<Rightarrow> string \<Rightarrow> bool" where
  "is_buf b blk tr \<longleftrightarrow> b_start b = Live blk \<and> length blk = size_real b \<and> end_plus_1 b = size_real b \<and>
     b_end b = size_real b - 1 \<and> 1 \<le> size_real b \<and> b_tail b \<le> b_end b \<and>
     (size_max b \<noteq> 0 \<longrightarrow> size_real b \<le> size_max b) \<and> c_string tr \<and> length tr \<le> MAXLEN_PATH \<and>
     truncate_str b = tr @ replicate (MAXLEN_PATH + 1 - length tr) nul \<and> truncate_str_len b = length tr"

definition buf_ok :: "zlog_buf \<Rightarrow> string \<Rightarrow> bytes \<Rightarrow> bool" where
  "buf_ok b tr c \<longleftrightarrow> (\<exists>blk. is_buf b blk tr \<and> c = take (b_tail b) blk)"

text \<open>What an operation that writes \<open>x\<close> does.\<close>

definition puts :: "(int \<times> zlog_buf) option \<Rightarrow> zlog_buf \<Rightarrow> string \<Rightarrow> bytes \<Rightarrow> bytes \<Rightarrow> bool" where
  "puts r b tr c x \<longleftrightarrow> (\<exists>b'. r = Some (fst (put_bytes (size_max b) tr c x), b') \<and>
     buf_ok b' tr (snd (put_bytes (size_max b) tr c x)) \<and> size_max b' = size_max b \<and>
     size_real b' \<le> size_real b + 2 * length x)"

text \<open>There is room in the address space for \<open>n\<close> bytes more.\<close>

abbreviation spare :: "zlog_buf \<Rightarrow> nat \<Rightarrow> bool" where
  "spare b n \<equiv> size_real b + 2 * n < 2 ^ 64"

section \<open>Stores\<close>

lemma is_buf_store: "is_buf b blk tr \<Longrightarrow> length blk' = length blk \<Longrightarrow> is_buf (b\<lparr>b_start := Live blk'\<rparr>) blk' tr"
  by (simp add: is_buf_def)

lemma is_buf_tail: "is_buf b blk tr \<Longrightarrow> n \<le> b_end b \<Longrightarrow> is_buf (b\<lparr>b_tail := n\<rparr>) blk tr"
  by (simp add: is_buf_def)

lemma is_buf_sizes:
  assumes "is_buf b blk tr"
  shows "b_start b = Live blk" and "end_plus_1 b = Suc (b_end b)" and "length blk = Suc (b_end b)" and "b_tail b \<le> b_end b"
    and "size_max b \<noteq> 0 \<Longrightarrow> b_end b < size_max b"
  using assms by (auto simp: is_buf_def)

lemma buf_store_live [simp]:
  "b_start b = Live blk \<Longrightarrow> buf_store off src b =
     (if off + length src \<le> length blk then Some (b\<lparr>b_start := Live (overwrite off src blk)\<rparr>) else None)"
  by (simp add: buf_store_def store_def)

lemma buf_store_tail: "buf_store off x b = Some b' \<Longrightarrow> b_tail b' = b_tail b"
  by (auto simp: buf_store_def bind_Some_iff split: cptr.splits if_splits)

lemma take_overwrite: "t + length x \<le> length blk \<Longrightarrow> take (t + length x) (overwrite t x blk) = take t blk @ x"
  by (simp add: overwrite_def)

lemma take_overwrite_low: "t \<le> off \<Longrightarrow> off \<le> length blk \<Longrightarrow> take t (overwrite off x blk) = take t blk"
  by (simp add: overwrite_def min_def)

lemma take_overwrite2:
  assumes "t + length x + length y \<le> length blk"
  shows "take (t + (length x + length y)) (overwrite (t + length x) y (overwrite t x blk)) = take t blk @ x @ y"
proof -
  have "take (t + length x + length y) (overwrite (t + length x) y (overwrite t x blk)) =
      take (t + length x) (overwrite t x blk) @ y"
    by (rule take_overwrite) (use assms in \<open>simp add: length_overwrite\<close>)
  also have "take (t + length x) (overwrite t x blk) = take t blk @ x" by (rule take_overwrite) (use assms in simp)
  finally show ?thesis by (simp add: add.assoc)
qed

lemma overwrite_swap:
  "t + length x + length y \<le> length blk \<Longrightarrow>
     overwrite t x (overwrite (t + length x) y blk) = overwrite (t + length x) y (overwrite t x blk)"
  by (rule nth_equalityI) (auto simp: overwrite_def nth_append min_def)

section \<open>Room\<close>

lemma resize_ok:
  assumes b: "is_buf b blk tr" and pos: "0 < inc" and sp: "spare b inc"
  obtains rc b1 blk1 where "zlog_buf_resize (Some g) b inc = Some (rc, b1)" and "is_buf b1 blk1 tr" and "b_tail b1 = b_tail b"
    and "take (b_tail b) blk1 = take (b_tail b) blk" and "size_max b1 = size_max b" and "size_real b1 \<le> size_real b + 2 * inc"
    and "rc = 0 \<and> b_end b + inc \<le> b_end b1 \<and> (size_max b = 0 \<or> b_end b + inc < size_max b) \<or>
      rc = 1 \<and> size_max b \<noteq> 0 \<and> size_max b \<le> b_end b + inc \<and> b_end b1 = size_max b - 1"
proof (cases "size_max b \<noteq> 0 \<and> size_max b \<le> size_real b")
  case True
  then have "zlog_buf_resize (Some g) b inc = Some (1, b)" by (simp add: zlog_buf_resize_def)
  moreover have "size_real b = size_max b" "b_end b = size_real b - 1" using True b by (auto simp: is_buf_def)
  then have "size_max b \<noteq> 0 \<and> size_max b \<le> b_end b + inc \<and> b_end b = size_max b - 1" using True pos by simp
  ultimately show thesis by (intro that [of 1 b blk]) (use b in auto)
next
  case False
  obtain new rc where nr: "(if size_max b = 0 then (size_real b + 3 * inc div 2, 0)
      else if size_real b + inc \<le> size_max b then (size_real b + inc, 0) else (size_max b, 1)) = (new, rc :: int)"
    by (rule prod.exhaust)
  have new: "size_real b < new" using nr False pos by (auto split: if_splits)
  let ?b = "b\<lparr>b_start := Live (load g new blk), size_real := new, end_plus_1 := new, b_end := new - 1\<rparr>"
  have le: "new \<le> size_real b + 2 * inc" using nr False by (auto split: if_splits)
  have "size_real b + 3 * inc div 2 < 2 ^ 64" using sp by linarith
  then have "zlog_buf_resize (Some g) b inc = Some (rc, ?b)"
    using b False by (auto simp: zlog_buf_resize_def nr is_buf_def)
  moreover have "is_buf ?b (load g new blk) tr"
    using b new nr by (auto simp: is_buf_def split: if_splits)
  moreover have "take (b_tail b) (load g new blk) = take (b_tail b) blk"
    using is_buf_sizes(3,4) [OF b] b new by (simp add: is_buf_def load_short)
  moreover have "rc = 0 \<and> b_end b + inc \<le> b_end ?b \<and> (size_max b = 0 \<or> b_end b + inc < size_max b) \<or>
      rc = 1 \<and> size_max b \<noteq> 0 \<and> size_max b \<le> b_end b + inc \<and> b_end ?b = size_max b - 1"
    using b nr by (auto simp: is_buf_def split: if_splits)
  ultimately show thesis using that [of rc ?b "load g new blk"] le by simp
qed

definition have_room :: "zlog_buf \<Rightarrow> zlog_buf \<Rightarrow> bytes \<Rightarrow> bytes \<Rightarrow> string \<Rightarrow> nat \<Rightarrow> int \<Rightarrow> bool" where
  "have_room b b1 blk blk1 tr n rc \<longleftrightarrow> is_buf b1 blk1 tr \<and> b_tail b1 = b_tail b \<and>
     take (b_tail b) blk1 = take (b_tail b) blk \<and> size_max b1 = size_max b \<and> size_real b1 \<le> size_real b + 2 * n \<and>
     (rc = 0 \<and> b_tail b1 + n \<le> b_end b1 \<and> (size_max b = 0 \<or> b_tail b + n < size_max b) \<or>
      rc = 1 \<and> size_max b \<noteq> 0 \<and> size_max b \<le> b_tail b + n \<and> b_end b1 = size_max b - 1)"

lemma resize_room:
  assumes b: "is_buf b blk tr" and sp: "spare b n"
  obtains rc b1 blk1 where "(if b_end b < b_tail b + n then zlog_buf_resize (Some g) b (n - (b_end b - b_tail b))
      else Some (0, b)) = Some (rc, b1)" and "have_room b b1 blk blk1 tr n rc"
proof (cases "b_end b < b_tail b + n")
  case True
  note le = is_buf_sizes(4) [OF b]
  have "0 < n - (b_end b - b_tail b)" using True le by simp
  then obtain rc b1 blk1 where r: "zlog_buf_resize (Some g) b (n - (b_end b - b_tail b)) = Some (rc, b1)"
    "is_buf b1 blk1 tr" "b_tail b1 = b_tail b" "take (b_tail b) blk1 = take (b_tail b) blk" "size_max b1 = size_max b"
    "size_real b1 \<le> size_real b + 2 * (n - (b_end b - b_tail b))"
    "rc = 0 \<and> b_end b + (n - (b_end b - b_tail b)) \<le> b_end b1 \<and>
        (size_max b = 0 \<or> b_end b + (n - (b_end b - b_tail b)) < size_max b) \<or>
      rc = 1 \<and> size_max b \<noteq> 0 \<and> size_max b \<le> b_end b + (n - (b_end b - b_tail b)) \<and> b_end b1 = size_max b - 1"
    by (rule resize_ok [OF b]) (use sp in simp)
  have "size_real b1 \<le> size_real b + 2 * n" using r(6) by simp
  moreover have "b_end b + (n - (b_end b - b_tail b)) = b_tail b + n" using True le by simp
  ultimately have "have_room b b1 blk blk1 tr n rc" using r(2-5,7) by (simp only: have_room_def simp_thms)
  then show thesis using that [of rc b1 blk1] r(1) True by simp
next
  case False
  then have "have_room b b blk blk tr n 0" using b is_buf_sizes(5) [OF b] False by (cases "size_max b = 0") (auto simp: have_room_def)
  then show thesis using that [of 0 b blk] False by simp
qed

text \<open>The two ways in which an operation ends.\<close>

lemma end_fits:
  assumes "have_room b b1 blk blk1 tr (length x) 0" and "take (b_tail b + length x) blk2 = take (b_tail b) blk1 @ x"
    and "length blk2 = length blk1"
  shows "puts (Some (0, b1\<lparr>b_start := Live blk2, b_tail := b_tail b1 + length x\<rparr>)) b tr (take (b_tail b) blk) x"
proof -
  note r = assms(1) [unfolded have_room_def]
  have "is_buf (b1\<lparr>b_start := Live blk2\<rparr>) blk2 tr" using r assms(3) by (intro is_buf_store) auto
  then have "is_buf (b1\<lparr>b_start := Live blk2, b_tail := b_tail b1 + length x\<rparr>) blk2 tr"
    using r is_buf_tail [of "b1\<lparr>b_start := Live blk2\<rparr>" blk2 tr "b_tail b1 + length x"] by simp
  moreover have "length (take (b_tail b) blk) = b_tail b"
    using r is_buf_sizes [of b1 blk1 tr] by (metis length_take min.absorb2 min.absorb1 le_SucI)
  ultimately show ?thesis using r assms(2) unfolding puts_def
    by (intro exI [of _ "b1\<lparr>b_start := Live blk2, b_tail := b_tail b1 + length x\<rparr>"])
      (auto simp: put_bytes_def buf_ok_def)
qed

lemma end_cut:
  assumes "have_room b b1 blk blk1 tr (length x) 1"
    and "take (b_end b1) blk2 = take (b_tail b) blk1 @ take (b_end b1 - b_tail b1) x" and "length blk2 = length blk1"
  shows "puts (do { b \<leftarrow> zlog_buf_truncate (b1\<lparr>b_start := Live blk2, b_tail := b_tail b1 + (b_end b1 - b_tail b1)\<rparr>); Some (1, b) })
    b tr (take (b_tail b) blk) x"
proof -
  note r = assms(1) [unfolded have_room_def]
  note sz = is_buf_sizes [of b1 blk1 tr]
  let ?e = "b_end b1"
  let ?b = "b1\<lparr>b_start := Live blk2, b_tail := ?e\<rparr>"
  have "is_buf (b1\<lparr>b_start := Live blk2\<rparr>) blk2 tr" using r assms(3) by (intro is_buf_store) auto
  then have ok: "is_buf ?b blk2 tr" using is_buf_tail [of "b1\<lparr>b_start := Live blk2\<rparr>" blk2 tr ?e] by simp
  have t: "b_tail b1 + (?e - b_tail b1) = ?e" using r sz by simp
  have lc: "length (take (b_tail b) blk) = b_tail b"
    using r sz by (metis length_take min.absorb2 min.absorb1 le_SucI)
  have "b_tail b \<le> ?e" using r sz by simp
  then have "take ?e (take (b_tail b) blk @ x) = take (b_tail b) blk @ take (?e - b_tail b) x"
    by (simp only: take_append lc take_take min.absorb2)
  then have "take (size_max b - 1) (take (b_tail b) blk @ x) = take ?e blk2"
    using r assms(2) by simp
  then have put: "put_bytes (size_max b) tr (take (b_tail b) blk) x = (1, cut_end tr (take ?e blk2))"
    using r lc by (auto simp: put_bytes_def)
  have el: "?e \<le> length blk2" using r sz assms(3) by simp
  have tr: "truncate_str ?b = tr @ replicate (MAXLEN_PATH + 1 - length tr) nul" "truncate_str_len ?b = length tr"
    "length tr \<le> MAXLEN_PATH" "c_string tr" using ok by (auto simp: is_buf_def)
  have "\<exists>b'. zlog_buf_truncate ?b = Some b' \<and> buf_ok b' tr (cut_end tr (take ?e blk2)) \<and> size_max b' = size_max b1 \<and>
      size_real b' = size_real b1"
  proof (cases "tr = []")
    case True
    then have "first_char (truncate_str ?b) = nul" using tr(1) by simp
    then have "zlog_buf_truncate ?b = Some ?b" by (simp add: zlog_buf_truncate_def)
    moreover have "buf_ok ?b tr (take ?e blk2)" using ok unfolding buf_ok_def by (intro exI [of _ blk2]) simp
    ultimately show ?thesis using True by simp
  next
    case False
    then have fc: "first_char (truncate_str ?b) \<noteq> nul" using tr(1,4) by (cases tr) (auto simp: c_string_def)
    define p where "p = (if ?e < length tr then 0 else ?e - length tr)"
    let ?w = "take (?e - p) (truncate_str ?b)"
    have lw: "length ?w = ?e - p" "p \<le> ?e" using tr(1,3) by (auto simp: p_def)
    have pe: "(if b_tail ?b < truncate_str_len ?b then 0 else b_tail ?b - truncate_str_len ?b) = p"
      using tr(2) by (simp add: p_def)
    have "b_tail ?b - p = ?e - p" "b_start ?b = Live blk2" by simp_all
    then have z: "zlog_buf_truncate ?b = Some (?b\<lparr>b_start := Live (overwrite p ?w blk2)\<rparr>)"
      using fc lw el unfolding zlog_buf_truncate_def pe Let_def
      by (simp del: length_take zlog_buf.select_convs(9))
    have len: "length (overwrite p ?w blk2) = length blk2" using lw el by (intro length_overwrite) simp
    have "take ?e (overwrite p ?w blk2) = take p blk2 @ ?w"
      using take_overwrite [of p ?w blk2] lw el by simp
    also have "\<dots> = cut_end tr (take ?e blk2)"
      using el tr(1) by (auto simp: cut_end_def p_def min_def)
    finally have "buf_ok (?b\<lparr>b_start := Live (overwrite p ?w blk2)\<rparr>) tr (cut_end tr (take ?e blk2))"
      using is_buf_store [OF ok len] unfolding buf_ok_def by auto
    then show ?thesis using z by simp
  qed
  then show ?thesis using put r unfolding puts_def t by auto
qed

section \<open>The operations\<close>

lemma room_tail:
  assumes "have_room b b1 blk blk1 tr n rc"
  shows "b_start b1 = Live blk1" and "b_tail b1 = b_tail b" and "take (b_tail b) blk1 = take (b_tail b) blk"
    and "rc = 0 \<or> rc = 1" and "rc = 0 \<Longrightarrow> b_tail b + n \<le> length blk1"
    and "rc = 1 \<Longrightarrow> b_end b1 - b_tail b \<le> n" and "rc = 1 \<Longrightarrow> b_tail b + (b_end b1 - b_tail b) = b_end b1"
    and "b_end b1 < length blk1" and "b_tail b \<le> b_end b1"
  using assms is_buf_sizes [of b1 blk1 tr] by (auto simp: have_room_def)

lemma append_puts:
  assumes b: "is_buf b blk tr" and n: "n \<le> length str" and sp: "spare b n"
  shows "puts (zlog_buf_append (Some g) str n b) b tr (take (b_tail b) blk) (take n str)"
proof -
  obtain rc b1 blk1 where r: "(if b_end b < b_tail b + n then zlog_buf_resize (Some g) b (n - (b_end b - b_tail b))
      else Some (0, b)) = Some (rc, b1)" and h: "have_room b b1 blk blk1 tr n rc"
    by (rule resize_room [OF b sp])
  note rt = room_tail [OF h]
  define x where "x = take n str"
  have x: "length x = n" "take n str = x" using n by (simp_all add: x_def)
  consider "rc = 0" | "rc = 1" using rt(4) by blast
  then show ?thesis
  proof cases
    case 1
    have "puts (Some (0, b1\<lparr>b_start := Live (overwrite (b_tail b1) x blk1), b_tail := b_tail b1 + length x\<rparr>))
        b tr (take (b_tail b) blk) x"
      using h 1 rt(2,5) x take_overwrite [of "b_tail b" x blk1]
      by (intro end_fits [where ?blk1.0 = blk1]) (simp_all add: length_overwrite)
    then show ?thesis using 1 rt(1,2,5) n x by (simp add: zlog_buf_append_def r)
  next
    case 2
    obtain y where y: "take (b_end b1 - b_tail b) x = y" "take (b_end b1 - b_tail b) str = y" "length y = b_end b1 - b_tail b"
      using rt(6) 2 x(1) n unfolding x_def by (simp add: min.absorb1 min.absorb2)
    have "take (b_end b1) (overwrite (b_tail b1) y blk1) = take (b_tail b) blk1 @ take (b_end b1 - b_tail b1) x"
      using take_overwrite [of "b_tail b" y blk1] rt(2,7,8) 2 y(1,3) by simp
    moreover have "length (overwrite (b_tail b1) y blk1) = length blk1"
      using rt(2,7,8) 2 y(3) by (intro length_overwrite) simp
    ultimately have "puts (do { b \<leftarrow> zlog_buf_truncate (b1\<lparr>b_start := Live (overwrite (b_tail b1) y blk1),
          b_tail := b_tail b1 + (b_end b1 - b_tail b1)\<rparr>); Some (1, b) })
        b tr (take (b_tail b) blk) x"
      using h 2 x(1) by (intro end_cut) simp_all
    then show ?thesis using 2 rt(1,2,6-8) n x y(2,3) by (simp add: zlog_buf_append_def r)
  qed
qed

text \<open>Two adjacent pieces.\<close>

lemma store2:
  assumes "b_start b = Live blk" and "t + (n + m) \<le> length blk" and n: "length x = n" and m: "length y = m"
  obtains b1 b2 blk' where "buf_store t x b = Some b1" and "buf_store (t + n) y b1 = Some (b\<lparr>b_start := Live blk'\<rparr>)"
    and "buf_store (t + n) y b = Some b2" and "buf_store t x b2 = Some (b\<lparr>b_start := Live blk'\<rparr>)"
    and "length blk' = length blk" and "take (t + (n + m)) blk' = take t blk @ x @ y"
proof
  let ?blk' = "overwrite (t + n) y (overwrite t x blk)"
  have le: "t + length x + length y \<le> length blk" using assms by simp
  show "buf_store t x b = Some (b\<lparr>b_start := Live (overwrite t x blk)\<rparr>)" using assms by simp
  show "buf_store (t + n) y (b\<lparr>b_start := Live (overwrite t x blk)\<rparr>) = Some (b\<lparr>b_start := Live ?blk'\<rparr>)"
    using assms by (simp add: length_overwrite)
  show "buf_store (t + n) y b = Some (b\<lparr>b_start := Live (overwrite (t + n) y blk)\<rparr>)" using assms by simp
  show "buf_store t x (b\<lparr>b_start := Live (overwrite (t + n) y blk)\<rparr>) = Some (b\<lparr>b_start := Live ?blk'\<rparr>)"
    using assms overwrite_swap [OF le] by (simp add: length_overwrite)
  show "length ?blk' = length blk" using assms by (simp add: length_overwrite)
  show "take (t + (n + m)) ?blk' = take t blk @ x @ y" using take_overwrite2 [OF le] n m by simp
qed

definition zero_padded :: "nat \<Rightarrow> bytes \<Rightarrow> bytes" where
  "zero_padded w p = replicate (w - length p) CHR ''0'' @ p"

lemma digits_puts:
  assumes b: "is_buf b blk tr" and w: "0 \<le> width" "width < 2 ^ 31" and p: "length p < 2 ^ 31"
    and sp: "spare b (length (zero_padded (nat width) p))"
  shows "puts (printf_digits (Some g) p width b) b tr (take (b_tail b) blk) (zero_padded (nat width) p)"
proof -
  let ?x = "zero_padded (nat width) p"
  define z where "z = nat width - length p"
  have x: "?x = replicate z CHR ''0'' @ p" "length ?x = z + length p" by (simp_all add: zero_padded_def z_def)
  have uw: "unat (word_of_int width :: u64) = nat width"
    using w by (simp add: unsigned_of_int take_bit_int_eq_self)
  have zo: "(if length p < nat width then (nat width - length p, nat width) else (0, length p)) = (z, z + length p)"
    by (simp add: z_def)
  have small: "z + length p < 2 ^ 63" using w p by (simp add: z_def)
  obtain rc b1 blk1 where r: "(if b_end b < b_tail b + (z + length p)
      then zlog_buf_resize (Some g) b ((z + length p) - (b_end b - b_tail b)) else Some (0, b)) = Some (rc, b1)"
    and h: "have_room b b1 blk blk1 tr (z + length p) rc"
    by (rule resize_room [OF b sp [unfolded x(2)]])
  note rt = room_tail [OF h]
  note pd = printf_digits_def [of "Some g" p width b, unfolded uw Let_def zo prod.case]
  consider "rc = 0" | "rc = 1" using rt(4) by blast
  then show ?thesis
  proof cases
    case 1
    have bound: "b_tail b + (z + length p) \<le> length blk1" using rt(5) 1 by simp
    obtain bm bn blk2 where s: "buf_store (b_tail b) (replicate z CHR ''0'') b1 = Some bm"
        "buf_store (b_tail b + z) p bm = Some (b1\<lparr>b_start := Live blk2\<rparr>)"
        "buf_store (b_tail b + z) p b1 = Some bn" "buf_store (b_tail b) (replicate z CHR ''0'') bn = Some (b1\<lparr>b_start := Live blk2\<rparr>)"
        "length blk2 = length blk1" "take (b_tail b + (z + length p)) blk2 = take (b_tail b) blk1 @ replicate z CHR ''0'' @ p"
      by (rule store2 [OF rt(1) bound length_replicate [of z "CHR ''0''"] refl])
    have "puts (Some (0, b1\<lparr>b_start := Live blk2, b_tail := b_tail b1 + length ?x\<rparr>)) b tr (take (b_tail b) blk) ?x"
      using h 1 s(5,6) x by (intro end_fits) simp_all
    moreover have "printf_digits (Some g) p width b = Some (0, b1\<lparr>b_start := Live blk2, b_tail := b_tail b1 + length ?x\<rparr>)"
      using s(1,2) buf_store_tail [OF s(1)] 1 rt(2) x(2) small by (simp add: pd r)
    ultimately show ?thesis by simp
  next
    case 2
    define L where "L = b_end b1 - b_tail b"
    define z' n' where "z' = (if L \<le> z then L else z)" and "n' = (if L \<le> z then 0 else L - z)"
    have zn: "(if L \<le> z then (L, 0) else (z, L - z)) = (z', n')" by (simp add: z'_def n'_def)
    have L: "L \<le> z + length p" "b_tail b + L = b_end b1" using rt(6,7) 2 by (simp_all add: L_def)
    have n': "n' \<le> length p" "length (take n' p) = n'" "z' + n' = L" using L(1) by (auto simp: z'_def n'_def)
    have tx: "take L ?x = replicate z' CHR ''0'' @ take n' p" by (auto simp: x(1) z'_def n'_def)
    have bound: "b_tail b + (z' + n') \<le> length blk1" using rt(8) L(2) n'(3) by simp
    obtain bm bn blk2 where s: "buf_store (b_tail b) (replicate z' CHR ''0'') b1 = Some bm"
        "buf_store (b_tail b + z') (take n' p) bm = Some (b1\<lparr>b_start := Live blk2\<rparr>)"
        "buf_store (b_tail b + z') (take n' p) b1 = Some bn"
        "buf_store (b_tail b) (replicate z' CHR ''0'') bn = Some (b1\<lparr>b_start := Live blk2\<rparr>)"
        "length blk2 = length blk1" "take (b_tail b + (z' + n')) blk2 = take (b_tail b) blk1 @ replicate z' CHR ''0'' @ take n' p"
      by (rule store2 [OF rt(1) bound length_replicate [of z' "CHR ''0''"] n'(2)])
    have "puts (do { b \<leftarrow> zlog_buf_truncate (b1\<lparr>b_start := Live blk2, b_tail := b_tail b1 + (b_end b1 - b_tail b1)\<rparr>); Some (1, b) })
        b tr (take (b_tail b) blk) ?x"
      using h 2 s(5) s(6) [unfolded n'(3) tx [symmetric]] L(2) x(2) rt(2)
      by (intro end_cut) (simp_all add: L_def)
    moreover have "printf_digits (Some g) p width b =
        do { b \<leftarrow> zlog_buf_truncate (b1\<lparr>b_start := Live blk2, b_tail := b_tail b1 + (b_end b1 - b_tail b1)\<rparr>); Some (1, b) }"
      using s(1,2) buf_store_tail [OF s(1)] 2 rt(2) n'(1) small
      by (cases "L \<le> z") (simp_all add: pd r L_def [symmetric] z'_def n'_def)
    ultimately show ?thesis by simp
  qed
qed

definition space_padded :: "bool \<Rightarrow> bytes \<Rightarrow> nat \<Rightarrow> bytes" where
  "space_padded left x n = (if left then x @ replicate n CHR '' '' else replicate n CHR '' '' @ x)"

lemma length_space_padded [simp]: "length (space_padded left x n) = length x + n"
  by (simp add: space_padded_def)

lemma put_adjusted_ok:
  assumes live: "b_start b = Live blk" and n: "n \<le> length str" and fits: "b_tail b + (n + m) \<le> length blk"
  obtains blk' where "put_adjusted left str n m b = Some (b\<lparr>b_start := Live blk'\<rparr>)" and "length blk' = length blk"
    and "take (b_tail b + (n + m)) blk' = take (b_tail b) blk @ space_padded left (take n str) m"
proof (cases left)
  case True
  have "length (take n str) = n" using n by simp
  then obtain b1 b2 blk' where s: "buf_store (b_tail b) (take n str) b = Some b1"
    "buf_store (b_tail b + n) (replicate m CHR '' '') b1 = Some (b\<lparr>b_start := Live blk'\<rparr>)"
    "buf_store (b_tail b + n) (replicate m CHR '' '') b = Some b2" "buf_store (b_tail b) (take n str) b2 = Some (b\<lparr>b_start := Live blk'\<rparr>)"
    "length blk' = length blk" "take (b_tail b + (n + m)) blk' = take (b_tail b) blk @ take n str @ replicate m CHR '' ''"
    by (rule store2 [OF live fits _ length_replicate [of m "CHR '' ''"]])
  show thesis
    by (rule that [of blk']) (use s(3-6) True n buf_store_tail [OF s(3)] in \<open>simp_all add: put_adjusted_def space_padded_def\<close>)
next
  case False
  have fits': "b_tail b + (m + n) \<le> length blk" using fits by simp
  have "length (take n str) = n" using n by simp
  then obtain b1 b2 blk' where s: "buf_store (b_tail b) (replicate m CHR '' '') b = Some b1"
    "buf_store (b_tail b + m) (take n str) b1 = Some (b\<lparr>b_start := Live blk'\<rparr>)"
    "buf_store (b_tail b + m) (take n str) b = Some b2" "buf_store (b_tail b) (replicate m CHR '' '') b2 = Some (b\<lparr>b_start := Live blk'\<rparr>)"
    "length blk' = length blk" "take (b_tail b + (m + n)) blk' = take (b_tail b) blk @ replicate m CHR '' '' @ take n str"
    by (rule store2 [OF live fits' length_replicate [of m "CHR '' ''"]])
  show thesis
    by (rule that [of blk'])
      (use s(1,2,5,6) False n buf_store_tail [OF s(1)] in \<open>simp_all add: put_adjusted_def space_padded_def add.commute\<close>)
qed

definition adjusted :: "bytes \<Rightarrow> nat \<Rightarrow> bool \<Rightarrow> nat \<Rightarrow> nat \<Rightarrow> bytes" where
  "adjusted str n left in_width out_width =
     (let x = take (if out_width = 0 \<or> n < out_width then n else out_width) str in
      space_padded left x (in_width - length x))"

lemma adjust_append_puts:
  assumes b: "is_buf b blk tr" and n: "n \<le> length str" and sp: "spare b (length (adjusted str n left in_width out_width))"
  shows "puts (zlog_buf_adjust_append (Some g) str n left in_width out_width b) b tr (take (b_tail b) blk)
    (adjusted str n left in_width out_width)"
proof -
  define s where "s = (if out_width = 0 \<or> n < out_width then n else out_width)"
  define m where "m = in_width - s"
  let ?x = "adjusted str n left in_width out_width"
  have sn: "s \<le> length str" using n by (auto simp: s_def)
  have ls: "length (take s str) = s" using sn by simp
  have x: "?x = space_padded left (take s str) m" using ls by (simp add: adjusted_def s_def [symmetric] m_def Let_def)
  have lx: "length ?x = s + m" using sn by (simp add: x)
  have as: "(if in_width = 0 \<or> in_width \<le> s then (s, 0) else (in_width, in_width - s)) = (s + m, m)" by (auto simp: m_def)
  obtain rc b1 blk1 where r: "(if b_end b < b_tail b + (s + m)
      then zlog_buf_resize (Some g) b ((s + m) - (b_end b - b_tail b)) else Some (0, b)) = Some (rc, b1)"
    and h: "have_room b b1 blk blk1 tr (s + m) rc"
    by (rule resize_room [OF b sp [unfolded lx]])
  have "b_end b - b_tail b < s + m \<longleftrightarrow> b_end b < b_tail b + (s + m)" using is_buf_sizes(4) [OF b] by auto
  note r = r [folded this]
  note rt = room_tail [OF h]
  note pd = zlog_buf_adjust_append_def [of "Some g" str n left in_width out_width b, folded s_def, unfolded Let_def as prod.case]
  have live: "b_start b \<noteq> Null" using is_buf_sizes(1) [OF b] by simp
  consider "rc = 0" | "rc = 1" using rt(4) by blast
  then show ?thesis
  proof cases
    case 1
    have bound: "b_tail b1 + (s + m) \<le> length blk1" using rt(2,5) 1 by simp
    obtain blk2 where p: "put_adjusted left str s m b1 = Some (b1\<lparr>b_start := Live blk2\<rparr>)" "length blk2 = length blk1"
      "take (b_tail b1 + (s + m)) blk2 = take (b_tail b1) blk1 @ ?x"
      unfolding x by (rule put_adjusted_ok [OF rt(1) sn bound])
    have "puts (Some (0, b1\<lparr>b_start := Live blk2, b_tail := b_tail b1 + length ?x\<rparr>)) b tr (take (b_tail b) blk) ?x"
      using h 1 p(2,3) lx rt(2) by (intro end_fits) simp_all
    moreover have "zlog_buf_adjust_append (Some g) str n left in_width out_width b =
        Some (0, b1\<lparr>b_start := Live blk2, b_tail := b_tail b1 + length ?x\<rparr>)"
      using 1 p(1) lx live by (simp add: pd r)
    ultimately show ?thesis by simp
  next
    case 2
    define L where "L = b_end b1 - b_tail b1"
    define s' m' where "s' = (if left then min s L else L - m)" and "m' = (if left then L - s else min m L)"
    have L: "L \<le> s + m" "b_tail b1 + L = b_end b1" using rt(2,6,7) 2 by (simp_all add: L_def)
    have sm: "s' + m' = L" "s' \<le> s" using L(1) by (auto simp: s'_def m'_def)
    have tx: "take L ?x = space_padded left (take s' str) m'"
      using sn L(1) by (auto simp: x space_padded_def s'_def m'_def min_def)
    have bound: "b_tail b1 + (s' + m') \<le> length blk1" using rt(8) L(2) sm(1) by simp
    have sn': "s' \<le> length str" using sm(2) sn by simp
    obtain blk2 where p: "put_adjusted left str s' m' b1 = Some (b1\<lparr>b_start := Live blk2\<rparr>)" "length blk2 = length blk1"
      "take (b_tail b1 + (s' + m')) blk2 = take (b_tail b1) blk1 @ take L ?x"
      unfolding tx by (rule put_adjusted_ok [OF rt(1) sn' bound])
    have "puts (do { b \<leftarrow> zlog_buf_truncate (b1\<lparr>b_start := Live blk2, b_tail := b_tail b1 + (b_end b1 - b_tail b1)\<rparr>); Some (1, b) })
        b tr (take (b_tail b) blk) ?x"
      using h 2 p(2) p(3) [unfolded sm(1)] L(2) lx rt(2) by (intro end_cut) (simp_all add: L_def)
    moreover have "zlog_buf_adjust_append (Some g) str n left in_width out_width b =
        do { b \<leftarrow> zlog_buf_truncate (b1\<lparr>b_start := Live blk2, b_tail := b_tail b1 + (b_end b1 - b_tail b1)\<rparr>); Some (1, b) }"
      using p(1) unfolding pd s'_def m'_def
      by (cases left; cases "s < L"; cases "m < L")
        (use 2 live in \<open>simp_all add: r L_def [symmetric] min.absorb1 min.absorb2\<close>)
    ultimately show ?thesis by simp
  qed
qed

lemma vprintf_puts:
  assumes b: "is_buf b blk tr" and s: "length s < 2 ^ 31" and sp: "spare b (length s)"
  shows "puts (zlog_buf_vprintf (Some g) (Some s) b) b tr (take (b_tail b) blk) s"
proof -
  note sz = is_buf_sizes [OF b]
  let ?t = "b_tail b" and ?l = "b_end b - b_tail b"
  have live: "b_start b \<noteq> Null" using sz(1) by simp
  have left: "end_plus_1 b - ?t = Suc ?l" using sz(2,4) by simp
  let ?w = "take ?l s @ [nul]"
  let ?blk = "overwrite ?t ?w blk"
  have fits: "?t + length ?w \<le> length blk" using sz(3,4) by simp
  have v1: "vsnprintf (Some s) ?t (Suc ?l) b = Some (int (length s), b\<lparr>b_start := Live ?blk\<rparr>)"
    using s sz(1) fits by (simp add: vsnprintf_def)
  have lb: "length ?blk = length blk" by (rule length_overwrite [OF fits])
  have tb: "take ?t ?blk = take ?t blk" using sz(3,4) by (intro take_overwrite_low) simp_all
  have b': "is_buf (b\<lparr>b_start := Live ?blk\<rparr>) ?blk tr" by (rule is_buf_store [OF b lb])
  show ?thesis
  proof (cases "length s \<le> ?l")
    case True
    have "have_room b b blk blk tr (length s) 0"
      using b sz(4,5) True by (cases "size_max b = 0") (auto simp: have_room_def)
    moreover have "take (?t + length s) ?blk = take ?t blk @ s"
      using True sz(3,4) by (simp add: overwrite_def)
    ultimately have "puts (Some (0, b\<lparr>b_start := Live ?blk, b_tail := ?t + length s\<rparr>)) b tr (take ?t blk) s"
      using lb by (intro end_fits)
    then show ?thesis using True live by (simp add: zlog_buf_vprintf_def left v1)
  next
    case False
    have inc: "0 < length s - Suc ?l + 1" by simp
    let ?b0 = "b\<lparr>b_start := Live ?blk\<rparr>" and ?n = "length s - Suc ?l + 1"
    have "spare ?b0 ?n" using sp False by simp
    then obtain rc b1 blk1 where r0: "zlog_buf_resize (Some g) ?b0 ?n = Some (rc, b1)"
      "is_buf b1 blk1 tr" "b_tail b1 = b_tail ?b0" "take (b_tail ?b0) blk1 = take (b_tail ?b0) ?blk" "size_max b1 = size_max ?b0"
      "size_real b1 \<le> size_real ?b0 + 2 * ?n"
      "rc = 0 \<and> b_end ?b0 + ?n \<le> b_end b1 \<and> (size_max ?b0 = 0 \<or> b_end ?b0 + ?n < size_max ?b0) \<or>
        rc = 1 \<and> size_max ?b0 \<noteq> 0 \<and> size_max ?b0 \<le> b_end ?b0 + ?n \<and> b_end b1 = size_max ?b0 - 1"
      by (rule resize_ok [OF b' inc])
    have flds: "b_tail ?b0 = ?t" "size_max ?b0 = size_max b" "size_real ?b0 = size_real b" "b_end ?b0 = b_end b" by simp_all
    note r = r0 [unfolded flds]
    have e: "b_end b + (length s - Suc ?l + 1) = ?t + length s" using False sz(4) by simp
    have grow: "size_real b1 \<le> size_real b + 2 * length s" using r(6) False by simp
    have h: "have_room b b1 blk blk1 tr (length s) rc"
      using r(2-5) r(7) [unfolded e] grow tb by (simp add: have_room_def)
    note rt = room_tail [OF h] and sz1 = is_buf_sizes [OF r(2)]
    define L where "L = b_end b1 - ?t"
    have left1: "end_plus_1 b1 - ?t = Suc L" using sz1(2) rt(9) by (simp add: L_def)
    let ?w1 = "take L s @ [nul]" and ?b1 = "\<lambda>blk. b1\<lparr>b_start := Live blk\<rparr>"
    let ?blk2 = "overwrite ?t ?w1 blk1"
    have fits1: "?t + length ?w1 \<le> length blk1" using sz1(3) rt(9) by (simp add: L_def)
    have v2: "vsnprintf (Some s) ?t (Suc L) b1 = Some (int (length s), ?b1 ?blk2)"
      using s sz1(1) fits1 by (simp add: vsnprintf_def)
    have lb2: "length ?blk2 = length blk1" by (rule length_overwrite [OF fits1])
    have pd: "zlog_buf_vprintf (Some g) (Some s) b = do {
        (rc, b) \<leftarrow> Some (rc, b1);
        if rc > 0 then do {
          let size_left = end_plus_1 b - b_tail b;
          (_, b) \<leftarrow> vsnprintf (Some s) (b_tail b) size_left b;
          b \<leftarrow> zlog_buf_truncate (b\<lparr>b_tail := b_tail b + (size_left - 1)\<rparr>);
          Some (1, b) }
        else if rc < 0 then Some (- 1, b)
        else do {
          let size_left = end_plus_1 b - b_tail b;
          (nwrite, b) \<leftarrow> vsnprintf (Some s) (b_tail b) size_left b;
          if nwrite < 0 then Some (- 1, b)
          else Some (0, b\<lparr>b_tail := b_tail b + nat nwrite\<rparr>) } }"
      using False live r(1) by (simp add: zlog_buf_vprintf_def left v1)
    consider "rc = 0" | "rc = 1" using rt(4) by blast
    then show ?thesis
    proof cases
      case 1
      have "length s \<le> L" using h 1 rt(2) by (simp add: have_room_def L_def) linarith
      then have "take (?t + length s) ?blk2 = take ?t blk1 @ s"
        using rt(8,9) by (simp add: overwrite_def)
      then have "puts (Some (0, b1\<lparr>b_start := Live ?blk2, b_tail := b_tail b1 + length s\<rparr>)) b tr (take ?t blk) s"
        using h 1 lb2 by (intro end_fits) simp_all
      then show ?thesis unfolding pd using 1 r(3) left1 v2 by simp
    next
      case 2
      have Ls: "L \<le> length s" using rt(6) 2 by (simp add: L_def)
      have te: "?t + L = b_end b1" using rt(9) by (simp add: L_def)
      have "length (take L s) = L" "?t \<le> length blk1" using Ls fits1 by simp_all
      then have "take (?t + L) ?blk2 = take ?t blk1 @ take L s" by (simp add: overwrite_def)
      then have "take (b_end b1) ?blk2 = take ?t blk1 @ take L s" by (simp only: te)
      then have "puts (do { b \<leftarrow> zlog_buf_truncate (b1\<lparr>b_start := Live ?blk2, b_tail := b_tail b1 + (b_end b1 - b_tail b1)\<rparr>); Some (1, b) })
          b tr (take ?t blk) s"
        using h 2 lb2 r(3) by (intro end_cut) (simp_all add: L_def)
      then show ?thesis unfolding pd using 2 r(3) left1 v2 te sz1(2) by simp
    qed
  qed
qed

section \<open>Numbers\<close>

fun dec_string :: "nat \<Rightarrow> bytes" where
  "dec_string n = (if n < 10 then [char_of (n + 48)] else dec_string (n div 10) @ [char_of (n mod 10 + 48)])"

fun hex_string :: "nat \<Rightarrow> bytes" where
  "hex_string n = (if n < 16 then [hex_digit n] else hex_string (n div 16) @ [hex_digit (n mod 16)])"

declare dec_string.simps [simp del] hex_string.simps [simp del]

lemma dec_digits_string:
  assumes "unat (10 :: 'a::len word) = 10" and "unat x < 10 ^ room" and "0 < room"
  shows "dec_digits room (x :: 'a word) p = Some (dec_string (unat x) @ p)"
  using assms(2,3)
proof (induction room arbitrary: x p)
  case (Suc room)
  have md: "unat (x mod 10) = unat x mod 10" "unat (x div 10) = unat x div 10"
    using assms(1) by (simp_all add: unat_mod unat_div)
  then have z: "x div 10 = 0 \<longleftrightarrow> unat x < 10" by (metis div_less div_eq_0_iff unat_eq_zero zero_neq_numeral)
  show ?case
  proof (cases "unat x < 10")
    case True
    then show ?thesis using z md by (simp add: dec_string.simps [of "unat x"])
  next
    case False
    have "unat (x div 10) < 10 ^ room" using Suc.prems(1) md(2) by (simp add: less_mult_imp_div_less mult.commute)
    moreover have "0 < room" using False Suc.prems(1) by (cases room) auto
    ultimately have "dec_digits room (x div 10) (char_of (unat x mod 10 + 48) # p) =
        Some (dec_string (unat x div 10) @ char_of (unat x mod 10 + 48) # p)"
      using Suc.IH md(2) by simp
    then show ?thesis using False z md(1) by (simp add: dec_string.simps [of "unat x"])
  qed
qed simp

lemma hex_digits_string:
  assumes "unat x < 16 ^ room" and "0 < room"
  shows "hex_digits room x p = Some (hex_string (unat x) @ p)"
  using assms
proof (induction room arbitrary: x p)
  case (Suc room)
  have "and x 0xf = take_bit 4 x" by (simp add: take_bit_eq_mask mask_eq_decr_exp and.commute)
  then have md: "unat (and x 0xf) = unat x mod 16" by (simp add: unsigned_take_bit_eq take_bit_eq_mod unat_mod)
  have dv: "unat (drop_bit 4 x) = unat x div 16" by (simp add: unsigned_drop_bit_eq drop_bit_eq_div unat_div)
  then have z: "drop_bit 4 x = 0 \<longleftrightarrow> unat x < 16" by (metis div_less div_eq_0_iff unat_eq_zero zero_neq_numeral)
  show ?case
  proof (cases "unat x < 16")
    case True
    then show ?thesis using z md by (simp add: hex_string.simps [of "unat x"])
  next
    case False
    have "unat (drop_bit 4 x) < 16 ^ room" using Suc.prems(1) dv by (simp add: less_mult_imp_div_less mult.commute)
    moreover have "0 < room" using False Suc.prems(1) by (cases room) auto
    ultimately have "hex_digits room (drop_bit 4 x) (hex_digit (unat x mod 16) # p) =
        Some (hex_string (unat x div 16) @ hex_digit (unat x mod 16) # p)"
      using Suc.IH dv by simp
    then show ?thesis using False z md by (simp add: hex_string.simps [of "unat x"])
  qed
qed simp

lemma length_dec_string: "n < 10 ^ k \<Longrightarrow> 0 < k \<Longrightarrow> length (dec_string n) \<le> k"
proof (induction k arbitrary: n)
  case (Suc k)
  show ?case
  proof (cases "n < 10")
    case False
    then have "0 < k" using Suc.prems(1) by (cases k) auto
    moreover have "n div 10 < 10 ^ k" using Suc.prems(1) by (simp add: less_mult_imp_div_less mult.commute)
    ultimately show ?thesis using Suc.IH [of "n div 10"] False by (simp add: dec_string.simps [of n])
  qed (simp add: dec_string.simps [of n])
qed simp

lemma length_hex_string: "n < 16 ^ k \<Longrightarrow> 0 < k \<Longrightarrow> length (hex_string n) \<le> k"
proof (induction k arbitrary: n)
  case (Suc k)
  show ?case
  proof (cases "n < 16")
    case False
    then have "0 < k" using Suc.prems(1) by (cases k) auto
    moreover have "n div 16 < 16 ^ k" using Suc.prems(1) by (simp add: less_mult_imp_div_less mult.commute)
    ultimately show ?thesis using Suc.IH [of "n div 16"] False by (simp add: hex_string.simps [of n])
  qed (simp add: hex_string.simps [of n])
qed simp

lemma dec32_puts:
  assumes b: "is_buf b blk tr" and w: "0 \<le> width" "width < 2 ^ 31"
    and sp: "spare b (length (zero_padded (nat width) (dec_string (unat x))))"
  shows "puts (zlog_buf_printf_dec32 (Some g) x width b) b tr (take (b_tail b) blk)
    (zero_padded (nat width) (dec_string (unat x)))"
proof -
  have lt: "unat x < 10 ^ ZLOG_INT32_LEN"
    using unsigned_less [of x, where ?'a = nat] by (simp add: ZLOG_INT32_LEN_def)
  have "dec_digits ZLOG_INT32_LEN x [] = Some (dec_string (unat x))"
    using dec_digits_string [of x ZLOG_INT32_LEN "[]"] lt by (simp add: ZLOG_INT32_LEN_def)
  moreover have "length (dec_string (unat x)) < 2 ^ 31"
    using length_dec_string [OF lt] by (simp add: ZLOG_INT32_LEN_def)
  ultimately show ?thesis using digits_puts [OF b w _ sp] is_buf_sizes(1) [OF b] by (simp add: zlog_buf_printf_dec32_def)
qed

lemma dec64_puts:
  assumes b: "is_buf b blk tr" and w: "0 \<le> width" "width < 2 ^ 31"
    and sp: "spare b (length (zero_padded (nat width) (dec_string (unat x))))"
  shows "puts (zlog_buf_printf_dec64 (Some g) x width b) b tr (take (b_tail b) blk)
    (zero_padded (nat width) (dec_string (unat x)))"
proof -
  have lt: "unat x < 10 ^ ZLOG_INT64_LEN"
    using unsigned_less [of x, where ?'a = nat] by (simp add: ZLOG_INT64_LEN_def)
  have lo: "unat (ucast x :: u32) = unat x" if "x \<le> 0xffffffff"
  proof -
    have "unat x < 2 ^ 32" using that by (simp add: word_le_nat_alt)
    then show ?thesis by (simp add: unsigned_ucast_eq take_bit_nat_eq_self)
  qed
  have "(if x \<le> 0xffffffff then dec_digits ZLOG_INT64_LEN (ucast x :: u32) [] else dec_digits ZLOG_INT64_LEN x []) =
      Some (dec_string (unat x))"
    using dec_digits_string [of x ZLOG_INT64_LEN "[]"] dec_digits_string [of "ucast x :: u32" ZLOG_INT64_LEN "[]"] lt lo
    by (simp add: ZLOG_INT64_LEN_def)
  moreover have "length (dec_string (unat x)) < 2 ^ 31"
    using length_dec_string [OF lt] by (simp add: ZLOG_INT64_LEN_def)
  ultimately show ?thesis using digits_puts [OF b w _ sp] is_buf_sizes(1) [OF b] by (simp add: zlog_buf_printf_dec64_def)
qed

lemma hex_puts:
  assumes b: "is_buf b blk tr" and w: "0 \<le> width" "width < 2 ^ 31"
    and sp: "spare b (length (zero_padded (nat width) (hex_string (unat x))))"
  shows "puts (zlog_buf_printf_hex (Some g) x width b) b tr (take (b_tail b) blk)
    (zero_padded (nat width) (hex_string (unat x)))"
proof -
  have lt: "unat x < 16 ^ ZLOG_INT32_LEN"
    using unsigned_less [of x, where ?'a = nat] by (simp add: ZLOG_INT32_LEN_def)
  have "hex_digits ZLOG_INT32_LEN x [] = Some (hex_string (unat x))"
    using hex_digits_string [of x ZLOG_INT32_LEN "[]"] lt by (simp add: ZLOG_INT32_LEN_def)
  moreover have "length (hex_string (unat x)) < 2 ^ 31"
    using length_hex_string [OF lt] by (simp add: ZLOG_INT32_LEN_def)
  ultimately show ?thesis using digits_puts [OF b w _ sp] is_buf_sizes(1) [OF b] by (simp add: zlog_buf_printf_hex_def)
qed

section \<open>The contract\<close>

text \<open>A list of writes, each with what \<open>realloc\<close> returns for it, and the same on texts.\<close>

fun write_all :: "((nat \<Rightarrow> char) option \<Rightarrow> 'a \<Rightarrow> zlog_buf \<Rightarrow> (int \<times> zlog_buf) option) \<Rightarrow> ((nat \<Rightarrow> char) \<times> 'a) list \<Rightarrow>
    zlog_buf \<Rightarrow> (int list \<times> zlog_buf) option" where
  "write_all wr [] b = Some ([], b)"
| "write_all wr (a # ops) b = do {
     (rc, b) \<leftarrow> wr (Some (fst a)) (snd a) b;
     (rcs, b) \<leftarrow> write_all wr ops b;
     Some (rc # rcs, b) }"

fun put_list :: "nat \<Rightarrow> string \<Rightarrow> bytes \<Rightarrow> bytes list \<Rightarrow> int list \<times> bytes" where
  "put_list mx tr c [] = ([], c)"
| "put_list mx tr c (x # xs) = (
     let (rc, c1) = put_bytes mx tr c x; (rcs, c2) = put_list mx tr c1 xs in (rc # rcs, c2))"

lemma put_list_short: "mx = 0 \<or> length c < mx \<Longrightarrow> mx = 0 \<or> length (snd (put_list mx tr c xs)) < mx"
proof (induction xs arbitrary: c)
  case (Cons x xs)
  obtain rc c1 where p: "put_bytes mx tr c x = (rc, c1)" by (rule prod.exhaust)
  have "mx = 0 \<or> length c1 < mx" using p Cons.prems by (auto simp: put_bytes_def split: if_splits)
  then show ?case using Cons.IH [of c1] by (auto simp: p split: prod.split)
qed simp

lemma put_list_room: "mx = 0 \<or> length (c @ concat xs) < mx \<Longrightarrow> put_list mx tr c xs = (replicate (length xs) 0, c @ concat xs)"
  by (induction xs arbitrary: c) (auto simp: put_bytes_def)

locale buf_writer =
  fixes wr :: "(nat \<Rightarrow> char) option \<Rightarrow> 'a \<Rightarrow> zlog_buf \<Rightarrow> (int \<times> zlog_buf) option"
    and valid :: "'a \<Rightarrow> bool" and shown :: "'a \<Rightarrow> bytes"
  assumes writes: "valid a \<Longrightarrow> is_buf b blk tr \<Longrightarrow> spare b (length (shown a)) \<Longrightarrow> puts (wr (Some g) a b) b tr (take (b_tail b) blk) (shown a)"
begin

lemma write_all_eq:
  assumes "buf_ok b tr c" and "\<forall>a \<in> set ops. valid (snd a)" and "spare b (length (concat (map (shown \<circ> snd) ops)))"
  shows "\<exists>b'. write_all wr ops b = Some (fst (put_list (size_max b) tr c (map (shown \<circ> snd) ops)), b') \<and>
    buf_ok b' tr (snd (put_list (size_max b) tr c (map (shown \<circ> snd) ops))) \<and> size_max b' = size_max b \<and>
    size_real b' \<le> size_real b + 2 * length (concat (map (shown \<circ> snd) ops))"
  using assms
proof (induction ops arbitrary: b c)
  case (Cons a ops)
  obtain blk where b: "is_buf b blk tr" "c = take (b_tail b) blk" using Cons.prems(1) by (auto simp: buf_ok_def)
  have "puts (wr (Some (fst a)) (snd a) b) b tr c (shown (snd a))"
    unfolding b(2) using Cons.prems(2,3) b(1) by (intro writes) simp_all
  then obtain b1 where b1: "wr (Some (fst a)) (snd a) b = Some (fst (put_bytes (size_max b) tr c (shown (snd a))), b1)"
    "buf_ok b1 tr (snd (put_bytes (size_max b) tr c (shown (snd a))))" "size_max b1 = size_max b"
    "size_real b1 \<le> size_real b + 2 * length (shown (snd a))"
    by (auto simp: puts_def)
  have "\<forall>a \<in> set ops. valid (snd a)" "spare b1 (length (concat (map (shown \<circ> snd) ops)))"
    using Cons.prems(2,3) b1(4) by (simp_all add: comp_def)
  from Cons.IH [OF b1(2) this] show ?case using b1(1,3,4) by (auto simp: Let_def split: prod.split)
qed simp

lemma write_all_fits:
  assumes "buf_ok b tr c" and "\<forall>a \<in> set ops. valid (snd a)"
    and "spare b (length (concat (map (shown \<circ> snd) ops)))"
    and "size_max b = 0 \<or> length (c @ concat (map (shown \<circ> snd) ops)) < size_max b"
  shows "\<exists>b'. write_all wr ops b = Some (replicate (length ops) 0, b') \<and> buf_ok b' tr (c @ concat (map (shown \<circ> snd) ops))"
  using write_all_eq [OF assms(1-3)] put_list_room [OF assms(4), of tr] by auto

end

text \<open>Each operation meets it, and so do all of them in one list.\<close>

abbreviation int_width :: "int \<Rightarrow> bool" where
  "int_width w \<equiv> 0 \<le> w \<and> w < 2 ^ 31"

interpretation wapp: buf_writer "\<lambda>m (str, n) b. zlog_buf_append m str n b" "\<lambda>(str, n). n \<le> length str" "\<lambda>(str, n). take n str"
  by unfold_locales (auto intro: append_puts)

interpretation wadj: buf_writer "\<lambda>m (str, n, l, iw, ow) b. zlog_buf_adjust_append m str n l iw ow b"
  "\<lambda>(str, n, l, iw, ow). n \<le> length str" "\<lambda>(str, n, l, iw, ow). adjusted str n l iw ow"
  by unfold_locales (auto intro: adjust_append_puts)

interpretation wdec: buf_writer "\<lambda>m (x, w) b. zlog_buf_printf_dec32 m x w b" "\<lambda>(x, w). int_width w"
  "\<lambda>(x, w). zero_padded (nat w) (dec_string (unat x))"
  by unfold_locales (auto intro!: dec32_puts)

interpretation wdec64: buf_writer "\<lambda>m (x, w) b. zlog_buf_printf_dec64 m x w b" "\<lambda>(x, w). int_width w"
  "\<lambda>(x, w). zero_padded (nat w) (dec_string (unat x))"
  by unfold_locales (auto intro!: dec64_puts)

interpretation whex: buf_writer "\<lambda>m (x, w) b. zlog_buf_printf_hex m x w b" "\<lambda>(x, w). int_width w"
  "\<lambda>(x, w). zero_padded (nat w) (hex_string (unat x))"
  by unfold_locales (auto intro!: hex_puts)

interpretation wpr: buf_writer "\<lambda>m s b. zlog_buf_vprintf m (Some s) b" "\<lambda>s. length s < 2 ^ 31" "\<lambda>s. s"
  by unfold_locales (auto intro: vprintf_puts)

datatype buf_op = Append bytes nat | Adjust bytes nat bool nat nat | Dec32 u32 int | Dec64 u64 int | Hex u32 int | Printf string

fun buf_do :: "(nat \<Rightarrow> char) option \<Rightarrow> buf_op \<Rightarrow> zlog_buf \<Rightarrow> (int \<times> zlog_buf) option" where
  "buf_do m (Append str n) b = zlog_buf_append m str n b"
| "buf_do m (Adjust str n l iw ow) b = zlog_buf_adjust_append m str n l iw ow b"
| "buf_do m (Dec32 x w) b = zlog_buf_printf_dec32 m x w b"
| "buf_do m (Dec64 x w) b = zlog_buf_printf_dec64 m x w b"
| "buf_do m (Hex x w) b = zlog_buf_printf_hex m x w b"
| "buf_do m (Printf s) b = zlog_buf_vprintf m (Some s) b"

fun buf_op_ok :: "buf_op \<Rightarrow> bool" where
  "buf_op_ok (Append str n) = (n \<le> length str)"
| "buf_op_ok (Adjust str n l iw ow) = (n \<le> length str)"
| "buf_op_ok (Dec32 x w) = int_width w"
| "buf_op_ok (Dec64 x w) = int_width w"
| "buf_op_ok (Hex x w) = int_width w"
| "buf_op_ok (Printf s) = (length s < 2 ^ 31)"

fun buf_text :: "buf_op \<Rightarrow> bytes" where
  "buf_text (Append str n) = take n str"
| "buf_text (Adjust str n l iw ow) = adjusted str n l iw ow"
| "buf_text (Dec32 x w) = zero_padded (nat w) (dec_string (unat x))"
| "buf_text (Dec64 x w) = zero_padded (nat w) (dec_string (unat x))"
| "buf_text (Hex x w) = zero_padded (nat w) (hex_string (unat x))"
| "buf_text (Printf s) = s"

interpretation wall: buf_writer buf_do buf_op_ok buf_text
proof
  fix a b blk tr g assume v: "buf_op_ok a" and b: "is_buf b blk tr" and sp: "spare b (length (buf_text a))"
  show "puts (buf_do (Some g) a b) b tr (take (b_tail b) blk) (buf_text a)"
  proof (cases a)
    case (Append str n)
    then show ?thesis using wapp.writes [of "(str, n)" b blk tr g] v b sp by simp
  next
    case (Adjust str n l iw ow)
    then show ?thesis using wadj.writes [of "(str, n, l, iw, ow)" b blk tr g] v b sp by simp
  next
    case (Dec32 x w)
    then show ?thesis using wdec.writes [of "(x, w)" b blk tr g] v b sp by simp
  next
    case (Dec64 x w)
    then show ?thesis using wdec64.writes [of "(x, w)" b blk tr g] v b sp by simp
  next
    case (Hex x w)
    then show ?thesis using whex.writes [of "(x, w)" b blk tr g] v b sp by simp
  next
    case (Printf s)
    then show ?thesis using wpr.writes [of s b blk tr g] v b sp by simp
  qed
qed

text \<open>A new buffer is empty; it exists when the sizes and the truncation string are legal.\<close>

lemma zlog_buf_new_ok:
  assumes "0 < mn" and "mx = 0 \<or> mn \<le> mx" and "c_string tr" and "length tr \<le> MAXLEN_PATH"
  shows "\<exists>b. zlog_buf_new mn mx (Some tr) True True = Some b \<and> buf_ok b tr [] \<and> size_max b = mx \<and> size_real b = mn"
  using assms by (auto simp: zlog_buf_new_def buf_ok_def is_buf_def)

lemma seal_ok:
  assumes "buf_ok b tr c"
  shows "\<exists>b' blk. zlog_buf_seal b = Some b' \<and> buf_ok b' tr c \<and> b_start b' = Live blk \<and> take (length c + 1) blk = c @ [nul]"
proof -
  obtain blk where b: "is_buf b blk tr" "c = take (b_tail b) blk" using assms by (auto simp: buf_ok_def)
  note sz = is_buf_sizes [OF b(1)]
  let ?blk = "overwrite (b_tail b) [nul] blk"
  have "length ?blk = length blk" using sz(3,4) by (intro length_overwrite) simp
  then have "is_buf (b\<lparr>b_start := Live ?blk\<rparr>) ?blk tr" by (rule is_buf_store [OF b(1)])
  moreover have "take (b_tail b) ?blk = c" using sz(3,4) b(2) by (simp add: take_overwrite_low)
  moreover have "length c = b_tail b" using b(2) sz(3,4) by simp
  moreover have "take (b_tail b + 1) ?blk = c @ [nul]"
    using take_overwrite [of "b_tail b" "[nul]" blk] sz(3,4) b(2) by simp
  ultimately show ?thesis using sz(1,3,4) by (auto simp: zlog_buf_seal_def buf_ok_def)
qed

end
