(* ===== verification/Scan.thy ===== *)
theory Scan
  imports Prelude
begin

text \<open>
  What the logger uses of \<^verbatim>\<open>ctype.h\<close>, \<^verbatim>\<open>string.h\<close> and \<open>sscanf\<close>, on the values of C strings in the C
  locale. A conversion takes the rest of the input and gives what it read and what is left, or
  \<open>None\<close> when it does not match.
\<close>

section \<open>Characters\<close>

definition isspace :: "char \<Rightarrow> bool" where
  "isspace c \<longleftrightarrow> c = CHR '' '' \<or> (9 \<le> (of_char c :: nat) \<and> of_char c \<le> (13 :: nat))"

definition isdigit :: "char \<Rightarrow> bool" where
  "isdigit c \<longleftrightarrow> 48 \<le> (of_char c :: nat) \<and> of_char c \<le> (57 :: nat)"

definition isupper :: "char \<Rightarrow> bool" where
  "isupper c \<longleftrightarrow> 65 \<le> (of_char c :: nat) \<and> of_char c \<le> (90 :: nat)"

definition islower :: "char \<Rightarrow> bool" where
  "islower c \<longleftrightarrow> 97 \<le> (of_char c :: nat) \<and> of_char c \<le> (122 :: nat)"

definition isalnum :: "char \<Rightarrow> bool" where
  "isalnum c \<longleftrightarrow> isdigit c \<or> isupper c \<or> islower c"

definition toupper :: "char \<Rightarrow> char" where
  "toupper c = (if islower c then char_of ((of_char c :: nat) - 32) else c)"

definition tolower :: "char \<Rightarrow> char" where
  "tolower c = (if isupper c then char_of ((of_char c :: nat) + 32) else c)"

lemmas ctype_defs = isspace_def isdigit_def isupper_def islower_def isalnum_def toupper_def tolower_def

lemma tolower_toupper [simp]: "tolower (toupper c) = tolower c"
  by (auto simp: tolower_def toupper_def islower_def isupper_def of_char_of)

section \<open>Strings\<close>

definition strcasecmp :: "string \<Rightarrow> string \<Rightarrow> int" where
  "strcasecmp s t = strcmp (map tolower s) (map tolower t)"

definition strncmp :: "string \<Rightarrow> string \<Rightarrow> nat \<Rightarrow> int" where
  "strncmp s t n = strcmp (take n s) (take n t)"

lemma strcasecmp_eq_0_iff [simp]: "strcasecmp s t = 0 \<longleftrightarrow> map tolower s = map tolower t"
  by (simp add: strcasecmp_def)

lemma strncmp_eq_0_iff [simp]: "strncmp s t n = 0 \<longleftrightarrow> take n s = take n t"
  by (simp add: strncmp_def)

section \<open>Scanning\<close>

definition skip_ws :: "string \<Rightarrow> string" where
  "skip_ws s = dropWhile isspace s"

definition scan_set :: "(char \<Rightarrow> bool) \<Rightarrow> string \<Rightarrow> (string \<times> string) option" where
  "scan_set P s = (let w = takeWhile P s in if w = [] then None else Some (w, dropWhile P s))"

definition scan_word :: "string \<Rightarrow> (string \<times> string) option" where
  "scan_word s = scan_set (\<lambda>c. \<not> isspace c) (skip_ws s)"

fun scan_lit :: "char \<Rightarrow> string \<Rightarrow> string option" where
  "scan_lit c [] = None"
| "scan_lit c (d # ds) = (if d = c then Some ds else None)"

definition dec_value :: "string \<Rightarrow> int" where
  "dec_value ds = foldl (\<lambda>n c. 10 * n + (int (of_char c) - 48)) 0 ds"

fun scan_sign :: "string \<Rightarrow> int \<times> string" where
  "scan_sign [] = (1, [])"
| "scan_sign (c # cs) = (if c = CHR ''-'' then (- 1, cs) else if c = CHR ''+'' then (1, cs) else (1, c # cs))"

definition scan_num :: "string \<Rightarrow> (int \<times> string) option" where
  "scan_num s = (let (sg, s) = scan_sign (skip_ws s) in
     case scan_set isdigit s of None \<Rightarrow> None | Some (ds, s) \<Rightarrow> Some (sg * dec_value ds, s))"

text \<open>A conversion to \<open>int\<close> of a number out of its range is undefined.\<close>

definition fits_c_int :: "int \<Rightarrow> bool" where
  "fits_c_int n \<longleftrightarrow> - (2 ^ 31) \<le> n \<and> n < 2 ^ 31"

lemma scan_set_SomeD: "scan_set P s = Some (w, r) \<Longrightarrow> s = w @ r \<and> w \<noteq> [] \<and> (\<forall>c \<in> set w. P c)"
  by (auto simp: scan_set_def Let_def split: if_splits dest: set_takeWhileD)

end
