(* ===== verification/ZcArrayList.thy ===== *)
theory ZcArrayList
  imports Prelude "HOL-Library.Multiset"
begin

text \<open>
  The array list of the logger (\<^verbatim>\<open>contrib/zlog/src/zc_arraylist.c\<close>): an array of pointers (\<open>None\<close> is null)
  that doubles when it is full. Indices and sizes are C \<open>int\<close>s: an overflow and an access outside
  the array are faults. \<open>al_freed\<close> records what the callback \<open>del\<close> was called with; \<open>mem\<close> says whether
  \<open>realloc\<close> succeeds. After a failed \<open>realloc\<close> the array is freed but still pointed to (\<open>None\<close>).
\<close>

section \<open>Operations\<close>

record 'a arraylist =
  al_array :: "'a option list option"
  al_len :: int
  al_size :: int
  al_del :: bool
  al_freed :: "'a list"

definition ARRAY_LIST_DEFAULT_SIZE :: int where
  "ARRAY_LIST_DEFAULT_SIZE = 32"

text \<open>\<open>None\<close> is the null pointer that is returned when one of the two allocations fails.\<close>

definition zc_arraylist_new :: "bool \<Rightarrow> bool \<Rightarrow> bool \<Rightarrow> 'a arraylist option" where
  "zc_arraylist_new del c1 c2 =
     (if c1 \<and> c2 then Some \<lparr>al_array = Some (replicate (nat ARRAY_LIST_DEFAULT_SIZE) None), al_len = 0,
        al_size = ARRAY_LIST_DEFAULT_SIZE, al_del = del, al_freed = []\<rparr> else None)"

definition array_at :: "'a arraylist \<Rightarrow> int \<Rightarrow> 'a option option" where
  "array_at l i = do {
     a \<leftarrow> al_array l;
     check (0 \<le> i \<and> nat i < length a);
     Some (a ! nat i) }"

definition array_put :: "'a arraylist \<Rightarrow> int \<Rightarrow> 'a option \<Rightarrow> 'a arraylist option" where
  "array_put l i x = do {
     a \<leftarrow> al_array l;
     check (0 \<le> i \<and> nat i < length a);
     Some (l\<lparr>al_array := Some (a[nat i := x])\<rparr>) }"

text \<open>The callback is called for the elements that are not null; what it was called with is returned.\<close>

definition zc_arraylist_del :: "'a arraylist \<Rightarrow> 'a list option" where
  "zc_arraylist_del l = do {
     a \<leftarrow> al_array l;
     if al_del l then do {
       check (nat (al_len l) \<le> length a);
       Some (al_freed l @ List.map_filter id (take (nat (al_len l)) a)) }
     else Some (al_freed l) }"

definition zc_max :: "int \<Rightarrow> int \<Rightarrow> int" where
  "zc_max a b = (if b < a then a else b)"

definition zc_arraylist_expand_inner :: "bool \<Rightarrow> 'a arraylist \<Rightarrow> int \<Rightarrow> (int \<times> 'a arraylist) option" where
  "zc_arraylist_expand_inner mem l mx = do {
     check (al_size l * 2 < 2 ^ 31);
     let new_size = zc_max (al_size l * 2) mx;
     a \<leftarrow> al_array l;
     if \<not> mem then Some (- 1, l\<lparr>al_array := None\<rparr>)
     else Some (0, l\<lparr>al_array := Some (a @ replicate (nat (new_size - al_size l)) None), al_size := new_size\<rparr>) }"

definition zc_arraylist_set :: "bool \<Rightarrow> 'a arraylist \<Rightarrow> int \<Rightarrow> 'a option \<Rightarrow> (int \<times> 'a arraylist) option" where
  "zc_arraylist_set mem l idx x = do {
     (rc, l) \<leftarrow> (if al_size l - 1 < idx then zc_arraylist_expand_inner mem l idx else Some (0, l));
     if rc \<noteq> 0 then Some (- 1, l)
     else do {
       old \<leftarrow> array_at l idx;
       let l = (case old of Some y \<Rightarrow> if al_del l then l\<lparr>al_freed := al_freed l @ [y]\<rparr> else l | None \<Rightarrow> l);
       l \<leftarrow> array_put l idx x;
       Some (0, if al_len l \<le> idx then l\<lparr>al_len := idx + 1\<rparr> else l) } }"

definition zc_arraylist_add :: "bool \<Rightarrow> 'a arraylist \<Rightarrow> 'a option \<Rightarrow> (int \<times> 'a arraylist) option" where
  "zc_arraylist_add mem l x = zc_arraylist_set mem l (al_len l) x"

definition zc_arraylist_insert_inner :: "bool \<Rightarrow> 'a arraylist \<Rightarrow> int \<Rightarrow> 'a option \<Rightarrow> (int \<times> 'a arraylist) option" where
  "zc_arraylist_insert_inner mem l idx x = do {
     old \<leftarrow> array_at l idx;
     if old = None then do { l \<leftarrow> array_put l idx x; Some (0, l) }
     else do {
       (rc, l) \<leftarrow> (if al_size l - 1 < al_len l then zc_arraylist_expand_inner mem l 0 else Some (0, l));
       if rc \<noteq> 0 then Some (- 1, l)
       else do {
         a \<leftarrow> al_array l;
         let n = nat (al_len l - idx);
         check (0 \<le> idx \<and> idx \<le> al_len l \<and> nat idx + 1 + n \<le> length a);
         let a = take (nat idx + 1) a @ take n (drop (nat idx) a) @ drop (nat idx + 1 + n) a;
         l \<leftarrow> array_put (l\<lparr>al_array := Some a\<rparr>) idx x;
         Some (0, l\<lparr>al_len := al_len l + 1\<rparr>) } } }"

text \<open>The search of \<open>zc_arraylist_sortadd\<close>, from index \<open>i\<close> on; \<open>cmp\<close> compares pointers.\<close>

function sort_place :: "('a option \<Rightarrow> 'a option \<Rightarrow> int) \<Rightarrow> 'a arraylist \<Rightarrow> 'a option \<Rightarrow> int \<Rightarrow> int option" where
  "sort_place cmp l x i =
     (if i < al_len l then do {
        y \<leftarrow> array_at l i;
        if 0 < cmp y x then Some i else sort_place cmp l x (i + 1) }
      else Some i)"
  by pat_completeness auto
termination by (relation "measure (\<lambda>(_, l, _, i). nat (al_len l - i))") auto

declare sort_place.simps [simp del]

definition zc_arraylist_sortadd ::
  "bool \<Rightarrow> ('a option \<Rightarrow> 'a option \<Rightarrow> int) \<Rightarrow> 'a arraylist \<Rightarrow> 'a option \<Rightarrow> (int \<times> 'a arraylist) option" where
  "zc_arraylist_sortadd mem cmp l x = do {
     i \<leftarrow> sort_place cmp l x 0;
     if i = al_len l then zc_arraylist_add mem l x else zc_arraylist_insert_inner mem l i x }"

definition zc_arraylist_get :: "'a arraylist \<Rightarrow> int \<Rightarrow> 'a option option" where
  "zc_arraylist_get l i = (if al_len l \<le> i then Some None else array_at l i)"

section \<open>Lists\<close>

text \<open>An array list that holds \<open>xs\<close>, with room for \<open>m\<close> more.\<close>

definition holds :: "'a arraylist \<Rightarrow> 'a list \<Rightarrow> nat \<Rightarrow> bool" where
  "holds l xs m \<longleftrightarrow> al_array l = Some (map Some xs @ replicate m None) \<and> al_len l = int (length xs) \<and>
     al_size l = int (length xs + m) \<and> 1 \<le> length xs + m"

lemma holds_new: "\<exists>l. zc_arraylist_new del True True = Some l \<and> holds l [] 32 \<and> al_freed l = []"
  by (simp add: zc_arraylist_new_def holds_def ARRAY_LIST_DEFAULT_SIZE_def)

lemma holds_at: "holds l xs m \<Longrightarrow> i < length xs \<Longrightarrow> array_at l (int i) = Some (Some (xs ! i))"
  by (simp add: holds_def array_at_def nth_append)

lemma expand_holds:
  assumes h: "holds l xs 0" and small: "length xs < 2 ^ 30" and mx: "mx \<le> al_len l"
  shows "\<exists>l'. zc_arraylist_expand_inner True l mx = Some (0, l') \<and> holds l' xs (length xs) \<and> al_freed l' = al_freed l"
proof -
  note hd = h [unfolded holds_def]
  have "zc_max (al_size l * 2) mx = 2 * al_size l" using hd mx by (auto simp: zc_max_def)
  then show ?thesis using hd small
    by (auto simp: zc_arraylist_expand_inner_def holds_def)
qed

lemma add_holds:
  assumes h: "holds l xs m" and small: "length xs < 2 ^ 30"
  shows "\<exists>l' m'. zc_arraylist_add True l (Some x) = Some (0, l') \<and> holds l' (xs @ [x]) m' \<and> al_freed l' = al_freed l"
proof -
  obtain l1 m1 where l1: "(if al_size l - 1 < al_len l then zc_arraylist_expand_inner True l (al_len l) else Some (0, l)) = Some (0, l1)"
    "holds l1 xs (Suc m1)" "al_freed l1 = al_freed l"
  proof (cases m)
    case 0
    then obtain l' where l': "zc_arraylist_expand_inner True l (al_len l) = Some (0, l')" "holds l' xs (length xs)" "al_freed l' = al_freed l"
      using expand_holds [of l xs "al_len l"] h small by auto
    moreover have "length xs = Suc (length xs - 1)" using h 0 unfolding holds_def by linarith
    ultimately show thesis using that [of l' "length xs - 1"] h 0 by (simp add: holds_def)
  next
    case (Suc k)
    then show thesis using that [of l k] h by (simp add: holds_def)
  qed
  have len: "al_len l = int (length xs)" "al_len l1 = int (length xs)" using h l1(2) by (simp_all add: holds_def)
  have "array_at l1 (int (length xs)) = Some None" using l1(2) by (simp add: holds_def array_at_def nth_append)
  moreover have "array_put l1 (int (length xs)) (Some x) = Some (l1\<lparr>al_array := Some (map Some (xs @ [x]) @ replicate m1 None)\<rparr>)"
    using l1(2) by (simp add: holds_def array_put_def list_update_append)
  ultimately have "zc_arraylist_add True l (Some x) =
      Some (0, l1\<lparr>al_array := Some (map Some (xs @ [x]) @ replicate m1 None), al_len := int (length xs) + 1\<rparr>)"
    unfolding zc_arraylist_add_def zc_arraylist_set_def l1(1) using len by simp
  then show ?thesis using l1(2,3) by (auto simp: holds_def)
qed

lemma insert_holds:
  assumes h: "holds l (us @ v # vs) m" and small: "length (us @ v # vs) < 2 ^ 30"
  shows "\<exists>l' m'. zc_arraylist_insert_inner True l (int (length us)) (Some x) = Some (0, l') \<and>
    holds l' (us @ x # v # vs) m' \<and> al_freed l' = al_freed l"
proof -
  let ?xs = "us @ v # vs"
  obtain l1 m1 where l1: "(if al_size l - 1 < al_len l then zc_arraylist_expand_inner True l 0 else Some (0, l)) = Some (0, l1)"
    "holds l1 ?xs (Suc m1)" "al_freed l1 = al_freed l"
  proof (cases m)
    case 0
    then obtain l' where l': "zc_arraylist_expand_inner True l 0 = Some (0, l')" "holds l' ?xs (length ?xs)" "al_freed l' = al_freed l"
      using expand_holds [of l ?xs 0] h small by (auto simp: holds_def)
    then show thesis using that [of l' "length us + length vs"] h 0 by (simp add: holds_def)
  next
    case (Suc k)
    then show thesis using that [of l k] h by (simp add: holds_def)
  qed
  have at: "array_at l (int (length us)) = Some (Some v)" using holds_at [OF h, of "length us"] by simp
  note hd = l1(2) [unfolded holds_def]
  let ?a = "map Some ?xs @ replicate (Suc m1) None"
  let ?n = "length (v # vs)"
  have n: "nat (al_len l1 - int (length us)) = ?n" "nat (int (length us)) = length us" using hd by simp_all
  have mv: "take (length us + 1) ?a @ take ?n (drop (length us) ?a) @ drop (length us + 1 + ?n) ?a =
      map Some (us @ v # v # vs) @ replicate m1 None" by simp
  have "array_put (l1\<lparr>al_array := Some (map Some (us @ v # v # vs) @ replicate m1 None)\<rparr>) (int (length us)) (Some x) =
      Some (l1\<lparr>al_array := Some (map Some (us @ x # v # vs) @ replicate m1 None)\<rparr>)"
    by (simp add: array_put_def list_update_append)
  then have "zc_arraylist_insert_inner True l (int (length us)) (Some x) =
      Some (0, l1\<lparr>al_array := Some (map Some (us @ x # v # vs) @ replicate m1 None), al_len := al_len l1 + 1\<rparr>)"
    unfolding zc_arraylist_insert_inner_def l1(1) using hd at n mv by simp
  then show ?thesis using l1(2,3) by (auto simp: holds_def)
qed

section \<open>Sorting\<close>

text \<open>\<open>cmp\<close> compares by a key.\<close>

definition by_key :: "('a option \<Rightarrow> 'a option \<Rightarrow> int) \<Rightarrow> ('a \<Rightarrow> 'k::linorder) \<Rightarrow> bool" where
  "by_key cmp f \<longleftrightarrow> (\<forall>x y. 0 < cmp (Some x) (Some y) \<longleftrightarrow> f y < f x)"

lemma sort_place_eq:
  assumes "holds l xs m" and "by_key cmp f" and "i \<le> length xs"
  shows "sort_place cmp l (Some x) (int i) = Some (int (i + length (takeWhile (\<lambda>y. f y \<le> f x) (drop i xs))))"
  using assms(3)
proof (induction "length xs - i" arbitrary: i)
  case 0
  then show ?case using assms(1) by (simp add: sort_place.simps holds_def)
next
  case (Suc n)
  then have i: "i < length xs" by simp
  then have d: "drop i xs = xs ! i # drop (Suc i) xs" by (simp add: Cons_nth_drop_Suc)
  have c: "0 < cmp (Some (xs ! i)) (Some x) \<longleftrightarrow> \<not> f (xs ! i) \<le> f x" using assms(2) by (auto simp: by_key_def)
  have "sort_place cmp l (Some x) (int (Suc i)) =
      Some (int (Suc i + length (takeWhile (\<lambda>y. f y \<le> f x) (drop (Suc i) xs))))"
    using Suc.hyps(1) [of "Suc i"] Suc.hyps(2) i by (simp del: of_nat_Suc)
  moreover have "int i < al_len l" using i assms(1) by (simp add: holds_def)
  ultimately show ?case
    using c holds_at [OF assms(1) i] by (simp add: d sort_place.simps [of cmp l "Some x" "int i"] add.commute [of 1])
qed

definition insert_after :: "('a \<Rightarrow> 'k::linorder) \<Rightarrow> 'a \<Rightarrow> 'a list \<Rightarrow> 'a list" where
  "insert_after f x xs = takeWhile (\<lambda>y. f y \<le> f x) xs @ x # dropWhile (\<lambda>y. f y \<le> f x) xs"

lemma sortadd_holds:
  assumes h: "holds l xs m" and cmp: "by_key cmp f" and small: "length xs < 2 ^ 30"
  shows "\<exists>l' m'. zc_arraylist_sortadd True cmp l (Some x) = Some (0, l') \<and> holds l' (insert_after f x xs) m' \<and>
    al_freed l' = al_freed l"
proof -
  let ?us = "takeWhile (\<lambda>y. f y \<le> f x) xs" and ?vs = "dropWhile (\<lambda>y. f y \<le> f x) xs"
  have p: "sort_place cmp l (Some x) 0 = Some (int (length ?us))" using sort_place_eq [OF h cmp, of 0] by simp
  have len: "al_len l = int (length xs)" using h by (simp add: holds_def)
  show ?thesis
  proof (cases ?vs)
    case Nil
    then have us: "?us = xs" by (metis append_Nil2 takeWhile_dropWhile_id)
    have "insert_after f x xs = xs @ [x]" unfolding insert_after_def us Nil by simp
    moreover have "zc_arraylist_sortadd True cmp l (Some x) = zc_arraylist_add True l (Some x)"
      using p len us by (simp add: zc_arraylist_sortadd_def)
    ultimately show ?thesis using add_holds [OF h small, of x] by simp
  next
    case (Cons v vs)
    then have xs: "?us @ v # vs = xs" by (metis takeWhile_dropWhile_id)
    then have "length xs = length ?us + Suc (length vs)" by (metis length_append length_Cons)
    then have "zc_arraylist_sortadd True cmp l (Some x) = zc_arraylist_insert_inner True l (int (length ?us)) (Some x)"
      using p len by (simp add: zc_arraylist_sortadd_def)
    moreover have "insert_after f x xs = ?us @ x # v # vs" unfolding insert_after_def Cons ..
    ultimately show ?thesis using insert_holds [of l ?us v vs m x] h small unfolding xs by simp
  qed
qed

lemma dropWhile_gt:
  assumes "sorted (map f xs)"
  shows "\<forall>y \<in> set (dropWhile (\<lambda>y. f y \<le> f x) xs). f x < (f y :: 'k::linorder)"
  using assms by (induction xs) (auto simp: not_le intro: less_le_trans)

lemma insert_after_sorted:
  assumes "sorted (map f xs)"
  shows "sorted (map f (insert_after f x xs))"
proof -
  let ?us = "takeWhile (\<lambda>y. f y \<le> f x) xs" and ?vs = "dropWhile (\<lambda>y. f y \<le> f x) xs"
  have gt: "\<forall>y \<in> set ?vs. f x < f y" by (rule dropWhile_gt [OF assms])
  have le: "\<forall>y \<in> set ?us. f y \<le> f x" by (auto dest: set_takeWhileD)
  have "map f xs = map f ?us @ map f ?vs" by (simp flip: map_append)
  then have "sorted (map f ?us)" "sorted (map f ?vs)" using assms by (simp_all add: sorted_append)
  moreover have "\<forall>y \<in> set ?us. \<forall>z \<in> set (x # ?vs). f y \<le> f z"
  proof (intro ballI)
    fix y z assume "y \<in> set ?us" and "z \<in> set (x # ?vs)"
    then have "f y \<le> f x" "f x \<le> f z" using gt le by (auto simp: less_imp_le)
    then show "f y \<le> f z" by (rule order.trans)
  qed
  moreover have "\<forall>z \<in> set ?vs. f x \<le> f z" using gt less_imp_le by blast
  ultimately show ?thesis unfolding insert_after_def sorted_map sorted_wrt_append sorted_wrt.simps by blast
qed

lemma insert_after_mset [simp]: "mset (insert_after f x xs) = add_mset x (mset xs)"
proof -
  have "mset (takeWhile (\<lambda>y. f y \<le> f x) xs) + mset (dropWhile (\<lambda>y. f y \<le> f x) xs) = mset xs"
    by (simp flip: mset_append)
  then show ?thesis by (simp add: insert_after_def)
qed

lemma insert_after_filter:
  assumes "sorted (map f xs)"
  shows "filter (\<lambda>y. f y = k) (insert_after f x xs) = filter (\<lambda>y. f y = k) xs @ filter (\<lambda>y. f y = k) [x]"
proof -
  have gt: "\<forall>y \<in> set (dropWhile (\<lambda>y. f y \<le> f x) xs). f x < f y" by (rule dropWhile_gt [OF assms])
  have "filter (\<lambda>y. f y = k) xs = filter (\<lambda>y. f y = k) (takeWhile (\<lambda>y. f y \<le> f x) xs) @
      filter (\<lambda>y. f y = k) (dropWhile (\<lambda>y. f y \<le> f x) xs)"
    by (simp flip: filter_append)
  moreover have "k = f x \<Longrightarrow> filter (\<lambda>y. f y = k) (dropWhile (\<lambda>y. f y \<le> f x) xs) = []"
    using gt by (auto simp: filter_empty_conv)
  ultimately show ?thesis by (auto simp: insert_after_def)
qed

text \<open>Sorted insertion of a list of elements is the stable sort.\<close>

fun sortadd_all :: "('a option \<Rightarrow> 'a option \<Rightarrow> int) \<Rightarrow> 'a list \<Rightarrow> 'a arraylist \<Rightarrow> 'a arraylist option" where
  "sortadd_all cmp [] l = Some l"
| "sortadd_all cmp (x # xs) l = do {
     (rc, l) \<leftarrow> zc_arraylist_sortadd True cmp l (Some x);
     if rc \<noteq> 0 then Some l else sortadd_all cmp xs l }"

lemma sortadd_all_sorts:
  assumes "holds l ys m" and "by_key cmp f" and "length ys + length xs \<le> 2 ^ 30" and "sorted (map f ys)"
  shows "\<exists>l' zs m'. sortadd_all cmp xs l = Some l' \<and> holds l' zs m' \<and> al_freed l' = al_freed l \<and> sorted (map f zs) \<and>
    mset zs = mset ys + mset xs \<and> (\<forall>k. filter (\<lambda>y. f y = k) zs = filter (\<lambda>y. f y = k) (ys @ xs))"
  using assms(1,3,4)
proof (induction xs arbitrary: l ys m)
  case Nil
  then show ?case by auto
next
  case (Cons x xs)
  have "length ys < 2 ^ 30" using Cons.prems(2) by simp
  then obtain l1 m1 where l1: "zc_arraylist_sortadd True cmp l (Some x) = Some (0, l1)"
    "holds l1 (insert_after f x ys) m1" "al_freed l1 = al_freed l"
    using sortadd_holds [OF Cons.prems(1) assms(2)] by blast
  have "length (insert_after f x ys) = Suc (length ys)"
    using arg_cong [OF insert_after_mset [of f x ys], of size] by (simp only: size_mset size_add_mset)
  then have "length (insert_after f x ys) + length xs \<le> 2 ^ 30" using Cons.prems(2) by simp
  from Cons.IH [OF l1(2) this insert_after_sorted [OF Cons.prems(3)]] obtain l' zs m' where
    "sortadd_all cmp xs l1 = Some l'" "holds l' zs m'" "al_freed l' = al_freed l1" "sorted (map f zs)"
    "mset zs = mset (insert_after f x ys) + mset xs"
    "\<forall>k. filter (\<lambda>y. f y = k) zs = filter (\<lambda>y. f y = k) (insert_after f x ys @ xs)" by blast
  then show ?case using l1(1,3) insert_after_filter [OF Cons.prems(3)] by (auto intro!: exI [of _ l'] exI [of _ zs])
qed

theorem sortadd_is_sort:
  assumes "holds l [] m" and "by_key cmp f" and "length xs \<le> 2 ^ 30"
  shows "\<exists>l' m'. sortadd_all cmp xs l = Some l' \<and> holds l' (sort_key f xs) m' \<and> al_freed l' = al_freed l"
proof -
  obtain l' zs m' where z: "sortadd_all cmp xs l = Some l'" "holds l' zs m'" "al_freed l' = al_freed l" "sorted (map f zs)"
    "mset zs = mset xs" "\<forall>k. filter (\<lambda>y. f y = k) zs = filter (\<lambda>y. f y = k) xs"
    using sortadd_all_sorts [OF assms(1,2), of xs] assms(3) by auto
  have "sort_key f xs = zs"
  proof (rule properties_for_sort_key)
    show "mset zs = mset xs" by (rule z(5))
    show "sorted (map f zs)" by (rule z(4))
    fix k
    have "(\<lambda>y. f k = f y) = (\<lambda>y. f y = f k)" by auto
    then show "filter (\<lambda>y. f k = f y) zs = filter (\<lambda>y. f k = f y) xs" using z(6) by simp
  qed
  then show ?thesis using z(1-3) by blast
qed

section \<open>Setting\<close>

text \<open>An index past twice the size is given a block that ends just before it.\<close>

lemma set_far_faults:
  assumes "holds l xs m" and "length xs + m < 2 ^ 30" and "2 * al_size l \<le> idx"
  shows "zc_arraylist_set True l idx x = None"
  using assms by (auto simp: zc_arraylist_set_def zc_arraylist_expand_inner_def holds_def zc_max_def array_at_def check_def)

end
