(* ===== verification/ZlogLevel.thy ===== *)
theory ZlogLevel
  imports Scan ZlogBuf ZcArrayList
begin

text \<open>
  The levels of the logger (\<^verbatim>\<open>contrib/zlog/src/level.c\<close>, \<^verbatim>\<open>level_list.c\<close>): a level is read from a line
  \<open>NAME = number, syslog level\<close> and kept in an array list at its number. \<open>None\<close> inside the result of
  \<open>zlog_level_new\<close> is the null pointer. \<open>c\<close> and \<open>m\<close> say whether \<open>calloc\<close> and \<open>realloc\<close> succeed; where
  several lines are read they depend on the line.
\<close>

record zlog_level =
  int_level :: int
  str_uppercase :: string
  str_lowercase :: string
  level_str_len :: nat
  syslog_level :: int

definition MAXLEN_CFG_LINE :: nat where "MAXLEN_CFG_LINE = MAXLEN_PATH * 4"

section \<open>One level\<close>

text \<open>The numbers of \<^verbatim>\<open>syslog.h\<close>.\<close>

definition syslog_level_atoi :: "string \<Rightarrow> int" where
  "syslog_level_atoi str =
     (if strcasecmp str ''LOG_EMERG'' = 0 then 0
      else if strcasecmp str ''LOG_ALERT'' = 0 then 1
      else if strcasecmp str ''LOG_CRIT'' = 0 then 2
      else if strcasecmp str ''LOG_ERR'' = 0 then 3
      else if strcasecmp str ''LOG_WARNING'' = 0 then 4
      else if strcasecmp str ''LOG_NOTICE'' = 0 then 5
      else if strcasecmp str ''LOG_INFO'' = 0 then 6
      else if strcasecmp str ''LOG_DEBUG'' = 0 then 7
      else - 187)"

text \<open>The call of \<open>sscanf\<close>: the number of conversions (0 also for the end of input) and what they read.\<close>

definition scan_level :: "string \<Rightarrow> int \<times> string \<times> int \<times> string" where
  "scan_level line =
     (case scan_set (\<lambda>c. c \<notin> {CHR ''='', CHR '' '', CHR 0x09}) (skip_ws line) of
       None \<Rightarrow> (0, [], 0, [])
     | Some (str, s) \<Rightarrow> (case scan_lit CHR ''='' (skip_ws s) of
         None \<Rightarrow> (1, str, 0, [])
       | Some s \<Rightarrow> (case scan_num s of
           None \<Rightarrow> (1, str, 0, [])
         | Some (l, s) \<Rightarrow> (case scan_lit CHR '','' (skip_ws s) of
             None \<Rightarrow> (2, str, l, [])
           | Some s \<Rightarrow> (case scan_word s of
               None \<Rightarrow> (2, str, l, [])
             | Some (sl, _) \<Rightarrow> (3, str, l, sl))))))"

definition zlog_level_new :: "bool \<Rightarrow> string \<Rightarrow> zlog_level option option" where
  "zlog_level_new c line = do {
     let (nscan, str, l, sl) = scan_level line;
     check (length str \<le> MAXLEN_CFG_LINE \<and> length sl \<le> MAXLEN_CFG_LINE \<and> fits_c_int l);
     if nscan < 2 then Some None
     else if l < 0 \<or> 255 < l then Some None
     else if str = [] then Some None
     else if \<not> c then Some None
     else do {
       let sy = (if sl = [] then 7 else syslog_level_atoi sl);
       if sl \<noteq> [] \<and> sy = - 187 then Some None
       else if MAXLEN_PATH < length str then Some None
       else Some (Some \<lparr>int_level = l, str_uppercase = map toupper str, str_lowercase = map tolower str,
         level_str_len = length str, syslog_level = sy\<rparr>) } }"

text \<open>
  A line as the configuration reader delivers it is no longer than the buffers that \<open>sscanf\<close> fills; then
  only a number out of the range of \<open>int\<close> is undefined.
\<close>

definition level_line_fits :: "string \<Rightarrow> bool" where
  "level_line_fits line \<longleftrightarrow> length line \<le> MAXLEN_CFG_LINE \<and> (case scan_level line of (_, _, n, _) \<Rightarrow> fits_c_int n)"

lemma scan_set_shorter: "scan_set P s = Some (v, r) \<Longrightarrow> length v + length r = length s"
  by (auto dest: scan_set_SomeD)

lemma skip_ws_shorter: "length (skip_ws s) \<le> length s"
  by (simp add: skip_ws_def length_dropWhile_le)

lemma scan_lit_shorter: "scan_lit c s = Some r \<Longrightarrow> length s = Suc (length r)"
  by (cases s) (auto split: if_splits)

lemma scan_sign_shorter: "length (snd (scan_sign s)) \<le> length s"
  by (cases s) auto

lemma scan_word_shorter: "scan_word s = Some (v, r) \<Longrightarrow> length v \<le> length s"
  using skip_ws_shorter [of s] by (auto simp: scan_word_def dest: scan_set_shorter)

lemma scan_num_shorter: "scan_num s = Some (n, r) \<Longrightarrow> length r \<le> length s"
  using skip_ws_shorter [of s] scan_sign_shorter [of "skip_ws s"]
  by (auto simp: scan_num_def split: prod.splits option.splits dest!: scan_set_shorter)

lemma scan_level_shorter:
  assumes "scan_level line = (k, v, n, w)"
  shows "length v \<le> length line \<and> length w \<le> length line"
proof (cases "scan_set (\<lambda>c. c \<notin> {CHR ''='', CHR '' '', CHR 0x09}) (skip_ws line)")
  case None
  then show ?thesis using assms by (auto simp: scan_level_def)
next
  case (Some vs)
  then obtain v' s where s: "scan_set (\<lambda>c. c \<notin> {CHR ''='', CHR '' '', CHR 0x09}) (skip_ws line) = Some (v', s)"
    by (cases vs) auto
  have l: "length v' + length s \<le> length line" using scan_set_shorter [OF s] skip_ws_shorter [of line] by simp
  have tail: "length x \<le> length y" if "length (skip_ws y) = Suc (length x)" for x y :: string
    using that skip_ws_shorter [of y] by simp
  have "v = v' \<and> length w \<le> length s"
    using assms s
    by (auto simp: scan_level_def split: option.splits prod.splits
        dest!: scan_lit_shorter tail scan_num_shorter scan_word_shorter)
  then show ?thesis using l by simp
qed

lemma level_new_safe: "level_line_fits line \<Longrightarrow> zlog_level_new c line \<noteq> None"
  using scan_level_shorter [of line]
  by (cases "scan_level line") (fastforce simp: zlog_level_new_def level_line_fits_def Let_def split: if_splits)

section \<open>The list\<close>

definition zlog_level_list_set :: "bool \<Rightarrow> bool \<Rightarrow> zlog_level arraylist \<Rightarrow> string \<Rightarrow> (int \<times> zlog_level arraylist) option" where
  "zlog_level_list_set c m levels line = do {
     x \<leftarrow> zlog_level_new c line;
     case x of
       None \<Rightarrow> Some (- 1, levels)
     | Some a \<Rightarrow> do {
         (rc, levels) \<leftarrow> zc_arraylist_set m levels (int_level a) (Some a);
         Some (if rc \<noteq> 0 then - 1 else 0, levels) } }"

text \<open>Lines are set as long as the calls succeed; the result is that of \<open>||\<close>.\<close>

fun set_levels :: "(string \<Rightarrow> bool) \<Rightarrow> (string \<Rightarrow> bool) \<Rightarrow> zlog_level arraylist \<Rightarrow> string list \<Rightarrow> (bool \<times> zlog_level arraylist) option" where
  "set_levels c m levels [] = Some (False, levels)"
| "set_levels c m levels (line # lines) = do {
     (rc, levels) \<leftarrow> zlog_level_list_set (c line) (m line) levels line;
     if rc \<noteq> 0 then Some (True, levels) else set_levels c m levels lines }"

definition default_levels :: "string list" where
  "default_levels = [''* = 0, LOG_INFO'', ''DEBUG = 20, LOG_DEBUG'', ''INFO = 40, LOG_INFO'', ''NOTICE = 60, LOG_NOTICE'',
     ''WARN = 80, LOG_WARNING'', ''ERROR = 100, LOG_ERR'', ''FATAL = 120, LOG_ALERT'', ''UNKNOWN = 254, LOG_ERR'',
     ''! = 255, LOG_INFO'']"

definition zlog_level_list_set_default ::
  "(string \<Rightarrow> bool) \<Rightarrow> (string \<Rightarrow> bool) \<Rightarrow> zlog_level arraylist \<Rightarrow> (bool \<times> zlog_level arraylist) option" where
  "zlog_level_list_set_default c m levels = set_levels c m levels default_levels"

definition zlog_level_list_new ::
  "bool \<Rightarrow> bool \<Rightarrow> (string \<Rightarrow> bool) \<Rightarrow> (string \<Rightarrow> bool) \<Rightarrow> zlog_level arraylist option option" where
  "zlog_level_list_new c1 c2 c m = (case zc_arraylist_new True c1 c2 of
     None \<Rightarrow> Some None
   | Some levels \<Rightarrow> do {
       (rc, levels) \<leftarrow> zlog_level_list_set_default c m levels;
       if rc then do { _ \<leftarrow> zc_arraylist_del levels; Some None } else Some (Some levels) })"

definition zlog_level_list_get :: "zlog_level arraylist \<Rightarrow> int \<Rightarrow> zlog_level option option" where
  "zlog_level_list_get levels l = do {
     x \<leftarrow> zc_arraylist_get levels l;
     case x of Some a \<Rightarrow> Some (Some a) | None \<Rightarrow> zc_arraylist_get levels 254 }"

text \<open>The loop of \<open>zlog_level_list_atoi\<close>, from \<open>i\<close> on.\<close>

function level_loop :: "zlog_level arraylist \<Rightarrow> string \<Rightarrow> int \<Rightarrow> int option" where
  "level_loop levels str i =
     (if i < al_len levels then do {
        x \<leftarrow> array_at levels i;
        if (case x of Some a \<Rightarrow> strcasecmp str (str_uppercase a) = 0 | None \<Rightarrow> False) then Some i
        else level_loop levels str (i + 1) }
      else Some (- 1))"
  by pat_completeness auto
termination by (relation "measure (\<lambda>(l, _, i). nat (al_len l - i))") auto

declare level_loop.simps [simp del]

text \<open>\<open>str\<close> may be null.\<close>

definition zlog_level_list_atoi :: "zlog_level arraylist \<Rightarrow> string option \<Rightarrow> int option" where
  "zlog_level_list_atoi levels str = (case str of
     None \<Rightarrow> Some (- 1)
   | Some s \<Rightarrow> if s = [] then Some (- 1) else do { _ \<leftarrow> array_at levels 0; level_loop levels s 0 })"

section \<open>The list as a map\<close>

text \<open>A list that holds the levels of the map \<open>lv\<close>, whose numbers are below 256.\<close>

definition holds_levels :: "zlog_level arraylist \<Rightarrow> (nat \<rightharpoonup> zlog_level) \<Rightarrow> bool" where
  "holds_levels l lv \<longleftrightarrow> al_array l = Some (map lv [0..<nat (al_size l)]) \<and> 0 \<le> al_len l \<and> al_len l \<le> al_size l \<and>
     32 \<le> al_size l \<and> al_size l \<le> 512 \<and> (\<forall>i. lv i \<noteq> None \<longrightarrow> int i < al_len l) \<and> dom lv \<subseteq> {..< 256}"

lemma holds_levels_at:
  assumes "holds_levels l lv" and "0 \<le> i" and "i < al_len l"
  shows "array_at l i = Some (lv (nat i))"
  using assms by (auto simp: holds_levels_def array_at_def)

lemma holds_levels_get:
  assumes "holds_levels l lv" and "0 \<le> i"
  shows "zc_arraylist_get l i = Some (lv (nat i))"
proof (cases "al_len l \<le> i")
  case True
  have "lv (nat i) = None"
  proof (rule ccontr)
    assume "lv (nat i) \<noteq> None"
    then have "int (nat i) < al_len l" using assms(1) unfolding holds_levels_def by blast
    then show False using True assms(2) by simp
  qed
  then show ?thesis using True by (simp add: zc_arraylist_get_def)
next
  case False
  then show ?thesis using holds_levels_at [OF assms] by (simp add: zc_arraylist_get_def)
qed

lemma levels_expand:
  assumes h: "holds_levels l lv" and i: "al_size l - 1 < i" "i < 256" "i < 2 * al_size l"
  obtains l' where "zc_arraylist_expand_inner True l i = Some (0, l')" "holds_levels l' lv" "al_size l' = 2 * al_size l"
    "al_len l' = al_len l"
proof -
  note hd = h [unfolded holds_levels_def]
  have sz: "al_size l \<le> 255" using i by simp
  have mx: "zc_max (al_size l * 2) i = 2 * al_size l" using i by (simp add: zc_max_def)
  have none: "lv j = None" if "\<not> j < nat (al_size l)" for j
  proof (rule ccontr)
    assume "lv j \<noteq> None"
    then have "int j < al_len l" using hd by blast
    then show False using that hd by linarith
  qed
  have "map lv [0..<nat (2 * al_size l)] = map lv [0..<nat (al_size l)] @ replicate (nat (al_size l)) None"
  proof (rule nth_equalityI)
    show "length (map lv [0..<nat (2 * al_size l)]) = length (map lv [0..<nat (al_size l)] @ replicate (nat (al_size l)) None)"
      using hd by simp
    fix j assume "j < length (map lv [0..<nat (2 * al_size l)])"
    then show "map lv [0..<nat (2 * al_size l)] ! j = (map lv [0..<nat (al_size l)] @ replicate (nat (al_size l)) None) ! j"
      using none by (auto simp: nth_append)
  qed
  then have "holds_levels (l\<lparr>al_array := Some (map lv [0..<nat (al_size l)] @ replicate (nat (al_size l)) None), al_size := 2 * al_size l\<rparr>) lv"
    using hd sz by (simp add: holds_levels_def)
  then show thesis using that hd i sz mx by (auto simp: zc_arraylist_expand_inner_def)
qed

lemma levels_set:
  assumes h: "holds_levels l lv" and i: "0 \<le> i" "i < 256" "i < 2 * al_size l"
  shows "\<exists>l'. zc_arraylist_set True l i (Some a) = Some (0, l') \<and> holds_levels l' (lv(nat i \<mapsto> a)) \<and>
    al_len l' = max (al_len l) (i + 1) \<and> al_size l' = (if i < al_size l then al_size l else 2 * al_size l)"
proof -
  obtain l1 where l1: "(if al_size l - 1 < i then zc_arraylist_expand_inner True l i else Some (0, l)) = Some (0, l1)"
    "holds_levels l1 lv" "i < al_size l1" "al_len l1 = al_len l"
    "al_size l1 = (if i < al_size l then al_size l else 2 * al_size l)"
  proof (cases "al_size l - 1 < i")
    case True
    then show thesis using levels_expand [OF h True i(2,3)] that i(3) by force
  next
    case False
    then show thesis using that [of l] h by auto
  qed
  note hd = l1(2) [unfolded holds_levels_def]
  let ?l2 = "\<lambda>f. l1\<lparr>al_array := Some (map (lv(nat i \<mapsto> a)) [0..<nat (al_size l1)]), al_freed := f\<rparr>"
  have upd: "(map lv [0..<nat (al_size l1)])[nat i := Some a] = map (lv(nat i \<mapsto> a)) [0..<nat (al_size l1)]"
    by (rule nth_equalityI) (auto simp: nth_list_update)
  have at: "array_at l1 i = Some (lv (nat i))" using hd l1(3) i by (simp add: array_at_def)
  have put: "array_put (l1\<lparr>al_freed := f\<rparr>) i (Some a) = Some (?l2 f)" for f
    using hd l1(3) i upd by (simp add: array_put_def)
  have put0: "array_put l1 i (Some a) = Some (?l2 (al_freed l1))" using put [of "al_freed l1"] by simp
  obtain f where "zc_arraylist_set True l i (Some a) =
      Some (0, if al_len l1 \<le> i then (?l2 f)\<lparr>al_len := i + 1\<rparr> else ?l2 f)"
  proof (cases "lv (nat i)")
    case None
    then have "zc_arraylist_set True l i (Some a) =
        Some (0, if al_len l1 \<le> i then (?l2 (al_freed l1))\<lparr>al_len := i + 1\<rparr> else ?l2 (al_freed l1))"
      unfolding zc_arraylist_set_def l1(1) using at put0 by simp
    then show thesis by (rule that)
  next
    case (Some b)
    let ?f = "if al_del l1 then al_freed l1 @ [b] else al_freed l1"
    have "zc_arraylist_set True l i (Some a) = Some (0, if al_len l1 \<le> i then (?l2 ?f)\<lparr>al_len := i + 1\<rparr> else ?l2 ?f)"
      unfolding zc_arraylist_set_def l1(1) using at put put0 Some by (cases "al_del l1") simp_all
    then show thesis by (rule that)
  qed
  moreover have "holds_levels (if al_len l1 \<le> i then (?l2 f)\<lparr>al_len := i + 1\<rparr> else ?l2 f) (lv(nat i \<mapsto> a))"
    using hd i l1(3) by (auto simp: holds_levels_def)
  moreover have "al_len (if al_len l1 \<le> i then (?l2 f)\<lparr>al_len := i + 1\<rparr> else ?l2 f) = max (al_len l) (i + 1)"
    using l1(4) by simp
  moreover have "al_size (if al_len l1 \<le> i then (?l2 f)\<lparr>al_len := i + 1\<rparr> else ?l2 f) = al_size l1" by simp
  ultimately show ?thesis using l1(5) by metis
qed

text \<open>A level that is read has a number below 256 and a name that is not empty.\<close>

lemma level_new_range:
  assumes "zlog_level_new c line = Some (Some a)"
  shows "0 \<le> int_level a \<and> int_level a < 256 \<and> str_uppercase a \<noteq> []"
proof -
  obtain nscan str l sl where "scan_level line = (nscan, str, l, sl)" by (metis prod_cases4)
  then show ?thesis using assms by (auto simp add: zlog_level_new_def Let_def fault_simps split: if_splits)
qed

text \<open>Setting a level of a line that is not refused, and the map of the levels of some lines.\<close>

definition with_level :: "string \<Rightarrow> (nat \<rightharpoonup> zlog_level) \<Rightarrow> (nat \<rightharpoonup> zlog_level)" where
  "with_level line lv = (case zlog_level_new True line of
     Some (Some a) \<Rightarrow> lv(nat (int_level a) \<mapsto> a) | _ \<Rightarrow> lv)"

definition level_line :: "string \<Rightarrow> bool" where
  "level_line line \<longleftrightarrow> (case zlog_level_new True line of Some (Some a) \<Rightarrow> True | _ \<Rightarrow> False)"

lemma list_set_ok:
  assumes "holds_levels l lv" and "zlog_level_new True line = Some (Some a)" and "int_level a < 2 * al_size l"
  shows "\<exists>l'. zlog_level_list_set True True l line = Some (0, l') \<and> holds_levels l' (with_level line lv) \<and>
    al_size l' = (if int_level a < al_size l then al_size l else 2 * al_size l) \<and> al_len l' = max (al_len l) (int_level a + 1)"
  using levels_set [OF assms(1), of "int_level a" a] level_new_range [OF assms(2)] assms(2,3)
  by (auto simp: zlog_level_list_set_def with_level_def)

lemma list_set_refused:
  "zlog_level_new True line = Some None \<Longrightarrow> zlog_level_list_set True True l line = Some (- 1, l)"
  by (simp add: zlog_level_list_set_def)

text \<open>The lines of a configuration, one after the other, and what the calls return.\<close>

fun add_levels :: "string list \<Rightarrow> zlog_level arraylist \<Rightarrow> (int list \<times> zlog_level arraylist) option" where
  "add_levels [] l = Some ([], l)"
| "add_levels (line # lines) l = do {
     (rc, l) \<leftarrow> zlog_level_list_set True True l line;
     (rcs, l) \<leftarrow> add_levels lines l;
     Some (rc # rcs, l) }"

lemma add_levels_ok:
  assumes "holds_levels l lv" and "\<forall>line \<in> set lines. zlog_level_new True line \<noteq> None" and "128 \<le> al_size l"
  shows "\<exists>l'. add_levels lines l = Some (map (\<lambda>line. if level_line line then 0 else - 1) lines, l') \<and>
    holds_levels l' (fold with_level lines lv) \<and> al_len l \<le> al_len l'"
  using assms
proof (induction lines arbitrary: l lv)
  case Nil
  then show ?case by simp
next
  case (Cons line lines)
  obtain x where x: "zlog_level_new True line = Some x" using Cons.prems(2) by auto
  have ok: "\<forall>line \<in> set lines. zlog_level_new True line \<noteq> None" using Cons.prems(2) by simp
  show ?case
  proof (cases x)
    case None
    then have "with_level line lv = lv" "\<not> level_line line" "zlog_level_list_set True True l line = Some (- 1, l)"
      using x by (simp_all add: with_level_def level_line_def zlog_level_list_set_def)
    then show ?thesis using Cons.IH [OF Cons.prems(1) ok Cons.prems(3)] by auto
  next
    case (Some a)
    then have a: "zlog_level_new True line = Some (Some a)" "level_line line" using x by (simp_all add: level_line_def)
    have "int_level a < 2 * al_size l" using level_new_range [OF a(1)] Cons.prems(3) by linarith
    from list_set_ok [OF Cons.prems(1) a(1) this] obtain l1 where
      l1: "zlog_level_list_set True True l line = Some (0, l1)" "holds_levels l1 (with_level line lv)"
      "al_size l1 = (if int_level a < al_size l then al_size l else 2 * al_size l)"
      "al_len l1 = max (al_len l) (int_level a + 1)" by blast
    have "128 \<le> al_size l1" using Cons.prems(3) l1(3) by (simp split: if_splits)
    from Cons.IH [OF l1(2) ok this] l1 a(2) show ?thesis by fastforce
  qed
qed

section \<open>The default levels\<close>

definition lvl :: "string \<Rightarrow> int \<Rightarrow> int \<Rightarrow> zlog_level" where
  "lvl s n y = \<lparr>int_level = n, str_uppercase = s, str_lowercase = map tolower s, level_str_len = length s, syslog_level = y\<rparr>"

definition default_map :: "nat \<rightharpoonup> zlog_level" where
  "default_map = [0 \<mapsto> lvl ''*'' 0 6, 20 \<mapsto> lvl ''DEBUG'' 20 7, 40 \<mapsto> lvl ''INFO'' 40 6, 60 \<mapsto> lvl ''NOTICE'' 60 5,
     80 \<mapsto> lvl ''WARN'' 80 4, 100 \<mapsto> lvl ''ERROR'' 100 3, 120 \<mapsto> lvl ''FATAL'' 120 1, 254 \<mapsto> lvl ''UNKNOWN'' 254 3,
     255 \<mapsto> lvl ''!'' 255 6]"

lemma default_lines:
  "zlog_level_new True ''* = 0, LOG_INFO'' = Some (Some (lvl ''*'' 0 6))"
  "zlog_level_new True ''DEBUG = 20, LOG_DEBUG'' = Some (Some (lvl ''DEBUG'' 20 7))"
  "zlog_level_new True ''INFO = 40, LOG_INFO'' = Some (Some (lvl ''INFO'' 40 6))"
  "zlog_level_new True ''NOTICE = 60, LOG_NOTICE'' = Some (Some (lvl ''NOTICE'' 60 5))"
  "zlog_level_new True ''WARN = 80, LOG_WARNING'' = Some (Some (lvl ''WARN'' 80 4))"
  "zlog_level_new True ''ERROR = 100, LOG_ERR'' = Some (Some (lvl ''ERROR'' 100 3))"
  "zlog_level_new True ''FATAL = 120, LOG_ALERT'' = Some (Some (lvl ''FATAL'' 120 1))"
  "zlog_level_new True ''UNKNOWN = 254, LOG_ERR'' = Some (Some (lvl ''UNKNOWN'' 254 3))"
  "zlog_level_new True ''! = 255, LOG_INFO'' = Some (Some (lvl ''!'' 255 6))"
  by (simp_all add: zlog_level_new_def scan_level_def Let_def scan_set_def skip_ws_def scan_num_def scan_word_def dec_value_def
    fits_c_int_def MAXLEN_CFG_LINE_def MAXLEN_PATH_def syslog_level_atoi_def lvl_def ctype_defs byte_eval)

lemma default_step:
  assumes "holds_levels l lv" and "zlog_level_new True line = Some (Some (lvl s n y))" and "n < 2 * al_size l"
    and "\<And>l'. holds_levels l' (lv(nat n \<mapsto> lvl s n y)) \<Longrightarrow>
      al_size l' = (if n < al_size l then al_size l else 2 * al_size l) \<Longrightarrow>
      \<exists>l''. set_levels (\<lambda>_. True) (\<lambda>_. True) l' lines = Some (False, l'') \<and> P l''"
  shows "\<exists>l''. set_levels (\<lambda>_. True) (\<lambda>_. True) l (line # lines) = Some (False, l'') \<and> P l''"
proof -
  have n: "int_level (lvl s n y) = n" by (simp add: lvl_def)
  obtain l1 where l1: "zlog_level_list_set True True l line = Some (0, l1)" "holds_levels l1 (with_level line lv)"
    "al_size l1 = (if n < al_size l then al_size l else 2 * al_size l)"
    using list_set_ok [OF assms(1,2)] assms(3) n by auto
  have "with_level line lv = lv(nat n \<mapsto> lvl s n y)" using assms(2) n by (simp add: with_level_def)
  then show ?thesis using assms(4) [of l1] l1 by simp
qed

lemma levels_new:
  "\<exists>l. zlog_level_list_new True True (\<lambda>_. True) (\<lambda>_. True) = Some (Some l) \<and> holds_levels l default_map \<and> 256 \<le> al_size l"
proof -
  obtain l0 :: "zlog_level arraylist" where l0: "zc_arraylist_new True True True = Some l0" "holds_levels l0 Map.empty" "al_size l0 = 32"
    by (auto simp: zc_arraylist_new_def ARRAY_LIST_DEFAULT_SIZE_def holds_levels_def map_replicate_const)
  have "\<exists>l. set_levels (\<lambda>_. True) (\<lambda>_. True) l0 default_levels = Some (False, l) \<and> holds_levels l default_map \<and> 256 \<le> al_size l"
    unfolding default_levels_def
    apply (rule default_step [OF l0(2) default_lines(1)])
     apply (simp add: l0(3))
    apply (rule default_step [OF _ default_lines(2)], assumption, simp add: l0(3))
    apply (rule default_step [OF _ default_lines(3)], assumption, simp add: l0(3))
    apply (rule default_step [OF _ default_lines(4)], assumption, simp add: l0(3))
    apply (rule default_step [OF _ default_lines(5)], assumption, simp add: l0(3))
    apply (rule default_step [OF _ default_lines(6)], assumption, simp add: l0(3))
    apply (rule default_step [OF _ default_lines(7)], assumption, simp add: l0(3))
    apply (rule default_step [OF _ default_lines(8)], assumption, simp add: l0(3))
    apply (rule default_step [OF _ default_lines(9)], assumption, simp add: l0(3))
    apply (simp add: default_map_def l0(3))
    done
  then show ?thesis using l0(1) by (auto simp: zlog_level_list_new_def zlog_level_list_set_default_def)
qed

section \<open>Looking up\<close>

definition level_named :: "string \<Rightarrow> zlog_level option \<Rightarrow> bool" where
  "level_named s x \<longleftrightarrow> (case x of Some a \<Rightarrow> map tolower s = map tolower (str_uppercase a) | None \<Rightarrow> False)"

definition level_number :: "(nat \<rightharpoonup> zlog_level) \<Rightarrow> string \<Rightarrow> int" where
  "level_number lv s = (case List.find (\<lambda>i. level_named s (lv i)) [0..<256] of Some i \<Rightarrow> int i | None \<Rightarrow> - 1)"

lemma level_get_ok:
  assumes "holds_levels l lv" and "0 \<le> i"
  shows "zlog_level_list_get l i = Some (case lv (nat i) of Some a \<Rightarrow> Some a | None \<Rightarrow> lv 254)"
  using holds_levels_get [OF assms] holds_levels_get [OF assms(1), of 254]
  by (auto simp: zlog_level_list_get_def split: option.splits)

text \<open>The bound is tested at the top only: a negative number is read before the array.\<close>

lemma level_get_negative: "holds_levels l lv \<Longrightarrow> i < 0 \<Longrightarrow> zlog_level_list_get l i = None"
  by (auto simp: zlog_level_list_get_def zc_arraylist_get_def array_at_def holds_levels_def)

lemma level_loop_ok:
  assumes h: "holds_levels l lv" and "i \<le> nat (al_len l)"
  shows "level_loop l s (int i) =
    Some (case List.find (\<lambda>i. level_named s (lv i)) [i..<nat (al_len l)] of Some i \<Rightarrow> int i | None \<Rightarrow> - 1)"
  using assms(2)
proof (induction "nat (al_len l) - i" arbitrary: i)
  case 0
  then have "i = nat (al_len l)" by simp
  then have "\<not> int i < al_len l" using h by (simp add: holds_levels_def)
  then show ?case using \<open>i = nat (al_len l)\<close> by (subst level_loop.simps) simp
next
  case (Suc n)
  then have i: "i < nat (al_len l)" by simp
  then have u: "[i..<nat (al_len l)] = i # [Suc i..<nat (al_len l)]" by (simp add: upt_conv_Cons)
  have at: "array_at l (int i) = Some (lv i)" using holds_levels_at [OF h, of "int i"] i by simp
  have c: "(case lv i of Some a \<Rightarrow> strcasecmp s (str_uppercase a) = 0 | None \<Rightarrow> False) = level_named s (lv i)"
    by (cases "lv i") (simp_all add: level_named_def)
  have "level_loop l s (int (Suc i)) =
      Some (case List.find (\<lambda>i. level_named s (lv i)) [Suc i..<nat (al_len l)] of Some i \<Rightarrow> int i | None \<Rightarrow> - 1)"
    using Suc.hyps(1) [of "Suc i"] Suc.hyps(2) i by simp
  moreover have "int i < al_len l" using i by linarith
  ultimately show ?case using at c unfolding u by (simp add: level_loop.simps [of _ _ "int i"] add.commute)
qed

lemma find_upt_past:
  assumes "n \<le> m" and "\<And>i. n \<le> i \<Longrightarrow> \<not> P i"
  shows "List.find P [0..<m] = List.find P [0..<n]"
proof -
  have "[0..<m] = [0..<n] @ [n..<m]" using assms(1) by (metis le_add_diff_inverse upt_add_eq_append zero_le)
  moreover have "List.find P [n..<m] = None" using assms(2) by (simp add: find_None_iff)
  moreover have "List.find P (xs @ ys) = (case List.find P xs of None \<Rightarrow> List.find P ys | Some x \<Rightarrow> Some x)" for xs ys
    by (induction xs) auto
  ultimately show ?thesis by (simp split: option.splits)
qed

lemma level_atoi_ok:
  assumes h: "holds_levels l lv" and s: "s \<noteq> []"
  shows "zlog_level_list_atoi l (Some s) = Some (level_number lv s)"
proof -
  note hd = h [unfolded holds_levels_def]
  let ?P = "\<lambda>i. level_named s (lv i)"
  have "array_at l 0 = Some (lv 0)" using hd by (simp add: array_at_def)
  moreover have "level_loop l s 0 = Some (case List.find ?P [0..<nat (al_len l)] of Some i \<Rightarrow> int i | None \<Rightarrow> - 1)"
    using level_loop_ok [OF h, of 0 s] by simp
  moreover have "List.find ?P [0..<nat (al_len l)] = List.find ?P [0..<256]"
  proof -
    have P: "lv i \<noteq> None" if "?P i" for i using that by (auto simp: level_named_def split: option.splits)
    have a: "\<not> ?P i" if "nat (al_len l) \<le> i" for i
    proof
      assume "?P i"
      then have "int i < al_len l" using P hd by blast
      then show False using that by linarith
    qed
    have b: "\<not> ?P i" if "256 \<le> i" for i
    proof
      assume "?P i"
      then have "i \<in> dom lv" using P by blast
      then show False using that hd by auto
    qed
    have "List.find ?P [0..<max 256 (nat (al_len l))] = List.find ?P [0..<nat (al_len l)]"
      by (rule find_upt_past) (use a in simp_all)
    moreover have "List.find ?P [0..<max 256 (nat (al_len l))] = List.find ?P [0..<256]"
      by (rule find_upt_past) (use b in simp_all)
    ultimately show ?thesis by simp
  qed
  ultimately show ?thesis using s by (simp add: zlog_level_list_atoi_def level_number_def)
qed

lemma unknown_kept: "lv 254 \<noteq> None \<Longrightarrow> fold with_level lines lv 254 \<noteq> None"
proof (induction lines arbitrary: lv)
  case (Cons line lines)
  have "with_level line lv 254 \<noteq> None" using Cons.prems by (auto simp: with_level_def split: option.splits)
  then show ?case using Cons.IH by simp
qed simp

end
