(* ===== verification/ZlogUtil.thy ===== *)
theory ZlogUtil
  imports Scan ZlogLevel ZlogBufFacts
begin

text \<open>
  The helpers of the logger's configuration (\<^verbatim>\<open>contrib/zlog/src/zc_util.c\<close>): sizes with a unit, and the
  replacement of \<open>%E(NAME)\<close> by the environment variable. The second works on the whole block of the
  string, because it reads behind its terminator; \<open>env\<close> is \<open>getenv\<close>.
\<close>

section \<open>Sizes\<close>

definition strtol :: "string \<Rightarrow> int" where
  "strtol s = (let (sg, s) = scan_sign (skip_ws s) in
     case scan_set isdigit s of None \<Rightarrow> 0 | Some (ds, _) \<Rightarrow> max (- (2 ^ 63)) (min (2 ^ 63 - 1) (sg * dec_value ds)))"

text \<open>A product past the range of \<open>long\<close> is undefined.\<close>

definition zc_parse_byte_size :: "string \<Rightarrow> nat option" where
  "zc_parse_byte_size astring = (
     let s = filter (\<lambda>c. \<not> isspace c) astring; sz = length s; res = strtol s in
     if res \<le> 0 then Some 0
     else do {
       (c, m) \<leftarrow> (if s ! (sz - 1) = CHR ''B'' \<or> s ! (sz - 1) = CHR ''b''
         then do { check (2 \<le> sz); Some (s ! (sz - 2), 1024) } else Some (s ! (sz - 1), 1000));
       let res = (if c = CHR ''K'' \<or> c = CHR ''k'' then res * m
         else if c = CHR ''M'' \<or> c = CHR ''m'' then res * (m * m)
         else if c = CHR ''G'' \<or> c = CHR ''g'' then res * (m * m * m) else res);
       check (res < 2 ^ 63);
       Some (nat res) })"

section \<open>Environment variables\<close>

text \<open>The C string at offset \<open>q\<close> of a block.\<close>

definition c_at :: "bytes \<Rightarrow> nat \<Rightarrow> string option" where
  "c_at buf q = (if q \<le> length buf then cstr (drop q buf) else None)"

text \<open>
  What \<open>snprintf\<close> makes of a string under a format of \<open>%\<close>, the characters \<open>w\<close> and \<open>s\<close>: flags \<open>-\<close>, a width
  and a precision; anything else is undefined.
\<close>

definition fmt_string :: "string \<Rightarrow> string \<Rightarrow> string option" where
  "fmt_string w v = (
     let left = (w \<noteq> [] \<and> hd w = CHR ''-''); w1 = dropWhile (\<lambda>c. c = CHR ''-'') w;
       wd = takeWhile isdigit w1; w2 = dropWhile isdigit w1 in
     if (wd \<noteq> [] \<and> hd wd = CHR ''0'') \<or> 2 ^ 31 \<le> dec_value wd then None
     else if w2 = [] then Some (space_padded left v (nat (dec_value wd) - length v))
     else if hd w2 = CHR ''.'' \<and> list_all isdigit (tl w2) \<and> dec_value (tl w2) < 2 ^ 31 then
       let v = take (nat (dec_value (tl w2))) v in Some (space_padded left v (nat (dec_value wd) - length v))
     else None)"

text \<open>\<open>sscanf\<close> with the format \<open>E(%[^)])%n\<close>: its result, what is read for the name, and for \<open>%n\<close>.\<close>

definition scan_env :: "string \<Rightarrow> int \<times> string \<times> nat option" where
  "scan_env s =
     (if s = [] then (- 1, [], None)
      else if hd s \<noteq> CHR ''E'' then (0, [], None)
      else if tl s = [] then (- 1, [], None)
      else if hd (tl s) \<noteq> CHR ''('' then (0, [], None)
      else if tl (tl s) = [] then (- 1, [], None)
      else (case scan_set (\<lambda>c. c \<noteq> CHR '')'') (tl (tl s)) of
          None \<Rightarrow> (0, [], None)
        | Some (key, s) \<Rightarrow> (1, key, if s = [] then None else Some (length key + 3))))"

text \<open>The loop, from offset \<open>q\<close> on.\<close>

function replace_loop :: "(string \<Rightarrow> string option) \<Rightarrow> bytes \<Rightarrow> nat \<Rightarrow> int \<Rightarrow> (int \<times> bytes) option" where
  "replace_loop env buf q str_len = do {
     s \<leftarrow> c_at buf q;
     let k = length (takeWhile (\<lambda>c. c \<noteq> CHR ''%'') s);
     if k = length s then Some (0, buf)
     else do {
       let p = q + k;
       let w = (case scan_set (\<lambda>c. c = CHR ''.'' \<or> c = CHR ''-'' \<or> isdigit c) (drop (k + 1) s) of
         Some (w, _) \<Rightarrow> w | None \<Rightarrow> []);
       check (length w + 2 \<le> MAXLEN_CFG_LINE);
       let q1 = p + 1 + length w;
       let (nscan, key, nread) = scan_env (drop (k + 1 + length w) s);
       check (length key \<le> MAXLEN_CFG_LINE);
       if nscan = 0 then replace_loop env buf q1 str_len
       else do {
         let q2 = q1 + (case nread of Some n \<Rightarrow> n | None \<Rightarrow> length w);
         check (q2 - 1 < length buf);
         if buf ! (q2 - 1) \<noteq> CHR '')'' then Some (- 1, buf)
         else do {
           v0 \<leftarrow> env key;
           v \<leftarrow> fmt_string w v0;
           if MAXLEN_CFG_LINE < length v then Some (- 1, buf)
           else do {
             let str_len = str_len - int (q2 - p) + int (length v);
             if str_len < 0 \<or> int (length buf) - 1 < str_len then Some (- 1, buf)
             else do {
               r \<leftarrow> c_at buf q2;
               buf1 \<leftarrow> store (p + length v) (r @ [nul]) buf;
               buf2 \<leftarrow> store p v buf1;
               replace_loop env buf2 q2 str_len } } } } } }"
  by pat_completeness auto
termination
proof (relation "measure (\<lambda>(env, buf, q, n). length buf - q)", goal_cases)
  case 1
  then show ?case by simp
next
  case 2
  then show ?case by (auto simp: c_at_def split: if_splits dest!: cstr_length)
next
  case 3
  then show ?case by (auto simp: c_at_def split: if_splits dest!: cstr_length store_SomeD)
qed

declare replace_loop.simps [simp del]

definition zc_str_replace_env :: "(string \<Rightarrow> string option) \<Rightarrow> bytes \<Rightarrow> (int \<times> bytes) option" where
  "zc_str_replace_env env buf = do { s \<leftarrow> c_at buf 0; replace_loop env buf 0 (int (length s)) }"

section \<open>Sizes are read as they are written\<close>

lemma isdigit_char_of: "n < 10 \<Longrightarrow> isdigit (char_of (n + 48 :: nat)) \<and> \<not> isspace (char_of (n + 48)) \<and> int (of_char (char_of (n + 48))) = int n + 48"
proof -
  assume "n < 10"
  then have oc: "of_char (char_of (n + 48)) = n + 48" by (simp add: of_char_of)
  have "char_of (n + 48) \<noteq> CHR '' ''"
  proof
    assume "char_of (n + 48) = CHR '' ''"
    then have "n + 48 = of_char CHR '' ''" using oc by metis
    then show False by simp
  qed
  then show ?thesis using \<open>n < 10\<close> oc by (simp add: isdigit_def isspace_def)
qed

lemma dec_string_digits: "list_all (\<lambda>c. isdigit c \<and> \<not> isspace c) (dec_string n)"
proof (induction n rule: dec_string.induct)
  case (1 n)
  then show ?case using isdigit_char_of [of n] isdigit_char_of [of "n mod 10"]
    by (cases "n < 10") (simp_all add: dec_string.simps [of n])
qed

lemma dec_value_snoc: "dec_value (ds @ [c]) = 10 * dec_value ds + (int (of_char c) - 48)"
  by (simp add: dec_value_def)

lemma dec_value_string [simp]: "dec_value (dec_string n) = int n"
proof (induction n rule: dec_string.induct)
  case (1 n)
  show ?case
  proof (cases "n < 10")
    case True
    then show ?thesis using isdigit_char_of [of n] by (simp add: dec_string.simps [of n] dec_value_def)
  next
    case False
    then have "dec_value (dec_string (n div 10)) = int (n div 10)" using 1 by simp
    moreover have "10 * int (n div 10) + int (n mod 10) = int n" by presburger
    ultimately show ?thesis using False isdigit_char_of [of "n mod 10"]
      by (simp add: dec_string.simps [of n] dec_value_snoc)
  qed
qed

lemma dec_string_not_Nil [simp]: "dec_string n \<noteq> []"
  by (simp add: dec_string.simps [of n])

lemma scan_dec_string:
  assumes "u = [] \<or> \<not> isdigit (hd u)"
  shows "scan_set isdigit (dec_string n @ u) = Some (dec_string n, u)"
proof -
  have "takeWhile isdigit (dec_string n @ u) = dec_string n" "dropWhile isdigit (dec_string n @ u) = u"
    using dec_string_digits [of n] assms by (cases u; simp add: list_all_iff takeWhile_append2 dropWhile_append2)+
  then show ?thesis by (simp add: scan_set_def)
qed

lemma strtol_dec_string:
  assumes "u = [] \<or> \<not> isdigit (hd u)" and "n < 2 ^ 63"
  shows "strtol (dec_string n @ u) = int n"
proof -
  obtain c cs where d: "dec_string n = c # cs" by (cases "dec_string n") simp_all
  have c: "isdigit c" "\<not> isspace c" using dec_string_digits [of n] d by simp_all
  then have "c \<noteq> CHR ''-''" "c \<noteq> CHR ''+''" by (auto simp: isdigit_def)
  then have "scan_sign (skip_ws (dec_string n @ u)) = (1, dec_string n @ u)"
    using c by (simp add: d skip_ws_def)
  then show ?thesis using scan_dec_string [OF assms(1), of n] assms(2) by (simp add: strtol_def)
qed

text \<open>The factor of a unit.\<close>

definition unit_factor :: "string \<Rightarrow> nat" where
  "unit_factor u = the (map_of [('''', 1), (''K'', 1000), (''k'', 1000), (''M'', 1000 ^ 2), (''m'', 1000 ^ 2),
     (''G'', 1000 ^ 3), (''g'', 1000 ^ 3), (''KB'', 1024), (''kB'', 1024), (''Kb'', 1024), (''kb'', 1024),
     (''MB'', 1024 ^ 2), (''mB'', 1024 ^ 2), (''Mb'', 1024 ^ 2), (''mb'', 1024 ^ 2),
     (''GB'', 1024 ^ 3), (''gB'', 1024 ^ 3), (''Gb'', 1024 ^ 3), (''gb'', 1024 ^ 3)] u)"

definition is_unit :: "string \<Rightarrow> bool" where
  "is_unit u \<longleftrightarrow> u \<in> {'''', ''K'', ''k'', ''M'', ''m'', ''G'', ''g'', ''KB'', ''kB'', ''Kb'', ''kb'',
     ''MB'', ''mB'', ''Mb'', ''mb'', ''GB'', ''gB'', ''Gb'', ''gb''}"

lemma last_digit: "isdigit (last (dec_string n))"
  using dec_string_digits [of n] by (simp add: list_all_iff)

lemma parse_size_unit:
  assumes u: "is_unit u" and s: "filter (\<lambda>c. \<not> isspace c) s = dec_string n @ u" and n: "n * unit_factor u < 2 ^ 63"
  shows "zc_parse_byte_size s = Some (n * unit_factor u)"
proof -
  have f: "1 \<le> unit_factor u" using u by (auto simp: is_unit_def unit_factor_def)
  then have "n \<le> n * unit_factor u" by simp
  then have n63: "n < 2 ^ 63" using n by linarith
  have hd: "u = [] \<or> \<not> isdigit (hd u)" using u by (auto simp: is_unit_def isdigit_def)
  have st: "strtol (dec_string n @ u) = int n" by (rule strtol_dec_string [OF hd n63])
  show ?thesis
  proof (cases "n = 0")
    case True
    then show ?thesis using st by (simp add: zc_parse_byte_size_def s)
  next
    case False
    let ?d = "dec_string n" and ?s = "dec_string n @ u"
    have pos: "0 < length ?d" by simp
    have l0: "?s ! (length ?s - 1) = last ?d" if "u = []" using that by (simp add: last_conv_nth)
    have l1: "?s ! (length ?s - 1) = u ! (length u - 1)" if "u \<noteq> []" using that by (cases u) (simp_all add: nth_append)
    have l2: "?s ! (length ?s - 2) = u ! 0" if "length u = 2" using that by (simp add: nth_append)
    have l3: "?s ! (length ?s - 1 - 1) = last ?d" if "length u = 1" using that pos by (simp add: nth_append last_conv_nth)
    have nl: "last ?d \<noteq> c" if "\<not> isdigit c" for c using last_digit that by metis
    have nd: "\<not> isdigit c" if "c \<in> set ''BbKkMmGg''" for c using that by (auto simp: isdigit_def)
    have last: "last ?d \<notin> set ''BbKkMmGg''" using nl nd by blast
    note def = zc_parse_byte_size_def [of s, unfolded s Let_def st]
    have n0: "\<not> int n \<le> 0" using False by simp
    have "int (n * unit_factor u) < 2 ^ 63" using n by (metis of_nat_less_iff of_nat_numeral of_nat_power)
    then have lt: "int n * int (unit_factor u) < 2 ^ 63" by simp
    consider "u = []" | c where "u = [c]" "c \<in> set ''KkMmGg''" | c b where "u = [c, b]" "c \<in> set ''KkMmGg''" "b \<in> set ''Bb''"
      using u by (auto simp: is_unit_def)
    then show ?thesis
    proof cases
      case 1
      then show ?thesis using l0 [OF 1] last n n0 unfolding def by (simp add: unit_factor_def)
    next
      case (2 c)
      have f: "(if c = CHR ''K'' \<or> c = CHR ''k'' then int n * 1000 else if c = CHR ''M'' \<or> c = CHR ''m'' then int n * (1000 * 1000)
          else if c = CHR ''G'' \<or> c = CHR ''g'' then int n * (1000 * 1000 * 1000) else int n) = int (n * unit_factor u)"
        unfolding 2(1) using 2(2-) by (auto simp: unit_factor_def)
      have "(length (dec_string n @ u) - 1) = length (dec_string n)" "c \<noteq> CHR ''B''" "c \<noteq> CHR ''b''" using 2 by auto
      then show ?thesis using l1 lt n0 2(1) f unfolding def by (simp add: nat_mult_distrib)
    next
      case (3 c b)
      have f: "(if c = CHR ''K'' \<or> c = CHR ''k'' then int n * 1024 else if c = CHR ''M'' \<or> c = CHR ''m'' then int n * (1024 * 1024)
          else if c = CHR ''G'' \<or> c = CHR ''g'' then int n * (1024 * 1024 * 1024) else int n) = int (n * unit_factor u)"
        unfolding 3(1) using 3(2-) by (auto simp: unit_factor_def)
      have "2 \<le> length (dec_string n @ u)" "b = CHR ''B'' \<or> b = CHR ''b''" using 3 by auto
      then show ?thesis using l1 l2 lt n0 3(1) f unfolding def by (auto simp: nat_mult_distrib)
    qed
  qed
qed

section \<open>A reference is replaced\<close>

lemma takeWhile_stop: "c \<notin> set xs \<Longrightarrow> takeWhile (\<lambda>d. d \<noteq> c) (xs @ c # ys) = xs"
  by (induction xs) auto

lemma takeWhile_none: "c \<notin> set xs \<Longrightarrow> takeWhile (\<lambda>d. d \<noteq> c) xs = xs"
  by (induction xs) auto

lemma c_at_split: "c_string s \<Longrightarrow> c_at (pre @ s @ nul # rest) (length pre) = Some s"
  using cstr_c_bytes [of s rest] by (simp add: c_at_def c_bytes_def)

lemma loop_done: "c_at buf q = Some s \<Longrightarrow> CHR ''%'' \<notin> set s \<Longrightarrow> replace_loop env buf q n = Some (0, buf)"
  by (simp add: replace_loop.simps [of env buf q n] takeWhile_none)

lemma fmt_string_Nil [simp]: "fmt_string [] v = Some v"
  by (simp add: fmt_string_def space_padded_def dec_value_def)

definition env_ref :: "string \<Rightarrow> string" where
  "env_ref key = ''%E('' @ key @ '')''"

lemma scan_env_ref:
  assumes "key \<noteq> []" and "CHR '')'' \<notin> set key"
  shows "scan_env (''E('' @ key @ '')'' @ post) = (1, key, Some (length key + 3))"
proof -
  have "takeWhile (\<lambda>c. c \<noteq> CHR '')'') (key @ CHR '')'' # post) = key" by (rule takeWhile_stop [OF assms(2)])
  moreover from this have "dropWhile (\<lambda>c. c \<noteq> CHR '')'') (key @ CHR '')'' # post) = CHR '')'' # post"
    by (metis append_same_eq dropWhile_eq_drop append_eq_conv_conj)
  ultimately show ?thesis using assms(1) by (simp add: scan_env_def scan_set_def)
qed

lemma loop_step:
  assumes "c_at buf q = Some s" and "takeWhile (\<lambda>c. c \<noteq> CHR ''%'') s = a" and "length a \<noteq> length s"
    and "scan_set (\<lambda>c. c = CHR ''.'' \<or> c = CHR ''-'' \<or> isdigit c) (drop (length a + 1) s) = None"
    and "scan_env (drop (length a + 1) s) = (1, key, Some n)" and "length key \<le> MAXLEN_CFG_LINE"
    and q2: "q2 = q + length a + 1 + n" and "q2 - 1 < length buf" and "buf ! (q2 - 1) = CHR '')''"
    and "env key = Some v" and "\<not> MAXLEN_CFG_LINE < length v"
    and N: "N = len - int (q2 - (q + length a)) + int (length v)" and "\<not> (N < 0 \<or> int (length buf) - 1 < N)"
    and "c_at buf q2 = Some r" and "store (q + length a + length v) (r @ [nul]) buf = Some buf1"
    and "store (q + length a) v buf1 = Some buf2"
  shows "replace_loop env buf q len = replace_loop env buf2 q2 N"
proof -
  have "0 + 2 \<le> MAXLEN_CFG_LINE" by (simp add: MAXLEN_CFG_LINE_def MAXLEN_PATH_def)
  moreover have "q + length a + 1 + length [] + n = q2" using q2 by simp
  ultimately show ?thesis using assms
    by (simp add: replace_loop.simps [of env buf q len] Let_def add.assoc)
qed

lemma replace_one:
  assumes key: "key \<noteq> []" "CHR '')'' \<notin> set key" "length key \<le> MAXLEN_CFG_LINE"
    and env: "env key = Some v" "length v \<le> MAXLEN_CFG_LINE"
    and str: "c_string (pre @ env_ref key @ post)" "c_string v" "CHR ''%'' \<notin> set (pre @ v @ post)"
    and room: "length (pre @ v @ post) \<le> length (pre @ env_ref key @ post @ rest)"
    and len: "length (env_ref key) \<le> length (v @ post)"
  shows "\<exists>rest'. zc_str_replace_env env (pre @ env_ref key @ post @ nul # rest) = Some (0, pre @ v @ post @ nul # rest')"
proof -
  let ?ref = "env_ref key"
  let ?buf = "pre @ ?ref @ post @ nul # rest"
  have lr: "length ?ref = length key + 4" by (simp add: env_ref_def)
  have s0: "c_at ?buf 0 = Some (pre @ ?ref @ post)" using c_at_split [OF str(1), of "[]" rest] by simp
  have k: "takeWhile (\<lambda>c. c \<noteq> CHR ''%'') (pre @ ?ref @ post) = pre"
    using str(3) takeWhile_stop [of "CHR ''%''" pre "''E('' @ key @ '')'' @ post"] by (simp add: env_ref_def)
  have d: "drop (length pre + 1) (pre @ ?ref @ post) = ''E('' @ key @ '')'' @ post" by (simp add: env_ref_def)
  have w: "scan_set (\<lambda>c. c = CHR ''.'' \<or> c = CHR ''-'' \<or> isdigit c) (''E('' @ key @ '')'' @ post) = None"
    by (simp add: scan_set_def isdigit_def)
  note se = scan_env_ref [OF key(1,2), of post]
  let ?q = "length pre + 1 + (length key + 3)"
  have q: "?q = length pre + length ?ref" using lr by simp
  have close: "?buf ! (?q - 1) = CHR '')''" by (simp add: env_ref_def nth_append)
  have post: "c_at ?buf ?q = Some post"
    unfolding q using c_at_split [of post "pre @ ?ref" rest] str(1) by (simp add: c_string_def)
  let ?n = "length pre + length v"
  have fits: "?n + length (post @ [nul]) \<le> length ?buf" using room by simp
  define buf1 where "buf1 = overwrite ?n (post @ [nul]) ?buf"
  have st1: "store ?n (post @ [nul]) ?buf = Some buf1" using fits by (simp only: store_def buf1_def if_True)
  have l1: "length buf1 = length ?buf" unfolding buf1_def by (rule length_overwrite [OF fits])
  have t1: "take (length pre) buf1 = pre" by (simp add: buf1_def overwrite_def)
  have d1: "drop ?n buf1 = post @ nul # drop (?n + length (post @ [nul])) ?buf"
    using fits by (simp add: buf1_def overwrite_def)
  define rest' where "rest' = drop (?n + length (post @ [nul])) ?buf"
  have st2: "store (length pre) v buf1 = Some (pre @ v @ post @ nul # rest')"
    using t1 d1 l1 fits by (simp add: store_def overwrite_def rest'_def)
  have nx: "c_at (pre @ v @ post @ nul # rest') ?q = Some (drop (length ?ref) (v @ post))"
  proof -
    let ?a = "take (length ?ref) (v @ post)" and ?b = "drop (length ?ref) (v @ post)"
    have "c_string (v @ post)" using str(1,2) by (simp add: c_string_def)
    then have "c_string ?b" by (meson c_string_def in_set_dropD)
    moreover have "length (pre @ ?a) = ?q" using len q by simp
    moreover have "pre @ v @ post @ nul # rest' = (pre @ ?a) @ ?b @ nul # rest'"
      by (metis append.assoc append_take_drop_id)
    ultimately show ?thesis using c_at_split [of ?b "pre @ ?a" rest'] by metis
  qed
  have clean: "CHR ''%'' \<notin> set (drop (length ?ref) (v @ post))" using str(3) by (auto dest: in_set_dropD)
  have ne: "length pre \<noteq> length (pre @ ?ref @ post)" using lr by simp
  have inb: "?q - 1 < length ?buf" using q by simp
  let ?N = "int (length (pre @ ?ref @ post)) - int (?q - length pre) + int (length v)"
  have N: "\<not> (?N < 0 \<or> int (length ?buf) - 1 < ?N)" using room lr by simp
  have "replace_loop env ?buf 0 (int (length (pre @ ?ref @ post))) = replace_loop env (pre @ v @ post @ nul # rest') ?q ?N"
  proof (rule loop_step [OF s0 k ne])
    show "scan_set (\<lambda>c. c = CHR ''.'' \<or> c = CHR ''-'' \<or> isdigit c) (drop (length pre + 1) (pre @ ?ref @ post)) = None"
      unfolding d by (rule w)
    show "scan_env (drop (length pre + 1) (pre @ ?ref @ post)) = (1, key, Some (length key + 3))" unfolding d by (rule se)
    show "store (0 + length pre + length v) (post @ [nul]) ?buf = Some buf1" using st1 by simp
    show "store (0 + length pre) v buf1 = Some (pre @ v @ post @ nul # rest')" using st2 by simp
    show "?N = int (length (pre @ ?ref @ post)) - int (?q - (0 + length pre)) + int (length v)" by simp
    show "?q = 0 + length pre + 1 + (length key + 3)" by simp
  qed (rule key(3) inb close env(1) N post | use env(2) in simp)+
  then show ?thesis using loop_done [OF nx clean] s0 by (simp add: zc_str_replace_env_def)
qed

text \<open>The search goes on at the old offset, so a second reference behind a short value is passed over.\<close>

lemma second_reference_skipped:
  "\<exists>buf. zc_str_replace_env (\<lambda>key. Some (if key = ''A'' then [] else ''b'')) (c_bytes ''%E(A)%E(B)'') = Some (0, buf) \<and>
    cstr buf = Some ''%E(B)''"
  by (simp add: zc_str_replace_env_def c_bytes_def c_at_def cstr_def replace_loop.simps scan_set_def isdigit_def scan_env_def
    MAXLEN_CFG_LINE_def MAXLEN_PATH_def store_def overwrite_def)

end
