(* ===== verification/ZlogRule.thy ===== *)
theory ZlogRule
  imports ZlogLevel "HOL-Library.Signed_Division"
begin

unbundle bit_operations_syntax

text \<open>
  The rules of the logger (\<^verbatim>\<open>contrib/zlog/src/rule.c\<close>): which categories and levels a rule is for. Of a rule
  only what these parts use is kept. The function that writes a message is one of ten and is a
  parameter of \<open>zlog_rule_output\<close>; \<open>record_func\<close> is a code address.
\<close>

datatype out_fn = OutStaticSingle | OutStaticRotate | OutDynamicSingle | OutDynamicRotate | OutPipe | OutSyslog |
  OutStaticRecord | OutDynamicRecord | OutStdout | OutStderr

record zlog_rule =
  rl_category :: string
  compare_char :: char
  rl_level :: int
  rl_bitmap :: "8 word list"
  rl_output :: out_fn
  record_name :: string
  record_func :: "nat option"

section \<open>Levels\<close>

text \<open>
  The level of a rule from the text behind the dot, and the bitmap of the levels it is for. The
  quotient and remainder of C truncate; a store outside of the bitmap is a fault.
\<close>

definition level_selector :: "string \<Rightarrow> char \<times> string" where
  "level_selector level =
     (if first_char level = CHR ''='' then (CHR ''='', tl level)
      else if first_char level = CHR ''!'' then (CHR ''!'', tl level)
      else if first_char level = CHR ''*'' then (CHR ''*'', level)
      else (CHR ''.'', level))"

definition set_bitmap :: "char \<Rightarrow> int \<Rightarrow> 8 word list option" where
  "set_bitmap c n = do {
     let i = n sdiv 8;
     let k = n smod 8;
     check (c = CHR ''*'' \<or> 0 \<le> i \<and> i < 32);
     Some (if c = CHR ''='' then (replicate 32 0)[nat i := 0 OR push_bit (nat (7 - k)) 1]
       else if c = CHR ''!'' then (replicate 32 0xFF)[nat i := 0xFF AND NOT (push_bit (nat (7 - k)) 1)]
       else if c = CHR ''*'' then replicate 32 0xFF
       else replicate (nat i) 0 @ [0 OR NOT (push_bit (nat (8 - k)) 0xFF)] @ replicate (32 - nat i - 1) 0xFF) }"

definition rule_set_level :: "zlog_level arraylist \<Rightarrow> string \<Rightarrow> zlog_rule \<Rightarrow> zlog_rule option" where
  "rule_set_level levels level r = do {
     let (c, p) = level_selector level;
     n \<leftarrow> zlog_level_list_atoi levels (Some p);
     bm \<leftarrow> set_bitmap c n;
     Some (r\<lparr>compare_char := c, rl_level := n, rl_bitmap := bm\<rparr>) }"

section \<open>Output and categories\<close>

text \<open>\<open>lv\<close> is the level of the event of the thread.\<close>

definition zlog_rule_output :: "(zlog_rule \<Rightarrow> 'w \<Rightarrow> int \<times> 'w) \<Rightarrow> zlog_rule \<Rightarrow> int \<Rightarrow> 'w \<Rightarrow> int \<times> 'w" where
  "zlog_rule_output out r lv w =
     (if compare_char r = CHR ''*'' then out r w
      else if compare_char r = CHR ''.'' then (if rl_level r \<le> lv then out r w else (0, w))
      else if compare_char r = CHR ''='' then (if lv = rl_level r then out r w else (0, w))
      else if compare_char r = CHR ''!'' then (if lv \<noteq> rl_level r then out r w else (0, w))
      else (0, w))"

definition zlog_rule_is_wastebin :: "zlog_rule \<Rightarrow> int" where
  "zlog_rule_is_wastebin r = (if strcmp (rl_category r) ''!'' = 0 then 1 else 0)"

definition zlog_rule_match_category :: "zlog_rule \<Rightarrow> string \<Rightarrow> int option" where
  "zlog_rule_match_category r category =
     (if strcmp (rl_category r) ''*'' = 0 then Some 1
      else if strcmp (rl_category r) category = 0 then Some 1
      else do {
        let len = length (rl_category r);
        check (0 < len);
        if rl_category r ! (len - 1) = CHR ''_'' then do {
          let len = (if length category = len - 1 then len - 1 else len);
          Some (if strncmp (rl_category r) category len = 0 then 1 else 0) }
        else Some 0 })"

text \<open>The function registered under the name of a rule that writes to a record.\<close>

definition zlog_rule_set_record :: "zlog_rule \<Rightarrow> (string \<Rightarrow> nat option option) \<Rightarrow> (int \<times> zlog_rule) option" where
  "zlog_rule_set_record r get_record =
     (if rl_output r \<noteq> OutStaticRecord \<and> rl_output r \<noteq> OutDynamicRecord then Some (0, r)
      else do {
        f \<leftarrow> get_record (record_name r);
        Some (0, case f of Some g \<Rightarrow> r\<lparr>record_func := Some g\<rparr> | None \<Rightarrow> r) })"

section \<open>The bitmap says what the rule outputs\<close>

definition rule_accepts :: "zlog_rule \<Rightarrow> int \<Rightarrow> bool" where
  "rule_accepts r lv \<longleftrightarrow> compare_char r = CHR ''*'' \<or> compare_char r = CHR ''.'' \<and> rl_level r \<le> lv \<or>
     compare_char r = CHR ''='' \<and> lv = rl_level r \<or> compare_char r = CHR ''!'' \<and> lv \<noteq> rl_level r"

lemma rule_output_eq: "zlog_rule_output out r lv w = (if rule_accepts r lv then out r w else (0, w))"
  by (auto simp: zlog_rule_output_def rule_accepts_def)

definition allows :: "8 word list \<Rightarrow> nat \<Rightarrow> bool" where
  "allows bm lv \<longleftrightarrow> bit (bm ! (lv div 8)) (7 - lv mod 8)"

definition rule_ok :: "zlog_rule \<Rightarrow> bool" where
  "rule_ok r \<longleftrightarrow> length (rl_bitmap r) = 32 \<and> (\<forall>lv < 256. allows (rl_bitmap r) lv \<longleftrightarrow> rule_accepts r (int lv))"

lemma bit_ff: "n < 8 \<Longrightarrow> bit (0xFF :: 8 word) n"
proof -
  have "(0xFF :: 8 word) = mask 8" by (simp add: mask_eq_exp_minus_1)
  then show "n < 8 \<Longrightarrow> ?thesis" by (simp only: bit_mask_iff) simp
qed

lemma small_div: "n < 256 \<Longrightarrow> n div 8 < (32 :: nat)"
  by simp

lemma sdiv_nat: "int n sdiv 8 = int (n div 8)" "int n smod 8 = int (n mod 8)"
  by (cases "n = 0"; simp add: signed_divide_int_def signed_modulo_int_def zdiv_int zmod_int)+

lemma same_level: "(lv div 8 = n div 8 \<and> lv mod 8 = n mod 8) \<longleftrightarrow> lv = (n :: nat)"
  by (metis div_mult_mod_eq)

lemma set_bitmap_eq:
  assumes "n < 256"
  shows "set_bitmap c (int n) = Some (
    if c = CHR ''='' then (replicate 32 0)[n div 8 := push_bit (7 - n mod 8) 1]
    else if c = CHR ''!'' then (replicate 32 0xFF)[n div 8 := 0xFF AND NOT (push_bit (7 - n mod 8) 1)]
    else if c = CHR ''*'' then replicate 32 0xFF
    else replicate (n div 8) 0 @ [NOT (push_bit (8 - n mod 8) 0xFF)] @ replicate (32 - n div 8 - 1) 0xFF)"
proof -
  have "nat (7 - int n smod 8) = 7 - n mod 8" "nat (8 - int n smod 8) = 8 - n mod 8" "nat (int n sdiv 8) = n div 8"
    unfolding sdiv_nat by simp_all
  moreover have "0 \<le> int n sdiv 8 \<and> int n sdiv 8 < 32" unfolding sdiv_nat using small_div [OF assms] by simp
  ultimately show ?thesis by (simp add: set_bitmap_def)
qed

lemma set_bitmap_none:
  "set_bitmap c (- 1) = Some (if c = CHR ''='' then replicate 32 0 else replicate 32 0xFF)"
proof -
  have q: "(- 1 :: int) sdiv 8 = 0" "(- 1 :: int) smod 8 = - 1" by (simp_all add: signed_divide_int_def signed_modulo_int_def)
  have k: "nat (7 - - 1) = 8" "nat (8 - - 1) = 9" "nat 0 = 0" by simp_all
  have z: "push_bit 8 1 = (0 :: 8 word)" "push_bit 9 0xFF = (0 :: 8 word)" "NOT 0 = (0xFF :: 8 word)" by simp_all
  have r: "(replicate 32 x)[0 := x] = replicate 32 x" for x :: "8 word" by (simp add: list_update_same_conv)
  have c: "replicate 0 0 @ [0xFF] @ replicate (32 - 0 - 1) 0xFF = replicate 32 (0xFF :: 8 word)" by (simp flip: replicate_Suc)
  have z2: "0 OR x = x" "0xFF AND (0xFF :: 8 word) = 0xFF" for x :: "8 word" by simp_all
  show ?thesis unfolding set_bitmap_def Let_def q k z z2 r c by simp
qed

lemma allows_update:
  assumes "lv < 256" and "n < 256" and "length bm = 32"
  shows "allows (bm[n div 8 := x]) lv \<longleftrightarrow> (if lv div 8 = n div 8 then bit x (7 - lv mod 8) else allows bm lv)"
  using assms by (auto simp: allows_def)

lemma bitmap_allows:
  assumes n: "n < 256" and lv: "lv < 256" and bm: "set_bitmap c (int n) = Some bm" and c: "c \<in> {CHR ''='', CHR ''!'', CHR ''*'', CHR ''.''}"
  shows "length bm = 32 \<and> (allows bm lv \<longleftrightarrow> c = CHR ''*'' \<or> c = CHR ''.'' \<and> n \<le> lv \<or> c = CHR ''='' \<and> lv = n \<or> c = CHR ''!'' \<and> lv \<noteq> n)"
proof -
  have z: "\<not> allows (replicate 32 0) lv" and f: "allows (replicate 32 0xFF) lv"
    using small_div [OF lv] bit_ff [of "7 - lv mod 8"] by (simp_all add: allows_def)
  have k: "7 - lv mod 8 = 7 - n mod 8 \<longleftrightarrow> lv mod 8 = n mod 8"
    using mod_less_divisor [of 8 lv] mod_less_divisor [of 8 n] by linarith
  have one: "bit (push_bit (7 - n mod 8) (1 :: 8 word)) (7 - lv mod 8) \<longleftrightarrow> lv mod 8 = n mod 8"
    using k by (auto simp: bit_exp_iff)
  have l8: "7 - lv mod 8 < (8 :: nat)" by arith
  note eq = bm [unfolded set_bitmap_eq [OF n]]
  consider "c = CHR ''=''" | "c = CHR ''!''" | "c = CHR ''*''" | "c = CHR ''.''" using c by blast
  then show ?thesis
  proof cases
    case 1
    then have "bm = (replicate 32 0)[n div 8 := push_bit (7 - n mod 8) 1]" using eq by simp
    then show ?thesis using 1 z one same_level [of lv n] by (simp add: allows_update [OF lv n]) metis
  next
    case 2
    then have "bm = (replicate 32 0xFF)[n div 8 := 0xFF AND NOT (push_bit (7 - n mod 8) 1)]" using eq by simp
    moreover have "bit (0xFF AND NOT (push_bit (7 - n mod 8) 1) :: 8 word) (7 - lv mod 8) \<longleftrightarrow> lv mod 8 \<noteq> n mod 8"
      unfolding bit_and_iff bit_not_iff one using bit_ff [OF l8] l8 by simp
    ultimately have "allows bm lv \<longleftrightarrow> \<not> (lv div 8 = n div 8 \<and> lv mod 8 = n mod 8)"
      using f by (simp only: allows_update [OF lv n length_replicate]) simp
    then have "allows bm lv \<longleftrightarrow> lv \<noteq> n" unfolding same_level .
    then show ?thesis using 2 \<open>bm = _\<close> by simp
  next
    case 3
    then have "bm = replicate 32 0xFF" using eq by simp
    then show ?thesis using 3 f by simp
  next
    case 4
    let ?x = "NOT (push_bit (8 - n mod 8) 0xFF) :: 8 word"
    have b: "bm = replicate (n div 8) 0 @ [?x] @ replicate (32 - n div 8 - 1) 0xFF" using 4 eq by simp
    have len: "length bm = 32" unfolding b using small_div [OF n] by simp
    have x: "bit ?x (7 - lv mod 8) \<longleftrightarrow> n mod 8 \<le> lv mod 8"
    proof -
      have "bit (push_bit (8 - n mod 8) (0xFF :: 8 word)) (7 - lv mod 8) \<longleftrightarrow> 8 - n mod 8 \<le> 7 - lv mod 8"
        using bit_ff [of "7 - lv mod 8 - (8 - n mod 8)"] by (auto simp: bit_push_bit_iff)
      moreover have "8 - n mod 8 \<le> 7 - lv mod 8 \<longleftrightarrow> lv mod 8 < n mod 8"
        using mod_less_divisor [of 8 lv] mod_less_divisor [of 8 n] by linarith
      ultimately show ?thesis using l8 by (simp add: bit_not_iff not_less)
    qed
    have le: "n \<le> lv \<longleftrightarrow> n div 8 < lv div 8 \<or> n div 8 = lv div 8 \<and> n mod 8 \<le> lv mod 8"
      using div_mult_mod_eq [of n 8] div_mult_mod_eq [of lv 8] mod_less_divisor [of 8 n] mod_less_divisor [of 8 lv] by linarith
    have "allows bm lv \<longleftrightarrow> n \<le> lv"
    proof (rule linorder_cases [of "lv div 8" "n div 8"])
      assume "lv div 8 < n div 8"
      then show ?thesis unfolding b le by (simp add: allows_def nth_append)
    next
      assume "lv div 8 = n div 8"
      then show ?thesis using x unfolding b le by (simp add: allows_def nth_append)
    next
      assume g: "n div 8 < lv div 8"
      then have "bm ! (lv div 8) = 0xFF" unfolding b using small_div [OF lv] by (simp add: nth_append nth_Cons')
      then show ?thesis using g bit_ff [of "7 - lv mod 8"] unfolding le by (simp add: allows_def)
    qed
    then show ?thesis using 4 len by simp
  qed
qed

text \<open>Also a name that is not a level, for which the number is -1: such a rule is for all levels.\<close>

lemma rule_set_level_ok:
  assumes "rule_set_level levels level r0 = Some r" and h: "holds_levels levels lvs"
  shows "rule_ok r \<and> rl_category r = rl_category r0"
proof -
  obtain c p where s: "level_selector level = (c, p)" by (rule prod.exhaust)
  then have c: "c \<in> {CHR ''='', CHR ''!'', CHR ''*'', CHR ''.''}" by (auto simp: level_selector_def split: if_splits)
  obtain n bm where n: "zlog_level_list_atoi levels (Some p) = Some n" "set_bitmap c n = Some bm"
    "r = r0\<lparr>compare_char := c, rl_level := n, rl_bitmap := bm\<rparr>"
    using assms(1) s by (auto simp: rule_set_level_def bind_Some_iff)
  have "n = - 1 \<or> (\<exists>k < 256. n = int k)"
  proof (cases "p = []")
    case True
    then show ?thesis using n(1) by (simp add: zlog_level_list_atoi_def)
  next
    case False
    then have "n = level_number lvs p" using level_atoi_ok [OF h False] n(1) by simp
    then show ?thesis by (auto simp: level_number_def find_Some_iff split: option.splits)
  qed
  then show ?thesis
  proof (elim disjE exE conjE)
    assume "n = - 1"
    then have "bm = (if c = CHR ''='' then replicate 32 0 else replicate 32 0xFF)" using n(2) set_bitmap_none [of c] by simp
    moreover have "\<not> allows (replicate 32 0) lv" "allows (replicate 32 0xFF) lv" if "lv < 256" for lv
      using small_div [OF that] bit_ff [of "7 - lv mod 8"] by (simp_all add: allows_def)
    ultimately show ?thesis using n(3) \<open>n = - 1\<close> c by (auto simp: rule_ok_def rule_accepts_def)
  next
    fix k assume k: "k < 256" "n = int k"
    then show ?thesis using bitmap_allows [OF k(1) _ n(2) [unfolded k(2)] c] n(3)
      by (auto simp: rule_ok_def rule_accepts_def)
  qed
qed

section \<open>Names of categories\<close>

definition rule_fits :: "string \<Rightarrow> zlog_rule \<Rightarrow> bool" where
  "rule_fits name r \<longleftrightarrow> rl_category r = ''*'' \<or> rl_category r = name \<or>
     (\<exists>stem. rl_category r = stem @ ''_'' \<and> (name = stem \<or> (\<exists>more. name = rl_category r @ more)))"

lemma match_category_ok:
  assumes "rl_category r \<noteq> []"
  shows "zlog_rule_match_category r name = Some (if rule_fits name r then 1 else 0)"
proof -
  let ?c = "rl_category r"
  obtain stem x where c: "?c = stem @ [x]" using assms by (metis append_butlast_last_id)
  have len: "length ?c - 1 = length stem" "?c ! (length ?c - 1) = x" by (simp_all add: c)
  have pre: "take (length ?c) ?c = take (length ?c) name \<longleftrightarrow> (\<exists>more. name = ?c @ more)"
    by (metis append_eq_conv_conj append_take_drop_id take_all order_refl)
  have st: "take (length stem) ?c = take (length stem) name \<longleftrightarrow> name = stem" if "length name = length stem"
    using that by (auto simp: c)
  have no: "\<not> (\<exists>more. name = ?c @ more)" if "length name = length stem" using that by (auto simp: c)
  have fits: "rule_fits name r \<longleftrightarrow> ?c = ''*'' \<or> ?c = name \<or> x = CHR ''_'' \<and> (name = stem \<or> (\<exists>more. name = ?c @ more))"
    by (auto simp: rule_fits_def c)
  show ?thesis
    using assms st no pre len unfolding fits
    by (cases "length name = length stem") (auto simp: zlog_rule_match_category_def Let_def)
qed

end
