(* ===== verification/ZlogCategory.thy ===== *)
theory ZlogCategory
  imports ZlogRule
begin

text \<open>
  The categories of the logger (\<^verbatim>\<open>contrib/zlog/src/category.c\<close>): each keeps the rules that fit its name and
  the union of their bitmaps, and a backup of both while a configuration is loaded. \<open>c0\<close>, \<open>c1\<close> and \<open>c2\<close>
  say whether the calls of \<open>calloc\<close> succeed, \<open>m\<close> whether those of \<open>realloc\<close> do.
\<close>

record zlog_category =
  cat_name :: string
  cat_bitmap :: "8 word list"
  cat_bitmap_backup :: "8 word list"
  fit_rules :: "zlog_rule arraylist option"
  fit_rules_backup :: "zlog_rule arraylist option"

section \<open>The rules of a category\<close>

text \<open>The units that \<open>zc_arraylist_foreach\<close> visits; it reads the first slot in any case.\<close>

definition al_units :: "'a arraylist \<Rightarrow> 'a option list option" where
  "al_units l = do {
     a \<leftarrow> al_array l;
     check (1 \<le> length a \<and> nat (al_len l) \<le> length a);
     Some (take (nat (al_len l)) a) }"

definition del_rules :: "zlog_rule arraylist option \<Rightarrow> zlog_rule list option" where
  "del_rules p = (case p of Some l \<Rightarrow> zc_arraylist_del l | None \<Rightarrow> Some [])"

definition zlog_cateogry_overlap_bitmap :: "zlog_category \<Rightarrow> zlog_rule \<Rightarrow> zlog_category" where
  "zlog_cateogry_overlap_bitmap cat r = cat\<lparr>cat_bitmap := map2 (OR) (cat_bitmap cat) (rl_bitmap r)\<rparr>"

definition add_fit_rule :: "bool \<Rightarrow> zlog_rule \<Rightarrow> zlog_category \<Rightarrow> (int \<times> zlog_category) option" where
  "add_fit_rule m r cat = do {
     l \<leftarrow> fit_rules cat;
     (rc, l) \<leftarrow> zc_arraylist_add m l (Some r);
     let cat = cat\<lparr>fit_rules := Some l\<rparr>;
     Some (if rc \<noteq> 0 then (- 1, cat) else (0, zlog_cateogry_overlap_bitmap cat r)) }"

text \<open>The loop over all rules: whether it failed, the number of fitting rules and the last wastebin rule.\<close>

fun obtain_loop :: "bool \<Rightarrow> zlog_rule option list \<Rightarrow> nat \<Rightarrow> zlog_rule option \<Rightarrow> zlog_category \<Rightarrow>
    (bool \<times> nat \<times> zlog_rule option \<times> zlog_category) option" where
  "obtain_loop m [] n waste cat = Some (False, n, waste, cat)"
| "obtain_loop m (u # us) n waste cat = do {
     r \<leftarrow> u;
     fit \<leftarrow> zlog_rule_match_category r (cat_name cat);
     (rc, cat) \<leftarrow> (if fit \<noteq> 0 then add_fit_rule m r cat else Some (0, cat));
     if rc \<noteq> 0 then Some (True, n, waste, cat)
     else obtain_loop m us (if fit \<noteq> 0 then n + 1 else n) (if zlog_rule_is_wastebin r \<noteq> 0 then Some r else waste) cat }"

definition zlog_category_obtain_rules ::
  "bool \<Rightarrow> bool \<Rightarrow> bool \<Rightarrow> zlog_category \<Rightarrow> zlog_rule arraylist \<Rightarrow> (int \<times> zlog_category) option" where
  "zlog_category_obtain_rules c1 c2 m cat rules = do {
     _ \<leftarrow> del_rules (fit_rules cat);
     let cat = cat\<lparr>cat_bitmap := replicate 32 0\<rparr>;
     case zc_arraylist_new False c1 c2 of
       None \<Rightarrow> Some (- 1, cat\<lparr>fit_rules := None\<rparr>)
     | Some l \<Rightarrow> do {
         us \<leftarrow> al_units rules;
         (failed, n, waste, cat) \<leftarrow> obtain_loop m us 0 None (cat\<lparr>fit_rules := Some l\<rparr>);
         (rc, cat) \<leftarrow> (if failed then Some (- 1, cat)
           else if n = 0 then (case waste of Some r \<Rightarrow> add_fit_rule m r cat | None \<Rightarrow> Some (0, cat))
           else Some (0, cat));
         if rc \<noteq> 0 then do { _ \<leftarrow> del_rules (fit_rules cat); Some (- 1, cat\<lparr>fit_rules := None\<rparr>) }
         else Some (0, cat) } }"

definition zlog_category_new ::
  "bool \<Rightarrow> bool \<Rightarrow> bool \<Rightarrow> bool \<Rightarrow> string \<Rightarrow> zlog_rule arraylist \<Rightarrow> zlog_category option option" where
  "zlog_category_new c0 c1 c2 m name rules =
     (if MAXLEN_PATH < length name then Some None
      else if \<not> c0 then Some None
      else do {
        (rc, cat) \<leftarrow> zlog_category_obtain_rules c1 c2 m
          \<lparr>cat_name = name, cat_bitmap = replicate 32 0, cat_bitmap_backup = replicate 32 0, fit_rules = None, fit_rules_backup = None\<rparr>
          rules;
        if rc \<noteq> 0 then do { _ \<leftarrow> del_rules (fit_rules cat); Some None } else Some (Some cat) })"

definition zlog_category_update_rules ::
  "bool \<Rightarrow> bool \<Rightarrow> bool \<Rightarrow> zlog_category \<Rightarrow> zlog_rule arraylist \<Rightarrow> (int \<times> zlog_category) option" where
  "zlog_category_update_rules c1 c2 m cat new_rules = do {
     _ \<leftarrow> del_rules (fit_rules_backup cat);
     let cat = cat\<lparr>fit_rules_backup := fit_rules cat, fit_rules := None, cat_bitmap_backup := cat_bitmap cat\<rparr>;
     (rc, cat) \<leftarrow> zlog_category_obtain_rules c1 c2 m cat new_rules;
     Some (if rc \<noteq> 0 then (- 1, cat\<lparr>fit_rules := None\<rparr>) else (0, cat)) }"

definition zlog_category_commit_rules :: "zlog_category \<Rightarrow> zlog_category option" where
  "zlog_category_commit_rules cat =
     (if fit_rules_backup cat = None then Some cat
      else do {
        _ \<leftarrow> del_rules (fit_rules_backup cat);
        Some (cat\<lparr>fit_rules_backup := None, cat_bitmap_backup := replicate 32 0\<rparr>) })"

definition zlog_category_rollback_rules :: "zlog_category \<Rightarrow> zlog_category option" where
  "zlog_category_rollback_rules cat =
     (if fit_rules_backup cat = None then Some cat
      else do {
        cat \<leftarrow> (if fit_rules cat \<noteq> None then do {
            _ \<leftarrow> del_rules (fit_rules cat);
            Some (cat\<lparr>fit_rules := fit_rules_backup cat, fit_rules_backup := None\<rparr>) }
          else Some (cat\<lparr>fit_rules := fit_rules_backup cat, fit_rules_backup := None\<rparr>));
        Some (cat\<lparr>cat_bitmap := cat_bitmap_backup cat, cat_bitmap_backup := replicate 32 0\<rparr>) })"

fun output_loop :: "(zlog_rule \<Rightarrow> 'w \<Rightarrow> int \<times> 'w) \<Rightarrow> int \<Rightarrow> zlog_rule option list \<Rightarrow> int \<Rightarrow> 'w \<Rightarrow> (int \<times> 'w) option" where
  "output_loop out lv [] rc w = Some (rc, w)"
| "output_loop out lv (u # us) rc w = do {
     r \<leftarrow> u;
     let (rc, w) = zlog_rule_output out r lv w;
     output_loop out lv us rc w }"

definition zlog_category_output :: "(zlog_rule \<Rightarrow> 'w \<Rightarrow> int \<times> 'w) \<Rightarrow> zlog_category \<Rightarrow> int \<Rightarrow> 'w \<Rightarrow> (int \<times> 'w) option" where
  "zlog_category_output out cat lv w = do {
     l \<leftarrow> fit_rules cat;
     us \<leftarrow> al_units l;
     output_loop out lv us 0 w }"

definition zlog_category_needless_level :: "zlog_category \<Rightarrow> int \<Rightarrow> bool option" where
  "zlog_category_needless_level cat lv = do {
     check (0 \<le> lv sdiv 8 \<and> lv sdiv 8 < 32);
     Some (drop_bit (nat (7 - lv smod 8)) (cat_bitmap cat ! nat (lv sdiv 8)) AND 1 = 0) }"

section \<open>The rules a category selects\<close>

text \<open>The rules that fit; when there are none, the last rule for the category \<open>!\<close>.\<close>

definition selected_rules :: "string \<Rightarrow> zlog_rule list \<Rightarrow> zlog_rule list" where
  "selected_rules name rs = (let fs = filter (rule_fits name) rs; ws = filter (\<lambda>r. rl_category r = ''!'') rs in
     if fs \<noteq> [] then fs else if ws = [] then [] else [last ws])"

definition union_bitmap :: "zlog_rule list \<Rightarrow> 8 word list" where
  "union_bitmap rs = foldl (\<lambda>bm r. map2 (OR) bm (rl_bitmap r)) (replicate 32 0) rs"

definition cat_holds :: "zlog_category \<Rightarrow> zlog_rule list \<Rightarrow> bool" where
  "cat_holds cat rs \<longleftrightarrow> (\<exists>l m. fit_rules cat = Some l \<and> holds l rs m) \<and> cat_bitmap cat = union_bitmap rs"

definition same_rest :: "zlog_category \<Rightarrow> zlog_category \<Rightarrow> bool" where
  "same_rest cat cat' \<longleftrightarrow> cat_name cat' = cat_name cat \<and> cat_bitmap_backup cat' = cat_bitmap_backup cat \<and>
     fit_rules_backup cat' = fit_rules_backup cat"

lemma units_holds: "holds l xs m \<Longrightarrow> al_units l = Some (map Some xs)"
  by (simp add: al_units_def holds_def)

lemma cat_holds_units: "cat_holds cat xs \<Longrightarrow> \<exists>l. fit_rules cat = Some l \<and> al_units l = Some (map Some xs)"
  using units_holds by (auto simp: cat_holds_def)

lemma add_fit_ok:
  assumes "cat_holds cat xs" and "length xs < 2 ^ 30"
  shows "\<exists>cat'. add_fit_rule True r cat = Some (0, cat') \<and> cat_holds cat' (xs @ [r]) \<and> same_rest cat cat'"
proof -
  obtain l m where l: "fit_rules cat = Some l" "holds l xs m" "cat_bitmap cat = union_bitmap xs"
    using assms(1) by (auto simp: cat_holds_def)
  obtain l' m' where "zc_arraylist_add True l (Some r) = Some (0, l')" "holds l' (xs @ [r]) m'"
    using add_holds [OF l(2) assms(2)] by blast
  then show ?thesis using l
    by (auto simp: add_fit_rule_def zlog_cateogry_overlap_bitmap_def cat_holds_def union_bitmap_def same_rest_def)
qed

definition last_waste :: "zlog_rule option \<Rightarrow> zlog_rule list \<Rightarrow> zlog_rule option" where
  "last_waste w rs = (let ws = filter (\<lambda>r. rl_category r = ''!'') rs in if ws = [] then w else Some (last ws))"

lemma obtain_loop_ok:
  assumes "cat_holds cat xs" and "length xs + length rs < 2 ^ 30" and "\<forall>r \<in> set rs. rl_category r \<noteq> []"
  shows "\<exists>cat'. obtain_loop True (map Some rs) n w cat =
      Some (False, n + length (filter (rule_fits (cat_name cat)) rs), last_waste w rs, cat') \<and>
    cat_holds cat' (xs @ filter (rule_fits (cat_name cat)) rs) \<and> same_rest cat cat'"
  using assms
proof (induction rs arbitrary: cat xs n w)
  case Nil
  then show ?case by (simp add: last_waste_def same_rest_def)
next
  case (Cons r rs)
  have ne: "rl_category r \<noteq> []" "\<forall>r \<in> set rs. rl_category r \<noteq> []" using Cons.prems(3) by simp_all
  let ?w = "if zlog_rule_is_wastebin r \<noteq> 0 then Some r else w"
  have w: "last_waste w (r # rs) = last_waste ?w rs"
    by (simp add: last_waste_def zlog_rule_is_wastebin_def Let_def)
  note match = match_category_ok [OF ne(1), of "cat_name cat"]
  show ?case
  proof (cases "rule_fits (cat_name cat) r")
    case True
    obtain cat1 where c1: "add_fit_rule True r cat = Some (0, cat1)" "cat_holds cat1 (xs @ [r])" "same_rest cat cat1"
      using add_fit_ok [OF Cons.prems(1), of r] Cons.prems(2) by auto
    have nm: "cat_name cat1 = cat_name cat" using c1(3) by (simp add: same_rest_def)
    obtain cat2 where c2: "obtain_loop True (map Some rs) (n + 1) ?w cat1 =
        Some (False, n + 1 + length (filter (rule_fits (cat_name cat)) rs), last_waste ?w rs, cat2)"
      "cat_holds cat2 ((xs @ [r]) @ filter (rule_fits (cat_name cat)) rs)" "same_rest cat1 cat2"
      using Cons.IH [OF c1(2) _ ne(2), of "n + 1" ?w] Cons.prems(2) nm by auto
    then show ?thesis using match True c1 w by (auto simp: same_rest_def)
  next
    case False
    then show ?thesis using match Cons.IH [OF Cons.prems(1) _ ne(2), of n ?w] Cons.prems(2) w by auto
  qed
qed

lemma obtain_ok:
  assumes R: "holds rules rs k" "length rs < 2 ^ 30" "\<forall>r \<in> set rs. rl_category r \<noteq> []" and d: "del_rules (fit_rules cat) \<noteq> None"
  shows "\<exists>cat'. zlog_category_obtain_rules c1 c2 True cat rules = Some (if c1 \<and> c2 then 0 else - 1, cat') \<and> same_rest cat cat' \<and>
    (if c1 \<and> c2 then cat_holds cat' (selected_rules (cat_name cat) rs) else fit_rules cat' = None \<and> cat_bitmap cat' = replicate 32 0)"
proof (cases "c1 \<and> c2")
  case False
  then have "(zc_arraylist_new False c1 c2 :: zlog_rule arraylist option) = None" by (auto simp: zc_arraylist_new_def)
  then show ?thesis using False d by (auto simp: zlog_category_obtain_rules_def same_rest_def Let_def)
next
  case True
  obtain l :: "zlog_rule arraylist" where l: "zc_arraylist_new False c1 c2 = Some l" "holds l [] 32"
    using holds_new [of False] True by auto
  define cat0 where "cat0 = cat\<lparr>cat_bitmap := replicate 32 0, fit_rules := Some l\<rparr>"
  have h0: "cat_holds cat0 []" using l(2) by (auto simp: cat_holds_def cat0_def union_bitmap_def)
  have nm: "cat_name cat0 = cat_name cat" by (simp add: cat0_def)
  have r0: "same_rest cat cat0" by (simp add: cat0_def same_rest_def)
  let ?fs = "filter (rule_fits (cat_name cat)) rs"
  obtain cat1 where c1: "obtain_loop True (map Some rs) 0 None cat0 = Some (False, length ?fs, last_waste None rs, cat1)"
    "cat_holds cat1 ?fs" "same_rest cat0 cat1"
    using obtain_loop_ok [OF h0 _ R(3), of 0 None] R(2) unfolding nm by auto
  have eq: "zlog_category_obtain_rules c1 c2 True cat rules = do {
      (rc, cat) \<leftarrow> (if length ?fs = 0 then (case last_waste None rs of Some r \<Rightarrow> add_fit_rule True r cat1 | None \<Rightarrow> Some (0, cat1))
        else Some (0, cat1));
      if rc \<noteq> 0 then do { _ \<leftarrow> del_rules (fit_rules cat); Some (- 1, cat\<lparr>fit_rules := None\<rparr>) } else Some (0, cat) }"
    using d l(1) units_holds [OF R(1)] c1(1) by (auto simp: zlog_category_obtain_rules_def cat0_def Let_def)
  have tr: "same_rest cat c" if "same_rest cat1 c" for c using that r0 c1(3) by (simp add: same_rest_def)
  show ?thesis
  proof (cases "?fs = [] \<and> last_waste None rs \<noteq> None")
    case True
    then obtain r where r: "last_waste None rs = Some r" "selected_rules (cat_name cat) rs = [r]"
      by (auto simp: last_waste_def selected_rules_def Let_def split: if_splits)
    obtain cat2 where "add_fit_rule True r cat1 = Some (0, cat2)" "cat_holds cat2 [r]" "same_rest cat1 cat2"
      using add_fit_ok [of cat1 "[]" r] c1(2) True by auto
    then show ?thesis using eq True r tr \<open>c1 \<and> c2\<close> by auto
  next
    case False
    then have "selected_rules (cat_name cat) rs = ?fs"
      by (auto simp: last_waste_def selected_rules_def Let_def split: if_splits)
    then show ?thesis using eq False tr [of cat1] c1(2) \<open>c1 \<and> c2\<close> by (auto simp: same_rest_def split: option.split)
  qed
qed

section \<open>What a category lets through\<close>

lemma allows_or:
  assumes "lv < 256" and "length a = 32" and "length b = 32"
  shows "allows (map2 (OR) a b) lv \<longleftrightarrow> allows a lv \<or> allows b lv"
  using assms small_div [OF assms(1)] by (simp add: allows_def bit_or_iff)

lemma union_allows:
  assumes "\<forall>r \<in> set rs. rule_ok r" and lv: "lv < 256"
  shows "length (union_bitmap rs) = 32 \<and> (allows (union_bitmap rs) lv \<longleftrightarrow> (\<exists>r \<in> set rs. rule_accepts r (int lv)))"
  using assms(1)
proof (induction rs rule: rev_induct)
  case Nil
  then show ?case using small_div [OF lv] by (simp add: union_bitmap_def allows_def)
next
  case (snoc r rs)
  have r: "length (rl_bitmap r) = 32" "allows (rl_bitmap r) lv \<longleftrightarrow> rule_accepts r (int lv)"
    using snoc.prems lv by (simp_all add: rule_ok_def)
  have u: "union_bitmap (rs @ [r]) = map2 (OR) (union_bitmap rs) (rl_bitmap r)" by (simp add: union_bitmap_def)
  show ?case using snoc allows_or [OF lv _ r(1)] r unfolding u by auto
qed

lemma needless_ok:
  assumes "cat_holds cat rs" and "\<forall>r \<in> set rs. rule_ok r" and "lv < 256"
  shows "zlog_category_needless_level cat (int lv) = Some (\<not> (\<exists>r \<in> set rs. rule_accepts r (int lv)))"
proof -
  have q: "nat (int lv sdiv 8) = lv div 8" "nat (7 - int lv smod 8) = 7 - lv mod 8" "0 \<le> int lv sdiv 8 \<and> int lv sdiv 8 < 32"
    unfolding sdiv_nat using small_div [OF assms(3)] by simp_all
  have "drop_bit k x AND 1 = 0 \<longleftrightarrow> \<not> bit x k" for x :: "8 word" and k
    by (simp only: and_one_eq bit_iff_odd_drop_bit even_iff_mod_2_eq_zero not_not)
  then have "zlog_category_needless_level cat (int lv) = Some (\<not> allows (cat_bitmap cat) lv)"
    unfolding zlog_category_needless_level_def q using q(3) by (simp add: allows_def)
  then show ?thesis using union_allows [OF assms(2,3)] assms(1) by (simp add: cat_holds_def)
qed

text \<open>A category without a list of rules and with an empty bitmap.\<close>

definition silent :: "zlog_category \<Rightarrow> bool" where
  "silent cat \<longleftrightarrow> fit_rules cat = None \<and> cat_bitmap cat = replicate 32 0"

lemma silent_needless:
  assumes "silent cat" and "lv < 256"
  shows "zlog_category_needless_level cat (int lv) = Some True"
proof -
  have q: "nat (int lv sdiv 8) = lv div 8" "0 \<le> int lv sdiv 8 \<and> int lv sdiv 8 < 32"
    unfolding sdiv_nat using small_div [OF assms(2)] by simp_all
  show ?thesis
    using assms(1) small_div [OF assms(2)] unfolding zlog_category_needless_level_def q by (simp add: silent_def q(2))
qed

definition outputs :: "(zlog_rule \<Rightarrow> 'w \<Rightarrow> int \<times> 'w) \<Rightarrow> int \<Rightarrow> zlog_rule list \<Rightarrow> 'w \<Rightarrow> 'w" where
  "outputs out lv rs w = fold (\<lambda>r w. snd (out r w)) (filter (\<lambda>r. rule_accepts r lv) rs) w"

lemma output_loop_ok: "\<exists>rc'. output_loop out lv (map Some rs) rc w = Some (rc', outputs out lv rs w)"
proof (induction rs arbitrary: rc w)
  case (Cons r rs)
  obtain rc1 w1 where o: "zlog_rule_output out r lv w = (rc1, w1)" by (rule prod.exhaust)
  then have "w1 = (if rule_accepts r lv then snd (out r w) else w)" unfolding rule_output_eq by (auto split: if_splits)
  then show ?case using Cons [of rc1 w1] o by (auto simp: outputs_def)
qed (simp add: outputs_def)

lemma category_output_ok:
  assumes "cat_holds cat rs"
  shows "\<exists>rc. zlog_category_output out cat lv w = Some (rc, outputs out lv rs w)"
  using cat_holds_units [OF assms] output_loop_ok [of out lv rs 0 w] by (auto simp: zlog_category_output_def)

text \<open>A rule comes from one of the rules, whatever is selected.\<close>

lemma selected_sub: "set (selected_rules name rs) \<subseteq> set rs"
  by (auto simp: selected_rules_def Let_def dest: last_in_set)

lemma category_new_ok:
  assumes "holds rules rs k" and "length rs < 2 ^ 30" and "\<forall>r \<in> set rs. rl_category r \<noteq> []" and "length name \<le> MAXLEN_PATH"
  shows "\<exists>cat. zlog_category_new True True True True name rules = Some (Some cat) \<and> cat_holds cat (selected_rules name rs) \<and>
    cat_name cat = name \<and> fit_rules_backup cat = None \<and> cat_bitmap_backup cat = replicate 32 0"
proof -
  let ?c = "\<lparr>cat_name = name, cat_bitmap = replicate 32 0, cat_bitmap_backup = replicate 32 0, fit_rules = None, fit_rules_backup = None\<rparr>"
  obtain cat where "zlog_category_obtain_rules True True True ?c rules = Some (0, cat)" "same_rest ?c cat"
    "cat_holds cat (selected_rules name rs)"
    using obtain_ok [OF assms(1-3), of ?c True True] by (auto simp: del_rules_def)
  then show ?thesis using assms(4) by (simp add: zlog_category_new_def same_rest_def)
qed

end
