(* ===== verification/ZcHashTable.thy ===== *)
theory ZcHashTable
  imports Prelude "HOL-Library.Mapping"
begin

text \<open>
  The hash table of the logger (\<^verbatim>\<open>contrib/zlog/src/zc_hashtable.c\<close>): an array of doubly linked chains of
  entries. The entries are in an explicit store, a map from addresses to entries; a null pointer is
  \<open>None\<close>, an access through an address that is not in the store a fault. Where the code allocates,
  the argument \<open>mem\<close> is the address that \<open>calloc\<close> returns, or \<open>None\<close>. The fields \<open>keys_freed\<close> and
  \<open>values_freed\<close> record the calls of the two callbacks.
\<close>

section \<open>Data\<close>

record ('k, 'v) zc_entry =
  hash_key :: u32
  e_key :: 'k
  e_value :: 'v
  e_prev :: "nat option"
  e_next :: "nat option"

record ('k, 'v) zc_hashtable =
  zc_store :: "nat \<rightharpoonup> ('k, 'v) zc_entry"
  nelem :: nat
  zc_tab :: "nat option list"
  tab_size :: nat
  hash_fn :: "'k \<Rightarrow> u32"
  equal_fn :: "'k \<Rightarrow> 'k \<Rightarrow> bool"
  key_del :: bool
  value_del :: bool
  keys_freed :: "'k list"
  values_freed :: "'v list"

definition zc_hashtable_new ::
  "nat \<Rightarrow> ('k \<Rightarrow> u32) \<Rightarrow> ('k \<Rightarrow> 'k \<Rightarrow> bool) \<Rightarrow> bool \<Rightarrow> bool \<Rightarrow> bool \<Rightarrow> bool \<Rightarrow> ('k, 'v) zc_hashtable option" where
  "zc_hashtable_new a_size hash equal kd vd c1 c2 =
     (if c1 \<and> c2 then Some \<lparr>zc_store = Map.empty, nelem = 0, zc_tab = replicate a_size None, tab_size = a_size,
        hash_fn = hash, equal_fn = equal, key_del = kd, value_del = vd, keys_freed = [], values_freed = []\<rparr>
      else None)"

section \<open>The store\<close>

definition zc_deref :: "('k, 'v) zc_hashtable \<Rightarrow> nat \<Rightarrow> ('k, 'v) zc_entry option" where
  "zc_deref t p = zc_store t p"

definition put_entry :: "nat \<Rightarrow> ('k, 'v) zc_entry \<Rightarrow> ('k, 'v) zc_hashtable \<Rightarrow> ('k, 'v) zc_hashtable option" where
  "put_entry p e t = do { _ \<leftarrow> zc_deref t p; Some (t\<lparr>zc_store := (zc_store t)(p \<mapsto> e)\<rparr>) }"

definition free_entry :: "nat \<Rightarrow> ('k, 'v) zc_hashtable \<Rightarrow> ('k, 'v) zc_hashtable option" where
  "free_entry p t = do { _ \<leftarrow> zc_deref t p; Some (t\<lparr>zc_store := (zc_store t)(p := None)\<rparr>) }"

definition tab_get :: "nat option list \<Rightarrow> nat \<Rightarrow> nat option option" where
  "tab_get tb i = (if i < length tb then Some (tb ! i) else None)"

definition tab_set :: "nat option list \<Rightarrow> nat \<Rightarrow> nat option \<Rightarrow> nat option list option" where
  "tab_set tb i p = (if i < length tb then Some (tb[i := p]) else None)"

text \<open>The callbacks, where they are set.\<close>

definition del_kv :: "('k, 'v) zc_entry \<Rightarrow> ('k, 'v) zc_hashtable \<Rightarrow> ('k, 'v) zc_hashtable" where
  "del_kv e t = (let t = (if key_del t then t\<lparr>keys_freed := keys_freed t @ [e_key e]\<rparr> else t) in
     if value_del t then t\<lparr>values_freed := values_freed t @ [e_value e]\<rparr> else t)"

text \<open>A hash value as an index; a table without buckets is a division by zero.\<close>

definition bucket :: "('k, 'v) zc_hashtable \<Rightarrow> u32 \<Rightarrow> nat option" where
  "bucket t h = (if tab_size t = 0 then None else Some (unat h mod tab_size t))"

section \<open>Searching\<close>

partial_function (option) find_entry :: "('k, 'v) zc_hashtable \<Rightarrow> 'k \<Rightarrow> nat option \<Rightarrow> nat option option" where
  "find_entry t k p = (case p of
     None \<Rightarrow> Some None
   | Some a \<Rightarrow> do {
       e \<leftarrow> zc_deref t a;
       if equal_fn t k (e_key e) then Some (Some a) else find_entry t k (e_next e) })"

definition zc_hashtable_get_entry :: "('k, 'v) zc_hashtable \<Rightarrow> 'k \<Rightarrow> nat option option" where
  "zc_hashtable_get_entry t k = do {
     i \<leftarrow> bucket t (hash_fn t k);
     p \<leftarrow> tab_get (zc_tab t) i;
     find_entry t k p }"

definition zc_hashtable_get :: "('k, 'v) zc_hashtable \<Rightarrow> 'k \<Rightarrow> 'v option option" where
  "zc_hashtable_get t k = do {
     i \<leftarrow> bucket t (hash_fn t k);
     p \<leftarrow> tab_get (zc_tab t) i;
     r \<leftarrow> find_entry t k p;
     case r of None \<Rightarrow> Some None | Some a \<Rightarrow> do { e \<leftarrow> zc_deref t a; Some (Some (e_value e)) } }"

section \<open>Inserting\<close>

text \<open>An entry is put at the head of chain \<open>i\<close> of the array \<open>tb\<close>; its own pointers are null before.\<close>

definition push_entry :: "nat \<Rightarrow> nat \<Rightarrow> nat option list \<Rightarrow> ('k, 'v) zc_hashtable \<Rightarrow> (nat option list \<times> ('k, 'v) zc_hashtable) option" where
  "push_entry p i tb t = do {
     hd \<leftarrow> tab_get tb i;
     t \<leftarrow> (case hd of
        None \<Rightarrow> Some t
      | Some q \<Rightarrow> do {
          e \<leftarrow> zc_deref t q;
          t \<leftarrow> put_entry q (e\<lparr>e_prev := Some p\<rparr>) t;
          d \<leftarrow> zc_deref t p;
          put_entry p (d\<lparr>e_next := Some q\<rparr>) t });
     tb \<leftarrow> tab_set tb i (Some p);
     Some (tb, t) }"

text \<open>The inner loop of \<open>zc_hashtable_rehash\<close>, over one chain, and the outer one, from bucket \<open>i\<close> on.\<close>

partial_function (option) rehash_chain ::
  "nat \<Rightarrow> nat option \<Rightarrow> nat option list \<Rightarrow> ('k, 'v) zc_hashtable \<Rightarrow> (nat option list \<times> ('k, 'v) zc_hashtable) option" where
  "rehash_chain ns p tb t = (case p of
     None \<Rightarrow> Some (tb, t)
   | Some a \<Rightarrow> do {
       e \<leftarrow> zc_deref t a;
       t \<leftarrow> put_entry a (e\<lparr>e_next := None, e_prev := None\<rparr>) t;
       check (ns \<noteq> 0);
       (tb, t) \<leftarrow> push_entry a (unat (hash_key e) mod ns) tb t;
       rehash_chain ns (e_next e) tb t })"

fun rehash_chains ::
  "nat \<Rightarrow> nat \<Rightarrow> nat \<Rightarrow> nat option list \<Rightarrow> ('k, 'v) zc_hashtable \<Rightarrow> (nat option list \<times> ('k, 'v) zc_hashtable) option" where
  "rehash_chains ns i 0 tb t = Some (tb, t)"
| "rehash_chains ns i (Suc n) tb t = do {
     p \<leftarrow> tab_get (zc_tab t) i;
     (tb, t) \<leftarrow> rehash_chain ns p tb t;
     rehash_chains ns (Suc i) n tb t }"

definition zc_hashtable_rehash :: "bool \<Rightarrow> ('k, 'v) zc_hashtable \<Rightarrow> (int \<times> ('k, 'v) zc_hashtable) option" where
  "zc_hashtable_rehash mem t =
     (if \<not> mem then Some (- 1, t)
      else do {
        let ns = 2 * tab_size t;
        (tb, t) \<leftarrow> rehash_chains ns 0 (tab_size t) (replicate ns None) t;
        Some (0, t\<lparr>zc_tab := tb, tab_size := ns\<rparr>) })"

text \<open>
  \<open>rm\<close>: whether \<open>rehash\<close> gets its array. The limit \<open>tab_size * 1.3\<close> is exact at its integral values.
\<close>

definition zc_hashtable_put ::
  "bool \<Rightarrow> nat option \<Rightarrow> ('k, 'v) zc_hashtable \<Rightarrow> 'k \<Rightarrow> 'v \<Rightarrow> (int \<times> ('k, 'v) zc_hashtable) option" where
  "zc_hashtable_put rm mem t k v = do {
     i \<leftarrow> bucket t (hash_fn t k);
     p \<leftarrow> tab_get (zc_tab t) i;
     r \<leftarrow> find_entry t k p;
     case r of
       Some a \<Rightarrow> do {
         e \<leftarrow> zc_deref t a;
         t \<leftarrow> put_entry a (e\<lparr>e_key := k, e_value := v\<rparr>) (del_kv e t);
         Some (0, t) }
     | None \<Rightarrow> do {
         (rc, t) \<leftarrow> (if 13 * tab_size t < 10 * nelem t then zc_hashtable_rehash rm t else Some (0, t));
         if rc \<noteq> 0 then Some (- 1, t)
         else (case mem of
             None \<Rightarrow> Some (- 1, t)
           | Some a \<Rightarrow> do {
               let t = t\<lparr>zc_store := (zc_store t)(a \<mapsto>
                 \<lparr>hash_key = hash_fn t k, e_key = k, e_value = v, e_prev = None, e_next = None\<rparr>)\<rparr>;
               i \<leftarrow> bucket t (hash_fn t k);
               (tb, t) \<leftarrow> push_entry a i (zc_tab t) t;
               Some (0, t\<lparr>zc_tab := tb, nelem := nelem t + 1\<rparr>) }) } }"

section \<open>Removing\<close>

definition unlink_entry :: "nat \<Rightarrow> ('k, 'v) zc_hashtable \<Rightarrow> ('k, 'v) zc_hashtable option" where
  "unlink_entry a t = do {
     e \<leftarrow> zc_deref t a;
     t \<leftarrow> (case e_next e of
        None \<Rightarrow> Some t
      | Some q \<Rightarrow> do { d \<leftarrow> zc_deref t q; put_entry q (d\<lparr>e_prev := e_prev e\<rparr>) t });
     case e_prev e of
       Some q \<Rightarrow> do { d \<leftarrow> zc_deref t q; put_entry q (d\<lparr>e_next := e_next e\<rparr>) t }
     | None \<Rightarrow> do {
         i \<leftarrow> bucket t (hash_key e);
         tb \<leftarrow> tab_set (zc_tab t) i (e_next e);
         Some (t\<lparr>zc_tab := tb\<rparr>) } }"

definition zc_hashtable_remove :: "('k, 'v) zc_hashtable \<Rightarrow> 'k \<Rightarrow> ('k, 'v) zc_hashtable option" where
  "zc_hashtable_remove t k = do {
     i \<leftarrow> bucket t (hash_fn t k);
     p \<leftarrow> tab_get (zc_tab t) i;
     r \<leftarrow> find_entry t k p;
     case r of
       None \<Rightarrow> Some t
     | Some a \<Rightarrow> do {
         e \<leftarrow> zc_deref t a;
         t \<leftarrow> unlink_entry a (del_kv e t);
         t \<leftarrow> free_entry a t;
         Some (t\<lparr>nelem := nelem t - 1\<rparr>) } }"

text \<open>Freeing one chain, and all chains from bucket \<open>i\<close> on; \<open>clean\<close> also clears the array.\<close>

partial_function (option) free_chain :: "nat option \<Rightarrow> ('k, 'v) zc_hashtable \<Rightarrow> ('k, 'v) zc_hashtable option" where
  "free_chain p t = (case p of
     None \<Rightarrow> Some t
   | Some a \<Rightarrow> do {
       e \<leftarrow> zc_deref t a;
       t \<leftarrow> free_entry a (del_kv e t);
       free_chain (e_next e) t })"

fun free_chains :: "bool \<Rightarrow> nat \<Rightarrow> nat \<Rightarrow> ('k, 'v) zc_hashtable \<Rightarrow> ('k, 'v) zc_hashtable option" where
  "free_chains clear i 0 t = Some t"
| "free_chains clear i (Suc n) t = do {
     p \<leftarrow> tab_get (zc_tab t) i;
     t \<leftarrow> free_chain p t;
     t \<leftarrow> (if clear then do { tb \<leftarrow> tab_set (zc_tab t) i None; Some (t\<lparr>zc_tab := tb\<rparr>) } else Some t);
     free_chains clear (Suc i) n t }"

definition zc_hashtable_del :: "('k, 'v) zc_hashtable \<Rightarrow> ('k, 'v) zc_hashtable option" where
  "zc_hashtable_del t = free_chains False 0 (tab_size t) t"

definition zc_hashtable_clean :: "('k, 'v) zc_hashtable \<Rightarrow> ('k, 'v) zc_hashtable option" where
  "zc_hashtable_clean t = do { t \<leftarrow> free_chains True 0 (tab_size t) t; Some (t\<lparr>nelem := 0\<rparr>) }"

section \<open>Walking\<close>

text \<open>The first entry of the buckets from \<open>i\<close> on, of which there are \<open>n\<close>.\<close>

fun first_entry :: "nat option list \<Rightarrow> nat \<Rightarrow> nat \<Rightarrow> nat option option" where
  "first_entry tb i 0 = Some None"
| "first_entry tb i (Suc n) = do {
     p \<leftarrow> tab_get tb i;
     case p of Some a \<Rightarrow> Some (Some a) | None \<Rightarrow> first_entry tb (Suc i) n }"

definition zc_hashtable_begin :: "('k, 'v) zc_hashtable \<Rightarrow> nat option option" where
  "zc_hashtable_begin t = first_entry (zc_tab t) 0 (tab_size t)"

definition zc_hashtable_next :: "('k, 'v) zc_hashtable \<Rightarrow> nat \<Rightarrow> nat option option" where
  "zc_hashtable_next t a = do {
     e \<leftarrow> zc_deref t a;
     case e_next e of
       Some q \<Rightarrow> Some (Some q)
     | None \<Rightarrow> do {
         i \<leftarrow> bucket t (hash_key e);
         first_entry (zc_tab t) (Suc i) (tab_size t - Suc i) } }"

text \<open>The loop \<open>zc_hashtable_foreach\<close>.\<close>

partial_function (option) foreach_from :: "('k, 'v) zc_hashtable \<Rightarrow> nat option \<Rightarrow> nat list option" where
  "foreach_from t p = (case p of
     None \<Rightarrow> Some []
   | Some a \<Rightarrow> do {
       q \<leftarrow> zc_hashtable_next t a;
       as \<leftarrow> foreach_from t q;
       Some (a # as) })"

definition zc_hashtable_foreach :: "('k, 'v) zc_hashtable \<Rightarrow> nat list option" where
  "zc_hashtable_foreach t = do { p \<leftarrow> zc_hashtable_begin t; foreach_from t p }"

section \<open>Keys that are strings\<close>

text \<open>\<open>char\<close> is signed. Keys are the values of the strings.\<close>

definition schar :: "char \<Rightarrow> u32" where
  "schar c = scast (of_nat (of_char c) :: 8 word)"

definition zc_hashtable_str_hash :: "string \<Rightarrow> u32" where
  "zc_hashtable_str_hash str = fold (\<lambda>c h. (push_bit 5 h + h) + schar c) str 5381"

definition zc_hashtable_str_equal :: "string \<Rightarrow> string \<Rightarrow> bool" where
  "zc_hashtable_str_equal key1 key2 \<longleftrightarrow> strcmp key1 key2 = 0"

end
