(* ===== verification/ZcHashFacts.thy ===== *)
theory ZcHashFacts
  imports ZcHashTable
begin

text \<open>
  The chains of the table as lists of addresses: \<open>dl\<close> relates a pointer to the addresses on its path
  and checks the back pointers. Every operation is described by what it does to these lists; the
  entries themselves are compared up to their pointers (\<open>same_data\<close>).
\<close>

section \<open>Doubly linked lists\<close>

type_synonym ('k, 'v) zc_heap = "nat \<rightharpoonup> ('k, 'v) zc_entry"

fun dl :: "('k, 'v) zc_heap \<Rightarrow> nat option \<Rightarrow> nat option \<Rightarrow> nat list \<Rightarrow> bool" where
  "dl h pv p [] \<longleftrightarrow> p = None"
| "dl h pv p (a # xs) \<longleftrightarrow> p = Some a \<and> (\<exists>e. h a = Some e \<and> e_prev e = pv \<and> dl h (Some a) (e_next e) xs)"

text \<open>The same without the back pointers.\<close>

fun nl :: "('k, 'v) zc_heap \<Rightarrow> nat option \<Rightarrow> nat list \<Rightarrow> bool" where
  "nl h p [] \<longleftrightarrow> p = None"
| "nl h p (a # xs) \<longleftrightarrow> p = Some a \<and> (\<exists>e. h a = Some e \<and> nl h (e_next e) xs)"

lemma dl_nl: "dl h pv p xs \<Longrightarrow> nl h p xs"
  by (induction xs arbitrary: pv p) auto

lemma dl_frame: "(\<And>x. x \<in> set xs \<Longrightarrow> h' x = h x) \<Longrightarrow> dl h' pv p xs = dl h pv p xs"
  by (induction xs arbitrary: pv p) auto

lemma nl_frame: "(\<And>x. x \<in> set xs \<Longrightarrow> h' x = h x) \<Longrightarrow> nl h' p xs = nl h p xs"
  by (induction xs arbitrary: p) auto

lemma nl_unique: "nl h p xs \<Longrightarrow> nl h p ys \<Longrightarrow> xs = ys"
proof (induction xs arbitrary: p ys)
  case Nil
  then show ?case by (cases ys) auto
next
  case (Cons a xs)
  then obtain ys' where "ys = a # ys'" by (cases ys) auto
  then show ?case using Cons by auto
qed

lemma nl_append: "nl h p (xs @ ys) \<Longrightarrow> \<exists>q. nl h q ys"
  by (induction xs arbitrary: p) auto

lemma nl_head: "nl h p (a # xs) \<Longrightarrow> nl h (Some a) (a # xs)"
  by auto

lemma nl_distinct: "nl h p xs \<Longrightarrow> distinct xs"
proof (induction xs arbitrary: p)
  case (Cons a xs)
  then obtain e where e: "h a = Some e" "nl h (e_next e) xs" by auto
  have "a \<notin> set xs"
  proof
    assume "a \<in> set xs"
    then obtain us vs where xs: "xs = us @ a # vs" by (meson split_list)
    then obtain q where "nl h q (a # vs)" using nl_append e(2) by blast
    then have "nl h (Some a) (a # vs)" by (rule nl_head)
    moreover have "nl h (Some a) (a # xs)" using e by simp
    ultimately have "xs = vs" using nl_unique by blast
    then show False using xs by (metis length_append length_Cons add_Suc_right not_add_less2 lessI)
  qed
  then show ?case using Cons.IH e(2) by simp
qed simp

lemma nl_live: "nl h p xs \<Longrightarrow> a \<in> set xs \<Longrightarrow> h a \<noteq> None"
  by (induction xs arbitrary: p) auto

text \<open>Changes inside a list: the back pointer of the head, the data of an entry.\<close>

lemma dl_head:
  "dl h pv p (a # xs) \<Longrightarrow> h a = Some e \<Longrightarrow> dl (h(a \<mapsto> e\<lparr>e_prev := pv'\<rparr>)) pv' p (a # xs)"
proof -
  assume d: "dl h pv p (a # xs)" "h a = Some e"
  then have "a \<notin> set xs" using nl_distinct [OF dl_nl [OF d(1)]] by simp
  then have "dl (h(a \<mapsto> e\<lparr>e_prev := pv'\<rparr>)) (Some a) (e_next e) xs = dl h (Some a) (e_next e) xs"
    by (intro dl_frame) auto
  then show ?thesis using d by auto
qed

lemma dl_data:
  assumes "h a = Some e" and "e_prev e' = e_prev e" and "e_next e' = e_next e"
  shows "dl (h(a \<mapsto> e')) pv p xs = dl h pv p xs"
  using assms by (induction xs arbitrary: pv p) auto

section \<open>Data of the entries\<close>

definition data_of :: "('k, 'v) zc_entry \<Rightarrow> u32 \<times> 'k \<times> 'v" where
  "data_of e = (hash_key e, e_key e, e_value e)"

definition same_data :: "('k, 'v) zc_heap \<Rightarrow> ('k, 'v) zc_heap \<Rightarrow> bool" where
  "same_data h h' \<longleftrightarrow> (\<forall>a. map_option data_of (h' a) = map_option data_of (h a))"

lemma same_data_refl [simp]: "same_data h h"
  by (simp add: same_data_def)

lemma same_data_trans: "same_data h h' \<Longrightarrow> same_data h' h'' \<Longrightarrow> same_data h h''"
  by (simp add: same_data_def)

lemma same_data_upd: "h a = Some e \<Longrightarrow> data_of e' = data_of e \<Longrightarrow> same_data h (h(a \<mapsto> e'))"
  by (simp add: same_data_def)

lemma same_data_dom: "same_data h h' \<Longrightarrow> dom h' = dom h"
  unfolding same_data_def dom_def by (metis option.map_disc_iff)

lemma same_dataD: "same_data h h' \<Longrightarrow> h a = Some e \<Longrightarrow> \<exists>e'. h' a = Some e' \<and> data_of e' = data_of e"
  unfolding same_data_def by (metis map_option_eq_Some option.map(2))

lemma same_data_orig: "same_data h h' \<Longrightarrow> h' a = Some e \<Longrightarrow> \<exists>e'. h a = Some e' \<and> data_of e' = data_of e"
  using same_dataD [of h' h a e] by (simp add: same_data_def)

section \<open>Arrays of chains\<close>

definition chain_tab :: "('k, 'v) zc_heap \<Rightarrow> nat \<Rightarrow> nat option list \<Rightarrow> (nat \<Rightarrow> nat list) \<Rightarrow> bool" where
  "chain_tab h n tb cs \<longleftrightarrow> length tb = n \<and> (\<forall>i < n. dl h None (tb ! i) (cs i)) \<and>
     (\<forall>i < n. \<forall>a \<in> set (cs i). \<exists>e. h a = Some e \<and> unat (hash_key e) mod n = i)"

definition members :: "nat \<Rightarrow> (nat \<Rightarrow> nat list) \<Rightarrow> nat set" where
  "members n cs = (\<Union>i < n. set (cs i))"

lemma chains_disjoint:
  "chain_tab h n tb cs \<Longrightarrow> i < n \<Longrightarrow> j < n \<Longrightarrow> a \<in> set (cs i) \<Longrightarrow> a \<in> set (cs j) \<Longrightarrow> i = j"
  unfolding chain_tab_def by (metis option.inject)

lemma chains_distinct: "chain_tab h n tb cs \<Longrightarrow> i < n \<Longrightarrow> distinct (cs i)"
  using nl_distinct dl_nl unfolding chain_tab_def by blast

lemma chains_live: "chain_tab h n tb cs \<Longrightarrow> members n cs \<subseteq> dom h"
  unfolding chain_tab_def members_def by fastforce

lemma membersI: "a \<in> set (cs i) \<Longrightarrow> i < n \<Longrightarrow> a \<in> members n cs"
  by (auto simp: members_def)

lemma finite_members [simp]: "finite (members n cs)"
  by (simp add: members_def)

lemma chains_empty: "chain_tab h n (replicate n None) (\<lambda>_. [])"
  by (simp add: chain_tab_def)

lemma chains_frame: "chain_tab h n tb cs \<Longrightarrow> (\<And>x. x \<in> members n cs \<Longrightarrow> h' x = h x) \<Longrightarrow> chain_tab h' n tb cs"
proof -
  assume c: "chain_tab h n tb cs" and f: "\<And>x. x \<in> members n cs \<Longrightarrow> h' x = h x"
  have "dl h' None (tb ! i) (cs i) = dl h None (tb ! i) (cs i)" if "i < n" for i
    by (rule dl_frame) (use f membersI that in blast)
  moreover have "h' a = h a" if "i < n" "a \<in> set (cs i)" for i a
    using f membersI that by blast
  ultimately show ?thesis using c unfolding chain_tab_def by simp
qed

lemma members_push: "i < n \<Longrightarrow> members n (cs(i := a # cs i)) = insert a (members n cs)"
  by (auto simp: members_def split: if_splits)

text \<open>A new head of a chain.\<close>

lemma push_entry_ok:
  assumes c: "chain_tab (zc_store t) n tb cs" and a: "a \<notin> members n cs" "zc_store t a = Some e" "e_prev e = None" "e_next e = None"
    and i: "i = unat (hash_key e) mod n" "0 < n"
  obtains tb' h' where "push_entry a i tb t = Some (tb', t\<lparr>zc_store := h'\<rparr>)" and "chain_tab h' n tb' (cs(i := a # cs i))"
    and "same_data (zc_store t) h'" and "\<And>x. x \<notin> insert a (members n cs) \<Longrightarrow> h' x = zc_store t x"
proof -
  let ?h = "zc_store t"
  have lt: "i < n" "length tb = n" using i c by (simp_all add: chain_tab_def)
  have na: "a \<notin> set (cs j)" if "j < n" for j using a(1) that by (auto simp: members_def)
  have dls: "dl ?h None (tb ! i) (cs i)" using c lt by (simp add: chain_tab_def)
  show thesis
  proof (cases "tb ! i")
    case None
    then have "cs i = []" using dls by (cases "cs i") auto
    moreover have "push_entry a i tb t = Some (tb[i := Some a], t\<lparr>zc_store := ?h\<rparr>)"
      using lt None by (simp add: push_entry_def tab_get_def tab_set_def)
    moreover have "chain_tab ?h n (tb[i := Some a]) (cs(i := a # cs i))"
      using c a(2-4) i lt \<open>cs i = []\<close> by (auto simp: chain_tab_def nth_list_update)
    ultimately show thesis by (intro that) simp_all
  next
    case (Some q)
    then obtain xs where xs: "cs i = q # xs" using dls by (cases "cs i") auto
    obtain d where d: "?h q = Some d" using dls xs by auto
    have qa: "q \<noteq> a" using na [OF lt(1)] xs by auto
    define h' where "h' = ?h(q \<mapsto> d\<lparr>e_prev := Some a\<rparr>, a \<mapsto> e\<lparr>e_next := Some q\<rparr>)"
    have ev: "push_entry a i tb t = Some (tb[i := Some a], t\<lparr>zc_store := h'\<rparr>)"
      using lt Some d a(2) qa by (simp add: push_entry_def tab_get_def tab_set_def zc_deref_def put_entry_def h'_def)
    have q: "q \<in> members n cs" using xs lt(1) by (intro membersI [of _ _ i]) simp_all
    have "chain_tab h' n (tb[i := Some a]) (cs(i := a # cs i))"
      unfolding chain_tab_def
    proof (intro conjI allI impI ballI)
      show "length (tb[i := Some a]) = n" using lt by simp
      fix j assume j: "j < n"
      show "dl h' None (tb[i := Some a] ! j) ((cs(i := a # cs i)) j)"
      proof (cases "j = i")
        case True
        have "dl (?h(q \<mapsto> d\<lparr>e_prev := Some a\<rparr>)) (Some a) (tb ! i) (cs i)"
          unfolding xs by (rule dl_head) (use dls xs d in simp_all)
        then have "dl h' (Some a) (tb ! i) (cs i)"
          unfolding h'_def by (subst dl_frame [where h = "?h(q \<mapsto> d\<lparr>e_prev := Some a\<rparr>)"]) (use na [OF lt(1)] in auto)
        then show ?thesis using True lt Some a(3) by (simp add: h'_def)
      next
        case False
        have "q \<notin> set (cs j)" using chains_disjoint [OF c j lt(1), of q] False xs by auto
        then have "dl h' None (tb ! j) (cs j) = dl ?h None (tb ! j) (cs j)"
          by (intro dl_frame) (use na [OF j] in \<open>auto simp: h'_def\<close>)
        then show ?thesis using False c j by (simp add: chain_tab_def)
      qed
      fix x assume "x \<in> set ((cs(i := a # cs i)) j)"
      then have "x = a \<and> j = i \<or> x \<in> set (cs j)" by (auto split: if_splits)
      then show "\<exists>e. h' x = Some e \<and> unat (hash_key e) mod n = j"
        using c j a(2) i d unfolding chain_tab_def h'_def by fastforce
    qed
    moreover have "same_data ?h h'"
      unfolding h'_def
      by (rule same_data_trans [OF same_data_upd [of ?h q d "d\<lparr>e_prev := Some a\<rparr>"] same_data_upd])
        (use d a(2) qa in \<open>simp_all add: data_of_def\<close>)
    moreover have "h' x = ?h x" if "x \<notin> insert a (members n cs)" for x using that q by (auto simp: h'_def)
    ultimately show thesis using ev by (intro that)
  qed
qed

section \<open>Rehashing\<close>

lemma rehash_chain_ok:
  assumes "nl (zc_store t) p xs" and "chain_tab (zc_store t) ns tb cs" and "set xs \<inter> members ns cs = {}" and "0 < ns"
  shows "\<exists>tb' h' cs'. rehash_chain ns p tb t = Some (tb', t\<lparr>zc_store := h'\<rparr>) \<and> chain_tab h' ns tb' cs' \<and>
    members ns cs' = members ns cs \<union> set xs \<and> same_data (zc_store t) h' \<and>
    (\<forall>x. x \<notin> members ns cs \<union> set xs \<longrightarrow> h' x = zc_store t x)"
  using assms(1-3)
proof (induction xs arbitrary: p tb t cs)
  case Nil
  then show ?case by (subst rehash_chain.simps) (auto intro!: exI [of _ "zc_store t"])
next
  case (Cons a xs)
  let ?h = "zc_store t"
  obtain e where e: "p = Some a" "?h a = Some e" "nl ?h (e_next e) xs" using Cons.prems(1) by auto
  let ?e = "e\<lparr>e_next := None, e_prev := None\<rparr>"
  let ?t = "t\<lparr>zc_store := ?h(a \<mapsto> ?e)\<rparr>"
  let ?i = "unat (hash_key e) mod ns"
  define cs1 where "cs1 = cs(?i := a # cs ?i)"
  have na: "a \<notin> members ns cs" "a \<notin> set xs" using Cons.prems(3) nl_distinct [OF Cons.prems(1)] by auto
  have i: "?i < ns" using assms(4) by simp
  have c: "chain_tab (zc_store ?t) ns tb cs" by (rule chains_frame [OF Cons.prems(2)]) (use na in auto)
  obtain tb1 h1 where p: "push_entry a ?i tb ?t = Some (tb1, ?t\<lparr>zc_store := h1\<rparr>)"
    and h1: "chain_tab h1 ns tb1 cs1" "same_data (zc_store ?t) h1"
      "\<And>x. x \<notin> insert a (members ns cs) \<Longrightarrow> h1 x = zc_store ?t x"
    unfolding cs1_def by (rule push_entry_ok [OF c na(1), of ?e ?i]) (use assms(4) in simp_all)
  let ?t1 = "t\<lparr>zc_store := h1\<rparr>"
  have m: "members ns cs1 = insert a (members ns cs)" unfolding cs1_def by (rule members_push [OF i])
  have "nl h1 (e_next e) xs = nl ?h (e_next e) xs"
  proof (rule nl_frame)
    fix x assume x: "x \<in> set xs"
    then have "x \<noteq> a" "x \<notin> members ns cs" using na(2) Cons.prems(3) by auto
    then show "h1 x = ?h x" using h1(3) [of x] by simp
  qed
  then have "nl (zc_store ?t1) (e_next e) xs" using e(3) by simp
  moreover have "chain_tab (zc_store ?t1) ns tb1 cs1" using h1(1) by simp
  moreover have "set xs \<inter> members ns cs1 = {}" using Cons.prems(3) na by (auto simp: m)
  ultimately obtain tb' h' cs' where r: "rehash_chain ns (e_next e) tb1 ?t1 = Some (tb', ?t1\<lparr>zc_store := h'\<rparr>)"
    "chain_tab h' ns tb' cs'" "members ns cs' = insert a (members ns cs) \<union> set xs" "same_data h1 h'"
    "\<forall>x. x \<notin> insert a (members ns cs) \<union> set xs \<longrightarrow> h' x = h1 x"
    using Cons.IH [of ?t1 "e_next e" tb1 cs1] unfolding m by auto
  have "rehash_chain ns p tb t = Some (tb', t\<lparr>zc_store := h'\<rparr>)"
    using e p r(1) assms(4)
    by (subst rehash_chain.simps) (simp add: zc_deref_def put_entry_def)
  moreover have sd: "same_data ?h (zc_store ?t)"
    using same_data_upd [of ?h a e ?e] e(2) by (simp add: data_of_def)
  moreover have "same_data ?h h'"
    using same_data_trans [OF same_data_trans [OF sd] r(4)] h1(2) by simp
  moreover have "\<forall>x. x \<notin> members ns cs \<union> set (a # xs) \<longrightarrow> h' x = ?h x" using r(5) h1(3) by auto
  ultimately show ?case using r(2,3) by auto
qed

lemma rehash_chains_ok:
  assumes "\<forall>j \<in> {i..<i + n}. nl (zc_store t) (zc_tab t ! j) (old j)" and "i + n \<le> length (zc_tab t)"
    and "\<forall>j \<in> {i..<i + n}. \<forall>k \<in> {i..<i + n}. j \<noteq> k \<longrightarrow> set (old j) \<inter> set (old k) = {}"
    and "chain_tab (zc_store t) ns tb cs" and "\<forall>j \<in> {i..<i + n}. set (old j) \<inter> members ns cs = {}" and "0 < ns"
  shows "\<exists>tb' h' cs'. rehash_chains ns i n tb t = Some (tb', t\<lparr>zc_store := h'\<rparr>) \<and> chain_tab h' ns tb' cs' \<and>
    members ns cs' = members ns cs \<union> (\<Union>j \<in> {i..<i + n}. set (old j)) \<and> same_data (zc_store t) h'"
  using assms(1-5)
proof (induction n arbitrary: i tb t cs)
  case 0
  then show ?case by (auto intro!: exI [of _ "zc_store t"])
next
  case (Suc n)
  have i: "i \<in> {i..<i + Suc n}" by simp
  obtain tb1 h1 cs1 where r: "rehash_chain ns (zc_tab t ! i) tb t = Some (tb1, t\<lparr>zc_store := h1\<rparr>)" "chain_tab h1 ns tb1 cs1"
    "members ns cs1 = members ns cs \<union> set (old i)" "same_data (zc_store t) h1"
    "\<forall>x. x \<notin> members ns cs \<union> set (old i) \<longrightarrow> h1 x = zc_store t x"
    using rehash_chain_ok [of t "zc_tab t ! i" "old i" ns tb cs] Suc.prems(1,4,5) i assms(6) by blast
  let ?t = "t\<lparr>zc_store := h1\<rparr>"
  have "nl (zc_store ?t) (zc_tab ?t ! j) (old j)" if j: "j \<in> {Suc i..<Suc i + n}" for j
  proof -
    have "nl h1 (zc_tab t ! j) (old j) = nl (zc_store t) (zc_tab t ! j) (old j)"
    proof (rule nl_frame)
      fix x assume x: "x \<in> set (old j)"
      have j': "j \<in> {i..<i + Suc n}" "j \<noteq> i" using j by auto
      then have "x \<notin> members ns cs" "x \<notin> set (old i)" using x Suc.prems(3,5) i by blast+
      then show "h1 x = zc_store t x" using r(5) by simp
    qed
    then show ?thesis using Suc.prems(1) j by simp
  qed
  moreover have "Suc i + n \<le> length (zc_tab ?t)" using Suc.prems(2) by simp
  moreover have "\<forall>j \<in> {Suc i..<Suc i + n}. \<forall>k \<in> {Suc i..<Suc i + n}. j \<noteq> k \<longrightarrow> set (old j) \<inter> set (old k) = {}"
    using Suc.prems(3) by simp
  moreover have "chain_tab (zc_store ?t) ns tb1 cs1" using r(2) by simp
  moreover have "set (old j) \<inter> members ns cs1 = {}" if j: "j \<in> {Suc i..<Suc i + n}" for j
  proof -
    have "j \<in> {i..<i + Suc n}" "j \<noteq> i" using j by auto
    then have "set (old j) \<inter> set (old i) = {}" "set (old j) \<inter> members ns cs = {}" using Suc.prems(3,5) i by blast+
    then show ?thesis using r(3) by blast
  qed
  ultimately obtain tb' h' cs' where s: "rehash_chains ns (Suc i) n tb1 ?t = Some (tb', ?t\<lparr>zc_store := h'\<rparr>)"
    "chain_tab h' ns tb' cs'" "members ns cs' = members ns cs1 \<union> (\<Union>j \<in> {Suc i..<Suc i + n}. set (old j))"
    "same_data (zc_store ?t) h'"
    using Suc.IH [of "Suc i" ?t tb1 cs1] by blast
  have "{i..<i + Suc n} = insert i {Suc i..<Suc i + n}" by auto
  then have "members ns cs' = members ns cs \<union> (\<Union>j \<in> {i..<i + Suc n}. set (old j))" using s(3) r(3) by auto
  moreover have "rehash_chains ns i (Suc n) tb t = Some (tb', t\<lparr>zc_store := h'\<rparr>)"
    using r(1) s(1) Suc.prems(2) by (simp add: tab_get_def)
  moreover have "same_data (zc_store t) h'" using same_data_trans [OF r(4)] s(4) by simp
  ultimately show ?case using s(2) by blast
qed

section \<open>The invariant\<close>

definition zc_inv :: "('k, 'v) zc_hashtable \<Rightarrow> (nat \<Rightarrow> nat list) \<Rightarrow> bool" where
  "zc_inv t cs \<longleftrightarrow> 0 < tab_size t \<and> chain_tab (zc_store t) (tab_size t) (zc_tab t) cs \<and>
     dom (zc_store t) = members (tab_size t) cs \<and> nelem t = card (dom (zc_store t)) \<and>
     (\<forall>a e. zc_store t a = Some e \<longrightarrow> hash_key e = hash_fn t (e_key e)) \<and>
     (\<forall>a b ea eb. zc_store t a = Some ea \<longrightarrow> zc_store t b = Some eb \<longrightarrow> equal_fn t (e_key ea) (e_key eb) \<longrightarrow> a = b)"

text \<open>What operations leave alone.\<close>

definition same_setup :: "('k, 'v) zc_hashtable \<Rightarrow> ('k, 'v) zc_hashtable \<Rightarrow> bool" where
  "same_setup t t' \<longleftrightarrow> hash_fn t' = hash_fn t \<and> equal_fn t' = equal_fn t \<and> key_del t' = key_del t \<and> value_del t' = value_del t"

lemma zc_new_inv:
  assumes "0 < n"
  shows "\<exists>t. zc_hashtable_new n hash equal kd vd True True = Some t \<and> zc_inv t (\<lambda>_. []) \<and> zc_store t = Map.empty \<and>
    hash_fn t = hash \<and> equal_fn t = equal \<and> value_del t = vd \<and> key_del t = kd \<and> values_freed t = [] \<and> keys_freed t = []"
  using assms chains_empty by (simp add: zc_hashtable_new_def zc_inv_def members_def chain_tab_def)

lemma rehash_ok:
  assumes inv: "zc_inv t cs"
  shows "\<exists>t' cs'. zc_hashtable_rehash True t = Some (0, t') \<and> zc_inv t' cs' \<and> same_data (zc_store t) (zc_store t') \<and>
    same_setup t t' \<and> values_freed t' = values_freed t \<and> keys_freed t' = keys_freed t"
proof -
  let ?n = "tab_size t"
  let ?tb = "replicate (2 * ?n) None"
  note i = inv [unfolded zc_inv_def]
  have c: "chain_tab (zc_store t) ?n (zc_tab t) cs" using i by simp
  have "dl (zc_store t) None (zc_tab t ! j) (cs j)" if "j < ?n" for j using c that by (simp add: chain_tab_def)
  then have "\<forall>j \<in> {0..<0 + ?n}. nl (zc_store t) (zc_tab t ! j) (cs j)" using dl_nl by fastforce
  moreover have "0 + ?n \<le> length (zc_tab t)" using c by (simp add: chain_tab_def)
  moreover have "\<forall>j \<in> {0..<0 + ?n}. \<forall>k \<in> {0..<0 + ?n}. j \<noteq> k \<longrightarrow> set (cs j) \<inter> set (cs k) = {}"
    using chains_disjoint [OF c] by auto
  moreover have "chain_tab (zc_store t) (2 * ?n) ?tb (\<lambda>_. [])" by (rule chains_empty)
  moreover have "\<forall>j \<in> {0..<0 + ?n}. set (cs j) \<inter> members (2 * ?n) (\<lambda>_. []) = {}" by (simp add: members_def)
  moreover have "0 < 2 * ?n" using i by simp
  ultimately obtain tb' h' cs' where r: "rehash_chains (2 * ?n) 0 ?n ?tb t = Some (tb', t\<lparr>zc_store := h'\<rparr>)"
    "chain_tab h' (2 * ?n) tb' cs'" "members (2 * ?n) cs' = members (2 * ?n) (\<lambda>_. []) \<union> (\<Union>j \<in> {0..<0 + ?n}. set (cs j))"
    "same_data (zc_store t) h'"
    using rehash_chains_ok [of 0 ?n t cs "2 * ?n" ?tb "\<lambda>_. []"] by blast
  let ?t = "t\<lparr>zc_store := h', zc_tab := tb', tab_size := 2 * ?n\<rparr>"
  have m: "members (2 * ?n) cs' = dom (zc_store t)" using r(3) i by (auto simp: members_def)
  have d: "dom h' = dom (zc_store t)" by (rule same_data_dom [OF r(4)])
  note orig = same_data_orig [OF r(4)]
  have k: "hash_key e = hash_fn t (e_key e)" if "h' a = Some e" for a e
    using orig [OF that] i by (auto simp: data_of_def)
  have u: "a = b" if "h' a = Some ea" "h' b = Some eb" "equal_fn t (e_key ea) (e_key eb)" for a b ea eb
    using orig [OF that(1)] orig [OF that(2)] that(3) i by (auto simp: data_of_def)
  have "zc_inv ?t cs'" using i r(2) m d k u unfolding zc_inv_def by simp
  moreover have "zc_hashtable_rehash True t = Some (0, ?t)" using r(1) by (simp add: zc_hashtable_rehash_def)
  ultimately show ?thesis using r(4) by (auto simp: same_setup_def intro!: exI [of _ ?t])
qed

section \<open>Searching\<close>

lemma find_entry_eq:
  "nl (zc_store t) p xs \<Longrightarrow> find_entry t k p = Some (List.find (\<lambda>a. equal_fn t k (e_key (the (zc_store t a)))) xs)"
proof (induction xs arbitrary: p)
  case Nil
  then show ?case by (subst find_entry.simps) simp
next
  case (Cons a xs)
  then obtain e where "p = Some a" "zc_store t a = Some e" "nl (zc_store t) (e_next e) xs" by auto
  then show ?case using Cons.IH by (subst find_entry.simps) (simp add: zc_deref_def)
qed

section \<open>Unlinking\<close>

lemma dl_prev:
  "dl h pv p (us @ b # a # vs) \<Longrightarrow> \<exists>d e. h b = Some d \<and> e_next d = Some a \<and> h a = Some e \<and> e_prev e = Some b \<and> dl h (Some a) (e_next e) vs"
  by (induction us arbitrary: pv p) auto

text \<open>The successor of an entry gets another back pointer.\<close>

definition set_prev :: "('k, 'v) zc_heap \<Rightarrow> nat option \<Rightarrow> nat option \<Rightarrow> ('k, 'v) zc_heap" where
  "set_prev h p pv = (case p of None \<Rightarrow> h | Some q \<Rightarrow> h(q \<mapsto> (the (h q))\<lparr>e_prev := pv\<rparr>))"

lemma set_prev_dl: "dl h pv p xs \<Longrightarrow> dl (set_prev h p pv') pv' p xs"
  using dl_head [of h pv p] by (cases xs) (auto simp: set_prev_def)

lemma set_prev_same: "dl h pv p xs \<Longrightarrow> same_data h (set_prev h p pv')"
  by (cases xs) (auto simp: set_prev_def intro!: same_data_upd simp: data_of_def)

lemma set_prev_other: "dl h pv p xs \<Longrightarrow> x \<notin> set xs \<Longrightarrow> set_prev h p pv' x = h x"
  by (cases xs) (auto simp: set_prev_def)

lemma unlink_mid:
  assumes "dl h pv p (us @ b # a # vs)" and "h a = Some e"
  defines "h1 \<equiv> set_prev h (e_next e) (Some b)"
  shows "dl (h1(b \<mapsto> (the (h1 b))\<lparr>e_next := e_next e\<rparr>)) pv p (us @ b # vs)"
  using assms(1)
proof (induction us arbitrary: pv p)
  case Nil
  then obtain d where d: "p = Some b" "h b = Some d" "e_prev d = pv" and v: "dl h (Some a) (e_next e) vs"
    using assms(2) by auto
  have b: "b \<notin> set vs" using nl_distinct [OF dl_nl [OF Nil]] by simp
  have "dl h1 (Some b) (e_next e) vs" unfolding h1_def by (rule set_prev_dl [OF v])
  then have "dl (h1(b \<mapsto> (the (h1 b))\<lparr>e_next := e_next e\<rparr>)) (Some b) (e_next e) vs"
    by (subst dl_frame [where h = h1]) (use b in auto)
  moreover have "h1 b = Some d" unfolding h1_def using set_prev_other [OF v b] d(2) by simp
  ultimately show ?case using d by (simp del: fun_upd_apply add: fun_upd_same)
next
  case (Cons u us)
  then obtain d where d: "p = Some u" "h u = Some d" "e_prev d = pv" "dl h (Some u) (e_next d) (us @ b # a # vs)" by auto
  have dist: "u \<noteq> b" "u \<notin> set vs" using nl_distinct [OF dl_nl [OF Cons.prems]] by auto
  have "dl h (Some a) (e_next e) vs" using dl_prev [OF d(4)] assms(2) by auto
  then have "h1 u = h u" unfolding h1_def using dist(2) by (rule set_prev_other)
  then show ?case using d dist(1) Cons.IH [OF d(4)] by simp
qed

lemma unlink_ok:
  assumes c: "chain_tab (zc_store t) (tab_size t) (zc_tab t) cs" and i: "i < tab_size t" "cs i = us @ a # vs"
    and e: "zc_store t a = Some e" "unat (hash_key e) mod tab_size t = i"
  obtains h' tb' where "unlink_entry a t = Some (t\<lparr>zc_store := h', zc_tab := tb'\<rparr>)"
    and "chain_tab (h'(a := None)) (tab_size t) tb' (cs(i := us @ vs))" and "same_data (zc_store t) h'"
proof -
  let ?h = "zc_store t" and ?n = "tab_size t"
  have "dl ?h None (zc_tab t ! i) (cs i)" and lt: "length (zc_tab t) = ?n" using c i(1) by (simp_all add: chain_tab_def)
  then have dli: "dl ?h None (zc_tab t ! i) (us @ a # vs)" by (simp only: i(2))
  have dist: "distinct (us @ a # vs)" by (rule nl_distinct [OF dl_nl [OF dli]])
  have sub: "set (us @ a # vs) \<subseteq> members ?n cs" using i membersI [of _ cs i ?n] by auto
  have v: "dl ?h (Some a) (e_next e) vs"
    using dli e(1) dl_prev [of ?h None "zc_tab t ! i"] by (cases us rule: rev_cases) (auto, force)
  have pd: "e_prev e = (if us = [] then None else Some (last us))"
    using dli e(1) dl_prev [of ?h None "zc_tab t ! i" "butlast us" "last us" a vs]
    by (cases us rule: rev_cases) auto
  define pv where "pv = e_prev e"
  define h1 where "h1 = set_prev ?h (e_next e) pv"
  have s1: "same_data ?h h1" unfolding h1_def by (rule set_prev_same [OF v])
  have o1: "h1 x = ?h x" if "x \<notin> set vs" for x unfolding h1_def by (rule set_prev_other [OF v that])
  have step1: "(case e_next e of None \<Rightarrow> Some t | Some q \<Rightarrow> do { d \<leftarrow> zc_deref t q; put_entry q (d\<lparr>e_prev := e_prev e\<rparr>) t }) =
      Some (t\<lparr>zc_store := h1\<rparr>)"
    using v by (cases vs) (auto simp: h1_def set_prev_def zc_deref_def put_entry_def pv_def)
  have step2: "\<exists>h2 tb'. (case e_prev e of
       Some q \<Rightarrow> do { d \<leftarrow> zc_deref (t\<lparr>zc_store := h1\<rparr>) q; put_entry q (d\<lparr>e_next := e_next e\<rparr>) (t\<lparr>zc_store := h1\<rparr>) }
     | None \<Rightarrow> do {
         i \<leftarrow> bucket (t\<lparr>zc_store := h1\<rparr>) (hash_key e);
         tb \<leftarrow> tab_set (zc_tab (t\<lparr>zc_store := h1\<rparr>)) i (e_next e);
         Some (t\<lparr>zc_store := h1, zc_tab := tb\<rparr>) }) = Some (t\<lparr>zc_store := h2, zc_tab := tb'\<rparr>) \<and>
     dl h2 None (tb' ! i) (us @ vs) \<and> same_data h1 h2 \<and> (\<forall>x. x \<notin> set us \<longrightarrow> h2 x = h1 x) \<and>
     length tb' = ?n \<and> (\<forall>j. j \<noteq> i \<longrightarrow> tb' ! j = zc_tab t ! j)"
  proof (cases us rule: rev_cases)
    case Nil
    have "dl h1 None (e_next e) vs" unfolding h1_def using set_prev_dl [OF v] pd Nil by (simp add: pv_def)
    then show ?thesis using Nil pd i(1) e(2) lt
      by (intro exI [of _ h1] exI [of _ "(zc_tab t)[i := e_next e]"]) (simp add: bucket_def tab_set_def)
  next
    case (snoc us' b)
    have b: "b \<notin> set vs" "pv = Some b" using dist snoc pd by (auto simp: pv_def)
    obtain d where d: "?h b = Some d" using dli dl_prev [of ?h None "zc_tab t ! i" us' b a vs] snoc by auto
    have h1b: "h1 b = Some d" using o1 [OF b(1)] d by simp
    let ?h2 = "h1(b \<mapsto> d\<lparr>e_next := e_next e\<rparr>)"
    have "dl ?h2 None (zc_tab t ! i) (us' @ b # vs)"
      using unlink_mid [of ?h None "zc_tab t ! i" us' b a vs e] dli e(1) snoc h1b b(2) by (simp add: h1_def)
    moreover have "same_data h1 ?h2" by (rule same_data_upd [of h1 b d]) (use h1b in \<open>simp_all add: data_of_def\<close>)
    ultimately show ?thesis using snoc b(2) h1b lt
      by (intro exI [of _ ?h2] exI [of _ "zc_tab t"]) (simp add: zc_deref_def put_entry_def pv_def)
  qed
  then obtain h2 tb' where s2: "unlink_entry a t = Some (t\<lparr>zc_store := h2, zc_tab := tb'\<rparr>)" "dl h2 None (tb' ! i) (us @ vs)"
    "same_data h1 h2" "\<forall>x. x \<notin> set us \<longrightarrow> h2 x = h1 x" "length tb' = ?n" "\<forall>j. j \<noteq> i \<longrightarrow> tb' ! j = zc_tab t ! j"
    using e(1) step1 by (auto simp: unlink_entry_def zc_deref_def)
  have sd: "same_data ?h h2" by (rule same_data_trans [OF s1 s2(3)])
  have out: "h2 x = ?h x" if "x \<notin> set (us @ a # vs)" for x using s2(4) o1 that by auto
  have "chain_tab (h2(a := None)) ?n tb' (cs(i := us @ vs))"
    unfolding chain_tab_def
  proof (intro conjI allI impI ballI)
    show "length tb' = ?n" by (rule s2(5))
    fix j assume j: "j < ?n"
    show "dl (h2(a := None)) None (tb' ! j) ((cs(i := us @ vs)) j)"
    proof (cases "j = i")
      case True
      have "dl (h2(a := None)) None (tb' ! i) (us @ vs) = dl h2 None (tb' ! i) (us @ vs)"
        by (rule dl_frame) (use dist in auto)
      then show ?thesis using s2(2) True by simp
    next
      case False
      have no: "x \<notin> set (us @ a # vs)" if "x \<in> set (cs j)" for x
        using chains_disjoint [OF c j i(1) that] False i(2) by auto
      have "dl (h2(a := None)) None (zc_tab t ! j) (cs j) = dl ?h None (zc_tab t ! j) (cs j)"
        by (rule dl_frame) (use no out in auto)
      then show ?thesis using False s2(6) c j by (simp add: chain_tab_def)
    qed
    fix x assume x: "x \<in> set ((cs(i := us @ vs)) j)"
    then have "x \<in> set (cs j)" "x \<noteq> a"
      using i(2) dist chains_disjoint [OF c j i(1)] by (auto split: if_splits)
    then obtain d where "?h x = Some d" "unat (hash_key d) mod ?n = j" using c j unfolding chain_tab_def by blast
    then show "\<exists>e. (h2(a := None)) x = Some e \<and> unat (hash_key e) mod ?n = j"
      using same_dataD [OF sd] \<open>x \<noteq> a\<close> by (fastforce simp: data_of_def)
  qed
  then show thesis using that [OF s2(1) _ sd] by blast
qed

section \<open>Freeing and walking\<close>

lemma del_kv_fields [simp]:
  "zc_store (del_kv e t) = zc_store t" "zc_tab (del_kv e t) = zc_tab t" "tab_size (del_kv e t) = tab_size t"
  "hash_fn (del_kv e t) = hash_fn t" "equal_fn (del_kv e t) = equal_fn t" "nelem (del_kv e t) = nelem t"
  "key_del (del_kv e t) = key_del t" "value_del (del_kv e t) = value_del t"
  "values_freed (del_kv e t) = values_freed t @ (if value_del t then [e_value e] else [])"
  "keys_freed (del_kv e t) = keys_freed t @ (if key_del t then [e_key e] else [])"
  by (simp_all add: del_kv_def)

lemma del_kv_setup: "same_setup t (del_kv e t)"
  by (simp add: same_setup_def)

definition values_at :: "('k, 'v) zc_heap \<Rightarrow> nat list \<Rightarrow> 'v list" where
  "values_at h xs = map (\<lambda>a. e_value (the (h a))) xs"

lemma values_at_append: "values_at h (xs @ ys) = values_at h xs @ values_at h ys"
  by (simp add: values_at_def)

lemma values_at_frame: "(\<And>x. x \<in> set xs \<Longrightarrow> h' x = h x) \<Longrightarrow> values_at h' xs = values_at h xs"
  by (auto simp: values_at_def)

lemma free_chain_ok:
  "nl (zc_store t) p xs \<Longrightarrow> \<exists>t'. free_chain p t = Some t' \<and> zc_store t' = (\<lambda>x. if x \<in> set xs then None else zc_store t x) \<and>
    zc_tab t' = zc_tab t \<and> tab_size t' = tab_size t \<and> same_setup t t' \<and>
    values_freed t' = values_freed t @ (if value_del t then values_at (zc_store t) xs else [])"
proof (induction xs arbitrary: p t)
  case Nil
  then show ?case by (subst free_chain.simps) (auto simp: same_setup_def values_at_def)
next
  case (Cons a xs)
  obtain e where e: "p = Some a" "zc_store t a = Some e" "nl (zc_store t) (e_next e) xs" using Cons.prems by auto
  have a: "a \<notin> set xs" using nl_distinct [OF Cons.prems] by simp
  let ?t = "(del_kv e t)\<lparr>zc_store := (zc_store t)(a := None)\<rparr>"
  have "nl (zc_store ?t) (e_next e) xs = nl (zc_store t) (e_next e) xs"
    by (rule nl_frame) (use a in auto)
  then have "nl (zc_store ?t) (e_next e) xs" using e(3) by blast
  from Cons.IH [OF this] obtain t' where t': "free_chain (e_next e) ?t = Some t'"
    "zc_store t' = (\<lambda>x. if x \<in> set xs then None else zc_store ?t x)" "zc_tab t' = zc_tab t" "tab_size t' = tab_size t"
    "same_setup ?t t'" "values_freed t' = values_freed ?t @ (if value_del t then values_at (zc_store ?t) xs else [])"
    by auto
  have "values_at (zc_store ?t) xs = values_at (zc_store t) xs" by (rule values_at_frame) (use a in auto)
  then have "values_freed t' = values_freed t @ (if value_del t then values_at (zc_store t) (a # xs) else [])"
    using t'(6) e(2) by (simp add: values_at_def)
  moreover have "zc_store t' = (\<lambda>x. if x \<in> set (a # xs) then None else zc_store t x)" using t'(2) by auto
  moreover have "free_chain p t = Some t'"
    using t'(1) e by (subst free_chain.simps) (simp add: zc_deref_def free_entry_def)
  ultimately show ?case using t'(3-5) by (auto simp: same_setup_def)
qed

lemma free_chains_ok:
  assumes "\<forall>j \<in> {i..<i + n}. nl (zc_store t) (zc_tab t ! j) (cs j)" and "i + n \<le> length (zc_tab t)"
    and "\<forall>j \<in> {i..<i + n}. \<forall>k \<in> {i..<i + n}. j \<noteq> k \<longrightarrow> set (cs j) \<inter> set (cs k) = {}"
  shows "\<exists>t'. free_chains clear i n t = Some t' \<and>
    zc_store t' = (\<lambda>x. if x \<in> (\<Union>j \<in> {i..<i + n}. set (cs j)) then None else zc_store t x) \<and>
    length (zc_tab t') = length (zc_tab t) \<and> (clear \<longrightarrow> (\<forall>j \<in> {i..<i + n}. zc_tab t' ! j = None)) \<and>
    (\<forall>j < i. zc_tab t' ! j = zc_tab t ! j) \<and>
    tab_size t' = tab_size t \<and> same_setup t t' \<and>
    values_freed t' = values_freed t @ (if value_del t then values_at (zc_store t) (concat (map cs [i..<i + n])) else [])"
  using assms
proof (induction n arbitrary: i t)
  case 0
  then show ?case by (auto simp: same_setup_def values_at_def)
next
  case (Suc n)
  have i: "i \<in> {i..<i + Suc n}" "i < length (zc_tab t)" using Suc.prems(2) by simp_all
  have "nl (zc_store t) (zc_tab t ! i) (cs i)" using Suc.prems(1) i by blast
  from free_chain_ok [OF this] obtain t1 where t1: "free_chain (zc_tab t ! i) t = Some t1"
    "zc_store t1 = (\<lambda>x. if x \<in> set (cs i) then None else zc_store t x)" "zc_tab t1 = zc_tab t" "tab_size t1 = tab_size t"
    "same_setup t t1" "values_freed t1 = values_freed t @ (if value_del t then values_at (zc_store t) (cs i) else [])"
    by auto
  define t2 where "t2 = (if clear then t1\<lparr>zc_tab := (zc_tab t)[i := None]\<rparr> else t1)"
  have t2: "zc_store t2 = zc_store t1" "length (zc_tab t2) = length (zc_tab t)" "\<And>j. j \<noteq> i \<Longrightarrow> zc_tab t2 ! j = zc_tab t ! j"
    "clear \<longrightarrow> zc_tab t2 ! i = None" "tab_size t2 = tab_size t" "same_setup t t2" "values_freed t2 = values_freed t1"
    using t1(3-5) i(2) by (auto simp: t2_def same_setup_def)
  have apart: "set (cs j) \<inter> set (cs i) = {}" if "j \<in> {Suc i..<Suc i + n}" for j
  proof -
    have "j \<in> {i..<i + Suc n}" "j \<noteq> i" using that by auto
    then show ?thesis using Suc.prems(3) i(1) by blast
  qed
  have keep: "zc_store t2 x = zc_store t x" if "j \<in> {Suc i..<Suc i + n}" "x \<in> set (cs j)" for j x
  proof -
    have "x \<notin> set (cs i)" using apart [OF that(1)] that(2) by blast
    then show ?thesis using t2(1) t1(2) by simp
  qed
  have "nl (zc_store t2) (zc_tab t2 ! j) (cs j)" if j: "j \<in> {Suc i..<Suc i + n}" for j
  proof -
    have "nl (zc_store t2) (zc_tab t ! j) (cs j) = nl (zc_store t) (zc_tab t ! j) (cs j)"
      by (rule nl_frame) (rule keep [OF j])
    then show ?thesis using Suc.prems(1) j t2(3) [of j] by simp
  qed
  moreover have "Suc i + n \<le> length (zc_tab t2)" using Suc.prems(2) t2(2) by simp
  moreover have "\<forall>j \<in> {Suc i..<Suc i + n}. \<forall>k \<in> {Suc i..<Suc i + n}. j \<noteq> k \<longrightarrow> set (cs j) \<inter> set (cs k) = {}"
    using Suc.prems(3) by simp
  ultimately obtain t' where t': "free_chains clear (Suc i) n t2 = Some t'"
    "zc_store t' = (\<lambda>x. if x \<in> (\<Union>j \<in> {Suc i..<Suc i + n}. set (cs j)) then None else zc_store t2 x)"
    "length (zc_tab t') = length (zc_tab t2)" "clear \<longrightarrow> (\<forall>j \<in> {Suc i..<Suc i + n}. zc_tab t' ! j = None)"
    "\<forall>j < Suc i. zc_tab t' ! j = zc_tab t2 ! j" "tab_size t' = tab_size t2" "same_setup t2 t'"
    "values_freed t' = values_freed t2 @ (if value_del t2 then values_at (zc_store t2) (concat (map cs [Suc i..<Suc i + n])) else [])"
    using Suc.IH [of "Suc i" t2] by blast
  have ran: "{i..<i + Suc n} = insert i {Suc i..<Suc i + n}" "[i..<i + Suc n] = i # [Suc i..<Suc i + n]"
    by (auto simp: upt_conv_Cons)
  have "values_at (zc_store t2) (concat (map cs [Suc i..<Suc i + n])) = values_at (zc_store t) (concat (map cs [Suc i..<Suc i + n]))"
  proof (rule values_at_frame)
    fix x assume "x \<in> set (concat (map cs [Suc i..<Suc i + n]))"
    then obtain j where "j \<in> {Suc i..<Suc i + n}" "x \<in> set (cs j)" by (simp only: set_concat set_map set_upt) blast
    then show "zc_store t2 x = zc_store t x" by (rule keep)
  qed
  then have "values_freed t' = values_freed t @ (if value_del t then values_at (zc_store t) (concat (map cs [i..<i + Suc n])) else [])"
    unfolding ran(2) list.map concat.simps using t'(8) t2(6,7) t1(6) by (simp add: values_at_append same_setup_def del: upt_Suc)
  moreover have "free_chains clear i (Suc n) t = Some t'"
    using t1(1,3) t'(1) i(2) by (simp add: tab_get_def tab_set_def t2_def split: if_splits)
  moreover have "zc_store t' = (\<lambda>x. if x \<in> (\<Union>j \<in> {i..<i + Suc n}. set (cs j)) then None else zc_store t x)"
    unfolding ran(1) using t'(2) t2(1) t1(2) by auto
  moreover have "clear \<longrightarrow> (\<forall>j \<in> {i..<i + Suc n}. zc_tab t' ! j = None)"
    unfolding ran(1) using t'(4,5) t2(4) by auto
  ultimately show ?case using t'(3,5-7) t2(2,3,5,6) by (auto simp: same_setup_def)
qed

text \<open>The walk visits the chains one after the other.\<close>

lemma first_entry_eq:
  assumes "\<forall>j \<in> {i..<i + n}. nl h (tb ! j) (cs j)" and "i + n \<le> length tb"
  shows "first_entry tb i n = Some (case concat (map cs [i..<i + n]) of [] \<Rightarrow> None | a # _ \<Rightarrow> Some a)"
  using assms
proof (induction n arbitrary: i)
  case (Suc n)
  have h: "nl h (tb ! i) (cs i)" "i < length tb" using Suc.prems by simp_all
  have ran: "[i..<i + Suc n] = i # [Suc i..<Suc i + n]" by (simp add: upt_conv_Cons)
  show ?case
  proof (cases "cs i")
    case Nil
    then have "tb ! i = None" using h(1) by simp
    moreover have "first_entry tb (Suc i) n = Some (case concat (map cs [Suc i..<Suc i + n]) of [] \<Rightarrow> None | a # _ \<Rightarrow> Some a)"
      using Suc.prems by (intro Suc.IH) simp_all
    ultimately show ?thesis using Nil h(2) unfolding ran by (simp add: tab_get_def)
  next
    case (Cons a xs)
    then have "tb ! i = Some a" using h(1) by simp
    then show ?thesis using Cons h(2) unfolding ran by (simp add: tab_get_def)
  qed
qed simp

end
