(* ===== verification/ZcHashRefine.thy ===== *)
theory ZcHashRefine
  imports ZcHashFacts "HOL-Library.Multiset"
begin

text \<open>
  The hash table of the logger as a map. What the code needs of the two functions for keys is the
  locale \<open>zc_keys\<close>: \<open>equal\<close> compares a value of the key, on which \<open>hash\<close> depends; inside it every
  operation is proved against the map. The functions for strings meet it.
\<close>

section \<open>Contents\<close>

definition zc_rel :: "('k \<Rightarrow> 'a) \<Rightarrow> ('k, 'v) zc_hashtable \<Rightarrow> ('a \<rightharpoonup> 'v) \<Rightarrow> bool" where
  "zc_rel kv t m \<longleftrightarrow> (\<forall>x v. m x = Some v \<longleftrightarrow> (\<exists>a e. zc_store t a = Some e \<and> kv (e_key e) = x \<and> e_value e = v))"

definition store_values :: "('k, 'v) zc_heap \<Rightarrow> 'v multiset" where
  "store_values h = image_mset (\<lambda>a. e_value (the (h a))) (mset_set (dom h))"

text \<open>The values a table has taken: those in it and those it has given to the callback.\<close>

definition owned :: "('k, 'v) zc_hashtable \<Rightarrow> 'v multiset" where
  "owned t = mset (values_freed t) + store_values (zc_store t)"

lemma store_values_new: "finite (dom h) \<Longrightarrow> h a = None \<Longrightarrow> store_values (h(a \<mapsto> e)) = add_mset (e_value e) (store_values h)"
proof -
  assume f: "finite (dom h)" and a: "h a = None"
  have "a \<notin> dom h" using a by (simp add: domIff)
  moreover have "image_mset (\<lambda>b. e_value (the ((h(a \<mapsto> e)) b))) (mset_set (dom h)) = image_mset (\<lambda>b. e_value (the (h b))) (mset_set (dom h))"
    by (rule image_mset_cong) (use a f in auto)
  ultimately show ?thesis using f by (simp add: store_values_def)
qed

lemma store_values_gone:
  assumes "finite (dom h)" and "h a = Some e"
  shows "store_values h = add_mset (e_value e) (store_values (h(a := None)))"
proof -
  have "h = (h(a := None))(a \<mapsto> e)" using assms(2) by auto
  then show ?thesis using store_values_new [of "h(a := None)" a e] assms(1) by simp
qed

lemma store_values_same: "same_data h h' \<Longrightarrow> store_values h' = store_values h"
proof -
  assume s: "same_data h h'"
  have "e_value (the (h' a)) = e_value (the (h a))" if "a \<in> dom h" for a
    using same_dataD [OF s] that by (fastforce simp: data_of_def)
  moreover have "dom h' = dom h" by (rule same_data_dom [OF s])
  ultimately show ?thesis unfolding store_values_def by (cases "finite (dom h)") (auto intro: image_mset_cong)
qed

lemma zc_rel_same: "same_data (zc_store t) (zc_store t') \<Longrightarrow> zc_rel kv t m \<Longrightarrow> zc_rel kv t' m"
proof -
  assume s: "same_data (zc_store t) (zc_store t')" and r: "zc_rel kv t m"
  have "(\<exists>e. zc_store t' a = Some e \<and> kv (e_key e) = x \<and> e_value e = v) \<longleftrightarrow>
      (\<exists>e. zc_store t a = Some e \<and> kv (e_key e) = x \<and> e_value e = v)" for a x v
    using s unfolding same_data_def by (cases "zc_store t a"; cases "zc_store t' a") (auto simp: data_of_def dest: spec [of _ a])
  then show ?thesis using r by (simp add: zc_rel_def)
qed

lemma finite_store: "zc_inv t cs \<Longrightarrow> finite (dom (zc_store t))"
  by (simp add: zc_inv_def)

lemma zc_rel_None: "zc_rel kv t m \<Longrightarrow> \<forall>a e. zc_store t a = Some e \<longrightarrow> kv (e_key e) \<noteq> x \<Longrightarrow> m x = None"
  unfolding zc_rel_def by (cases "m x") blast+

section \<open>Walking\<close>

lemma chain_nl: "chain_tab h n tb cs \<Longrightarrow> j < n \<Longrightarrow> nl h (tb ! j) (cs j)"
  unfolding chain_tab_def using dl_nl by blast

lemma concat_first:
  assumes "concat (map cs [i..<n]) = b # xs"
  shows "\<exists>j ws. i \<le> j \<and> j < n \<and> cs j = b # ws \<and> xs = ws @ concat (map cs [Suc j..<n])"
  using assms
proof (induction "n - i" arbitrary: i)
  case (Suc k)
  then have u: "[i..<n] = i # [Suc i..<n]" by (simp add: upt_conv_Cons)
  show ?case
  proof (cases "cs i")
    case Nil
    then have "concat (map cs [Suc i..<n]) = b # xs" using Suc.prems u by simp
    moreover have "k = n - Suc i" using Suc.hyps(2) by simp
    ultimately obtain j ws where "Suc i \<le> j" "j < n" "cs j = b # ws" "xs = ws @ concat (map cs [Suc j..<n])"
      using Suc.hyps(1) [of "Suc i"] by blast
    then show ?thesis by (intro exI [of _ j] exI [of _ ws]) simp
  next
    case (Cons c ws)
    then show ?thesis using Suc.prems Suc.hyps(2) u by (intro exI [of _ i] exI [of _ ws]) auto
  qed
qed simp

lemma foreach_from_eq:
  assumes inv: "zc_inv t cs"
  shows "i < tab_size t \<Longrightarrow> cs i = us @ a # vs \<Longrightarrow>
    foreach_from t (Some a) = Some (a # vs @ concat (map cs [Suc i..<tab_size t]))"
proof (induction "length (vs @ concat (map cs [Suc i..<tab_size t]))" arbitrary: i us a vs rule: less_induct)
  case less
  let ?n = "tab_size t"
  have c: "chain_tab (zc_store t) ?n (zc_tab t) cs" using inv by (simp add: zc_inv_def)
  have d: "dl (zc_store t) None (zc_tab t ! i) (us @ a # vs)"
    unfolding less.prems(2) [symmetric] using c less.prems(1) unfolding chain_tab_def by blast
  obtain p where "nl (zc_store t) p (a # vs)" using nl_append [OF dl_nl [OF d]] by blast
  then obtain e where e: "zc_store t a = Some e" "nl (zc_store t) (e_next e) vs" by auto
  have h: "unat (hash_key e) mod ?n = i"
  proof -
    have "a \<in> set (cs i)" using less.prems(2) by simp
    then obtain e' where "zc_store t a = Some e'" "unat (hash_key e') mod ?n = i"
      using c less.prems(1) unfolding chain_tab_def by blast
    then show ?thesis using e(1) by simp
  qed
  show ?case
  proof (cases vs)
    case (Cons b ws)
    then have nx: "zc_hashtable_next t a = Some (Some b)" using e by (simp add: zc_hashtable_next_def zc_deref_def)
    have "cs i = (us @ [a]) @ b # ws" using less.prems(2) Cons by simp
    then have "foreach_from t (Some b) = Some (b # ws @ concat (map cs [Suc i..<?n]))"
      using less.hyps [of ws i "us @ [a]" b] less.prems(1) Cons by simp
    then show ?thesis using nx Cons by (subst foreach_from.simps) simp
  next
    case Nil
    have "\<forall>j \<in> {Suc i..<Suc i + (?n - Suc i)}. nl (zc_store t) (zc_tab t ! j) (cs j)"
      using chain_nl [OF c] by auto
    then have "first_entry (zc_tab t) (Suc i) (?n - Suc i) =
        Some (case concat (map cs [Suc i..<Suc i + (?n - Suc i)]) of [] \<Rightarrow> None | a # _ \<Rightarrow> Some a)"
      by (rule first_entry_eq) (use c less.prems(1) in \<open>simp add: chain_tab_def\<close>)
    moreover have "Suc i + (?n - Suc i) = ?n" using less.prems(1) by simp
    ultimately have nx: "zc_hashtable_next t a = Some (case concat (map cs [Suc i..<?n]) of [] \<Rightarrow> None | a # _ \<Rightarrow> Some a)"
      using e Nil h less.prems(1) by (simp add: zc_hashtable_next_def zc_deref_def bucket_def)
    show ?thesis
    proof (cases "concat (map cs [Suc i..<?n])")
      case Nil2: Nil
      then have "foreach_from t None = Some []" by (subst foreach_from.simps) simp
      then show ?thesis using nx Nil Nil2 by (subst foreach_from.simps) simp
    next
      case (Cons b xs)
      then obtain j ws where j: "Suc i \<le> j" "j < ?n" "cs j = b # ws" "xs = ws @ concat (map cs [Suc j..<?n])"
        using concat_first by metis
      have "foreach_from t (Some b) = Some (b # ws @ concat (map cs [Suc j..<?n]))"
        using less.hyps [of ws j "[]" b] j Cons Nil by simp
      then show ?thesis using nx Nil Cons j(4) by (subst foreach_from.simps) simp
    qed
  qed
qed

lemma foreach_ok:
  assumes inv: "zc_inv t cs"
  shows "zc_hashtable_foreach t = Some (concat (map cs [0..<tab_size t]))"
proof -
  let ?n = "tab_size t"
  have c: "chain_tab (zc_store t) ?n (zc_tab t) cs" using inv by (simp add: zc_inv_def)
  have "\<forall>j \<in> {0..<0 + ?n}. nl (zc_store t) (zc_tab t ! j) (cs j)"
    using chain_nl [OF c] by simp
  then have b: "zc_hashtable_begin t = Some (case concat (map cs [0..<?n]) of [] \<Rightarrow> None | a # _ \<Rightarrow> Some a)"
    unfolding zc_hashtable_begin_def using c first_entry_eq [of 0 ?n "zc_store t" "zc_tab t" cs] by (simp add: chain_tab_def)
  show ?thesis
  proof (cases "concat (map cs [0..<?n])")
    case Nil
    have "foreach_from t None = Some []" by (subst foreach_from.simps) simp
    then show ?thesis using b Nil by (simp add: zc_hashtable_foreach_def)
  next
    case (Cons a xs)
    then obtain j ws where j: "j < ?n" "cs j = a # ws" "xs = ws @ concat (map cs [Suc j..<?n])"
      using concat_first by metis
    then show ?thesis using b Cons foreach_from_eq [OF inv j(1), of "[]" a ws] by (simp add: zc_hashtable_foreach_def)
  qed
qed

lemma walk_distinct:
  assumes "zc_inv t cs"
  shows "distinct (concat (map cs [0..<tab_size t]))" and "set (concat (map cs [0..<tab_size t])) = dom (zc_store t)"
proof -
  have c: "chain_tab (zc_store t) (tab_size t) (zc_tab t) cs" and d: "dom (zc_store t) = members (tab_size t) cs"
    using assms by (simp_all add: zc_inv_def)
  show "set (concat (map cs [0..<tab_size t])) = dom (zc_store t)" unfolding d by (auto simp: members_def)
  have "distinct (concat (map cs [0..<n]))" if "n \<le> tab_size t" for n
    using that
  proof (induction n)
    case (Suc n)
    have "set (cs n) \<inter> set (concat (map cs [0..<n])) = {}"
    proof (rule ccontr)
      assume "set (cs n) \<inter> set (concat (map cs [0..<n])) \<noteq> {}"
      then obtain x j where "x \<in> set (cs n)" "j < n" "x \<in> set (cs j)" by auto
      then show False using chains_disjoint [OF c, of j n x] Suc.prems by simp
    qed
    then show ?case using Suc chains_distinct [OF c, of n] by auto
  qed simp
  then show "distinct (concat (map cs [0..<tab_size t]))" by simp
qed

section \<open>Clients\<close>

datatype ('k, 'v) zc_op = ZPut 'k 'v | ZGet 'k | ZRemove 'k | ZClean

text \<open>\<open>addr\<close> is the allocator: the address of a new entry, given the store.\<close>

definition zc_do ::
  "(('k, 'v) zc_heap \<Rightarrow> nat) \<Rightarrow> ('k, 'v) zc_op \<Rightarrow> ('k, 'v) zc_hashtable \<Rightarrow> ('v option list \<times> ('k, 'v) zc_hashtable) option" where
  "zc_do addr op t = (case op of
     ZPut k v \<Rightarrow> do {
       (rc, t) \<leftarrow> zc_hashtable_put True (Some (addr (zc_store t))) t k v;
       check (rc = 0);
       Some ([], t) }
   | ZGet k \<Rightarrow> do { r \<leftarrow> zc_hashtable_get t k; Some ([r], t) }
   | ZRemove k \<Rightarrow> do { t \<leftarrow> zc_hashtable_remove t k; Some ([], t) }
   | ZClean \<Rightarrow> do { t \<leftarrow> zc_hashtable_clean t; Some ([], t) })"

fun zc_run ::
  "(('k, 'v) zc_heap \<Rightarrow> nat) \<Rightarrow> ('k, 'v) zc_op list \<Rightarrow> ('k, 'v) zc_hashtable \<Rightarrow> ('v option list \<times> ('k, 'v) zc_hashtable) option" where
  "zc_run addr [] t = Some ([], t)"
| "zc_run addr (op # ops) t = do {
     (r, t) \<leftarrow> zc_do addr op t;
     (rs, t) \<leftarrow> zc_run addr ops t;
     Some (r @ rs, t) }"

text \<open>The same on maps, and the values that are put.\<close>

fun map_run :: "('k \<Rightarrow> 'a) \<Rightarrow> ('k, 'v) zc_op list \<Rightarrow> ('a \<rightharpoonup> 'v) \<Rightarrow> 'v option list \<times> ('a \<rightharpoonup> 'v)" where
  "map_run kv [] m = ([], m)"
| "map_run kv (ZPut k v # ops) m = map_run kv ops (m(kv k \<mapsto> v))"
| "map_run kv (ZGet k # ops) m = (let (rs, m') = map_run kv ops m in (m (kv k) # rs, m'))"
| "map_run kv (ZRemove k # ops) m = map_run kv ops (m(kv k := None))"
| "map_run kv (ZClean # ops) m = map_run kv ops Map.empty"

fun puts_of :: "('k, 'v) zc_op list \<Rightarrow> 'v list" where
  "puts_of [] = []"
| "puts_of (ZPut k v # ops) = v # puts_of ops"
| "puts_of (_ # ops) = puts_of ops"

section \<open>The contract of keys\<close>

text \<open>A table with these functions that holds \<open>m\<close>.\<close>

definition zc_ok :: "('k \<Rightarrow> u32) \<Rightarrow> ('k \<Rightarrow> 'k \<Rightarrow> bool) \<Rightarrow> ('k \<Rightarrow> 'a) \<Rightarrow> ('k, 'v) zc_hashtable \<Rightarrow> ('a \<rightharpoonup> 'v) \<Rightarrow> bool" where
  "zc_ok hash equal kv t m \<longleftrightarrow> (\<exists>cs. zc_inv t cs) \<and> hash_fn t = hash \<and> equal_fn t = equal \<and> zc_rel kv t m"

locale zc_keys =
  fixes hash :: "'k \<Rightarrow> u32" and equal :: "'k \<Rightarrow> 'k \<Rightarrow> bool" and kv :: "'k \<Rightarrow> 'a"
  assumes equal_kv: "equal k k' \<longleftrightarrow> kv k = kv k'" and hash_kv: "kv k = kv k' \<Longrightarrow> hash k = hash k'"
begin

text \<open>The search finds the one entry with the key, at its place in the chain of the hash value.\<close>

lemma search:
  assumes inv: "zc_inv t cs" and fns: "hash_fn t = hash" "equal_fn t = equal"
  obtains i p r where "bucket t (hash_fn t k) = Some i" and "i < tab_size t" and "tab_get (zc_tab t) i = Some p"
    and "find_entry t k p = Some r" and "i = unat (hash k) mod tab_size t"
    and "case r of None \<Rightarrow> \<forall>a e. zc_store t a = Some e \<longrightarrow> kv (e_key e) \<noteq> kv k
      | Some a \<Rightarrow> \<exists>e us vs. zc_store t a = Some e \<and> kv (e_key e) = kv k \<and> cs i = us @ a # vs \<and> unat (hash_key e) mod tab_size t = i"
proof -
  note iv = inv [unfolded zc_inv_def]
  have c: "chain_tab (zc_store t) (tab_size t) (zc_tab t) cs" using iv by simp
  let ?i = "unat (hash k) mod tab_size t"
  have i: "?i < tab_size t" using iv by simp
  define r where "r = List.find (\<lambda>a. equal k (e_key (the (zc_store t a)))) (cs ?i)"
  have f: "find_entry t k (zc_tab t ! ?i) = Some r"
    using find_entry_eq [OF chain_nl [OF c i], of k] fns by (simp add: r_def)
  have found: "case r of None \<Rightarrow> \<forall>a e. zc_store t a = Some e \<longrightarrow> kv (e_key e) \<noteq> kv k
      | Some a \<Rightarrow> \<exists>e us vs. zc_store t a = Some e \<and> kv (e_key e) = kv k \<and> cs ?i = us @ a # vs \<and> unat (hash_key e) mod tab_size t = ?i"
  proof (cases r)
    case None
    have no: "\<not> equal k (e_key (the (zc_store t a)))" if "a \<in> set (cs ?i)" for a
      using None that by (simp add: r_def find_None_iff)
    have "kv (e_key e) \<noteq> kv k" if e: "zc_store t a = Some e" for a e
    proof
      assume eq: "kv (e_key e) = kv k"
      have "a \<in> dom (zc_store t)" using e by blast
      then obtain j where j: "j < tab_size t" "a \<in> set (cs j)" using iv by (auto simp: members_def)
      then obtain e' where "zc_store t a = Some e'" "unat (hash_key e') mod tab_size t = j" using c unfolding chain_tab_def by blast
      moreover have "hash_key e = hash k" using iv e fns hash_kv [OF eq] by simp
      ultimately have "j = ?i" using e by simp
      then have "\<not> equal k (e_key e)" using no [of a] j(2) e by simp
      then show False using equal_kv eq by simp
    qed
    then show ?thesis using None by simp
  next
    case (Some a)
    then have a: "a \<in> set (cs ?i)" "equal k (e_key (the (zc_store t a)))"
      by (auto simp: r_def find_Some_iff)
    then obtain e where e: "zc_store t a = Some e" "unat (hash_key e) mod tab_size t = ?i" using c i unfolding chain_tab_def by blast
    moreover have "kv (e_key e) = kv k" using a(2) e equal_kv by simp
    moreover obtain us vs where "cs ?i = us @ a # vs" using a(1) by (meson split_list)
    ultimately show ?thesis using Some by auto
  qed
  have b: "bucket t (hash_fn t k) = Some ?i" using fns iv by (simp add: bucket_def)
  have g: "tab_get (zc_tab t) ?i = Some (zc_tab t ! ?i)" using c i by (simp add: tab_get_def chain_tab_def)
  show thesis by (rule that [OF b i g f refl found])
qed

lemma keys_differ:
  "zc_inv t cs \<Longrightarrow> equal_fn t = equal \<Longrightarrow> zc_store t a = Some ea \<Longrightarrow> zc_store t b = Some eb \<Longrightarrow>
     kv (e_key ea) = kv (e_key eb) \<Longrightarrow> a = b"
  unfolding zc_inv_def using equal_kv by metis

lemma get_ok:
  assumes inv: "zc_inv t cs" and fns: "hash_fn t = hash" "equal_fn t = equal" and rel: "zc_rel kv t m"
  shows "zc_hashtable_get t k = Some (m (kv k))"
proof -
  obtain i p r where s: "bucket t (hash_fn t k) = Some i" "i < tab_size t" "tab_get (zc_tab t) i = Some p"
    "find_entry t k p = Some r" "i = unat (hash k) mod tab_size t"
    "case r of None \<Rightarrow> \<forall>a e. zc_store t a = Some e \<longrightarrow> kv (e_key e) \<noteq> kv k
      | Some a \<Rightarrow> \<exists>e us vs. zc_store t a = Some e \<and> kv (e_key e) = kv k \<and> cs i = us @ a # vs \<and> unat (hash_key e) mod tab_size t = i"
    by (rule search [OF inv fns])
  show ?thesis
  proof (cases r)
    case None
    then have "\<forall>a e. zc_store t a = Some e \<longrightarrow> kv (e_key e) \<noteq> kv k" using s(6) by simp
    then have "m (kv k) = None" by (rule zc_rel_None [OF rel])
    then show ?thesis using None s by (simp add: zc_hashtable_get_def)
  next
    case (Some a)
    then obtain e where e: "zc_store t a = Some e" "kv (e_key e) = kv k" using s(6) by auto
    then have "m (kv k) = Some (e_value e)" using rel unfolding zc_rel_def by blast
    then show ?thesis using Some s e by (simp add: zc_hashtable_get_def zc_deref_def)
  qed
qed

text \<open>A key that is there gets the new pointers, and the old ones are given to the callbacks.\<close>

lemma put_old:
  assumes inv: "zc_inv t cs" and fns: "hash_fn t = hash" "equal_fn t = equal" and rel: "zc_rel kv t m"
    and e: "zc_store t a = Some e" "kv (e_key e) = kv k"
  shows "zc_inv ((del_kv e t)\<lparr>zc_store := (zc_store t)(a \<mapsto> e\<lparr>e_key := k, e_value := v\<rparr>)\<rparr>) cs"
    and "zc_rel kv ((del_kv e t)\<lparr>zc_store := (zc_store t)(a \<mapsto> e\<lparr>e_key := k, e_value := v\<rparr>)\<rparr>) (m(kv k \<mapsto> v))"
proof -
  let ?e = "e\<lparr>e_key := k, e_value := v\<rparr>"
  let ?h = "(zc_store t)(a \<mapsto> ?e)"
  let ?t = "(del_kv e t)\<lparr>zc_store := ?h\<rparr>"
  note iv = inv [unfolded zc_inv_def]
  have hk: "hash_key e = hash k" using iv e fns hash_kv [OF e(2)] by simp
  have "chain_tab ?h (tab_size t) (zc_tab t) cs"
    unfolding chain_tab_def
  proof (intro conjI allI impI ballI)
    show "length (zc_tab t) = tab_size t" using iv by (simp add: chain_tab_def)
    fix i assume i: "i < tab_size t"
    show "dl ?h None (zc_tab t ! i) (cs i)"
      using iv i dl_data [of "zc_store t" a e ?e] e(1) by (simp add: chain_tab_def del: fun_upd_apply)
    fix x assume "x \<in> set (cs i)"
    then obtain d where "zc_store t x = Some d" "unat (hash_key d) mod tab_size t = i"
      using iv i unfolding chain_tab_def by blast
    then show "\<exists>e. ?h x = Some e \<and> unat (hash_key e) mod tab_size t = i" using e(1) by (cases "x = a") auto
  qed
  moreover have "dom ?h = dom (zc_store t)" using e(1) by auto
  moreover have low: "\<exists>d'. zc_store t b = Some d' \<and> kv (e_key d') = kv (e_key d)" if "?h b = Some d" for b d
    using that e by (auto split: if_splits)
  have "b = c" if "?h b = Some eb" "?h c = Some ec" "equal (e_key eb) (e_key ec)" for b c eb ec
  proof -
    note prems = that
    obtain eb' ec' where "zc_store t b = Some eb'" "zc_store t c = Some ec'" "kv (e_key eb') = kv (e_key eb)"
      "kv (e_key ec') = kv (e_key ec)" using low [OF prems(1)] low [OF prems(2)] by blast
    moreover have "kv (e_key eb) = kv (e_key ec)" using prems(3) equal_kv by simp
    ultimately show ?thesis using keys_differ [OF inv fns(2), of b eb' c ec'] by simp
  qed
  moreover have "hash_key d = hash (e_key d)" if "?h b = Some d" for b d
    using that iv fns hk by (auto split: if_splits)
  ultimately show "zc_inv ?t cs" using iv fns unfolding zc_inv_def by (simp del: fun_upd_apply)
  have "(\<exists>b d. ?h b = Some d \<and> kv (e_key d) = x \<and> e_value d = w) \<longleftrightarrow> (m(kv k \<mapsto> v)) x = Some w" for x w
  proof (cases "x = kv k")
    case True
    have "b = a" if "zc_store t b = Some d" "kv (e_key d) = kv k" for b d
      using keys_differ [OF inv fns(2) that(1) e(1)] that(2) e(2) by simp
    then show ?thesis using True by (auto split: if_splits)
  next
    case False
    then have "m x = Some w \<longleftrightarrow> (\<exists>b d. zc_store t b = Some d \<and> kv (e_key d) = x \<and> e_value d = w)"
      using rel unfolding zc_rel_def by blast
    moreover have "(\<exists>d. ?h b = Some d \<and> kv (e_key d) = x \<and> e_value d = w) \<longleftrightarrow>
        (\<exists>d. zc_store t b = Some d \<and> kv (e_key d) = x \<and> e_value d = w)" for b
      using False e by (cases "b = a") auto
    ultimately show ?thesis using False by simp
  qed
  then show "zc_rel kv ?t (m(kv k \<mapsto> v))" unfolding zc_rel_def by simp
qed

text \<open>A new entry at the head of its chain.\<close>

lemma put_new:
  assumes inv: "zc_inv t cs" and fns: "hash_fn t = hash" "equal_fn t = equal" and rel: "zc_rel kv t m"
    and a: "zc_store t a = None" and new: "\<forall>b e. zc_store t b = Some e \<longrightarrow> kv (e_key e) \<noteq> kv k"
  obtains t' cs' where "(let t = t\<lparr>zc_store := (zc_store t)(a \<mapsto>
          \<lparr>hash_key = hash_fn t k, e_key = k, e_value = v, e_prev = None, e_next = None\<rparr>)\<rparr> in do {
        i \<leftarrow> bucket t (hash_fn t k);
        (tb, t) \<leftarrow> push_entry a i (zc_tab t) t;
        Some (0, t\<lparr>zc_tab := tb, nelem := nelem t + 1\<rparr>) }) = Some (0 :: int, t')"
    and "zc_inv t' cs'" and "same_setup t t'" and "values_freed t' = values_freed t"
    and "zc_rel kv t' (m(kv k \<mapsto> v))" and "store_values (zc_store t') = add_mset v (store_values (zc_store t))"
proof -
  note iv = inv [unfolded zc_inv_def]
  let ?n = "tab_size t" and ?e = "\<lparr>hash_key = hash_fn t k, e_key = k, e_value = v, e_prev = None, e_next = None\<rparr>"
  let ?h = "(zc_store t)(a \<mapsto> ?e)"
  let ?t = "t\<lparr>zc_store := ?h\<rparr>" and ?i = "unat (hash k) mod tab_size t"
  have na: "a \<notin> members ?n cs" using iv a by auto
  have c: "chain_tab (zc_store ?t) ?n (zc_tab t) cs" by (rule chains_frame [of "zc_store t"]) (use iv na in auto)
  obtain tb' h' where p: "push_entry a ?i (zc_tab t) ?t = Some (tb', ?t\<lparr>zc_store := h'\<rparr>)"
    and h': "chain_tab h' ?n tb' (cs(?i := a # cs ?i))" "same_data (zc_store ?t) h'"
    by (rule push_entry_ok [OF c na, of ?e ?i]) (use iv fns in simp_all)
  have sd: "same_data ?h h'" using h'(2) by simp
  let ?t' = "t\<lparr>zc_store := h', zc_tab := tb', nelem := nelem t + 1\<rparr>"
  have i: "?i < ?n" using iv by simp
  have dom: "dom h' = insert a (dom (zc_store t))" using same_data_dom [OF sd] by simp
  note orig = same_data_orig [OF sd]
  have k: "hash_key d = hash (e_key d)" if "h' b = Some d" for b d
    using orig [OF that] iv fns by (auto simp: data_of_def split: if_splits)
  have u: "b = d" if "h' b = Some eb" "h' d = Some ed" "equal (e_key eb) (e_key ed)" for b d eb ed
  proof -
    note prems = that
    obtain eb' ed' where o: "?h b = Some eb'" "?h d = Some ed'" "e_key eb' = e_key eb" "e_key ed' = e_key ed"
      using orig [OF prems(1)] orig [OF prems(2)] by (auto simp: data_of_def)
    have "kv (e_key eb') = kv (e_key ed')" using prems(3) o(3,4) equal_kv by simp
    moreover have "kv (e_key f) \<noteq> kv k" if "c \<noteq> a" "?h c = Some f" for c f using new that by auto
    moreover have "kv (e_key f) = kv k" if "?h a = Some f" for f using that by auto
    ultimately have "b = a \<longleftrightarrow> d = a" using o(1,2) by metis
    then show ?thesis using o(1,2) \<open>kv (e_key eb') = kv (e_key ed')\<close> keys_differ [OF inv fns(2), of b eb' d ed'] by (cases "b = a") auto
  qed
  have inv': "zc_inv ?t' (cs(?i := a # cs ?i))"
    using iv h'(1) dom k u fns na members_push [OF i, of cs a] unfolding zc_inv_def by (simp add: card_insert_if domIff)
  have "zc_rel kv ?t (m(kv k \<mapsto> v))"
  proof -
    have "(m(kv k \<mapsto> v)) x = Some w \<longleftrightarrow> (\<exists>b e. ?h b = Some e \<and> kv (e_key e) = x \<and> e_value e = w)" for x w
    proof (cases "x = kv k")
      case True
      then show ?thesis using new by (auto split: if_splits)
    next
      case False
      then have "m x = Some w \<longleftrightarrow> (\<exists>b d. zc_store t b = Some d \<and> kv (e_key d) = x \<and> e_value d = w)"
        using rel unfolding zc_rel_def by blast
      moreover have "(\<exists>d. ?h b = Some d \<and> kv (e_key d) = x \<and> e_value d = w) \<longleftrightarrow>
          (\<exists>d. zc_store t b = Some d \<and> kv (e_key d) = x \<and> e_value d = w)" for b
        using False a by (cases "b = a") auto
      ultimately show ?thesis using False by simp
    qed
    then show ?thesis unfolding zc_rel_def by simp
  qed
  then have rel': "zc_rel kv ?t' (m(kv k \<mapsto> v))"
    using zc_rel_same [of ?t ?t' kv "m(kv k \<mapsto> v)"] sd by simp
  have "store_values h' = store_values ?h" by (rule store_values_same [OF sd])
  then have "store_values (zc_store ?t') = add_mset v (store_values (zc_store t))"
    using store_values_new [OF finite_store [OF inv] a, of ?e] by simp
  moreover have "bucket ?t (hash_fn ?t k) = Some ?i" using iv fns by (simp add: bucket_def)
  ultimately show thesis
    by (intro that [of ?t' "cs(?i := a # cs ?i)"]) (use p inv' rel' in \<open>simp_all add: same_setup_def Let_def\<close>)
qed

lemma put_ok:
  assumes ok: "zc_ok hash equal kv t m" and a: "zc_store t a = None"
  shows "\<exists>t'. zc_hashtable_put True (Some a) t k v = Some (0, t') \<and> zc_ok hash equal kv t' (m(kv k \<mapsto> v)) \<and> same_setup t t' \<and>
    (value_del t \<longrightarrow> owned t' = add_mset v (owned t))"
proof -
  obtain cs where inv: "zc_inv t cs" and fns: "hash_fn t = hash" "equal_fn t = equal" and rel: "zc_rel kv t m"
    using ok by (auto simp: zc_ok_def)
  obtain i p r where s: "bucket t (hash_fn t k) = Some i" "i < tab_size t" "tab_get (zc_tab t) i = Some p"
    "find_entry t k p = Some r" "i = unat (hash k) mod tab_size t"
    "case r of None \<Rightarrow> \<forall>a e. zc_store t a = Some e \<longrightarrow> kv (e_key e) \<noteq> kv k
      | Some a \<Rightarrow> \<exists>e us vs. zc_store t a = Some e \<and> kv (e_key e) = kv k \<and> cs i = us @ a # vs \<and> unat (hash_key e) mod tab_size t = i"
    by (rule search [OF inv fns])
  show ?thesis
  proof (cases r)
    case (Some b)
    then obtain e where e: "zc_store t b = Some e" "kv (e_key e) = kv k" using s(6) by auto
    let ?e = "e\<lparr>e_key := k, e_value := v\<rparr>"
    let ?t = "(del_kv e t)\<lparr>zc_store := (zc_store t)(b \<mapsto> ?e)\<rparr>"
    have "zc_hashtable_put True (Some a) t k v = Some (0, ?t)"
      using s(1,3,4) Some e(1) by (simp add: zc_hashtable_put_def zc_deref_def put_entry_def)
    moreover have "zc_ok hash equal kv ?t (m(kv k \<mapsto> v))"
      using put_old [OF inv fns rel e] fns unfolding zc_ok_def by auto
    moreover have "owned ?t = add_mset v (owned t)" if "value_del t"
    proof -
      have f: "finite (dom (zc_store t))" by (rule finite_store [OF inv])
      have "store_values ((zc_store t)(b \<mapsto> ?e)) = add_mset v (store_values ((zc_store t)(b := None)))"
        using store_values_new [of "(zc_store t)(b := None)" b ?e] f by simp
      then show ?thesis using store_values_gone [OF f e(1)] that by (simp add: owned_def)
    qed
    moreover have "same_setup t ?t" by (simp add: same_setup_def)
    ultimately show ?thesis by blast
  next
    case None
    then have new: "\<forall>b e. zc_store t b = Some e \<longrightarrow> kv (e_key e) \<noteq> kv k" using s(6) by simp
    obtain t1 cs1 where t1: "(if 13 * tab_size t < 10 * nelem t then zc_hashtable_rehash True t else Some (0, t)) = Some (0, t1)"
      "zc_inv t1 cs1" "same_data (zc_store t) (zc_store t1)" "same_setup t t1" "values_freed t1 = values_freed t"
    proof (cases "13 * tab_size t < 10 * nelem t")
      case True
      obtain t1 cs1 where "zc_hashtable_rehash True t = Some (0, t1)" "zc_inv t1 cs1" "same_data (zc_store t) (zc_store t1)"
        "same_setup t t1" "values_freed t1 = values_freed t"
        using rehash_ok [OF inv] by blast
      then show thesis using that True by simp
    next
      case False
      then show thesis using that [of t cs] inv by (simp add: same_setup_def)
    qed
    have fns1: "hash_fn t1 = hash" "equal_fn t1 = equal" using fns t1(4) by (simp_all add: same_setup_def)
    have rel1: "zc_rel kv t1 m" by (rule zc_rel_same [OF t1(3) rel])
    have a1: "zc_store t1 a = None" using same_data_dom [OF t1(3)] a by auto
    have new1: "\<forall>b e. zc_store t1 b = Some e \<longrightarrow> kv (e_key e) \<noteq> kv k"
      using same_data_orig [OF t1(3)] new by (fastforce simp: data_of_def)
    obtain t' cs' where t': "(let t = t1\<lparr>zc_store := (zc_store t1)(a \<mapsto>
          \<lparr>hash_key = hash_fn t1 k, e_key = k, e_value = v, e_prev = None, e_next = None\<rparr>)\<rparr> in do {
        i \<leftarrow> bucket t (hash_fn t k);
        (tb, t) \<leftarrow> push_entry a i (zc_tab t) t;
        Some (0, t\<lparr>zc_tab := tb, nelem := nelem t + 1\<rparr>) }) = Some (0 :: int, t')"
      "zc_inv t' cs'" "same_setup t1 t'" "values_freed t' = values_freed t1" "zc_rel kv t' (m(kv k \<mapsto> v))"
      "store_values (zc_store t') = add_mset v (store_values (zc_store t1))"
      by (rule put_new [OF t1(2) fns1 rel1 a1 new1, of v])
    have "zc_hashtable_put True (Some a) t k v = Some (0, t')"
      unfolding zc_hashtable_put_def using s(1,3,4) None t1(1) t'(1) by simp
    moreover have "zc_ok hash equal kv t' (m(kv k \<mapsto> v))"
      using t'(2,3,5) fns1 by (auto simp: zc_ok_def same_setup_def)
    moreover have "owned t' = add_mset v (owned t)"
      using t'(4,6) t1(5) store_values_same [OF t1(3)] by (simp add: owned_def)
    ultimately show ?thesis using t1(4) t'(3) by (auto simp: same_setup_def)
  qed
qed

lemma remove_ok:
  assumes ok: "zc_ok hash equal kv t m"
  shows "\<exists>t'. zc_hashtable_remove t k = Some t' \<and> zc_ok hash equal kv t' (m(kv k := None)) \<and> same_setup t t' \<and>
    (value_del t \<longrightarrow> owned t' = owned t)"
proof -
  obtain cs where inv: "zc_inv t cs" and fns: "hash_fn t = hash" "equal_fn t = equal" and rel: "zc_rel kv t m"
    using ok by (auto simp: zc_ok_def)
  obtain i p r where s: "bucket t (hash_fn t k) = Some i" "i < tab_size t" "tab_get (zc_tab t) i = Some p"
    "find_entry t k p = Some r" "i = unat (hash k) mod tab_size t"
    "case r of None \<Rightarrow> \<forall>a e. zc_store t a = Some e \<longrightarrow> kv (e_key e) \<noteq> kv k
      | Some a \<Rightarrow> \<exists>e us vs. zc_store t a = Some e \<and> kv (e_key e) = kv k \<and> cs i = us @ a # vs \<and> unat (hash_key e) mod tab_size t = i"
    by (rule search [OF inv fns])
  show ?thesis
  proof (cases r)
    case None
    then have "\<forall>a e. zc_store t a = Some e \<longrightarrow> kv (e_key e) \<noteq> kv k" using s(6) by simp
    then have "m (kv k) = None" by (rule zc_rel_None [OF rel])
    then have "m(kv k := None) = m" by auto
    moreover have "zc_hashtable_remove t k = Some t" using s(1,3,4) None by (simp add: zc_hashtable_remove_def)
    ultimately show ?thesis using ok by (simp add: same_setup_def)
  next
    case (Some a)
    then obtain e us vs where e: "zc_store t a = Some e" "kv (e_key e) = kv k" "cs i = us @ a # vs"
      "unat (hash_key e) mod tab_size t = i" using s(6) by auto
    let ?d = "del_kv e t"
    note iv = inv [unfolded zc_inv_def]
    have c: "chain_tab (zc_store ?d) (tab_size ?d) (zc_tab ?d) cs" using iv by simp
    obtain h' tb' where u: "unlink_entry a ?d = Some (?d\<lparr>zc_store := h', zc_tab := tb'\<rparr>)"
      and h': "chain_tab (h'(a := None)) (tab_size ?d) tb' (cs(i := us @ vs))" "same_data (zc_store ?d) h'"
      by (rule unlink_ok [OF c, of i us a vs e]) (use s(2) e in simp_all)
    let ?h = "h'(a := None)"
    let ?t = "?d\<lparr>zc_store := ?h, zc_tab := tb', nelem := nelem t - 1\<rparr>"
    have sd: "same_data (zc_store t) h'" using h'(2) by simp
    have live: "h' a \<noteq> None" using same_dataD [OF sd e(1)] by auto
    have ev: "zc_hashtable_remove t k = Some ?t"
      using s(1,3,4) Some e(1) u live by (auto simp: zc_hashtable_remove_def zc_deref_def free_entry_def)
    have domh: "dom h' = dom (zc_store t)" by (rule same_data_dom [OF sd])
    have ad: "a \<in> dom (zc_store t)" using e(1) by blast
    have dist: "distinct (us @ a # vs)" using chains_distinct [of "zc_store t" "tab_size t" "zc_tab t" cs i] iv s(2) e(3) by simp
    have c0: "chain_tab (zc_store t) (tab_size t) (zc_tab t) cs" using iv by simp
    have mem: "members (tab_size t) (cs(i := us @ vs)) = members (tab_size t) cs - {a}"
    proof -
      have "x \<in> set ((cs(i := us @ vs)) j) \<longleftrightarrow> x \<in> set (cs j) \<and> x \<noteq> a" if "j < tab_size t" for x j
      proof (cases "j = i")
        case True
        then show ?thesis using e(3) dist by auto
      next
        case False
        have "a \<in> set (cs i)" by (simp add: e(3))
        then have "a \<notin> set (cs j)" using c0 that s(2) False chains_disjoint by blast
        then show ?thesis using False by auto
      qed
      then show ?thesis unfolding members_def by blast
    qed
    note orig = same_data_orig [OF sd]
    have k: "hash_key d = hash (e_key d)" if "?h b = Some d" for b d
      using orig [of b d] that iv fns by (auto simp: data_of_def split: if_splits)
    have uq: "b = d" if "?h b = Some eb" "?h d = Some ed" "equal (e_key eb) (e_key ed)" for b d eb ed
    proof -
      note prems = that
      have "h' b = Some eb" "h' d = Some ed" using prems(1,2) by (auto split: if_splits)
      then obtain eb' ed' where "zc_store t b = Some eb'" "zc_store t d = Some ed'" "e_key eb' = e_key eb" "e_key ed' = e_key ed"
        using orig [of b eb] orig [of d ed] by (auto simp: data_of_def)
      moreover have "kv (e_key eb) = kv (e_key ed)" using prems(3) equal_kv by simp
      ultimately show ?thesis using keys_differ [OF inv fns(2), of b eb' d ed'] by simp
    qed
    have dm: "dom ?h = members (tab_size t) (cs(i := us @ vs))" using domh mem iv by auto
    have nl: "nelem t - 1 = card (dom ?h)" using iv ad domh by simp
    have "zc_inv ?t (cs(i := us @ vs))"
      unfolding zc_inv_def
    proof (intro conjI allI impI)
      show "0 < tab_size ?t" using iv by simp
      show "chain_tab (zc_store ?t) (tab_size ?t) (zc_tab ?t) (cs(i := us @ vs))" using h'(1) by simp
      show "dom (zc_store ?t) = members (tab_size ?t) (cs(i := us @ vs))" using dm by simp
      show "nelem ?t = card (dom (zc_store ?t))" using nl by simp
      show "hash_key d = hash_fn ?t (e_key d)" if "zc_store ?t b = Some d" for b d using k [of b d] that fns by simp
      show "b = d" if "zc_store ?t b = Some eb" "zc_store ?t d = Some ed" "equal_fn ?t (e_key eb) (e_key ed)" for b d eb ed
        by (rule uq [of b eb d ed]) (use that fns in simp_all)
    qed
    moreover have "zc_rel kv ?t (m(kv k := None))"
    proof -
      have rel': "zc_rel kv (t\<lparr>zc_store := h'\<rparr>) m" using zc_rel_same [of t "t\<lparr>zc_store := h'\<rparr>"] sd rel by simp
      have "(m(kv k := None)) x = Some w \<longleftrightarrow> (\<exists>b d. ?h b = Some d \<and> kv (e_key d) = x \<and> e_value d = w)" for x w
      proof -
        have "kv (e_key d) = kv k \<longleftrightarrow> b = a" if "h' b = Some d" for b d
        proof -
          note prems = that
          obtain d' where d': "zc_store t b = Some d'" "e_key d' = e_key d" using orig [OF prems] by (auto simp: data_of_def)
          then show ?thesis using keys_differ [OF inv fns(2) d'(1) e(1)] e(1,2) by auto
        qed
        then have "(\<exists>d. ?h b = Some d \<and> kv (e_key d) = x \<and> e_value d = w) \<longleftrightarrow>
            x \<noteq> kv k \<and> (\<exists>d. h' b = Some d \<and> kv (e_key d) = x \<and> e_value d = w)" for b
          by (cases "b = a") auto
        moreover have "m x = Some w \<longleftrightarrow> (\<exists>b d. h' b = Some d \<and> kv (e_key d) = x \<and> e_value d = w)"
          using rel' unfolding zc_rel_def by simp
        ultimately show ?thesis by simp
      qed
      then show ?thesis unfolding zc_rel_def by simp
    qed
    ultimately have "zc_ok hash equal kv ?t (m(kv k := None))" using fns by (auto simp: zc_ok_def)
    moreover have "owned ?t = owned t" if "value_del t"
    proof -
      obtain e' where e': "h' a = Some e'" "e_value e' = e_value e" using same_dataD [OF sd e(1)] by (auto simp: data_of_def)
      have "finite (dom h')" using finite_store [OF inv] domh by simp
      then have "store_values h' = add_mset (e_value e) (store_values ?h)" using store_values_gone e' by metis
      then show ?thesis using store_values_same [OF sd] that by (simp add: owned_def)
    qed
    moreover have "same_setup t ?t" by (simp add: same_setup_def)
    ultimately show ?thesis using ev by blast
  qed
qed

lemma clean_ok:
  assumes ok: "zc_ok hash equal kv t m"
  shows "\<exists>t'. zc_hashtable_clean t = Some t' \<and> zc_ok hash equal kv t' Map.empty \<and> same_setup t t' \<and>
    (value_del t \<longrightarrow> owned t' = owned t)"
proof -
  obtain cs where inv: "zc_inv t cs" and fns: "hash_fn t = hash" "equal_fn t = equal" using ok by (auto simp: zc_ok_def)
  note iv = inv [unfolded zc_inv_def]
  let ?n = "tab_size t"
  have c: "chain_tab (zc_store t) ?n (zc_tab t) cs" using iv by simp
  have len: "length (zc_tab t) = ?n" using c by (simp add: chain_tab_def)
  have "\<forall>j \<in> {0..<0 + ?n}. nl (zc_store t) (zc_tab t ! j) (cs j)" using chain_nl [OF c] by simp
  moreover have "\<forall>j \<in> {0..<0 + ?n}. \<forall>k \<in> {0..<0 + ?n}. j \<noteq> k \<longrightarrow> set (cs j) \<inter> set (cs k) = {}"
    using chains_disjoint [OF c] by auto
  moreover have "0 + ?n \<le> length (zc_tab t)" using len by simp
  ultimately obtain t1 where t1: "free_chains True 0 ?n t = Some t1"
    "zc_store t1 = (\<lambda>x. if x \<in> (\<Union>j \<in> {0..<0 + ?n}. set (cs j)) then None else zc_store t x)"
    "length (zc_tab t1) = length (zc_tab t)" "\<forall>j \<in> {0..<0 + ?n}. zc_tab t1 ! j = None"
    "tab_size t1 = ?n" "same_setup t t1"
    "values_freed t1 = values_freed t @ (if value_del t then values_at (zc_store t) (concat (map cs [0..<0 + ?n])) else [])"
    using free_chains_ok [of 0 ?n t cs True] by auto
  let ?t = "t1\<lparr>nelem := 0\<rparr>"
  have "(\<Union>j \<in> {0..<0 + ?n}. set (cs j)) = dom (zc_store t)" using iv by (auto simp: members_def)
  then have st: "zc_store t1 = Map.empty" using t1(2) by (auto simp: fun_eq_iff domIff)
  have "zc_inv ?t (\<lambda>_. [])" using iv st t1(3-5) len by (simp add: zc_inv_def chain_tab_def members_def)
  moreover have "zc_rel kv ?t Map.empty" using st by (simp add: zc_rel_def)
  ultimately have "zc_ok hash equal kv ?t Map.empty" using fns t1(6) by (auto simp: zc_ok_def same_setup_def)
  moreover have "owned ?t = owned t" if "value_del t"
  proof -
    have "mset (concat (map cs [0..<?n])) = mset_set (dom (zc_store t))"
      using walk_distinct [OF inv] by (metis mset_set_set)
    then have "mset (values_at (zc_store t) (concat (map cs [0..<?n]))) = store_values (zc_store t)"
      unfolding values_at_def store_values_def by (simp only: mset_map)
    then show ?thesis using st t1(7) that by (simp add: owned_def store_values_def)
  qed
  moreover have "zc_hashtable_clean t = Some ?t" using t1(1) by (simp add: zc_hashtable_clean_def)
  moreover have "same_setup t ?t" using t1(6) by (simp add: same_setup_def)
  ultimately show ?thesis by blast
qed

lemma run_ok:
  assumes "zc_ok hash equal kv t m" and addr: "\<And>h :: ('k, 'v) zc_heap. finite (dom h) \<Longrightarrow> h (addr h) = None"
  shows "\<exists>t'. zc_run addr ops t = Some (fst (map_run kv ops m), t') \<and> zc_ok hash equal kv t' (snd (map_run kv ops m)) \<and>
    (value_del t \<longrightarrow> owned t' = owned t + mset (puts_of ops))"
  using assms(1)
proof (induction ops arbitrary: t m)
  case (Cons op ops)
  have f: "finite (dom (zc_store t))" using Cons.prems finite_store by (auto simp: zc_ok_def)
  have step: "\<exists>t1. zc_do addr op t = Some (r, t1) \<and> zc_ok hash equal kv t1 m1 \<and> same_setup t t1 \<and>
      (value_del t \<longrightarrow> owned t1 = owned t + mset (puts_of [op]))"
    if "map_run kv [op] m = (r, m1)" for r m1
  proof (cases op)
    case (ZPut k v)
    then show ?thesis using that put_ok [OF Cons.prems addr [OF f], of k v] by (auto simp: zc_do_def)
  next
    case (ZGet k)
    obtain cs where "zc_inv t cs" "hash_fn t = hash" "equal_fn t = equal" "zc_rel kv t m" using Cons.prems by (auto simp: zc_ok_def)
    then have "zc_hashtable_get t k = Some (m (kv k))" by (rule get_ok)
    then show ?thesis using that ZGet Cons.prems by (auto simp: zc_do_def same_setup_def)
  next
    case (ZRemove k)
    then show ?thesis using that remove_ok [OF Cons.prems, of k] by (auto simp: zc_do_def)
  next
    case ZClean
    then show ?thesis using that clean_ok [OF Cons.prems] by (auto simp: zc_do_def)
  qed
  obtain r m1 where rm: "map_run kv [op] m = (r, m1)" by (rule prod.exhaust)
  obtain t1 where t1: "zc_do addr op t = Some (r, t1)" "zc_ok hash equal kv t1 m1" "same_setup t t1"
    "value_del t \<longrightarrow> owned t1 = owned t + mset (puts_of [op])"
    using step [OF rm] by blast
  have all: "map_run kv (op # ops) m = (r @ fst (map_run kv ops m1), snd (map_run kv ops m1))"
    using rm by (cases op) (auto split: prod.split)
  have p: "mset (puts_of (op # ops)) = mset (puts_of [op]) + mset (puts_of ops)" by (cases op) auto
  show ?case using Cons.IH [OF t1(2)] t1 unfolding all p by (auto simp: same_setup_def add.assoc)
qed simp

end

text \<open>Strings.\<close>

interpretation zcs: zc_keys zc_hashtable_str_hash zc_hashtable_str_equal "\<lambda>s. s"
  by unfold_locales (simp_all add: zc_hashtable_str_equal_def)

end
