(* ===== verification/ZlogReload.thy ===== *)
theory ZlogReload
  imports ZlogCategory ZcHashRefine
begin

text \<open>
  The table of the categories of the logger (\<^verbatim>\<open>contrib/zlog/src/category_table.c\<close>) and \<open>zlog_reload\<close>
  (\<^verbatim>\<open>zlog.c\<close>), which replaces the rules of all of them. \<open>c1\<close>, \<open>c2\<close> and \<open>m\<close> say for each name of a
  category whether its allocations succeed.
\<close>

section \<open>The table\<close>

type_synonym category_table = "(string, zlog_category) zc_hashtable"

definition zlog_category_table_new :: "bool \<Rightarrow> bool \<Rightarrow> category_table option" where
  "zlog_category_table_new c1 c2 = zc_hashtable_new 20 zc_hashtable_str_hash zc_hashtable_str_equal False True c1 c2"

text \<open>
  The loop over the table that changes the categories in place; \<open>f\<close> gives 0 to go on. A category is
  the value of its entry.
\<close>

partial_function (option) foreach_do ::
  "('v \<Rightarrow> (int \<times> 'v) option) \<Rightarrow> nat option \<Rightarrow> ('k, 'v) zc_hashtable \<Rightarrow> (int \<times> ('k, 'v) zc_hashtable) option" where
  "foreach_do f p t = (case p of
     None \<Rightarrow> Some (0, t)
   | Some a \<Rightarrow> do {
       e \<leftarrow> zc_deref t a;
       (rc, v) \<leftarrow> f (e_value e);
       t \<leftarrow> put_entry a (e\<lparr>e_value := v\<rparr>) t;
       if rc \<noteq> 0 then Some (- 1, t)
       else do { q \<leftarrow> zc_hashtable_next t a; foreach_do f q t } })"

definition zlog_category_table_update_rules ::
  "(string \<Rightarrow> bool) \<Rightarrow> (string \<Rightarrow> bool) \<Rightarrow> (string \<Rightarrow> bool) \<Rightarrow> category_table \<Rightarrow> zlog_rule arraylist \<Rightarrow> (int \<times> category_table) option" where
  "zlog_category_table_update_rules c1 c2 m t new_rules = do {
     p \<leftarrow> zc_hashtable_begin t;
     foreach_do (\<lambda>cat. zlog_category_update_rules (c1 (cat_name cat)) (c2 (cat_name cat)) (m (cat_name cat)) cat new_rules) p t }"

definition zlog_category_table_commit_rules :: "category_table \<Rightarrow> category_table option" where
  "zlog_category_table_commit_rules t = do {
     p \<leftarrow> zc_hashtable_begin t;
     (_, t) \<leftarrow> foreach_do (\<lambda>cat. map_option (Pair 0) (zlog_category_commit_rules cat)) p t;
     Some t }"

definition zlog_category_table_rollback_rules :: "category_table \<Rightarrow> category_table option" where
  "zlog_category_table_rollback_rules t = do {
     p \<leftarrow> zc_hashtable_begin t;
     (_, t) \<leftarrow> foreach_do (\<lambda>cat. map_option (Pair 0) (zlog_category_rollback_rules cat)) p t;
     Some t }"

text \<open>\<open>rm\<close> and \<open>mem\<close> are the allocations of \<open>zc_hashtable_put\<close>.\<close>

definition zlog_category_table_fetch_category ::
  "bool \<Rightarrow> bool \<Rightarrow> bool \<Rightarrow> bool \<Rightarrow> bool \<Rightarrow> nat option \<Rightarrow> category_table \<Rightarrow> string \<Rightarrow> zlog_rule arraylist \<Rightarrow>
    (zlog_category option \<times> category_table) option" where
  "zlog_category_table_fetch_category c0 c1 c2 m rm mem t name rules = do {
     x \<leftarrow> zc_hashtable_get t name;
     case x of
       Some cat \<Rightarrow> Some (Some cat, t)
     | None \<Rightarrow> do {
         y \<leftarrow> zlog_category_new c0 c1 c2 m name rules;
         case y of
           None \<Rightarrow> Some (None, t)
         | Some cat \<Rightarrow> do {
             (rc, t) \<leftarrow> zc_hashtable_put rm mem t (cat_name cat) cat;
             if rc \<noteq> 0 then do { _ \<leftarrow> del_rules (fit_rules cat); Some (None, t) }
             else Some (Some cat, t) } } }"

section \<open>Loading a configuration\<close>

text \<open>
  What \<open>zlog_reload\<close> uses of the configuration and of the state of the logger. \<open>freed_rules\<close> are the
  rules that were freed with their configuration. The argument is a path, null or -1.
\<close>

record zlog_conf =
  cf_file :: string
  cf_rules :: "zlog_rule arraylist"
  reload_conf_period :: nat

record zlog_env =
  env_is_init :: bool
  env_conf :: zlog_conf
  env_categories :: category_table
  env_records :: "(string, nat) zc_hashtable"
  env_init_version :: int
  env_reload_conf_count :: nat
  freed_rules :: "zlog_rule list"

datatype conf_arg = LastConf | WhenDue | ConfPath string

fun record_loop :: "(string \<Rightarrow> nat option option) \<Rightarrow> zlog_rule option list \<Rightarrow> zlog_rule option list option" where
  "record_loop g [] = Some []"
| "record_loop g (u # us) = do {
     r \<leftarrow> u;
     (_, r) \<leftarrow> zlog_rule_set_record r g;
     us \<leftarrow> record_loop g us;
     Some (Some r # us) }"

definition set_records :: "(string \<Rightarrow> nat option option) \<Rightarrow> zlog_rule arraylist \<Rightarrow> zlog_rule arraylist option" where
  "set_records g rules = do {
     us \<leftarrow> al_units rules;
     us' \<leftarrow> record_loop g us;
     a \<leftarrow> al_array rules;
     Some (rules\<lparr>al_array := Some (us' @ drop (length us) a)\<rparr>) }"

text \<open>\<open>conf_new\<close> is \<open>zlog_conf_new\<close>; \<open>None\<close> is its null pointer. Deleting a configuration frees its rules.\<close>

definition zlog_reload ::
  "int \<Rightarrow> int \<Rightarrow> (string \<Rightarrow> zlog_conf option) \<Rightarrow> (string \<Rightarrow> bool) \<Rightarrow> (string \<Rightarrow> bool) \<Rightarrow> (string \<Rightarrow> bool) \<Rightarrow> conf_arg \<Rightarrow> zlog_env \<Rightarrow>
    (int \<times> zlog_env) option" where
  "zlog_reload lock unlock conf_new c1 c2 m arg env =
     (let quit = Some (if unlock \<noteq> 0 then - 1 else 0, env); file = cf_file (env_conf env) in
      if lock \<noteq> 0 then Some (- 1, env)
      else if \<not> env_is_init env then quit
      else (case (case arg of
            LastConf \<Rightarrow> Some file
          | WhenDue \<Rightarrow> if reload_conf_period (env_conf env) < env_reload_conf_count env then Some file else None
          | ConfPath path \<Rightarrow> Some path) of
        None \<Rightarrow> quit
      | Some path \<Rightarrow> (
          let env = env\<lparr>env_reload_conf_count := 0\<rparr> in
          case conf_new path of
            None \<Rightarrow> Some (- 1, env)
          | Some new_conf \<Rightarrow> do {
              rules \<leftarrow> set_records (zc_hashtable_get (env_records env)) (cf_rules new_conf);
              (rc, t) \<leftarrow> zlog_category_table_update_rules c1 c2 m (env_categories env) rules;
              let c_up = (rc = 0);
              if \<not> c_up then do {
                freed \<leftarrow> zc_arraylist_del rules;
                t \<leftarrow> (if c_up then zlog_category_table_rollback_rules t else Some t);
                Some (- 1, env\<lparr>env_categories := t, freed_rules := freed_rules env @ freed\<rparr>) }
              else do {
                t \<leftarrow> (if c_up then zlog_category_table_commit_rules t else Some t);
                freed \<leftarrow> zc_arraylist_del (cf_rules (env_conf env));
                Some (if unlock \<noteq> 0 then - 1 else 0, env\<lparr>env_init_version := env_init_version env + 1,
                  env_categories := t, env_conf := new_conf\<lparr>cf_rules := rules\<rparr>, freed_rules := freed_rules env @ freed\<rparr>) } })))"

text \<open>
  One message, as \<open>vzlog\<close> writes it for the category of the name: \<open>got\<close> says whether
  \<open>zlog_fetch_thread\<close> succeeds, \<open>out\<close> is the output function of a rule on the event, and the
  remaining parameters are those of \<open>zlog_reload\<close>, which is run when enough messages have been written.
\<close>

definition vzlog ::
  "bool \<Rightarrow> (zlog_rule \<Rightarrow> 'w \<Rightarrow> int \<times> 'w) \<Rightarrow> int \<Rightarrow> int \<Rightarrow> (string \<Rightarrow> zlog_conf option) \<Rightarrow> (string \<Rightarrow> bool) \<Rightarrow>
    (string \<Rightarrow> bool) \<Rightarrow> (string \<Rightarrow> bool) \<Rightarrow> string \<Rightarrow> int \<Rightarrow> zlog_env \<Rightarrow> 'w \<Rightarrow> (zlog_env \<times> 'w) option" where
  "vzlog got out lock unlock conf_new c1 c2 m name lv env w = do {
     x \<leftarrow> zc_hashtable_get (env_categories env) name;
     cat \<leftarrow> x;
     needless \<leftarrow> zlog_category_needless_level cat lv;
     if needless then Some (env, w)
     else if \<not> env_is_init env then Some (env, w)
     else if \<not> got then Some (env, w)
     else do {
       (rc, w) \<leftarrow> zlog_category_output out cat lv w;
       if rc \<noteq> 0 then Some (env, w)
       else if reload_conf_period (env_conf env) = 0 then Some (env, w)
       else do {
         let env = env\<lparr>env_reload_conf_count := env_reload_conf_count env + 1\<rparr>;
         if reload_conf_period (env_conf env) < env_reload_conf_count env then do {
           (rc, env) \<leftarrow> zlog_reload lock unlock conf_new c1 c2 m WhenDue env;
           Some (env, w) }
         else Some (env, w) } } }"

section \<open>The loop\<close>

fun do_list :: "('v \<Rightarrow> (int \<times> 'v) option) \<Rightarrow> nat list \<Rightarrow> ('k, 'v) zc_hashtable \<Rightarrow> (int \<times> ('k, 'v) zc_hashtable) option" where
  "do_list f [] t = Some (0, t)"
| "do_list f (a # as) t = do {
     e \<leftarrow> zc_deref t a;
     (rc, v) \<leftarrow> f (e_value e);
     t \<leftarrow> put_entry a (e\<lparr>e_value := v\<rparr>) t;
     if rc \<noteq> 0 then Some (- 1, t) else do_list f as t }"

definition same_links :: "('k, 'v) zc_hashtable \<Rightarrow> ('k, 'v) zc_hashtable \<Rightarrow> bool" where
  "same_links t t' \<longleftrightarrow> zc_tab t' = zc_tab t \<and> tab_size t' = tab_size t \<and>
     (\<forall>a. map_option (\<lambda>e. (hash_key e, e_next e)) (zc_store t' a) = map_option (\<lambda>e. (hash_key e, e_next e)) (zc_store t a))"

lemma next_links: "same_links t t' \<Longrightarrow> zc_hashtable_next t' a = zc_hashtable_next t a"
proof -
  assume l: "same_links t t'"
  then have "map_option (\<lambda>e. (hash_key e, e_next e)) (zc_store t' a) = map_option (\<lambda>e. (hash_key e, e_next e)) (zc_store t a)"
    by (simp add: same_links_def)
  then show ?thesis using l
    by (cases "zc_store t a"; cases "zc_store t' a") (auto simp: zc_hashtable_next_def zc_deref_def same_links_def bucket_def split: option.split)
qed

lemma foreach_from_Cons: "foreach_from t p = Some xs \<longleftrightarrow> (p = None \<and> xs = []) \<or>
    (\<exists>a q ys. p = Some a \<and> xs = a # ys \<and> zc_hashtable_next t a = Some q \<and> foreach_from t q = Some ys)"
  by (subst foreach_from.simps) (auto simp: bind_Some_iff split: option.split)

lemma foreach_links: "same_links t t' \<Longrightarrow> foreach_from t p = Some xs \<Longrightarrow> foreach_from t' p = Some xs"
proof (induction xs arbitrary: p)
  case Nil
  then have "p = None" by (simp add: foreach_from_Cons [of t p])
  then show ?case by (simp add: foreach_from.simps)
next
  case (Cons a xs)
  then obtain q where "p = Some a" "zc_hashtable_next t a = Some q" "foreach_from t q = Some xs"
    by (auto simp: foreach_from_Cons [of t p])
  moreover from this have "foreach_from t' q = Some xs" using Cons by blast
  ultimately show ?case using next_links [OF Cons.prems(1)] by (simp add: foreach_from.simps [of t' "Some a"])
qed

lemma foreach_do_list: "foreach_from t p = Some xs \<Longrightarrow> foreach_do f p t = do_list f xs t"
proof (induction xs arbitrary: p t)
  case Nil
  then have "p = None" by (simp add: foreach_from_Cons [of t p])
  then show ?case by (simp add: foreach_do.simps)
next
  case (Cons a xs)
  then obtain q where q: "p = Some a" "zc_hashtable_next t a = Some q" "foreach_from t q = Some xs"
    by (auto simp: foreach_from_Cons [of t p])
  have step: "zc_hashtable_next t1 a = Some q \<and> foreach_do f q t1 = do_list f xs t1"
    if "zc_store t a = Some e" "t1 = t\<lparr>zc_store := (zc_store t)(a \<mapsto> e\<lparr>e_value := v\<rparr>)\<rparr>" for e v t1
  proof -
    have l: "same_links t t1" using that by (simp add: same_links_def)
    show ?thesis using next_links [OF l] Cons.IH [OF foreach_links [OF l q(3)]] q(2) by simp
  qed
  show ?case
  proof (cases "zc_store t a")
    case None
    then show ?thesis using q(1) by (subst foreach_do.simps) (simp add: zc_deref_def)
  next
    case (Some e)
    show ?thesis
    proof (cases "f (e_value e)")
      case None
      then show ?thesis using q(1) Some by (subst foreach_do.simps) (simp add: zc_deref_def)
    next
      case (Some x)
      obtain rc v where "x = (rc, v)" by (rule prod.exhaust)
      then show ?thesis using q(1) Some \<open>zc_store t a = Some e\<close> step [OF \<open>zc_store t a = Some e\<close> refl, of v]
        by (subst foreach_do.simps) (simp add: zc_deref_def put_entry_def)
    qed
  qed
qed

text \<open>The addresses up to the first at which \<open>P\<close> is true, and the store with \<open>f\<close> applied there.\<close>

fun visited :: "(nat \<Rightarrow> bool) \<Rightarrow> nat list \<Rightarrow> nat list" where
  "visited P [] = []"
| "visited P (a # as) = a # (if P a then [] else visited P as)"

definition visit_store :: "('v \<Rightarrow> (int \<times> 'v) option) \<Rightarrow> nat set \<Rightarrow> ('k, 'v) zc_heap \<Rightarrow> ('k, 'v) zc_heap" where
  "visit_store f vs h = (\<lambda>a. if a \<in> vs then map_option (\<lambda>e. e\<lparr>e_value := snd (the (f (e_value e)))\<rparr>) (h a) else h a)"

lemma visited_sub: "set (visited P xs) \<subseteq> set xs"
  by (induction xs) auto

lemma visited_all: "\<forall>a \<in> set xs. \<not> P a \<Longrightarrow> visited P xs = xs"
  by (induction xs) auto

lemma visited_bad: "\<exists>a \<in> set xs. P a \<Longrightarrow> \<exists>a \<in> set (visited P xs). P a"
  by (induction xs) auto

lemma visited_cong: "(\<And>a. a \<in> set xs \<Longrightarrow> P a = Q a) \<Longrightarrow> visited P xs = visited Q xs"
  by (induction xs) auto

definition fails :: "('v \<Rightarrow> (int \<times> 'v) option) \<Rightarrow> ('k, 'v) zc_heap \<Rightarrow> nat \<Rightarrow> bool" where
  "fails f h a \<longleftrightarrow> fst (the (f (e_value (the (h a))))) \<noteq> 0"

lemma do_list_eq:
  assumes "distinct xs" and "\<forall>a \<in> set xs. \<exists>e. zc_store t a = Some e \<and> f (e_value e) \<noteq> None"
  shows "do_list f xs t = Some (if \<exists>a \<in> set xs. fails f (zc_store t) a then - 1 else 0,
    t\<lparr>zc_store := visit_store f (set (visited (fails f (zc_store t)) xs)) (zc_store t)\<rparr>)"
  using assms
proof (induction xs arbitrary: t)
  case Nil
  then show ?case by (simp add: visit_store_def)
next
  case (Cons a xs)
  obtain e rc v where e: "zc_store t a = Some e" "f (e_value e) = Some (rc, v)" using Cons.prems(2) by fastforce
  define h where "h = (zc_store t)(a \<mapsto> e\<lparr>e_value := v\<rparr>)"
  have p: "put_entry a (e\<lparr>e_value := v\<rparr>) t = Some (t\<lparr>zc_store := h\<rparr>)"
    using e by (simp add: put_entry_def zc_deref_def h_def)
  have a: "a \<notin> set xs" "distinct xs" using Cons.prems(1) by simp_all
  have fa: "fails f (zc_store t) a \<longleftrightarrow> rc \<noteq> 0" using e by (simp add: fails_def)
  have fx: "fails f h b = fails f (zc_store t) b" if "b \<in> set xs" for b using that a(1) by (auto simp: fails_def h_def)
  show ?case
  proof (cases "rc = 0")
    case False
    have "visit_store f {a} (zc_store t) = h" using e by (auto simp: visit_store_def h_def)
    then show ?thesis using e fa False p by (simp add: zc_deref_def)
  next
    case True
    have "\<forall>b \<in> set xs. \<exists>d. zc_store (t\<lparr>zc_store := h\<rparr>) b = Some d \<and> f (e_value d) \<noteq> None" using Cons.prems(2) a(1) by (auto simp: h_def)
    from Cons.IH [OF a(2) this] have ih: "do_list f xs (t\<lparr>zc_store := h\<rparr>) =
        Some (if \<exists>b \<in> set xs. fails f (zc_store t) b then - 1 else 0,
          t\<lparr>zc_store := visit_store f (set (visited (fails f (zc_store t)) xs)) h\<rparr>)"
      using fx visited_cong [OF fx, of xs] by simp
    have "a \<notin> set (visited (fails f (zc_store t)) xs)" using visited_sub a(1) by blast
    then have "visit_store f (set (visited (fails f (zc_store t)) xs)) h =
        visit_store f (insert a (set (visited (fails f (zc_store t)) xs))) (zc_store t)"
      using e by (auto simp: visit_store_def h_def)
    then show ?thesis using e fa True ih p by (simp add: zc_deref_def)
  qed
qed

lemma visit_dl: "dl h pv p xs \<Longrightarrow> dl (visit_store f vs h) pv p xs"
  by (induction xs arbitrary: pv p) (auto simp: visit_store_def)

lemma visit_some: "visit_store f vs h a = Some e' \<longleftrightarrow>
    (\<exists>e. h a = Some e \<and> e' = (if a \<in> vs then e\<lparr>e_value := snd (the (f (e_value e)))\<rparr> else e))"
  by (auto simp: visit_store_def)

lemma visit_dom [simp]: "dom (visit_store f vs h) = dom h"
  by (rule set_eqI) (simp add: visit_store_def domIff)

lemma visit_inv:
  assumes "zc_inv t cs"
  shows "zc_inv (t\<lparr>zc_store := visit_store f vs (zc_store t)\<rparr>) cs"
proof -
  note iv = assms [unfolded zc_inv_def]
  have "chain_tab (visit_store f vs (zc_store t)) (tab_size t) (zc_tab t) cs"
    unfolding chain_tab_def
  proof (intro conjI allI impI ballI)
    fix j assume j: "j < tab_size t"
    have "dl (zc_store t) None (zc_tab t ! j) (cs j)" using iv j by (simp add: chain_tab_def)
    then show "dl (visit_store f vs (zc_store t)) None (zc_tab t ! j) (cs j)" by (rule visit_dl)
    fix a assume "a \<in> set (cs j)"
    then obtain e where "zc_store t a = Some e" "unat (hash_key e) mod tab_size t = j"
      using iv j unfolding chain_tab_def by blast
    then show "\<exists>e. visit_store f vs (zc_store t) a = Some e \<and> unat (hash_key e) mod tab_size t = j"
      by (auto simp: visit_store_def)
  qed (use iv in \<open>simp add: chain_tab_def\<close>)
  moreover have "hash_key e = hash_fn t (e_key e)" if "visit_store f vs (zc_store t) a = Some e" for a e
    using that iv by (auto simp: visit_some)
  moreover have "a = b" if "visit_store f vs (zc_store t) a = Some ea" "visit_store f vs (zc_store t) b = Some eb"
    "equal_fn t (e_key ea) (e_key eb)" for a b ea eb
  proof -
    note prems = that
    obtain ea' eb' where "zc_store t a = Some ea'" "zc_store t b = Some eb'" "e_key ea = e_key ea'" "e_key eb = e_key eb'"
      using prems(1,2) unfolding visit_some by fastforce
    then show ?thesis using iv prems(3) by metis
  qed
  ultimately show ?thesis using iv by (simp add: zc_inv_def)
qed

lemma cats_visited:
  assumes inv: "zc_inv t cs" and f: "\<forall>a e. zc_store t a = Some e \<longrightarrow> f (e_value e) \<noteq> None"
  shows "\<exists>p vs. zc_hashtable_begin t = Some p \<and> vs \<subseteq> dom (zc_store t) \<and>
    foreach_do f p t = Some (if \<exists>a \<in> dom (zc_store t). fails f (zc_store t) a then - 1 else 0, t\<lparr>zc_store := visit_store f vs (zc_store t)\<rparr>) \<and>
    (if \<exists>a \<in> dom (zc_store t). fails f (zc_store t) a then \<exists>a \<in> vs. fails f (zc_store t) a else vs = dom (zc_store t))"
proof -
  define walk where "walk = concat (map cs [0..<tab_size t])"
  let ?P = "fails f (zc_store t)"
  note w = walk_distinct [OF inv, folded walk_def]
  obtain p where p: "zc_hashtable_begin t = Some p" "foreach_from t p = Some walk"
    using foreach_ok [OF inv, folded walk_def] by (auto simp: zc_hashtable_foreach_def bind_Some_iff)
  have "\<forall>a \<in> set walk. \<exists>e. zc_store t a = Some e \<and> f (e_value e) \<noteq> None" using f unfolding w(2) by auto
  from do_list_eq [OF w(1) this] have "foreach_do f p t = Some (if \<exists>a \<in> dom (zc_store t). ?P a then - 1 else 0,
      t\<lparr>zc_store := visit_store f (set (visited ?P walk)) (zc_store t)\<rparr>)"
    unfolding foreach_do_list [OF p(2)] w(2) .
  moreover have "if \<exists>a \<in> dom (zc_store t). ?P a then \<exists>a \<in> set (visited ?P walk). ?P a else set (visited ?P walk) = dom (zc_store t)"
    using visited_bad [of walk ?P] visited_all [of walk ?P] unfolding w(2) [symmetric] by auto
  moreover have "set (visited ?P walk) \<subseteq> dom (zc_store t)" using visited_sub [of ?P walk] unfolding w(2) .
  ultimately show ?thesis using p(1) by blast
qed

section \<open>Updating, and taking it back\<close>

text \<open>A category without a backup whose rules are \<open>rs\<close>.\<close>

definition settled :: "zlog_category \<Rightarrow> zlog_rule list \<Rightarrow> bool" where
  "settled cat rs \<longleftrightarrow> cat_holds cat rs \<and> fit_rules_backup cat = None \<and> cat_bitmap_backup cat = replicate 32 0"

text \<open>A list of rules of a configuration.\<close>

definition rules_list :: "zlog_rule arraylist \<Rightarrow> zlog_rule list \<Rightarrow> bool" where
  "rules_list l rs \<longleftrightarrow> (\<exists>k. holds l rs k) \<and> length rs < 2 ^ 30 \<and> (\<forall>r \<in> set rs. rl_category r \<noteq> [])"

lemma del_holds: "holds l xs m \<Longrightarrow> del_rules (Some l) \<noteq> None"
  by (simp add: del_rules_def zc_arraylist_del_def holds_def)

lemma update_ok:
  assumes v: "settled v old" and R: "rules_list R rs"
  shows "\<exists>v'. zlog_category_update_rules c1 c2 True v R = Some (if c1 \<and> c2 then 0 else - 1, v') \<and> cat_name v' = cat_name v \<and>
    zlog_category_rollback_rules v' = Some v \<and>
    (if c1 \<and> c2 then cat_holds v' (selected_rules (cat_name v) rs) \<and>
       (\<exists>w. zlog_category_commit_rules v' = Some w \<and> cat_name w = cat_name v \<and> settled w (selected_rules (cat_name v) rs))
     else silent v')"
proof -
  obtain l m where l: "fit_rules v = Some l" "holds l old m" "fit_rules_backup v = None" "cat_bitmap_backup v = replicate 32 0"
    using v by (auto simp: settled_def cat_holds_def)
  obtain k where R: "holds R rs k" "length rs < 2 ^ 30" "\<forall>r \<in> set rs. rl_category r \<noteq> []" using R by (auto simp: rules_list_def)
  define v0 where "v0 = v\<lparr>fit_rules_backup := fit_rules v, fit_rules := None, cat_bitmap_backup := cat_bitmap v\<rparr>"
  have nm: "cat_name v0 = cat_name v" by (simp add: v0_def)
  obtain v1 where v1: "zlog_category_obtain_rules c1 c2 True v0 R = Some (if c1 \<and> c2 then 0 else - 1, v1)" "same_rest v0 v1"
    "if c1 \<and> c2 then cat_holds v1 (selected_rules (cat_name v) rs) else silent v1"
    using obtain_ok [OF R, of v0 c1 c2] unfolding nm by (auto simp: v0_def del_rules_def silent_def)
  have ev: "zlog_category_update_rules c1 c2 True v R = Some (if c1 \<and> c2 then 0 else - 1, if c1 \<and> c2 then v1 else v1\<lparr>fit_rules := None\<rparr>)"
    using v1(1) l(3) by (auto simp: zlog_category_update_rules_def v0_def del_rules_def)
  have b: "fit_rules_backup v1 = Some l" "cat_bitmap_backup v1 = cat_bitmap v" "cat_name v1 = cat_name v"
    using v1(2) l(1) by (simp_all add: same_rest_def v0_def)
  have d: "del_rules (Some l) \<noteq> None" by (rule del_holds [OF l(2)])
  show ?thesis
  proof (cases "c1 \<and> c2")
    case True
    then obtain l' m' where l': "fit_rules v1 = Some l'" "holds l' (selected_rules (cat_name v) rs) m'"
      "cat_bitmap v1 = union_bitmap (selected_rules (cat_name v) rs)" using v1(3) by (auto simp: cat_holds_def)
    have "zlog_category_rollback_rules v1 = Some v"
      using del_holds [OF l'(2)] b l l'(1) by (auto simp: zlog_category_rollback_rules_def intro!: zlog_category.equality)
    moreover have "zlog_category_commit_rules v1 = Some (v1\<lparr>fit_rules_backup := None, cat_bitmap_backup := replicate 32 0\<rparr>)"
      using d b(1) by (auto simp: zlog_category_commit_rules_def)
    ultimately show ?thesis using ev True b l' by (auto simp: settled_def cat_holds_def)
  next
    case False
    have "zlog_category_rollback_rules (v1\<lparr>fit_rules := None\<rparr>) = Some v"
      using b l by (auto simp: zlog_category_rollback_rules_def intro!: zlog_category.equality)
    then show ?thesis using ev False b v1(3) by (auto simp: silent_def)
  qed
qed

abbreviation update_fn :: "(string \<Rightarrow> bool) \<Rightarrow> (string \<Rightarrow> bool) \<Rightarrow> zlog_rule arraylist \<Rightarrow> zlog_category \<Rightarrow> (int \<times> zlog_category) option" where
  "update_fn c1 c2 R \<equiv> (\<lambda>cat. zlog_category_update_rules (c1 (cat_name cat)) (c2 (cat_name cat)) True cat R)"

lemma rollback_settled: "settled v old \<Longrightarrow> zlog_category_rollback_rules v = Some v"
  by (simp add: settled_def zlog_category_rollback_rules_def)

text \<open>The table after an update: some categories, or all of them, have been given new rules.\<close>

lemma table_update_eq:
  fixes c1 c2 :: "string \<Rightarrow> bool"
  assumes inv: "zc_inv t cs" and all: "\<forall>a e. zc_store t a = Some e \<longrightarrow> (\<exists>old. settled (e_value e) old)" and R: "rules_list R rs"
  defines "bad \<equiv> \<exists>a e. zc_store t a = Some e \<and> \<not> (c1 (cat_name (e_value e)) \<and> c2 (cat_name (e_value e)))"
  shows "\<exists>vs. vs \<subseteq> dom (zc_store t) \<and> zlog_category_table_update_rules c1 c2 (\<lambda>_. True) t R =
      Some (if bad then - 1 else 0, t\<lparr>zc_store := visit_store (update_fn c1 c2 R) vs (zc_store t)\<rparr>) \<and>
    (if bad then \<exists>a e. a \<in> vs \<and> zc_store t a = Some e \<and> \<not> (c1 (cat_name (e_value e)) \<and> c2 (cat_name (e_value e)))
     else vs = dom (zc_store t))"
proof -
  let ?f = "update_fn c1 c2 R"
  have f: "\<exists>v'. ?f (e_value e) = Some (if c1 (cat_name (e_value e)) \<and> c2 (cat_name (e_value e)) then 0 else - 1, v')"
    if "zc_store t a = Some e" for a e using all that update_ok [OF _ R] by blast
  have fa: "fails ?f (zc_store t) a \<longleftrightarrow> \<not> (c1 (cat_name (e_value e)) \<and> c2 (cat_name (e_value e)))" if "zc_store t a = Some e" for a e
    using f [OF that] that by (auto simp: fails_def)
  have bad: "(\<exists>a \<in> dom (zc_store t). fails ?f (zc_store t) a) = bad"
  proof
    assume "\<exists>a \<in> dom (zc_store t). fails ?f (zc_store t) a"
    then obtain a e where "zc_store t a = Some e" "fails ?f (zc_store t) a" by blast
    then show bad using fa unfolding bad_def by blast
  next
    assume bad
    then obtain a e where "zc_store t a = Some e" "fails ?f (zc_store t) a" using fa unfolding bad_def by blast
    then show "\<exists>a \<in> dom (zc_store t). fails ?f (zc_store t) a" by blast
  qed
  have "\<forall>a e. zc_store t a = Some e \<longrightarrow> ?f (e_value e) \<noteq> None" using f by fastforce
  from cats_visited [OF inv this] obtain p vs where r: "zc_hashtable_begin t = Some p" "vs \<subseteq> dom (zc_store t)"
    "foreach_do ?f p t = Some (if bad then - 1 else 0, t\<lparr>zc_store := visit_store ?f vs (zc_store t)\<rparr>)"
    "if bad then \<exists>a \<in> vs. fails ?f (zc_store t) a else vs = dom (zc_store t)"
    unfolding bad by blast
  have "zlog_category_table_update_rules c1 c2 (\<lambda>_. True) t R =
      Some (if bad then - 1 else 0, t\<lparr>zc_store := visit_store ?f vs (zc_store t)\<rparr>)"
    using r(1,3) by (simp add: zlog_category_table_update_rules_def)
  moreover have "if bad then \<exists>a e. a \<in> vs \<and> zc_store t a = Some e \<and> \<not> (c1 (cat_name (e_value e)) \<and> c2 (cat_name (e_value e)))
     else vs = dom (zc_store t)"
  proof (cases bad)
    case True
    then obtain a where a: "a \<in> vs" "fails ?f (zc_store t) a" using r(4) by auto
    then obtain e where e: "zc_store t a = Some e" using r(2) by blast
    have "\<not> (c1 (cat_name (e_value e)) \<and> c2 (cat_name (e_value e)))" using fa [OF e] a(2) by blast
    then show ?thesis using True a(1) e by auto
  next
    case False
    then show ?thesis using r(4) by simp
  qed
  ultimately show ?thesis using r(2) by blast
qed

lemma run_total:
  assumes inv: "zc_inv t cs" and g: "\<forall>a e. zc_store t a = Some e \<longrightarrow> g (e_value e) \<noteq> None"
  shows "\<exists>p. zc_hashtable_begin t = Some p \<and> foreach_do (\<lambda>v. map_option (Pair 0) (g v)) p t =
    Some (0, t\<lparr>zc_store := (\<lambda>a. map_option (\<lambda>e. e\<lparr>e_value := the (g (e_value e))\<rparr>) (zc_store t a))\<rparr>)"
proof -
  let ?f = "\<lambda>v. map_option (Pair (0 :: int)) (g v)"
  have "\<forall>a e. zc_store t a = Some e \<longrightarrow> ?f (e_value e) \<noteq> None" using g by simp
  moreover have "\<not> fails ?f (zc_store t) a" if "a \<in> dom (zc_store t)" for a
    using that g by (auto simp: fails_def option.map_sel)
  ultimately obtain p where p: "zc_hashtable_begin t = Some p"
    "foreach_do ?f p t = Some (0, t\<lparr>zc_store := visit_store ?f (dom (zc_store t)) (zc_store t)\<rparr>)"
    using cats_visited [OF inv, of ?f] by auto
  have "visit_store ?f (dom (zc_store t)) (zc_store t) a = map_option (\<lambda>e. e\<lparr>e_value := the (g (e_value e))\<rparr>) (zc_store t a)" for a
    using g by (cases "zc_store t a") (auto simp: visit_store_def option.map_sel)
  then show ?thesis using p by (auto simp: fun_eq_iff)
qed

lemma rollback_after_update:
  assumes inv: "zc_inv t cs" and all: "\<forall>a e. zc_store t a = Some e \<longrightarrow> (\<exists>old. settled (e_value e) old)" and R: "rules_list R rs"
  shows "zlog_category_table_rollback_rules (t\<lparr>zc_store := visit_store (update_fn c1 c2 R) vs (zc_store t)\<rparr>) = Some t"
proof -
  let ?f = "update_fn c1 c2 R"
  let ?t = "t\<lparr>zc_store := visit_store ?f vs (zc_store t)\<rparr>"
  have rb: "zlog_category_rollback_rules (if a \<in> vs then snd (the (?f (e_value e))) else e_value e) = Some (e_value e)"
    if e: "zc_store t a = Some e" for a e
  proof -
    obtain old where old: "settled (e_value e) old" using all e by blast
    show ?thesis using update_ok [OF old R, of "c1 (cat_name (e_value e))" "c2 (cat_name (e_value e))"] rollback_settled [OF old] by auto
  qed
  have bk: "map_option (\<lambda>e. e\<lparr>e_value := the (zlog_category_rollback_rules (e_value e))\<rparr>) (zc_store ?t a) = zc_store t a" for a
    using rb [of a] by (cases "zc_store t a") (auto simp: visit_store_def)
  have "\<forall>a e. zc_store ?t a = Some e \<longrightarrow> zlog_category_rollback_rules (e_value e) \<noteq> None"
    using rb by (fastforce simp: visit_some)
  from run_total [OF visit_inv [OF inv] this] obtain p where "zc_hashtable_begin ?t = Some p"
    "foreach_do (\<lambda>v. map_option (Pair 0) (zlog_category_rollback_rules v)) p ?t = Some (0, ?t\<lparr>zc_store := zc_store t\<rparr>)"
    unfolding bk by auto
  then show ?thesis by (simp add: zlog_category_table_rollback_rules_def)
qed

section \<open>Tables of categories\<close>

lemma inv_get:
  assumes inv: "zc_inv t cs" and fns: "hash_fn t = zc_hashtable_str_hash" "equal_fn t = zc_hashtable_str_equal" and e: "zc_store t a = Some e"
  shows "zc_hashtable_get t (e_key e) = Some (Some (e_value e))"
proof -
  have uq: "v = w" if "zc_store t b = Some d" "e_key d = x" "e_value d = v" "zc_store t b' = Some d'" "e_key d' = x" "e_value d' = w" for b d b' d' x v w
  proof -
    have "e_key d = e_key d'" using that(2,5) by simp
    with zcs.keys_differ [OF inv fns(2) that(1,4)] have "b = b'" .
    then show ?thesis using that by simp
  qed
  define m where "m = (\<lambda>x. if \<exists>a e. zc_store t a = Some e \<and> e_key e = x
    then Some (SOME v. \<exists>a e. zc_store t a = Some e \<and> e_key e = x \<and> e_value e = v) else None)"
  have m: "m x = Some v" if "zc_store t b = Some d" "e_key d = x" "e_value d = v" for b d x v
  proof -
    have "(SOME v. \<exists>a e. zc_store t a = Some e \<and> e_key e = x \<and> e_value e = v) = v"
      by (rule some_equality) (use that uq in blast)+
    then show ?thesis using that unfolding m_def by auto
  qed
  have "zc_rel (\<lambda>s. s) t m"
    unfolding zc_rel_def
  proof (intro allI iffI)
    fix x v assume v: "m x = Some v"
    then obtain b d where "zc_store t b = Some d" "e_key d = x" by (auto simp: m_def split: if_splits)
    moreover from this have "e_value d = v" using m [of b d x] v by simp
    ultimately show "\<exists>a e. zc_store t a = Some e \<and> e_key e = x \<and> e_value e = v" by blast
  qed (use m in blast)
  then show ?thesis using zcs.get_ok [OF inv fns, of m "e_key e"] m [OF e] by simp
qed

text \<open>A table whose categories have, under their names, the rules they select of \<open>rs\<close>.\<close>

definition rules_table :: "zlog_rule list \<Rightarrow> category_table \<Rightarrow> bool" where
  "rules_table rs t \<longleftrightarrow> (\<exists>m. zc_ok zc_hashtable_str_hash zc_hashtable_str_equal (\<lambda>s. s) t m \<and>
     (\<forall>x v. m x = Some v \<longrightarrow> cat_name v = x \<and> settled v (selected_rules x rs)))"

definition known :: "category_table \<Rightarrow> string \<Rightarrow> bool" where
  "known t name \<longleftrightarrow> (\<exists>cat. zc_hashtable_get t name = Some (Some cat))"

lemma table_get: "zc_ok zc_hashtable_str_hash zc_hashtable_str_equal (\<lambda>s. s) t m \<Longrightarrow> zc_hashtable_get t x = Some (m x)"
  using zcs.get_ok by (auto simp: zc_ok_def)

lemma get_settled:
  assumes "rules_table rs t"
  shows "zc_hashtable_get t name = Some None \<or>
    (\<exists>cat. zc_hashtable_get t name = Some (Some cat) \<and> cat_name cat = name \<and> settled cat (selected_rules name rs))"
proof -
  obtain m where m: "zc_ok zc_hashtable_str_hash zc_hashtable_str_equal (\<lambda>s. s) t m"
    "\<forall>x v. m x = Some v \<longrightarrow> cat_name v = x \<and> settled v (selected_rules x rs)" using assms by (auto simp: rules_table_def)
  show ?thesis using m(2) table_get [OF m(1), of name] by (cases "m name") auto
qed

lemma table_entries:
  assumes "rules_table rs t" and "zc_store t a = Some e"
  shows "cat_name (e_value e) = e_key e \<and> settled (e_value e) (selected_rules (e_key e) rs)"
proof -
  obtain m where m: "zc_rel (\<lambda>s. s) t m" "\<forall>x v. m x = Some v \<longrightarrow> cat_name v = x \<and> settled v (selected_rules x rs)"
    using assms(1) by (auto simp: rules_table_def zc_ok_def)
  have "m (e_key e) = Some (e_value e)" using m(1) assms(2) unfolding zc_rel_def by blast
  then show ?thesis using m(2) by blast
qed

lemma table_replace:
  assumes t: "rules_table old t" and g: "\<And>v. settled v (selected_rules (cat_name v) old) \<Longrightarrow>
      cat_name (g v) = cat_name v \<and> settled (g v) (selected_rules (cat_name v) new)"
  defines "t' \<equiv> t\<lparr>zc_store := (\<lambda>a. map_option (\<lambda>e. e\<lparr>e_value := g (e_value e)\<rparr>) (zc_store t a))\<rparr>"
  shows "rules_table new t' \<and> known t' = known t"
proof -
  obtain m where m: "zc_ok zc_hashtable_str_hash zc_hashtable_str_equal (\<lambda>s. s) t m"
    "\<forall>x v. m x = Some v \<longrightarrow> cat_name v = x \<and> settled v (selected_rules x old)" using t by (auto simp: rules_table_def)
  let ?m = "\<lambda>x. map_option g (m x)"
  have t'_eq: "t' = t\<lparr>zc_store := visit_store (\<lambda>v. Some (0, g v)) UNIV (zc_store t)\<rparr>" by (simp add: t'_def visit_store_def)
  obtain cs where "zc_inv t cs" using m(1) by (auto simp: zc_ok_def)
  then have "zc_inv t' cs" unfolding t'_eq by (rule visit_inv)
  then have inv: "\<exists>cs. zc_inv t' cs" by (intro exI [of _ cs])
  have rel: "m x = Some v \<longleftrightarrow> (\<exists>a e. zc_store t a = Some e \<and> e_key e = x \<and> e_value e = v)" for x v
    using m(1) by (simp add: zc_ok_def zc_rel_def)
  have "?m x = Some v \<longleftrightarrow> (\<exists>a e. zc_store t' a = Some e \<and> e_key e = x \<and> e_value e = v)" for x v
  proof
    assume "?m x = Some v"
    then obtain w where w: "m x = Some w" "v = g w" by auto
    then obtain a e where "zc_store t a = Some e" "e_key e = x" "e_value e = w" using rel by blast
    then show "\<exists>a e. zc_store t' a = Some e \<and> e_key e = x \<and> e_value e = v"
      using w(2) by (intro exI [of _ a] exI [of _ "e\<lparr>e_value := v\<rparr>"]) (simp add: t'_def)
  next
    assume "\<exists>a e. zc_store t' a = Some e \<and> e_key e = x \<and> e_value e = v"
    then obtain a e where "zc_store t a = Some e" "e_key e = x" "v = g (e_value e)" by (auto simp: t'_def)
    then show "?m x = Some v" using rel by auto
  qed
  then have ok: "zc_ok zc_hashtable_str_hash zc_hashtable_str_equal (\<lambda>s. s) t' ?m"
    using m(1) inv by (simp add: zc_ok_def zc_rel_def t'_def)
  have "\<forall>x v. ?m x = Some v \<longrightarrow> cat_name v = x \<and> settled v (selected_rules x new)" using m(2) g by fastforce
  moreover have "known t' = known t"
    by (rule ext) (auto simp: known_def table_get [OF ok] table_get [OF m(1)])
  ultimately show ?thesis using ok unfolding rules_table_def by blast
qed

lemma table_new_ok: "\<exists>t. zlog_category_table_new True True = Some t \<and> rules_table rs t \<and> zc_store t = Map.empty"
proof -
  obtain t :: category_table where "zc_hashtable_new 20 zc_hashtable_str_hash zc_hashtable_str_equal False True True True = Some t"
    "zc_inv t (\<lambda>_. [])" "zc_store t = Map.empty" "hash_fn t = zc_hashtable_str_hash" "equal_fn t = zc_hashtable_str_equal"
    using zc_new_inv [of 20 zc_hashtable_str_hash zc_hashtable_str_equal False True] by auto
  then show ?thesis by (auto simp: zlog_category_table_new_def rules_table_def zc_ok_def zc_rel_def intro!: exI [of _ Map.empty])
qed

lemma fetch_ok:
  assumes t: "rules_table rs t" and R: "rules_list rules rs" and "length name \<le> MAXLEN_PATH" and a: "zc_store t a = None"
  shows "\<exists>cat t'. zlog_category_table_fetch_category True True True True True (Some a) t name rules = Some (Some cat, t') \<and>
    settled cat (selected_rules name rs) \<and> rules_table rs t' \<and> zc_hashtable_get t' name = Some (Some cat) \<and>
    (\<forall>x. x \<noteq> name \<longrightarrow> zc_hashtable_get t' x = zc_hashtable_get t x)"
proof -
  obtain m where m: "zc_ok zc_hashtable_str_hash zc_hashtable_str_equal (\<lambda>s. s) t m"
    "\<forall>x v. m x = Some v \<longrightarrow> cat_name v = x \<and> settled v (selected_rules x rs)" using t by (auto simp: rules_table_def)
  show ?thesis
  proof (cases "m name")
    case (Some cat)
    then show ?thesis using m t table_get [OF m(1), of name] by (auto simp: zlog_category_table_fetch_category_def)
  next
    case None
    obtain k where "holds rules rs k" "length rs < 2 ^ 30" "\<forall>r \<in> set rs. rl_category r \<noteq> []" using R by (auto simp: rules_list_def)
    from category_new_ok [OF this assms(3)] obtain cat where cat: "zlog_category_new True True True True name rules = Some (Some cat)"
      "cat_name cat = name" "settled cat (selected_rules name rs)" by (auto simp: settled_def)
    obtain t' where t': "zc_hashtable_put True (Some a) t name cat = Some (0, t')"
      "zc_ok zc_hashtable_str_hash zc_hashtable_str_equal (\<lambda>s. s) t' (m(name \<mapsto> cat))"
      using zcs.put_ok [OF m(1) a, of name cat] by blast
    have "\<forall>x v. (m(name \<mapsto> cat)) x = Some v \<longrightarrow> cat_name v = x \<and> settled v (selected_rules x rs)" using m(2) cat(2,3) by simp
    then have "rules_table rs t'" using t'(2) unfolding rules_table_def by blast
    then show ?thesis using cat t' None table_get [OF m(1)] table_get [OF t'(2)]
      by (auto simp: zlog_category_table_fetch_category_def)
  qed
qed

section \<open>Reloading\<close>

definition with_record :: "(string \<rightharpoonup> nat) \<Rightarrow> zlog_rule \<Rightarrow> zlog_rule" where
  "with_record m r = (if rl_output r = OutStaticRecord \<or> rl_output r = OutDynamicRecord
     then (case m (record_name r) of Some f \<Rightarrow> r\<lparr>record_func := Some f\<rparr> | None \<Rightarrow> r) else r)"

lemma record_loop_ok: "\<forall>x. g x = Some (m x) \<Longrightarrow> record_loop g (map Some rs) = Some (map (Some \<circ> with_record m) rs)"
  by (induction rs) (auto simp: zlog_rule_set_record_def with_record_def split: option.split)

lemma set_records_ok:
  assumes "\<forall>x. g x = Some (m x)" and "rules_list l rs"
  shows "\<exists>l'. set_records g l = Some l' \<and> rules_list l' (map (with_record m) rs) \<and> al_del l' = al_del l \<and> al_freed l' = al_freed l"
proof -
  obtain k where k: "holds l rs k" using assms(2) by (auto simp: rules_list_def)
  have c: "rl_category (with_record m r) = rl_category r" for r by (simp add: with_record_def split: option.split)
  have "set_records g l = Some (l\<lparr>al_array := Some (map (Some \<circ> with_record m) rs @ replicate k None)\<rparr>)"
    using units_holds [OF k] record_loop_ok [OF assms(1), of rs] k by (simp add: set_records_def holds_def)
  then show ?thesis using k assms(2) c by (auto simp: rules_list_def holds_def)
qed

text \<open>The state of the logger while the rules of its configuration are \<open>rs\<close>.\<close>

definition owns_rules :: "zlog_rule arraylist \<Rightarrow> zlog_rule list \<Rightarrow> bool" where
  "owns_rules l rs \<longleftrightarrow> rules_list l rs \<and> al_del l \<and> al_freed l = []"

definition env_holds :: "zlog_env \<Rightarrow> zlog_rule list \<Rightarrow> (string \<rightharpoonup> nat) \<Rightarrow> bool" where
  "env_holds env rs m \<longleftrightarrow> env_is_init env \<and> zc_ok zc_hashtable_str_hash zc_hashtable_str_equal (\<lambda>s. s) (env_records env) m \<and>
     owns_rules (cf_rules (env_conf env)) rs \<and> rules_table rs (env_categories env)"

lemma owns_del: "owns_rules l rs \<Longrightarrow> zc_arraylist_del l = Some rs"
  by (auto simp: owns_rules_def rules_list_def holds_def zc_arraylist_del_def List.map_filter_def comp_def)

lemma update_and_commit:
  assumes t: "rules_table old t" and R: "rules_list R rs"
  shows "\<exists>t1 t2. zlog_category_table_update_rules (\<lambda>_. True) (\<lambda>_. True) (\<lambda>_. True) t R = Some (0, t1) \<and>
    zlog_category_table_commit_rules t1 = Some t2 \<and> rules_table rs t2 \<and> known t2 = known t"
proof -
  let ?f = "update_fn (\<lambda>_. True) (\<lambda>_. True) R"
  obtain cs where inv: "zc_inv t cs" using t by (auto simp: rules_table_def zc_ok_def)
  have "\<forall>a e. zc_store t a = Some e \<longrightarrow> (\<exists>old. settled (e_value e) old)" using table_entries [OF t] by blast
  from table_update_eq [OF inv this R, of "\<lambda>_. True" "\<lambda>_. True"] have u:
    "zlog_category_table_update_rules (\<lambda>_. True) (\<lambda>_. True) (\<lambda>_. True) t R = Some (0, t\<lparr>zc_store := visit_store ?f (dom (zc_store t)) (zc_store t)\<rparr>)"
    by simp
  let ?t = "t\<lparr>zc_store := visit_store ?f (dom (zc_store t)) (zc_store t)\<rparr>"
  let ?g = "\<lambda>v. the (zlog_category_commit_rules (snd (the (?f v))))"
  have g: "\<exists>w. zlog_category_commit_rules (snd (the (?f v))) = Some w \<and> cat_name w = cat_name v \<and> settled w (selected_rules (cat_name v) rs)"
    if "settled v x" for v x using update_ok [OF that R, of True True] by auto
  have "\<forall>a e. zc_store ?t a = Some e \<longrightarrow> zlog_category_commit_rules (e_value e) \<noteq> None"
    using table_entries [OF t] g by (fastforce simp: visit_some)
  from run_total [OF visit_inv [OF inv] this] obtain p where p: "zc_hashtable_begin ?t = Some p"
    "foreach_do (\<lambda>v. map_option (Pair 0) (zlog_category_commit_rules v)) p ?t =
      Some (0, ?t\<lparr>zc_store := (\<lambda>a. map_option (\<lambda>e. e\<lparr>e_value := the (zlog_category_commit_rules (e_value e))\<rparr>) (zc_store ?t a))\<rparr>)"
    by blast
  have "map_option (\<lambda>e. e\<lparr>e_value := the (zlog_category_commit_rules (e_value e))\<rparr>) (zc_store ?t a) =
      map_option (\<lambda>e. e\<lparr>e_value := ?g (e_value e)\<rparr>) (zc_store t a)" for a
    by (cases "zc_store t a") (auto simp: visit_store_def)
  then have "zlog_category_table_commit_rules ?t =
      Some (t\<lparr>zc_store := (\<lambda>a. map_option (\<lambda>e. e\<lparr>e_value := ?g (e_value e)\<rparr>) (zc_store t a))\<rparr>)"
    using p by (simp add: zlog_category_table_commit_rules_def)
  moreover have "cat_name (?g v) = cat_name v \<and> settled (?g v) (selected_rules (cat_name v) rs)"
    if "settled v (selected_rules (cat_name v) old)" for v using g [OF that] by auto
  ultimately show ?thesis using u table_replace [OF t, of ?g rs] by blast
qed

lemma reload_ok:
  assumes env: "env_holds env old m" and conf: "conf_new path = Some conf" and R: "owns_rules (cf_rules conf) rs"
  shows "\<exists>env'. zlog_reload 0 0 conf_new (\<lambda>_. True) (\<lambda>_. True) (\<lambda>_. True) (ConfPath path) env = Some (0, env') \<and>
    env_holds env' (map (with_record m) rs) m \<and> env_init_version env' = env_init_version env + 1 \<and>
    freed_rules env' = freed_rules env @ old \<and> known (env_categories env') = known (env_categories env)"
proof -
  note e = env [unfolded env_holds_def]
  have "\<forall>x. zc_hashtable_get (env_records env) x = Some (m x)"
    using zcs.get_ok e by (auto simp: zc_ok_def)
  from set_records_ok [OF this] R obtain l where l: "set_records (zc_hashtable_get (env_records env)) (cf_rules conf) = Some l"
    "owns_rules l (map (with_record m) rs)" by (fastforce simp: owns_rules_def)
  obtain t1 t2 where t: "zlog_category_table_update_rules (\<lambda>_. True) (\<lambda>_. True) (\<lambda>_. True) (env_categories env) l = Some (0, t1)"
    "zlog_category_table_commit_rules t1 = Some t2" "rules_table (map (with_record m) rs) t2" "known t2 = known (env_categories env)"
    using update_and_commit [of old "env_categories env" l "map (with_record m) rs"] e l(2) unfolding owns_rules_def by blast
  have "zc_arraylist_del (cf_rules (env_conf env)) = Some old" using e owns_del by blast
  then show ?thesis using e conf l t by (simp add: zlog_reload_def env_holds_def)
qed

text \<open>
  After an update that was not taken back a category is silent, or as it was, or holds the rules that it
  selects of the new ones.
\<close>

definition half_updated :: "zlog_rule list \<Rightarrow> category_table \<Rightarrow> category_table \<Rightarrow> string \<Rightarrow> bool" where
  "half_updated rs t t' x \<longleftrightarrow> zc_hashtable_get t' x = zc_hashtable_get t x \<or>
     (\<exists>cat. zc_hashtable_get t' x = Some (Some cat) \<and> (silent cat \<or> cat_holds cat (selected_rules x rs)))"

lemma visit_get:
  assumes inv: "zc_inv t cs" and fns: "hash_fn t = zc_hashtable_str_hash" "equal_fn t = zc_hashtable_str_equal"
    and e: "zc_store t a = Some e"
  shows "zc_hashtable_get (t\<lparr>zc_store := visit_store f vs (zc_store t)\<rparr>) (e_key e) =
    Some (Some (if a \<in> vs then snd (the (f (e_value e))) else e_value e))"
proof -
  let ?t = "t\<lparr>zc_store := visit_store f vs (zc_store t)\<rparr>"
  have "zc_store ?t a = Some (if a \<in> vs then e\<lparr>e_value := snd (the (f (e_value e)))\<rparr> else e)"
    using e by (simp add: visit_store_def)
  from inv_get [OF visit_inv [OF inv] _ _ this] fns show ?thesis by (simp split: if_splits)
qed

lemma half_updated_visit:
  assumes t: "rules_table old t" and inv: "zc_inv t cs"
    and fns: "hash_fn t = zc_hashtable_str_hash" "equal_fn t = zc_hashtable_str_equal"
    and R: "rules_list R rs" and e: "zc_store t a = Some e"
  shows "half_updated rs t (t\<lparr>zc_store := visit_store (update_fn c1 c2 R) vs (zc_store t)\<rparr>) (e_key e)"
proof -
  have nm: "cat_name (e_value e) = e_key e" "settled (e_value e) (selected_rules (e_key e) old)"
    using table_entries [OF t e] by simp_all
  have get: "zc_hashtable_get t (e_key e) = Some (Some (e_value e))" by (rule inv_get [OF inv fns e])
  show ?thesis
    using visit_get [OF inv fns e, of "update_fn c1 c2 R" vs] get
      update_ok [OF nm(2) R, of "c1 (e_key e)" "c2 (e_key e)"] nm(1)
    by (auto simp: half_updated_def split: if_splits)
qed

lemma reload_failed:
  assumes env: "env_holds env old m" and conf: "conf_new path = Some conf" and R: "owns_rules (cf_rules conf) rs"
    and bad: "known (env_categories env) name" "\<not> (c1 name \<and> c2 name)"
  shows "\<exists>env' x cat. zlog_reload 0 0 conf_new c1 c2 (\<lambda>_. True) (ConfPath path) env = Some (- 1, env') \<and>
    env_conf env' = env_conf env \<and> freed_rules env' = freed_rules env @ map (with_record m) rs \<and>
    zc_hashtable_get (env_categories env') x = Some (Some cat) \<and> silent cat \<and>
    (\<forall>x. known (env_categories env) x \<longrightarrow> half_updated (map (with_record m) rs) (env_categories env) (env_categories env') x) \<and>
    zlog_category_table_rollback_rules (env_categories env') = Some (env_categories env)"
proof -
  note e = env [unfolded env_holds_def]
  let ?t = "env_categories env"
  have t: "rules_table old ?t" using e by simp
  then obtain cs mc where inv: "zc_inv ?t cs" and mc: "zc_ok zc_hashtable_str_hash zc_hashtable_str_equal (\<lambda>s. s) ?t mc"
    by (auto simp: rules_table_def zc_ok_def)
  have "\<forall>x. zc_hashtable_get (env_records env) x = Some (m x)"
    using zcs.get_ok e by (auto simp: zc_ok_def)
  from set_records_ok [OF this] R obtain l where l: "set_records (zc_hashtable_get (env_records env)) (cf_rules conf) = Some l"
    "owns_rules l (map (with_record m) rs)" by (fastforce simp: owns_rules_def)
  have R': "rules_list l (map (with_record m) rs)" using l(2) by (simp add: owns_rules_def)
  let ?f = "update_fn c1 c2 l"
  have all: "\<forall>a e. zc_store ?t a = Some e \<longrightarrow> (\<exists>old. settled (e_value e) old)" using table_entries [OF t] by blast
  obtain cat0 where "mc name = Some cat0" using bad(1) table_get [OF mc, of name] by (auto simp: known_def)
  then obtain a0 e0 where "zc_store ?t a0 = Some e0" "e_key e0 = name" using mc by (auto simp: zc_ok_def zc_rel_def)
  then have "\<exists>a e. zc_store ?t a = Some e \<and> \<not> (c1 (cat_name (e_value e)) \<and> c2 (cat_name (e_value e)))"
    using bad(2) table_entries [OF t] by metis
  with table_update_eq [OF inv all R', of c1 c2] obtain vs a d where
    u: "zlog_category_table_update_rules c1 c2 (\<lambda>_. True) ?t l = Some (- 1, ?t\<lparr>zc_store := visit_store ?f vs (zc_store ?t)\<rparr>)"
    and a: "a \<in> vs" "zc_store ?t a = Some d" "\<not> (c1 (cat_name (e_value d)) \<and> c2 (cat_name (e_value d)))"
    by auto
  let ?t' = "?t\<lparr>zc_store := visit_store ?f vs (zc_store ?t)\<rparr>"
  obtain v where v: "?f (e_value d) = Some (- 1, v)" "silent v"
  proof -
    obtain x where "settled (e_value d) x" using all a(2) by blast
    from update_ok [OF this R', of "c1 (cat_name (e_value d))" "c2 (cat_name (e_value d))"] a(3)
    show thesis using that by auto
  qed
  have at: "zc_store ?t' a = Some (d\<lparr>e_value := v\<rparr>)" using a(1,2) v(1) by (simp add: visit_store_def)
  have inv': "zc_inv ?t' cs" by (rule visit_inv [OF inv])
  have get: "zc_hashtable_get ?t' (e_key d) = Some (Some v)"
    using inv_get [OF inv' _ _ at] mc by (simp add: zc_ok_def)
  have bk: "zlog_category_table_rollback_rules ?t' = Some ?t" by (rule rollback_after_update [OF inv all R'])
  have half: "half_updated (map (with_record m) rs) ?t ?t' x" if x: "known ?t x" for x
  proof -
    obtain cat where "mc x = Some cat" using x table_get [OF mc, of x] by (auto simp: known_def)
    then obtain b e where b: "zc_store ?t b = Some e" "e_key e = x" using mc by (auto simp: zc_ok_def zc_rel_def)
    show ?thesis using half_updated_visit [OF t inv _ _ R' b(1)] mc b(2) by (simp add: zc_ok_def)
  qed
  let ?env = "env\<lparr>env_reload_conf_count := 0, env_categories := ?t', freed_rules := freed_rules env @ map (with_record m) rs\<rparr>"
  have "zlog_reload 0 0 conf_new c1 c2 (\<lambda>_. True) (ConfPath path) env = Some (- 1, ?env)"
    using e conf l(1) owns_del [OF l(2)] u by (simp add: zlog_reload_def)
  then show ?thesis using get v(2) bk half by (intro exI [of _ ?env] exI [of _ "e_key d"] exI [of _ v]) simp
qed

text \<open>There are such states, with any category in the table.\<close>

lemma env_exists:
  assumes R: "owns_rules l rs" and "length name \<le> MAXLEN_PATH"
  shows "\<exists>env. env_holds env rs Map.empty \<and> known (env_categories env) name \<and> freed_rules env = [] \<and> env_init_version env = 0"
proof -
  obtain t0 where t0: "rules_table rs t0" "zc_store t0 = Map.empty" using table_new_ok by blast
  have "rules_list l rs" using R by (simp add: owns_rules_def)
  from fetch_ok [OF t0(1) this assms(2), of 0] obtain t cat where t: "rules_table rs t" "zc_hashtable_get t name = Some (Some cat)"
    using t0(2) by auto
  obtain rec :: "(string, nat) zc_hashtable" where "zc_inv rec (\<lambda>_. [])" "zc_store rec = Map.empty"
    "hash_fn rec = zc_hashtable_str_hash" "equal_fn rec = zc_hashtable_str_equal"
    using zc_new_inv [of 20 zc_hashtable_str_hash zc_hashtable_str_equal False False] by auto
  then have "zc_ok zc_hashtable_str_hash zc_hashtable_str_equal (\<lambda>s. s) rec Map.empty" by (auto simp: zc_ok_def zc_rel_def)
  then show ?thesis using t R
    by (intro exI [of _ "\<lparr>env_is_init = True, env_conf = \<lparr>cf_file = [], cf_rules = l, reload_conf_period = 0\<rparr>, env_categories = t,
      env_records = rec, env_init_version = 0, env_reload_conf_count = 0, freed_rules = []\<rparr>"]) (auto simp: env_holds_def known_def)
qed

end
