(* ===== verification/Spec2Isabelle.thy ===== *)
theory Spec2Isabelle
  imports System ParserRun P2pRefine P2pJoin P2pFail TsOpen TsdBcast HashFlaws SpaceTable HashVector BucketFile ZlogBufFacts ZlogUtil ZcArrayList ZlogReload
begin

text \<open>
  SynergyWrapper is a tuple space for clusters. Programs link the client library and exchange tuples
  (a name or a number, and data) through named spaces. Every machine runs one process with two parts: a
  tuple space daemon (tsd) that keeps the spaces and answers clients, and a ring daemon (p2pmd) that joins
  the machines to a ring. The two talk over a pipe; p2pmd passes tokens of tsd around the ring. This
  library models that program, not the libraries it is built on, and proves what its parts promise, or,
  where the code does not keep a promise, exactly what it does instead.

  \<^bold>\<open>The program and the theories\<close>

  Paths are under \<^verbatim>\<open>src/src/\<close>. A C function is the definition of the same name unless noted.

  \<^item> \<open>Prelude\<close>: bytes, C strings, blocks with bounds, the option monad in which undefined behaviour and a
    failed \<open>assert\<close> are \<open>None\<close> (a fault), and the weakest precondition \<open>wlp\<close> of such an operation.
  \<^item> \<open>Net\<close>: what one process sees of ZeroMQ, shared memory and the clock. What arrives is input (scripts),
    what the process does is appended to the trace \<open>tx\<close>. Sends and connects may fail.
  \<^item> \<open>Wire\<close> (\<^verbatim>\<open>p2pm_utilities.c\<close>): integers at 16, 32 and 64 bits, strings, the configuration record. The
    locale \<open>uint_codec\<close> is the contract of a sender and a receiver, interpreted for the three widths.
  \<^item> \<open>Zlistx\<close>: the contract (locale \<open>zlistx\<close>) of CZMQ's list, which the daemon keeps its queues in. The list
    is a parameter of the model; the interpretation on HOL lists shows that the contract can be met.
  \<^item> \<open>TupleUtils\<close> (\<^verbatim>\<open>tuple_utils.h\<close>, \<^verbatim>\<open>sng_common.h\<close>): tuples, requests, the wildcard matcher, comparators.
  \<^item> \<open>SharedMemory\<close> (\<^verbatim>\<open>shared_memory/shared_memory.h\<close>): items cut in chunks, and writer and reader of a pipe
    as the step relation \<open>pipe_step\<close>, cut at their semaphore operations. Locale \<open>item_pipe\<close>.
  \<^item> \<open>NodeInfo\<close> (\<^verbatim>\<open>p2pm_node_info.c\<close>): the successor list of a ring node, a block of 256 byte slots.
  \<^item> \<open>TsdState\<close>, \<open>TsdHandlers\<close>, \<open>TsdTokens\<close>, \<open>Tsd\<close> (\<^verbatim>\<open>tsd/tsd.c\<close>): a space (\<open>tsd_element\<close>), one handler for
    every request, what is done with the tokens of the ring, the head and dispatch of a session
    (\<open>handler\<close>), creation and the polling loop. Facts: \<open>TsdLemmas\<close>, \<open>TsdRead\<close>, \<open>TsdWrite\<close>, \<open>TsdSession\<close>,
    \<open>TsdBcast\<close>, mostly inside the locale \<open>tsd_space\<close> (three lists), interpreted on HOL lists.
  \<^item> \<open>Ts\<close> (\<^verbatim>\<open>ts/ts.c\<close>): the client library: open, read, write, broadcast, close.
  \<^item> \<open>System\<close>, \<open>TsOpen\<close>: clients and daemons composed: each reads what the others wrote.
  \<^item> \<open>P2pTypes\<close> (\<^verbatim>\<open>p2pm_types.h\<close>, \<^verbatim>\<open>p2pmd_helpers.c\<close>, \<^verbatim>\<open>p2pmd_onering.c\<close>), \<open>P2pServer\<close> and \<open>P2pLoop\<close>
    (\<^verbatim>\<open>p2pmd/p2pmd_server.c\<close>: the request handlers, then the state machines on the two neighbour sockets and
    the server loop), \<open>P2pActor\<close> (\<^verbatim>\<open>p2pmd_class.c\<close>, \<^verbatim>\<open>p2pmd_join_actor.c\<close>, \<^verbatim>\<open>p2pmd.c\<close>: creation, the join, the
    event loop): the ring daemon. Facts: \<open>P2pInv\<close> (the sizes of the blocks), \<open>P2pRing\<close> and \<open>P2pRun\<close> (single
    exchanges), \<open>P2pRefine\<close> (the protocol on names, \<open>ring_step\<close>, and that the twelve requests implement it),
    \<open>P2pJoin\<close> (a join of three nodes), \<open>P2pFail\<close> (the change to another successor).
  \<^item> \<open>Parser\<close> (\<^verbatim>\<open>parser/sng_parser.c\<close>), \<open>ParserInv\<close>, \<open>ParserSpaces\<close>, \<open>ParserRun\<close>: the validation of the
    configuration; locale \<open>bit_set\<close> is the contract of its flag macros.
  \<^item> \<open>Daemon\<close> (\<^verbatim>\<open>synergy4/synergy4_tsd.c\<close>): \<open>main\<close> from its arguments to the start of both daemons.
  \<^item> \<open>Sparse\<close>, \<open>HashKey\<close>, \<open>HashTable\<close> (\<^verbatim>\<open>../contrib/libchash/libchash.c\<close>): the hash table in which the daemon
    keeps its spaces, from the bitmaps of the sparse groups and the hash function up to the interface. Facts:
    \<open>SparseFacts\<close>, \<open>SparseIter\<close> (a sparse table is a partial function, iteration lists its domain), \<open>HashProbe\<close>,
    \<open>HashSearch\<close> (the probe sequence), \<open>HashInv\<close> (the invariant \<open>ht_ok\<close> and the map \<open>ht_map\<close> of a table),
    \<open>HashRehash\<close>, \<open>HashRefine\<close>, \<open>HashDelete\<close>, \<open>HashWalk\<close> (each operation against the map), \<open>HashClient\<close>
    (sequences of calls), \<open>HashFlaws\<close> (two ways in which it fails), \<open>SpaceTable\<close> (the table of spaces).
  \<^item> \<open>Dense\<close>, \<open>HashFile\<close>: the other kind of bucket table that libchash can be compiled with, and saving,
    loading and printing of tables. \<open>BucketTable\<close> states what a hash table asks of its buckets as a locale
    (\<open>bucket_table\<close>), met by both kinds. Facts: \<open>HashFileFacts\<close>, \<open>HashSaveLoad\<close> (a table saved and loaded),
    \<open>BucketFile\<close> (the file is the same for both kinds), \<open>HashVector\<close> (a hash value, for an example).
  \<^item> \<open>ZlogBuf\<close> (\<^verbatim>\<open>../contrib/zlog/src/buf.c\<close>): the buffer in which the logger of the daemons builds a line, a
    block with offsets that grows up to a limit and is then cut. Facts: \<open>ZlogBufFacts\<close>; the locale
    \<open>buf_writer\<close> is the contract of a write, interpreted for each of the six and for their union.
  \<^item> \<open>ZcArrayList\<close> (\<^verbatim>\<open>zc_arraylist.c\<close>): its array list; sorted insertion is the library's stable sort.
  \<^item> \<open>Scan\<close>: what the logger uses of character classes, string comparison and \<open>sscanf\<close>. \<open>ZlogLevel\<close>
    (\<^verbatim>\<open>level.c\<close>, \<^verbatim>\<open>level_list.c\<close>): levels, read from lines and kept at their number in an array list, which
    stands for a map (\<open>holds_levels\<close>). \<open>ZlogUtil\<close> (\<^verbatim>\<open>zc_util.c\<close>): sizes with units and \<open>%E(NAME)\<close>.
  \<^item> \<open>ZcHashTable\<close> (\<^verbatim>\<open>zc_hashtable.c\<close>): its chained hash table, on an explicit store of entries with pointers in
    both directions. Facts: \<open>ZcHashFacts\<close> (chains in the store, the invariant \<open>zc_inv\<close>), \<open>ZcHashRefine\<close>
    (each operation against a map; locale \<open>zc_keys\<close> on the two functions for keys, met by strings).
  \<^item> \<open>ZlogRule\<close> (\<^verbatim>\<open>rule.c\<close>): the levels a rule is for, as a test and as a bitmap, and the categories it fits.
    \<open>ZlogCategory\<close> (\<^verbatim>\<open>category.c\<close>): the rules a category selects, their union bitmap, update, commit and
    roll-back. \<open>ZlogReload\<close> (\<^verbatim>\<open>category_table.c\<close>, \<^verbatim>\<open>zlog.c\<close>): the table of categories on \<open>ZcHashTable\<close> and
    \<open>zlog_reload\<close>, and \<open>vzlog\<close>, which writes one message; \<open>rules_table\<close> and \<open>env_holds\<close> say which rules the
    categories have. Rules are values: what is freed is recorded in \<open>freed_rules\<close>.

  State is passed explicitly: a handler takes the node or space and the net and returns them. A heap
  pointer is null, a live block or freed, so that a double free or a use after free is a fault. Loops over
  blocks are recursive functions on their index. Uninitialised memory has arbitrary contents (\<open>junk\<close>).

  \<^bold>\<open>What is proved\<close>

  \<^item> Tuple space: a tuple put is the tuple read or got, over the whole path and for local and remote
    clients; a waiting client is served by a later put when no earlier request wants the tuple; the pending requests are served as the one-pass
    specification \<open>serve\<close> says; pop and peek take the oldest; opening a space gives the handle and the
    active space the former start from, also for a client that came before the master; termination answers
    the requests for named tuples; inactive spaces refuse. The faulty paths: a get drops a second waiter, a space
    with broadcast tuples does not terminate, one with broadcast requests reads a freed client id, an anonymous tuple faults while requests wait, a broadcast is not stored.
  \<^item> Transport: every interleaving of the two sides of a pipe delivers all chunks in order and ends; items,
    integers and strings are received as they were sent.
  \<^item> Ring: every request of join, stabilisation and replication does what the protocol on names says, with the
    refusals; a join as seen from each node and as a whole; stabilisation,
    replication with its time to live, tokens; termination of the recursive socket handler; and the paths
    on which the code does not work: the race of two joins, the ping that is not sent, the lost trigger,
    the loop without a poll, a failover that only knows the second slot, mixed up client ids.
  \<^item> Hash table: every sequence of insertions, searches and deletions behaves as on a map, so the table of
    spaces, which the model of the daemon holds as a map, is what the daemon finds in it; the walk over
    it; counting in bitmaps; the probe sequence; sparse and dense tables hold the same; a table saved and
    loaded is the same where the format holds it; and faults: an item lost after a deletion, a table
    that shrinks to nothing, a file format that keeps only half of every word.
  \<^item> Logger: a buffer holds the text written to it, cut at its limit, and never leaves its block; the
    chained hash table behaves as a map and frees each value once; the array list sorts; levels are found
    by number and by name; sizes are read as written; a reference to the environment is replaced; categories
    let through what their rules accept, a reload gives them the new rules, and after one that fails for lack
    of memory a category drops its messages.
  \<^item> Configuration: what is accepted is well-formed; printed documents are read back; the daemon starts
    from them; a list shorter than its capacity overflows at the first join.

  \<^bold>\<open>Bounds and fuel\<close>

  The clock is a finite script of readings that then stands still. Loops carry a bound where C has a condition
  on outside data. \<open>recv_retry\<close> and \<open>skip_pongs\<close> are bounded by the length of the receive script
  and \<open>handle_reply\<close> and \<open>bcast_reply\<close> by one more: every round consumes one result of it, and on an
  exhausted script the C loop does not return, which is \<open>None\<close> here as well. \<open>match_loop\<close>,
  \<open>term_requests\<close>, \<open>clear_tuples\<close> and \<open>answer_connects\<close> are bounded by one more than the size of
  the queue they shorten; the lemmas about them prove that this is enough. \<open>p2pm_try_live\<close> tries four
  times in the source. The recursion of \<open>predecessor_socket_handler\<close>, the jump back in
  \<open>process_timeo\<close> and the loop \<open>clear_tuples_other\<close> may run for ever and are partial functions; the
  first is proved total on well-formed nodes, the other two are proved to diverge where they do.
  The loops of the hash table that end only at an empty bucket or the end of an iteration are partial
  functions; on tables that satisfy the invariant they are proved to return. So are the loops along the
  chains of the logger's table. \<open>replace_loop\<close> and the loops over array
  lists recur on the distance to the end of the block. \<open>dec_digits\<close> and \<open>hex_digits\<close> have the room of the array they write to,
  which is proved to be enough for every number.
  A sequence of polls (\<open>tsd_listen\<close>, \<open>actor_rounds\<close>) recurs on the list of what the polls report.

  \<^bold>\<open>Not modelled\<close>

  ZeroMQ, CZMQ, libbson and POSIX calls are not part of the program: messages, poll
  results, clock readings, regular expressions, results of system calls and the document tree are inputs
  or parameters; of libchash, the wrappers of the allocator are left out. \<open>malloc\<close> succeeds except where a
  function tests it on a path of interest. Log output, socket options, identities, sleeps, thread creation and the binding of
  server sockets have no effect on the state. \<^verbatim>\<open>zhelpers.h\<close> is the helper header of the ZeroMQ guide;
  the macros of \<^verbatim>\<open>bv.h\<close> are not used. \<^verbatim>\<open>synergy_examples\<close>, \<^verbatim>\<open>p2pm_examples\<close>, \<^verbatim>\<open>compare\<close>
  and \<^verbatim>\<open>MPI_Test_Programs\<close> are examples and benchmarks. Of \<^verbatim>\<open>contrib/zlog\<close>, which is third-party code, the
  buffer, the containers, the levels, the helpers, the categories and reloading are modelled, and of
  its rules what concerns levels and categories; formats, the reading of the configuration file and the
  output files are not.
\<close>

section \<open>A concrete system\<close>

text \<open>
  The instance on which the properties are evaluated: queues that are lists, a matcher of regular
  expressions that matches nothing, one space of a master daemon and a handle on it.
\<close>

definition demo_lib :: "(sng_tuple list, blocking_request list, cptr list) tsd_lib" where
  "demo_lib = list_lib (\<lambda>_ _. Some False) \<lparr>tname = Null, anon_id = 0, tlen = 0, tdata = Null\<rparr>"

definition demo_space :: "(sng_tuple list, blocking_request list, cptr list) tsd_element" where
  "demo_space = \<lparr>ename = ''ns'', direct_endpoint = zeros 256, named_queue = [], bcast_queue = [],
     named_queue_requests = [], bcast_queue_requests = [], connect_requests = [], expect_queue = [],
     ts_mode = TsModeMaster, tsd_mode = TsdModeDirect, ts_tsd_pipe = ''ns-push'', tsd_ts_pipe = ''ns-pull'',
     is_activated = True, is_requested = False\<rparr>"

definition demo_handle :: "bool \<Rightarrow> ts" where
  "demo_handle local = \<lparr>tsname = c_bytes ''ns'' @ zeros 47, tsnamelen = str_len ''ns'', mode = 0,
     remote = Null, ts_is_local = local, is_term = False, push_pipe = ''ns-push'', pull_pipe = ''ns-pull''\<rparr>"

definition demo_cfg :: tsd_cfg where
  "demo_cfg = \<lparr>endpoint = ''tcp://a:1'', replication_factor = 2\<rparr>"

definition demo_request :: "string \<Rightarrow> string \<Rightarrow> tuple_command \<Rightarrow> blocking_request" where
  "demo_request n c a = \<lparr>bname = Live (c_bytes n), bclient = Live (c_bytes c), bcommand = a, bextra = 0, blocal = False\<rparr>"

definition demo_node :: p2pm_node_info where
  "demo_node = \<lparr>successor_list = CHR ''a'' # zeros 255 @ CHR ''b'' # zeros 255 @ zeros 256, predecessor = zeros 256,
     successor = zeros 256, temp_predecessor = zeros 256, temp_successor = zeros 256, ni_r = 2, r_max = 3\<rparr>"

definition demo_p2p :: "p2pm_status \<Rightarrow> p2pm" where
  "demo_p2p st = \<lparr>p2p_endpoint = ''e'',
     node_list = demo_node\<lparr>successor := c_bytes ''s'' @ zeros 254, predecessor := c_bytes ''q'' @ zeros 254\<rparr>,
     config = \<lparr>join_address = Null, stabilize_interval = 100, context_thread_count = 1, recv_wait = 10\<rparr>,
     clientid = zeros 256, predecessor_lastpoll_time = 0, successor_lastpoll_time = 0, last_stabilize_time = 0,
     current_status = st, predecessor_socket_expected_actions = P2PM_NO_XPV,
     successor_socket_expected_actions = P2PM_NO_XPV, server_triggered_actions = P2PM_NO_XPV,
     predecessor_triggered_actions = P2PM_NO_XPV, last_ttl = 0, send_has_token = False, recv_has_token = False,
     send_token = space_token 0 demo_cfg ''ns'', recv_token = space_token 0 demo_cfg ''ns''\<rparr>"

definition demo_id :: "string \<Rightarrow> bytes" where
  "demo_id c = c_bytes c @ zeros (255 - length c)"

definition demo_bson :: bson_lib where
  "demo_bson = \<lparr>init_find = (\<lambda>k es. map_of es k),
     iter_find = (\<lambda>k es. case dropWhile (\<lambda>e. fst e \<noteq> k) es of [] \<Rightarrow> (None, []) | (_, v) # es \<Rightarrow> (Some v, es))\<rparr>"

definition demo_conf :: conf where
  "demo_conf = \<lparr>co_member = True, co_endpoint = ''tcp://a:1'', co_list = [''tcp://b:1''], co_predecessor = ''tcp://c:1'',
     co_r_max = 5, co_tsd = ''tcp://a:2'', co_ipc = ''ipc:///tmp/t'', co_rf = 1,
     co_spaces = [\<lparr>sp_name = ''/m'', sp_id = 1, sp_mode = TsModeWorker, sp_master = Some ''tcp://b:2''\<rparr>]\<rparr>"

definition demo_raw :: sng_cfg where
  "demo_raw = \<lparr>cfg_successor_list = Freed, cfg_predecessor = Freed, cfg_successor = Freed, cfg_temp_predecessor = Freed,
     cfg_temp_successor = Freed, cfg_r = 0, cfg_r_max = 0, p2pmd_endpoint = Freed, spaces = NoSpaces, tsd_endpoint = Freed,
     tsd_ipc_endpoint = Freed, p2pmd_mode = P2PM_NODE_ALONE, num_spaces = 7, bv = 33, r_list = 9, tsd_rep_factor = 0\<rparr>"

definition demo_heap :: "nat \<Rightarrow> sng_namespace" where
  "demo_heap i = \<lparr>cname = replicate 30 CHR ''?'', cdirect_endpoint = replicate 256 CHR ''?'', cid = 0,
     cts_mode = TsModeMaster, ctsd_mode = TsdModeToken\<rparr>"

definition demo_calls :: main_calls where
  "demo_calls = \<lparr>mc_zlog_init = True, mc_categories = True, mc_create = \<lparr>cc_log = True, cc_bind_local = True,
     cc_bind_server = True, cc_shm = (\<lambda>_. \<lparr>sc_wsem = True, sc_rsem = True, sc_shm = True, sc_trunc = TruncOk, sc_mmap = True\<rparr>)\<rparr>\<rparr>"

lemma demo_bson_ok: "bson_lib_ok demo_bson"
proof -
  have hit: "dropWhile (\<lambda>e. fst e \<noteq> k) (pre @ (k, v) # es) = (k, v) # es" if "k \<notin> set (map fst pre)"
    for k v and pre es :: elements
    using that by (induction pre) auto
  have nil: "dropWhile (\<lambda>e. fst e \<noteq> k) es = []" if "k \<notin> set (map fst es)" for k and es :: elements
    using that by (induction es) auto
  show ?thesis by (simp add: bson_lib_ok_def demo_bson_def hit nil)
qed

lemma demo_conf_ok: "conf_ok demo_conf"
  by (simp add: conf_ok_def demo_conf_def space_conf_ok_def c_string_def)

lemma demo_raw_free: "cfg_successor_list demo_raw = Freed" "spaces demo_raw = NoSpaces"
  by (simp_all add: demo_raw_def)

lemma demo_heap_ok: "\<forall>i. space_sized (demo_heap i)"
  by (simp add: demo_heap_def space_sized_def)

lemma demo_calls_work: "calls_work demo_calls"
  by (simp add: calls_work_def demo_calls_def shm_works_def)

lemma demo_lib_space: "tsd_space demo_lib (\<lambda>xs. xs) (\<lambda>xs. xs) (\<lambda>xs. xs)"
  unfolding demo_lib_def by (rule ll.tsd_space_axioms)

lemma demo_space_ok [simp]: "space_ok (\<lambda>xs. xs) (\<lambda>xs. xs) demo_space"
  by (simp add: space_ok_def demo_space_def)

lemma demo_space_simps [simp]:
  "named_queue demo_space = []" "named_queue_requests demo_space = []"
  "ts_tsd_pipe demo_space = ''ns-push''" "tsd_ts_pipe demo_space = ''ns-pull''"
  by (simp_all add: demo_space_def)

lemma demo_request_waiter:
  "c_string n \<Longrightarrow> c_string c \<Longrightarrow> a \<in> {TsGet_Blocking, TsRead_Blocking} \<Longrightarrow> waiter_ok (demo_request n c a)"
  by (auto simp: waiter_ok_def demo_request_def cstr_c_bytes0)

lemma demo_waiting:
  "c_string n \<Longrightarrow> c_string c \<Longrightarrow> waiting n c a False (demo_request n c a)"
  by (simp add: waiting_def demo_request_def cstr_c_bytes0)

lemma demo_space_queue:
  "space_ok (\<lambda>xs. xs) (\<lambda>xs. xs) (demo_space\<lparr>named_queue_requests := bs\<rparr>) \<longleftrightarrow> (\<forall>b \<in> set bs. waiter_ok b)"
  by (simp add: space_ok_def demo_space_def)

text \<open>A space where another client waits for a tuple of another name.\<close>

abbreviation demo_waited :: "(sng_tuple list, blocking_request list, cptr list) tsd_element" where
  "demo_waited \<equiv> demo_space\<lparr>named_queue_requests := [demo_request ''j'' ''c0'' TsGet_Blocking]\<rparr>"

lemma demo_unwanted: "\<not> wants (rgx demo_lib) (put_tuple ''k'' ''value'') (demo_request ''j'' ''c0'' TsGet_Blocking)"
  by (simp add: wants_def blckcmp_str_def demo_request_def request_key_def put_tuple_def tplcmp_def tplregex_def
      demo_lib_def list_lib_def cstr_def c_bytes_def Let_def)

lemma demo_handle_ok [simp]: "handle_ok local ''ns'' (demo_handle local)"
  "push_pipe (demo_handle local) = ''ns-push''" "pull_pipe (demo_handle local) = ''ns-pull''"
  by (simp_all add: handle_ok_def demo_handle_def cstr_c_bytes c_string_def)

lemma demo_head [simp]: "head_ok ''c1'' ''ns'' ''ns''" "head_ok ''c2'' ''ns'' ''ns''"
  by (simp_all add: head_ok_def c_string_def)

lemma demo_p2p_ok [simp]:
  "p2p_ok (demo_p2p st)" "current_status (demo_p2p st) = st" "cstr (successor (node_list (demo_p2p st))) = Some ''s''"
  "cstr (predecessor (node_list (demo_p2p st))) = Some ''q''" "r_max (node_list (demo_p2p st)) = 3"
  "ni_r (node_list (demo_p2p st)) = 2"
  by (simp_all add: demo_p2p_def demo_node_def p2p_ok_def ni_wf_def P2PM_MAX_ID_LEN_def cstr_c_bytes c_string_def)

lemma demo_id_ok [simp]: "c_string c \<Longrightarrow> length c \<le> 255 \<Longrightarrow> client_id (demo_id c) c"
  by (simp add: demo_id_def client_id_def cstr_c_bytes P2PM_MAX_ID_LEN_def)

lemma demo_address [simp]: "address ''a''" "address ''b''"
  by (simp_all add: address_def c_string_def P2PM_MAX_ID_LEN_def)

lemma demo_c_string [simp]: "c_string ''x''" "c_string ''y''" "c_string ''z''"
  by (simp_all add: c_string_def)

lemma demo_p2p_nodes [simp]:
  "p2p_endpoint (demo_p2p st) = ''e''" "address ''e''" "address ''s''" "list_fits (node_list (demo_p2p st)) ''a''"
  "cstr (slot (successor_list (node_list (demo_p2p st))) 1) = Some ''b''"
  by (simp_all add: demo_p2p_def demo_node_def address_def c_string_def P2PM_MAX_ID_LEN_def list_fits_def ni_wf_def slot_def cstr_def)

lemma demo_quiet [simp]: "quiet idle_net"
  by (simp add: quiet_def idle_net_def)

definition demo_open :: open_calls where
  "demo_open = \<lparr>oc_ctx = True, oc_socket2 = True,
     oc_shm = (\<lambda>_. \<lparr>sc_wsem = True, sc_rsem = True, sc_shm = True, sc_trunc = TruncOk, sc_mmap = True\<rparr>)\<rparr>"

lemma demo_can_open [simp]: "can_open demo_open (demo_handle local) ''ns''"
  by (simp add: can_open_def demo_open_def demo_handle_def shm_works_def c_string_def)

definition demo_new_space :: "ts_mode_t \<Rightarrow> (sng_tuple list, blocking_request list, cptr list) tsd_element" where
  "demo_new_space m = demo_space\<lparr>ts_mode := m, is_activated := False\<rparr>"

lemma demo_new_space_simps [simp]: "ts_mode (demo_new_space m) = m" "\<not> is_activated (demo_new_space m)"
  "connect_requests (demo_new_space m) = []" "length (direct_endpoint (demo_new_space m)) = 256"
  by (simp_all add: demo_new_space_def demo_space_def)

lemma demo_endpoint [simp]: "c_string (endpoint demo_cfg)" "fits_int (endpoint demo_cfg)" "length (endpoint demo_cfg) = 9"
  by (simp_all add: demo_cfg_def c_string_def fits_int_def)

text \<open>A member that waits for the commit of a newcomer.\<close>

definition demo_committing :: p2pm where
  "demo_committing = (demo_p2p P2PM_NODE_HANDLING_JOIN)
     \<lparr>node_list := (node_list (demo_p2p P2PM_NODE_HANDLING_JOIN))\<lparr>temp_successor := c_bytes ''n'' @ zeros 254\<rparr>\<rparr>"

lemma demo_slots:
  "slot (CHR ''a'' # zeros 255 @ CHR ''b'' # zeros 255 @ zeros 256) 0 = CHR ''a'' # zeros 255"
  "slot (CHR ''a'' # zeros 255 @ CHR ''b'' # zeros 255 @ zeros 256) (Suc 0) = CHR ''b'' # zeros 255"
  "slot (CHR ''a'' # zeros 255 @ CHR ''b'' # zeros 255 @ zeros 256) (Suc (Suc 0)) = zeros 256"
  by (simp_all add: slot_def)

lemma demo_names: "cstr (CHR ''a'' # zeros 255) = Some ''a''" "cstr (CHR ''b'' # zeros 255) = Some ''b''"
  "cstr (c_bytes ''n'' @ zeros 254) = Some ''n''" "cstr (c_bytes ''s'' @ zeros 254) = Some ''s''"
  "cstr (c_bytes ''q'' @ zeros 254) = Some ''q''" "cstr (c_bytes ''b'' @ zeros 254) = Some ''b''"
  by (simp_all add: cstr_def c_bytes_def)

lemma demo_committing_view: "ring_view demo_committing = \<lparr>rn_status = P2PM_NODE_HANDLING_JOIN, rn_pred = ''q'',
    rn_succ = ''s'', rn_tpred = [], rn_tsucc = ''n'', rn_list = [''a'', ''b'', []], rn_used = 2, rn_trigger = P2PM_NO_XPV, rn_ttl = 0\<rparr>"
  by (simp add: ring_view_def demo_committing_def demo_p2p_def demo_node_def name_of_def demo_names upt_rec demo_slots)

lemma demo_committing_ok: "ring_ok demo_committing"
proof -
  have "j = 0 \<or> j = Suc 0 \<or> j = Suc (Suc 0)" if "j < 3" for j :: nat using that by linarith
  then have "cstr (slot (CHR ''a'' # zeros 255 @ CHR ''b'' # zeros 255 @ zeros 256) j) \<noteq> None" if "j < 3" for j
    using demo_slots demo_names(1,2) that by force
  then show ?thesis
    by (simp add: ring_ok_def demo_committing_def demo_p2p_def demo_node_def p2p_ok_def ni_wf_def P2PM_MAX_ID_LEN_def demo_names)
qed

abbreviation server_net :: "rframe list \<Rightarrow> net" where
  "server_net fs \<equiv> idle_net\<lparr>rx := \<lambda>s. if s = ServerSocket then fs else []\<rparr>"

lemma idle_net_simps [simp]: "send_ok idle_net = []" "conn_ok idle_net = []" "tx idle_net = []" "clk idle_net = []"
  "rx idle_net s = []"
  by (simp_all add: idle_net_def)

section \<open>Properties\<close>

text \<open>
  C1. A tuple put by one client is what another client reads or gets by its name: over the whole path
  (client library, wire or shared memory, session of the daemon, queue, and back), for local and remote
  clients, for every name and data. A read leaves the tuple in the space, a get removes it. The queue
  held no tuple of that name and no request was pending.
\<close>

theorem put_out_roundtrip:
  assumes "tsd_space L ti ri si"
    and "tab ns = Some e" and "space_ok ti ri e" and "ri (named_queue_requests e) = []"
    and "List.extract (matches (rgx L) n) (ti (named_queue e)) = None"
    and "handle_ok la ns A" and "handle_ok lb ns B" and "push_pipe A = ts_tsd_pipe e" and "pull_pipe B = tsd_ts_pipe e"
    and "head_ok c1 ns ns" and "head_ok c2 ns ns" and "c_string n" and "fits_int n" and "d \<noteq> []" and "length d < 2 ^ 64"
    and "a \<in> {TsRead, TsRead_Blocking, TsGet, TsGet_Blocking}"
  shows "\<exists>w1 tab1 w2 tab2 evs w3 e2.
    ts_in A (put_tuple n d) TsPut idle_net = Some (0, w1) \<and>
    daemon_call L self tab la c1 (tx w1) = Some (tab1, []) \<and>
    ts_out_request B (ask n) a idle_net = Some w2 \<and>
    daemon_call L self tab1 lb c2 (tx w2) = Some (tab2, evs) \<and>
    ts_out_reply B (ask n) a (reply_net lb [evs]) = Some (0, put_tuple n d, w3) \<and>
    tab2 ns = Some e2 \<and> space_ok ti ri e2 \<and>
    ti (named_queue e2) = ti (named_queue e) @ (if a \<in> {TsGet, TsGet_Blocking} then [] else [put_tuple n d])"
  using assms by (rule tsd_space.put_then_out)

theorem put_out_roundtrip_witness:
  "\<exists>w1 tab1 w2 tab2 evs w3 e2.
    ts_in (demo_handle True) (put_tuple ''k'' ''value'') TsPut idle_net = Some (0, w1) \<and>
    daemon_call demo_lib demo_cfg [''ns'' \<mapsto> demo_space] True ''c1'' (tx w1) = Some (tab1, []) \<and>
    ts_out_request (demo_handle False) (ask ''k'') TsGet idle_net = Some w2 \<and>
    daemon_call demo_lib demo_cfg tab1 False ''c2'' (tx w2) = Some (tab2, evs) \<and>
    ts_out_reply (demo_handle False) (ask ''k'') TsGet (reply_net False [evs]) = Some (0, put_tuple ''k'' ''value'', w3) \<and>
    tab2 ''ns'' = Some e2 \<and> space_ok (\<lambda>xs. xs) (\<lambda>xs. xs) e2 \<and> named_queue e2 = []"
  using put_out_roundtrip [OF demo_lib_space, of "[''ns'' \<mapsto> demo_space]" "''ns''" demo_space "''k''" True
      "demo_handle True" False "demo_handle False" "''c1''" "''c2''" "''value''" TsGet demo_cfg]
  by (simp add: c_string_def fits_int_def extract_Nil_code)

text \<open>
  C2. A client that asks with a blocking get or read for a tuple that is not there does not return, and
  the put of a tuple of that name by another client, local or remote, makes it return with exactly that
  tuple, provided that no request that was already pending wants the tuple (an earlier get of it would be
  served instead, and this client never answered: see the property on the dropped second getter). Pending
  requests for other tuples may be there and stay as they were; this client's request is gone from the
  space, and so is the tuple if it was a get.
\<close>

theorem out_put_unblocks:
  assumes "tsd_space L ti ri si"
    and "tab ns = Some e" and "space_ok ti ri e" and "\<forall>b \<in> set (ri (named_queue_requests e)). \<not> wants (rgx L) (put_tuple n d) b"
    and "List.extract (matches (rgx L) n) (ti (named_queue e)) = None"
    and "handle_ok la ns A" and "handle_ok lb ns B" and "push_pipe A = ts_tsd_pipe e" and "pull_pipe B = tsd_ts_pipe e"
    and "head_ok c1 ns ns" and "head_ok c2 ns ns" and "c_string n" and "fits_int n" and "d \<noteq> []" and "length d < 2 ^ 64"
    and "a \<in> {TsRead_Blocking, TsGet_Blocking}"
  shows "\<exists>w1 tab1 w2 tab2 evs1 evs2 w3 e2.
    ts_out_request B (ask n) a idle_net = Some w1 \<and>
    daemon_call L self tab lb c2 (tx w1) = Some (tab1, evs1) \<and>
    ts_out_reply B (ask n) a (reply_net lb [evs1]) = None \<and>
    ts_in A (put_tuple n d) TsPut idle_net = Some (0, w2) \<and>
    daemon_call L self tab1 la c1 (tx w2) = Some (tab2, evs2) \<and>
    ts_out_reply B (ask n) a (reply_net lb [evs1, evs2]) = Some (0, put_tuple n d, w3) \<and>
    tab2 ns = Some e2 \<and> space_ok ti ri e2 \<and> ri (named_queue_requests e2) = ri (named_queue_requests e) \<and>
    ti (named_queue e2) = ti (named_queue e) @ (if a = TsGet_Blocking then [] else [put_tuple n d])"
  using assms by (rule tsd_space.out_then_put)

theorem out_put_unblocks_witness:
  "\<exists>w1 tab1 w2 tab2 evs1 evs2 w3 e2.
    ts_out_request (demo_handle True) (ask ''k'') TsGet_Blocking idle_net = Some w1 \<and>
    daemon_call demo_lib demo_cfg [''ns'' \<mapsto> demo_waited] True ''c2'' (tx w1) = Some (tab1, evs1) \<and>
    ts_out_reply (demo_handle True) (ask ''k'') TsGet_Blocking (reply_net True [evs1]) = None \<and>
    ts_in (demo_handle False) (put_tuple ''k'' ''value'') TsPut idle_net = Some (0, w2) \<and>
    daemon_call demo_lib demo_cfg tab1 False ''c1'' (tx w2) = Some (tab2, evs2) \<and>
    ts_out_reply (demo_handle True) (ask ''k'') TsGet_Blocking (reply_net True [evs1, evs2])
      = Some (0, put_tuple ''k'' ''value'', w3) \<and>
    tab2 ''ns'' = Some e2 \<and> space_ok (\<lambda>xs. xs) (\<lambda>xs. xs) e2 \<and>
    named_queue_requests e2 = [demo_request ''j'' ''c0'' TsGet_Blocking] \<and> named_queue e2 = []"
  using out_put_unblocks [OF demo_lib_space, of "[''ns'' \<mapsto> demo_waited]" "''ns''" demo_waited "''k''" "''value''" False
      "demo_handle False" True "demo_handle True" "''c1''" "''c2''" TsGet_Blocking demo_cfg]
  by (simp add: c_string_def fits_int_def extract_Nil_code demo_space_queue demo_request_waiter demo_unwanted)

text \<open>
  C3. A client that opens a space at the daemon that is its master, as master or as client, gets a local
  handle of that name whose pipes are those of the space, and the space is active; the daemon announces it
  to the ring exactly if it was not active before. The queues of the space are kept. So the handle and the
  space satisfy what reads and writes start from.
\<close>

theorem open_gives_handle:
  assumes "can_open os self ns" and "tab ns = Some e" and "ts_mode e = TsModeMaster" and "head_ok c ns ns"
    and "m = TS_MODE_MASTER \<or> m = TS_MODE_CLIENT" and "length (endpoint cfg) < length (direct_endpoint e)"
  shows "\<exists>h w evs e'. ts_open os self ns ipc m (reply_net True [evs]) = Some (0, h, w) \<and>
    daemon_call L cfg tab True c (tx w) = Some (tab(ns \<mapsto> e'), evs) \<and>
    handle_ok True ns h \<and> push_pipe h = ns @ ''-push'' \<and> pull_pipe h = ns @ ''-pull'' \<and>
    is_activated e' \<and> ts_mode e' = ts_mode e \<and> named_queue e' = named_queue e \<and>
    named_queue_requests e' = named_queue_requests e \<and> ts_tsd_pipe e' = ts_tsd_pipe e \<and> tsd_ts_pipe e' = tsd_ts_pipe e \<and>
    delivered LocalSocket evs = [RMsg c True, RMsg (be32 TS_MODE_MASTER) False] \<and>
    (is_activated e \<longleftrightarrow> TxToken ActorPipe (space_token 0 cfg ns) \<notin> set evs)"
proof -
  obtain h w evs where o: "ts_open os self ns ipc m (reply_net True [evs]) = Some (0, h, w)"
    "daemon_call L cfg tab True c (tx w) = Some (tab(ns \<mapsto> opened cfg m e), evs)"
    "handle_ok True ns h" "push_pipe h = ns @ ''-push''" "pull_pipe h = ns @ ''-pull''"
    "delivered LocalSocket evs = [RMsg c True, RMsg (be32 TS_MODE_MASTER) False]"
    "is_activated e \<longleftrightarrow> TxToken ActorPipe (space_token 0 cfg ns) \<notin> set evs"
    using open_at_master [where tab = tab and ns = ns and e = e and ipc = ipc and L = L, OF assms] by blast
  then show ?thesis
    by (intro exI [of _ h] exI [of _ w] exI [of _ evs] exI [of _ "opened cfg m e"]) (simp add: opened_def)
qed

theorem open_gives_handle_witness:
  "\<exists>h w evs e'. ts_open demo_open (demo_handle False) ''ns'' ''ipc'' TS_MODE_MASTER (reply_net True [evs]) = Some (0, h, w) \<and>
    daemon_call demo_lib demo_cfg [''ns'' \<mapsto> demo_new_space TsModeMaster] True ''c1'' (tx w) = Some ([''ns'' \<mapsto> e'], evs) \<and>
    handle_ok True ''ns'' h \<and> is_activated e' \<and> TxToken ActorPipe (space_token 0 demo_cfg ''ns'') \<in> set evs"
  using open_gives_handle [of demo_open "demo_handle False" "''ns''" "[''ns'' \<mapsto> demo_new_space TsModeMaster]"
      "demo_new_space TsModeMaster" "''c1''" TS_MODE_MASTER demo_cfg "''ipc''" demo_lib]
  by simp blast

text \<open>
  C4. A client that opens a space at a worker's daemon before its master is there. The daemon leaves it to
  wait; when another client opens the space at its master, the master's daemon sends a token; when the
  worker's daemon gets that token it sends the waiting client the master's endpoint; the client connects to
  it, asks again, and both clients end up with a handle, the space active in both daemons and nobody
  waiting. Every party reads what the others wrote.
\<close>

theorem open_waits_for_master:
  assumes "tsd_space L ti ri si" and "can_open o1 self1 ns" and "can_open o2 self2 ns"
    and "tabA ns = Some a" and "ts_mode a = TsModeWorker" and "\<not> is_activated a" and "ri (connect_requests a) = []"
    and "tabB ns = Some b" and "ts_mode b = TsModeMaster" and "\<not> is_activated b"
    and "head_ok c1 ns ns" and "head_ok c2 ns ns" and "head_ok c3 ns ns"
    and "m1 = TS_MODE_MASTER \<or> m1 = TS_MODE_CLIENT" and "m2 = TS_MODE_MASTER \<or> m2 = TS_MODE_CLIENT"
    and "c_string (endpoint cfgB)" and "fits_int (endpoint cfgB)"
    and "length (endpoint cfgB) < length (direct_endpoint a)" and "length (endpoint cfgB) < length (direct_endpoint b)"
  shows "\<exists>h1 w1 h2 w2 v tabA1 tabA2 tabB1 tabB2 evs1 evs2 evs3 a2 b2.
    ts_open o2 self2 ns ipc2 m2 (reply_net True [evs2]) = Some (0, h2, w2) \<and>
    daemon_call L cfgB tabB True c2 (tx w2) = Some (tabB1, evs2) \<and>
    TxToken ActorPipe (space_token 0 cfgB ns) \<in> set evs2 \<and>
    daemon_call L cfgA tabA True c1 (tx w1) = Some (tabA1, evs1) \<and>
    delivered LocalSocket evs1 = [RMsg c1 True, RMsg (be32 TS_MODE_BLOCK) False] \<and>
    connect_token_next L tabA1 (space_token 0 cfgB ns) idle_net = Some (tabA2, v) \<and>
    daemon_call L cfgB tabB1 False c3 (tx w1) = Some (tabB2, evs3) \<and>
    ts_open o1 self1 ns ipc1 m1 (idle_net\<lparr>rx := (\<lambda>_. [])
      (ClientSocket := tl (delivered LocalSocket evs1) @ tl (delivered LocalSocket (tx v)),
       ClientSocket2 := tl (delivered ServerSocket evs3))\<rparr>) = Some (0, h1, w1) \<and>
    handle_ok True ns h2 \<and> handle_ok False ns h1 \<and> deref (remote h1) = Some (endpoint cfgB) \<and>
    tabA2 ns = Some a2 \<and> is_activated a2 \<and> cstr (direct_endpoint a2) = Some (endpoint cfgB) \<and> ri (connect_requests a2) = [] \<and>
    tabB2 ns = Some b2 \<and> is_activated b2 \<and> named_queue b2 = named_queue b"
  by (rule tsd_space.open_waits [where tabA = tabA and ns = ns and a = a and tabB = tabB and b = b, OF assms])

theorem open_waits_for_master_witness:
  "\<exists>(w1 :: net) tabA1 tabA2 v evs1 a2 (h1 :: ts) (h2 :: ts).
    daemon_call demo_lib \<lparr>endpoint = ''b'', replication_factor = 1\<rparr> [''ns'' \<mapsto> demo_new_space TsModeWorker] True ''c1'' (tx w1)
      = Some (tabA1, evs1) \<and>
    delivered LocalSocket evs1 = [RMsg ''c1'' True, RMsg (be32 TS_MODE_BLOCK) False] \<and>
    connect_token_next demo_lib tabA1 (space_token 0 demo_cfg ''ns'') idle_net = Some (tabA2, v) \<and>
    tabA2 ''ns'' = Some a2 \<and> is_activated a2 \<and> cstr (direct_endpoint a2) = Some (endpoint demo_cfg) \<and>
    handle_ok True ''ns'' h2 \<and> handle_ok False ''ns'' h1 \<and> deref (remote h1) = Some (endpoint demo_cfg)"
proof -
  have m: "TS_MODE_CLIENT = TS_MODE_MASTER \<or> TS_MODE_CLIENT = TS_MODE_CLIENT" "TS_MODE_MASTER = TS_MODE_MASTER \<or> TS_MODE_MASTER = TS_MODE_CLIENT"
    by simp_all
  show ?thesis
    using open_waits_for_master [OF demo_lib_space demo_can_open [of False] demo_can_open [of False], of "[''ns'' \<mapsto> demo_new_space TsModeWorker]"
        "demo_new_space TsModeWorker" "[''ns'' \<mapsto> demo_new_space TsModeMaster]" "demo_new_space TsModeMaster" "''c1''" "''c2''" "''c1''"
        TS_MODE_CLIENT TS_MODE_MASTER demo_cfg "''ipc''" "\<lparr>endpoint = ''b'', replication_factor = 1\<rparr>" "''ipc''"] m
    by simp blast
qed

text \<open>
  C5. What a put does to any queue of pending requests: the requests that match the tuple (pops and
  peeks match every tuple) are answered with it in their order, up to and including the first that
  takes it; the requests that do not match stay, in order; the tuple is appended to the queue exactly
  when nobody took it. The space stays well-formed. \<open>serve\<close> is this specification, in one pass.
\<close>

theorem put_serves_waiters:
  assumes "tsd_space L ti ri si"
    and "tab ns = Some e" and "space_ok ti ri e" and "head_ok c ns ns"
    and "c_string n" and "fits_int n" and "d \<noteq> []" and "length d < 2 ^ 64" and "ts_tsd_pipe e = pipe"
    and "serve (wants (rgx L) (put_tuple n d)) consumes (ri (named_queue_requests e)) = (ans, rest, taken)"
  shows "\<exists>e'. daemon_call L self tab local c (put_ev local pipe ns n d)
      = Some (tab(ns \<mapsto> e'), concat (map (answer_ev (tsd_ts_pipe e) n d) ans)) \<and>
    space_ok ti ri e' \<and> ri (named_queue_requests e') = rest \<and>
    ti (named_queue e') = ti (named_queue e) @ (if taken then [] else [put_tuple n d]) \<and>
    ts_tsd_pipe e' = ts_tsd_pipe e \<and> tsd_ts_pipe e' = tsd_ts_pipe e"
  using assms by (rule tsd_space.put_call)

theorem put_serves_waiters_witness:
  "\<exists>e'. daemon_call demo_lib demo_cfg
      [''ns'' \<mapsto> demo_space\<lparr>named_queue_requests := [demo_request ''k'' ''a'' TsRead_Blocking, demo_request ''x'' ''b'' TsGet_Blocking]\<rparr>]
      False ''c1'' (put_ev False ''ns-push'' ''ns'' ''k'' ''v'') =
      Some ([''ns'' \<mapsto> e'], answer_ev ''ns-pull'' ''k'' ''v'' (demo_request ''k'' ''a'' TsRead_Blocking)) \<and>
    named_queue_requests e' = [demo_request ''x'' ''b'' TsGet_Blocking] \<and> named_queue e' = [put_tuple ''k'' ''v'']"
proof -
  have "wants (rgx demo_lib) (put_tuple ''k'' ''v'') (demo_request ''k'' ''a'' TsRead_Blocking)"
    and "\<not> wants (rgx demo_lib) (put_tuple ''k'' ''v'') (demo_request ''x'' ''b'' TsGet_Blocking)"
    and "\<not> consumes (demo_request ''k'' ''a'' TsRead_Blocking)"
    by (simp_all add: demo_request_def wants_def blckcmp_str_def request_key_def put_tuple_def tplcmp_def Let_def
        cstr_c_bytes0 c_string_def consumes_def)
  then show ?thesis
    using put_serves_waiters [OF demo_lib_space, of
      "[''ns'' \<mapsto> demo_space\<lparr>named_queue_requests := [demo_request ''k'' ''a'' TsRead_Blocking, demo_request ''x'' ''b'' TsGet_Blocking]\<rparr>]"
      "''ns''" "demo_space\<lparr>named_queue_requests := [demo_request ''k'' ''a'' TsRead_Blocking, demo_request ''x'' ''b'' TsGet_Blocking]\<rparr>"
      "''c1''" "''k''" "''v''" "''ns-push''" "[demo_request ''k'' ''a'' TsRead_Blocking]"
      "[demo_request ''x'' ''b'' TsGet_Blocking]" False demo_cfg False]
    by (simp add: c_string_def fits_int_def demo_request_waiter demo_space_queue) blast
qed

text \<open>
  C6. \<open>TsPop\<close> and \<open>TsPeek\<close> (and their blocking forms) answer with the oldest tuple of the space, named or
  anonymous, in the format of its kind; a pop removes that tuple and nothing else, a peek nothing.
\<close>

theorem pop_takes_oldest:
  assumes "tsd_space L ti ri si"
    and "session c args" and "act args \<in> {TsPop, TsPeek, TsPop_Blocking, TsPeek_Blocking}"
    and "send_ok w = []" and "ti (named_queue e) = t # ts" and "tuple_ok t"
  shows "\<exists>q evs. named_queue_fetch_handler L args e w = Some (Some 0, closed args, e\<lparr>named_queue := q\<rparr>,
      out (Tx (using_socket (is_local args)) c True # evs) w) \<and>
    fetch_reply (is_local args) (tsd_ts_pipe e) t evs \<and>
    ti q = (if act args \<in> {TsPop, TsPop_Blocking} then ts else t # ts)"
  using assms by (rule tsd_space.fetch_hit)

theorem pop_takes_oldest_witness:
  "\<exists>q evs. named_queue_fetch_handler demo_lib (head_args ''c1'' ''ns'' TsPop False)
      (demo_space\<lparr>named_queue := [put_tuple ''k'' ''v'', put_tuple ''l'' ''w'']\<rparr>) idle_net =
      Some (Some 0, closed (head_args ''c1'' ''ns'' TsPop False), demo_space\<lparr>named_queue := q\<rparr>,
        out (Tx ServerSocket ''c1'' True # evs) idle_net) \<and>
    fetch_reply False ''ns-pull'' (put_tuple ''k'' ''v'') evs \<and> q = [put_tuple ''l'' ''w'']"
proof -
  have "tuple_ok (put_tuple ''k'' ''v'')"
    using put_tuple_stored [of "''k''" "''v''"] by (auto simp: tuple_ok_def c_string_def)
  then show ?thesis
    using pop_takes_oldest [OF demo_lib_space head_args_session [of "''c1''" "''ns''" "''ns''" TsPop False], of idle_net
        "demo_space\<lparr>named_queue := [put_tuple ''k'' ''v'', put_tuple ''l'' ''w'']\<rparr>" "put_tuple ''k'' ''v''"
        "[put_tuple ''l'' ''w'']"]
    by simp
qed

text \<open>
  C7. A request other than \<open>TsConnect\<close> on a space that is not activated changes no space: the client is
  answered \<open>TsEnf\<close>, the rest of its message is drained and the session ends with 1.
\<close>

theorem session_refused_inactive:
  assumes "rx w (using_socket local) = head_frames c nsf ns a mo @ fs" and "head_ok c nsf ns"
    and "tab ns = Some e" and "a \<noteq> TsConnect" and "\<not> is_activated e"
    and "drain fs mo = Some (fs', mo')" and "send_ok w = []"
  shows "handler L self tab local w =
    Some (Some 1, tab, out [Tx (using_socket local) c True, cmd_ev (using_socket local) TsEnf False]
      (took (using_socket local) fs' mo' w))"
  using assms by (rule session_refused)

theorem session_refused_inactive_witness:
  "handler demo_lib demo_cfg [''ns'' \<mapsto> demo_space\<lparr>is_activated := False\<rparr>] False
     (request_net False ''c1'' (out_ev False ''ns'' ''k'' TsGet)) =
   Some (Some 1, [''ns'' \<mapsto> demo_space\<lparr>is_activated := False\<rparr>],
     out [Tx ServerSocket ''c1'' True, cmd_ev ServerSocket TsEnf False]
      (took ServerSocket [] False (request_net False ''c1'' (out_ev False ''ns'' ''k'' TsGet))))"
  using session_refused_inactive [of "request_net False ''c1'' (out_ev False ''ns'' ''k'' TsGet)" False "''c1''" "''ns''"
      "''ns''" TsGet True "str_frames ''k'' False" "[''ns'' \<mapsto> demo_space\<lparr>is_activated := False\<rparr>]"
      "demo_space\<lparr>is_activated := False\<rparr>" "[]" False demo_lib demo_cfg]
  by (simp add: out_ev_def init_ev_def head_frames_def str_frames_def)

text \<open>
  C8. The semaphore protocol of a pipe with one writer and one reader, in every interleaving of their
  steps: a run that starts with the chunks of any items to write never lets both processes inside the
  segment, loses, doubles or reorders no chunk, ends, and can only end with every chunk read.
\<close>

theorem pipe_delivers:
  assumes "\<forall>d \<in> set ds. d \<noteq> []" and "pipe_step\<^sup>*\<^sup>* (pipe_init (concat (map item_chunks ds))) s"
  shows "\<not> (prod_at s \<noteq> PStart \<and> cons_at s \<noteq> CStart) \<and>
    (\<exists>rest. concat (map item_chunks ds) = got s @ rest) \<and>
    ((\<nexists>t. pipe_step s t) \<longrightarrow> got s = concat (map item_chunks ds)) \<and> wfP (\<lambda>t s. pipe_step s t)"
proof (intro conjI impI)
  have inv: "pipe_inv (concat (map item_chunks ds)) s" by (rule pipe_inv_reach [OF assms(2)])
  then show "\<not> (prod_at s \<noteq> PStart \<and> cons_at s \<noteq> CStart)" by (auto simp: pipe_inv_def split: if_splits)
  show "\<exists>rest. concat (map item_chunks ds) = got s @ rest"
    using inv unfolding pipe_inv_def by (elim conjE) (rule exI, erule sym)
  have "valid_chunk c" if "seg s = Some c" for c
  proof -
    have "concat (map item_chunks ds) = got s @ c # todo s" using inv that by (simp add: pipe_inv_def)
    then have "c \<in> set (concat (map item_chunks ds))" by simp
    then show ?thesis using assms(1) item_chunks_valid by auto
  qed
  then show "got s = concat (map item_chunks ds)" if "\<nexists>t. pipe_step s t" using pipe_stuck [OF inv that] by blast
qed (rule pipe_run_ends)

theorem pipe_delivers_witness:
  "\<not> (prod_at (pipe_init (item_chunks ''a'' @ item_chunks ''b'')) \<noteq> PStart \<and>
      cons_at (pipe_init (item_chunks ''a'' @ item_chunks ''b'')) \<noteq> CStart) \<and>
   (\<exists>rest. item_chunks ''a'' @ item_chunks ''b'' = got (pipe_init (item_chunks ''a'' @ item_chunks ''b'')) @ rest)"
  using pipe_delivers [of "[''a'', ''b'']" "pipe_init (item_chunks ''a'' @ item_chunks ''b'')"] by simp

text \<open>
  C9. The hash table of libchash, allocated as the daemon allocates it, is a map: for every sequence of
  insertions, searches and deletions of strings (fewer than \<open>2 ^ 27\<close> calls, with every growing,
  shrinking and rehashing they cause) each call returns, every search reads through the item it is
  given what the map holds, and the table ends up holding the map.
\<close>

theorem hash_table_refines_map:
  assumes "\<forall>op \<in> set ops. op_ok op" and "length ops < 2 ^ 27"
  shows "\<exists>ht0 ht. AllocateHashTable 0 save = Some ht0 \<and>
    run_table ops ht0 = Some (fst (run_map ops Map.empty), ht) \<and>
    ht_ok ht \<and> ht_map ht = snd (run_map ops Map.empty)"
proof -
  obtain ht0 where ht0: "AllocateHashTable 0 save = Some ht0" "plain ht0" "ht_map ht0 = Map.empty" "cItems ht0 = 0"
    by (rule fresh_plain)
  have "unat (cItems ht0) + length ops < 2 ^ 27" using assms(2) ht0(4) by simp
  from run_table_map [OF ht0(2) assms(1) this] show ?thesis
    using ht0(1,3) by (auto simp: plain_def)
qed

theorem hash_table_refines_map_witness:
  "\<exists>ht0 ht. AllocateHashTable 0 1 = Some ht0 \<and>
    run_table [OpInsert ''a'' 1, OpInsert ''b'' 2, OpDelete ''a'', OpFind ''a'', OpInsert ''b'' 3, OpFind ''b''] ht0 =
      Some ([None, Some 3], ht) \<and> ht_map ht ''b'' = Some 3 \<and> ht_map ht ''a'' = None"
  using hash_table_refines_map
    [of "[OpInsert ''a'' 1, OpInsert ''b'' 2, OpDelete ''a'', OpFind ''a'', OpInsert ''b'' 3, OpFind ''b'']" 1]
  by (auto simp: c_string_def DELETED_def)

text \<open>
  C10. The table of spaces of the daemon as libchash keeps it: filled by the loop of \<open>tsd_create\<close> with
  the addresses of the elements, every search by the handlers for a name returns, with the address
  of exactly the element that the daemon's table of spaces has under that name, or with nothing if
  it has none.
\<close>

theorem space_table_refines:
  assumes "tsd_create L os sps = Some (0, tab)"
    and "length as = length sps" and "distinct as" and "DELETED \<notin> set as" and "length sps < 2 ^ 27"
  shows "\<exists>ht. space_table sps as = Some ht \<and>
    (\<forall>name. c_string name \<longrightarrow> lookup_space ht name \<noteq> None \<and>
      (case the (lookup_space ht name) of
         None \<Rightarrow> tab name = None
       | Some a \<Rightarrow> element_at L sps as a \<noteq> None \<and> tab name = element_at L sps as a))"
proof -
  have cr: "create_spaces L os sps Map.empty = Some (0, tab)"
    using assms(1) by (auto simp: tsd_create_def split: if_splits)
  obtain ht0 where ht0: "AllocateHashTable 0 1 = Some ht0" "plain ht0" "ht_map ht0 = Map.empty" "cItems ht0 = 0"
    by (rule fresh_plain)
  have el: "\<forall>(sp, a) \<in> set (zip sps as). element_at L sps as a = Some (create_element L sp (the (cstr (cname sp))))"
    using assms(2,3) by (auto simp: element_at_def set_zip map_of_zip_nth)
  have "tables_agree (element_at L sps as) Map.empty ht0" using ht0(2,3) by (simp add: tables_agree_def)
  from insert_spaces_agree [OF cr this assms(2,4) _ el] obtain ht
    where ht: "insert_spaces sps as ht0 = Some ht" "tables_agree (element_at L sps as) tab ht"
    using assms(5) ht0(4) by auto
  then show ?thesis using ht0(1) lookup_space_map [of ht] by (auto simp: space_table_def tables_agree_def split: option.splits)
qed

theorem space_table_refines_witness:
  "\<exists>tab ht a. tsd_create demo_lib (mc_create demo_calls) [(demo_heap 0)\<lparr>cname := c_bytes ''/m''\<rparr>] = Some (0, tab) \<and>
    space_table [(demo_heap 0)\<lparr>cname := c_bytes ''/m''\<rparr>] [4096] = Some ht \<and>
    lookup_space ht ''/m'' = Some (Some a) \<and> lookup_space ht ''/n'' = Some None"
proof -
  let ?sp = "(demo_heap 0)\<lparr>cname := c_bytes ''/m''\<rparr>"
  have name: "cstr (cname ?sp) = Some ''/m''" by (simp add: cstr_c_bytes0 c_string_def)
  then have cr: "tsd_create demo_lib (mc_create demo_calls) [?sp] = Some (0, [''/m'' \<mapsto> create_element demo_lib ?sp ''/m''])"
    by (simp add: tsd_create_def demo_calls_def sprintf50_def create_shared_memory_def open_shared_memory_def)
  obtain ht where ht: "space_table [?sp] [4096] = Some ht" "\<forall>name. c_string name \<longrightarrow> lookup_space ht name \<noteq> None \<and>
      (case the (lookup_space ht name) of
         None \<Rightarrow> [''/m'' \<mapsto> create_element demo_lib ?sp ''/m''] name = None
       | Some a \<Rightarrow> element_at demo_lib [?sp] [4096] a \<noteq> None \<and>
           [''/m'' \<mapsto> create_element demo_lib ?sp ''/m''] name = element_at demo_lib [?sp] [4096] a)"
    using space_table_refines [OF cr, of "[4096]"] by (auto simp: DELETED_def)
  have m: "c_string ''/m''" "c_string ''/n''" by (simp_all add: c_string_def)
  show ?thesis using cr ht(1) ht(2) [rule_format, OF m(1)] ht(2) [rule_format, OF m(2)] by (auto split: option.splits)
qed

text \<open>
  C11. Items of any sizes written to a shared memory pipe one after the other, in as many chunks as they
  need, are read back whole and in order by \<open>recv_item\<close>, and the segment is left with what followed.
\<close>

theorem pipe_item_fifo:
  assumes "data1 \<noteq> []" and "data2 \<noteq> []"
    and "send_item p (Live data1) (length data1) w = Some (r1, w1)"
    and "send_item p (Live data2) (length data2) w1 = Some (r2, w2)"
    and "tx w = []" and "shm v p = written p (tx w2) @ rest"
  shows "\<exists>v1 v2. recv_item p v = Some (0, Live data1, length data1, v1) \<and>
    recv_item p v1 = Some (0, Live data2, length data2, v2) \<and> shm v2 p = rest"
  using assms by (rule pipe.fifo)

theorem pipe_item_fifo_witness:
  "\<exists>v1 v2. recv_item ''q'' (idle_net\<lparr>shm := \<lambda>_. item_chunks ''ab'' @ item_chunks ''c''\<rparr>) = Some (0, Live ''ab'', 2, v1) \<and>
    recv_item ''q'' v1 = Some (0, Live ''c'', 1, v2) \<and> shm v2 ''q'' = []"
proof -
  let ?v = "idle_net\<lparr>shm := \<lambda>_. item_chunks ''ab'' @ item_chunks ''c''\<rparr>"
  have ne: "''ab'' \<noteq> []" "''c'' \<noteq> []" by simp_all
  note put = pipe.put [OF ne(1), of "''q''" idle_net]
  have tr: "tx idle_net = []" by (simp add: idle_net_def)
  have "\<exists>v1 v2. recv_item ''q'' ?v = Some (0, Live ''ab'', length ''ab'', v1) \<and>
    recv_item ''q'' v1 = Some (0, Live ''c'', length ''c'', v2) \<and> shm v2 ''q'' = []"
    by (rule pipe_item_fifo [OF ne put pipe.put [OF ne(2)]]) (simp_all add: tr)
  then show ?thesis by (simp add: numeral_2_eq_2)
qed

text \<open>
  C12. When two clients block on a get of the same name, the put of that name answers the first and also
  removes the request of the second, which gets no answer and is no longer queued: the loop of
  \<open>match_blocking_requests\<close> searches once more after the tuple was taken and frees what it finds. (For
  any position of the two requests at the head of the queue, any clients and any data.)
\<close>

theorem put_drops_second_getter:
  assumes "tsd_space L ti ri si"
    and "tab ns = Some e" and "space_ok ti ri e" and "head_ok c ns ns"
    and "c_string n" and "fits_int n" and "d \<noteq> []" and "length d < 2 ^ 64" and "ts_tsd_pipe e = pipe"
    and "ri (named_queue_requests e) = b1 # b2 # bs"
    and "waiting n c1 TsGet_Blocking l1 b1" and "waiting n c2 TsGet_Blocking l2 b2"
  shows "\<exists>e'. daemon_call L self tab local c (put_ev local pipe ns n d)
      = Some (tab(ns \<mapsto> e'), answer_ev (tsd_ts_pipe e) n d b1) \<and>
    ri (named_queue_requests e') = bs \<and> ti (named_queue e') = ti (named_queue e)"
proof -
  have w: "wants (rgx L) (put_tuple n d) b1" "wants (rgx L) (put_tuple n d) b2" "consumes b1"
    using wants_waiting [OF assms(11) _ assms(5,7,8)] wants_waiting [OF assms(12) _ assms(5,7,8)] by auto
  then have "serve (wants (rgx L) (put_tuple n d)) consumes (ri (named_queue_requests e)) = ([b1], bs, True)"
    using assms(10) by simp
  from tsd_space.put_call [where tab = tab and ns = ns and e = e, OF assms(1-9) this, of self local] show ?thesis by auto
qed

theorem put_drops_second_getter_witness:
  "\<exists>e'. daemon_call demo_lib demo_cfg
      [''ns'' \<mapsto> demo_space\<lparr>named_queue_requests := [demo_request ''k'' ''a'' TsGet_Blocking, demo_request ''k'' ''b'' TsGet_Blocking]\<rparr>]
      False ''c1'' (put_ev False ''ns-push'' ''ns'' ''k'' ''v'') =
      Some ([''ns'' \<mapsto> e'], answer_ev ''ns-pull'' ''k'' ''v'' (demo_request ''k'' ''a'' TsGet_Blocking)) \<and>
    named_queue_requests e' = [] \<and> named_queue e' = []"
  using put_drops_second_getter [OF demo_lib_space, of
      "[''ns'' \<mapsto> demo_space\<lparr>named_queue_requests := [demo_request ''k'' ''a'' TsGet_Blocking, demo_request ''k'' ''b'' TsGet_Blocking]\<rparr>]"
      "''ns''" "demo_space\<lparr>named_queue_requests := [demo_request ''k'' ''a'' TsGet_Blocking, demo_request ''k'' ''b'' TsGet_Blocking]\<rparr>"
      "''c1''" "''k''" "''v''" "''ns-push''" "demo_request ''k'' ''a'' TsGet_Blocking" "demo_request ''k'' ''b'' TsGet_Blocking"
      "[]" "''a''" False "''b''" False demo_cfg False]
  by (simp add: c_string_def fits_int_def demo_request_waiter demo_space_queue demo_waiting)



text \<open>
  C14. Terminating a space that holds a broadcast tuple never returns: the loop that should empty the
  broadcast queue detaches from the named queue, so its condition stays true.
\<close>

theorem term_hangs_on_broadcasts:
  assumes "tsd_space L ti ri si" and "ti (bcast_queue e) \<noteq> []"
  shows "ts_term_clear_requests L e w = None"
  using assms by (rule tsd_space.term_clear_hangs)

theorem term_hangs_on_broadcasts_witness:
  "ts_term_clear_requests demo_lib (demo_space\<lparr>bcast_queue := [put_tuple ''k'' ''v'']\<rparr>) idle_net = None"
  by (rule term_hangs_on_broadcasts [OF demo_lib_space]) simp

text \<open>
  C15. What a broadcast write stores does not depend on the tuple: the handler appends a copy of the
  code of the C function \<open>recv\<close>. A remote tuple of more than eight bytes is received past the pointer
  it is received into.
\<close>

theorem bcast_write_ignores_tuple:
  assumes "tsd_space L ti ri si" and "session c args" and "act args = TsBCast_Write" and "fits_int n" and "d \<noteq> []"
    and "length d < 2 ^ 64"
    and "rx w (using_socket (is_local args)) = (if is_local args then str_frames n False @ fs
      else str_frames n True @ RMsg (be64 (word_of_nat (length d))) True # RMsg d False # fs)"
    and "is_local args \<Longrightarrow> shm w (ts_tsd_pipe e) = item_chunks d @ cs"
  shows "if is_local args \<or> length d \<le> 8
    then \<exists>q w'. bcast_queue_write_handler L args e w = Some (Some 0, closed args, e\<lparr>bcast_queue := q\<rparr>, w') \<and>
      ti q = ti (bcast_queue e) @ [recv_code L] \<and> tx w' = tx w
    else bcast_queue_write_handler L args e w = None"
proof (cases "is_local args")
  case True
  then show ?thesis
    using tsd_space.bcast_write_local [OF assms(1-3) True assms(4,5), of w fs e cs] assms(7,8) by (simp add: using_socket_def)
next
  case False
  then show ?thesis
    using tsd_space.bcast_write_remote [OF assms(1-3) False assms(4-6), of w fs e] assms(7) by (simp add: using_socket_def)
qed

theorem bcast_write_ignores_tuple_witness:
  "bcast_queue_write_handler demo_lib (head_args ''x'' ''ns'' TsBCast_Write False) demo_space
     (server_net (str_frames ''k'' True @ [RMsg (be64 9) True, RMsg (replicate 9 CHR ''v'') False])) = None"
  using bcast_write_ignores_tuple [OF demo_lib_space, of "''x''" "head_args ''x'' ''ns'' TsBCast_Write False" "''k''"
      "replicate 9 CHR ''v''" "server_net (str_frames ''k'' True @ [RMsg (be64 9) True, RMsg (replicate 9 CHR ''v'') False])" "[]"
      demo_space "[]"] head_args_session [of "''x''" "''ns''" "''ns''" TsBCast_Write False]
  by (simp add: fits_int_def using_socket_def head_ok_def c_string_def)

text \<open>
  C16. The comparator of the tuple queues is defined on all tuples that are named or anonymous, does not
  depend on the order of its arguments when it is asked for a match, never matches a named with an
  anonymous tuple, and on plain names (no pattern, no regular expression) is equality.
\<close>

theorem tuple_compare:
  assumes "wf_tuple s" and "wf_tuple t"
  shows "(\<exists>r. tplcmp R s t = Some r) \<and> (tplcmp R s t = Some 0 \<longleftrightarrow> tplcmp R t s = Some 0) \<and>
    (anonymous s \<and> named n t \<longrightarrow> tplcmp R s t \<noteq> Some 0) \<and>
    (named m s \<and> named n t \<and> plain_name m \<and> plain_name n \<longrightarrow> (tplcmp R s t = Some 0 \<longleftrightarrow> m = n))"
proof (intro conjI impI)
  show "\<exists>r. tplcmp R s t = Some r" using tplcmp_total [OF assms] by auto
  show "tplcmp R s t = Some 0 \<longleftrightarrow> tplcmp R t s = Some 0" by (rule tplcmp_sym [OF assms])
  show "tplcmp R s t \<noteq> Some 0" if "anonymous s \<and> named n t" using tplcmp_anonymous_named(1) [of s n t R] that by auto
qed (auto simp: tplcmp_plain)

theorem tuple_compare_witness:
  "tplcmp (\<lambda>_ _. None) (put_tuple ''a'' ''x'') (put_tuple ''a'' ''y'') = Some 0 \<and>
   tplcmp (\<lambda>_ _. None) (put_tuple ''a'' ''x'') (put_tuple ''b'' ''y'') \<noteq> Some 0"
proof -
  have n: "named ''a'' (put_tuple ''a'' ''x'')" "named ''a'' (put_tuple ''a'' ''y'')" "named ''b'' (put_tuple ''b'' ''y'')"
    by (simp_all add: named_def put_tuple_def cstr_c_bytes0 c_string_def)
  then have wf: "wf_tuple (put_tuple ''a'' ''x'')" "wf_tuple (put_tuple ''a'' ''y'')" "wf_tuple (put_tuple ''b'' ''y'')"
    by (auto simp: wf_tuple_def)
  show ?thesis
    using tuple_compare [OF wf(1,2), of "\<lambda>_ _. None" "''a''" "''a''"] tuple_compare [OF wf(1,3), of "\<lambda>_ _. None" "''b''" "''a''"] n
    by (simp add: plain_name_def) blast
qed

text \<open>
  C17. The wildcard matcher \<open>_match\<close> accepts only names that the pattern denotes (\<open>?\<close> one byte, \<open>*\<close> any
  bytes), and on names without a star it accepts all of them; with a star in the name it can miss one:
  the pattern \<open>*\<close> rejects every longer name that begins with a star.
\<close>

theorem match_is_glob:
  "(match_expr es ns = 0 \<longrightarrow> glob es ns) \<and> (CHR ''*'' \<notin> set ns \<longrightarrow> glob es ns \<longrightarrow> match_expr es ns = 0) \<and>
   glob ''*'' ns \<and> (match_expr ''*'' (CHR ''*'' # ns) = 0 \<longleftrightarrow> ns = [])"
proof -
  have "glob ''*'' ns" by (induction ns) auto
  moreover have "match_expr ''*'' (CHR ''*'' # ns) = 0 \<longleftrightarrow> ns = []" by (cases ns) auto
  ultimately show ?thesis by (auto intro: match_sound_aux match_complete_aux)
qed

theorem match_is_glob_witness:
  "glob ''k?*'' ''keys'' \<and> match_expr ''k?*'' ''keys'' = 0 \<and> glob ''*'' ''*a'' \<and> match_expr ''*'' ''*a'' \<noteq> 0"
  using match_is_glob [of "''k?*''" "''keys''"] match_is_glob [of "''*''" "''*a''"] match_is_glob [of "''*''" "''a''"]
  by simp

text \<open>
  C18. A ring node serves the requests of its protocol as the protocol on names says
  (\<open>ring_step\<close>), in every state, on a network where sends and connections succeed: joining at
  the predecessor (ask, commit, abort) and at the successor, pings, stabilisation, the replication of the
  successor list and the join of a ring of one. From the frames of the message the node comes to the state,
  neighbours, successor list and trigger of the step, sends exactly the frames of the answer to the client
  (the refusals included), closes and opens exactly the connections of the step, and is again a node whose
  blocks hold C strings, with its capacity, endpoint and configuration. Lists of any length that the count
  of 32 bits can hold are safe: empty ones are refused, a replicated list with more names than slots is
  refused, and that of a commit is cut. The address in \<open>OneRingJoin\<close> may be of any length too: one that
  does not fit is not taken, and the node still becomes a member. The addresses that other nodes send in
  \<open>GetReq\<close>, \<open>JoinReq\<close> and \<open>StabReq\<close> have to fit their blocks,
  which the handlers do not test. A refusal that comes before the message is read leaves the rest of its
  frames on the socket (\<open>ring_left\<close>), where they are taken for the next message. The id of the
  client may be shorter than that of an earlier one: \<open>c\<close> is what the buffer then holds.
\<close>

theorem ring_requests_refine:
  assumes "ring_ok p" and "length idf \<le> P2PM_MAX_ID_LEN" and "cstr (idf @ drop (length idf) (clientid p)) = Some c"
    and "ring_req_ok l q" and "send_ok w = []" and "conn_ok w = []" and "rx w ServerSocket = ring_frames idf l q @ fs"
    and "ring_step (stabilised p w) c q (ring_view p) = (x', acts)"
  shows "\<exists>p' w' evs. serve_request p w = Some (True, p', w') \<and> ring_ok p' \<and> ring_view p' = x' \<and>
    tx w' = tx w @ evs \<and> list_all2 performs acts evs \<and> rx w' ServerSocket = ring_left l q (ring_view p) @ fs \<and>
    r_max (node_list p') = r_max (node_list p) \<and> p2p_endpoint p' = p2p_endpoint p \<and> config p' = config p"
  using assms by (rule ring_request_served)

theorem ring_requests_refine_witness:
  "\<exists>p' w' evs. serve_request demo_committing
      (server_net (ring_frames (demo_id ''c'') (c_bytes ''b'' @ zeros 254) (JoinCmt [''b'']))) = Some (True, p', w') \<and>
    ring_view p' = \<lparr>rn_status = P2PM_NODE_MEMBER, rn_pred = ''q'', rn_succ = ''n'', rn_tpred = [], rn_tsucc = [],
      rn_list = [''n'', ''b'', []], rn_used = 2, rn_trigger = P2PM_NO_XPV, rn_ttl = 0\<rparr> \<and>
    tx w' = evs \<and> list_all2 performs
      [Frame ''c'' True, reply P2PM_JOIN_ACK2 False, Unlink SuccessorSocket ''s'', Link SuccessorSocket ''n''] evs \<and>
    rx w' ServerSocket = []"
proof -
  let ?w = "server_net (ring_frames (demo_id ''c'') (c_bytes ''b'' @ zeros 254) (JoinCmt [''b'']))"
  let ?acts = "[Frame ''c'' True, reply P2PM_JOIN_ACK2 False, Unlink SuccessorSocket ''s'', Link SuccessorSocket ''n'']"
  let ?x = "\<lparr>rn_status = P2PM_NODE_MEMBER, rn_pred = ''q'', rn_succ = ''n'', rn_tpred = [], rn_tsucc = [],
      rn_list = [''n'', ''b'', []], rn_used = 2, rn_trigger = P2PM_NO_XPV, rn_ttl = 0\<rparr>"
  have id: "length (demo_id ''c'') = P2PM_MAX_ID_LEN" "cstr (demo_id ''c'' @ rest) = Some ''c''" for rest
    by (simp_all add: demo_id_def cstr_c_bytes c_string_def P2PM_MAX_ID_LEN_def)
  have l: "ring_req_ok (c_bytes ''b'' @ zeros 254) (JoinCmt [''b''])"
    by (simp add: names_in_def slot_def demo_names)
  have st: "ring_step (stabilised demo_committing ?w) ''c'' (JoinCmt [''b'']) (ring_view demo_committing) = (?x, ?acts)"
    by (simp add: demo_committing_view adopt_def after_join_def)
  show ?thesis
    using ring_requests_refine [of demo_committing "demo_id ''c''" "''c''" "c_bytes ''b'' @ zeros 254" "JoinCmt [''b'']" ?w "[]", OF _ _ _ _ _ _ _ st]
      id l demo_committing_ok by auto
qed

text \<open>
  C19. A join as a whole. The joining node, its predecessor and its successor each read what the others sent,
  the members behind an identity frame and the joining node behind a pong. The handlers of both members
  and the joining procedure succeed, what they read is what was sent, and the three nodes end up as
  members in a row: the predecessor's successor is the new node, whose successor is the old one, whose
  predecessor is the new node. The successor lists are handed back along the ring: the new node's is its
  successor followed by its successor's list, the predecessor's is the new node followed by the new node's
  list, each up to the capacity.
\<close>

theorem ring_join_completes:
  assumes J: "p2p_ok j" "current_status j = P2PM_NODE_JOINING" "cstr (predecessor (node_list j)) = Some pa" "address (p2p_endpoint j)"
    and P: "p2p_ok p" "current_status p = P2PM_NODE_MEMBER" "cstr (successor (node_list p)) = Some sa" "address sa"
    and S: "p2p_ok s" "current_status s = P2PM_NODE_MEMBER" "cstr (predecessor (node_list s)) = Some q" "list_fits (node_list s) f"
    and sizes: "r_max (node_list p) = r_max (node_list j)" "ni_r (node_list s) \<le> r_max (node_list j)"
    and ids: "client_id i1 c1" "client_id i2 c2" "client_id i3 c3" "client_id i4 c4"
    and nets: "quiet w1" "quiet w2" "quiet w3" "quiet w4" "quiet w5"
  shows "\<exists>r1 p1 v1 s1 v2 j' v3 p2 v4 s2 v5 cmt.
    GET_REQ_handler (from_client i1 p) (reads ServerSocket (str_frames (p2p_endpoint j) False) w1) = Some (r1, p1, v1) \<and>
    JOIN_REQ_handler (from_client i2 s) (reads ServerSocket (str_frames (p2p_endpoint j) False) w2) = Some (P2PM_OP_SUCCESS, s1, v2) \<and>
    p2pm_join j (reads PredecessorSocket (pong # tl (sent ServerSocket w1 v1) @ pong # tl (sent ServerSocket w4 v4))
      (reads SuccessorSocket (pong # tl (sent ServerSocket w2 v2)) w3)) = Some (P2PM_OP_SUCCESS, j', v3) \<and>
    JOIN_CMT_handler (from_client i3 p1) (reads ServerSocket cmt w4) = Some (P2PM_OP_SUCCESS, p2, v4) \<and>
    PRED_JOIN_CMT_handler (from_client i4 s1) w5 = Some (P2PM_OP_SUCCESS, s2, v5) \<and>
    sent PredecessorSocket w3 v3 = request_frame P2PM_GET_REQ True # str_frames (p2p_endpoint j) False @
      request_frame P2PM_JOIN_CMT True # cmt \<and>
    sent SuccessorSocket w3 v3 = request_frame P2PM_JOIN_REQ True # str_frames (p2p_endpoint j) False @
      [request_frame P2PM_PRED_JOIN_CMT False] \<and>
    current_status j' = P2PM_NODE_MEMBER \<and> current_status p2 = P2PM_NODE_MEMBER \<and> current_status s2 = P2PM_NODE_MEMBER \<and>
    cstr (successor (node_list p2)) = Some (p2p_endpoint j) \<and> cstr (predecessor (node_list j')) = Some pa \<and>
    cstr (successor (node_list j')) = Some sa \<and> cstr (predecessor (node_list s2)) = Some (p2p_endpoint j) \<and>
    cstr (slot (successor_list (node_list p2)) 0) = Some (p2p_endpoint j) \<and> cstr (slot (successor_list (node_list j')) 0) = Some sa \<and>
    unat (ni_r (node_list j')) = min (Suc (unat (ni_r (node_list s)))) (unat (r_max (node_list j))) \<and>
    unat (ni_r (node_list p2)) = min (Suc (unat (ni_r (node_list j')))) (unat (r_max (node_list j))) \<and>
    (\<forall>i. Suc i < unat (ni_r (node_list j')) \<longrightarrow>
       slot (successor_list (node_list j')) (Suc i) = slot (successor_list (node_list s)) i) \<and>
    (\<forall>i. Suc i < unat (ni_r (node_list p2)) \<longrightarrow>
       slot (successor_list (node_list p2)) (Suc i) = slot (successor_list (node_list j')) i)"
  by (rule ring_join [OF J P S sizes ids nets])

theorem ring_join_completes_witness:
  "\<exists>r1 p1 v1 p2 v4 (j' :: p2pm) v3 cmt.
    GET_REQ_handler (from_client (demo_id ''x'') (demo_p2p P2PM_NODE_MEMBER))
      (reads ServerSocket (str_frames ''e'' False) idle_net) = Some (r1, p1, v1) \<and>
    JOIN_CMT_handler (from_client (demo_id ''x'') p1) (reads ServerSocket cmt idle_net) = Some (P2PM_OP_SUCCESS, p2, v4) \<and>
    cstr (successor (node_list p2)) = Some ''e'' \<and>
    sent PredecessorSocket idle_net v3 = request_frame P2PM_GET_REQ True # str_frames ''e'' False @
      request_frame P2PM_JOIN_CMT True # cmt \<and>
    cstr (successor (node_list j')) = Some ''s'' \<and> current_status j' = P2PM_NODE_MEMBER"
proof -
  have cap: "ni_r (node_list (demo_p2p P2PM_NODE_MEMBER)) \<le> r_max (node_list (demo_p2p P2PM_NODE_JOINING))"
    by (simp add: word_le_nat_alt)
  have id: "client_id (demo_id ''x'') ''x''" by simp
  show ?thesis
    using ring_join_completes [of "demo_p2p P2PM_NODE_JOINING" "''q''" "demo_p2p P2PM_NODE_MEMBER" "''s''"
        "demo_p2p P2PM_NODE_MEMBER" "''q''" "''a''" "demo_id ''x''" "''x''" "demo_id ''x''" "''x''" "demo_id ''x''" "''x''"
        "demo_id ''x''" "''x''" idle_net idle_net idle_net idle_net idle_net] cap id
    by (simp del: rep_code.simps req_code.simps) (elim exE conjE, intro exI conjI, assumption+)
qed

text \<open>
  C20. When a second node asks to join before the first commits, the predecessor refuses it with
  \<open>GET_NACK\<close>, but has already stored its address: the commit of the first node then makes the refused
  node the successor. (\<open>_GET_REQ_handler\<close> writes \<open>temp_successor\<close> before it looks at its state.)
\<close>

theorem join_race_misdirects:
  assumes "p2p_ok p" and "current_status p = P2PM_NODE_MEMBER" and "cstr (successor (node_list p)) = Some s"
    and "client_id i1 c1" and "client_id i2 c2" and "client_id i3 c3" and "address a" and "address b"
    and "send_ok w1 = []" and "rx w1 ServerSocket = str_frames a mo1 @ fs1"
    and "send_ok w2 = []" and "rx w2 ServerSocket = str_frames b mo2 @ fs2"
    and "send_ok w3 = []" and "conn_ok w3 = []" and "rx w3 ServerSocket = RMsg (be32 r) True # RMsg l mo3 # fs3"
    and "r \<noteq> 0" and "unat r < 2 ^ 32 - 1" and "length l \<le> unat (r_max (node_list p)) * 256"
    and "cstr l = Some f" and "address f"
  shows "\<exists>r1 r2 p1 p2 p3 w1' w2' w3'.
    GET_REQ_handler (from_client i1 p) w1 = Some (r1, p1, w1') \<and>
      tx w1' = tx w1 @ Tx ServerSocket c1 True # Tx ServerSocket (be32 (rep_code P2PM_GET_ACK)) True # str_ev ServerSocket s False \<and>
    GET_REQ_handler (from_client i2 p1) w2 = Some (r2, p2, w2') \<and>
      tx w2' = tx w2 @ [Tx ServerSocket c2 True, Tx ServerSocket (be32 (rep_code P2PM_GET_NACK)) False] \<and>
    JOIN_CMT_handler (from_client i3 p2) w3 = Some (P2PM_OP_SUCCESS, p3, w3') \<and>
      cstr (successor (node_list p3)) = Some b \<and> current_status p3 = P2PM_NODE_MEMBER \<and>
      cstr (slot (successor_list (node_list p3)) 0) = Some b"
  using assms by (rule join_race)

theorem join_race_misdirects_witness:
  "\<exists>r1 r2 p1 p2 p3 w1' w2' w3'.
    GET_REQ_handler (from_client (demo_id ''x'') (demo_p2p P2PM_NODE_MEMBER)) (server_net (str_frames ''a'' False)) = Some (r1, p1, w1') \<and>
    GET_REQ_handler (from_client (demo_id ''y'') p1) (server_net (str_frames ''b'' False)) = Some (r2, p2, w2') \<and>
    JOIN_CMT_handler (from_client (demo_id ''x'') p2) (server_net [RMsg (be32 1) True, RMsg (c_bytes ''s'') False])
      = Some (P2PM_OP_SUCCESS, p3, w3') \<and>
    cstr (successor (node_list p3)) = Some ''b''"
  using join_race_misdirects [of "demo_p2p P2PM_NODE_MEMBER" "''s''" "demo_id ''x''" "''x''" "demo_id ''y''" "''y''"
      "demo_id ''x''" "''x''" "''a''" "''b''" "server_net (str_frames ''a'' False)" False "[]"
      "server_net (str_frames ''b'' False)" False "[]" "server_net [RMsg (be32 1) True, RMsg (c_bytes ''s'') False]" 1
      "c_bytes ''s''" False "[]" "''s''"]
  by (simp add: cstr_c_bytes0 c_string_def address_def P2PM_MAX_ID_LEN_def) blast

text \<open>
  C21. A token that the tuple space daemon hands to its node is forwarded to the successor, and the
  successor's token handler that reads these frames holds the same token: id, time to live, both blocks
  and their lengths. The sender has no token any more.
\<close>

theorem token_travels:
  assumes "token_ok (send_token p) b1 b2" and "send_ok w = []"
    and "rx v ServerSocket = map (\<lambda>(m, mo). RMsg m mo) (tl (token_frames (send_token p) b1 b2)) @ fs"
  shows "\<exists>p' w' v'. forward_token p w = Some (p', w') \<and> \<not> send_has_token p' \<and>
    tx w' = tx w @ map (\<lambda>(m, mo). Tx SuccessorSocket m mo) (token_frames (send_token p) b1 b2) \<and>
    TOKEN_handler q v = Some (P2PM_OP_SUCCESS, q\<lparr>recv_token := send_token p, recv_has_token := True\<rparr>, v')"
  using forward_token_run [OF assms(1,2)] token_received [OF assms(1,3), of q] by auto

theorem token_travels_witness:
  "\<exists>p' w' v'. forward_token (demo_p2p P2PM_NODE_MEMBER) idle_net = Some (p', w') \<and> \<not> send_has_token p' \<and>
    TOKEN_handler (demo_p2p P2PM_NODE_ALONE) (server_net (map (\<lambda>(m, mo). RMsg m mo)
      (tl (token_frames (space_token 0 demo_cfg ''ns'') (c_bytes ''ns'') (c_bytes ''tcp://a:1''))))) =
      Some (P2PM_OP_SUCCESS, (demo_p2p P2PM_NODE_ALONE)\<lparr>recv_token := space_token 0 demo_cfg ''ns'', recv_has_token := True\<rparr>, v')"
proof -
  have s: "send_token (demo_p2p P2PM_NODE_MEMBER) = space_token 0 demo_cfg ''ns''" by (simp add: demo_p2p_def)
  have "token_ok (space_token 0 demo_cfg ''ns'') (c_bytes ''ns'') (c_bytes ''tcp://a:1'')"
    by (simp add: token_ok_def space_token_def demo_cfg_def)
  then show ?thesis
    using token_travels [of "demo_p2p P2PM_NODE_MEMBER" "c_bytes ''ns''" "c_bytes ''tcp://a:1''" idle_net
        "server_net (map (\<lambda>(m, mo). RMsg m mo) (tl (token_frames (space_token 0 demo_cfg ''ns'') (c_bytes ''ns'') (c_bytes ''tcp://a:1''))))"
        "[]" "demo_p2p P2PM_NODE_ALONE"] s by auto
qed

text \<open>
  C22. A joining node waits for a reply of its predecessor before it has asked for one: \<open>p2pm_try_live\<close>
  sends no ping. When only receive errors come from the predecessor (and the uninitialised word that is read
  as the reply is not a pong by chance) the join fails, and all that happened is a connection that is closed
  again.
\<close>

theorem join_never_asks:
  assumes "current_status p = P2PM_NODE_JOINING" and "cstr (predecessor (node_list p)) = Some a" and "conn_ok w = []"
    and "set (rx w PredecessorSocket) \<subseteq> {RErr}" and "uninit32 w \<noteq> rep_code P2PM_PONG_REP"
  shows "\<exists>w'. p2pm_join p w = Some (P2PM_OP_FAILURE, p, w') \<and>
    tx w' = tx w @ [Conn PredecessorSocket a, Disc PredecessorSocket a]"
  using assms by (rule join_silent)

theorem join_never_asks_witness:
  "\<exists>w'. p2pm_join (demo_p2p P2PM_NODE_JOINING) (idle_net\<lparr>rx := \<lambda>_. [RErr], junk := \<lambda>_. nul\<rparr>) =
      Some (P2PM_OP_FAILURE, demo_p2p P2PM_NODE_JOINING, w') \<and>
    tx w' = [Conn PredecessorSocket ''q'', Disc PredecessorSocket ''q'']"
  using join_never_asks [of "demo_p2p P2PM_NODE_JOINING" "''q''" "idle_net\<lparr>rx := \<lambda>_. [RErr], junk := \<lambda>_. nul\<rparr>"]
  by (simp add: uninit32_def uninit_def upt_rec)

text \<open>
  C23. A node that is not a member when its stabilisation timer runs out (a ring of one node, a node that
  waits for the commit of a join) never polls again: only members restart the timer, so the loop at
  \<open>_process_timeo\<close> goes round for ever, whatever the clock shows.
\<close>

theorem overdue_node_hangs:
  assumes "overdue p w"
  shows "process_timeo nothing_polled p w = None"
  using assms by (rule timeo_spins)

theorem overdue_node_hangs_witness:
  "process_timeo nothing_polled (demo_p2p P2PM_NODE_ONE_RING) (idle_net\<lparr>clk := [101, 120], clk_last := 200\<rparr>) = None"
  by (rule overdue_node_hangs) (simp add: overdue_def demo_p2p_def readings_def)

text \<open>
  C24. When the predecessor of a member does not answer the third ping, the handler triggers the search for
  a new one, but the server loop clears the trigger at the end of the same round: the node stays a member
  with the lost predecessor, nothing is sent, and no trigger is left; the clock is taken to stand still during
  the round. In general, with any clock, no trigger survives a round.
\<close>

theorem predecessor_failure_ignored:
  assumes "clk w = []" and "current_status p = P2PM_NODE_MEMBER"
    and "clk_last w - last_stabilize_time p \<le> stabilize_interval (config p)"
    and "clk_last w - predecessor_lastpoll_time p > uint (recv_wait (config p))"
    and "predecessor_socket_expected_actions p \<in> {P2PM_XPV_PRED_REP_PING3, P2PM_XPV_PRED_FAILURE}"
    and "successor_socket_expected_actions p = P2PM_NO_XPV" and "server_triggered_actions p = P2PM_NO_XPV"
    and "\<not> send_has_token p"
  shows "(\<exists>t. p2pm_loop_server nothing_polled p w = Some (P2PM_OP_SUCCESS, p\<lparr>successor_lastpoll_time := t,
      predecessor_lastpoll_time := clk_last w, predecessor_socket_expected_actions := P2PM_NO_XPV\<rparr>, w)) \<and>
    (\<forall>ev q v q' v'. p2pm_loop_server ev q v = Some (P2PM_OP_SUCCESS, q', v') \<longrightarrow> server_triggered_actions q' = P2PM_NO_XPV)"
  using pred_failure_lost [OF assms] loop_clears_trigger by auto

theorem predecessor_failure_ignored_witness:
  "\<exists>p'. p2pm_loop_server nothing_polled ((demo_p2p P2PM_NODE_MEMBER)
      \<lparr>predecessor_socket_expected_actions := P2PM_XPV_PRED_REP_PING3\<rparr>) (idle_net\<lparr>clk_last := 50\<rparr>) =
    Some (P2PM_OP_SUCCESS, p', idle_net\<lparr>clk_last := 50\<rparr>)"
  using predecessor_failure_ignored [of "idle_net\<lparr>clk_last := 50\<rparr>"
      "(demo_p2p P2PM_NODE_MEMBER)\<lparr>predecessor_socket_expected_actions := P2PM_XPV_PRED_REP_PING3\<rparr>"]
  by (simp add: demo_p2p_def) blast

text \<open>
  C25. A node whose successor does not answer takes the second of its list, pings it twice when that one
  does not answer either, and then: with a list that is not full it has no further successor, whatever the
  third and later slots hold, and looks for the head; with a full list it connects to the same address
  again. The first change has cleared the second slot, or left it as it was, instead of moving the list.
\<close>

theorem failover_gives_up:
  assumes "p2p_ok p" and "2 \<le> unat (r_max (node_list p))" and "cstr (successor (node_list p)) = Some s"
    and "cstr (slot (successor_list (node_list p)) 1) = Some b" and "b \<noteq> []"
    and "successor_socket_expected_actions p = P2PM_XPV_PING_AND_STABILIZE_REQ2"
    and "conn_ok w1 = []" and "send_ok w2 = []" and "conn_ok w3 = []"
  shows "\<exists>p1 v1 p2 v2 p3 v3. succ_timeout p w1 = Some (p1, v1) \<and> succ_timeout p1 w2 = Some (p2, v2) \<and>
    succ_timeout p2 w3 = Some (p3, v3) \<and>
    tx v1 = tx w1 @ [Disc SuccessorSocket s, Conn SuccessorSocket b] \<and> cstr (successor (node_list p1)) = Some b \<and>
    tx v2 = tx w2 @ replicate 2 (Tx SuccessorSocket (be32 (req_code P2PM_PING_REQ)) False) \<and> node_list p2 = node_list p1 \<and>
    (\<forall>i. 2 \<le> i \<and> i < unat (r_max (node_list p)) \<longrightarrow>
       slot (successor_list (node_list p3)) i = slot (successor_list (node_list p)) i) \<and>
    (if ni_r (node_list p) < r_max (node_list p)
     then current_status p3 = P2PM_FINDING_HEAD \<and> successor_socket_expected_actions p3 = P2PM_NO_XPV \<and>
       node_list p3 = node_list p1 \<and> tx v3 = tx w3
     else current_status p3 = current_status p \<and> cstr (successor (node_list p3)) = Some b \<and>
       tx v3 = tx w3 @ [Disc SuccessorSocket b, Conn SuccessorSocket b])"
  using assms by (rule failover)

theorem failover_gives_up_witness:
  "\<exists>p1 v1 p2 v2 p3 v3.
    succ_timeout ((demo_p2p P2PM_NODE_MEMBER)\<lparr>successor_socket_expected_actions := P2PM_XPV_PING_AND_STABILIZE_REQ2\<rparr>) idle_net
      = Some (p1, v1) \<and>
    succ_timeout p1 idle_net = Some (p2, v2) \<and> succ_timeout p2 idle_net = Some (p3, v3) \<and>
    cstr (successor (node_list p1)) = Some ''b'' \<and> current_status p3 = P2PM_FINDING_HEAD"
proof -
  let ?p = "(demo_p2p P2PM_NODE_MEMBER)\<lparr>successor_socket_expected_actions := P2PM_XPV_PING_AND_STABILIZE_REQ2\<rparr>"
  have ok: "p2p_ok ?p" using demo_p2p_ok(1) [of P2PM_NODE_MEMBER] by (simp add: p2p_ok_def)
  show ?thesis
    using failover_gives_up [OF ok, of "''s''" "''b''" idle_net idle_net idle_net]
    by (simp del: req_code.simps One_nat_def) blast
qed

text \<open>
  C26. The handler of the predecessor socket, which calls itself when a replication times out, returns for
  every well-formed node, whatever was polled, for every script of clock readings that then stands still: the
  inner call starts from the reading of the outer one, and the last case of a lost predecessor cannot fault.
\<close>

theorem predecessor_handler_returns:
  assumes "p2p_ok p"
  shows "\<exists>r p' w'. predecessor_socket_handler ev p w = Some (r, p', w') \<and> p2p_ok p'"
proof -
  obtain r p' w' where y: "predecessor_socket_handler ev p w = Some (r, p', w')"
    using predecessor_handler_runs [OF assms, of ev w] by auto
  moreover have "p2p_ok p'" using wlpD [OF predecessor_socket_kept y] assms by (simp add: kept_def)
  ultimately show ?thesis by blast
qed

theorem predecessor_handler_returns_witness:
  "\<exists>r p' w'. predecessor_socket_handler nothing_polled ((demo_p2p P2PM_NODE_MEMBER)
      \<lparr>predecessor_socket_expected_actions := P2PM_XPV_RELAY_BACKWARDS\<rparr>) (idle_net\<lparr>clk := [50, 60, 90]\<rparr>) = Some (r, p', w') \<and> p2p_ok p'"
  by (rule predecessor_handler_returns) (use demo_p2p_ok(1) in \<open>simp add: p2p_ok_def\<close>)

text \<open>
  C27. A configuration printed in the order of the files of \<^verbatim>\<open>etc/\<close>, whose strings fit their buffers, is
  accepted, whatever the caller's memory held before, with exactly the values that were printed: mode,
  addresses, the list in slots of 256 bytes, capacity, and every space with its name, id and modes.
\<close>

theorem config_roundtrip:
  assumes "conf_ok k" and "bson_lib_ok B" and "\<forall>i. space_sized (heap i)"
  shows "\<exists>c'. sng_parse_config B heap (Document (config_doc k)) c = Some (Returned P2PM_OP_SUCCESS, c') \<and>
    parsed_config k heap c'"
  using assms by (rule parse_run)

theorem config_roundtrip_witness:
  "\<exists>c'. sng_parse_config demo_bson demo_heap (Document (config_doc demo_conf)) demo_raw = Some (Returned P2PM_OP_SUCCESS, c') \<and>
    cfg_r c' = 1 \<and> cfg_r_max c' = 5 \<and> p2pmd_mode c' = P2PM_NODE_MEMBER"
  using config_roundtrip [OF demo_conf_ok demo_bson_ok demo_heap_ok, of demo_raw]
  by (auto simp: parsed_config_def demo_conf_def)

text \<open>
  C28. Whatever the document, an accepted configuration has each of the six fields of the ring daemon exactly
  once, and the successor list stands before its length (\<open>_bvset\<close> in the test at \<open>r\<close> marks the list as
  read, so the other order is refused); its blocks have their sizes, the successor is the first of the
  list, and every space has a terminated name of at most 25 characters.
\<close>

theorem accepted_config:
  assumes "sng_parse_config B heap (Document doc) c = Some (Returned P2PM_OP_SUCCESS, c')"
    and "cfg_successor_list c = Freed" and "spaces c = NoSpaces" and "\<forall>i. space_sized (heap i)"
  shows "\<exists>es sps. init_find B ''p2pmd'' doc = Some (BDoc es) \<and> listed_first es \<and> cfg_ok c' \<and>
    namespaces_of c' = Some sps \<and> (\<forall>sp \<in> set sps. space_sized sp \<and> space_named sp)"
  using assms by (rule parse_config_ok)

theorem accepted_config_witness:
  "\<exists>es c'. init_find demo_bson ''p2pmd'' (config_doc demo_conf) = Some (BDoc es) \<and> listed_first es \<and> cfg_ok c'"
proof -
  obtain c' where "sng_parse_config demo_bson demo_heap (Document (config_doc demo_conf)) demo_raw = Some (Returned P2PM_OP_SUCCESS, c')"
    using parse_run [OF demo_conf_ok demo_bson_ok demo_heap_ok] by blast
  then show ?thesis using accepted_config [OF _ demo_raw_free demo_heap_ok] by blast
qed

text \<open>
  C29. The parser allocates as many slots as the document lists, but a node copies up to \<open>r_max\<close>: on a node
  started from an accepted configuration with \<open>r < r_max\<close>, as all of \<^verbatim>\<open>etc/\<close> are, the commit of a join with
  a list of at least \<open>r\<close> entries writes past the end of the list.
\<close>

theorem short_list_overflows:
  assumes "cfg_ok c'" and "node_info_of c' = Some (node_list p)" and "cfg_r c' < cfg_r_max c'"
    and "unat (cfg_r_max c') < 2 ^ 24" and "client_id i cl" and "send_ok w = []"
    and "rx w ServerSocket = RMsg (be32 r) True # RMsg l mo # fs" and "cfg_r c' \<le> r" and "unat r < 2 ^ 32 - 1"
    and "length l \<le> unat (cfg_r_max c') * 256" and "cstr l = Some f" and "length f < 256"
  shows "JOIN_CMT_handler (from_client i p) w = None"
  using assms by (rule parsed_list_overflow)

theorem short_list_overflows_witness:
  "\<exists>c' n. sng_parse_config demo_bson demo_heap (Document (config_doc demo_conf)) demo_raw = Some (Returned P2PM_OP_SUCCESS, c') \<and>
    node_info_of c' = Some n \<and>
    JOIN_CMT_handler (from_client (demo_id ''x'') ((demo_p2p P2PM_NODE_HANDLING_JOIN)\<lparr>node_list := n\<rparr>))
      (server_net [RMsg (be32 1) True, RMsg (c_bytes ''b'') False]) = None"
proof -
  obtain c' where c': "sng_parse_config demo_bson demo_heap (Document (config_doc demo_conf)) demo_raw = Some (Returned P2PM_OP_SUCCESS, c')"
    and p: "parsed_config demo_conf demo_heap c'"
    using parse_run [OF demo_conf_ok demo_bson_ok demo_heap_ok] by blast
  have ok: "cfg_ok c'" using parse_config_ok [OF c' demo_raw_free demo_heap_ok] by blast
  obtain n where n: "node_info_of c' = Some n" using cfg_node [OF ok] by blast
  have r: "cfg_r c' = 1" "cfg_r_max c' = 5" using p by (simp_all add: parsed_config_def demo_conf_def)
  have "JOIN_CMT_handler (from_client (demo_id ''x'') ((demo_p2p P2PM_NODE_HANDLING_JOIN)\<lparr>node_list := n\<rparr>))
      (server_net [RMsg (be32 1) True, RMsg (c_bytes ''b'') False]) = None"
    by (rule short_list_overflows [OF ok, of _ _ "''x''" _ 1 "c_bytes ''b''" False "[]" "''b''"])
       (simp_all add: n r cstr_c_bytes0 c_string_def)
  with c' n show ?thesis by blast
qed

text \<open>
  C30. From a configuration that is accepted, and when the system calls work, the daemon starts: the ring
  daemon gets the node list, mode and address of the predecessor that were read, and the tuple space
  daemon has a space for each configured name, with empty queues, active exactly if it is direct or
  peer-to-peer.
\<close>

theorem daemon_starts:
  assumes "sng_parse_config B heap (Document doc) c = Some (Returned P2PM_OP_SUCCESS, c')"
    and "cfg_successor_list c = Freed" and "spaces c = NoSpaces" and "\<forall>i. space_sized (heap i)"
    and "deref (cfg_predecessor c') = Some a" and "calls_work os"
  shows "\<exists>args tab n sps. main L B os heap c pc 3 (Document doc) = Some (Inr (args, tab)) \<and>
    node_info_of c' = Some n \<and> namespaces_of c' = Some sps \<and> table_of L sps tab \<and>
    args = \<lparr>ia_endpoint = p2pmd_endpoint c', ia_config = \<lparr>join_address = Live (c_bytes a), stabilize_interval = 600000,
      context_thread_count = 8, recv_wait = 5000\<rparr>, ia_node_list = n, ia_status = p2pmd_mode c'\<rparr>"
  using assms by (rule main_run)

theorem daemon_starts_witness:
  "\<exists>args tab. main demo_lib demo_bson demo_calls demo_heap demo_raw (config (demo_p2p P2PM_NODE_MEMBER)) 3 (Document (config_doc demo_conf)) = Some (Inr (args, tab)) \<and>
    ia_status args = P2PM_NODE_MEMBER"
proof -
  obtain c' where c': "sng_parse_config demo_bson demo_heap (Document (config_doc demo_conf)) demo_raw = Some (Returned P2PM_OP_SUCCESS, c')"
    and p: "parsed_config demo_conf demo_heap c'"
    using parse_run [OF demo_conf_ok demo_bson_ok demo_heap_ok] by blast
  have "deref (cfg_predecessor c') = Some ''tcp://c:1''"
    using p cstr_pad [of "''tcp://c:1''" "[]"] by (simp add: parsed_config_def demo_conf_def c_string_def)
  from daemon_starts [OF c' demo_raw_free demo_heap_ok this demo_calls_work, of demo_lib "config (demo_p2p P2PM_NODE_MEMBER)"] show ?thesis
    using p by (auto simp: parsed_config_def demo_conf_def)
qed

text \<open>
  C31. The quadratic probing of \<open>Find\<close> and \<open>Rehash\<close>: from any home bucket of a table of \<open>2 ^ k\<close>
  buckets the first \<open>2 ^ k\<close> probes stay inside the table and visit every bucket exactly once, in
  64 bit arithmetic.
\<close>

theorem probes_cover:
  assumes "k < 64" and "unat h < 2 ^ k"
  shows "bij_betw (\<lambda>j. unat (probe (2 ^ k) h j)) {..<2 ^ k} {..<2 ^ k}"
  using assms by (rule probe_bij)

theorem probes_cover_witness:
  "map (probe 8 5) [0..<8] = [5, 6, 0, 3, 7, 4, 2, 1] \<and> bij_betw (\<lambda>j. unat (probe (2 ^ 3) 5 j)) {..<2 ^ 3} {..<2 ^ 3}"
  using probes_cover [of 3 5] by (simp add: jump_def upt_rec)

text \<open>
  C32. The two kinds of bucket tables that libchash can be compiled with hold the same: after the
  same insertions into a fresh sparse and a fresh dense table of \<open>n\<close> buckets, whatever \<open>malloc\<close>
  returned, all calls have returned, with the same answers; every location is empty in both or has
  the same bucket in both; and the iteration over all buckets gives the same list.
\<close>

theorem sparse_dense_agree:
  assumes "0 < unat n" and "unat n \<le> 2 ^ 30" and "\<forall>(l, x, f) \<in> set ops. unat l < unat n \<and> bck_data x \<noteq> EMPTY"
  shows "\<exists>m s0 d0 fs s d. SparseAllocate n = Some (m, s0) \<and> DenseAllocate mem n = Some (n, d0) \<and>
    put_all SparseInsert ops s0 = Some (fs, s) \<and> put_all DenseInsert ops d0 = Some (fs, d) \<and>
    (\<forall>l. unat l < unat n \<longrightarrow> fetch SparseFind bck_load s l = fetch DenseFind dense_load d l \<and>
      fetch SparseFind bck_load s l \<noteq> None) \<and>
    visit_all sparse_first sparse_next bck_load s = visit_all dense_first dense_nxt dense_load d \<and>
    visit_all sparse_first sparse_next bck_load s \<noteq> None"
  using assms by (rule sparse_dense_same)

theorem sparse_dense_agree_witness:
  "\<exists>m s0 d0 fs s d. SparseAllocate 70 = Some (m, s0) \<and> DenseAllocate (\<lambda>_. \<lparr>bck_data = 9, bck_key = KPtr Null\<rparr>) 70 = Some (70, d0) \<and>
    put_all SparseInsert [(66, \<lparr>bck_data = 1, bck_key = KPtr Null\<rparr>, False), (2, \<lparr>bck_data = 2, bck_key = KPtr Null\<rparr>, True)] s0 = Some (fs, s) \<and>
    put_all DenseInsert [(66, \<lparr>bck_data = 1, bck_key = KPtr Null\<rparr>, False), (2, \<lparr>bck_data = 2, bck_key = KPtr Null\<rparr>, True)] d0 = Some (fs, d) \<and>
    fetch SparseFind bck_load s 66 = fetch DenseFind dense_load d 66 \<and>
    visit_all sparse_first sparse_next bck_load s = visit_all dense_first dense_nxt dense_load d"
proof -
  let ?ops = "[(66, \<lparr>bck_data = 1, bck_key = KPtr Null\<rparr>, False), (2, \<lparr>bck_data = 2, bck_key = KPtr Null\<rparr>, True)] :: (u64 \<times> HTItem \<times> bool) list"
  have "0 < unat (70 :: u64)" "unat (70 :: u64) \<le> 2 ^ 30"
    "\<forall>(l, x, f) \<in> set ?ops. unat l < unat (70 :: u64) \<and> bck_data x \<noteq> EMPTY"
    by (simp_all add: EMPTY_def)
  from sparse_dense_agree [OF this] have "\<exists>m s0 d0 fs s d. SparseAllocate 70 = Some (m, s0) \<and>
    DenseAllocate (\<lambda>_. \<lparr>bck_data = 9, bck_key = KPtr Null\<rparr>) 70 = Some (70, d0) \<and>
    put_all SparseInsert ?ops s0 = Some (fs, s) \<and> put_all DenseInsert ?ops d0 = Some (fs, d) \<and>
    (\<forall>l. unat l < unat (70 :: u64) \<longrightarrow> fetch SparseFind bck_load s l = fetch DenseFind dense_load d l \<and>
      fetch SparseFind bck_load s l \<noteq> None) \<and>
    visit_all sparse_first sparse_next bck_load s = visit_all dense_first dense_nxt dense_load d \<and>
    visit_all sparse_first sparse_next bck_load s \<noteq> None" .
  moreover have "unat (66 :: u64) < unat (70 :: u64)" by simp
  ultimately show ?thesis by metis
qed

text \<open>
  C33. A hash table that is saved and loaded again is the same map, where the format can hold it: if
  nothing is marked as deleted, every item is in the lower half of its group and the keys together
  have less than 4 GB, then \<open>HashSave\<close> leaves the table as it was, and \<open>HashLoad\<close> reads, from what it
  wrote, a table that is well-formed, has the same size, number of items and keys, and of every
  data word its low 32 bits.
\<close>

theorem saved_table_loads:
  assumes "ht_ok ht" and "STORES_PTR ht" and "cchKey ht < 2 ^ 32" and "cDeletedItems ht = 0" and "lower_half ht"
    and "(\<Sum>s \<in> dom (ht_map ht). length (key_file ht s)) < 2 ^ 32"
  shows "\<exists>ht1 bs. HashSave (end_of a) ht None = Some (ht1, end_of (a @ bs)) \<and> same_content ht ht1 \<and>
    (\<forall>b r. \<exists>ht'. HashLoad mem (reading b (bs @ r)) None = Some (Inr (ht', reading (b @ bs) r)) \<and>
      ht_ok ht' \<and> cchKey ht' = cchKey ht \<and> cBuckets ht' = cBuckets ht \<and> cItems ht' = cItems ht \<and>
      ht_map ht' = (\<lambda>s. map_option low32 (ht_map ht s)))"
  using assms by (rule save_load)

theorem saved_table_loads_witness:
  "\<exists>ht0 p ht ht1 bs ht'. AllocateHashTable 0 1 = Some ht0 \<and> HashInsert ht0 (str_key ''b'') 7 = Some (Some p, ht) \<and>
    HashSave (end_of []) ht None = Some (ht1, end_of bs) \<and>
    HashLoad (\<lambda>_ _. \<lparr>bck_data = 3, bck_key = KPtr Freed\<rparr>) (reading [] bs) None =
      Some (Inr (ht', reading bs [])) \<and>
    ht_map ht' = [''b'' \<mapsto> 7]"
proof -
  let ?mem = "\<lambda>(_ :: nat) (_ :: nat). \<lparr>bck_data = (3 :: u64), bck_key = KPtr Freed\<rparr>"
  obtain ht0 p ht where ht: "AllocateHashTable 0 1 = Some ht0" "HashInsert ht0 (str_key ''b'') 7 = Some (Some p, ht)"
    "plain ht" "ht_map ht = [''b'' \<mapsto> 7]" "cDeletedItems ht = 0" "lower_half ht"
    by (rule table_with_b)
  have "ht_ok ht" "STORES_PTR ht" "cchKey ht < 2 ^ 32"
    "(\<Sum>s \<in> dom (ht_map ht). length (key_file ht s)) < 2 ^ 32"
    using ht(3,4) by (simp_all add: plain_def STORES_PTR_def key_file_def)
  from saved_table_loads [OF this(1-3) ht(5,6) this(4), of "[]" "?mem"]
  obtain ht1 bs where s: "HashSave (end_of []) ht None = Some (ht1, end_of bs)"
    and l: "\<forall>b r. \<exists>ht'. HashLoad ?mem (reading b (bs @ r)) None = Some (Inr (ht', reading (b @ bs) r)) \<and>
      ht_ok ht' \<and> cchKey ht' = cchKey ht \<and> cBuckets ht' = cBuckets ht \<and> cItems ht' = cItems ht \<and>
      ht_map ht' = (\<lambda>s. map_option low32 (ht_map ht s))"
    by auto
  obtain ht' where "HashLoad ?mem (reading [] bs) None = Some (Inr (ht', reading bs []))"
    "ht_map ht' = (\<lambda>s. map_option low32 (ht_map ht s))"
    using l [rule_format, of "[]" "[]"] by auto
  moreover have "low32 7 = 7" by (rule low32_id) simp
  then have "(\<lambda>s. map_option low32 (ht_map ht s)) = [''b'' \<mapsto> 7]" using ht(4) by auto
  ultimately show ?thesis using ht(1,2) s by auto
qed

text \<open>
  C34. Every sequence of insertions, searches, removals and clearings on a new chained hash table of the
  logger, with strings as keys, returns and answers as a map does, through all growing of the table,
  wherever the allocator places the entries; the loop over its entries then ends and visits every
  entry once; and every value that was put is either in the table or was given to the callback, once.
\<close>

theorem log_hashtable_is_map:
  fixes ops :: "(string, 'v) zc_op list"
  assumes "0 < n" and "\<And>h :: (string, 'v) zc_heap. finite (dom h) \<Longrightarrow> h (addr h) = None"
  shows "\<exists>t0 t walk. zc_hashtable_new n zc_hashtable_str_hash zc_hashtable_str_equal kd True True True = Some t0 \<and>
    zc_run addr ops t0 = Some (fst (map_run (\<lambda>s. s) ops Map.empty), t) \<and>
    zc_rel (\<lambda>s. s) t (snd (map_run (\<lambda>s. s) ops Map.empty)) \<and>
    zc_hashtable_foreach t = Some walk \<and> distinct walk \<and> set walk = dom (zc_store t) \<and>
    mset (values_freed t) + store_values (zc_store t) = mset (puts_of ops)"
proof -
  obtain t0 :: "(string, 'v) zc_hashtable" where t0: "zc_hashtable_new n zc_hashtable_str_hash zc_hashtable_str_equal kd True True True = Some t0"
    "zc_inv t0 (\<lambda>_. [])" "zc_store t0 = Map.empty" "hash_fn t0 = zc_hashtable_str_hash" "equal_fn t0 = zc_hashtable_str_equal"
    "value_del t0" "values_freed t0 = []"
    using zc_new_inv [OF assms(1), of zc_hashtable_str_hash zc_hashtable_str_equal kd True] by auto
  have ok: "zc_ok zc_hashtable_str_hash zc_hashtable_str_equal (\<lambda>s. s) t0 Map.empty"
    using t0(2-5) by (auto simp: zc_ok_def zc_rel_def)
  obtain t where t: "zc_run addr ops t0 = Some (fst (map_run (\<lambda>s. s) ops Map.empty), t)"
    "zc_ok zc_hashtable_str_hash zc_hashtable_str_equal (\<lambda>s. s) t (snd (map_run (\<lambda>s. s) ops Map.empty))"
    "owned t = owned t0 + mset (puts_of ops)"
    using zcs.run_ok [OF ok, of addr ops] assms(2) t0(6) by blast
  obtain cs where cs: "zc_inv t cs" using t(2) by (auto simp: zc_ok_def)
  show ?thesis using t0(1,3,7) t foreach_ok [OF cs] walk_distinct [OF cs]
    by (auto simp: zc_ok_def owned_def store_values_def intro!: exI [of _ t])
qed

theorem log_hashtable_is_map_witness:
  "\<exists>t0 t walk. zc_hashtable_new 1 zc_hashtable_str_hash zc_hashtable_str_equal False True True True = Some t0 \<and>
    zc_run (\<lambda>h. Suc (Max (insert 0 (dom h)))) [ZPut ''a'' (1 :: nat), ZPut ''b'' 2, ZPut ''c'' 3, ZPut ''a'' 4, ZRemove ''b'', ZGet ''a'', ZGet ''b'']
      t0 = Some ([Some 4, None], t) \<and>
    zc_hashtable_foreach t = Some walk \<and> mset (values_freed t) + store_values (zc_store t) = {#1, 2, 3, 4#}"
proof -
  let ?addr = "\<lambda>h :: (string, nat) zc_heap. Suc (Max (insert 0 (dom h)))"
  let ?ops = "[ZPut ''a'' 1, ZPut ''b'' 2, ZPut ''c'' 3, ZPut ''a'' 4, ZRemove ''b'', ZGet ''a'', ZGet ''b''] :: (string, nat) zc_op list"
  have new: "h (?addr h) = None" if "finite (dom h)" for h :: "(string, nat) zc_heap"
  proof (rule ccontr)
    assume "h (?addr h) \<noteq> None"
    then have "?addr h \<in> insert 0 (dom h)" by auto
    moreover have "finite (insert 0 (dom h))" using that by simp
    ultimately show False using Max_ge by (metis Suc_n_not_le_n)
  qed
  have "\<exists>t0 t walk. zc_hashtable_new 1 zc_hashtable_str_hash zc_hashtable_str_equal False True True True = Some t0 \<and>
    zc_run ?addr ?ops t0 = Some (fst (map_run (\<lambda>s. s) ?ops Map.empty), t) \<and>
    zc_rel (\<lambda>s. s) t (snd (map_run (\<lambda>s. s) ?ops Map.empty)) \<and>
    zc_hashtable_foreach t = Some walk \<and> distinct walk \<and> set walk = dom (zc_store t) \<and>
    mset (values_freed t) + store_values (zc_store t) = mset (puts_of ?ops)"
    by (rule log_hashtable_is_map [of 1 ?addr]) (simp, rule new)
  then show ?thesis by (auto simp: add_mset_commute)
qed

text \<open>
  C35. A sequence of writes of any kind (append, adjusted append, formatted, decimal, hexadecimal) to a
  new buffer of the logger that fits the address space never leaves its block and returns, whatever the block held before and
  however often it is moved; the contents are those of the specification \<open>put_list\<close>: the texts one
  after the other while they stay below the limit, then cut there with the truncation string over
  the end; the return codes are 0 and 1 accordingly, and the contents stay below the limit, so
  the buffer can always be terminated.
\<close>

theorem log_buffer_refines:
  assumes "0 < mn" and "mx = 0 \<or> mn \<le> mx" and "c_string tr" and "length tr \<le> MAXLEN_PATH"
    and "\<forall>op \<in> set ops. buf_op_ok (snd op)" and "mn + 2 * length (concat (map (buf_text \<circ> snd) ops)) < 2 ^ 64"
  shows "\<exists>b0 b rcs c b1 blk. zlog_buf_new mn mx (Some tr) True True = Some b0 \<and> write_all buf_do ops b0 = Some (rcs, b) \<and>
    put_list mx tr [] (map (buf_text \<circ> snd) ops) = (rcs, c) \<and> (mx = 0 \<or> length c < mx) \<and>
    zlog_buf_seal b = Some b1 \<and> b_start b1 = Live blk \<and> zlog_buf_len b = length c \<and> take (length c + 1) blk = c @ [nul]"
proof -
  obtain b0 where b0: "zlog_buf_new mn mx (Some tr) True True = Some b0" "buf_ok b0 tr []" "size_max b0 = mx" "size_real b0 = mn"
    using zlog_buf_new_ok [OF assms(1-4)] by blast
  obtain rcs c where p: "put_list mx tr [] (map (buf_text \<circ> snd) ops) = (rcs, c)" by (rule prod.exhaust)
  obtain b where b: "write_all buf_do ops b0 = Some (rcs, b)" "buf_ok b tr c"
    using wall.write_all_eq [OF b0(2) assms(5)] b0(3,4) assms(6) p by auto
  have "zlog_buf_len b = length c" using b(2) by (auto simp: zlog_buf_len_def buf_ok_def is_buf_def)
  moreover have "mx = 0 \<or> length c < mx"
    using put_list_short [of mx "[]" tr "map (buf_text \<circ> snd) ops"] p by auto
  ultimately show ?thesis using b0(1) b(1) p seal_ok [OF b(2)] by auto
qed

theorem log_buffer_refines_witness:
  "\<exists>b0 b b1 blk. zlog_buf_new 2 12 (Some ''..'') True True = Some b0 \<and>
    write_all buf_do [(\<lambda>_. CHR ''?'', Dec32 42 4), (\<lambda>_. CHR ''!'', Adjust ''abcd'' 4 True 5 3),
      (\<lambda>_. CHR ''x'', Printf ''tail'')] b0 = Some ([0, 0, 1], b) \<and>
    zlog_buf_seal b = Some b1 \<and> b_start b1 = Live blk \<and> take 12 blk = ''0042abc  ..'' @ [nul]"
proof -
  let ?ops = "[(\<lambda>_. CHR ''?'', Dec32 42 4), (\<lambda>_. CHR ''!'', Adjust ''abcd'' 4 True 5 3), (\<lambda>_. CHR ''x'', Printf ''tail'')]
    :: ((nat \<Rightarrow> char) \<times> buf_op) list"
  have ok: "\<forall>op \<in> set ?ops. buf_op_ok (snd op)" by simp
  have len: "2 + 2 * length (concat (map (buf_text \<circ> snd) ?ops)) < (2 ^ 64 :: nat)"
    by (simp add: zero_padded_def adjusted_def space_padded_def dec_string.simps)
  have "\<exists>b0 b rcs c b1 blk. zlog_buf_new 2 12 (Some ''..'') True True = Some b0 \<and> write_all buf_do ?ops b0 = Some (rcs, b) \<and>
      put_list 12 ''..'' [] (map (buf_text \<circ> snd) ?ops) = (rcs, c) \<and> ((12 :: nat) = 0 \<or> length c < 12) \<and>
      zlog_buf_seal b = Some b1 \<and> b_start b1 = Live blk \<and> zlog_buf_len b = length c \<and> take (length c + 1) blk = c @ [nul]"
    by (rule log_buffer_refines [OF _ _ _ _ ok len]) (simp_all add: c_string_def MAXLEN_PATH_def)
  then
  obtain b0 b rcs c b1 blk where r: "zlog_buf_new 2 12 (Some ''..'') True True = Some b0" "write_all buf_do ?ops b0 = Some (rcs, b)"
    "put_list 12 ''..'' [] (map (buf_text \<circ> snd) ?ops) = (rcs, c)"
    "zlog_buf_seal b = Some b1" "b_start b1 = Live blk" "take (length c + 1) blk = c @ [nul]"
    by blast
  have two: "replicate 2 a = [a, a]" for a :: char by (simp add: numeral_2_eq_2)
  have "put_list 12 ''..'' [] (map (buf_text \<circ> snd) ?ops) = ([0, 0, 1], ''0042abc  ..'')"
    by (simp add: put_bytes_def cut_end_def zero_padded_def adjusted_def space_padded_def dec_string.simps byte_eval two)
  then have rc: "rcs = [0, 0, 1]" "c = ''0042abc  ..''" using r(3) by simp_all
  have "length c + 1 = 12" by (simp add: rc(2))
  then have "take 12 blk = ''0042abc  ..'' @ [nul]" using r(6) by (simp only: rc(2))
  then show ?thesis using r(1,2,4,5) rc(1) by blast
qed

text \<open>
  C36. The level list of the logger when no allocation fails, after the default levels and any lines of a
  configuration (no longer than the reader's lines, their numbers in the range of \<open>int\<close>), of which those
  that are not levels are refused with -1. A number from 0 on is answered with the level of the last line
  that set it, or with level 254 when there is none, never with a null pointer; a negative number is not
  tested and reads before the array. A name that is not empty is answered with the smallest number that
  has it, in any case of letters, or -1.
\<close>

theorem level_list_looks_up:
  fixes lines :: "string list"
  defines "lv \<equiv> fold with_level lines default_map"
  assumes "\<forall>line \<in> set lines. level_line_fits line"
  shows "\<exists>l0 l. zlog_level_list_new True True (\<lambda>_. True) (\<lambda>_. True) = Some (Some l0) \<and>
    add_levels lines l0 = Some (map (\<lambda>line. if level_line line then 0 else - 1) lines, l) \<and>
    (\<forall>i \<ge> 0. zlog_level_list_get l i = Some (case lv (nat i) of Some a \<Rightarrow> Some a | None \<Rightarrow> lv 254)) \<and> lv 254 \<noteq> None \<and>
    (\<forall>i < 0. zlog_level_list_get l i = None) \<and>
    (\<forall>s. s \<noteq> [] \<longrightarrow> zlog_level_list_atoi l (Some s) = Some (level_number lv s))"
proof -
  obtain l0 where l0: "zlog_level_list_new True True (\<lambda>_. True) (\<lambda>_. True) = Some (Some l0)" "holds_levels l0 default_map"
    "256 \<le> al_size l0" using levels_new by blast
  have "128 \<le> al_size l0" "\<forall>line \<in> set lines. zlog_level_new True line \<noteq> None"
    using l0(3) assms(2) level_new_safe by auto
  from add_levels_ok [OF l0(2) this(2,1)] obtain l where
    l: "add_levels lines l0 = Some (map (\<lambda>line. if level_line line then 0 else - 1) lines, l)" "holds_levels l lv"
    unfolding lv_def by blast
  have "default_map 254 \<noteq> None" by (simp add: default_map_def)
  then show ?thesis using l0(1) l(1) level_get_ok [OF l(2)] level_get_negative [OF l(2)] level_atoi_ok [OF l(2)] unknown_kept [of default_map lines]
    by (auto simp: lv_def)
qed

theorem level_list_looks_up_witness:
  "\<exists>l0 l. zlog_level_list_new True True (\<lambda>_. True) (\<lambda>_. True) = Some (Some l0) \<and>
    add_levels [''TRACE = 10, LOG_DEBUG'', ''TRACE'', ''X=300''] l0 = Some ([0, - 1, - 1], l) \<and>
    zlog_level_list_get l 10 = Some (Some (lvl ''TRACE'' 10 7)) \<and> zlog_level_list_atoi l (Some ''trace'') = Some 10 \<and>
    zlog_level_list_get l 11 = Some (Some (lvl ''UNKNOWN'' 254 3)) \<and> zlog_level_list_get l (- 1) = None"
proof -
  have new: "zlog_level_new True ''TRACE = 10, LOG_DEBUG'' = Some (Some (lvl ''TRACE'' 10 7))"
    "zlog_level_new True ''TRACE'' = Some None" "zlog_level_new True ''X=300'' = Some None"
    by (simp_all add: zlog_level_new_def scan_level_def Let_def scan_set_def skip_ws_def scan_num_def scan_word_def dec_value_def
      fits_c_int_def MAXLEN_CFG_LINE_def MAXLEN_PATH_def syslog_level_atoi_def lvl_def ctype_defs byte_eval)
  have fits: "level_line_fits ''TRACE = 10, LOG_DEBUG''" "level_line_fits ''TRACE''" "level_line_fits ''X=300''"
    by (simp_all add: level_line_fits_def scan_level_def scan_set_def skip_ws_def scan_num_def scan_word_def dec_value_def
      fits_c_int_def MAXLEN_CFG_LINE_def MAXLEN_PATH_def ctype_defs byte_eval)
  have lv: "fold with_level [''TRACE = 10, LOG_DEBUG'', ''TRACE'', ''X=300''] default_map = default_map(10 \<mapsto> lvl ''TRACE'' 10 7)"
    by (simp add: with_level_def new) (simp add: lvl_def)
  have "level_named ''trace'' (Some (lvl ''TRACE'' 10 7))" "\<not> level_named ''trace'' (Some (lvl ''*'' 0 6))"
    by (simp_all add: level_named_def lvl_def ctype_defs byte_eval)
  moreover have "[0..<256] = [0, 1, 2, 3, 4, 5, 6, 7, 8, 9, 10] @ [11..<256]" by (simp add: upt_rec)
  ultimately have "level_number (default_map(10 \<mapsto> lvl ''TRACE'' 10 7)) ''trace'' = 10"
    by (simp add: level_number_def default_map_def level_named_def)
  then show ?thesis
    using level_list_looks_up [of "[''TRACE = 10, LOG_DEBUG'', ''TRACE'', ''X=300'']"] new fits unfolding lv
    by (auto simp: level_line_def default_map_def)
qed

text \<open>
  C37. A reference \<open>%E(NAME)\<close> in a path or pattern of the logger's configuration is replaced by the value of
  the environment variable, in place, where the result fits the block, there is no further percent sign,
  and the text from the reference on does not become shorter than the reference itself was. Where it does,
  the search goes on behind the end of the new string: a second reference is left as it is.
\<close>

theorem env_reference_replaced:
  assumes "key \<noteq> []" and "CHR '')'' \<notin> set key" and "length key \<le> MAXLEN_CFG_LINE"
    and "env key = Some v" and "length v \<le> MAXLEN_CFG_LINE" and "c_string v"
    and "c_string (pre @ env_ref key @ post)" and "CHR ''%'' \<notin> set (pre @ v @ post)"
    and "length (pre @ v @ post) \<le> length (pre @ env_ref key @ post @ rest)"
    and "length (env_ref key) \<le> length (v @ post)"
  shows "(\<exists>buf. zc_str_replace_env env (pre @ env_ref key @ post @ nul # rest) = Some (0, buf) \<and> cstr buf = Some (pre @ v @ post)) \<and>
    (\<exists>buf. zc_str_replace_env (\<lambda>k. Some (if k = ''A'' then [] else ''b'')) (c_bytes (env_ref ''A'' @ env_ref ''B'')) = Some (0, buf) \<and>
      cstr buf = Some (env_ref ''B''))"
proof -
  obtain rest' where r: "zc_str_replace_env env (pre @ env_ref key @ post @ nul # rest) = Some (0, pre @ v @ post @ nul # rest')"
    using replace_one [where env = env and key = key and v = v and pre = pre and post = post and rest = rest, OF assms(1-5,7,6,8-10)] by blast
  have "c_string (pre @ v @ post)" using assms(6,7) by (simp add: c_string_def)
  then have "cstr (pre @ v @ post @ nul # rest') = Some (pre @ v @ post)"
    using cstr_c_bytes [of "pre @ v @ post" rest'] by (simp add: c_bytes_def)
  then show ?thesis using r second_reference_skipped by (simp add: env_ref_def)
qed

theorem env_reference_replaced_witness:
  "\<exists>buf. zc_str_replace_env (\<lambda>_. Some ''/home/user'') (c_bytes ''x:%E(HOME)/log'' @ zeros 9) = Some (0, buf) \<and>
    cstr buf = Some ''x:/home/user/log''"
  using env_reference_replaced [of "''HOME''" "\<lambda>_. Some ''/home/user''" "''/home/user''" "''x:''" "''/log''" "zeros 9"]
  by (simp add: c_string_def MAXLEN_CFG_LINE_def MAXLEN_PATH_def env_ref_def c_bytes_def)

text \<open>
  C38. A category of the logger that is fetched by its name has the rules of the configuration that fit the
  name, or, when none does, the last rule for the category \<open>!\<close>. Its bitmap says that a level is needless
  exactly when none of these rules accepts it, and an event is then written by those rules that accept
  its level, in their order. Fetching the name again gives the same category.
\<close>

theorem category_passes_levels:
  assumes "holds_levels levels lvs" and "\<forall>r \<in> set rs. \<exists>level r0. rule_set_level levels level r0 = Some r"
    and "rules_list rules rs" and "rules_table rs t" and "zc_store t a = None" and "length name \<le> MAXLEN_PATH"
  shows "\<exists>cat t'. zlog_category_table_fetch_category True True True True True (Some a) t name rules = Some (Some cat, t') \<and>
    zlog_category_table_fetch_category c0 c1 c2 m rm b t' name rules = Some (Some cat, t') \<and>
    (\<forall>lv < 256. zlog_category_needless_level cat (int lv) =
      Some (\<not> (\<exists>r \<in> set (selected_rules name rs). rule_accepts r (int lv)))) \<and>
    (\<forall>lv (out :: zlog_rule \<Rightarrow> 'w \<Rightarrow> int \<times> 'w) w. \<exists>rc. zlog_category_output out cat lv w =
      Some (rc, fold (\<lambda>r w. snd (out r w)) (filter (\<lambda>r. rule_accepts r lv) (selected_rules name rs)) w))"
proof -
  obtain cat t' where f: "zlog_category_table_fetch_category True True True True True (Some a) t name rules = Some (Some cat, t')"
    "settled cat (selected_rules name rs)" "zc_hashtable_get t' name = Some (Some cat)"
    using fetch_ok [OF assms(4,3,6,5)] by blast
  have holds: "cat_holds cat (selected_rules name rs)" using f(2) by (simp add: settled_def)
  have "\<forall>r \<in> set (selected_rules name rs). rule_ok r"
    using rule_set_level_ok [OF _ assms(1)] assms(2) selected_sub by blast
  then show ?thesis using f(1,3) needless_ok [OF holds] category_output_ok [OF holds]
    by (auto simp: zlog_category_table_fetch_category_def outputs_def)
qed

theorem category_passes_levels_witness:
  "\<exists>levels r cat t t'. zlog_level_list_new True True (\<lambda>_. True) (\<lambda>_. True) = Some (Some levels) \<and>
    rule_set_level levels ''DEBUG'' \<lparr>rl_category = ''app_'', compare_char = nul, rl_level = 0, rl_bitmap = [], rl_output = OutStdout,
      record_name = [], record_func = None\<rparr> = Some r \<and>
    zlog_category_table_fetch_category True True True True True (Some 0) t ''app''
      \<lparr>al_array = Some [Some r], al_len = 1, al_size = 1, al_del = True, al_freed = []\<rparr> = Some (Some cat, t') \<and>
    zlog_category_needless_level cat 19 = Some True \<and> zlog_category_needless_level cat 20 = Some False"
proof -
  obtain levels where levels: "zlog_level_list_new True True (\<lambda>_. True) (\<lambda>_. True) = Some (Some levels)" "holds_levels levels default_map"
    using levels_new by blast
  let ?base = "\<lparr>rl_category = ''app_'', compare_char = nul, rl_level = 0, rl_bitmap = [], rl_output = OutStdout, record_name = [], record_func = None\<rparr>"
  have "level_named ''DEBUG'' (Some (lvl ''DEBUG'' 20 7))" "\<not> level_named ''DEBUG'' (Some (lvl ''*'' 0 6))"
    by (simp_all add: level_named_def lvl_def ctype_defs byte_eval)
  moreover have "[0..<256] = [0, 1, 2, 3, 4, 5, 6, 7, 8, 9, 10, 11, 12, 13, 14, 15, 16, 17, 18, 19, 20] @ [21..<256]" by (simp add: upt_rec)
  ultimately have "level_number default_map ''DEBUG'' = 20" by (simp add: level_number_def default_map_def level_named_def)
  then have at: "zlog_level_list_atoi levels (Some ''DEBUG'') = Some 20" using level_atoi_ok [OF levels(2)] by simp
  obtain bm where bm: "set_bitmap CHR ''.'' 20 = Some bm" using set_bitmap_eq [of 20 "CHR ''.''"] by simp
  let ?r = "?base\<lparr>compare_char := CHR ''.'', rl_level := 20, rl_bitmap := bm\<rparr>"
  let ?l = "\<lparr>al_array = Some [Some ?r], al_len = 1, al_size = 1, al_del = True, al_freed = []\<rparr>"
  have r: "rule_set_level levels ''DEBUG'' ?base = Some ?r" using at bm by (simp add: rule_set_level_def level_selector_def)
  have l: "rules_list ?l [?r]" by (auto simp: rules_list_def holds_def intro!: exI [of _ 0])
  obtain t where t: "rules_table [?r] t" "zc_store t 0 = None" using table_new_ok by (metis empty_iff)
  have ex: "\<forall>q \<in> set [?r]. \<exists>level r0. rule_set_level levels level r0 = Some q" using r by auto
  have len: "length ''app'' \<le> MAXLEN_PATH" by (simp add: MAXLEN_PATH_def)
  have sel: "selected_rules ''app'' [?r] = [?r]" by (simp add: selected_rules_def rule_fits_def)
  obtain cat t' where c: "zlog_category_table_fetch_category True True True True True (Some 0) t ''app'' ?l = Some (Some cat, t')"
    "\<forall>lv < 256. zlog_category_needless_level cat (int lv) = Some (\<not> (\<exists>r \<in> set (selected_rules ''app'' [?r]). rule_accepts r (int lv)))"
    using category_passes_levels [of levels default_map "[?r]" ?l t 0 "''app''" True True True True True None, OF levels(2) ex l t len]
    by (elim exE conjE) (rule that; assumption)
  have "zlog_category_needless_level cat 19 = Some True" "zlog_category_needless_level cat 20 = Some False"
    using c(2) [rule_format, of 19] c(2) [rule_format, of 20] unfolding sel by (simp_all add: rule_accepts_def)
  then show ?thesis using levels(1) r c(1) by (intro exI [of _ levels] exI [of _ ?r] exI [of _ cat] exI [of _ t] exI [of _ t']) simp
qed

text \<open>
  C39. Loading a configuration that can be read, with memory for the lists, gives every category of the
  logger the rules of the new configuration that it selects, with the functions of the records filled
  in, and no backup; the same names are known, the old rules are freed, and the version goes up by one.
  Where the configuration cannot be read, nothing but the counter changes.
\<close>

theorem reload_replaces_rules:
  assumes "env_holds env old m" and "conf_new path = Some conf" and "owns_rules (cf_rules conf) rs"
  shows "\<exists>env'. zlog_reload 0 0 conf_new (\<lambda>_. True) (\<lambda>_. True) (\<lambda>_. True) (ConfPath path) env = Some (0, env') \<and>
    env_holds env' (map (with_record m) rs) m \<and> env_init_version env' = env_init_version env + 1 \<and>
    freed_rules env' = freed_rules env @ old \<and> known (env_categories env') = known (env_categories env) \<and>
    (\<forall>name cat. zc_hashtable_get (env_categories env') name = Some (Some cat) \<longrightarrow>
      fit_rules_backup cat = None \<and>
      (\<forall>lv (out :: zlog_rule \<Rightarrow> 'w \<Rightarrow> int \<times> 'w) w. \<exists>rc. zlog_category_output out cat lv w =
        Some (rc, outputs out lv (selected_rules name (map (with_record m) rs)) w))) \<and>
    zlog_reload 0 u (\<lambda>_. None) c1 c2 c (ConfPath path) env = Some (- 1, env\<lparr>env_reload_conf_count := 0\<rparr>)"
proof -
  obtain env' where e: "zlog_reload 0 0 conf_new (\<lambda>_. True) (\<lambda>_. True) (\<lambda>_. True) (ConfPath path) env = Some (0, env')"
    "env_holds env' (map (with_record m) rs) m" "env_init_version env' = env_init_version env + 1"
    "freed_rules env' = freed_rules env @ old" "known (env_categories env') = known (env_categories env)"
    using reload_ok [where conf_new = conf_new and path = path, OF assms] by blast
  have t: "rules_table (map (with_record m) rs) (env_categories env')" using e(2) by (simp add: env_holds_def)
  have "fit_rules_backup cat = None \<and> (\<exists>rc. zlog_category_output out cat lv w =
      Some (rc, outputs out lv (selected_rules name (map (with_record m) rs)) w))"
    if "zc_hashtable_get (env_categories env') name = Some (Some cat)" for name cat lv w and out :: "zlog_rule \<Rightarrow> 'w \<Rightarrow> int \<times> 'w"
    using get_settled [OF t, of name] that category_output_ok [of cat] by (auto simp: settled_def)
  moreover have "zlog_reload 0 u (\<lambda>_. None) c1 c2 c (ConfPath path) env = Some (- 1, env\<lparr>env_reload_conf_count := 0\<rparr>)"
    using assms(1) by (simp add: zlog_reload_def env_holds_def)
  ultimately show ?thesis using e by blast
qed

theorem reload_replaces_rules_witness:
  "\<exists>env env' rs. known (env_categories env) ''app'' \<and>
    zlog_reload 0 0 (\<lambda>_. Some \<lparr>cf_file = ''new'', cf_rules = \<lparr>al_array = Some [Some rs], al_len = 1, al_size = 1, al_del = True, al_freed = []\<rparr>,
      reload_conf_period = 0\<rparr>) (\<lambda>_. True) (\<lambda>_. True) (\<lambda>_. True) (ConfPath ''new'') env = Some (0, env') \<and>
    known (env_categories env') ''app'' \<and> env_init_version env' = 1"
proof -
  define r where "r = \<lparr>rl_category = ''app_'', compare_char = CHR ''*'', rl_level = 0, rl_bitmap = replicate 32 0xFF, rl_output = OutStdout,
    record_name = [], record_func = None\<rparr>"
  have r: "rl_category r \<noteq> []" by (simp add: r_def)
  let ?l = "\<lparr>al_array = Some [Some r], al_len = 1, al_size = 1, al_del = True, al_freed = []\<rparr>"
  have l: "owns_rules ?l [r]" using r by (auto simp: owns_rules_def rules_list_def holds_def intro!: exI [of _ 0])
  obtain env where env: "env_holds env [r] Map.empty" "known (env_categories env) ''app''" "env_init_version env = 0"
    using env_exists [OF l, of "''app''"] by (auto simp: MAXLEN_PATH_def)
  let ?conf = "\<lparr>cf_file = ''new'', cf_rules = ?l, reload_conf_period = 0\<rparr>"
  have l': "owns_rules (cf_rules ?conf) [r]" using l by simp
  obtain env' where "zlog_reload 0 0 (\<lambda>_. Some ?conf) (\<lambda>_. True) (\<lambda>_. True) (\<lambda>_. True) (ConfPath ''new'') env = Some (0, env')"
    "env_init_version env' = env_init_version env + 1" "known (env_categories env') = known (env_categories env)"
    using reload_replaces_rules [of env "[r]" Map.empty "\<lambda>_. Some ?conf" "''new''" ?conf "[r]" 0 "\<lambda>_. True" "\<lambda>_. True" "\<lambda>_. True"] env(1) l' by auto
  then show ?thesis using env by (intro exI [of _ env] exI [of _ env'] exI [of _ r]) simp
qed

text \<open>
  C40. When the list for the new rules of a known category cannot be allocated (lists that were allocated
  can grow), loading a configuration fails with -1 and keeps the old configuration, as the message says; but
  it frees the new rules without taking the update of the table back. A category is then left with a null
  list and an empty bitmap: every message of a level from 0 to 255 to it is dropped, without an error, by
  the test that comes before the list is looked at. Every known category is such a one, or as it was, or
  holds the rules it selects of the new configuration, which have all been freed. The roll-back that is
  skipped would have restored the table, whatever part of it was updated.
\<close>

theorem failed_reload_breaks:
  assumes "env_holds env old m" and "conf_new path = Some conf" and "owns_rules (cf_rules conf) rs"
    and "known (env_categories env) name" and "\<not> (c1 name \<and> c2 name)"
  defines "new \<equiv> map (with_record m) rs"
  shows "\<exists>env' x cat. zlog_reload 0 0 conf_new c1 c2 (\<lambda>_. True) (ConfPath path) env = Some (- 1, env') \<and>
    env_conf env' = env_conf env \<and> freed_rules env' = freed_rules env @ new \<and>
    zc_hashtable_get (env_categories env') x = Some (Some cat) \<and> fit_rules cat = None \<and>
    (\<forall>lv < 256. \<forall>got (out :: zlog_rule \<Rightarrow> 'w \<Rightarrow> int \<times> 'w) lock unlock cn d1 d2 mm w.
      vzlog got out lock unlock cn d1 d2 mm x (int lv) env' w = Some (env', w)) \<and>
    (\<forall>y. known (env_categories env) y \<longrightarrow> half_updated new (env_categories env) (env_categories env') y \<and>
      set (selected_rules y new) \<subseteq> set (freed_rules env')) \<and>
    zlog_category_table_rollback_rules (env_categories env') = Some (env_categories env)"
proof -
  obtain env' x cat where e: "zlog_reload 0 0 conf_new c1 c2 (\<lambda>_. True) (ConfPath path) env = Some (- 1, env')"
    "env_conf env' = env_conf env" "freed_rules env' = freed_rules env @ new"
    "zc_hashtable_get (env_categories env') x = Some (Some cat)" "silent cat"
    "\<forall>y. known (env_categories env) y \<longrightarrow> half_updated new (env_categories env) (env_categories env') y"
    "zlog_category_table_rollback_rules (env_categories env') = Some (env_categories env)"
    using reload_failed [of env old m conf_new path conf rs name c1 c2, OF assms(1-5)] unfolding new_def by blast
  have a: "vzlog got out lock unlock cn d1 d2 mm x (int lv) env' w = Some (env', w)" if "lv < 256"
    for lv got lock unlock cn d1 d2 mm w and out :: "zlog_rule \<Rightarrow> 'w \<Rightarrow> int \<times> 'w"
    using e(4) silent_needless [OF e(5) that] by (simp add: vzlog_def)
  have b: "set (selected_rules y new) \<subseteq> set (freed_rules env')" for y using selected_sub [of y new] e(3) by auto
  have "fit_rules cat = None" using e(5) by (simp add: silent_def)
  then show ?thesis using e a b by (intro exI [of _ env'] exI [of _ x] exI [of _ cat]) simp
qed

theorem failed_reload_breaks_witness:
  "\<exists>env env' x cat conf. known (env_categories env) ''app'' \<and>
    zlog_reload 0 0 (\<lambda>_. Some conf) (\<lambda>_. False) (\<lambda>_. True) (\<lambda>_. True) (ConfPath ''new'') env = Some (- 1, env') \<and>
    zc_hashtable_get (env_categories env') x = Some (Some cat) \<and>
    fit_rules cat = None \<and>
    vzlog True (\<lambda>_ n. (0, Suc n)) 0 0 (\<lambda>_. None) (\<lambda>_. True) (\<lambda>_. True) (\<lambda>_. True) x 20 env' 0 = Some (env', 0) \<and>
    zlog_category_table_rollback_rules (env_categories env') = Some (env_categories env)"
proof -
  define r where "r = \<lparr>rl_category = ''app_'', compare_char = CHR ''*'', rl_level = 0, rl_bitmap = replicate 32 0xFF, rl_output = OutStdout,
    record_name = [], record_func = None\<rparr>"
  have r: "rl_category r \<noteq> []" by (simp add: r_def)
  let ?l = "\<lparr>al_array = Some [Some r], al_len = 1, al_size = 1, al_del = True, al_freed = []\<rparr>"
  have l: "owns_rules ?l [r]" using r by (auto simp: owns_rules_def rules_list_def holds_def intro!: exI [of _ 0])
  obtain env where env: "env_holds env [r] Map.empty" "known (env_categories env) ''app''"
    using env_exists [OF l, of "''app''"] by (auto simp: MAXLEN_PATH_def)
  let ?conf = "\<lparr>cf_file = ''new'', cf_rules = ?l, reload_conf_period = 0\<rparr>"
  have l': "owns_rules (cf_rules ?conf) [r]" using l by simp
  have "\<exists>env' x cat. zlog_reload 0 0 (\<lambda>_. Some ?conf) (\<lambda>_. False) (\<lambda>_. True) (\<lambda>_. True) (ConfPath ''new'') env = Some (- 1, env') \<and>
    zc_hashtable_get (env_categories env') x = Some (Some cat) \<and> fit_rules cat = None \<and>
    (\<forall>lv < 256. \<forall>got (out :: zlog_rule \<Rightarrow> nat \<Rightarrow> int \<times> nat) lock unlock cn d1 d2 mm w.
      vzlog got out lock unlock cn d1 d2 mm x (int lv) env' w = Some (env', w)) \<and>
    zlog_category_table_rollback_rules (env_categories env') = Some (env_categories env)"
    using failed_reload_breaks [where 'w = nat, of env "[r]" Map.empty "\<lambda>_. Some ?conf" "''new''" ?conf "[r]" "''app''" "\<lambda>_. False" "\<lambda>_. True"]
      env l' by auto
  then obtain env' x cat where e: "zlog_reload 0 0 (\<lambda>_. Some ?conf) (\<lambda>_. False) (\<lambda>_. True) (\<lambda>_. True) (ConfPath ''new'') env = Some (- 1, env')"
    "zc_hashtable_get (env_categories env') x = Some (Some cat)" "fit_rules cat = None"
    "\<forall>lv < 256. \<forall>got (out :: zlog_rule \<Rightarrow> nat \<Rightarrow> int \<times> nat) lock unlock cn d1 d2 mm w.
      vzlog got out lock unlock cn d1 d2 mm x (int lv) env' w = Some (env', w)"
    "zlog_category_table_rollback_rules (env_categories env') = Some (env_categories env)" by blast
  have "vzlog True (\<lambda>_ n. (0, Suc n)) 0 0 (\<lambda>_. None) (\<lambda>_. True) (\<lambda>_. True) (\<lambda>_. True) x 20 env' 0 = Some (env', 0)"
    using e(4) [rule_format, of 20] by simp
  then show ?thesis using env(2) e(1-3,5) by blast
qed

section \<open>Further facts\<close>

text \<open>
  When the activation token of a space reaches a daemon where clients wait for it, the space becomes
  active with the endpoint of its master, every waiting client is sent that endpoint, in order, nobody
  waits any more, and the token is passed on.
\<close>

theorem token_answers_waiting_clients:
  assumes "tsd_space L ti ri si"
    and "tk_buf1 tk = Live (c_bytes n)" and "tk_buf2 tk = Live (c_bytes ep)" and "tk_len2 tk = Suc (length ep)"
    and "c_string n" and "c_string ep" and "length ep < length (direct_endpoint e)"
    and "tab n = Some e" and "\<not> is_activated e" and "is_requested e"
    and "\<forall>b \<in> set (ri (connect_requests e)). answerable b" and "send_ok w = []" and "tk_ttl tk = -1"
  shows "\<exists>q d. connect_token_next L tab tk w =
      Some (tab(n \<mapsto> e\<lparr>is_activated := True, direct_endpoint := d, connect_requests := q\<rparr>),
        out (concat (map (endpoint_ev ep) (ri (connect_requests e))) @ token_ev tk) w) \<and>
    ri q = [] \<and> cstr d = Some ep"
  using assms by (rule tsd_space.connect_token_run)

theorem token_answers_waiting_clients_witness:
  "\<exists>q d. connect_token_next demo_lib
      [''ns'' \<mapsto> demo_space\<lparr>is_activated := False, is_requested := True, connect_requests := [demo_request ''k'' ''a'' TsConnect]\<rparr>]
      (space_token 0 demo_cfg ''ns'') idle_net =
      Some ([''ns'' \<mapsto> demo_space\<lparr>is_requested := True, direct_endpoint := d, connect_requests := q\<rparr>],
        out (endpoint_ev ''tcp://a:1'' (demo_request ''k'' ''a'' TsConnect) @ token_ev (space_token 0 demo_cfg ''ns'')) idle_net) \<and>
    q = [] \<and> cstr d = Some ''tcp://a:1''"
  using token_answers_waiting_clients [OF demo_lib_space, of "space_token 0 demo_cfg ''ns''" "''ns''" "''tcp://a:1''"
      "demo_space\<lparr>is_activated := False, is_requested := True, connect_requests := [demo_request ''k'' ''a'' TsConnect]\<rparr>"
      "[''ns'' \<mapsto> demo_space\<lparr>is_activated := False, is_requested := True, connect_requests := [demo_request ''k'' ''a'' TsConnect]\<rparr>]"
      idle_net]
  by (simp add: space_token_def demo_cfg_def demo_space_def answerable_def demo_request_def cstr_c_bytes0 c_string_def)

text \<open>
  The predecessor's side of a join: a member answers \<open>GET_REQ\<close> with the address of its successor and
  waits; on \<open>JOIN_CMT\<close> the newcomer becomes its successor and the first of its list, followed by the list
  the newcomer sent, up to the capacity; it acknowledges, changes its connection from the old successor
  to the newcomer and is a member again.
\<close>

theorem join_at_predecessor:
  assumes "p2p_ok p" and "current_status p = P2PM_NODE_MEMBER" and "cstr (successor (node_list p)) = Some s"
    and "client_id i1 c1" and "client_id i2 c2" and "address a"
    and "send_ok w1 = []" and "rx w1 ServerSocket = str_frames a mo1 @ fs1"
    and "send_ok w2 = []" and "conn_ok w2 = []" and "rx w2 ServerSocket = RMsg (be32 r) True # RMsg l mo2 # fs2"
    and "r \<noteq> 0" and "unat r < 2 ^ 32 - 1" and "length l \<le> unat (r_max (node_list p)) * 256"
    and "cstr l = Some f" and "address f"
  shows "\<exists>r1 p1 p2 w1' w2'.
    GET_REQ_handler (from_client i1 p) w1 = Some (r1, p1, w1') \<and> current_status p1 = P2PM_NODE_HANDLING_JOIN \<and>
      tx w1' = tx w1 @ Tx ServerSocket c1 True # Tx ServerSocket (be32 (rep_code P2PM_GET_ACK)) True # str_ev ServerSocket s False \<and>
    JOIN_CMT_handler (from_client i2 p1) w2 = Some (P2PM_OP_SUCCESS, p2, w2') \<and> current_status p2 = P2PM_NODE_MEMBER \<and>
      tx w2' = tx w2 @ [Tx ServerSocket c2 True, Tx ServerSocket (be32 (rep_code P2PM_JOIN_ACK2)) False,
        Disc SuccessorSocket s, Conn SuccessorSocket a] \<and>
    p2p_ok p2 \<and> cstr (successor (node_list p2)) = Some a \<and> cstr (slot (successor_list (node_list p2)) 0) = Some a \<and>
    unat (ni_r (node_list p2)) = min (Suc (unat r)) (unat (r_max (node_list p))) \<and>
    (\<forall>j. 1 \<le> j \<and> j < unat (ni_r (node_list p2)) \<longrightarrow> slot (successor_list (node_list p2)) j =
       load (\<lambda>m. junk w2 ((j - 1) * 256 + m)) 256 (drop ((j - 1) * 256) (arrived w2 (unat (r_max (node_list p)) * 256) l)))"
  using assms by (rule join_in_order)

theorem join_at_predecessor_witness:
  "\<exists>r1 p1 p2 w1' w2'.
    GET_REQ_handler (from_client (demo_id ''x'') (demo_p2p P2PM_NODE_MEMBER)) (server_net (str_frames ''a'' False)) = Some (r1, p1, w1') \<and>
    JOIN_CMT_handler (from_client (demo_id ''x'') p1) (server_net [RMsg (be32 1) True, RMsg (c_bytes ''b'') False])
      = Some (P2PM_OP_SUCCESS, p2, w2') \<and>
    current_status p2 = P2PM_NODE_MEMBER \<and> cstr (successor (node_list p2)) = Some ''a'' \<and> unat (ni_r (node_list p2)) = Suc (Suc 0)"
  using join_at_predecessor [of "demo_p2p P2PM_NODE_MEMBER" "''s''" "demo_id ''x''" "''x''" "demo_id ''x''" "''x''" "''a''"
      "server_net (str_frames ''a'' False)" False "[]" "server_net [RMsg (be32 1) True, RMsg (c_bytes ''b'') False]" 1
      "c_bytes ''b''" False "[]" "''b''"]
  by (simp add: cstr_c_bytes0 c_string_def) blast

text \<open>
  The successor's side of a join: a member answers \<open>JOIN_REQ\<close> with its successor list and on
  \<open>PRED_JOIN_CMT\<close> changes its predecessor, and the connection to it, to the newcomer; its own list stays.
\<close>

theorem join_at_successor:
  assumes "p2p_ok p" and "current_status p = P2PM_NODE_MEMBER" and "cstr (predecessor (node_list p)) = Some q"
    and "client_id i1 c1" and "client_id i2 c2" and "address a"
    and "send_ok w1 = []" and "rx w1 ServerSocket = str_frames a mo @ fs" and "send_ok w2 = []" and "conn_ok w2 = []"
  shows "\<exists>p1 w1' p2 w2'.
    JOIN_REQ_handler (from_client i1 p) w1 = Some (P2PM_OP_SUCCESS, p1, w1') \<and>
      tx w1' = tx w1 @ [Tx ServerSocket c1 True, Tx ServerSocket (be32 (rep_code P2PM_JOIN_ACK1)) True,
        Tx ServerSocket (be32 (ni_r (node_list p))) True, Tx ServerSocket (slist_bytes (node_list p) w1) False] \<and>
    PRED_JOIN_CMT_handler (from_client i2 p1) w2 = Some (P2PM_OP_SUCCESS, p2, w2') \<and>
      tx w2' = tx w2 @ [Disc PredecessorSocket q, Conn PredecessorSocket a] \<and>
    current_status p2 = P2PM_NODE_MEMBER \<and> cstr (predecessor (node_list p2)) = Some a \<and>
    temp_predecessor (node_list p2) = zeros P2PM_MAX_ID_LEN \<and> successor_list (node_list p2) = successor_list (node_list p) \<and>
    p2p_ok p2"
  using assms by (rule join_successor_side)

theorem join_at_successor_witness:
  "\<exists>p1 w1' p2 w2'.
    JOIN_REQ_handler (from_client (demo_id ''x'') (demo_p2p P2PM_NODE_MEMBER)) (server_net (str_frames ''a'' False))
      = Some (P2PM_OP_SUCCESS, p1, w1') \<and>
    PRED_JOIN_CMT_handler (from_client (demo_id ''x'') p1) idle_net = Some (P2PM_OP_SUCCESS, p2, w2') \<and>
    tx w2' = [Disc PredecessorSocket ''q'', Conn PredecessorSocket ''a''] \<and> cstr (predecessor (node_list p2)) = Some ''a''"
  using join_at_successor [of "demo_p2p P2PM_NODE_MEMBER" "''q''" "demo_id ''x''" "''x''" "demo_id ''x''" "''x''" "''a''"
      "server_net (str_frames ''a'' False)" False "[]" idle_net]
  by simp blast

text \<open>
  The replication of a successor list towards the predecessors: with a time to live of 1 the list is
  only acknowledged, with any other it is copied behind the own first slot and relayed with one less;
  0 is not the end of the chain but wraps to \<open>2 ^ 32 - 1\<close>.
\<close>

theorem sync_slist_ttl:
  assumes "p2p_ok p" and "cstr (clientid p) = Some c" and "send_ok w = []"
    and "rx w ServerSocket = RMsg (be32 ttl) True # RMsg (be32 nr) True # RMsg l mo # fs"
    and "nr \<noteq> 0" and "nr \<le> r_max (node_list p)" and "length l \<le> unat nr * 256" and "cstr l = Some f" and "address f"
  shows "\<exists>p'. SYNC_SLIST_handler p w = Some (P2PM_OP_SUCCESS, p', out [Tx ServerSocket c True,
      Tx ServerSocket (be32 (rep_code P2PM_SYNC_SLIST_ACK)) False] (took ServerSocket fs mo w)) \<and> p2p_ok p' \<and>
    (if ttl = 1 then p' = p
     else p' = p\<lparr>node_list := node_list p', last_ttl := ttl - 1, server_triggered_actions := P2PM_XPV_RELAY_BACKWARDS\<rparr> \<and>
       unat (ni_r (node_list p')) = min (Suc (unat nr)) (unat (r_max (node_list p))) \<and>
       (\<forall>j < unat (r_max (node_list p)). slot (successor_list (node_list p')) j =
         (if 1 \<le> j \<and> j < unat (ni_r (node_list p'))
          then load (\<lambda>m. junk w ((j - 1) * 256 + m)) 256 (drop ((j - 1) * 256) (arrived w (unat nr * 256) l))
          else slot (successor_list (node_list p)) j)))"
  using assms by (rule sync_slist_run)

theorem sync_slist_ttl_witness:
  "\<exists>p'. SYNC_SLIST_handler (from_client (demo_id ''x'') (demo_p2p P2PM_NODE_MEMBER))
      (server_net [RMsg (be32 0) True, RMsg (be32 1) True, RMsg (c_bytes ''b'') False]) = Some (P2PM_OP_SUCCESS, p',
      out [Tx ServerSocket ''x'' True, Tx ServerSocket (be32 72) False]
        (took ServerSocket [] False (server_net [RMsg (be32 0) True, RMsg (be32 1) True, RMsg (c_bytes ''b'') False]))) \<and>
    p2p_ok p'"
  using sync_slist_ttl [of "from_client (demo_id ''x'') (demo_p2p P2PM_NODE_MEMBER)" "''x''"
      "server_net [RMsg (be32 0) True, RMsg (be32 1) True, RMsg (c_bytes ''b'') False]" 0 1 "c_bytes ''b''" False "[]" "''b''"]
    from_client_ok [of "demo_p2p P2PM_NODE_MEMBER" "demo_id ''x''" "''x''"]
  by (simp add: cstr_c_bytes0 c_string_def) blast

text \<open>
  \<open>p2pm_ni_copy_successor_list\<close> puts the successor's list behind the node's own first slot: slot
  \<open>j + 1\<close> gets slot \<open>j\<close> of the received list, up to the capacity, the number in use is one more than
  received and at most the capacity, and the first slot and everything else stay.
\<close>

theorem successor_list_copied:
  assumes "ni_wf n" and "cstr src = Some s" and "length s < 256" and "unat nr < 2 ^ 32 - 1"
  shows "\<exists>n'. p2pm_ni_copy_successor_list n src nr w = Some (P2PM_OP_SUCCESS, n') \<and> ni_wf n' \<and>
    unat (ni_r n') = min (Suc (unat nr)) (unat (r_max n)) \<and>
    n' = n\<lparr>ni_r := ni_r n', successor_list := successor_list n'\<rparr> \<and>
    (\<forall>j < unat (r_max n). slot (successor_list n') j =
       (if 1 \<le> j \<and> j < unat (ni_r n')
        then load (\<lambda>m. junk w ((j - 1) * 256 + m)) 256 (drop ((j - 1) * 256) src)
        else slot (successor_list n) j))"
  using assms by (rule copy_successor_list_run)

theorem successor_list_copied_witness:
  "\<exists>n'. p2pm_ni_copy_successor_list demo_node (CHR ''x'' # zeros 255) 1 idle_net = Some (P2PM_OP_SUCCESS, n') \<and>
    slot (successor_list n') 1 = CHR ''x'' # zeros 255 \<and> slot (successor_list n') 0 = slot (successor_list demo_node) 0 \<and>
    unat (ni_r n') = 2"
proof -
  have wf: "ni_wf demo_node" "r_max demo_node = 3" by (simp_all add: demo_node_def ni_wf_def)
  have "cstr (CHR ''x'' # zeros 255) = Some ''x''" by (simp add: cstr_def)
  then obtain n' where n': "p2pm_ni_copy_successor_list demo_node (CHR ''x'' # zeros 255) 1 idle_net = Some (P2PM_OP_SUCCESS, n')"
    "unat (ni_r n') = 2" "\<forall>j < 3. slot (successor_list n') j =
       (if 1 \<le> j \<and> j < unat (ni_r n')
        then load (\<lambda>m. junk idle_net ((j - 1) * 256 + m)) 256 (drop ((j - 1) * 256) (CHR ''x'' # zeros 255))
        else slot (successor_list demo_node) j)"
    using successor_list_copied [OF wf(1), of "CHR ''x'' # zeros 255" "''x''" 1 idle_net] wf(2) by auto
  have "load (\<lambda>m. junk idle_net m) 256 (CHR ''x'' # zeros 255) = CHR ''x'' # zeros 255" by (rule load_exact) simp
  then show ?thesis using n'(1,2) n'(3) [rule_format, of 0] n'(3) [rule_format, of 1] by simp
qed

text \<open>
  \<open>p2pm_ni_successor_list_next\<close> goes through the slots in use in order and returns to the first,
  in 32 bit arithmetic, for every list of fewer than \<open>2 ^ 24\<close> slots.
\<close>

theorem successor_list_cycles:
  assumes "0 < unat (ni_r n)" and "unat (ni_r n) < 2 ^ 24" and "i < unat (ni_r n)"
  shows "unat (p2pm_ni_successor_list_next n (word_of_nat (i * 256))) = (Suc i mod unat (ni_r n)) * 256"
  using assms by (rule successor_list_next_run)

theorem successor_list_cycles_witness:
  "unat (p2pm_ni_successor_list_next demo_node 0) = 256 \<and> unat (p2pm_ni_successor_list_next demo_node 256) = 0"
  using successor_list_cycles [of demo_node 0] successor_list_cycles [of demo_node 1] by (simp add: demo_node_def)

text \<open>
  A C string sent by \<open>p2pm_send_str\<close> is two frames, its length with the terminator and its bytes,
  and the receiver that gets them has a block with exactly these bytes.
\<close>

theorem string_roundtrip:
  assumes "send_ok w = []" and "c_string str" and "fits_int str" and "rx v r = str_frames str mo @ fs"
  shows "\<exists>n w1 b. p2pm_send_str s str mo w = (n, w1) \<and>
    tx w1 = tx w @ [Tx s (be_bytes 4 (unat (str_len str))) True, Tx s (c_bytes str) mo] \<and>
    p2pm_recv_str r v = Some (P2PM_OP_SUCCESS, Some b, took r fs mo v) \<and> deref b = Some str"
  using assms p2pm_recv_str_ok [OF assms(3), of v r mo fs]
  by (simp add: p2pm_send_str_ok str_frames_def cstr_c_bytes0)

theorem string_roundtrip_witness:
  "\<exists>n w1 b. p2pm_send_str ClientSocket ''abc'' True idle_net = (n, w1) \<and>
    tx w1 = [Tx ClientSocket [CHR 0x00, CHR 0x00, CHR 0x00, CHR 0x04] True, Tx ClientSocket (''abc'' @ [nul]) True] \<and>
    p2pm_recv_str ServerSocket (idle_net\<lparr>rx := \<lambda>_. str_frames ''abc'' True\<rparr>) = Some (P2PM_OP_SUCCESS, Some b,
      took ServerSocket [] True (idle_net\<lparr>rx := \<lambda>_. str_frames ''abc'' True\<rparr>)) \<and> deref b = Some ''abc''"
  using string_roundtrip [of idle_net "''abc''" "idle_net\<lparr>rx := \<lambda>_. str_frames ''abc'' True\<rparr>" ServerSocket True "[]" ClientSocket]
  by (simp add: idle_net_def c_string_def fits_int_def str_len_def be_bytes_def c_bytes_def byte_eval)

text \<open>
  The answer to a client goes to its id when the buffer was empty, but after a client with a longer
  id it goes to the id completed with the end of the longer one: the buffer is neither cleared nor
  terminated.
\<close>

theorem short_client_id:
  assumes "c_string x" and "c_string y" and "length y < length x" and "length x < P2PM_MAX_ID_LEN"
    and "clientid p = x @ zeros (P2PM_MAX_ID_LEN - length x)" and "send_ok w = []"
    and "rx w ServerSocket = RMsg y True # RMsg (be32 (req_code P2PM_PING_REQ)) mo # fs"
  shows "\<exists>p'. serve_request p w = Some (True, p', out [Tx ServerSocket (y @ drop (length y) x) True,
    Tx ServerSocket (be32 (rep_code P2PM_PONG_REP)) False] (took ServerSocket fs mo w))"
  using ping_reply [OF assms(5) stale_client_id [OF assms(1-4)] _ assms(6,7)] assms(3,4) by auto

theorem short_client_id_witness:
  "\<exists>p'. serve_request ((demo_p2p P2PM_NODE_MEMBER)\<lparr>clientid := ''xyz'' @ zeros (P2PM_MAX_ID_LEN - 3)\<rparr>)
      (server_net [RMsg ''a'' True, RMsg (be32 62) False]) = Some (True, p', out [Tx ServerSocket ''ayz'' True,
      Tx ServerSocket (be32 7) False] (took ServerSocket [] False (server_net [RMsg ''a'' True, RMsg (be32 62) False])))"
  using short_client_id [of "''xyz''" "''a''" "(demo_p2p P2PM_NODE_MEMBER)\<lparr>clientid := ''xyz'' @ zeros (P2PM_MAX_ID_LEN - 3)\<rparr>"
      "server_net [RMsg ''a'' True, RMsg (be32 62) False]" False "[]"]
  by (simp add: c_string_def P2PM_MAX_ID_LEN_def)

text \<open>
  Storing an anonymous tuple while any request is pending on the named queue faults: the search reads
  the null name of the tuple, or the answer measures it (\<open>strcmp\<close> or \<open>strlen\<close> of null).
\<close>

theorem add_with_pending_faults:
  assumes "tsd_space L ti ri si"
    and "ri (named_queue_requests e) = b # bs" and "waiter_ok b" and "anonymous t"
  shows "match_blocking_requests L self e t TsAdd w = None"
  using assms by (rule tsd_space.match_add_pending)

theorem add_with_pending_faults_witness:
  "match_blocking_requests demo_lib demo_cfg
     (demo_space\<lparr>named_queue_requests := [demo_request ''k'' ''a'' TsGet_Blocking]\<rparr>)
     \<lparr>tname = Null, anon_id = 7, tlen = 1, tdata = Live ''v''\<rparr> TsAdd idle_net = None"
  by (rule add_with_pending_faults [OF demo_lib_space, of _ "demo_request ''k'' ''a'' TsGet_Blocking" "[]"])
    (simp_all add: waiter_ok_def demo_request_def cstr_c_bytes0 c_string_def anonymous_def)

text \<open>
  \<open>EntriesUpto\<close>, which looks bytes up in a table of 256 counts with unrolled loops and a fall-through
  for each width, is the number of bits set below position \<open>i\<close>: the index of bucket \<open>i\<close> in the array of
  its group.
\<close>

theorem sparse_counts_bits:
  assumes "i \<le> 64 * length bm"
  shows "EntriesUpto bm i = Some (length (filter (\<lambda>j. bit (bm ! (j div 64)) (j mod 64)) [0..<i]))"
  using EntriesUpto_rank [OF assms] by (simp add: rank_bits_def)

theorem sparse_counts_bits_witness:
  "EntriesUpto [0xF0F0, 5] 67 = Some 10 \<and> length (filter (\<lambda>j. bit ([0xF0F0, 5 :: u64] ! (j div 64)) (j mod 64)) [0..<67]) = 10"
proof -
  have "EntriesUpto [0xF0F0, 5] 67 = Some 10"
    by (simp add: EntriesUpto_def entries_words.simps entries_rest_def byte_bits_def low_bits_def bits_in_def
        rgcBits_def elem_def)
  then show ?thesis using sparse_counts_bits [of 67 "[0xF0F0, 5]"] by simp
qed

text \<open>
  An integer of 16, 32 or 64 bits sent by \<open>p2pm_send_uint*\<close> and delivered as one frame is read by
  the receiver of the same width as the same value, whatever the variable held, and the frame carries
  its bytes most significant first.
\<close>

theorem integers_roundtrip:
  assumes "send_ok w = []"
  shows "(\<exists>n w1. p2pm_send_uint16 s x mo w = (n, w1) \<and> tx w1 = tx w @ [Tx s (be_bytes 2 (unat x)) mo]) \<and>
    (\<exists>n w1. p2pm_send_uint32 s y mo w = (n, w1) \<and> tx w1 = tx w @ [Tx s (be_bytes 4 (unat y)) mo]) \<and>
    (\<exists>n w1. p2pm_send_uint64 s z mo w = (n, w1) \<and> tx w1 = tx w @ [Tx s (be_bytes 8 (unat z)) mo]) \<and>
    (rx v r = RMsg (be_bytes 2 (unat x)) mo # fs \<longrightarrow> p2pm_recv_uint16 r old16 v = (P2PM_OP_SUCCESS, x, took r fs mo v)) \<and>
    (rx v r = RMsg (be_bytes 4 (unat y)) mo # fs \<longrightarrow> p2pm_recv_uint32 r old32 v = (P2PM_OP_SUCCESS, y, took r fs mo v)) \<and>
    (rx v r = RMsg (be_bytes 8 (unat z)) mo # fs \<longrightarrow> p2pm_recv_uint64 r old64 v = (P2PM_OP_SUCCESS, z, took r fs mo v))"
  using u16.send_emits [OF assms, of s x mo] u32.send_emits [OF assms, of s y mo] u64.send_emits [OF assms, of s z mo]
  by (simp add: u16.recv_v_ok u32.recv_v_ok u64.recv_v_ok)

theorem integers_roundtrip_witness:
  "p2pm_recv_uint64 ServerSocket 5 (idle_net\<lparr>rx := \<lambda>_. [RMsg (be_bytes 8 258) False]\<rparr>) =
    (P2PM_OP_SUCCESS, 258, took ServerSocket [] False (idle_net\<lparr>rx := \<lambda>_. [RMsg (be_bytes 8 258) False]\<rparr>)) \<and>
   be_bytes 8 258 = [nul, nul, nul, nul, nul, nul, CHR 0x01, CHR 0x02]"
  using integers_roundtrip [of idle_net ServerSocket 0 False 0 258 "idle_net\<lparr>rx := \<lambda>_. [RMsg (be_bytes 8 258) False]\<rparr>"
      ServerSocket "[]" 0 0 5]
  by (simp add: idle_net_def be_bytes_def byte_eval)

text \<open>
  The loop \<open>for (bck = HashFirstBucket(ht); bck; bck = HashNextBucket(ht))\<close> ends and visits every
  item of the table exactly once, none that was deleted, and as many as the table counts; the table
  is left as it was.
\<close>

theorem hash_walk_sees_all:
  assumes "ht_ok ht"
  shows "\<exists>its ht'. hash_walk ht = Some (its, ht') \<and> same_content ht ht' \<and>
    length its = unat (cItems ht) \<and> distinct (map (\<lambda>it. the (kof ht it)) its) \<and>
    ht_map ht = map_of (map (\<lambda>it. (the (kof ht it), bck_data it)) its)"
  using assms by (rule hash_walk_items)

theorem hash_walk_sees_all_witness:
  "\<exists>ht0 ht its ht'. AllocateHashTable 0 1 = Some ht0 \<and> run_table [OpInsert ''a'' 1, OpInsert ''b'' 2] ht0 = Some ([], ht) \<and>
    hash_walk ht = Some (its, ht') \<and> map_of (map (\<lambda>it. (the (kof ht it), bck_data it)) its) = [''a'' \<mapsto> 1, ''b'' \<mapsto> 2]"
proof -
  obtain ht0 where ht0: "AllocateHashTable 0 1 = Some ht0" "plain ht0" "ht_map ht0 = Map.empty" "cItems ht0 = 0"
    by (rule fresh_plain)
  have "\<exists>ht. run_table [OpInsert ''a'' 1, OpInsert ''b'' 2] ht0 = Some ([], ht) \<and> plain ht \<and> ht_map ht = [''a'' \<mapsto> 1, ''b'' \<mapsto> 2]"
    using run_table_map [OF ht0(2), of "[OpInsert ''a'' 1, OpInsert ''b'' 2]"] ht0(3,4)
    by (auto simp: c_string_def DELETED_def)
  then obtain ht where ht: "run_table [OpInsert ''a'' 1, OpInsert ''b'' 2] ht0 = Some ([], ht)" "plain ht"
    "ht_map ht = [''a'' \<mapsto> 1, ''b'' \<mapsto> 2]" by blast
  have "ht_ok ht" using ht(2) by (simp add: plain_def)
  from hash_walk_sees_all [OF this] show ?thesis using ht0(1) ht(1,3) by auto
qed

text \<open>
  \<open>HashSetDeltaGoalSize\<close> with the number of items that are about to be deleted, as its comment asks,
  followed by these deletions leaves a table that had grown without any bucket, and every later search reads
  outside it: for any 256 or more distinct strings.
\<close>

theorem announced_deletions_break:
  assumes "distinct xs" and "\<forall>s \<in> set xs. c_string s" and "256 \<le> length xs" and "length xs < 2 ^ 27" and "d \<noteq> DELETED"
  shows "\<exists>h0 h1 h2 h3. AllocateHashTable 0 save = Some h0 \<and>
    run_table (map (\<lambda>s. OpInsert s d) xs) h0 = Some ([], h1) \<and>
    HashSetDeltaGoalSize h1 (- int (length xs)) = (- int (length xs), h2) \<and>
    run_table (map OpDelete xs) h2 = Some ([], h3) \<and> cBuckets h3 = 0 \<and> (\<forall>key. HashFind h3 key = None)"
  using assms by (rule announced_deletions)

theorem announced_deletions_break_witness:
  "\<exists>h0 h1 h2 h3. AllocateHashTable 0 1 = Some h0 \<and>
    run_table (map (\<lambda>s. OpInsert s 7) (map (\<lambda>i. replicate i CHR ''a'') [0..<256])) h0 = Some ([], h1) \<and>
    HashSetDeltaGoalSize h1 (- 256) = (- 256, h2) \<and>
    run_table (map OpDelete (map (\<lambda>i. replicate i CHR ''a'') [0..<256])) h2 = Some ([], h3) \<and>
    cBuckets h3 = 0 \<and> HashFind h3 (str_key ''a'') = None"
proof -
  have "distinct (map (\<lambda>i. replicate i CHR ''a'') [0..<256])"
    by (auto simp: distinct_map inj_on_def dest: arg_cong [of _ _ length])
  moreover have "\<forall>s \<in> set (map (\<lambda>i. replicate i CHR ''a'') [0..<256]). c_string s"
    by (auto simp: c_string_def)
  moreover have "length (map (\<lambda>i. replicate i CHR ''a'') [0..<256]) = 256" by simp
  ultimately show ?thesis
    using announced_deletions_break [of "map (\<lambda>i. replicate i CHR ''a'') [0..<256]" 7 1]
    by (simp del: map_map) (auto simp: DELETED_def)
qed

text \<open>
  What the format of the file loses. \<open>WRITE_UL\<close> sends a word of 64 bits through \<open>htonl\<close>, which
  has 32: of every number, only the low half is read back, so the mark of a deleted item is not read
  back as such; and of a sparse table, whose groups have 64 buckets, the read table has only those
  buckets that are in the lower half of their group, while the rest of the file is read in step.
\<close>

theorem file_keeps_half:
  fixes t :: "HTItem SparseBin list" and mem :: "nat \<Rightarrow> nat \<Rightarrow> HTItem"
  assumes "tab_ok t" and "1 \<le> length t" and "length t \<le> 2 ^ 24"
  shows "\<exists>t' bs. SparseWrite t (of_nat (64 * length t)) (end_of b) = Some (end_of (b @ bs)) \<and>
    (\<forall>a r. SparseRead mem (reading a (bs @ r)) = Some (of_nat (64 * length t), t', reading (a @ bs) r)) \<and>
    (\<forall>l. tab_at t' l \<noteq> None \<longleftrightarrow> tab_at t l \<noteq> None \<and> l mod 64 < 32) \<and>
    (\<forall>a d r. READ_UL (reading a (fl_bytes (WRITE_UL d (end_of [])) @ r)) =
      Some (take_bit 32 d, reading (a @ fl_bytes (WRITE_UL d (end_of []))) r)) \<and> take_bit 32 DELETED \<noteq> DELETED"
proof -
  have "fl_bytes (WRITE_UL d (end_of [])) = ul_image d" for d
    by (simp only: WRITE_UL_end append_Nil) (simp add: end_of_def)
  then have "READ_UL (reading a (fl_bytes (WRITE_UL d (end_of [])) @ r)) =
    Some (take_bit 32 d, reading (a @ fl_bytes (WRITE_UL d (end_of []))) r)" for a d r
    by (simp add: low32_take_bit del: WRITE_UL_end)
  moreover have "take_bit 32 DELETED \<noteq> DELETED" using low32_DELETED by (simp add: low32_take_bit DELETED_def)
  ultimately show ?thesis using SparseRead_back [OF assms, of b mem] by blast
qed

theorem file_keeps_half_witness:
  "\<exists>s0 fs t t' bs. SparseAllocate 64 = Some (64, s0) \<and>
    put_all SparseInsert [(3, \<lparr>bck_data = 1, bck_key = KPtr Null\<rparr>, False), (40, \<lparr>bck_data = 2, bck_key = KPtr Null\<rparr>, False)] s0 = Some (fs, t) \<and>
    SparseWrite t 64 (end_of []) = Some (end_of bs) \<and>
    SparseRead (\<lambda>_ _. \<lparr>bck_data = 0, bck_key = KPtr Null\<rparr>) (reading [] bs) = Some (64, t', reading bs []) \<and>
    tab_at t 3 \<noteq> None \<and> tab_at t 40 \<noteq> None \<and> tab_at t' 3 \<noteq> None \<and> tab_at t' 40 = None"
proof -
  have "0 < unat (64 :: u64)" "unat (64 :: u64) \<le> 2 ^ 30" by simp_all
  then obtain s0 :: "HTItem SparseBin list" where s0: "SparseAllocate 64 = Some (of_nat (64 * length s0), s0)"
    "length s0 = (unat (64 :: u64) - 1) div 64 + 1" "tab_ok s0" "tab_at s0 = Map.empty"
    by (rule SparseAllocate_ok)
  have l0: "length s0 = 1" using s0(2) by simp
  let ?x = "\<lparr>bck_data = 1, bck_key = KPtr Null\<rparr>" and ?y = "\<lparr>bck_data = 2, bck_key = KPtr Null\<rparr>"
  have "unat (3 :: u64) < 64 * length s0" "tab_at s0 (unat (3 :: u64)) = None" using l0 s0(4) by simp_all
  then obtain t1 where t1: "SparseInsert s0 ?x 3 False = Some (ptr_of t1 (unat (3 :: u64)), False, t1)" "tab_ok t1"
    "tab_at t1 = (tab_at s0)(unat (3 :: u64) \<mapsto> ?x)" "length t1 = length s0"
    by (rule SparseInsert_empty [OF s0(3)])
  have "unat (40 :: u64) < 64 * length t1" "tab_at t1 (unat (40 :: u64)) = None" using l0 s0(4) t1(3,4) by simp_all
  then obtain t where t: "SparseInsert t1 ?y 40 False = Some (ptr_of t (unat (40 :: u64)), False, t)" "tab_ok t"
    "tab_at t = (tab_at t1)(unat (40 :: u64) \<mapsto> ?y)" "length t = length t1"
    by (rule SparseInsert_empty [OF t1(2)])
  have len: "length t = 1" using l0 t(4) t1(4) by simp
  have at: "tab_at t 3 \<noteq> None" "tab_at t 40 \<noteq> None" using t(3) t1(3) by simp_all
  have "1 \<le> length t" "length t \<le> 2 ^ 24" using len by simp_all
  from file_keeps_half [OF t(2) this, of "[]" "\<lambda>_ _. \<lparr>bck_data = 0, bck_key = KPtr Null\<rparr>"]
  obtain t' bs where "SparseWrite t 64 (end_of []) = Some (end_of bs)"
    "\<forall>a r. SparseRead (\<lambda>_ _. \<lparr>bck_data = 0, bck_key = KPtr Null\<rparr>) (reading a (bs @ r)) = Some (64, t', reading (a @ bs) r)"
    "\<forall>l. tab_at t' l \<noteq> None \<longleftrightarrow> tab_at t l \<noteq> None \<and> l mod 64 < 32"
    using len by auto
  moreover from this(2) have "SparseRead (\<lambda>_ _. \<lparr>bck_data = 0, bck_key = KPtr Null\<rparr>) (reading [] bs) = Some (64, t', reading bs [])"
    by (metis append_Nil append_Nil2)
  moreover have "tab_at t' 3 \<noteq> None" "tab_at t' 40 = None" using spec [OF calculation(3), of 3] spec [OF calculation(3), of 40] at by simp_all
  moreover have "put_all SparseInsert [(3, ?x, False), (40, ?y, False)] s0 = Some ([False, False], t)"
    using t1(1) t(1) by simp
  moreover have "SparseAllocate 64 = Some (64, s0)" using s0(1) l0 by simp
  ultimately show ?thesis using at by blast
qed

text \<open>
  With fewer successors than slots and the first slot in use, \<open>p2pm_ni_add_successor\<close> always writes
  the second slot and overwrites the successor that was there: the test of the condensing loop looks at
  the index instead of the byte and clears that slot. All other slots, and the block, stay as they were.
\<close>

theorem add_successor_overwrites:
  assumes "ni_wf n" and "ni_r n < r_max n" and "2 \<le> unat (r_max n)" and "slot (successor_list n) 0 ! 0 \<noteq> nul"
    and "length s < 256" and "c_string s"
  shows "\<exists>n'. p2pm_ni_add_successor n s = Some (P2PM_OP_SUCCESS, n') \<and> ni_wf n' \<and> ni_r n' = ni_r n \<and>
    r_max n' = r_max n \<and> cstr (slot (successor_list n') 1) = Some s \<and>
    (\<forall>j < unat (r_max n). j \<noteq> 1 \<longrightarrow> slot (successor_list n') j = slot (successor_list n) j)"
  using assms by (rule add_successor_second)

theorem add_successor_overwrites_witness:
  "\<exists>n'. p2pm_ni_add_successor demo_node ''c'' = Some (P2PM_OP_SUCCESS, n') \<and> ni_wf n' \<and> ni_r n' = 2 \<and> r_max n' = 3 \<and>
    cstr (slot (successor_list n') 1) = Some ''c'' \<and>
    (\<forall>j < 3. j \<noteq> 1 \<longrightarrow> slot (successor_list n') j = slot (successor_list demo_node) j)"
  using add_successor_overwrites [of demo_node "''c''"] by (simp add: demo_node_def ni_wf_def slot_def c_string_def)

text \<open>
  Stabilisation at the successor: \<open>STABILIZE_REQ\<close> is answered with the successor list and, after
  \<open>STABILIZE_SYN_REQ\<close>, its sender is the predecessor; the connection changes only if the sender was not
  the predecessor before. The node is a member again.
\<close>

theorem stabilize_adopts_predecessor:
  assumes "p2p_ok p" and "current_status p = P2PM_NODE_MEMBER \<or> current_status p = P2PM_NODE_HANDLING_STABILIZE"
    and "cstr (predecessor (node_list p)) = Some q" and "client_id i1 c1" and "client_id i2 c2" and "address a"
    and "send_ok w1 = []" and "rx w1 ServerSocket = str_frames a mo @ fs" and "conn_ok w2 = []"
  shows "\<exists>p1 w1' p2 w2'.
    STABILIZE_REQ_handler (from_client i1 p) w1 = Some (P2PM_OP_SUCCESS, p1, w1') \<and>
      tx w1' = tx w1 @ [Tx ServerSocket c1 True, Tx ServerSocket (be32 (rep_code P2PM_STABILIZE_ACK)) True,
        Tx ServerSocket (be32 (ni_r (node_list p))) True, Tx ServerSocket (slist_bytes (node_list p) w1) False] \<and>
    STABILIZE_SYN_REQ_handler (from_client i2 p1) w2 = Some (P2PM_OP_SUCCESS, p2, w2') \<and>
      tx w2' = tx w2 @ (if q = a then [] else [Disc PredecessorSocket q, Conn PredecessorSocket a]) \<and>
    current_status p2 = P2PM_NODE_MEMBER \<and> cstr (predecessor (node_list p2)) = Some a \<and> p2p_ok p2"
  using assms by (rule stabilize_in_order)

theorem stabilize_adopts_predecessor_witness:
  "\<exists>p1 w1' p2 w2'.
    STABILIZE_REQ_handler (from_client (demo_id ''x'') (demo_p2p P2PM_NODE_MEMBER)) (server_net (str_frames ''a'' False))
      = Some (P2PM_OP_SUCCESS, p1, w1') \<and>
    STABILIZE_SYN_REQ_handler (from_client (demo_id ''x'') p1) idle_net = Some (P2PM_OP_SUCCESS, p2, w2') \<and>
    tx w2' = [Disc PredecessorSocket ''q'', Conn PredecessorSocket ''a''] \<and> cstr (predecessor (node_list p2)) = Some ''a''"
  using stabilize_adopts_predecessor [of "demo_p2p P2PM_NODE_MEMBER" "''q''" "demo_id ''x''" "''x''" "demo_id ''x''" "''x''" "''a''"
      "server_net (str_frames ''a'' False)" False "[]" idle_net]
  by simp blast

text \<open>
  \<open>HashFindOrInsert\<close> of a key that has just been deleted does not insert it: it counts an item
  and returns the bucket that marks the deletion, and a search for the key fails, in every table of
  fewer than 1024 buckets with no announced goal size.
\<close>

theorem find_or_insert_loses:
  assumes "ht_ok ht" and "is_key ht key s" and "ht_map ht s = Some d0"
    and "unat (cBuckets ht) < 1024" and "cDeltaGoalSize ht = 0"
  shows "\<exists>h1 p h2 it h3. HashDelete ht key = Some (1, h1) \<and> ht_map h1 s = None \<and>
    HashFindOrInsert h1 key d = Some (Some p, h2) \<and> item_at h2 p = Some it \<and> IS_BCK_DELETED it \<and>
    HashFind h2 key = Some (None, h3) \<and> cItems h2 = cItems ht"
  using assms by (rule FindOrInsert_after_delete)

theorem find_or_insert_loses_witness:
  "\<exists>ht0 p0 ht h1 p h2 it h3. AllocateHashTable 0 1 = Some ht0 \<and> HashInsert ht0 (str_key ''a'') 1 = Some (p0, ht) \<and>
    HashDelete ht (str_key ''a'') = Some (1, h1) \<and> HashFindOrInsert h1 (str_key ''a'') 7 = Some (Some p, h2) \<and>
    item_at h2 p = Some it \<and> IS_BCK_DELETED it \<and> HashFind h2 (str_key ''a'') = Some (None, h3) \<and> cItems h2 = 1"
proof -
  obtain ht0 where ht0: "AllocateHashTable 0 1 = Some ht0" "plain ht0" "ht_map ht0 = Map.empty" "cItems ht0 = 0"
    by (rule fresh_plain)
  obtain p0 ht where ht: "HashInsert ht0 (str_key ''a'') 1 = Some (Some p0, ht)" "plain ht"
    "ht_map ht = (ht_map ht0)(''a'' \<mapsto> 1)"
    "unat (cItems ht) = unat (cItems ht0) + (if ht_map ht0 ''a'' = None then 1 else 0)"
    by (rule plain_insert [OF ht0(2), of "''a''" 1]) (simp_all add: ht0(4) c_string_def DELETED_def)
  have i: "unat (cItems ht) = 1" using ht(4) ht0(3,4) by simp
  then have one: "cItems ht = 1" by (metis unat_1 word_unat_eq_iff)
  have "is_key ht (str_key ''a'') ''a''" using plain_key [OF ht(2)] by (simp add: c_string_def)
  from find_or_insert_loses [OF _ this, of 1 7] show ?thesis
    using ht0(1) ht i one by (auto simp: plain_def)
qed

end
